(* ===== verification/Eb_Prelude.thy ===== *)
theory Eb_Prelude
  imports Main "HOL-Library.Word" "HOL-Library.Monad_Syntax"
begin

text \<open>
  Shared vocabulary of the development: the C integer types as words, the status codes and
  bit masks of \<^verbatim>\<open>api/etherbone.h\<close>, big-endian byte sequences, and the generic facts on words,
  lists and options that the component theories use.
\<close>

unbundle bit_operations_syntax

section \<open>Integer types\<close>

type_synonym u8 = "8 word"
type_synonym u16 = "16 word"
type_synonym u32 = "32 word"
type_synonym u64 = "64 word"

text \<open>
  \<^verbatim>\<open>eb_address_t\<close> and \<^verbatim>\<open>eb_data_t\<close> default to \<^verbatim>\<open>uintptr_t\<close>; the model is the 64-bit build, in which
  both are 8 bytes wide. \<^verbatim>\<open>EB_POINTER(typ)\<close> is \<^verbatim>\<open>uint16_t\<close> in the default (array) memory model.
\<close>

type_synonym eb_address_t = u64
type_synonym eb_data_t = u64
type_synonym eb_width_t = u8
type_synonym eb_format_t = u8
type_synonym eb_user_data_t = u64
type_synonym eb_status_t = int
type_synonym eb_ptr = u16

named_theorems eb_consts \<open>the numeric constants of the C headers\<close>
named_theorems eb_mem \<open>effect of heap reads on heap writes\<close>
named_theorems eb_frame \<open>what an operation leaves unchanged\<close>

definition EB_NULL :: eb_ptr where [eb_consts]: "EB_NULL = 0xFFFF"

abbreviation (input) EB_OK :: eb_status_t where "EB_OK \<equiv> 0"
abbreviation (input) EB_FAIL :: eb_status_t where "EB_FAIL \<equiv> -1"
abbreviation (input) EB_ADDRESS :: eb_status_t where "EB_ADDRESS \<equiv> -2"
abbreviation (input) EB_WIDTH :: eb_status_t where "EB_WIDTH \<equiv> -3"
abbreviation (input) EB_OVERFLOW :: eb_status_t where "EB_OVERFLOW \<equiv> -4"
abbreviation (input) EB_ENDIAN :: eb_status_t where "EB_ENDIAN \<equiv> -5"
abbreviation (input) EB_BUSY :: eb_status_t where "EB_BUSY \<equiv> -6"
abbreviation (input) EB_TIMEOUT :: eb_status_t where "EB_TIMEOUT \<equiv> -7"
abbreviation (input) EB_OOM :: eb_status_t where "EB_OOM \<equiv> -8"
abbreviation (input) EB_ABI :: eb_status_t where "EB_ABI \<equiv> -9"
abbreviation (input) EB_SEGFAULT :: eb_status_t where "EB_SEGFAULT \<equiv> -10"

abbreviation (input) EB_DATA8 :: u8 where "EB_DATA8 \<equiv> 0x01"
abbreviation (input) EB_DATA16 :: u8 where "EB_DATA16 \<equiv> 0x02"
abbreviation (input) EB_DATA32 :: u8 where "EB_DATA32 \<equiv> 0x04"
abbreviation (input) EB_DATA64 :: u8 where "EB_DATA64 \<equiv> 0x08"
abbreviation (input) EB_DATAX :: u8 where "EB_DATAX \<equiv> 0x0f"
abbreviation (input) EB_ADDR8 :: u8 where "EB_ADDR8 \<equiv> 0x10"
abbreviation (input) EB_ADDR16 :: u8 where "EB_ADDR16 \<equiv> 0x20"
abbreviation (input) EB_ADDR32 :: u8 where "EB_ADDR32 \<equiv> 0x40"
abbreviation (input) EB_ADDR64 :: u8 where "EB_ADDR64 \<equiv> 0x80"
abbreviation (input) EB_ADDRX :: u8 where "EB_ADDRX \<equiv> 0xf0"
abbreviation (input) EB_ENDIAN_MASK :: u8 where "EB_ENDIAN_MASK \<equiv> 0x30"
abbreviation (input) EB_BIG_ENDIAN :: u8 where "EB_BIG_ENDIAN \<equiv> 0x10"
abbreviation (input) EB_LITTLE_ENDIAN :: u8 where "EB_LITTLE_ENDIAN \<equiv> 0x20"

section \<open>Words\<close>

lemma word8_all: "(\<forall>w :: u8. P w) \<longleftrightarrow> (\<forall>n < 256. P (of_nat n))"
proof
  assume *: "\<forall>n < 256. P (of_nat n)"
  show "\<forall>w :: u8. P w"
  proof
    fix w :: u8
    have "unat w < 256" using unsigned_less [of w] by simp
    with * have "P (of_nat (unat w))" by blast
    then show "P w" by simp
  qed
qed simp

lemma word8_cases_upt:
  assumes "list_all P (map of_nat [0..<256])"
  shows "P (w :: u8)"
proof -
  have "unat w < 256" using unsigned_less [of w] by simp
  then have "of_nat (unat w) \<in> set (map of_nat [0..<256] :: u8 list)"
    by (simp only: set_map set_upt) (rule imageI, simp)
  with assms show ?thesis by (auto simp: list_all_iff)
qed

lemma word8_upt:
  assumes "P 0" "P 1" "list_all P (map of_nat [2..<256])"
  shows "P (w :: u8)"
proof (rule word8_cases_upt)
  have "[0..<256] = 0 # [Suc 0..<256]" by (rule upt_conv_Cons) simp
  also have "[Suc 0..<256] = Suc 0 # [Suc (Suc 0)..<256]" by (rule upt_conv_Cons) simp
  finally have "[0..<256] = 0 # Suc 0 # [2..<256]" by (simp only: numeral_2_eq_2)
  with assms show "list_all P (map of_nat [0..<256])"
    by (simp only: list.map list.pred_inject of_nat_0 of_nat_Suc add_0_right) simp
qed

lemma u16_eq_of_nat: "b < 65536 \<Longrightarrow> (p :: u16) = of_nat b \<longleftrightarrow> unat p = b"
  by (simp add: word_unat_eq_iff unat_of_nat)

section \<open>Big-endian byte sequences\<close>

text \<open>\<open>be_bytes n v\<close> is the big-endian encoding of the low \<open>n\<close> bytes of \<open>v\<close>; \<open>be_word\<close> reads a
  byte sequence back as a 64-bit value.\<close>

primrec be_bytes :: "nat \<Rightarrow> u64 \<Rightarrow> u8 list" where
  "be_bytes 0 v = []"
| "be_bytes (Suc n) v = ucast (drop_bit (8 * n) v) # be_bytes n v"

definition be_word :: "u8 list \<Rightarrow> u64" where
  "be_word bs = foldl (\<lambda>acc b. push_bit 8 acc OR ucast b) 0 bs"

lemma length_be_bytes [simp]: "length (be_bytes n v) = n"
  by (induction n) auto

lemma be_word_Nil [simp]: "be_word [] = 0"
  by (simp add: be_word_def)

lemma be_word_snoc: "be_word (bs @ [b]) = push_bit 8 (be_word bs) OR ucast b"
  by (simp add: be_word_def)

lemma foldl_be_word:
  "foldl (\<lambda>acc b. push_bit 8 acc OR ucast b) a bs
     = push_bit (8 * length bs) (a :: u64) OR be_word bs"
proof (induction bs rule: rev_induct)
  case Nil
  then show ?case by (simp add: be_word_def)
next
  case (snoc b bs)
  show ?case
    by (simp add: snoc.IH be_word_snoc or.assoc add.commute)
qed

lemma be_word_Cons: "be_word (b # bs) = push_bit (8 * length bs) (ucast b) OR be_word bs"
proof -
  have "be_word (b # bs) = foldl (\<lambda>acc b. push_bit 8 acc OR ucast b) (ucast b :: u64) bs"
    by (simp add: be_word_def)
  then show ?thesis by (simp only: foldl_be_word)
qed

lemma be_word_be_bytes: "n \<le> 8 \<Longrightarrow> be_word (be_bytes n v) = take_bit (8 * n) v"
proof (induction n)
  case 0
  then show ?case by (simp add: be_word_def)
next
  case (Suc n)
  then have IH: "be_word (be_bytes n v) = take_bit (8 * n) v" by simp
  show ?case
    unfolding be_bytes.simps be_word_Cons IH length_be_bytes
    by (rule bit_word_eqI) (use Suc.prems in \<open>auto simp: bit_simps\<close>)
qed

section \<open>Null-terminated chains\<close>

text \<open>\<open>chain nx p xs\<close>: following \<open>nx\<close> from \<open>p\<close> visits exactly the objects \<open>xs\<close> and ends at
  \<^verbatim>\<open>EB_NULL\<close>. The successor function is partial: \<open>None\<close> is a pointer that cannot be followed.\<close>

primrec chain :: "(eb_ptr \<Rightarrow> eb_ptr option) \<Rightarrow> eb_ptr \<Rightarrow> eb_ptr list \<Rightarrow> bool" where
  "chain nx p [] \<longleftrightarrow> p = EB_NULL"
| "chain nx p (x # xs) \<longleftrightarrow> p = x \<and> x \<noteq> EB_NULL \<and> (\<exists>q. nx x = Some q \<and> chain nx q xs)"

lemma chain_NULL [simp]: "chain nx EB_NULL xs \<longleftrightarrow> xs = []"
  by (cases xs) auto

lemma chain_not_NULL:
  "p \<noteq> EB_NULL \<Longrightarrow> chain nx p xs \<longleftrightarrow> (\<exists>q ys. xs = p # ys \<and> nx p = Some q \<and> chain nx q ys)"
  by (cases xs) auto

lemma chain_cong: "(\<And>x. x \<in> set xs \<Longrightarrow> nx x = nx' x) \<Longrightarrow> chain nx p xs = chain nx' p xs"
  by (induction xs arbitrary: p) auto

lemma chain_upd [simp]: "x \<notin> set xs \<Longrightarrow> chain (nx(x := v)) p xs = chain nx p xs"
  by (rule chain_cong) auto

lemma chain_unique: "chain nx p xs \<Longrightarrow> chain nx p ys \<Longrightarrow> xs = ys"
proof (induction xs arbitrary: p ys)
  case (Cons x xs)
  then show ?case by (cases ys) auto
qed simp

lemma chain_suffix: "chain nx p (as @ x # bs) \<Longrightarrow> chain nx x (x # bs)"
  by (induction as arbitrary: p) auto

lemma chain_distinct: "chain nx p xs \<Longrightarrow> distinct xs"
proof (induction xs arbitrary: p)
  case (Cons x xs)
  then obtain q where q: "nx x = Some q" "chain nx q xs" "x \<noteq> EB_NULL" by auto
  have "x \<notin> set xs"
  proof
    assume "x \<in> set xs"
    then obtain as bs where xs: "xs = as @ x # bs" by (auto dest: split_list)
    have "chain nx x (x # bs)" by (rule chain_suffix [of nx q as]) (use q xs in simp)
    then obtain q' where "nx x = Some q'" "chain nx q' bs" by auto
    with q have "chain nx q bs" by simp
    with q have "xs = bs" by (auto dest: chain_unique)
    with xs show False by simp
  qed
  with Cons.IH q show ?case by auto
qed simp

lemma chain_no_NULL: "chain nx p xs \<Longrightarrow> EB_NULL \<notin> set xs"
  by (induction xs arbitrary: p) auto

lemma chain_defined: "chain nx p xs \<Longrightarrow> x \<in> set xs \<Longrightarrow> nx x \<noteq> None"
  by (induction xs arbitrary: p) auto

end
