(* ===== verification/Eb_Widths.thy ===== *)
theory Eb_Widths
  imports Eb_Prelude
begin

text \<open>
  Bus widths: the bit-mask arithmetic of \<^verbatim>\<open>api/glue/widths.c\<close> and the printing and parsing of
  widths, formats and status codes of \<^verbatim>\<open>api/glue/format.c\<close>. A width is one byte: the low nibble
  is the set of data widths, the high nibble the set of address widths (bit \<open>k\<close> stands for
  \<open>2\<^sup>k\<close> bytes). The lemmas show that refinement selects the largest supported width of each
  nibble and that the parser inverts the printer.
\<close>

section \<open>Width masks (widths.c)\<close>

definition eb_width_possible :: "eb_width_t \<Rightarrow> bool" where
  "eb_width_possible width =
     (let data = width AND 0xf; addr = drop_bit 4 width
      in data \<noteq> 0 \<and> addr \<noteq> 0)"

definition eb_width_refined :: "eb_width_t \<Rightarrow> bool" where
  "eb_width_refined width =
     (let data = width AND 0xf; addr = drop_bit 4 width
      in data \<noteq> 0 \<and> addr \<noteq> 0 \<and> data AND (data - 1) = 0 \<and> addr AND (addr - 1) = 0)"

definition eb_width_refine :: "eb_width_t \<Rightarrow> eb_width_t" where
  "eb_width_refine width =
     (let data = width AND 0xf;
          addr = drop_bit 4 width;
          addr = addr OR drop_bit 1 addr;
          addr = addr OR drop_bit 2 addr;
          addr = addr + 1;
          addr = drop_bit 1 addr;
          data = data OR drop_bit 1 data;
          data = data OR drop_bit 2 data;
          data = data + 1;
          data = drop_bit 1 data
      in push_bit 4 addr OR data)"

section \<open>Printing (format.c)\<close>

definition eb_status :: "eb_status_t \<Rightarrow> string" where
  "eb_status code =
     (if code = EB_SEGFAULT then ''one or more operations failed''
      else if code = EB_OK then ''success''
      else if code = EB_FAIL then ''system failure''
      else if code = EB_ADDRESS then ''invalid address''
      else if code = EB_WIDTH then ''impossible bus width''
      else if code = EB_OVERFLOW then ''cycle length overflow''
      else if code = EB_ENDIAN then ''remote endian required''
      else if code = EB_BUSY then ''resource busy''
      else if code = EB_TIMEOUT then ''timeout''
      else if code = EB_OOM then ''out of memory''
      else if code = EB_ABI then ''library incompatible with application''
      else ''unknown Etherbone error code'')"

definition endian_str :: "string list" where
  "endian_str = [''auto-endian'', ''big-endian'', ''little-endian'', ''invalid-endian'']"

definition width_str :: "string list" where
  "width_str =
     [''<null>'', ''8'', ''16'', ''8/16'', ''32'', ''8/32'', ''16/32'', ''8/16/32'',
      ''64'', ''8/64'', ''16/64'', ''8/16/64'', ''32/64'', ''8/32/64'', ''16/32/64'',
      ''8/16/32/64'']"

definition eb_width_data :: "eb_width_t \<Rightarrow> string" where
  "eb_width_data width = width_str ! unat (width AND EB_DATAX)"

definition eb_width_address :: "eb_width_t \<Rightarrow> string" where
  "eb_width_address width = width_str ! unat (drop_bit 4 (width AND EB_ADDRX))"

definition eb_format_data :: "eb_format_t \<Rightarrow> string" where
  "eb_format_data format = width_str ! unat (format AND EB_DATAX)"

definition eb_format_endian :: "eb_format_t \<Rightarrow> string" where
  "eb_format_endian format = endian_str ! unat (drop_bit 4 (format AND EB_ENDIAN_MASK))"

section \<open>Parsing (format.c)\<close>

text \<open>
  The C library's \<^verbatim>\<open>strtol(str, &next, 0)\<close> in the C locale: leading white space, an optional
  sign, the prefixes \<^verbatim>\<open>0x\<close> and \<^verbatim>\<open>0\<close> for base 16 and 8, then digits; without digits the value is
  0 and \<^verbatim>\<open>next\<close> is \<^verbatim>\<open>str\<close>; out of range the value saturates at the bounds of a 64-bit \<^verbatim>\<open>long\<close>.
  A C string is the list of its characters before the terminating NUL.
\<close>

definition c_isspace :: "char \<Rightarrow> bool" where
  "c_isspace c = (let n = of_char c :: nat in n = 32 \<or> (9 \<le> n \<and> n \<le> 13))"

definition c_digit :: "char \<Rightarrow> nat option" where
  "c_digit c = (let n = of_char c :: nat in
     if 48 \<le> n \<and> n \<le> 57 then Some (n - 48)
     else if 97 \<le> n \<and> n \<le> 122 then Some (n - 87)
     else if 65 \<le> n \<and> n \<le> 90 then Some (n - 55)
     else None)"

definition c_is_digit :: "nat \<Rightarrow> char \<Rightarrow> bool" where
  "c_is_digit base c = (case c_digit c of None \<Rightarrow> False | Some d \<Rightarrow> d < base)"

definition c_digits_value :: "nat \<Rightarrow> string \<Rightarrow> int" where
  "c_digits_value base ds =
     foldl (\<lambda>v c. v * int base + int (the (c_digit c))) 0 ds"

definition long_saturate :: "int \<Rightarrow> int" where
  "long_saturate v = max (- (2 ^ 63)) (min (2 ^ 63 - 1) v)"

definition c_strtol_digits :: "int \<Rightarrow> nat \<Rightarrow> string \<Rightarrow> int \<times> string" where
  "c_strtol_digits sg base s =
     (long_saturate (sg * c_digits_value base (takeWhile (c_is_digit base) s)),
      dropWhile (c_is_digit base) s)"

definition c_strtol_prefix :: "int \<Rightarrow> string \<Rightarrow> (int \<times> string) option" where
  "c_strtol_prefix sg s =
     (case s of
        [] \<Rightarrow> None
      | c # r \<Rightarrow>
          if c = CHR ''0'' then
            (if 2 \<le> length r \<and> (hd r = CHR ''x'' \<or> hd r = CHR ''X'') \<and> c_is_digit 16 (r ! 1)
             then Some (c_strtol_digits sg 16 (tl r)) else Some (c_strtol_digits sg 8 s))
          else if c_is_digit 10 c then Some (c_strtol_digits sg 10 s)
          else None)"

definition c_strtol0 :: "string \<Rightarrow> int \<times> string" where
  "c_strtol0 str =
     (let s = dropWhile c_isspace str;
          r = (case s of
                 [] \<Rightarrow> None
               | c # t \<Rightarrow>
                   if c = CHR ''-'' then c_strtol_prefix (-1) t
                   else if c = CHR ''+'' then c_strtol_prefix 1 t
                   else c_strtol_prefix 1 s)
      in case r of None \<Rightarrow> (0, str) | Some res \<Rightarrow> res)"

lemma c_strtol_digits_rest: "length (snd (c_strtol_digits sg b s)) \<le> length s"
  by (simp add: c_strtol_digits_def length_dropWhile_le)

lemma c_strtol_prefix_rest: "c_strtol_prefix sg s = Some r \<Longrightarrow> length (snd r) \<le> length s"
proof (cases s)
  case (Cons c t)
  assume "c_strtol_prefix sg s = Some r"
  with Cons show ?thesis
    using c_strtol_digits_rest [of sg 16 "tl t"] c_strtol_digits_rest [of sg 8 s]
      c_strtol_digits_rest [of sg 10 s]
    by (simp add: c_strtol_prefix_def split: if_splits)
qed (simp add: c_strtol_prefix_def)

lemma c_strtol0_rest: "length (snd (c_strtol0 str)) \<le> length str"
proof -
  let ?s = "dropWhile c_isspace str"
  have s: "length ?s \<le> length str" by (rule length_dropWhile_le)
  show ?thesis
  proof (cases ?s)
    case Nil
    then show ?thesis by (simp only: c_strtol0_def Let_def list.case option.case snd_conv)
  next
    case (Cons c t)
    with s have t: "length t \<le> length str" by simp
    have *: "length (snd (case r of None \<Rightarrow> (0, str) | Some res \<Rightarrow> res)) \<le> length str"
      if "\<And>x. r = Some x \<Longrightarrow> length (snd x) \<le> length str" for r :: "(int \<times> string) option"
      using that by (cases r) auto
    show ?thesis
      unfolding c_strtol0_def Let_def
      by (rule *) (use Cons s t in \<open>auto split: if_splits dest!: c_strtol_prefix_rest\<close>)
  qed
qed

text \<open>\<^verbatim>\<open>int width = strtol(...)\<close> truncates the \<^verbatim>\<open>long\<close> to 32 bits.\<close>

definition int_of_long :: "int \<Rightarrow> int" where
  "int_of_long v = signed_take_bit 31 v"

function eb_parse_width_loop :: "int \<Rightarrow> string \<Rightarrow> int" where
  "eb_parse_width_loop widths str =
     (let width = int_of_long (fst (c_strtol0 str)); next = snd (c_strtol0 str)
      in if width \<noteq> 8 \<and> width \<noteq> 16 \<and> width \<noteq> 32 \<and> width \<noteq> 64 then -1
         else
           let widths = widths OR (width div 8)
           in case next of
                [] \<Rightarrow> widths
              | c # str' \<Rightarrow>
                  if c \<noteq> CHR ''/'' \<and> c \<noteq> CHR '','' then -1
                  else eb_parse_width_loop widths str')"
  by pat_completeness auto
termination
proof (relation "measure (\<lambda>(widths, str). length str)", goal_cases)
  case 1
  then show ?case by simp
next
  case (2 widths str)
  then show ?case
    using c_strtol0_rest [of str] by (auto dest: sym)
qed

declare eb_parse_width_loop.simps [simp del]

definition eb_parse_width :: "string \<Rightarrow> int" where
  "eb_parse_width str = eb_parse_width_loop 0 str"

definition eb_width_parse_data :: "string \<Rightarrow> eb_width_t \<Rightarrow> eb_status_t \<times> eb_width_t" where
  "eb_width_parse_data str width =
     (let result = eb_parse_width str
      in if result < 0 then (EB_WIDTH, width)
         else (EB_OK, word_of_int result OR (width AND EB_ADDRX)))"

definition eb_width_parse_address :: "string \<Rightarrow> eb_width_t \<Rightarrow> eb_status_t \<times> eb_width_t" where
  "eb_width_parse_address str width =
     (let result = eb_parse_width str
      in if result < 0 then (EB_WIDTH, width)
         else (EB_OK, word_of_int (push_bit 4 result) OR (width AND EB_DATAX)))"

section \<open>Refinement picks the largest width\<close>

text \<open>The widths contained in a nibble in ascending order, and the largest of them (0 for none):
  the reference the bit trick is compared with.\<close>

definition widths_in :: "u8 \<Rightarrow> u8 list" where
  "widths_in x = filter (\<lambda>b. x AND b \<noteq> 0) [1, 2, 4, 8]"

definition largest_width :: "u8 \<Rightarrow> u8" where
  "largest_width x = last (0 # widths_in x)"

text \<open>The two nibbles are refined independently by the same bit trick.\<close>

definition refine_nibble :: "u8 \<Rightarrow> u8" where
  "refine_nibble x =
     (let x = x OR drop_bit 1 x; x = x OR drop_bit 2 x in drop_bit 1 (x + 1))"

lemma nibble_cases:
  fixes x :: u8
  assumes "unat x < 16"
  shows "x \<in> {0, 1, 2, 3, 4, 5, 6, 7, 8, 9, 10, 11, 12, 13, 14, 15}"
proof -
  have "unat x \<in> {0, 1, 2, 3, 4, 5, 6, 7, 8, 9, 10, 11, 12, 13, 14, 15}"
    using assms by (simp only: insert_iff empty_iff) arith
  then have "of_nat (unat x) \<in> (of_nat ` {0, 1, 2, 3, 4, 5, 6, 7, 8, 9, 10, 11, 12, 13, 14, 15} :: u8 set)"
    by (rule imageI)
  then show ?thesis by simp
qed

lemma unat_low_nibble: "unat (w AND 0xf :: u8) < 16"
proof -
  have "w AND 0xf = take_bit 4 w" by (simp add: take_bit_eq_mask mask_eq_exp_minus_1)
  then show ?thesis using take_bit_nat_less_exp [of 4 "unat w"] by (simp add: unsigned_take_bit_eq)
qed

lemma unat_high_nibble: "unat (drop_bit 4 w :: u8) < 16"
proof -
  have "unat w < 2 ^ LENGTH(8)" by (rule unsigned_less)
  then show ?thesis unfolding unat_drop_bit_eq by (simp add: drop_bit_eq_div)
qed

lemma refine_nibble_largest:
  assumes "unat x < 16"
  shows "refine_nibble x = largest_width x"
  using nibble_cases [OF assms]
  by (auto simp: refine_nibble_def largest_width_def widths_in_def)

lemma refine_nibble_cases:
  assumes "unat x < 16"
  shows "refine_nibble x \<in> {0, 1, 2, 4, 8}"
  using nibble_cases [OF assms] by (auto simp: refine_nibble_def)

lemma eb_width_refine_nibbles:
  "eb_width_refine w = push_bit 4 (refine_nibble (drop_bit 4 w)) OR refine_nibble (w AND 0xf)"
  by (simp add: eb_width_refine_def refine_nibble_def Let_def)

lemma eb_width_refine_data: "eb_width_refine w AND 0xf = refine_nibble (w AND 0xf)"
  and eb_width_refine_addr: "drop_bit 4 (eb_width_refine w) = refine_nibble (drop_bit 4 w)"
  using refine_nibble_cases [OF unat_low_nibble, of w] refine_nibble_cases [OF unat_high_nibble, of w]
  by (auto simp: eb_width_refine_nibbles)

text \<open>C39: for every one of the 256 width masks, \<^verbatim>\<open>eb_width_refine\<close> leaves in each nibble exactly
  the largest width of that nibble (and nothing where the nibble is empty).\<close>

theorem eb_width_refine_largest:
  "eb_width_refine w AND 0xf = largest_width (w AND 0xf) \<and>
   drop_bit 4 (eb_width_refine w) = largest_width (drop_bit 4 w)"
  by (simp add: eb_width_refine_data eb_width_refine_addr refine_nibble_largest
      unat_low_nibble unat_high_nibble)

lemma eb_width_refine_subset: "eb_width_refine w AND w = eb_width_refine w"
proof -
  let ?a = "refine_nibble (drop_bit 4 w)" and ?d = "refine_nibble (w AND 0xf)"
  have sub: "refine_nibble x AND x = refine_nibble x" if "unat x < 16" for x
    using nibble_cases [OF that] by (auto simp: refine_nibble_def)
  have a: "?a AND drop_bit 4 w = ?a" by (rule sub) (rule unat_high_nibble)
  have d: "?d AND (w AND 0xf) = ?d" by (rule sub) (rule unat_low_nibble)
  have d': "?d AND w = ?d" using d by (metis and.assoc and.commute and.left_idem)
  have "push_bit 4 ?a AND w = push_bit 4 (?a AND drop_bit 4 w)"
    by (rule bit_word_eqI) (auto simp: bit_simps)
  with a d' show ?thesis
    by (simp add: eb_width_refine_nibbles bit.conj_disj_distrib2)
qed

lemma eb_width_refine_refined: "eb_width_refined (eb_width_refine w) = eb_width_possible w"
proof -
  have ok: "(refine_nibble x \<noteq> 0) = (x \<noteq> 0) \<and> refine_nibble x AND (refine_nibble x - 1) = 0"
    if "unat x < 16" for x
    using nibble_cases [OF that] by (auto simp: refine_nibble_def)
  show ?thesis
    using ok [OF unat_high_nibble, of w] ok [OF unat_low_nibble, of w]
    by (simp add: eb_width_refined_def eb_width_possible_def Let_def eb_width_refine_data
        eb_width_refine_addr)
qed

section \<open>Printing and parsing\<close>

lemmas eb_parse_simps =
  eb_parse_width_def eb_parse_width_loop.simps c_strtol0_def c_strtol_prefix_def
  c_strtol_digits_def c_isspace_def c_is_digit_def c_digit_def c_digits_value_def
  long_saturate_def int_of_long_def

lemma eb_parse_width_table:
  "list_all (\<lambda>d. eb_parse_width (width_str ! d) = int d)
     [1, 2, 3, 4, 5, 6, 7, 8, 9, 10, 11, 12, 13, 14, 15]"
  by (simp add: width_str_def eb_parse_simps)

lemma eb_parse_width_null: "eb_parse_width (width_str ! 0) = -1"
  by (simp add: width_str_def eb_parse_simps)

lemma eb_parse_width_str:
  fixes d :: u8
  assumes "unat d < 16" and "d \<noteq> 0"
  shows "eb_parse_width (width_str ! unat d) = uint d"
proof -
  have "unat d \<noteq> 0" using assms(2) by (simp add: unat_eq_0)
  with assms(1) have "unat d \<in> {1, 2, 3, 4, 5, 6, 7, 8, 9, 10, 11, 12, 13, 14, 15}"
    by (simp only: insert_iff empty_iff) arith
  moreover have "\<forall>n \<in> {1, 2, 3, 4, 5, 6, 7, 8, 9, 10, 11, 12, 13, 14, 15}.
      eb_parse_width (width_str ! n) = int n"
    using eb_parse_width_table by (simp del: One_nat_def)
  ultimately have "eb_parse_width (width_str ! unat d) = int (unat d)" by blast
  then show ?thesis by simp
qed

text \<open>C40: parsing what \<^verbatim>\<open>eb_width_data\<close> and \<^verbatim>\<open>eb_width_address\<close> print gives back the printed set of
  widths, and leaves the other nibble of the caller's mask as it was. (The empty set prints as
  \<^verbatim>\<open><null>\<close>, which the parser rejects with \<^verbatim>\<open>EB_WIDTH\<close>.)\<close>

theorem eb_width_parse_print:
  "eb_width_parse_data (eb_width_data w) v =
     (if w AND 0xf = 0 then (EB_WIDTH, v) else (EB_OK, (w AND 0xf) OR (v AND 0xf0))) \<and>
   eb_width_parse_address (eb_width_address w) v =
     (if drop_bit 4 w = 0 then (EB_WIDTH, v) else (EB_OK, (w AND 0xf0) OR (v AND 0xf)))"
proof -
  have d: "eb_parse_width (eb_width_data w) = (if w AND 0xf = 0 then -1 else uint (w AND 0xf))"
    using eb_parse_width_str [OF unat_low_nibble, of w] eb_parse_width_null
    by (simp add: eb_width_data_def)
  have hi: "drop_bit 4 w AND 0xf = drop_bit 4 w"
    by (rule bit_word_eqI) (auto simp: bit_simps less_Suc_eq numeral_eq_Suc dest: bit_imp_le_length)
  have a: "eb_parse_width (eb_width_address w)
             = (if drop_bit 4 w = 0 then -1 else uint (drop_bit 4 w))"
    using eb_parse_width_str [OF unat_high_nibble, of w] eb_parse_width_null
    by (simp add: eb_width_address_def hi)
  have "word_of_int (push_bit 4 (uint (drop_bit 4 w))) = (push_bit 4 (drop_bit 4 w) :: u8)"
    by (simp add: push_bit_eq_mult)
  also have "\<dots> = w AND push_bit 4 (mask 4)"
    by (rule bit_word_eqI) (auto simp: bit_simps dest: bit_imp_le_length)
  also have "\<dots> = w AND 0xf0" by (simp add: mask_eq_exp_minus_1)
  finally have p: "word_of_int (push_bit 4 (uint (drop_bit 4 w))) = w AND 0xf0" .
  show ?thesis
    by (simp add: eb_width_parse_data_def eb_width_parse_address_def Let_def d a p)
qed

end
