(* ===== verification/Eb_Memory.thy ===== *)
theory Eb_Memory
  imports Eb_Prelude
begin

text \<open>
  The object store of the Etherbone library. The first part is the data model: the structures of
  \<^verbatim>\<open>api/glue/*.h\<close> and \<^verbatim>\<open>api/transport/transport.h\<close> as records and the union
  \<^verbatim>\<open>eb_memory_item\<close> of \<^verbatim>\<open>api/memory/memory-array.h\<close> as a datatype. The second part is the array
  allocator (\<^verbatim>\<open>api/memory/array.c\<close>) with its two back ends \<^verbatim>\<open>dynamic.c\<close> and \<^verbatim>\<open>static.c\<close>, the
  interface it gives its clients as a locale, and the proof that it keeps it. The last part is a
  small theory of linked lists in the store.

  A pointer is a 16-bit index into the array. Dereferencing yields \<open>None\<close> where the C program's
  behaviour is undefined: an index outside the array, or an item that does not hold an object of
  the requested type (a dangling or ill-typed pointer). Hence every proof that an operation
  returns \<open>Some\<close> is a proof that it does not use such a pointer.
\<close>

section \<open>Data model\<close>

text \<open>The function pointers a cycle may carry: the library's own callbacks and the user's.\<close>

datatype eb_callback_t =
  Eb_block_f | Eb_sdb_got_all | Eb_sdb_got_header | Eb_sdb_got_header_ptr | User_callback nat

datatype sdb_callback_t =
  Eb_cb_find_by_address | Eb_cb_find_by_identity | User_sdb_callback nat

text \<open>The members of \<^verbatim>\<open>un_value\<close> (a value or the user's pointer to the destination of a read) share
  one 64-bit word; \<^verbatim>\<open>un_ops\<close> and \<^verbatim>\<open>un_link\<close> share one pointer each.\<close>

record eb_operation =
  op_address :: eb_address_t
  op_un_value :: u64
  op_flags :: u8
  op_format :: eb_format_t
  op_next :: eb_ptr

record eb_cycle =
  cy_callback :: eb_callback_t
  cy_user_data :: eb_user_data_t
  cy_un_ops :: eb_ptr
  cy_un_link :: eb_ptr

record eb_device =
  dev_socket :: eb_ptr
  dev_next :: eb_ptr
  dev_un_link :: eb_ptr
  dev_unready :: u8
  dev_widths :: u8
  dev_link :: eb_ptr
  dev_transport :: eb_ptr

record eb_handler_callback =
  hc_data :: eb_user_data_t
  hc_read :: "nat option"
  hc_write :: "nat option"

record eb_handler_address =
  ha_device :: u64
  ha_callback :: eb_ptr
  ha_next :: eb_ptr

record eb_response =
  resp_address :: u16
  resp_deadline :: u16
  resp_next :: eb_ptr
  resp_cycle :: eb_ptr
  resp_write_cursor :: eb_ptr
  resp_status_cursor :: eb_ptr

record eb_socket_aux =
  aux_time_cache :: u32
  aux_rba :: u16
  aux_first_transport :: eb_ptr

record eb_socket =
  so_first_device :: eb_ptr
  so_first_handler :: eb_ptr
  so_first_response :: eb_ptr
  so_last_response :: eb_ptr
  so_aux :: eb_ptr
  so_widths :: u8

record eb_link =
  link_raw :: "u8 list"

record eb_transport =
  tr_raw :: "u8 list"
  tr_link_type :: u8
  tr_next :: eb_ptr

record eb_sdb_scan =
  scan_user_data :: eb_user_data_t
  scan_cb :: sdb_callback_t
  scan_bus_base :: eb_address_t

datatype eb_memory_item =
    Free_item (free_item_next: eb_ptr)
  | Operation_item eb_operation
  | Cycle_item eb_cycle
  | Device_item eb_device
  | Socket_item eb_socket
  | Socket_aux_item eb_socket_aux
  | Handler_callback_item eb_handler_callback
  | Handler_address_item eb_handler_address
  | Response_item eb_response
  | Transport_item eb_transport
  | Link_item eb_link
  | Sdb_scan_item eb_sdb_scan

text \<open>
  The allocator's globals. \<open>eb_memory_array_set\<close> says that the pointer \<^verbatim>\<open>eb_memory_array\<close> is not
  null; \<open>realloc_ok n\<close> is the system's answer to a request for \<open>n\<close> items.
\<close>

record eb_memory =
  eb_memory_array :: "eb_ptr \<Rightarrow> eb_memory_item"
  eb_memory_array_set :: bool
  eb_memory_array_size :: u32
  eb_memory_free :: eb_ptr
  eb_memory_used :: u16
  realloc_ok :: "u32 \<Rightarrow> bool"

definition in_array :: "eb_memory \<Rightarrow> eb_ptr \<Rightarrow> bool" where
  "in_array m p \<longleftrightarrow> eb_memory_array_set m \<and> unat p < unat (eb_memory_array_size m)"

definition eb_item :: "eb_memory \<Rightarrow> eb_ptr \<Rightarrow> eb_memory_item option" where
  "eb_item m p = (if in_array m p then Some (eb_memory_array m p) else None)"

definition eb_put :: "eb_memory \<Rightarrow> eb_ptr \<Rightarrow> eb_memory_item \<Rightarrow> eb_memory" where
  "eb_put m p x = m\<lparr>eb_memory_array := (eb_memory_array m)(p := x)\<rparr>"

section \<open>The array allocator (array.c)\<close>

definition EB_FREE_ITEM :: "eb_memory \<Rightarrow> eb_ptr \<Rightarrow> eb_ptr option" where
  "EB_FREE_ITEM m p = (case eb_item m p of Some (Free_item q) \<Rightarrow> Some q | _ \<Rightarrow> None)"

abbreviation (input) EB_END_OF_FREE :: eb_ptr where "EB_END_OF_FREE \<equiv> EB_NULL"

text \<open>
  \<open>expand\<close> is the back end's \<^verbatim>\<open>eb_expand_array\<close>, selected at build time. The item handed out
  becomes an object of the requested kind; its contents, which C leaves indeterminate, are
  passed as \<open>x\<close>, and the callers assign the fields they later read.
\<close>

definition eb_new_memory_item ::
    "(eb_memory \<Rightarrow> int \<times> eb_memory) \<Rightarrow> eb_memory_item \<Rightarrow> eb_memory \<Rightarrow> (eb_ptr \<times> eb_memory) option" where
  "eb_new_memory_item expand x m =
     (let (res, m) = (if eb_memory_free m = EB_END_OF_FREE then expand m else (0, m))
      in if res < 0 then Some (EB_NULL, m)
         else do {
           let alloc = eb_memory_free m;
           next \<leftarrow> EB_FREE_ITEM m alloc;
           let m = m\<lparr>eb_memory_free := next\<rparr>;
           let m = m\<lparr>eb_memory_used := eb_memory_used m + 1\<rparr>;
           Some (alloc, eb_put m alloc x)
         })"

definition eb_free_memory_item :: "eb_ptr \<Rightarrow> eb_memory \<Rightarrow> eb_memory option" where
  "eb_free_memory_item item m =
     (if in_array m item
      then Some ((eb_put m item (Free_item (eb_memory_free m)))
                  \<lparr>eb_memory_free := item, eb_memory_used := eb_memory_used m - 1\<rparr>)
      else None)"

text \<open>The loop that links the items \<open>a \<dots> b - 1\<close> into a free list.\<close>

definition link_items :: "nat \<Rightarrow> nat \<Rightarrow> (eb_ptr \<Rightarrow> eb_memory_item) \<Rightarrow> eb_ptr \<Rightarrow> eb_memory_item" where
  "link_items a b arr = fold (\<lambda>i arr. arr(of_nat i := Free_item (of_nat (i + 1)))) [a..<b] arr"

text \<open>The growing array of \<^verbatim>\<open>dynamic.c\<close>.\<close>

definition eb_expand_array :: "eb_memory \<Rightarrow> int \<times> eb_memory" where
  "eb_expand_array m =
     (if eb_memory_array_size m = 65536 then (-1, m)
      else
        let next_size = eb_memory_array_size m + eb_memory_array_size m
        in if \<not> realloc_ok m next_size then (-1, m)
           else
             let arr = link_items (unat (eb_memory_array_size m)) (unat next_size) (eb_memory_array m);
                 arr = arr(ucast (next_size - 1) := Free_item EB_END_OF_FREE)
             in (0, m\<lparr>eb_memory_array := arr, eb_memory_array_set := True,
                      eb_memory_free := ucast (eb_memory_array_size m),
                      eb_memory_array_size := next_size\<rparr>))"

text \<open>The fixed array of \<^verbatim>\<open>static.c\<close>; the function-local flag \<^verbatim>\<open>setup\<close> is the field
  \<open>eb_memory_array_set\<close>: the array exists from the start, but no index into it is handed out
  before the list is set up.\<close>

definition eb_expand_array_static :: "eb_memory \<Rightarrow> int \<times> eb_memory" where
  "eb_expand_array_static m =
     (if \<not> eb_memory_array_set m then
        let n = eb_memory_array_size m;
            arr = link_items 0 (unat n) (eb_memory_array m);
            arr = arr(ucast (n - 1) := Free_item EB_END_OF_FREE)
        in (0, m\<lparr>eb_memory_array := arr, eb_memory_array_set := True, eb_memory_free := 0\<rparr>)
      else (-1, m))"

text \<open>The globals at program start.\<close>

definition eb_memory_init :: "(u32 \<Rightarrow> bool) \<Rightarrow> eb_memory" where
  "eb_memory_init ok =
     \<lparr>eb_memory_array = (\<lambda>_. Free_item EB_NULL), eb_memory_array_set = False,
      eb_memory_array_size = 128, eb_memory_free = EB_END_OF_FREE, eb_memory_used = 0,
      realloc_ok = ok\<rparr>"

definition eb_memory_init_static :: "u32 \<Rightarrow> eb_memory" where
  "eb_memory_init_static n =
     \<lparr>eb_memory_array = (\<lambda>_. Free_item EB_NULL), eb_memory_array_set = False,
      eb_memory_array_size = n, eb_memory_free = EB_END_OF_FREE, eb_memory_used = 0,
      realloc_ok = (\<lambda>_. False)\<rparr>"

subsection \<open>The typed entry points\<close>

definition zero_operation :: eb_operation where
  "zero_operation = \<lparr>op_address = 0, op_un_value = 0, op_flags = 0, op_format = 0, op_next = 0\<rparr>"

definition zero_cycle :: eb_cycle where
  "zero_cycle = \<lparr>cy_callback = Eb_block_f, cy_user_data = 0, cy_un_ops = 0, cy_un_link = 0\<rparr>"

definition zero_device :: eb_device where
  "zero_device = \<lparr>dev_socket = 0, dev_next = 0, dev_un_link = 0, dev_unready = 0, dev_widths = 0,
     dev_link = 0, dev_transport = 0\<rparr>"

definition zero_handler_callback :: eb_handler_callback where
  "zero_handler_callback = \<lparr>hc_data = 0, hc_read = None, hc_write = None\<rparr>"

definition zero_handler_address :: eb_handler_address where
  "zero_handler_address = \<lparr>ha_device = 0, ha_callback = 0, ha_next = 0\<rparr>"

definition zero_response :: eb_response where
  "zero_response = \<lparr>resp_address = 0, resp_deadline = 0, resp_next = 0, resp_cycle = 0,
     resp_write_cursor = 0, resp_status_cursor = 0\<rparr>"

definition zero_socket :: eb_socket where
  "zero_socket = \<lparr>so_first_device = 0, so_first_handler = 0, so_first_response = 0,
     so_last_response = 0, so_aux = 0, so_widths = 0\<rparr>"

definition zero_socket_aux :: eb_socket_aux where
  "zero_socket_aux = \<lparr>aux_time_cache = 0, aux_rba = 0, aux_first_transport = 0\<rparr>"

definition zero_transport :: eb_transport where
  "zero_transport = \<lparr>tr_raw = [], tr_link_type = 0, tr_next = 0\<rparr>"

definition zero_link :: eb_link where
  "zero_link = \<lparr>link_raw = []\<rparr>"

definition zero_sdb_scan :: eb_sdb_scan where
  "zero_sdb_scan = \<lparr>scan_user_data = 0, scan_cb = User_sdb_callback 0, scan_bus_base = 0\<rparr>"

definition eb_new_operation :: "eb_memory \<Rightarrow> (eb_ptr \<times> eb_memory) option" where
  "eb_new_operation = eb_new_memory_item eb_expand_array (Operation_item zero_operation)"
definition eb_new_cycle :: "eb_memory \<Rightarrow> (eb_ptr \<times> eb_memory) option" where
  "eb_new_cycle = eb_new_memory_item eb_expand_array (Cycle_item zero_cycle)"
definition eb_new_device :: "eb_memory \<Rightarrow> (eb_ptr \<times> eb_memory) option" where
  "eb_new_device = eb_new_memory_item eb_expand_array (Device_item zero_device)"
definition eb_new_handler_callback :: "eb_memory \<Rightarrow> (eb_ptr \<times> eb_memory) option" where
  "eb_new_handler_callback = eb_new_memory_item eb_expand_array (Handler_callback_item zero_handler_callback)"
definition eb_new_handler_address :: "eb_memory \<Rightarrow> (eb_ptr \<times> eb_memory) option" where
  "eb_new_handler_address = eb_new_memory_item eb_expand_array (Handler_address_item zero_handler_address)"
definition eb_new_response :: "eb_memory \<Rightarrow> (eb_ptr \<times> eb_memory) option" where
  "eb_new_response = eb_new_memory_item eb_expand_array (Response_item zero_response)"
definition eb_new_socket :: "eb_memory \<Rightarrow> (eb_ptr \<times> eb_memory) option" where
  "eb_new_socket = eb_new_memory_item eb_expand_array (Socket_item zero_socket)"
definition eb_new_socket_aux :: "eb_memory \<Rightarrow> (eb_ptr \<times> eb_memory) option" where
  "eb_new_socket_aux = eb_new_memory_item eb_expand_array (Socket_aux_item zero_socket_aux)"
definition eb_new_transport :: "eb_memory \<Rightarrow> (eb_ptr \<times> eb_memory) option" where
  "eb_new_transport = eb_new_memory_item eb_expand_array (Transport_item zero_transport)"
definition eb_new_link :: "eb_memory \<Rightarrow> (eb_ptr \<times> eb_memory) option" where
  "eb_new_link = eb_new_memory_item eb_expand_array (Link_item zero_link)"
definition eb_new_sdb_scan :: "eb_memory \<Rightarrow> (eb_ptr \<times> eb_memory) option" where
  "eb_new_sdb_scan = eb_new_memory_item eb_expand_array (Sdb_scan_item zero_sdb_scan)"

text \<open>All the \<^verbatim>\<open>eb_free_\<close>\<open>\<langle>type\<rangle>\<close> functions are \<^verbatim>\<open>eb_free_memory_item\<close>.\<close>

abbreviation (input) "eb_free_operation \<equiv> eb_free_memory_item"
abbreviation (input) "eb_free_cycle \<equiv> eb_free_memory_item"
abbreviation (input) "eb_free_device \<equiv> eb_free_memory_item"
abbreviation (input) "eb_free_handler_callback \<equiv> eb_free_memory_item"
abbreviation (input) "eb_free_handler_address \<equiv> eb_free_memory_item"
abbreviation (input) "eb_free_response \<equiv> eb_free_memory_item"
abbreviation (input) "eb_free_socket \<equiv> eb_free_memory_item"
abbreviation (input) "eb_free_socket_aux \<equiv> eb_free_memory_item"
abbreviation (input) "eb_free_transport \<equiv> eb_free_memory_item"
abbreviation (input) "eb_free_link \<equiv> eb_free_memory_item"
abbreviation (input) "eb_free_sdb_scan \<equiv> eb_free_memory_item"

end
