(* ===== verification/Eb_Allocator.thy ===== *)
theory Eb_Allocator
  imports Eb_Memory
begin

text \<open>
  Correctness of the array allocator. The locale \<open>eb_allocator\<close> is the contract the library's
  other components rely on; it is interpreted for the growing array (\<^verbatim>\<open>dynamic.c\<close>) and for the
  fixed array (\<^verbatim>\<open>static.c\<close>).
\<close>

section \<open>The allocator's contract\<close>

locale eb_allocator =
  fixes new :: "eb_memory_item \<Rightarrow> eb_memory \<Rightarrow> (eb_ptr \<times> eb_memory) option"
    and release :: "eb_ptr \<Rightarrow> eb_memory \<Rightarrow> eb_memory option"
    and live :: "eb_memory \<Rightarrow> eb_ptr set"
    and ok :: "eb_memory \<Rightarrow> bool"
  assumes new_total: "ok m \<Longrightarrow> \<not> is_Free_item x \<Longrightarrow> \<exists>p m'. new x m = Some (p, m')"
    and new_ok: "ok m \<Longrightarrow> \<not> is_Free_item x \<Longrightarrow> new x m = Some (p, m') \<Longrightarrow> ok m'"
    and new_null: "ok m \<Longrightarrow> \<not> is_Free_item x \<Longrightarrow> new x m = Some (EB_NULL, m') \<Longrightarrow> m' = m"
    and new_live: "ok m \<Longrightarrow> \<not> is_Free_item x \<Longrightarrow> new x m = Some (p, m') \<Longrightarrow> p \<noteq> EB_NULL \<Longrightarrow>
        p \<notin> live m \<and> live m' = insert p (live m)"
    and new_item: "ok m \<Longrightarrow> \<not> is_Free_item x \<Longrightarrow> new x m = Some (p, m') \<Longrightarrow> p \<noteq> EB_NULL \<Longrightarrow>
        eb_item m' p = Some x"
    and new_frame: "ok m \<Longrightarrow> \<not> is_Free_item x \<Longrightarrow> new x m = Some (p, m') \<Longrightarrow> q \<in> live m \<Longrightarrow>
        eb_item m' q = eb_item m q"
    and release_ok: "ok m \<Longrightarrow> p \<in> live m \<Longrightarrow>
        \<exists>m'. release p m = Some m' \<and> ok m' \<and> live m' = live m - {p} \<and>
             (\<forall>q. q \<noteq> p \<longrightarrow> eb_item m' q = eb_item m q)"
begin

text \<open>\<open>n\<close> allocations in a row (stopping at the first failure), as a client's loop would make
  them: the pointers obtained are pairwise different and none of them was in use.\<close>

primrec alloc_many :: "nat \<Rightarrow> eb_memory_item \<Rightarrow> eb_memory \<Rightarrow> (eb_ptr list \<times> eb_memory) option" where
  "alloc_many 0 x m = Some ([], m)"
| "alloc_many (Suc n) x m =
     Option.bind (new x m) (\<lambda>(p, m').
       if p = EB_NULL then Some ([], m')
       else Option.bind (alloc_many n x m') (\<lambda>(ps, m''). Some (p # ps, m'')))"

lemma alloc_many_fresh:
  assumes "ok m" and "\<not> is_Free_item x"
  shows "\<exists>ps m'. alloc_many n x m = Some (ps, m') \<and> ok m' \<and> distinct ps \<and>
           set ps \<inter> live m = {} \<and> live m' = live m \<union> set ps"
  using assms(1)
proof (induction n arbitrary: m)
  case (Suc n)
  obtain p m1 where n1: "new x m = Some (p, m1)" using new_total [OF Suc.prems assms(2)] by blast
  show ?case
  proof (cases "p = EB_NULL")
    case True
    with n1 new_null [OF Suc.prems assms(2)] have "m1 = m" by blast
    with True n1 Suc.prems show ?thesis by simp
  next
    case False
    from new_live [OF Suc.prems assms(2) n1 False]
    have l1: "p \<notin> live m" "live m1 = insert p (live m)" by auto
    from Suc.IH [OF new_ok [OF Suc.prems assms(2) n1]] obtain ps m2 where
      "alloc_many n x m1 = Some (ps, m2)" "ok m2" "distinct ps" "set ps \<inter> live m1 = {}"
      "live m2 = live m1 \<union> set ps" by blast
    with n1 False l1 show ?thesis by auto
  qed
qed simp

text \<open>Releasing what was just allocated gives back exactly the objects in use before.\<close>

lemma new_release:
  assumes "ok m" and "\<not> is_Free_item x" and "new x m = Some (p, m1)" and "p \<noteq> EB_NULL"
  shows "\<exists>m2. release p m1 = Some m2 \<and> ok m2 \<and> live m2 = live m \<and>
           (\<forall>q \<in> live m. eb_item m2 q = eb_item m q)"
proof -
  from new_live [OF assms] have l: "p \<notin> live m" "live m1 = insert p (live m)" by auto
  obtain m2 where m2: "release p m1 = Some m2" "ok m2" "live m2 = live m1 - {p}"
      "\<forall>q. q \<noteq> p \<longrightarrow> eb_item m2 q = eb_item m1 q"
    using release_ok [OF new_ok [OF assms(1-3)], of p] l by auto
  moreover have "\<forall>q \<in> live m. eb_item m2 q = eb_item m q"
    using m2(4) l(1) new_frame [OF assms(1-3)] by metis
  ultimately show ?thesis using l by auto
qed

end

section \<open>The invariant\<close>

definition eb_live :: "eb_memory \<Rightarrow> eb_ptr set" where
  "eb_live m = {p. in_array m p \<and> \<not> is_Free_item (eb_memory_array m p)}"

definition mem_wf :: "nat \<Rightarrow> nat \<Rightarrow> eb_memory \<Rightarrow> eb_ptr list \<Rightarrow> bool" where
  "mem_wf lo hi m fl \<longleftrightarrow>
     lo \<le> hi \<and> hi \<le> 65535 \<and> hi \<le> unat (eb_memory_array_size m) \<and>
     chain (EB_FREE_ITEM m) (eb_memory_free m) fl \<and>
     set fl \<union> eb_live m = (if eb_memory_array_set m then of_nat ` {lo..<hi} else {}) \<and>
     unat (eb_memory_used m) = card (eb_live m)"

lemma EB_FREE_ITEM_iff:
  "EB_FREE_ITEM m p = Some q \<longleftrightarrow> in_array m p \<and> eb_memory_array m p = Free_item q"
  by (auto simp: EB_FREE_ITEM_def eb_item_def split: eb_memory_item.split)

lemma EB_FREE_ITEM_cong: "eb_item m' q = eb_item m q \<Longrightarrow> EB_FREE_ITEM m' q = EB_FREE_ITEM m q"
  by (simp add: EB_FREE_ITEM_def)

lemma eb_live_item: "p \<in> eb_live m \<longleftrightarrow> (\<exists>x. eb_item m p = Some x \<and> \<not> is_Free_item x)"
  by (auto simp: eb_live_def eb_item_def)

lemma free_not_live: "EB_FREE_ITEM m p = Some q \<Longrightarrow> p \<notin> eb_live m"
  by (auto simp: EB_FREE_ITEM_iff eb_live_def)

lemma mem_wf_disjoint: "mem_wf lo hi m fl \<Longrightarrow> set fl \<inter> eb_live m = {}"
  unfolding mem_wf_def using chain_defined free_not_live by blast

lemma inj_on_of_nat_u16: "hi \<le> 65536 \<Longrightarrow> inj_on (of_nat :: nat \<Rightarrow> u16) {lo..<hi}"
proof (rule inj_onI)
  fix x y assume "hi \<le> 65536" "x \<in> {lo..<hi}" "y \<in> {lo..<hi}" "(of_nat x :: u16) = of_nat y"
  then have "unat (of_nat x :: u16) = unat (of_nat y :: u16)" "x < 65536" "y < 65536" by auto
  then show "x = y" by (simp add: unat_of_nat)
qed

lemma mem_wf_count:
  assumes "mem_wf lo hi m fl" and "eb_memory_array_set m"
  shows "unat (eb_memory_used m) + length fl = hi - lo"
proof -
  from assms have u: "set fl \<union> eb_live m = of_nat ` {lo..<hi}" and "hi \<le> 65535"
    and c: "unat (eb_memory_used m) = card (eb_live m)"
    and "chain (EB_FREE_ITEM m) (eb_memory_free m) fl" by (auto simp: mem_wf_def)
  then have d: "distinct fl" by (auto dest: chain_distinct)
  have "finite (set fl \<union> eb_live m)" unfolding u by simp
  then have "card (set fl \<union> eb_live m) = card (set fl) + card (eb_live m)"
    by (intro card_Un_disjoint) (use mem_wf_disjoint [OF assms(1)] in auto)
  moreover have "card (set fl \<union> eb_live m) = hi - lo"
    unfolding u using \<open>hi \<le> 65535\<close> by (subst card_image) (auto intro: inj_on_of_nat_u16)
  ultimately show ?thesis using c d by (simp add: distinct_card)
qed

section \<open>Popping and pushing the free list\<close>

lemma eb_put_simps [simp]:
  "eb_memory_array (eb_put m p x) = (eb_memory_array m)(p := x)"
  "eb_memory_array_set (eb_put m p x) = eb_memory_array_set m"
  "eb_memory_array_size (eb_put m p x) = eb_memory_array_size m"
  "eb_memory_free (eb_put m p x) = eb_memory_free m"
  "eb_memory_used (eb_put m p x) = eb_memory_used m"
  "in_array (eb_put m p x) q = in_array m q"
  by (simp_all add: eb_put_def in_array_def)

lemma in_array_upd [simp]:
  "in_array (m\<lparr>eb_memory_free := f\<rparr>) p = in_array m p"
  "in_array (m\<lparr>eb_memory_used := u\<rparr>) p = in_array m p"
  by (simp_all add: in_array_def)

definition pop_item :: "eb_memory_item \<Rightarrow> eb_ptr \<Rightarrow> eb_memory \<Rightarrow> eb_memory" where
  "pop_item x q m = eb_put (m\<lparr>eb_memory_free := q, eb_memory_used := eb_memory_used m + 1\<rparr>)
     (eb_memory_free m) x"

lemma pop_item_fields:
  "eb_memory_array (pop_item x q m) = (eb_memory_array m)(eb_memory_free m := x)"
  "eb_memory_array_set (pop_item x q m) = eb_memory_array_set m"
  "eb_memory_array_size (pop_item x q m) = eb_memory_array_size m"
  "eb_memory_free (pop_item x q m) = q"
  "eb_memory_used (pop_item x q m) = eb_memory_used m + 1"
  "in_array (pop_item x q m) p = in_array m p"
  by (simp_all add: pop_item_def eb_put_def in_array_def)

lemma eb_item_pop: "eb_item (pop_item x q m) p =
    (if p = eb_memory_free m \<and> in_array m p then Some x else eb_item m p)"
  by (simp add: eb_item_def pop_item_fields)

lemma pop_wf:
  assumes wf: "mem_wf lo hi m (a # fl)" and x: "\<not> is_Free_item x"
  shows "\<exists>q. EB_FREE_ITEM m (eb_memory_free m) = Some q \<and> eb_memory_free m = a \<and>
           mem_wf lo hi (pop_item x q m) fl \<and> eb_live (pop_item x q m) = insert a (eb_live m)"
proof -
  from wf obtain q where a: "eb_memory_free m = a" and q: "EB_FREE_ITEM m a = Some q"
    and ch: "chain (EB_FREE_ITEM m) q fl"
    by (auto simp: mem_wf_def)
  from wf have d: "distinct (a # fl)" unfolding mem_wf_def by (blast dest: chain_distinct)
  from q have ia: "in_array m a" by (simp add: EB_FREE_ITEM_iff)
  have live: "eb_live (pop_item x q m) = insert a (eb_live m)"
    using ia x a by (auto simp: eb_live_def pop_item_fields)
  have nl: "a \<notin> eb_live m" using q by (rule free_not_live)
  have ch': "chain (EB_FREE_ITEM (pop_item x q m)) q fl"
    using ch d a by (subst chain_cong [where nx' = "EB_FREE_ITEM m"])
      (auto simp: eb_item_pop intro!: EB_FREE_ITEM_cong)
  have set: "eb_memory_array_set m" using ia by (simp add: in_array_def)
  have fin: "finite (eb_live m)"
    using wf by (metis finite_Un finite_atLeastLessThan finite_imageI finite.emptyI mem_wf_def)
  have "unat (eb_memory_used m) + length (a # fl) = hi - lo" by (rule mem_wf_count [OF wf set])
  moreover have "hi \<le> 65535" using wf by (simp add: mem_wf_def)
  ultimately have lt: "unat (eb_memory_used m) + 1 < 65536" by simp
  then have u: "unat (eb_memory_used m + 1) = card (insert a (eb_live m))"
    using wf fin nl by (simp add: mem_wf_def unat_word_ariths)
  have "mem_wf lo hi (pop_item x q m) fl"
    using wf u ch' set by (auto simp: mem_wf_def live pop_item_fields)
  with a q live show ?thesis by auto
qed

lemma new_pop:
  assumes "mem_wf lo hi m (a # fl)" and "\<not> is_Free_item x"
  shows "\<exists>q. eb_new_memory_item expand x m = Some (a, pop_item x q m) \<and> a \<noteq> EB_NULL \<and>
     mem_wf lo hi (pop_item x q m) fl \<and> eb_live (pop_item x q m) = insert a (eb_live m) \<and>
     a \<notin> eb_live m \<and> eb_memory_free m = a \<and> in_array m a \<and> eb_item (pop_item x q m) a = Some x \<and>
     (\<forall>r \<in> eb_live m. eb_item (pop_item x q m) r = eb_item m r)"
proof -
  obtain q where q: "EB_FREE_ITEM m (eb_memory_free m) = Some q" "eb_memory_free m = a"
    "mem_wf lo hi (pop_item x q m) fl" "eb_live (pop_item x q m) = insert a (eb_live m)"
    using pop_wf [OF assms] by blast
  moreover have "a \<noteq> EB_NULL" using assms(1) by (simp add: mem_wf_def)
  ultimately show ?thesis
    using free_not_live [OF q(1)] EB_FREE_ITEM_iff [THEN iffD1, OF q(1)]
    by (intro exI [of _ q]) (auto simp: eb_new_memory_item_def pop_item_def [symmetric] eb_item_pop q(1))
qed

lemma eb_item_free:
  assumes "eb_free_memory_item p m = Some m'" and "q \<noteq> p"
  shows "eb_item m' q = eb_item m q"
  using assms by (auto simp: eb_free_memory_item_def eb_item_def eb_put_def in_array_def split: if_splits)

lemma free_wf:
  assumes wf: "mem_wf lo hi m fl" and p: "p \<in> eb_live m"
  shows "\<exists>m'. eb_free_memory_item p m = Some m' \<and> mem_wf lo hi m' (p # fl) \<and>
           eb_live m' = eb_live m - {p} \<and> (\<forall>q. q \<noteq> p \<longrightarrow> eb_item m' q = eb_item m q)"
proof -
  let ?m' = "(eb_put m p (Free_item (eb_memory_free m)))
               \<lparr>eb_memory_free := p, eb_memory_used := eb_memory_used m - 1\<rparr>"
  from p have ia: "in_array m p" by (simp add: eb_live_def)
  then have eq: "eb_free_memory_item p m = Some ?m'" by (simp add: eb_free_memory_item_def)
  have live: "eb_live ?m' = eb_live m - {p}"
    by (auto simp: eb_live_def in_array_def eb_put_def)
  have set: "eb_memory_array_set m" using ia by (simp add: in_array_def)
  with wf p have "p \<in> of_nat ` {lo..<hi}" and hi: "hi \<le> 65535" by (auto simp: mem_wf_def)
  then have nn: "p \<noteq> EB_NULL" by (auto simp: EB_NULL_def word_unat_eq_iff unat_of_nat)
  have pf: "p \<notin> set fl" using mem_wf_disjoint [OF wf] p by blast
  have fr: "EB_FREE_ITEM ?m' p = Some (eb_memory_free m)"
    using ia by (simp add: EB_FREE_ITEM_iff in_array_def eb_put_def)
  have "chain (EB_FREE_ITEM ?m') (eb_memory_free m) fl"
    using wf pf by (subst chain_cong [where nx' = "EB_FREE_ITEM m"])
      (auto simp: mem_wf_def intro!: EB_FREE_ITEM_cong eb_item_free [OF eq])
  with nn fr have ch: "chain (EB_FREE_ITEM ?m') p (p # fl)" by simp
  have fin: "finite (eb_live m)"
    using wf by (metis finite_Un finite_atLeastLessThan finite_imageI finite.emptyI mem_wf_def)
  with p have "0 < card (eb_live m)" by (auto simp: card_gt_0_iff)
  then have "unat (eb_memory_used m - 1) = card (eb_live m - {p})"
    using wf p fin by (simp add: mem_wf_def unat_minus_one unat_gt_0 [symmetric] del: unat_gt_0)
  with wf ch live p set have "mem_wf lo hi ?m' (p # fl)"
    by (auto simp: mem_wf_def eb_put_def)
  with eq live eb_item_free [OF eq] show ?thesis by auto
qed

section \<open>Linking new items\<close>

lemma link_items_apply:
  assumes "b \<le> 65536"
  shows "link_items a b arr p =
     (if a \<le> unat p \<and> unat p < b then Free_item (of_nat (unat p + 1)) else arr p)"
  using assms
proof (induction b)
  case (Suc b)
  have *: "p = of_nat b \<longleftrightarrow> unat p = b"
    using Suc.prems by (intro u16_eq_of_nat) simp
  show ?case
  proof (cases "a \<le> b")
    case True
    then have "link_items a (Suc b) arr = (link_items a b arr)(of_nat b := Free_item (of_nat (b + 1)))"
      by (simp add: link_items_def)
    with Suc * True show ?thesis by auto
  qed (auto simp: link_items_def)
qed (simp add: link_items_def)

lemma chain_upt:
  assumes "a < b" and "b \<le> 65535"
    and "\<And>i. a \<le> i \<Longrightarrow> i + 1 < b \<Longrightarrow> nx (of_nat i) = Some (of_nat (i + 1))"
    and "nx (of_nat (b - 1)) = Some EB_NULL"
  shows "chain nx (of_nat a) (map of_nat [a..<b])"
  using assms
proof (induction "b - a" arbitrary: a)
  case (Suc d)
  have nn: "(of_nat a :: u16) \<noteq> EB_NULL"
    using Suc.prems(1,2) by (auto simp: EB_NULL_def word_unat_eq_iff unat_of_nat)
  show ?case
  proof (cases "a + 1 < b")
    case True
    have "chain nx (of_nat (Suc a)) (map of_nat [Suc a..<b])"
      by (rule Suc.hyps(1)) (use Suc True in auto)
    with nn True Suc.prems(3) [of a] show ?thesis
      by (simp add: upt_conv_Cons)
  next
    case False
    with Suc.prems(1) have "b = a + 1" by simp
    with nn Suc.prems(4) show ?thesis by simp
  qed
qed simp

section \<open>The growing array\<close>

definition dyn_size :: "eb_memory \<Rightarrow> bool" where
  "dyn_size m \<longleftrightarrow> (\<exists>k \<le> 9. unat (eb_memory_array_size m) = 128 * 2 ^ k \<and>
                       (eb_memory_array_set m \<longleftrightarrow> 0 < k))"

definition dyn_wf :: "eb_memory \<Rightarrow> eb_ptr list \<Rightarrow> bool" where
  "dyn_wf m fl \<longleftrightarrow>
     mem_wf 128 (min (unat (eb_memory_array_size m)) 65535) m fl \<and> dyn_size m \<and>
     (\<forall>p. unat p < 128 \<longrightarrow> is_Free_item (eb_memory_array m p))"

definition dyn_ok :: "eb_memory \<Rightarrow> bool" where
  "dyn_ok m \<longleftrightarrow> (\<exists>fl. dyn_wf m fl)"

lemma dyn_size_cases:
  "dyn_size m \<Longrightarrow> unat (eb_memory_array_size m)
     \<in> {128, 256, 512, 1024, 2048, 4096, 8192, 16384, 32768, 65536}"
proof -
  assume "dyn_size m"
  then obtain k where k: "k \<le> 9" "unat (eb_memory_array_size m) = 128 * 2 ^ k"
    by (auto simp: dyn_size_def)
  from k(1) have "k \<in> {0, 1, 2, 3, 4, 5, 6, 7, 8, 9}"
    by (simp only: insert_iff empty_iff) arith
  with k(2) show ?thesis by auto
qed

lemma dyn_wf_init: "dyn_wf (eb_memory_init ok) []"
  by (auto simp: dyn_wf_def mem_wf_def dyn_size_def eb_memory_init_def eb_live_def in_array_def
      intro!: exI [of _ 0])

lemma expand_fails: "fst (eb_expand_array m) \<noteq> 0 \<Longrightarrow> eb_expand_array m = (-1, m)"
  by (auto simp: eb_expand_array_def Let_def split: if_splits)

lemma expand_success:
  assumes "eb_expand_array m = (0, m')" and "dyn_size m"
  defines "n \<equiv> unat (eb_memory_array_size m)"
  shows "128 \<le> n \<and> n \<le> 32768 \<and> unat (eb_memory_array_size m') = 2 * n \<and> eb_memory_array_set m' \<and>
     eb_memory_free m' = of_nat n \<and> eb_memory_used m' = eb_memory_used m \<and> dyn_size m' \<and>
     realloc_ok m' = realloc_ok m \<and>
     (\<forall>p. eb_memory_array m' p =
        (if unat p = 2 * n - 1 then Free_item EB_NULL
         else if n \<le> unat p \<and> unat p < 2 * n then Free_item (of_nat (unat p + 1))
         else eb_memory_array m p))"
proof -
  let ?s = "eb_memory_array_size m"
  from assms(2) obtain k where k: "k \<le> 9" "n = 128 * 2 ^ k"
    by (auto simp: dyn_size_def n_def)
  from assms(1) have "?s \<noteq> 65536" by (auto simp: eb_expand_array_def split: if_splits)
  then have "n \<noteq> 65536" unfolding n_def by (simp add: word_unat_eq_iff)
  with k have "k \<noteq> 9" by auto
  with k have k8: "k \<le> 8" by simp
  then have "(2 :: nat) ^ k \<le> 2 ^ 8" by (intro power_increasing) auto
  with k have n1: "128 \<le> n" "n \<le> 32768" by auto
  have n2: "unat (?s + ?s) = 2 * n" using n1 by (simp add: n_def unat_word_ariths)
  then have "unat (?s + ?s - 1) = 2 * n - 1"
    using n1 by (subst unat_minus_one) (auto simp: unat_eq_zero [symmetric] simp del: unat_eq_zero)
  then have last: "unat (ucast (?s + ?s - 1) :: u16) = 2 * n - 1"
    using n1 by (simp add: unsigned_ucast_eq take_bit_nat_eq_self)
  have fr: "(ucast ?s :: u16) = of_nat n"
    using n1 by (simp add: word_unat_eq_iff unsigned_ucast_eq take_bit_nat_eq_self n_def unat_of_nat)
  have ds: "dyn_size m'"
    using k k8 n2 assms(1) by (auto simp: dyn_size_def eb_expand_array_def Let_def intro!: exI [of _ "Suc k"]
        split: if_splits)
  have arr: "eb_memory_array m' p =
        (if unat p = 2 * n - 1 then Free_item EB_NULL
         else if n \<le> unat p \<and> unat p < 2 * n then Free_item (of_nat (unat p + 1))
         else eb_memory_array m p)" for p
    using assms(1) last n1 n2
    by (auto simp: eb_expand_array_def Let_def link_items_apply n_def [symmetric] word_unat_eq_iff [of p]
        split: if_splits)
  show ?thesis
    using assms(1) n1 n2 fr ds arr by (auto simp: eb_expand_array_def Let_def split: if_splits)
qed

lemma expand_wf:
  assumes ex: "eb_expand_array m = (0, m')" and wf: "dyn_wf m []"
  defines "n \<equiv> unat (eb_memory_array_size m)"
  shows "dyn_wf m' (map of_nat [n..<min (2 * n) 65535]) \<and> eb_live m' = eb_live m \<and>
     (\<forall>p \<in> eb_live m. eb_item m' p = eb_item m p)"
proof -
  let ?hi = "min (2 * n) 65535"
  let ?fl = "map of_nat [n..<?hi] :: u16 list"
  from wf have ds: "dyn_size m" and low: "\<And>p. unat p < 128 \<Longrightarrow> is_Free_item (eb_memory_array m p)"
    and mw: "mem_wf 128 (min n 65535) m []" by (auto simp: dyn_wf_def n_def)
  note x = expand_success [OF ex ds, folded n_def]
  have n1: "128 \<le> n" "n \<le> 32768" using x by auto
  have item: "EB_FREE_ITEM m' p = (if unat p = 2 * n - 1 then Some EB_NULL else Some (of_nat (unat p + 1)))"
    if "n \<le> unat p" "unat p < 2 * n" for p
    using x that by (auto simp: EB_FREE_ITEM_def eb_item_def in_array_def)
  have ch: "chain (EB_FREE_ITEM m') (of_nat n) ?fl"
  proof (rule chain_upt)
    fix i assume "n \<le> i" "i + 1 < ?hi"
    then show "EB_FREE_ITEM m' (of_nat i) = Some (of_nat (i + 1))"
      by (subst item) (auto simp: unat_of_nat)
  next
    define j where "j = ?hi - 1"
    have j: "n \<le> j" "j < 2 * n" "j < 65536" using n1 by (auto simp: j_def)
    then have u: "unat (of_nat j :: u16) = j" by (simp add: unat_of_nat)
    have "j = 2 * n - 1 \<or> (of_nat (j + 1) :: u16) = EB_NULL"
      using n1 by (cases "2 * n \<le> 65535") (auto simp: j_def EB_NULL_def)
    then show "EB_FREE_ITEM m' (of_nat (?hi - 1)) = Some EB_NULL"
      unfolding j_def [symmetric] by (subst item) (use j u in auto)
  qed (use n1 in auto)
  have in': "in_array m' p \<longleftrightarrow> unat p < 2 * n" for p using x by (simp add: in_array_def)
  have live: "eb_live m' = eb_live m"
  proof (rule set_eqI)
    fix p
    show "p \<in> eb_live m' \<longleftrightarrow> p \<in> eb_live m"
    proof (cases "unat p < n")
      case True
      have "eb_memory_array_set m \<or> n = 128"
        using ds by (auto simp: dyn_size_def n_def)
      then show ?thesis using True low x in' n1
        by (auto simp: eb_live_def in_array_def n_def [symmetric])
    next
      case False
      then show ?thesis using x in' n1 by (auto simp: eb_live_def in_array_def n_def [symmetric])
    qed
  qed
  have old: "eb_live m = (if eb_memory_array_set m then of_nat ` {128..<min n 65535} else {})"
    using mw by (simp add: mem_wf_def)
  have "set ?fl \<union> eb_live m = of_nat ` {128..<?hi}"
  proof (cases "eb_memory_array_set m")
    case True
    have "{n..<?hi} \<union> {128..<min n 65535} = {128..<?hi}" using n1 by auto
    with True show ?thesis unfolding old by (simp add: image_Un [symmetric])
  next
    case False
    then have n: "n = 128" using ds by (auto simp: dyn_size_def n_def)
    from False show ?thesis unfolding old by (simp only: if_False set_map set_upt n Un_empty_right)
  qed
  then have "mem_wf 128 ?hi m' ?fl"
    using x n1 mw ch live by (auto simp: mem_wf_def)
  then have "dyn_wf m' ?fl" using x low by (auto simp: dyn_wf_def)
  moreover have "eb_item m' p = eb_item m p" if "p \<in> eb_live m" for p
    using that x in' by (auto simp: eb_live_def in_array_def eb_item_def n_def [symmetric])
  ultimately show ?thesis using live by blast
qed

lemma dyn_new:
  assumes wf: "dyn_wf m fl" and x: "\<not> is_Free_item x"
  shows "eb_new_memory_item eb_expand_array x m = Some (EB_NULL, m) \<or>
     (\<exists>p m' fl'. eb_new_memory_item eb_expand_array x m = Some (p, m') \<and> p \<noteq> EB_NULL \<and> dyn_wf m' fl' \<and>
        p \<notin> eb_live m \<and> eb_live m' = insert p (eb_live m) \<and> eb_item m' p = Some x \<and>
        (\<forall>q \<in> eb_live m. eb_item m' q = eb_item m q))"
proof -
  have pop: "\<exists>p m' fl'. eb_new_memory_item e x m = Some (p, m') \<and> p \<noteq> EB_NULL \<and> dyn_wf m' fl' \<and>
        p \<notin> eb_live m \<and> eb_live m' = insert p (eb_live m) \<and> eb_item m' p = Some x \<and>
        (\<forall>q \<in> eb_live m. eb_item m' q = eb_item m q)"
    if wf: "dyn_wf m (a # fl)" for e a fl m
  proof -
    from wf have mw: "mem_wf 128 (min (unat (eb_memory_array_size m)) 65535) m (a # fl)"
      and ds: "dyn_size m" and low: "\<And>p. unat p < 128 \<Longrightarrow> is_Free_item (eb_memory_array m p)"
      by (auto simp: dyn_wf_def)
    obtain q where q: "eb_new_memory_item e x m = Some (a, pop_item x q m)" "a \<noteq> EB_NULL"
        "mem_wf 128 (min (unat (eb_memory_array_size m)) 65535) (pop_item x q m) fl"
        "eb_live (pop_item x q m) = insert a (eb_live m)" "a \<notin> eb_live m"
        "eb_memory_free m = a" "in_array m a" "eb_item (pop_item x q m) a = Some x"
        "\<forall>r \<in> eb_live m. eb_item (pop_item x q m) r = eb_item m r"
      using new_pop [OF mw x] by blast
    have "a \<in> of_nat ` {128..<min (unat (eb_memory_array_size m)) 65535}"
      using mw q(7) by (auto simp: mem_wf_def in_array_def)
    then have "128 \<le> unat a" by (auto simp: unat_of_nat)
    then have "dyn_wf (pop_item x q m) fl"
      using q(3,6) ds low by (auto simp: dyn_wf_def dyn_size_def pop_item_fields)
    with q show ?thesis by blast
  qed
  show ?thesis
  proof (cases fl)
    case (Cons a r)
    with pop wf show ?thesis by blast
  next
    case Nil
    with wf have fr: "eb_memory_free m = EB_NULL" and wf0: "dyn_wf m []"
      by (auto simp: dyn_wf_def mem_wf_def)
    show ?thesis
    proof (cases "fst (eb_expand_array m) = 0")
      case False
      with fr show ?thesis by (simp add: eb_new_memory_item_def expand_fails)
    next
      case True
      then obtain m1 where ex: "eb_expand_array m = (0, m1)" by (cases "eb_expand_array m") auto
      let ?n = "unat (eb_memory_array_size m)"
      note w = expand_wf [OF ex wf0]
      have n1: "128 \<le> ?n" "?n \<le> 32768"
        using expand_success [OF ex] wf0 by (auto simp: dyn_wf_def)
      then obtain a r where fl1: "map of_nat [?n..<min (2 * ?n) 65535] = a # (r :: u16 list)"
        by (cases "map of_nat [?n..<min (2 * ?n) 65535] :: u16 list") auto
      have new: "eb_new_memory_item eb_expand_array x m = eb_new_memory_item eb_expand_array x m1"
      proof -
        have "eb_memory_free m1 \<noteq> EB_NULL" using w fl1 by (auto simp: dyn_wf_def mem_wf_def)
        with ex fr show ?thesis by (simp add: eb_new_memory_item_def)
      qed
      have "dyn_wf m1 (a # r)" using w fl1 by simp
      from pop [OF this, of eb_expand_array] w show ?thesis unfolding new by metis
    qed
  qed
qed

lemma dyn_release:
  assumes "dyn_wf m fl" and "p \<in> eb_live m"
  shows "\<exists>m'. eb_free_memory_item p m = Some m' \<and> dyn_wf m' (p # fl) \<and> eb_live m' = eb_live m - {p} \<and>
           (\<forall>q. q \<noteq> p \<longrightarrow> eb_item m' q = eb_item m q)"
proof -
  from assms have mw: "mem_wf 128 (min (unat (eb_memory_array_size m)) 65535) m fl"
    by (simp add: dyn_wf_def)
  obtain m' where m': "eb_free_memory_item p m = Some m'"
      "mem_wf 128 (min (unat (eb_memory_array_size m)) 65535) m' (p # fl)"
      "eb_live m' = eb_live m - {p}" "\<forall>q. q \<noteq> p \<longrightarrow> eb_item m' q = eb_item m q"
    using free_wf [OF mw assms(2)] by blast
  then have "dyn_wf m' (p # fl)"
    using assms(1) by (auto simp: dyn_wf_def dyn_size_def eb_free_memory_item_def eb_put_def split: if_splits)
  with m' show ?thesis by blast
qed

interpretation dyn: eb_allocator "eb_new_memory_item eb_expand_array" eb_free_memory_item eb_live dyn_ok
proof
  fix m m' :: eb_memory and x :: eb_memory_item and p :: eb_ptr
  assume "dyn_ok m" and x: "\<not> is_Free_item x"
  then obtain fl where wf: "dyn_wf m fl" by (auto simp: dyn_ok_def)
  note n = dyn_new [OF wf x]
  show "\<exists>p m'. eb_new_memory_item eb_expand_array x m = Some (p, m')" using n by blast
  assume new: "eb_new_memory_item eb_expand_array x m = Some (p, m')"
  show "dyn_ok m'" using n new wf by (auto simp: dyn_ok_def)
  show "p \<noteq> EB_NULL \<Longrightarrow> p \<notin> eb_live m \<and> eb_live m' = insert p (eb_live m)" using n new by auto
  show "p \<noteq> EB_NULL \<Longrightarrow> eb_item m' p = Some x" using n new by auto
  show "q \<in> eb_live m \<Longrightarrow> eb_item m' q = eb_item m q" for q using n new by auto
next
  fix m m' :: eb_memory and x :: eb_memory_item
  assume "dyn_ok m" and x: "\<not> is_Free_item x"
    and new: "eb_new_memory_item eb_expand_array x m = Some (EB_NULL, m')"
  then show "m' = m" using dyn_new [OF _ x] by (fastforce simp: dyn_ok_def)
next
  fix m :: eb_memory and p :: eb_ptr
  assume "dyn_ok m" and "p \<in> eb_live m"
  then show "\<exists>m'. eb_free_memory_item p m = Some m' \<and> dyn_ok m' \<and> eb_live m' = eb_live m - {p} \<and>
             (\<forall>q. q \<noteq> p \<longrightarrow> eb_item m' q = eb_item m q)"
    using dyn_release by (fastforce simp: dyn_ok_def)
qed

section \<open>The fixed array\<close>

definition static_wf :: "eb_memory \<Rightarrow> eb_ptr list \<Rightarrow> bool" where
  "static_wf m fl \<longleftrightarrow>
     mem_wf 0 (unat (eb_memory_array_size m)) m fl \<and> 0 < unat (eb_memory_array_size m) \<and>
     (\<not> eb_memory_array_set m \<longrightarrow> (\<forall>p. is_Free_item (eb_memory_array m p)))"

definition static_ok :: "eb_memory \<Rightarrow> bool" where
  "static_ok m \<longleftrightarrow> (\<exists>fl. static_wf m fl)"

lemma static_wf_init:
  assumes "0 < unat n" and "unat n \<le> 65535"
  shows "static_wf (eb_memory_init_static n) []"
  using assms by (auto simp: static_wf_def mem_wf_def eb_memory_init_static_def eb_live_def in_array_def)

lemma expand_static_wf:
  assumes wf: "static_wf m []" and "\<not> eb_memory_array_set m"
  defines "n \<equiv> unat (eb_memory_array_size m)"
  shows "\<exists>m'. eb_expand_array_static m = (0, m') \<and> static_wf m' (map of_nat [0..<n]) \<and>
           eb_live m' = {} \<and> eb_live m = {} \<and> eb_memory_free m' = 0"
proof -
  obtain m' where ex: "eb_expand_array_static m = (0, m')"
    using assms(2) by (simp add: eb_expand_array_static_def Let_def)
  from wf have n: "0 < n" "n \<le> 65535" and u: "unat (eb_memory_used m) = card (eb_live m)"
    by (auto simp: static_wf_def mem_wf_def n_def)
  have "unat (eb_memory_array_size m - 1) = n - 1"
    using n by (subst unat_minus_one) (auto simp: n_def)
  then have last: "unat (ucast (eb_memory_array_size m - 1) :: u16) = n - 1"
    using n by (simp add: unsigned_ucast_eq take_bit_nat_eq_self)
  have f: "eb_memory_array_size m' = eb_memory_array_size m" "eb_memory_array_set m'"
      "eb_memory_free m' = 0" "eb_memory_used m' = eb_memory_used m"
    using ex assms(2) by (auto simp: eb_expand_array_static_def Let_def)
  have arr: "eb_memory_array m' p = (if unat p = n - 1 then Free_item EB_NULL
      else if unat p < n then Free_item (of_nat (unat p + 1)) else eb_memory_array m p)" for p
    using ex assms(2) last n
    by (auto simp: eb_expand_array_static_def Let_def link_items_apply n_def [symmetric] word_unat_eq_iff [of p])
  have in': "in_array m' p \<longleftrightarrow> unat p < n" for p using f by (simp add: in_array_def n_def)
  have live: "eb_live m' = {}" "eb_live m = {}"
    using assms(2) by (auto simp: eb_live_def in' arr) (simp add: in_array_def)
  have item: "EB_FREE_ITEM m' (of_nat i) = (if i = n - 1 then Some EB_NULL else Some (of_nat (i + 1)))"
    if "i < n" for i
    using that n by (auto simp: EB_FREE_ITEM_def eb_item_def in' arr unat_of_nat)
  have "chain (EB_FREE_ITEM m') (of_nat 0) (map of_nat [0..<n])"
  proof (rule chain_upt)
    show "EB_FREE_ITEM m' (of_nat (n - 1)) = Some EB_NULL" using item [of "n - 1"] n(1) by simp
  qed (use n item in auto)
  then have "mem_wf 0 n m' (map of_nat [0..<n])"
    using n u f live by (simp add: mem_wf_def n_def atLeast0LessThan)
  with ex f live n show ?thesis by (auto simp: static_wf_def n_def)
qed

lemma static_new:
  assumes wf: "static_wf m fl" and x: "\<not> is_Free_item x"
  shows "eb_new_memory_item eb_expand_array_static x m = Some (EB_NULL, m) \<or>
     (\<exists>p m' fl'. eb_new_memory_item eb_expand_array_static x m = Some (p, m') \<and> p \<noteq> EB_NULL \<and> static_wf m' fl' \<and>
        p \<notin> eb_live m \<and> eb_live m' = insert p (eb_live m) \<and> eb_item m' p = Some x \<and>
        (\<forall>q \<in> eb_live m. eb_item m' q = eb_item m q))"
proof -
  have pop: "\<exists>p m' fl'. eb_new_memory_item e x m = Some (p, m') \<and> p \<noteq> EB_NULL \<and> static_wf m' fl' \<and>
        p \<notin> eb_live m \<and> eb_live m' = insert p (eb_live m) \<and> eb_item m' p = Some x \<and>
        (\<forall>q \<in> eb_live m. eb_item m' q = eb_item m q)"
    if wf: "static_wf m (a # fl)" for e a fl m
    using new_pop [OF _ x, of 0 "unat (eb_memory_array_size m)" m a fl e] wf
    by (fastforce simp: static_wf_def pop_item_fields in_array_def)
  show ?thesis
  proof (cases fl)
    case (Cons a r)
    with pop wf show ?thesis by blast
  next
    case Nil
    with wf have fr: "eb_memory_free m = EB_NULL" and wf0: "static_wf m []"
      by (auto simp: static_wf_def mem_wf_def)
    show ?thesis
    proof (cases "eb_memory_array_set m")
      case True
      with fr show ?thesis by (simp add: eb_new_memory_item_def eb_expand_array_static_def)
    next
      case False
      obtain m1 where ex: "eb_expand_array_static m = (0, m1)"
          "static_wf m1 (map of_nat [0..<unat (eb_memory_array_size m)])"
          "eb_live m1 = {}" "eb_live m = {}" "eb_memory_free m1 = 0"
        using expand_static_wf [OF wf0 False] by blast
      obtain a r where fl1: "map of_nat [0..<unat (eb_memory_array_size m)] = a # (r :: u16 list)"
        using wf0 by (cases "map of_nat [0..<unat (eb_memory_array_size m)] :: u16 list") (auto simp: static_wf_def)
      have "eb_new_memory_item eb_expand_array_static x m = eb_new_memory_item eb_expand_array_static x m1"
        using ex fr by (simp add: eb_new_memory_item_def EB_NULL_def)
      with pop [of m1 a r eb_expand_array_static] ex fl1 show ?thesis by auto
    qed
  qed
qed

interpretation static: eb_allocator "eb_new_memory_item eb_expand_array_static" eb_free_memory_item eb_live static_ok
proof
  fix m m' :: eb_memory and x :: eb_memory_item and p :: eb_ptr
  assume "static_ok m" and x: "\<not> is_Free_item x"
  then obtain fl where wf: "static_wf m fl" by (auto simp: static_ok_def)
  note n = static_new [OF wf x]
  show "\<exists>p m'. eb_new_memory_item eb_expand_array_static x m = Some (p, m')" using n by blast
  assume new: "eb_new_memory_item eb_expand_array_static x m = Some (p, m')"
  show "static_ok m'" using n new wf by (auto simp: static_ok_def)
  show "p \<noteq> EB_NULL \<Longrightarrow> p \<notin> eb_live m \<and> eb_live m' = insert p (eb_live m)" using n new by auto
  show "p \<noteq> EB_NULL \<Longrightarrow> eb_item m' p = Some x" using n new by auto
  show "q \<in> eb_live m \<Longrightarrow> eb_item m' q = eb_item m q" for q using n new by auto
next
  fix m m' :: eb_memory and x :: eb_memory_item
  assume "static_ok m" and x: "\<not> is_Free_item x"
    and new: "eb_new_memory_item eb_expand_array_static x m = Some (EB_NULL, m')"
  then show "m' = m" using static_new [OF _ x] by (fastforce simp: static_ok_def)
next
  fix m :: eb_memory and p :: eb_ptr
  assume "static_ok m" and p: "p \<in> eb_live m"
  then obtain fl where wf: "static_wf m fl" by (auto simp: static_ok_def)
  have set: "eb_memory_array_set m" using p by (simp add: eb_live_def in_array_def)
  obtain m' where m': "eb_free_memory_item p m = Some m'"
      "mem_wf 0 (unat (eb_memory_array_size m)) m' (p # fl)"
      "eb_live m' = eb_live m - {p}" "\<forall>q. q \<noteq> p \<longrightarrow> eb_item m' q = eb_item m q"
    using free_wf [OF _ p, of 0 "unat (eb_memory_array_size m)" fl] wf by (auto simp: static_wf_def)
  then have "static_wf m' (p # fl)"
    using wf set by (auto simp: static_wf_def eb_free_memory_item_def eb_put_def split: if_splits)
  with m' show "\<exists>m'. eb_free_memory_item p m = Some m' \<and> static_ok m' \<and> eb_live m' = eb_live m - {p} \<and>
             (\<forall>q. q \<noteq> p \<longrightarrow> eb_item m' q = eb_item m q)"
    by (auto simp: static_ok_def)
qed

section \<open>Writing to objects in use\<close>

lemma eb_item_put: "eb_item (eb_put m p x) q = (if q = p \<and> in_array m p then Some x else eb_item m q)"
  by (simp add: eb_item_def eb_put_def in_array_def)

lemma eb_live_put: "p \<in> eb_live m \<Longrightarrow> \<not> is_Free_item x \<Longrightarrow> eb_live (eb_put m p x) = eb_live m"
  by (auto simp: eb_live_item eb_item_put eb_live_def)

lemma dyn_wf_put:
  assumes wf: "dyn_wf m fl" and p: "p \<in> eb_live m" and x: "\<not> is_Free_item x"
  shows "dyn_wf (eb_put m p x) fl"
proof -
  have "p \<notin> set fl" using mem_wf_disjoint p wf unfolding dyn_wf_def by blast
  then have ch: "chain (EB_FREE_ITEM (eb_put m p x)) q fl = chain (EB_FREE_ITEM m) q fl" for q
    by (intro chain_cong) (auto simp: EB_FREE_ITEM_def eb_item_put)
  have "\<not> unat p < 128" using wf p by (auto simp: dyn_wf_def eb_live_def)
  with wf show ?thesis
    by (auto simp: dyn_wf_def mem_wf_def eb_live_put [OF p x] ch dyn_size_def)
qed

lemma dyn_ok_put: "dyn_ok m \<Longrightarrow> p \<in> eb_live m \<Longrightarrow> \<not> is_Free_item x \<Longrightarrow> dyn_ok (eb_put m p x)"
  unfolding dyn_ok_def using dyn_wf_put by blast

section \<open>Every history of the allocator\<close>

text \<open>The memories a program can produce, with the handles \<open>H\<close> it holds: from the initial
  globals by allocating, by releasing a held handle and by writing to a held object.\<close>

inductive mem_reach :: "(u32 \<Rightarrow> bool) \<Rightarrow> eb_memory \<Rightarrow> eb_ptr set \<Rightarrow> bool" for ok where
  start: "mem_reach ok (eb_memory_init ok) {}"
| alloc: "mem_reach ok m H \<Longrightarrow> \<not> is_Free_item x \<Longrightarrow>
    eb_new_memory_item eb_expand_array x m = Some (p, m') \<Longrightarrow>
    mem_reach ok m' (if p = EB_NULL then H else insert p H)"
| release: "mem_reach ok m H \<Longrightarrow> p \<in> H \<Longrightarrow> eb_free_memory_item p m = Some m' \<Longrightarrow>
    mem_reach ok m' (H - {p})"
| store: "mem_reach ok m H \<Longrightarrow> p \<in> H \<Longrightarrow> \<not> is_Free_item x \<Longrightarrow> mem_reach ok (eb_put m p x) H"

lemma realloc_ok_new: "eb_new_memory_item eb_expand_array x m = Some (p, m') \<Longrightarrow> realloc_ok m' = realloc_ok m"
  by (auto simp: eb_new_memory_item_def eb_expand_array_def Let_def eb_put_def
      split: if_splits Option.bind_splits)

lemma realloc_ok_free: "eb_free_memory_item p m = Some m' \<Longrightarrow> realloc_ok m' = realloc_ok m"
  by (auto simp: eb_free_memory_item_def eb_put_def split: if_splits)

lemma mem_reach_ok: "mem_reach ok m H \<Longrightarrow> dyn_ok m \<and> eb_live m = H \<and> realloc_ok m = ok"
proof (induction rule: mem_reach.induct)
  case start
  have "eb_live (eb_memory_init ok) = {}"
    by (simp add: eb_memory_init_def eb_live_def in_array_def)
  then show ?case using dyn_wf_init by (auto simp: dyn_ok_def eb_memory_init_def)
next
  case (alloc m H x p m')
  then show ?case
    using dyn.new_ok [of m x p m'] dyn.new_live [of m x p m'] dyn.new_null [of m x m'] realloc_ok_new
    by auto
next
  case (release m H p m')
  then show ?case using dyn.release_ok [of m p] realloc_ok_free by fastforce
next
  case (store m H p x)
  then show ?case using dyn_ok_put eb_live_put by (simp add: eb_put_def)
qed

lemma dyn_new_fails:
  assumes "dyn_wf m fl" and "\<not> is_Free_item x"
    and "eb_new_memory_item eb_expand_array x m = Some (EB_NULL, m')" and "\<forall>n. realloc_ok m n"
  shows "eb_memory_array_size m = 65536 \<and> fl = []"
proof (cases fl)
  case (Cons a r)
  with new_pop [of 128 "min (unat (eb_memory_array_size m)) 65535" m a r x eb_expand_array] assms
  show ?thesis by (auto simp: dyn_wf_def)
next
  case Nil
  with assms(1) have wf0: "dyn_wf m []" and fr: "eb_memory_free m = EB_NULL"
    by (auto simp: dyn_wf_def mem_wf_def)
  have "eb_memory_array_size m = 65536"
  proof (rule ccontr)
    assume ne: "eb_memory_array_size m \<noteq> 65536"
    with assms(4) obtain m1 where ex: "eb_expand_array m = (0, m1)"
      by (auto simp: eb_expand_array_def Let_def)
    note w = expand_wf [OF ex wf0] and n1 = expand_success [OF ex]
    have "map of_nat [unat (eb_memory_array_size m)..<min (2 * unat (eb_memory_array_size m)) 65535] \<noteq> ([] :: u16 list)"
      using n1 wf0 by (auto simp: dyn_wf_def)
    then have "eb_memory_free m1 \<noteq> EB_NULL" using w by (auto simp: dyn_wf_def mem_wf_def)
    with ex fr assms(3) show False
      by (auto simp: eb_new_memory_item_def Let_def bind_eq_Some_conv)
  qed
  with Nil show ?thesis by simp
qed

text \<open>C32: whatever sequence of allocations, releases and writes led to a memory \<open>m\<close> with the
  handles \<open>H\<close> outstanding, the next allocation does not fault, does not disturb any object in
  use, and either reports out-of-memory without changing anything or hands out a pointer that is
  not \<^verbatim>\<open>EB_NULL\<close>, not among the outstanding handles, and designates the new object. The usage
  counter always equals the number of outstanding handles.\<close>

theorem alloc_never_aliases:
  assumes "mem_reach ok m H" and "\<not> is_Free_item x"
  shows "unat (eb_memory_used m) = card H \<and>
    (\<exists>p m'. eb_new_memory_item eb_expand_array x m = Some (p, m') \<and>
       (p = EB_NULL \<longrightarrow> m' = m) \<and>
       (p \<noteq> EB_NULL \<longrightarrow> p \<notin> H \<and> eb_item m' p = Some x) \<and>
       (\<forall>q \<in> H. eb_item m' q = eb_item m q))"
proof -
  from mem_reach_ok [OF assms(1)] have ok: "dyn_ok m" and H: "eb_live m = H" by auto
  obtain p m' where n: "eb_new_memory_item eb_expand_array x m = Some (p, m')"
    using dyn.new_total [OF ok assms(2)] by blast
  moreover have "unat (eb_memory_used m) = card H"
    using ok H by (auto simp: dyn_ok_def dyn_wf_def mem_wf_def)
  ultimately show ?thesis
    using dyn.new_null [OF ok assms(2)] dyn.new_live [OF ok assms(2) n] H
      dyn.new_item [OF ok assms(2) n] dyn.new_frame [OF ok assms(2) n] by blast
qed

theorem alloc_never_aliases_witness:
  "unat (eb_memory_used (eb_memory_init (\<lambda>_. True))) = card ({} :: eb_ptr set) \<and>
   (\<exists>p m'. eb_new_memory_item eb_expand_array (Operation_item zero_operation)
        (eb_memory_init (\<lambda>_. True)) = Some (p, m') \<and>
      (p \<noteq> EB_NULL \<longrightarrow> eb_item m' p = Some (Operation_item zero_operation)))"
  using alloc_never_aliases [OF mem_reach.start, of "Operation_item zero_operation" "\<lambda>_. True"] by auto

text \<open>C38: with a system that always grants memory, allocation fails exactly when 65407 objects
  are in use: the 16-bit index space less the null pointer and less the first 128 items, which
  the initial value of \<^verbatim>\<open>eb_memory_array_size\<close> makes the first expansion skip.\<close>

theorem alloc_capacity:
  assumes "mem_reach (\<lambda>_. True) m H" and "\<not> is_Free_item x"
  shows "(\<exists>m'. eb_new_memory_item eb_expand_array x m = Some (EB_NULL, m')) \<longleftrightarrow> card H = 65407"
proof
  from mem_reach_ok [OF assms(1)] have ok: "dyn_ok m" and H: "eb_live m = H"
    and r: "\<forall>n. realloc_ok m n" by auto
  then obtain fl where wf: "dyn_wf m fl" by (auto simp: dyn_ok_def)
  have used: "unat (eb_memory_used m) = card H" using wf H by (auto simp: dyn_wf_def mem_wf_def)
  have mw: "mem_wf 128 (min (unat (eb_memory_array_size m)) 65535) m fl" and ds: "dyn_size m"
    using wf by (auto simp: dyn_wf_def)
  {
    assume "\<exists>m'. eb_new_memory_item eb_expand_array x m = Some (EB_NULL, m')"
    then have s: "eb_memory_array_size m = 65536" "fl = []"
      using dyn_new_fails [OF wf assms(2) _ r] by auto
    then have "eb_memory_array_set m" using ds by (auto simp: dyn_size_def)
    from mem_wf_count [OF mw this] s used show "card H = 65407" by simp
  next
    assume c: "card H = 65407"
    then have set: "eb_memory_array_set m" using mw H by (auto simp: mem_wf_def split: if_splits)
    have le: "unat (eb_memory_array_size m) \<le> 65536" and ne: "unat (eb_memory_array_size m) \<noteq> 65535"
      using dyn_size_cases [OF ds] by auto
    with mem_wf_count [OF mw set] c used
    have s0: "65535 \<le> unat (eb_memory_array_size m)" "length fl = 0" by linarith+
    then have s: "65535 \<le> unat (eb_memory_array_size m)" "fl = []" by auto
    with le ne have "eb_memory_array_size m = 65536"
      by (simp add: word_unat_eq_iff)
    moreover have "eb_memory_free m = EB_NULL" using s mw by (simp add: mem_wf_def)
    ultimately show "\<exists>m'. eb_new_memory_item eb_expand_array x m = Some (EB_NULL, m')"
      by (simp add: eb_new_memory_item_def eb_expand_array_def)
  }
qed

theorem alloc_capacity_witness:
  "mem_reach (\<lambda>_. True) (eb_memory_init (\<lambda>_. True)) {} \<and>
   \<not> (\<exists>m'. eb_new_memory_item eb_expand_array (Operation_item zero_operation)
        (eb_memory_init (\<lambda>_. True)) = Some (EB_NULL, m'))"
proof -
  have r: "mem_reach (\<lambda>_. True) (eb_memory_init (\<lambda>_. True)) {}" by (rule mem_reach.start)
  show ?thesis using r alloc_capacity [OF r, of "Operation_item zero_operation"] by simp
qed

end
