(* ===== verification/Eb_Heap.thy ===== *)
theory Eb_Heap
  imports Eb_Allocator
begin

text \<open>
  Typed access to the object store: the dereferencing macros \<^verbatim>\<open>EB_OPERATION(x)\<close> and so on of
  \<^verbatim>\<open>api/memory/memory-array.h\<close>, assignment through them, the frame relation used to state what an
  operation leaves alone, and the correctness of in-place list reversal, which the library uses
  for operations, cycles and responses alike.
\<close>

section \<open>Dereferencing\<close>

definition EB_OPERATION :: "eb_memory \<Rightarrow> eb_ptr \<Rightarrow> eb_operation option" where
  "EB_OPERATION m p = (case eb_item m p of Some (Operation_item x) \<Rightarrow> Some x | _ \<Rightarrow> None)"
definition EB_CYCLE :: "eb_memory \<Rightarrow> eb_ptr \<Rightarrow> eb_cycle option" where
  "EB_CYCLE m p = (case eb_item m p of Some (Cycle_item x) \<Rightarrow> Some x | _ \<Rightarrow> None)"
definition EB_DEVICE :: "eb_memory \<Rightarrow> eb_ptr \<Rightarrow> eb_device option" where
  "EB_DEVICE m p = (case eb_item m p of Some (Device_item x) \<Rightarrow> Some x | _ \<Rightarrow> None)"
definition EB_SOCKET :: "eb_memory \<Rightarrow> eb_ptr \<Rightarrow> eb_socket option" where
  "EB_SOCKET m p = (case eb_item m p of Some (Socket_item x) \<Rightarrow> Some x | _ \<Rightarrow> None)"
definition EB_SOCKET_AUX :: "eb_memory \<Rightarrow> eb_ptr \<Rightarrow> eb_socket_aux option" where
  "EB_SOCKET_AUX m p = (case eb_item m p of Some (Socket_aux_item x) \<Rightarrow> Some x | _ \<Rightarrow> None)"
definition EB_HANDLER_CALLBACK :: "eb_memory \<Rightarrow> eb_ptr \<Rightarrow> eb_handler_callback option" where
  "EB_HANDLER_CALLBACK m p = (case eb_item m p of Some (Handler_callback_item x) \<Rightarrow> Some x | _ \<Rightarrow> None)"
definition EB_HANDLER_ADDRESS :: "eb_memory \<Rightarrow> eb_ptr \<Rightarrow> eb_handler_address option" where
  "EB_HANDLER_ADDRESS m p = (case eb_item m p of Some (Handler_address_item x) \<Rightarrow> Some x | _ \<Rightarrow> None)"
definition EB_RESPONSE :: "eb_memory \<Rightarrow> eb_ptr \<Rightarrow> eb_response option" where
  "EB_RESPONSE m p = (case eb_item m p of Some (Response_item x) \<Rightarrow> Some x | _ \<Rightarrow> None)"
definition EB_TRANSPORT :: "eb_memory \<Rightarrow> eb_ptr \<Rightarrow> eb_transport option" where
  "EB_TRANSPORT m p = (case eb_item m p of Some (Transport_item x) \<Rightarrow> Some x | _ \<Rightarrow> None)"
definition EB_LINK :: "eb_memory \<Rightarrow> eb_ptr \<Rightarrow> eb_link option" where
  "EB_LINK m p = (case eb_item m p of Some (Link_item x) \<Rightarrow> Some x | _ \<Rightarrow> None)"
definition EB_SDB_SCAN :: "eb_memory \<Rightarrow> eb_ptr \<Rightarrow> eb_sdb_scan option" where
  "EB_SDB_SCAN m p = (case eb_item m p of Some (Sdb_scan_item x) \<Rightarrow> Some x | _ \<Rightarrow> None)"

named_theorems eb_deref \<open>dereferencing in terms of the item stored\<close>

lemma EB_OPERATION_iff [eb_deref]: "EB_OPERATION m p = Some x \<longleftrightarrow> eb_item m p = Some (Operation_item x)"
  by (auto simp: EB_OPERATION_def split: option.split eb_memory_item.split)
lemma EB_CYCLE_iff [eb_deref]: "EB_CYCLE m p = Some c \<longleftrightarrow> eb_item m p = Some (Cycle_item c)"
  by (auto simp: EB_CYCLE_def split: option.split eb_memory_item.split)
lemma EB_DEVICE_iff [eb_deref]: "EB_DEVICE m p = Some d \<longleftrightarrow> eb_item m p = Some (Device_item d)"
  by (auto simp: EB_DEVICE_def split: option.split eb_memory_item.split)
lemma EB_SOCKET_iff [eb_deref]: "EB_SOCKET m p = Some s \<longleftrightarrow> eb_item m p = Some (Socket_item s)"
  by (auto simp: EB_SOCKET_def split: option.split eb_memory_item.split)
lemma EB_SOCKET_AUX_iff [eb_deref]: "EB_SOCKET_AUX m p = Some a \<longleftrightarrow> eb_item m p = Some (Socket_aux_item a)"
  by (auto simp: EB_SOCKET_AUX_def split: option.split eb_memory_item.split)
lemma EB_HANDLER_CALLBACK_iff [eb_deref]:
  "EB_HANDLER_CALLBACK m p = Some h \<longleftrightarrow> eb_item m p = Some (Handler_callback_item h)"
  by (auto simp: EB_HANDLER_CALLBACK_def split: option.split eb_memory_item.split)
lemma EB_HANDLER_ADDRESS_iff [eb_deref]:
  "EB_HANDLER_ADDRESS m p = Some h \<longleftrightarrow> eb_item m p = Some (Handler_address_item h)"
  by (auto simp: EB_HANDLER_ADDRESS_def split: option.split eb_memory_item.split)
lemma EB_RESPONSE_iff [eb_deref]: "EB_RESPONSE m p = Some r \<longleftrightarrow> eb_item m p = Some (Response_item r)"
  by (auto simp: EB_RESPONSE_def split: option.split eb_memory_item.split)
lemma EB_TRANSPORT_iff [eb_deref]: "EB_TRANSPORT m p = Some t \<longleftrightarrow> eb_item m p = Some (Transport_item t)"
  by (auto simp: EB_TRANSPORT_def split: option.split eb_memory_item.split)
lemma EB_LINK_iff [eb_deref]: "EB_LINK m p = Some l \<longleftrightarrow> eb_item m p = Some (Link_item l)"
  by (auto simp: EB_LINK_def split: option.split eb_memory_item.split)
lemma EB_SDB_SCAN_iff [eb_deref]: "EB_SDB_SCAN m p = Some s \<longleftrightarrow> eb_item m p = Some (Sdb_scan_item s)"
  by (auto simp: EB_SDB_SCAN_def split: option.split eb_memory_item.split)

section \<open>Assignment\<close>

text \<open>Assigning fields through a dereferenced pointer: \<open>None\<close> where the dereference is.\<close>

definition set_operation :: "eb_memory \<Rightarrow> eb_ptr \<Rightarrow> (eb_operation \<Rightarrow> eb_operation) \<Rightarrow> eb_memory option" where
  "set_operation m p f = do { x \<leftarrow> EB_OPERATION m p; Some (eb_put m p (Operation_item (f x))) }"
definition set_cycle :: "eb_memory \<Rightarrow> eb_ptr \<Rightarrow> (eb_cycle \<Rightarrow> eb_cycle) \<Rightarrow> eb_memory option" where
  "set_cycle m p f = do { x \<leftarrow> EB_CYCLE m p; Some (eb_put m p (Cycle_item (f x))) }"
definition set_device :: "eb_memory \<Rightarrow> eb_ptr \<Rightarrow> (eb_device \<Rightarrow> eb_device) \<Rightarrow> eb_memory option" where
  "set_device m p f = do { x \<leftarrow> EB_DEVICE m p; Some (eb_put m p (Device_item (f x))) }"
definition set_socket :: "eb_memory \<Rightarrow> eb_ptr \<Rightarrow> (eb_socket \<Rightarrow> eb_socket) \<Rightarrow> eb_memory option" where
  "set_socket m p f = do { x \<leftarrow> EB_SOCKET m p; Some (eb_put m p (Socket_item (f x))) }"
definition set_socket_aux :: "eb_memory \<Rightarrow> eb_ptr \<Rightarrow> (eb_socket_aux \<Rightarrow> eb_socket_aux) \<Rightarrow> eb_memory option" where
  "set_socket_aux m p f = do { x \<leftarrow> EB_SOCKET_AUX m p; Some (eb_put m p (Socket_aux_item (f x))) }"
definition set_handler_callback ::
    "eb_memory \<Rightarrow> eb_ptr \<Rightarrow> (eb_handler_callback \<Rightarrow> eb_handler_callback) \<Rightarrow> eb_memory option" where
  "set_handler_callback m p f =
     do { x \<leftarrow> EB_HANDLER_CALLBACK m p; Some (eb_put m p (Handler_callback_item (f x))) }"
definition set_handler_address ::
    "eb_memory \<Rightarrow> eb_ptr \<Rightarrow> (eb_handler_address \<Rightarrow> eb_handler_address) \<Rightarrow> eb_memory option" where
  "set_handler_address m p f =
     do { x \<leftarrow> EB_HANDLER_ADDRESS m p; Some (eb_put m p (Handler_address_item (f x))) }"
definition set_response :: "eb_memory \<Rightarrow> eb_ptr \<Rightarrow> (eb_response \<Rightarrow> eb_response) \<Rightarrow> eb_memory option" where
  "set_response m p f = do { x \<leftarrow> EB_RESPONSE m p; Some (eb_put m p (Response_item (f x))) }"
definition set_transport :: "eb_memory \<Rightarrow> eb_ptr \<Rightarrow> (eb_transport \<Rightarrow> eb_transport) \<Rightarrow> eb_memory option" where
  "set_transport m p f = do { x \<leftarrow> EB_TRANSPORT m p; Some (eb_put m p (Transport_item (f x))) }"
definition set_link :: "eb_memory \<Rightarrow> eb_ptr \<Rightarrow> (eb_link \<Rightarrow> eb_link) \<Rightarrow> eb_memory option" where
  "set_link m p f = do { x \<leftarrow> EB_LINK m p; Some (eb_put m p (Link_item (f x))) }"
definition set_sdb_scan :: "eb_memory \<Rightarrow> eb_ptr \<Rightarrow> (eb_sdb_scan \<Rightarrow> eb_sdb_scan) \<Rightarrow> eb_memory option" where
  "set_sdb_scan m p f = do { x \<leftarrow> EB_SDB_SCAN m p; Some (eb_put m p (Sdb_scan_item (f x))) }"

lemmas eb_set_defs =
  set_operation_def set_cycle_def set_device_def set_socket_def set_socket_aux_def
  set_handler_callback_def set_handler_address_def set_response_def set_transport_def set_link_def
  set_sdb_scan_def

named_theorems eb_set \<open>dereferencing and assignment where the item stored is known\<close>

lemma EB_OPERATION_Some [eb_set]: "eb_item m p = Some (Operation_item x) \<Longrightarrow> EB_OPERATION m p = Some x"
  by (simp add: eb_deref)
lemma set_operation_Some [eb_set]:
  "eb_item m p = Some (Operation_item x) \<Longrightarrow> set_operation m p f = Some (eb_put m p (Operation_item (f x)))"
  by (simp add: set_operation_def EB_OPERATION_Some)
lemma EB_CYCLE_Some [eb_set]: "eb_item m p = Some (Cycle_item x) \<Longrightarrow> EB_CYCLE m p = Some x"
  by (simp add: eb_deref)
lemma set_cycle_Some [eb_set]:
  "eb_item m p = Some (Cycle_item x) \<Longrightarrow> set_cycle m p f = Some (eb_put m p (Cycle_item (f x)))"
  by (simp add: set_cycle_def EB_CYCLE_Some)
lemma EB_DEVICE_Some [eb_set]: "eb_item m p = Some (Device_item x) \<Longrightarrow> EB_DEVICE m p = Some x"
  by (simp add: eb_deref)
lemma set_device_Some [eb_set]:
  "eb_item m p = Some (Device_item x) \<Longrightarrow> set_device m p f = Some (eb_put m p (Device_item (f x)))"
  by (simp add: set_device_def EB_DEVICE_Some)
lemma EB_SOCKET_Some [eb_set]: "eb_item m p = Some (Socket_item x) \<Longrightarrow> EB_SOCKET m p = Some x"
  by (simp add: eb_deref)
lemma set_socket_Some [eb_set]:
  "eb_item m p = Some (Socket_item x) \<Longrightarrow> set_socket m p f = Some (eb_put m p (Socket_item (f x)))"
  by (simp add: set_socket_def EB_SOCKET_Some)
lemma EB_SOCKET_AUX_Some [eb_set]: "eb_item m p = Some (Socket_aux_item x) \<Longrightarrow> EB_SOCKET_AUX m p = Some x"
  by (simp add: eb_deref)
lemma set_socket_aux_Some [eb_set]:
  "eb_item m p = Some (Socket_aux_item x) \<Longrightarrow> set_socket_aux m p f = Some (eb_put m p (Socket_aux_item (f x)))"
  by (simp add: set_socket_aux_def EB_SOCKET_AUX_Some)
lemma EB_HANDLER_CALLBACK_Some [eb_set]: "eb_item m p = Some (Handler_callback_item x) \<Longrightarrow> EB_HANDLER_CALLBACK m p = Some x"
  by (simp add: eb_deref)
lemma set_handler_callback_Some [eb_set]:
  "eb_item m p = Some (Handler_callback_item x) \<Longrightarrow> set_handler_callback m p f = Some (eb_put m p (Handler_callback_item (f x)))"
  by (simp add: set_handler_callback_def EB_HANDLER_CALLBACK_Some)
lemma EB_HANDLER_ADDRESS_Some [eb_set]: "eb_item m p = Some (Handler_address_item x) \<Longrightarrow> EB_HANDLER_ADDRESS m p = Some x"
  by (simp add: eb_deref)
lemma set_handler_address_Some [eb_set]:
  "eb_item m p = Some (Handler_address_item x) \<Longrightarrow> set_handler_address m p f = Some (eb_put m p (Handler_address_item (f x)))"
  by (simp add: set_handler_address_def EB_HANDLER_ADDRESS_Some)
lemma EB_RESPONSE_Some [eb_set]: "eb_item m p = Some (Response_item x) \<Longrightarrow> EB_RESPONSE m p = Some x"
  by (simp add: eb_deref)
lemma set_response_Some [eb_set]:
  "eb_item m p = Some (Response_item x) \<Longrightarrow> set_response m p f = Some (eb_put m p (Response_item (f x)))"
  by (simp add: set_response_def EB_RESPONSE_Some)
lemma EB_TRANSPORT_Some [eb_set]: "eb_item m p = Some (Transport_item x) \<Longrightarrow> EB_TRANSPORT m p = Some x"
  by (simp add: eb_deref)
lemma set_transport_Some [eb_set]:
  "eb_item m p = Some (Transport_item x) \<Longrightarrow> set_transport m p f = Some (eb_put m p (Transport_item (f x)))"
  by (simp add: set_transport_def EB_TRANSPORT_Some)
lemma EB_LINK_Some [eb_set]: "eb_item m p = Some (Link_item x) \<Longrightarrow> EB_LINK m p = Some x"
  by (simp add: eb_deref)
lemma set_link_Some [eb_set]:
  "eb_item m p = Some (Link_item x) \<Longrightarrow> set_link m p f = Some (eb_put m p (Link_item (f x)))"
  by (simp add: set_link_def EB_LINK_Some)
lemma EB_SDB_SCAN_Some [eb_set]: "eb_item m p = Some (Sdb_scan_item x) \<Longrightarrow> EB_SDB_SCAN m p = Some x"
  by (simp add: eb_deref)
lemma set_sdb_scan_Some [eb_set]:
  "eb_item m p = Some (Sdb_scan_item x) \<Longrightarrow> set_sdb_scan m p f = Some (eb_put m p (Sdb_scan_item (f x)))"
  by (simp add: set_sdb_scan_def EB_SDB_SCAN_Some)

lemma eb_item_live: "eb_item m p = Some x \<Longrightarrow> \<not> is_Free_item x \<Longrightarrow> p \<in> eb_live m"
  by (auto simp: eb_live_item)

lemma eb_item_in_array: "eb_item m p = Some x \<Longrightarrow> in_array m p"
  by (simp add: eb_item_def split: if_splits)

lemma eb_item_put_same [eb_mem]: "eb_item m p = Some x \<Longrightarrow> eb_item (eb_put m p y) p = Some y"
  by (simp add: eb_item_put eb_item_in_array)

lemma eb_item_put_other [eb_mem]: "q \<noteq> p \<Longrightarrow> eb_item (eb_put m p y) q = eb_item m q"
  by (simp add: eb_item_put)

section \<open>Frames\<close>

text \<open>\<open>same_heap S m m'\<close>: going from \<open>m\<close> to \<open>m'\<close> changes no object outside \<open>S\<close>, allocates and
  releases nothing and keeps the allocator's invariant.\<close>

definition same_heap :: "eb_ptr set \<Rightarrow> eb_memory \<Rightarrow> eb_memory \<Rightarrow> bool" where
  "same_heap S m m' \<longleftrightarrow>
     (\<forall>p. p \<notin> S \<longrightarrow> eb_item m' p = eb_item m p) \<and> eb_live m' = eb_live m \<and> (dyn_ok m \<longrightarrow> dyn_ok m')"

lemma same_heap_refl [intro, simp]: "same_heap S m m"
  by (simp add: same_heap_def)

lemma same_heap_trans [trans]: "same_heap S m m' \<Longrightarrow> same_heap T m' m'' \<Longrightarrow> same_heap (S \<union> T) m m''"
  by (simp add: same_heap_def)

lemma same_heap_mono: "same_heap S m m' \<Longrightarrow> S \<subseteq> T \<Longrightarrow> same_heap T m m'"
  by (auto simp: same_heap_def)

lemma same_heap_trans': "same_heap S m m' \<Longrightarrow> same_heap S m' m'' \<Longrightarrow> same_heap S m m''"
  by (simp add: same_heap_def)

lemma same_heap_item: "same_heap S m m' \<Longrightarrow> p \<notin> S \<Longrightarrow> eb_item m' p = eb_item m p"
  by (simp add: same_heap_def)

lemma same_heap_put:
  assumes "eb_item m p = Some x" and "\<not> is_Free_item x" and "\<not> is_Free_item y"
  shows "same_heap {p} m (eb_put m p y)"
  using assms eb_item_live [OF assms(1,2)]
  by (auto simp: same_heap_def eb_item_put eb_live_put dyn_ok_put)

section \<open>Allocation\<close>

lemma new_item_cases [consumes 2, case_names oom fresh]:
  assumes ok: "dyn_ok m" and x: "\<not> is_Free_item x"
  obtains "eb_new_memory_item eb_expand_array x m = Some (EB_NULL, m)"
  | p m' where "eb_new_memory_item eb_expand_array x m = Some (p, m')" "p \<noteq> EB_NULL" "dyn_ok m'"
      "p \<notin> eb_live m" "eb_live m' = insert p (eb_live m)" "eb_item m' p = Some x"
      "\<forall>q \<in> eb_live m. eb_item m' q = eb_item m q"
proof -
  obtain p m' where n: "eb_new_memory_item eb_expand_array x m = Some (p, m')"
    using dyn.new_total [OF ok x] by auto
  show thesis
  proof (cases "p = EB_NULL")
    case True
    with n dyn.new_null [OF ok x, of m'] show thesis by (intro that(1)) auto
  next
    case False
    with n dyn.new_ok [OF ok x n] dyn.new_live [OF ok x n] dyn.new_item [OF ok x n]
      dyn.new_frame [OF ok x n] show thesis by (intro that(2) [of p m']) auto
  qed
qed

lemma free_item_ok:
  assumes "dyn_ok m" and "p \<in> eb_live m"
  obtains m' where "eb_free_memory_item p m = Some m'" "dyn_ok m'" "eb_live m' = eb_live m - {p}"
    "\<And>q. q \<noteq> p \<Longrightarrow> eb_item m' q = eb_item m q"
  using dyn.release_ok [OF assms] by blast

section \<open>Room for more objects\<close>

text \<open>Enough memory for \<open>n\<close> more objects: the array has \<open>n\<close> unused items, or the system grants every
  enlargement and the index space suffices.\<close>

definition room_for :: "nat \<Rightarrow> eb_memory \<Rightarrow> bool" where
  "room_for n m \<longleftrightarrow> card (eb_live m) + n \<le> 65407 \<and>
     ((\<forall>k. realloc_ok m k) \<or>
      eb_memory_array_set m \<and> card (eb_live m) + n + 128 \<le> unat (eb_memory_array_size m))"

lemma room_for_put:
  "p \<in> eb_live m \<Longrightarrow> \<not> is_Free_item x \<Longrightarrow> room_for n (eb_put m p x) = room_for n m"
  by (simp add: room_for_def eb_live_put) (simp add: eb_put_def)

lemma room_for_new:
  assumes ok: "dyn_ok m" and x: "\<not> is_Free_item x" and room: "room_for (Suc n) m"
    and new: "eb_new_memory_item eb_expand_array x m = Some (p, m')"
  shows "p \<noteq> EB_NULL \<and> room_for n m'"
proof -
  from ok obtain fl where wf: "dyn_wf m fl" by (auto simp: dyn_ok_def)
  let ?hi = "min (unat (eb_memory_array_size m)) 65535"
  have mw: "mem_wf 128 ?hi m fl" and ds: "dyn_size m" using wf by (auto simp: dyn_wf_def)
  then have used: "unat (eb_memory_used m) = card (eb_live m)" by (simp add: mem_wf_def)
  have fin: "finite (eb_live m)"
    using mw by (metis finite_Un finite_atLeastLessThan finite_imageI finite.emptyI mem_wf_def)
  have p: "p \<noteq> EB_NULL"
  proof
    assume "p = EB_NULL"
    have "fl = []"
      using new_pop [of 128 ?hi m "hd fl" "tl fl" x eb_expand_array] mw x new \<open>p = EB_NULL\<close> by (cases fl) auto
    then have full: "card (eb_live m) = ?hi - 128" if "eb_memory_array_set m"
      using mem_wf_count [OF mw that] used by simp
    show False
    proof (cases "\<forall>k. realloc_ok m k")
      case True
      then have s: "eb_memory_array_size m = 65536" using dyn_new_fails [OF wf x] new \<open>p = EB_NULL\<close> by auto
      then have "eb_memory_array_set m" using ds by (auto simp: dyn_size_def)
      with full s room show False by (simp add: room_for_def)
    next
      case False
      with full room show False by (auto simp: room_for_def)
    qed
  qed
  have live: "card (eb_live m') = Suc (card (eb_live m))"
    using dyn.new_live [OF ok x new p] fin by simp
  have "room_for n m'"
  proof (cases "\<forall>k. realloc_ok m k")
    case True
    then show ?thesis using room live realloc_ok_new [OF new] by (simp add: room_for_def)
  next
    case False
    with room have set: "eb_memory_array_set m" and c: "card (eb_live m) + Suc n + 128 \<le> unat (eb_memory_array_size m)"
      "card (eb_live m) + Suc n \<le> 65407" by (auto simp: room_for_def)
    have "length fl \<noteq> 0" using mem_wf_count [OF mw set] used c by linarith
    then obtain a r where "fl = a # r" by (cases fl) auto
    with new_pop [of 128 ?hi m a r x eb_expand_array] mw x new obtain q where "m' = pop_item x q m" by auto
    then show ?thesis using set c live by (simp add: room_for_def pop_item_fields)
  qed
  with p show ?thesis by simp
qed

lemma room_for_set:
  "set_operation m p f = Some m' \<Longrightarrow> room_for n m' = room_for n m"
  "set_cycle m p g = Some m' \<Longrightarrow> room_for n m' = room_for n m"
  "set_device m p h = Some m' \<Longrightarrow> room_for n m' = room_for n m"
  by (auto simp: eb_set_defs bind_eq_Some_conv eb_deref intro!: room_for_put eb_item_live)

section \<open>List reversal in place\<close>

locale heap_reverse =
  fixes nx :: "eb_memory \<Rightarrow> eb_ptr \<Rightarrow> eb_ptr option"
    and set_nx :: "eb_memory \<Rightarrow> eb_ptr \<Rightarrow> eb_ptr \<Rightarrow> eb_memory option"
    and payload :: "eb_memory \<Rightarrow> eb_ptr \<Rightarrow> 'a"
    and rev_loop :: "eb_memory \<Rightarrow> eb_ptr \<Rightarrow> eb_ptr \<Rightarrow> (eb_ptr \<times> eb_memory) option"
  assumes rev_loop_step: "rev_loop m i prev =
      (if i = EB_NULL then Some (prev, m)
       else Option.bind (nx m i) (\<lambda>next. Option.bind (set_nx m i prev) (\<lambda>m'. rev_loop m' next i)))"
    and set_nx_law: "nx m i = Some q \<Longrightarrow>
      \<exists>m'. set_nx m i v = Some m' \<and> nx m' = (nx m)(i := Some v) \<and> payload m' = payload m \<and>
           same_heap {i} m m'"
begin

lemma rev_loop_correct:
  assumes "chain (nx m) i xs" and "chain (nx m) prev ys" and "set xs \<inter> set ys = {}"
  shows "\<exists>r m'. rev_loop m i prev = Some (r, m') \<and> chain (nx m') r (rev xs @ ys) \<and>
           payload m' = payload m \<and> same_heap (set xs) m m'"
  using assms
proof (induction xs arbitrary: m i prev ys)
  case Nil
  then have "rev_loop m i prev = Some (prev, m)" by (subst rev_loop_step) simp
  with Nil show ?case by auto
next
  case (Cons x xs)
  then obtain q where q: "i = x" "x \<noteq> EB_NULL" "nx m x = Some q" "chain (nx m) q xs" by auto
  obtain m1 where m1: "set_nx m x prev = Some m1" "nx m1 = (nx m)(x := Some prev)"
      "payload m1 = payload m" "same_heap {x} m m1"
    using set_nx_law [OF q(3)] by blast
  have nx: "x \<notin> set xs" using chain_distinct [OF Cons.prems(1)] by simp
  have step: "rev_loop m i prev = rev_loop m1 q x"
    using q m1 by (subst rev_loop_step) simp
  have "chain (nx m1) q xs" using q(4) nx m1(2) by simp
  moreover have "chain (nx m1) x (x # ys)" using q(2) Cons.prems(2,3) m1(2) by simp
  moreover have "set xs \<inter> set (x # ys) = {}" using Cons.prems(3) nx by auto
  ultimately obtain r m' where r: "rev_loop m1 q x = Some (r, m')"
      "chain (nx m') r (rev xs @ x # ys)" "payload m' = payload m1" "same_heap (set xs) m1 m'"
    using Cons.IH by blast
  moreover have "same_heap (set (x # xs)) m m'"
    using same_heap_trans [OF m1(4) r(4)] by simp
  ultimately show ?case using step m1(3) by auto
qed

end

section \<open>Small heaps\<close>

text \<open>\<open>heap_of xs\<close> is the heap after its first expansion with the objects \<open>xs\<close> allocated in order
  from index 128 on, and a system that grants no more memory. It is a concrete state for examples.\<close>

definition heap_of :: "eb_memory_item list \<Rightarrow> eb_memory" where
  "heap_of xs =
     \<lparr>eb_memory_array = (\<lambda>p. if 128 \<le> unat p \<and> unat p < 128 + length xs then xs ! (unat p - 128)
                            else Free_item (if unat p = 255 then EB_NULL else p + 1)),
      eb_memory_array_set = True, eb_memory_array_size = 256,
      eb_memory_free = (if length xs < 128 then of_nat (128 + length xs) else EB_NULL),
      eb_memory_used = of_nat (length xs), realloc_ok = (\<lambda>_. False)\<rparr>"

lemma heap_of_item:
  assumes "unat p = 128 + i" and "length xs \<le> 128" and "i < length xs"
  shows "eb_item (heap_of xs) p = Some (xs ! i)"
  using assms by (simp add: eb_item_def in_array_def heap_of_def)

lemma heap_of_live:
  assumes "length xs \<le> 128" and "list_all (\<lambda>x. \<not> is_Free_item x) xs"
  shows "eb_live (heap_of xs) = of_nat ` {128..<128 + length xs}"
proof (rule set_eqI)
  fix p :: eb_ptr
  have "p \<in> eb_live (heap_of xs) \<longleftrightarrow> unat p \<in> {128..<128 + length xs}"
    using assms by (auto simp: eb_live_def in_array_def heap_of_def list_all_length)
  also have "\<dots> \<longleftrightarrow> p \<in> of_nat ` {128..<128 + length xs}"
    using assms(1) by (auto simp: unat_of_nat image_iff intro!: bexI [of _ "unat p"])
  finally show "p \<in> eb_live (heap_of xs) \<longleftrightarrow> p \<in> of_nat ` {128..<128 + length xs}" .
qed

lemma heap_of_room:
  assumes "length xs + n \<le> 128" and "list_all (\<lambda>x. \<not> is_Free_item x) xs"
  shows "room_for n (heap_of xs)"
proof -
  have "card (eb_live (heap_of xs)) = length xs"
    using assms by (subst heap_of_live) (auto simp: card_image inj_on_of_nat_u16)
  with assms(1) show ?thesis by (simp add: room_for_def) (simp add: heap_of_def)
qed

lemma heap_of_ok:
  assumes l: "length xs \<le> 128" and f: "list_all (\<lambda>x. \<not> is_Free_item x) xs"
  shows "dyn_ok (heap_of xs)"
proof -
  let ?m = "heap_of xs" and ?a = "128 + length xs"
  let ?fl = "map of_nat [?a..<256] :: eb_ptr list"
  have free: "EB_FREE_ITEM ?m (of_nat i) = Some (if i = 255 then EB_NULL else of_nat (i + 1))"
    if "?a \<le> i" "i < 256" for i
  proof -
    have "unat (of_nat i :: eb_ptr) = i" using that by (simp only: unat_of_nat) simp
    with that show ?thesis by (simp add: EB_FREE_ITEM_iff in_array_def heap_of_def)
  qed
  have "chain (EB_FREE_ITEM ?m) (eb_memory_free ?m) ?fl"
  proof (cases "length xs < 128")
    case True
    have "chain (EB_FREE_ITEM ?m) (of_nat ?a) ?fl"
      by (rule chain_upt) (use True free free [of 255] in auto)
    with True show ?thesis by (simp add: heap_of_def)
  qed (use l in \<open>simp add: heap_of_def\<close>)
  moreover have "set ?fl \<union> eb_live ?m = of_nat ` {128..<256}"
    unfolding heap_of_live [OF l f] using l by (auto simp: image_Un [symmetric] ivl_disj_un)
  moreover have "card (eb_live ?m) = length xs"
    unfolding heap_of_live [OF l f] using l by (simp add: card_image inj_on_of_nat_u16)
  moreover have "unat (eb_memory_used ?m) = length xs" using l by (simp add: heap_of_def unat_of_nat)
  ultimately have "mem_wf 128 256 ?m ?fl" by (simp add: mem_wf_def) (simp add: heap_of_def)
  moreover have "dyn_size ?m" by (auto simp: dyn_size_def heap_of_def intro!: exI [of _ 1])
  moreover have "is_Free_item (eb_memory_array ?m p)" if "unat p < 128" for p
    using that by (simp add: heap_of_def)
  ultimately have "dyn_wf ?m ?fl" by (simp add: dyn_wf_def) (simp add: heap_of_def)
  then show ?thesis by (auto simp: dyn_ok_def)
qed

end
