(* ===== verification/Eb_Operation.thy ===== *)
theory Eb_Operation
  imports Eb_Heap
begin

text \<open>
  Operations of a bus cycle (\<^verbatim>\<open>api/glue/operation.h\<close>, \<^verbatim>\<open>api/glue/operation.c\<close>): the accessors, and
  the searches for the next bus operation and the next read along the operation list.
\<close>

abbreviation (input) EB_OP_WRITE :: u8 where "EB_OP_WRITE \<equiv> 0x00"
abbreviation (input) EB_OP_READ_PTR :: u8 where "EB_OP_READ_PTR \<equiv> 0x01"
abbreviation (input) EB_OP_READ_VAL :: u8 where "EB_OP_READ_VAL \<equiv> 0x02"
abbreviation (input) EB_OP_MASK :: u8 where "EB_OP_MASK \<equiv> 0x03"
abbreviation (input) EB_OP_CFG_SPACE :: u8 where "EB_OP_CFG_SPACE \<equiv> 0x04"
abbreviation (input) EB_OP_ERROR :: u8 where "EB_OP_ERROR \<equiv> 0x08"
abbreviation (input) EB_OP_CHECKED :: u8 where "EB_OP_CHECKED \<equiv> 0x10"

definition eb_operation_next :: "eb_memory \<Rightarrow> eb_ptr \<Rightarrow> eb_ptr option" where
  "eb_operation_next m opp = do { op \<leftarrow> EB_OPERATION m opp; Some (op_next op) }"

definition eb_operation_is_read :: "eb_memory \<Rightarrow> eb_ptr \<Rightarrow> bool option" where
  "eb_operation_is_read m opp =
     do { op \<leftarrow> EB_OPERATION m opp; Some (op_flags op AND EB_OP_MASK \<noteq> EB_OP_WRITE) }"

definition eb_operation_is_config :: "eb_memory \<Rightarrow> eb_ptr \<Rightarrow> bool option" where
  "eb_operation_is_config m opp =
     do { op \<leftarrow> EB_OPERATION m opp; Some (op_flags op AND EB_OP_CFG_SPACE \<noteq> 0) }"

definition eb_operation_had_error :: "eb_memory \<Rightarrow> eb_ptr \<Rightarrow> bool option" where
  "eb_operation_had_error m opp =
     do { op \<leftarrow> EB_OPERATION m opp; Some (op_flags op AND EB_OP_ERROR \<noteq> 0) }"

definition eb_operation_address :: "eb_memory \<Rightarrow> eb_ptr \<Rightarrow> eb_address_t option" where
  "eb_operation_address m opp = do { op \<leftarrow> EB_OPERATION m opp; Some (op_address op) }"

text \<open>\<open>user\<close> is the contents of the user's \<^verbatim>\<open>eb_data_t\<close> variables, by address.\<close>

definition eb_operation_data :: "(u64 \<Rightarrow> eb_data_t) \<Rightarrow> eb_memory \<Rightarrow> eb_ptr \<Rightarrow> eb_data_t option" where
  "eb_operation_data user m opp = do {
     op \<leftarrow> EB_OPERATION m opp;
     let k = op_flags op AND EB_OP_MASK;
     Some (if k = EB_OP_WRITE then op_un_value op
           else if k = EB_OP_READ_PTR then user (op_un_value op)
           else if k = EB_OP_READ_VAL then op_un_value op
           else 0)
   }"

definition eb_operation_format :: "eb_memory \<Rightarrow> eb_ptr \<Rightarrow> eb_format_t option" where
  "eb_operation_format m opp = do { op \<leftarrow> EB_OPERATION m opp; Some (op_format op) }"

partial_function (option) eb_find_bus :: "eb_memory \<Rightarrow> eb_ptr \<Rightarrow> eb_ptr option" where
  "eb_find_bus m opp =
     (if opp = EB_NULL then Some opp
      else do {
        op \<leftarrow> EB_OPERATION m opp;
        if op_flags op AND EB_OP_CFG_SPACE = 0 then Some opp else eb_find_bus m (op_next op)
      })"

partial_function (option) eb_find_read :: "eb_memory \<Rightarrow> eb_ptr \<Rightarrow> eb_ptr option" where
  "eb_find_read m opp =
     (if opp = EB_NULL then Some opp
      else do {
        op \<leftarrow> EB_OPERATION m opp;
        if op_flags op AND EB_OP_MASK \<noteq> EB_OP_WRITE then Some opp else eb_find_read m (op_next op)
      })"

section \<open>Operation lists\<close>

abbreviation op_chain :: "eb_memory \<Rightarrow> eb_ptr \<Rightarrow> eb_ptr list \<Rightarrow> bool" where
  "op_chain m \<equiv> chain (eb_operation_next m)"

definition op_at :: "eb_memory \<Rightarrow> eb_ptr \<Rightarrow> eb_operation" where
  "op_at m p = (case EB_OPERATION m p of Some op \<Rightarrow> op | None \<Rightarrow> zero_operation)"

definition op_is_read :: "eb_operation \<Rightarrow> bool" where
  "op_is_read op \<longleftrightarrow> op_flags op AND EB_OP_MASK \<noteq> EB_OP_WRITE"

definition op_is_cfg :: "eb_operation \<Rightarrow> bool" where
  "op_is_cfg op \<longleftrightarrow> op_flags op AND EB_OP_CFG_SPACE \<noteq> 0"

text \<open>The pointer to the first element of a list of objects.\<close>

definition head_ptr :: "eb_ptr list \<Rightarrow> eb_ptr" where
  "head_ptr xs = (case xs of [] \<Rightarrow> EB_NULL | x # _ \<Rightarrow> x)"

lemma head_ptr_simps [simp]: "head_ptr [] = EB_NULL" "head_ptr (x # xs) = x"
  by (simp_all add: head_ptr_def)

lemma eb_operation_next_Some:
  "eb_operation_next m p = Some q \<longleftrightarrow> (\<exists>op. EB_OPERATION m p = Some op \<and> q = op_next op)"
  by (auto simp: eb_operation_next_def bind_eq_Some_conv)

lemma op_chain_Cons:
  "op_chain m p (x # xs) \<longleftrightarrow>
     p = x \<and> x \<noteq> EB_NULL \<and> EB_OPERATION m x = Some (op_at m x) \<and> op_chain m (op_next (op_at m x)) xs"
  by (auto simp: eb_operation_next_Some op_at_def)

lemma op_chain_head: "op_chain m p xs \<Longrightarrow> p = head_ptr xs"
  by (cases xs) auto

lemma op_chain_live: "op_chain m p xs \<Longrightarrow> set xs \<subseteq> eb_live m"
proof (induction xs arbitrary: p)
  case (Cons x xs)
  then show ?case
    by (auto simp: eb_operation_next_Some eb_deref intro: eb_item_live)
qed simp

lemma eb_operation_next_cong: "eb_item m' p = eb_item m p \<Longrightarrow> eb_operation_next m' p = eb_operation_next m p"
  by (simp add: eb_operation_next_def EB_OPERATION_def)

lemma op_at_cong: "eb_item m' p = eb_item m p \<Longrightarrow> op_at m' p = op_at m p"
  by (simp add: op_at_def EB_OPERATION_def)

lemma op_chain_cong:
  "(\<And>x. x \<in> set xs \<Longrightarrow> eb_item m' x = eb_item m x) \<Longrightarrow> op_chain m' p xs = op_chain m p xs"
  by (rule chain_cong) (rule eb_operation_next_cong)

lemma op_chain_frame:
  "op_chain m p xs \<Longrightarrow> \<forall>x \<in> set xs. eb_item m' x = eb_item m x \<Longrightarrow> op_chain m' p xs"
  using op_chain_cong by blast

text \<open>The searches return, without faulting, the first list element with the wanted property, or
  the null pointer when there is none.\<close>

lemma eb_find_bus_chain:
  "op_chain m p xs \<Longrightarrow> eb_find_bus m p = Some (head_ptr (dropWhile (\<lambda>x. op_is_cfg (op_at m x)) xs))"
proof (induction xs arbitrary: p)
  case Nil
  then show ?case by (simp add: eb_find_bus.simps)
next
  case (Cons x xs)
  then show ?case
    unfolding op_chain_Cons by (subst eb_find_bus.simps) (auto simp: op_is_cfg_def)
qed

lemma eb_find_read_chain:
  "op_chain m p xs \<Longrightarrow> eb_find_read m p = Some (head_ptr (dropWhile (\<lambda>x. \<not> op_is_read (op_at m x)) xs))"
proof (induction xs arbitrary: p)
  case Nil
  then show ?case by (simp add: eb_find_read.simps)
next
  case (Cons x xs)
  then show ?case
    unfolding op_chain_Cons by (subst eb_find_read.simps) (auto simp: op_is_read_def)
qed

end
