(* ===== verification/Eb_Cycle.thy ===== *)
theory Eb_Cycle
  imports Eb_Operation
begin

text \<open>
  Bus cycles (\<^verbatim>\<open>api/glue/cycle.c\<close>): opening, collecting operations, aborting and queueing a cycle to
  its device. The operations collect in front of a linked list and are put into call order when
  the cycle is closed; running out of memory makes the cycle \<^emph>\<open>dead\<close> (its operation pointer is the
  cycle itself) and frees what was collected. The lemmas show that no call sequence faults, that a
  closed cycle holds exactly the operations requested, in order, and that an aborted or dead cycle
  leaks nothing. Waiting for a blocking cycle (\<^verbatim>\<open>eb_cycle_block\<close>) is in theory \<open>Eb_Check\<close>.
\<close>

section \<open>Model\<close>

definition eb_cycle_device :: "eb_memory \<Rightarrow> eb_ptr \<Rightarrow> eb_ptr option" where
  "eb_cycle_device m cyclep = do { cycle \<leftarrow> EB_CYCLE m cyclep; Some (cy_un_link cycle) }"

definition eb_cycle_open ::
    "eb_ptr \<Rightarrow> eb_user_data_t \<Rightarrow> eb_callback_t option \<Rightarrow> eb_memory \<Rightarrow> (eb_status_t \<times> eb_ptr \<times> eb_memory) option" where
  "eb_cycle_open devicep user cb m = do {
     (cyclep, m) \<leftarrow> eb_new_cycle m;
     if cyclep = EB_NULL then Some (EB_OOM, EB_NULL, m)
     else do {
       device \<leftarrow> EB_DEVICE m devicep;
       if dev_un_link device = devicep then do {
         m \<leftarrow> eb_free_cycle cyclep m;
         Some (EB_FAIL, EB_NULL, m)
       } else do {
         m \<leftarrow> set_cycle m cyclep (\<lambda>c. c\<lparr>cy_user_data := user, cy_un_ops := EB_NULL,
                                          cy_un_link := devicep\<rparr>);
         m \<leftarrow> set_cycle m cyclep (\<lambda>c. c\<lparr>cy_callback := (case cb of Some f \<Rightarrow> f | None \<Rightarrow> Eb_block_f)\<rparr>);
         m \<leftarrow> set_device m devicep (\<lambda>d. d\<lparr>dev_unready := dev_unready d + 1\<rparr>);
         Some (EB_OK, cyclep, m)
       }
     }
   }"

partial_function (option) eb_cycle_destroy_loop :: "eb_memory \<Rightarrow> eb_ptr \<Rightarrow> eb_memory option" where
  "eb_cycle_destroy_loop m i =
     (if i = EB_NULL then Some m
      else do {
        next \<leftarrow> eb_operation_next m i;
        m \<leftarrow> eb_free_operation i m;
        eb_cycle_destroy_loop m next
      })"

definition eb_cycle_destroy :: "eb_ptr \<Rightarrow> eb_memory \<Rightarrow> eb_memory option" where
  "eb_cycle_destroy cyclep m = do {
     cycle \<leftarrow> EB_CYCLE m cyclep;
     m \<leftarrow> (if cy_un_ops cycle \<noteq> cyclep then eb_cycle_destroy_loop m (cy_un_ops cycle) else Some m);
     set_cycle m cyclep (\<lambda>c. c\<lparr>cy_un_ops := EB_NULL\<rparr>)
   }"

definition eb_cycle_abort :: "eb_ptr \<Rightarrow> eb_memory \<Rightarrow> eb_memory option" where
  "eb_cycle_abort cyclep m = do {
     cycle \<leftarrow> EB_CYCLE m cyclep;
     m \<leftarrow> set_device m (cy_un_link cycle) (\<lambda>d. d\<lparr>dev_unready := dev_unready d - 1\<rparr>);
     m \<leftarrow> eb_cycle_destroy cyclep m;
     eb_free_cycle cyclep m
   }"

definition set_op_next :: "eb_memory \<Rightarrow> eb_ptr \<Rightarrow> eb_ptr \<Rightarrow> eb_memory option" where
  "set_op_next m i v = set_operation m i (\<lambda>op. op\<lparr>op_next := v\<rparr>)"

partial_function (option) eb_reverse_ops ::
    "eb_memory \<Rightarrow> eb_ptr \<Rightarrow> eb_ptr \<Rightarrow> (eb_ptr \<times> eb_memory) option" where
  "eb_reverse_ops m i prev =
     (if i = EB_NULL then Some (prev, m)
      else do {
        next \<leftarrow> eb_operation_next m i;
        m \<leftarrow> set_op_next m i prev;
        eb_reverse_ops m next i
      })"

definition eb_raw_cycle_close :: "eb_ptr \<Rightarrow> eb_memory \<Rightarrow> eb_memory option" where
  "eb_raw_cycle_close cyclep m = do {
     cycle \<leftarrow> EB_CYCLE m cyclep;
     let devicep = cy_un_link cycle;
     m \<leftarrow> (if cy_un_ops cycle \<noteq> cyclep then do {
             (prev, m) \<leftarrow> eb_reverse_ops m (cy_un_ops cycle) EB_NULL;
             set_cycle m cyclep (\<lambda>c. c\<lparr>cy_un_ops := prev\<rparr>)
           } else Some m);
     device \<leftarrow> EB_DEVICE m devicep;
     m \<leftarrow> set_cycle m cyclep (\<lambda>c. c\<lparr>cy_un_link := dev_un_link device\<rparr>);
     m \<leftarrow> set_device m devicep (\<lambda>d. d\<lparr>dev_un_link := cyclep\<rparr>);
     set_device m devicep (\<lambda>d. d\<lparr>dev_unready := dev_unready d - 1\<rparr>)
   }"

text \<open>Mark the first operation so that the master asks for the error status of the cycle
  (the part of \<^verbatim>\<open>eb_cycle_close\<close> that \<^verbatim>\<open>eb_cycle_close_silently\<close> lacks).\<close>

definition eb_cycle_check :: "eb_ptr \<Rightarrow> eb_memory \<Rightarrow> eb_memory option" where
  "eb_cycle_check cyclep m = do {
     cycle \<leftarrow> EB_CYCLE m cyclep;
     let opp = cy_un_ops cycle;
     if opp \<noteq> EB_NULL \<and> cy_un_ops cycle \<noteq> cyclep
     then set_operation m opp (\<lambda>op. op\<lparr>op_flags := op_flags op OR EB_OP_CHECKED\<rparr>)
     else Some m
   }"

text \<open>\<^verbatim>\<open>eb_cycle_doop\<close> returns the new operation, or the static scrap operation, here \<open>None\<close>.\<close>

definition eb_cycle_doop :: "eb_ptr \<Rightarrow> eb_memory \<Rightarrow> (eb_ptr option \<times> eb_memory) option" where
  "eb_cycle_doop cyclep m = do {
     (opp, m) \<leftarrow> eb_new_operation m;
     cycle \<leftarrow> EB_CYCLE m cyclep;
     if opp = EB_NULL then do {
       m \<leftarrow> eb_cycle_destroy cyclep m;
       m \<leftarrow> set_cycle m cyclep (\<lambda>c. c\<lparr>cy_un_ops := cyclep\<rparr>);
       Some (None, m)
     } else if cy_un_ops cycle = cyclep then do {
       m \<leftarrow> eb_free_operation opp m;
       Some (None, m)
     } else do {
       m \<leftarrow> set_operation m opp (\<lambda>op. op\<lparr>op_next := cy_un_ops cycle\<rparr>);
       m \<leftarrow> set_cycle m cyclep (\<lambda>c. c\<lparr>cy_un_ops := opp\<rparr>);
       Some (Some opp, m)
     }
   }"

text \<open>Assigning the fields of the operation \<^verbatim>\<open>eb_cycle_doop\<close> returned.\<close>

definition eb_op_assign ::
    "eb_ptr option \<Rightarrow> eb_address_t \<Rightarrow> u64 \<Rightarrow> eb_format_t \<Rightarrow> u8 \<Rightarrow> eb_memory \<Rightarrow> eb_memory option" where
  "eb_op_assign slot address value format flags m =
     (case slot of
        None \<Rightarrow> Some m
      | Some p \<Rightarrow> set_operation m p (\<lambda>op. op\<lparr>op_address := address, op_un_value := value,
                                           op_format := format, op_flags := flags\<rparr>))"

definition eb_cycle_read :: "eb_ptr \<Rightarrow> eb_address_t \<Rightarrow> eb_format_t \<Rightarrow> u64 \<Rightarrow> eb_memory \<Rightarrow> eb_memory option" where
  "eb_cycle_read cycle address format data m = do {
     (op, m) \<leftarrow> eb_cycle_doop cycle m;
     eb_op_assign op address data format
       (if data \<noteq> 0 then EB_OP_READ_PTR else EB_OP_READ_VAL) m
   }"

definition eb_cycle_read_config ::
    "eb_ptr \<Rightarrow> eb_address_t \<Rightarrow> eb_format_t \<Rightarrow> u64 \<Rightarrow> eb_memory \<Rightarrow> eb_memory option" where
  "eb_cycle_read_config cycle address format data m = do {
     (op, m) \<leftarrow> eb_cycle_doop cycle m;
     eb_op_assign op address data format
       (if data \<noteq> 0 then EB_OP_READ_PTR OR EB_OP_CFG_SPACE else EB_OP_READ_VAL OR EB_OP_CFG_SPACE) m
   }"

definition eb_cycle_write ::
    "eb_ptr \<Rightarrow> eb_address_t \<Rightarrow> eb_format_t \<Rightarrow> eb_data_t \<Rightarrow> eb_memory \<Rightarrow> eb_memory option" where
  "eb_cycle_write cycle address format data m = do {
     (op, m) \<leftarrow> eb_cycle_doop cycle m;
     eb_op_assign op address data format EB_OP_WRITE m
   }"

definition eb_cycle_write_config ::
    "eb_ptr \<Rightarrow> eb_address_t \<Rightarrow> eb_format_t \<Rightarrow> eb_data_t \<Rightarrow> eb_memory \<Rightarrow> eb_memory option" where
  "eb_cycle_write_config cycle address format data m = do {
     (op, m) \<leftarrow> eb_cycle_doop cycle m;
     eb_op_assign op address data format (EB_OP_WRITE OR EB_OP_CFG_SPACE) m
   }"

section \<open>Cycles in the store\<close>

definition cycle_dead :: "eb_memory \<Rightarrow> eb_ptr \<Rightarrow> bool" where
  "cycle_dead m c \<longleftrightarrow> (\<exists>cy. EB_CYCLE m c = Some cy \<and> cy_un_ops cy = c)"

definition cycle_ops :: "eb_memory \<Rightarrow> eb_ptr \<Rightarrow> eb_ptr list \<Rightarrow> bool" where
  "cycle_ops m c xs \<longleftrightarrow>
     (\<exists>cy. EB_CYCLE m c = Some cy \<and> cy_un_ops cy \<noteq> c \<and> op_chain m (cy_un_ops cy) xs)"

text \<open>The part of an operation that list surgery does not touch.\<close>

definition op_core :: "eb_operation \<Rightarrow> eb_operation" where
  "op_core op = op\<lparr>op_next := EB_NULL\<rparr>"

definition core_at :: "eb_memory \<Rightarrow> eb_ptr \<Rightarrow> eb_operation" where
  "core_at m p = op_core (op_at m p)"

lemma core_at_cong: "eb_item m' p = eb_item m p \<Longrightarrow> core_at m' p = core_at m p"
  unfolding core_at_def by (drule op_at_cong) simp

lemma NULL_not_live: "dyn_ok m \<Longrightarrow> EB_NULL \<notin> eb_live m"
proof
  assume "dyn_ok m" and n: "EB_NULL \<in> eb_live m"
  then obtain fl where "mem_wf 128 (min (unat (eb_memory_array_size m)) 65535) m fl"
    by (auto simp: dyn_ok_def dyn_wf_def)
  with n have "EB_NULL \<in> of_nat ` {128..<min (unat (eb_memory_array_size m)) 65535}"
    by (auto simp: mem_wf_def split: if_splits)
  then show False by (auto simp: EB_NULL_def word_unat_eq_iff unat_of_nat)
qed

lemma cycle_live: "EB_CYCLE m c = Some cy \<Longrightarrow> c \<in> eb_live m"
  by (auto simp: eb_deref intro: eb_item_live)

lemma cycle_not_op: "EB_CYCLE m c = Some cy \<Longrightarrow> op_chain m p xs \<Longrightarrow> c \<notin> set xs"
proof
  assume "EB_CYCLE m c = Some cy" "op_chain m p xs" "c \<in> set xs"
  then have "eb_operation_next m c \<noteq> None" by (auto dest: chain_defined)
  with \<open>EB_CYCLE m c = Some cy\<close> show False
    by (auto simp: eb_operation_next_Some eb_deref)
qed

subsection \<open>Destroying the operations\<close>

lemma eb_cycle_destroy_loop_chain:
  assumes "dyn_ok m" and "op_chain m p xs"
  shows "\<exists>m'. eb_cycle_destroy_loop m p = Some m' \<and> dyn_ok m' \<and> eb_live m' = eb_live m - set xs \<and>
           (\<forall>q. q \<notin> set xs \<longrightarrow> eb_item m' q = eb_item m q)"
  using assms
proof (induction xs arbitrary: m p)
  case Nil
  then show ?case by (simp add: eb_cycle_destroy_loop.simps)
next
  case (Cons x xs)
  then obtain q where q: "p = x" "x \<noteq> EB_NULL" "eb_operation_next m x = Some q" "op_chain m q xs" by auto
  have "x \<in> eb_live m" using op_chain_live [OF Cons.prems(2)] by simp
  then obtain m1 where m1: "eb_free_memory_item x m = Some m1" "dyn_ok m1" "eb_live m1 = eb_live m - {x}"
      "\<forall>r. r \<noteq> x \<longrightarrow> eb_item m1 r = eb_item m r"
    using dyn.release_ok [OF Cons.prems(1)] by blast
  have x: "x \<notin> set xs" using chain_distinct [OF Cons.prems(2)] by simp
  then have "op_chain m1 q xs" using q(4) m1(4) by (auto intro: op_chain_frame)
  from Cons.IH [OF m1(2) this] obtain m' where m': "eb_cycle_destroy_loop m1 q = Some m'" "dyn_ok m'"
      "eb_live m' = eb_live m1 - set xs" "\<forall>r. r \<notin> set xs \<longrightarrow> eb_item m' r = eb_item m1 r" by blast
  have "eb_cycle_destroy_loop m p = Some m'"
    using q m1(1) m'(1) by (subst eb_cycle_destroy_loop.simps) simp
  moreover have "eb_live m' = eb_live m - set (x # xs)" using m'(3) m1(3) by auto
  ultimately show ?case using m' m1 by auto
qed

lemma eb_cycle_destroy_ops:
  assumes ok: "dyn_ok m" and ops: "cycle_ops m c xs"
  shows "\<exists>m' cy. eb_cycle_destroy c m = Some m' \<and> dyn_ok m' \<and> eb_live m' = eb_live m - set xs \<and>
           (\<forall>q. q \<notin> set xs \<longrightarrow> q \<noteq> c \<longrightarrow> eb_item m' q = eb_item m q) \<and>
           EB_CYCLE m c = Some cy \<and> EB_CYCLE m' c = Some (cy\<lparr>cy_un_ops := EB_NULL\<rparr>)"
proof -
  from ops obtain cy where cy: "EB_CYCLE m c = Some cy" "cy_un_ops cy \<noteq> c" "op_chain m (cy_un_ops cy) xs"
    by (auto simp: cycle_ops_def)
  obtain m1 where m1: "eb_cycle_destroy_loop m (cy_un_ops cy) = Some m1" "dyn_ok m1"
      "eb_live m1 = eb_live m - set xs" "\<forall>q. q \<notin> set xs \<longrightarrow> eb_item m1 q = eb_item m q"
    using eb_cycle_destroy_loop_chain [OF ok cy(3)] by blast
  have c: "c \<notin> set xs" by (rule cycle_not_op [OF cy(1,3)])
  then have i: "eb_item m1 c = Some (Cycle_item cy)" using m1(4) cy(1) by (simp add: eb_deref)
  let ?m' = "eb_put m1 c (Cycle_item (cy\<lparr>cy_un_ops := EB_NULL\<rparr>))"
  have "same_heap {c} m1 ?m'" using i by (rule same_heap_put) auto
  moreover have "eb_cycle_destroy c m = Some ?m'"
    using cy m1(1) by (simp add: eb_cycle_destroy_def set_cycle_Some [OF i])
  moreover have "EB_CYCLE ?m' c = Some (cy\<lparr>cy_un_ops := EB_NULL\<rparr>)"
    using i by (simp add: eb_deref eb_mem)
  ultimately show ?thesis using m1 cy(1) by (auto simp: same_heap_def)
qed

lemma eb_cycle_destroy_dead:
  assumes "cycle_dead m c"
  shows "\<exists>m' cy. eb_cycle_destroy c m = Some m' \<and> same_heap {c} m m' \<and>
           EB_CYCLE m c = Some cy \<and> EB_CYCLE m' c = Some (cy\<lparr>cy_un_ops := EB_NULL\<rparr>)"
proof -
  from assms obtain cy where cy: "EB_CYCLE m c = Some cy" "cy_un_ops cy = c" by (auto simp: cycle_dead_def)
  then have i: "eb_item m c = Some (Cycle_item cy)" by (simp add: eb_deref)
  let ?m' = "eb_put m c (Cycle_item (cy\<lparr>cy_un_ops := EB_NULL\<rparr>))"
  have "same_heap {c} m ?m'" using i by (rule same_heap_put) auto
  with cy i show ?thesis
    by (auto simp: eb_cycle_destroy_def eb_set eb_mem)
qed

subsection \<open>Collecting operations\<close>

text \<open>The cycle's fields other than its operations are left alone, and so is every object that
  is neither the cycle nor one of its operations.\<close>

definition cycle_link :: "eb_memory \<Rightarrow> eb_ptr \<Rightarrow> eb_cycle option" where
  "cycle_link m c = map_option (\<lambda>cy. cy\<lparr>cy_un_ops := EB_NULL\<rparr>) (EB_CYCLE m c)"

lemma eb_new_operation_cases:
  assumes ok: "dyn_ok m"
  obtains (oom) "eb_new_operation m = Some (EB_NULL, m)"
  | (fresh) p m' where "eb_new_operation m = Some (p, m')" "p \<noteq> EB_NULL" "dyn_ok m'" "p \<notin> eb_live m"
      "eb_live m' = insert p (eb_live m)" "eb_item m' p = Some (Operation_item zero_operation)"
      "\<forall>q \<in> eb_live m. eb_item m' q = eb_item m q"
  using ok
  by (cases rule: new_item_cases [where x = "Operation_item zero_operation"])
    (auto simp: eb_new_operation_def intro: that)

lemma eb_cycle_doop_ops:
  assumes ok: "dyn_ok m" and ops: "cycle_ops m c xs"
  shows "\<exists>slot m'. eb_cycle_doop c m = Some (slot, m') \<and> dyn_ok m' \<and> cycle_link m' c = cycle_link m c \<and>
     (\<forall>q \<in> eb_live m - set xs - {c}. eb_item m' q = eb_item m q) \<and>
     (case slot of
        None \<Rightarrow> cycle_dead m' c \<and> eb_live m' = eb_live m - set xs
      | Some p \<Rightarrow> p \<notin> eb_live m \<and> eb_live m' = insert p (eb_live m) \<and> cycle_ops m' c (p # xs) \<and>
                 (\<forall>q \<in> set xs. eb_item m' q = eb_item m q))"
proof -
  from ops obtain cy where cy: "EB_CYCLE m c = Some cy" "cy_un_ops cy \<noteq> c" "op_chain m (cy_un_ops cy) xs"
    by (auto simp: cycle_ops_def)
  then have ic: "eb_item m c = Some (Cycle_item cy)" by (simp add: eb_deref)
  have cl: "c \<in> eb_live m" using cy(1) by (rule cycle_live)
  have cx: "c \<notin> set xs" by (rule cycle_not_op [OF cy(1,3)])
  from ok show ?thesis
  proof (cases rule: eb_new_operation_cases)
    case oom
    obtain m1 where m1: "eb_cycle_destroy c m = Some m1" "dyn_ok m1" "eb_live m1 = eb_live m - set xs"
        "\<forall>q. q \<notin> set xs \<longrightarrow> q \<noteq> c \<longrightarrow> eb_item m1 q = eb_item m q"
        "EB_CYCLE m1 c = Some (cy\<lparr>cy_un_ops := EB_NULL\<rparr>)"
      using eb_cycle_destroy_ops [OF ok ops] cy(1) by auto
    then have i1: "eb_item m1 c = Some (Cycle_item (cy\<lparr>cy_un_ops := EB_NULL\<rparr>))" by (simp add: eb_deref)
    let ?m' = "eb_put m1 c (Cycle_item (cy\<lparr>cy_un_ops := c\<rparr>))"
    have "same_heap {c} m1 ?m'" using i1 by (rule same_heap_put) auto
    moreover have "eb_cycle_doop c m = Some (None, ?m')"
      using oom m1(1) cy(1) by (simp add: eb_cycle_doop_def set_cycle_Some [OF i1])
    moreover have "EB_CYCLE ?m' c = Some (cy\<lparr>cy_un_ops := c\<rparr>)"
      using i1 by (simp add: eb_deref eb_mem)
    ultimately show ?thesis
      using m1 cy(1) by (auto simp: same_heap_def cycle_dead_def cycle_link_def)
  next
    case (fresh p m1)
    have pc: "p \<noteq> c" using fresh(4) cl by blast
    have px: "p \<notin> set xs" using fresh(4) op_chain_live [OF cy(3)] by blast
    have ic1: "eb_item m1 c = Some (Cycle_item cy)" using fresh(7) cl ic by simp
    let ?m2 = "eb_put m1 p (Operation_item (zero_operation\<lparr>op_next := cy_un_ops cy\<rparr>))"
    let ?m' = "eb_put ?m2 c (Cycle_item (cy\<lparr>cy_un_ops := p\<rparr>))"
    have ic2: "eb_item ?m2 c = Some (Cycle_item cy)" using pc ic1 by (simp add: eb_mem)
    have s: "same_heap {p, c} m1 ?m'"
    proof -
      have "same_heap {p} m1 ?m2" by (rule same_heap_put [OF fresh(6)]) auto
      moreover have "same_heap {c} ?m2 ?m'" by (rule same_heap_put [OF ic2]) auto
      ultimately show ?thesis using same_heap_trans by fastforce
    qed
    have run: "eb_cycle_doop c m = Some (Some p, ?m')"
      using fresh(1,2) cy(2) by (simp add: eb_cycle_doop_def EB_CYCLE_Some [OF ic1]
          set_operation_Some [OF fresh(6)] set_cycle_Some [OF ic2])
    have same: "eb_item ?m' q = eb_item m q" if "q \<in> eb_live m" "q \<noteq> c" for q
      using that fresh(4,7) same_heap_item [OF s, of q] by auto
    have ch: "op_chain ?m' (cy_un_ops cy) xs"
      by (rule op_chain_frame [OF cy(3)]) (use same op_chain_live [OF cy(3)] cx in blast)
    have ip: "eb_item ?m' p = Some (Operation_item (zero_operation\<lparr>op_next := cy_un_ops cy\<rparr>))"
      using pc fresh(6) by (simp add: eb_mem)
    then have nx: "eb_operation_next ?m' p = Some (cy_un_ops cy)"
      by (simp add: eb_operation_next_def EB_OPERATION_Some)
    have icc: "EB_CYCLE ?m' c = Some (cy\<lparr>cy_un_ops := p\<rparr>)" using ic2 by (simp add: eb_deref eb_mem)
    have "cycle_ops ?m' c (p # xs)"
      using icc pc ch nx fresh(2) by (auto simp: cycle_ops_def)
    moreover have "cycle_link ?m' c = cycle_link m c" using icc cy(1) by (simp add: cycle_link_def)
    moreover have "dyn_ok ?m'" "eb_live ?m' = insert p (eb_live m)"
      using s fresh(3,5) by (auto simp: same_heap_def)
    moreover have "\<forall>q \<in> set xs. eb_item ?m' q = eb_item m q"
      using same op_chain_live [OF cy(3)] cx by blast
    ultimately show ?thesis using run same fresh(4) by auto
  qed
qed

lemma eb_cycle_doop_dead:
  assumes ok: "dyn_ok m" and dead: "cycle_dead m c"
  shows "\<exists>m'. eb_cycle_doop c m = Some (None, m') \<and> dyn_ok m' \<and> cycle_link m' c = cycle_link m c \<and>
     (\<forall>q \<in> eb_live m - {c}. eb_item m' q = eb_item m q) \<and> cycle_dead m' c \<and> eb_live m' = eb_live m"
proof -
  from dead obtain cy where cy: "EB_CYCLE m c = Some cy" "cy_un_ops cy = c" by (auto simp: cycle_dead_def)
  have cl: "c \<in> eb_live m" using cy(1) by (rule cycle_live)
  from ok show ?thesis
  proof (cases rule: eb_new_operation_cases)
    case oom
    obtain m1 where m1: "eb_cycle_destroy c m = Some m1" "same_heap {c} m m1"
        "EB_CYCLE m1 c = Some (cy\<lparr>cy_un_ops := EB_NULL\<rparr>)"
      using eb_cycle_destroy_dead [OF dead] cy(1) by auto
    then have i1: "eb_item m1 c = Some (Cycle_item (cy\<lparr>cy_un_ops := EB_NULL\<rparr>))" by (simp add: eb_deref)
    let ?m' = "eb_put m1 c (Cycle_item (cy\<lparr>cy_un_ops := c\<rparr>))"
    have "same_heap {c} m1 ?m'" using i1 by (rule same_heap_put) auto
    then have s: "same_heap {c} m ?m'" using m1(2) same_heap_trans' by blast
    moreover have "eb_cycle_doop c m = Some (None, ?m')"
      using oom m1(1) cy(1) by (simp add: eb_cycle_doop_def set_cycle_Some [OF i1])
    moreover have "EB_CYCLE ?m' c = Some (cy\<lparr>cy_un_ops := c\<rparr>)" using i1 by (simp add: eb_deref eb_mem)
    ultimately show ?thesis using ok cy by (auto simp: same_heap_def cycle_dead_def cycle_link_def)
  next
    case (fresh p m1)
    have c1: "EB_CYCLE m1 c = Some cy" using fresh(7) cl cy(1) by (simp add: eb_deref)
    obtain m2 where m2: "eb_free_memory_item p m1 = Some m2" "dyn_ok m2" "eb_live m2 = eb_live m"
        "\<forall>q. q \<noteq> p \<longrightarrow> eb_item m2 q = eb_item m1 q"
      using dyn.release_ok [OF fresh(3), of p] fresh(4,5) by auto
    have same: "eb_item m2 q = eb_item m q" if "q \<in> eb_live m" for q
      using that m2(4) fresh(4,7) by auto
    have "EB_CYCLE m2 c = Some cy" using same [OF cl] cy(1) by (simp add: eb_deref)
    moreover have "eb_cycle_doop c m = Some (None, m2)"
      using fresh(1,2) c1 cy(2) m2(1) by (simp add: eb_cycle_doop_def)
    ultimately show ?thesis using m2 same cy by (auto simp: cycle_dead_def cycle_link_def)
  qed
qed

subsection \<open>Sequences of calls\<close>

datatype cycle_call =
    Call_read eb_address_t eb_format_t u64
  | Call_read_config eb_address_t eb_format_t u64
  | Call_write eb_address_t eb_format_t eb_data_t
  | Call_write_config eb_address_t eb_format_t eb_data_t

fun do_call :: "eb_ptr \<Rightarrow> cycle_call \<Rightarrow> eb_memory \<Rightarrow> eb_memory option" where
  "do_call c (Call_read a f d) m = eb_cycle_read c a f d m"
| "do_call c (Call_read_config a f d) m = eb_cycle_read_config c a f d m"
| "do_call c (Call_write a f v) m = eb_cycle_write c a f v m"
| "do_call c (Call_write_config a f v) m = eb_cycle_write_config c a f v m"

fun run_calls :: "eb_ptr \<Rightarrow> cycle_call list \<Rightarrow> eb_memory \<Rightarrow> eb_memory option" where
  "run_calls c [] m = Some m"
| "run_calls c (k # ks) m = do { m \<leftarrow> do_call c k m; run_calls c ks m }"

text \<open>The operation a call asks for.\<close>

fun requested :: "cycle_call \<Rightarrow> eb_operation" where
  "requested (Call_read a f d) =
     \<lparr>op_address = a, op_un_value = d, op_flags = (if d \<noteq> 0 then 1 else 2), op_format = f, op_next = EB_NULL\<rparr>"
| "requested (Call_read_config a f d) =
     \<lparr>op_address = a, op_un_value = d, op_flags = (if d \<noteq> 0 then 5 else 6), op_format = f, op_next = EB_NULL\<rparr>"
| "requested (Call_write a f v) =
     \<lparr>op_address = a, op_un_value = v, op_flags = 0, op_format = f, op_next = EB_NULL\<rparr>"
| "requested (Call_write_config a f v) =
     \<lparr>op_address = a, op_un_value = v, op_flags = 4, op_format = f, op_next = EB_NULL\<rparr>"

text \<open>Every call is \<^verbatim>\<open>eb_cycle_doop\<close> followed by an assignment of the requested fields.\<close>

definition assign_requested :: "eb_ptr option \<Rightarrow> cycle_call \<Rightarrow> eb_memory \<Rightarrow> eb_memory option" where
  "assign_requested slot k m = eb_op_assign slot (op_address (requested k)) (op_un_value (requested k))
     (op_format (requested k)) (op_flags (requested k)) m"

lemma do_call_eq: "do_call c k m = do { (slot, m) \<leftarrow> eb_cycle_doop c m; assign_requested slot k m }"
  by (cases k) (simp_all add: eb_cycle_read_def eb_cycle_read_config_def eb_cycle_write_def
      eb_cycle_write_config_def assign_requested_def)

lemma assign_requested_Some:
  assumes "eb_item m p = Some (Operation_item op)"
  shows "\<exists>m'. assign_requested (Some p) k m = Some m' \<and> same_heap {p} m m' \<and>
     eb_item m' p = Some (Operation_item ((requested k)\<lparr>op_next := op_next op\<rparr>))"
proof -
  let ?m' = "eb_put m p (Operation_item ((requested k)\<lparr>op_next := op_next op\<rparr>))"
  have "(\<lambda>op. op\<lparr>op_address := op_address (requested k), op_un_value := op_un_value (requested k),
      op_format := op_format (requested k), op_flags := op_flags (requested k)\<rparr>) op
    = (requested k)\<lparr>op_next := op_next op\<rparr>" by simp
  then have "assign_requested (Some p) k m = Some ?m'"
    unfolding assign_requested_def eb_op_assign_def option.case set_operation_Some [OF assms]
    by (simp only:)
  moreover have "same_heap {p} m ?m'" by (rule same_heap_put [OF assms]) auto
  ultimately show ?thesis using assms by (auto simp: eb_mem)
qed

lemma op_core_requested: "op_core ((requested k)\<lparr>op_next := n\<rparr>) = requested k"
  by (cases k) (simp_all add: op_core_def)

text \<open>What a cycle under construction looks like: \<open>base\<close> are the objects in use when it was empty.
  Either it ran out of memory and holds nothing, or it holds one new operation per call.\<close>

definition cycle_state :: "eb_ptr set \<Rightarrow> eb_ptr \<Rightarrow> cycle_call list \<Rightarrow> eb_memory \<Rightarrow> bool" where
  "cycle_state base c ks m \<longleftrightarrow> dyn_ok m \<and>
     (cycle_dead m c \<and> eb_live m = base \<or>
      (\<exists>xs. cycle_ops m c xs \<and> map (core_at m) xs = rev (map requested ks) \<and>
            set xs \<inter> base = {} \<and> eb_live m = base \<union> set xs))"

lemma do_call_state:
  assumes st: "cycle_state base c ks m" and c: "c \<in> base"
  shows "\<exists>m'. do_call c k m = Some m' \<and> cycle_state base c (ks @ [k]) m' \<and>
     cycle_link m' c = cycle_link m c \<and> (\<forall>q \<in> base - {c}. eb_item m' q = eb_item m q)"
proof -
  from st have ok: "dyn_ok m" by (simp add: cycle_state_def)
  from st consider
      (dead) "cycle_dead m c" "eb_live m = base"
    | (ops) xs where "cycle_ops m c xs" "map (core_at m) xs = rev (map requested ks)"
        "set xs \<inter> base = {}" "eb_live m = base \<union> set xs"
    by (auto simp: cycle_state_def)
  then show ?thesis
  proof cases
    case dead
    with eb_cycle_doop_dead [OF ok dead(1)] show ?thesis
      by (auto simp: do_call_eq cycle_state_def assign_requested_def eb_op_assign_def)
  next
    case (ops xs)
    obtain slot m1 where d: "eb_cycle_doop c m = Some (slot, m1)" "dyn_ok m1"
        "cycle_link m1 c = cycle_link m c" "\<forall>q \<in> eb_live m - set xs - {c}. eb_item m1 q = eb_item m q"
        "case slot of None \<Rightarrow> cycle_dead m1 c \<and> eb_live m1 = eb_live m - set xs
         | Some p \<Rightarrow> p \<notin> eb_live m \<and> eb_live m1 = insert p (eb_live m) \<and> cycle_ops m1 c (p # xs) \<and>
                 (\<forall>q \<in> set xs. eb_item m1 q = eb_item m q)"
      using eb_cycle_doop_ops [OF ok ops(1)] by blast
    have fr: "\<forall>q \<in> base - {c}. eb_item m1 q = eb_item m q" using d(4) ops(3,4) by blast
    show ?thesis
    proof (cases slot)
      case None
      with d ops fr show ?thesis
        by (auto simp: do_call_eq cycle_state_def assign_requested_def eb_op_assign_def)
    next
      case (Some p)
      with d have p: "p \<notin> eb_live m" "eb_live m1 = insert p (eb_live m)" "cycle_ops m1 c (p # xs)"
        "\<forall>q \<in> set xs. eb_item m1 q = eb_item m q" by auto
      have pc: "p \<noteq> c" "p \<notin> set xs" using p(1) c ops(4) by auto
      from p(3) obtain cy where cy: "EB_CYCLE m1 c = Some cy" "cy_un_ops cy \<noteq> c"
          "op_chain m1 (cy_un_ops cy) (p # xs)" by (auto simp: cycle_ops_def)
      then have ip: "eb_item m1 p = Some (Operation_item (op_at m1 p))"
        unfolding op_chain_Cons by (simp add: eb_deref)
      obtain m2 where m2: "assign_requested (Some p) k m1 = Some m2" "same_heap {p} m1 m2"
          "eb_item m2 p = Some (Operation_item ((requested k)\<lparr>op_next := op_next (op_at m1 p)\<rparr>))"
        using assign_requested_Some [OF ip] by blast
      have same: "eb_item m2 q = eb_item m1 q" if "q \<noteq> p" for q
        using m2(2) that by (simp add: same_heap_def)
      have cc: "EB_CYCLE m2 c = EB_CYCLE m1 c" using same [of c] pc by (simp add: EB_CYCLE_def)
      have "eb_operation_next m2 q = eb_operation_next m1 q" for q
      proof (cases "q = p")
        case True
        with m2(3) ip show ?thesis by (simp add: eb_operation_next_def EB_OPERATION_Some)
      next
        case False
        show ?thesis by (rule eb_operation_next_cong) (rule same [OF False])
      qed
      then have "op_chain m2 = op_chain m1" by (metis ext)
      with cy cc have "cycle_ops m2 c (p # xs)" by (auto simp: cycle_ops_def)
      moreover have "map (core_at m2) (p # xs) = rev (map requested (ks @ [k]))"
      proof -
        have "core_at m2 q = core_at m q" if "q \<in> set xs" for q
          using that pc same p(4) by (metis core_at_cong)
        then have "map (core_at m2) xs = map (core_at m) xs" by simp
        moreover have "core_at m2 p = requested k"
          using m2(3) by (simp add: core_at_def op_at_def EB_OPERATION_Some op_core_requested)
        ultimately show ?thesis using ops(2) by simp
      qed
      moreover have "dyn_ok m2" "eb_live m2 = base \<union> set (p # xs)"
        using m2(2) d(2) p(2) ops(4) by (auto simp: same_heap_def)
      moreover have "set (p # xs) \<inter> base = {}" using p(1) ops(3,4) by auto
      moreover have "cycle_link m2 c = cycle_link m c" using cc d(3) by (simp add: cycle_link_def)
      moreover have "\<forall>q \<in> base - {c}. eb_item m2 q = eb_item m q"
        using same fr p(1) unfolding ops(4) by fastforce
      moreover have "do_call c k m = Some m2" using d(1) Some m2(1) by (simp add: do_call_eq)
      ultimately show ?thesis unfolding cycle_state_def by blast
    qed
  qed
qed

lemma run_calls_state:
  assumes "cycle_state base c ks0 m" and "c \<in> base"
  shows "\<exists>m'. run_calls c ks m = Some m' \<and> cycle_state base c (ks0 @ ks) m' \<and>
     cycle_link m' c = cycle_link m c \<and> (\<forall>q \<in> base - {c}. eb_item m' q = eb_item m q)"
  using assms(1)
proof (induction ks arbitrary: m ks0)
  case (Cons k ks)
  obtain m1 where m1: "do_call c k m = Some m1" "cycle_state base c (ks0 @ [k]) m1"
      "cycle_link m1 c = cycle_link m c" "\<forall>q \<in> base - {c}. eb_item m1 q = eb_item m q"
    using do_call_state [OF Cons.prems assms(2)] by blast
  from Cons.IH [OF m1(2)] m1 show ?case by auto
qed simp

lemma do_call_room:
  assumes ok: "dyn_ok m" and alive: "EB_CYCLE m c = Some cy" "cy_un_ops cy \<noteq> c"
    and room: "room_for (Suc n) m" and run: "do_call c k m = Some m'"
  shows "\<not> cycle_dead m' c \<and> room_for n m'"
proof -
  obtain p m1 where new: "eb_new_operation m = Some (p, m1)" "p \<noteq> EB_NULL" "room_for n m1" "p \<notin> eb_live m"
      "eb_item m1 p = Some (Operation_item zero_operation)" "\<forall>q \<in> eb_live m. eb_item m1 q = eb_item m q"
    using ok room_for_new [OF ok _ room, of "Operation_item zero_operation"]
    by (cases rule: eb_new_operation_cases) (auto simp: eb_new_operation_def)
  have cl: "c \<in> eb_live m" using alive(1) by (rule cycle_live)
  then have c1: "EB_CYCLE m1 c = Some cy" using new(6) alive(1) by (simp add: eb_deref)
  have pc: "p \<noteq> c" using new(4) cl by blast
  obtain m2 where m2: "set_operation m1 p (\<lambda>op. op\<lparr>op_next := cy_un_ops cy\<rparr>) = Some m2"
      "m2 = eb_put m1 p (Operation_item (zero_operation\<lparr>op_next := cy_un_ops cy\<rparr>))"
    using set_operation_Some [OF new(5)] by simp
  have c2: "eb_item m2 c = Some (Cycle_item cy)" using c1 pc by (simp add: m2(2) eb_deref eb_mem)
  obtain m3 where m3: "set_cycle m2 c (\<lambda>c. c\<lparr>cy_un_ops := p\<rparr>) = Some m3" "m3 = eb_put m2 c (Cycle_item (cy\<lparr>cy_un_ops := p\<rparr>))"
    using set_cycle_Some [OF c2] by simp
  have doop: "eb_cycle_doop c m = Some (Some p, m3)"
    using new(1,2) c1 alive(2) m2(1) m3(1) by (simp add: eb_cycle_doop_def)
  then have as: "assign_requested (Some p) k m3 = Some m'" using run by (simp add: do_call_eq)
  have c3: "EB_CYCLE m3 c = Some (cy\<lparr>cy_un_ops := p\<rparr>)" using c2 by (simp add: m3(2) eb_deref eb_mem)
  obtain op where "eb_item m3 p = Some (Operation_item op)"
    using new(5) pc by (auto simp: m3(2) m2(2) eb_mem)
  with assign_requested_Some [OF this, of k] as have "EB_CYCLE m' c = Some (cy\<lparr>cy_un_ops := p\<rparr>)"
    using c3 pc by (auto simp: same_heap_def EB_CYCLE_def)
  then have "\<not> cycle_dead m' c" using pc by (simp add: cycle_dead_def)
  moreover have "room_for n m'"
    using new(3) room_for_set m2(1) m3(1) as by (auto simp: assign_requested_def eb_op_assign_def)
  ultimately show ?thesis by simp
qed

lemma run_calls_room:
  assumes "cycle_state base c ks0 m" and "c \<in> base" and "\<not> cycle_dead m c"
    and "room_for (length ks) m" and "run_calls c ks m = Some m'"
  shows "\<not> cycle_dead m' c"
  using assms(1,3-5)
proof (induction ks arbitrary: m ks0)
  case (Cons k ks)
  obtain m1 where m1: "do_call c k m = Some m1" "cycle_state base c (ks0 @ [k]) m1"
    using do_call_state [OF Cons.prems(1) assms(2)] by blast
  obtain cy where "EB_CYCLE m c = Some cy" "cy_un_ops cy \<noteq> c" "dyn_ok m"
    using Cons.prems(1,2) by (auto simp: cycle_state_def cycle_ops_def)
  with do_call_room [of m c cy "length ks" k m1] m1(1) Cons.prems(3)
  have "\<not> cycle_dead m1 c" "room_for (length ks) m1" by auto
  with Cons.IH [OF m1(2)] Cons.prems(4) m1(1) show ?case by simp
qed simp

subsection \<open>Opening, closing and aborting\<close>

lemma eb_new_cycle_cases:
  assumes ok: "dyn_ok m"
  obtains (oom) "eb_new_cycle m = Some (EB_NULL, m)"
  | (fresh) p m' where "eb_new_cycle m = Some (p, m')" "p \<noteq> EB_NULL" "dyn_ok m'" "p \<notin> eb_live m"
      "eb_live m' = insert p (eb_live m)" "eb_item m' p = Some (Cycle_item zero_cycle)"
      "\<forall>q \<in> eb_live m. eb_item m' q = eb_item m q"
  using ok
  by (cases rule: new_item_cases [where x = "Cycle_item zero_cycle"])
    (auto simp: eb_new_cycle_def intro: that)

interpretation ops: heap_reverse eb_operation_next set_op_next core_at eb_reverse_ops
proof
  fix m i prev
  show "eb_reverse_ops m i prev =
      (if i = EB_NULL then Some (prev, m)
       else Option.bind (eb_operation_next m i)
         (\<lambda>next. Option.bind (set_op_next m i prev) (\<lambda>m'. eb_reverse_ops m' next i)))"
    by (subst eb_reverse_ops.simps) simp
next
  fix m i q v assume "eb_operation_next m i = Some q"
  then obtain op where i: "eb_item m i = Some (Operation_item op)"
    by (auto simp: eb_operation_next_Some eb_deref)
  let ?m' = "eb_put m i (Operation_item (op\<lparr>op_next := v\<rparr>))"
  have s: "same_heap {i} m ?m'" by (rule same_heap_put [OF i]) auto
  have i': "eb_item ?m' i = Some (Operation_item (op\<lparr>op_next := v\<rparr>))" using i by (simp add: eb_mem)
  have "eb_operation_next ?m' p = ((eb_operation_next m)(i := Some v)) p" for p
    using i' eb_operation_next_cong [OF same_heap_item [OF s]]
    by (cases "p = i") (simp_all add: eb_operation_next_def EB_OPERATION_Some)
  moreover have "core_at ?m' p = core_at m p" for p
    using i i' core_at_cong [OF same_heap_item [OF s]]
    by (cases "p = i") (simp_all add: core_at_def op_at_def EB_OPERATION_Some op_core_def)
  ultimately show "\<exists>m'. set_op_next m i v = Some m' \<and>
      eb_operation_next m' = (eb_operation_next m)(i := Some v) \<and> core_at m' = core_at m \<and> same_heap {i} m m'"
    using s by (intro exI [of _ ?m']) (auto simp: set_op_next_def set_operation_Some [OF i])
qed

definition opened_cycle :: "eb_ptr \<Rightarrow> eb_user_data_t \<Rightarrow> eb_callback_t option \<Rightarrow> eb_cycle" where
  "opened_cycle d user cb = \<lparr>cy_callback = (case cb of Some f \<Rightarrow> f | None \<Rightarrow> Eb_block_f),
     cy_user_data = user, cy_un_ops = EB_NULL, cy_un_link = d\<rparr>"

lemma device_live: "EB_DEVICE m d = Some dev \<Longrightarrow> d \<in> eb_live m"
  by (auto simp: eb_deref intro: eb_item_live)

lemma eb_cycle_open_cases:
  assumes ok: "dyn_ok m" and dev: "EB_DEVICE m d = Some dev"
  obtains (oom) "eb_cycle_open d user cb m = Some (EB_OOM, EB_NULL, m)"
  | (fail) m' where "dev_un_link dev = d" "eb_cycle_open d user cb m = Some (EB_FAIL, EB_NULL, m')"
      "dyn_ok m'" "eb_live m' = eb_live m" "\<forall>q \<in> eb_live m. eb_item m' q = eb_item m q"
  | (opened) c m' where "dev_un_link dev \<noteq> d" "eb_cycle_open d user cb m = Some (EB_OK, c, m')"
      "dyn_ok m'" "c \<notin> eb_live m" "c \<noteq> EB_NULL" "eb_live m' = insert c (eb_live m)"
      "EB_CYCLE m' c = Some (opened_cycle d user cb)"
      "EB_DEVICE m' d = Some (dev\<lparr>dev_unready := dev_unready dev + 1\<rparr>)"
      "\<forall>q \<in> eb_live m - {d}. eb_item m' q = eb_item m q"
proof -
  have id: "eb_item m d = Some (Device_item dev)" using dev by (simp add: eb_deref)
  have dl: "d \<in> eb_live m" using dev by (rule device_live)
  from ok show thesis
  proof (cases rule: eb_new_cycle_cases)
    case oom
    then show thesis by (intro that(1)) (simp add: eb_cycle_open_def)
  next
    case (fresh c m1)
    have id1: "eb_item m1 d = Some (Device_item dev)" using fresh(7) dl id by simp
    have cd: "c \<noteq> d" using fresh(4) dl by blast
    show thesis
    proof (cases "dev_un_link dev = d")
      case True
      obtain m2 where m2: "eb_free_memory_item c m1 = Some m2" "dyn_ok m2" "eb_live m2 = eb_live m"
          "\<forall>q. q \<noteq> c \<longrightarrow> eb_item m2 q = eb_item m1 q"
        using dyn.release_ok [OF fresh(3), of c] fresh(4,5) by auto
      then have "eb_cycle_open d user cb m = Some (EB_FAIL, EB_NULL, m2)"
        using fresh(1,2) True by (simp add: eb_cycle_open_def EB_DEVICE_Some [OF id1])
      moreover have "\<forall>q \<in> eb_live m. eb_item m2 q = eb_item m q" using m2(4) fresh(4,7) by auto
      ultimately show thesis using True m2(2,3) by (intro that(2))
    next
      case False
      define cy2 where "cy2 = zero_cycle\<lparr>cy_user_data := user, cy_un_ops := EB_NULL, cy_un_link := d\<rparr>"
      define m2 where "m2 = eb_put m1 c (Cycle_item cy2)"
      define m3 where "m3 = eb_put m2 c (Cycle_item (opened_cycle d user cb))"
      let ?m4 = "eb_put m3 d (Device_item (dev\<lparr>dev_unready := dev_unready dev + 1\<rparr>))"
      have ic2: "eb_item m2 c = Some (Cycle_item cy2)" using fresh(6) by (simp add: m2_def eb_mem)
      have ic3: "eb_item m3 c = Some (Cycle_item (opened_cycle d user cb))"
        using ic2 by (simp add: m3_def eb_mem)
      have id3: "eb_item m3 d = Some (Device_item dev)" using id1 cd by (simp add: m3_def m2_def eb_mem)
      have s12: "same_heap {c} m1 m2" unfolding m2_def by (rule same_heap_put [OF fresh(6)]) auto
      have s23: "same_heap {c} m2 m3" unfolding m3_def by (rule same_heap_put [OF ic2]) auto
      have s34: "same_heap {d} m3 ?m4" by (rule same_heap_put [OF id3]) auto
      have s: "same_heap {c, d} m1 ?m4"
        using same_heap_trans [OF same_heap_trans' [OF s12 s23] s34] by (simp add: insert_commute)
      have 2: "set_cycle m1 c (\<lambda>c. c\<lparr>cy_user_data := user, cy_un_ops := EB_NULL, cy_un_link := d\<rparr>) = Some m2"
        by (simp add: set_cycle_Some [OF fresh(6)] m2_def cy2_def)
      have 3: "set_cycle m2 c (\<lambda>c. c\<lparr>cy_callback := (case cb of Some f \<Rightarrow> f | None \<Rightarrow> Eb_block_f)\<rparr>) = Some m3"
        by (simp add: set_cycle_Some [OF ic2] m3_def cy2_def opened_cycle_def zero_cycle_def)
      have "eb_cycle_open d user cb m = Some (EB_OK, c, ?m4)"
        using fresh(1,2) False
        by (simp add: eb_cycle_open_def EB_DEVICE_Some [OF id1] 2 3 set_device_Some [OF id3])
      moreover have "EB_CYCLE ?m4 c = Some (opened_cycle d user cb)"
        using ic3 cd by (simp add: eb_deref eb_mem)
      moreover have "EB_DEVICE ?m4 d = Some (dev\<lparr>dev_unready := dev_unready dev + 1\<rparr>)"
        using id3 by (simp add: eb_deref eb_mem)
      moreover have "\<forall>q \<in> eb_live m - {d}. eb_item ?m4 q = eb_item m q"
        using s fresh(4,7) by (auto simp: same_heap_def)
      ultimately show thesis using False fresh s by (intro that(3)) (auto simp: same_heap_def)
    qed
  qed
qed

lemma eb_cycle_open_room:
  assumes "dyn_ok m" and "room_for (Suc n) m" and op: "eb_cycle_open d user cb m = Some (EB_OK, c, m1)"
  shows "room_for n m1"
proof -
  obtain c' m' where new: "eb_new_cycle m = Some (c', m')" using op by (auto simp: eb_cycle_open_def bind_eq_Some_conv)
  then have "room_for n m'"
    using room_for_new [OF assms(1) _ assms(2), of "Cycle_item zero_cycle"] by (simp add: eb_new_cycle_def)
  with new op show ?thesis
    by (auto simp: eb_cycle_open_def bind_eq_Some_conv room_for_set split: if_splits)
qed

text \<open>Closing a cycle puts it in front of the device's list, its operations in call order.\<close>

definition queued_cycle :: "eb_ptr set \<Rightarrow> eb_ptr \<Rightarrow> cycle_call list \<Rightarrow> eb_memory \<Rightarrow> bool" where
  "queued_cycle base c ks m \<longleftrightarrow> dyn_ok m \<and>
     (cycle_dead m c \<and> eb_live m = base \<or>
      (\<exists>xs. cycle_ops m c xs \<and> map (core_at m) xs = map requested ks \<and>
            set xs \<inter> base = {} \<and> eb_live m = base \<union> set xs))"

lemma eb_raw_cycle_close_link:
  assumes cy: "EB_CYCLE m c = Some cy" and l: "cy_un_link cy = d" and dev: "EB_DEVICE m d = Some dev"
    and rev: "cy_un_ops cy \<noteq> c \<Longrightarrow> eb_reverse_ops m (cy_un_ops cy) EB_NULL = Some (r, m1) \<and> r \<noteq> c \<and>
                EB_CYCLE m1 c = Some cy \<and> EB_DEVICE m1 d = Some dev"
    and dead: "cy_un_ops cy = c \<Longrightarrow> r = c \<and> m1 = m"
  shows "\<exists>m'. eb_raw_cycle_close c m = Some m' \<and> same_heap {c, d} m1 m' \<and>
     EB_CYCLE m' c = Some (cy\<lparr>cy_un_ops := r, cy_un_link := dev_un_link dev\<rparr>) \<and>
     EB_DEVICE m' d = Some (dev\<lparr>dev_un_link := c, dev_unready := dev_unready dev - 1\<rparr>)"
proof -
  have ic: "eb_item m1 c = Some (Cycle_item cy)" and id: "eb_item m1 d = Some (Device_item dev)"
    using rev dead cy dev by (cases "cy_un_ops cy = c"; simp add: eb_deref)+
  then have cd: "c \<noteq> d" by auto
  define m2 where "m2 = (if cy_un_ops cy = c then m1 else eb_put m1 c (Cycle_item (cy\<lparr>cy_un_ops := r\<rparr>)))"
  have ic2: "eb_item m2 c = Some (Cycle_item (cy\<lparr>cy_un_ops := r\<rparr>))"
    using ic dead by (auto simp: m2_def eb_mem)
  have id2: "eb_item m2 d = Some (Device_item dev)" using id cd by (simp add: m2_def eb_mem)
  define m3 where "m3 = eb_put m2 c (Cycle_item (cy\<lparr>cy_un_ops := r, cy_un_link := dev_un_link dev\<rparr>))"
  have ic3: "eb_item m3 c = Some (Cycle_item (cy\<lparr>cy_un_ops := r, cy_un_link := dev_un_link dev\<rparr>))"
    using ic2 by (simp add: m3_def eb_mem)
  have id3: "eb_item m3 d = Some (Device_item dev)" using id2 cd by (simp add: m3_def eb_mem)
  define m4 where "m4 = eb_put m3 d (Device_item (dev\<lparr>dev_un_link := c\<rparr>))"
  have id4: "eb_item m4 d = Some (Device_item (dev\<lparr>dev_un_link := c\<rparr>))" using id3 by (simp add: m4_def eb_mem)
  let ?m5 = "eb_put m4 d (Device_item (dev\<lparr>dev_un_link := c, dev_unready := dev_unready dev - 1\<rparr>))"
  have "same_heap {c} m1 m2" unfolding m2_def using same_heap_put [OF ic] by auto
  moreover have "same_heap {c} m2 m3" unfolding m3_def by (rule same_heap_put [OF ic2]) auto
  moreover have "same_heap {d} m3 m4" unfolding m4_def by (rule same_heap_put [OF id3]) auto
  moreover have "same_heap {d} m4 ?m5" by (rule same_heap_put [OF id4]) auto
  ultimately have s: "same_heap {c, d} m1 ?m5" by (simp add: same_heap_def)
  have 2: "(if cy_un_ops cy \<noteq> c then do { (prev, m) \<leftarrow> eb_reverse_ops m (cy_un_ops cy) EB_NULL;
      set_cycle m c (\<lambda>c. c\<lparr>cy_un_ops := prev\<rparr>) } else Some m) = Some m2"
    using rev dead by (auto simp: m2_def set_cycle_Some [OF ic])
  have 3: "set_cycle m2 c (\<lambda>c. c\<lparr>cy_un_link := dev_un_link dev\<rparr>) = Some m3"
    by (simp add: set_cycle_Some [OF ic2] m3_def)
  have 4: "set_device m3 d (\<lambda>d. d\<lparr>dev_un_link := c\<rparr>) = Some m4"
    by (simp add: set_device_Some [OF id3] m4_def)
  have "eb_raw_cycle_close c m = Some ?m5"
    unfolding eb_raw_cycle_close_def cy bind.simps Let_def l 2 EB_DEVICE_Some [OF id2] 3 4
    by (simp add: set_device_Some [OF id4])
  moreover have "eb_item ?m5 c = Some (Cycle_item (cy\<lparr>cy_un_ops := r, cy_un_link := dev_un_link dev\<rparr>))"
    using ic3 cd by (simp add: m4_def eb_mem)
  moreover have "eb_item ?m5 d = Some (Device_item (dev\<lparr>dev_un_link := c, dev_unready := dev_unready dev - 1\<rparr>))"
    using id4 by (simp add: eb_mem)
  ultimately show ?thesis using s by (auto simp: eb_deref)
qed

lemma eb_raw_cycle_close_state:
  assumes st: "cycle_state base c ks m" and b: "c \<in> base" "d \<in> base"
    and cy: "EB_CYCLE m c = Some cy" and l: "cy_un_link cy = d" and dev: "EB_DEVICE m d = Some dev"
  shows "\<exists>m' cy'. eb_raw_cycle_close c m = Some m' \<and> queued_cycle base c ks m' \<and>
     EB_CYCLE m' c = Some cy' \<and> (cycle_dead m' c \<longrightarrow> cycle_dead m c) \<and> cy_un_link cy' = dev_un_link dev \<and>
     cy_callback cy' = cy_callback cy \<and> cy_user_data cy' = cy_user_data cy \<and>
     EB_DEVICE m' d = Some (dev\<lparr>dev_un_link := c, dev_unready := dev_unready dev - 1\<rparr>) \<and>
     (\<forall>q \<in> base - {c, d}. eb_item m' q = eb_item m q)"
proof -
  from st have ok: "dyn_ok m" by (simp add: cycle_state_def)
  from st consider (dead) "cycle_dead m c" "eb_live m = base"
    | (ops) xs where "cycle_ops m c xs" "map (core_at m) xs = rev (map requested ks)"
        "set xs \<inter> base = {}" "eb_live m = base \<union> set xs"
    by (auto simp: cycle_state_def)
  then show ?thesis
  proof cases
    case dead
    with cy have "cy_un_ops cy = c" by (auto simp: cycle_dead_def)
    then obtain m' where m': "eb_raw_cycle_close c m = Some m'" "same_heap {c, d} m m'"
        "EB_CYCLE m' c = Some (cy\<lparr>cy_un_ops := c, cy_un_link := dev_un_link dev\<rparr>)"
        "EB_DEVICE m' d = Some (dev\<lparr>dev_un_link := c, dev_unready := dev_unready dev - 1\<rparr>)"
      using eb_raw_cycle_close_link [OF cy l dev, of c m] by blast
    then have "queued_cycle base c ks m'"
      using ok dead by (simp add: queued_cycle_def cycle_dead_def same_heap_def)
    moreover have "\<forall>q \<in> base - {c, d}. eb_item m' q = eb_item m q"
      using m'(2) by (simp add: same_heap_def)
    ultimately show ?thesis using m' dead(1) by simp
  next
    case (ops xs)
    then have o: "cy_un_ops cy \<noteq> c" "op_chain m (cy_un_ops cy) xs" using cy by (auto simp: cycle_ops_def)
    obtain r m1 where r: "eb_reverse_ops m (cy_un_ops cy) EB_NULL = Some (r, m1)"
        "op_chain m1 r (rev xs)" "core_at m1 = core_at m" "same_heap (set xs) m m1"
      using ops.rev_loop_correct [OF o(2), of EB_NULL "[]"] by auto
    have same1: "eb_item m1 q = eb_item m q" if "q \<in> base" for q
      using that ops(3) r(4) by (auto simp: same_heap_def)
    have ic: "eb_item m1 c = Some (Cycle_item cy)" and id: "eb_item m1 d = Some (Device_item dev)"
      using same1 b cy dev by (auto simp: eb_deref)
    have "c \<notin> set (rev xs)" using b ops(3) by auto
    moreover have "c \<noteq> EB_NULL" using cy ok NULL_not_live cycle_live by blast
    ultimately have rc: "r \<noteq> c" using r(2) by (cases "rev xs") auto
    obtain m' where m': "eb_raw_cycle_close c m = Some m'" "same_heap {c, d} m1 m'"
        "EB_CYCLE m' c = Some (cy\<lparr>cy_un_ops := r, cy_un_link := dev_un_link dev\<rparr>)"
        "EB_DEVICE m' d = Some (dev\<lparr>dev_un_link := c, dev_unready := dev_unready dev - 1\<rparr>)"
      using eb_raw_cycle_close_link [OF cy l dev, of r m1] r(1) rc o(1) EB_CYCLE_Some [OF ic]
        EB_DEVICE_Some [OF id] by blast
    have same2: "eb_item m' q = eb_item m1 q" if "q \<in> set xs" for q
      using that b ops(3) m'(2) by (auto simp: same_heap_def)
    then have "op_chain m' r (rev xs)" using op_chain_frame [OF r(2)] by simp
    moreover have "map (core_at m') (rev xs) = map requested ks"
    proof -
      have "core_at m' q = core_at m q" if "q \<in> set xs" for q
        using core_at_cong [OF same2 [OF that]] r(3) by simp
      then have "map (core_at m') (rev xs) = rev (map (core_at m) xs)" by (simp add: rev_map)
      then show ?thesis by (simp add: ops(2))
    qed
    moreover have "dyn_ok m'" "eb_live m' = base \<union> set (rev xs)"
      using ok ops(4) r(4) m'(2) by (auto simp: same_heap_def)
    ultimately have "queued_cycle base c ks m'"
      using m'(3) rc ops(3) unfolding queued_cycle_def cycle_ops_def
      by (intro conjI disjI2 exI [of _ "rev xs"]) simp_all
    moreover have "eb_item m' q = eb_item m q" if "q \<in> base - {c, d}" for q
      using that same1 [of q] same_heap_item [OF m'(2), of q] by simp
    moreover have "\<not> cycle_dead m' c" using m'(3) rc by (simp add: cycle_dead_def)
    ultimately show ?thesis using m' by simp
  qed
qed

lemma eb_cycle_abort_state:
  assumes st: "cycle_state base c ks m" and b: "c \<in> base" "d \<in> base"
    and cy: "EB_CYCLE m c = Some cy" and l: "cy_un_link cy = d" and dev: "EB_DEVICE m d = Some dev"
  shows "\<exists>m'. eb_cycle_abort c m = Some m' \<and> dyn_ok m' \<and> eb_live m' = base - {c} \<and>
     EB_DEVICE m' d = Some (dev\<lparr>dev_unready := dev_unready dev - 1\<rparr>) \<and>
     (\<forall>q \<in> base - {c, d}. eb_item m' q = eb_item m q)"
proof -
  from st have ok: "dyn_ok m" by (simp add: cycle_state_def)
  have id: "eb_item m d = Some (Device_item dev)" and ic: "eb_item m c = Some (Cycle_item cy)"
    using dev cy by (simp_all add: eb_deref)
  then have cd: "c \<noteq> d" by auto
  define m1 where "m1 = eb_put m d (Device_item (dev\<lparr>dev_unready := dev_unready dev - 1\<rparr>))"
  have s: "same_heap {d} m m1" unfolding m1_def by (rule same_heap_put [OF id]) auto
  have ok1: "dyn_ok m1" and live1: "eb_live m1 = eb_live m" using s ok by (auto simp: same_heap_def)
  have cy1: "EB_CYCLE m1 c = Some cy" using ic cd by (simp add: m1_def eb_deref eb_mem)
  have id1: "eb_item m1 d = Some (Device_item (dev\<lparr>dev_unready := dev_unready dev - 1\<rparr>))"
    using id by (simp add: m1_def eb_mem)
  have "\<exists>m2 xs. eb_cycle_destroy c m1 = Some m2 \<and> dyn_ok m2 \<and> eb_live m2 = base \<and> set xs \<inter> base = {} \<and>
      (\<forall>q. q \<notin> set xs \<longrightarrow> q \<noteq> c \<longrightarrow> eb_item m2 q = eb_item m1 q)"
  proof (cases "cycle_dead m c \<and> eb_live m = base")
    case True
    then have "cycle_dead m1 c" using cy cy1 by (auto simp: cycle_dead_def)
    from eb_cycle_destroy_dead [OF this] show ?thesis
      using True ok1 live1 by (auto simp: same_heap_def intro!: exI [of _ "[]"])
  next
    case False
    with st obtain xs where xs: "cycle_ops m c xs" "set xs \<inter> base = {}" "eb_live m = base \<union> set xs"
      by (auto simp: cycle_state_def)
    have o: "op_chain m (cy_un_ops cy) xs" "cy_un_ops cy \<noteq> c" using xs(1) cy by (auto simp: cycle_ops_def)
    have "d \<notin> set xs" using xs(2) b(2) by blast
    then have "\<forall>q \<in> set xs. eb_item m1 q = eb_item m q"
      by (intro ballI same_heap_item [OF s]) auto
    from op_chain_frame [OF o(1) this]
    have "cycle_ops m1 c xs" using o(2) cy1 by (auto simp: cycle_ops_def)
    with eb_cycle_destroy_ops [OF ok1 this] obtain m2 where "eb_cycle_destroy c m1 = Some m2" "dyn_ok m2"
        "eb_live m2 = eb_live m1 - set xs" "\<forall>q. q \<notin> set xs \<longrightarrow> q \<noteq> c \<longrightarrow> eb_item m2 q = eb_item m1 q"
      by blast
    moreover have "eb_live m1 - set xs = base" using xs(2,3) live1 by auto
    ultimately show ?thesis using xs(2) by blast
  qed
  then obtain m2 xs where m2: "eb_cycle_destroy c m1 = Some m2" "dyn_ok m2" "eb_live m2 = base"
      "set xs \<inter> base = {}" "\<And>q. q \<notin> set xs \<Longrightarrow> q \<noteq> c \<Longrightarrow> eb_item m2 q = eb_item m1 q" by blast
  obtain m3 where m3: "eb_free_memory_item c m2 = Some m3" "dyn_ok m3" "eb_live m3 = base - {c}"
      "\<And>q. q \<noteq> c \<Longrightarrow> eb_item m3 q = eb_item m2 q"
    using dyn.release_ok [OF m2(2)] b(1) m2(3) by blast
  have "eb_cycle_abort c m = Some m3"
    using m2(1) m3(1) l by (simp add: eb_cycle_abort_def EB_CYCLE_Some [OF ic] set_device_Some [OF id]
        m1_def [symmetric])
  moreover have "eb_item m3 q = eb_item m1 q" if "q \<in> base - {c}" for q
    using that m2(4,5) m3(4) by auto
  ultimately show ?thesis
    using m3(2,3) id1 b(2) cd s by (auto simp: eb_deref same_heap_def)
qed

lemma opened_state:
  assumes ok: "dyn_ok m" and dev: "EB_DEVICE m d = Some dev"
    and op: "eb_cycle_open d user cb m = Some (EB_OK, c, m1)"
  shows "\<exists>m2 cy. run_calls c ks m1 = Some m2 \<and> cycle_state (insert c (eb_live m)) c ks m2 \<and>
     (room_for (Suc (length ks)) m \<longrightarrow> \<not> cycle_dead m2 c) \<and>
     c \<notin> eb_live m \<and> EB_CYCLE m2 c = Some cy \<and> cy\<lparr>cy_un_ops := EB_NULL\<rparr> = opened_cycle d user cb \<and>
     EB_DEVICE m2 d = Some (dev\<lparr>dev_unready := dev_unready dev + 1\<rparr>) \<and>
     (\<forall>q \<in> eb_live m - {d}. eb_item m2 q = eb_item m q)"
  using ok dev
proof (cases rule: eb_cycle_open_cases [where user = user and cb = cb])
  case (opened c' m1')
  with op have e: "c' = c" "m1' = m1" by auto
  have "cycle_ops m1 c []" using opened e by (auto simp: cycle_ops_def opened_cycle_def)
  then have st: "cycle_state (insert c (eb_live m)) c [] m1" and alive: "\<not> cycle_dead m1 c"
    using opened e by (auto simp: cycle_state_def cycle_ops_def cycle_dead_def intro!: exI [of _ "[]"])
  from run_calls_state [OF st, of ks] obtain m2 where m2: "run_calls c ks m1 = Some m2"
      "cycle_state (insert c (eb_live m)) c ks m2" "cycle_link m2 c = cycle_link m1 c"
      "\<forall>q \<in> insert c (eb_live m) - {c}. eb_item m2 q = eb_item m1 q" by auto
  have room: "room_for (Suc (length ks)) m \<longrightarrow> \<not> cycle_dead m2 c"
    using run_calls_room [OF st _ alive _ m2(1)] eb_cycle_open_room [OF ok _ op] by auto
  have "cycle_link m1 c = Some (opened_cycle d user cb)"
    using opened e by (simp add: cycle_link_def opened_cycle_def)
  with m2(3) obtain cy where cy: "EB_CYCLE m2 c = Some cy" "cy\<lparr>cy_un_ops := EB_NULL\<rparr> = opened_cycle d user cb"
    by (auto simp: cycle_link_def)
  have same: "eb_item m2 q = eb_item m1 q" if "q \<in> eb_live m" for q
    using that m2(4) opened(4) e by auto
  then have "EB_DEVICE m2 d = EB_DEVICE m1 d" using device_live [OF dev] by (simp add: EB_DEVICE_def)
  then show ?thesis using m2(1,2) cy opened e same room by auto
qed (use op in auto)

section \<open>Properties\<close>

text \<open>C33: whatever read and write calls are made on an open cycle, in whatever number, none of them
  faults, and closing the cycle puts it in front of its device's list with exactly one operation
  per call, in call order, each with the address, format, value and kind that was asked for. Only
  where memory runs out on the way, which is excluded when there is room for the cycle and its
  operations, is the cycle queued dead instead and holds no operation. Nothing but the cycle, its
  operations and the device's list changes.\<close>

theorem cycle_queued_in_order:
  assumes "dyn_ok m" and "EB_DEVICE m d = Some dev"
    and "eb_cycle_open d user cb m = Some (EB_OK, c, m1)"
  shows "\<exists>m2 m3 cy. run_calls c ks m1 = Some m2 \<and> eb_raw_cycle_close c m2 = Some m3 \<and>
     queued_cycle (insert c (eb_live m)) c ks m3 \<and>
     (room_for (length ks + 1) m \<longrightarrow> \<not> cycle_dead m3 c) \<and>
     EB_DEVICE m3 d = Some (dev\<lparr>dev_un_link := c\<rparr>) \<and>
     EB_CYCLE m3 c = Some cy \<and> cy_un_link cy = dev_un_link dev \<and> cy_user_data cy = user \<and>
     cy_callback cy = (case cb of Some f \<Rightarrow> f | None \<Rightarrow> Eb_block_f) \<and>
     (\<forall>q \<in> eb_live m - {d}. eb_item m3 q = eb_item m q)"
proof -
  obtain m2 cy where o: "run_calls c ks m1 = Some m2" "cycle_state (insert c (eb_live m)) c ks m2"
      "c \<notin> eb_live m" "EB_CYCLE m2 c = Some cy" "cy\<lparr>cy_un_ops := EB_NULL\<rparr> = opened_cycle d user cb"
      "EB_DEVICE m2 d = Some (dev\<lparr>dev_unready := dev_unready dev + 1\<rparr>)"
      "\<forall>q \<in> eb_live m - {d}. eb_item m2 q = eb_item m q"
      "room_for (Suc (length ks)) m \<longrightarrow> \<not> cycle_dead m2 c"
    using opened_state [OF assms] by blast
  have f: "cy_un_link cy = d" "cy_user_data cy = user"
      "cy_callback cy = (case cb of Some f \<Rightarrow> f | None \<Rightarrow> Eb_block_f)"
    using o(5) by (cases cy; simp add: opened_cycle_def)+
  have dl: "d \<in> eb_live m" using assms(2) by (rule device_live)
  obtain m3 cy' where c: "eb_raw_cycle_close c m2 = Some m3" "queued_cycle (insert c (eb_live m)) c ks m3"
     "EB_CYCLE m3 c = Some cy'" "cy_un_link cy' = dev_un_link dev" "cy_callback cy' = cy_callback cy"
     "cy_user_data cy' = cy_user_data cy" "EB_DEVICE m3 d = Some (dev\<lparr>dev_un_link := c\<rparr>)"
     "\<forall>q \<in> insert c (eb_live m) - {c, d}. eb_item m3 q = eb_item m2 q" "cycle_dead m3 c \<longrightarrow> cycle_dead m2 c"
    using eb_raw_cycle_close_state [OF o(2) _ _ o(4) f(1) o(6)] dl by auto
  then show ?thesis using o f by auto
qed

text \<open>C34: aborting a cycle after any number of calls releases it and every operation it collected:
  the objects in use are those from before it was opened, every one of them unchanged (the device's
  count of open cycles is back to what it was).\<close>

theorem cycle_abort_no_leak:
  assumes "dyn_ok m" and "EB_DEVICE m d = Some dev"
    and "eb_cycle_open d user cb m = Some (EB_OK, c, m1)"
  shows "\<exists>m2 m3. run_calls c ks m1 = Some m2 \<and> eb_cycle_abort c m2 = Some m3 \<and>
     dyn_ok m3 \<and> eb_live m3 = eb_live m \<and> (\<forall>q \<in> eb_live m. eb_item m3 q = eb_item m q)"
proof -
  obtain m2 cy where o: "run_calls c ks m1 = Some m2" "cycle_state (insert c (eb_live m)) c ks m2"
      "c \<notin> eb_live m" "EB_CYCLE m2 c = Some cy" "cy\<lparr>cy_un_ops := EB_NULL\<rparr> = opened_cycle d user cb"
      "EB_DEVICE m2 d = Some (dev\<lparr>dev_unready := dev_unready dev + 1\<rparr>)"
      "\<forall>q \<in> eb_live m - {d}. eb_item m2 q = eb_item m q"
    using opened_state [OF assms] by blast
  have f: "cy_un_link cy = d" using o(5) by (cases cy) (simp add: opened_cycle_def)
  have dl: "d \<in> eb_live m" using assms(2) by (rule device_live)
  obtain m3 where a: "eb_cycle_abort c m2 = Some m3" "dyn_ok m3" "eb_live m3 = insert c (eb_live m) - {c}"
      "EB_DEVICE m3 d = Some dev" "\<forall>q \<in> insert c (eb_live m) - {c, d}. eb_item m3 q = eb_item m2 q"
    using eb_cycle_abort_state [OF o(2) _ _ o(4) f o(6)] dl by auto
  have "eb_item m3 d = eb_item m d" using a(4) assms(2) by (simp add: eb_deref)
  then have "\<forall>q \<in> eb_live m. eb_item m3 q = eb_item m q" using a(5) o(3,7) by (metis DiffI insertE insertI2 singletonD)
  with o(1,3) a show ?thesis by auto
qed

text \<open>A device with no cycle yet, at index 128.\<close>

definition demo_device_heap :: eb_memory where
  "demo_device_heap = heap_of [Device_item (zero_device\<lparr>dev_un_link := EB_NULL\<rparr>)]"

lemma demo_device_open:
  "\<exists>m1. dyn_ok demo_device_heap \<and>
     EB_DEVICE demo_device_heap 128 = Some (zero_device\<lparr>dev_un_link := EB_NULL\<rparr>) \<and>
     eb_cycle_open 128 7 None demo_device_heap = Some (EB_OK, 129, m1)"
  unfolding demo_device_heap_def
  by (intro exI conjI heap_of_ok)
    (simp_all add: heap_of_def eb_deref eb_item_def in_array_def eb_cycle_open_def eb_new_cycle_def
       eb_new_memory_item_def EB_NULL_def EB_FREE_ITEM_def eb_put_def EB_DEVICE_def set_cycle_def
       set_device_def EB_CYCLE_def zero_device_def)

theorem cycle_queued_in_order_witness:
  "\<exists>m1 m2 m3. eb_cycle_open 128 7 None demo_device_heap = Some (EB_OK, 129, m1) \<and>
     run_calls 129 [Call_write 0x10 0x14 5, Call_read 0x20 0x14 0] m1 = Some m2 \<and>
     eb_raw_cycle_close 129 m2 = Some m3 \<and>
     queued_cycle (insert 129 (eb_live demo_device_heap)) 129
       [Call_write 0x10 0x14 5, Call_read 0x20 0x14 0] m3 \<and> \<not> cycle_dead m3 129"
proof -
  obtain m1 where "dyn_ok demo_device_heap"
      "EB_DEVICE demo_device_heap 128 = Some (zero_device\<lparr>dev_un_link := EB_NULL\<rparr>)"
      "eb_cycle_open 128 7 None demo_device_heap = Some (EB_OK, 129, m1)" using demo_device_open by blast
  moreover have "room_for (length [Call_write 0x10 0x14 5, Call_read 0x20 0x14 0] + 1) demo_device_heap"
    unfolding demo_device_heap_def by (rule heap_of_room) simp_all
  ultimately show ?thesis
    using cycle_queued_in_order [of demo_device_heap 128 "zero_device\<lparr>dev_un_link := EB_NULL\<rparr>" 7 None 129 m1
        "[Call_write 0x10 0x14 5, Call_read 0x20 0x14 0]"] by blast
qed

theorem cycle_abort_no_leak_witness:
  "\<exists>m1 m2 m3. eb_cycle_open 128 7 None demo_device_heap = Some (EB_OK, 129, m1) \<and>
     run_calls 129 [Call_write 0x10 0x14 5] m1 = Some m2 \<and> eb_cycle_abort 129 m2 = Some m3 \<and>
     eb_live m3 = eb_live demo_device_heap"
proof -
  obtain m1 where "dyn_ok demo_device_heap"
      "EB_DEVICE demo_device_heap 128 = Some (zero_device\<lparr>dev_un_link := EB_NULL\<rparr>)"
      "eb_cycle_open 128 7 None demo_device_heap = Some (EB_OK, 129, m1)" using demo_device_open by blast
  from cycle_abort_no_leak [OF this, of "[Call_write 0x10 0x14 5]"] this(3) show ?thesis by blast
qed

end
