(* ===== verification/Eb_State.thy ===== *)
theory Eb_State
  imports Eb_Cycle
begin

text \<open>
  The state every entry point of the library works on, and the code around the library as
  parameters: the transports (\<^verbatim>\<open>struct eb_transport_ops\<close>), the user's cycle, SDB and bus callbacks, and
  the user's descriptions of virtual devices. User code may call back into the library, so a
  callback maps a whole state to a whole state.
\<close>

section \<open>Self-description records\<close>

record sdb_product =
  vendor_id :: u64
  device_id :: u32
  prod_version :: u32
  prod_date :: u32
  prod_name :: "u8 list"
  prod_record_type :: u8

record sdb_component =
  addr_first :: u64
  addr_last :: u64
  comp_product :: sdb_product

record sdb_interconnect =
  sdb_magic :: u32
  sdb_records :: u16
  sdb_version :: u8
  sdb_bus_type :: u8
  ic_component :: sdb_component

record sdb_device =
  abi_class :: u16
  abi_ver_major :: u8
  abi_ver_minor :: u8
  bus_specific :: u32
  dv_component :: sdb_component

record sdb_bridge =
  sdb_child :: u64
  br_component :: sdb_component

text \<open>A decoded record; a record whose type the decoder does not know keeps its 64 bytes.\<close>

datatype sdb_record =
    Sdb_device_rec sdb_device
  | Sdb_bridge_rec sdb_bridge
  | Sdb_integration_rec "u8 list" sdb_product
  | Sdb_raw_rec "u8 list"

record sdb_table =
  tab_interconnect :: sdb_interconnect
  tab_records :: "sdb_record list"

text \<open>The caller's record of a search by address or by identity (\<^verbatim>\<open>struct eb_find_by_address\<close>,
  \<^verbatim>\<open>struct eb_find_by_identity\<close>); the memory behind \<^verbatim>\<open>output\<close> is the list of descriptors in it.\<close>

record eb_find_by_address =
  fa_address :: eb_address_t
  fa_output :: "sdb_device list"
  fa_status :: eb_status_t

record eb_find_by_identity =
  fi_vendor_id :: u64
  fi_output :: "sdb_device list"
  fi_device_id :: u32
  fi_size :: int
  fi_fill :: int
  fi_pending :: int
  fi_status :: eb_status_t

section \<open>State\<close>

text \<open>\<open>st_user\<close> holds the user's \<^verbatim>\<open>eb_data_t\<close> variables (the destinations of reads), \<open>st_status\<close> the
  \<^verbatim>\<open>eb_status_t\<close> variables of blocking calls and \<open>st_find_address\<close>, \<open>st_find_identity\<close> the records of
  blocking searches, each by address; \<open>st_world\<close> is everything else: the
  user's own state and the operating system's.\<close>

record 'w eb_state =
  st_mem :: eb_memory
  st_user :: "u64 \<Rightarrow> eb_data_t"
  st_status :: "u64 \<Rightarrow> eb_status_t"
  st_find_address :: "u64 \<Rightarrow> eb_find_by_address"
  st_find_identity :: "u64 \<Rightarrow> eb_find_by_identity"
  st_world :: 'w

text \<open>The transport methods act on the raw bytes of the transport and of the link and on the
  world. \<open>poll\<close> and \<open>recv\<close> return the length code and the bytes received; \<open>None\<close> in the place of a
  link is the null pointer.\<close>

record 'w eb_transport_ops =
  tops_mtu :: int
  tops_open :: "eb_transport \<Rightarrow> string option \<Rightarrow> 'w \<Rightarrow> eb_status_t \<times> eb_transport \<times> 'w"
  tops_close :: "eb_transport \<Rightarrow> 'w \<Rightarrow> 'w"
  tops_connect :: "eb_transport \<Rightarrow> eb_link \<Rightarrow> string \<Rightarrow> bool \<Rightarrow> 'w \<Rightarrow> eb_status_t \<times> eb_link \<times> 'w"
  tops_disconnect :: "eb_transport \<Rightarrow> eb_link \<Rightarrow> 'w \<Rightarrow> 'w"
  tops_fdes :: "eb_transport \<Rightarrow> eb_link option \<Rightarrow> 'w \<Rightarrow> 'w"
  tops_accept :: "eb_transport \<Rightarrow> eb_link \<Rightarrow> 'w \<Rightarrow> int \<times> eb_link \<times> 'w"
  tops_poll :: "eb_transport \<Rightarrow> eb_link option \<Rightarrow> nat \<Rightarrow> 'w \<Rightarrow> int \<times> u8 list \<times> 'w"
  tops_recv :: "eb_transport \<Rightarrow> eb_link option \<Rightarrow> nat \<Rightarrow> 'w \<Rightarrow> int \<times> u8 list \<times> 'w"
  tops_send :: "eb_transport \<Rightarrow> eb_link option \<Rightarrow> u8 list \<Rightarrow> 'w \<Rightarrow> 'w"
  tops_send_buffer :: "eb_transport \<Rightarrow> eb_link option \<Rightarrow> bool \<Rightarrow> 'w \<Rightarrow> 'w"

text \<open>\<open>env_junk\<close> is what an uninitialised stack buffer contains; \<open>env_version\<close> and \<open>env_date\<close> are the
  constants of the generated header \<^verbatim>\<open>version.h\<close>.\<close>

record 'w eb_env =
  env_transports :: "'w eb_transport_ops list"
  env_junk :: "nat \<Rightarrow> u8"
  env_version :: u32
  env_date :: u32
  env_device :: "u64 \<Rightarrow> sdb_device"
  env_callback :: "nat \<Rightarrow> eb_user_data_t \<Rightarrow> eb_ptr \<Rightarrow> eb_ptr \<Rightarrow> eb_status_t \<Rightarrow> 'w eb_state \<Rightarrow> 'w eb_state option"
  env_sdb_callback :: "nat \<Rightarrow> eb_user_data_t \<Rightarrow> eb_ptr \<Rightarrow> sdb_table option \<Rightarrow> eb_status_t \<Rightarrow>
      'w eb_state \<Rightarrow> 'w eb_state option"
  env_read :: "nat \<Rightarrow> eb_user_data_t \<Rightarrow> eb_address_t \<Rightarrow> eb_width_t \<Rightarrow> 'w eb_state \<Rightarrow>
      (eb_status_t \<times> eb_data_t \<times> 'w eb_state) option"
  env_write :: "nat \<Rightarrow> eb_user_data_t \<Rightarrow> eb_address_t \<Rightarrow> eb_width_t \<Rightarrow> eb_data_t \<Rightarrow> 'w eb_state \<Rightarrow>
      (eb_status_t \<times> 'w eb_state) option"

section \<open>Heap steps on the state\<close>

definition on_mem :: "(eb_memory \<Rightarrow> eb_memory option) \<Rightarrow> 'w eb_state \<Rightarrow> 'w eb_state option" where
  "on_mem f st = do { m \<leftarrow> f (st_mem st); Some (st\<lparr>st_mem := m\<rparr>) }"

definition alloc_mem :: "(eb_memory \<Rightarrow> ('a \<times> eb_memory) option) \<Rightarrow> 'w eb_state \<Rightarrow> ('a \<times> 'w eb_state) option" where
  "alloc_mem f st = do { (p, m) \<leftarrow> f (st_mem st); Some (p, st\<lparr>st_mem := m\<rparr>) }"

definition on_world :: "('w \<Rightarrow> 'w) \<Rightarrow> 'w eb_state \<Rightarrow> 'w eb_state" where
  "on_world f st = st\<lparr>st_world := f (st_world st)\<rparr>"

text \<open>\<^verbatim>\<open>eb_transports[link_type]\<close>; indexing outside the table is a fault.\<close>

definition tops :: "'w eb_env \<Rightarrow> u8 \<Rightarrow> 'w eb_transport_ops option" where
  "tops env t = (if unat t < length (env_transports env) then Some (env_transports env ! unat t) else None)"

definition link_of :: "eb_memory \<Rightarrow> eb_ptr \<Rightarrow> eb_link option option" where
  "link_of m linkp = (if linkp = EB_NULL then Some None else map_option Some (EB_LINK m linkp))"

text \<open>\<^verbatim>\<open>eb_transports[transport->link_type].send(transport, link, buf, len)\<close>.\<close>

definition do_send :: "'w eb_env \<Rightarrow> eb_ptr \<Rightarrow> eb_ptr \<Rightarrow> u8 list \<Rightarrow> 'w eb_state \<Rightarrow> 'w eb_state option" where
  "do_send env transportp linkp bytes st = do {
     transport \<leftarrow> EB_TRANSPORT (st_mem st) transportp;
     link \<leftarrow> link_of (st_mem st) linkp;
     ops \<leftarrow> tops env (tr_link_type transport);
     Some (on_world (tops_send ops transport link bytes) st)
   }"

lemma on_mem_Some: "on_mem f st = Some st' \<longleftrightarrow> (\<exists>m. f (st_mem st) = Some m \<and> st' = st\<lparr>st_mem := m\<rparr>)"
  by (auto simp: on_mem_def bind_eq_Some_conv)

lemma alloc_mem_Some:
  "alloc_mem f st = Some (p, st') \<longleftrightarrow> (\<exists>m. f (st_mem st) = Some (p, m) \<and> st' = st\<lparr>st_mem := m\<rparr>)"
  by (auto simp: alloc_mem_def bind_eq_Some_conv)

lemma on_world_simps [simp]:
  "st_mem (on_world f st) = st_mem st" "st_user (on_world f st) = st_user st"
  "st_status (on_world f st) = st_status st" "st_world (on_world f st) = f (st_world st)"
  by (simp_all add: on_world_def)

end
