(* ===== verification/Eb_Sdb.thy ===== *)
theory Eb_Sdb
  imports Eb_State
begin

text \<open>
  The self-describing bus (\<^verbatim>\<open>api/glue/sdb.c\<close>): the slave side presents a table of the attached
  virtual devices in its own address space, the master side reads such tables and searches them.
  The lemmas show that the two sides are inverse to each other and that the slave side never
  reads outside its structures.
\<close>

section \<open>Serving the table\<close>

abbreviation (input) SDB_MAGIC :: u32 where "SDB_MAGIC \<equiv> 0x5344422D"
abbreviation (input) sdb_record_interconnect :: u8 where "sdb_record_interconnect \<equiv> 0x00"
abbreviation (input) sdb_record_device :: u8 where "sdb_record_device \<equiv> 0x01"
abbreviation (input) sdb_record_bridge :: u8 where "sdb_record_bridge \<equiv> 0x02"
abbreviation (input) sdb_record_integration :: u8 where "sdb_record_integration \<equiv> 0x80"
abbreviation (input) sdb_record_empty :: u8 where "sdb_record_empty \<equiv> 0xFF"

text \<open>The big-endian memory images of the structures.\<close>

definition product_bytes :: "sdb_product \<Rightarrow> u8 list" where
  "product_bytes p = be_bytes 8 (vendor_id p) @ be_bytes 4 (ucast (device_id p)) @
     be_bytes 4 (ucast (prod_version p)) @ be_bytes 4 (ucast (prod_date p)) @ prod_name p @ [prod_record_type p]"

definition component_bytes :: "sdb_component \<Rightarrow> u8 list" where
  "component_bytes c = be_bytes 8 (addr_first c) @ be_bytes 8 (addr_last c) @ product_bytes (comp_product c)"

definition interconnect_bytes :: "sdb_interconnect \<Rightarrow> u8 list" where
  "interconnect_bytes i = be_bytes 4 (ucast (sdb_magic i)) @ be_bytes 2 (ucast (sdb_records i)) @
     [sdb_version i, sdb_bus_type i] @ component_bytes (ic_component i)"

definition device_bytes :: "sdb_device \<Rightarrow> u8 list" where
  "device_bytes d = be_bytes 2 (ucast (abi_class d)) @ [abi_ver_major d, abi_ver_minor d] @
     be_bytes 4 (ucast (bus_specific d)) @ component_bytes (dv_component d)"

text \<open>\<^verbatim>\<open>bytes[addr+i]\<close> outside the structure is a fault.\<close>

fun eb_sdb_extract_loop :: "u8 list \<Rightarrow> eb_address_t \<Rightarrow> nat list \<Rightarrow> eb_data_t \<Rightarrow> eb_data_t option" where
  "eb_sdb_extract_loop bytes addr [] out = Some out"
| "eb_sdb_extract_loop bytes addr (i # is) out =
     (if unat (addr + of_nat i) < length bytes
      then eb_sdb_extract_loop bytes addr is (push_bit 8 out OR ucast (bytes ! unat (addr + of_nat i)))
      else None)"

definition eb_sdb_extract :: "u8 list \<Rightarrow> eb_width_t \<Rightarrow> eb_address_t \<Rightarrow> eb_data_t option" where
  "eb_sdb_extract bytes width addr = eb_sdb_extract_loop bytes addr [0..<unat (width AND EB_DATAX)] 0"

definition software_bus_name :: "u8 list" where
  "software_bus_name = map of_nat
     [83, 111, 102, 116, 119, 97, 114, 101, 45, 69, 66, 45, 66, 117, 115, 32, 32, 32, 32]"

definition interconnect_of :: "'w eb_env \<Rightarrow> int \<Rightarrow> sdb_interconnect" where
  "interconnect_of env devices =
     \<lparr>sdb_magic = SDB_MAGIC, sdb_records = word_of_int (devices + 1), sdb_version = 1, sdb_bus_type = 0,
      ic_component = \<lparr>addr_first = 0, addr_last = NOT 0,
        comp_product = \<lparr>vendor_id = 0x651, device_id = 0x02398114, prod_version = env_version env,
          prod_date = env_date env, prod_name = software_bus_name,
          prod_record_type = sdb_record_interconnect\<rparr>\<rparr>\<rparr>"

definition eb_sdb_interconnect :: "'w eb_env \<Rightarrow> eb_width_t \<Rightarrow> eb_address_t \<Rightarrow> int \<Rightarrow> eb_data_t option" where
  "eb_sdb_interconnect env width addr devices =
     eb_sdb_extract (interconnect_bytes (interconnect_of env devices)) width addr"

text \<open>The copy of the user's descriptor that is presented: the record type is forced.\<close>

definition presented :: "sdb_device \<Rightarrow> sdb_device" where
  "presented d = d\<lparr>dv_component := (dv_component d)\<lparr>comp_product :=
     (comp_product (dv_component d))\<lparr>prod_record_type := sdb_record_device\<rparr>\<rparr>\<rparr>"

definition eb_sdb_device :: "sdb_device \<Rightarrow> eb_width_t \<Rightarrow> eb_address_t \<Rightarrow> eb_data_t option" where
  "eb_sdb_device device width addr = eb_sdb_extract (device_bytes (presented device)) width addr"

definition ha_next_of :: "eb_memory \<Rightarrow> eb_ptr \<Rightarrow> eb_ptr option" where
  "ha_next_of m p = do { address \<leftarrow> EB_HANDLER_ADDRESS m p; Some (ha_next address) }"

partial_function (option) eb_sdb_count :: "eb_memory \<Rightarrow> eb_ptr \<Rightarrow> int \<Rightarrow> int option" where
  "eb_sdb_count m addressp dev =
     (if addressp = EB_NULL then Some dev
      else do {
        address \<leftarrow> EB_HANDLER_ADDRESS m addressp;
        eb_sdb_count m (ha_next address) (dev + 1)
      })"

partial_function (option) eb_sdb_locate :: "eb_memory \<Rightarrow> eb_ptr \<Rightarrow> int \<Rightarrow> eb_ptr option" where
  "eb_sdb_locate m addressp dev =
     (if addressp = EB_NULL then Some addressp
      else do {
        address \<leftarrow> EB_HANDLER_ADDRESS m addressp;
        let dev = dev - 1;
        if dev = 0 then Some addressp else eb_sdb_locate m (ha_next address) dev
      })"

definition eb_sdb :: "'w eb_env \<Rightarrow> eb_ptr \<Rightarrow> eb_width_t \<Rightarrow> eb_address_t \<Rightarrow> eb_memory \<Rightarrow> eb_data_t option" where
  "eb_sdb env socketp width addr m = do {
     socket \<leftarrow> EB_SOCKET m socketp;
     if addr < 0x40 then do {
       dev \<leftarrow> eb_sdb_count m (so_first_handler socket) 0;
       eb_sdb_interconnect env width addr dev
     } else do {
       let dev = sint (ucast (drop_bit 6 addr) :: u32);
       let addr = addr AND 0x3f;
       addressp \<leftarrow> eb_sdb_locate m (so_first_handler socket) dev;
       if addressp = EB_NULL then Some 0
       else do {
         address \<leftarrow> EB_HANDLER_ADDRESS m addressp;
         eb_sdb_device (env_device env (ha_device address)) width addr
       }
     }
   }"

section \<open>Decoding a table\<close>

text \<open>Storing one datum of \<open>i\<close> bytes at \<open>pos\<close>, last byte first.\<close>

primrec fill_word :: "nat \<Rightarrow> nat \<Rightarrow> eb_data_t \<Rightarrow> u8 list \<Rightarrow> u8 list" where
  "fill_word 0 pos data buf = buf"
| "fill_word (Suc i) pos data buf = fill_word i pos (drop_bit 8 data) (buf[pos + i := ucast (data AND 0xFF)])"

partial_function (option) eb_sdb_fill_block ::
    "(u64 \<Rightarrow> eb_data_t) \<Rightarrow> eb_memory \<Rightarrow> u8 list \<Rightarrow> nat \<Rightarrow> eb_ptr \<Rightarrow> (int \<times> u8 list) option" where
  "eb_sdb_fill_block user m buf pos ops =
     (if ops = EB_NULL then Some (0, buf)
      else do {
        err \<leftarrow> eb_operation_had_error m ops;
        if err then Some (-1, buf)
        else do {
          data \<leftarrow> eb_operation_data user m ops;
          format \<leftarrow> eb_operation_format m ops;
          let stride = unat (format AND EB_DATAX);
          if length buf - pos < stride then Some (1, buf)
          else do {
            next \<leftarrow> eb_operation_next m ops;
            eb_sdb_fill_block user m (fill_word stride pos data buf) (pos + stride) next
          }
        }
      })"

definition eb_sdb_product_decode :: "u8 list \<Rightarrow> sdb_product" where
  "eb_sdb_product_decode bs =
     \<lparr>vendor_id = be_word (take 8 bs), device_id = ucast (be_word (take 4 (drop 8 bs))),
      prod_version = ucast (be_word (take 4 (drop 12 bs))), prod_date = ucast (be_word (take 4 (drop 16 bs))),
      prod_name = take 19 (drop 20 bs), prod_record_type = bs ! 39\<rparr>"

definition eb_sdb_component_decode :: "eb_address_t \<Rightarrow> u8 list \<Rightarrow> sdb_component" where
  "eb_sdb_component_decode bus_base bs =
     \<lparr>addr_first = be_word (take 8 bs) + bus_base, addr_last = be_word (take 8 (drop 8 bs)) + bus_base,
      comp_product = eb_sdb_product_decode (drop 16 bs)\<rparr>"

definition sdb_interconnect_decode :: "eb_address_t \<Rightarrow> u8 list \<Rightarrow> sdb_interconnect" where
  "sdb_interconnect_decode bus_base bs =
     \<lparr>sdb_magic = ucast (be_word (take 4 bs)), sdb_records = ucast (be_word (take 2 (drop 4 bs))),
      sdb_version = bs ! 6, sdb_bus_type = bs ! 7, ic_component = eb_sdb_component_decode bus_base (drop 8 bs)\<rparr>"

text \<open>The body of the loop over the descriptor blocks: \<open>bs\<close> are the 64 bytes of one record.\<close>

definition sdb_record_decode :: "eb_address_t \<Rightarrow> u8 list \<Rightarrow> sdb_record" where
  "sdb_record_decode bus_base bs =
     (let t = bs ! 63 in
      if t = sdb_record_device then
        Sdb_device_rec \<lparr>abi_class = ucast (be_word (take 2 bs)), abi_ver_major = bs ! 2, abi_ver_minor = bs ! 3,
          bus_specific = ucast (be_word (take 4 (drop 4 bs))),
          dv_component = eb_sdb_component_decode bus_base (drop 8 bs)\<rparr>
      else if t = sdb_record_bridge then
        Sdb_bridge_rec \<lparr>sdb_child = be_word (take 8 bs) + bus_base,
          br_component = eb_sdb_component_decode bus_base (drop 8 bs)\<rparr>
      else if t = sdb_record_integration then
        Sdb_integration_rec (take 24 bs) (eb_sdb_product_decode (drop 24 bs))
      else Sdb_raw_rec bs)"

definition sdb_table_decode :: "eb_address_t \<Rightarrow> u8 list \<Rightarrow> sdb_table" where
  "sdb_table_decode bus_base buf =
     (let ic = sdb_interconnect_decode bus_base (take 64 buf) in
      \<lparr>tab_interconnect = ic,
       tab_records = map (\<lambda>i. sdb_record_decode bus_base (take 64 (drop (64 * Suc i) buf)))
                         [0..<unat (sdb_records ic) - 1]\<rparr>)"

section \<open>Scanning\<close>

definition eb_device_width :: "eb_memory \<Rightarrow> eb_ptr \<Rightarrow> eb_width_t option" where
  "eb_device_width m devicep = do { device \<leftarrow> EB_DEVICE m devicep; Some (dev_widths device) }"

text \<open>\<^verbatim>\<open>eb_cycle_close\<close> on a cycle whose callback is not \<^verbatim>\<open>eb_block_f\<close>: queue it and return.\<close>

definition eb_cycle_close_queue :: "eb_ptr \<Rightarrow> eb_memory \<Rightarrow> eb_memory option" where
  "eb_cycle_close_queue cyclep m = do { m \<leftarrow> eb_raw_cycle_close cyclep m; eb_cycle_check cyclep m }"

text \<open>The loops that queue the reads of an address range.\<close>

partial_function (option) sdb_read_range ::
    "eb_ptr \<Rightarrow> eb_address_t \<Rightarrow> eb_address_t \<Rightarrow> eb_address_t \<Rightarrow> eb_memory \<Rightarrow> eb_memory option" where
  "sdb_read_range cycle address e stride m =
     (if address < e then do {
        m \<leftarrow> eb_cycle_read cycle address EB_DATAX 0 m;
        sdb_read_range cycle (address + stride) e stride m
      } else Some m)"

partial_function (option) sdb_read_config_range ::
    "eb_ptr \<Rightarrow> eb_address_t \<Rightarrow> eb_address_t \<Rightarrow> eb_address_t \<Rightarrow> eb_memory \<Rightarrow> eb_memory option" where
  "sdb_read_config_range cycle address e stride m =
     (if address < e then do {
        m \<leftarrow> eb_cycle_read_config cycle address EB_DATAX 0 m;
        sdb_read_config_range cycle (address + stride) e stride m
      } else Some m)"

definition stride_of :: "eb_width_t \<Rightarrow> eb_address_t" where
  "stride_of w = ucast (w AND EB_DATAX)"

definition eb_sdb_scan_bus ::
    "eb_ptr \<Rightarrow> sdb_bridge \<Rightarrow> eb_user_data_t \<Rightarrow> sdb_callback_t \<Rightarrow> eb_memory \<Rightarrow> (eb_status_t \<times> eb_memory) option" where
  "eb_sdb_scan_bus device bridge data cb m =
     (if prod_record_type (comp_product (br_component bridge)) \<noteq> sdb_record_bridge then Some (EB_ADDRESS, m)
      else do {
        (scanp, m) \<leftarrow> eb_new_sdb_scan m;
        if scanp = EB_NULL then Some (EB_OOM, m)
        else do {
          m \<leftarrow> set_sdb_scan m scanp (\<lambda>s. s\<lparr>scan_cb := cb, scan_user_data := data,
                  scan_bus_base := addr_first (br_component bridge)\<rparr>);
          width \<leftarrow> eb_device_width m device;
          (status, cycle, m) \<leftarrow> eb_cycle_open device (ucast scanp) (Some Eb_sdb_got_header) m;
          if status \<noteq> EB_OK then do {
            m \<leftarrow> eb_free_sdb_scan scanp m;
            Some (status, m)
          } else do {
            m \<leftarrow> sdb_read_range cycle (sdb_child bridge) (sdb_child bridge + 32) (stride_of width) m;
            m \<leftarrow> eb_cycle_close_queue cycle m;
            Some (EB_OK, m)
          }
        }
      })"

definition eb_sdb_scan_root ::
    "eb_ptr \<Rightarrow> eb_user_data_t \<Rightarrow> sdb_callback_t \<Rightarrow> eb_memory \<Rightarrow> (eb_status_t \<times> eb_memory) option" where
  "eb_sdb_scan_root device data cb m = do {
     (scanp, m) \<leftarrow> eb_new_sdb_scan m;
     if scanp = EB_NULL then Some (EB_OOM, m)
     else do {
       m \<leftarrow> set_sdb_scan m scanp (\<lambda>s. s\<lparr>scan_cb := cb, scan_user_data := data, scan_bus_base := 0\<rparr>);
       width \<leftarrow> eb_device_width m device;
       (status, cycle, m) \<leftarrow> eb_cycle_open device (ucast scanp) (Some Eb_sdb_got_header_ptr) m;
       if status \<noteq> EB_OK then do {
         m \<leftarrow> eb_free_sdb_scan scanp m;
         Some (status, m)
       } else do {
         m \<leftarrow> sdb_read_config_range cycle 8 16 (stride_of width) m;
         m \<leftarrow> eb_cycle_close_queue cycle m;
         Some (EB_OK, m)
       }
     }
   }"

subsection \<open>Searching\<close>

fun find_by_address_loop ::
    "eb_user_data_t \<Rightarrow> eb_ptr \<Rightarrow> sdb_record list \<Rightarrow> 'w eb_state \<Rightarrow> 'w eb_state option" where
  "find_by_address_loop data dev [] st =
     Some (st\<lparr>st_find_address := (st_find_address st)(data := (st_find_address st data)\<lparr>fa_status := EB_ADDRESS\<rparr>)\<rparr>)"
| "find_by_address_loop data dev (des # rest) st =
     (let address = fa_address (st_find_address st data) in
      case des of
        Sdb_bridge_rec bridge \<Rightarrow>
          if addr_first (br_component bridge) \<le> address \<and> address \<le> addr_last (br_component bridge) then do {
            (status, st) \<leftarrow> alloc_mem (eb_sdb_scan_bus dev bridge data Eb_cb_find_by_address) st;
            Some (if status \<noteq> EB_OK
                  then st\<lparr>st_find_address := (st_find_address st)(data :=
                         (st_find_address st data)\<lparr>fa_status := status\<rparr>)\<rparr>
                  else st)
          } else find_by_address_loop data dev rest st
      | Sdb_device_rec device \<Rightarrow>
          if addr_first (dv_component device) \<le> address \<and> address \<le> addr_last (dv_component device)
          then Some (st\<lparr>st_find_address := (st_find_address st)(data :=
                      (st_find_address st data)\<lparr>fa_output := [device], fa_status := EB_OK\<rparr>)\<rparr>)
          else find_by_address_loop data dev rest st
      | _ \<Rightarrow> find_by_address_loop data dev rest st)"

definition eb_cb_find_by_address ::
    "eb_user_data_t \<Rightarrow> eb_ptr \<Rightarrow> sdb_table option \<Rightarrow> eb_status_t \<Rightarrow> 'w eb_state \<Rightarrow> 'w eb_state option" where
  "eb_cb_find_by_address data dev sdb status st =
     (if status \<noteq> EB_OK
      then Some (st\<lparr>st_find_address := (st_find_address st)(data := (st_find_address st data)\<lparr>fa_status := status\<rparr>)\<rparr>)
      else do { table \<leftarrow> sdb; find_by_address_loop data dev (tab_records table) st })"

definition upd_find_identity ::
    "eb_user_data_t \<Rightarrow> (eb_find_by_identity \<Rightarrow> eb_find_by_identity) \<Rightarrow> 'w eb_state \<Rightarrow> 'w eb_state" where
  "upd_find_identity data f st =
     st\<lparr>st_find_identity := (st_find_identity st)(data := f (st_find_identity st data))\<rparr>"

definition find_by_identity_match :: "eb_user_data_t \<Rightarrow> sdb_device \<Rightarrow> 'w eb_state \<Rightarrow> 'w eb_state" where
  "find_by_identity_match data device st =
     (let r = st_find_identity st data in
      if vendor_id (comp_product (dv_component device)) = fi_vendor_id r \<and>
         device_id (comp_product (dv_component device)) = fi_device_id r
      then upd_find_identity data
             (\<lambda>r. r\<lparr>fi_output := (if fi_fill r < fi_size r then fi_output r @ [device] else fi_output r),
                   fi_fill := fi_fill r + 1\<rparr>) st
      else st)"

fun find_by_identity_loop ::
    "eb_user_data_t \<Rightarrow> eb_ptr \<Rightarrow> sdb_record list \<Rightarrow> 'w eb_state \<Rightarrow> 'w eb_state option" where
  "find_by_identity_loop data dev [] st = Some st"
| "find_by_identity_loop data dev (des # rest) st =
     (case des of
        Sdb_bridge_rec bridge \<Rightarrow> do {
          (status, st) \<leftarrow> alloc_mem (eb_sdb_scan_bus dev bridge data Eb_cb_find_by_identity) st;
          find_by_identity_loop data dev rest
            (upd_find_identity data
               (\<lambda>r. if status = EB_OK then r\<lparr>fi_pending := fi_pending r + 1\<rparr> else r\<lparr>fi_status := status\<rparr>) st)
        }
      | Sdb_device_rec device \<Rightarrow> find_by_identity_loop data dev rest (find_by_identity_match data device st)
      | _ \<Rightarrow> find_by_identity_loop data dev rest st)"

definition eb_cb_find_by_identity ::
    "eb_user_data_t \<Rightarrow> eb_ptr \<Rightarrow> sdb_table option \<Rightarrow> eb_status_t \<Rightarrow> 'w eb_state \<Rightarrow> 'w eb_state option" where
  "eb_cb_find_by_identity data dev sdb status st =
     (let st = upd_find_identity data (\<lambda>r. r\<lparr>fi_pending := fi_pending r - 1\<rparr>) st in
      if status \<noteq> EB_OK then Some (upd_find_identity data (\<lambda>r. r\<lparr>fi_status := status\<rparr>) st)
      else do { table \<leftarrow> sdb; find_by_identity_loop data dev (tab_records table) st })"

definition run_sdb_callback ::
    "'w eb_env \<Rightarrow> sdb_callback_t \<Rightarrow> eb_user_data_t \<Rightarrow> eb_ptr \<Rightarrow> sdb_table option \<Rightarrow> eb_status_t \<Rightarrow>
     'w eb_state \<Rightarrow> 'w eb_state option" where
  "run_sdb_callback env cb data dev sdb status st =
     (case cb of
        Eb_cb_find_by_address \<Rightarrow> eb_cb_find_by_address data dev sdb status st
      | Eb_cb_find_by_identity \<Rightarrow> eb_cb_find_by_identity data dev sdb status st
      | User_sdb_callback n \<Rightarrow> env_sdb_callback env n data dev sdb status st)"

subsection \<open>The library's cycle callbacks\<close>

definition eb_sdb_decode ::
    "'w eb_env \<Rightarrow> eb_sdb_scan \<Rightarrow> eb_ptr \<Rightarrow> nat \<Rightarrow> eb_ptr \<Rightarrow> 'w eb_state \<Rightarrow> 'w eb_state option" where
  "eb_sdb_decode env scan device sz ops st = do {
     let cb = scan_cb scan;
     let data = scan_user_data scan;
     let bus_base = scan_bus_base scan;
     (rc, buf) \<leftarrow> eb_sdb_fill_block (st_user st) (st_mem st) (map (env_junk env) [0..<sz]) 0 ops;
     if rc \<noteq> 0 then run_sdb_callback env cb data device None EB_FAIL st
     else if 64 * unat (sdb_records (sdb_interconnect_decode bus_base (take 64 buf))) > sz
     then run_sdb_callback env cb data device None EB_FAIL st
     else run_sdb_callback env cb data device (Some (sdb_table_decode bus_base buf)) EB_OK st
   }"

text \<open>The buffer for \<open>x\<close> records of \<^verbatim>\<open>eb_sdb_decode\<close>\<open>x\<close>: the header and \<open>x\<close> blocks of 64 bytes. The
  smallest of the seven sizes that is larger than the number of devices is used.\<close>

definition eb_sdb_got_all ::
    "'w eb_env \<Rightarrow> eb_user_data_t \<Rightarrow> eb_ptr \<Rightarrow> eb_ptr \<Rightarrow> eb_status_t \<Rightarrow> 'w eb_state \<Rightarrow> 'w eb_state option" where
  "eb_sdb_got_all env mydata device ops status st = do {
     let scanp = ucast mydata;
     scan \<leftarrow> EB_SDB_SCAN (st_mem st) scanp;
     let cb = scan_cb scan;
     let data = scan_user_data scan;
     if status \<noteq> EB_OK then do {
       st \<leftarrow> on_mem (eb_free_sdb_scan scanp) st;
       run_sdb_callback env cb data device None status st
     } else do {
       (rc, header) \<leftarrow> eb_sdb_fill_block (st_user st) (st_mem st) (map (env_junk env) [0..<64]) 0 ops;
       if rc \<noteq> 1 then do {
         st \<leftarrow> on_mem (eb_free_sdb_scan scanp) st;
         run_sdb_callback env cb data device None EB_FAIL st
       } else do {
         let devices = (ucast (be_word (take 2 (drop 4 header))) - 1 :: u16);
         st \<leftarrow> (if devices < 4 then eb_sdb_decode env scan device (64 * 5) ops st
               else if devices < 8 then eb_sdb_decode env scan device (64 * 9) ops st
               else if devices < 16 then eb_sdb_decode env scan device (64 * 17) ops st
               else if devices < 32 then eb_sdb_decode env scan device (64 * 33) ops st
               else if devices < 64 then eb_sdb_decode env scan device (64 * 65) ops st
               else if devices < 128 then eb_sdb_decode env scan device (64 * 129) ops st
               else if devices < 256 then eb_sdb_decode env scan device (64 * 257) ops st
               else run_sdb_callback env cb data device None EB_OOM st);
         on_mem (eb_free_sdb_scan scanp) st
       }
     }
   }"

definition eb_sdb_got_header ::
    "'w eb_env \<Rightarrow> eb_user_data_t \<Rightarrow> eb_ptr \<Rightarrow> eb_ptr \<Rightarrow> eb_status_t \<Rightarrow> 'w eb_state \<Rightarrow> 'w eb_state option" where
  "eb_sdb_got_header env mydata device ops status st = do {
     let scanp = ucast mydata;
     scan \<leftarrow> EB_SDB_SCAN (st_mem st) scanp;
     let cb = scan_cb scan;
     let data = scan_user_data scan;
     width \<leftarrow> eb_device_width (st_mem st) device;
     let fail = (\<lambda>status st. do {
       st \<leftarrow> on_mem (eb_free_sdb_scan scanp) st;
       run_sdb_callback env cb data device None status st
     });
     if status \<noteq> EB_OK then fail status st
     else do {
       (rc, header) \<leftarrow> eb_sdb_fill_block (st_user st) (st_mem st) (map (env_junk env) [0..<64]) 0 ops;
       if rc \<noteq> 0 then fail EB_FAIL st
       else if ucast (be_word (take 4 header)) \<noteq> SDB_MAGIC then fail EB_FAIL st
       else do {
         ((status, cycle), st) \<leftarrow> alloc_mem (\<lambda>m. do {
            (status, cycle, m) \<leftarrow> eb_cycle_open device (ucast scanp) (Some Eb_sdb_got_all) m;
            Some ((status, cycle), m) }) st;
         if status \<noteq> EB_OK then fail status st
         else do {
           address \<leftarrow> eb_operation_address (st_mem st) ops;
           let records = (ucast (be_word (take 2 (drop 4 header))) :: u16);
           st \<leftarrow> on_mem (sdb_read_range cycle address (address + push_bit 6 (ucast records)) (stride_of width)) st;
           on_mem (eb_cycle_close_queue cycle) st
         }
       }
     }
   }"

text \<open>The loop of \<^verbatim>\<open>eb_sdb_got_header_ptr\<close> over its reads; \<open>None\<close> inside is a read that had an error.\<close>

partial_function (option) header_address_loop ::
    "(u64 \<Rightarrow> eb_data_t) \<Rightarrow> eb_memory \<Rightarrow> nat \<Rightarrow> eb_address_t \<Rightarrow> eb_ptr \<Rightarrow> eb_address_t option option" where
  "header_address_loop user m stride header_address ops =
     (if ops = EB_NULL then Some (Some header_address)
      else do {
        err \<leftarrow> eb_operation_had_error m ops;
        if err then Some None
        else do {
          data \<leftarrow> eb_operation_data user m ops;
          next \<leftarrow> eb_operation_next m ops;
          header_address_loop user m stride
            (push_bit (stride * 8) header_address + data) next
        }
      })"

definition eb_sdb_got_header_ptr ::
    "'w eb_env \<Rightarrow> eb_user_data_t \<Rightarrow> eb_ptr \<Rightarrow> eb_ptr \<Rightarrow> eb_status_t \<Rightarrow> 'w eb_state \<Rightarrow> 'w eb_state option" where
  "eb_sdb_got_header_ptr env mydata device ops status st = do {
     let scanp = ucast mydata;
     scan \<leftarrow> EB_SDB_SCAN (st_mem st) scanp;
     let cb = scan_cb scan;
     let data = scan_user_data scan;
     width \<leftarrow> eb_device_width (st_mem st) device;
     let fail = (\<lambda>status st. do {
       st \<leftarrow> on_mem (eb_free_sdb_scan scanp) st;
       run_sdb_callback env cb data device None status st
     });
     if status \<noteq> EB_OK then fail status st
     else do {
       found \<leftarrow> header_address_loop (st_user st) (st_mem st) (unat (width AND EB_DATAX)) 0 ops;
       case found of
         None \<Rightarrow> fail EB_FAIL st
       | Some header_address \<Rightarrow> do {
           ((status, cycle), st) \<leftarrow> alloc_mem (\<lambda>m. do {
              (status, cycle, m) \<leftarrow> eb_cycle_open device (ucast scanp) (Some Eb_sdb_got_header) m;
              Some ((status, cycle), m) }) st;
           if status \<noteq> EB_OK then fail status st
           else do {
             st \<leftarrow> on_mem (sdb_read_range cycle header_address (header_address + 32) (stride_of width)) st;
             on_mem (eb_cycle_close_queue cycle) st
           }
         }
     }
   }"

definition eb_block_f :: "eb_user_data_t \<Rightarrow> eb_status_t \<Rightarrow> 'w eb_state \<Rightarrow> 'w eb_state" where
  "eb_block_f user status st = st\<lparr>st_status := (st_status st)(user := status)\<rparr>"

text \<open>\<^verbatim>\<open>(*cycle->callback)(cycle->user_data, device, operation, status)\<close>.\<close>

definition run_callback ::
    "'w eb_env \<Rightarrow> eb_callback_t \<Rightarrow> eb_user_data_t \<Rightarrow> eb_ptr \<Rightarrow> eb_ptr \<Rightarrow> eb_status_t \<Rightarrow>
     'w eb_state \<Rightarrow> 'w eb_state option" where
  "run_callback env cb user device operation status st =
     (case cb of
        Eb_block_f \<Rightarrow> Some (eb_block_f user status st)
      | Eb_sdb_got_all \<Rightarrow> eb_sdb_got_all env user device operation status st
      | Eb_sdb_got_header \<Rightarrow> eb_sdb_got_header env user device operation status st
      | Eb_sdb_got_header_ptr \<Rightarrow> eb_sdb_got_header_ptr env user device operation status st
      | User_callback n \<Rightarrow> env_callback env n user device operation status st)"

section \<open>Reading the served bytes\<close>

lemma be_bytes_snoc: "be_bytes (Suc n) v = be_bytes n (drop_bit 8 v) @ [ucast v]"
proof (induction n)
  case (Suc n)
  then show ?case by (simp add: drop_bit_drop_bit add.commute)
qed simp

lemma eb_sdb_extract_loop_append:
  "eb_sdb_extract_loop bytes addr (is @ js) out =
     Option.bind (eb_sdb_extract_loop bytes addr is out) (eb_sdb_extract_loop bytes addr js)"
  by (induction "is" arbitrary: out) auto

lemma eb_sdb_extract_loop_upt:
  assumes "unat addr + n \<le> length bytes" and "length bytes < 2 ^ 64"
  shows "eb_sdb_extract_loop bytes addr [0..<n] 0 = Some (be_word (take n (drop (unat addr) bytes)))"
  using assms
proof (induction n)
  case (Suc n)
  have "n < 2 ^ 64" using Suc.prems by simp
  then have a: "unat (addr + of_nat n) = unat addr + n"
    using Suc.prems by (subst unat_plus_simple [THEN iffD1]) (simp_all add: unat_of_nat word_le_nat_alt unat_word_ariths)
  from Suc have "eb_sdb_extract_loop bytes addr [0..<n] 0 = Some (be_word (take n (drop (unat addr) bytes)))"
    by simp
  moreover have "take (Suc n) (drop (unat addr) bytes) =
      take n (drop (unat addr) bytes) @ [bytes ! (unat addr + n)]"
    using Suc.prems by (subst take_Suc_conv_app_nth) auto
  ultimately show ?case
    using Suc.prems a by (simp add: eb_sdb_extract_loop_append be_word_snoc)
qed simp

lemma eb_sdb_extract_bytes:
  assumes "unat addr + unat (w AND EB_DATAX) \<le> length bytes" and "length bytes < 2 ^ 64"
  shows "eb_sdb_extract bytes w addr = Some (be_word (take (unat (w AND EB_DATAX)) (drop (unat addr) bytes)))"
  unfolding eb_sdb_extract_def by (rule eb_sdb_extract_loop_upt [OF assms])

lemma length_component_bytes: "length (component_bytes c) = 37 + length (prod_name (comp_product c))"
  by (simp add: component_bytes_def product_bytes_def)

lemma length_device_bytes: "length (prod_name (comp_product (dv_component d))) = 19 \<Longrightarrow> length (device_bytes d) = 64"
  by (simp add: device_bytes_def length_component_bytes)

lemma length_interconnect_bytes: "length (interconnect_bytes (interconnect_of env n)) = 64"
  by (simp add: interconnect_bytes_def length_component_bytes interconnect_of_def software_bus_name_def)

abbreviation ha_chain :: "eb_memory \<Rightarrow> eb_ptr \<Rightarrow> eb_ptr list \<Rightarrow> bool" where
  "ha_chain m \<equiv> chain (ha_next_of m)"

definition ha_at :: "eb_memory \<Rightarrow> eb_ptr \<Rightarrow> eb_handler_address" where
  "ha_at m p = (case EB_HANDLER_ADDRESS m p of Some a \<Rightarrow> a | None \<Rightarrow> zero_handler_address)"

lemma ha_chain_Cons:
  "ha_chain m p (x # xs) \<longleftrightarrow> p = x \<and> x \<noteq> EB_NULL \<and> EB_HANDLER_ADDRESS m x = Some (ha_at m x) \<and>
     ha_chain m (ha_next (ha_at m x)) xs"
  by (auto simp: ha_next_of_def ha_at_def bind_eq_Some_conv)

lemma eb_sdb_count_chain: "ha_chain m p xs \<Longrightarrow> eb_sdb_count m p n = Some (n + int (length xs))"
proof (induction xs arbitrary: p n)
  case (Cons x xs)
  then show ?case unfolding ha_chain_Cons by (subst eb_sdb_count.simps) simp
qed (simp add: eb_sdb_count.simps)

lemma eb_sdb_locate_chain:
  "ha_chain m p xs \<Longrightarrow>
   eb_sdb_locate m p (int (Suc n)) = Some (if n < length xs then xs ! n else EB_NULL)"
proof (induction xs arbitrary: p n)
  case (Cons x xs)
  then show ?case
    unfolding ha_chain_Cons
    by (subst eb_sdb_locate.simps) (cases n; simp add: algebra_simps)
qed (simp add: eb_sdb_locate.simps)

text \<open>The image of the whole table.\<close>

definition served_device :: "'w eb_env \<Rightarrow> eb_memory \<Rightarrow> eb_ptr \<Rightarrow> sdb_device" where
  "served_device env m h = presented (env_device env (ha_device (ha_at m h)))"

definition sdb_image :: "'w eb_env \<Rightarrow> eb_memory \<Rightarrow> eb_ptr list \<Rightarrow> u8 list" where
  "sdb_image env m hs = interconnect_bytes (interconnect_of env (int (length hs))) @
     concat (map (\<lambda>h. device_bytes (served_device env m h)) hs)"

definition names_ok :: "'w eb_env \<Rightarrow> eb_memory \<Rightarrow> eb_ptr list \<Rightarrow> bool" where
  "names_ok env m hs \<longleftrightarrow>
     list_all (\<lambda>h. length (prod_name (comp_product (dv_component (env_device env (ha_device (ha_at m h)))))) = 19) hs"

lemma length_served: "names_ok env m hs \<Longrightarrow> h \<in> set hs \<Longrightarrow> length (device_bytes (served_device env m h)) = 64"
  by (rule length_device_bytes) (simp add: served_device_def presented_def names_ok_def list_all_iff)

lemma take_drop_concat_blocks:
  assumes "\<forall>b \<in> set bs. length b = l" and "n < length bs" and "a + k \<le> l"
  shows "take k (drop (l * n + a) (concat bs)) = take k (drop a (bs ! n))"
  using assms(1,2)
proof (induction bs arbitrary: n)
  case (Cons b bs)
  show ?case
  proof (cases n)
    case 0
    with Cons.prems assms(3) show ?thesis by simp
  next
    case (Suc n')
    with Cons show ?thesis by (simp add: add.assoc)
  qed
qed simp

lemma sdb_split:
  fixes addr :: u64
  assumes "unat addr = 64 * k + a" and "a < 64" and "k < 2 ^ 31"
  shows "sint (ucast (drop_bit 6 addr) :: u32) = int k" and "unat (addr AND 0x3f) = a"
proof -
  have "unat (drop_bit 6 addr) = drop_bit 6 (64 * k + a)" by (simp only: unat_drop_bit_eq assms(1))
  also have "\<dots> = k" using assms(2) by (simp add: drop_bit_eq_div)
  finally have "unat (drop_bit 6 addr) = k" .
  then have "(ucast (drop_bit 6 addr) :: u32) = of_nat k" by (metis of_nat_unat)
  then show "sint (ucast (drop_bit 6 addr) :: u32) = int k"
    using assms(3) by (simp add: signed_of_nat signed_take_bit_int_eq_self)
  have "(0x3f :: u64) = mask 6" by (simp add: mask_eq_exp_minus_1)
  then have "addr AND 0x3f = take_bit 6 addr" by (simp add: take_bit_eq_mask)
  then have "unat (addr AND 0x3f) = take_bit 6 (64 * k + a)" by (simp only: unsigned_take_bit_eq assms(1))
  then show "unat (addr AND 0x3f) = a" using assms(2) by (simp add: take_bit_eq_mod)
qed

text \<open>An access that stays inside one 64-byte record never faults and returns the bytes of the
  image, big-endian; behind the last record it returns 0.\<close>

lemma eb_sdb_served:
  assumes so: "EB_SOCKET m s = Some so" and ch: "ha_chain m (so_first_handler so) hs"
    and names: "names_ok env m hs"
    and addr: "unat addr = 64 * k + a" "a + unat (w AND EB_DATAX) \<le> 64" "a < 64" "k < 2 ^ 31"
  shows "eb_sdb env s w addr m = Some
     (if k \<le> length hs then be_word (take (unat (w AND EB_DATAX)) (drop (unat addr) (sdb_image env m hs))) else 0)"
proof (cases "k = 0")
  case True
  then have "addr < 0x40" using addr by (simp add: word_less_nat_alt)
  moreover have "eb_sdb_extract (interconnect_bytes (interconnect_of env (int (length hs)))) w addr = Some
      (be_word (take (unat (w AND EB_DATAX)) (drop (unat addr) (interconnect_bytes (interconnect_of env (int (length hs)))))))"
    by (rule eb_sdb_extract_bytes) (use addr True in \<open>simp_all add: length_interconnect_bytes\<close>)
  ultimately show ?thesis
    using so eb_sdb_count_chain [OF ch, of 0] True addr
    by (simp add: eb_sdb_def eb_sdb_interconnect_def sdb_image_def length_interconnect_bytes)
next
  case False
  then obtain n where n: "k = Suc n" by (cases k) auto
  have ge: "\<not> addr < 0x40" using addr n by (simp add: word_less_nat_alt)
  note sp = sdb_split [OF addr(1,3,4)]
  note loc = eb_sdb_locate_chain [OF ch, of n, folded n]
  show ?thesis
  proof (cases "n < length hs")
    case True
    let ?h = "hs ! n"
    have hin: "?h \<in> set hs" using True by simp
    then have "ha_next_of m ?h \<noteq> None" and nn: "?h \<noteq> EB_NULL"
      using ch chain_defined chain_no_NULL by fastforce+
    then have ha: "EB_HANDLER_ADDRESS m ?h = Some (ha_at m ?h)"
      by (auto simp: ha_next_of_def ha_at_def split: option.splits bind_splits)
    have len: "length (device_bytes (served_device env m ?h)) = 64" by (rule length_served [OF names hin])
    have "eb_sdb_extract (device_bytes (served_device env m ?h)) w (addr AND 0x3f) = Some
        (be_word (take (unat (w AND EB_DATAX)) (drop a (device_bytes (served_device env m ?h)))))"
      using eb_sdb_extract_bytes [of "addr AND 0x3f" w "device_bytes (served_device env m ?h)"] len sp(2) addr(2)
      by simp
    moreover have "take (unat (w AND EB_DATAX)) (drop (unat addr) (sdb_image env m hs)) =
        take (unat (w AND EB_DATAX)) (drop a (device_bytes (served_device env m ?h)))"
    proof -
      have "drop (unat addr) (sdb_image env m hs) =
          drop (64 * n + a) (concat (map (\<lambda>h. device_bytes (served_device env m h)) hs))"
        by (simp add: sdb_image_def addr(1) n length_interconnect_bytes)
      then show ?thesis
        using take_drop_concat_blocks [of "map (\<lambda>h. device_bytes (served_device env m h)) hs" 64 n a]
          length_served [OF names] True addr(2) by simp
    qed
    ultimately show ?thesis
      using so ge sp loc True nn ha n
      by (simp add: eb_sdb_def eb_sdb_device_def served_device_def Let_def)
  next
    case False
    then show ?thesis using so ge sp loc n by (simp add: eb_sdb_def Let_def)
  qed
qed

section \<open>Decoding what is served\<close>

lemma be_dec64 [simp]: "be_word (be_bytes 8 v) = v"
  by (simp add: be_word_be_bytes take_bit_word_eq_self)

lemma be_dec32 [simp]: "ucast (be_word (be_bytes 4 (ucast (x :: u32)))) = x"
proof -
  have "be_word (be_bytes 4 (ucast x)) = take_bit 32 (ucast x :: u64)" by (simp add: be_word_be_bytes)
  then show ?thesis by (intro bit_word_eqI) (auto simp: bit_simps)
qed

lemma be_dec16 [simp]: "ucast (be_word (be_bytes 2 (ucast (x :: u16)))) = x"
proof -
  have "be_word (be_bytes 2 (ucast x)) = take_bit 16 (ucast x :: u64)" by (simp add: be_word_be_bytes)
  then show ?thesis by (intro bit_word_eqI) (auto simp: bit_simps)
qed

text \<open>Decoding turns bus-relative addresses into absolute ones.\<close>

definition shift_component :: "eb_address_t \<Rightarrow> sdb_component \<Rightarrow> sdb_component" where
  "shift_component base c = c\<lparr>addr_first := addr_first c + base, addr_last := addr_last c + base\<rparr>"

lemma product_decode_bytes:
  "length (prod_name p) = 19 \<Longrightarrow> eb_sdb_product_decode (product_bytes p) = p"
  by (simp add: eb_sdb_product_decode_def product_bytes_def nth_append)

lemma component_decode_bytes:
  "length (prod_name (comp_product c)) = 19 \<Longrightarrow>
   eb_sdb_component_decode base (component_bytes c) = shift_component base c"
  by (simp add: eb_sdb_component_decode_def component_bytes_def product_decode_bytes shift_component_def)

lemma interconnect_decode_bytes:
  "length (prod_name (comp_product (ic_component i))) = 19 \<Longrightarrow>
   sdb_interconnect_decode base (interconnect_bytes i) = i\<lparr>ic_component := shift_component base (ic_component i)\<rparr>"
  by (simp add: sdb_interconnect_decode_def interconnect_bytes_def component_decode_bytes nth_append)

lemma component_bytes_type:
  "length (prod_name (comp_product c)) = 19 \<Longrightarrow> component_bytes c ! 55 = prod_record_type (comp_product c)"
  by (simp add: component_bytes_def product_bytes_def nth_append)

lemma device_decode_bytes:
  assumes "length (prod_name (comp_product (dv_component d))) = 19"
    and "prod_record_type (comp_product (dv_component d)) = sdb_record_device"
  shows "sdb_record_decode base (device_bytes d) =
     Sdb_device_rec (d\<lparr>dv_component := shift_component base (dv_component d)\<rparr>)"
proof -
  have "device_bytes d ! 63 = sdb_record_device"
    using assms by (simp add: device_bytes_def nth_append component_bytes_type)
  then show ?thesis
    using assms(1) by (simp add: sdb_record_decode_def device_bytes_def component_decode_bytes nth_append)
qed

lemma sdb_image_decode:
  assumes names: "names_ok env m hs" and len: "length hs < 65535"
  shows "sdb_table_decode base (sdb_image env m hs @ rest) =
    \<lparr>tab_interconnect = (interconnect_of env (int (length hs)))
        \<lparr>ic_component := shift_component base (ic_component (interconnect_of env (int (length hs))))\<rparr>,
     tab_records = map (\<lambda>h. Sdb_device_rec ((served_device env m h)
        \<lparr>dv_component := shift_component base (dv_component (served_device env m h))\<rparr>)) hs\<rparr>"
proof -
  let ?ic = "interconnect_of env (int (length hs))" and ?blocks = "map (\<lambda>h. device_bytes (served_device env m h)) hs"
  let ?buf = "sdb_image env m hs @ rest"
  have t: "take 64 ?buf = interconnect_bytes ?ic" by (simp add: sdb_image_def length_interconnect_bytes)
  have n: "length (prod_name (comp_product (ic_component ?ic))) = 19"
    by (simp add: interconnect_of_def software_bus_name_def)
  have "sdb_records ?ic = of_nat (Suc (length hs))" by (simp add: interconnect_of_def)
  then have r: "unat (sdb_records ?ic) - 1 = length hs"
    using len by (simp only: unat_of_nat) (simp add: take_bit_nat_eq_self)
  have r': "unat (sdb_records (?ic\<lparr>ic_component := c\<rparr>)) - 1 = length hs" for c using r by simp
  have b: "take 64 (drop (64 * Suc i) ?buf) = device_bytes (served_device env m (hs ! i))" if "i < length hs" for i
  proof -
    have l: "\<forall>x \<in> set ?blocks. length x = 64" using length_served [OF names] by auto
    have "take 64 (drop (64 * i + 0) (concat (?blocks @ [rest]))) = take 64 (drop 0 ((?blocks @ [rest]) ! i))"
    proof -
      have "drop (64 * i + 0) (concat ?blocks @ rest) = drop (64 * i) (concat ?blocks) @ drop (64 * i - length (concat ?blocks)) rest"
        by simp
      moreover have "64 \<le> length (drop (64 * i) (concat ?blocks))"
        using l that by (simp add: length_concat sum_list_triv comp_def cong: map_cong)
      ultimately show ?thesis
        using take_drop_concat_blocks [OF l, of i 0 64] that by (simp add: nth_append)
    qed
    then show ?thesis
      using that length_served [OF names, of "hs ! i"]
      by (simp add: sdb_image_def length_interconnect_bytes nth_append)
  qed
  have "map (\<lambda>i. sdb_record_decode base (take 64 (drop (64 * Suc i) ?buf))) [0..<length hs] =
      map (\<lambda>i. Sdb_device_rec ((served_device env m (hs ! i))
        \<lparr>dv_component := shift_component base (dv_component (served_device env m (hs ! i)))\<rparr>)) [0..<length hs]"
    (is "map ?f _ = map ?g _")
  proof (rule map_cong [OF refl])
    fix i assume "i \<in> set [0..<length hs]"
    then have i: "i < length hs" by simp
    then have "length (prod_name (comp_product (dv_component (served_device env m (hs ! i))))) = 19"
      and "prod_record_type (comp_product (dv_component (served_device env m (hs ! i)))) = sdb_record_device"
      using names by (auto simp: served_device_def presented_def names_ok_def list_all_length)
    then show "?f i = ?g i" using b [OF i] by (simp only: device_decode_bytes)
  qed
  also have "\<dots> = map (\<lambda>h. Sdb_device_rec ((served_device env m h)
        \<lparr>dv_component := shift_component base (dv_component (served_device env m h))\<rparr>)) hs"
    by (rule nth_equalityI) auto
  finally show ?thesis
    unfolding sdb_table_decode_def Let_def t interconnect_decode_bytes [OF n]
    by (simp only: r')
qed

text \<open>Reading any region of the image in words of \<open>w\<close> bytes gives the region back.\<close>

lemma be_word_bits: "length bs \<le> 8 \<Longrightarrow> bit (be_word bs) k \<Longrightarrow> k < 8 * length bs"
proof (induction bs arbitrary: k rule: rev_induct)
  case (snoc b bs)
  show ?case
  proof (cases "k < 8")
    case False
    with snoc.prems have "bit (be_word bs) (k - 8)" by (auto simp: be_word_snoc bit_simps dest: bit_imp_le_length)
    with snoc.IH [of "k - 8"] snoc.prems False show ?thesis by auto
  qed simp
qed (simp add: be_word_def)

lemma be_bytes_be_word: "length bs \<le> 8 \<Longrightarrow> be_bytes (length bs) (be_word bs) = bs"
proof (induction bs rule: rev_induct)
  case (snoc b bs)
  have hi: "k < 56" if "bit (be_word bs) k" for k
    using be_word_bits [OF _ that] snoc.prems by simp
  have "drop_bit 8 (be_word (bs @ [b])) = be_word bs"
  proof (rule bit_word_eqI)
    fix k assume "k < LENGTH(64)"
    show "bit (drop_bit 8 (be_word (bs @ [b]))) k = bit (be_word bs) k"
      using hi [of k] by (auto simp: be_word_snoc bit_simps dest: bit_imp_le_length)
  qed
  moreover have "ucast (be_word (bs @ [b])) = b"
    unfolding be_word_snoc by (rule bit_word_eqI) (auto simp: bit_simps)
  ultimately show ?case
    using snoc by (simp only: length_append_singleton be_bytes_snoc)
qed simp

lemma words_of_blocks:
  assumes "n * c \<le> length bs" and "n \<le> 8"
  shows "concat (map (\<lambda>i. be_bytes n (be_word (take n (drop (n * i) bs)))) [0..<c]) = take (n * c) bs"
  using assms
proof (induction c)
  case (Suc c)
  have "length (take n (drop (n * c) bs)) = n" using Suc.prems by simp
  then have "be_bytes n (be_word (take n (drop (n * c) bs))) = take n (drop (n * c) bs)"
    using be_bytes_be_word [of "take n (drop (n * c) bs)"] Suc.prems(2) by simp
  then show ?case using Suc by (simp add: take_add [symmetric] add.commute)
qed simp

section \<open>A completed scan\<close>

lemma fill_word_bytes:
  "pos + n \<le> length buf \<Longrightarrow> fill_word n pos v buf = take pos buf @ be_bytes n v @ drop (pos + n) buf"
proof (induction n arbitrary: v buf)
  case (Suc n)
  then have lt: "pos + n < length buf" by simp
  have "(v AND 0xFF) = take_bit 8 v" by (simp add: take_bit_eq_mask mask_eq_exp_minus_1)
  then have u: "ucast (v AND 0xFF) = (ucast v :: u8)" by (simp add: unsigned_take_bit_eq) (intro bit_word_eqI; simp add: bit_simps)
  have "drop (pos + n) (buf[pos + n := x]) = x # drop (pos + Suc n) buf" for x
    using lt by (simp add: drop_update_swap Cons_nth_drop_Suc [symmetric])
  then show ?case using Suc.IH [of "buf[pos + n := ucast v]" "drop_bit 8 v"] Suc.prems
    by (simp only: fill_word.simps u be_bytes_snoc) simp
qed simp

text \<open>\<open>answered\<close>: every read of a list succeeded, in words of \<open>n\<close> bytes, and brought the datum \<open>d\<close>.\<close>

definition answered :: "(u64 \<Rightarrow> eb_data_t) \<Rightarrow> eb_memory \<Rightarrow> nat \<Rightarrow> eb_ptr list \<Rightarrow> eb_data_t list \<Rightarrow> bool" where
  "answered user m n xs ds \<longleftrightarrow> list_all2 (\<lambda>x d. eb_operation_had_error m x = Some False \<and>
     map_option (\<lambda>f. unat (f AND EB_DATAX)) (eb_operation_format m x) = Some n \<and>
     eb_operation_data user m x = Some d) xs ds"

lemma fill_block_chain:
  assumes "op_chain m p xs" and "answered user m n xs ds"
    and "pos \<le> length buf" and "n dvd length buf - pos" and "0 < n"
  shows "eb_sdb_fill_block user m buf pos p =
    Some (if pos + n * length ds \<le> length buf then 0 else 1,
      take pos buf @ take (length buf - pos) (concat (map (be_bytes n) ds)) @ drop (pos + n * length ds) buf)"
  using assms
proof (induction xs arbitrary: p ds buf pos)
  case Nil
  then show ?case by (simp add: eb_sdb_fill_block.simps answered_def)
next
  case (Cons x xs)
  obtain d ds' where ds: "ds = d # ds'" "answered user m n xs ds'"
    using Cons.prems(2) by (auto simp: answered_def list_all2_Cons1)
  have x: "p = x" "x \<noteq> EB_NULL" "eb_operation_next m x = Some (op_next (op_at m x))"
      "op_chain m (op_next (op_at m x)) xs"
    using Cons.prems(1) unfolding op_chain_Cons by (simp_all add: eb_operation_next_Some)
  obtain f where op: "eb_operation_had_error m x = Some False" "eb_operation_format m x = Some f"
      "unat (f AND EB_DATAX) = n" "eb_operation_data user m x = Some d"
    using Cons.prems(2) by (auto simp: ds(1) answered_def)
  show ?case
  proof (cases "length buf - pos < n")
    case True
    then have "length buf = pos" using Cons.prems(3,4) by (auto dest: dvd_imp_le)
    with op x True Cons.prems(5) show ?thesis
      by (subst eb_sdb_fill_block.simps) (simp add: ds(1) Let_def)
  next
    case False
    let ?buf = "take pos buf @ be_bytes n d @ drop (pos + n) buf"
    have len: "length ?buf = length buf" "pos + n \<le> length buf" using False Cons.prems(3) by simp_all
    have "n dvd length buf - (pos + n)"
      using Cons.prems(4) False by (simp add: dvd_diff_nat diff_diff_left [symmetric] del: diff_diff_left)
    with Cons.IH [OF x(4) ds(2), of "pos + n" ?buf] len Cons.prems(5)
    have "eb_sdb_fill_block user m ?buf (pos + n) (op_next (op_at m x)) =
      Some (if pos + n + n * length ds' \<le> length buf then 0 else 1,
        take (pos + n) ?buf @ take (length buf - (pos + n)) (concat (map (be_bytes n) ds')) @
        drop (pos + n + n * length ds') ?buf)" by simp
    moreover have "eb_sdb_fill_block user m buf pos p = eb_sdb_fill_block user m ?buf (pos + n) (op_next (op_at m x))"
      using op x False fill_word_bytes [OF len(2), of d]
      by (subst eb_sdb_fill_block.simps) (simp add: Let_def)
    moreover have "take (length buf - pos) (be_bytes n d @ bs) = be_bytes n d @ take (length buf - (pos + n)) bs" for bs
      using len(2) by (simp add: take_append)
    ultimately show ?thesis using len(2) by (simp add: ds(1) ac_simps)
  qed
qed

lemma eb_sdb_word:
  assumes "EB_SOCKET m s = Some so" and "ha_chain m (so_first_handler so) hs"
    and "names_ok env m hs" and "length hs < 65535"
    and "w \<in> {EB_DATA8, EB_DATA16, EB_DATA32, EB_DATA64}" and i: "i < 64 * (length hs + 1) div unat w"
  shows "eb_sdb env s w (of_nat (i * unat w)) m =
    Some (be_word (take (unat w) (drop (unat w * i) (sdb_image env m hs))))"
proof -
  let ?n = "unat w" and ?img = "sdb_image env m hs"
  have n: "?n \<in> {1, 2, 4, 8}" and wn: "unat (w AND EB_DATAX) = ?n" using assms(5) by auto
  obtain q where q: "64 = ?n * q" "0 < q" using n that [of 64] that [of 32] that [of 16] that [of 8] by auto
  have "i < q * (length hs + 1)" using i n by (subst (asm) q(1)) (auto simp: mult.assoc)
  then have "?n * i < ?n * (q * (length hs + 1))" using n by auto
  then have lt: "i * ?n < 64 * (length hs + 1)" unfolding mult.assoc [symmetric] q(1) [symmetric] by (simp add: mult.commute)
  then have u: "unat (of_nat (i * ?n) :: u64) = i * ?n" using assms(4) by (subst unat_of_nat) (simp add: take_bit_nat_eq_self)
  let ?k = "i * ?n div 64" and ?a = "i * ?n mod 64"
  have "?a = ?n * i mod (?n * q)" by (metis mult.commute q(1))
  then have "?a = ?n * (i mod q)" by (simp only: mult_mod_right)
  moreover have "?n * (i mod q) + ?n \<le> ?n * q"
    using mod_less_divisor [OF q(2), of i] by (metis Suc_leI mult_Suc_right mult_le_mono2 add.commute)
  ultimately have "?a + ?n \<le> 64" by (simp only: q(1) [symmetric])
  then have "eb_sdb env s w (of_nat (i * ?n)) m = Some
      (if ?k \<le> length hs then be_word (take ?n (drop (i * ?n) ?img)) else 0)"
    using eb_sdb_served [OF assms(1-3), of "of_nat (i * ?n)" ?k ?a w] u wn lt assms(4) by simp
  moreover have "?k \<le> length hs" using lt by (simp add: less_mult_imp_div_less less_Suc_eq_le [symmetric])
  ultimately show ?thesis by (simp add: mult.commute)
qed

lemma length_sdb_image: "names_ok env m hs \<Longrightarrow> length (sdb_image env m hs) = 64 * (length hs + 1)"
proof -
  assume "names_ok env m hs"
  note l = length_served [OF this]
  show ?thesis
    using l by (simp add: sdb_image_def length_interconnect_bytes length_concat comp_def sum_list_triv cong: map_cong)
qed

text \<open>The words of the image of a table, in words of \<open>n\<close> bytes.\<close>

definition sdb_words :: "'w eb_env \<Rightarrow> eb_memory \<Rightarrow> eb_ptr list \<Rightarrow> nat \<Rightarrow> eb_data_t list" where
  "sdb_words env m hs n =
     map (\<lambda>i. be_word (take n (drop (n * i) (sdb_image env m hs)))) [0..<64 * (length hs + 1) div n]"

lemma sdb_words_image:
  assumes "names_ok env m hs" and "n \<in> {1, 2, 4, 8}"
  shows "concat (map (be_bytes n) (sdb_words env m hs n)) = sdb_image env m hs"
    and "n * length (sdb_words env m hs n) = 64 * (length hs + 1)"
proof -
  show l: "n * length (sdb_words env m hs n) = 64 * (length hs + 1)"
    using assms(2) unfolding sdb_words_def length_map length_upt diff_zero
    by (intro dvd_mult_div_cancel dvd_mult2) auto
  then show "concat (map (be_bytes n) (sdb_words env m hs n)) = sdb_image env m hs"
    using words_of_blocks [of n "64 * (length hs + 1) div n" "sdb_image env m hs"] length_sdb_image [OF assms(1)] assms(2)
    by (auto simp: sdb_words_def comp_def)
qed

lemma image_head:
  assumes "length hs < 65535"
  shows "ucast (be_word (take 2 (drop 4 (take 64 (sdb_image env m hs))))) = (of_nat (Suc (length hs)) :: u16)"
    and "ucast (be_word (take 4 (take 64 (sdb_image env m hs)))) = SDB_MAGIC"
    and "unat (sdb_records (sdb_interconnect_decode base (take 64 (sdb_image env m hs)))) = Suc (length hs)"
proof -
  have t: "take 64 (sdb_image env m hs) = interconnect_bytes (interconnect_of env (int (length hs)))"
    by (simp add: sdb_image_def length_interconnect_bytes)
  then show r: "ucast (be_word (take 2 (drop 4 (take 64 (sdb_image env m hs))))) = (of_nat (Suc (length hs)) :: u16)"
    by (simp add: interconnect_bytes_def interconnect_of_def)
  show "ucast (be_word (take 4 (take 64 (sdb_image env m hs)))) = SDB_MAGIC"
    using be_dec32 [of SDB_MAGIC] unfolding t by (simp add: interconnect_bytes_def interconnect_of_def)
  show "unat (sdb_records (sdb_interconnect_decode base (take 64 (sdb_image env m hs)))) = Suc (length hs)"
    using r assms by (simp add: sdb_interconnect_decode_def) (simp only: unat_of_nat of_nat_Suc [symmetric]; simp add: take_bit_nat_eq_self)
qed

text \<open>The table a scan of the bus with the devices \<open>hs\<close> has to deliver: the header of the bus and the
  descriptors as their owners gave them, in list order, moved by the bus base.\<close>

definition scanned_table :: "'w eb_env \<Rightarrow> eb_memory \<Rightarrow> eb_ptr list \<Rightarrow> eb_address_t \<Rightarrow> sdb_table" where
  "scanned_table env m hs base =
    \<lparr>tab_interconnect = (interconnect_of env (int (length hs)))
        \<lparr>ic_component := shift_component base (ic_component (interconnect_of env (int (length hs))))\<rparr>,
     tab_records = map (\<lambda>h. Sdb_device_rec ((served_device env m h)
        \<lparr>dv_component := shift_component base (dv_component (served_device env m h))\<rparr>)) hs\<rparr>"

lemma eb_sdb_decode_image:
  assumes "names_ok senv sm hs" and "length hs < 65535" and n: "n \<in> {1, 2, 4, 8}"
    and "op_chain (st_mem st) ops xs" and "answered (st_user st) (st_mem st) n xs (sdb_words senv sm hs n)"
    and sz: "64 * (length hs + 1) \<le> sz" "64 dvd sz"
  shows "eb_sdb_decode env scan device sz ops st =
    run_sdb_callback env (scan_cb scan) (scan_user_data scan) device
      (Some (scanned_table senv sm hs (scan_bus_base scan))) EB_OK st"
proof -
  note img = sdb_words_image [OF assms(1) n]
  let ?img = "sdb_image senv sm hs" and ?junk = "map (env_junk env) [0..<sz]"
  have "n dvd sz" using n sz(2) by (auto intro: dvd_trans)
  then have f: "eb_sdb_fill_block (st_user st) (st_mem st) ?junk 0 ops = Some (0, ?img @ drop (64 * (length hs + 1)) ?junk)"
    using fill_block_chain [OF assms(4,5), of 0 ?junk] n sz(1) length_sdb_image [OF assms(1)] img by auto
  have t: "take 64 (?img @ bs) = take 64 ?img" for bs using length_sdb_image [OF assms(1)] by simp
  show ?thesis
    using sz(1) image_head(3) [OF assms(2), of "scan_bus_base scan" senv sm]
    by (simp add: eb_sdb_decode_def f t Let_def sdb_image_decode [OF assms(1,2)] scanned_table_def del: take_append)
qed

section \<open>Properties\<close>

text \<open>C7: scanning a software bus gives back what was attached to it. When the reads of the last
  step of a scan, in any bus width and over the whole table, have brought the words that \<^verbatim>\<open>eb_sdb\<close> serves
  on the other side, \<^verbatim>\<open>eb_sdb_got_all\<close> calls the scan's callback exactly once. With 1 to 255 devices the callback gets the
  interconnect header and exactly the descriptors of the attached devices, in list order, with their record type set and
  their addresses moved by the bus base; with more it gets \<^verbatim>\<open>EB_OOM\<close>, and an empty bus is reported as
  \<^verbatim>\<open>EB_FAIL\<close>. The scan object is released in every case.\<close>

theorem sdb_scan_roundtrip:
  assumes slave: "EB_SOCKET sm s = Some so" "ha_chain sm (so_first_handler so) hs" "names_ok senv sm hs"
    "length hs < 65535"
    and w: "w \<in> {EB_DATA8, EB_DATA16, EB_DATA32, EB_DATA64}"
    and scan: "EB_SDB_SCAN (st_mem st) scanp = Some scan" and ops: "op_chain (st_mem st) ops xs"
    and len: "length xs = 64 * (length hs + 1) div unat w"
    and ok: "\<forall>i < length xs. eb_operation_had_error (st_mem st) (xs ! i) = Some False \<and>
      eb_operation_format (st_mem st) (xs ! i) = Some w \<and>
      eb_operation_data (st_user st) (st_mem st) (xs ! i) = eb_sdb senv s w (of_nat (i * unat w)) sm"
  shows "eb_sdb_got_all env (ucast scanp) device ops EB_OK st =
    (if hs = [] then do {
       st \<leftarrow> on_mem (eb_free_sdb_scan scanp) st;
       run_sdb_callback env (scan_cb scan) (scan_user_data scan) device None EB_FAIL st
     } else do {
       st \<leftarrow> (if length hs < 256
             then run_sdb_callback env (scan_cb scan) (scan_user_data scan) device
                    (Some (scanned_table senv sm hs (scan_bus_base scan))) EB_OK st
             else run_sdb_callback env (scan_cb scan) (scan_user_data scan) device None EB_OOM st);
       on_mem (eb_free_sdb_scan scanp) st
     })"
proof -
  let ?n = "unat w" and ?img = "sdb_image senv sm hs" and ?junk = "map (env_junk env) [0..<64]"
  have n: "?n \<in> {1, 2, 4, 8}" and wn: "w AND EB_DATAX = w" using w by auto
  note img = sdb_words_image [OF slave(3) n] and li = length_sdb_image [OF slave(3)]
  have ans: "answered (st_user st) (st_mem st) ?n xs (sdb_words senv sm hs ?n)"
    unfolding answered_def list_all2_conv_all_nth
    using ok eb_sdb_word [OF slave w] len wn by (auto simp: sdb_words_def)
  have "n dvd 64 \<and> 0 < n" if "n \<in> {1, 2, 4, 8}" for n :: nat using that by auto
  from this [OF n] have f: "eb_sdb_fill_block (st_user st) (st_mem st) ?junk 0 ops =
      Some (if hs = [] then 0 else 1, take 64 ?img)"
    using fill_block_chain [OF ops ans, of 0 ?junk] by (simp add: li img)
  have sc: "(ucast (ucast scanp :: u64) :: eb_ptr) = scanp" by (intro bit_word_eqI) (simp add: bit_simps)
  have d: "(of_nat (Suc (length hs)) - 1 :: u16) = of_nat (length hs)" by simp
  have lt: "(of_nat (length hs) :: u16) < of_nat k \<longleftrightarrow> length hs < k" if "k < 65536" for k
    using that slave(4) by (simp only: word_less_nat_alt unat_of_nat) (simp add: take_bit_nat_eq_self)
  note lts = lt [of 4] lt [of 8] lt [of 16] lt [of 32] lt [of 64] lt [of 128] lt [of 256]
  note dec = eb_sdb_decode_image [OF slave(3,4) n ops ans]
  show ?thesis
    using lts
    by (auto simp: eb_sdb_got_all_def sc scan f Let_def image_head(1) [OF slave(4)] d dec simp del: of_nat_Suc)
qed

text \<open>A socket with one attached device.\<close>

definition demo_sdb_device :: sdb_device where
  "demo_sdb_device = \<lparr>abi_class = 0, abi_ver_major = 1, abi_ver_minor = 0, bus_specific = 0,
     dv_component = \<lparr>addr_first = 0x10000, addr_last = 0x1FFFF,
       comp_product = \<lparr>vendor_id = 0x651, device_id = 0x42, prod_version = 1, prod_date = 0x20120501,
         prod_name = replicate 19 0, prod_record_type = 1\<rparr>\<rparr>\<rparr>"

definition demo_env :: "unit eb_env" where
  "demo_env = \<lparr>env_transports = [], env_junk = (\<lambda>_. 0), env_version = 1, env_date = 1,
     env_device = (\<lambda>_. demo_sdb_device), env_callback = (\<lambda>_ _ _ _ _ st. Some st),
     env_sdb_callback = (\<lambda>_ _ _ _ _ st. Some st), env_read = (\<lambda>_ _ _ _ st. Some (0, 0, st)),
     env_write = (\<lambda>_ _ _ _ _ st. Some (0, st))\<rparr>"

definition demo_bus_heap :: eb_memory where
  "demo_bus_heap = heap_of [Socket_item (zero_socket\<lparr>so_first_handler := 129\<rparr>),
     Handler_address_item (zero_handler_address\<lparr>ha_next := EB_NULL\<rparr>)]"

lemma demo_bus:
  "EB_SOCKET demo_bus_heap 128 = Some (zero_socket\<lparr>so_first_handler := 129\<rparr>)"
  "ha_chain demo_bus_heap 129 [129]"
  "names_ok demo_env demo_bus_heap [129]"
  by (simp_all add: demo_bus_heap_def heap_of_def EB_SOCKET_def ha_next_of_def EB_HANDLER_ADDRESS_def
      eb_item_def in_array_def names_ok_def demo_env_def demo_sdb_device_def EB_NULL_def)

text \<open>A master whose sixteen reads of 64 bits were answered by the socket above.\<close>

definition demo_scan_heap :: eb_memory where
  "demo_scan_heap = heap_of (Sdb_scan_item zero_sdb_scan #
     map (\<lambda>(i, d). Operation_item (zero_operation\<lparr>op_un_value := d, op_flags := EB_OP_READ_VAL,
        op_format := EB_DATA64, op_next := (if i = 15 then EB_NULL else of_nat (130 + i))\<rparr>))
       (enumerate 0 (sdb_words demo_env demo_bus_heap [129] 8)))"

definition demo_scan_state :: "sdb_table option eb_state" where
  "demo_scan_state = \<lparr>st_mem = demo_scan_heap, st_user = (\<lambda>_. 0), st_status = (\<lambda>_. 0),
     st_find_address = (\<lambda>_. \<lparr>fa_address = 0, fa_output = [], fa_status = 0\<rparr>),
     st_find_identity = (\<lambda>_. \<lparr>fi_vendor_id = 0, fi_output = [], fi_device_id = 0, fi_size = 0, fi_fill = 0,
       fi_pending = 0, fi_status = 0\<rparr>), st_world = None\<rparr>"

definition demo_scan_env :: "sdb_table option eb_env" where
  "demo_scan_env = \<lparr>env_transports = [], env_junk = (\<lambda>_. 0), env_version = 1, env_date = 1,
     env_device = (\<lambda>_. demo_sdb_device), env_callback = (\<lambda>_ _ _ _ _ st. Some st),
     env_sdb_callback = (\<lambda>_ _ _ t _ st. Some (st\<lparr>st_world := t\<rparr>)), env_read = (\<lambda>_ _ _ _ st. Some (0, 0, st)),
     env_write = (\<lambda>_ _ _ _ _ st. Some (0, st))\<rparr>"

lemma demo_scan_item:
  assumes "i < 16"
  shows "EB_OPERATION demo_scan_heap (of_nat (129 + i)) = Some (zero_operation\<lparr>op_un_value := sdb_words demo_env demo_bus_heap [129] 8 ! i,
     op_flags := EB_OP_READ_VAL, op_format := EB_DATA64, op_next := (if i = 15 then EB_NULL else of_nat (130 + i))\<rparr>)"
proof -
  have "length (sdb_words demo_env demo_bus_heap [129] 8) = 16" by (simp add: sdb_words_def)
  then have l: "length (enumerate 0 (sdb_words demo_env demo_bus_heap [129] 8)) = 16" by simp
  have "unat (of_nat (129 + i) :: eb_ptr) = 128 + Suc i" using assms by (simp only: unat_of_nat) (simp add: take_bit_nat_eq_self)
  from heap_of_item [OF this] show ?thesis
    using assms l by (simp add: demo_scan_heap_def EB_OPERATION_def nth_enumerate_eq del: of_nat_add)
qed

lemma demo_scan:
  "EB_SDB_SCAN demo_scan_heap 128 = Some zero_sdb_scan"
  "op_chain demo_scan_heap 129 (map of_nat [129..<145])"
proof -
  have "length (sdb_words demo_env demo_bus_heap [129] 8) = 16" by (simp add: sdb_words_def)
  then show "EB_SDB_SCAN demo_scan_heap 128 = Some zero_sdb_scan"
    using heap_of_item [of 128 0] by (simp add: demo_scan_heap_def EB_SDB_SCAN_def)
  have nx: "eb_operation_next demo_scan_heap (of_nat j) = Some (if j = 144 then EB_NULL else of_nat (j + 1))"
    if "129 \<le> j" "j < 145" for j
    using demo_scan_item [of "j - 129"] that by (auto simp: eb_operation_next_def)
  have "chain (eb_operation_next demo_scan_heap) (of_nat 129) (map of_nat [129..<145])"
    by (rule chain_upt) (use nx nx [of 144] in auto)
  then show "op_chain demo_scan_heap 129 (map of_nat [129..<145])" by simp
qed

definition demo_reads :: "eb_ptr list" where
  "demo_reads = map of_nat [129..<145]"

lemma demo_reads_nth: "length demo_reads = 16" "i < 16 \<Longrightarrow> demo_reads ! i = of_nat (129 + i)"
  by (simp add: demo_reads_def) (simp only: demo_reads_def length_upt nth_map nth_upt; simp)

theorem sdb_scan_roundtrip_witness:
  "eb_sdb_got_all demo_scan_env 128 200 129 EB_OK demo_scan_state =
     on_mem (eb_free_sdb_scan 128) (demo_scan_state\<lparr>st_world := Some (scanned_table demo_env demo_bus_heap [129] 0)\<rparr>)"
proof -
  have c: "ha_chain demo_bus_heap (so_first_handler (zero_socket\<lparr>so_first_handler := 129\<rparr>)) [129]"
    using demo_bus(2) by simp
  have mem: "st_mem demo_scan_state = demo_scan_heap" by (simp add: demo_scan_state_def)
  have i: "eb_operation_had_error demo_scan_heap (demo_reads ! i) = Some False \<and>
      eb_operation_format demo_scan_heap (demo_reads ! i) = Some EB_DATA64 \<and>
      eb_operation_data (st_user demo_scan_state) demo_scan_heap (demo_reads ! i) =
        eb_sdb demo_env 128 EB_DATA64 (of_nat (i * unat EB_DATA64)) demo_bus_heap"
    if "i < length (demo_reads)" for i
    using demo_scan_item [of i] demo_reads_nth eb_sdb_word [OF demo_bus(1) c demo_bus(3), of EB_DATA64 i] that
    by (simp add: eb_operation_had_error_def eb_operation_format_def eb_operation_data_def sdb_words_def)
  show ?thesis
    using sdb_scan_roundtrip [OF demo_bus(1) c demo_bus(3), of EB_DATA64 demo_scan_state 128 zero_sdb_scan 129
        demo_reads demo_scan_env 200, unfolded mem, OF _ _ demo_scan(1) demo_scan(2) [folded demo_reads_def]] i
    by (simp add: demo_scan_env_def run_sdb_callback_def zero_sdb_scan_def demo_reads_nth)
qed

end
