(* ===== verification/Eb_Refine.thy ===== *)
theory Eb_Refine
  imports Main "HOL-Library.Monad_Syntax"
begin

text \<open>
  Functional refinement of a component by an abstract specification, for arbitrary sequences of
  calls. \<open>rep s a\<close> says that the concrete state \<open>s\<close> represents the abstract state \<open>a\<close>; a concrete call
  may fault (\<open>None\<close>), an abstract one is a set of allowed outcomes.
\<close>

primrec run_seq :: "('c \<Rightarrow> 's \<Rightarrow> ('r \<times> 's) option) \<Rightarrow> 'c list \<Rightarrow> 's \<Rightarrow> ('r list \<times> 's) option" where
  "run_seq step [] s = Some ([], s)"
| "run_seq step (c # cs) s =
     do { (r, s') \<leftarrow> step c s; (rs, s'') \<leftarrow> run_seq step cs s'; Some (r # rs, s'') }"

inductive spec_seq :: "('c \<Rightarrow> 'a \<Rightarrow> ('r \<times> 'a) set) \<Rightarrow> 'c list \<Rightarrow> 'a \<Rightarrow> 'r list \<Rightarrow> 'a \<Rightarrow> bool"
  for spec where
  spec_Nil: "spec_seq spec [] a [] a"
| spec_Cons: "(r, a') \<in> spec c a \<Longrightarrow> spec_seq spec cs a' rs a'' \<Longrightarrow> spec_seq spec (c # cs) a (r # rs) a''"

inductive_cases spec_seq_NilE: "spec_seq spec [] a rs a'"
inductive_cases spec_seq_ConsE: "spec_seq spec (c # cs) a rs a'"

locale refinement =
  fixes rep :: "'s \<Rightarrow> 'a \<Rightarrow> bool"
    and step :: "'c \<Rightarrow> 's \<Rightarrow> ('r \<times> 's) option"
    and spec :: "'c \<Rightarrow> 'a \<Rightarrow> ('r \<times> 'a) set"
  assumes step_refines: "rep s a \<Longrightarrow> \<exists>r s' a'. step c s = Some (r, s') \<and> (r, a') \<in> spec c a \<and> rep s' a'"
begin

text \<open>No sequence of calls faults, and its results are those of the specification.\<close>

lemma run_refines:
  "rep s a \<Longrightarrow> \<exists>rs s' a'. run_seq step cs s = Some (rs, s') \<and> spec_seq spec cs a rs a' \<and> rep s' a'"
proof (induction cs arbitrary: s a)
  case Nil
  then show ?case by (auto intro: spec_Nil)
next
  case (Cons c cs)
  obtain r s1 a1 where 1: "step c s = Some (r, s1)" "(r, a1) \<in> spec c a" "rep s1 a1"
    using step_refines [OF Cons.prems] by blast
  obtain rs s' a' where "run_seq step cs s1 = Some (rs, s')" "spec_seq spec cs a1 rs a'" "rep s' a'"
    using Cons.IH [OF 1(3)] by blast
  with 1 show ?case by (auto intro: spec_Cons)
qed

text \<open>An invariant of the specification holds of every reachable concrete state.\<close>

lemma run_invariant:
  assumes keep: "\<And>c a r a'. I a \<Longrightarrow> (r, a') \<in> spec c a \<Longrightarrow> I a'"
    and "rep s a" and "I a"
  shows "\<exists>rs s' a'. run_seq step cs s = Some (rs, s') \<and> spec_seq spec cs a rs a' \<and> rep s' a' \<and> I a'"
proof -
  have "spec_seq spec cs a rs a' \<Longrightarrow> I a \<Longrightarrow> I a'" for cs a rs a'
    by (induction rule: spec_seq.induct) (auto intro: keep)
  with run_refines [OF assms(2), of cs] assms(3) show ?thesis by blast
qed

end

section \<open>Loops\<close>

text \<open>A loop whose body either continues with a new state (\<open>Inl\<close>) or leaves the loop with a result
  (\<open>Inr\<close>); it is undefined where the body faults and where the loop runs forever.\<close>

partial_function (option) loop :: "('s \<Rightarrow> ('s + 'r) option) \<Rightarrow> 's \<Rightarrow> 'r option" where
  "loop body s = do { x \<leftarrow> body s; case x of Inl s' \<Rightarrow> loop body s' | Inr r \<Rightarrow> Some r }"

text \<open>A loop returns when every pass keeps the invariant and lowers the rank.\<close>

lemma loop_total:
  fixes rank :: "'s \<Rightarrow> nat" and inv :: "'s \<Rightarrow> bool" and post :: "'r \<Rightarrow> bool"
  assumes pass: "\<And>s. inv s \<Longrightarrow> \<exists>x. body s = Some x \<and>
      (case x of Inl s' \<Rightarrow> inv s' \<and> rank s' < rank s | Inr r \<Rightarrow> post r)"
  shows "inv s \<Longrightarrow> \<exists>r. loop body s = Some r \<and> post r"
proof (induction s rule: measure_induct_rule [where f = rank])
  case (less s)
  then obtain x where x: "body s = Some x" "case x of Inl s' \<Rightarrow> inv s' \<and> rank s' < rank s | Inr r \<Rightarrow> post r"
    using pass by blast
  show ?case
  proof (cases x)
    case (Inl s')
    with x less.IH obtain r where "loop body s' = Some r" "post r" by auto
    with x Inl show ?thesis by (subst loop.simps) simp
  next
    case (Inr r)
    with x show ?thesis by (subst loop.simps) simp
  qed
qed

text \<open>A loop refines another when its body does: both return, fault or diverge together.\<close>

locale loop_refinement =
  fixes inv :: "'s \<Rightarrow> bool" and post :: "'r \<Rightarrow> bool"
    and abst :: "'s \<Rightarrow> 'a" and res :: "'r \<Rightarrow> 'b"
    and body :: "'s \<Rightarrow> ('s + 'r) option"
    and spec_body :: "'a \<Rightarrow> ('a + 'b) option"
  assumes body_refines: "inv s \<Longrightarrow> spec_body (abst s) = map_option (map_sum abst res) (body s)"
    and body_keeps: "inv s \<Longrightarrow> body s = Some (Inl s') \<Longrightarrow> inv s'"
    and body_post: "inv s \<Longrightarrow> body s = Some (Inr r) \<Longrightarrow> post r"
begin

lemma loop_forward:
  assumes "loop body s = Some r"
  shows "inv s \<Longrightarrow> loop spec_body (abst s) = Some (res r) \<and> post r"
proof -
  let ?P = "\<lambda>f s r. f = body \<longrightarrow> inv s \<longrightarrow> loop spec_body (abst s) = Some (res r) \<and> post r"
  have "?P body s r"
  proof (rule loop.raw_induct [where P = ?P, OF _ assms], intro impI)
    fix lp f s r
    assume IH: "\<And>f s r. lp f s = Some r \<Longrightarrow> ?P f s r"
      and eq: "f s \<bind> (\<lambda>x. case x of Inl s' \<Rightarrow> lp f s' | Inr r \<Rightarrow> Some r) = Some r" and f: "f = body" and "inv s"
    then obtain x where x: "body s = Some x" "(case x of Inl s' \<Rightarrow> lp body s' | Inr r \<Rightarrow> Some r) = Some r"
      by (auto simp: bind_eq_Some_conv)
    show "loop spec_body (abst s) = Some (res r) \<and> post r"
    proof (cases x)
      case (Inl s')
      with x IH body_keeps [OF \<open>inv s\<close>] have "loop spec_body (abst s') = Some (res r) \<and> post r" by simp
      with x Inl body_refines [OF \<open>inv s\<close>] show ?thesis by (subst loop.simps) simp
    next
      case (Inr r')
      with x body_refines [OF \<open>inv s\<close>] body_post [OF \<open>inv s\<close>] show ?thesis by (subst loop.simps) simp
    qed
  qed
  then show "inv s \<Longrightarrow> loop spec_body (abst s) = Some (res r) \<and> post r" by blast
qed

lemma loop_backward:
  assumes "loop spec_body a = Some b"
  shows "inv s \<Longrightarrow> abst s = a \<Longrightarrow> \<exists>r. loop body s = Some r"
proof -
  let ?P = "\<lambda>f a b. f = spec_body \<longrightarrow> (\<forall>s. inv s \<longrightarrow> abst s = a \<longrightarrow> (\<exists>r. loop body s = Some r))"
  have "?P spec_body a b"
  proof (rule loop.raw_induct [where P = ?P, OF _ assms], intro impI allI)
    fix lp f a b s
    assume IH: "\<And>f a b. lp f a = Some b \<Longrightarrow> ?P f a b"
      and eq: "f a \<bind> (\<lambda>x. case x of Inl a' \<Rightarrow> lp f a' | Inr b \<Rightarrow> Some b) = Some b"
      and f: "f = spec_body" and "inv s" and a: "abst s = a"
    then obtain x where x: "body s = Some x"
        "(case map_sum abst res x of Inl a' \<Rightarrow> lp spec_body a' | Inr b \<Rightarrow> Some b) = Some b"
      using body_refines [OF \<open>inv s\<close>] by (auto simp: bind_eq_Some_conv)
    show "\<exists>r. loop body s = Some r"
    proof (cases x)
      case (Inl s')
      with x have "lp spec_body (abst s') = Some b" by simp
      then have "\<exists>r. loop body s' = Some r" using IH body_keeps [OF \<open>inv s\<close>] x Inl by blast
      with x Inl show ?thesis by (subst loop.simps) simp
    next
      case (Inr r')
      with x show ?thesis by (subst loop.simps) simp
    qed
  qed
  then show "inv s \<Longrightarrow> abst s = a \<Longrightarrow> \<exists>r. loop body s = Some r" by blast
qed

lemma loop_refines: "inv s \<Longrightarrow> loop spec_body (abst s) = map_option res (loop body s)"
  using loop_forward [of s] loop_backward [of "abst s" _ s]
  by (cases "loop body s"; cases "loop spec_body (abst s)") auto

lemma loop_post: "inv s \<Longrightarrow> loop body s = Some r \<Longrightarrow> post r"
  using loop_forward by blast

end

end
