(* ===== verification/Eb_Handler.thy ===== *)
theory Eb_Handler
  imports Eb_Sdb Eb_Refine
begin

text \<open>
  Virtual devices on the local bus (\<^verbatim>\<open>api/glue/handler.c\<close>): attaching and detaching handlers. The
  lemmas show that the attached address ranges stay pairwise disjoint and above the reserved
  range whatever is attached and detached, so that every bus address belongs to at most one device.
\<close>

section \<open>Model\<close>

record eb_handler =
  h_device :: u64
  h_data :: eb_user_data_t
  h_read :: "nat option"
  h_write :: "nat option"

abbreviation (input) dev_first_of :: "'w eb_env \<Rightarrow> u64 \<Rightarrow> eb_address_t" where
  "dev_first_of env d \<equiv> addr_first (dv_component (env_device env d))"
abbreviation (input) dev_last_of :: "'w eb_env \<Rightarrow> u64 \<Rightarrow> eb_address_t" where
  "dev_last_of env d \<equiv> addr_last (dv_component (env_device env d))"

text \<open>The loop over the attached devices: does one of them overlap the new range?\<close>

partial_function (option) eb_attach_overlap ::
    "'w eb_env \<Rightarrow> eb_memory \<Rightarrow> eb_address_t \<Rightarrow> eb_address_t \<Rightarrow> eb_ptr \<Rightarrow> bool option" where
  "eb_attach_overlap env m new_first new_last i =
     (if i = EB_NULL then Some False
      else do {
        address \<leftarrow> EB_HANDLER_ADDRESS m i;
        let dev_first = dev_first_of env (ha_device address);
        let dev_last = dev_last_of env (ha_device address);
        if new_first \<le> dev_last \<and> dev_first \<le> new_last then Some True
        else eb_attach_overlap env m new_first new_last (ha_next address)
      })"

definition eb_socket_attach ::
    "'w eb_env \<Rightarrow> eb_ptr \<Rightarrow> eb_handler \<Rightarrow> eb_memory \<Rightarrow> (eb_status_t \<times> eb_memory) option" where
  "eb_socket_attach env socketp handler m = do {
     (addressp, m) \<leftarrow> eb_new_handler_address m;
     if addressp = EB_NULL then Some (EB_OOM, m)
     else do {
       (callbackp, m) \<leftarrow> eb_new_handler_callback m;
       if callbackp = EB_NULL then do {
         m \<leftarrow> eb_free_handler_address addressp m;
         Some (EB_OOM, m)
       } else do {
         let new_first = dev_first_of env (h_device handler);
         let new_last = dev_last_of env (h_device handler);
         if new_first \<noteq> dev_first_of env (h_device handler) \<or> new_last \<noteq> dev_last_of env (h_device handler)
         then Some (EB_ADDRESS, m)
         else if new_first < 0x4000 then Some (EB_ADDRESS, m)
         else do {
           socket \<leftarrow> EB_SOCKET m socketp;
           overlap \<leftarrow> eb_attach_overlap env m new_first new_last (so_first_handler socket);
           if overlap then do {
             m \<leftarrow> eb_free_handler_callback callbackp m;
             m \<leftarrow> eb_free_handler_address addressp m;
             Some (EB_ADDRESS, m)
           } else do {
             m \<leftarrow> set_handler_address m addressp (\<lambda>a. a\<lparr>ha_device := h_device handler, ha_callback := callbackp\<rparr>);
             m \<leftarrow> set_handler_callback m callbackp (\<lambda>c. c\<lparr>hc_data := h_data handler,
                     hc_read := h_read handler, hc_write := h_write handler\<rparr>);
             m \<leftarrow> set_handler_address m addressp (\<lambda>a. a\<lparr>ha_next := so_first_handler socket\<rparr>);
             m \<leftarrow> set_socket m socketp (\<lambda>s. s\<lparr>so_first_handler := addressp\<rparr>);
             Some (EB_OK, m)
           }
         }
       }
     }
   }"

text \<open>\<^verbatim>\<open>ptr\<close> points to the socket's \<^verbatim>\<open>first_handler\<close> (\<open>None\<close>) or to the \<^verbatim>\<open>next\<close> of a handler.\<close>

partial_function (option) eb_detach_find ::
    "eb_memory \<Rightarrow> u64 \<Rightarrow> eb_ptr option \<Rightarrow> eb_ptr \<Rightarrow> (eb_ptr option \<times> eb_ptr) option" where
  "eb_detach_find m device ptr i =
     (if i = EB_NULL then Some (ptr, i)
      else do {
        address \<leftarrow> EB_HANDLER_ADDRESS m i;
        if ha_device address = device then Some (ptr, i)
        else eb_detach_find m device (Some i) (ha_next address)
      })"

definition eb_socket_detach :: "eb_ptr \<Rightarrow> u64 \<Rightarrow> eb_memory \<Rightarrow> (eb_status_t \<times> eb_memory) option" where
  "eb_socket_detach socketp device m = do {
     socket \<leftarrow> EB_SOCKET m socketp;
     (ptr, i) \<leftarrow> eb_detach_find m device None (so_first_handler socket);
     if i = EB_NULL then Some (EB_ADDRESS, m)
     else do {
       address \<leftarrow> EB_HANDLER_ADDRESS m i;
       m \<leftarrow> (case ptr of
               None \<Rightarrow> set_socket m socketp (\<lambda>s. s\<lparr>so_first_handler := ha_next address\<rparr>)
             | Some p \<Rightarrow> set_handler_address m p (\<lambda>a. a\<lparr>ha_next := ha_next address\<rparr>));
       m \<leftarrow> eb_free_handler_callback (ha_callback address) m;
       m \<leftarrow> eb_free_handler_address i m;
       Some (EB_OK, m)
     }
   }"

text \<open>The loop of \<^verbatim>\<open>eb_socket_read\<close> and \<^verbatim>\<open>eb_socket_write\<close>: the device an address belongs to.\<close>

partial_function (option) eb_find_handler ::
    "'w eb_env \<Rightarrow> eb_memory \<Rightarrow> eb_address_t \<Rightarrow> eb_ptr \<Rightarrow> eb_ptr option" where
  "eb_find_handler env m addr addressp =
     (if addressp = EB_NULL then Some addressp
      else do {
        address \<leftarrow> EB_HANDLER_ADDRESS m addressp;
        if dev_first_of env (ha_device address) \<le> addr \<and> addr \<le> dev_last_of env (ha_device address)
        then Some addressp
        else eb_find_handler env m addr (ha_next address)
      })"

section \<open>Searching the list\<close>

definition overlaps :: "eb_address_t \<times> eb_address_t \<Rightarrow> eb_address_t \<times> eb_address_t \<Rightarrow> bool" where
  "overlaps r s \<longleftrightarrow> fst r \<le> snd s \<and> fst s \<le> snd r"

definition ha_range :: "'w eb_env \<Rightarrow> eb_memory \<Rightarrow> eb_ptr \<Rightarrow> eb_address_t \<times> eb_address_t" where
  "ha_range env m h = (dev_first_of env (ha_device (ha_at m h)), dev_last_of env (ha_device (ha_at m h)))"

definition in_range :: "eb_address_t \<Rightarrow> eb_address_t \<times> eb_address_t \<Rightarrow> bool" where
  "in_range a r \<longleftrightarrow> fst r \<le> a \<and> a \<le> snd r"

lemma eb_attach_overlap_chain:
  "ha_chain m p hs \<Longrightarrow> eb_attach_overlap env m f l p = Some (\<exists>h \<in> set hs. overlaps (f, l) (ha_range env m h))"
proof (induction hs arbitrary: p)
  case (Cons h hs)
  then show ?case
    unfolding ha_chain_Cons by (subst eb_attach_overlap.simps) (auto simp: overlaps_def ha_range_def Let_def)
qed (simp add: eb_attach_overlap.simps)

lemma eb_find_handler_chain:
  "ha_chain m p hs \<Longrightarrow>
   eb_find_handler env m a p = Some (head_ptr (dropWhile (\<lambda>h. \<not> in_range a (ha_range env m h)) hs))"
proof (induction hs arbitrary: p)
  case (Cons h hs)
  then show ?case
    unfolding ha_chain_Cons by (subst eb_find_handler.simps) (auto simp: in_range_def ha_range_def)
qed (simp add: eb_find_handler.simps)

lemma eb_detach_find_chain:
  "ha_chain m p hs \<Longrightarrow>
   eb_detach_find m d q p = Some
     (let pre = takeWhile (\<lambda>h. ha_device (ha_at m h) \<noteq> d) hs in
      (if pre = [] then q else Some (last pre), head_ptr (dropWhile (\<lambda>h. ha_device (ha_at m h) \<noteq> d) hs)))"
proof (induction hs arbitrary: p q)
  case (Cons h hs)
  then show ?case
    unfolding ha_chain_Cons by (subst eb_detach_find.simps) (auto simp: Let_def)
qed (simp add: eb_detach_find.simps)

section \<open>The bus as a list of handlers\<close>

definition hc_at :: "eb_memory \<Rightarrow> eb_ptr \<Rightarrow> eb_handler_callback" where
  "hc_at m p = (case EB_HANDLER_CALLBACK m p of Some c \<Rightarrow> c | None \<Rightarrow> zero_handler_callback)"

definition handler_of :: "eb_memory \<Rightarrow> eb_ptr \<Rightarrow> eb_handler" where
  "handler_of m h = (let c = hc_at m (ha_callback (ha_at m h)) in
     \<lparr>h_device = ha_device (ha_at m h), h_data = hc_data c, h_read = hc_read c, h_write = hc_write c\<rparr>)"

definition range_of :: "'w eb_env \<Rightarrow> eb_handler \<Rightarrow> eb_address_t \<times> eb_address_t" where
  "range_of env h = (dev_first_of env (h_device h), dev_last_of env (h_device h))"

primrec disjoint_ranges :: "(eb_address_t \<times> eb_address_t) list \<Rightarrow> bool" where
  "disjoint_ranges [] \<longleftrightarrow> True"
| "disjoint_ranges (r # rs) \<longleftrightarrow> (\<forall>s \<in> set rs. \<not> overlaps r s) \<and> disjoint_ranges rs"

text \<open>\<open>bus_list m s hs\<close>: the handler list of socket \<open>s\<close> consists of the objects \<open>hs\<close>, each with its
  own callback object.\<close>

definition bus_list :: "eb_memory \<Rightarrow> eb_ptr \<Rightarrow> eb_ptr list \<Rightarrow> bool" where
  "bus_list m s hs \<longleftrightarrow> dyn_ok m \<and> (\<exists>so. EB_SOCKET m s = Some so \<and> ha_chain m (so_first_handler so) hs) \<and>
     list_all (\<lambda>h. EB_HANDLER_CALLBACK m (ha_callback (ha_at m h)) \<noteq> None) hs \<and>
     distinct (map (\<lambda>h. ha_callback (ha_at m h)) hs)"

definition bus_of :: "eb_memory \<Rightarrow> eb_ptr list \<Rightarrow> eb_handler list" where
  "bus_of m hs = map (handler_of m) hs"

definition bus_ok :: "'w eb_env \<Rightarrow> eb_handler list \<Rightarrow> bool" where
  "bus_ok env bs \<longleftrightarrow> disjoint_ranges (map (range_of env) bs) \<and> list_all (\<lambda>b. 0x4000 \<le> fst (range_of env b)) bs"

lemma range_of_handler: "range_of env (handler_of m h) = ha_range env m h"
  by (simp add: range_of_def handler_of_def ha_range_def Let_def)

lemma ha_live: "EB_HANDLER_ADDRESS m p = Some a \<Longrightarrow> p \<in> eb_live m"
  by (auto simp: eb_deref intro: eb_item_live)
lemma hc_live: "EB_HANDLER_CALLBACK m p = Some c \<Longrightarrow> p \<in> eb_live m"
  by (auto simp: eb_deref intro: eb_item_live)
lemma so_live: "EB_SOCKET m p = Some s \<Longrightarrow> p \<in> eb_live m"
  by (auto simp: eb_deref intro: eb_item_live)

lemma ha_at_cong: "eb_item m' p = eb_item m p \<Longrightarrow> ha_at m' p = ha_at m p"
  by (simp add: ha_at_def EB_HANDLER_ADDRESS_def)
lemma hc_at_cong: "eb_item m' p = eb_item m p \<Longrightarrow> hc_at m' p = hc_at m p"
  by (simp add: hc_at_def EB_HANDLER_CALLBACK_def)
lemma ha_next_of_cong: "eb_item m' p = eb_item m p \<Longrightarrow> ha_next_of m' p = ha_next_of m p"
  by (simp add: ha_next_of_def EB_HANDLER_ADDRESS_def)

lemma ha_chain_frame:
  "ha_chain m p xs \<Longrightarrow> (\<And>x. x \<in> set xs \<Longrightarrow> eb_item m' x = eb_item m x) \<Longrightarrow> ha_chain m' p xs"
  using chain_cong [of xs "ha_next_of m'" "ha_next_of m"] ha_next_of_cong by blast

lemma ha_chain_at:
  assumes "ha_chain m p hs" and "h \<in> set hs"
  shows "EB_HANDLER_ADDRESS m h = Some (ha_at m h)" and "h \<in> eb_live m" and "h \<noteq> EB_NULL"
proof -
  have "ha_next_of m h \<noteq> None" using assms chain_defined by fast
  then show a: "EB_HANDLER_ADDRESS m h = Some (ha_at m h)"
    by (auto simp: ha_next_of_def ha_at_def split: option.splits bind_splits)
  then show "h \<in> eb_live m" by (rule ha_live)
  show "h \<noteq> EB_NULL" using assms chain_no_NULL by fast
qed

text \<open>The objects that make up the bus.\<close>

definition bus_objs :: "eb_memory \<Rightarrow> eb_ptr list \<Rightarrow> eb_ptr set" where
  "bus_objs m hs = set hs \<union> (\<lambda>h. ha_callback (ha_at m h)) ` set hs"

lemma handler_of_frame:
  assumes "eb_item m' h = eb_item m h"
    and "eb_item m' (ha_callback (ha_at m h)) = eb_item m (ha_callback (ha_at m h))"
  shows "handler_of m' h = handler_of m h"
  using ha_at_cong [OF assms(1)] hc_at_cong [OF assms(2)] by (simp add: handler_of_def)

lemma bus_list_objs_live: "bus_list m s hs \<Longrightarrow> insert s (bus_objs m hs) \<subseteq> eb_live m"
  by (auto simp: bus_list_def bus_objs_def list_all_iff dest: so_live ha_chain_at(2) intro: hc_live)

lemma bus_list_frame:
  assumes "bus_list m s hs" and "dyn_ok m'"
    and "EB_SOCKET m' s = Some so" and "ha_chain m (so_first_handler so) hs"
    and "\<And>q. q \<in> bus_objs m hs \<Longrightarrow> eb_item m' q = eb_item m q"
  shows "bus_list m' s hs" and "bus_of m' hs = bus_of m hs"
proof -
  have h: "eb_item m' h = eb_item m h" "eb_item m' (ha_callback (ha_at m h)) = eb_item m (ha_callback (ha_at m h))"
    if "h \<in> set hs" for h using that assms(5) by (auto simp: bus_objs_def)
  have a: "ha_at m' h = ha_at m h" if "h \<in> set hs" for h by (rule ha_at_cong [OF h(1) [OF that]])
  have "ha_chain m' (so_first_handler so) hs" by (rule ha_chain_frame [OF assms(4) h(1)])
  moreover have "list_all (\<lambda>h. EB_HANDLER_CALLBACK m' (ha_callback (ha_at m' h)) \<noteq> None) hs"
    using assms(1) h(2) a by (auto simp: bus_list_def list_all_iff EB_HANDLER_CALLBACK_def)
  moreover have "distinct (map (\<lambda>h. ha_callback (ha_at m' h)) hs)"
    using assms(1) a by (simp add: bus_list_def cong: map_cong)
  ultimately show "bus_list m' s hs" using assms(2,3) unfolding bus_list_def by blast
  show "bus_of m' hs = bus_of m hs" using h by (auto simp: bus_of_def intro: handler_of_frame)
qed

corollary bus_list_same:
  assumes "bus_list m s hs" and "dyn_ok m'" and "\<And>q. q \<in> eb_live m \<Longrightarrow> eb_item m' q = eb_item m q"
  shows "bus_list m' s hs" and "bus_of m' hs = bus_of m hs"
proof -
  from assms(1) obtain so where so: "EB_SOCKET m s = Some so" "ha_chain m (so_first_handler so) hs"
    by (auto simp: bus_list_def)
  have "EB_SOCKET m' s = Some so" using so(1) assms(3) [OF so_live [OF so(1)]] by (simp add: EB_SOCKET_def)
  with so bus_list_frame [OF assms(1,2) this so(2)] bus_list_objs_live [OF assms(1)] assms(3)
  show "bus_list m' s hs" and "bus_of m' hs = bus_of m hs" by blast+
qed

subsection \<open>Attaching\<close>

fun attach_spec :: "'w eb_env \<Rightarrow> eb_handler \<Rightarrow> eb_handler list \<Rightarrow> eb_status_t \<times> eb_handler list" where
  "attach_spec env h bs =
     (if fst (range_of env h) < 0x4000 \<or> (\<exists>b \<in> set bs. overlaps (range_of env h) (range_of env b))
      then (EB_ADDRESS, bs) else (EB_OK, h # bs))"

lemma attach_insert:
  assumes bl: "bus_list m s hs" and so: "EB_SOCKET m s = Some so" "ha_chain m (so_first_handler so) hs"
    and ok2: "dyn_ok m2" and fresh: "a \<notin> eb_live m" "c \<notin> eb_live m" "a \<noteq> c" "a \<noteq> EB_NULL"
    and ia: "eb_item m2 a = Some (Handler_address_item a0)"
    and ic: "eb_item m2 c = Some (Handler_callback_item c0)"
    and fr: "\<And>q. q \<in> eb_live m \<Longrightarrow> eb_item m2 q = eb_item m q"
  shows "\<exists>m'. do {
       m3 \<leftarrow> set_handler_address m2 a (\<lambda>k. k\<lparr>ha_device := h_device h, ha_callback := c\<rparr>);
       m4 \<leftarrow> set_handler_callback m3 c (\<lambda>k. k\<lparr>hc_data := h_data h, hc_read := h_read h, hc_write := h_write h\<rparr>);
       m5 \<leftarrow> set_handler_address m4 a (\<lambda>k. k\<lparr>ha_next := so_first_handler so\<rparr>);
       set_socket m5 s (\<lambda>k. k\<lparr>so_first_handler := a\<rparr>)
     } = Some m' \<and> bus_list m' s (a # hs) \<and> bus_of m' (a # hs) = h # bus_of m hs"
proof -
  let ?a1 = "a0\<lparr>ha_device := h_device h, ha_callback := c\<rparr>"
  let ?c1 = "c0\<lparr>hc_data := h_data h, hc_read := h_read h, hc_write := h_write h\<rparr>"
  let ?a2 = "?a1\<lparr>ha_next := so_first_handler so\<rparr>"
  define m3 where "m3 = eb_put m2 a (Handler_address_item ?a1)"
  define m4 where "m4 = eb_put m3 c (Handler_callback_item ?c1)"
  define m5 where "m5 = eb_put m4 a (Handler_address_item ?a2)"
  define m6 where "m6 = eb_put m5 s (Socket_item (so\<lparr>so_first_handler := a\<rparr>))"
  have sl: "s \<in> eb_live m" by (rule so_live [OF so(1)])
  then have ne: "a \<noteq> s" "c \<noteq> s" using fresh by auto
  have i3: "eb_item m3 a = Some (Handler_address_item ?a1)" "eb_item m3 c = Some (Handler_callback_item c0)"
    using ia ic fresh(3) by (simp_all add: m3_def eb_mem)
  have i4: "eb_item m4 a = Some (Handler_address_item ?a1)" "eb_item m4 c = Some (Handler_callback_item ?c1)"
    using i3 fresh(3) by (simp_all add: m4_def eb_mem)
  have i5: "eb_item m5 a = Some (Handler_address_item ?a2)" "eb_item m5 c = Some (Handler_callback_item ?c1)"
    "eb_item m5 s = Some (Socket_item so)"
    using i4 fresh(3) ne fr [OF sl] so(1) by (simp_all add: m5_def m4_def m3_def eb_mem eb_deref)
  have i6: "eb_item m6 a = Some (Handler_address_item ?a2)" "eb_item m6 c = Some (Handler_callback_item ?c1)"
    "eb_item m6 s = Some (Socket_item (so\<lparr>so_first_handler := a\<rparr>))"
    using i5 ne by (simp_all add: m6_def eb_mem)
  have "same_heap {a} m2 m3" "same_heap {c} m3 m4" "same_heap {a} m4 m5" "same_heap {s} m5 m6"
    unfolding m3_def m4_def m5_def m6_def
    using same_heap_put [OF ia] same_heap_put [OF i3(2)] same_heap_put [OF i4(1)] same_heap_put [OF i5(3)]
    by (auto simp: m3_def m4_def m5_def)
  then have sh: "same_heap {a, c, s} m2 m6" by (simp add: same_heap_def)
  then have ok6: "dyn_ok m6" using ok2 by (simp add: same_heap_def)
  have fr6: "eb_item m6 q = eb_item m q" if "q \<in> eb_live m" "q \<noteq> s" for q
    using that fresh(1,2) fr [OF that(1)] same_heap_item [OF sh, of q] by auto
  have ob: "q \<in> eb_live m" "q \<noteq> s" if "q \<in> bus_objs m hs" for q
  proof -
    show "q \<in> eb_live m" using that bus_list_objs_live [OF bl] by blast
    show "q \<noteq> s" using that bl so by (auto simp: bus_objs_def bus_list_def list_all_iff eb_deref dest: ha_chain_at(1))
  qed
  have hs6: "ha_chain m6 (so_first_handler so) hs"
    by (rule ha_chain_frame [OF so(2)]) (use ob fr6 in \<open>auto simp: bus_objs_def\<close>)
  have at6: "ha_at m6 a = ?a2" "hc_at m6 c = ?c1" "EB_HANDLER_CALLBACK m6 c = Some ?c1"
    using i6 by (simp_all add: ha_at_def hc_at_def EB_HANDLER_ADDRESS_Some EB_HANDLER_CALLBACK_Some)
  have old: "ha_at m6 q = ha_at m q" if "q \<in> set hs" for q
    by (rule ha_at_cong) (use that ob fr6 in \<open>auto simp: bus_objs_def\<close>)
  have "ha_chain m6 a (a # hs)"
    using fresh(4) hs6 at6(1) i6(1) unfolding ha_chain_Cons by (simp add: EB_HANDLER_ADDRESS_Some)
  moreover have "list_all (\<lambda>h. EB_HANDLER_CALLBACK m6 (ha_callback (ha_at m6 h)) \<noteq> None) hs"
    unfolding list_all_iff
  proof
    fix q assume q: "q \<in> set hs"
    then have "ha_callback (ha_at m q) \<in> bus_objs m hs" by (simp add: bus_objs_def)
    then have "eb_item m6 (ha_callback (ha_at m q)) = eb_item m (ha_callback (ha_at m q))" using ob fr6 by blast
    then show "EB_HANDLER_CALLBACK m6 (ha_callback (ha_at m6 q)) \<noteq> None"
      using bl q old [OF q] by (simp add: bus_list_def list_all_iff EB_HANDLER_CALLBACK_def)
  qed
  moreover have "distinct (map (\<lambda>h. ha_callback (ha_at m6 h)) (a # hs))"
  proof -
    have "c \<notin> (\<lambda>h. ha_callback (ha_at m h)) ` set hs" using fresh(2) ob by (auto simp: bus_objs_def)
    then show ?thesis using bl old at6(1) by (simp add: bus_list_def cong: map_cong image_cong)
  qed
  ultimately have "bus_list m6 s (a # hs)" using ok6 i6(3) at6 unfolding bus_list_def by (simp add: eb_deref)
  moreover have "bus_of m6 (a # hs) = h # bus_of m hs"
  proof -
    have "handler_of m6 q = handler_of m q" if "q \<in> set hs" for q
      by (rule handler_of_frame) (use that ob fr6 in \<open>auto simp: bus_objs_def\<close>)
    then show ?thesis using at6 by (cases h) (simp add: bus_of_def handler_of_def Let_def)
  qed
  moreover have "set_handler_address m2 a (\<lambda>k. k\<lparr>ha_device := h_device h, ha_callback := c\<rparr>) = Some m3"
    "set_handler_callback m3 c (\<lambda>k. k\<lparr>hc_data := h_data h, hc_read := h_read h, hc_write := h_write h\<rparr>) = Some m4"
    "set_handler_address m4 a (\<lambda>k. k\<lparr>ha_next := so_first_handler so\<rparr>) = Some m5"
    "set_socket m5 s (\<lambda>k. k\<lparr>so_first_handler := a\<rparr>) = Some m6"
    unfolding m3_def [symmetric] m4_def m5_def m6_def
    using set_handler_address_Some [OF ia, of "\<lambda>k. k\<lparr>ha_device := h_device h, ha_callback := c\<rparr>"]
      set_handler_callback_Some [OF i3(2), of "\<lambda>k. k\<lparr>hc_data := h_data h, hc_read := h_read h, hc_write := h_write h\<rparr>"]
      set_handler_address_Some [OF i4(1), of "\<lambda>k. k\<lparr>ha_next := so_first_handler so\<rparr>"]
      set_socket_Some [OF i5(3), of "\<lambda>k. k\<lparr>so_first_handler := a\<rparr>"]
    by (simp_all add: m3_def m4_def m5_def)
  ultimately show ?thesis by simp
qed

lemma eb_socket_attach_refines:
  assumes bl: "bus_list m s hs"
  shows "\<exists>st m' hs'. eb_socket_attach env s h m = Some (st, m') \<and> bus_list m' s hs' \<and>
     (st = EB_OOM \<and> hs' = hs \<and> bus_of m' hs' = bus_of m hs \<or>
      attach_spec env h (bus_of m hs) = (st, bus_of m' hs'))"
proof -
  from bl obtain so where so: "EB_SOCKET m s = Some so" "ha_chain m (so_first_handler so) hs" and ok: "dyn_ok m"
    by (auto simp: bus_list_def)
  have sl: "s \<in> eb_live m" by (rule so_live [OF so(1)])
  have "\<not> is_Free_item (Handler_address_item zero_handler_address)" by simp
  with ok show ?thesis
  proof (cases rule: new_item_cases)
    case oom
    with bl show ?thesis by (auto simp: eb_socket_attach_def eb_new_handler_address_def)
  next
    case (fresh a m1)
    have "\<not> is_Free_item (Handler_callback_item zero_handler_callback)" by simp
    with fresh(3) show ?thesis
    proof (cases rule: new_item_cases)
      case oom
      obtain m2 where m2: "eb_free_memory_item a m1 = Some m2" "dyn_ok m2" "eb_live m2 = eb_live m1 - {a}"
          "\<And>q. q \<noteq> a \<Longrightarrow> eb_item m2 q = eb_item m1 q"
        using free_item_ok [OF fresh(3), of a] fresh(5) by auto
      have "eb_item m2 q = eb_item m q" if "q \<in> eb_live m" for q using that m2(4) fresh(4,7) by metis
      from bus_list_same [OF bl m2(2) this] show ?thesis
        using fresh(1,2) oom m2(1)
        by (auto simp: eb_socket_attach_def eb_new_handler_address_def eb_new_handler_callback_def)
    next
      case fresh2: (fresh c m2)
      have fr: "eb_item m2 q = eb_item m q" if "q \<in> eb_live m" for q using that fresh(5,7) fresh2(7) by simp
      have ac: "a \<noteq> c" using fresh2(4) fresh(5) by auto
      note same = bus_list_same [OF bl fresh2(3) fr]
      have so2: "EB_SOCKET m2 s = Some so" using so(1) fr [OF sl] by (simp add: EB_SOCKET_def)
      have run: "eb_socket_attach env s h m =
          (if fst (range_of env h) < 0x4000 then Some (EB_ADDRESS, m2)
           else if \<exists>b \<in> set (bus_of m hs). overlaps (range_of env h) (range_of env b)
           then do { m \<leftarrow> eb_free_memory_item c m2; m \<leftarrow> eb_free_memory_item a m; Some (EB_ADDRESS, m) }
           else do {
             m3 \<leftarrow> set_handler_address m2 a (\<lambda>k. k\<lparr>ha_device := h_device h, ha_callback := c\<rparr>);
             m4 \<leftarrow> set_handler_callback m3 c (\<lambda>k. k\<lparr>hc_data := h_data h, hc_read := h_read h, hc_write := h_write h\<rparr>);
             m5 \<leftarrow> set_handler_address m4 a (\<lambda>k. k\<lparr>ha_next := so_first_handler so\<rparr>);
             m6 \<leftarrow> set_socket m5 s (\<lambda>k. k\<lparr>so_first_handler := a\<rparr>);
             Some (EB_OK, m6)
           })"
      proof -
        have "ha_chain m2 (so_first_handler so) hs" using same(1) so2 by (auto simp: bus_list_def)
        from eb_attach_overlap_chain [OF this, of env]
        have "eb_attach_overlap env m2 (fst (range_of env h)) (snd (range_of env h)) (so_first_handler so) =
            Some (\<exists>b \<in> set (bus_of m2 hs). overlaps (range_of env h) (range_of env b))"
          by (simp add: bus_of_def range_of_handler)
        then have ov: "eb_attach_overlap env m2 (fst (range_of env h)) (snd (range_of env h)) (so_first_handler so) =
            Some (\<exists>b \<in> set (bus_of m hs). overlaps (range_of env h) (range_of env b))"
          by (simp only: same(2))
        show ?thesis
          using fresh(1,2) fresh2(1,2) so2 ov
          by (simp add: eb_socket_attach_def eb_new_handler_address_def eb_new_handler_callback_def
              Let_def range_of_def)
      qed
      show ?thesis
      proof (cases "fst (range_of env h) < 0x4000")
        case True
        with run same show ?thesis by auto
      next
        case ge: False
        show ?thesis
        proof (cases "\<exists>b \<in> set (bus_of m hs). overlaps (range_of env h) (range_of env b)")
          case True
          obtain m3 where m3: "eb_free_memory_item c m2 = Some m3" "dyn_ok m3" "eb_live m3 = eb_live m2 - {c}"
              "\<And>q. q \<noteq> c \<Longrightarrow> eb_item m3 q = eb_item m2 q"
            using free_item_ok [OF fresh2(3), of c] fresh2(5) by auto
          have "a \<in> eb_live m3" using m3(3) fresh2(5) fresh(5) ac by auto
          then obtain m4 where m4: "eb_free_memory_item a m3 = Some m4" "dyn_ok m4"
              "\<And>q. q \<noteq> a \<Longrightarrow> eb_item m4 q = eb_item m3 q"
            using free_item_ok [OF m3(2)] by blast
          have "eb_item m4 q = eb_item m q" if "q \<in> eb_live m" for q
            using that fr m3(4) m4(3) fresh(4,5) fresh2(4) by (metis insertI2)
          from bus_list_same [OF bl m4(2) this] show ?thesis
            using run ge True m3(1) m4(1) by (intro exI [of _ EB_ADDRESS] exI [of _ m4] exI [of _ hs]) simp
        next
          case False
          have "c \<notin> eb_live m" using fresh2(4) fresh(5) by auto
          from attach_insert [OF bl so fresh2(3) fresh(4) this ac fresh(2) _ fresh2(6) fr, of zero_handler_address h]
          obtain m' where "do {
               m3 \<leftarrow> set_handler_address m2 a (\<lambda>k. k\<lparr>ha_device := h_device h, ha_callback := c\<rparr>);
               m4 \<leftarrow> set_handler_callback m3 c (\<lambda>k. k\<lparr>hc_data := h_data h, hc_read := h_read h, hc_write := h_write h\<rparr>);
               m5 \<leftarrow> set_handler_address m4 a (\<lambda>k. k\<lparr>ha_next := so_first_handler so\<rparr>);
               set_socket m5 s (\<lambda>k. k\<lparr>so_first_handler := a\<rparr>)
             } = Some m'" "bus_list m' s (a # hs)" "bus_of m' (a # hs) = h # bus_of m hs"
            using fresh(5,6) fresh2(7) by auto
          then show ?thesis
            using run ge False by (intro exI [of _ EB_OK] exI [of _ m'] exI [of _ "a # hs"])
              (auto simp: bind_eq_Some_conv)
        qed
      qed
    qed
  qed
qed

subsection \<open>Detaching\<close>

definition detach_spec :: "u64 \<Rightarrow> eb_handler list \<Rightarrow> eb_status_t \<times> eb_handler list" where
  "detach_spec d bs =
     (case dropWhile (\<lambda>b. h_device b \<noteq> d) bs of
        [] \<Rightarrow> (EB_ADDRESS, bs)
      | _ # post \<Rightarrow> (EB_OK, takeWhile (\<lambda>b. h_device b \<noteq> d) bs @ post))"

lemma chain_unlink:
  "chain nx p (pre @ h # post) \<Longrightarrow> nx h = Some q \<Longrightarrow> pre \<noteq> [] \<Longrightarrow> chain (nx(last pre := Some q)) p (pre @ post)"
proof (induction pre arbitrary: p)
  case (Cons x pre)
  then obtain r where r: "p = x" "x \<noteq> EB_NULL" "nx x = Some r" "chain nx r (pre @ h # post)" by auto
  have d: "distinct (x # pre @ h # post)" using chain_distinct [OF Cons.prems(1)] by simp
  show ?case
  proof (cases "pre = []")
    case True
    with r Cons.prems(2) have "chain nx q post" by auto
    then have "chain (nx(x := Some q)) q post" using d by (subst chain_upd) auto
    with True r show ?thesis by (simp add: fun_upd_def del: chain_upd)
  next
    case False
    have "chain (nx(last pre := Some q)) r (pre @ post)" by (rule Cons.IH [OF r(4) Cons.prems(2) False])
    moreover have "x \<noteq> last pre" using d False by auto
    ultimately show ?thesis using r False by (simp add: fun_upd_def del: chain_upd)
  qed
qed simp

text \<open>Unlinking: after the assignment through \<^verbatim>\<open>ptr\<close> the list is the old one without \<open>h\<close>.\<close>

lemma detach_unlink:
  assumes bl: "bus_list m s (pre @ h # post)"
    and so: "EB_SOCKET m s = Some so" "ha_chain m (so_first_handler so) (pre @ h # post)"
  shows "\<exists>m1. (case (if pre = [] then None else Some (last pre)) of
         None \<Rightarrow> set_socket m s (\<lambda>s. s\<lparr>so_first_handler := ha_next (ha_at m h)\<rparr>)
       | Some p \<Rightarrow> set_handler_address m p (\<lambda>a. a\<lparr>ha_next := ha_next (ha_at m h)\<rparr>)) = Some m1 \<and>
     dyn_ok m1 \<and> eb_live m1 = eb_live m \<and>
     (\<exists>so'. EB_SOCKET m1 s = Some so' \<and> ha_chain m1 (so_first_handler so') (pre @ post)) \<and>
     (\<forall>q. q \<noteq> s \<longrightarrow> (pre = [] \<or> q \<noteq> last pre) \<longrightarrow> eb_item m1 q = eb_item m q) \<and>
     (\<forall>x \<in> set (pre @ post). ha_device (ha_at m1 x) = ha_device (ha_at m x) \<and>
                           ha_callback (ha_at m1 x) = ha_callback (ha_at m x))"
proof -
  have ok: "dyn_ok m" using bl by (simp add: bus_list_def)
  have nx: "ha_next_of m h = Some (ha_next (ha_at m h))"
    using ha_chain_at(1) [OF so(2), of h] by (simp add: ha_next_of_def)
  have si: "eb_item m s = Some (Socket_item so)" using so(1) by (simp add: eb_deref)
  show ?thesis
  proof (cases "pre = []")
    case True
    let ?m1 = "eb_put m s (Socket_item (so\<lparr>so_first_handler := ha_next (ha_at m h)\<rparr>))"
    have sh: "same_heap {s} m ?m1" by (rule same_heap_put [OF si]) auto
    have same: "eb_item ?m1 x = eb_item m x" if "x \<in> set post" for x
      using that same_heap_item [OF sh, of x] ha_chain_at(1) [OF so(2), of x] si
      by (cases "x = s") (auto simp: eb_deref)
    have "ha_chain m (ha_next (ha_at m h)) post"
      using so(2) True nx by auto
    then have "ha_chain ?m1 (ha_next (ha_at m h)) post" by (rule ha_chain_frame [OF _ same])
    moreover have "EB_SOCKET ?m1 s = Some (so\<lparr>so_first_handler := ha_next (ha_at m h)\<rparr>)"
      using si by (simp add: eb_deref eb_mem)
    moreover have "\<forall>x \<in> set post. ha_at ?m1 x = ha_at m x" using same ha_at_cong by blast
    ultimately show ?thesis
      using True sh ok by (auto simp: same_heap_def set_socket_Some [OF si])
  next
    case False
    let ?l = "last pre"
    have l: "?l \<in> set (pre @ h # post)" using False by simp
    have il: "eb_item m ?l = Some (Handler_address_item (ha_at m ?l))"
      using ha_chain_at(1) [OF so(2) l] by (simp add: eb_deref)
    let ?m1 = "eb_put m ?l (Handler_address_item ((ha_at m ?l)\<lparr>ha_next := ha_next (ha_at m h)\<rparr>))"
    have sh: "same_heap {?l} m ?m1" by (rule same_heap_put [OF il]) auto
    have il1: "eb_item ?m1 ?l = Some (Handler_address_item ((ha_at m ?l)\<lparr>ha_next := ha_next (ha_at m h)\<rparr>))"
      using il by (simp add: eb_mem)
    have "ha_next_of ?m1 x = ((ha_next_of m)(?l := Some (ha_next (ha_at m h)))) x" for x
      using il1 ha_next_of_cong [OF same_heap_item [OF sh]]
      by (cases "x = ?l") (simp_all add: ha_next_of_def EB_HANDLER_ADDRESS_Some)
    then have "ha_next_of ?m1 = (ha_next_of m)(?l := Some (ha_next (ha_at m h)))" by (rule ext)
    then have "ha_chain ?m1 (so_first_handler so) (pre @ post)"
      using chain_unlink [OF so(2) nx False] by simp
    moreover have "EB_SOCKET ?m1 s = Some so"
      using same_heap_item [OF sh, of s] si il by (cases "s = ?l") (auto simp: eb_deref)
    moreover have "ha_device (ha_at ?m1 x) = ha_device (ha_at m x) \<and> ha_callback (ha_at ?m1 x) = ha_callback (ha_at m x)" for x
      using il1 ha_at_cong [OF same_heap_item [OF sh], of x]
      by (cases "x = ?l") (simp_all add: ha_at_def EB_HANDLER_ADDRESS_Some)
    ultimately show ?thesis
      using False sh ok by (auto simp: same_heap_def set_handler_address_Some [OF il])
  qed
qed

lemma eb_socket_detach_refines:
  assumes bl: "bus_list m s hs"
  shows "\<exists>st m' hs'. eb_socket_detach s d m = Some (st, m') \<and> bus_list m' s hs' \<and>
     detach_spec d (bus_of m hs) = (st, bus_of m' hs')"
proof -
  from bl obtain so where so: "EB_SOCKET m s = Some so" "ha_chain m (so_first_handler so) hs"
    by (auto simp: bus_list_def)
  let ?P = "\<lambda>h. ha_device (ha_at m h) \<noteq> d"
  have dev: "h_device (handler_of m h) = ha_device (ha_at m h)" for h by (simp add: handler_of_def Let_def)
  have dw: "dropWhile (\<lambda>b. h_device b \<noteq> d) (bus_of m hs) = map (handler_of m) (dropWhile ?P hs)"
    "takeWhile (\<lambda>b. h_device b \<noteq> d) (bus_of m hs) = map (handler_of m) (takeWhile ?P hs)"
    by (simp_all add: bus_of_def dropWhile_map takeWhile_map comp_def dev)
  show ?thesis
  proof (cases "dropWhile ?P hs")
    case Nil
    have "eb_socket_detach s d m = Some (EB_ADDRESS, m)"
      using so(1) eb_detach_find_chain [OF so(2), of d None, unfolded Nil]
      by (simp add: eb_socket_detach_def Let_def)
    moreover have "detach_spec d (bus_of m hs) = (EB_ADDRESS, bus_of m hs)"
      unfolding detach_spec_def dw Nil by simp
    ultimately show ?thesis using bl by blast
  next
    case (Cons h post)
    define pre where "pre = takeWhile ?P hs"
    have hs: "hs = pre @ h # post" unfolding pre_def Cons [symmetric] by simp
    from bl have bl': "bus_list m s (pre @ h # post)" by (simp add: hs)
    have so': "ha_chain m (so_first_handler so) (pre @ h # post)" using so(2) by (simp add: hs)
    let ?c = "ha_callback (ha_at m h)" and ?ptr = "if pre = [] then None else Some (last pre)"
    obtain m1 where m1: "(case ?ptr of
           None \<Rightarrow> set_socket m s (\<lambda>s. s\<lparr>so_first_handler := ha_next (ha_at m h)\<rparr>)
         | Some p \<Rightarrow> set_handler_address m p (\<lambda>a. a\<lparr>ha_next := ha_next (ha_at m h)\<rparr>)) = Some m1"
        "dyn_ok m1" "eb_live m1 = eb_live m"
        "\<exists>so'. EB_SOCKET m1 s = Some so' \<and> ha_chain m1 (so_first_handler so') (pre @ post)"
        "\<And>q. q \<noteq> s \<Longrightarrow> pre = [] \<or> q \<noteq> last pre \<Longrightarrow> eb_item m1 q = eb_item m q"
        "\<forall>x \<in> set (pre @ post). ha_device (ha_at m1 x) = ha_device (ha_at m x) \<and>
             ha_callback (ha_at m1 x) = ha_callback (ha_at m x)"
      using detach_unlink [OF bl' so(1) so'] by blast
    obtain so1 where so1: "EB_SOCKET m1 s = Some so1" "ha_chain m1 (so_first_handler so1) (pre @ post)"
      using m1(4) by blast
    have h: "EB_HANDLER_ADDRESS m h = Some (ha_at m h)" "h \<in> eb_live m" "h \<noteq> EB_NULL"
      using ha_chain_at [OF so'] by auto
    have cb: "EB_HANDLER_CALLBACK m (ha_callback (ha_at m x)) \<noteq> None" if "x \<in> set (pre @ h # post)" for x
      using that bl' by (auto simp: bus_list_def list_all_iff)
    then have cl: "?c \<in> eb_live m" using hc_live by fastforce
    have ch: "?c \<noteq> h" using cb [of h] h(1) by (auto simp: eb_deref)
    obtain m2 where m2: "eb_free_memory_item ?c m1 = Some m2" "dyn_ok m2" "eb_live m2 = eb_live m1 - {?c}"
        "\<And>q. q \<noteq> ?c \<Longrightarrow> eb_item m2 q = eb_item m1 q"
      using free_item_ok [OF m1(2), of ?c] cl m1(3) by auto
    have "h \<in> eb_live m2" using m2(3) m1(3) h(2) ch by auto
    then obtain m3 where m3: "eb_free_memory_item h m2 = Some m3" "dyn_ok m3"
        "\<And>q. q \<noteq> h \<Longrightarrow> eb_item m3 q = eb_item m2 q"
      using free_item_ok [OF m2(2)] by blast
    have same: "eb_item m3 q = eb_item m1 q" if "q \<noteq> ?c" "q \<noteq> h" for q using that m2(4) m3(3) by auto
    have run: "eb_socket_detach s d m = Some (EB_OK, m3)"
    proof -
      have "eb_detach_find m d None (so_first_handler so) = Some (?ptr, h)"
        using eb_detach_find_chain [OF so(2), of d None] Cons by (simp add: Let_def pre_def)
      then show ?thesis
        using so(1) h m1(1) m2(1) m3(1) by (auto simp: eb_socket_detach_def split: if_splits)
    qed
    have dist: "distinct (pre @ h # post)" by (rule chain_distinct [OF so'])
    have dcb: "distinct (map (\<lambda>x. ha_callback (ha_at m x)) (pre @ h # post))" using bl' by (simp add: bus_list_def)
    have tag: "x \<noteq> ?c" "x \<noteq> s" "ha_callback (ha_at m x) \<noteq> s"
        "\<And>y. y \<in> set (pre @ h # post) \<Longrightarrow> ha_callback (ha_at m x) \<noteq> y" if "x \<in> set (pre @ h # post)" for x
      using cb [OF that] cb [of h] ha_chain_at(1) [OF so'] that so(1) by (auto simp: eb_deref)
    have x3: "eb_item m3 x = eb_item m1 x" if "x \<in> set (pre @ post)" for x
      using that tag(1) [of x] dist by (intro same) auto
    have c3: "eb_item m3 (ha_callback (ha_at m x)) = eb_item m (ha_callback (ha_at m x))" if "x \<in> set (pre @ post)" for x
    proof -
      have "?c \<notin> (\<lambda>x. ha_callback (ha_at m x)) ` set (pre @ post)" using dcb by auto
      then have "ha_callback (ha_at m x) \<noteq> ?c" using that by (metis imageI)
      moreover have "ha_callback (ha_at m x) \<noteq> h" "ha_callback (ha_at m x) \<noteq> s" using that tag by auto
      moreover have "pre = [] \<or> ha_callback (ha_at m x) \<noteq> last pre"
        using that tag(4) [of x "last pre"] by (cases "pre = []") auto
      ultimately show ?thesis using same m1(5) by simp
    qed
    have at3: "ha_device (ha_at m3 x) = ha_device (ha_at m x)" "ha_callback (ha_at m3 x) = ha_callback (ha_at m x)"
      if "x \<in> set (pre @ post)" for x using m1(6) that ha_at_cong [OF x3 [OF that]] by auto
    have "eb_item m3 s = eb_item m1 s" using tag(2) [of h] tag(3) [of h] by (intro same) auto
    then have "EB_SOCKET m3 s = Some so1" using so1(1) by (simp add: EB_SOCKET_def)
    moreover have "ha_chain m3 (so_first_handler so1) (pre @ post)" by (rule ha_chain_frame [OF so1(2) x3])
    moreover have "list_all (\<lambda>x. EB_HANDLER_CALLBACK m3 (ha_callback (ha_at m3 x)) \<noteq> None) (pre @ post)"
      unfolding list_all_iff
    proof
      fix x assume x: "x \<in> set (pre @ post)"
      then have "EB_HANDLER_CALLBACK m (ha_callback (ha_at m x)) \<noteq> None" using cb by auto
      then show "EB_HANDLER_CALLBACK m3 (ha_callback (ha_at m3 x)) \<noteq> None"
        using c3 [OF x] at3(2) [OF x] by (simp add: EB_HANDLER_CALLBACK_def)
    qed
    moreover have "distinct (map (\<lambda>x. ha_callback (ha_at m3 x)) (pre @ post))"
    proof -
      have "map (\<lambda>x. ha_callback (ha_at m3 x)) (pre @ post) = map (\<lambda>x. ha_callback (ha_at m x)) (pre @ post)"
        using at3(2) by (intro map_cong) auto
      then show ?thesis using dcb by (simp only:) auto
    qed
    ultimately have "bus_list m3 s (pre @ post)" using m3(2) unfolding bus_list_def by blast
    moreover have "bus_of m3 (pre @ post) = map (handler_of m) (pre @ post)"
      unfolding bus_of_def
    proof (rule map_cong [OF refl])
      fix x assume x: "x \<in> set (pre @ post)"
      show "handler_of m3 x = handler_of m x"
        using at3 [OF x] hc_at_cong [OF c3 [OF x]] by (simp add: handler_of_def)
    qed
    moreover have "detach_spec d (bus_of m hs) = (EB_OK, map (handler_of m) (pre @ post))"
      by (simp add: detach_spec_def dw Cons pre_def)
    ultimately show ?thesis using run by (intro exI [of _ EB_OK] exI [of _ m3] exI [of _ "pre @ post"]) simp
  qed
qed

section \<open>Sequences of calls\<close>

datatype bus_call = Attach eb_handler | Detach u64

fun bus_step :: "'w eb_env \<Rightarrow> eb_ptr \<Rightarrow> bus_call \<Rightarrow> eb_memory \<Rightarrow> (eb_status_t \<times> eb_memory) option" where
  "bus_step env s (Attach h) m = eb_socket_attach env s h m"
| "bus_step env s (Detach d) m = eb_socket_detach s d m"

text \<open>The contract: attaching may also run out of memory, which changes nothing.\<close>

fun bus_spec :: "'w eb_env \<Rightarrow> bus_call \<Rightarrow> eb_handler list \<Rightarrow> (eb_status_t \<times> eb_handler list) set" where
  "bus_spec env (Attach h) bs = {attach_spec env h bs, (EB_OOM, bs)}"
| "bus_spec env (Detach d) bs = {detach_spec d bs}"

definition bus_rep :: "eb_ptr \<Rightarrow> eb_memory \<Rightarrow> eb_handler list \<Rightarrow> bool" where
  "bus_rep s m bs \<longleftrightarrow> (\<exists>hs. bus_list m s hs \<and> bs = bus_of m hs)"

interpretation bus: refinement "bus_rep s" "bus_step env s" "bus_spec env" for env s
proof
  fix m bs c assume "bus_rep s m bs"
  then obtain hs where hs: "bus_list m s hs" "bs = bus_of m hs" by (auto simp: bus_rep_def)
  show "\<exists>r m' bs'. bus_step env s c m = Some (r, m') \<and> (r, bs') \<in> bus_spec env c bs \<and> bus_rep s m' bs'"
  proof (cases c)
    case (Attach h)
    with eb_socket_attach_refines [OF hs(1), of env h] hs(2) show ?thesis by (fastforce simp: bus_rep_def)
  next
    case (Detach d)
    with eb_socket_detach_refines [OF hs(1), of d] hs(2) show ?thesis by (fastforce simp: bus_rep_def)
  qed
qed

lemma overlaps_sym: "overlaps r s = overlaps s r"
  by (auto simp: overlaps_def)

lemma disjoint_ranges_append:
  "disjoint_ranges (xs @ ys) \<longleftrightarrow> disjoint_ranges xs \<and> disjoint_ranges ys \<and> (\<forall>x \<in> set xs. \<forall>y \<in> set ys. \<not> overlaps x y)"
  by (induction xs) auto

lemma bus_ok_step: "bus_ok env bs \<Longrightarrow> (r, bs') \<in> bus_spec env c bs \<Longrightarrow> bus_ok env bs'"
proof (cases c)
  case (Detach d)
  let ?P = "\<lambda>b. h_device b \<noteq> d"
  assume ok: "bus_ok env bs" and s: "(r, bs') \<in> bus_spec env c bs"
  show ?thesis
  proof (cases "dropWhile ?P bs")
    case Nil
    then have "bs' = bs" using s unfolding Detach bus_spec.simps detach_spec_def Nil by simp
    then show ?thesis using ok by simp
  next
    case (Cons x post)
    then have bs: "bs = takeWhile ?P bs @ x # post" by (metis takeWhile_dropWhile_id)
    have "bs' = takeWhile ?P bs @ post" using s Detach Cons by (simp add: detach_spec_def)
    moreover have "disjoint_ranges (map (range_of env) (takeWhile ?P bs @ x # post))"
      and "list_all (\<lambda>b. 0x4000 \<le> fst (range_of env b)) (takeWhile ?P bs @ x # post)"
      using ok bs by (simp_all add: bus_ok_def)
    ultimately show ?thesis by (auto simp: bus_ok_def disjoint_ranges_append)
  qed
qed (auto simp: bus_ok_def split: if_splits)

lemma disjoint_ranges_unique:
  assumes "disjoint_ranges (map f xs)" and "x \<in> set xs" and "in_range a (f x)"
  shows "\<exists>ys. dropWhile (\<lambda>x. \<not> in_range a (f x)) xs = x # ys"
  using assms
proof (induction xs)
  case (Cons y xs)
  show ?case
  proof (cases "in_range a (f y)")
    case True
    have "y = x" if "x \<in> set xs"
      using Cons.prems(1,3) True that by (auto simp: overlaps_def in_range_def)
    with True Cons.prems(2) show ?thesis by auto
  next
    case False
    with Cons show ?thesis by auto
  qed
qed simp

text \<open>The owner of an address.\<close>

lemma bus_ok_disjoint: "bus_ok env (bus_of m hs) \<Longrightarrow> disjoint_ranges (map (ha_range env m) hs)"
  by (simp add: bus_ok_def bus_of_def comp_def range_of_handler)

lemma bus_ok_above: "bus_ok env (bus_of m hs) \<Longrightarrow> h \<in> set hs \<Longrightarrow> 0x4000 \<le> fst (ha_range env m h)"
  by (auto simp: bus_ok_def bus_of_def list_all_iff range_of_handler)

lemma eb_find_handler_owner:
  assumes "ha_chain m p hs" and "bus_ok env (bus_of m hs)" and "h \<in> set hs" and "in_range a (ha_range env m h)"
  shows "eb_find_handler env m a p = Some h"
proof -
  obtain ys where "dropWhile (\<lambda>h. \<not> in_range a (ha_range env m h)) hs = h # ys"
    using disjoint_ranges_unique [OF bus_ok_disjoint [OF assms(2)] assms(3,4)] by blast
  then show ?thesis unfolding eb_find_handler_chain [OF assms(1)] by simp
qed

lemma eb_find_handler_none:
  assumes "ha_chain m p hs" and "\<forall>h \<in> set hs. \<not> in_range a (ha_range env m h)"
  shows "eb_find_handler env m a p = Some EB_NULL"
proof -
  have "dropWhile (\<lambda>h. \<not> in_range a (ha_range env m h)) hs = []"
    using assms(2) unfolding dropWhile_eq_Nil_conv .
  then show ?thesis unfolding eb_find_handler_chain [OF assms(1)] by (simp only: head_ptr_simps)
qed

section \<open>Properties\<close>

text \<open>C11: no sequence of attach and detach calls on a socket faults; their results and the list of
  attached handlers are those of the specification (a list of handlers to which only ranges above
  the reserved space that overlap no other are added), and the attached ranges stay pairwise
  disjoint and at or above \<^verbatim>\<open>0x4000\<close>.\<close>

theorem bus_calls_refine:
  assumes "bus_list m s hs" and "bus_ok env (bus_of m hs)"
  shows "\<exists>rs m' hs'. run_seq (bus_step env s) cs m = Some (rs, m') \<and> bus_list m' s hs' \<and>
     spec_seq (bus_spec env) cs (bus_of m hs) rs (bus_of m' hs') \<and> bus_ok env (bus_of m' hs')"
proof -
  have "bus_rep s m (bus_of m hs)" using assms(1) by (auto simp: bus_rep_def)
  then have "\<exists>rs m' bs. run_seq (bus_step env s) cs m = Some (rs, m') \<and>
      spec_seq (bus_spec env) cs (bus_of m hs) rs bs \<and> bus_rep s m' bs \<and> bus_ok env bs"
    using assms(2) by (intro bus.run_invariant) (rule bus_ok_step)
  then show ?thesis by (auto simp: bus_rep_def)
qed

text \<open>C35: address lookup finds the owner. Whatever was attached and detached before, for every
  attached handler and every address in its range the search along the handler list returns that
  handler and no other, and for an address in no range it returns the null pointer.\<close>

theorem handler_lookup:
  assumes "bus_list m s hs" and "bus_ok env (bus_of m hs)" and "EB_SOCKET m s = Some so"
  shows "(\<forall>h \<in> set hs. in_range a (ha_range env m h) \<longrightarrow>
            eb_find_handler env m a (so_first_handler so) = Some h) \<and>
     ((\<forall>h \<in> set hs. \<not> in_range a (ha_range env m h)) \<longrightarrow>
        eb_find_handler env m a (so_first_handler so) = Some EB_NULL)"
proof -
  have ch: "ha_chain m (so_first_handler so) hs" using assms(1,3) by (auto simp: bus_list_def)
  show ?thesis
    using eb_find_handler_owner [OF ch assms(2)] eb_find_handler_none [OF ch] by blast
qed

text \<open>A socket with one attached device and its callback.\<close>

definition demo_attached :: eb_memory where
  "demo_attached = heap_of [Socket_item (zero_socket\<lparr>so_first_handler := 129\<rparr>),
     Handler_address_item \<lparr>ha_device = 1, ha_callback = 130, ha_next = EB_NULL\<rparr>,
     Handler_callback_item \<lparr>hc_data = 5, hc_read = Some 0, hc_write = Some 0\<rparr>]"

lemma demo_attached_items:
  "EB_SOCKET demo_attached 128 = Some (zero_socket\<lparr>so_first_handler := 129\<rparr>)"
  "EB_HANDLER_ADDRESS demo_attached 129 = Some \<lparr>ha_device = 1, ha_callback = 130, ha_next = EB_NULL\<rparr>"
  "EB_HANDLER_CALLBACK demo_attached 130 = Some \<lparr>hc_data = 5, hc_read = Some 0, hc_write = Some 0\<rparr>"
  by (simp_all add: demo_attached_def heap_of_def EB_SOCKET_def EB_HANDLER_ADDRESS_def
      EB_HANDLER_CALLBACK_def eb_item_def in_array_def)

lemma demo_bus_list: "bus_list demo_attached 128 [129]" "bus_ok demo_env (bus_of demo_attached [129])"
proof -
  have "dyn_ok demo_attached" unfolding demo_attached_def by (rule heap_of_ok) auto
  moreover have "(129 :: eb_ptr) \<noteq> EB_NULL" by (simp add: EB_NULL_def)
  ultimately show "bus_list demo_attached 128 [129]"
    by (simp add: bus_list_def demo_attached_items ha_next_of_def ha_at_def)
  show "bus_ok demo_env (bus_of demo_attached [129])"
    by (simp add: bus_ok_def bus_of_def range_of_handler ha_range_def demo_env_def demo_sdb_device_def)
qed

theorem bus_calls_refine_witness:
  "\<exists>rs m' hs'. run_seq (bus_step demo_env 128)
      [Attach \<lparr>h_device = 2, h_data = 0, h_read = None, h_write = None\<rparr>, Detach 1] demo_attached = Some (rs, m') \<and>
     bus_list m' 128 hs' \<and> bus_ok demo_env (bus_of m' hs')"
  using bus_calls_refine [OF demo_bus_list, where cs = "[Attach \<lparr>h_device = 2, h_data = 0, h_read = None,
      h_write = None\<rparr>, Detach 1]"] by blast

theorem handler_lookup_witness:
  "eb_find_handler demo_env demo_attached 0x10004 129 = Some 129"
proof -
  have "in_range 0x10004 (ha_range demo_env demo_attached 129)"
    by (simp add: in_range_def ha_range_def demo_env_def demo_sdb_device_def)
  then show ?thesis
    using handler_lookup [OF demo_bus_list demo_attached_items(1)] by simp
qed

text \<open>C36: attaching a device in the reserved range below 0x4000 is always refused with \<^verbatim>\<open>EB_ADDRESS\<close> (when
  there is memory for the two objects the call allocates), and the two objects are not given
  back: after the call two more objects are in use, and everything else is as before.\<close>

theorem attach_reserved_leaks:
  assumes "dyn_ok m" and "fst (range_of env h) < 0x4000" and "room_for 2 m"
  shows "\<exists>m'. eb_socket_attach env s h m = Some (EB_ADDRESS, m') \<and> card (eb_live m') = card (eb_live m) + 2 \<and>
     (\<forall>q \<in> eb_live m. eb_item m' q = eb_item m q)"
proof -
  let ?a = "Handler_address_item zero_handler_address" and ?c = "Handler_callback_item zero_handler_callback"
  have r2: "room_for (Suc (Suc 0)) m" using assms(3) by (simp add: numeral_2_eq_2)
  have "\<not> is_Free_item ?a" by simp
  with assms(1) show ?thesis
  proof (cases rule: new_item_cases)
    case oom
    with room_for_new [OF assms(1) _ r2, of ?a] show ?thesis by simp
  next
    case (fresh a m1)
    then have r1: "room_for (Suc 0) m1" using room_for_new [OF assms(1) _ r2, of ?a] by simp
    have "\<not> is_Free_item ?c" by simp
    with fresh(3) show ?thesis
    proof (cases rule: new_item_cases)
      case oom
      with room_for_new [OF fresh(3) _ r1, of ?c] show ?thesis by simp
    next
      case fresh2: (fresh c m2)
      have "eb_socket_attach env s h m = Some (EB_ADDRESS, m2)"
        using fresh(1,2) fresh2(1,2) assms(2)
        by (simp add: eb_socket_attach_def eb_new_handler_address_def eb_new_handler_callback_def
            Let_def range_of_def)
      moreover have "finite (eb_live m)" by simp
      ultimately show ?thesis using fresh(4,5,7) fresh2(4,5,7) by simp
    qed
  qed
qed

definition demo_low_env :: "unit eb_env" where
  "demo_low_env = demo_env\<lparr>env_device := (\<lambda>_. demo_sdb_device\<lparr>dv_component :=
     (dv_component demo_sdb_device)\<lparr>addr_first := 0x100\<rparr>\<rparr>)\<rparr>"

theorem attach_reserved_leaks_witness:
  "\<exists>m'. eb_socket_attach demo_low_env 128 \<lparr>h_device = 1, h_data = 0, h_read = None, h_write = None\<rparr>
      demo_attached = Some (EB_ADDRESS, m') \<and> card (eb_live m') = card (eb_live demo_attached) + 2"
proof -
  let ?h = "\<lparr>h_device = 1, h_data = 0, h_read = None, h_write = None\<rparr>"
  have "fst (range_of demo_low_env ?h) < 0x4000" by (simp add: range_of_def demo_low_env_def)
  moreover have "dyn_ok demo_attached" using demo_bus_list(1) by (simp add: bus_list_def)
  moreover have "room_for 2 demo_attached" unfolding demo_attached_def by (rule heap_of_room) simp_all
  ultimately show ?thesis using attach_reserved_leaks [of demo_attached demo_low_env ?h 128] by blast
qed

end
