(* ===== verification/Eb_Socket.thy ===== *)
theory Eb_Socket
  imports Eb_Handler
begin

text \<open>
  Sockets and their queue of outstanding responses (\<^verbatim>\<open>api/glue/socket.c\<close>). The queue is kept as two
  lists, \<^verbatim>\<open>first_response\<close> in order and \<^verbatim>\<open>last_response\<close> in reverse; the lemmas show that together they
  behave as one FIFO queue. Polling (\<^verbatim>\<open>eb_socket_check\<close>) and opening are in theory \<open>Eb_Check\<close>.
\<close>

section \<open>Model\<close>

definition resp_next_of :: "eb_memory \<Rightarrow> eb_ptr \<Rightarrow> eb_ptr option" where
  "resp_next_of m p = do { response \<leftarrow> EB_RESPONSE m p; Some (resp_next response) }"

definition set_resp_next :: "eb_memory \<Rightarrow> eb_ptr \<Rightarrow> eb_ptr \<Rightarrow> eb_memory option" where
  "set_resp_next m p v = set_response m p (\<lambda>r. r\<lparr>resp_next := v\<rparr>)"

partial_function (option) eb_response_flip_loop ::
    "eb_memory \<Rightarrow> eb_ptr \<Rightarrow> eb_ptr \<Rightarrow> (eb_ptr \<times> eb_memory) option" where
  "eb_response_flip_loop m responsep prev_responsep =
     (if responsep = EB_NULL then Some (prev_responsep, m)
      else do {
        next_responsep \<leftarrow> resp_next_of m responsep;
        m \<leftarrow> set_resp_next m responsep prev_responsep;
        eb_response_flip_loop m next_responsep responsep
      })"

definition eb_response_flip :: "eb_ptr \<Rightarrow> eb_memory \<Rightarrow> (eb_ptr \<times> eb_memory) option" where
  "eb_response_flip firstp m = eb_response_flip_loop m firstp EB_NULL"

text \<open>The loop of \<^verbatim>\<open>eb_socket_close\<close> over the handlers and the one over the transports.\<close>

partial_function (option) free_handlers :: "eb_ptr \<Rightarrow> eb_memory \<Rightarrow> eb_memory option" where
  "free_handlers i m =
     (if i = EB_NULL then Some m
      else do {
        handler \<leftarrow> EB_HANDLER_ADDRESS m i;
        let next = ha_next handler;
        m \<leftarrow> eb_free_handler_callback (ha_callback handler) m;
        m \<leftarrow> eb_free_handler_address i m;
        free_handlers next m
      })"

partial_function (option) close_transports :: "'w eb_env \<Rightarrow> eb_ptr \<Rightarrow> 'w eb_state \<Rightarrow> 'w eb_state option" where
  "close_transports env transportp st =
     (if transportp = EB_NULL then Some st
      else do {
        transport \<leftarrow> EB_TRANSPORT (st_mem st) transportp;
        let next_transportp = tr_next transport;
        ops \<leftarrow> tops env (tr_link_type transport);
        let st = on_world (tops_close ops transport) st;
        st \<leftarrow> on_mem (eb_free_transport transportp) st;
        close_transports env next_transportp st
      })"

definition eb_socket_close :: "'w eb_env \<Rightarrow> eb_ptr \<Rightarrow> 'w eb_state \<Rightarrow> (eb_status_t \<times> 'w eb_state) option" where
  "eb_socket_close env socketp st = do {
     socket \<leftarrow> EB_SOCKET (st_mem st) socketp;
     if so_first_device socket \<noteq> EB_NULL then Some (EB_BUSY, st)
     else do {
       st \<leftarrow> on_mem (free_handlers (so_first_handler socket)) st;
       let auxp = so_aux socket;
       aux \<leftarrow> EB_SOCKET_AUX (st_mem st) auxp;
       st \<leftarrow> close_transports env (aux_first_transport aux) st;
       st \<leftarrow> on_mem (eb_free_socket socketp) st;
       st \<leftarrow> on_mem (eb_free_socket_aux auxp) st;
       Some (EB_OK, st)
     }
   }"

partial_function (option) eb_socket_filter_inflight ::
    "eb_ptr \<Rightarrow> eb_ptr \<Rightarrow> eb_ptr \<Rightarrow> eb_ptr \<Rightarrow> eb_memory \<Rightarrow> (eb_ptr \<times> eb_ptr \<times> eb_memory) option" where
  "eb_socket_filter_inflight good bad devicep responsep m =
     (if responsep = EB_NULL then Some (good, bad, m)
      else do {
        response \<leftarrow> EB_RESPONSE m responsep;
        let next_responsep = resp_next response;
        cycle \<leftarrow> EB_CYCLE m (resp_cycle response);
        if cy_un_link cycle = devicep then do {
          m \<leftarrow> set_resp_next m responsep bad;
          eb_socket_filter_inflight good responsep devicep next_responsep m
        } else do {
          m \<leftarrow> set_resp_next m responsep good;
          eb_socket_filter_inflight responsep bad devicep next_responsep m
        }
      })"

text \<open>Running a cycle's callback and releasing the cycle and its operations.\<close>

definition finish_cycle ::
    "'w eb_env \<Rightarrow> eb_ptr \<Rightarrow> eb_ptr \<Rightarrow> eb_status_t \<Rightarrow> 'w eb_state \<Rightarrow> 'w eb_state option" where
  "finish_cycle env cyclep operationp status st = do {
     cycle \<leftarrow> EB_CYCLE (st_mem st) cyclep;
     st \<leftarrow> run_callback env (cy_callback cycle) (cy_user_data cycle) (cy_un_link cycle) operationp status st;
     st \<leftarrow> on_mem (eb_cycle_destroy cyclep) st;
     on_mem (eb_free_cycle cyclep) st
   }"

partial_function (option) kill_responses :: "'w eb_env \<Rightarrow> eb_ptr \<Rightarrow> 'w eb_state \<Rightarrow> 'w eb_state option" where
  "kill_responses env responsep st =
     (if responsep = EB_NULL then Some st
      else do {
        response \<leftarrow> EB_RESPONSE (st_mem st) responsep;
        let next_responsep = resp_next response;
        let cyclep = resp_cycle response;
        cycle \<leftarrow> EB_CYCLE (st_mem st) cyclep;
        st \<leftarrow> on_mem (\<lambda>m. set_response m responsep (\<lambda>r. r\<lparr>resp_cycle := EB_NULL\<rparr>)) st;
        st \<leftarrow> finish_cycle env cyclep (cy_un_ops cycle) EB_TIMEOUT st;
        st \<leftarrow> on_mem (eb_free_response responsep) st;
        kill_responses env next_responsep st
      })"

definition eb_socket_kill_inflight :: "'w eb_env \<Rightarrow> eb_ptr \<Rightarrow> eb_ptr \<Rightarrow> 'w eb_state \<Rightarrow> 'w eb_state option" where
  "eb_socket_kill_inflight env socketp devicep st = do {
     socket \<leftarrow> EB_SOCKET (st_mem st) socketp;
     (bad, st) \<leftarrow> alloc_mem (\<lambda>m. do {
        (good, bad, m) \<leftarrow> eb_socket_filter_inflight EB_NULL EB_NULL devicep (so_last_response socket) m;
        (first, m) \<leftarrow> eb_response_flip (so_first_response socket) m;
        (good, bad, m) \<leftarrow> eb_socket_filter_inflight good bad devicep first m;
        m \<leftarrow> set_socket m socketp (\<lambda>s. s\<lparr>so_first_response := good, so_last_response := EB_NULL\<rparr>);
        Some (bad, m)
      }) st;
     kill_responses env bad st
   }"

partial_function (option) fdes_transports :: "'w eb_env \<Rightarrow> eb_ptr \<Rightarrow> 'w eb_state \<Rightarrow> 'w eb_state option" where
  "fdes_transports env transportp st =
     (if transportp = EB_NULL then Some st
      else do {
        transport \<leftarrow> EB_TRANSPORT (st_mem st) transportp;
        ops \<leftarrow> tops env (tr_link_type transport);
        fdes_transports env (tr_next transport) (on_world (tops_fdes ops transport None) st)
      })"

partial_function (option) fdes_devices :: "'w eb_env \<Rightarrow> eb_ptr \<Rightarrow> 'w eb_state \<Rightarrow> 'w eb_state option" where
  "fdes_devices env devicep st =
     (if devicep = EB_NULL then Some st
      else do {
        device \<leftarrow> EB_DEVICE (st_mem st) devicep;
        let linkp = dev_link device;
        if linkp \<noteq> EB_NULL then do {
          link \<leftarrow> EB_LINK (st_mem st) linkp;
          transport \<leftarrow> EB_TRANSPORT (st_mem st) (dev_transport device);
          ops \<leftarrow> tops env (tr_link_type transport);
          fdes_devices env (dev_next device) (on_world (tops_fdes ops transport (Some link)) st)
        } else fdes_devices env (dev_next device) st
      })"

definition eb_socket_descriptors :: "'w eb_env \<Rightarrow> eb_ptr \<Rightarrow> 'w eb_state \<Rightarrow> 'w eb_state option" where
  "eb_socket_descriptors env socketp st = do {
     socket \<leftarrow> EB_SOCKET (st_mem st) socketp;
     aux \<leftarrow> EB_SOCKET_AUX (st_mem st) (so_aux socket);
     st \<leftarrow> fdes_transports env (aux_first_transport aux) st;
     fdes_devices env (so_first_device socket) st
   }"

text \<open>The sign conversion of the 16-bit difference is \<open>scast\<close>.\<close>

definition eb_socket_timeout :: "eb_ptr \<Rightarrow> eb_memory \<Rightarrow> (u32 \<times> eb_memory) option" where
  "eb_socket_timeout socketp m = do {
     socket \<leftarrow> EB_SOCKET m socketp;
     aux \<leftarrow> EB_SOCKET_AUX m (so_aux socket);
     m \<leftarrow> (if so_first_response socket = EB_NULL then do {
             (first, m) \<leftarrow> eb_response_flip (so_last_response socket) m;
             set_socket m socketp (\<lambda>s. s\<lparr>so_first_response := first, so_last_response := EB_NULL\<rparr>)
           } else Some m);
     socket \<leftarrow> EB_SOCKET m socketp;
     if so_first_response socket \<noteq> EB_NULL then do {
       response \<leftarrow> EB_RESPONSE m (so_first_response socket);
       let udelta = resp_deadline response - ucast (aux_time_cache aux);
       Some (aux_time_cache aux + scast udelta, m)
     } else Some (0, m)
   }"

section \<open>The response queue\<close>

interpretation resp: heap_reverse resp_next_of set_resp_next
    "\<lambda>m p. map_option (\<lambda>r. r\<lparr>resp_next := EB_NULL\<rparr>) (EB_RESPONSE m p)" eb_response_flip_loop
proof
  fix m i prev
  show "eb_response_flip_loop m i prev =
      (if i = EB_NULL then Some (prev, m)
       else Option.bind (resp_next_of m i)
         (\<lambda>next. Option.bind (set_resp_next m i prev) (\<lambda>m'. eb_response_flip_loop m' next i)))"
    by (subst eb_response_flip_loop.simps) simp
next
  fix m i q v assume "resp_next_of m i = Some q"
  then obtain r where i: "eb_item m i = Some (Response_item r)"
    by (auto simp: resp_next_of_def bind_eq_Some_conv eb_deref)
  let ?m' = "eb_put m i (Response_item (r\<lparr>resp_next := v\<rparr>))"
  have s: "same_heap {i} m ?m'" by (rule same_heap_put [OF i]) auto
  have i': "eb_item ?m' i = Some (Response_item (r\<lparr>resp_next := v\<rparr>))" using i by (simp add: eb_mem)
  have o: "EB_RESPONSE ?m' p = EB_RESPONSE m p" if "p \<noteq> i" for p
    using that by (simp add: EB_RESPONSE_def eb_mem)
  have "resp_next_of ?m' p = ((resp_next_of m)(i := Some v)) p" for p
    using i' o by (cases "p = i") (simp_all add: resp_next_of_def EB_RESPONSE_Some)
  moreover have "map_option (\<lambda>r. r\<lparr>resp_next := EB_NULL\<rparr>) (EB_RESPONSE ?m' p) =
      map_option (\<lambda>r. r\<lparr>resp_next := EB_NULL\<rparr>) (EB_RESPONSE m p)" for p
    using i i' o by (cases "p = i") (simp_all add: EB_RESPONSE_Some)
  ultimately show "\<exists>m'. set_resp_next m i v = Some m' \<and> resp_next_of m' = (resp_next_of m)(i := Some v) \<and>
      (\<lambda>p. map_option (\<lambda>r. r\<lparr>resp_next := EB_NULL\<rparr>) (EB_RESPONSE m' p)) =
      (\<lambda>p. map_option (\<lambda>r. r\<lparr>resp_next := EB_NULL\<rparr>) (EB_RESPONSE m p)) \<and> same_heap {i} m m'"
    using s by (intro exI [of _ ?m']) (auto simp: set_resp_next_def set_response_Some [OF i])
qed

end
