(* ===== verification/Eb_Readwrite.thy ===== *)
theory Eb_Readwrite
  imports Eb_Socket
begin

text \<open>
  Inbound accesses (\<^verbatim>\<open>api/glue/readwrite.c\<close>): reads and writes of the local bus are passed to the
  virtual device that owns the address and their failures are shifted into an error register;
  config-space writes carry the answers to the library's own requests back into its operations.
\<close>

section \<open>Config-space writes\<close>

text \<open>\<^verbatim>\<open>responsepp\<close> points to the socket's \<^verbatim>\<open>first_response\<close> (\<open>None\<close>) or to the \<^verbatim>\<open>next\<close> of a response.\<close>

definition load_pp :: "eb_memory \<Rightarrow> eb_ptr \<Rightarrow> eb_ptr option \<Rightarrow> eb_ptr option" where
  "load_pp m socketp pp =
     (case pp of
        None \<Rightarrow> do { socket \<leftarrow> EB_SOCKET m socketp; Some (so_first_response socket) }
      | Some p \<Rightarrow> resp_next_of m p)"

definition store_pp :: "eb_ptr \<Rightarrow> eb_ptr option \<Rightarrow> eb_ptr \<Rightarrow> eb_memory \<Rightarrow> eb_memory option" where
  "store_pp socketp pp v m =
     (case pp of
        None \<Rightarrow> set_socket m socketp (\<lambda>s. s\<lparr>so_first_response := v\<rparr>)
      | Some p \<Rightarrow> set_resp_next m p v)"

text \<open>Walking the response queue; \<open>None\<close> inside is "no matching response record".\<close>

partial_function (option) find_response ::
    "eb_ptr \<Rightarrow> eb_address_t \<Rightarrow> eb_ptr option \<Rightarrow> eb_memory \<Rightarrow> ((eb_ptr option \<times> eb_ptr) option \<times> eb_memory) option" where
  "find_response socketp addr responsepp m = do {
     responsep \<leftarrow> load_pp m socketp responsepp;
     (responsep, m) \<leftarrow> (if responsep = EB_NULL then do {
          socket \<leftarrow> EB_SOCKET m socketp;
          (flipped, m) \<leftarrow> eb_response_flip (so_last_response socket) m;
          m \<leftarrow> store_pp socketp responsepp flipped m;
          m \<leftarrow> set_socket m socketp (\<lambda>s. s\<lparr>so_last_response := EB_NULL\<rparr>);
          Some (flipped, m)
        } else Some (responsep, m));
     if responsep = EB_NULL then Some (None, m)
     else do {
       response \<leftarrow> EB_RESPONSE m responsep;
       if ucast (resp_address response) = addr AND 0xFFFE then Some (Some (responsepp, responsep), m)
       else find_response socketp addr (Some responsep) m
     }
   }"

partial_function (option) count_status :: "eb_memory \<Rightarrow> int \<Rightarrow> eb_ptr \<Rightarrow> int \<Rightarrow> int option" where
  "count_status m maxops operationp ops =
     (if operationp = EB_NULL then Some ops
      else do {
        operation \<leftarrow> EB_OPERATION m operationp;
        if op_flags operation AND EB_OP_CFG_SPACE \<noteq> 0 then count_status m maxops (op_next operation) ops
        else if ops + 1 = maxops then Some (ops + 1)
        else count_status m maxops (op_next operation) (ops + 1)
      })"

text \<open>\<open>n\<close> is \<^verbatim>\<open>i + 1\<close>; the operation the loop stops at is returned. The shift by \<^verbatim>\<open>i\<close> is undefined from 64 on.\<close>

partial_function (option) assign_status ::
    "eb_data_t \<Rightarrow> nat \<Rightarrow> eb_ptr \<Rightarrow> eb_memory \<Rightarrow> (eb_ptr \<times> eb_memory) option" where
  "assign_status value n operationp m =
     (if n = 0 then Some (operationp, m)
      else do {
        operation \<leftarrow> EB_OPERATION m operationp;
        if op_flags operation AND EB_OP_CFG_SPACE \<noteq> 0 then assign_status value n (op_next operation) m
        else if 64 < n then None
        else do {
          m \<leftarrow> set_operation m operationp (\<lambda>op. op\<lparr>op_flags :=
                  op_flags op OR EB_OP_ERROR * ucast (drop_bit (n - 1) value AND 1)\<rparr>);
          assign_status value (n - 1) (op_next operation) m
        }
      })"

partial_function (option) had_error_loop :: "eb_memory \<Rightarrow> eb_ptr \<Rightarrow> eb_status_t \<Rightarrow> eb_status_t option" where
  "had_error_loop m operationp status =
     (if operationp = EB_NULL then Some status
      else do {
        operation \<leftarrow> EB_OPERATION m operationp;
        had_error_loop m (op_next operation)
          (if op_flags operation AND EB_OP_ERROR \<noteq> 0 then EB_SEGFAULT else status)
      })"

definition write_cursor_update :: "eb_ptr \<Rightarrow> eb_data_t \<Rightarrow> 'w eb_state \<Rightarrow> (bool \<times> 'w eb_state) option" where
  "write_cursor_update responsep value st = do {
     response \<leftarrow> EB_RESPONSE (st_mem st) responsep;
     if resp_write_cursor response = EB_NULL then Some (True, st)
     else do {
       operation \<leftarrow> EB_OPERATION (st_mem st) (resp_write_cursor response);
       st \<leftarrow> (if op_flags operation AND EB_OP_MASK = EB_OP_READ_PTR
              then Some (st\<lparr>st_user := (st_user st)(op_un_value operation := value)\<rparr>)
              else on_mem (\<lambda>m. set_operation m (resp_write_cursor response) (\<lambda>op. op\<lparr>op_un_value := value\<rparr>)) st);
       next \<leftarrow> eb_find_read (st_mem st) (op_next operation);
       st \<leftarrow> on_mem (\<lambda>m. set_response m responsep (\<lambda>r. r\<lparr>resp_write_cursor := next\<rparr>)) st;
       Some (False, st)
     }
   }"

definition status_cursor_update ::
    "eb_width_t \<Rightarrow> eb_ptr \<Rightarrow> eb_data_t \<Rightarrow> 'w eb_state \<Rightarrow> (bool \<times> 'w eb_state) option" where
  "status_cursor_update widths responsep value st = do {
     response \<leftarrow> EB_RESPONSE (st_mem st) responsep;
     let maxops = uint (widths AND EB_DATAX) * 8;
     ops \<leftarrow> count_status (st_mem st) maxops (resp_status_cursor response) 0;
     (operationp, st) \<leftarrow> alloc_mem (assign_status value (nat ops) (resp_status_cursor response)) st;
     next \<leftarrow> eb_find_bus (st_mem st) operationp;
     st \<leftarrow> on_mem (\<lambda>m. set_response m responsep (\<lambda>r. r\<lparr>resp_status_cursor := next\<rparr>)) st;
     Some (ops = 0, st)
   }"

definition eb_socket_write_config ::
    "'w eb_env \<Rightarrow> eb_ptr \<Rightarrow> eb_width_t \<Rightarrow> eb_address_t \<Rightarrow> eb_data_t \<Rightarrow> 'w eb_state \<Rightarrow> 'w eb_state option" where
  "eb_socket_write_config env socketp widths addr value st = do {
     (found, st) \<leftarrow> alloc_mem (find_response socketp addr None) st;
     case found of
       None \<Rightarrow> Some st
     | Some (responsepp, responsep) \<Rightarrow> do {
         (fail, st) \<leftarrow> (if addr AND 1 = 0 then write_cursor_update responsep value st
                       else status_cursor_update widths responsep value st);
         response \<leftarrow> EB_RESPONSE (st_mem st) responsep;
         if fail \<or> (resp_write_cursor response = EB_NULL \<and> resp_status_cursor response = EB_NULL) then do {
           let cyclep = resp_cycle response;
           cycle \<leftarrow> EB_CYCLE (st_mem st) cyclep;
           st \<leftarrow> on_mem (store_pp socketp responsepp (resp_next response)) st;
           status \<leftarrow> had_error_loop (st_mem st) (cy_un_ops cycle) EB_OK;
           st \<leftarrow> finish_cycle env cyclep (cy_un_ops cycle) (if fail then EB_FAIL else status) st;
           on_mem (eb_free_response responsep) st
         } else Some st
       }
   }"

section \<open>Bus accesses\<close>

abbreviation (input) SDB_WISHBONE_LITTLE_ENDIAN :: u32 where "SDB_WISHBONE_LITTLE_ENDIAN \<equiv> 0x80"

text \<open>\<^verbatim>\<open>(*error << 1) | fail\<close>\<close>

definition shift_error :: "u64 \<Rightarrow> bool \<Rightarrow> u64" where
  "shift_error error fail = push_bit 1 error OR (if fail then 1 else 0)"

definition eb_socket_write ::
    "'w eb_env \<Rightarrow> eb_ptr \<Rightarrow> eb_width_t \<Rightarrow> eb_address_t \<Rightarrow> eb_address_t \<Rightarrow> eb_data_t \<Rightarrow> u64 \<Rightarrow> 'w eb_state \<Rightarrow>
     (u64 \<times> 'w eb_state) option" where
  "eb_socket_write env socketp widths addr_b addr_l value error st =
     (if addr_b < 0x4000 then Some (shift_error error True, st)
      else do {
        socket \<leftarrow> EB_SOCKET (st_mem st) socketp;
        addressp \<leftarrow> eb_find_handler env (st_mem st) addr_b (so_first_handler socket);
        (fail, st) \<leftarrow> (if addressp = EB_NULL then Some (True, st)
          else do {
            address \<leftarrow> EB_HANDLER_ADDRESS (st_mem st) addressp;
            callback \<leftarrow> EB_HANDLER_CALLBACK (st_mem st) (ha_callback address);
            case hc_write callback of
              Some w \<Rightarrow> do {
                (status, st) \<leftarrow> env_write env w (hc_data callback)
                   (if bus_specific (env_device env (ha_device address)) AND SDB_WISHBONE_LITTLE_ENDIAN \<noteq> 0
                    then addr_l else addr_b) widths value st;
                Some (status \<noteq> EB_OK, st)
              }
            | None \<Rightarrow> Some (True, st)
          });
        Some (shift_error error fail, st)
      })"

fun read_config_loop :: "u8 list \<Rightarrow> nat \<Rightarrow> nat \<Rightarrow> eb_data_t \<Rightarrow> eb_data_t option" where
  "read_config_loop buf addr 0 out = Some out"
| "read_config_loop buf addr (Suc len) out =
     (if addr < length buf then read_config_loop buf (Suc addr) len (push_bit 8 out OR ucast (buf ! addr))
      else None)"

definition eb_socket_read_config :: "eb_width_t \<Rightarrow> eb_address_t \<Rightarrow> u64 \<Rightarrow> eb_data_t option" where
  "eb_socket_read_config widths addr error =
     (let buf = [ucast (drop_bit 56 error), ucast (drop_bit 48 error), ucast (drop_bit 40 error),
                 ucast (drop_bit 32 error), ucast (drop_bit 24 error), ucast (drop_bit 16 error),
                 ucast (drop_bit 8 error), ucast error, 0, 0, 0, 0, 0, 0, 0, 0];
          len = unat (widths AND EB_DATAX)
      in if addr \<ge> 8 then Some 0 else read_config_loop buf (unat addr) len 0)"

definition eb_socket_read ::
    "'w eb_env \<Rightarrow> eb_ptr \<Rightarrow> eb_width_t \<Rightarrow> eb_address_t \<Rightarrow> eb_address_t \<Rightarrow> u64 \<Rightarrow> 'w eb_state \<Rightarrow>
     (eb_data_t \<times> u64 \<times> 'w eb_state) option" where
  "eb_socket_read env socketp widths addr_b addr_l error st =
     (if addr_b < 0x4000 then do {
        out \<leftarrow> eb_sdb env socketp widths addr_b (st_mem st);
        Some (out, push_bit 1 error, st)
      } else do {
        socket \<leftarrow> EB_SOCKET (st_mem st) socketp;
        addressp \<leftarrow> eb_find_handler env (st_mem st) addr_b (so_first_handler socket);
        (out, fail, st) \<leftarrow> (if addressp = EB_NULL then Some (0, True, st)
          else do {
            address \<leftarrow> EB_HANDLER_ADDRESS (st_mem st) addressp;
            callback \<leftarrow> EB_HANDLER_CALLBACK (st_mem st) (ha_callback address);
            case hc_read callback of
              Some r \<Rightarrow> do {
                (status, out, st) \<leftarrow> env_read env r (hc_data callback)
                   (if bus_specific (env_device env (ha_device address)) AND SDB_WISHBONE_LITTLE_ENDIAN \<noteq> 0
                    then addr_l else addr_b) widths st;
                Some (out, status \<noteq> EB_OK, st)
              }
            | None \<Rightarrow> Some (0, True, st)
          });
        Some (out, shift_error error fail, st)
      })"

section \<open>Error bits\<close>

text \<open>Marking a list of operations with the bits of \<open>v\<close>, the first bus operation with bit \<open>n - 1\<close>;
  config operations are skipped. \<open>after_bus n xs\<close> is what follows the \<open>n\<close>-th bus operation.\<close>

definition or_error :: "bool \<Rightarrow> eb_operation \<Rightarrow> eb_operation" where
  "or_error b op = op\<lparr>op_flags := op_flags op OR (if b then EB_OP_ERROR else 0)\<rparr>"

fun mark :: "eb_data_t \<Rightarrow> nat \<Rightarrow> eb_operation list \<Rightarrow> eb_operation list" where
  "mark v 0 ops = ops"
| "mark v (Suc n) [] = []"
| "mark v (Suc n) (op # ops) = (if op_is_cfg op then op # mark v (Suc n) ops else or_error (bit v n) op # mark v n ops)"

fun after_bus :: "('a \<Rightarrow> bool) \<Rightarrow> nat \<Rightarrow> 'a list \<Rightarrow> 'a list" where
  "after_bus cfg 0 xs = xs"
| "after_bus cfg (Suc n) [] = []"
| "after_bus cfg (Suc n) (x # xs) = (if cfg x then after_bus cfg (Suc n) xs else after_bus cfg n xs)"

definition bus_count :: "eb_operation list \<Rightarrow> nat" where
  "bus_count ops = length (filter (\<lambda>op. \<not> op_is_cfg op) ops)"

lemma error_bit: "EB_OP_ERROR * ucast (drop_bit n (v :: u64) AND 1) = (if bit v n then EB_OP_ERROR else 0 :: u8)"
proof -
  have "drop_bit n v AND 1 = of_bool (bit v n)"
    by (simp add: bit_iff_and_drop_bit_eq_1 and_one_eq mod2_eq_if odd_iff_mod_2_eq_one bit_iff_odd_drop_bit)
  then show ?thesis by simp
qed

lemma op_at_Some: "eb_item m x = Some (Operation_item op) \<Longrightarrow> op_at m x = op"
  by (simp add: op_at_def EB_OPERATION_Some)

lemma assign_status_chain:
  assumes "op_chain m p xs" and "n \<le> bus_count (map (op_at m) xs)" and "n \<le> 64"
  shows "\<exists>m'. assign_status v n p m = Some (head_ptr (after_bus (\<lambda>x. op_is_cfg (op_at m x)) n xs), m') \<and>
     same_heap (set xs) m m' \<and> op_chain m' p xs \<and> map (op_at m') xs = mark v n (map (op_at m) xs)"
  using assms
proof (induction xs arbitrary: m p n)
  case Nil
  then show ?case by (simp add: bus_count_def assign_status.simps)
next
  case (Cons x xs)
  then have x: "p = x" "x \<noteq> EB_NULL" "EB_OPERATION m x = Some (op_at m x)" "op_chain m (op_next (op_at m x)) xs"
    unfolding op_chain_Cons by auto
  have nx: "x \<notin> set xs" using chain_distinct [OF Cons.prems(1)] by simp
  show ?case
  proof (cases n)
    case 0
    then have "assign_status v n p m = Some (p, m)" by (simp add: assign_status.simps)
    then show ?thesis using 0 Cons.prems(1) x(1) by auto
  next
    case (Suc k)
    show ?thesis
    proof (cases "op_is_cfg (op_at m x)")
      case True
      have "n \<le> bus_count (map (op_at m) xs)" using Cons.prems(2) True by (simp add: bus_count_def)
      from Cons.IH [OF x(4) this Cons.prems(3)] obtain m' where m': "assign_status v n (op_next (op_at m x)) m =
            Some (head_ptr (after_bus (\<lambda>x. op_is_cfg (op_at m x)) n xs), m')" "same_heap (set xs) m m'"
          "op_chain m' (op_next (op_at m x)) xs" "map (op_at m') xs = mark v n (map (op_at m) xs)" by blast
      have "assign_status v n p m = assign_status v n (op_next (op_at m x)) m"
        using x True Suc by (subst assign_status.simps) (simp add: op_is_cfg_def)
      moreover have ix: "eb_item m' x = eb_item m x" using m'(2) nx by (simp add: same_heap_def)
      then have "op_at m' x = op_at m x" "EB_OPERATION m' x = Some (op_at m x)"
        using x(3) by (auto intro: op_at_cong simp: EB_OPERATION_def)
      moreover from calculation have "op_chain m' x (x # xs)"
        using m'(3) x(2) unfolding op_chain_Cons by simp
      moreover have "same_heap (set (x # xs)) m m'" by (rule same_heap_mono [OF m'(2)]) auto
      ultimately show ?thesis using m' True Suc x(1) by simp
    next
      case False
      let ?op = "or_error (bit v k) (op_at m x)"
      let ?m1 = "eb_put m x (Operation_item ?op)"
      have i: "eb_item m x = Some (Operation_item (op_at m x))" using x(3) by (simp add: eb_deref)
      have s1: "same_heap {x} m ?m1" by (rule same_heap_put [OF i]) auto
      have i1: "eb_item ?m1 x = Some (Operation_item ?op)" using i by (simp add: eb_mem)
      have same: "eb_item ?m1 y = eb_item m y" if "y \<in> set xs" for y
        using that nx by (intro same_heap_item [OF s1]) auto
      then have c1: "op_chain ?m1 (op_next (op_at m x)) xs" using op_chain_frame [OF x(4)] by blast
      have at1: "op_at ?m1 y = op_at m y" if "y \<in> set xs" for y by (rule op_at_cong [OF same [OF that]])
      then have mp: "map (op_at ?m1) xs = map (op_at m) xs" by simp
      have "k \<le> bus_count (map (op_at ?m1) xs)" unfolding mp using Cons.prems(2) False Suc by (simp add: bus_count_def)
      moreover have "k \<le> 64" using Cons.prems(3) Suc by simp
      ultimately obtain m' where m': "assign_status v k (op_next (op_at m x)) ?m1 =
            Some (head_ptr (after_bus (\<lambda>x. op_is_cfg (op_at ?m1 x)) k xs), m')" "same_heap (set xs) ?m1 m'"
          "op_chain m' (op_next (op_at m x)) xs" "map (op_at m') xs = mark v k (map (op_at m) xs)"
        using Cons.IH [OF c1] unfolding mp by blast
      have "set_operation m x (\<lambda>op. op\<lparr>op_flags := op_flags op OR EB_OP_ERROR * ucast (drop_bit k v AND 1)\<rparr>) = Some ?m1"
        by (simp add: set_operation_Some [OF i] error_bit or_error_def)
      then have "assign_status v n p m = assign_status v k (op_next (op_at m x)) ?m1"
        using x False Suc Cons.prems(3) by (subst assign_status.simps) (simp add: op_is_cfg_def)
      moreover have "after_bus (\<lambda>x. op_is_cfg (op_at ?m1 x)) j ys = after_bus (\<lambda>x. op_is_cfg (op_at m x)) j ys"
        if "set ys \<subseteq> set xs" for j ys
        using that at1 by (induction "\<lambda>x. op_is_cfg (op_at m x)" j ys rule: after_bus.induct) auto
      moreover have "eb_item m' x = Some (Operation_item ?op)"
        using m'(2) nx i1 by (simp add: same_heap_def)
      then have at': "op_at m' x = ?op" "EB_OPERATION m' x = Some ?op"
        by (simp_all add: op_at_Some EB_OPERATION_Some)
      moreover from this have "op_chain m' x (x # xs)"
        using m'(3) x(2) unfolding op_chain_Cons by (simp add: or_error_def)
      moreover have "same_heap (set (x # xs)) m m'" using same_heap_trans [OF s1 m'(2)] by simp
      ultimately show ?thesis using m' False Suc x(1) by simp
    qed
  qed
qed

lemma count_status_chain:
  assumes "op_chain m p xs" and "ops < maxops"
  shows "count_status m maxops p ops = Some (min maxops (ops + int (bus_count (map (op_at m) xs))))"
  using assms
proof (induction xs arbitrary: p ops)
  case Nil
  then show ?case by (simp add: count_status.simps bus_count_def)
next
  case (Cons x xs)
  then have x: "p = x" "x \<noteq> EB_NULL" "EB_OPERATION m x = Some (op_at m x)" "op_chain m (op_next (op_at m x)) xs"
    unfolding op_chain_Cons by auto
  show ?case
  proof (cases "op_is_cfg (op_at m x)")
    case True
    with x Cons show ?thesis
      by (subst count_status.simps) (simp add: op_is_cfg_def bus_count_def)
  next
    case False
    with x Cons.IH [OF x(4), of "ops + 1"] Cons.prems(2) show ?thesis
      by (subst count_status.simps) (auto simp: op_is_cfg_def bus_count_def)
  qed
qed

text \<open>The slave's side: \<open>fs\<close> are the failures of successive bus accesses.\<close>

lemma bit_shift_error: "bit (shift_error e f) j = (if j = 0 then f else j < 64 \<and> bit e (j - 1))"
  unfolding shift_error_def bit_or_iff bit_push_bit_iff by (auto simp: bit_simps)

lemma bit_shift_errors:
  "j < length fs \<Longrightarrow> length fs \<le> 64 \<Longrightarrow> bit (foldl shift_error e fs) j = fs ! (length fs - 1 - j)"
proof (induction fs arbitrary: j rule: rev_induct)
  case (snoc f fs)
  show ?case
  proof (cases j)
    case 0
    then show ?thesis by (simp add: bit_shift_error)
  next
    case (Suc i)
    with snoc have "bit (foldl shift_error e fs) i = fs ! (length fs - 1 - i)" by simp
    moreover have "bit (foldl shift_error e (fs @ [f])) j = bit (foldl shift_error e fs) i"
      using Suc snoc.prems by (simp add: bit_shift_error)
    moreover have "length fs - Suc i < length fs" using Suc snoc.prems by simp
    ultimately show ?thesis using Suc snoc.prems by (simp add: nth_append)
  qed
qed simp

fun mark_fails :: "bool list \<Rightarrow> eb_operation list \<Rightarrow> eb_operation list" where
  "mark_fails [] ops = ops"
| "mark_fails (f # fs) [] = []"
| "mark_fails (f # fs) (op # ops) =
     (if op_is_cfg op then op # mark_fails (f # fs) ops else or_error f op # mark_fails fs ops)"

lemma mark_eq_mark_fails:
  "\<forall>k < length fs. bit v (length fs - 1 - k) = fs ! k \<Longrightarrow> mark v (length fs) ops = mark_fails fs ops"
proof (induction fs ops rule: mark_fails.induct)
  case (3 f fs op ops)
  have "bit v (length fs) = f" using "3.prems" by (auto dest: spec [of _ 0])
  moreover have "\<forall>k < length fs. bit v (length fs - 1 - k) = fs ! k"
    using "3.prems" by (auto dest!: spec [of _ "Suc _"])
  ultimately show ?case using 3 by simp
qed simp_all

lemma read_config_loop_slice:
  "a + len \<le> length buf \<Longrightarrow>
   read_config_loop buf a len out = Some (foldl (\<lambda>acc b. push_bit 8 acc OR ucast b) out (take len (drop a buf)))"
proof (induction len arbitrary: a out)
  case (Suc len)
  then have "drop a buf = buf ! a # drop (Suc a) buf" by (simp add: Cons_nth_drop_Suc)
  with Suc show ?case by simp
qed simp

lemma drop_be_bytes: "k \<le> n \<Longrightarrow> drop (n - k) (be_bytes n v) = be_bytes k v"
proof (induction n)
  case (Suc n)
  then show ?case by (cases "k = Suc n") (auto simp: Suc_diff_le)
qed simp

text \<open>The register read at \<^verbatim>\<open>8 - stride\<close> gives its last \<open>8 * stride\<close> bits.\<close>

lemma eb_socket_read_config_status:
  assumes "w \<in> {EB_DATA8, EB_DATA16, EB_DATA32, EB_DATA64}"
  shows "eb_socket_read_config w (8 - ucast w) error = Some (take_bit (8 * unat w) error)"
proof -
  let ?buf = "be_bytes 8 error @ replicate 8 0"
  have w: "unat w \<le> 8" "unat (w AND EB_DATAX) = unat w" "unat (8 - ucast w :: u64) = 8 - unat w" "\<not> (8 - ucast w :: u64) \<ge> 8"
    using assms by auto
  have b: "[ucast (drop_bit 56 error), ucast (drop_bit 48 error), ucast (drop_bit 40 error),
        ucast (drop_bit 32 error), ucast (drop_bit 24 error), ucast (drop_bit 16 error),
        ucast (drop_bit 8 error), ucast error, 0, 0, 0, 0, 0, 0, 0, 0 :: u8] = ?buf"
    by (simp add: numeral_eq_Suc)
  have "read_config_loop ?buf (8 - unat w) (unat w) 0 = Some (be_word (take (unat w) (drop (8 - unat w) ?buf)))"
    using w(1) by (subst read_config_loop_slice) (simp_all add: be_word_def)
  also have "take (unat w) (drop (8 - unat w) ?buf) = be_bytes (unat w) error"
    using w(1) by (simp add: drop_be_bytes)
  finally show ?thesis
    unfolding eb_socket_read_config_def Let_def b using w by (simp add: be_word_be_bytes)
qed

lemma after_bus_suffix: "\<exists>pre. xs = pre @ after_bus cfg n xs"
proof (induction cfg n xs rule: after_bus.induct)
  case (3 cfg k x xs)
  have "\<exists>pre. x # xs = pre @ ys" if "\<exists>pre. xs = pre @ ys" for ys using that by (metis append_Cons)
  with 3 show ?case by simp
qed auto

text \<open>One status answer: the response's cursor moves behind the operations it covers.\<close>

lemma status_cursor_update_chain:
  assumes resp: "EB_RESPONSE (st_mem st) r = Some resp"
    and ch: "op_chain (st_mem st) (resp_status_cursor resp) xs"
    and w: "unat (w AND EB_DATAX) \<noteq> 0" "unat (w AND EB_DATAX) \<le> 8"
  defines "n \<equiv> min (8 * unat (w AND EB_DATAX)) (bus_count (map (op_at (st_mem st)) xs))"
  shows "\<exists>m'. status_cursor_update w r v st = Some (n = 0, st\<lparr>st_mem := m'\<rparr>) \<and>
     same_heap (insert r (set xs)) (st_mem st) m' \<and> op_chain m' (resp_status_cursor resp) xs \<and>
     map (op_at m') xs = mark v n (map (op_at (st_mem st)) xs) \<and>
     (\<exists>next. EB_RESPONSE m' r = Some (resp\<lparr>resp_status_cursor := next\<rparr>))"
proof -
  let ?m = "st_mem st" and ?cfg = "\<lambda>x. op_is_cfg (op_at (st_mem st) x)"
  have ir: "eb_item ?m r = Some (Response_item resp)" using resp by (simp add: eb_deref)
  have rx: "r \<notin> set xs"
  proof
    assume "r \<in> set xs"
    then have "eb_operation_next ?m r \<noteq> None" using ch chain_defined by fast
    with ir show False by (auto simp: eb_operation_next_def EB_OPERATION_def)
  qed
  have c: "count_status ?m (uint (w AND EB_DATAX) * 8) (resp_status_cursor resp) 0 = Some (int n)"
  proof -
    have u: "uint (w AND EB_DATAX) * 8 = int (8 * unat (w AND EB_DATAX))" by simp
    have "(0 :: int) < int (8 * unat (w AND EB_DATAX))" using w(1) by linarith
    from count_status_chain [OF ch this] show ?thesis unfolding u n_def by (simp only: of_nat_min) simp
  qed
  have "n \<le> bus_count (map (op_at ?m) xs)" "n \<le> 64" using w(2) unfolding n_def by linarith+
  then obtain m1 where m1: "assign_status v n (resp_status_cursor resp) ?m = Some (head_ptr (after_bus ?cfg n xs), m1)"
      "same_heap (set xs) ?m m1" "op_chain m1 (resp_status_cursor resp) xs"
      "map (op_at m1) xs = mark v n (map (op_at ?m) xs)"
    using assign_status_chain [OF ch, of n v] by blast
  obtain pre where pre: "xs = pre @ after_bus ?cfg n xs" using after_bus_suffix by blast
  have tail: "op_chain m1 (head_ptr (after_bus ?cfg n xs)) (after_bus ?cfg n xs)"
  proof (cases "after_bus ?cfg n xs")
    case (Cons y ys)
    with pre m1(3) have "op_chain m1 (resp_status_cursor resp) (pre @ y # ys)" by simp
    from chain_suffix [OF this] Cons show ?thesis by simp
  qed simp
  define nxt where "nxt = head_ptr (dropWhile (\<lambda>x. op_is_cfg (op_at m1 x)) (after_bus ?cfg n xs))"
  have fb: "eb_find_bus m1 (head_ptr (after_bus ?cfg n xs)) = Some nxt"
    unfolding nxt_def by (rule eb_find_bus_chain [OF tail])
  have ir1: "eb_item m1 r = Some (Response_item resp)" using m1(2) rx ir by (simp add: same_heap_def)
  let ?m' = "eb_put m1 r (Response_item (resp\<lparr>resp_status_cursor := nxt\<rparr>))"
  have s2: "same_heap {r} m1 ?m'" by (rule same_heap_put [OF ir1]) auto
  have same: "eb_item ?m' x = eb_item m1 x" if "x \<in> set xs" for x
    using that rx by (intro same_heap_item [OF s2]) auto
  have "status_cursor_update w r v st = Some (n = 0, st\<lparr>st_mem := ?m'\<rparr>)"
    using resp c m1(1) fb ir1
    by (simp add: status_cursor_update_def alloc_mem_def on_mem_def set_response_Some [OF ir1])
  moreover have "same_heap (insert r (set xs)) ?m ?m'" using same_heap_trans [OF m1(2) s2] by simp
  moreover have "op_chain ?m' (resp_status_cursor resp) xs" using op_chain_frame [OF m1(3)] same by blast
  moreover have "map (op_at ?m') xs = map (op_at m1) xs" using same op_at_cong by (metis (no_types) map_cong)
  moreover have "EB_RESPONSE ?m' r = Some (resp\<lparr>resp_status_cursor := nxt\<rparr>)"
    using ir1 by (simp add: eb_deref eb_mem)
  ultimately show ?thesis using m1(4) by auto
qed

section \<open>Dispatch\<close>

lemma bus_list_handler:
  assumes "bus_list m s hs" and "h \<in> set hs"
  shows "h \<noteq> EB_NULL" and "EB_HANDLER_ADDRESS m h = Some (ha_at m h)"
    and "EB_HANDLER_CALLBACK m (ha_callback (ha_at m h)) = Some (hc_at m (ha_callback (ha_at m h)))"
proof -
  from assms(1) obtain so :: eb_socket where "ha_chain m (so_first_handler so) hs"
    unfolding bus_list_def by blast
  then show "h \<noteq> EB_NULL" and "EB_HANDLER_ADDRESS m h = Some (ha_at m h)"
    using assms(2) by (auto dest: ha_chain_at)
  show "EB_HANDLER_CALLBACK m (ha_callback (ha_at m h)) = Some (hc_at m (ha_callback (ha_at m h)))"
    using assms by (auto simp: bus_list_def list_all_iff hc_at_def split: option.splits)
qed

text \<open>The address a device is given: in its own byte order.\<close>

definition device_address :: "'w eb_env \<Rightarrow> eb_handler \<Rightarrow> eb_address_t \<Rightarrow> eb_address_t \<Rightarrow> eb_address_t" where
  "device_address env h addr_b addr_l =
     (if bus_specific (env_device env (h_device h)) AND SDB_WISHBONE_LITTLE_ENDIAN \<noteq> 0 then addr_l else addr_b)"

section \<open>Properties\<close>

text \<open>C30: an error is reported for the operation that failed and for no other. If the slave's accesses
  for the bus operations of a cycle, in order, fail as in \<open>fs\<close> (at most \<^verbatim>\<open>8 * stride\<close> of them, from any
  previous register contents), then reading its error register where the master reads it and
  passing the value to the master's status update marks exactly the failed bus operations, skips
  the config-space operations, and never faults.\<close>

theorem error_reaches_its_operation:
  assumes "EB_RESPONSE (st_mem st) r = Some resp"
    and "op_chain (st_mem st) (resp_status_cursor resp) xs"
    and "w \<in> {EB_DATA8, EB_DATA16, EB_DATA32, EB_DATA64}"
    and "length fs = min (8 * unat w) (bus_count (map (op_at (st_mem st)) xs))"
  shows "\<exists>v m'. eb_socket_read_config w (8 - ucast w) (foldl shift_error e fs) = Some v \<and>
     status_cursor_update w r v st = Some (fs = [], st\<lparr>st_mem := m'\<rparr>) \<and>
     op_chain m' (resp_status_cursor resp) xs \<and>
     map (op_at m') xs = mark_fails fs (map (op_at (st_mem st)) xs)"
proof -
  let ?v = "take_bit (8 * unat w) (foldl shift_error e fs)"
  have w: "unat (w AND EB_DATAX) = unat w" "unat w \<noteq> 0" "unat w \<le> 8" using assms(3) by auto
  have n: "min (8 * unat (w AND EB_DATAX)) (bus_count (map (op_at (st_mem st)) xs)) = length fs"
    using assms(4) w(1) by simp
  have le: "length fs \<le> 8 * unat w" "length fs \<le> 64" using assms(4) w(3) by linarith+
  have "\<forall>k < length fs. bit ?v (length fs - 1 - k) = fs ! k"
  proof (intro allI impI)
    fix k assume k: "k < length fs"
    then have "bit (foldl shift_error e fs) (length fs - 1 - k) = fs ! k"
      using bit_shift_errors [of "length fs - 1 - k" fs e] le(2) by simp
    moreover have "length fs - 1 - k < 8 * unat w" using k le(1) by linarith
    ultimately show "bit ?v (length fs - 1 - k) = fs ! k" by (simp add: bit_take_bit_iff)
  qed
  then have "mark ?v (length fs) (map (op_at (st_mem st)) xs) = mark_fails fs (map (op_at (st_mem st)) xs)"
    by (rule mark_eq_mark_fails)
  moreover have "unat (w AND EB_DATAX) \<noteq> 0" "unat (w AND EB_DATAX) \<le> 8" using w by simp_all
  ultimately show ?thesis
    using status_cursor_update_chain [OF assms(1,2), of w ?v, unfolded n]
      eb_socket_read_config_status [OF assms(3)] by auto
qed

text \<open>A response waiting for the status of one write and one config read.\<close>

definition demo_status_heap :: eb_memory where
  "demo_status_heap = heap_of [Response_item (zero_response\<lparr>resp_status_cursor := 129\<rparr>),
     Operation_item (zero_operation\<lparr>op_next := 130\<rparr>),
     Operation_item (zero_operation\<lparr>op_next := EB_NULL, op_flags := 6\<rparr>)]"

definition demo_state :: "eb_memory \<Rightarrow> unit eb_state" where
  "demo_state m = \<lparr>st_mem = m, st_user = (\<lambda>_. 0), st_status = (\<lambda>_. 0),
     st_find_address = (\<lambda>_. \<lparr>fa_address = 0, fa_output = [], fa_status = 0\<rparr>),
     st_find_identity = (\<lambda>_. \<lparr>fi_vendor_id = 0, fi_output = [], fi_device_id = 0, fi_size = 0,
       fi_fill = 0, fi_pending = 0, fi_status = 0\<rparr>), st_world = ()\<rparr>"

lemma demo_status_items:
  "EB_RESPONSE demo_status_heap 128 = Some (zero_response\<lparr>resp_status_cursor := 129\<rparr>)"
  "EB_OPERATION demo_status_heap 129 = Some (zero_operation\<lparr>op_next := 130\<rparr>)"
  "EB_OPERATION demo_status_heap 130 = Some (zero_operation\<lparr>op_next := EB_NULL, op_flags := 6\<rparr>)"
  by (simp_all add: demo_status_heap_def heap_of_def EB_RESPONSE_def EB_OPERATION_def eb_item_def in_array_def)

theorem error_reaches_its_operation_witness:
  "\<exists>v m'. eb_socket_read_config EB_DATA32 4 (foldl shift_error 0 [True]) = Some v \<and>
     status_cursor_update EB_DATA32 128 v (demo_state demo_status_heap) =
       Some (False, (demo_state demo_status_heap)\<lparr>st_mem := m'\<rparr>) \<and>
     map (op_at m') [129, 130] =
       [or_error True (zero_operation\<lparr>op_next := 130\<rparr>), zero_operation\<lparr>op_next := EB_NULL, op_flags := 6\<rparr>]"
proof -
  let ?st = "demo_state demo_status_heap" and ?r = "zero_response\<lparr>resp_status_cursor := 129\<rparr>"
  have r: "EB_RESPONSE (st_mem ?st) 128 = Some ?r" by (simp add: demo_state_def demo_status_items)
  have c: "op_chain (st_mem ?st) (resp_status_cursor ?r) [129, 130]"
    by (simp add: demo_state_def eb_operation_next_def demo_status_items EB_NULL_def)
  have at: "op_at (st_mem ?st) 129 = zero_operation\<lparr>op_next := 130\<rparr>"
      "op_at (st_mem ?st) 130 = zero_operation\<lparr>op_next := EB_NULL, op_flags := 6\<rparr>"
    by (simp_all add: demo_state_def op_at_def demo_status_items)
  have w: "EB_DATA32 \<in> {EB_DATA8, EB_DATA16, EB_DATA32, EB_DATA64}" by simp
  have l: "length [True] = min (8 * unat EB_DATA32) (bus_count (map (op_at (st_mem ?st)) [129, 130]))"
    by (simp add: at bus_count_def op_is_cfg_def zero_operation_def)
  from error_reaches_its_operation [OF r c w l, of 0] show ?thesis
    by (auto simp: at op_is_cfg_def zero_operation_def)
qed

text \<open>C31: a bus read reaches the device that owns the address. It is handed to the read function of
  that device's handler with the address in the device's byte order; the value read is returned
  and the outcome shifted into the error register. A device without a read function, and an
  address nobody owns, read as 0 with the error bit set, and no user code runs.\<close>

theorem bus_read_dispatch:
  assumes "bus_list (st_mem st) s hs" and "bus_ok env (bus_of (st_mem st) hs)"
  shows "(\<forall>h \<in> set hs. in_range addr_b (ha_range env (st_mem st) h) \<longrightarrow>
       eb_socket_read env s w addr_b addr_l e st =
         (case h_read (handler_of (st_mem st) h) of
            None \<Rightarrow> Some (0, shift_error e True, st)
          | Some f \<Rightarrow> do {
              (status, out, st') \<leftarrow> env_read env f (h_data (handler_of (st_mem st) h))
                 (device_address env (handler_of (st_mem st) h) addr_b addr_l) w st;
              Some (out, shift_error e (status \<noteq> EB_OK), st')
            })) \<and>
     (0x4000 \<le> addr_b \<longrightarrow> (\<forall>h \<in> set hs. \<not> in_range addr_b (ha_range env (st_mem st) h)) \<longrightarrow>
       eb_socket_read env s w addr_b addr_l e st = Some (0, shift_error e True, st))"
proof (intro conjI ballI impI)
  let ?m = "st_mem st"
  from assms(1) obtain so where so: "EB_SOCKET ?m s = Some so" "ha_chain ?m (so_first_handler so) hs"
    by (auto simp: bus_list_def)
  {
    fix h assume h: "h \<in> set hs" "in_range addr_b (ha_range env ?m h)"
    have "0x4000 \<le> addr_b" using bus_ok_above [OF assms(2) h(1)] h(2) by (auto simp: in_range_def)
    then have "\<not> addr_b < 0x4000" by simp
    with so(1) eb_find_handler_owner [OF so(2) assms(2) h] bus_list_handler [OF assms(1) h(1)]
    show "eb_socket_read env s w addr_b addr_l e st =
         (case h_read (handler_of ?m h) of
            None \<Rightarrow> Some (0, shift_error e True, st)
          | Some f \<Rightarrow> do {
              (status, out, st') \<leftarrow> env_read env f (h_data (handler_of ?m h))
                 (device_address env (handler_of ?m h) addr_b addr_l) w st;
              Some (out, shift_error e (status \<noteq> EB_OK), st')
            })"
      by (cases "hc_read (hc_at ?m (ha_callback (ha_at ?m h)))")
        (simp_all add: eb_socket_read_def handler_of_def device_address_def Let_def split_def)
  next
    assume a: "0x4000 \<le> addr_b" "\<forall>h \<in> set hs. \<not> in_range addr_b (ha_range env ?m h)"
    have "\<not> addr_b < 0x4000" using a(1) by simp
    with so(1) eb_find_handler_none [OF so(2) a(2)] show "eb_socket_read env s w addr_b addr_l e st = Some (0, shift_error e True, st)"
      by (simp add: eb_socket_read_def)
  }
qed

theorem bus_read_dispatch_witness:
  "eb_socket_read demo_env 128 EB_DATA32 0x10004 0x10004 0 (demo_state demo_attached) =
     Some (0, 0, demo_state demo_attached)"
proof -
  have m: "st_mem (demo_state demo_attached) = demo_attached" by (simp add: demo_state_def)
  have "in_range 0x10004 (ha_range demo_env demo_attached 129)"
    by (simp add: in_range_def ha_range_def demo_env_def demo_sdb_device_def)
  then show ?thesis
    using bus_read_dispatch [of "demo_state demo_attached" 128 "[129]" demo_env, unfolded m, OF demo_bus_list]
    by (simp add: handler_of_def ha_at_def hc_at_def demo_attached_items shift_error_def)
      (simp add: demo_env_def)
qed

end
