(* ===== verification/Eb_Device.thy ===== *)
theory Eb_Device
  imports Eb_Readwrite
begin

text \<open>
  Devices (\<^verbatim>\<open>api/glue/device.c\<close>): the connections of a socket, to slaves (active) and from masters
  (passive, marked by a self-pointer). Closing a device answers every cycle that is still queued or
  in flight exactly once. Opening a device, which runs the socket, is in theory \<open>Eb_Check\<close>.
\<close>

section \<open>Model\<close>

definition eb_device_socket :: "eb_memory \<Rightarrow> eb_ptr \<Rightarrow> eb_ptr option" where
  "eb_device_socket m devicep = do { device \<leftarrow> EB_DEVICE m devicep; Some (dev_socket device) }"

text \<open>The loop that offers an address to each transport until one does not refuse it.\<close>

partial_function (option) connect_loop ::
    "'w eb_env \<Rightarrow> string \<Rightarrow> bool \<Rightarrow> eb_ptr \<Rightarrow> eb_ptr \<Rightarrow> 'w eb_state \<Rightarrow> (eb_status_t \<times> eb_ptr \<times> 'w eb_state) option" where
  "connect_loop env address passive linkp transportp st =
     (if transportp = EB_NULL then Some (EB_ADDRESS, EB_NULL, st)
      else do {
        transport \<leftarrow> EB_TRANSPORT (st_mem st) transportp;
        link \<leftarrow> EB_LINK (st_mem st) linkp;
        ops \<leftarrow> tops env (tr_link_type transport);
        let (status, link, w) = tops_connect ops transport link address passive (st_world st);
        let st = st\<lparr>st_world := w\<rparr>;
        st \<leftarrow> on_mem (\<lambda>m. set_link m linkp (\<lambda>_. link)) st;
        if status \<noteq> EB_ADDRESS then Some (status, transportp, st)
        else connect_loop env address passive linkp (tr_next transport) st
      })"

definition eb_socket_passive ::
    "'w eb_env \<Rightarrow> eb_ptr \<Rightarrow> string \<Rightarrow> 'w eb_state \<Rightarrow> (eb_status_t \<times> 'w eb_state) option" where
  "eb_socket_passive env socketp address st = do {
     (devicep, st) \<leftarrow> alloc_mem eb_new_device st;
     if devicep = EB_NULL then Some (EB_OOM, st)
     else do {
       (linkp, st) \<leftarrow> alloc_mem eb_new_link st;
       if linkp = EB_NULL then do {
         st \<leftarrow> on_mem (eb_free_device devicep) st;
         Some (EB_OOM, st)
       } else do {
         socket \<leftarrow> EB_SOCKET (st_mem st) socketp;
         aux \<leftarrow> EB_SOCKET_AUX (st_mem st) (so_aux socket);
         st \<leftarrow> on_mem (\<lambda>m. set_device m devicep (\<lambda>d. d\<lparr>dev_socket := socketp, dev_un_link := devicep,
                  dev_unready := 0, dev_widths := 0, dev_link := linkp\<rparr>)) st;
         (status, transportp, st) \<leftarrow> connect_loop env address True linkp (aux_first_transport aux) st;
         if transportp = EB_NULL then do {
           st \<leftarrow> on_mem (eb_free_link linkp) st;
           st \<leftarrow> on_mem (eb_free_device devicep) st;
           Some (EB_ADDRESS, st)
         } else if status \<noteq> EB_OK then do {
           st \<leftarrow> on_mem (eb_free_link linkp) st;
           st \<leftarrow> on_mem (eb_free_device devicep) st;
           Some (status, st)
         } else do {
           st \<leftarrow> on_mem (\<lambda>m. set_device m devicep (\<lambda>d. d\<lparr>dev_transport := transportp,
                    dev_next := so_first_device socket\<rparr>)) st;
           st \<leftarrow> on_mem (\<lambda>m. set_socket m socketp (\<lambda>s. s\<lparr>so_first_device := devicep\<rparr>)) st;
           Some (EB_OK, st)
         }
       }
     }
   }"

definition do_disconnect :: "'w eb_env \<Rightarrow> eb_ptr \<Rightarrow> eb_ptr \<Rightarrow> 'w eb_state \<Rightarrow> 'w eb_state option" where
  "do_disconnect env transportp linkp st = do {
     transport \<leftarrow> EB_TRANSPORT (st_mem st) transportp;
     link \<leftarrow> EB_LINK (st_mem st) linkp;
     ops \<leftarrow> tops env (tr_link_type transport);
     Some (on_world (tops_disconnect ops transport link) st)
   }"

text \<open>An accepted connection becomes a passive device; the link for the next one is returned.\<close>

definition eb_device_new_slave ::
    "'w eb_env \<Rightarrow> eb_ptr \<Rightarrow> eb_ptr \<Rightarrow> eb_ptr \<Rightarrow> 'w eb_state \<Rightarrow> (eb_ptr \<times> 'w eb_state) option" where
  "eb_device_new_slave env socketp transportp linkp st = do {
     (devicep, st) \<leftarrow> alloc_mem eb_new_device st;
     if devicep = EB_NULL then do {
       st \<leftarrow> do_disconnect env transportp linkp st;
       Some (linkp, st)
     } else do {
       (new_linkp, st) \<leftarrow> alloc_mem eb_new_link st;
       if new_linkp = EB_NULL then do {
         st \<leftarrow> on_mem (eb_free_device devicep) st;
         st \<leftarrow> do_disconnect env transportp linkp st;
         Some (linkp, st)
       } else do {
         socket \<leftarrow> EB_SOCKET (st_mem st) socketp;
         st \<leftarrow> on_mem (\<lambda>m. set_device m devicep (\<lambda>d. d\<lparr>dev_socket := socketp, dev_un_link := devicep,
                  dev_unready := 0, dev_widths := 0, dev_link := linkp, dev_transport := transportp,
                  dev_next := so_first_device socket\<rparr>)) st;
         st \<leftarrow> on_mem (\<lambda>m. set_socket m socketp (\<lambda>s. s\<lparr>so_first_device := devicep\<rparr>)) st;
         Some (new_linkp, st)
       }
     }
   }"

definition cycle_next_of :: "eb_memory \<Rightarrow> eb_ptr \<Rightarrow> eb_ptr option" where
  "cycle_next_of m p = do { cycle \<leftarrow> EB_CYCLE m p; Some (cy_un_link cycle) }"

definition set_cycle_next :: "eb_memory \<Rightarrow> eb_ptr \<Rightarrow> eb_ptr \<Rightarrow> eb_memory option" where
  "set_cycle_next m p v = set_cycle m p (\<lambda>c. c\<lparr>cy_un_link := v\<rparr>)"

partial_function (option) reverse_cycles ::
    "eb_memory \<Rightarrow> eb_ptr \<Rightarrow> eb_ptr \<Rightarrow> (eb_ptr \<times> eb_memory) option" where
  "reverse_cycles m cyclep prevp =
     (if cyclep = EB_NULL then Some (prevp, m)
      else do {
        nextp \<leftarrow> cycle_next_of m cyclep;
        m \<leftarrow> set_cycle_next m cyclep prevp;
        reverse_cycles m nextp cyclep
      })"

partial_function (option) kill_cycles :: "'w eb_env \<Rightarrow> eb_ptr \<Rightarrow> eb_ptr \<Rightarrow> 'w eb_state \<Rightarrow> 'w eb_state option" where
  "kill_cycles env devicep cyclep st =
     (if cyclep = EB_NULL then Some st
      else do {
        cycle \<leftarrow> EB_CYCLE (st_mem st) cyclep;
        let nextp = cy_un_link cycle;
        st \<leftarrow> on_mem (\<lambda>m. set_cycle_next m cyclep devicep) st;
        st \<leftarrow> finish_cycle env cyclep (cy_un_ops cycle) EB_TIMEOUT st;
        kill_cycles env devicep nextp st
      })"

text \<open>Finding the device in the socket's list; \<^verbatim>\<open>ptr\<close> points to \<^verbatim>\<open>first_device\<close> (\<open>None\<close>) or to a \<^verbatim>\<open>next\<close>.\<close>

partial_function (option) find_device ::
    "eb_memory \<Rightarrow> eb_ptr \<Rightarrow> eb_ptr option \<Rightarrow> eb_ptr \<Rightarrow> (eb_ptr option \<times> eb_ptr) option" where
  "find_device m devicep ptr i =
     (if i = EB_NULL then Some (ptr, i)
      else if i = devicep then Some (ptr, i)
      else do {
        idev \<leftarrow> EB_DEVICE m i;
        find_device m devicep (Some i) (dev_next idev)
      })"

definition eb_device_close :: "'w eb_env \<Rightarrow> eb_ptr \<Rightarrow> 'w eb_state \<Rightarrow> (eb_status_t \<times> 'w eb_state) option" where
  "eb_device_close env devicep st = do {
     device \<leftarrow> EB_DEVICE (st_mem st) devicep;
     let socketp = dev_socket device;
     if dev_unready device \<noteq> 0 then Some (EB_BUSY, st)
     else do {
       (firstp, st) \<leftarrow> (if dev_un_link device \<noteq> devicep then do {
            st \<leftarrow> on_mem (\<lambda>m. set_device m devicep (\<lambda>d. d\<lparr>dev_un_link := devicep\<rparr>)) st;
            st \<leftarrow> eb_socket_kill_inflight env socketp devicep st;
            Some (dev_un_link device, st)
          } else Some (EB_NULL, st));
       (prevp, st) \<leftarrow> alloc_mem (\<lambda>m. reverse_cycles m firstp EB_NULL) st;
       st \<leftarrow> kill_cycles env devicep prevp st;
       device \<leftarrow> EB_DEVICE (st_mem st) devicep;
       socket \<leftarrow> EB_SOCKET (st_mem st) socketp;
       (ptr, i) \<leftarrow> find_device (st_mem st) devicep None (so_first_device socket);
       if i = EB_NULL then Some (EB_FAIL, st)
       else do {
         st \<leftarrow> on_mem (\<lambda>m. case ptr of
                  None \<Rightarrow> set_socket m socketp (\<lambda>s. s\<lparr>so_first_device := dev_next device\<rparr>)
                | Some p \<Rightarrow> set_device m p (\<lambda>d. d\<lparr>dev_next := dev_next device\<rparr>)) st;
         let linkp = dev_link device;
         st \<leftarrow> (if linkp \<noteq> EB_NULL then do {
                  st \<leftarrow> do_disconnect env (dev_transport device) linkp st;
                  on_mem (eb_free_link linkp) st
                } else Some st);
         st \<leftarrow> on_mem (eb_free_device devicep) st;
         Some (EB_OK, st)
       }
     }
   }"

section \<open>Reversing a device's cycles\<close>

interpretation cycles: heap_reverse cycle_next_of set_cycle_next
    "\<lambda>m p. map_option (\<lambda>c. c\<lparr>cy_un_link := EB_NULL\<rparr>) (EB_CYCLE m p)" reverse_cycles
proof
  fix m i prev
  show "reverse_cycles m i prev =
      (if i = EB_NULL then Some (prev, m)
       else Option.bind (cycle_next_of m i)
         (\<lambda>next. Option.bind (set_cycle_next m i prev) (\<lambda>m'. reverse_cycles m' next i)))"
    by (subst reverse_cycles.simps) simp
next
  fix m i q v assume "cycle_next_of m i = Some q"
  then obtain r where i: "eb_item m i = Some (Cycle_item r)"
    by (auto simp: cycle_next_of_def bind_eq_Some_conv eb_deref)
  let ?m' = "eb_put m i (Cycle_item (r\<lparr>cy_un_link := v\<rparr>))"
  have s: "same_heap {i} m ?m'" by (rule same_heap_put [OF i]) auto
  have i': "eb_item ?m' i = Some (Cycle_item (r\<lparr>cy_un_link := v\<rparr>))" using i by (simp add: eb_mem)
  have o: "EB_CYCLE ?m' p = EB_CYCLE m p" if "p \<noteq> i" for p
    using that by (simp add: EB_CYCLE_def eb_mem)
  have "cycle_next_of ?m' p = ((cycle_next_of m)(i := Some v)) p" for p
    using i' o by (cases "p = i") (simp_all add: cycle_next_of_def EB_CYCLE_Some)
  moreover have "map_option (\<lambda>c. c\<lparr>cy_un_link := EB_NULL\<rparr>) (EB_CYCLE ?m' p) =
      map_option (\<lambda>c. c\<lparr>cy_un_link := EB_NULL\<rparr>) (EB_CYCLE m p)" for p
    using i i' o by (cases "p = i") (simp_all add: EB_CYCLE_Some)
  ultimately show "\<exists>m'. set_cycle_next m i v = Some m' \<and> cycle_next_of m' = (cycle_next_of m)(i := Some v) \<and>
      (\<lambda>p. map_option (\<lambda>c. c\<lparr>cy_un_link := EB_NULL\<rparr>) (EB_CYCLE m' p)) =
      (\<lambda>p. map_option (\<lambda>c. c\<lparr>cy_un_link := EB_NULL\<rparr>) (EB_CYCLE m p)) \<and> same_heap {i} m m'"
    using s by (intro exI [of _ ?m']) (auto simp: set_cycle_next_def set_cycle_Some [OF i])
qed

end
