(* ===== verification/Eb_Slave.thy ===== *)
theory Eb_Slave
  imports Eb_Device Eb_Widths Eb_Refine
begin

text \<open>
  The slave side of the wire protocol (\<^verbatim>\<open>api/format/slave.c\<close>): decoding the records of an inbound
  message, executing their accesses and building the reply in the same buffer. The model keeps the
  buffer, the pointers into it and every bounds check; a read or write outside the buffer is a
  fault (\<open>None\<close>).
\<close>

section \<open>Buffer access\<close>

definition EB_LOAD :: "u8 list \<Rightarrow> nat \<Rightarrow> nat \<Rightarrow> eb_data_t option" where
  "EB_LOAD buf rptr alignment =
     (if alignment \<in> {2, 4, 8} then
        if rptr + alignment \<le> length buf then Some (be_word (take alignment (drop rptr buf))) else None
      else Some 0)"

definition put_bytes :: "nat \<Rightarrow> u8 list \<Rightarrow> u8 list \<Rightarrow> u8 list" where
  "put_bytes p bs buf = take p buf @ bs @ drop (p + length bs) buf"

definition EB_sWRITE :: "u8 list \<Rightarrow> nat \<Rightarrow> eb_data_t \<Rightarrow> nat \<Rightarrow> u8 list option" where
  "EB_sWRITE buf wptr val alignment =
     (if alignment \<in> {2, 4, 8} then
        if wptr + alignment \<le> length buf then Some (put_bytes wptr (be_bytes alignment val) buf) else None
      else Some buf)"

definition store_bytes :: "u8 list \<Rightarrow> nat \<Rightarrow> u8 list \<Rightarrow> u8 list option" where
  "store_bytes buf p bs = (if p + length bs \<le> length buf then Some (put_bytes p bs buf) else None)"

section \<open>Select lines\<close>

definition eb_log2_table :: "u8 list" where
  "eb_log2_table = [0, 1, 2, 4, 7, 3, 6, 5]"

definition eb_log2 :: "u8 \<Rightarrow> u8" where
  "eb_log2 x = eb_log2_table ! unat (drop_bit 5 (x * 0x17))"

text \<open>The intended width and position, from the select byte of a record and the port width \<open>data\<close>.\<close>

record slave_select =
  sel_ok :: bool
  sel_shift :: u8
  sel_width :: u8

definition decode_select :: "u8 \<Rightarrow> u8 \<Rightarrow> slave_select" where
  "decode_select data select =
     (let op_shift = eb_log2 (select AND (- select));
          bits = drop_bit (unat op_shift) select;
          bits1 = drop_bit 1 bits + 1;
          op_widths = eb_log2 bits1;
          op_width = op_widths + 1
      in \<lparr>sel_ok = (select \<noteq> 0 \<and> bits AND (bits + 1) = 0 \<and> op_width AND op_widths = 0 \<and>
                   op_shift AND op_widths = 0 \<and> op_width \<le> data \<and> op_shift < data),
          sel_shift = op_shift, sel_width = op_width\<rparr>)"

definition addr_low_big_endian :: "u8 \<Rightarrow> slave_select \<Rightarrow> u8" where
  "addr_low_big_endian data sel = data - (sel_shift sel + sel_width sel)"

definition addr_low_little_endian :: "slave_select \<Rightarrow> u8" where
  "addr_low_little_endian sel = sel_shift sel"

definition data_mask :: "u8 \<Rightarrow> eb_data_t" where
  "data_mask w = drop_bit (8 * (8 - unat w)) (NOT 0)"

section \<open>Port parameters\<close>

definition alignment_of :: "eb_width_t \<Rightarrow> nat" where
  "alignment_of widths =
     (let biggest = drop_bit 4 widths OR (widths AND EB_DATAX)
      in 2 + (if biggest \<ge> EB_DATA32 then 2 else 0) + (if biggest \<ge> EB_DATA64 then 4 else 0))"

definition record_alignment_of :: "eb_width_t \<Rightarrow> nat" where
  "record_alignment_of widths =
     (let biggest = drop_bit 4 widths OR (widths AND EB_DATAX)
      in 4 + (if biggest \<ge> EB_DATA64 then 4 else 0))"

definition address_filter_bits :: "eb_width_t \<Rightarrow> eb_address_t" where
  "address_filter_bits widths =
     drop_bit (8 * (8 - unat (drop_bit 4 widths))) (NOT 0) - (ucast (widths AND EB_DATAX) - 1)"

text \<open>\<^verbatim>\<open>sizeof(buffer)\<close>\<close>

definition slave_buffer_size :: nat where
  "slave_buffer_size = 8 * (255 + 255 + 1 + 1) + 8"

abbreviation (input) EB_HEADER_PF :: u8 where "EB_HEADER_PF \<equiv> 0x01"
abbreviation (input) EB_HEADER_PR :: u8 where "EB_HEADER_PR \<equiv> 0x02"
abbreviation (input) EB_HEADER_NR :: u8 where "EB_HEADER_NR \<equiv> 0x04"
abbreviation (input) EB_RECORD_BCA :: u8 where "EB_RECORD_BCA \<equiv> 0x80"
abbreviation (input) EB_RECORD_RCA :: u8 where "EB_RECORD_RCA \<equiv> 0x40"
abbreviation (input) EB_RECORD_RFF :: u8 where "EB_RECORD_RFF \<equiv> 0x20"
abbreviation (input) EB_RECORD_CYC :: u8 where "EB_RECORD_CYC \<equiv> 0x08"
abbreviation (input) EB_RECORD_WCA :: u8 where "EB_RECORD_WCA \<equiv> 0x04"
abbreviation (input) EB_RECORD_WFF :: u8 where "EB_RECORD_WFF \<equiv> 0x02"

section \<open>Records\<close>

text \<open>What stays fixed while a message is processed. The local variables \<^verbatim>\<open>transport\<close> and \<^verbatim>\<open>link\<close> point into the object
  array, which moves when it grows, and the accesses in between run user code that may allocate.
  \<open>sl_taken\<close> is the size of the array when the two were last taken: as long as the array has this size, dereferencing them
  is the same as looking the handles up again; afterwards it is a use of a dangling pointer.\<close>

record slave_port =
  sp_socket :: eb_ptr
  sp_transport :: eb_ptr
  sp_link :: eb_ptr
  sp_widths :: eb_width_t

record 'w slave =
  sl_buf :: "u8 list"
  sl_rptr :: nat
  sl_wptr :: nat
  sl_eos :: nat
  sl_error :: u64
  sl_cycle_end :: u8
  sl_cycle_open :: bool
  sl_reply :: bool
  sl_taken :: u32
  sl_st :: "'w eb_state"

text \<open>A jump to the label \<^verbatim>\<open>kill\<close>, or normal control flow.\<close>

datatype ('s, 'w) flow = Kill "'w eb_state" | Go 's

abbreviation (input) port_data :: "slave_port \<Rightarrow> u8" where "port_data port \<equiv> sp_widths port AND EB_DATAX"
abbreviation (input) port_addr :: "slave_port \<Rightarrow> u8" where "port_addr port \<equiv> drop_bit 4 (sp_widths port)"

text \<open>The width passed on: the operation's data width and the port's address width.\<close>

definition full_width :: "slave_port \<Rightarrow> slave_select \<Rightarrow> eb_width_t" where
  "full_width port sel = sel_width sel OR push_bit 4 (port_addr port)"

fun slave_write_loop ::
    "'w eb_env \<Rightarrow> slave_port \<Rightarrow> slave_select \<Rightarrow> bool \<Rightarrow> bool \<Rightarrow> u8 list \<Rightarrow> nat \<Rightarrow> nat \<Rightarrow>
     eb_address_t \<Rightarrow> eb_address_t \<Rightarrow> eb_address_t \<Rightarrow> u64 \<Rightarrow> 'w eb_state \<Rightarrow> (nat \<times> u64 \<times> 'w eb_state) option" where
  "slave_write_loop env port sel wconfig wfifo buf 0 rptr bwa bwa_b bwa_l error st = Some (rptr, error, st)"
| "slave_write_loop env port sel wconfig wfifo buf (Suc wcount) rptr bwa bwa_b bwa_l error st = do {
     wv \<leftarrow> EB_LOAD buf rptr (alignment_of (sp_widths port));
     let rptr = rptr + alignment_of (sp_widths port);
     let wv = drop_bit (unat (sel_shift sel) * 8) wv AND data_mask (sel_width sel);
     (error, st) \<leftarrow> (if wconfig then
          if sel_ok sel then do {
            st \<leftarrow> eb_socket_write_config env (sp_socket port) (full_width port sel) bwa wv st;
            Some (error, st)
          } else Some (error, st)
        else
          if sel_ok sel then eb_socket_write env (sp_socket port) (full_width port sel) bwa_b bwa_l wv error st
          else Some (shift_error error True, st));
     let stride = (if wfifo then 0 else ucast (port_data port));
     slave_write_loop env port sel wconfig wfifo buf wcount rptr
       (bwa + stride) (bwa_b + stride) (bwa_l + stride) error st
   }"

fun slave_read_loop ::
    "'w eb_env \<Rightarrow> slave_port \<Rightarrow> slave_select \<Rightarrow> bool \<Rightarrow> nat \<Rightarrow> u8 list \<Rightarrow> nat \<Rightarrow> nat \<Rightarrow> u64 \<Rightarrow> 'w eb_state \<Rightarrow>
     (u8 list \<times> nat \<times> nat \<times> u64 \<times> 'w eb_state) option" where
  "slave_read_loop env port sel rconfig 0 buf rptr wptr error st = Some (buf, rptr, wptr, error, st)"
| "slave_read_loop env port sel rconfig (Suc rcount) buf rptr wptr error st = do {
     ra \<leftarrow> EB_LOAD buf rptr (alignment_of (sp_widths port));
     let rptr = rptr + alignment_of (sp_widths port);
     let ra = ra AND address_filter_bits (sp_widths port);
     let ra_b = ra OR ucast (addr_low_big_endian (port_data port) sel);
     let ra_l = ra OR ucast (addr_low_little_endian sel);
     (wv, error, st) \<leftarrow> (if rconfig then
          if sel_ok sel then do {
            wv \<leftarrow> eb_socket_read_config (full_width port sel) ra_b error;
            Some (wv, error, st)
          } else Some (0, error, st)
        else
          if sel_ok sel then eb_socket_read env (sp_socket port) (full_width port sel) ra_b ra_l error st
          else Some (0, shift_error error True, st));
     let wv = push_bit (unat (sel_shift sel) * 8) (wv AND data_mask (sel_width sel));
     buf \<leftarrow> EB_sWRITE buf wptr wv (alignment_of (sp_widths port));
     slave_read_loop env port sel rconfig rcount buf rptr (wptr + alignment_of (sp_widths port)) error st
   }"

text \<open>Waiting for more input on a stream: the unread bytes move to the front of the buffer and what
  arrives is put behind them.\<close>

definition slave_more ::
    "slave_port \<Rightarrow> 'w eb_transport_ops \<Rightarrow> eb_transport \<Rightarrow> nat \<Rightarrow> nat \<Rightarrow> 'w eb_state \<Rightarrow> 'w slave \<Rightarrow>
     ('w slave + ('w slave, 'w) flow) option" where
  "slave_more port ops transport rptr rptr' st s = do {
     let keep = sl_eos s - rptr;
     let buf = put_bytes 0 (take keep (drop rptr (sl_buf s))) (sl_buf s);
     link \<leftarrow> link_of (st_mem st) (sp_link port);
     let (len, bytes, w) = tops_recv ops transport link (slave_buffer_size - keep) (st_world st);
     let st = st\<lparr>st_world := w\<rparr>;
     if len \<le> 0 then Some (Inr (Kill st))
     else do {
       buf \<leftarrow> store_bytes buf keep bytes;
       Some (Inl (s\<lparr>sl_buf := buf, sl_wptr := 0, sl_rptr := rptr', sl_eos := nat len + keep, sl_st := st\<rparr>))
     }
   }"

definition pointers_valid :: "'w slave \<Rightarrow> bool" where
  "pointers_valid s \<longleftrightarrow> sl_taken s = eb_memory_array_size (st_mem (sl_st s))"

definition take_pointers :: "'w slave \<Rightarrow> 'w slave" where
  "take_pointers s = s\<lparr>sl_taken := eb_memory_array_size (st_mem (sl_st s))\<rparr>"

definition slave_send :: "'w eb_env \<Rightarrow> slave_port \<Rightarrow> 'w slave \<Rightarrow> 'w eb_state option" where
  "slave_send env port s =
     (if \<not> sl_reply s then Some (sl_st s)
      else if pointers_valid s then do_send env (sp_transport port) (sp_link port) (take (sl_wptr s) (sl_buf s)) (sl_st s)
      else None)"

text \<open>The loop that waits for the rest of a record: the record header is kept, its space is needed
  for the reply. Here the pointers are taken anew.\<close>

definition slave_refill_body ::
    "'w eb_env \<Rightarrow> slave_port \<Rightarrow> nat \<Rightarrow> 'w slave \<Rightarrow> ('w slave + ('w slave, 'w) flow) option" where
  "slave_refill_body env port tot s =
     (if tot * alignment_of (sp_widths port) \<le> sl_eos s - sl_rptr s then Some (Inr (Go s))
      else do {
        transport \<leftarrow> EB_TRANSPORT (st_mem (sl_st s)) (sp_transport port);
        ops \<leftarrow> tops env (tr_link_type transport);
        if tops_mtu ops \<noteq> 0 then Some (Inr (Kill (sl_st s)))
        else do {
          let s = take_pointers s;
          st \<leftarrow> slave_send env port s;
          slave_more port ops transport (sl_rptr s - record_alignment_of (sp_widths port))
            (record_alignment_of (sp_widths port)) st s
        }
      })"

definition slave_refill :: "'w eb_env \<Rightarrow> slave_port \<Rightarrow> nat \<Rightarrow> 'w slave \<Rightarrow> ('w slave, 'w) flow option" where
  "slave_refill env port tot = loop (slave_refill_body env port tot)"

definition slave_writes ::
    "'w eb_env \<Rightarrow> slave_port \<Rightarrow> slave_select \<Rightarrow> u8 \<Rightarrow> nat \<Rightarrow> 'w slave \<Rightarrow> 'w slave option" where
  "slave_writes env port sel flags wcount s =
     (if wcount > 0 then do {
        let wfifo = (flags AND EB_RECORD_WFF \<noteq> 0);
        let wconfig = (flags AND EB_RECORD_WCA \<noteq> 0);
        bwa \<leftarrow> EB_LOAD (sl_buf s) (sl_rptr s) (alignment_of (sp_widths port));
        let rptr = sl_rptr s + alignment_of (sp_widths port);
        let (bwa, bwa_b, bwa_l) =
          (if wconfig then (bwa, 0, 0)
           else let bwa = bwa AND address_filter_bits (sp_widths port)
                in (bwa, bwa OR ucast (addr_low_big_endian (port_data port) sel),
                    bwa OR ucast (addr_low_little_endian sel)));
        (rptr, error, st) \<leftarrow> slave_write_loop env port sel wconfig wfifo (sl_buf s) wcount rptr
           bwa bwa_b bwa_l (sl_error s) (sl_st s);
        Some (s\<lparr>sl_rptr := rptr, sl_error := error, sl_st := st\<rparr>)
      } else Some s)"

definition slave_reads ::
    "'w eb_env \<Rightarrow> slave_port \<Rightarrow> slave_select \<Rightarrow> u8 \<Rightarrow> u8 \<Rightarrow> nat \<Rightarrow> 'w slave \<Rightarrow> 'w slave option" where
  "slave_reads env port sel flags select rcount s =
     (if rcount > 0 then do {
        let rfifo = (flags AND EB_RECORD_RFF \<noteq> 0);
        let bconfig = (flags AND EB_RECORD_BCA \<noteq> 0);
        let rconfig = (flags AND EB_RECORD_RCA \<noteq> 0);
        let h0 = sl_cycle_end s OR (if bconfig then EB_RECORD_WCA else 0) OR (if rfifo then EB_RECORD_WFF else 0);
        buf \<leftarrow> store_bytes (sl_buf s) (sl_wptr s) (replicate (record_alignment_of (sp_widths port)) 0);
        buf \<leftarrow> store_bytes buf (sl_wptr s) [h0, select, of_nat rcount, 0];
        let wptr = sl_wptr s + record_alignment_of (sp_widths port);
        bra \<leftarrow> EB_LOAD buf (sl_rptr s) (alignment_of (sp_widths port));
        let rptr = sl_rptr s + alignment_of (sp_widths port);
        buf \<leftarrow> EB_sWRITE buf wptr bra (alignment_of (sp_widths port));
        let wptr = wptr + alignment_of (sp_widths port);
        (buf, rptr, wptr, error, st) \<leftarrow> slave_read_loop env port sel rconfig rcount buf rptr wptr (sl_error s) (sl_st s);
        Some (s\<lparr>sl_buf := buf, sl_rptr := rptr, sl_wptr := wptr, sl_error := error, sl_st := st,
                sl_reply := True, sl_cycle_open := (sl_cycle_end s = 0)\<rparr>)
      } else Some s)"

definition slave_terminate :: "slave_port \<Rightarrow> 'w slave \<Rightarrow> 'w slave option" where
  "slave_terminate port s =
     (if sl_cycle_open s \<and> sl_cycle_end s \<noteq> 0 then do {
        buf \<leftarrow> store_bytes (sl_buf s) (sl_wptr s) (replicate (record_alignment_of (sp_widths port)) 0);
        buf \<leftarrow> store_bytes buf (sl_wptr s) [sl_cycle_end s];
        Some (s\<lparr>sl_buf := buf, sl_wptr := sl_wptr s + record_alignment_of (sp_widths port)\<rparr>)
      } else Some s)"

text \<open>One pass of the loop: the record at \<^verbatim>\<open>rptr\<close>.\<close>

definition slave_record :: "'w eb_env \<Rightarrow> slave_port \<Rightarrow> 'w slave \<Rightarrow> ('w slave, 'w) flow option" where
  "slave_record env port s =
     (if sl_rptr s + 4 \<le> length (sl_buf s) then do {
        let flags = sl_buf s ! sl_rptr s;
        let select = sl_buf s ! (sl_rptr s + 1);
        let wcount = unat (sl_buf s ! (sl_rptr s + 2));
        let rcount = unat (sl_buf s ! (sl_rptr s + 3));
        let sel = decode_select (port_data port) select;
        let s = s\<lparr>sl_rptr := sl_rptr s + record_alignment_of (sp_widths port),
                 sl_cycle_end := flags AND EB_RECORD_CYC\<rparr>;
        let tot = wcount + rcount + (if wcount > 0 then 1 else 0) + (if rcount > 0 then 1 else 0);
        flow \<leftarrow> slave_refill env port tot s;
        case flow of
          Kill st \<Rightarrow> Some (Kill st)
        | Go s \<Rightarrow> do {
            s \<leftarrow> slave_writes env port sel flags wcount s;
            s \<leftarrow> slave_reads env port sel flags select rcount s;
            s \<leftarrow> slave_terminate port s;
            Some (Go s)
          }
      } else None)"

definition slave_loop_body ::
    "'w eb_env \<Rightarrow> slave_port \<Rightarrow> 'w slave \<Rightarrow> ('w slave + ('w slave, 'w) flow) option" where
  "slave_loop_body env port s =
     (if sl_rptr s + record_alignment_of (sp_widths port) \<le> sl_eos s then do {
        flow \<leftarrow> slave_record env port s;
        Some (case flow of Kill st \<Rightarrow> Inr (Kill st) | Go s \<Rightarrow> Inl s)
      } else Some (Inr (Go s)))"

definition slave_loop :: "'w eb_env \<Rightarrow> slave_port \<Rightarrow> 'w slave \<Rightarrow> ('w slave, 'w) flow option" where
  "slave_loop env port = loop (slave_loop_body env port)"

text \<open>From the label \<^verbatim>\<open>resume_cycle\<close> to the end: the result is \<open>Go\<close> where the code returns 1; the jump
  back to the label is the loop. Neither the reply nor the call of \<^verbatim>\<open>recv\<close> takes the pointers anew.\<close>

definition slave_resume_body ::
    "'w eb_env \<Rightarrow> slave_port \<Rightarrow> 'w slave \<Rightarrow> ('w slave + ('w slave, 'w) flow) option" where
  "slave_resume_body env port s = do {
     flow \<leftarrow> slave_loop env port s;
     case flow of
       Kill st \<Rightarrow> Some (Inr (Kill st))
     | Go s \<Rightarrow> do {
         st \<leftarrow> slave_send env port s;
         if sl_cycle_end s = 0 then if \<not> pointers_valid s then None else do {
           transport \<leftarrow> EB_TRANSPORT (st_mem st) (sp_transport port);
           ops \<leftarrow> tops env (tr_link_type transport);
           if tops_mtu ops \<noteq> 0 then Some (Inr (Kill st))
           else slave_more port ops transport (sl_rptr s) 0 st s
         } else if sl_rptr s \<noteq> sl_eos s then Some (Inr (Kill st))
         else Some (Inr (Go (s\<lparr>sl_st := st\<rparr>)))
       }
   }"

definition slave_resume :: "'w eb_env \<Rightarrow> slave_port \<Rightarrow> 'w slave \<Rightarrow> ('w slave, 'w) flow option" where
  "slave_resume env port = loop (slave_resume_body env port)"

section \<open>Messages\<close>

partial_function (option) find_device_tag :: "eb_memory \<Rightarrow> u32 \<Rightarrow> eb_ptr \<Rightarrow> eb_ptr option" where
  "find_device_tag m tag devp =
     (if devp = EB_NULL then Some devp
      else do {
        dev \<leftarrow> EB_DEVICE m devp;
        if ucast devp = tag then Some devp else find_device_tag m tag (dev_next dev)
      })"

text \<open>The code at the label \<^verbatim>\<open>kill\<close>.\<close>

definition slave_kill ::
    "'w eb_env \<Rightarrow> eb_ptr \<Rightarrow> eb_ptr \<Rightarrow> eb_ptr \<Rightarrow> bool \<Rightarrow> 'w eb_state \<Rightarrow> (int \<times> 'w eb_state) option" where
  "slave_kill env transportp devicep linkp passive st =
     (if devicep = EB_NULL then Some (0, st)
      else if passive then do {
        (_, st) \<leftarrow> eb_device_close env devicep st;
        Some (0, st)
      } else do {
        device \<leftarrow> EB_DEVICE (st_mem st) devicep;
        st \<leftarrow> do_disconnect env transportp linkp st;
        st \<leftarrow> on_mem (eb_free_link (dev_link device)) st;
        st \<leftarrow> on_mem (\<lambda>m. set_device m devicep (\<lambda>d. d\<lparr>dev_link := EB_NULL\<rparr>)) st;
        Some (0, st)
      })"

text \<open>Answering a probe.\<close>

definition slave_probe ::
    "'w eb_env \<Rightarrow> eb_ptr \<Rightarrow> eb_ptr \<Rightarrow> eb_ptr \<Rightarrow> eb_ptr \<Rightarrow> bool \<Rightarrow> u8 list \<Rightarrow> 'w eb_state \<Rightarrow> (int \<times> 'w eb_state) option" where
  "slave_probe env socketp transportp devicep linkp passive buf st = do {
     socket \<leftarrow> EB_SOCKET (st_mem st) socketp;
     let widths = eb_width_refine (buf ! 3 AND so_widths socket);
     let buf = buf[2 := 0x10 OR EB_HEADER_PR OR EB_HEADER_NR, 3 := so_widths socket];
     st \<leftarrow> (if passive then on_mem (\<lambda>m. set_device m devicep (\<lambda>d. d\<lparr>dev_widths := widths\<rparr>)) st else Some st);
     st \<leftarrow> do_send env transportp linkp (take 8 buf) st;
     if \<not> eb_width_possible widths then slave_kill env transportp devicep linkp passive st
     else Some (1, st)
   }"

definition slave_probe_response ::
    "'w eb_env \<Rightarrow> eb_ptr \<Rightarrow> eb_ptr \<Rightarrow> eb_ptr \<Rightarrow> eb_ptr \<Rightarrow> bool \<Rightarrow> u8 list \<Rightarrow> 'w eb_state \<Rightarrow> (int \<times> 'w eb_state) option" where
  "slave_probe_response env socketp transportp devicep linkp passive buf st = do {
     socket \<leftarrow> EB_SOCKET (st_mem st) socketp;
     let tag = (ucast (be_word (take 4 (drop 4 buf))) :: u32);
     devp \<leftarrow> find_device_tag (st_mem st) tag (so_first_device socket);
     if devp = EB_NULL then slave_kill env transportp devicep linkp passive st
     else do {
       st \<leftarrow> on_mem (\<lambda>m. set_device m devp (\<lambda>d. d\<lparr>dev_widths := buf ! 3\<rparr>)) st;
       Some (0, st)
     }
   }"

definition slave_payload ::
    "'w eb_env \<Rightarrow> eb_ptr \<Rightarrow> eb_ptr \<Rightarrow> eb_ptr \<Rightarrow> eb_ptr \<Rightarrow> bool \<Rightarrow> eb_width_t \<Rightarrow> bool \<Rightarrow> u8 list \<Rightarrow> nat \<Rightarrow>
     'w eb_state \<Rightarrow> (int \<times> 'w eb_state) option" where
  "slave_payload env socketp transportp devicep linkp passive widths header buf len st = do {
     let start = (if header then record_alignment_of widths else 0);
     let port = \<lparr>sp_socket = socketp, sp_transport = transportp, sp_link = linkp, sp_widths = widths\<rparr>;
     flow \<leftarrow> slave_resume env port \<lparr>sl_buf = buf, sl_rptr = start, sl_wptr = start, sl_eos = len,
        sl_error = 0, sl_cycle_end = 1, sl_cycle_open = False, sl_reply = False,
        sl_taken = eb_memory_array_size (st_mem st), sl_st = st\<rparr>;
     case flow of
       Kill st \<Rightarrow> slave_kill env transportp devicep linkp passive st
     | Go s \<Rightarrow> Some (1, sl_st s)
   }"

definition eb_device_slave ::
    "'w eb_env \<Rightarrow> eb_ptr \<Rightarrow> eb_ptr \<Rightarrow> eb_ptr \<Rightarrow> 'w eb_state \<Rightarrow> (int \<times> 'w eb_state) option" where
  "eb_device_slave env socketp transportp devicep st = do {
     transport \<leftarrow> EB_TRANSPORT (st_mem st) transportp;
     socket \<leftarrow> EB_SOCKET (st_mem st) socketp;
     ops \<leftarrow> tops env (tr_link_type transport);
     (linkp, link, widths, header, passive, active) \<leftarrow>
       (if devicep \<noteq> EB_NULL then do {
          device \<leftarrow> EB_DEVICE (st_mem st) devicep;
          link \<leftarrow> EB_LINK (st_mem st) (dev_link device);
          let passive = (dev_un_link device = devicep);
          Some (dev_link device, Some link,
                (if tops_mtu ops = 0 then dev_widths device else 0),
                (if tops_mtu ops = 0 then dev_widths device = 0 else True), passive, \<not> passive)
        } else Some (EB_NULL, None, 0, True, False, False));
     let (len, bytes, w) = tops_poll ops transport link slave_buffer_size (st_world st);
     let st = st\<lparr>st_world := w\<rparr>;
     buf \<leftarrow> store_bytes (map (env_junk env) [0..<slave_buffer_size]) 0 bytes;
     let kill = slave_kill env transportp devicep linkp passive;
     if len = 0 then Some (0, st)
     else if len < 2 then kill st
     else if header then
       if buf ! 0 \<noteq> 0x4E \<or> buf ! 1 \<noteq> 0x6F \<or> len < 4 then kill st
       else if buf ! 2 AND EB_HEADER_PF \<noteq> 0 then
         if len \<noteq> 8 \<or> active then kill st
         else slave_probe env socketp transportp devicep linkp passive buf st
       else if buf ! 2 AND EB_HEADER_PR \<noteq> 0 then
         if len \<noteq> 8 \<or> passive then kill st
         else slave_probe_response env socketp transportp devicep linkp passive buf st
       else if buf ! 2 AND 0xf0 \<noteq> 0x10 then kill st
       else
         let widths = eb_width_refine (buf ! 3 AND so_widths socket)
         in if \<not> eb_width_possible widths then kill st
            else slave_payload env socketp transportp devicep linkp passive widths True
                   (buf[2 := buf ! 2 OR EB_HEADER_NR]) (nat len) st
     else slave_payload env socketp transportp devicep linkp passive widths False buf (nat len) st
   }"

end
