(* ===== verification/Eb_Serve.thy ===== *)
theory Eb_Serve
  imports Eb_Slave
begin

text \<open>
  The slave engine as a function on byte streams. The code in \<^verbatim>\<open>slave.c\<close> overwrites the request with
  the reply in one buffer; here a record is read from an input list and its reply appended to an
  output list. The theorems of this theory show that the two agree: the reply never reaches a
  byte of the request that is still to be read.
\<close>

section \<open>Wire format of a record\<close>

record wire_record =
  wr_flags :: u8
  wr_select :: u8
  wr_bwa :: eb_data_t
  wr_writes :: "eb_data_t list"
  wr_bra :: eb_data_t
  wr_reads :: "eb_data_t list"

definition encode_fields :: "nat \<Rightarrow> eb_data_t \<Rightarrow> eb_data_t list \<Rightarrow> u8 list" where
  "encode_fields al base vs = (if vs = [] then [] else be_bytes al base @ concat (map (be_bytes al) vs))"

definition encode_record :: "eb_width_t \<Rightarrow> wire_record \<Rightarrow> u8 list" where
  "encode_record widths r =
     [wr_flags r, wr_select r, of_nat (length (wr_writes r)), of_nat (length (wr_reads r))] @
     replicate (record_alignment_of widths - 4) 0 @
     encode_fields (alignment_of widths) (wr_bwa r) (wr_writes r) @
     encode_fields (alignment_of widths) (wr_bra r) (wr_reads r)"

primrec loads :: "nat \<Rightarrow> nat \<Rightarrow> u8 list \<Rightarrow> eb_data_t list" where
  "loads al 0 bs = []"
| "loads al (Suc n) bs = be_word (take al bs) # loads al n (drop al bs)"

text \<open>The number of fields after the header of a record with \<open>w\<close> writes and \<open>r\<close> reads.\<close>

definition field_count :: "nat \<Rightarrow> nat" where
  "field_count n = (if n > 0 then n + 1 else 0)"

definition record_size :: "eb_width_t \<Rightarrow> u8 list \<Rightarrow> nat" where
  "record_size widths bs =
     record_alignment_of widths + (field_count (unat (bs ! 2)) + field_count (unat (bs ! 3))) * alignment_of widths"

definition decode_record :: "eb_width_t \<Rightarrow> u8 list \<Rightarrow> wire_record" where
  "decode_record widths bs =
     (let al = alignment_of widths; wcount = unat (bs ! 2); rcount = unat (bs ! 3);
          ws = drop (record_alignment_of widths) bs; rs = drop (field_count wcount * al) ws
      in \<lparr>wr_flags = bs ! 0, wr_select = bs ! 1,
          wr_bwa = (if wcount > 0 then be_word (take al ws) else 0), wr_writes = loads al wcount (drop al ws),
          wr_bra = (if rcount > 0 then be_word (take al rs) else 0), wr_reads = loads al rcount (drop al rs)\<rparr>)"

section \<open>Serving a record\<close>

record 'w serve =
  sv_in :: "u8 list"
  sv_out :: "u8 list"
  sv_error :: u64
  sv_cycle_end :: u8
  sv_cycle_open :: bool
  sv_reply :: bool
  sv_taken :: u32
  sv_st :: "'w eb_state"

fun serve_write_accesses ::
    "'w eb_env \<Rightarrow> slave_port \<Rightarrow> slave_select \<Rightarrow> bool \<Rightarrow> bool \<Rightarrow> eb_data_t list \<Rightarrow>
     eb_address_t \<Rightarrow> eb_address_t \<Rightarrow> eb_address_t \<Rightarrow> u64 \<Rightarrow> 'w eb_state \<Rightarrow> (u64 \<times> 'w eb_state) option" where
  "serve_write_accesses env port sel wconfig wfifo [] bwa bwa_b bwa_l error st = Some (error, st)"
| "serve_write_accesses env port sel wconfig wfifo (v # vs) bwa bwa_b bwa_l error st = do {
     let wv = drop_bit (unat (sel_shift sel) * 8) v AND data_mask (sel_width sel);
     (error, st) \<leftarrow> (if wconfig then
          if sel_ok sel then do {
            st \<leftarrow> eb_socket_write_config env (sp_socket port) (full_width port sel) bwa wv st;
            Some (error, st)
          } else Some (error, st)
        else
          if sel_ok sel then eb_socket_write env (sp_socket port) (full_width port sel) bwa_b bwa_l wv error st
          else Some (shift_error error True, st));
     let stride = (if wfifo then 0 else ucast (port_data port));
     serve_write_accesses env port sel wconfig wfifo vs (bwa + stride) (bwa_b + stride) (bwa_l + stride) error st
   }"

fun serve_read_accesses ::
    "'w eb_env \<Rightarrow> slave_port \<Rightarrow> slave_select \<Rightarrow> bool \<Rightarrow> eb_address_t list \<Rightarrow> u64 \<Rightarrow> 'w eb_state \<Rightarrow>
     (eb_data_t list \<times> u64 \<times> 'w eb_state) option" where
  "serve_read_accesses env port sel rconfig [] error st = Some ([], error, st)"
| "serve_read_accesses env port sel rconfig (a # as) error st = do {
     let ra = a AND address_filter_bits (sp_widths port);
     let ra_b = ra OR ucast (addr_low_big_endian (port_data port) sel);
     let ra_l = ra OR ucast (addr_low_little_endian sel);
     (wv, error, st) \<leftarrow> (if rconfig then
          if sel_ok sel then do {
            wv \<leftarrow> eb_socket_read_config (full_width port sel) ra_b error;
            Some (wv, error, st)
          } else Some (0, error, st)
        else
          if sel_ok sel then eb_socket_read env (sp_socket port) (full_width port sel) ra_b ra_l error st
          else Some (0, shift_error error True, st));
     let wv = push_bit (unat (sel_shift sel) * 8) (wv AND data_mask (sel_width sel));
     (wvs, error, st) \<leftarrow> serve_read_accesses env port sel rconfig as error st;
     Some (wv # wvs, error, st)
   }"

text \<open>The writes of a record.\<close>

definition serve_writes :: "'w eb_env \<Rightarrow> slave_port \<Rightarrow> wire_record \<Rightarrow> 'w serve \<Rightarrow> 'w serve option" where
  "serve_writes env port r v = do {
     let sel = decode_select (port_data port) (wr_select r);
     let wconfig = (wr_flags r AND EB_RECORD_WCA \<noteq> 0);
     let base = wr_bwa r AND address_filter_bits (sp_widths port);
     (error, st) \<leftarrow> serve_write_accesses env port sel wconfig (wr_flags r AND EB_RECORD_WFF \<noteq> 0) (wr_writes r)
        (if wconfig then wr_bwa r else base)
        (if wconfig then 0 else base OR ucast (addr_low_big_endian (port_data port) sel))
        (if wconfig then 0 else base OR ucast (addr_low_little_endian sel)) (sv_error v) (sv_st v);
     Some (v\<lparr>sv_error := error, sv_st := st\<rparr>)
   }"

text \<open>The reads of a record: the reply is itself a record, writing the values read to the return address.\<close>

definition reply_flags :: "u8 \<Rightarrow> u8" where
  "reply_flags flags = (flags AND EB_RECORD_CYC) OR (if flags AND EB_RECORD_BCA \<noteq> 0 then EB_RECORD_WCA else 0) OR
     (if flags AND EB_RECORD_RFF \<noteq> 0 then EB_RECORD_WFF else 0)"

definition serve_reads :: "'w eb_env \<Rightarrow> slave_port \<Rightarrow> wire_record \<Rightarrow> 'w serve \<Rightarrow> 'w serve option" where
  "serve_reads env port r v =
     (if wr_reads r = [] then Some v
      else do {
        let sel = decode_select (port_data port) (wr_select r);
        (vs, error, st) \<leftarrow> serve_read_accesses env port sel (wr_flags r AND EB_RECORD_RCA \<noteq> 0) (wr_reads r) (sv_error v) (sv_st v);
        Some (v\<lparr>sv_out := sv_out v @ encode_record (sp_widths port)
                  \<lparr>wr_flags = reply_flags (wr_flags r), wr_select = wr_select r, wr_bwa = wr_bra r, wr_writes = vs,
                   wr_bra = 0, wr_reads = []\<rparr>,
                sv_error := error, sv_st := st, sv_reply := True, sv_cycle_open := (sv_cycle_end v = 0)\<rparr>)
      })"

definition serve_terminate :: "slave_port \<Rightarrow> 'w serve \<Rightarrow> 'w serve" where
  "serve_terminate port v =
     (if sv_cycle_open v \<and> sv_cycle_end v \<noteq> 0
      then v\<lparr>sv_out := sv_out v @ encode_record (sp_widths port)
                \<lparr>wr_flags = sv_cycle_end v, wr_select = 0, wr_bwa = 0, wr_writes = [], wr_bra = 0, wr_reads = []\<rparr>\<rparr>
      else v)"

text \<open>On a stream, an incomplete record waits for more input; what was answered so far is sent first.\<close>

definition serve_more ::
    "slave_port \<Rightarrow> 'w eb_transport_ops \<Rightarrow> eb_transport \<Rightarrow> 'w eb_state \<Rightarrow> 'w serve \<Rightarrow>
     ('w serve + ('w serve, 'w) flow) option" where
  "serve_more port ops transport st v = do {
     link \<leftarrow> link_of (st_mem st) (sp_link port);
     let (len, bytes, w) = tops_recv ops transport link (slave_buffer_size - length (sv_in v)) (st_world st);
     let st = st\<lparr>st_world := w\<rparr>;
     if len \<le> 0 then Some (Inr (Kill st))
     else Some (Inl (v\<lparr>sv_in := sv_in v @ bytes, sv_out := [], sv_st := st\<rparr>))
   }"

definition serve_send :: "'w eb_env \<Rightarrow> slave_port \<Rightarrow> 'w serve \<Rightarrow> 'w eb_state option" where
  "serve_send env port v =
     (if \<not> sv_reply v then Some (sv_st v)
      else if sv_taken v = eb_memory_array_size (st_mem (sv_st v)) then do_send env (sp_transport port) (sp_link port) (sv_out v) (sv_st v)
      else None)"

definition serve_refill_body ::
    "'w eb_env \<Rightarrow> slave_port \<Rightarrow> nat \<Rightarrow> 'w serve \<Rightarrow> ('w serve + ('w serve, 'w) flow) option" where
  "serve_refill_body env port needed v =
     (if needed \<le> length (sv_in v) then Some (Inr (Go v))
      else do {
        transport \<leftarrow> EB_TRANSPORT (st_mem (sv_st v)) (sp_transport port);
        ops \<leftarrow> tops env (tr_link_type transport);
        if tops_mtu ops \<noteq> 0 then Some (Inr (Kill (sv_st v)))
        else do {
          let v = v\<lparr>sv_taken := eb_memory_array_size (st_mem (sv_st v))\<rparr>;
          st \<leftarrow> serve_send env port v;
          serve_more port ops transport st v
        }
      })"

definition serve_record :: "'w eb_env \<Rightarrow> slave_port \<Rightarrow> 'w serve \<Rightarrow> ('w serve, 'w) flow option" where
  "serve_record env port v = do {
     flow \<leftarrow> loop (serve_refill_body env port (record_size (sp_widths port) (sv_in v)))
               (v\<lparr>sv_cycle_end := sv_in v ! 0 AND EB_RECORD_CYC\<rparr>);
     case flow of
       Kill st \<Rightarrow> Some (Kill st)
     | Go v \<Rightarrow> do {
         let r = decode_record (sp_widths port) (sv_in v);
         v \<leftarrow> serve_writes env port r (v\<lparr>sv_in := drop (record_size (sp_widths port) (sv_in v)) (sv_in v)\<rparr>);
         v \<leftarrow> serve_reads env port r v;
         Some (Go (serve_terminate port v))
       }
   }"

definition serve_loop_body ::
    "'w eb_env \<Rightarrow> slave_port \<Rightarrow> 'w serve \<Rightarrow> ('w serve + ('w serve, 'w) flow) option" where
  "serve_loop_body env port v =
     (if record_alignment_of (sp_widths port) \<le> length (sv_in v) then do {
        flow \<leftarrow> serve_record env port v;
        Some (case flow of Kill st \<Rightarrow> Inr (Kill st) | Go v \<Rightarrow> Inl v)
      } else Some (Inr (Go v)))"

definition serve_resume_body ::
    "'w eb_env \<Rightarrow> slave_port \<Rightarrow> 'w serve \<Rightarrow> ('w serve + ('w serve, 'w) flow) option" where
  "serve_resume_body env port v = do {
     flow \<leftarrow> loop (serve_loop_body env port) v;
     case flow of
       Kill st \<Rightarrow> Some (Inr (Kill st))
     | Go v \<Rightarrow> do {
         st \<leftarrow> serve_send env port v;
         if sv_cycle_end v = 0 then if sv_taken v \<noteq> eb_memory_array_size (st_mem (sv_st v)) then None else do {
           transport \<leftarrow> EB_TRANSPORT (st_mem st) (sp_transport port);
           ops \<leftarrow> tops env (tr_link_type transport);
           if tops_mtu ops \<noteq> 0 then Some (Inr (Kill st)) else serve_more port ops transport st v
         } else if sv_in v \<noteq> [] then Some (Inr (Kill st))
         else Some (Inr (Go (v\<lparr>sv_st := st\<rparr>)))
       }
   }"

text \<open>A whole message: \<open>hdr\<close> is the header of the request, which the reply starts with, and \<open>payload\<close>
  the records.\<close>

definition serve_message ::
    "'w eb_env \<Rightarrow> slave_port \<Rightarrow> u8 list \<Rightarrow> u8 list \<Rightarrow> 'w eb_state \<Rightarrow> ('w serve, 'w) flow option" where
  "serve_message env port hdr payload st =
     loop (serve_resume_body env port) \<lparr>sv_in = payload, sv_out = hdr, sv_error = 0, sv_cycle_end = 1,
       sv_cycle_open = False, sv_reply = False, sv_taken = eb_memory_array_size (st_mem st), sv_st = st\<rparr>"

section \<open>Buffers\<close>

lemma alignment_cases: "alignment_of w \<in> {2, 4, 8}" "record_alignment_of w \<in> {4, 8}"
proof -
  have "b \<ge> EB_DATA64 \<Longrightarrow> b \<ge> EB_DATA32" for b :: u8 by (erule order_trans [rotated]) simp
  then show "alignment_of w \<in> {2, 4, 8}" by (auto simp: alignment_of_def Let_def)
  show "record_alignment_of w \<in> {4, 8}" by (auto simp: record_alignment_of_def Let_def)
qed

lemma record_alignment_ge: "4 \<le> record_alignment_of w"
  using alignment_cases(2) [of w] by auto

lemma alignment_ge: "2 \<le> alignment_of w"
  using alignment_cases(1) [of w] by auto

lemma EB_LOAD_in: "p + alignment_of w \<le> length buf \<Longrightarrow>
    EB_LOAD buf p (alignment_of w) = Some (be_word (take (alignment_of w) (drop p buf)))"
  using alignment_cases(1) [of w] by (auto simp: EB_LOAD_def)

lemma EB_sWRITE_in: "p + alignment_of w \<le> length buf \<Longrightarrow>
    EB_sWRITE buf p v (alignment_of w) = Some (put_bytes p (be_bytes (alignment_of w) v) buf)"
  using alignment_cases(1) [of w] by (auto simp: EB_sWRITE_def)

lemma length_put_bytes [simp]: "p + length bs \<le> length buf \<Longrightarrow> length (put_bytes p bs buf) = length buf"
  by (simp add: put_bytes_def)

lemma drop_put_bytes: "p + length bs \<le> q \<Longrightarrow> p \<le> length buf \<Longrightarrow> drop q (put_bytes p bs buf) = drop q buf"
  by (simp add: put_bytes_def)

lemma take_put_bytes: "p \<le> length buf \<Longrightarrow> take p (put_bytes p bs buf) = take p buf"
  by (simp add: put_bytes_def)

lemma take_put_bytes_all: "p \<le> length buf \<Longrightarrow> take (p + length bs) (put_bytes p bs buf) = take p buf @ bs"
  by (simp add: put_bytes_def)

lemma put_bytes_append:
  "p + length as \<le> length buf \<Longrightarrow> put_bytes (p + length as) bs (put_bytes p as buf) = put_bytes p (as @ bs) buf"
  by (simp add: put_bytes_def add.commute add.left_commute)

lemma put_bytes_Nil [simp]: "put_bytes p [] buf = buf"
  by (simp add: put_bytes_def)

lemma put_bytes_over:
  "length as \<le> length bs \<Longrightarrow> p + length bs \<le> length buf \<Longrightarrow>
   put_bytes p as (put_bytes p bs buf) = put_bytes p (as @ drop (length as) bs) buf"
  by (simp add: put_bytes_def)

lemma loads_cong: "take (n * al) bs = take (n * al) bs' \<Longrightarrow> loads al n bs = loads al n bs'"
proof (induction n arbitrary: bs bs')
  case (Suc n)
  have "take al (take (Suc n * al) bs) = take al (take (Suc n * al) bs')" using Suc.prems by simp
  then have 1: "take al bs = take al bs'" by simp
  have "drop al (take (Suc n * al) bs) = drop al (take (Suc n * al) bs')" using Suc.prems by simp
  then have 2: "take (n * al) (drop al bs) = take (n * al) (drop al bs')" by (simp add: drop_take)
  show ?case by (simp only: loads.simps 1 Suc.IH [OF 2])
qed simp

lemma length_loads [simp]: "length (loads al n bs) = n"
  by (induction n arbitrary: bs) auto

section \<open>The access loops\<close>

lemma slave_write_loop_serves:
  "rptr + n * alignment_of (sp_widths port) \<le> length buf \<Longrightarrow>
   slave_write_loop env port sel wconfig wfifo buf n rptr bwa bwa_b bwa_l error st =
     map_option (\<lambda>(error, st). (rptr + n * alignment_of (sp_widths port), error, st))
       (serve_write_accesses env port sel wconfig wfifo (loads (alignment_of (sp_widths port)) n (drop rptr buf))
          bwa bwa_b bwa_l error st)"
proof (induction n arbitrary: rptr bwa bwa_b bwa_l error st)
  case (Suc n)
  let ?al = "alignment_of (sp_widths port)"
  have l: "EB_LOAD buf rptr ?al = Some (be_word (take ?al (drop rptr buf)))"
    by (rule EB_LOAD_in) (use Suc.prems in simp)
  have n: "rptr + ?al + n * ?al \<le> length buf" using Suc.prems by (simp add: algebra_simps)
  note IH = Suc.IH [OF n]
  show ?case
    by (simp add: l IH Let_def map_conv_bind_option comp_def drop_drop ac_simps split_def
        cong: bind_option_cong)
qed simp

lemma serve_read_length:
  "serve_read_accesses env port sel rconfig as error st = Some (vs, r) \<Longrightarrow> length vs = length as"
proof (induction as arbitrary: error st vs r)
  case (Cons a as)
  then show ?case by (auto simp: bind_eq_Some_conv Let_def)
qed simp

lemma slave_read_loop_serves:
  "wptr \<le> rptr \<Longrightarrow> rptr + n * alignment_of (sp_widths port) \<le> length buf \<Longrightarrow>
   slave_read_loop env port sel rconfig n buf rptr wptr error st =
     map_option (\<lambda>(vs, error, st). (put_bytes wptr (concat (map (be_bytes (alignment_of (sp_widths port))) vs)) buf,
         rptr + n * alignment_of (sp_widths port), wptr + n * alignment_of (sp_widths port), error, st))
       (serve_read_accesses env port sel rconfig (loads (alignment_of (sp_widths port)) n (drop rptr buf)) error st)"
proof (induction n arbitrary: buf rptr wptr error st)
  case (Suc n)
  let ?al = "alignment_of (sp_widths port)"
  have l: "EB_LOAD buf rptr ?al = Some (be_word (take ?al (drop rptr buf)))"
    by (rule EB_LOAD_in) (use Suc.prems in simp)
  have w: "EB_sWRITE buf wptr v ?al = Some (put_bytes wptr (be_bytes ?al v) buf)" for v
    by (rule EB_sWRITE_in) (use Suc.prems in simp)
  have len: "length (put_bytes wptr (be_bytes ?al v) buf) = length buf" for v
    using Suc.prems by simp
  have d: "drop (rptr + ?al) (put_bytes wptr (be_bytes ?al v) buf) = drop (rptr + ?al) buf" for v
    using Suc.prems by (intro drop_put_bytes) simp_all
  have app: "put_bytes (wptr + ?al) bs (put_bytes wptr (be_bytes ?al v) buf) = put_bytes wptr (be_bytes ?al v @ bs) buf" for v bs
    using put_bytes_append [of wptr "be_bytes ?al v" buf bs] Suc.prems by simp
  have IH: "slave_read_loop env port sel rconfig n (put_bytes wptr (be_bytes ?al v) buf) (rptr + ?al) (wptr + ?al) error st =
     map_option (\<lambda>(vs, error, st). (put_bytes wptr (be_bytes ?al v @ concat (map (be_bytes ?al) vs)) buf,
         rptr + Suc n * ?al, wptr + Suc n * ?al, error, st))
       (serve_read_accesses env port sel rconfig (loads ?al n (drop (rptr + ?al) buf)) error st)" for v error st
    using Suc.prems by (subst Suc.IH) (simp_all add: len d app algebra_simps split_def)
  show ?case
    by (simp add: l w IH Let_def map_conv_bind_option comp_def split_def drop_drop ac_simps
        del: mult_Suc cong: bind_option_cong)
qed simp

section \<open>The parts of a record\<close>

abbreviation (input) reply_record :: "u8 \<Rightarrow> u8 \<Rightarrow> eb_data_t \<Rightarrow> eb_data_t list \<Rightarrow> wire_record" where
  "reply_record flags select base vs \<equiv>
     \<lparr>wr_flags = flags, wr_select = select, wr_bwa = base, wr_writes = vs, wr_bra = 0, wr_reads = []\<rparr>"

lemma length_concat_be_bytes [simp]: "length (concat (map (be_bytes n) vs)) = length vs * n"
  by (induction vs) auto

lemma length_encode_fields: "length (encode_fields al base vs) = field_count (length vs) * al"
  by (simp add: encode_fields_def field_count_def)

lemma length_encode_record:
  "length (encode_record widths r) =
     record_alignment_of widths + (field_count (length (wr_writes r)) + field_count (length (wr_reads r))) * alignment_of widths"
  using record_alignment_ge [of widths] by (simp add: encode_record_def length_encode_fields algebra_simps)

lemma store_bytes_in: "p + length bs \<le> length buf \<Longrightarrow> store_bytes buf p bs = Some (put_bytes p bs buf)"
  by (simp add: store_bytes_def)

lemma slave_writes_serves:
  assumes "sl_rptr s + field_count wcount * alignment_of (sp_widths port) \<le> length (sl_buf s)"
  shows "slave_writes env port sel flags wcount s =
    (let al = alignment_of (sp_widths port); ws = drop (sl_rptr s) (sl_buf s);
         wconfig = (flags AND EB_RECORD_WCA \<noteq> 0);
         bwa = (if wcount > 0 then be_word (take al ws) else 0);
         base = bwa AND address_filter_bits (sp_widths port)
     in map_option (\<lambda>(error, st). s\<lparr>sl_rptr := sl_rptr s + field_count wcount * al, sl_error := error, sl_st := st\<rparr>)
       (serve_write_accesses env port sel wconfig (flags AND EB_RECORD_WFF \<noteq> 0) (loads al wcount (drop al ws))
          (if wconfig then bwa else base)
          (if wconfig then 0 else base OR ucast (addr_low_big_endian (port_data port) sel))
          (if wconfig then 0 else base OR ucast (addr_low_little_endian sel)) (sl_error s) (sl_st s)))"
proof (cases "wcount = 0")
  case True
  then show ?thesis by (simp add: slave_writes_def field_count_def Let_def)
next
  case False
  let ?al = "alignment_of (sp_widths port)"
  have n: "sl_rptr s + ?al + wcount * ?al \<le> length (sl_buf s)"
    using assms False by (simp add: field_count_def algebra_simps)
  have l: "EB_LOAD (sl_buf s) (sl_rptr s) ?al = Some (be_word (take ?al (drop (sl_rptr s) (sl_buf s))))"
    by (rule EB_LOAD_in) (use n in simp)
  show ?thesis
    using False by (simp add: slave_writes_def l slave_write_loop_serves [OF n] Let_def field_count_def drop_drop
        map_conv_bind_option comp_def split_def ac_simps)
qed

lemma slave_reads_serves:
  assumes "sl_rptr s + field_count rcount * alignment_of (sp_widths port) \<le> length (sl_buf s)"
    and "sl_wptr s + record_alignment_of (sp_widths port) \<le> sl_rptr s" and "rcount > 0"
    and "sl_cycle_end s = flags AND EB_RECORD_CYC"
  shows "slave_reads env port sel flags select rcount s =
    (let al = alignment_of (sp_widths port); rs = drop (sl_rptr s) (sl_buf s)
     in map_option (\<lambda>(vs, error, st). let out = encode_record (sp_widths port)
            (reply_record (reply_flags flags) select (be_word (take al rs)) vs)
          in s\<lparr>sl_buf := put_bytes (sl_wptr s) out (sl_buf s), sl_rptr := sl_rptr s + field_count rcount * al,
               sl_wptr := sl_wptr s + length out, sl_error := error, sl_st := st, sl_reply := True,
               sl_cycle_open := (sl_cycle_end s = 0)\<rparr>)
       (serve_read_accesses env port sel (flags AND EB_RECORD_RCA \<noteq> 0) (loads al rcount (drop al rs)) (sl_error s) (sl_st s)))"
proof -
  let ?al = "alignment_of (sp_widths port)" and ?ra = "record_alignment_of (sp_widths port)"
  define h where "h = [reply_flags flags, select, of_nat rcount, 0] @ replicate (?ra - 4) (0 :: u8)"
  define bra where "bra = be_word (take ?al (drop (sl_rptr s) (sl_buf s)))"
  let ?buf1 = "put_bytes (sl_wptr s) h (sl_buf s)"
  let ?buf2 = "put_bytes (sl_wptr s) (h @ be_bytes ?al bra) (sl_buf s)"
  have n: "sl_rptr s + ?al + rcount * ?al \<le> length (sl_buf s)"
    using assms(1,3) by (simp add: field_count_def algebra_simps)
  have h: "length h = ?ra" using record_alignment_ge [of "sp_widths port"] by (simp add: h_def)
  have w: "sl_wptr s + ?ra + ?al \<le> length (sl_buf s)" using n assms(2) by linarith
  have s1: "store_bytes (sl_buf s) (sl_wptr s) (replicate ?ra 0) = Some (put_bytes (sl_wptr s) (replicate ?ra 0) (sl_buf s))"
    by (rule store_bytes_in) (use w in simp)
  have s2: "store_bytes (put_bytes (sl_wptr s) (replicate ?ra 0) (sl_buf s)) (sl_wptr s) [reply_flags flags, select, of_nat rcount, 0]
      = Some ?buf1"
    using w record_alignment_ge [of "sp_widths port"] by (simp add: store_bytes_in put_bytes_over numeral_eq_Suc h_def)
  have len1: "length ?buf1 = length (sl_buf s)" using w h by (intro length_put_bytes) linarith
  have d1: "drop (sl_rptr s) ?buf1 = drop (sl_rptr s) (sl_buf s)"
    using w h assms(2) by (intro drop_put_bytes) linarith+
  have l: "EB_LOAD ?buf1 (sl_rptr s) ?al = Some bra"
    using EB_LOAD_in [of "sl_rptr s" "sp_widths port" ?buf1] n len1 d1 by (simp add: bra_def)
  have s3: "EB_sWRITE ?buf1 (sl_wptr s + ?ra) bra ?al = Some ?buf2"
  proof -
    have "put_bytes (sl_wptr s + ?ra) (be_bytes ?al bra) ?buf1 = ?buf2"
      using put_bytes_append [of "sl_wptr s" h "sl_buf s" "be_bytes ?al bra"] w h by simp
    then show ?thesis using EB_sWRITE_in [of "sl_wptr s + ?ra" "sp_widths port" ?buf1 bra] w len1 by simp
  qed
  have h2: "length (h @ be_bytes ?al bra) = ?ra + ?al" using h by simp
  have len2: "length ?buf2 = length (sl_buf s)" using w h2 by (intro length_put_bytes) linarith
  have d2: "drop (sl_rptr s + ?al) ?buf2 = drop (sl_rptr s + ?al) (sl_buf s)"
    using w h2 assms(2) by (intro drop_put_bytes) linarith+
  have lp: "slave_read_loop env port sel rc rcount ?buf2 (sl_rptr s + ?al) (sl_wptr s + ?ra + ?al) error st =
     map_option (\<lambda>(vs, error, st). (put_bytes (sl_wptr s) (h @ be_bytes ?al bra @ concat (map (be_bytes ?al) vs)) (sl_buf s),
         sl_rptr s + ?al + rcount * ?al, sl_wptr s + ?ra + ?al + rcount * ?al, error, st))
       (serve_read_accesses env port sel rc (loads ?al rcount (drop (sl_rptr s + ?al) (sl_buf s))) error st)" for rc error st
  proof -
    have "put_bytes (sl_wptr s + ?ra + ?al) bs ?buf2 = put_bytes (sl_wptr s) (h @ be_bytes ?al bra @ bs) (sl_buf s)" for bs
      using put_bytes_append [of "sl_wptr s" "h @ be_bytes ?al bra" "sl_buf s" bs] w h2 by (simp add: add.assoc)
    then show ?thesis using n len2 d2 assms(2) by (subst slave_read_loop_serves) (simp_all add: split_def)
  qed
  have e: "encode_record (sp_widths port) (reply_record (reply_flags flags) select bra vs) =
      h @ be_bytes ?al bra @ concat (map (be_bytes ?al) vs)"
    "sl_wptr s + length (encode_record (sp_widths port) (reply_record (reply_flags flags) select bra vs)) =
      sl_wptr s + ?ra + ?al + rcount * ?al"
    if "length vs = rcount" for vs
  proof -
    show "encode_record (sp_widths port) (reply_record (reply_flags flags) select bra vs) =
      h @ be_bytes ?al bra @ concat (map (be_bytes ?al) vs)"
      using that assms(3) by (auto simp: encode_record_def encode_fields_def h_def)
    show "sl_wptr s + length (encode_record (sp_widths port) (reply_record (reply_flags flags) select bra vs)) =
      sl_wptr s + ?ra + ?al + rcount * ?al"
      using that assms(3) by (simp add: length_encode_record field_count_def)
  qed
  let ?acc = "serve_read_accesses env port sel (flags AND EB_RECORD_RCA \<noteq> 0)
      (loads ?al rcount (drop (sl_rptr s + ?al) (sl_buf s))) (sl_error s) (sl_st s)"
  have "slave_reads env port sel flags select rcount s =
     map_option (\<lambda>(vs, error, st).
       s\<lparr>sl_buf := put_bytes (sl_wptr s) (h @ be_bytes ?al bra @ concat (map (be_bytes ?al) vs)) (sl_buf s),
         sl_rptr := sl_rptr s + ?al + rcount * ?al, sl_wptr := sl_wptr s + ?ra + ?al + rcount * ?al,
         sl_error := error, sl_st := st, sl_reply := True, sl_cycle_open := (sl_cycle_end s = 0)\<rparr>) ?acc"
    using assms(3) s1 s2 l s3 lp
    by (simp add: slave_reads_def Let_def assms(4) reply_flags_def [symmetric] map_conv_bind_option comp_def split_def)
  also have "\<dots> = map_option (\<lambda>(vs, error, st). let out = encode_record (sp_widths port) (reply_record (reply_flags flags) select bra vs)
       in s\<lparr>sl_buf := put_bytes (sl_wptr s) out (sl_buf s), sl_rptr := sl_rptr s + field_count rcount * ?al,
            sl_wptr := sl_wptr s + length out, sl_error := error, sl_st := st, sl_reply := True,
            sl_cycle_open := (sl_cycle_end s = 0)\<rparr>) ?acc"
    using serve_read_length e assms(3)
    by (intro option.map_cong0) (fastforce simp: field_count_def add.assoc)
  finally show ?thesis by (simp add: Let_def bra_def drop_drop add.commute)
qed

lemma slave_terminate_serves:
  assumes "sl_wptr s + record_alignment_of (sp_widths port) \<le> length (sl_buf s)"
  shows "slave_terminate port s =
    Some (if sl_cycle_open s \<and> sl_cycle_end s \<noteq> 0
      then let out = encode_record (sp_widths port) (reply_record (sl_cycle_end s) 0 0 [])
        in s\<lparr>sl_buf := put_bytes (sl_wptr s) out (sl_buf s), sl_wptr := sl_wptr s + length out\<rparr>
      else s)"
proof -
  let ?ra = "record_alignment_of (sp_widths port)"
  have "[sl_cycle_end s] @ drop 1 (replicate ?ra 0) = encode_record (sp_widths port) (reply_record (sl_cycle_end s) 0 0 [])"
    using alignment_cases(2) [of "sp_widths port"] by (auto simp: encode_record_def encode_fields_def numeral_eq_Suc)
  then show ?thesis
    using assms record_alignment_ge [of "sp_widths port"]
    by (simp add: slave_terminate_def store_bytes_in put_bytes_over length_encode_record field_count_def Let_def)
qed

section \<open>The loops\<close>

text \<open>What a transport promises: \<^verbatim>\<open>recv\<close> delivers as many bytes as it returns, and no more than asked for.\<close>

definition wire_ok :: "'w eb_env \<Rightarrow> bool" where
  "wire_ok env \<longleftrightarrow> (\<forall>ops \<in> set (env_transports env). \<forall>t l n w.
     case tops_recv ops t l n w of (len, bytes, _) \<Rightarrow> 0 < len \<longrightarrow> int (length bytes) = len \<and> length bytes \<le> n)"

definition serve_of :: "'w slave \<Rightarrow> 'w serve" where
  "serve_of s = \<lparr>sv_in = drop (sl_rptr s) (take (sl_eos s) (sl_buf s)), sv_out = take (sl_wptr s) (sl_buf s),
     sv_error = sl_error s, sv_cycle_end = sl_cycle_end s, sv_cycle_open = sl_cycle_open s,
     sv_reply = sl_reply s, sv_taken = sl_taken s, sv_st = sl_st s\<rparr>"

text \<open>The pointers of the slave: the reply ends before the unread part of the request.\<close>

definition sl_safe :: "'w slave \<Rightarrow> bool" where
  "sl_safe s \<longleftrightarrow> sl_wptr s \<le> sl_rptr s \<and> sl_rptr s \<le> sl_eos s \<and> sl_eos s \<le> slave_buffer_size \<and>
     length (sl_buf s) = slave_buffer_size"

abbreviation rewind :: "slave_port \<Rightarrow> 'w slave \<Rightarrow> 'w slave" where
  "rewind port s \<equiv> s\<lparr>sl_rptr := sl_rptr s - record_alignment_of (sp_widths port)\<rparr>"

text \<open>While a record is waited for: its header has been read and is kept.\<close>

definition refill_safe :: "slave_port \<Rightarrow> u8 list \<Rightarrow> 'w slave \<Rightarrow> bool" where
  "refill_safe port hdr s \<longleftrightarrow> sl_safe (rewind port s) \<and> record_alignment_of (sp_widths port) \<le> sl_rptr s \<and>
     sl_rptr s \<le> sl_eos s \<and> take 4 (sv_in (serve_of (rewind port s))) = hdr \<and>
     sl_cycle_end s = hdr ! 0 AND EB_RECORD_CYC"

definition flow_sat :: "('s \<Rightarrow> bool) \<Rightarrow> ('s, 'w) flow \<Rightarrow> bool" where
  "flow_sat P f = (case f of Kill _ \<Rightarrow> True | Go s \<Rightarrow> P s)"

lemma flow_sat_simps [simp]: "flow_sat P (Kill st)" "flow_sat P (Go s) = P s"
  by (simp_all add: flow_sat_def)

lemma refill_buffer:
  assumes "p \<le> eos" "eos \<le> slave_buffer_size" "length buf = slave_buffer_size"
    and "int (length bytes) = len" "length bytes \<le> slave_buffer_size - (eos - p)"
  obtains buf' where "store_bytes (put_bytes 0 (take (eos - p) (drop p buf)) buf) (eos - p) bytes = Some buf'"
    "length buf' = slave_buffer_size" "take (nat len + (eos - p)) buf' = drop p (take eos buf) @ bytes"
    "nat len + (eos - p) \<le> slave_buffer_size"
proof
  let ?in = "take (eos - p) (drop p buf)"
  have i: "length ?in = eos - p" using assms by simp
  have io: "?in = drop p (take eos buf)" using assms(1) by (simp add: drop_take)
  let ?buf' = "put_bytes 0 (?in @ bytes) buf"
  have fit: "0 + length (?in @ bytes) \<le> length buf" using assms i by simp
  have p: "put_bytes (eos - p) bytes (put_bytes 0 ?in buf) = ?buf'"
    using put_bytes_append [of 0 ?in buf bytes] i fit by simp
  show "store_bytes (put_bytes 0 ?in buf) (eos - p) bytes = Some ?buf'"
  proof -
    have "length (put_bytes 0 ?in buf) = length buf" using fit by (intro length_put_bytes) simp
    then show ?thesis using fit i p by (subst store_bytes_in) simp_all
  qed
  show "length ?buf' = slave_buffer_size" using fit assms(3) by (subst length_put_bytes) simp_all
  have "take (0 + length (?in @ bytes)) ?buf' = take 0 buf @ ?in @ bytes" by (rule take_put_bytes_all) simp
  moreover have "nat len + (eos - p) = 0 + length (?in @ bytes)" using assms(4) i by auto
  ultimately show "take (nat len + (eos - p)) ?buf' = drop p (take eos buf) @ bytes" by (simp add: io)
  show "nat len + (eos - p) \<le> slave_buffer_size" using fit i assms(3,4) by auto
qed

lemma wire_ok_recv:
  assumes "wire_ok env" "tops env t = Some ops" "tops_recv ops tr l n w = (len, bytes, w')" "0 < len"
  shows "int (length bytes) = len" "length bytes \<le> n"
proof -
  have "ops \<in> set (env_transports env)" using assms(2) by (auto simp: tops_def split: if_splits)
  from bspec [OF assms(1) [unfolded wire_ok_def] this] have
    "case tops_recv ops tr l n w of (len, bytes, _) \<Rightarrow> 0 < len \<longrightarrow> int (length bytes) = len \<and> length bytes \<le> n"
    by (elim allE)
  with assms(3,4) show "int (length bytes) = len" "length bytes \<le> n" by simp_all
qed

lemma length_serve_in: "sl_safe s \<Longrightarrow> length (sv_in (serve_of s)) = sl_eos s - sl_rptr s"
  by (simp add: serve_of_def sl_safe_def)

lemma slave_send_serves: "slave_send env port s = serve_send env port (serve_of s)"
  by (simp add: slave_send_def serve_send_def serve_of_def pointers_valid_def)

text \<open>Receiving more input, before the record at \<open>rptr\<close> has been consumed.\<close>

lemma slave_more_serves:
  assumes "wire_ok env" "tops env t = Some ops" "sl_safe (s\<lparr>sl_rptr := rptr\<rparr>)"
  shows "serve_more port ops transport st (serve_of (s\<lparr>sl_rptr := rptr\<rparr>)) =
     map_option (map_sum (\<lambda>s. serve_of (s\<lparr>sl_rptr := sl_rptr s - rptr'\<rparr>)) (map_flow f)) (slave_more port ops transport rptr rptr' st s) \<and>
   (\<forall>s'. slave_more port ops transport rptr rptr' st s = Some (Inl s') \<longrightarrow>
      sl_safe (s'\<lparr>sl_rptr := sl_rptr s' - rptr'\<rparr>) \<and> sl_rptr s' = rptr' \<and> sl_cycle_end s' = sl_cycle_end s \<and>
      (\<exists>bytes. sv_in (serve_of (s'\<lparr>sl_rptr := sl_rptr s' - rptr'\<rparr>)) = sv_in (serve_of (s\<lparr>sl_rptr := rptr\<rparr>)) @ bytes)) \<and>
   (\<forall>r. slave_more port ops transport rptr rptr' st s = Some (Inr r) \<longrightarrow> (\<exists>st. r = Kill st))"
proof (cases "link_of (st_mem st) (sp_link port)")
  case None
  then show ?thesis by (simp add: serve_more_def slave_more_def Let_def)
next
  case (Some link)
  let ?v = "serve_of (s\<lparr>sl_rptr := rptr\<rparr>)"
  have len: "length (sv_in ?v) = sl_eos s - rptr" using length_serve_in [OF assms(3)] by simp
  obtain len' bytes w where r: "tops_recv ops transport link (slave_buffer_size - (sl_eos s - rptr)) (st_world st) = (len', bytes, w)"
    by (metis prod_cases3)
  show ?thesis
  proof (cases "len' \<le> 0")
    case True
    with r len Some show ?thesis by (simp add: serve_more_def slave_more_def Let_def)
  next
    case pos: False
    have v: "sv_in ?v = drop rptr (take (sl_eos s) (sl_buf s))" by (simp add: serve_of_def)
    obtain buf' where b: "store_bytes (put_bytes 0 (take (sl_eos s - rptr) (drop rptr (sl_buf s))) (sl_buf s)) (sl_eos s - rptr) bytes = Some buf'"
      "length buf' = slave_buffer_size" "take (nat len' + (sl_eos s - rptr)) buf' = sv_in ?v @ bytes"
      "nat len' + (sl_eos s - rptr) \<le> slave_buffer_size"
      using refill_buffer [of rptr "sl_eos s" "sl_buf s" bytes len'] wire_ok_recv [OF assms(1,2) r] pos assms(3)
      unfolding sl_safe_def v by force
    let ?s' = "s\<lparr>sl_buf := buf', sl_wptr := 0, sl_rptr := rptr', sl_eos := nat len' + (sl_eos s - rptr), sl_st := st\<lparr>st_world := w\<rparr>\<rparr>"
    have g: "slave_more port ops transport rptr rptr' st s = Some (Inl ?s')"
      using pos b(1) by (simp add: slave_more_def Let_def Some r)
    have "serve_of (?s'\<lparr>sl_rptr := 0\<rparr>) = ?v\<lparr>sv_in := sv_in ?v @ bytes, sv_out := [], sv_st := st\<lparr>st_world := w\<rparr>\<rparr>"
      using b(3) by (simp add: serve_of_def)
    then show ?thesis using pos b by (simp add: serve_more_def Some g len r sl_safe_def)
  qed
qed

lemma refill_body_refines:
  assumes "wire_ok env" "refill_safe port hdr s"
  shows "serve_refill_body env port (record_alignment_of (sp_widths port) + tot * alignment_of (sp_widths port)) (serve_of (rewind port s)) =
     map_option (map_sum (\<lambda>s. serve_of (rewind port s)) (map_flow (\<lambda>s. serve_of (rewind port s)))) (slave_refill_body env port tot s) \<and>
   (\<forall>s'. slave_refill_body env port tot s = Some (Inl s') \<longrightarrow> refill_safe port hdr s') \<and>
   (\<forall>r. slave_refill_body env port tot s = Some (Inr r) \<longrightarrow>
     flow_sat (\<lambda>s. refill_safe port hdr s \<and> tot * alignment_of (sp_widths port) \<le> sl_eos s - sl_rptr s) r)"
proof -
  let ?ra = "record_alignment_of (sp_widths port)" and ?al = "alignment_of (sp_widths port)"
  let ?v = "serve_of (rewind port s)" and ?n = "?ra + tot * ?al" and ?p = "sl_rptr s - ?ra"
  have safe: "sl_safe (rewind port s)" "?ra \<le> sl_rptr s" "sl_rptr s \<le> sl_eos s" "take 4 (sv_in ?v) = hdr" "sl_cycle_end s = hdr ! 0 AND EB_RECORD_CYC"
    using assms(2) by (auto simp: refill_safe_def)
  have len: "length (sv_in ?v) = sl_eos s - ?p" using length_serve_in [OF safe(1)] by simp
  have v: "sv_st ?v = sl_st s" by (simp add: serve_of_def)
  let ?t = "take_pointers s" and ?v' = "?v\<lparr>sv_taken := eb_memory_array_size (st_mem (sv_st ?v))\<rparr>"
  have v': "serve_of (?t\<lparr>sl_rptr := ?p\<rparr>) = ?v'" "sl_cycle_end ?t = sl_cycle_end s" "sv_in ?v' = sv_in ?v"
    and t: "sl_rptr ?t = sl_rptr s"
    by (simp_all add: take_pointers_def serve_of_def)
  have send: "slave_send env port ?t = serve_send env port ?v'"
    by (simp add: slave_send_def serve_send_def serve_of_def pointers_valid_def take_pointers_def)
  have safe': "sl_safe (?t\<lparr>sl_rptr := ?p\<rparr>)" using safe(1) by (simp add: sl_safe_def take_pointers_def)
  have c: "tot * ?al \<le> sl_eos s - sl_rptr s \<longleftrightarrow> ?n \<le> length (sv_in ?v)" using len safe(2,3) by linarith
  have keep: "refill_safe port hdr s'" if "sl_safe (rewind port s')" "sl_rptr s' = ?ra" "sl_cycle_end s' = sl_cycle_end s" "sv_in (serve_of (rewind port s')) = sv_in ?v @ bytes"
    for s' :: "'a slave" and bytes
  proof -
    have "?ra \<le> length (sv_in ?v)" using len safe(2,3) by linarith
    moreover have "length (sv_in ?v @ bytes) = sl_eos s' - (sl_rptr s' - ?ra)"
      using length_serve_in [OF that(1)] by (simp only: that(4)) simp
    moreover have "4 \<le> ?ra" by (rule record_alignment_ge)
    ultimately show ?thesis using that safe(4,5) by (simp add: refill_safe_def)
  qed
  show ?thesis
  proof (cases "?n \<le> length (sv_in ?v)")
    case True
    with c assms(2) show ?thesis by (simp add: serve_refill_body_def slave_refill_body_def)
  next
    case False
    note simps = serve_refill_body_def slave_refill_body_def
    show ?thesis
    proof (cases "EB_TRANSPORT (st_mem (sl_st s)) (sp_transport port)")
      case None
      with c False show ?thesis by (simp add: simps v)
    next
      case (Some transport)
      note tr = Some
      show ?thesis
      proof (cases "tops env (tr_link_type transport)")
        case None
        with tr c False show ?thesis by (simp add: simps v)
      next
        case (Some ops)
        note more = slave_more_serves [OF assms(1) Some safe', unfolded v', where rptr' = ?ra and port = port and f = "\<lambda>s. serve_of (rewind port s)"]
        show ?thesis
        proof (cases "tops_mtu ops = 0 \<and> serve_send env port ?v' \<noteq> None")
          case True
          then obtain st where st: "serve_send env port ?v' = Some st" by auto
          have 1: "serve_refill_body env port ?n ?v = serve_more port ops transport st ?v'"
            "slave_refill_body env port tot s = slave_more port ops transport ?p ?ra st ?t"
            using c False tr Some True st send t by (simp_all add: simps v Let_def)
          note m = more [of transport st]
          show ?thesis
            unfolding 1
          proof (intro conjI allI impI)
            show "serve_more port ops transport st ?v' = map_option (map_sum (\<lambda>s. serve_of (rewind port s)) (map_flow (\<lambda>s. serve_of (rewind port s))))
                (slave_more port ops transport ?p ?ra st ?t)" by (rule conjunct1 [OF m])
          next
            fix s' assume s': "slave_more port ops transport ?p ?ra st ?t = Some (Inl s')"
            from m [THEN conjunct2, THEN conjunct1, rule_format, OF s'] keep show "refill_safe port hdr s'" by blast
          next
            fix r assume r: "slave_more port ops transport ?p ?ra st ?t = Some (Inr r)"
            from m [THEN conjunct2, THEN conjunct2, rule_format, OF r]
            show "flow_sat (\<lambda>s. refill_safe port hdr s \<and> tot * ?al \<le> sl_eos s - sl_rptr s) r" by auto
          qed
        next
          case stop: False
          with tr c False Some send show ?thesis by (cases "tops_mtu ops = 0") (simp_all add: simps v Let_def)
        qed
      qed
    qed
  qed
qed


interpretation refill: loop_refinement
  "\<lambda>s. wire_ok env \<and> refill_safe port hdr s"
  "flow_sat (\<lambda>s. refill_safe port hdr s \<and> tot * alignment_of (sp_widths port) \<le> sl_eos s - sl_rptr s)"
  "\<lambda>s. serve_of (rewind port s)" "map_flow (\<lambda>s. serve_of (rewind port s))"
  "slave_refill_body env port tot"
  "serve_refill_body env port (record_alignment_of (sp_widths port) + tot * alignment_of (sp_widths port))"
  for env port hdr tot
proof unfold_locales
  fix s s' :: "'a slave" and r
  assume i: "wire_ok env \<and> refill_safe port hdr s"
  note b = refill_body_refines [OF conjunct1 [OF i] conjunct2 [OF i], of tot]
  show "serve_refill_body env port (record_alignment_of (sp_widths port) + tot * alignment_of (sp_widths port)) (serve_of (rewind port s)) =
     map_option (map_sum (\<lambda>s. serve_of (rewind port s)) (map_flow (\<lambda>s. serve_of (rewind port s)))) (slave_refill_body env port tot s)"
    using b by (rule conjunct1)
  show "wire_ok env \<and> refill_safe port hdr s'" if "slave_refill_body env port tot s = Some (Inl s')"
    using b [THEN conjunct2, THEN conjunct1, rule_format, OF that] i by blast
  show "flow_sat (\<lambda>s. refill_safe port hdr s \<and> tot * alignment_of (sp_widths port) \<le> sl_eos s - sl_rptr s) r"
    if "slave_refill_body env port tot s = Some (Inr r)"
    using b [THEN conjunct2, THEN conjunct2, rule_format, OF that] .
qed

lemma serve_of_put:
  assumes "sl_wptr s + length out \<le> sl_rptr s" "sl_wptr s \<le> length (sl_buf s)"
  shows "serve_of (s\<lparr>sl_buf := put_bytes (sl_wptr s) out (sl_buf s), sl_wptr := sl_wptr s + length out\<rparr>) =
    (serve_of s)\<lparr>sv_out := sv_out (serve_of s) @ out\<rparr>"
  using assms by (simp add: serve_of_def take_put_bytes_all drop_take drop_put_bytes)

lemma serve_terminate_of:
  assumes "sl_safe s" "sl_wptr s + record_alignment_of (sp_widths port) \<le> sl_rptr s \<or> \<not> (sl_cycle_open s \<and> sl_cycle_end s \<noteq> 0)"
  obtains s' where "slave_terminate port s = Some s'" "serve_of s' = serve_terminate port (serve_of s)" "sl_safe s'"
proof (cases "sl_cycle_open s \<and> sl_cycle_end s \<noteq> 0")
  case False
  with that show ?thesis by (simp add: slave_terminate_def serve_terminate_def serve_of_def assms(1))
next
  case True
  let ?out = "encode_record (sp_widths port) (reply_record (sl_cycle_end s) 0 0 [])"
  let ?s = "s\<lparr>sl_buf := put_bytes (sl_wptr s) ?out (sl_buf s), sl_wptr := sl_wptr s + length ?out\<rparr>"
  have len: "length ?out = record_alignment_of (sp_widths port)" by (simp add: length_encode_record field_count_def)
  have room: "sl_wptr s + length ?out \<le> sl_rptr s" "sl_rptr s \<le> length (sl_buf s)"
    using True assms len by (auto simp: sl_safe_def)
  show ?thesis
  proof
    show "slave_terminate port s = Some ?s"
      using True room len by (subst slave_terminate_serves) (simp_all add: Let_def)
    show "serve_of ?s = serve_terminate port (serve_of s)"
      using True room by (subst serve_of_put) (simp_all add: serve_terminate_def, simp_all add: serve_of_def)
    show "sl_safe ?s" using assms(1) room by (simp add: sl_safe_def)
  qed
qed

section \<open>One record\<close>

lemma loads_take: "k + n * al \<le> e \<Longrightarrow> loads al n (drop k (take e bs)) = loads al n (drop k bs)"
  by (rule loads_cong) (simp add: drop_take)

lemma take_drop_take: "k + n \<le> e \<Longrightarrow> take n (drop k (take e bs)) = take n (drop k bs)"
  by (simp add: drop_take min_def)

text \<open>The accesses of a complete record, whose header \<open>hdr\<close> has been read.\<close>

lemma slave_writes_of:
  assumes "refill_safe port hdr s"
    and "(field_count (unat (hdr ! 2)) + field_count (unat (hdr ! 3))) * alignment_of (sp_widths port) \<le> sl_eos s - sl_rptr s"
    and "r = decode_record (sp_widths port) (sv_in (serve_of (rewind port s)))"
    and "sel = decode_select (port_data port) (hdr ! 1)"
  shows "slave_writes env port sel (hdr ! 0) (unat (hdr ! 2)) s =
    map_option (\<lambda>v. s\<lparr>sl_rptr := sl_rptr s + field_count (unat (hdr ! 2)) * alignment_of (sp_widths port),
                     sl_error := sv_error v, sl_st := sv_st v\<rparr>) (serve_writes env port r (serve_of s))"
proof -
  let ?al = "alignment_of (sp_widths port)" and ?ra = "record_alignment_of (sp_widths port)"
  let ?in = "sv_in (serve_of (rewind port s))" and ?w = "unat (hdr ! 2)"
  have safe: "sl_safe (rewind port s)" "?ra \<le> sl_rptr s" "sl_rptr s \<le> sl_eos s" "take 4 ?in = hdr"
    using assms(1) by (auto simp: refill_safe_def)
  have h: "?in ! 0 = hdr ! 0" "?in ! 1 = hdr ! 1" "?in ! 2 = hdr ! 2" "?in ! 3 = hdr ! 3"
    unfolding safe(4) [symmetric] by simp_all
  have b: "sl_rptr s + field_count ?w * ?al \<le> sl_eos s" "sl_eos s \<le> length (sl_buf s)"
    using assms(2) safe(1,3) by (auto simp: sl_safe_def algebra_simps)
  have d: "drop ?ra ?in = drop (sl_rptr s) (take (sl_eos s) (sl_buf s))"
    using safe(2) by (simp add: serve_of_def)
  have l: "loads ?al ?w (drop ?al (drop ?ra ?in)) = loads ?al ?w (drop ?al (drop (sl_rptr s) (sl_buf s)))"
    if "?w > 0"
    unfolding d drop_drop by (rule loads_take) (use b that in \<open>simp add: field_count_def algebra_simps\<close>)
  have bw: "take ?al (drop ?ra ?in) = take ?al (drop (sl_rptr s) (sl_buf s))" if "?w > 0"
    unfolding d by (rule take_drop_take) (use b that in \<open>simp add: field_count_def algebra_simps\<close>)
  have "wr_flags r = hdr ! 0" "wr_select r = hdr ! 1"
    "wr_writes r = loads ?al ?w (drop ?al (drop ?ra ?in))"
    "wr_bwa r = (if ?w > 0 then be_word (take ?al (drop ?ra ?in)) else 0)"
    by (simp_all only: assms(3) decode_record_def Let_def h wire_record.simps)
  moreover have "loads ?al ?w (drop ?al (drop ?ra ?in)) = loads ?al ?w (drop ?al (drop (sl_rptr s) (sl_buf s)))"
    using l by (cases "?w > 0") (blast, simp)
  moreover have "(if ?w > 0 then be_word (take ?al (drop ?ra ?in)) else 0) = (if ?w > 0 then be_word (take ?al (drop (sl_rptr s) (sl_buf s))) else 0)"
    using bw by (cases "?w > 0") (simp_all only: if_True if_False)
  ultimately have r: "wr_flags r = hdr ! 0" "wr_select r = hdr ! 1"
    "wr_writes r = loads ?al ?w (drop ?al (drop (sl_rptr s) (sl_buf s)))"
    "wr_bwa r = (if ?w > 0 then be_word (take ?al (drop (sl_rptr s) (sl_buf s))) else 0)"
    by (simp_all only:)
  have fit: "sl_rptr s + field_count ?w * ?al \<le> length (sl_buf s)" using b by linarith
  show ?thesis
    unfolding slave_writes_serves [OF fit] serve_writes_def r assms(4) Let_def
    by (simp add: map_conv_bind_option comp_def split_def) (simp add: serve_of_def)
qed

lemma slave_reads_of:
  assumes "refill_safe port hdr s"
    and "(field_count (unat (hdr ! 2)) + field_count (unat (hdr ! 3))) * alignment_of (sp_widths port) \<le> sl_eos s - sl_rptr s"
    and "r = decode_record (sp_widths port) (sv_in (serve_of (rewind port s)))"
    and "sel = decode_select (port_data port) (hdr ! 1)"
    and "s1 = s\<lparr>sl_rptr := sl_rptr s + field_count (unat (hdr ! 2)) * alignment_of (sp_widths port),
                     sl_error := e, sl_st := st\<rparr>" and "unat (hdr ! 3) > 0"
    and "s2 = s1\<lparr>sl_rptr := sl_rptr s1 + field_count (unat (hdr ! 3)) * alignment_of (sp_widths port)\<rparr>"
  shows "map_option serve_of (slave_reads env port sel (hdr ! 0) (hdr ! 1) (unat (hdr ! 3)) s1) =
      serve_reads env port r (serve_of s2) \<and>
    (\<forall>s3. slave_reads env port sel (hdr ! 0) (hdr ! 1) (unat (hdr ! 3)) s1 = Some s3 \<longrightarrow>
       sl_safe s3 \<and> \<not> (sl_cycle_open s3 \<and> sl_cycle_end s3 \<noteq> 0))"
proof -
  let ?al = "alignment_of (sp_widths port)" and ?ra = "record_alignment_of (sp_widths port)"
  let ?in = "sv_in (serve_of (rewind port s))" and ?w = "unat (hdr ! 2)" and ?r = "unat (hdr ! 3)"
  have safe: "sl_safe (rewind port s)" "?ra \<le> sl_rptr s" "sl_rptr s \<le> sl_eos s" "take 4 ?in = hdr"
      "sl_cycle_end s = hdr ! 0 AND EB_RECORD_CYC"
    using assms(1) by (auto simp: refill_safe_def)
  have h: "?in ! 0 = hdr ! 0" "?in ! 1 = hdr ! 1" "?in ! 2 = hdr ! 2" "?in ! 3 = hdr ! 3"
    unfolding safe(4) [symmetric] by simp_all
  have b: "sl_rptr s1 + field_count ?r * ?al \<le> sl_eos s" "sl_eos s \<le> length (sl_buf s)"
    using assms(2,5) safe(1,3) by (auto simp: sl_safe_def algebra_simps)
  have s1: "sl_buf s1 = sl_buf s" "sl_wptr s1 = sl_wptr s" "sl_eos s1 = sl_eos s" "sl_cycle_end s1 = sl_cycle_end s"
    by (simp_all add: assms(5))
  have d: "drop (field_count ?w * ?al) (drop ?ra ?in) = drop (sl_rptr s1) (take (sl_eos s) (sl_buf s))"
    using safe(2) by (simp add: serve_of_def assms(5) algebra_simps)
  have l: "loads ?al ?r (drop ?al (drop (sl_rptr s1) (take (sl_eos s) (sl_buf s)))) = loads ?al ?r (drop ?al (drop (sl_rptr s1) (sl_buf s)))"
    unfolding drop_drop by (rule loads_take) (use b assms(6) in \<open>simp add: field_count_def algebra_simps\<close>)
  have bw: "take ?al (drop (sl_rptr s1) (take (sl_eos s) (sl_buf s))) = take ?al (drop (sl_rptr s1) (sl_buf s))"
    by (rule take_drop_take) (use b assms(6) in \<open>simp add: field_count_def algebra_simps\<close>)
  have r: "wr_flags r = hdr ! 0" "wr_select r = hdr ! 1"
    "wr_reads r = loads ?al ?r (drop ?al (drop (sl_rptr s1) (sl_buf s)))"
    "wr_bra r = be_word (take ?al (drop (sl_rptr s1) (sl_buf s)))"
    using assms(6) by (simp_all only: assms(3) decode_record_def Let_def h wire_record.simps d l bw if_True)
  have ne: "wr_reads r \<noteq> []" using assms(6) by (metis r(3) length_loads less_numeral_extra(3) list.size(3))
  have w: "sl_wptr s1 + ?ra \<le> sl_rptr s1" 
  proof -
    have "sl_wptr s + ?ra \<le> sl_rptr s" using safe(1,2) by (auto simp: sl_safe_def)
    then show ?thesis using s1 by (simp add: assms(5))
  qed
  have fit: "sl_rptr s1 + field_count ?r * ?al \<le> length (sl_buf s1)" using b s1 by simp
  note rd = slave_reads_serves [OF fit w assms(6), of "hdr ! 0" env sel "hdr ! 1"]
  let ?acc = "serve_read_accesses env port sel (hdr ! 0 AND EB_RECORD_RCA \<noteq> 0) (wr_reads r) e st"
  let ?out = "\<lambda>vs. encode_record (sp_widths port) (reply_record (reply_flags (hdr ! 0)) (hdr ! 1) (wr_bra r) vs)"
  let ?s3 = "\<lambda>(vs, error, st). s1\<lparr>sl_buf := put_bytes (sl_wptr s1) (?out vs) (sl_buf s1), sl_rptr := sl_rptr s1 + field_count ?r * ?al,
               sl_wptr := sl_wptr s1 + length (?out vs), sl_error := error, sl_st := st, sl_reply := True,
               sl_cycle_open := (sl_cycle_end s1 = 0)\<rparr>"
  have eq: "slave_reads env port sel (hdr ! 0) (hdr ! 1) ?r s1 = map_option ?s3 ?acc"
    using rd safe(5) s1 r by (simp add: Let_def split_def assms(5))
  have len: "sl_wptr s1 + length (?out vs) \<le> sl_rptr s2" if "?acc = Some (vs, x)" for vs x
    using serve_read_length [OF that] w assms(6)
    by (simp add: r length_encode_record assms(7) field_count_def algebra_simps)
  have of: "serve_of (?s3 (vs, e', st')) = (serve_of s2)\<lparr>sv_out := sv_out (serve_of s2) @ ?out vs,
       sv_error := e', sv_st := st', sv_reply := True, sv_cycle_open := (sv_cycle_end (serve_of s2) = 0)\<rparr>"
    if "?acc = Some (vs, e', st')" for vs e' st'
  proof -
    have "serve_of (s2\<lparr>sl_buf := put_bytes (sl_wptr s2) (?out vs) (sl_buf s2), sl_wptr := sl_wptr s2 + length (?out vs)\<rparr>) =
      (serve_of s2)\<lparr>sv_out := sv_out (serve_of s2) @ ?out vs\<rparr>"
      using len [OF that] b w s1 safe(2,3) by (intro serve_of_put) (simp_all add: assms(7))
    then show ?thesis by (simp add: serve_of_def assms(7))
  qed
  show ?thesis
  proof (intro conjI allI impI)
    show "map_option serve_of (slave_reads env port sel (hdr ! 0) (hdr ! 1) ?r s1) = serve_reads env port r (serve_of s2)"
    proof (cases ?acc)
      case None
      have "sv_error (serve_of s2) = e" "sv_st (serve_of s2) = st" by (simp_all add: serve_of_def assms(5,7))
      then have "serve_reads env port r (serve_of s2) = None"
        using ne None by (simp add: serve_reads_def r(1,2) assms(4))
      then show ?thesis by (simp only: eq None option.map)
    next
      case (Some x)
      obtain vs e' st' where x: "?acc = Some (vs, e', st')" using Some by (metis prod_cases3)
      have "sv_error (serve_of s2) = e" "sv_st (serve_of s2) = st" by (simp_all add: serve_of_def assms(5,7))
      then have "serve_reads env port r (serve_of s2) = Some ((serve_of s2)\<lparr>sv_out := sv_out (serve_of s2) @ ?out vs,
       sv_error := e', sv_st := st', sv_reply := True, sv_cycle_open := (sv_cycle_end (serve_of s2) = 0)\<rparr>)"
        using ne x by (simp add: serve_reads_def r(1,2) assms(4))
      with of [OF x] show ?thesis by (simp only: eq x option.map)
    qed
  next
    fix s3 assume "slave_reads env port sel (hdr ! 0) (hdr ! 1) ?r s1 = Some s3"
    then obtain vs e' st' where x: "?acc = Some (vs, e', st')" "s3 = ?s3 (vs, e', st')" unfolding eq by auto
    have "sl_rptr s2 \<le> sl_eos s" using b(1) by (simp add: assms(7))
    with len [OF x(1)] show "sl_safe s3"
      using safe(1) s1 b by (simp add: x(2) sl_safe_def assms(7))
    show "\<not> (sl_cycle_open s3 \<and> sl_cycle_end s3 \<noteq> 0)" by (simp add: x(2))
  qed
qed


lemma serve_writes_upd:
  "sv_error v' = sv_error v \<Longrightarrow> sv_st v' = sv_st v \<Longrightarrow>
   serve_writes env port r v' = map_option (\<lambda>x. v'\<lparr>sv_error := sv_error x, sv_st := sv_st x\<rparr>) (serve_writes env port r v)"
  by (simp add: serve_writes_def Let_def map_conv_bind_option comp_def split_def)

lemma slave_record_refines:
  fixes env :: "'w eb_env"
  assumes "wire_ok env" "sl_safe s" "sl_rptr s + record_alignment_of (sp_widths port) \<le> sl_eos s"
  shows "serve_record env port (serve_of s) = map_option (map_flow serve_of) (slave_record env port s) \<and>
    (\<forall>r. slave_record env port s = Some r \<longrightarrow> flow_sat sl_safe r)"
proof -
  let ?al = "alignment_of (sp_widths port)" and ?ra = "record_alignment_of (sp_widths port)"
  let ?in = "sv_in (serve_of s)"
  define hdr where "hdr = take 4 ?in"
  define sel where "sel = decode_select (port_data port) (hdr ! 1)"
  define tot where "tot = field_count (unat (hdr ! 2)) + field_count (unat (hdr ! 3))"
  define s1 where "s1 = s\<lparr>sl_rptr := sl_rptr s + ?ra, sl_cycle_end := hdr ! 0 AND EB_RECORD_CYC\<rparr>"
  have len: "4 \<le> length ?in" "length ?in = sl_eos s - sl_rptr s"
    using length_serve_in [OF assms(2)] assms(3) record_alignment_ge [of "sp_widths port"] by linarith+
  have at: "sl_buf s ! (sl_rptr s + k) = hdr ! k" if "k < 4" for k
    using that len assms(2) by (simp add: hdr_def serve_of_def sl_safe_def)
  have h: "?in ! 0 = hdr ! 0" "?in ! 2 = hdr ! 2" "?in ! 3 = hdr ! 3"
    by (simp_all add: hdr_def)
  have rew: "serve_of (rewind port s1) = (serve_of s)\<lparr>sv_cycle_end := hdr ! 0 AND EB_RECORD_CYC\<rparr>"
    by (simp add: s1_def serve_of_def)
  have safe1: "refill_safe port hdr s1"
    using assms(2,3) by (simp add: refill_safe_def rew) (simp add: s1_def sl_safe_def hdr_def)
  have size: "record_size (sp_widths port) ?in = ?ra + tot * ?al" by (simp add: record_size_def h tot_def)
  have inb: "sl_rptr s + 4 \<le> length (sl_buf s)"
    using assms(2,3) record_alignment_ge [of "sp_widths port"] by (simp add: sl_safe_def)
  define tail where "tail = (\<lambda>flow :: ('w slave, 'w) flow. case flow of Kill st \<Rightarrow> Some (Kill st) | Go s \<Rightarrow> do {
            s \<leftarrow> slave_writes env port sel (hdr ! 0) (unat (hdr ! 2)) s;
            s \<leftarrow> slave_reads env port sel (hdr ! 0) (hdr ! 1) (unat (hdr ! 3)) s;
            s \<leftarrow> slave_terminate port s;
            Some (Go s :: ('w slave, 'w) flow)
          })"
  have tot': "unat (hdr ! 2) + unat (hdr ! 3) + (if 0 < unat (hdr ! 2) then 1 else 0) + (if 0 < unat (hdr ! 3) then 1 else 0) = tot"
    by (simp add: tot_def field_count_def)
  have lhs: "slave_record env port s = slave_refill env port tot s1 \<bind> tail"
    using inb at [of 0] at [of 1] at [of 2] at [of 3] tot'
    unfolding tail_def sel_def s1_def by (simp add: slave_record_def Let_def cong: flow.case_cong)
  define stail where "stail = (\<lambda>flow :: ('w serve, 'w) flow. case flow of
       Kill st \<Rightarrow> Some (Kill st)
     | Go v \<Rightarrow> do {
         let r = decode_record (sp_widths port) (sv_in v);
         v \<leftarrow> serve_writes env port r (v\<lparr>sv_in := drop (record_size (sp_widths port) (sv_in v)) (sv_in v)\<rparr>);
         v \<leftarrow> serve_reads env port r v;
         Some (Go (serve_terminate port v) :: ('w serve, 'w) flow)
       })"
  have rhs: "serve_record env port (serve_of s) =
      loop (serve_refill_body env port (?ra + tot * ?al)) (serve_of (rewind port s1)) \<bind> stail"
    by (simp add: serve_record_def size rew h stail_def Let_def)
  have step: "stail (map_flow (\<lambda>s. serve_of (rewind port s)) f) = map_option (map_flow serve_of) (tail f) \<and>
      (\<forall>r. tail f = Some r \<longrightarrow> flow_sat sl_safe r)"
    if "flow_sat (\<lambda>s. refill_safe port hdr s \<and> tot * ?al \<le> sl_eos s - sl_rptr s) f" for f
  proof (cases f)
    case (Kill st)
    then show ?thesis by (simp add: tail_def stail_def)
  next
    case (Go s2)
    let ?r = "decode_record (sp_widths port) (sv_in (serve_of (rewind port s2)))"
    have 2: "refill_safe port hdr s2" "tot * ?al \<le> sl_eos s2 - sl_rptr s2" using that Go by simp_all
    then have safe2: "sl_safe (rewind port s2)" "?ra \<le> sl_rptr s2" "sl_rptr s2 \<le> sl_eos s2"
        "take 4 (sv_in (serve_of (rewind port s2))) = hdr"
      by (auto simp: refill_safe_def)
    have h2: "sv_in (serve_of (rewind port s2)) ! 2 = hdr ! 2" "sv_in (serve_of (rewind port s2)) ! 3 = hdr ! 3"
      unfolding safe2(4) [symmetric] by simp_all
    have size2: "record_size (sp_widths port) (sv_in (serve_of (rewind port s2))) = ?ra + tot * ?al"
      by (simp add: record_size_def h2 tot_def)
    let ?v = "serve_of (s2\<lparr>sl_rptr := sl_rptr s2 + tot * ?al\<rparr>)"
    have v: "(serve_of (rewind port s2))\<lparr>sv_in := drop (?ra + tot * ?al) (sv_in (serve_of (rewind port s2)))\<rparr> = ?v"
      using safe2(2) by (simp add: serve_of_def add.commute)
    have tot2: "(field_count (unat (hdr ! 2)) + field_count (unat (hdr ! 3))) * ?al \<le> sl_eos s2 - sl_rptr s2"
      using 2(2) by (simp only: tot_def)
    note writes = slave_writes_of [OF 2(1) tot2 refl sel_def, of env]
    show ?thesis
    proof (cases "serve_writes env port ?r (serve_of s2)")
      case None
      then have "serve_writes env port ?r ?v = None"
        using serve_writes_upd [of ?v "serve_of s2"] by (simp add: serve_of_def)
      with None show ?thesis by (simp add: Go tail_def stail_def writes size2 v)
    next
      case (Some v')
      define s3 where "s3 = s2\<lparr>sl_rptr := sl_rptr s2 + field_count (unat (hdr ! 2)) * ?al, sl_error := sv_error v', sl_st := sv_st v'\<rparr>"
      define s4 where "s4 = s3\<lparr>sl_rptr := sl_rptr s3 + field_count (unat (hdr ! 3)) * ?al\<rparr>"
      have w: "slave_writes env port sel (hdr ! 0) (unat (hdr ! 2)) s2 = Some s3" by (simp add: writes Some s3_def)
      have s4': "s4 = s2\<lparr>sl_rptr := sl_rptr s2 + tot * ?al, sl_error := sv_error v', sl_st := sv_st v'\<rparr>"
        by (simp add: s4_def s3_def tot_def algebra_simps)
      have "serve_writes env port ?r ?v = Some (?v\<lparr>sv_error := sv_error v', sv_st := sv_st v'\<rparr>)"
        using serve_writes_upd [of ?v "serve_of s2"] Some by (simp add: serve_of_def)
      moreover have "?v\<lparr>sv_error := sv_error v', sv_st := sv_st v'\<rparr> = serve_of s4" by (simp add: s4' serve_of_def)
      ultimately have sw: "serve_writes env port ?r ?v = Some (serve_of s4)" by simp
      have st: "stail (map_flow (\<lambda>s. serve_of (rewind port s)) f) =
          serve_reads env port ?r (serve_of s4) \<bind> (\<lambda>v. Some (Go (serve_terminate port v)))"
        by (simp add: Go stail_def size2 v sw Let_def)
      have tl: "tail f = slave_reads env port sel (hdr ! 0) (hdr ! 1) (unat (hdr ! 3)) s3 \<bind>
          (\<lambda>s. slave_terminate port s \<bind> (\<lambda>s. Some (Go s)))"
        by (simp add: Go tail_def w)
      show ?thesis
      proof (cases "unat (hdr ! 3) = 0")
        case True
        have "wr_reads ?r = []" by (simp only: decode_record_def Let_def wire_record.simps h2 True loads.simps)
        moreover have "s4 = s3" using True by (simp add: s4_def field_count_def)
        ultimately have a: "serve_reads env port ?r (serve_of s4) = Some (serve_of s3)" by (simp add: serve_reads_def)
        have b: "slave_reads env port sel (hdr ! 0) (hdr ! 1) (unat (hdr ! 3)) s3 = Some s3" using True by (simp add: slave_reads_def)
        have le: "sl_rptr s3 \<le> sl_eos s3" 
        proof -
          have "s3 = s2\<lparr>sl_rptr := sl_rptr s2 + tot * ?al, sl_error := sv_error v', sl_st := sv_st v'\<rparr>"
            using s4' \<open>s4 = s3\<close> by simp
          then show ?thesis using 2(2) safe2(3) by simp
        qed
        have "sl_safe s3" "sl_wptr s3 + ?ra \<le> sl_rptr s3"
          using safe2(1,2) le by (auto simp: sl_safe_def s3_def)
        then obtain s' where "slave_terminate port s3 = Some s'" "serve_of s' = serve_terminate port (serve_of s3)" "sl_safe s'"
          using serve_terminate_of by blast
        then show ?thesis by (simp only: st tl a b) simp
      next
        case False
        then have pos: "unat (hdr ! 3) > 0" by simp
        note reads = slave_reads_of [OF 2(1) tot2 refl sel_def s3_def pos s4_def, of env]
        show ?thesis
        proof (cases "slave_reads env port sel (hdr ! 0) (hdr ! 1) (unat (hdr ! 3)) s3")
          case None
          with reads [THEN conjunct1] have "serve_reads env port ?r (serve_of s4) = None" by simp
          with None show ?thesis by (simp only: st tl) simp
        next
          case (Some s5)
          with reads [THEN conjunct1] have a: "serve_reads env port ?r (serve_of s4) = Some (serve_of s5)" by simp
          from reads [THEN conjunct2] Some have "sl_safe s5" "\<not> (sl_cycle_open s5 \<and> sl_cycle_end s5 \<noteq> 0)" by blast+
          then obtain s' where "slave_terminate port s5 = Some s'" "serve_of s' = serve_terminate port (serve_of s5)" "sl_safe s'"
            using serve_terminate_of by blast
          then show ?thesis by (simp only: st tl a Some) simp
        qed
      qed
    qed
  qed
  have loops: "loop (serve_refill_body env port (?ra + tot * ?al)) (serve_of (rewind port s1)) =
      map_option (map_flow (\<lambda>s. serve_of (rewind port s))) (slave_refill env port tot s1)"
    unfolding slave_refill_def by (rule refill.loop_refines [of env port hdr]) (use assms(1) safe1 in blast)
  show ?thesis
  proof (cases "slave_refill env port tot s1")
    case None
    then show ?thesis by (simp add: lhs rhs loops)
  next
    case (Some f)
    have "flow_sat (\<lambda>s. refill_safe port hdr s \<and> tot * ?al \<le> sl_eos s - sl_rptr s) f"
      by (rule refill.loop_post [of env port hdr s1 tot]) (use Some assms(1) safe1 in \<open>simp_all add: slave_refill_def\<close>)
    from step [OF this] show ?thesis by (simp add: lhs rhs loops Some)
  qed
qed


section \<open>Messages\<close>

lemma loop_body_refines:
  assumes "wire_ok env" "sl_safe s"
  shows "serve_loop_body env port (serve_of s) = map_option (map_sum serve_of (map_flow serve_of)) (slave_loop_body env port s) \<and>
    (\<forall>s'. slave_loop_body env port s = Some (Inl s') \<longrightarrow> sl_safe s') \<and>
    (\<forall>r. slave_loop_body env port s = Some (Inr r) \<longrightarrow> flow_sat sl_safe r)"
proof (cases "sl_rptr s + record_alignment_of (sp_widths port) \<le> sl_eos s")
  case False
  then have "\<not> record_alignment_of (sp_widths port) \<le> length (sv_in (serve_of s))"
    using length_serve_in [OF assms(2)] record_alignment_ge [of "sp_widths port"] by linarith
  with False assms(2) show ?thesis by (simp add: serve_loop_body_def slave_loop_body_def)
next
  case True
  then have len: "record_alignment_of (sp_widths port) \<le> length (sv_in (serve_of s))"
    using length_serve_in [OF assms(2)] by simp
  note rec = slave_record_refines [OF assms True]
  show ?thesis
  proof (cases "slave_record env port s")
    case None
    then show ?thesis using rec True len by (simp add: serve_loop_body_def slave_loop_body_def)
  next
    case (Some f)
    then show ?thesis using rec True len by (cases f) (simp_all add: serve_loop_body_def slave_loop_body_def)
  qed
qed

interpretation records: loop_refinement
  "\<lambda>s. wire_ok env \<and> sl_safe s" "flow_sat sl_safe" serve_of "map_flow serve_of"
  "slave_loop_body env port" "serve_loop_body env port"
  for env port
proof unfold_locales
  fix s s' :: "'a slave" and r
  assume i: "wire_ok env \<and> sl_safe s"
  note b = loop_body_refines [OF conjunct1 [OF i] conjunct2 [OF i], of port]
  show "serve_loop_body env port (serve_of s) = map_option (map_sum serve_of (map_flow serve_of)) (slave_loop_body env port s)"
    using b by (rule conjunct1)
  show "wire_ok env \<and> sl_safe s'" if "slave_loop_body env port s = Some (Inl s')"
    using b [THEN conjunct2, THEN conjunct1, rule_format, OF that] i by blast
  show "flow_sat sl_safe r" if "slave_loop_body env port s = Some (Inr r)"
    using b [THEN conjunct2, THEN conjunct2, rule_format, OF that] .
qed

lemma resume_body_refines:
  assumes "wire_ok env" "sl_safe s"
  shows "serve_resume_body env port (serve_of s) = map_option (map_sum serve_of (map_flow serve_of)) (slave_resume_body env port s) \<and>
    (\<forall>s'. slave_resume_body env port s = Some (Inl s') \<longrightarrow> sl_safe s')"
proof -
  have loops: "loop (serve_loop_body env port) (serve_of s) = map_option (map_flow serve_of) (slave_loop env port s)"
    unfolding slave_loop_def by (rule records.loop_refines) (use assms in blast)
  show ?thesis
  proof (cases "slave_loop env port s")
    case None
    then show ?thesis by (simp add: serve_resume_body_def slave_resume_body_def loops)
  next
    case (Some f)
    have post: "flow_sat sl_safe f"
      by (rule records.loop_post [of env s port]) (use Some assms in \<open>simp_all add: slave_loop_def\<close>)
    show ?thesis
    proof (cases f)
      case (Kill st)
      with Some show ?thesis by (simp add: serve_resume_body_def slave_resume_body_def loops)
    next
      case (Go s1)
      have safe: "sl_safe s1" using post Go by simp
      have v: "sv_cycle_end (serve_of s1) = sl_cycle_end s1" "pointers_valid s1 \<longleftrightarrow> sv_taken (serve_of s1) = eb_memory_array_size (st_mem (sv_st (serve_of s1)))" "(sv_in (serve_of s1) = []) = (sl_rptr s1 = sl_eos s1)"
        using safe by (auto simp: serve_of_def sl_safe_def pointers_valid_def)
      note simps = serve_resume_body_def slave_resume_body_def loops Some Go slave_send_serves v
      show ?thesis
      proof (cases "serve_send env port (serve_of s1)")
        case None
        then show ?thesis by (simp add: simps)
      next
        case (Some st)
        note sent = Some
        show ?thesis
        proof (cases "sl_cycle_end s1 = 0 \<and> sv_taken (serve_of s1) = eb_memory_array_size (st_mem (sv_st (serve_of s1)))")
          case False
          with sent show ?thesis by (simp add: simps) (simp add: serve_of_def)
        next
          case True
          show ?thesis
          proof (cases "EB_TRANSPORT (st_mem st) (sp_transport port)")
            case None
            with sent True show ?thesis by (simp add: simps)
          next
            case (Some transport)
            note tr = Some
            show ?thesis
            proof (cases "tops env (tr_link_type transport)")
              case None
              with sent True tr show ?thesis by (simp add: simps)
            next
              case (Some ops)
              show ?thesis
              proof (cases "tops_mtu ops = 0")
                case False
                with Some sent True tr show ?thesis by (simp add: simps)
              next
                case mtu: True
                have "sl_safe (s1\<lparr>sl_rptr := sl_rptr s1\<rparr>)" using safe by simp
                note m = slave_more_serves [OF assms(1) Some this, of port transport st 0 serve_of, simplified]
                have "serve_resume_body env port (serve_of s) = serve_more port ops transport st (serve_of s1)"
                  "slave_resume_body env port s = slave_more port ops transport (sl_rptr s1) 0 st s1"
                  using mtu Some sent True tr by (simp_all add: simps)
                with m show ?thesis by simp
              qed
            qed
          qed
        qed
      qed
    qed
  qed
qed

interpretation resume: loop_refinement
  "\<lambda>s. wire_ok env \<and> sl_safe s" "\<lambda>_. True" serve_of "map_flow serve_of"
  "slave_resume_body env port" "serve_resume_body env port"
  for env port
proof unfold_locales
  fix s s' :: "'a slave"
  assume i: "wire_ok env \<and> sl_safe s"
  note b = resume_body_refines [OF conjunct1 [OF i] conjunct2 [OF i], of port]
  show "serve_resume_body env port (serve_of s) = map_option (map_sum serve_of (map_flow serve_of)) (slave_resume_body env port s)"
    using b by (rule conjunct1)
  show "wire_ok env \<and> sl_safe s'" if "slave_resume_body env port s = Some (Inl s')"
    using b [THEN conjunct2, rule_format, OF that] i by blast
qed simp

lemma slave_payload_serves:
  assumes "wire_ok env" and "length buf = slave_buffer_size" and "len \<le> slave_buffer_size"
    and "(if header then record_alignment_of widths else 0) \<le> len"
  shows "slave_payload env socketp transportp devicep linkp passive widths header buf len st =
    (let start = (if header then record_alignment_of widths else 0);
         port = \<lparr>sp_socket = socketp, sp_transport = transportp, sp_link = linkp, sp_widths = widths\<rparr>
     in do {
       flow \<leftarrow> serve_message env port (take start buf) (drop start (take len buf)) st;
       case flow of
         Kill st \<Rightarrow> slave_kill env transportp devicep linkp passive st
       | Go v \<Rightarrow> Some (1, sv_st v)
     })"
proof -
  define start where "start = (if header then record_alignment_of widths else 0)"
  define port where "port = \<lparr>sp_socket = socketp, sp_transport = transportp, sp_link = linkp, sp_widths = widths\<rparr>"
  define s where "s = \<lparr>sl_buf = buf, sl_rptr = start, sl_wptr = start, sl_eos = len,
        sl_error = 0, sl_cycle_end = 1, sl_cycle_open = False, sl_reply = False, sl_taken = eb_memory_array_size (st_mem st), sl_st = st\<rparr>"
  have safe: "sl_safe s" using assms(2-4) by (simp add: s_def sl_safe_def start_def)
  have "loop (serve_resume_body env port) (serve_of s) = map_option (map_flow serve_of) (slave_resume env port s)"
    unfolding slave_resume_def by (rule resume.loop_refines) (use assms(1) safe in blast)
  moreover have "serve_message env port (take start buf) (drop start (take len buf)) st = loop (serve_resume_body env port) (serve_of s)"
    by (simp add: serve_message_def s_def serve_of_def)
  ultimately have m: "serve_message env port (take start buf) (drop start (take len buf)) st = map_option (map_flow serve_of) (slave_resume env port s)"
    by simp
  have "slave_payload env socketp transportp devicep linkp passive widths header buf len st =
     slave_resume env port s \<bind> (\<lambda>flow. case flow of Kill st \<Rightarrow> slave_kill env transportp devicep linkp passive st
       | Go s \<Rightarrow> Some (1, sl_st s))"
    by (simp add: slave_payload_def start_def port_def s_def Let_def)
  also have "\<dots> = serve_message env port (take start buf) (drop start (take len buf)) st \<bind>
      (\<lambda>flow. case flow of Kill st \<Rightarrow> slave_kill env transportp devicep linkp passive st | Go v \<Rightarrow> Some (1, sv_st v))"
    unfolding m by (cases "slave_resume env port s") (auto simp: serve_of_def split: flow.splits)
  finally show ?thesis by (simp add: Let_def start_def port_def)
qed

text \<open>C4: the slave builds its reply in the buffer that still holds the request, and this never damages
  the request. Whatever bytes arrived, on a datagram transport or in pieces on a stream, and whatever the
  user's devices do, processing them in place gives the same result as reading records from an input list
  and appending replies to a separate output list: the same accesses in the same order, the same bytes sent,
  the same final state, and the same decision to keep or drop the link. Both fault when a reply is
  sent through pointers that an access made stale. No access to the buffer is ever out of bounds.\<close>

theorem slave_in_place:
  assumes "wire_ok env" and "length buf = slave_buffer_size" and "len \<le> slave_buffer_size"
    and "(if header then record_alignment_of widths else 0) \<le> len"
  shows "slave_payload env socketp transportp devicep linkp passive widths header buf len st =
    (let start = (if header then record_alignment_of widths else 0);
         port = \<lparr>sp_socket = socketp, sp_transport = transportp, sp_link = linkp, sp_widths = widths\<rparr>
     in do {
       flow \<leftarrow> serve_message env port (take start buf) (drop start (take len buf)) st;
       case flow of
         Kill st \<Rightarrow> slave_kill env transportp devicep linkp passive st
       | Go v \<Rightarrow> Some (1, sv_st v)
     })"
  by (rule slave_payload_serves [OF assms])


text \<open>A message of one record that writes a register of a device and reads another one: the board records what is
  written and what is sent.\<close>

definition demo_board_ops :: "(eb_data_t list \<times> u8 list list) eb_transport_ops" where
  "demo_board_ops = \<lparr>tops_mtu = 1472, tops_open = (\<lambda>t _ w. (EB_OK, t, w)), tops_close = (\<lambda>_ w. w),
     tops_connect = (\<lambda>_ l _ _ w. (EB_OK, l, w)), tops_disconnect = (\<lambda>_ _ w. w), tops_fdes = (\<lambda>_ _ w. w),
     tops_accept = (\<lambda>_ l w. (0, l, w)), tops_poll = (\<lambda>_ _ n w. (0, [], w)), tops_recv = (\<lambda>_ _ n w. (0, [], w)),
     tops_send = (\<lambda>_ _ bs (regs, sent). (regs, sent @ [bs])), tops_send_buffer = (\<lambda>_ _ _ w. w)\<rparr>"

definition demo_board :: "(eb_data_t list \<times> u8 list list) eb_env" where
  "demo_board = \<lparr>env_transports = [demo_board_ops], env_junk = (\<lambda>_. 0), env_version = 1, env_date = 1,
     env_device = (\<lambda>_. demo_sdb_device), env_callback = (\<lambda>_ _ _ _ _ st. Some st),
     env_sdb_callback = (\<lambda>_ _ _ _ _ st. Some st), env_read = (\<lambda>_ _ a _ st. Some (EB_OK, a, st)),
     env_write = (\<lambda>_ _ _ _ v st. Some (EB_OK, on_world (\<lambda>(regs, sent). (regs @ [v], sent)) st))\<rparr>"

definition demo_board_heap :: eb_memory where
  "demo_board_heap = heap_of [Socket_item (zero_socket\<lparr>so_first_handler := 129\<rparr>),
     Handler_address_item \<lparr>ha_device = 1, ha_callback = 130, ha_next = EB_NULL\<rparr>,
     Handler_callback_item \<lparr>hc_data = 5, hc_read = Some 0, hc_write = Some 0\<rparr>,
     Transport_item (zero_transport\<lparr>tr_link_type := 0\<rparr>)]"

definition demo_board_state :: "eb_data_t list \<times> u8 list list \<Rightarrow> (eb_data_t list \<times> u8 list list) eb_state" where
  "demo_board_state w = \<lparr>st_mem = demo_board_heap, st_user = (\<lambda>_. 0), st_status = (\<lambda>_. 0),
     st_find_address = (\<lambda>_. \<lparr>fa_address = 0, fa_output = [], fa_status = 0\<rparr>),
     st_find_identity = (\<lambda>_. \<lparr>fi_vendor_id = 0, fi_output = [], fi_device_id = 0, fi_size = 0,
       fi_fill = 0, fi_pending = 0, fi_status = 0\<rparr>), st_world = w\<rparr>"

lemma demo_board_items:
  "EB_SOCKET demo_board_heap 128 = Some (zero_socket\<lparr>so_first_handler := 129\<rparr>)"
  "EB_HANDLER_ADDRESS demo_board_heap 129 = Some \<lparr>ha_device = 1, ha_callback = 130, ha_next = EB_NULL\<rparr>"
  "EB_HANDLER_CALLBACK demo_board_heap 130 = Some \<lparr>hc_data = 5, hc_read = Some 0, hc_write = Some 0\<rparr>"
  "EB_TRANSPORT demo_board_heap 131 = Some (zero_transport\<lparr>tr_link_type := 0\<rparr>)"
  by (simp_all add: demo_board_heap_def heap_of_def EB_SOCKET_def EB_HANDLER_ADDRESS_def EB_HANDLER_CALLBACK_def EB_TRANSPORT_def
      eb_item_def in_array_def)

lemma demo_board_find:
  "eb_find_handler demo_board demo_board_heap 0x10008 129 = Some 129"
  "eb_find_handler demo_board demo_board_heap 0x10004 129 = Some 129"
  by (subst eb_find_handler.simps, simp add: demo_board_items, simp add: demo_board_def demo_sdb_device_def EB_NULL_def)+

lemma demo_board_accesses:
  "eb_socket_write demo_board 128 0x44 0x10008 0x10008 v 0 (demo_board_state (regs, sent)) = Some (0, demo_board_state (regs @ [v], sent))"
  "eb_socket_read demo_board 128 0x44 0x10004 0x10004 0 (demo_board_state (regs, sent)) = Some (0x10004, 0, demo_board_state (regs, sent))"
proof -
  have env: "env_write demo_board f u a w' v st = Some (EB_OK, on_world (\<lambda>(regs, sent). (regs @ [v], sent)) st)"
    "env_read demo_board f u a w' st = Some (EB_OK, a, st)" for f u a w' v st
    by (simp_all add: demo_board_def)
  show "eb_socket_write demo_board 128 0x44 0x10008 0x10008 v 0 (demo_board_state (regs, sent)) = Some (0, demo_board_state (regs @ [v], sent))"
    "eb_socket_read demo_board 128 0x44 0x10004 0x10004 0 (demo_board_state (regs, sent)) = Some (0x10004, 0, demo_board_state (regs, sent))"
    by (simp_all add: eb_socket_write_def eb_socket_read_def demo_board_items demo_board_state_def shift_error_def on_world_def EB_NULL_def
        demo_board_find env)
qed

theorem slave_in_place_witness:
  "slave_payload demo_board 128 131 EB_NULL EB_NULL False 0x44 True
     (put_bytes 0 [0x4E, 0x6F, 0x14, 0x44, 0x08, 0x0f, 1, 1, 0, 1, 0, 8, 0, 0, 0, 42, 0, 0, 0x80, 0, 0, 1, 0, 4] (replicate slave_buffer_size 0)) 24
     (demo_board_state ([], [])) =
   Some (1, demo_board_state ([42], [[0x4E, 0x6F, 0x14, 0x44, 0x08, 0x0f, 1, 0, 0, 0, 0x80, 0, 0, 1, 0, 4]]))"
proof -
  let ?hdr = "[0x4E, 0x6F, 0x14, 0x44] :: u8 list"
  let ?in = "[0x08, 0x0f, 1, 1, 0, 1, 0, 8, 0, 0, 0, 42, 0, 0, 0x80, 0, 0, 1, 0, 4] :: u8 list"
  let ?buf = "put_bytes 0 (?hdr @ ?in) (replicate slave_buffer_size 0)"
  let ?port = "\<lparr>sp_socket = 128, sp_transport = 131, sp_link = EB_NULL, sp_widths = 0x44\<rparr>"
  let ?n = "eb_memory_array_size demo_board_heap"
  let ?v = "\<lparr>sv_in = ?in, sv_out = ?hdr, sv_error = 0, sv_cycle_end = 1, sv_cycle_open = False,
       sv_reply = False, sv_taken = ?n, sv_st = demo_board_state ([], [])\<rparr>"
  let ?out = "?hdr @ [0x08, 0x0f, 1, 0, 0, 0, 0x80, 0, 0, 1, 0, 4]"
  let ?v' = "\<lparr>sv_in = [], sv_out = ?out, sv_error = 0, sv_cycle_end = 8, sv_cycle_open = False,
       sv_reply = True, sv_taken = ?n, sv_st = demo_board_state ([42], [])\<rparr>"
  have w: "wire_ok demo_board" by (simp add: wire_ok_def demo_board_def demo_board_ops_def)
  have size: "slave_buffer_size = 4104" by (simp add: slave_buffer_size_def)
  have l: "length ?buf = slave_buffer_size" "(24 :: nat) \<le> slave_buffer_size" by (simp_all add: size)
  have al: "record_alignment_of 0x44 = 4" "alignment_of 0x44 = 4" by (simp_all add: record_alignment_of_def alignment_of_def Let_def)
  have t: "take 4 ?buf = ?hdr" "drop 4 (take 24 ?buf) = ?in" by (simp_all add: put_bytes_def)
  have rsize: "record_size 0x44 ?in = 20" by (simp add: record_size_def al field_count_def)
  have rec: "decode_record 0x44 ?in = \<lparr>wr_flags = 8, wr_select = 0x0f, wr_bwa = 0x10008, wr_writes = [42], wr_bra = 0x8000, wr_reads = [0x10004]\<rparr>"
    by (simp add: decode_record_def al field_count_def) code_simp
  have sel: "decode_select 4 0x0f = \<lparr>sel_ok = True, sel_shift = 0, sel_width = 4\<rparr>" by code_simp
  have filter: "address_filter_bits 0x44 = 0xFFFFFFFC" by code_simp
  have mask: "data_mask 4 = 0xFFFFFFFF" by code_simp
  have writes: "serve_writes demo_board ?port (decode_record 0x44 ?in) (?v\<lparr>sv_cycle_end := 8, sv_in := []\<rparr>) =
      Some (?v\<lparr>sv_cycle_end := 8, sv_in := [], sv_st := demo_board_state ([42], [])\<rparr>)"
    by (simp add: rec serve_writes_def sel filter mask full_width_def addr_low_big_endian_def addr_low_little_endian_def demo_board_accesses)
  have reads: "serve_reads demo_board ?port (decode_record 0x44 ?in) (?v\<lparr>sv_cycle_end := 8, sv_in := [], sv_st := demo_board_state ([42], [])\<rparr>) = Some ?v'"
    by (simp add: rec serve_reads_def sel filter mask full_width_def addr_low_big_endian_def addr_low_little_endian_def demo_board_accesses
        reply_flags_def encode_record_def al encode_fields_def) code_simp
  have "loop (serve_refill_body demo_board ?port 20) (?v\<lparr>sv_cycle_end := 8\<rparr>) = Some (Go (?v\<lparr>sv_cycle_end := 8\<rparr>))"
    by (subst loop.simps) (simp add: serve_refill_body_def)
  then have "serve_record demo_board ?port ?v = Some (Go ?v')"
    using writes reads by (simp add: serve_record_def rsize Let_def serve_terminate_def)
  then have 1: "serve_loop_body demo_board ?port ?v = Some (Inl ?v')"
    by (simp add: serve_loop_body_def al)
  have 2: "serve_loop_body demo_board ?port ?v' = Some (Inr (Go ?v'))"
    by (simp add: serve_loop_body_def al)
  have loop: "loop (serve_loop_body demo_board ?port) ?v = Some (Go ?v')"
    by (subst loop.simps) (simp add: 1, subst loop.simps, use 2 in simp)
  have send: "serve_send demo_board ?port ?v' = Some (demo_board_state ([42], [?out]))"
    by (simp add: serve_send_def do_send_def demo_board_state_def demo_board_items link_of_def tops_def on_world_def)
      (simp add: demo_board_def demo_board_ops_def)
  have "serve_message demo_board ?port ?hdr ?in (demo_board_state ([], [])) = Some (Go (?v'\<lparr>sv_st := demo_board_state ([42], [?out])\<rparr>))"
  proof -
    have "eb_memory_array_size (st_mem (demo_board_state ([], []))) = ?n" by (simp add: demo_board_state_def)
    then show ?thesis unfolding serve_message_def
      by (subst loop.simps) (use loop send in \<open>simp add: serve_resume_body_def\<close>)
  qed
  with slave_in_place [OF w l, of True "0x44" 128 131 EB_NULL EB_NULL False "demo_board_state ([], [])"] t show ?thesis by (simp add: al)
qed

end
