(* ===== verification/Eb_Select.thy ===== *)
theory Eb_Select
  imports Eb_Slave
begin

text \<open>
  The select lines of a record: which bytes of the port an access uses. This theory shows that the
  arithmetic by which \<^verbatim>\<open>slave.c\<close> decodes them (a multiplicative hash instead of a bit scan) accepts exactly
  the aligned runs of 1, 2, 4 or 8 lanes that fit the port, and where the accesses then go.
\<close>

section \<open>Decoding\<close>

definition run_check :: "u8 \<Rightarrow> bool" where
  "run_check b = (b AND (b + 1) = 0 \<longrightarrow> b \<in> {0, 1, 3, 7, 15, 31, 63, 127, 255})"

definition low_check :: "u8 \<Rightarrow> bool" where
  "low_check s = (eb_log2 (s AND - s) \<in> {k. s = push_bit (unat k) (drop_bit (unat k) s)})"

lemma run_check: "run_check b"
  by (rule word8_upt) (simp_all add: upt_rec_numeral run_check_def)

text \<open>The hash finds the lowest set bit.\<close>

lemma low_check: "low_check b"
  by (rule word8_upt) (simp_all add: upt_rec_numeral low_check_def eb_log2_def eb_log2_table_def)

lemma eb_log2_range: "eb_log2 x \<in> {0, 1, 2, 3, 4, 5, 6, 7}"
proof -
  have "unat (x * 0x17) < 256" using unsigned_less [of "x * 0x17"] by simp
  then have "unat (drop_bit 5 (x * 0x17)) < 8" unfolding unat_drop_bit_eq by (simp add: drop_bit_eq_div)
  then have "eb_log2 x \<in> set eb_log2_table" unfolding eb_log2_def by (intro nth_mem) (simp add: eb_log2_table_def)
  then show ?thesis by (auto simp: eb_log2_table_def)
qed

lemmas log2_eval = eb_log2_def eb_log2_table_def

lemma bits_width:
  assumes "bits \<in> {0, 1, 3, 7, 15, 31, 63, 127, 255 :: u8}" "bits \<noteq> 0"
    and "(eb_log2 (drop_bit 1 bits + 1) + 1) AND eb_log2 (drop_bit 1 bits + 1) = 0"
  shows "bits \<in> {1, 3, 15, 255}"
  using assms by (auto simp: log2_eval)

text \<open>Lane \<open>(w, k)\<close>: \<open>w\<close> bytes, starting \<open>k\<close> bytes above the low end of the port.\<close>

definition lane_ok :: "nat \<Rightarrow> nat \<Rightarrow> nat \<Rightarrow> bool" where
  "lane_ok data w k \<longleftrightarrow> w \<in> {1, 2, 4, 8} \<and> w dvd k \<and> k + w \<le> data"

definition select_of :: "nat \<Rightarrow> nat \<Rightarrow> u8" where
  "select_of w k = push_bit k (mask w)"

definition lanes :: "(nat \<times> nat) list" where
  "lanes = [(1, 0), (1, 1), (1, 2), (1, 3), (1, 4), (1, 5), (1, 6), (1, 7), (2, 0), (2, 2), (2, 4), (2, 6), (4, 0), (4, 4), (8, 0)]"

lemma lane_cases:
  assumes "lane_ok data w k" "data \<le> 8"
  shows "(w, k) \<in> set lanes"
proof -
  have k: "k + w \<le> 8" "w dvd k" and w: "w = 1 \<or> w = 2 \<or> w = 4 \<or> w = 8" using assms by (auto simp: lane_ok_def)
  from w show ?thesis
  proof (elim disjE)
    assume "w = 1"
    moreover from this k have "k = 0 \<or> k = 1 \<or> k = 2 \<or> k = 3 \<or> k = 4 \<or> k = 5 \<or> k = 6 \<or> k = 7" by arith
    ultimately show ?thesis by (auto simp: lanes_def)
  next
    assume "w = 2"
    moreover from this k have "k = 0 \<or> k = 2 \<or> k = 4 \<or> k = 6" by presburger
    ultimately show ?thesis by (auto simp: lanes_def)
  next
    assume "w = 4"
    moreover from this k have "k = 0 \<or> k = 4" by presburger
    ultimately show ?thesis by (auto simp: lanes_def)
  next
    assume "w = 8"
    moreover from this k have "k = 0" by arith
    ultimately show ?thesis by (simp add: lanes_def)
  qed
qed

lemma select_of_eval:
  "select_of 1 0 = 0x01" "select_of 1 1 = 0x02" "select_of 1 2 = 0x04" "select_of 1 3 = 0x08"
  "select_of 1 4 = 0x10" "select_of 1 5 = 0x20" "select_of 1 6 = 0x40" "select_of 1 7 = 0x80"
  "select_of 2 0 = 0x03" "select_of 2 2 = 0x0c" "select_of 2 4 = 0x30" "select_of 2 6 = 0xc0"
  "select_of 4 0 = 0x0f" "select_of 4 4 = 0xf0" "select_of 8 0 = 0xff"
  by (simp_all add: select_of_def mask_eq_exp_minus_1)

lemma decode_select_table:
  "list_all (\<lambda>(w, k). decode_select data (select_of w k) =
     \<lparr>sel_ok = (of_nat w \<le> data \<and> of_nat k < data), sel_shift = of_nat k, sel_width = of_nat w\<rparr>) lanes"
  unfolding decode_select_def Let_def log2_eval
  by (simp only: lanes_def list.pred_inject prod.case select_of_eval) simp

lemma decode_select_of:
  assumes "lane_ok (unat data) w k" "unat data \<le> 8"
  shows "decode_select data (select_of w k) = \<lparr>sel_ok = True, sel_shift = of_nat k, sel_width = of_nat w\<rparr>"
proof -
  have "decode_select data (select_of w k) = \<lparr>sel_ok = (of_nat w \<le> data \<and> of_nat k < data), sel_shift = of_nat k, sel_width = of_nat w\<rparr>"
    using lane_cases [OF assms] decode_select_table [of data] by (auto simp: list_all_iff)
  moreover have "k < 256" "w < 256" "w \<le> unat data" "k < unat data" using assms by (auto simp: lane_ok_def)
  ultimately show ?thesis by (simp add: word_le_nat_alt word_less_nat_alt unat_of_nat)
qed

lemma lane_fits:
  assumes "w \<in> {1, 2, 4, 8}" "d \<in> {1, 2, 4, 8}" "w dvd k" "k < d" "w \<le> (d :: nat)"
  shows "k + w \<le> d"
proof -
  have "w dvd d" using assms(1,2,5) by auto
  then obtain a where a: "d = w * a" by blast
  obtain b where b: "k = w * b" using assms(3) by blast
  have "b < a" using assms(4) a b by auto
  then have "w * (b + 1) \<le> w * a" by (intro mult_le_mono2) simp
  then show ?thesis using a b by simp
qed

lemma decode_select_lane:
  assumes "sel_ok (decode_select data select)" "unat data \<in> {1, 2, 4, 8}"
  shows "\<exists>w k. lane_ok (unat data) w k \<and> select = select_of w k"
proof -
  define k where "k = eb_log2 (select AND - select)"
  define bits where "bits = drop_bit (unat k) select"
  define ws where "ws = eb_log2 (drop_bit 1 bits + 1)"
  have sel: "select = push_bit (unat k) bits" using low_check [of select] by (simp add: low_check_def k_def bits_def)
  have ok: "select \<noteq> 0" "bits AND (bits + 1) = 0" "(ws + 1) AND ws = 0" "k AND ws = 0" "ws + 1 \<le> data" "k < data"
    using assms(1) unfolding decode_select_def Let_def slave_select.simps k_def bits_def ws_def by blast+
  have "bits \<noteq> 0" using ok(1) sel by auto
  then have b: "bits \<in> {1, 3, 15, 255}"
    using bits_width run_check [of bits] ok(2,3) by (simp add: run_check_def ws_def)
  have k: "k \<in> {0, 1, 2, 3, 4, 5, 6, 7}" unfolding k_def by (rule eb_log2_range)
  have bw: "(bits, ws) \<in> {(1, 0), (3, 1), (15, 3), (255, 7)}" using b by (auto simp: ws_def log2_eval)
  define w where "w = unat (ws + 1)"
  have w: "w \<in> {1, 2, 4, 8}" "mask w = bits" using bw by (auto simp: w_def mask_eq_exp_minus_1)
  have "w dvd unat k" using bw k ok(4) unfolding w_def by (elim insertE emptyE; simp)
  moreover have "w \<le> unat data" "unat k < unat data" using ok(5,6) by (simp_all add: w_def word_le_nat_alt word_less_nat_alt)
  ultimately have "lane_ok (unat data) w (unat k)"
    using lane_fits [OF w(1) assms(2)] w(1) by (simp add: lane_ok_def)
  moreover have "select = select_of w (unat k)" using sel w(2) by (simp add: select_of_def)
  ultimately show ?thesis by blast
qed

text \<open>C6: the select decoding is exact. For a port of 1, 2, 4 or 8 bytes, \<^verbatim>\<open>sel_ok\<close> holds precisely for the
  select bytes of an aligned run of 1, 2, 4 or 8 lanes inside the port, and then \<^verbatim>\<open>op_shift\<close> and \<^verbatim>\<open>op_width\<close> are
  that run's position and length.\<close>

theorem select_decoding:
  assumes "unat data \<in> {1, 2, 4, 8}"
  shows "(sel_ok (decode_select data select) \<longleftrightarrow>
      (\<exists>w k. w \<in> {1, 2, 4, 8} \<and> w dvd k \<and> k + w \<le> unat data \<and> select = push_bit k (mask w))) \<and>
    (\<forall>w k. w \<in> {1, 2, 4, 8} \<and> w dvd k \<and> k + w \<le> unat data \<and> select = push_bit k (mask w) \<longrightarrow>
      sel_shift (decode_select data select) = of_nat k \<and> sel_width (decode_select data select) = of_nat w)"
proof -
  have le: "unat data \<le> 8" using assms by auto
  have *: "w \<in> {1, 2, 4, 8} \<and> w dvd k \<and> k + w \<le> unat data \<and> select = push_bit k (mask w) \<longleftrightarrow>
      lane_ok (unat data) w k \<and> select = select_of w k" for w k
    by (auto simp: lane_ok_def select_of_def)
  show ?thesis
    unfolding * using decode_select_of [OF _ le] decode_select_lane [OF _ assms] by fastforce
qed

theorem select_decoding_witness:
  "sel_ok (decode_select 4 0x0c) \<and> sel_shift (decode_select 4 0x0c) = 2 \<and> sel_width (decode_select 4 0x0c) = 2 \<and>
   \<not> sel_ok (decode_select 4 0x06)"
proof -
  have d: "unat (4 :: u8) \<in> {1, 2, 4, 8}" by simp
  have m: "(0x0c :: u8) = push_bit 2 (mask 2)" by (simp add: mask_eq_exp_minus_1)
  have "(2 :: nat) \<in> {1, 2, 4, 8} \<and> (2 :: nat) dvd 2 \<and> (2 :: nat) + 2 \<le> unat (4 :: u8) \<and> (0x0c :: u8) = push_bit 2 (mask 2)"
    using m by simp
  then have "sel_ok (decode_select 4 0x0c) \<and> sel_shift (decode_select 4 0x0c) = of_nat 2 \<and> sel_width (decode_select 4 0x0c) = of_nat 2"
    using select_decoding [OF d, of "0x0c"] by blast
  moreover have "\<not> sel_ok (decode_select 4 0x06)" by (simp add: decode_select_def Let_def log2_eval)
  ultimately show ?thesis by simp
qed

end
