(* ===== verification/Eb_Pure_Slave.thy ===== *)
theory Eb_Pure_Slave
  imports Eb_Serve Eb_Select
begin

text \<open>
  A socket that only serves: virtual devices attached, no device of its own opened, a datagram
  transport. Whatever bytes arrive, the slave engine answers or drops them without a fault.
\<close>

section \<open>Where the accesses go\<close>

definition port_ok :: "eb_width_t \<Rightarrow> bool" where
  "port_ok widths \<longleftrightarrow> widths AND EB_DATAX \<in> {1, 2, 4, 8} \<and> drop_bit 4 widths \<in> {1, 2, 4, 8}"

lemma port_ok_refined:
  assumes "eb_width_possible (eb_width_refine w)"
  shows "port_ok (eb_width_refine w)"
  using assms refine_nibble_cases [OF unat_low_nibble, of w] refine_nibble_cases [OF unat_high_nibble, of w]
  by (auto simp: port_ok_def eb_width_possible_def eb_width_refine_data eb_width_refine_addr)

lemma dvd_unat_iff: "(2 :: nat) ^ m dvd unat (x :: u64) \<longleftrightarrow> take_bit m x = 0"
proof -
  have "unat (take_bit m x) = take_bit m (unat x)" by (rule unsigned_take_bit_eq)
  then have "unat (take_bit m x) = unat x mod 2 ^ m" by (simp only: take_bit_eq_mod [of m "unat x"])
  then show ?thesis by (metis dvd_eq_mod_eq_0 unat_eq_0)
qed

lemma filter_bits_aligned:
  assumes "port_ok widths" "2 ^ m \<le> unat (widths AND EB_DATAX)"
  shows "take_bit m (address_filter_bits widths) = 0"
proof -
  have "m < 4"
  proof (rule ccontr)
    assume "\<not> m < 4"
    then have "(2 :: nat) ^ 4 \<le> 2 ^ m" by (intro power_increasing) auto
    moreover have "unat (widths AND EB_DATAX) \<le> 8" using assms(1) by (auto simp: port_ok_def)
    ultimately show False using assms(2) by simp
  qed
  then have "m = 0 \<or> m = 1 \<or> m = 2 \<or> m = 3" by arith
  then show ?thesis
    using assms unfolding port_ok_def address_filter_bits_def
    by (elim disjE conjE insertE emptyE; simp add: mask_eq_exp_minus_1)
qed

lemma read_address_aligned:
  assumes "port_ok widths" "lane_ok (unat (widths AND EB_DATAX)) w k"
  shows "w dvd unat ((a AND address_filter_bits widths) OR
     ucast (addr_low_big_endian (widths AND EB_DATAX) \<lparr>sel_ok = True, sel_shift = of_nat k, sel_width = of_nat w\<rparr>))"
proof -
  let ?d = "widths AND EB_DATAX"
  have w: "w \<in> {1, 2, 4, 8}" "w dvd k" "k + w \<le> unat ?d" using assms(2) by (auto simp: lane_ok_def)
  then have "w = 2 ^ 0 \<or> w = 2 ^ 1 \<or> w = 2 ^ 2 \<or> w = 2 ^ 3" by auto
  then obtain m where m: "w = 2 ^ m" by blast
  have d: "unat ?d \<in> {1, 2, 4, 8}" using assms(1) by (auto simp: port_ok_def)
  have wd: "w dvd unat ?d" using w(1,3) d by auto
  have f: "take_bit m (address_filter_bits widths) = 0"
    by (rule filter_bits_aligned [OF assms(1)]) (use w(3) m in simp)
  have "of_nat k + of_nat w = (of_nat (k + w) :: u8)" by simp
  moreover have "unat (of_nat (k + w) :: u8) = k + w"
  proof -
    have "k + w < 256" using w(3) d by auto
    then show ?thesis by (simp add: unat_of_nat del: of_nat_add)
  qed
  ultimately have "unat (?d - (of_nat k + of_nat w)) = unat ?d - (k + w)"
    using w(3) unat_sub [of "of_nat (k + w)" ?d] by (simp only: word_le_nat_alt)
  then have "w dvd unat (?d - (of_nat k + of_nat w))" using wd w(2) by (simp add: dvd_diff_nat)
  moreover have "unat (ucast (x :: u8) :: u64) = unat x" for x
  proof -
    have "unat x < 2 ^ LENGTH(8)" by (rule unsigned_less)
    then show ?thesis by (simp add: unsigned_ucast_eq take_bit_nat_eq_self)
  qed
  ultimately have "take_bit m (ucast (?d - (of_nat k + of_nat w)) :: u64) = 0"
    by (simp only: m dvd_unat_iff [symmetric])
  with f show ?thesis by (simp add: m dvd_unat_iff addr_low_big_endian_def)
qed

lemma full_width_data:
  assumes "w \<in> {1, 2, 4, 8}" "sel_width sel = of_nat w"
  shows "full_width port sel AND EB_DATAX = of_nat w"
proof -
  have p: "push_bit 4 x AND 0xf = (0 :: u8)" for x
  proof -
    have "(0xf :: u8) = mask 4" by (simp add: mask_eq_exp_minus_1)
    then have "push_bit 4 x AND 0xf = take_bit 4 (push_bit 4 x)" by (simp only: take_bit_eq_mask)
    then show ?thesis by (simp only: take_bit_push_bit diff_self_eq_0 take_bit_0 push_bit_of_0)
  qed
  have "(of_nat w :: u8) AND 0xf = of_nat w" using assms(1) by auto
  then show ?thesis using p by (simp add: full_width_def assms(2) bit.conj_disj_distrib2)
qed

lemma read_config_loop_in: "a + n \<le> length buf \<Longrightarrow> \<exists>v. read_config_loop buf a n out = Some v"
  by (induction n arbitrary: a out) (auto simp: Let_def)

lemma read_config_total:
  assumes "unat (w AND EB_DATAX) \<le> 8"
  shows "\<exists>v. eb_socket_read_config w addr error = Some v"
proof (cases "addr \<ge> 8")
  case False
  then have "unat addr < 8" by (simp add: word_less_nat_alt not_le)
  with assms False show ?thesis
    unfolding eb_socket_read_config_def Let_def by (auto intro!: read_config_loop_in)
qed (simp add: eb_socket_read_config_def)


section \<open>Serving without a fault\<close>

text \<open>What the engine needs of the bus behind it: an invariant of the state under which every access
  succeeds and which every access keeps.\<close>

definition pointers_fresh :: "'w serve \<Rightarrow> bool" where
  "pointers_fresh v \<longleftrightarrow> sv_taken v = eb_memory_array_size (st_mem (sv_st v))"

locale serving =
  fixes env :: "'w eb_env" and port :: slave_port and I :: "'w eb_state \<Rightarrow> bool"
  assumes widths: "I st \<Longrightarrow> port_ok (sp_widths port)"
    and datagram: "I st \<Longrightarrow> \<exists>t ops. EB_TRANSPORT (st_mem st) (sp_transport port) = Some t \<and> tops env (tr_link_type t) = Some ops \<and> tops_mtu ops \<noteq> 0"
    and linked: "I st \<Longrightarrow> link_of (st_mem st) (sp_link port) \<noteq> None"
    and world: "I st \<Longrightarrow> I (on_world f st)"
    and unmoved: "I st \<Longrightarrow> I st' \<Longrightarrow> eb_memory_array_size (st_mem st) = eb_memory_array_size (st_mem st')"
    and write_config: "I st \<Longrightarrow> \<exists>st'. eb_socket_write_config env (sp_socket port) w a v st = Some st' \<and> I st'"
    and bus_write: "I st \<Longrightarrow> \<exists>e' st'. eb_socket_write env (sp_socket port) w ab al v e st = Some (e', st') \<and> I st'"
    and bus_read: "I st \<Longrightarrow> n \<in> {1, 2, 4, 8} \<Longrightarrow> w AND EB_DATAX = of_nat n \<Longrightarrow> n dvd unat ab \<Longrightarrow>
      \<exists>v e' st'. eb_socket_read env (sp_socket port) w ab al e st = Some (v, e', st') \<and> I st'"
begin

lemma writes_total:
  "I st \<Longrightarrow> \<exists>e' st'. serve_write_accesses env port sel wc ff vs a b l e st = Some (e', st') \<and> I st'"
proof (induction vs arbitrary: a b l e st)
  case (Cons v vs)
  let ?v = "drop_bit (unat (sel_shift sel) * 8) v AND data_mask (sel_width sel)"
  have "\<exists>e1 st1. (if wc then
          if sel_ok sel then do {
            st \<leftarrow> eb_socket_write_config env (sp_socket port) (full_width port sel) a ?v st;
            Some (e, st)
          } else Some (e, st)
        else
          if sel_ok sel then eb_socket_write env (sp_socket port) (full_width port sel) b l ?v e st
          else Some (shift_error e True, st)) = Some (e1, st1) \<and> I st1"
    using write_config [OF Cons.prems, of "full_width port sel" a ?v] bus_write [OF Cons.prems, of "full_width port sel" b l ?v e]
      Cons.prems by auto
  then obtain e1 st1 where 1: "(if wc then
          if sel_ok sel then do {
            st \<leftarrow> eb_socket_write_config env (sp_socket port) (full_width port sel) a ?v st;
            Some (e, st)
          } else Some (e, st)
        else
          if sel_ok sel then eb_socket_write env (sp_socket port) (full_width port sel) b l ?v e st
          else Some (shift_error e True, st)) = Some (e1, st1)" "I st1" by blast
  show ?case using Cons.IH [OF 1(2)] by (simp only: serve_write_accesses.simps Let_def 1(1) bind.bind_lunit prod.case)
qed simp

lemma reads_total:
  assumes "sel = decode_select (port_data port) select"
  shows "I st \<Longrightarrow> \<exists>vs e' st'. serve_read_accesses env port sel rc as e st = Some (vs, e', st') \<and> I st'"
proof (induction as arbitrary: e st)
  case (Cons a as)
  let ?b = "(a AND address_filter_bits (sp_widths port)) OR ucast (addr_low_big_endian (port_data port) sel)"
  let ?l = "(a AND address_filter_bits (sp_widths port)) OR ucast (addr_low_little_endian sel)"
  have lane: "\<exists>n. n \<in> {1, 2, 4, 8} \<and> full_width port sel AND EB_DATAX = of_nat n \<and> n dvd unat ?b" if ok: "sel_ok sel"
  proof -
    have d: "unat (port_data port) \<in> {1, 2, 4, 8}" using widths [OF Cons.prems] by (auto simp: port_ok_def)
    obtain w k where l: "lane_ok (unat (port_data port)) w k" "select = select_of w k"
      using decode_select_lane [OF _ d] ok assms by blast
    have s: "sel = \<lparr>sel_ok = True, sel_shift = of_nat k, sel_width = of_nat w\<rparr>"
      unfolding assms l(2) by (rule decode_select_of [OF l(1)]) (use d in auto)
    have "w \<in> {1, 2, 4, 8}" using l(1) by (simp add: lane_ok_def)
    with full_width_data [of w sel port] read_address_aligned [OF widths [OF Cons.prems] l(1), of a] show ?thesis by (auto simp: s)
  qed
  have "\<exists>v e1 st1. (if rc then
          if sel_ok sel then do {
            wv \<leftarrow> eb_socket_read_config (full_width port sel) ?b e;
            Some (wv, e, st)
          } else Some (0, e, st)
        else
          if sel_ok sel then eb_socket_read env (sp_socket port) (full_width port sel) ?b ?l e st
          else Some (0, shift_error e True, st)) = Some (v, e1, st1) \<and> I st1"
  proof (cases "sel_ok sel")
    case True
    then obtain n where n: "n \<in> {1, 2, 4, 8}" "full_width port sel AND EB_DATAX = of_nat n" "n dvd unat ?b" using lane by blast
    have "unat (full_width port sel AND EB_DATAX) \<le> 8" unfolding n(2) using n(1) by auto
    with bus_read [OF Cons.prems n, of ?l e] read_config_total [of "full_width port sel" ?b e] Cons.prems True
    show ?thesis by auto
  qed (use Cons.prems in auto)
  then obtain v e1 st1 where 1: "(if rc then
          if sel_ok sel then do {
            wv \<leftarrow> eb_socket_read_config (full_width port sel) ?b e;
            Some (wv, e, st)
          } else Some (0, e, st)
        else
          if sel_ok sel then eb_socket_read env (sp_socket port) (full_width port sel) ?b ?l e st
          else Some (0, shift_error e True, st)) = Some (v, e1, st1)" "I st1" by blast
  obtain vs e2 st2 where 2: "serve_read_accesses env port sel rc as e1 st1 = Some (vs, e2, st2)" "I st2"
    using Cons.IH [OF 1(2)] by blast
  show ?case using 2(2) by (simp only: serve_read_accesses.simps Let_def 1(1) 2(1) bind.bind_lunit prod.case) simp
qed simp

lemma send_total: "I (sv_st v) \<Longrightarrow> pointers_fresh v \<Longrightarrow> \<exists>st'. serve_send env port v = Some st' \<and> I st'"
  using datagram [of "sv_st v"] linked [of "sv_st v"] world by (auto simp: serve_send_def do_send_def pointers_fresh_def)

lemma serve_writes_total:
  assumes "I (sv_st v)"
  shows "\<exists>v'. serve_writes env port r v = Some v' \<and> I (sv_st v') \<and> sv_in v' = sv_in v \<and> sv_taken v' = sv_taken v"
proof -
  let ?sel = "decode_select (port_data port) (wr_select r)" and ?wc = "wr_flags r AND EB_RECORD_WCA \<noteq> 0"
  let ?base = "wr_bwa r AND address_filter_bits (sp_widths port)"
  obtain e st where "serve_write_accesses env port ?sel ?wc (wr_flags r AND EB_RECORD_WFF \<noteq> 0) (wr_writes r)
        (if ?wc then wr_bwa r else ?base)
        (if ?wc then 0 else ?base OR ucast (addr_low_big_endian (port_data port) ?sel))
        (if ?wc then 0 else ?base OR ucast (addr_low_little_endian ?sel)) (sv_error v) (sv_st v) = Some (e, st)"
      "I st"
    using writes_total [OF assms] by blast
  then show ?thesis unfolding serve_writes_def Let_def by simp
qed

lemma serve_reads_total:
  assumes "I (sv_st v)"
  shows "\<exists>v'. serve_reads env port r v = Some v' \<and> I (sv_st v') \<and> sv_in v' = sv_in v \<and> sv_taken v' = sv_taken v"
proof -
  obtain vs e st where "serve_read_accesses env port (decode_select (port_data port) (wr_select r))
      (wr_flags r AND EB_RECORD_RCA \<noteq> 0) (wr_reads r) (sv_error v) (sv_st v) = Some (vs, e, st)" "I st"
    using reads_total [OF refl assms] by blast
  then show ?thesis using assms unfolding serve_reads_def Let_def by simp
qed

text \<open>A complete record is consumed; an incomplete one ends the message.\<close>

lemma record_total:
  assumes "I (sv_st v)" "record_alignment_of (sp_widths port) \<le> length (sv_in v)" "pointers_fresh v"
  shows "(\<exists>st. serve_record env port v = Some (Kill st) \<and> I st) \<or>
    (\<exists>v'. serve_record env port v = Some (Go v') \<and> I (sv_st v') \<and> pointers_fresh v' \<and> length (sv_in v') < length (sv_in v))"
proof (cases "record_size (sp_widths port) (sv_in v) \<le> length (sv_in v)")
  case False
  let ?v = "v\<lparr>sv_cycle_end := sv_in v ! 0 AND EB_RECORD_CYC\<rparr>"
  have "serve_refill_body env port (record_size (sp_widths port) (sv_in v)) ?v = Some (Inr (Kill (sv_st v)))"
    using False datagram [OF assms(1)] by (auto simp: serve_refill_body_def)
  then have "loop (serve_refill_body env port (record_size (sp_widths port) (sv_in v))) ?v = Some (Kill (sv_st v))"
    by (subst loop.simps) simp
  then show ?thesis using assms(1) by (simp add: serve_record_def)
next
  case True
  let ?v = "v\<lparr>sv_cycle_end := sv_in v ! 0 AND EB_RECORD_CYC\<rparr>" and ?r = "decode_record (sp_widths port) (sv_in v)"
  let ?n = "record_size (sp_widths port) (sv_in v)"
  have "loop (serve_refill_body env port ?n) ?v = Some (Go ?v)"
    using True by (subst loop.simps) (simp add: serve_refill_body_def)
  then have rec: "serve_record env port v = do {
         v \<leftarrow> serve_writes env port ?r (?v\<lparr>sv_in := drop ?n (sv_in v)\<rparr>);
         v \<leftarrow> serve_reads env port ?r v;
         Some (Go (serve_terminate port v))
       }" by (simp add: serve_record_def Let_def)
  obtain v1 where 1: "serve_writes env port ?r (?v\<lparr>sv_in := drop ?n (sv_in v)\<rparr>) = Some v1"
      "I (sv_st v1)" "sv_in v1 = drop ?n (sv_in v)" "sv_taken v1 = sv_taken v"
    using serve_writes_total [of "?v\<lparr>sv_in := drop ?n (sv_in v)\<rparr>" ?r] assms(1) by auto
  obtain v2 where 2: "serve_reads env port ?r v1 = Some v2" "I (sv_st v2)" "sv_in v2 = sv_in v1" "sv_taken v2 = sv_taken v1"
    using serve_reads_total [OF 1(2)] by blast
  have "pointers_fresh v2" using assms(3) 1(4) 2(4) unmoved [OF assms(1) 2(2)] by (simp add: pointers_fresh_def)
  moreover have "0 < ?n" using record_alignment_ge [of "sp_widths port"] by (simp add: record_size_def)
  moreover have "0 < length (sv_in v)" using assms(2) record_alignment_ge [of "sp_widths port"] by linarith
  ultimately have "length (sv_in v2) < length (sv_in v)" using 1(3) 2(3) by simp
  then show ?thesis using 1 2 \<open>pointers_fresh v2\<close> by (simp add: rec serve_terminate_def pointers_fresh_def)
qed

lemma records_total:
  "I (sv_st v) \<Longrightarrow> pointers_fresh v \<Longrightarrow>
   (\<exists>st. loop (serve_loop_body env port) v = Some (Kill st) \<and> I st) \<or>
   (\<exists>v'. loop (serve_loop_body env port) v = Some (Go v') \<and> I (sv_st v') \<and> pointers_fresh v')"
proof (induction "length (sv_in v)" arbitrary: v rule: less_induct)
  case less
  show ?case
  proof (cases "record_alignment_of (sp_widths port) \<le> length (sv_in v)")
    case False
    then show ?thesis using less.prems by (subst loop.simps) (simp add: serve_loop_body_def loop.simps)
  next
    case True
    consider st where "serve_record env port v = Some (Kill st)" "I st"
      | v' where "serve_record env port v = Some (Go v')" "I (sv_st v')" "pointers_fresh v'" "length (sv_in v') < length (sv_in v)"
      using record_total [OF less.prems(1) True less.prems(2)] by blast
    then show ?thesis
    proof cases
      case 1
      then have "loop (serve_loop_body env port) v = Some (Kill st)"
        using True by (subst loop.simps) (simp add: serve_loop_body_def)
      then show ?thesis using 1 by simp
    next
      case 2
      then have "loop (serve_loop_body env port) v = loop (serve_loop_body env port) v'"
        using True by (subst loop.simps) (simp add: serve_loop_body_def)
      with less.hyps [OF 2(4,2,3)] show ?thesis by simp
    qed
  qed
qed

lemma message_total:
  assumes "I st"
  shows "(\<exists>st'. serve_message env port hdr payload st = Some (Kill st') \<and> I st') \<or>
    (\<exists>v. serve_message env port hdr payload st = Some (Go v) \<and> I (sv_st v))"
proof -
  define v where "v = \<lparr>sv_in = payload, sv_out = hdr, sv_error = 0, sv_cycle_end = 1,
       sv_cycle_open = False, sv_reply = False, sv_taken = eb_memory_array_size (st_mem st), sv_st = st\<rparr>"
  have "I (sv_st v)" "pointers_fresh v" using assms by (simp_all add: v_def pointers_fresh_def)
  from records_total [OF this] have "(\<exists>st. serve_resume_body env port v = Some (Inr (Kill st)) \<and> I st) \<or>
     (\<exists>v'. serve_resume_body env port v = Some (Inr (Go v')) \<and> I (sv_st v'))"
  proof (elim disjE exE conjE)
    fix st' assume "loop (serve_loop_body env port) v = Some (Kill st')" "I st'"
    then show ?thesis by (simp add: serve_resume_body_def)
  next
    fix v1 assume 1: "loop (serve_loop_body env port) v = Some (Go v1)" "I (sv_st v1)" "pointers_fresh v1"
    obtain st1 where s: "serve_send env port v1 = Some st1" "I st1" using send_total [OF 1(2,3)] by blast
    show ?thesis using datagram [OF s(2)] 1(1,3) s by (auto simp: serve_resume_body_def pointers_fresh_def)
  qed
  then show ?thesis unfolding serve_message_def v_def [symmetric] by (subst (1 2) loop.simps) auto
qed

end


section \<open>A serving socket\<close>

text \<open>The user's virtual devices only work on their own state; a device that calls back into the library
  (closing the socket it is served from, say) is outside the theorem.\<close>

definition quiet :: "'w eb_env \<Rightarrow> bool" where
  "quiet env \<longleftrightarrow>
     (\<forall>f d a w st. \<exists>s v x. env_read env f d a w st = Some (s, v, st\<lparr>st_world := x\<rparr>)) \<and>
     (\<forall>f d a w v st. \<exists>s x. env_write env f d a w v st = Some (s, st\<lparr>st_world := x\<rparr>))"

definition serves_only :: "'w eb_env \<Rightarrow> eb_memory \<Rightarrow> eb_ptr \<Rightarrow> eb_ptr list \<Rightarrow> bool" where
  "serves_only env m s hs \<longleftrightarrow> bus_list m s hs \<and> bus_ok env (bus_of m hs) \<and> names_ok env m hs \<and>
     (\<exists>so. EB_SOCKET m s = Some so \<and> so_first_device so = EB_NULL \<and> so_first_response so = EB_NULL \<and> so_last_response so = EB_NULL)"

definition datagram_port :: "'w eb_env \<Rightarrow> eb_memory \<Rightarrow> slave_port \<Rightarrow> bool" where
  "datagram_port env m port \<longleftrightarrow> port_ok (sp_widths port) \<and> link_of m (sp_link port) \<noteq> None \<and>
     (\<exists>t ops. EB_TRANSPORT m (sp_transport port) = Some t \<and> tops env (tr_link_type t) = Some ops \<and> tops_mtu ops \<noteq> 0)"

lemma eb_response_flip_NULL [simp]: "eb_response_flip EB_NULL m = Some (EB_NULL, m)"
  by (simp add: eb_response_flip_def eb_response_flip_loop.simps)

lemma eb_put_same: "eb_item m p = Some x \<Longrightarrow> eb_put m p x = m"
  by (auto simp: eb_put_def eb_item_def split: if_splits)

lemma write_config_idle:
  assumes "EB_SOCKET (st_mem st) s = Some so" "so_first_response so = EB_NULL" "so_last_response so = EB_NULL"
  shows "eb_socket_write_config env s w a v st = Some st"
proof -
  have i: "eb_item (st_mem st) s = Some (Socket_item so)" using assms(1) by (simp add: eb_deref)
  have 1: "set_socket (st_mem st) s (\<lambda>s. s\<lparr>so_first_response := EB_NULL\<rparr>) = Some (st_mem st)"
    "set_socket (st_mem st) s (\<lambda>s. s\<lparr>so_last_response := EB_NULL\<rparr>) = Some (st_mem st)"
  proof -
    have "so\<lparr>so_first_response := EB_NULL\<rparr> = so" "so\<lparr>so_last_response := EB_NULL\<rparr> = so"
      using assms(2,3) by (cases so, simp)+
    then show "set_socket (st_mem st) s (\<lambda>s. s\<lparr>so_first_response := EB_NULL\<rparr>) = Some (st_mem st)"
      "set_socket (st_mem st) s (\<lambda>s. s\<lparr>so_last_response := EB_NULL\<rparr>) = Some (st_mem st)"
      using set_socket_Some [OF i] eb_put_same [OF i] by simp_all
  qed
  have "find_response s a None (st_mem st) = Some (None, st_mem st)"
    by (subst find_response.simps) (simp add: load_pp_def store_pp_def assms 1)
  then show ?thesis by (simp add: eb_socket_write_config_def alloc_mem_def)
qed


lemma bus_write_total:
  assumes "quiet env" "bus_list (st_mem st) s hs" "bus_ok env (bus_of (st_mem st) hs)"
  shows "\<exists>e' x. eb_socket_write env s w ab al v e st = Some (e', st\<lparr>st_world := x\<rparr>)"
proof (cases "ab < 0x4000")
  case True
  then show ?thesis by (auto simp: eb_socket_write_def intro: exI [of _ "st_world st"])
next
  case False
  obtain so where so: "EB_SOCKET (st_mem st) s = Some so" "ha_chain (st_mem st) (so_first_handler so) hs"
    using assms(2) by (auto simp: bus_list_def)
  show ?thesis
  proof (cases "\<exists>h \<in> set hs. in_range ab (ha_range env (st_mem st) h)")
    case True
    then obtain h where h: "h \<in> set hs" "in_range ab (ha_range env (st_mem st) h)" by blast
    let ?cb = "hc_at (st_mem st) (ha_callback (ha_at (st_mem st) h))"
    let ?a = "if bus_specific (env_device env (ha_device (ha_at (st_mem st) h))) AND SDB_WISHBONE_LITTLE_ENDIAN \<noteq> 0 then al else ab"
    show ?thesis
    proof (cases "hc_write ?cb")
      case None
      then show ?thesis
        using so(1) False eb_find_handler_owner [OF so(2) assms(3) h] bus_list_handler [OF assms(2) h(1)]
        by (auto simp: eb_socket_write_def intro: exI [of _ "st_world st"])
    next
      case (Some f)
      obtain r x where "env_write env f (hc_data ?cb) ?a w v st = Some (r, st\<lparr>st_world := x\<rparr>)"
        using assms(1) unfolding quiet_def by blast
      then show ?thesis
        using so(1) False eb_find_handler_owner [OF so(2) assms(3) h] bus_list_handler [OF assms(2) h(1)] Some
        by (auto simp: eb_socket_write_def)
    qed
  next
    case none: False
    then have "eb_find_handler env (st_mem st) ab (so_first_handler so) = Some EB_NULL"
      by (intro eb_find_handler_none [OF so(2)]) blast
    then show ?thesis using so(1) False by (auto simp: eb_socket_write_def intro: exI [of _ "st_world st"])
  qed
qed

text \<open>An aligned read of the SDB area stays inside one 64-byte record.\<close>

lemma aligned_in_record:
  assumes "n \<in> {1, 2, 4, 8}" "n dvd a"
  shows "a mod 64 + n \<le> (64 :: nat)"
proof -
  have "n dvd 64" using assms(1) by auto
  then have "n dvd a mod 64" using assms(2) by (simp add: dvd_mod_iff)
  moreover have "a mod 64 < 64" by simp
  ultimately obtain k l where "a mod 64 = n * k" "64 = n * l" "n * k < n * l" using \<open>n dvd 64\<close> by (metis dvdE)
  then have "Suc k \<le> l" using mult_less_cancel1 [of n k l] by linarith
  then have "n * Suc k \<le> n * l" by (rule mult_le_mono2)
  with \<open>a mod 64 = n * k\<close> \<open>64 = n * l\<close> show ?thesis by simp
qed

lemma bus_read_total:
  assumes "quiet env" "bus_list (st_mem st) s hs" "bus_ok env (bus_of (st_mem st) hs)" "names_ok env (st_mem st) hs"
    and "n \<in> {1, 2, 4, 8}" "w AND EB_DATAX = of_nat n" "n dvd unat ab"
  shows "\<exists>v e' x. eb_socket_read env s w ab al e st = Some (v, e', st\<lparr>st_world := x\<rparr>)"
proof -
  obtain so where so: "EB_SOCKET (st_mem st) s = Some so" "ha_chain (st_mem st) (so_first_handler so) hs"
    using assms(2) by (auto simp: bus_list_def)
  show ?thesis
  proof (cases "ab < 0x4000")
    case True
    have n: "unat (w AND EB_DATAX) = n" unfolding assms(6) using assms(5) by auto
    have "unat ab < 0x4000" using True by (simp add: word_less_nat_alt)
    then have k: "unat ab div 64 < 2 ^ 31" by simp
    from eb_sdb_served [OF so assms(4), of ab "unat ab div 64" "unat ab mod 64" w] aligned_in_record [OF assms(5,7)] n k
    obtain v where "eb_sdb env s w ab (st_mem st) = Some v" by simp
    with True show ?thesis by (auto simp: eb_socket_read_def intro: exI [of _ "st_world st"])
  next
    case False
    show ?thesis
    proof (cases "\<exists>h \<in> set hs. in_range ab (ha_range env (st_mem st) h)")
      case True
      then obtain h where h: "h \<in> set hs" "in_range ab (ha_range env (st_mem st) h)" by blast
      let ?cb = "hc_at (st_mem st) (ha_callback (ha_at (st_mem st) h))"
      let ?a = "if bus_specific (env_device env (ha_device (ha_at (st_mem st) h))) AND SDB_WISHBONE_LITTLE_ENDIAN \<noteq> 0 then al else ab"
      show ?thesis
      proof (cases "hc_read ?cb")
        case None
        then show ?thesis
          using so(1) False eb_find_handler_owner [OF so(2) assms(3) h] bus_list_handler [OF assms(2) h(1)]
          by (auto simp: eb_socket_read_def intro: exI [of _ "st_world st"])
      next
        case (Some f)
        obtain r v x where "env_read env f (hc_data ?cb) ?a w st = Some (r, v, st\<lparr>st_world := x\<rparr>)"
          using assms(1) unfolding quiet_def by blast
        then show ?thesis
          using so(1) False eb_find_handler_owner [OF so(2) assms(3) h] bus_list_handler [OF assms(2) h(1)] Some
          by (auto simp: eb_socket_read_def)
      qed
    next
      case none: False
      then have "eb_find_handler env (st_mem st) ab (so_first_handler so) = Some EB_NULL"
        by (intro eb_find_handler_none [OF so(2)]) blast
      then show ?thesis using so(1) False by (auto simp: eb_socket_read_def intro: exI [of _ "st_world st"])
    qed
  qed
qed

interpretation pure: serving env port
  "\<lambda>st. st_mem st = m \<and> quiet env \<and> serves_only env m (sp_socket port) hs \<and> datagram_port env m port"
  for env port m hs
proof unfold_locales
  fix st :: "'a eb_state" and f and w :: eb_width_t and a ab al v e and n :: nat
  let ?I = "\<lambda>st. st_mem st = m \<and> quiet env \<and> serves_only env m (sp_socket port) hs \<and> datagram_port env m port"
  assume I: "?I st"
  show "port_ok (sp_widths port)" "link_of (st_mem st) (sp_link port) \<noteq> None"
    "\<exists>t ops. EB_TRANSPORT (st_mem st) (sp_transport port) = Some t \<and> tops env (tr_link_type t) = Some ops \<and> tops_mtu ops \<noteq> 0"
    using I by (simp_all add: datagram_port_def)
  show "?I (on_world f st)" using I by simp
  show "eb_memory_array_size (st_mem st) = eb_memory_array_size (st_mem st')" if "?I st'" for st' using I that by simp
  show "\<exists>st'. eb_socket_write_config env (sp_socket port) w a v st = Some st' \<and> ?I st'"
    using I write_config_idle [of st "sp_socket port" _ env w a v] by (fastforce simp: serves_only_def)
  show "\<exists>e' st'. eb_socket_write env (sp_socket port) w ab al v e st = Some (e', st') \<and> ?I st'"
    using I bus_write_total [of env st "sp_socket port" hs w ab al v e] by (fastforce simp: serves_only_def)
  assume "n \<in> {1, 2, 4, 8}" "w AND EB_DATAX = of_nat n" "n dvd unat ab"
  then show "\<exists>v e' st'. eb_socket_read env (sp_socket port) w ab al e st = Some (v, e', st') \<and> ?I st'"
    using I bus_read_total [of env st "sp_socket port" hs n w ab al e] by (fastforce simp: serves_only_def)
qed


text \<open>What a transport promises of \<^verbatim>\<open>poll\<close>.\<close>

definition poll_ok :: "'w eb_env \<Rightarrow> bool" where
  "poll_ok env \<longleftrightarrow> (\<forall>ops \<in> set (env_transports env). \<forall>t l n w.
     case tops_poll ops t l n w of (len, bytes, _) \<Rightarrow> length bytes \<le> n \<and> (0 < len \<longrightarrow> int (length bytes) = len))"

lemma poll_ok_poll:
  assumes "poll_ok env" "tops env t = Some ops" "tops_poll ops tr l n w = (len, bytes, w')"
  shows "length bytes \<le> n" "0 < len \<Longrightarrow> int (length bytes) = len"
proof -
  have "ops \<in> set (env_transports env)" using assms(2) by (auto simp: tops_def split: if_splits)
  from bspec [OF assms(1) [unfolded poll_ok_def] this] have
    "case tops_poll ops tr l n w of (len, bytes, _) \<Rightarrow> length bytes \<le> n \<and> (0 < len \<longrightarrow> int (length bytes) = len)"
    by (elim allE)
  with assms(3) show "length bytes \<le> n" "0 < len \<Longrightarrow> int (length bytes) = len" by simp_all
qed

text \<open>A message shorter than its header ends at once.\<close>

lemma slave_payload_short:
  assumes "len < record_alignment_of widths"
  shows "slave_payload env socketp transportp devicep linkp passive widths True buf len st =
    slave_kill env transportp devicep linkp passive st"
proof -
  define port where "port = \<lparr>sp_socket = socketp, sp_transport = transportp, sp_link = linkp, sp_widths = widths\<rparr>"
  define s where "s = \<lparr>sl_buf = buf, sl_rptr = record_alignment_of widths, sl_wptr = record_alignment_of widths, sl_eos = len,
        sl_error = 0, sl_cycle_end = 1, sl_cycle_open = False, sl_reply = False, sl_taken = eb_memory_array_size (st_mem st), sl_st = st\<rparr>"
  have "slave_loop env port s = Some (Go s)"
    unfolding slave_loop_def using assms by (subst loop.simps) (simp add: slave_loop_body_def s_def port_def)
  then have "slave_resume_body env port s = Some (Inr (Kill st))"
    using assms by (simp add: slave_resume_body_def slave_send_def) (simp add: s_def)
  then have "slave_resume env port s = Some (Kill st)"
    unfolding slave_resume_def by (subst loop.simps) simp
  then show ?thesis by (simp add: slave_payload_def s_def port_def)
qed

lemma payload_total:
  assumes "wire_ok env" "quiet env" "serves_only env (st_mem st) socketp hs" "port_ok widths"
    and "EB_TRANSPORT (st_mem st) transportp = Some t" "tops env (tr_link_type t) = Some ops" "tops_mtu ops \<noteq> 0"
    and "length buf = slave_buffer_size" "len \<le> slave_buffer_size"
  shows "\<exists>r \<in> {0, 1}. \<exists>st'. slave_payload env socketp transportp EB_NULL EB_NULL passive widths True buf len st = Some (r, st') \<and>
    st_mem st' = st_mem st"
proof (cases "record_alignment_of widths \<le> len")
  case False
  then show ?thesis by (simp add: slave_payload_short slave_kill_def)
next
  case True
  let ?port = "\<lparr>sp_socket = socketp, sp_transport = transportp, sp_link = EB_NULL, sp_widths = widths\<rparr>"
  let ?h = "take (record_alignment_of widths) buf" and ?p = "drop (record_alignment_of widths) (take len buf)"
  have "datagram_port env (st_mem st) ?port" using assms(4-7) by (simp add: datagram_port_def link_of_def)
  then have "(\<exists>st'. serve_message env ?port ?h ?p st = Some (Kill st') \<and> st_mem st' = st_mem st) \<or>
     (\<exists>v. serve_message env ?port ?h ?p st = Some (Go v) \<and> st_mem (sv_st v) = st_mem st)"
    using pure.message_total [of st "st_mem st" env ?port hs ?h ?p] assms(2,3) by auto
  then show ?thesis
    using slave_payload_serves [OF assms(1,8,9), where header = True and widths = widths and socketp = socketp and
        transportp = transportp and devicep = EB_NULL and linkp = EB_NULL and st = st] True
    by (auto simp: slave_kill_def)
qed

lemma probe_total:
  assumes "EB_SOCKET (st_mem st) socketp = Some so" "EB_TRANSPORT (st_mem st) transportp = Some t" "tops env (tr_link_type t) = Some ops"
  shows "\<exists>r \<in> {0, 1}. \<exists>st'. slave_probe env socketp transportp EB_NULL EB_NULL False buf st = Some (r, st') \<and> st_mem st' = st_mem st"
  using assms by (simp add: slave_probe_def do_send_def link_of_def slave_kill_def Let_def)

lemma probe_response_total:
  assumes "EB_SOCKET (st_mem st) socketp = Some so" "so_first_device so = EB_NULL"
  shows "slave_probe_response env socketp transportp EB_NULL EB_NULL passive buf st = Some (0, st)"
  using assms by (simp add: slave_probe_response_def slave_kill_def find_device_tag.simps)

text \<open>C5: no datagram can make a serving socket fault. For a socket with any virtual devices attached, no
  device of its own and no cycle in flight, whatever bytes the transport delivers (malformed headers, any
  flags, any select lines, any counts, any addresses, truncated records), \<^verbatim>\<open>eb_device_slave\<close> terminates
  with 0 or 1, every access it makes to the buffer, the SDB area and the heap is in bounds, and the
  heap is unchanged.\<close>

theorem slave_never_faults:
  assumes "wire_ok env" "poll_ok env" "quiet env" "serves_only env (st_mem st) socketp hs"
    and "EB_TRANSPORT (st_mem st) transportp = Some t" "tops env (tr_link_type t) = Some ops" "tops_mtu ops \<noteq> 0"
  shows "\<exists>r \<in> {0, 1}. \<exists>st'. eb_device_slave env socketp transportp EB_NULL st = Some (r, st') \<and> st_mem st' = st_mem st"
proof -
  obtain so where so: "EB_SOCKET (st_mem st) socketp = Some so" "so_first_device so = EB_NULL"
    using assms(4) by (auto simp: serves_only_def)
  obtain len bytes w where poll: "tops_poll ops t None slave_buffer_size (st_world st) = (len, bytes, w)" by (metis prod_cases3)
  define buf where "buf = put_bytes 0 bytes (map (env_junk env) [0..<slave_buffer_size])"
  define st1 where "st1 = st\<lparr>st_world := w\<rparr>"
  have b: "length bytes \<le> slave_buffer_size" "0 < len \<Longrightarrow> int (length bytes) = len" using poll_ok_poll [OF assms(2,6) poll] .
  then have store: "store_bytes (map (env_junk env) [0..<slave_buffer_size]) 0 bytes = Some buf"
    by (simp add: store_bytes_def buf_def)
  have lb: "length buf = slave_buffer_size" using b(1) by (simp add: buf_def)
  have st1: "st_mem st1 = st_mem st" by (simp add: st1_def)
  have zero: "\<exists>r \<in> {0, 1}. \<exists>st'. Some (0, st1) = Some (r, st') \<and> st_mem st' = st_mem st" by (simp add: st1)
  have "eb_device_slave env socketp transportp EB_NULL st =
     (if len = 0 then Some (0, st1) else if len < 2 then Some (0, st1)
      else if buf ! 0 \<noteq> 0x4E \<or> buf ! 1 \<noteq> 0x6F \<or> len < 4 then Some (0, st1)
      else if buf ! 2 AND EB_HEADER_PF \<noteq> 0 then
        if len \<noteq> 8 then Some (0, st1) else slave_probe env socketp transportp EB_NULL EB_NULL False buf st1
      else if buf ! 2 AND EB_HEADER_PR \<noteq> 0 then
        if len \<noteq> 8 then Some (0, st1) else slave_probe_response env socketp transportp EB_NULL EB_NULL False buf st1
      else if buf ! 2 AND 0xf0 \<noteq> 0x10 then Some (0, st1)
      else if \<not> eb_width_possible (eb_width_refine (buf ! 3 AND so_widths so)) then Some (0, st1)
      else slave_payload env socketp transportp EB_NULL EB_NULL False (eb_width_refine (buf ! 3 AND so_widths so)) True
             (buf[2 := buf ! 2 OR EB_HEADER_NR]) (nat len) st1)"
    using assms(5,6) so(1) poll store by (simp add: eb_device_slave_def Let_def slave_kill_def st1_def)
  moreover have "\<exists>r \<in> {0, 1}. \<exists>st'. slave_probe env socketp transportp EB_NULL EB_NULL False buf st1 = Some (r, st') \<and> st_mem st' = st_mem st1"
    by (rule probe_total) (use so assms(5,6) st1 in simp_all)
  moreover have "slave_probe_response env socketp transportp EB_NULL EB_NULL False buf st1 = Some (0, st1)"
    by (rule probe_response_total) (use so st1 in simp_all)
  moreover have "\<exists>r \<in> {0, 1}. \<exists>st'. slave_payload env socketp transportp EB_NULL EB_NULL False (eb_width_refine (buf ! 3 AND so_widths so)) True
             (buf[2 := buf ! 2 OR EB_HEADER_NR]) (nat len) st1 = Some (r, st') \<and> st_mem st' = st_mem st1"
    if "0 < len" "eb_width_possible (eb_width_refine (buf ! 3 AND so_widths so))"
    by (rule payload_total [OF assms(1,3) _ port_ok_refined [OF that(2)]]) (use assms st1 lb b that(1) in simp_all)
  ultimately show ?thesis unfolding st1 using zero by (simp only: split: if_split) force
qed


text \<open>A socket with one device behind a transport whose world is the datagram that waits to be read.\<close>

definition demo_udp :: "u8 list eb_transport_ops" where
  "demo_udp = \<lparr>tops_mtu = 1472, tops_open = (\<lambda>t _ w. (EB_OK, t, w)), tops_close = (\<lambda>_ w. w),
     tops_connect = (\<lambda>_ l _ _ w. (EB_OK, l, w)), tops_disconnect = (\<lambda>_ _ w. w), tops_fdes = (\<lambda>_ _ w. w),
     tops_accept = (\<lambda>_ l w. (0, l, w)), tops_poll = (\<lambda>_ _ n w. (int (length (take n w)), take n w, [])),
     tops_recv = (\<lambda>_ _ n w. (int (length (take n w)), take n w, [])), tops_send = (\<lambda>_ _ _ w. w),
     tops_send_buffer = (\<lambda>_ _ _ w. w)\<rparr>"

definition demo_wire :: "u8 list eb_env" where
  "demo_wire = \<lparr>env_transports = [demo_udp], env_junk = (\<lambda>_. 0), env_version = 1, env_date = 1,
     env_device = (\<lambda>_. demo_sdb_device), env_callback = (\<lambda>_ _ _ _ _ st. Some st),
     env_sdb_callback = (\<lambda>_ _ _ _ _ st. Some st), env_read = (\<lambda>_ _ _ _ st. Some (0, 0, st)),
     env_write = (\<lambda>_ _ _ _ _ st. Some (0, st))\<rparr>"

definition demo_serving :: eb_memory where
  "demo_serving = heap_of [Socket_item \<lparr>so_first_device = EB_NULL, so_first_handler = 129, so_first_response = EB_NULL,
       so_last_response = EB_NULL, so_aux = EB_NULL, so_widths = 0xff\<rparr>,
     Handler_address_item \<lparr>ha_device = 1, ha_callback = 130, ha_next = EB_NULL\<rparr>,
     Handler_callback_item \<lparr>hc_data = 5, hc_read = Some 0, hc_write = Some 0\<rparr>,
     Transport_item (zero_transport\<lparr>tr_link_type := 0\<rparr>)]"

definition demo_waiting :: "u8 list \<Rightarrow> u8 list eb_state" where
  "demo_waiting w = \<lparr>st_mem = demo_serving, st_user = (\<lambda>_. 0), st_status = (\<lambda>_. 0),
     st_find_address = (\<lambda>_. \<lparr>fa_address = 0, fa_output = [], fa_status = 0\<rparr>),
     st_find_identity = (\<lambda>_. \<lparr>fi_vendor_id = 0, fi_output = [], fi_device_id = 0, fi_size = 0,
       fi_fill = 0, fi_pending = 0, fi_status = 0\<rparr>), st_world = w\<rparr>"

lemma demo_serving_items:
  "EB_SOCKET demo_serving 128 = Some \<lparr>so_first_device = EB_NULL, so_first_handler = 129, so_first_response = EB_NULL,
       so_last_response = EB_NULL, so_aux = EB_NULL, so_widths = 0xff\<rparr>"
  "EB_HANDLER_ADDRESS demo_serving 129 = Some \<lparr>ha_device = 1, ha_callback = 130, ha_next = EB_NULL\<rparr>"
  "EB_HANDLER_CALLBACK demo_serving 130 = Some \<lparr>hc_data = 5, hc_read = Some 0, hc_write = Some 0\<rparr>"
  "EB_TRANSPORT demo_serving 131 = Some (zero_transport\<lparr>tr_link_type := 0\<rparr>)"
  by (simp_all add: demo_serving_def heap_of_def EB_SOCKET_def EB_HANDLER_ADDRESS_def
      EB_HANDLER_CALLBACK_def EB_TRANSPORT_def eb_item_def in_array_def)

lemma demo_serves_only: "serves_only demo_wire demo_serving 128 [129]"
proof -
  have "dyn_ok demo_serving" unfolding demo_serving_def by (rule heap_of_ok) auto
  moreover have "(129 :: eb_ptr) \<noteq> EB_NULL" by (simp add: EB_NULL_def)
  ultimately have "bus_list demo_serving 128 [129]"
    by (simp add: bus_list_def demo_serving_items ha_next_of_def ha_at_def)
  moreover have "bus_ok demo_wire (bus_of demo_serving [129])"
    by (simp add: bus_ok_def bus_of_def range_of_handler ha_range_def demo_wire_def demo_sdb_device_def)
  moreover have "names_ok demo_wire demo_serving [129]"
    by (simp add: names_ok_def demo_wire_def demo_sdb_device_def)
  ultimately show ?thesis by (simp add: serves_only_def demo_serving_items)
qed

theorem slave_never_faults_witness:
  "\<exists>r \<in> {0, 1}. \<exists>st'. eb_device_slave demo_wire 128 131 EB_NULL
      (demo_waiting [0x4E, 0x6F, 0x10, 0x44, 0xE8, 0x0F, 0, 1, 0, 0, 0x80, 0, 0, 1, 0, 0]) = Some (r, st') \<and> st_mem st' = demo_serving"
proof -
  let ?st = "demo_waiting [0x4E, 0x6F, 0x10, 0x44, 0xE8, 0x0F, 0, 1, 0, 0, 0x80, 0, 0, 1, 0, 0]"
  have w: "wire_ok demo_wire" "poll_ok demo_wire"
    by (auto simp: wire_ok_def poll_ok_def demo_wire_def demo_udp_def)
  have "\<exists>x. st = st\<lparr>st_world := x\<rparr>" for st :: "u8 list eb_state" by (rule exI [of _ "st_world st"]) simp
  then have q: "quiet demo_wire" by (auto simp: quiet_def demo_wire_def)
  have s: "serves_only demo_wire (st_mem ?st) 128 [129]" using demo_serves_only by (simp add: demo_waiting_def)
  have t: "EB_TRANSPORT (st_mem ?st) 131 = Some (zero_transport\<lparr>tr_link_type := 0\<rparr>)"
    by (simp add: demo_waiting_def demo_serving_items)
  have o: "tops demo_wire (tr_link_type (zero_transport\<lparr>tr_link_type := 0\<rparr>)) = Some demo_udp" "tops_mtu demo_udp \<noteq> 0"
    by (simp_all add: tops_def demo_wire_def demo_udp_def)
  from slave_never_faults [OF w q s t o] show ?thesis by (simp add: demo_waiting_def)
qed

end
