(* ===== verification/Eb_Master.thy ===== *)
theory Eb_Master
  imports Eb_Slave
begin

text \<open>
  The master side of the wire protocol (\<^verbatim>\<open>api/format/master.c\<close>): checking the operations of the queued
  cycles, packing them into records, sending the packets and queueing the expected responses.
\<close>

section \<open>Checking a cycle\<close>

definition address_mask_of :: "eb_width_t \<Rightarrow> eb_address_t" where
  "address_mask_of width = drop_bit (8 * (8 - unat (drop_bit 4 width))) (NOT 0)"

text \<open>The loop body of the check: the reason to refuse the operation, and the format it ends up with.\<close>

definition master_check_op :: "u8 \<Rightarrow> eb_address_t \<Rightarrow> eb_operation \<Rightarrow> eb_status_t \<times> eb_format_t" where
  "master_check_op data address_mask operation =
     (let format = op_format operation;
          endian = format AND EB_ENDIAN_MASK;
          size = eb_width_refine (format AND (data - 1 + data));
          endian = (if size = data then 0 else endian)
      in if size = 0 then (EB_WIDTH, format)
         else if endian = EB_BIG_ENDIAN OR EB_LITTLE_ENDIAN \<or> (size \<noteq> data \<and> endian = 0) then (EB_ENDIAN, format)
         else if op_flags operation AND EB_OP_CFG_SPACE = 0 \<and>
                 op_address operation AND (address_mask - (ucast size - 1)) \<noteq> op_address operation
              then (EB_ADDRESS, endian OR size)
         else if op_flags operation AND EB_OP_CFG_SPACE \<noteq> 0 \<and>
                 op_address operation AND (0xFFFF - (ucast size - 1)) \<noteq> op_address operation
              then (EB_ADDRESS, endian OR size)
         else if op_flags operation AND EB_OP_MASK = EB_OP_WRITE \<and>
                 op_un_value operation AND data_mask size \<noteq> op_un_value operation
              then (EB_WIDTH, endian OR size)
         else (EB_OK, endian OR size))"

partial_function (option) master_validate ::
    "u8 \<Rightarrow> eb_address_t \<Rightarrow> eb_ptr \<Rightarrow> eb_memory \<Rightarrow> (eb_ptr \<times> eb_status_t \<times> eb_memory) option" where
  "master_validate data address_mask operationp m =
     (if operationp = EB_NULL then Some (operationp, EB_OK, m)
      else do {
        operation \<leftarrow> EB_OPERATION m operationp;
        let (reason, format) = master_check_op data address_mask operation;
        m \<leftarrow> set_operation m operationp (\<lambda>op. op\<lparr>op_format := format\<rparr>);
        if reason \<noteq> EB_OK then Some (operationp, reason, m)
        else master_validate data address_mask (op_next operation) m
      })"

section \<open>Packing a record\<close>

text \<open>How many operations go into the next record, and how they are described.\<close>

record pack =
  pk_scanp :: eb_ptr
  pk_ops :: u32
  pk_wcount :: nat
  pk_fifo :: bool
  pk_wcfg :: u8
  pk_rcount :: nat
  pk_rcfg :: u8
  pk_format :: u8
  pk_low_addr :: u8

definition count_op :: "u8 \<Rightarrow> u32 \<Rightarrow> u32" where
  "count_op cfg ops = (if cfg = 0 then ops + 1 else ops)"

partial_function (option) scan_fifo ::
    "eb_memory \<Rightarrow> u8 \<Rightarrow> u8 \<Rightarrow> u32 \<Rightarrow> eb_address_t \<Rightarrow> eb_ptr \<Rightarrow> nat \<Rightarrow> u32 \<Rightarrow> (eb_ptr \<times> nat \<times> u32) option" where
  "scan_fifo m wcfg format maxops bwa scanp wcount ops =
     (if scanp = EB_NULL then Some (scanp, wcount, ops)
      else do {
        scan \<leftarrow> EB_OPERATION m scanp;
        if op_address scan \<noteq> bwa \<or> op_flags scan AND EB_OP_MASK \<noteq> EB_OP_WRITE \<or>
           op_flags scan AND EB_OP_CFG_SPACE \<noteq> wcfg \<or> op_format scan \<noteq> format \<or> wcount \<ge> 255 \<or> ops \<ge> maxops
        then Some (scanp, wcount, ops)
        else scan_fifo m wcfg format maxops bwa (op_next scan) (wcount + 1) (count_op wcfg ops)
      })"

partial_function (option) scan_sequence ::
    "eb_memory \<Rightarrow> u8 \<Rightarrow> u8 \<Rightarrow> u32 \<Rightarrow> eb_address_t \<Rightarrow> eb_address_t \<Rightarrow> eb_ptr \<Rightarrow> nat \<Rightarrow> u32 \<Rightarrow> (eb_ptr \<times> nat \<times> u32) option" where
  "scan_sequence m wcfg format maxops stride bwa scanp wcount ops =
     (if scanp = EB_NULL then Some (scanp, wcount, ops)
      else do {
        scan \<leftarrow> EB_OPERATION m scanp;
        let bwa = bwa + stride;
        if op_address scan \<noteq> bwa \<or> op_flags scan AND EB_OP_MASK \<noteq> EB_OP_WRITE \<or>
           op_flags scan AND EB_OP_CFG_SPACE \<noteq> wcfg \<or> op_format scan \<noteq> format \<or> wcount \<ge> 255 \<or> ops \<ge> maxops
        then Some (scanp, wcount, ops)
        else scan_sequence m wcfg format maxops stride bwa (op_next scan) (wcount + 1) (count_op wcfg ops)
      })"

partial_function (option) scan_reads ::
    "eb_memory \<Rightarrow> u8 \<Rightarrow> u8 \<Rightarrow> u8 \<Rightarrow> u8 \<Rightarrow> u32 \<Rightarrow> eb_ptr \<Rightarrow> nat \<Rightarrow> u32 \<Rightarrow> (eb_ptr \<times> nat \<times> u32) option" where
  "scan_reads m data rcfg format low_addr maxops scanp rcount ops =
     (if scanp = EB_NULL then Some (scanp, rcount, ops)
      else do {
        scan \<leftarrow> EB_OPERATION m scanp;
        if op_flags scan AND EB_OP_MASK = EB_OP_WRITE \<or> op_flags scan AND EB_OP_CFG_SPACE \<noteq> rcfg \<or>
           op_format scan \<noteq> format \<or> op_address scan AND (ucast data - 1) \<noteq> ucast low_addr \<or> rcount \<ge> 255 \<or> ops \<ge> maxops
        then Some (scanp, rcount, ops)
        else scan_reads m data rcfg format low_addr maxops (op_next scan) (rcount + 1) (count_op rcfg ops)
      })"

text \<open>The writes of the next record.\<close>

definition plan_writes :: "eb_memory \<Rightarrow> u8 \<Rightarrow> u32 \<Rightarrow> eb_ptr \<Rightarrow> u32 \<Rightarrow> pack option" where
  "plan_writes m data maxops scanp ops = do {
     let none = \<lparr>pk_scanp = scanp, pk_ops = ops, pk_wcount = 0, pk_fifo = False, pk_wcfg = 0, pk_rcount = 0,
                 pk_rcfg = 0, pk_format = EB_DATAX, pk_low_addr = 0\<rparr>;
     if ops \<ge> maxops \<or> scanp = EB_NULL then Some none
     else do {
       scan \<leftarrow> EB_OPERATION m scanp;
       if op_flags scan AND EB_OP_MASK \<noteq> EB_OP_WRITE then Some none
       else do {
         let wcfg = op_flags scan AND EB_OP_CFG_SPACE;
         let bwa = op_address scan;
         let format = op_format scan;
         let ops = count_op wcfg ops;
         let single = none\<lparr>pk_scanp := op_next scan, pk_ops := ops, pk_wcount := 1, pk_wcfg := wcfg,
                           pk_format := format, pk_low_addr := ucast (bwa AND (ucast data - 1))\<rparr>;
         if ops \<ge> maxops \<or> op_next scan = EB_NULL then Some single
         else do {
           second \<leftarrow> EB_OPERATION m (op_next scan);
           if op_flags second AND EB_OP_MASK \<noteq> EB_OP_WRITE \<or> op_flags second AND EB_OP_CFG_SPACE \<noteq> wcfg \<or>
              op_format second \<noteq> format
           then Some single
           else if op_address second = bwa then do {
             (scanp, wcount, ops) \<leftarrow> scan_fifo m wcfg format maxops bwa (op_next second) 2 (count_op wcfg ops);
             Some (single\<lparr>pk_scanp := scanp, pk_ops := ops, pk_wcount := wcount, pk_fifo := True\<rparr>)
           } else if op_address second = bwa + ucast data then do {
             (scanp, wcount, ops) \<leftarrow> scan_sequence m wcfg format maxops (ucast data) (bwa + ucast data) (op_next second) 2 (count_op wcfg ops);
             Some (single\<lparr>pk_scanp := scanp, pk_ops := ops, pk_wcount := wcount\<rparr>)
           } else Some single
         }
       }
     }
   }"

text \<open>The reads that follow them in the same record.\<close>

definition plan_reads :: "eb_memory \<Rightarrow> u8 \<Rightarrow> u32 \<Rightarrow> pack \<Rightarrow> pack option" where
  "plan_reads m data maxops pk =
     (if pk_ops pk \<ge> maxops \<or> pk_scanp pk = EB_NULL then Some pk
      else do {
        scan \<leftarrow> EB_OPERATION m (pk_scanp pk);
        if op_flags scan AND EB_OP_MASK = EB_OP_WRITE \<or>
           (pk_format pk \<noteq> EB_DATAX \<and> (op_format scan \<noteq> pk_format pk \<or>
              op_address scan AND (ucast data - 1) \<noteq> ucast (pk_low_addr pk)))
        then Some pk
        else do {
          let rcfg = op_flags scan AND EB_OP_CFG_SPACE;
          let low_addr = ucast (op_address scan AND (ucast data - 1));
          (scanp, rcount, ops) \<leftarrow> scan_reads m data rcfg (op_format scan) low_addr maxops (op_next scan) 1
             (count_op rcfg (pk_ops pk));
          Some (pk\<lparr>pk_scanp := scanp, pk_ops := ops, pk_rcount := rcount, pk_rcfg := rcfg,
                   pk_format := op_format scan, pk_low_addr := low_addr\<rparr>)
        }
      })"

text \<open>Whether the record reads the error register back instead.\<close>

definition plan_readback :: "u8 \<Rightarrow> bool \<Rightarrow> u32 \<Rightarrow> pack \<Rightarrow> bool" where
  "plan_readback data needs_check maxops pk \<longleftrightarrow>
     pk_rcount pk = 0 \<and> (pk_format pk = EB_DATAX \<or> pk_format pk = data) \<and>
     (pk_ops pk \<ge> maxops \<or> (pk_scanp pk = EB_NULL \<and> needs_check \<and> pk_ops pk > 0))"

section \<open>Writing a record\<close>

definition EB_mWRITE :: "u8 list \<Rightarrow> nat \<Rightarrow> eb_data_t \<Rightarrow> nat \<Rightarrow> u8 list option" where
  "EB_mWRITE buf wptr val alignment =
     (if alignment \<in> {2, 4, 8} then
        if wptr + alignment \<le> length buf then Some (put_bytes wptr (be_bytes alignment val) buf) else None
      else Some buf)"

text \<open>The loops that fill in the write values (\<open>Some shift\<close>) and the read addresses (\<open>None\<close>).\<close>

fun emit_writes ::
    "eb_memory \<Rightarrow> nat \<Rightarrow> u8 \<Rightarrow> nat \<Rightarrow> eb_ptr \<Rightarrow> u8 list \<Rightarrow> nat \<Rightarrow> (eb_ptr \<times> u8 list \<times> nat) option" where
  "emit_writes m alignment op_shift 0 operationp buf wptr = Some (operationp, buf, wptr)"
| "emit_writes m alignment op_shift (Suc wcount) operationp buf wptr = do {
     operation \<leftarrow> EB_OPERATION m operationp;
     buf \<leftarrow> EB_mWRITE buf wptr (push_bit (unat op_shift * 8) (op_un_value operation)) alignment;
     emit_writes m alignment op_shift wcount (op_next operation) buf (wptr + alignment)
   }"

fun emit_reads ::
    "eb_memory \<Rightarrow> nat \<Rightarrow> nat \<Rightarrow> eb_ptr \<Rightarrow> u8 list \<Rightarrow> nat \<Rightarrow> (eb_ptr \<times> u8 list \<times> nat) option" where
  "emit_reads m alignment 0 operationp buf wptr = Some (operationp, buf, wptr)"
| "emit_reads m alignment (Suc rcount) operationp buf wptr = do {
     operation \<leftarrow> EB_OPERATION m operationp;
     buf \<leftarrow> EB_mWRITE buf wptr (op_address operation) alignment;
     emit_reads m alignment rcount (op_next operation) buf (wptr + alignment)
   }"

definition op_shift_of :: "u8 \<Rightarrow> u8 \<Rightarrow> u8 \<Rightarrow> u8" where
  "op_shift_of data format low_addr =
     (if format AND EB_ENDIAN_MASK = EB_BIG_ENDIAN then data - (low_addr + (format AND EB_DATAX)) else low_addr)"

definition record_flags :: "pack \<Rightarrow> u8 \<Rightarrow> bool \<Rightarrow> u8" where
  "record_flags pk rcfg cycle_end =
     EB_RECORD_BCA OR EB_RECORD_RFF OR (if rcfg \<noteq> 0 then EB_RECORD_RCA else 0) OR
     (if pk_wcfg pk \<noteq> 0 then EB_RECORD_WCA else 0) OR (if pk_fifo pk then EB_RECORD_WFF else 0) OR
     (if cycle_end then EB_RECORD_CYC else 0)"

definition record_select :: "u8 \<Rightarrow> u8 \<Rightarrow> u8" where
  "record_select sz op_shift = push_bit (unat op_shift) (drop_bit (8 - unat sz) 0xFF)"

text \<open>The record described by \<open>pk\<close>, of the operations from \<open>operationp\<close> on; \<open>rb\<close> is the read-back.\<close>

definition emit_record ::
    "eb_memory \<Rightarrow> eb_width_t \<Rightarrow> u16 \<Rightarrow> pack \<Rightarrow> bool \<Rightarrow> bool \<Rightarrow> eb_ptr \<Rightarrow> u8 list \<Rightarrow> nat \<Rightarrow> (eb_ptr \<times> u8 list \<times> nat) option" where
  "emit_record m width rba pk rb cycle_end operationp buf wptr = do {
     let data = width AND EB_DATAX;
     let alignment = alignment_of width;
     let format = (if rb then data else pk_format pk);
     let rcfg = (if rb then 1 else pk_rcfg pk);
     let rxcount = (if rb then 1 else pk_rcount pk);
     let op_shift = op_shift_of data format (pk_low_addr pk);
     buf \<leftarrow> store_bytes buf wptr (replicate (record_alignment_of width) 0);
     buf \<leftarrow> store_bytes buf wptr [record_flags pk rcfg cycle_end, record_select (format AND EB_DATAX) op_shift,
        of_nat (pk_wcount pk), of_nat rxcount];
     let wptr = wptr + record_alignment_of width;
     (operationp, buf, wptr) \<leftarrow> (if pk_wcount pk > 0 then do {
          operation \<leftarrow> EB_OPERATION m operationp;
          buf \<leftarrow> EB_mWRITE buf wptr (op_address operation) alignment;
          emit_writes m alignment op_shift (pk_wcount pk) operationp buf (wptr + alignment)
        } else Some (operationp, buf, wptr));
     (buf, wptr) \<leftarrow> (if rb then do {
          buf \<leftarrow> EB_mWRITE buf wptr (ucast (rba OR 1)) alignment;
          buf \<leftarrow> EB_mWRITE buf (wptr + alignment) (8 - ucast data) alignment;
          Some (buf, wptr + 2 * alignment)
        } else Some (buf, wptr));
     if pk_rcount pk > 0 then do {
       buf \<leftarrow> EB_mWRITE buf wptr (ucast rba) alignment;
       emit_reads m alignment (pk_rcount pk) operationp buf (wptr + alignment)
     } else Some (operationp, buf, wptr)
   }"

section \<open>Formatting a cycle\<close>

record 'w master =
  ma_buf :: "u8 list"
  ma_wptr :: nat
  ma_cptr :: nat
  ma_has_reads :: bool
  ma_st :: "'w eb_state"

record 'w packing =
  pa_master :: "'w master"
  pa_operationp :: eb_ptr
  pa_ops :: u32
  pa_readback :: bool

text \<open>What stays fixed while a device is flushed.\<close>

record 'w master_port =
  mp_device :: eb_ptr
  mp_width :: eb_width_t
  mp_tops :: "'w eb_transport_ops"

abbreviation (input) mp_data :: "'w master_port \<Rightarrow> u8" where "mp_data port \<equiv> mp_width port AND EB_DATAX"

definition master_start :: "'w master_port \<Rightarrow> nat" where
  "master_start port = (if tops_mtu (mp_tops port) \<noteq> 0 then record_alignment_of (mp_width port) else 0)"

text \<open>\<^verbatim>\<open>eob\<close>: the end of the packet\<close>

definition master_eob :: "'w master_port \<Rightarrow> nat" where
  "master_eob port = (if tops_mtu (mp_tops port) \<noteq> 0 then nat (tops_mtu (mp_tops port)) else slave_buffer_size)"

text \<open>Sending the first bytes of the buffer to the device.\<close>

definition master_send :: "'w master_port \<Rightarrow> u8 list \<Rightarrow> 'w eb_state \<Rightarrow> 'w eb_state option" where
  "master_send port bytes st = do {
     device \<leftarrow> EB_DEVICE (st_mem st) (mp_device port);
     transport \<leftarrow> EB_TRANSPORT (st_mem st) (dev_transport device);
     link \<leftarrow> EB_LINK (st_mem st) (dev_link device);
     Some (on_world (tops_send (mp_tops port) transport (Some link) bytes) st)
   }"

text \<open>Making room: a stream sends what it has; a packet transport sends the completed cycles and keeps the
  records of the current one. \<open>None\<close> inside: the cycle does not fit into one packet.\<close>

definition master_room :: "'w master_port \<Rightarrow> nat \<Rightarrow> 'w master \<Rightarrow> (bool \<times> 'w master) option" where
  "master_room port len ma =
     (if ma_wptr ma + len \<le> master_eob port then Some (True, ma)
      else if tops_mtu (mp_tops port) = 0 then do {
        st \<leftarrow> master_send port (take (ma_wptr ma) (ma_buf ma)) (ma_st ma);
        Some (True, ma\<lparr>ma_wptr := 0, ma_st := st\<rparr>)
      } else do {
        ma \<leftarrow> (if ma_cptr ma \<noteq> master_start port then do {
            let buf = (if \<not> ma_has_reads ma then (ma_buf ma)[2 := ma_buf ma ! 2 OR EB_HEADER_NR] else ma_buf ma);
            st \<leftarrow> master_send port (take (ma_cptr ma) buf) (ma_st ma);
            let keep = ma_wptr ma - ma_cptr ma;
            Some (ma\<lparr>ma_buf := put_bytes (master_start port) (take keep (drop (ma_cptr ma) buf)) buf,
                     ma_cptr := master_start port, ma_wptr := master_start port + keep,
                     ma_has_reads := False, ma_st := st\<rparr>)
          } else Some ma);
        Some (ma_wptr ma + len \<le> master_eob port, ma)
      })"

text \<open>One pass of the \<^verbatim>\<open>while (!cycle_end)\<close> loop. The loop is left at the end of the cycle (\<open>Inr (True, _)\<close>)
  or after the cycle was refused for not fitting a packet (\<open>Inr (False, _)\<close>).\<close>

definition master_pack_body ::
    "'w eb_env \<Rightarrow> 'w master_port \<Rightarrow> bool \<Rightarrow> u32 \<Rightarrow> u16 \<Rightarrow> eb_ptr \<Rightarrow> eb_ptr \<Rightarrow> 'w packing \<Rightarrow>
     ('w packing + bool \<times> 'w packing) option" where
  "master_pack_body env port needs_check maxops rba cyclep responsep pa = do {
     let width = mp_width port;
     let m = st_mem (ma_st (pa_master pa));
     pk \<leftarrow> plan_writes m (mp_data port) maxops (pa_operationp pa) (pa_ops pa);
     pk \<leftarrow> plan_reads m (mp_data port) maxops pk;
     let rb = plan_readback (mp_data port) needs_check maxops pk;
     let rxcount = (if rb then 1 else pk_rcount pk);
     let tot = (if pk_wcount pk > 0 then 1 else 0) + pk_wcount pk + (if rxcount > 0 then 1 else 0) + rxcount;
     (fits, ma) \<leftarrow> master_room port (record_alignment_of width + tot * alignment_of width) (pa_master pa);
     if \<not> fits then do {
       st \<leftarrow> finish_cycle env cyclep (pa_operationp pa) EB_OVERFLOW (ma_st ma);
       st \<leftarrow> on_mem (eb_free_response responsep) st;
       Some (Inr (False, pa\<lparr>pa_master := ma\<lparr>ma_wptr := master_start port, ma_st := st\<rparr>\<rparr>))
     } else do {
       let cycle_end = (pk_scanp pk = EB_NULL \<and> (\<not> needs_check \<or> pk_ops pk = 0 \<or> rb));
       (operationp, buf, wptr) \<leftarrow> emit_record (st_mem (ma_st ma)) width rba pk rb cycle_end (pa_operationp pa)
          (ma_buf ma) (ma_wptr ma);
       let pa = \<lparr>pa_master = ma\<lparr>ma_buf := buf, ma_wptr := wptr, ma_has_reads := ma_has_reads ma \<or> rxcount > 0\<rparr>,
                 pa_operationp = operationp, pa_ops = (if rb then 0 else pk_ops pk),
                 pa_readback = (pa_readback pa \<or> rb \<or> pk_rcount pk > 0)\<rparr>;
       Some (if cycle_end then Inr (True, pa) else Inl pa)
     }
   }"

definition master_pack ::
    "'w eb_env \<Rightarrow> 'w master_port \<Rightarrow> bool \<Rightarrow> u32 \<Rightarrow> u16 \<Rightarrow> eb_ptr \<Rightarrow> eb_ptr \<Rightarrow> 'w packing \<Rightarrow> (bool \<times> 'w packing) option" where
  "master_pack env port needs_check maxops rba cyclep responsep =
     loop (master_pack_body env port needs_check maxops rba cyclep responsep)"

text \<open>After a formatted cycle: report it now, or queue the response that will.\<close>

definition master_finish ::
    "'w eb_env \<Rightarrow> eb_ptr \<Rightarrow> bool \<Rightarrow> bool \<Rightarrow> eb_ptr \<Rightarrow> eb_ptr \<Rightarrow> 'w eb_state \<Rightarrow> 'w eb_state option" where
  "master_finish env socketp needs_check readback cyclep responsep st = do {
     cycle \<leftarrow> EB_CYCLE (st_mem st) cyclep;
     if \<not> readback then do {
       st \<leftarrow> finish_cycle env cyclep (cy_un_ops cycle) EB_OK st;
       on_mem (eb_free_response responsep) st
     } else do {
       socket \<leftarrow> EB_SOCKET (st_mem st) socketp;
       aux \<leftarrow> EB_SOCKET_AUX (st_mem st) (so_aux socket);
       write_cursor \<leftarrow> eb_find_read (st_mem st) (cy_un_ops cycle);
       status_cursor \<leftarrow> (if needs_check then eb_find_bus (st_mem st) (cy_un_ops cycle) else Some EB_NULL);
       st \<leftarrow> on_mem (\<lambda>m. set_response m responsep (\<lambda>r. r\<lparr>resp_deadline := ucast (aux_time_cache aux + 5),
          resp_cycle := cyclep, resp_write_cursor := write_cursor, resp_status_cursor := status_cursor,
          resp_address := aux_rba aux, resp_next := so_last_response socket\<rparr>)) st;
       st \<leftarrow> on_mem (\<lambda>m. set_socket_aux m (so_aux socket) (\<lambda>a. a\<lparr>aux_rba := 0x8000 OR (aux_rba a + 2)\<rparr>)) st;
       on_mem (\<lambda>m. set_socket m socketp (\<lambda>s. s\<lparr>so_last_response := responsep\<rparr>)) st
     }
   }"

text \<open>A cycle that is reported without its operations.\<close>

definition report_cycle :: "'w eb_env \<Rightarrow> eb_ptr \<Rightarrow> eb_status_t \<Rightarrow> 'w eb_state \<Rightarrow> 'w eb_state option" where
  "report_cycle env cyclep status st = do {
     cycle \<leftarrow> EB_CYCLE (st_mem st) cyclep;
     st \<leftarrow> run_callback env (cy_callback cycle) (cy_user_data cycle) (cy_un_link cycle) EB_NULL status st;
     on_mem (eb_free_cycle cyclep) st
   }"

text \<open>One cycle of the queue.\<close>

definition master_cycle :: "'w eb_env \<Rightarrow> 'w master_port \<Rightarrow> eb_ptr \<Rightarrow> 'w master \<Rightarrow> 'w master option" where
  "master_cycle env port cyclep ma = do {
     st \<leftarrow> on_mem (\<lambda>m. set_cycle_next m cyclep (mp_device port)) (ma_st ma);
     cycle \<leftarrow> EB_CYCLE (st_mem st) cyclep;
     if cy_un_ops cycle = cyclep then do {
       st \<leftarrow> report_cycle env cyclep EB_OOM st; Some (ma\<lparr>ma_st := st\<rparr>)
     } else if cy_un_ops cycle = EB_NULL then do {
       st \<leftarrow> report_cycle env cyclep EB_OK st; Some (ma\<lparr>ma_st := st\<rparr>)
     } else do {
       (operationp, reason, m) \<leftarrow> master_validate (mp_data port) (address_mask_of (mp_width port)) (cy_un_ops cycle) (st_mem st);
       let st = st\<lparr>st_mem := m\<rparr>;
       if operationp \<noteq> EB_NULL then do {
         st \<leftarrow> finish_cycle env cyclep operationp reason st; Some (ma\<lparr>ma_st := st\<rparr>)
       } else do {
         (responsep, st) \<leftarrow> alloc_mem eb_new_response st;
         if responsep = EB_NULL then do {
           st \<leftarrow> finish_cycle env cyclep EB_NULL EB_OOM st; Some (ma\<lparr>ma_st := st\<rparr>)
         } else do {
           device \<leftarrow> EB_DEVICE (st_mem st) (mp_device port);
           socket \<leftarrow> EB_SOCKET (st_mem st) (dev_socket device);
           aux \<leftarrow> EB_SOCKET_AUX (st_mem st) (so_aux socket);
           operation \<leftarrow> EB_OPERATION (st_mem st) (cy_un_ops cycle);
           let needs_check = (op_flags operation AND EB_OP_CHECKED \<noteq> 0);
           let maxops = (if needs_check then ucast (mp_data port) * 8 else -1);
           (complete, pa) \<leftarrow> master_pack env port needs_check maxops (aux_rba aux) cyclep responsep
              \<lparr>pa_master = ma\<lparr>ma_st := st\<rparr>, pa_operationp = cy_un_ops cycle, pa_ops = 0, pa_readback = False\<rparr>;
           let ma = pa_master pa;
           if complete then do {
             st \<leftarrow> master_finish env (dev_socket device) needs_check (pa_readback pa) cyclep responsep (ma_st ma);
             Some (ma\<lparr>ma_cptr := ma_wptr ma, ma_st := st\<rparr>)
           } else Some ma
         }
       }
     }
   }"

partial_function (option) master_cycles :: "'w eb_env \<Rightarrow> 'w master_port \<Rightarrow> eb_ptr \<Rightarrow> 'w master \<Rightarrow> 'w master option" where
  "master_cycles env port cyclep ma =
     (if cyclep = EB_NULL then Some ma
      else do {
        nextp \<leftarrow> cycle_next_of (st_mem (ma_st ma)) cyclep;
        ma \<leftarrow> master_cycle env port cyclep ma;
        master_cycles env port nextp ma
      })"

definition master_header :: "'w eb_env \<Rightarrow> 'w master_port \<Rightarrow> u8 list" where
  "master_header env port =
     (let junk = map (env_junk env) [0..<slave_buffer_size]
      in if tops_mtu (mp_tops port) \<noteq> 0
         then put_bytes 0 ([0x4E, 0x6F, 0x10, mp_width port] @ replicate (record_alignment_of (mp_width port) - 4) 0) junk
         else junk)"

definition eb_device_flush :: "'w eb_env \<Rightarrow> eb_ptr \<Rightarrow> 'w eb_state \<Rightarrow> (eb_status_t \<times> 'w eb_state) option" where
  "eb_device_flush env devicep st = do {
     device \<leftarrow> EB_DEVICE (st_mem st) devicep;
     transport \<leftarrow> EB_TRANSPORT (st_mem st) (dev_transport device);
     if dev_link device = EB_NULL then Some (EB_FAIL, st)
     else do {
       ops \<leftarrow> tops env (tr_link_type transport);
       link \<leftarrow> EB_LINK (st_mem st) (dev_link device);
       let st = on_world (tops_send_buffer ops transport (Some link) True) st;
       let port = \<lparr>mp_device = devicep, mp_width = dev_widths device, mp_tops = ops\<rparr>;
       (prevp, st) \<leftarrow> alloc_mem (\<lambda>m. reverse_cycles m (dev_un_link device) EB_NULL) st;
       ma \<leftarrow> master_cycles env port prevp \<lparr>ma_buf = master_header env port, ma_wptr = master_start port,
          ma_cptr = master_start port, ma_has_reads = False, ma_st = st\<rparr>;
       st \<leftarrow> (if ma_wptr ma \<noteq> master_start port then
           let buf = (if tops_mtu ops \<noteq> 0 \<and> \<not> ma_has_reads ma then (ma_buf ma)[2 := ma_buf ma ! 2 OR EB_HEADER_NR]
                      else ma_buf ma)
           in master_send port (take (ma_wptr ma) buf) (ma_st ma)
         else Some (ma_st ma));
       device \<leftarrow> EB_DEVICE (st_mem st) devicep;
       transport \<leftarrow> EB_TRANSPORT (st_mem st) (dev_transport device);
       link \<leftarrow> EB_LINK (st_mem st) (dev_link device);
       let st = on_world (tops_send_buffer ops transport (Some link) False) st;
       st \<leftarrow> on_mem (\<lambda>m. set_device m devicep (\<lambda>d. d\<lparr>dev_un_link := EB_NULL\<rparr>)) st;
       Some (EB_OK, st)
     }
   }"

end
