(* ===== verification/Eb_Check.thy ===== *)
theory Eb_Check
  imports Eb_Master
begin

text \<open>
  The polling loop and everything that waits for it: \<^verbatim>\<open>eb_socket_check\<close> and \<^verbatim>\<open>eb_socket_open\<close>
  (\<^verbatim>\<open>api/glue/socket.c\<close>), \<^verbatim>\<open>eb_socket_run\<close> (\<^verbatim>\<open>api/transport/run.c\<close>), \<^verbatim>\<open>eb_device_open\<close> and the single accesses
  (\<^verbatim>\<open>api/glue/device.c\<close>), closing a cycle (\<^verbatim>\<open>api/glue/cycle.c\<close>) and the blocking searches (\<^verbatim>\<open>api/glue/sdb.c\<close>).
\<close>

section \<open>eb\_socket\_check\<close>

text \<open>Step 1: cycles whose response is overdue are reported with \<^verbatim>\<open>EB_TIMEOUT\<close>.\<close>

definition expire_body :: "'w eb_env \<Rightarrow> eb_ptr \<Rightarrow> u32 \<Rightarrow> 'w eb_state \<Rightarrow> ('w eb_state + 'w eb_state) option" where
  "expire_body env socketp now st = do {
     socket \<leftarrow> EB_SOCKET (st_mem st) socketp;
     if so_first_response socket = EB_NULL then Some (Inr st)
     else do {
       (deadline, st) \<leftarrow> alloc_mem (eb_socket_timeout socketp) st;
       if \<not> deadline \<le> now then Some (Inr st)
       else do {
         socket \<leftarrow> EB_SOCKET (st_mem st) socketp;
         let responsep = so_first_response socket;
         response \<leftarrow> EB_RESPONSE (st_mem st) responsep;
         let cyclep = resp_cycle response;
         cycle \<leftarrow> EB_CYCLE (st_mem st) cyclep;
         st \<leftarrow> on_mem (\<lambda>m. set_socket m socketp (\<lambda>s. s\<lparr>so_first_response := resp_next response\<rparr>)) st;
         st \<leftarrow> finish_cycle env cyclep (cy_un_ops cycle) EB_TIMEOUT st;
         st \<leftarrow> on_mem (eb_free_response responsep) st;
         Some (Inl st)
       }
     }
   }"

text \<open>Step 2: inbound connections, top-level messages, and the devices.\<close>

definition accept_body ::
    "'w eb_env \<Rightarrow> eb_ptr \<Rightarrow> eb_ptr \<Rightarrow> eb_ptr \<times> 'w eb_state \<Rightarrow> ((eb_ptr \<times> 'w eb_state) + (eb_ptr \<times> 'w eb_state)) option" where
  "accept_body env socketp transportp = (\<lambda>(new_linkp, st).
     if new_linkp = EB_NULL then Some (Inr (new_linkp, st))
     else do {
       transport \<leftarrow> EB_TRANSPORT (st_mem st) transportp;
       link \<leftarrow> EB_LINK (st_mem st) new_linkp;
       ops \<leftarrow> tops env (tr_link_type transport);
       let (result, link, w) = tops_accept ops transport link (st_world st);
       let st = st\<lparr>st_world := w\<rparr>;
       st \<leftarrow> on_mem (\<lambda>m. set_link m new_linkp (\<lambda>_. link)) st;
       if result > 0 then do {
         (new_linkp, st) \<leftarrow> eb_device_new_slave env socketp transportp new_linkp st;
         Some (Inl (new_linkp, st))
       } else Some (Inr (new_linkp, st))
     })"

definition drain_body :: "'w eb_env \<Rightarrow> eb_ptr \<Rightarrow> eb_ptr \<Rightarrow> 'w eb_state \<Rightarrow> ('w eb_state + 'w eb_state) option" where
  "drain_body env socketp transportp st = do {
     (result, st) \<leftarrow> eb_device_slave env socketp transportp EB_NULL st;
     Some (if result > 0 then Inl st else Inr st)
   }"

partial_function (option) check_transports ::
    "'w eb_env \<Rightarrow> eb_ptr \<Rightarrow> eb_ptr \<Rightarrow> eb_ptr \<Rightarrow> 'w eb_state \<Rightarrow> (eb_ptr \<times> 'w eb_state) option" where
  "check_transports env socketp transportp new_linkp st =
     (if transportp = EB_NULL then Some (new_linkp, st)
      else do {
        transport \<leftarrow> EB_TRANSPORT (st_mem st) transportp;
        (new_linkp, st) \<leftarrow> loop (accept_body env socketp transportp) (new_linkp, st);
        st \<leftarrow> loop (drain_body env socketp transportp) st;
        check_transports env socketp (tr_next transport) new_linkp st
      })"

text \<open>The pointer \<^verbatim>\<open>device\<close> is followed again after \<^verbatim>\<open>eb_device_slave\<close> returned.\<close>

definition serve_device_body :: "'w eb_env \<Rightarrow> eb_ptr \<Rightarrow> eb_ptr \<Rightarrow> 'w eb_state \<Rightarrow> ('w eb_state + 'w eb_state) option" where
  "serve_device_body env socketp devicep st = do {
     device \<leftarrow> EB_DEVICE (st_mem st) devicep;
     if dev_link device = EB_NULL then Some (Inr st)
     else do {
       (result, st) \<leftarrow> eb_device_slave env socketp (dev_transport device) devicep st;
       Some (if result > 0 then Inl st else Inr st)
     }
   }"

partial_function (option) check_devices :: "'w eb_env \<Rightarrow> eb_ptr \<Rightarrow> eb_ptr \<Rightarrow> 'w eb_state \<Rightarrow> 'w eb_state option" where
  "check_devices env socketp devicep st =
     (if devicep = EB_NULL then Some st
      else do {
        device \<leftarrow> EB_DEVICE (st_mem st) devicep;
        let next_devicep = dev_next device;
        st \<leftarrow> loop (serve_device_body env socketp devicep) st;
        device \<leftarrow> EB_DEVICE (st_mem st) devicep;
        st \<leftarrow> (if dev_un_link device \<noteq> devicep then do { (_, st) \<leftarrow> eb_device_flush env devicep st; Some st }
              else Some st);
        check_devices env socketp next_devicep st
      })"

definition eb_socket_check :: "'w eb_env \<Rightarrow> eb_ptr \<Rightarrow> u32 \<Rightarrow> 'w eb_state \<Rightarrow> 'w eb_state option" where
  "eb_socket_check env socketp now st = do {
     socket \<leftarrow> EB_SOCKET (st_mem st) socketp;
     let auxp = so_aux socket;
     st \<leftarrow> loop (expire_body env socketp now) st;
     (new_linkp, st) \<leftarrow> alloc_mem eb_new_link st;
     st \<leftarrow> on_mem (\<lambda>m. set_socket_aux m auxp (\<lambda>a. a\<lparr>aux_time_cache := now\<rparr>)) st;
     aux \<leftarrow> EB_SOCKET_AUX (st_mem st) auxp;
     (new_linkp, st) \<leftarrow> check_transports env socketp (aux_first_transport aux) new_linkp st;
     socket \<leftarrow> EB_SOCKET (st_mem st) socketp;
     st \<leftarrow> check_devices env socketp (so_first_device socket) st;
     if new_linkp \<noteq> EB_NULL then on_mem (eb_free_link new_linkp) st else Some st
   }"

section \<open>eb\_socket\_run\<close>

text \<open>The descriptor sets that the loop hands to the transports.\<close>

record eb_block_sets =
  set_nfd :: int
  set_rfds :: "int set"
  set_wfds :: "int set"

abbreviation (input) EB_DESCRIPTOR_IN :: u8 where "EB_DESCRIPTOR_IN \<equiv> 0x01"
abbreviation (input) EB_DESCRIPTOR_OUT :: u8 where "EB_DESCRIPTOR_OUT \<equiv> 0x02"

definition eb_update_sets :: "int \<Rightarrow> u8 \<Rightarrow> eb_block_sets \<Rightarrow> eb_block_sets" where
  "eb_update_sets fd mode sets =
     (let sets = (if fd > set_nfd sets then sets\<lparr>set_nfd := fd\<rparr> else sets);
          sets = (if mode AND EB_DESCRIPTOR_IN \<noteq> 0 then sets\<lparr>set_rfds := insert fd (set_rfds sets)\<rparr> else sets)
      in if mode AND EB_DESCRIPTOR_OUT \<noteq> 0 then sets\<lparr>set_wfds := insert fd (set_wfds sets)\<rparr> else sets)"

definition eb_check_sets :: "int \<Rightarrow> u8 \<Rightarrow> eb_block_sets \<Rightarrow> bool" where
  "eb_check_sets fd mode sets \<longleftrightarrow>
     (mode AND EB_DESCRIPTOR_IN \<noteq> 0 \<and> fd \<in> set_rfds sets) \<or> (mode AND EB_DESCRIPTOR_OUT \<noteq> 0 \<and> fd \<in> set_wfds sets)"

text \<open>The operating system: \<^verbatim>\<open>FD_ZERO\<close> on the sets, \<^verbatim>\<open>gettimeofday\<close> and \<^verbatim>\<open>select\<close>; the sets and the clock are
  part of the world.\<close>

record 'w eb_os =
  os_fd_zero :: "'w \<Rightarrow> 'w"
  os_gettimeofday :: "'w \<Rightarrow> (int \<times> int) \<times> 'w"
  os_select :: "int \<times> int \<Rightarrow> 'w \<Rightarrow> 'w"

text \<open>The time to wait: at most the caller's, and not past the first deadline.\<close>

definition run_timeout :: "int \<Rightarrow> u32 \<Rightarrow> int \<Rightarrow> int" where
  "run_timeout timeout_us eb_deadline tv_sec =
     (let timeout_us = (if timeout_us = -1 then 600 * 1000000 else timeout_us);
          timeout_us = (if eb_deadline \<noteq> 0 then
             let eb_timeout_us = (uint eb_deadline - tv_sec) * 1000000
             in if timeout_us > eb_timeout_us then eb_timeout_us else timeout_us
           else timeout_us)
      in if timeout_us < 0 then 0 else timeout_us)"

definition eb_socket_run :: "'w eb_env \<Rightarrow> 'w eb_os \<Rightarrow> eb_ptr \<Rightarrow> int \<Rightarrow> 'w eb_state \<Rightarrow> (int \<times> 'w eb_state) option" where
  "eb_socket_run env os socketp timeout_us st = do {
     let st = on_world (os_fd_zero os) st;
     let ((start_sec, start_usec), w) = os_gettimeofday os (st_world st);
     st \<leftarrow> eb_socket_check env socketp (word_of_int start_sec) (st\<lparr>st_world := w\<rparr>);
     (eb_deadline, st) \<leftarrow> alloc_mem (eb_socket_timeout socketp) st;
     let timeout_us = run_timeout timeout_us eb_deadline start_sec;
     st \<leftarrow> eb_socket_descriptors env socketp st;
     let st = on_world (os_select os (timeout_us div 1000000, timeout_us mod 1000000)) st;
     let ((stop_sec, stop_usec), w) = os_gettimeofday os (st_world st);
     st \<leftarrow> eb_socket_check env socketp (word_of_int stop_sec) (st\<lparr>st_world := w\<rparr>);
     Some ((stop_sec - start_sec) * 1000000 + (stop_usec - start_usec), st)
   }"

section \<open>eb\_socket\_open\<close>

definition EB_ABI_CODE :: u16 where
  "EB_ABI_CODE = push_bit 8 0x04 + (0x0010 * 8 + 0x0001 * 8) + 0x0000"

text \<open>The loop over the transport types; the last status and the type it stopped at are returned.\<close>

fun open_transports ::
    "'w eb_env \<Rightarrow> string option \<Rightarrow> nat list \<Rightarrow> eb_status_t \<Rightarrow> eb_ptr \<Rightarrow> 'w eb_state \<Rightarrow>
     (bool \<times> eb_status_t \<times> eb_ptr \<times> 'w eb_state) option" where
  "open_transports env port [] status first_transport st = Some (True, status, first_transport, st)"
| "open_transports env port (link_type # rest) status first_transport st = do {
     (transportp, st) \<leftarrow> alloc_mem eb_new_transport st;
     if transportp = EB_NULL then Some (False, EB_OOM, first_transport, st)
     else do {
       transport \<leftarrow> EB_TRANSPORT (st_mem st) transportp;
       ops \<leftarrow> tops env (of_nat link_type);
       let (status, transport, w) = tops_open ops transport port (st_world st);
       let st = st\<lparr>st_world := w\<rparr>;
       st \<leftarrow> on_mem (\<lambda>m. set_transport m transportp (\<lambda>_. transport)) st;
       if status = EB_ADDRESS then do {
         st \<leftarrow> on_mem (eb_free_transport transportp) st;
         open_transports env port rest status first_transport st
       } else if status \<noteq> EB_OK then do {
         st \<leftarrow> on_mem (eb_free_transport transportp) st;
         Some (False, status, first_transport, st)
       } else do {
         st \<leftarrow> on_mem (\<lambda>m. set_transport m transportp (\<lambda>t. t\<lparr>tr_next := first_transport, tr_link_type := of_nat link_type\<rparr>)) st;
         open_transports env port rest status transportp st
       }
     }
   }"

text \<open>The result is \<open>None\<close> where \<^verbatim>\<open>*result\<close> is not written.\<close>

definition eb_socket_open ::
    "'w eb_env \<Rightarrow> 'w eb_os \<Rightarrow> u16 \<Rightarrow> string option \<Rightarrow> eb_width_t \<Rightarrow> 'w eb_state \<Rightarrow>
     (eb_status_t \<times> eb_ptr option \<times> 'w eb_state) option" where
  "eb_socket_open env os abi_code port supported_widths st =
     (if abi_code \<noteq> EB_ABI_CODE then Some (EB_ABI, None, st)
      else if \<not> eb_width_possible supported_widths then Some (EB_WIDTH, Some EB_NULL, st)
      else do {
        (socketp, st) \<leftarrow> alloc_mem eb_new_socket st;
        if socketp = EB_NULL then Some (EB_OOM, Some EB_NULL, st)
        else do {
          (auxp, st) \<leftarrow> alloc_mem eb_new_socket_aux st;
          if auxp = EB_NULL then do {
            st \<leftarrow> on_mem (eb_free_socket socketp) st;
            Some (EB_OOM, Some EB_NULL, st)
          } else do {
            (complete, status, first_transport, st) \<leftarrow>
              open_transports env port [0..<length (env_transports env)] EB_OK EB_NULL st;
            st \<leftarrow> on_mem (\<lambda>m. set_socket m socketp (\<lambda>_. \<lparr>so_first_device = EB_NULL, so_first_handler = EB_NULL,
               so_first_response = EB_NULL, so_last_response = EB_NULL, so_aux = auxp, so_widths = supported_widths\<rparr>)) st;
            st \<leftarrow> on_mem (\<lambda>m. set_socket_aux m auxp (\<lambda>_. \<lparr>aux_time_cache = 0, aux_rba = 0x8000,
               aux_first_transport = first_transport\<rparr>)) st;
            if \<not> complete then do {
              (_, st) \<leftarrow> eb_socket_close env socketp st;
              Some (status, None, st)
            } else do {
              (_, st) \<leftarrow> eb_socket_run env os socketp 0 st;
              Some (status, Some socketp, st)
            }
          }
        }
      })"

section \<open>Waiting for a cycle\<close>

text \<open>\<open>status\<close> is the address of the variable on the stack of \<^verbatim>\<open>eb_cycle_block\<close>.\<close>

definition block_body ::
    "'w eb_env \<Rightarrow> 'w eb_os \<Rightarrow> eb_ptr \<Rightarrow> u64 \<Rightarrow> 'w eb_state \<Rightarrow> ('w eb_state + 'w eb_state) option" where
  "block_body env os socketp status st =
     (if st_status st status > 0 then do { (_, st) \<leftarrow> eb_socket_run env os socketp (-1) st; Some (Inl st) }
      else Some (Inr st))"

definition eb_cycle_block ::
    "'w eb_env \<Rightarrow> 'w eb_os \<Rightarrow> u64 \<Rightarrow> eb_ptr \<Rightarrow> eb_ptr \<Rightarrow> 'w eb_state \<Rightarrow> (eb_status_t \<times> 'w eb_state) option" where
  "eb_cycle_block env os status devicep cyclep st = do {
     cycle \<leftarrow> EB_CYCLE (st_mem st) cyclep;
     if cy_callback cycle = Eb_block_f then do {
       let st = st\<lparr>st_status := (st_status st)(status := 1)\<rparr>;
       st \<leftarrow> on_mem (\<lambda>m. set_cycle m cyclep (\<lambda>c. c\<lparr>cy_user_data := status\<rparr>)) st;
       socketp \<leftarrow> eb_device_socket (st_mem st) devicep;
       st \<leftarrow> loop (block_body env os socketp status) st;
       Some (st_status st status, st)
     } else Some (EB_OK, st)
   }"

definition eb_cycle_close_silently ::
    "'w eb_env \<Rightarrow> 'w eb_os \<Rightarrow> u64 \<Rightarrow> eb_ptr \<Rightarrow> 'w eb_state \<Rightarrow> (eb_status_t \<times> 'w eb_state) option" where
  "eb_cycle_close_silently env os status cyclep st = do {
     devicep \<leftarrow> eb_cycle_device (st_mem st) cyclep;
     st \<leftarrow> on_mem (eb_raw_cycle_close cyclep) st;
     eb_cycle_block env os status devicep cyclep st
   }"

definition eb_cycle_close ::
    "'w eb_env \<Rightarrow> 'w eb_os \<Rightarrow> u64 \<Rightarrow> eb_ptr \<Rightarrow> 'w eb_state \<Rightarrow> (eb_status_t \<times> 'w eb_state) option" where
  "eb_cycle_close env os status cyclep st = do {
     devicep \<leftarrow> eb_cycle_device (st_mem st) cyclep;
     st \<leftarrow> on_mem (eb_raw_cycle_close cyclep) st;
     st \<leftarrow> on_mem (eb_cycle_check cyclep) st;
     eb_cycle_block env os status devicep cyclep st
   }"

definition eb_device_read ::
    "'w eb_env \<Rightarrow> 'w eb_os \<Rightarrow> u64 \<Rightarrow> eb_ptr \<Rightarrow> eb_address_t \<Rightarrow> eb_format_t \<Rightarrow> u64 \<Rightarrow> eb_user_data_t \<Rightarrow> eb_callback_t option \<Rightarrow>
     'w eb_state \<Rightarrow> (eb_status_t \<times> 'w eb_state) option" where
  "eb_device_read env os status devicep address format data user_data cb st = do {
     (out, cycle, m) \<leftarrow> eb_cycle_open devicep user_data cb (st_mem st);
     let st = st\<lparr>st_mem := m\<rparr>;
     if out \<noteq> EB_OK then Some (out, st)
     else do {
       st \<leftarrow> on_mem (eb_cycle_read cycle address format data) st;
       eb_cycle_close env os status cycle st
     }
   }"

definition eb_device_write ::
    "'w eb_env \<Rightarrow> 'w eb_os \<Rightarrow> u64 \<Rightarrow> eb_ptr \<Rightarrow> eb_address_t \<Rightarrow> eb_format_t \<Rightarrow> eb_data_t \<Rightarrow> eb_user_data_t \<Rightarrow> eb_callback_t option \<Rightarrow>
     'w eb_state \<Rightarrow> (eb_status_t \<times> 'w eb_state) option" where
  "eb_device_write env os status devicep address format data user_data cb st = do {
     (out, cycle, m) \<leftarrow> eb_cycle_open devicep user_data cb (st_mem st);
     let st = st\<lparr>st_mem := m\<rparr>;
     if out \<noteq> EB_OK then Some (out, st)
     else do {
       st \<leftarrow> on_mem (eb_cycle_write cycle address format data) st;
       eb_cycle_close env os status cycle st
     }
   }"

section \<open>Opening a device\<close>

text \<open>The probe: \<^verbatim>\<open>0x4E6F\<close>, version 1 with the probe flag, the proposed widths, and the device as the tag.\<close>

definition probe_message :: "eb_width_t \<Rightarrow> eb_ptr \<Rightarrow> u8 list" where
  "probe_message proposed_widths devicep = [0x4E, 0x6F, 0x11, proposed_widths] @ be_bytes 4 (ucast devicep)"

text \<open>Waiting for the answer to one probe.\<close>

definition handshake_wait_body ::
    "'w eb_env \<Rightarrow> 'w eb_os \<Rightarrow> eb_ptr \<Rightarrow> eb_ptr \<Rightarrow> int \<times> 'w eb_state \<Rightarrow> ((int \<times> 'w eb_state) + 'w eb_state) option" where
  "handshake_wait_body env os socketp devicep = (\<lambda>(timeout, st). do {
     device \<leftarrow> EB_DEVICE (st_mem st) devicep;
     if timeout > 0 \<and> dev_link device \<noteq> EB_NULL \<and> dev_widths device = 0 then do {
       (got, st) \<leftarrow> eb_socket_run env os socketp timeout st;
       Some (Inl (timeout - got, st))
     } else Some (Inr st)
   })"

text \<open>The attempts; \<^verbatim>\<open>attempts\<close> counts down and a negative number tries forever.\<close>

definition handshake_body ::
    "'w eb_env \<Rightarrow> 'w eb_os \<Rightarrow> eb_ptr \<Rightarrow> eb_ptr \<Rightarrow> eb_width_t \<Rightarrow> int \<times> 'w eb_state \<Rightarrow> ((int \<times> 'w eb_state) + 'w eb_state) option" where
  "handshake_body env os socketp devicep proposed_widths = (\<lambda>(attempts, st). do {
     device \<leftarrow> EB_DEVICE (st_mem st) devicep;
     st \<leftarrow> do_send env (dev_transport device) (dev_link device) (probe_message proposed_widths devicep) st;
     st \<leftarrow> loop (handshake_wait_body env os socketp devicep) (3000000, st);
     device \<leftarrow> EB_DEVICE (st_mem st) devicep;
     let attempts' = attempts - 1;
     Some (if dev_widths device = 0 \<and> dev_link device \<noteq> EB_NULL \<and> attempts' \<noteq> 0 then Inl (attempts', st) else Inr st)
   })"

definition fail_open :: "'w eb_env \<Rightarrow> eb_ptr \<Rightarrow> eb_status_t \<Rightarrow> 'w eb_state \<Rightarrow> (eb_status_t \<times> eb_ptr \<times> 'w eb_state) option" where
  "fail_open env devicep status st = do {
     (_, st) \<leftarrow> eb_device_close env devicep st;
     Some (status, EB_NULL, st)
   }"

text \<open>Negotiating the widths of a connected device.\<close>

definition negotiate ::
    "'w eb_env \<Rightarrow> 'w eb_os \<Rightarrow> eb_ptr \<Rightarrow> eb_ptr \<Rightarrow> eb_width_t \<Rightarrow> int \<Rightarrow> 'w eb_state \<Rightarrow> (eb_status_t \<times> eb_ptr \<times> 'w eb_state) option" where
  "negotiate env os socketp devicep proposed_widths attempts st =
     (if attempts = 0 then
        if \<not> eb_width_refined proposed_widths then fail_open env devicep EB_WIDTH st
        else do {
          st \<leftarrow> on_mem (\<lambda>m. set_device m devicep (\<lambda>d. d\<lparr>dev_widths := proposed_widths\<rparr>)) st;
          Some (EB_OK, devicep, st)
        }
      else do {
        st \<leftarrow> on_mem (\<lambda>m. set_device m devicep (\<lambda>d. d\<lparr>dev_widths := 0\<rparr>)) st;
        st \<leftarrow> loop (handshake_body env os socketp devicep proposed_widths) (attempts, st);
        device \<leftarrow> EB_DEVICE (st_mem st) devicep;
        if dev_link device = EB_NULL then fail_open env devicep EB_FAIL st
        else if dev_widths device = 0 then fail_open env devicep EB_TIMEOUT st
        else do {
          let widths = dev_widths device AND proposed_widths;
          st \<leftarrow> on_mem (\<lambda>m. set_device m devicep (\<lambda>d. d\<lparr>dev_widths := widths\<rparr>)) st;
          if \<not> eb_width_possible widths then fail_open env devicep EB_WIDTH st
          else do {
            st \<leftarrow> on_mem (\<lambda>m. set_device m devicep (\<lambda>d. d\<lparr>dev_widths := eb_width_refine widths\<rparr>)) st;
            Some (EB_OK, devicep, st)
          }
        }
      })"

definition eb_device_open ::
    "'w eb_env \<Rightarrow> 'w eb_os \<Rightarrow> eb_ptr \<Rightarrow> string \<Rightarrow> eb_width_t \<Rightarrow> int \<Rightarrow> 'w eb_state \<Rightarrow>
     (eb_status_t \<times> eb_ptr \<times> 'w eb_state) option" where
  "eb_device_open env os socketp address proposed_widths attempts st = do {
     (devicep, st) \<leftarrow> alloc_mem eb_new_device st;
     if devicep = EB_NULL then Some (EB_OOM, EB_NULL, st)
     else do {
       (linkp, st) \<leftarrow> alloc_mem eb_new_link st;
       let give_up = (\<lambda>status st. do {
          st \<leftarrow> on_mem (eb_free_link linkp) st;
          st \<leftarrow> on_mem (eb_free_device devicep) st;
          Some (status, EB_NULL, st)
        });
       if linkp = EB_NULL then do {
         st \<leftarrow> on_mem (eb_free_device devicep) st;
         Some (EB_OOM, EB_NULL, st)
       } else do {
         socket \<leftarrow> EB_SOCKET (st_mem st) socketp;
         aux \<leftarrow> EB_SOCKET_AUX (st_mem st) (so_aux socket);
         let proposed_widths = proposed_widths AND so_widths socket;
         if \<not> eb_width_possible proposed_widths then give_up EB_WIDTH st
         else do {
           st \<leftarrow> on_mem (\<lambda>m. set_device m devicep (\<lambda>d. d\<lparr>dev_socket := socketp, dev_un_link := EB_NULL,
                    dev_unready := 0, dev_link := linkp\<rparr>)) st;
           (status, transportp, st) \<leftarrow> connect_loop env address False linkp (aux_first_transport aux) st;
           if transportp = EB_NULL then give_up EB_ADDRESS st
           else if status \<noteq> EB_OK then give_up status st
           else do {
             st \<leftarrow> on_mem (\<lambda>m. set_device m devicep (\<lambda>d. d\<lparr>dev_transport := transportp,
                      dev_next := so_first_device socket\<rparr>)) st;
             st \<leftarrow> on_mem (\<lambda>m. set_socket m socketp (\<lambda>s. s\<lparr>so_first_device := devicep\<rparr>)) st;
             transport \<leftarrow> EB_TRANSPORT (st_mem st) transportp;
             ops \<leftarrow> tops env (tr_link_type transport);
             negotiate env os socketp devicep proposed_widths (if tops_mtu ops = 0 then 1 else attempts) st
           }
         }
       }
     }
   }"

section \<open>Blocking searches\<close>

text \<open>\<open>record\<close> is the address of the local variable.\<close>

definition find_address_body ::
    "'w eb_env \<Rightarrow> 'w eb_os \<Rightarrow> eb_ptr \<Rightarrow> u64 \<Rightarrow> 'w eb_state \<Rightarrow> ('w eb_state + 'w eb_state) option" where
  "find_address_body env os device rec st =
     (if fa_status (st_find_address st rec) > 0 then do {
        socketp \<leftarrow> eb_device_socket (st_mem st) device;
        (_, st) \<leftarrow> eb_socket_run env os socketp (-1) st;
        Some (Inl st)
      } else Some (Inr st))"

definition eb_sdb_find_by_address ::
    "'w eb_env \<Rightarrow> 'w eb_os \<Rightarrow> u64 \<Rightarrow> eb_ptr \<Rightarrow> eb_address_t \<Rightarrow> sdb_device list \<Rightarrow> 'w eb_state \<Rightarrow>
     (eb_status_t \<times> sdb_device list \<times> 'w eb_state) option" where
  "eb_sdb_find_by_address env os rec device address out st = do {
     let st = st\<lparr>st_find_address := (st_find_address st)(rec := \<lparr>fa_address = address, fa_output = out, fa_status = 0\<rparr>)\<rparr>;
     (status, m) \<leftarrow> eb_sdb_scan_root device rec Eb_cb_find_by_address (st_mem st);
     let st = st\<lparr>st_mem := m\<rparr>;
     if status \<noteq> EB_OK then Some (status, out, st)
     else do {
       let st = st\<lparr>st_find_address := (st_find_address st)(rec := (st_find_address st rec)\<lparr>fa_status := 1\<rparr>)\<rparr>;
       st \<leftarrow> loop (find_address_body env os device rec) st;
       Some (fa_status (st_find_address st rec), fa_output (st_find_address st rec), st)
     }
   }"

definition find_identity_body ::
    "'w eb_env \<Rightarrow> 'w eb_os \<Rightarrow> eb_ptr \<Rightarrow> u64 \<Rightarrow> 'w eb_state \<Rightarrow> ('w eb_state + 'w eb_state) option" where
  "find_identity_body env os device rec st =
     (if fi_pending (st_find_identity st rec) > 0 then do {
        socketp \<leftarrow> eb_device_socket (st_mem st) device;
        (_, st) \<leftarrow> eb_socket_run env os socketp (-1) st;
        Some (Inl st)
      } else Some (Inr st))"

definition eb_sdb_find_by_identity ::
    "'w eb_env \<Rightarrow> 'w eb_os \<Rightarrow> u64 \<Rightarrow> eb_ptr \<Rightarrow> u64 \<Rightarrow> u32 \<Rightarrow> sdb_device list \<Rightarrow> int \<Rightarrow> 'w eb_state \<Rightarrow>
     (eb_status_t \<times> sdb_device list \<times> int \<times> 'w eb_state) option" where
  "eb_sdb_find_by_identity env os rec device vendor dev_id out devices st = do {
     let st = st\<lparr>st_find_identity := (st_find_identity st)(rec := \<lparr>fi_vendor_id = vendor, fi_output = out, fi_device_id = dev_id,
        fi_size = devices, fi_fill = 0, fi_pending = 1, fi_status = 0\<rparr>)\<rparr>;
     (status, m) \<leftarrow> eb_sdb_scan_root device rec Eb_cb_find_by_identity (st_mem st);
     let st = st\<lparr>st_mem := m\<rparr>;
     let st = st\<lparr>st_find_identity := (st_find_identity st)(rec := (st_find_identity st rec)\<lparr>fi_status := status\<rparr>)\<rparr>;
     st \<leftarrow> (if status = EB_OK then loop (find_identity_body env os device rec) st else Some st);
     let r = st_find_identity st rec;
     Some (fi_status r, fi_output r, fi_fill r, st)
   }"

end
