(* ===== verification/Eb_Records.thy ===== *)
theory Eb_Records
  imports Eb_Serve Eb_Select Eb_Master
begin

text \<open>
  What the master puts into a record is what the slave takes out of it. The accesses a slave makes
  for a record are a list; this theory relates each of them to the operation the master packed.
\<close>

section \<open>Checked operations\<close>

text \<open>An operation the check lets through, in the format the check leaves behind.\<close>

definition op_ok :: "eb_width_t \<Rightarrow> eb_operation \<Rightarrow> bool" where
  "op_ok width op \<longleftrightarrow> master_check_op (width AND EB_DATAX) (address_mask_of width) op = (EB_OK, op_format op)"

text \<open>A port of the protocol: one data width and one address width.\<close>

definition port_widths :: "eb_width_t \<Rightarrow> bool" where
  "port_widths width \<longleftrightarrow> width AND EB_DATAX \<in> {1, 2, 4, 8} \<and> drop_bit 4 width \<in> {1, 2, 4, 8}"

definition format_ok :: "u8 \<Rightarrow> u8 \<Rightarrow> bool" where
  "format_ok data f \<longleftrightarrow> f = data \<or> (f AND EB_DATAX \<in> {1, 2, 4, 8} \<and> f AND EB_DATAX < data \<and>
     (f = (f AND EB_DATAX) OR EB_BIG_ENDIAN \<or> f = (f AND EB_DATAX) OR EB_LITTLE_ENDIAN))"

definition nibble_check :: "u8 \<Rightarrow> bool" where
  "nibble_check f \<longleftrightarrow> f AND 0x0f \<in> {0, 1, 2, 3, 4, 5, 6, 7, 8, 9, 10, 11, 12, 13, 14, 15} \<and> f AND 0x30 \<in> {0, 0x10, 0x20, 0x30}"

lemma nibble_check: "nibble_check f"
  by (rule word8_upt) (simp_all add: upt_rec_numeral nibble_check_def)

lemma and_low: "d \<in> {1, 3, 7, 15 :: u8} \<Longrightarrow> f AND d = (f AND 0x0f) AND d"
  by (auto simp: and.assoc)

lemma masked_width_cases: "eb_width_refine (f AND 0x0f) \<in> {0, 1, 2, 4, 8} \<and> eb_width_refine (f AND 0x0f) \<le> f AND 0x0f"
proof -
  have "f AND 0x0f \<in> {0, 1, 2, 3, 4, 5, 6, 7, 8, 9, 10, 11, 12, 13, 14, 15}" using nibble_check [of f] by (simp add: nibble_check_def)
  then show ?thesis by (elim insertE emptyE) (simp_all add: eb_width_refine_def Let_def)
qed

lemma refine_size:
  assumes "data \<in> {1, 2, 4, 8}"
  shows "eb_width_refine (f AND (data - 1 + data)) \<in> {0, 1, 2, 4, 8} \<and> eb_width_refine (f AND (data - 1 + data)) \<le> data"
proof -
  let ?d = "data - 1 + data"
  have d: "?d AND 0x0f = ?d" using assms by (elim insertE emptyE) simp_all
  have *: "f AND ?d = (f AND ?d) AND 0x0f" by (simp only: and.assoc d)
  have r: "eb_width_refine (f AND ?d) \<in> {0, 1, 2, 4, 8}" "eb_width_refine (f AND ?d) \<le> f AND ?d"
    using masked_width_cases [of "f AND ?d"] by (simp_all only: * [symmetric])
  have "f AND ?d \<le> ?d" by (rule word_and_le1)
  with r(2) have le: "unat (eb_width_refine (f AND ?d)) \<le> unat ?d" by (simp add: word_le_nat_alt)
  have "eb_width_refine (f AND ?d) \<le> data"
    using assms r(1) le by (elim insertE emptyE) (simp_all add: word_le_nat_alt)
  with r(1) show ?thesis by blast
qed

lemma endian_cases: "(f :: u8) AND EB_ENDIAN_MASK \<in> {0, 0x10, 0x20, 0x30}"
  using nibble_check [of f] by (simp add: nibble_check_def)

text \<open>The format that is left behind is a good one, and checking it again gives the same.\<close>

lemma format_checked:
  assumes "data \<in> {1, 2, 4, 8}"
    and "sz = eb_width_refine (f AND (data - 1 + data))" and "sz \<noteq> 0"
    and "endian = (if sz = data then 0 else f AND EB_ENDIAN_MASK)"
    and "endian \<noteq> EB_BIG_ENDIAN OR EB_LITTLE_ENDIAN" and "\<not> (sz \<noteq> data \<and> endian = 0)"
  shows "format_ok data (endian OR sz) \<and> eb_width_refine ((endian OR sz) AND (data - 1 + data)) = sz \<and>
    (endian OR sz) AND EB_ENDIAN_MASK = endian \<and> (endian OR sz) AND EB_DATAX = sz"
proof -
  have s: "sz \<in> {1, 2, 4, 8}" "sz \<le> data" using refine_size [OF assms(1), of f] assms(2,3) by auto
  have e: "endian \<in> {0, 0x10, 0x20}" "endian = 0 \<longleftrightarrow> sz = data" using endian_cases [of f] assms(4-6) by auto
  have m: "(endian OR sz) AND EB_ENDIAN_MASK = endian" "(endian OR sz) AND EB_DATAX = sz"
    using s(1) e(1) by (elim insertE emptyE; simp)+
  have "data - 1 + data \<in> {1, 3, 7, 15}" using assms(1) by (elim insertE emptyE; simp)
  then have "(endian OR sz) AND (data - 1 + data) = ((endian OR sz) AND EB_DATAX) AND (data - 1 + data)" by (rule and_low)
  also have "\<dots> = sz AND (data - 1 + data)" by (simp only: m)
  also have "\<dots> = sz" using s(1) assms(1) s(2) by (elim insertE emptyE) (simp_all add: word_le_nat_alt)
  finally have r: "eb_width_refine ((endian OR sz) AND (data - 1 + data)) = sz"
    using s(1) by (elim insertE emptyE) (simp_all add: eb_width_refine_def Let_def)
  have "format_ok data (endian OR sz)"
    unfolding format_ok_def m using s e by (auto simp: or.commute)
  with m r show ?thesis by blast
qed

text \<open>What the check guarantees.\<close>

lemma op_ok_format:
  assumes "port_widths width" "op_ok width op"
  shows "format_ok (width AND EB_DATAX) (op_format op)"
  and "(if op_is_cfg op then op_address op AND (0xFFFF - (ucast (op_format op AND EB_DATAX) - 1)) = op_address op
        else op_address op AND (address_mask_of width - (ucast (op_format op AND EB_DATAX) - 1)) = op_address op)"
  and "\<not> op_is_read op \<Longrightarrow> op_un_value op AND data_mask (op_format op AND EB_DATAX) = op_un_value op"
proof -
  let ?d = "width AND EB_DATAX"
  define sz where "sz = eb_width_refine (op_format op AND (?d - 1 + ?d))"
  define endian where "endian = (if sz = ?d then 0 else op_format op AND EB_ENDIAN_MASK)"
  have d: "?d \<in> {1, 2, 4, 8}" using assms(1) by (simp add: port_widths_def)
  note ok = assms(2) [unfolded op_ok_def master_check_op_def Let_def, folded sz_def, folded endian_def]
  have c: "sz \<noteq> 0" "endian \<noteq> EB_BIG_ENDIAN OR EB_LITTLE_ENDIAN" "\<not> (sz \<noteq> ?d \<and> endian = 0)"
    and f: "op_format op = endian OR sz"
    using ok by (auto split: if_splits)
  have fc: "format_ok ?d (endian OR sz)" "(endian OR sz) AND EB_DATAX = sz"
    using format_checked [OF d sz_def c(1) endian_def c(2,3)] by auto
  show "format_ok ?d (op_format op)" using fc f by simp
  have s: "op_format op AND EB_DATAX = sz" using fc f by simp
  show "(if op_is_cfg op then op_address op AND (0xFFFF - (ucast (op_format op AND EB_DATAX) - 1)) = op_address op
        else op_address op AND (address_mask_of width - (ucast (op_format op AND EB_DATAX) - 1)) = op_address op)"
    unfolding s using ok c by (auto simp: op_is_cfg_def split: if_splits)
  show "op_un_value op AND data_mask (op_format op AND EB_DATAX) = op_un_value op" if "\<not> op_is_read op"
    unfolding s using ok c that by (auto simp: op_is_read_def split: if_splits)
qed

section \<open>Aligned addresses\<close>

lemma mask_minus_mask: "j \<le> n \<Longrightarrow> mask n - mask j = push_bit j (mask (n - j) :: 'a :: len word)"
  by (simp add: mask_eq_exp_minus_1 push_bit_eq_mult algebra_simps flip: power_add)

lemma bit_mask_minus: "j \<le> n \<Longrightarrow> bit (mask n - mask j :: u64) i \<longleftrightarrow> j \<le> i \<and> i < n \<and> i < 64"
  by (auto simp: mask_minus_mask bit_simps)

lemma drop_bit_ones: "k \<le> 64 \<Longrightarrow> drop_bit k (NOT 0 :: u64) = mask (64 - k)"
  by (rule bit_word_eqI) (auto simp: bit_simps)

lemma data_mask_eq: "unat w \<le> 8 \<Longrightarrow> data_mask w = mask (8 * unat w)"
  by (simp add: data_mask_def drop_bit_ones diff_mult_distrib2)

lemma address_mask_eq: "unat (drop_bit 4 width) \<le> 8 \<Longrightarrow> address_mask_of width = mask (8 * unat (drop_bit 4 width))"
  by (simp add: address_mask_of_def drop_bit_ones diff_mult_distrib2)

lemma log_width:
  assumes "w \<in> {1, 2, 4, 8 :: u8}"
  obtains j where "j \<le> 3" "unat w = 2 ^ j" "ucast w - 1 = (mask j :: u64)"
proof -
  have "\<exists>j \<le> 3. unat w = 2 ^ j \<and> ucast w - 1 = (mask j :: u64)"
    using assms
    by (elim insertE emptyE)
      (rule exI [of _ 0] exI [of _ 1] exI [of _ 2] exI [of _ 3], simp add: mask_eq_exp_minus_1; fail)+
  then show ?thesis using that by blast
qed

lemma unat_take_bit: "unat (take_bit j (a :: u64)) = unat a mod 2 ^ j"
  by (simp only: unsigned_take_bit_eq) (simp add: take_bit_eq_mod)

lemma aligned_dvd:
  assumes "a AND (mask n - mask j) = a" "j \<le> n"
  shows "2 ^ j dvd unat (a :: u64)" and "take_bit n a = a"
proof -
  have b: "bit a i \<Longrightarrow> j \<le> i \<and> i < n" for i
    using arg_cong [OF assms(1), of "\<lambda>w. bit w i"] by (simp add: bit_simps bit_mask_minus [OF assms(2)])
  have "take_bit j a = 0" by (rule bit_word_eqI) (auto simp: bit_simps dest: b)
  then show "2 ^ j dvd unat a" using unat_take_bit [of j a] by (simp add: mod_eq_0_iff_dvd)
  show "take_bit n a = a" by (rule bit_word_eqI) (auto simp: bit_simps dest: b)
qed

text \<open>The lane of an operation: where in the port its bytes are.\<close>

definition op_low :: "eb_width_t \<Rightarrow> eb_operation \<Rightarrow> u8" where
  "op_low width op = ucast (op_address op AND (ucast (width AND EB_DATAX) - 1))"

abbreviation op_shift :: "eb_width_t \<Rightarrow> eb_operation \<Rightarrow> u8" where
  "op_shift width op \<equiv> op_shift_of (width AND EB_DATAX) (op_format op) (op_low width op)"

lemma unat_op_low:
  assumes "width AND EB_DATAX \<in> {1, 2, 4, 8}"
  shows "unat (op_low width op) = unat (op_address op) mod unat (width AND EB_DATAX)"
    and "ucast (op_low width op) = op_address op AND (ucast (width AND EB_DATAX) - 1)"
proof -
  obtain j where j: "j \<le> 3" "unat (width AND EB_DATAX) = 2 ^ j" "ucast (width AND EB_DATAX) - 1 = (mask j :: u64)"
    using log_width [OF assms] .
  have e: "op_address op AND mask j = take_bit j (op_address op)" by (simp add: take_bit_eq_mask)
  have lt: "unat (op_address op) mod 2 ^ j < 2 ^ 8"
  proof -
    have "unat (op_address op) mod 2 ^ j < 2 ^ j" by simp
    also have "(2 :: nat) ^ j \<le> 2 ^ 8" using j(1) by (intro power_increasing) auto
    finally show ?thesis .
  qed
  note u = unat_take_bit [of j "op_address op"]
  show 1: "unat (op_low width op) = unat (op_address op) mod unat (width AND EB_DATAX)"
    using lt unfolding op_low_def j e by (simp only: unsigned_ucast_eq u) (simp add: take_bit_nat_eq_self)
  show "ucast (op_low width op) = op_address op AND (ucast (width AND EB_DATAX) - 1)"
    using lt unfolding j e by (simp only: word_unat_eq_iff u) (simp add: 1 j unsigned_ucast_eq take_bit_nat_eq_self)
qed

lemma op_ok_aligned:
  assumes "port_widths width" "op_ok width op"
  shows "unat (op_format op AND EB_DATAX) dvd unat (op_address op)"
    and "\<not> op_is_cfg op \<Longrightarrow> take_bit (8 * unat (drop_bit 4 width)) (op_address op) = op_address op"
    and "op_is_cfg op \<Longrightarrow> take_bit 16 (op_address op) = op_address op"
proof -
  let ?n = "if op_is_cfg op then 16 else 8 * unat (drop_bit 4 width)"
  note ok = op_ok_format [OF assms]
  have s: "op_format op AND EB_DATAX \<in> {1, 2, 4, 8}"
    using ok(1) assms(1) by (auto simp: format_ok_def port_widths_def)
  obtain j where j: "j \<le> 3" "unat (op_format op AND EB_DATAX) = 2 ^ j" "ucast (op_format op AND EB_DATAX) - 1 = (mask j :: u64)"
    using log_width [OF s] .
  have a: "unat (drop_bit 4 width) \<le> 8" "1 \<le> unat (drop_bit 4 width)" using assms(1) by (auto simp: port_widths_def)
  have "op_address op AND (mask ?n - mask j) = op_address op"
    using ok(2) unfolding j(3) address_mask_eq [OF a(1)] by (simp add: mask_eq_exp_minus_1 split: if_splits)
  moreover have "j \<le> ?n" using j(1) a(2) by simp
  ultimately have *: "2 ^ j dvd unat (op_address op)" "take_bit ?n (op_address op) = op_address op"
    by (rule aligned_dvd)+
  show "unat (op_format op AND EB_DATAX) dvd unat (op_address op)" using *(1) j(2) by simp
  show "take_bit (8 * unat (drop_bit 4 width)) (op_address op) = op_address op" if "\<not> op_is_cfg op" using *(2) that by simp
  show "take_bit 16 (op_address op) = op_address op" if "op_is_cfg op" using *(2) that by simp
qed

lemma pow_dvd: "s \<in> {1, 2, 4, 8} \<Longrightarrow> d \<in> {1, 2, 4, 8} \<Longrightarrow> s \<le> d \<Longrightarrow> s dvd (d :: nat)"
  by auto

lemma op_lane:
  assumes "port_widths width" "op_ok width op"
  defines "d \<equiv> unat (width AND EB_DATAX)" and "s \<equiv> unat (op_format op AND EB_DATAX)" and "low \<equiv> unat (op_low width op)"
  shows "lane_ok d s low"
    and "lane_ok d s (unat (op_shift width op))"
    and "unat (op_shift width op) = (if op_format op AND EB_ENDIAN_MASK = EB_BIG_ENDIAN then d - (low + s) else low)"
    and "s = d \<Longrightarrow> low = 0"
proof -
  note ok = op_ok_format [OF assms(1,2)]
  have w: "width AND EB_DATAX \<in> {1, 2, 4, 8}" using assms(1) by (simp add: port_widths_def)
  have d: "d \<in> {1, 2, 4, 8}" using w by (auto simp: d_def)
  have s: "s \<in> {1, 2, 4, 8}" "s \<le> d"
    using ok(1) w by (auto simp: format_ok_def s_def d_def word_less_nat_alt)
  have low: "low = unat (op_address op) mod d" unfolding low_def d_def by (rule unat_op_low(1) [OF w])
  have sd: "s dvd d" using pow_dvd s d by blast
  have "s dvd unat (op_address op)" unfolding s_def by (rule op_ok_aligned(1) [OF assms(1,2)])
  then have sl: "s dvd low" unfolding low using sd by (simp add: dvd_mod)
  have ld: "low < d" unfolding low using d by auto
  have fit: "low + s \<le> d" using lane_fits [OF s(1) d sl ld s(2)] .
  show 1: "lane_ok d s low" using s sl fit by (simp add: lane_ok_def)
  show "s = d \<Longrightarrow> low = 0" using sl ld by (auto dest: dvd_imp_le)
  have sum: "unat (op_low width op + (op_format op AND EB_DATAX)) = low + s"
    using fit d unfolding low_def s_def by (subst unat_add_lem [THEN iffD1]) auto
  have "unat ((width AND EB_DATAX) - (op_low width op + (op_format op AND EB_DATAX))) = d - (low + s)"
    using fit by (subst unat_sub) (simp_all add: word_le_nat_alt sum d_def)
  then show 2: "unat (op_shift width op) = (if op_format op AND EB_ENDIAN_MASK = EB_BIG_ENDIAN then d - (low + s) else low)"
    by (simp add: op_shift_of_def low_def)
  have "s dvd d - (low + s)" using sd sl by (intro dvd_diff_nat) simp_all
  then show "lane_ok d s (unat (op_shift width op))"
    using 1 fit s(1) unfolding 2 by (simp add: lane_ok_def)
qed

text \<open>The select byte of a record announces exactly that lane.\<close>

lemma record_select_lane:
  assumes "w \<in> {1, 2, 4, 8}"
  shows "record_select w k = select_of (unat w) (unat k)"
  using assms by (elim insertE emptyE) (simp_all add: record_select_def select_of_def mask_eq_exp_minus_1)

section \<open>The accesses of a record\<close>

text \<open>A bus access carries the big-endian and the little-endian form of its address, a read the address
  its value is returned to.\<close>

datatype access =
    Bus_write eb_width_t eb_address_t eb_address_t eb_data_t
  | Config_write eb_width_t eb_address_t eb_data_t
  | Bus_read eb_data_t eb_width_t eb_address_t eb_address_t
  | Config_read eb_data_t eb_width_t eb_address_t

definition access_width :: "eb_width_t \<Rightarrow> u8 \<Rightarrow> eb_width_t" where
  "access_width widths w = w OR push_bit 4 (drop_bit 4 widths)"

definition wire_value :: "slave_select \<Rightarrow> eb_data_t \<Rightarrow> eb_data_t" where
  "wire_value sel v = drop_bit (unat (sel_shift sel) * 8) v AND data_mask (sel_width sel)"

fun write_accesses ::
    "eb_width_t \<Rightarrow> slave_select \<Rightarrow> bool \<Rightarrow> eb_address_t \<Rightarrow> eb_data_t list \<Rightarrow>
     eb_address_t \<Rightarrow> eb_address_t \<Rightarrow> eb_address_t \<Rightarrow> access list" where
  "write_accesses widths sel config stride [] a b l = []"
| "write_accesses widths sel config stride (v # vs) a b l =
     (if config then Config_write (access_width widths (sel_width sel)) a (wire_value sel v)
      else Bus_write (access_width widths (sel_width sel)) b l (wire_value sel v)) #
     write_accesses widths sel config stride vs (a + stride) (b + stride) (l + stride)"

definition read_access :: "eb_width_t \<Rightarrow> slave_select \<Rightarrow> bool \<Rightarrow> eb_data_t \<Rightarrow> eb_address_t \<Rightarrow> access" where
  "read_access widths sel config ret a =
     (let base = a AND address_filter_bits widths;
          b = base OR ucast (addr_low_big_endian (widths AND EB_DATAX) sel)
      in if config then Config_read ret (access_width widths (sel_width sel)) b
         else Bus_read ret (access_width widths (sel_width sel)) b (base OR ucast (addr_low_little_endian sel)))"

definition record_accesses :: "eb_width_t \<Rightarrow> wire_record \<Rightarrow> access list" where
  "record_accesses widths r =
     (let sel = decode_select (widths AND EB_DATAX) (wr_select r);
          base = wr_bwa r AND address_filter_bits widths
      in write_accesses widths sel (wr_flags r AND EB_RECORD_WCA \<noteq> 0)
           (if wr_flags r AND EB_RECORD_WFF \<noteq> 0 then 0 else ucast (widths AND EB_DATAX)) (wr_writes r) (wr_bwa r)
           (base OR ucast (addr_low_big_endian (widths AND EB_DATAX) sel)) (base OR ucast (addr_low_little_endian sel)) @
         map (read_access widths sel (wr_flags r AND EB_RECORD_RCA \<noteq> 0) (wr_bra r)) (wr_reads r))"

text \<open>Running them on the socket; the values read are collected.\<close>

fun run_accesses ::
    "'w eb_env \<Rightarrow> eb_ptr \<Rightarrow> access list \<Rightarrow> u64 \<Rightarrow> 'w eb_state \<Rightarrow> (eb_data_t list \<times> u64 \<times> 'w eb_state) option" where
  "run_accesses env socketp [] error st = Some ([], error, st)"
| "run_accesses env socketp (Bus_write w b l v # as) error st = do {
     (error, st) \<leftarrow> eb_socket_write env socketp w b l v error st;
     run_accesses env socketp as error st
   }"
| "run_accesses env socketp (Config_write w a v # as) error st = do {
     st \<leftarrow> eb_socket_write_config env socketp w a v st;
     run_accesses env socketp as error st
   }"
| "run_accesses env socketp (Bus_read ret w b l # as) error st = do {
     (v, error, st) \<leftarrow> eb_socket_read env socketp w b l error st;
     (vs, error, st) \<leftarrow> run_accesses env socketp as error st;
     Some (v # vs, error, st)
   }"
| "run_accesses env socketp (Config_read ret w a # as) error st = do {
     v \<leftarrow> eb_socket_read_config w a error;
     (vs, error, st) \<leftarrow> run_accesses env socketp as error st;
     Some (v # vs, error, st)
   }"

lemma run_accesses_append:
  "run_accesses env socketp (as @ bs) error st = do {
     (vs, error, st) \<leftarrow> run_accesses env socketp as error st;
     (ws, error, st) \<leftarrow> run_accesses env socketp bs error st;
     Some (vs @ ws, error, st)
   }"
proof (induction as arbitrary: error st)
  case (Cons a as)
  then show ?case by (cases a) (simp_all add: split_def cong: bind_option_cong)
qed (simp add: split_def)

lemma full_width_access: "full_width port sel = access_width (sp_widths port) (sel_width sel)"
  by (simp add: full_width_def access_width_def)

lemma serve_write_accesses_run:
  assumes "sel_ok sel"
  shows "serve_write_accesses env port sel config fifo vs a b l error st =
    map_option (\<lambda>(_, error, st). (error, st))
      (run_accesses env (sp_socket port)
         (write_accesses (sp_widths port) sel config (if fifo then 0 else ucast (port_data port)) vs a b l) error st)"
proof (induction vs arbitrary: a b l error st)
  case (Cons v vs)
  show ?case
    by (simp add: assms Cons.IH full_width_access wire_value_def Let_def map_conv_bind_option comp_def split_def
        cong: bind_option_cong)
qed simp

lemma serve_read_accesses_run:
  assumes "sel_ok sel"
  shows "serve_read_accesses env port sel config as error st =
    map_option (\<lambda>(vs, error, st). (map (\<lambda>v. push_bit (unat (sel_shift sel) * 8) (v AND data_mask (sel_width sel))) vs, error, st))
      (run_accesses env (sp_socket port) (map (read_access (sp_widths port) sel config ret) as) error st)"
proof (induction as arbitrary: error st)
  case (Cons a as)
  show ?case
    by (simp add: assms Cons.IH full_width_access read_access_def Let_def map_conv_bind_option comp_def split_def
        cong: bind_option_cong)
qed simp

section \<open>Accesses that perform an operation\<close>

text \<open>The slave has both forms of the address; the operation means the one of its byte order, and both
  when it uses the whole port.\<close>

definition at_address :: "eb_operation \<Rightarrow> eb_address_t \<Rightarrow> eb_address_t \<Rightarrow> bool" where
  "at_address op b l \<longleftrightarrow>
     (op_format op AND EB_ENDIAN_MASK \<noteq> EB_LITTLE_ENDIAN \<longrightarrow> b = op_address op) \<and>
     (op_format op AND EB_ENDIAN_MASK \<noteq> EB_BIG_ENDIAN \<longrightarrow> l = op_address op)"

definition performs :: "eb_width_t \<Rightarrow> u16 \<Rightarrow> eb_operation \<Rightarrow> access \<Rightarrow> bool" where
  "performs width rba op acc \<longleftrightarrow>
     (case acc of
        Bus_write w b l v \<Rightarrow> \<not> op_is_read op \<and> \<not> op_is_cfg op \<and> at_address op b l \<and> v = op_un_value op \<and>
          w = access_width width (op_format op AND EB_DATAX)
      | Config_write w a v \<Rightarrow> \<not> op_is_read op \<and> op_is_cfg op \<and> a = op_address op \<and> v = op_un_value op \<and>
          w = access_width width (op_format op AND EB_DATAX)
      | Bus_read ret w b l \<Rightarrow> op_is_read op \<and> \<not> op_is_cfg op \<and> at_address op b l \<and> ret = ucast rba \<and>
          w = access_width width (op_format op AND EB_DATAX)
      | Config_read ret w a \<Rightarrow> op_is_read op \<and> op_is_cfg op \<and> a = op_address op \<and> ret = ucast rba \<and>
          w = access_width width (op_format op AND EB_DATAX))"

text \<open>Reading the error register back.\<close>

definition status_access :: "eb_width_t \<Rightarrow> u16 \<Rightarrow> access" where
  "status_access width rba =
     Config_read (ucast (rba OR 1)) (access_width width (width AND EB_DATAX)) (8 - ucast (width AND EB_DATAX))"

text \<open>The lane an operation is packed for.\<close>

definition op_select :: "eb_width_t \<Rightarrow> eb_operation \<Rightarrow> slave_select" where
  "op_select width op = \<lparr>sel_ok = True, sel_shift = op_shift width op, sel_width = op_format op AND EB_DATAX\<rparr>"

lemma op_size_cases: "port_widths width \<Longrightarrow> op_ok width op \<Longrightarrow> op_format op AND EB_DATAX \<in> {1, 2, 4, 8}"
  using op_ok_format(1) [of width op] by (auto simp: format_ok_def port_widths_def)

lemma decode_op_select:
  assumes "port_widths width" "op_ok width op"
  shows "decode_select (width AND EB_DATAX) (record_select (op_format op AND EB_DATAX) (op_shift width op)) = op_select width op"
proof -
  have "unat (width AND EB_DATAX) \<le> 8" using assms(1) by (auto simp: port_widths_def)
  then show ?thesis
    using op_lane(2) [OF assms] by (simp add: record_select_lane [OF op_size_cases [OF assms]] decode_select_of op_select_def)
qed

lemma full_format:
  assumes "format_ok data f" "f AND EB_ENDIAN_MASK \<noteq> EB_BIG_ENDIAN" "f AND EB_ENDIAN_MASK \<noteq> EB_LITTLE_ENDIAN"
    and "data \<in> {1, 2, 4, 8}"
  shows "f = data"
proof -
  have "f AND 0x0f \<in> {0, 1, 2, 3, 4, 5, 6, 7, 8, 9, 10, 11, 12, 13, 14, 15}" using nibble_check [of f] by (simp add: nibble_check_def)
  then have e: "((f AND EB_DATAX) OR EB_BIG_ENDIAN) AND EB_ENDIAN_MASK = EB_BIG_ENDIAN \<and>
      ((f AND EB_DATAX) OR EB_LITTLE_ENDIAN) AND EB_ENDIAN_MASK = EB_LITTLE_ENDIAN"
    by (elim insertE emptyE; simp)
  show ?thesis using assms e unfolding format_ok_def by metis
qed

lemma lane_addresses:
  assumes "port_widths width" "op_ok width op"
    and "take_bit (8 * unat (drop_bit 4 width)) (op_address op) = op_address op"
  defines "base \<equiv> op_address op AND address_filter_bits width"
  shows "at_address op (base OR ucast (addr_low_big_endian (width AND EB_DATAX) (op_select width op)))
           (base OR ucast (addr_low_little_endian (op_select width op)))"
    and "op_format op AND EB_ENDIAN_MASK \<noteq> EB_LITTLE_ENDIAN \<Longrightarrow>
           addr_low_big_endian (width AND EB_DATAX) (op_select width op) = op_low width op"
proof -
  let ?n = "8 * unat (drop_bit 4 width)" and ?d = "width AND EB_DATAX" and ?f = "op_format op"
  have w: "?d \<in> {1, 2, 4, 8}" and a: "unat (drop_bit 4 width) \<le> 8" "1 \<le> unat (drop_bit 4 width)"
    using assms(1) by (auto simp: port_widths_def)
  obtain j where j: "j \<le> 3" "unat ?d = 2 ^ j" "ucast ?d - 1 = (mask j :: u64)" using log_width [OF w] .
  have filt: "address_filter_bits width = mask ?n - mask j"
    using address_mask_eq [OF a(1)] unfolding address_filter_bits_def address_mask_of_def j(3) by simp
  have jn: "j \<le> ?n" using j(1) a(2) by simp
  have fits: "bit (op_address op) i \<Longrightarrow> i < ?n" for i
    using arg_cong [OF assms(3), of "\<lambda>w. bit w i"] by (simp add: bit_simps)
  have whole: "base OR ucast (op_low width op) = op_address op"
    unfolding base_def filt unat_op_low(2) [OF w] j(3)
    by (rule bit_word_eqI) (use fits in \<open>auto simp: bit_simps bit_mask_minus [OF jn]\<close>)
  note lane = op_lane [OF assms(1,2)]
  have big: "addr_low_big_endian ?d (op_select width op) = op_low width op" if "?f AND EB_ENDIAN_MASK \<noteq> EB_LITTLE_ENDIAN"
  proof (cases "?f AND EB_ENDIAN_MASK = EB_BIG_ENDIAN")
    case True
    then show ?thesis by (simp add: addr_low_big_endian_def op_select_def op_shift_of_def)
  next
    case False
    then have "?f = ?d" using full_format op_ok_format(1) [OF assms(1,2)] that w by blast
    then have sz: "?f AND EB_DATAX = ?d" by (simp add: and.assoc)
    then have "unat (op_low width op) = 0" by (intro lane(4)) simp
    then have "op_low width op = 0" by (simp add: unat_eq_0)
    then show ?thesis using False sz by (simp add: addr_low_big_endian_def op_select_def op_shift_of_def)
  qed
  then show "?f AND EB_ENDIAN_MASK \<noteq> EB_LITTLE_ENDIAN \<Longrightarrow>
      addr_low_big_endian ?d (op_select width op) = op_low width op" .
  have little: "addr_low_little_endian (op_select width op) = op_low width op" if "?f AND EB_ENDIAN_MASK \<noteq> EB_BIG_ENDIAN"
    using that by (simp add: addr_low_little_endian_def op_select_def op_shift_of_def)
  show "at_address op (base OR ucast (addr_low_big_endian ?d (op_select width op)))
           (base OR ucast (addr_low_little_endian (op_select width op)))"
    unfolding at_address_def using whole big little by simp
qed

text \<open>The value on the wire is the value of the operation.\<close>

lemma shifted_value:
  fixes v :: u64
  assumes "\<And>i. bit v i \<Longrightarrow> i < b" "k + b \<le> n" "k + b \<le> 64"
  shows "drop_bit k (take_bit n (push_bit k v)) AND mask b = v"
proof (rule bit_word_eqI)
  fix i
  show "bit (drop_bit k (take_bit n (push_bit k v)) AND mask b) i \<longleftrightarrow> bit v i" if "i < LENGTH(64)"
  proof (cases "bit v i")
    case True
    then have "i < b" by (rule assms(1))
    then show ?thesis using assms(2,3) True by (simp add: bit_simps)
  qed (simp add: bit_simps)
qed

lemma wire_value_op:
  assumes "port_widths width" "op_ok width op" "op_ok width lead" "op_format lead = op_format op" "\<not> op_is_read op"
    and "8 * unat (width AND EB_DATAX) \<le> n"
  shows "wire_value (op_select width lead) (take_bit n (push_bit (unat (op_shift width lead) * 8) (op_un_value op))) = op_un_value op"
proof -
  let ?s = "unat (op_format op AND EB_DATAX)" and ?k = "unat (op_shift width lead)"
  have fit: "?k + ?s \<le> unat (width AND EB_DATAX)" "unat (width AND EB_DATAX) \<le> 8"
    using op_lane(2) [OF assms(1,3)] assms(1,4) by (auto simp: lane_ok_def port_widths_def)
  have "op_un_value op AND data_mask (op_format op AND EB_DATAX) = op_un_value op"
    using op_ok_format(3) [OF assms(1,2,5)] .
  moreover have dm: "data_mask (op_format op AND EB_DATAX) = mask (8 * ?s)" by (rule data_mask_eq) (use fit in simp)
  ultimately have small: "bit (op_un_value op) i \<Longrightarrow> i < 8 * ?s" for i
    by (metis bit_and_iff bit_mask_iff)
  have "?k * 8 + 8 * ?s \<le> n" "?k * 8 + 8 * ?s \<le> 64" using fit assms(6) by linarith+
  then show ?thesis
    unfolding wire_value_def op_select_def slave_select.simps assms(4) dm
    by (intro shifted_value small) simp_all
qed

section \<open>A record of operations\<close>

text \<open>The operations that share a record: writes \<open>ws\<close> to one address or to consecutive ones, then reads \<open>rs\<close>.\<close>

definition packable :: "eb_width_t \<Rightarrow> bool \<Rightarrow> eb_operation list \<Rightarrow> eb_operation list \<Rightarrow> bool" where
  "packable width fifo ws rs \<longleftrightarrow>
     (\<forall>op \<in> set (ws @ rs). op_ok width op \<and> op_format op = op_format (hd (ws @ rs))) \<and>
     (\<forall>op \<in> set ws. \<not> op_is_read op \<and> op_is_cfg op = op_is_cfg (hd ws)) \<and>
     (\<forall>op \<in> set rs. op_is_read op \<and> op_is_cfg op = op_is_cfg (hd rs) \<and> op_low width op = op_low width (hd (ws @ rs))) \<and>
     (\<forall>i < length ws. op_address (ws ! i) =
        op_address (hd ws) + of_nat i * (if fifo then 0 else ucast (width AND EB_DATAX))) \<and>
     length ws \<le> 255 \<and> length rs \<le> 255"

text \<open>\<open>rb\<close>: the record reads the error register; \<open>cyc\<close>: it ends the cycle.\<close>

definition op_record ::
    "eb_width_t \<Rightarrow> u16 \<Rightarrow> bool \<Rightarrow> eb_operation list \<Rightarrow> eb_operation list \<Rightarrow> bool \<Rightarrow> bool \<Rightarrow> wire_record" where
  "op_record width rba fifo ws rs rb cyc =
     (let n = 8 * alignment_of width;
          (w, k) = (if ws @ rs = [] then (width AND EB_DATAX, 0)
                    else (op_format (hd (ws @ rs)) AND EB_DATAX, op_shift width (hd (ws @ rs))))
      in \<lparr>wr_flags = EB_RECORD_BCA OR EB_RECORD_RFF OR (if rb \<or> rs \<noteq> [] \<and> op_is_cfg (hd rs) then EB_RECORD_RCA else 0) OR
            (if ws \<noteq> [] \<and> op_is_cfg (hd ws) then EB_RECORD_WCA else 0) OR (if fifo then EB_RECORD_WFF else 0) OR
            (if cyc then EB_RECORD_CYC else 0),
          wr_select = record_select w k,
          wr_bwa = (if ws = [] then 0 else op_address (hd ws)),
          wr_writes = map (\<lambda>op. take_bit n (push_bit (unat k * 8) (op_un_value op))) ws,
          wr_bra = (if rb then ucast (rba OR 1) else if rs = [] then 0 else ucast rba),
          wr_reads = (if rb then [8 - ucast (width AND EB_DATAX)] else map op_address rs)\<rparr>)"

text \<open>The configuration space is big-endian, and a configuration read is subject to the address width of the port.\<close>

definition config_readable :: "eb_width_t \<Rightarrow> eb_operation \<Rightarrow> bool" where
  "config_readable width op \<longleftrightarrow> (op_is_read op \<and> op_is_cfg op \<longrightarrow>
     op_format op AND EB_ENDIAN_MASK \<noteq> EB_LITTLE_ENDIAN \<and> take_bit (8 * unat (drop_bit 4 width)) (op_address op) = op_address op)"

lemma record_flags_bits:
  "(EB_RECORD_BCA OR EB_RECORD_RFF OR (if rca then EB_RECORD_RCA else 0) OR (if wca then EB_RECORD_WCA else 0) OR
     (if wff then EB_RECORD_WFF else 0) OR (if cyc then EB_RECORD_CYC else 0)) AND EB_RECORD_RCA \<noteq> 0 \<longleftrightarrow> rca"
  "(EB_RECORD_BCA OR EB_RECORD_RFF OR (if rca then EB_RECORD_RCA else 0) OR (if wca then EB_RECORD_WCA else 0) OR
     (if wff then EB_RECORD_WFF else 0) OR (if cyc then EB_RECORD_CYC else 0)) AND EB_RECORD_WCA \<noteq> 0 \<longleftrightarrow> wca"
  "(EB_RECORD_BCA OR EB_RECORD_RFF OR (if rca then EB_RECORD_RCA else 0) OR (if wca then EB_RECORD_WCA else 0) OR
     (if wff then EB_RECORD_WFF else 0) OR (if cyc then EB_RECORD_CYC else 0)) AND EB_RECORD_WFF \<noteq> 0 \<longleftrightarrow> wff"
  "(EB_RECORD_BCA OR EB_RECORD_RFF OR (if rca then EB_RECORD_RCA else 0) OR (if wca then EB_RECORD_WCA else 0) OR
     (if wff then EB_RECORD_WFF else 0) OR (if cyc then EB_RECORD_CYC else 0)) AND EB_RECORD_CYC = (if cyc then EB_RECORD_CYC else 0)"
  by (simp_all split: if_split)

lemma alignment_fits:
  assumes "port_widths width"
  shows "unat (width AND EB_DATAX) \<le> alignment_of width" "unat (drop_bit 4 width) \<le> alignment_of width"
  using assms unfolding port_widths_def alignment_of_def Let_def
  by (elim conjE insertE emptyE; simp)+

lemma length_write_accesses [simp]: "length (write_accesses widths sel config stride vs a b l) = length vs"
  by (induction vs arbitrary: a b l) auto

lemma nth_write_accesses:
  "i < length vs \<Longrightarrow> write_accesses widths sel config stride vs a b l ! i =
     (if config then Config_write (access_width widths (sel_width sel)) (a + of_nat i * stride) (wire_value sel (vs ! i))
      else Bus_write (access_width widths (sel_width sel)) (b + of_nat i * stride) (l + of_nat i * stride) (wire_value sel (vs ! i)))"
proof (induction vs arbitrary: a b l i)
  case (Cons v vs)
  then show ?case by (cases i) (simp_all add: algebra_simps)
qed simp

lemma at_address_shift:
  "at_address op b l \<Longrightarrow> op_format op' = op_format op \<Longrightarrow> op_address op' = op_address op + d \<Longrightarrow> at_address op' (b + d) (l + d)"
  by (simp add: at_address_def)

lemma writes_perform:
  assumes pw: "port_widths width" and pk: "packable width fifo ws rs" and ne: "ws \<noteq> []"
    and stride: "stride = (if fifo then 0 else ucast (width AND EB_DATAX))"
  defines "lead \<equiv> hd ws" and "base \<equiv> op_address (hd ws) AND address_filter_bits width"
  shows "list_all2 (performs width rba) ws
    (write_accesses width (op_select width lead) (op_is_cfg lead) stride
       (map (\<lambda>op. take_bit (8 * alignment_of width) (push_bit (unat (op_shift width lead) * 8) (op_un_value op))) ws)
       (op_address lead) (base OR ucast (addr_low_big_endian (width AND EB_DATAX) (op_select width lead)))
       (base OR ucast (addr_low_little_endian (op_select width lead))))"
proof (rule list_all2_all_nthI)
  fix i
  assume i: "i < length ws"
  let ?op = "ws ! i"
  have hd: "lead \<in> set ws" using ne by (simp add: lead_def)
  have mem: "?op \<in> set ws" using i by simp
  have h: "hd (ws @ rs) = lead" using ne by (simp add: lead_def)
  have all: "\<forall>op \<in> set ws. op_ok width op \<and> op_format op = op_format lead \<and> \<not> op_is_read op \<and> op_is_cfg op = op_is_cfg lead"
    using pk unfolding packable_def h lead_def set_append by blast
  have ok: "op_ok width ?op" "op_ok width lead" "op_format lead = op_format ?op" "\<not> op_is_read ?op" "op_is_cfg ?op = op_is_cfg lead"
    using bspec [OF all mem] bspec [OF all hd] by auto
  have addr: "op_address ?op = op_address lead + of_nat i * stride"
    using pk i unfolding packable_def stride lead_def by blast
  have v: "wire_value (op_select width lead) (take_bit (8 * alignment_of width) (push_bit (unat (op_shift width lead) * 8) (op_un_value ?op))) = op_un_value ?op"
    using alignment_fits(1) [OF pw] by (intro wire_value_op [OF pw ok(1-4)]) simp
  have sw: "sel_width (op_select width lead) = op_format ?op AND EB_DATAX" by (simp add: op_select_def ok(3))
  show "performs width rba ?op (write_accesses width (op_select width lead) (op_is_cfg lead) stride
       (map (\<lambda>op. take_bit (8 * alignment_of width) (push_bit (unat (op_shift width lead) * 8) (op_un_value op))) ws)
       (op_address lead) (base OR ucast (addr_low_big_endian (width AND EB_DATAX) (op_select width lead)))
       (base OR ucast (addr_low_little_endian (op_select width lead))) ! i)"
  proof (cases "op_is_cfg lead")
    case True
    then show ?thesis using i ok(4,5) addr by (simp add: nth_write_accesses performs_def v sw)
  next
    case False
    have "at_address lead (base OR ucast (addr_low_big_endian (width AND EB_DATAX) (op_select width lead)))
       (base OR ucast (addr_low_little_endian (op_select width lead)))"
      unfolding base_def lead_def [symmetric] using op_ok_aligned(2) [OF pw ok(2) False] by (rule lane_addresses(1) [OF pw ok(2)])
    from at_address_shift [OF this ok(3) [symmetric] addr] show ?thesis
      using False i ok(4,5) by (simp add: nth_write_accesses performs_def v sw)
  qed
qed simp


lemma status_read:
  assumes "port_widths width"
  shows "read_access width \<lparr>sel_ok = True, sel_shift = 0, sel_width = width AND EB_DATAX\<rparr> True ret (8 - ucast (width AND EB_DATAX)) =
    Config_read ret (access_width width (width AND EB_DATAX)) (8 - ucast (width AND EB_DATAX))"
proof -
  have d: "width AND EB_DATAX \<in> {1, 2, 4, 8}" and a: "1 \<le> unat (drop_bit 4 width)" "unat (drop_bit 4 width) \<le> 8"
    using assms by (auto simp: port_widths_def)
  obtain j where j: "j \<le> 3" "ucast (width AND EB_DATAX) - 1 = (mask j :: u64)" using log_width [OF d] .
  have "8 - ucast (width AND EB_DATAX) = (mask 3 - mask j :: u64)"
    unfolding j(2) [symmetric] by (simp add: mask_eq_exp_minus_1)
  moreover have "address_filter_bits width = mask (8 * unat (drop_bit 4 width)) - mask j"
    using address_mask_eq [OF a(2)] unfolding address_filter_bits_def address_mask_of_def j(2) by simp
  moreover have "(mask 3 - mask j) AND (mask (8 * unat (drop_bit 4 width)) - mask j) = (mask 3 - mask j :: u64)"
    by (rule bit_word_eqI) (use j(1) a in \<open>auto simp: bit_and_iff bit_mask_minus\<close>)
  ultimately have "(8 - ucast (width AND EB_DATAX)) AND address_filter_bits width = 8 - ucast (width AND EB_DATAX)" by simp
  then show ?thesis by (simp add: read_access_def addr_low_big_endian_def)
qed

lemma reads_perform:
  assumes pw: "port_widths width" and pk: "packable width fifo ws rs" and ne: "rs \<noteq> []"
    and cr: "\<forall>op \<in> set rs. config_readable width op"
  defines "lead \<equiv> hd (ws @ rs)"
  shows "list_all2 (performs width rba) rs
    (map (read_access width (op_select width lead) (op_is_cfg (hd rs)) (ucast rba)) (map op_address rs))"
proof (rule list_all2_all_nthI)
  fix i
  assume i: "i < length rs"
  let ?op = "rs ! i"
  have mem: "?op \<in> set rs" using i by simp
  have "\<forall>op \<in> set rs. op_ok width op \<and> op_format op = op_format lead \<and> op_is_read op \<and> op_is_cfg op = op_is_cfg (hd rs) \<and>
      op_low width op = op_low width lead"
    using pk unfolding packable_def lead_def set_append by blast
  then have ok: "op_ok width ?op" "op_format lead = op_format ?op" "op_is_read ?op" "op_is_cfg ?op = op_is_cfg (hd rs)"
      "op_low width lead = op_low width ?op"
    using mem by auto
  have sel: "op_select width lead = op_select width ?op" by (simp add: op_select_def ok)
  let ?base = "op_address ?op AND address_filter_bits width"
  show "performs width rba ?op (map (read_access width (op_select width lead) (op_is_cfg (hd rs)) (ucast rba)) (map op_address rs) ! i)"
  proof (cases "op_is_cfg ?op")
    case False
    have "at_address ?op (?base OR ucast (addr_low_big_endian (width AND EB_DATAX) (op_select width ?op)))
       (?base OR ucast (addr_low_little_endian (op_select width ?op)))"
      using op_ok_aligned(2) [OF pw ok(1) False] by (rule lane_addresses(1) [OF pw ok(1)])
    then show ?thesis
      using False i ok(3) by (simp add: performs_def read_access_def Let_def sel flip: ok(4)) (simp add: op_select_def)
  next
    case True
    then have c: "op_format ?op AND EB_ENDIAN_MASK \<noteq> EB_LITTLE_ENDIAN" "take_bit (8 * unat (drop_bit 4 width)) (op_address ?op) = op_address ?op"
      using cr mem ok(3) by (auto simp: config_readable_def)
    have "at_address ?op (?base OR ucast (addr_low_big_endian (width AND EB_DATAX) (op_select width ?op)))
       (?base OR ucast (addr_low_little_endian (op_select width ?op)))"
      using c(2) by (rule lane_addresses(1) [OF pw ok(1)])
    then show ?thesis
      using True c(1) i ok(3) by (simp add: performs_def read_access_def Let_def sel at_address_def flip: ok(4)) (simp add: op_select_def)
  qed
qed simp

lemma decode_full_select:
  assumes "port_widths width"
  shows "decode_select (width AND EB_DATAX) (record_select (width AND EB_DATAX) 0) =
    \<lparr>sel_ok = True, sel_shift = 0, sel_width = width AND EB_DATAX\<rparr>"
proof -
  have d: "width AND EB_DATAX \<in> {1, 2, 4, 8}" using assms by (simp add: port_widths_def)
  then have "lane_ok (unat (width AND EB_DATAX)) (unat (width AND EB_DATAX)) 0" by (auto simp: lane_ok_def)
  moreover have "unat (width AND EB_DATAX) \<le> 8" using d by auto
  ultimately show ?thesis by (simp add: record_select_lane [OF d] decode_select_of)
qed

lemma full_format_select:
  assumes "port_widths width" "op_ok width op" "op_format op = width AND EB_DATAX"
  shows "op_select width op = \<lparr>sel_ok = True, sel_shift = 0, sel_width = width AND EB_DATAX\<rparr>"
proof -
  have sz: "op_format op AND EB_DATAX = width AND EB_DATAX" by (simp add: assms(3) and.assoc)
  then have "unat (op_low width op) = 0" by (intro op_lane(4) [OF assms(1,2)]) simp
  then have low: "op_low width op = 0" by (simp add: unat_eq_0)
  have "op_format op AND EB_ENDIAN_MASK \<noteq> EB_BIG_ENDIAN" by (simp add: assms(3) and.assoc)
  then show ?thesis using sz low by (simp add: op_select_def op_shift_of_def)
qed

text \<open>A record makes the slave perform its operations, in order, and then read the error register if it
  is a read-back.\<close>

lemma record_performs:
  assumes pw: "port_widths width" and pk: "packable width fifo ws rs" and cr: "\<forall>op \<in> set rs. config_readable width op"
    and rb: "rb \<Longrightarrow> rs = [] \<and> (ws \<noteq> [] \<longrightarrow> op_format (hd ws) = width AND EB_DATAX)"
  shows "\<exists>as. record_accesses width (op_record width rba fifo ws rs rb cyc) = as @ (if rb then [status_access width rba] else []) \<and>
    list_all2 (performs width rba) (ws @ rs) as"
proof (cases "ws @ rs = []")
  case True
  have "record_accesses width (op_record width rba fifo [] [] rb cyc) = (if rb then [status_access width rba] else [])"
    unfolding record_accesses_def op_record_def Let_def
    by (simp add: decode_full_select [OF pw] status_read [OF pw] status_access_def)
  with True show ?thesis by auto
next
  case False
  define lead where "lead = hd (ws @ rs)"
  have lead: "op_ok width lead" using pk False hd_in_set [OF False] unfolding packable_def lead_def by blast
  define r where "r = op_record width rba fifo ws rs rb cyc"
  have sel: "decode_select (width AND EB_DATAX) (wr_select r) = op_select width lead"
    using decode_op_select [OF pw lead] False by (auto simp: r_def op_record_def Let_def lead_def)
  have f: "wr_flags r AND EB_RECORD_RCA \<noteq> 0 \<longleftrightarrow> rb \<or> rs \<noteq> [] \<and> op_is_cfg (hd rs)"
      "wr_flags r AND EB_RECORD_WCA \<noteq> 0 \<longleftrightarrow> ws \<noteq> [] \<and> op_is_cfg (hd ws)" "wr_flags r AND EB_RECORD_WFF \<noteq> 0 \<longleftrightarrow> fifo"
    unfolding r_def op_record_def Let_def split_def wire_record.simps by (rule record_flags_bits)+
  define base where "base = wr_bwa r AND address_filter_bits width"
  define was where "was = write_accesses width (op_select width lead) (ws \<noteq> [] \<and> op_is_cfg (hd ws))
     (if fifo then 0 else ucast (width AND EB_DATAX)) (wr_writes r) (wr_bwa r)
     (base OR ucast (addr_low_big_endian (width AND EB_DATAX) (op_select width lead))) (base OR ucast (addr_low_little_endian (op_select width lead)))"
  define ras where "ras = map (read_access width (op_select width lead) (rb \<or> rs \<noteq> [] \<and> op_is_cfg (hd rs)) (wr_bra r)) (wr_reads r)"
  have acc: "record_accesses width r = was @ ras"
    unfolding record_accesses_def Let_def sel f was_def ras_def base_def ..
  have w: "list_all2 (performs width rba) ws was"
  proof (cases "ws = []")
    case True
    then show ?thesis by (simp add: was_def r_def op_record_def Let_def)
  next
    case ne: False
    have "lead = hd ws" using ne by (simp add: lead_def)
    with ne writes_perform [OF pw pk ne refl, of rba] show ?thesis
      by (simp add: was_def base_def r_def op_record_def Let_def)
  qed
  show ?thesis
  proof (cases rb)
    case True
    with rb False have ne: "rs = []" "ws \<noteq> []" "op_format lead = width AND EB_DATAX" by (auto simp: lead_def)
    have "ras = [status_access width rba]"
      using True full_format_select [OF pw lead ne(3)] status_read [OF pw]
      by (simp add: ras_def r_def op_record_def Let_def status_access_def)
    with w acc ne True show ?thesis unfolding r_def by auto
  next
    case nrb: False
    have "list_all2 (performs width rba) rs ras"
    proof (cases "rs = []")
      case True
      then show ?thesis using nrb by (simp add: ras_def r_def op_record_def Let_def)
    next
      case ne: False
      with reads_perform [OF pw pk ne cr, of rba] nrb show ?thesis
        by (simp add: ras_def r_def op_record_def Let_def lead_def)
    qed
    with w acc nrb show ?thesis unfolding r_def by (auto intro: list_all2_appendI)
  qed
qed

end
