(* ===== verification/Eb_Pack.thy ===== *)
theory Eb_Pack
  imports Eb_Records
begin

text \<open>
  Packing a cycle: which operations the master puts into each record, that the records fit the
  buffer, that packing ends, and that the records together ask for the operations of the cycle in order.
\<close>

section \<open>Scanning the operations\<close>

text \<open>A run of operations that continues a record of writes.\<close>

fun run_of :: "eb_memory \<Rightarrow> u8 \<Rightarrow> u8 \<Rightarrow> eb_address_t \<Rightarrow> eb_address_t \<Rightarrow> eb_ptr list \<Rightarrow> bool" where
  "run_of m wcfg format stride bwa [] \<longleftrightarrow> True"
| "run_of m wcfg format stride bwa (p # ps) \<longleftrightarrow>
     \<not> op_is_read (op_at m p) \<and> op_flags (op_at m p) AND EB_OP_CFG_SPACE = wcfg \<and> op_format (op_at m p) = format \<and>
     op_address (op_at m p) = bwa + stride \<and> run_of m wcfg format stride (bwa + stride) ps"

definition counted :: "u8 \<Rightarrow> nat \<Rightarrow> nat" where
  "counted cfg n = (if cfg = 0 then n else 0)"

lemma counted_add: "counted cfg (a + b) = counted cfg a + counted cfg b"
  by (simp add: counted_def)

lemma unat_count_op:
  assumes "cnt < maxops"
  shows "unat (count_op cfg cnt) = unat cnt + counted cfg 1" and "unat cnt + counted cfg 1 \<le> unat maxops"
proof -
  have "unat cnt + 1 \<le> unat maxops" "unat maxops < 2 ^ 32" using assms unsigned_less [of maxops] by (simp_all add: word_less_nat_alt)
  moreover from this have "unat (cnt + 1) = unat cnt + 1" by (subst unat_add_lem [THEN iffD1]) simp_all
  ultimately show "unat (count_op cfg cnt) = unat cnt + counted cfg 1" "unat cnt + counted cfg 1 \<le> unat maxops"
    by (simp_all add: count_op_def counted_def)
qed

lemma run_of_nth:
  "run_of m wcfg format stride bwa ps \<Longrightarrow> i < length ps \<Longrightarrow>
     \<not> op_is_read (op_at m (ps ! i)) \<and> op_flags (op_at m (ps ! i)) AND EB_OP_CFG_SPACE = wcfg \<and>
     op_format (op_at m (ps ! i)) = format \<and> op_address (op_at m (ps ! i)) = bwa + of_nat (i + 1) * stride"
proof (induction ps arbitrary: bwa i)
  case (Cons p ps)
  then show ?case by (cases i) (auto simp: algebra_simps)
qed simp

lemma scan_fifo_sequence:
  "op_chain m p ps \<Longrightarrow> scan_fifo m wcfg format maxops bwa p n cnt = scan_sequence m wcfg format maxops 0 bwa p n cnt"
proof (induction ps arbitrary: p n cnt)
  case Nil
  then show ?case by (simp add: scan_fifo.simps scan_sequence.simps)
next
  case (Cons x ps)
  then show ?case
    unfolding op_chain_Cons by (subst scan_fifo.simps, subst scan_sequence.simps) simp
qed

lemma scan_sequence_spec:
  "op_chain m p ps \<Longrightarrow> n \<le> 255 \<Longrightarrow> unat cnt \<le> unat maxops \<Longrightarrow>
   \<exists>k cnt'. scan_sequence m wcfg format maxops stride bwa p n cnt = Some (head_ptr (drop k ps), n + k, cnt') \<and>
     k \<le> length ps \<and> n + k \<le> 255 \<and> run_of m wcfg format stride bwa (take k ps) \<and>
     unat cnt' = unat cnt + counted wcfg k \<and> unat cnt' \<le> unat maxops"
proof (induction ps arbitrary: p n cnt bwa)
  case Nil
  then show ?case by (intro exI [of _ 0] exI [of _ cnt]) (simp add: scan_sequence.simps counted_def)
next
  case (Cons x ps)
  have x: "p = x" "x \<noteq> EB_NULL" "EB_OPERATION m x = Some (op_at m x)" and c: "op_chain m (op_next (op_at m x)) ps"
    using Cons.prems(1) unfolding op_chain_Cons by auto
  let ?op = "op_at m x"
  let ?stop = "op_address ?op \<noteq> bwa + stride \<or> op_flags ?op AND EB_OP_MASK \<noteq> EB_OP_WRITE \<or>
     op_flags ?op AND EB_OP_CFG_SPACE \<noteq> wcfg \<or> op_format ?op \<noteq> format \<or> 255 \<le> n \<or> maxops \<le> cnt"
  show ?case
  proof (cases ?stop)
    case True
    then have "scan_sequence m wcfg format maxops stride bwa p n cnt = Some (x, n, cnt)"
      by (subst scan_sequence.simps) (simp add: x)
    then show ?thesis using Cons.prems(2,3) by (intro exI [of _ 0] exI [of _ cnt]) (simp add: counted_def)
  next
    case False
    then have "cnt < maxops" "n + 1 \<le> 255" by auto
    note cnt = unat_count_op [OF this(1), of wcfg]
    obtain k cnt' where k: "scan_sequence m wcfg format maxops stride (bwa + stride) (op_next ?op) (n + 1) (count_op wcfg cnt) =
        Some (head_ptr (drop k ps), n + 1 + k, cnt')" "k \<le> length ps" "n + 1 + k \<le> 255"
        "run_of m wcfg format stride (bwa + stride) (take k ps)"
        "unat cnt' = unat (count_op wcfg cnt) + counted wcfg k" "unat cnt' \<le> unat maxops"
      using Cons.IH [OF c \<open>n + 1 \<le> 255\<close>, of "count_op wcfg cnt" "bwa + stride"] cnt by auto
    have "scan_sequence m wcfg format maxops stride bwa p n cnt = Some (head_ptr (drop (Suc k) (x # ps)), n + Suc k, cnt')"
      using False k(1) by (subst scan_sequence.simps) (simp add: x)
    moreover have "counted wcfg (Suc k) = counted wcfg 1 + counted wcfg k" by (simp add: counted_def)
    ultimately show ?thesis
      using k(2-6) cnt(1) False by (intro exI [of _ "Suc k"] exI [of _ cnt']) (simp add: op_is_read_def)
  qed
qed

text \<open>The reads that continue a record.\<close>

definition reads_of :: "eb_memory \<Rightarrow> u8 \<Rightarrow> u8 \<Rightarrow> u8 \<Rightarrow> u8 \<Rightarrow> eb_ptr list \<Rightarrow> bool" where
  "reads_of m data rcfg format low ps \<longleftrightarrow>
     (\<forall>p \<in> set ps. op_is_read (op_at m p) \<and> op_flags (op_at m p) AND EB_OP_CFG_SPACE = rcfg \<and>
        op_format (op_at m p) = format \<and> op_address (op_at m p) AND (ucast data - 1) = ucast low)"

lemma scan_reads_spec:
  "op_chain m p ps \<Longrightarrow> n \<le> 255 \<Longrightarrow> unat cnt \<le> unat maxops \<Longrightarrow>
   \<exists>k cnt'. scan_reads m data rcfg format low maxops p n cnt = Some (head_ptr (drop k ps), n + k, cnt') \<and>
     k \<le> length ps \<and> n + k \<le> 255 \<and> reads_of m data rcfg format low (take k ps) \<and>
     unat cnt' = unat cnt + counted rcfg k \<and> unat cnt' \<le> unat maxops"
proof (induction ps arbitrary: p n cnt)
  case Nil
  then show ?case by (intro exI [of _ 0] exI [of _ cnt]) (simp add: scan_reads.simps counted_def reads_of_def)
next
  case (Cons x ps)
  have x: "p = x" "x \<noteq> EB_NULL" "EB_OPERATION m x = Some (op_at m x)" and c: "op_chain m (op_next (op_at m x)) ps"
    using Cons.prems(1) unfolding op_chain_Cons by auto
  let ?op = "op_at m x"
  let ?stop = "op_flags ?op AND EB_OP_MASK = EB_OP_WRITE \<or> op_flags ?op AND EB_OP_CFG_SPACE \<noteq> rcfg \<or> op_format ?op \<noteq> format \<or>
     op_address ?op AND (ucast data - 1) \<noteq> ucast low \<or> 255 \<le> n \<or> maxops \<le> cnt"
  show ?case
  proof (cases ?stop)
    case True
    then have "scan_reads m data rcfg format low maxops p n cnt = Some (x, n, cnt)"
      by (subst scan_reads.simps) (simp add: x)
    then show ?thesis using Cons.prems(2,3) by (intro exI [of _ 0] exI [of _ cnt]) (simp add: counted_def reads_of_def)
  next
    case False
    then have "cnt < maxops" "n + 1 \<le> 255" by auto
    note cnt = unat_count_op [OF this(1), of rcfg]
    obtain k cnt' where k: "scan_reads m data rcfg format low maxops (op_next ?op) (n + 1) (count_op rcfg cnt) =
        Some (head_ptr (drop k ps), n + 1 + k, cnt')" "k \<le> length ps" "n + 1 + k \<le> 255"
        "reads_of m data rcfg format low (take k ps)"
        "unat cnt' = unat (count_op rcfg cnt) + counted rcfg k" "unat cnt' \<le> unat maxops"
      using Cons.IH [OF c \<open>n + 1 \<le> 255\<close>, of "count_op rcfg cnt"] cnt by auto
    have "scan_reads m data rcfg format low maxops p n cnt = Some (head_ptr (drop (Suc k) (x # ps)), n + Suc k, cnt')"
      using False k(1) by (subst scan_reads.simps) (simp add: x)
    moreover have "counted rcfg (Suc k) = counted rcfg 1 + counted rcfg k" by (simp add: counted_def)
    ultimately show ?thesis
      using k(2-6) cnt(1) False by (intro exI [of _ "Suc k"] exI [of _ cnt']) (simp add: op_is_read_def reads_of_def)
  qed
qed

section \<open>The plan of a record\<close>

text \<open>What \<open>plan_writes\<close> takes from the front of the list.\<close>

definition writes_plan :: "eb_memory \<Rightarrow> u8 \<Rightarrow> u32 \<Rightarrow> eb_ptr list \<Rightarrow> u32 \<Rightarrow> pack \<Rightarrow> bool" where
  "writes_plan m data maxops ps cnt pk \<longleftrightarrow>
     (let w = pk_wcount pk; lead = op_at m (hd ps)
      in w \<le> length ps \<and> w \<le> 255 \<and> pk_scanp pk = head_ptr (drop w ps) \<and> pk_rcount pk = 0 \<and> pk_rcfg pk = 0 \<and>
         unat (pk_ops pk) = unat cnt + counted (pk_wcfg pk) w \<and> unat (pk_ops pk) \<le> unat maxops \<and>
         (if w = 0 then pk_wcfg pk = 0 \<and> \<not> pk_fifo pk \<and> pk_format pk = EB_DATAX \<and> pk_low_addr pk = 0 \<and>
            (ps = [] \<or> maxops \<le> cnt \<or> op_is_read lead)
          else pk_wcfg pk = op_flags lead AND EB_OP_CFG_SPACE \<and> pk_format pk = op_format lead \<and>
            pk_low_addr pk = ucast (op_address lead AND (ucast data - 1)) \<and> \<not> op_is_read lead \<and>
            run_of m (pk_wcfg pk) (pk_format pk) (if pk_fifo pk then 0 else ucast data) (op_address lead) (tl (take w ps))))"

lemma plan_writes_spec:
  assumes c: "op_chain m p ps" and cnt: "unat cnt \<le> unat maxops"
  shows "\<exists>pk. plan_writes m data maxops p cnt = Some pk \<and> writes_plan m data maxops ps cnt pk"
proof (cases "ps = [] \<or> maxops \<le> cnt \<or> op_is_read (op_at m (hd ps))")
  case True
  define none where "none = \<lparr>pk_scanp = p, pk_ops = cnt, pk_wcount = 0, pk_fifo = False, pk_wcfg = 0, pk_rcount = 0,
                 pk_rcfg = 0, pk_format = EB_DATAX, pk_low_addr = 0\<rparr>"
  have "plan_writes m data maxops p cnt = Some none"
    using True op_chain_head [OF c] c unfolding none_def
    by (cases ps) (auto simp: plan_writes_def Let_def op_chain_Cons op_is_read_def simp del: chain.simps(2))
  moreover have "writes_plan m data maxops ps cnt none"
    using True cnt op_chain_head [OF c] by (simp add: writes_plan_def none_def counted_def)
  ultimately show ?thesis by blast
next
  case False
  then obtain x qs where ps: "ps = x # qs" by (cases ps) auto
  have x: "p = x" "x \<noteq> EB_NULL" "EB_OPERATION m x = Some (op_at m x)" and c': "op_chain m (op_next (op_at m x)) qs"
    using c unfolding ps op_chain_Cons by auto
  let ?op = "op_at m x"
  define wcfg where "wcfg = op_flags ?op AND EB_OP_CFG_SPACE"
  have lt: "cnt < maxops" and wr: "op_flags ?op AND EB_OP_MASK = EB_OP_WRITE" using False ps by (auto simp: op_is_read_def)
  note n1 = unat_count_op [OF lt, of wcfg]
  define single where "single = \<lparr>pk_scanp = op_next ?op, pk_ops = count_op wcfg cnt, pk_wcount = 1, pk_fifo = False, pk_wcfg = wcfg,
     pk_rcount = 0, pk_rcfg = 0, pk_format = op_format ?op, pk_low_addr = ucast (op_address ?op AND (ucast data - 1))\<rparr>"
  have single: "writes_plan m data maxops ps cnt single"
    using n1 wr op_chain_head [OF c'] by (simp add: writes_plan_def single_def ps wcfg_def op_is_read_def)
  have start: "plan_writes m data maxops p cnt =
     (if maxops \<le> count_op wcfg cnt \<or> op_next ?op = EB_NULL then Some single
      else do {
        second \<leftarrow> EB_OPERATION m (op_next ?op);
        if op_flags second AND EB_OP_MASK \<noteq> EB_OP_WRITE \<or> op_flags second AND EB_OP_CFG_SPACE \<noteq> wcfg \<or>
           op_format second \<noteq> op_format ?op then Some single
        else if op_address second = op_address ?op then do {
             (scanp, wcount, ops) \<leftarrow> scan_fifo m wcfg (op_format ?op) maxops (op_address ?op) (op_next second) 2 (count_op wcfg (count_op wcfg cnt));
             Some (single\<lparr>pk_scanp := scanp, pk_ops := ops, pk_wcount := wcount, pk_fifo := True\<rparr>)
           } else if op_address second = op_address ?op + ucast data then do {
             (scanp, wcount, ops) \<leftarrow> scan_sequence m wcfg (op_format ?op) maxops (ucast data) (op_address ?op + ucast data) (op_next second) 2 (count_op wcfg (count_op wcfg cnt));
             Some (single\<lparr>pk_scanp := scanp, pk_ops := ops, pk_wcount := wcount\<rparr>)
           } else Some single
      })"
    unfolding plan_writes_def Let_def single_def wcfg_def using not_le [of maxops cnt, THEN iffD2, OF lt] wr x by (simp cong: if_cong)
  show ?thesis
  proof (cases "maxops \<le> count_op wcfg cnt \<or> qs = []")
    case True
    then have "maxops \<le> count_op wcfg cnt \<or> op_next ?op = EB_NULL" using op_chain_head [OF c'] by auto
    then show ?thesis using start single by auto
  next
    case more: False
    then obtain y rs where qs: "qs = y # rs" by (cases qs) auto
    have y: "op_next ?op = y" "y \<noteq> EB_NULL" "EB_OPERATION m y = Some (op_at m y)" and c2: "op_chain m (op_next (op_at m y)) rs"
      using c' unfolding qs op_chain_Cons by auto
    let ?op2 = "op_at m y"
    have "count_op wcfg cnt < maxops" using more by auto
    note n2 = unat_count_op [OF this, of wcfg]
    show ?thesis
    proof (cases "op_flags ?op2 AND EB_OP_MASK \<noteq> EB_OP_WRITE \<or> op_flags ?op2 AND EB_OP_CFG_SPACE \<noteq> wcfg \<or>
        op_format ?op2 \<noteq> op_format ?op \<or> (op_address ?op2 \<noteq> op_address ?op \<and> op_address ?op2 \<noteq> op_address ?op + ucast data)")
      case True
      then have "plan_writes m data maxops p cnt = Some single" using start more y by auto
      then show ?thesis using single by auto
    next
      case chain: False
      define fifo where "fifo \<longleftrightarrow> op_address ?op2 = op_address ?op"
      define stride where "stride = (if fifo then 0 else ucast data :: eb_address_t)"
      obtain k cnt' where k: "scan_sequence m wcfg (op_format ?op) maxops stride (op_address ?op + stride) (op_next ?op2) 2 (count_op wcfg (count_op wcfg cnt)) =
          Some (head_ptr (drop k rs), 2 + k, cnt')" "k \<le> length rs" "2 + k \<le> 255" "run_of m wcfg (op_format ?op) stride (op_address ?op + stride) (take k rs)"
          "unat cnt' = unat (count_op wcfg (count_op wcfg cnt)) + counted wcfg k" "unat cnt' \<le> unat maxops"
        using scan_sequence_spec [OF c2, of 2 "count_op wcfg (count_op wcfg cnt)" maxops wcfg "op_format ?op" stride "op_address ?op + stride"] n2 by auto
      let ?pk = "single\<lparr>pk_scanp := head_ptr (drop k rs), pk_ops := cnt', pk_wcount := 2 + k, pk_fifo := fifo\<rparr>"
      have "plan_writes m data maxops p cnt = Some ?pk"
        using start more y chain k(1) scan_fifo_sequence [OF c2]
        by (auto simp: stride_def fifo_def single_def)
      moreover have "writes_plan m data maxops ps cnt ?pk"
      proof -
        have "counted wcfg (2 + k) = counted wcfg 1 + counted wcfg 1 + counted wcfg k" by (simp add: counted_def)
        moreover have "op_address ?op2 = op_address ?op + stride" using chain by (auto simp: stride_def fifo_def)
        ultimately show ?thesis
          using k n1 n2 wr chain unfolding writes_plan_def Let_def
          by (simp add: ps qs single_def wcfg_def op_is_read_def stride_def del: One_nat_def)
      qed
      ultimately show ?thesis by blast
    qed
  qed
qed

text \<open>The whole plan: the front of the operation list splits into the writes and the reads of one record.\<close>

definition record_plan :: "eb_memory \<Rightarrow> eb_width_t \<Rightarrow> u32 \<Rightarrow> eb_ptr list \<Rightarrow> u32 \<Rightarrow> pack \<Rightarrow> bool" where
  "record_plan m width maxops ps cnt pk \<longleftrightarrow>
     (let ops = map (op_at m) ps; ws = take (pk_wcount pk) ops; rs = take (pk_rcount pk) (drop (pk_wcount pk) ops)
      in pk_wcount pk + pk_rcount pk \<le> length ps \<and> pk_scanp pk = head_ptr (drop (pk_wcount pk + pk_rcount pk) ps) \<and>
         packable width (pk_fifo pk) ws rs \<and>
         (pk_wcfg pk \<noteq> 0 \<longleftrightarrow> ws \<noteq> [] \<and> op_is_cfg (hd ws)) \<and> (pk_rcfg pk \<noteq> 0 \<longleftrightarrow> rs \<noteq> [] \<and> op_is_cfg (hd rs)) \<and>
         (if ws @ rs = [] then pk_format pk = EB_DATAX \<and> pk_low_addr pk = 0 \<and> (ps = [] \<or> maxops \<le> cnt)
          else pk_format pk = op_format (hd (ws @ rs)) \<and> pk_low_addr pk = op_low width (hd (ws @ rs))) \<and>
         unat (pk_ops pk) = unat cnt + bus_count (ws @ rs) \<and> unat (pk_ops pk) \<le> unat maxops)"

lemma record_planI:
  assumes "take (pk_wcount pk) (map (op_at m) ps) = ws" "take (pk_rcount pk) (drop (pk_wcount pk) (map (op_at m) ps)) = rs"
    and "pk_wcount pk + pk_rcount pk \<le> length ps" "pk_scanp pk = head_ptr (drop (pk_wcount pk + pk_rcount pk) ps)"
    and "packable width (pk_fifo pk) ws rs" "pk_wcfg pk \<noteq> 0 \<longleftrightarrow> ws \<noteq> [] \<and> op_is_cfg (hd ws)"
      "pk_rcfg pk \<noteq> 0 \<longleftrightarrow> rs \<noteq> [] \<and> op_is_cfg (hd rs)"
    and "ws @ rs = [] \<Longrightarrow> pk_format pk = EB_DATAX \<and> pk_low_addr pk = 0 \<and> (ps = [] \<or> maxops \<le> cnt)"
    and "ws @ rs \<noteq> [] \<Longrightarrow> pk_format pk = op_format (hd (ws @ rs)) \<and> pk_low_addr pk = op_low width (hd (ws @ rs))"
    and "unat (pk_ops pk) = unat cnt + bus_count (ws @ rs)" "unat (pk_ops pk) \<le> unat maxops"
  shows "record_plan m width maxops ps cnt pk"
  unfolding record_plan_def Let_def assms(1,2) using assms(3-) by presburger

lemma bus_count_append [simp]: "bus_count (xs @ ys) = bus_count xs + bus_count ys"
  by (simp add: bus_count_def)

lemma bus_count_uniform:
  assumes "\<forall>op \<in> set ops. op_flags op AND EB_OP_CFG_SPACE = cfg"
  shows "bus_count ops = counted cfg (length ops)"
  using assms by (induction ops) (auto simp: bus_count_def counted_def op_is_cfg_def)

lemma writes_plan_packable:
  assumes wp: "writes_plan m (width AND EB_DATAX) maxops ps cnt pk" and ok: "\<forall>p \<in> set ps. op_ok width (op_at m p)"
  defines "ws \<equiv> map (op_at m) (take (pk_wcount pk) ps)"
  shows "packable width (pk_fifo pk) ws []" "\<forall>op \<in> set ws. op_flags op AND EB_OP_CFG_SPACE = pk_wcfg pk"
    "ws \<noteq> [] \<Longrightarrow> pk_format pk = op_format (hd ws) \<and> pk_low_addr pk = op_low width (hd ws)"
proof -
  have "packable width (pk_fifo pk) ws [] \<and> (\<forall>op \<in> set ws. op_flags op AND EB_OP_CFG_SPACE = pk_wcfg pk) \<and>
     (ws \<noteq> [] \<longrightarrow> pk_format pk = op_format (hd ws) \<and> pk_low_addr pk = op_low width (hd ws))"
  proof (cases "take (pk_wcount pk) ps")
    case Nil
    then have "ws = []" by (simp only: ws_def list.map)
    then show ?thesis by (simp add: packable_def)
  next
    case (Cons x xs)
    let ?lead = "op_at m x" and ?stride = "if pk_fifo pk then 0 else ucast (width AND EB_DATAX) :: eb_address_t"
    have w: "0 < pk_wcount pk" using Cons by (cases "pk_wcount pk") auto
    have x: "pk_wcount pk \<noteq> 0" "hd ps = x" "ws = ?lead # map (op_at m) xs"
      using w hd_take [OF w, of ps] Cons by (simp_all add: ws_def)
    have "length (take (pk_wcount pk) ps) \<le> 255" using wp by (simp add: writes_plan_def Let_def)
    then have len: "length xs < 255" unfolding Cons by simp
    have lead: "pk_wcfg pk = op_flags ?lead AND EB_OP_CFG_SPACE" "pk_format pk = op_format ?lead" "\<not> op_is_read ?lead"
        "pk_low_addr pk = op_low width ?lead"
      and run: "run_of m (pk_wcfg pk) (pk_format pk) ?stride (op_address ?lead) xs"
      using wp x(1,2) Cons by (auto simp: writes_plan_def Let_def op_low_def)
    have nth: "\<not> op_is_read (ws ! i) \<and> op_flags (ws ! i) AND EB_OP_CFG_SPACE = pk_wcfg pk \<and> op_format (ws ! i) = op_format ?lead \<and>
        op_address (ws ! i) = op_address ?lead + of_nat i * ?stride" if "i < length ws" for i
      using that run_of_nth [OF run, of "i - 1"] lead x(3) by (cases i) auto
    have all: "\<forall>op \<in> set ws. \<not> op_is_read op \<and> op_flags op AND EB_OP_CFG_SPACE = pk_wcfg pk \<and> op_format op = op_format ?lead"
      using nth by (auto simp: in_set_conv_nth)
    have good: "\<forall>op \<in> set ws. op_ok width op" using ok by (auto simp: ws_def dest: in_set_takeD)
    have hd: "hd ws = ?lead" using x(3) by simp
    have cfg: "\<forall>op \<in> set ws. op_is_cfg op = op_is_cfg ?lead" using all lead(1) unfolding op_is_cfg_def by metis
    have "packable width (pk_fifo pk) ws []"
      unfolding packable_def append_Nil2 hd using all good cfg nth x(3) len by auto
    then show ?thesis using all unfolding hd lead(2,4) by blast
  qed
  then show "packable width (pk_fifo pk) ws []" "\<forall>op \<in> set ws. op_flags op AND EB_OP_CFG_SPACE = pk_wcfg pk"
    "ws \<noteq> [] \<Longrightarrow> pk_format pk = op_format (hd ws) \<and> pk_low_addr pk = op_low width (hd ws)" by blast+
qed


lemma no_reads_plan:
  assumes wp: "writes_plan m (width AND EB_DATAX) maxops ps cnt pk" and ok: "\<forall>p \<in> set ps. op_ok width (op_at m p)"
    and stop: "pk_wcount pk = 0 \<Longrightarrow> ps = [] \<or> maxops \<le> cnt"
  shows "record_plan m width maxops ps cnt pk"
proof -
  define ws where "ws = map (op_at m) (take (pk_wcount pk) ps)"
  note pk = writes_plan_packable [OF wp ok, folded ws_def]
  have len: "length ws = pk_wcount pk" using wp by (simp add: ws_def writes_plan_def Let_def)
  have r: "pk_rcount pk = 0" "pk_rcfg pk = 0" "pk_wcount pk \<le> length ps" "pk_scanp pk = head_ptr (drop (pk_wcount pk) ps)"
      "unat (pk_ops pk) = unat cnt + counted (pk_wcfg pk) (pk_wcount pk)" "unat (pk_ops pk) \<le> unat maxops"
    using wp by (simp_all add: writes_plan_def Let_def)
  have bc: "bus_count ws = counted (pk_wcfg pk) (pk_wcount pk)" using bus_count_uniform [OF pk(2)] len by simp
  have cfg: "pk_wcfg pk \<noteq> 0 \<longleftrightarrow> ws \<noteq> [] \<and> op_is_cfg (hd ws)"
  proof (cases "ws = []")
    case True
    then have "pk_wcount pk = 0" using len by simp
    then show ?thesis using wp True by (simp add: writes_plan_def Let_def)
  next
    case False
    then show ?thesis using pk(2) by (simp add: op_is_cfg_def)
  qed
  have none: "pk_format pk = EB_DATAX \<and> pk_low_addr pk = 0 \<and> (ps = [] \<or> maxops \<le> cnt)" if "ws = []"
    using that len wp stop by (simp add: writes_plan_def Let_def)
  show ?thesis
    by (rule record_planI [of _ _ _ ws "[]"]) (use r pk(1,3) bc cfg none in \<open>simp_all add: ws_def take_map\<close>)
qed

text \<open>A full-width mask, which the code uses for ``no format yet'', is not the format of a checked operation.\<close>

lemma format_ok_not_DATAX: "data \<in> {1, 2, 4, 8} \<Longrightarrow> format_ok data f \<Longrightarrow> f \<noteq> EB_DATAX"
  by (auto simp: format_ok_def)

lemma chain_drop: "chain nx p xs \<Longrightarrow> chain nx (head_ptr (drop k xs)) (drop k xs)"
proof (induction xs arbitrary: p k)
  case (Cons x xs)
  then show ?case by (cases k) auto
qed simp

lemma ucast_low: "(ucast (ucast (low :: u8) :: u64) :: u8) = low"
  by (rule bit_word_eqI) (simp add: bit_simps)

lemma reads_of_low:
  "reads_of m (width AND EB_DATAX) rcfg format low ps \<Longrightarrow> p \<in> set ps \<Longrightarrow> op_low width (op_at m p) = low"
  by (simp add: reads_of_def op_low_def ucast_low)

lemma packable_append:
  assumes pk: "packable width fifo ws []"
    and all: "\<forall>op \<in> set rs. op_ok width op \<and> op_is_read op \<and> op_is_cfg op = op_is_cfg (hd rs) \<and> op_format op = f \<and> op_low width op = low"
    and ws: "ws \<noteq> [] \<Longrightarrow> f = op_format (hd ws) \<and> low = op_low width (hd ws)" and "length rs \<le> 255"
  shows "packable width fifo ws rs"
proof (cases "ws = []")
  case True
  have "hd rs \<in> set rs" if "op \<in> set rs" for op using that by (cases rs) auto
  then have "\<forall>op \<in> set rs. op_format op = op_format (hd rs) \<and> op_low width op = op_low width (hd rs)" using all by metis
  with True all assms(4) show ?thesis unfolding packable_def by auto
next
  case False
  note f = ws [OF False, THEN conjunct1] ws [OF False, THEN conjunct2]
  show ?thesis
    using pk all [unfolded f] assms(4) unfolding packable_def append_Nil2 set_append hd_append2 [OF False]
    by (intro conjI) blast+
qed

lemma plan_reads_spec:
  assumes pw: "port_widths width" and c: "op_chain m p ps" and ok: "\<forall>p \<in> set ps. op_ok width (op_at m p)"
    and wp: "writes_plan m (width AND EB_DATAX) maxops ps cnt pk"
  shows "\<exists>pk'. plan_reads m (width AND EB_DATAX) maxops pk = Some pk' \<and> record_plan m width maxops ps cnt pk'"
proof -
  define w where "w = pk_wcount pk"
  define ws where "ws = map (op_at m) (take w ps)"
  define rest where "rest = drop w ps"
  have wl: "w \<le> length ps" "w \<le> 255" and sp: "pk_scanp pk = head_ptr rest"
      and cn: "unat (pk_ops pk) = unat cnt + counted (pk_wcfg pk) w" "unat (pk_ops pk) \<le> unat maxops"
    using wp by (simp_all add: writes_plan_def Let_def w_def rest_def)
  have crest: "op_chain m (head_ptr rest) rest"
    using chain_drop [OF c, of w] by (simp add: rest_def)
  let ?op = "op_at m (hd rest)"
  show ?thesis
  proof (cases "maxops \<le> pk_ops pk \<or> rest = [] \<or> \<not> op_is_read ?op \<or>
      (pk_format pk \<noteq> EB_DATAX \<and> (op_format ?op \<noteq> pk_format pk \<or> op_address ?op AND (ucast (width AND EB_DATAX) - 1) \<noteq> ucast (pk_low_addr pk)))")
    case True
    have "plan_reads m (width AND EB_DATAX) maxops pk = Some pk"
      using True crest sp by (cases rest) (auto simp: plan_reads_def Let_def op_chain_Cons op_is_read_def simp del: chain.simps(2))
    moreover have "ps = [] \<or> maxops \<le> cnt" if "pk_wcount pk = 0"
      using that True wp by (auto simp: writes_plan_def Let_def counted_def rest_def w_def word_le_nat_alt)
    then have "record_plan m width maxops ps cnt pk" by (rule no_reads_plan [OF wp ok])
    ultimately show ?thesis by blast
  next
    case False
    then obtain x qs where rest: "rest = x # qs" by (cases rest) auto
    have x: "x \<noteq> EB_NULL" "EB_OPERATION m x = Some (op_at m x)" and cq: "op_chain m (op_next (op_at m x)) qs"
      using crest unfolding rest op_chain_Cons by auto
    let ?o = "op_at m x"
    define rcfg where "rcfg = op_flags ?o AND EB_OP_CFG_SPACE"
    define low where "low = op_low width ?o"
    have lt: "pk_ops pk < maxops" and rd: "op_is_read ?o" using False rest by auto
    note n1 = unat_count_op [OF lt, of rcfg]
    obtain k cnt' where k: "scan_reads m (width AND EB_DATAX) rcfg (op_format ?o) low maxops (op_next ?o) 1 (count_op rcfg (pk_ops pk)) =
        Some (head_ptr (drop k qs), 1 + k, cnt')" "k \<le> length qs" "1 + k \<le> 255" "reads_of m (width AND EB_DATAX) rcfg (op_format ?o) low (take k qs)"
        "unat cnt' = unat (count_op rcfg (pk_ops pk)) + counted rcfg k" "unat cnt' \<le> unat maxops"
      using scan_reads_spec [OF cq, of 1 "count_op rcfg (pk_ops pk)" maxops "width AND EB_DATAX" rcfg "op_format ?o" low] n1 by auto
    let ?pk = "pk\<lparr>pk_scanp := head_ptr (drop k qs), pk_ops := cnt', pk_rcount := 1 + k, pk_rcfg := rcfg,
       pk_format := op_format ?o, pk_low_addr := low\<rparr>"
    have "plan_reads m (width AND EB_DATAX) maxops pk = Some ?pk"
      using False x rd lt sp k(1) rest
      by (simp add: plan_reads_def rcfg_def low_def op_low_def op_is_read_def Let_def) blast
    moreover have "record_plan m width maxops ps cnt ?pk"
    proof -
      define rs where "rs = map (op_at m) (x # take k qs)"
      have r: "take (1 + k) (drop w (map (op_at m) ps)) = rs" using rest by (simp add: rs_def rest_def drop_map take_map)
      have len: "w + (1 + k) \<le> length ps" using k(2) arg_cong [OF rest, of length] wl(1) by (simp add: rest_def)
      have dr: "drop (w + (1 + k)) ps = drop k qs" using arg_cong [OF rest, of "drop (1 + k)"] by (simp add: rest_def add.commute)
      have all: "\<forall>op \<in> set rs. op_is_read op \<and> op_flags op AND EB_OP_CFG_SPACE = rcfg \<and> op_format op = op_format ?o \<and> op_low width op = low"
        using k(4) reads_of_low [OF k(4)] rd by (auto simp: rs_def rcfg_def low_def reads_of_def)
      have sub: "set (x # take k qs) \<subseteq> set ps"
        using rest set_take_subset [of k qs] set_drop_subset [of w ps] by (auto simp: rest_def)
      have good: "\<forall>op \<in> set rs. op_ok width op" using ok sub by (auto simp: rs_def)
      note wpk = writes_plan_packable [OF wp ok, folded w_def, folded ws_def]
      have fmt: "ws \<noteq> [] \<Longrightarrow> op_format ?o = op_format (hd ws) \<and> low = op_low width (hd ws)"
      proof -
        assume ne: "ws \<noteq> []"
        then have "hd ws \<in> set ws" by simp
        then have "op_ok width (hd ws)" using wpk(1) by (simp add: packable_def)
        then have "pk_format pk \<noteq> EB_DATAX" 
          using format_ok_not_DATAX [OF _ op_ok_format(1) [OF pw]] pw wpk(3) [OF ne] by (auto simp: port_widths_def)
        with False rest have "op_format ?o = pk_format pk" "op_address ?o AND (ucast (width AND EB_DATAX) - 1) = ucast (pk_low_addr pk)"
          by auto
        with wpk(3) [OF ne] show ?thesis by (simp add: low_def op_low_def ucast_low)
      qed
      have hd: "hd (ws @ rs) = (if ws = [] then ?o else hd ws)" by (simp add: rs_def)
      have cfg: "op_is_cfg op = (rcfg \<noteq> 0)" if "op \<in> set rs" for op using all that by (auto simp: op_is_cfg_def)
      have hr: "hd rs \<in> set rs" "hd rs = ?o" by (simp_all add: rs_def)
      have ne: "rs \<noteq> []" by (simp add: rs_def)
      have lr: "length rs = 1 + k" using k(2) by (simp add: rs_def)
      have wcount: "length ws = w" using wl(1) by (simp add: ws_def)
      have pkb: "packable width (pk_fifo pk) ws rs"
        using all good cfg hr(1) k(3) lr by (intro packable_append [OF wpk(1) _ fmt]) auto
      have wcfg: "pk_wcfg pk \<noteq> 0 \<longleftrightarrow> ws \<noteq> [] \<and> op_is_cfg (hd ws)"
        using wpk(2) wp wcount by (cases "ws = []") (auto simp: writes_plan_def Let_def op_is_cfg_def w_def)
      have "bus_count ws = counted (pk_wcfg pk) w" "bus_count rs = counted rcfg (1 + k)"
        using bus_count_uniform [OF wpk(2)] bus_count_uniform [of rs rcfg] all wcount lr by auto
      then have cnt: "unat cnt' = unat cnt + bus_count (ws @ rs)"
        using k(5) n1(1) cn(1) counted_add [of rcfg 1 k] by simp
      have f: "op_format ?o = op_format (hd (ws @ rs))" "low = op_low width (hd (ws @ rs))"
        using fmt hr(2) low_def by (cases "ws = []"; simp add: hd)+
      show ?thesis
        by (rule record_planI [of _ _ _ ws rs])
          (use r len dr pkb wcfg cfg [OF hr(1)] f cnt k(6) hr(2) ne in \<open>simp_all add: w_def [symmetric] ws_def take_map\<close>)
    qed
    ultimately show ?thesis by blast
  qed
qed

section \<open>Writing the record\<close>

lemma be_bytes_take_bit: "n \<le> k \<Longrightarrow> be_bytes n (take_bit (8 * k) v) = be_bytes n v"
proof (induction n)
  case (Suc n)
  have "ucast (drop_bit (8 * n) (take_bit (8 * k) v)) = (ucast (drop_bit (8 * n) v) :: u8)"
    by (rule bit_word_eqI) (use Suc.prems in \<open>auto simp: bit_simps\<close>)
  then show ?case using Suc by simp
qed simp

lemma EB_mWRITE_in: "p + alignment_of w \<le> length buf \<Longrightarrow>
    EB_mWRITE buf p v (alignment_of w) = Some (put_bytes p (be_bytes (alignment_of w) v) buf)"
  using alignment_cases(1) [of w] by (auto simp: EB_mWRITE_def)

lemma emit_writes_spec:
  assumes "op_chain m p ps" "n \<le> length ps" "wptr + n * alignment_of w \<le> length buf"
  shows "emit_writes m (alignment_of w) k n p buf wptr =
    Some (head_ptr (drop n ps), put_bytes wptr (concat (map (\<lambda>p. be_bytes (alignment_of w) (push_bit (unat k * 8) (op_un_value (op_at m p)))) (take n ps))) buf,
      wptr + n * alignment_of w)"
  using assms
proof (induction n arbitrary: p ps buf wptr)
  case 0
  then show ?case by (simp add: op_chain_head)
next
  case (Suc n)
  then obtain x qs where ps: "ps = x # qs" by (cases ps) auto
  have x: "p = x" "EB_OPERATION m x = Some (op_at m x)" and c: "op_chain m (op_next (op_at m x)) qs"
    using Suc.prems(1) unfolding ps op_chain_Cons by auto
  let ?al = "alignment_of w" and ?v = "push_bit (unat k * 8) (op_un_value (op_at m x))"
  have 1: "EB_mWRITE buf wptr ?v ?al = Some (put_bytes wptr (be_bytes ?al ?v) buf)"
    by (rule EB_mWRITE_in) (use Suc.prems in simp)
  have l: "length (put_bytes wptr (be_bytes ?al ?v) buf) = length buf" using Suc.prems by simp
  have app: "put_bytes (wptr + ?al) bs (put_bytes wptr (be_bytes ?al ?v) buf) = put_bytes wptr (be_bytes ?al ?v @ bs) buf" for bs
    using put_bytes_append [of wptr "be_bytes ?al ?v" buf bs] Suc.prems by simp
  show ?case
    using Suc.prems by (simp add: x 1 Suc.IH [OF c] ps l app algebra_simps)
qed

lemma emit_reads_spec:
  assumes "op_chain m p ps" "n \<le> length ps" "wptr + n * alignment_of w \<le> length buf"
  shows "emit_reads m (alignment_of w) n p buf wptr =
    Some (head_ptr (drop n ps), put_bytes wptr (concat (map (\<lambda>p. be_bytes (alignment_of w) (op_address (op_at m p))) (take n ps))) buf,
      wptr + n * alignment_of w)"
  using assms
proof (induction n arbitrary: p ps buf wptr)
  case 0
  then show ?case by (simp add: op_chain_head)
next
  case (Suc n)
  then obtain x qs where ps: "ps = x # qs" by (cases ps) auto
  have x: "p = x" "EB_OPERATION m x = Some (op_at m x)" and c: "op_chain m (op_next (op_at m x)) qs"
    using Suc.prems(1) unfolding ps op_chain_Cons by auto
  let ?al = "alignment_of w" and ?v = "op_address (op_at m x)"
  have 1: "EB_mWRITE buf wptr ?v ?al = Some (put_bytes wptr (be_bytes ?al ?v) buf)"
    by (rule EB_mWRITE_in) (use Suc.prems in simp)
  have l: "length (put_bytes wptr (be_bytes ?al ?v) buf) = length buf" using Suc.prems by simp
  have app: "put_bytes (wptr + ?al) bs (put_bytes wptr (be_bytes ?al ?v) buf) = put_bytes wptr (be_bytes ?al ?v @ bs) buf" for bs
    using put_bytes_append [of wptr "be_bytes ?al ?v" buf bs] Suc.prems by simp
  show ?case
    using Suc.prems by (simp add: x 1 Suc.IH [OF c] ps l app algebra_simps)
qed

declare length_encode_fields [simp]

text \<open>The parts of a record, one after the other.\<close>

lemma emit_header:
  assumes "wptr + record_alignment_of width \<le> length buf"
  shows "(do { b \<leftarrow> store_bytes buf wptr (replicate (record_alignment_of width) 0); store_bytes b wptr [h0, h1, h2, h3] }) =
    Some (put_bytes wptr ([h0, h1, h2, h3] @ replicate (record_alignment_of width - 4) 0) buf)"
proof -
  have "length (put_bytes wptr (replicate (record_alignment_of width) 0) buf) = length buf" using assms by simp
  moreover have "put_bytes wptr [h0, h1, h2, h3] (put_bytes wptr (replicate (record_alignment_of width) 0) buf) =
      put_bytes wptr ([h0, h1, h2, h3] @ drop 4 (replicate (record_alignment_of width) 0)) buf"
    using put_bytes_over [of "[h0, h1, h2, h3]" "replicate (record_alignment_of width) 0" wptr buf] assms record_alignment_ge [of width]
    by (simp add: eval_nat_numeral)
  ultimately show ?thesis using assms record_alignment_ge [of width] by (simp add: store_bytes_def)
qed

lemma emit_write_part:
  assumes c: "op_chain m p ps" and n: "n \<le> length ps" and l: "wptr + field_count n * alignment_of w \<le> length buf"
  shows "(if 0 < n then do {
       operation \<leftarrow> EB_OPERATION m p;
       b \<leftarrow> EB_mWRITE buf wptr (op_address operation) (alignment_of w);
       emit_writes m (alignment_of w) k n p b (wptr + alignment_of w)
     } else Some (p, buf, wptr)) =
    Some (head_ptr (drop n ps),
      put_bytes wptr (encode_fields (alignment_of w) (op_address (op_at m (hd ps)))
         (map (\<lambda>p. push_bit (unat k * 8) (op_un_value (op_at m p))) (take n ps))) buf,
      wptr + field_count n * alignment_of w)"
proof (cases "0 < n")
  case True
  then obtain x qs where ps: "ps = x # qs" using n by (cases ps) auto
  have x: "p = x" "EB_OPERATION m x = Some (op_at m x)" using c unfolding ps op_chain_Cons by auto
  let ?al = "alignment_of w" and ?a = "op_address (op_at m x)"
  have 1: "EB_mWRITE buf wptr ?a ?al = Some (put_bytes wptr (be_bytes ?al ?a) buf)"
    by (rule EB_mWRITE_in) (use l True in \<open>simp add: field_count_def\<close>)
  have len: "length (put_bytes wptr (be_bytes ?al ?a) buf) = length buf" using l True by (simp add: field_count_def)
  have app: "put_bytes (wptr + ?al) bs (put_bytes wptr (be_bytes ?al ?a) buf) = put_bytes wptr (be_bytes ?al ?a @ bs) buf" for bs
    using put_bytes_append [of wptr "be_bytes ?al ?a" buf bs] l True by (simp add: field_count_def)
  have "emit_writes m ?al k n p (put_bytes wptr (be_bytes ?al ?a) buf) (wptr + ?al) = Some (head_ptr (drop n ps),
     put_bytes wptr (be_bytes ?al ?a @ concat (map (\<lambda>p. be_bytes ?al (push_bit (unat k * 8) (op_un_value (op_at m p)))) (take n ps))) buf,
     wptr + ?al + n * ?al)"
    using l True by (subst emit_writes_spec [OF c n]) (simp_all add: len app field_count_def)
  then show ?thesis
    using True ps by (simp add: x 1 encode_fields_def field_count_def comp_def)
qed (use op_chain_head [OF c] in \<open>simp add: encode_fields_def field_count_def\<close>)

lemma emit_read_part:
  assumes c: "op_chain m p ps" and n: "n \<le> length ps" and l: "wptr + field_count n * alignment_of w \<le> length buf"
  shows "(if 0 < n then do {
       b \<leftarrow> EB_mWRITE buf wptr ret (alignment_of w);
       emit_reads m (alignment_of w) n p b (wptr + alignment_of w)
     } else Some (p, buf, wptr)) =
    Some (head_ptr (drop n ps),
      put_bytes wptr (encode_fields (alignment_of w) ret (map (\<lambda>p. op_address (op_at m p)) (take n ps))) buf,
      wptr + field_count n * alignment_of w)"
proof (cases "0 < n")
  case True
  then have ne: "ps \<noteq> []" using n by auto
  let ?al = "alignment_of w"
  have 1: "EB_mWRITE buf wptr ret ?al = Some (put_bytes wptr (be_bytes ?al ret) buf)"
    by (rule EB_mWRITE_in) (use l True in \<open>simp add: field_count_def\<close>)
  have len: "length (put_bytes wptr (be_bytes ?al ret) buf) = length buf" using l True by (simp add: field_count_def)
  have app: "put_bytes (wptr + ?al) bs (put_bytes wptr (be_bytes ?al ret) buf) = put_bytes wptr (be_bytes ?al ret @ bs) buf" for bs
    using put_bytes_append [of wptr "be_bytes ?al ret" buf bs] l True by (simp add: field_count_def)
  have "emit_reads m ?al n p (put_bytes wptr (be_bytes ?al ret) buf) (wptr + ?al) = Some (head_ptr (drop n ps),
     put_bytes wptr (be_bytes ?al ret @ concat (map (\<lambda>p. be_bytes ?al (op_address (op_at m p))) (take n ps))) buf,
     wptr + ?al + n * ?al)"
    using l True by (subst emit_reads_spec [OF c n]) (simp_all add: len app field_count_def)
  then show ?thesis
    using True ne by (simp add: 1 encode_fields_def field_count_def comp_def)
qed (use op_chain_head [OF c] in \<open>simp add: encode_fields_def field_count_def\<close>)

lemma emit_status_part:
  assumes "wptr + 2 * alignment_of w \<le> length buf"
  shows "(do {
       b \<leftarrow> EB_mWRITE buf wptr ret (alignment_of w);
       b \<leftarrow> EB_mWRITE b (wptr + alignment_of w) a (alignment_of w);
       Some (b, wptr + 2 * alignment_of w)
     }) = Some (put_bytes wptr (encode_fields (alignment_of w) ret [a]) buf, wptr + 2 * alignment_of w)"
proof -
  let ?al = "alignment_of w"
  have "length (put_bytes wptr (be_bytes ?al ret) buf) = length buf" using assms by simp
  moreover have "put_bytes (wptr + ?al) (be_bytes ?al a) (put_bytes wptr (be_bytes ?al ret) buf) = put_bytes wptr (be_bytes ?al ret @ be_bytes ?al a) buf"
    using put_bytes_append [of wptr "be_bytes ?al ret" buf "be_bytes ?al a"] assms by simp
  ultimately show ?thesis using assms by (simp add: EB_mWRITE_in encode_fields_def)
qed


lemma encode_fields_take_bit:
  "encode_fields al b (map (\<lambda>p. take_bit (8 * al) (f p)) ps) = encode_fields al b (map f ps)"
  by (simp add: encode_fields_def be_bytes_take_bit comp_def)

lemma emit_record_spec:
  fixes m width rba pk ps rb cyc
  defines "ws \<equiv> take (pk_wcount pk) (map (op_at m) ps)" and "rs \<equiv> take (pk_rcount pk) (drop (pk_wcount pk) (map (op_at m) ps))"
  defines "R \<equiv> op_record width rba (pk_fifo pk) ws rs rb cyc"
  assumes pw: "port_widths width" and c: "op_chain m p ps" and pl: "record_plan m width maxops ps cnt pk"
    and rb: "rb \<Longrightarrow> rs = [] \<and> (ws \<noteq> [] \<longrightarrow> op_format (hd ws) = width AND EB_DATAX)" and ne: "rb \<or> ws @ rs \<noteq> []"
    and room: "wptr + length (encode_record width R) \<le> length buf"
  shows "emit_record m width rba pk rb cyc p buf wptr =
    Some (head_ptr (drop (pk_wcount pk + pk_rcount pk) ps), put_bytes wptr (encode_record width R) buf,
      wptr + length (encode_record width R))"
proof -
  let ?d = "width AND EB_DATAX" and ?al = "alignment_of width" and ?ra = "record_alignment_of width"
  define format where "format = (if rb then ?d else pk_format pk)"
  define k where "k = op_shift_of ?d format (pk_low_addr pk)"
  have plan: "pk_wcount pk + pk_rcount pk \<le> length ps" "pk_wcfg pk \<noteq> 0 \<longleftrightarrow> ws \<noteq> [] \<and> op_is_cfg (hd ws)"
      "pk_rcfg pk \<noteq> 0 \<longleftrightarrow> rs \<noteq> [] \<and> op_is_cfg (hd rs)"
      "if ws @ rs = [] then pk_format pk = EB_DATAX \<and> pk_low_addr pk = 0 \<and> (ps = [] \<or> maxops \<le> cnt)
       else pk_format pk = op_format (hd (ws @ rs)) \<and> pk_low_addr pk = op_low width (hd (ws @ rs))"
    using pl unfolding record_plan_def Let_def ws_def rs_def by blast+
  have lens: "length ws = pk_wcount pk" "length rs = pk_rcount pk" using plan(1) by (simp_all add: ws_def rs_def)
  have rx: "length (wr_reads R) = (if rb then 1 else pk_rcount pk)" "length (wr_writes R) = pk_wcount pk"
    using lens by (auto simp: R_def op_record_def Let_def)
  have nobig: "?d AND EB_ENDIAN_MASK \<noteq> EB_BIG_ENDIAN" by (simp add: and.assoc)
  have "(format AND EB_DATAX, k) = (if ws @ rs = [] then (?d, 0) else (op_format (hd (ws @ rs)) AND EB_DATAX, op_shift width (hd (ws @ rs))))"
  proof (cases "ws @ rs = []")
    case True
    with ne plan(4) show ?thesis by (simp add: format_def k_def op_shift_of_def and.assoc)
  next
    case False
    then have "format = op_format (hd (ws @ rs))" using rb plan(4) by (auto simp: format_def)
    then show ?thesis using False plan(4) unfolding if_not_P [OF False] by (simp add: k_def)
  qed
  then have sel: "wr_select R = record_select (format AND EB_DATAX) k"
    and wv: "wr_writes R = map (\<lambda>op. take_bit (8 * ?al) (push_bit (unat k * 8) (op_un_value op))) ws"
    unfolding R_def op_record_def Let_def by (auto split: if_splits)
  have fl: "wr_flags R = record_flags pk (if rb then 1 else pk_rcfg pk) cyc"
    using plan(2,3) by (auto simp: R_def op_record_def Let_def record_flags_def)
  have hd: "op_address (op_at m (hd ps)) = wr_bwa R" if "ws \<noteq> []"
    using that by (cases ps) (auto simp: R_def op_record_def Let_def ws_def)
  define H where "H = [wr_flags R, wr_select R, of_nat (length (wr_writes R)), of_nat (length (wr_reads R))] @ replicate (?ra - 4) 0"
  define W where "W = encode_fields ?al (wr_bwa R) (wr_writes R)"
  define Q where "Q = encode_fields ?al (wr_bra R) (wr_reads R)"
  have R: "encode_record width R = H @ W @ Q" by (simp add: encode_record_def H_def W_def Q_def)
  have lH: "length H = ?ra" using record_alignment_ge [of width] by (simp add: H_def)
  have lW: "length W = field_count (pk_wcount pk) * ?al" by (simp add: W_def rx)
  have lQ: "length Q = field_count (length (wr_reads R)) * ?al" by (simp add: Q_def)
  have l1: "wptr + ?ra \<le> length buf" using room by (simp add: R lH)
  note h = emit_header [OF l1, of "wr_flags R" "wr_select R" "of_nat (length (wr_writes R))" "of_nat (length (wr_reads R))", folded H_def]
  obtain b where b: "store_bytes buf wptr (replicate ?ra 0) = Some b"
      "store_bytes b wptr [wr_flags R, wr_select R, of_nat (length (wr_writes R)), of_nat (length (wr_reads R))] = Some (put_bytes wptr H buf)"
    using h by (auto simp: bind_eq_Some_conv)
  have len1: "length (put_bytes wptr H buf) = length buf" using l1 lH by simp
  have w1: "pk_wcount pk \<le> length ps" "wptr + ?ra + field_count (pk_wcount pk) * ?al \<le> length (put_bytes wptr H buf)"
    using plan(1) room by (simp_all add: len1 R lH lW)
  have enc: "encode_fields ?al (op_address (op_at m (hd ps))) (map (\<lambda>p. push_bit (unat k * 8) (op_un_value (op_at m p))) (take (pk_wcount pk) ps)) = W"
    using hd encode_fields_take_bit [of ?al "wr_bwa R" "\<lambda>p. push_bit (unat k * 8) (op_un_value (op_at m p))" "take (pk_wcount pk) ps"]
    by (cases "ws = []") (auto simp: W_def wv ws_def take_map comp_def encode_fields_def)
  have a1: "put_bytes (wptr + ?ra) W (put_bytes wptr H buf) = put_bytes wptr (H @ W) buf"
    using put_bytes_append [of wptr H buf W] l1 lH by simp
  note w = emit_write_part [OF c w1, of k, unfolded enc a1]
  have len2: "length (put_bytes wptr (H @ W) buf) = length buf" using room by (simp add: R)
  have a2: "put_bytes (wptr + ?ra + field_count (pk_wcount pk) * ?al) Q (put_bytes wptr (H @ W) buf) = put_bytes wptr (encode_record width R) buf"
    using put_bytes_append [of wptr "H @ W" buf Q] room by (simp add: R lH lW add.assoc)
  have tot: "wptr + length (encode_record width R) = wptr + ?ra + field_count (pk_wcount pk) * ?al + field_count (length (wr_reads R)) * ?al"
    by (simp add: R lH lW lQ)
  have counts: "of_nat (pk_wcount pk) = (of_nat (length (wr_writes R)) :: u8)" "of_nat (if rb then 1 else pk_rcount pk) = (of_nat (length (wr_reads R)) :: u8)"
    by (simp_all add: rx)
  define wp where "wp = wptr + ?ra + field_count (pk_wcount pk) * ?al"
  define b2 where "b2 = put_bytes wptr (H @ W) buf"
  have body: "emit_record m width rba pk rb cyc p buf wptr = do {
     (buf, wptr) \<leftarrow> (if rb then do {
          buf \<leftarrow> EB_mWRITE b2 wp (ucast (rba OR 1)) ?al;
          buf \<leftarrow> EB_mWRITE buf (wp + ?al) (8 - ucast ?d) ?al;
          Some (buf, wp + 2 * ?al)
        } else Some (b2, wp));
     if pk_rcount pk > 0 then do {
       buf \<leftarrow> EB_mWRITE buf wptr (ucast rba) ?al;
       emit_reads m ?al (pk_rcount pk) (head_ptr (drop (pk_wcount pk) ps)) buf (wptr + ?al)
     } else Some (head_ptr (drop (pk_wcount pk) ps), buf, wptr)
   }"
    unfolding emit_record_def Let_def format_def [symmetric] k_def [symmetric] sel [symmetric] fl [symmetric] counts b bind.bind_lunit w
      wp_def [symmetric] b2_def [symmetric] prod.case ..
  note tot = tot [folded wp_def] and a2 = a2 [folded wp_def b2_def]
  show ?thesis
  proof (cases rb)
    case True
    then have r0: "pk_rcount pk = 0" using rb lens by simp
    have q: "Q = encode_fields ?al (ucast (rba OR 1)) [8 - ucast ?d]" "length (wr_reads R) = 1"
      using True by (auto simp: Q_def R_def op_record_def Let_def)
    have "wp + 2 * ?al \<le> length b2"
      using room tot q(2) by (simp add: b2_def len2 field_count_def)
    note st = emit_status_part [OF this, of "ucast (rba OR 1)" "8 - ucast ?d", folded q(1), unfolded a2]
    have "(if rb then do {
          buf \<leftarrow> EB_mWRITE b2 wp (ucast (rba OR 1)) ?al;
          buf \<leftarrow> EB_mWRITE buf (wp + ?al) (8 - ucast ?d) ?al;
          Some (buf, wp + 2 * ?al)
        } else Some (b2, wp)) = Some (put_bytes wptr (encode_record width R) buf, wp + 2 * ?al)"
      using True st by simp
    then show ?thesis
      unfolding body by (simp add: r0 tot q(2) field_count_def)
  next
    case False
    have ps': "pk_rcount pk \<le> length (drop (pk_wcount pk) ps)" using plan(1) by simp
    have rr: "length (wr_reads R) = pk_rcount pk" using rx False by simp
    have q: "encode_fields ?al (ucast rba) (map (\<lambda>p. op_address (op_at m p)) (take (pk_rcount pk) (drop (pk_wcount pk) ps))) = Q"
      using False by (cases "rs = []") (auto simp: Q_def R_def op_record_def Let_def rs_def encode_fields_def take_map drop_map comp_def)
    have "wp + field_count (pk_rcount pk) * ?al \<le> length b2"
      using room tot rr by (simp add: b2_def len2)
    from emit_read_part [OF chain_drop [OF c] ps' this, of "ucast rba", unfolded q a2]
    show ?thesis
      unfolding body using False by (simp add: tot rr add.commute)
  qed
qed

section \<open>The records of a cycle\<close>

text \<open>The plan of one pass and the record it produces, from the operations that are left.\<close>

definition plan_of :: "eb_memory \<Rightarrow> eb_width_t \<Rightarrow> u32 \<Rightarrow> eb_ptr \<Rightarrow> u32 \<Rightarrow> pack option" where
  "plan_of m width maxops p cnt =
     do { pk \<leftarrow> plan_writes m (width AND EB_DATAX) maxops p cnt; plan_reads m (width AND EB_DATAX) maxops pk }"

abbreviation plan_ws :: "eb_memory \<Rightarrow> eb_ptr list \<Rightarrow> pack \<Rightarrow> eb_operation list" where
  "plan_ws m ps pk \<equiv> take (pk_wcount pk) (map (op_at m) ps)"

abbreviation plan_rs :: "eb_memory \<Rightarrow> eb_ptr list \<Rightarrow> pack \<Rightarrow> eb_operation list" where
  "plan_rs m ps pk \<equiv> take (pk_rcount pk) (drop (pk_wcount pk) (map (op_at m) ps))"

definition plan_record :: "eb_memory \<Rightarrow> eb_width_t \<Rightarrow> u16 \<Rightarrow> eb_ptr list \<Rightarrow> pack \<Rightarrow> bool \<Rightarrow> bool \<Rightarrow> wire_record" where
  "plan_record m width rba ps pk rb cyc = op_record width rba (pk_fifo pk) (plan_ws m ps pk) (plan_rs m ps pk) rb cyc"

abbreviation plan_left :: "eb_ptr list \<Rightarrow> pack \<Rightarrow> eb_ptr list" where
  "plan_left ps pk \<equiv> drop (pk_wcount pk + pk_rcount pk) ps"

text \<open>When a record ends its cycle.\<close>

definition plan_ends :: "bool \<Rightarrow> pack \<Rightarrow> bool \<Rightarrow> bool" where
  "plan_ends needs_check pk rb \<longleftrightarrow> pk_scanp pk = EB_NULL \<and> (\<not> needs_check \<or> pk_ops pk = 0 \<or> rb)"

text \<open>The successive passes of the loop.\<close>

inductive packs :: "eb_memory \<Rightarrow> eb_width_t \<Rightarrow> u16 \<Rightarrow> bool \<Rightarrow> u32 \<Rightarrow> eb_ptr list \<Rightarrow> u32 \<Rightarrow> wire_record list \<Rightarrow> bool"
  for m width rba needs_check maxops where
  packs_last: "plan_of m width maxops (head_ptr ps) cnt = Some pk \<Longrightarrow>
     rb = plan_readback (width AND EB_DATAX) needs_check maxops pk \<Longrightarrow> plan_ends needs_check pk rb \<Longrightarrow>
     packs m width rba needs_check maxops ps cnt [plan_record m width rba ps pk rb True]"
| packs_more: "plan_of m width maxops (head_ptr ps) cnt = Some pk \<Longrightarrow>
     rb = plan_readback (width AND EB_DATAX) needs_check maxops pk \<Longrightarrow> \<not> plan_ends needs_check pk rb \<Longrightarrow>
     packs m width rba needs_check maxops (plan_left ps pk) (if rb then 0 else pk_ops pk) recs \<Longrightarrow>
     packs m width rba needs_check maxops ps cnt (plan_record m width rba ps pk rb False # recs)"

text \<open>The state of the packing loop between two passes.\<close>

definition packing_ok :: "eb_memory \<Rightarrow> eb_width_t \<Rightarrow> bool \<Rightarrow> u32 \<Rightarrow> eb_ptr list \<Rightarrow> u32 \<Rightarrow> bool" where
  "packing_ok m width needs_check maxops ps cnt \<longleftrightarrow>
     port_widths width \<and> op_chain m (head_ptr ps) ps \<and> (\<forall>p \<in> set ps. op_ok width (op_at m p)) \<and>
     unat cnt \<le> unat maxops \<and> (ps \<noteq> [] \<or> needs_check \<and> cnt \<noteq> 0) \<and> 0 < maxops \<and>
     (needs_check \<or> unat cnt + length ps < unat maxops)"

lemma bus_count_le: "bus_count ops \<le> length ops"
  by (simp add: bus_count_def)

lemma pass_plan:
  assumes "packing_ok m width needs_check maxops ps cnt"
  obtains pk where "plan_of m width maxops (head_ptr ps) cnt = Some pk" "record_plan m width maxops ps cnt pk"
proof -
  have a: "port_widths width" "op_chain m (head_ptr ps) ps" "\<forall>p \<in> set ps. op_ok width (op_at m p)" "unat cnt \<le> unat maxops"
    using assms by (auto simp: packing_ok_def)
  obtain pk where pk: "plan_writes m (width AND EB_DATAX) maxops (head_ptr ps) cnt = Some pk" "writes_plan m (width AND EB_DATAX) maxops ps cnt pk"
    using plan_writes_spec [OF a(2,4)] by blast
  obtain pk' where "plan_reads m (width AND EB_DATAX) maxops pk = Some pk'" "record_plan m width maxops ps cnt pk'"
    using plan_reads_spec [OF a(1-3) pk(2)] by blast
  with pk(1) that show ?thesis by (simp add: plan_of_def)
qed

lemma pass_facts:
  assumes inv: "packing_ok m width needs_check maxops ps cnt" and pl: "record_plan m width maxops ps cnt pk"
    and rb: "rb = plan_readback (width AND EB_DATAX) needs_check maxops pk"
  defines "ws \<equiv> plan_ws m ps pk" and "rs \<equiv> plan_rs m ps pk"
  shows "rb \<Longrightarrow> rs = [] \<and> (ws \<noteq> [] \<longrightarrow> op_format (hd ws) = width AND EB_DATAX)"
    and "rb \<or> ws @ rs \<noteq> []"
    and "rb \<Longrightarrow> needs_check \<and> 0 < unat (pk_ops pk)"
    and "\<not> plan_ends needs_check pk rb \<Longrightarrow> packing_ok m width needs_check maxops (plan_left ps pk) (if rb then 0 else pk_ops pk)"
    and "\<not> plan_ends needs_check pk rb \<Longrightarrow>
      2 * length (plan_left ps pk) + (if (if rb then 0 else pk_ops pk) = 0 then 0 else 1) < 2 * length ps + (if cnt = 0 then 0 else 1 :: nat)"
    and "map (op_at m) ps = ws @ rs @ map (op_at m) (plan_left ps pk)"
    and "pk_scanp pk = EB_NULL \<longleftrightarrow> plan_left ps pk = []"
proof -
  have i: "port_widths width" "op_chain m (head_ptr ps) ps" "\<forall>p \<in> set ps. op_ok width (op_at m p)" "unat cnt \<le> unat maxops"
      "ps \<noteq> [] \<or> needs_check \<and> cnt \<noteq> 0" "0 < maxops" "needs_check \<or> unat cnt + length ps < unat maxops"
    using inv by (auto simp: packing_ok_def)
  have p: "pk_wcount pk + pk_rcount pk \<le> length ps" "pk_scanp pk = head_ptr (plan_left ps pk)"
      "if ws @ rs = [] then pk_format pk = EB_DATAX \<and> pk_low_addr pk = 0 \<and> (ps = [] \<or> maxops \<le> cnt)
       else pk_format pk = op_format (hd (ws @ rs)) \<and> pk_low_addr pk = op_low width (hd (ws @ rs))"
      "unat (pk_ops pk) = unat cnt + bus_count (ws @ rs)" "unat (pk_ops pk) \<le> unat maxops" "packable width (pk_fifo pk) ws rs"
    using pl unfolding record_plan_def Let_def ws_def rs_def by blast+
  have lens: "length ws = pk_wcount pk" "length rs = pk_rcount pk" using p(1) by (simp_all add: ws_def rs_def)
  have small: "needs_check \<or> unat (pk_ops pk) + length (plan_left ps pk) < unat maxops"
    using i(7) p(1,4) bus_count_le [of "ws @ rs"] lens by auto
  have full: "maxops \<le> pk_ops pk \<Longrightarrow> needs_check" using small by (auto simp: word_le_nat_alt)
  have empty: "pk_scanp pk = EB_NULL \<longleftrightarrow> plan_left ps pk = []"
    using chain_no_NULL [OF i(2)] set_drop_subset [of "pk_wcount pk + pk_rcount pk" ps] p(2)
    by (cases "plan_left ps pk") auto
  then show "pk_scanp pk = EB_NULL \<longleftrightarrow> plan_left ps pk = []" .
  have rbs: "rb \<longleftrightarrow> pk_rcount pk = 0 \<and> (pk_format pk = EB_DATAX \<or> pk_format pk = width AND EB_DATAX) \<and>
     (maxops \<le> pk_ops pk \<or> plan_left ps pk = [] \<and> needs_check \<and> 0 < unat (pk_ops pk))"
    unfolding rb plan_readback_def empty by (simp add: word_less_nat_alt)
  show rb1: "rs = [] \<and> (ws \<noteq> [] \<longrightarrow> op_format (hd ws) = width AND EB_DATAX)" if "rb"
  proof -
    have r: "rs = []" using that rbs lens by auto
    moreover have "op_format (hd ws) = width AND EB_DATAX" if "ws \<noteq> []"
    proof -
      have "op_ok width (hd ws)" using p(6) that by (auto simp: packable_def)
      then have "op_format (hd ws) \<noteq> EB_DATAX"
        using format_ok_not_DATAX [OF _ op_ok_format(1) [OF i(1)]] i(1) by (auto simp: port_widths_def)
      then show ?thesis using \<open>rb\<close> rbs p(3) r that by auto
    qed
    ultimately show ?thesis by blast
  qed
  show rb2: "needs_check \<and> 0 < unat (pk_ops pk)" if "rb"
    using that rbs full i(6) by (auto simp: word_le_nat_alt word_less_nat_alt)
  show prog: "rb \<or> ws @ rs \<noteq> []"
  proof (rule ccontr)
    assume n: "\<not> (rb \<or> ws @ rs \<noteq> [])"
    then have "pk_format pk = EB_DATAX" "ps = [] \<or> maxops \<le> cnt" using p(3) by auto
    moreover have "pk_rcount pk = 0" "unat (pk_ops pk) = unat cnt" using n lens p(4) by (auto simp: bus_count_def)
    moreover have "\<not> rb" using n by simp
    ultimately have "plan_left ps pk \<noteq> [] \<or> \<not> needs_check \<or> unat (pk_ops pk) = 0" "\<not> maxops \<le> pk_ops pk" using rbs by auto
    then show False using i(5) \<open>ps = [] \<or> maxops \<le> cnt\<close> \<open>unat (pk_ops pk) = unat cnt\<close>
      by (auto simp: word_le_nat_alt unat_eq_0)
  qed
  have left: "map (op_at m) ps = ws @ rs @ map (op_at m) (plan_left ps pk)"
    unfolding ws_def rs_def by (simp only: drop_map [symmetric] append_assoc [symmetric] take_add [symmetric] append_take_drop_id)
  then show "map (op_at m) ps = ws @ rs @ map (op_at m) (plan_left ps pk)" .
  show "packing_ok m width needs_check maxops (plan_left ps pk) (if rb then 0 else pk_ops pk)" if "\<not> plan_ends needs_check pk rb"
  proof -
    have "plan_left ps pk \<noteq> [] \<or> needs_check \<and> (if rb then 0 else pk_ops pk) \<noteq> 0"
      using that empty by (auto simp: plan_ends_def)
    moreover have "op_chain m (head_ptr (plan_left ps pk)) (plan_left ps pk)" by (rule chain_drop [OF i(2)])
    moreover have "\<forall>p \<in> set (plan_left ps pk). op_ok width (op_at m p)" using i(3) by (blast dest: in_set_dropD)
    ultimately show ?thesis
      using i(1,6) p(5) small rb2 unfolding packing_ok_def by auto
  qed
  show "2 * length (plan_left ps pk) + (if (if rb then 0 else pk_ops pk) = 0 then 0 else 1) < 2 * length ps + (if cnt = 0 then 0 else 1 :: nat)"
    if "\<not> plan_ends needs_check pk rb"
  proof (cases "ws @ rs = []")
    case True
    then have "rb" "unat (pk_ops pk) = unat cnt" using prog p(4) by (auto simp: bus_count_def)
    then have "cnt \<noteq> 0" using rb2 by auto
    with \<open>rb\<close> show ?thesis by simp
  next
    case False
    then have "0 < pk_wcount pk + pk_rcount pk" unfolding length_greater_0_conv [symmetric] length_append lens .
    then have "Suc (length (plan_left ps pk)) \<le> length ps" using p(1) unfolding length_drop by linarith
    then show ?thesis by (auto simp del: length_drop)
  qed
qed


text \<open>Packing always ends: every pass uses up operations or reads the error register back.\<close>

lemma packs_total:
  "packing_ok m width needs_check maxops ps cnt \<Longrightarrow> \<exists>recs. packs m width rba needs_check maxops ps cnt recs"
proof (induction "2 * length ps + (if cnt = 0 then 0 else 1)" arbitrary: ps cnt rule: less_induct)
  case less
  obtain pk where pk: "plan_of m width maxops (head_ptr ps) cnt = Some pk" "record_plan m width maxops ps cnt pk"
    using pass_plan [OF less.prems] .
  define rb where "rb = plan_readback (width AND EB_DATAX) needs_check maxops pk"
  show ?case
  proof (cases "plan_ends needs_check pk rb")
    case True
    then show ?thesis using packs_last [OF pk(1) rb_def] by blast
  next
    case False
    note f = pass_facts(4,5) [OF less.prems pk(2) rb_def False]
    obtain recs where "packs m width rba needs_check maxops (plan_left ps pk) (if rb then 0 else pk_ops pk) recs"
      using less.hyps [OF f(2,1)] by blast
    then show ?thesis using packs_more [OF pk(1) rb_def False] by blast
  qed
qed

text \<open>A property of the records of a cycle, by induction over the passes.\<close>

lemma packs_induct [consumes 2, case_names last more]:
  assumes "packs m width rba needs_check maxops ps cnt recs" and "packing_ok m width needs_check maxops ps cnt"
    and "\<And>ps cnt pk rb. packing_ok m width needs_check maxops ps cnt \<Longrightarrow>
       plan_of m width maxops (head_ptr ps) cnt = Some pk \<Longrightarrow> record_plan m width maxops ps cnt pk \<Longrightarrow>
       rb = plan_readback (width AND EB_DATAX) needs_check maxops pk \<Longrightarrow> plan_ends needs_check pk rb \<Longrightarrow>
       P ps cnt [plan_record m width rba ps pk rb True]"
    and "\<And>ps cnt pk rb recs. packing_ok m width needs_check maxops ps cnt \<Longrightarrow>
       plan_of m width maxops (head_ptr ps) cnt = Some pk \<Longrightarrow> record_plan m width maxops ps cnt pk \<Longrightarrow>
       rb = plan_readback (width AND EB_DATAX) needs_check maxops pk \<Longrightarrow> \<not> plan_ends needs_check pk rb \<Longrightarrow>
       packing_ok m width needs_check maxops (plan_left ps pk) (if rb then 0 else pk_ops pk) \<Longrightarrow>
       packs m width rba needs_check maxops (plan_left ps pk) (if rb then 0 else pk_ops pk) recs \<Longrightarrow>
       P (plan_left ps pk) (if rb then 0 else pk_ops pk) recs \<Longrightarrow>
       P ps cnt (plan_record m width rba ps pk rb False # recs)"
  shows "P ps cnt recs"
  using assms(1,2)
proof (induction rule: packs.induct)
  case (packs_last ps cnt pk rb)
  then have "record_plan m width maxops ps cnt pk" using pass_plan [OF packs_last.prems] by force
  then show ?case using packs_last assms(3) by blast
next
  case (packs_more ps cnt pk rb recs)
  then have pl: "record_plan m width maxops ps cnt pk" using pass_plan [OF packs_more.prems] by force
  have "packing_ok m width needs_check maxops (plan_left ps pk) (if rb then 0 else pk_ops pk)"
    using pass_facts(4) [OF packs_more.prems pl] packs_more.hyps by blast
  then show ?case using packs_more pl assms(4) by blast
qed

section \<open>What the records of a cycle ask for\<close>

text \<open>Every bus access is covered by a read of the error register that follows it, with at most \<open>lim\<close> of
  them in between: the register has one bit for each.\<close>

definition is_bus :: "access \<Rightarrow> bool" where
  "is_bus acc \<longleftrightarrow> (case acc of Bus_write _ _ _ _ \<Rightarrow> True | Bus_read _ _ _ _ \<Rightarrow> True | _ \<Rightarrow> False)"

fun status_covered :: "access \<Rightarrow> nat \<Rightarrow> nat \<Rightarrow> access list \<Rightarrow> bool" where
  "status_covered s lim k [] \<longleftrightarrow> k = 0"
| "status_covered s lim k (a # as) \<longleftrightarrow>
     (if a = s then status_covered s lim 0 as
      else if is_bus a then k < lim \<and> status_covered s lim (k + 1) as else status_covered s lim k as)"

definition cycle_accesses :: "eb_width_t \<Rightarrow> wire_record list \<Rightarrow> access list" where
  "cycle_accesses width recs = concat (map (record_accesses width) recs)"

definition even_rba :: "u16 \<Rightarrow> bool" where "even_rba rba \<longleftrightarrow> \<not> bit rba 0"

lemma performs_bus: "performs width rba op acc \<Longrightarrow> is_bus acc \<longleftrightarrow> \<not> op_is_cfg op"
  by (cases acc) (auto simp: performs_def is_bus_def)

lemma performs_not_status:
  assumes "even_rba rba" "performs width rba op acc"
  shows "acc \<noteq> status_access width rba"
proof
  assume "acc = status_access width rba"
  then have "ucast (rba OR 1) = (ucast rba :: u64)" using assms(2) by (simp add: status_access_def performs_def)
  then have "bit (ucast (rba OR 1) :: u64) 0 = bit (ucast rba :: u64) 0" by simp
  then show False using assms(1) by (simp add: even_rba_def bit_simps)
qed

lemma performed_filter:
  assumes "even_rba rba" "list_all2 (performs width rba) ops as"
  shows "filter (\<lambda>a. a \<noteq> status_access width rba) as = as"
  using assms(2) performs_not_status [OF assms(1)] by (induction rule: list_all2_induct) auto

lemma performed_covered:
  assumes "even_rba rba" "list_all2 (performs width rba) ops as" "k + bus_count ops \<le> lim"
    and "status_covered (status_access width rba) lim (k + bus_count ops) rest"
  shows "status_covered (status_access width rba) lim k (as @ rest)"
  using assms(2-)
proof (induction arbitrary: k rule: list_all2_induct)
  case Nil
  then show ?case by (simp add: bus_count_def)
next
  case (Cons op ops a as)
  then show ?case
    using performs_not_status [OF assms(1) Cons.hyps(1)] performs_bus [OF Cons.hyps(1)] Cons.IH [of "k + 1"] Cons.IH [of k]
    by (auto simp: bus_count_def)
qed

text \<open>One pass.\<close>

lemma pass_performs:
  assumes inv: "packing_ok m width needs_check maxops ps cnt" and pl: "record_plan m width maxops ps cnt pk"
    and rb: "rb = plan_readback (width AND EB_DATAX) needs_check maxops pk"
    and cr: "\<forall>p \<in> set ps. config_readable width (op_at m p)"
  obtains as where "record_accesses width (plan_record m width rba ps pk rb cyc) = as @ (if rb then [status_access width rba] else [])"
    "list_all2 (performs width rba) (plan_ws m ps pk @ plan_rs m ps pk) as"
proof -
  note f = pass_facts(1) [OF inv pl rb]
  have pw: "port_widths width" using inv by (simp add: packing_ok_def)
  have pk: "packable width (pk_fifo pk) (plan_ws m ps pk) (plan_rs m ps pk)"
    using pl unfolding record_plan_def Let_def by blast
  have "\<forall>op \<in> set (plan_rs m ps pk). config_readable width op"
    using cr by (auto dest!: in_set_takeD in_set_dropD)
  from record_performs [OF pw pk this f] show ?thesis
    using that unfolding plan_record_def by blast
qed

lemma packs_perform:
  assumes "packs m width rba needs_check maxops ps cnt recs" "packing_ok m width needs_check maxops ps cnt"
    and "even_rba rba" and "\<forall>p \<in> set ps. config_readable width (op_at m p)"
  shows "list_all2 (performs width rba) (map (op_at m) ps)
      (filter (\<lambda>a. a \<noteq> status_access width rba) (cycle_accesses width recs))"
  using assms(1,2,4)
proof (induction rule: packs_induct)
  case (last ps cnt pk rb)
  obtain as where as: "record_accesses width (plan_record m width rba ps pk rb True) = as @ (if rb then [status_access width rba] else [])"
    "list_all2 (performs width rba) (plan_ws m ps pk @ plan_rs m ps pk) as"
    using pass_performs [OF last(1,3,4,6)] .
  have "plan_left ps pk = []" using pass_facts(7) [OF last(1,3,4)] last(5) by (simp add: plan_ends_def)
  then have "map (op_at m) ps = plan_ws m ps pk @ plan_rs m ps pk" using pass_facts(6) [OF last(1,3,4)] by simp
  then show ?case using as performed_filter [OF assms(3) as(2)] by (simp add: cycle_accesses_def)
next
  case (more ps cnt pk rb recs)
  obtain as where as: "record_accesses width (plan_record m width rba ps pk rb False) = as @ (if rb then [status_access width rba] else [])"
    "list_all2 (performs width rba) (plan_ws m ps pk @ plan_rs m ps pk) as"
    using pass_performs [OF more(1,3,4,9)] .
  have "\<forall>p \<in> set (plan_left ps pk). config_readable width (op_at m p)" using more(9) by (blast dest: in_set_dropD)
  note IH = more.IH [OF this]
  have acc: "filter (\<lambda>a. a \<noteq> status_access width rba) (cycle_accesses width (plan_record m width rba ps pk rb False # recs)) =
      as @ filter (\<lambda>a. a \<noteq> status_access width rba) (cycle_accesses width recs)"
    by (simp add: cycle_accesses_def as(1) performed_filter [OF assms(3) as(2)])
  show ?case
    unfolding acc
    by (subst pass_facts(6) [OF more(1,3,4)], subst append_assoc [symmetric]) (rule list_all2_appendI [OF as(2) IH])
qed


lemma packs_covered:
  assumes "packs m width rba needs_check maxops ps cnt recs" "packing_ok m width needs_check maxops ps cnt"
    and "even_rba rba" and "needs_check" and "\<forall>p \<in> set ps. config_readable width (op_at m p)"
  shows "status_covered (status_access width rba) (unat maxops) (unat cnt) (cycle_accesses width recs)"
  using assms(1,2,5)
proof (induction rule: packs_induct)
  case (last ps cnt pk rb)
  obtain as where as: "record_accesses width (plan_record m width rba ps pk rb True) = as @ (if rb then [status_access width rba] else [])"
    "list_all2 (performs width rba) (plan_ws m ps pk @ plan_rs m ps pk) as"
    using pass_performs [OF last(1,3,4,6)] .
  have n: "unat (pk_ops pk) = unat cnt + bus_count (plan_ws m ps pk @ plan_rs m ps pk)" "unat (pk_ops pk) \<le> unat maxops"
    using last(3) unfolding record_plan_def Let_def by blast+
  have "rb \<or> pk_ops pk = 0" using last(5) assms(4) by (auto simp: plan_ends_def)
  then have "status_covered (status_access width rba) (unat maxops) (unat (pk_ops pk)) (if rb then [status_access width rba] else [])"
    by auto
  then show ?case
    using n unfolding cycle_accesses_def list.map concat.simps as(1) append_Nil2
    by (intro performed_covered [OF assms(3) as(2)]) simp_all
next
  case (more ps cnt pk rb recs)
  obtain as where as: "record_accesses width (plan_record m width rba ps pk rb False) = as @ (if rb then [status_access width rba] else [])"
    "list_all2 (performs width rba) (plan_ws m ps pk @ plan_rs m ps pk) as"
    using pass_performs [OF more(1,3,4,9)] .
  have n: "unat (pk_ops pk) = unat cnt + bus_count (plan_ws m ps pk @ plan_rs m ps pk)" "unat (pk_ops pk) \<le> unat maxops"
    using more(3) unfolding record_plan_def Let_def by blast+
  have "\<forall>p \<in> set (plan_left ps pk). config_readable width (op_at m p)" using more(9) by (blast dest: in_set_dropD)
  from more.IH [OF this]
  have "status_covered (status_access width rba) (unat maxops) (unat (pk_ops pk))
      ((if rb then [status_access width rba] else []) @ cycle_accesses width recs)"
    by (cases rb) simp_all
  then show ?case
    using n unfolding cycle_accesses_def list.map concat.simps as(1) append_assoc
    by (intro performed_covered [OF assms(3) as(2)]) simp_all
qed

end
