(* ===== verification/Eb_Transmit.thy ===== *)
theory Eb_Transmit
  imports Eb_Pack
begin

text \<open>
  Formatting a cycle into the send buffer: on a packet transport the records of a cycle stay together
  in one packet or the cycle is refused, on a stream they are sent as the buffer fills. No write leaves
  the buffer, and the loop always ends.
\<close>

section \<open>Room for a record\<close>

definition total_length :: "eb_width_t \<Rightarrow> wire_record list \<Rightarrow> nat" where
  "total_length width recs = length (concat (map (encode_record width) recs))"

lemma total_length_simps [simp]:
  "total_length width [] = 0"
  "total_length width (r # recs) = length (encode_record width r) + total_length width recs"
  by (simp_all add: total_length_def)

text \<open>The link of the device can be used.\<close>

definition sendable :: "eb_memory \<Rightarrow> eb_ptr \<Rightarrow> bool" where
  "sendable m devicep \<longleftrightarrow> (\<exists>device transport link. EB_DEVICE m devicep = Some device \<and>
     EB_TRANSPORT m (dev_transport device) = Some transport \<and> EB_LINK m (dev_link device) = Some link)"

text \<open>The state after sending some bytes.\<close>

definition sent :: "'w master_port \<Rightarrow> u8 list \<Rightarrow> 'w eb_state \<Rightarrow> 'w eb_state" where
  "sent port bytes st = (case master_send port bytes st of Some st' \<Rightarrow> st' | None \<Rightarrow> st)"

lemma master_send_sent: "sendable (st_mem st) (mp_device port) \<Longrightarrow> master_send port bytes st = Some (sent port bytes st)"
  by (auto simp: sendable_def sent_def master_send_def)

lemma sent_mem [simp]: "st_mem (sent port bytes st) = st_mem st"
  by (auto simp: sent_def master_send_def bind_eq_Some_conv split: option.split)

text \<open>The records of the current cycle that are in the buffer.\<close>

definition current :: "'w master \<Rightarrow> u8 list" where
  "current ma = drop (ma_cptr ma) (take (ma_wptr ma) (ma_buf ma))"

definition marked :: "'w master \<Rightarrow> u8 list" where
  "marked ma = (if \<not> ma_has_reads ma then (ma_buf ma)[2 := ma_buf ma ! 2 OR EB_HEADER_NR] else ma_buf ma)"

definition flushed :: "'w master_port \<Rightarrow> 'w master \<Rightarrow> 'w master" where
  "flushed port ma = ma\<lparr>ma_buf := put_bytes (master_start port) (current ma) (marked ma), ma_cptr := master_start port,
     ma_wptr := master_start port + (ma_wptr ma - ma_cptr ma), ma_has_reads := False,
     ma_st := sent port (take (ma_cptr ma) (marked ma)) (ma_st ma)\<rparr>"

definition buffer_ok :: "'w master_port \<Rightarrow> 'w master \<Rightarrow> bool" where
  "buffer_ok port ma \<longleftrightarrow> length (ma_buf ma) = slave_buffer_size \<and> master_start port \<le> ma_cptr ma \<and>
     ma_cptr ma \<le> ma_wptr ma \<and> ma_wptr ma \<le> master_eob port \<and> sendable (st_mem (ma_st ma)) (mp_device port)"

definition packet_port :: "'w master_port \<Rightarrow> bool" where
  "packet_port port \<longleftrightarrow> 8 \<le> tops_mtu (mp_tops port) \<and> tops_mtu (mp_tops port) \<le> int slave_buffer_size"

lemma packet_start: "packet_port port \<Longrightarrow> master_start port \<in> {4, 8}"
  using alignment_cases(2) [of "mp_width port"] by (auto simp: packet_port_def master_start_def)

lemma packet_eob: "packet_port port \<Longrightarrow> master_eob port \<le> slave_buffer_size"
  by (auto simp: packet_port_def master_eob_def)

lemma marked_tail:
  assumes "buffer_ok port ma" "packet_port port"
  shows "length (marked ma) = slave_buffer_size" "drop (ma_cptr ma) (take n (marked ma)) = drop (ma_cptr ma) (take n (ma_buf ma))"
  using assms packet_start [OF assms(2)] by (auto simp: marked_def buffer_ok_def take_update_swap drop_update_cancel)

lemma room_packet:
  assumes ok: "buffer_ok port ma" and pp: "packet_port port"
  shows "master_room port len ma =
    (if ma_wptr ma + len \<le> master_eob port then Some (True, ma)
     else if ma_cptr ma \<noteq> master_start port then
       Some (master_start port + (ma_wptr ma - ma_cptr ma) + len \<le> master_eob port, flushed port ma)
     else Some (False, ma))"
proof -
  have mtu: "tops_mtu (mp_tops port) \<noteq> 0" using pp by (simp add: packet_port_def)
  have send: "master_send port bytes (ma_st ma) = Some (sent port bytes (ma_st ma))" for bytes
    using ok by (intro master_send_sent) (simp add: buffer_ok_def)
  have "take (ma_wptr ma - ma_cptr ma) (drop (ma_cptr ma) (marked ma)) = current ma"
    using marked_tail(2) [OF ok pp, of "ma_wptr ma"] ok by (simp add: current_def buffer_ok_def drop_take)
  then show ?thesis
    by (simp add: master_room_def mtu send flushed_def Let_def marked_def)
qed

lemma flushed_ok:
  assumes ok: "buffer_ok port ma" and pp: "packet_port port"
  shows "buffer_ok port (flushed port ma)" "current (flushed port ma) = current ma" "ma_cptr (flushed port ma) = master_start port"
    "st_mem (ma_st (flushed port ma)) = st_mem (ma_st ma)"
proof -
  have b: "ma_cptr ma \<le> ma_wptr ma" "ma_wptr ma \<le> slave_buffer_size" "length (ma_buf ma) = slave_buffer_size" "master_start port \<le> ma_cptr ma"
    using ok packet_eob [OF pp] by (auto simp: buffer_ok_def)
  have len: "length (current ma) = ma_wptr ma - ma_cptr ma" using b by (simp add: current_def)
  have fit: "master_start port + length (current ma) \<le> length (marked ma)" using b marked_tail(1) [OF ok pp] by (simp add: len)
  show "buffer_ok port (flushed port ma)"
    using ok fit b marked_tail(1) [OF ok pp] by (auto simp: buffer_ok_def flushed_def len)
  have "current (ma\<lparr>ma_buf := put_bytes s c b, ma_cptr := s, ma_wptr := s + length c, ma_has_reads := h, ma_st := t\<rparr>) = c"
    if "s + length c \<le> length b" for s c b h t
    using that by (simp add: current_def put_bytes_def)
  from this [OF fit] show "current (flushed port ma) = current ma" by (simp add: flushed_def len)
  show "ma_cptr (flushed port ma) = master_start port" "st_mem (ma_st (flushed port ma)) = st_mem (ma_st ma)"
    by (simp_all add: flushed_def)
qed

section \<open>One pass\<close>

text \<open>What stays fixed in a cycle, and the state of its formatting.\<close>

record 'w cycle_job =
  job_env :: "'w eb_env"
  job_port :: "'w master_port"
  job_needs_check :: bool
  job_maxops :: u32
  job_rba :: u16
  job_cycle :: eb_ptr
  job_response :: eb_ptr

abbreviation job_body :: "'w cycle_job \<Rightarrow> 'w packing \<Rightarrow> ('w packing + bool \<times> 'w packing) option" where
  "job_body job \<equiv> master_pack_body (job_env job) (job_port job) (job_needs_check job) (job_maxops job) (job_rba job)
     (job_cycle job) (job_response job)"

abbreviation job_width :: "'w cycle_job \<Rightarrow> eb_width_t" where "job_width job \<equiv> mp_width (job_port job)"

definition job_state :: "'w cycle_job \<Rightarrow> eb_memory \<Rightarrow> eb_ptr list \<Rightarrow> u32 \<Rightarrow> 'w packing \<Rightarrow> bool" where
  "job_state job m ps cnt pa \<longleftrightarrow> st_mem (ma_st (pa_master pa)) = m \<and> pa_operationp pa = head_ptr ps \<and> pa_ops pa = cnt \<and>
     packing_ok m (job_width job) (job_needs_check job) (job_maxops job) ps cnt"

text \<open>The state after the record of a pass was written into the buffer of \<open>ma\<close>.\<close>

definition wrote :: "'w cycle_job \<Rightarrow> eb_memory \<Rightarrow> eb_ptr list \<Rightarrow> pack \<Rightarrow> bool \<Rightarrow> bool \<Rightarrow> 'w packing \<Rightarrow> 'w master \<Rightarrow> 'w packing" where
  "wrote job m ps pk rb cyc pa ma =
     (let bytes = encode_record (job_width job) (plan_record m (job_width job) (job_rba job) ps pk rb cyc)
      in \<lparr>pa_master = ma\<lparr>ma_buf := put_bytes (ma_wptr ma) bytes (ma_buf ma), ma_wptr := ma_wptr ma + length bytes,
            ma_has_reads := ma_has_reads ma \<or> rb \<or> pk_rcount pk > 0\<rparr>,
          pa_operationp = head_ptr (plan_left ps pk), pa_ops = (if rb then 0 else pk_ops pk),
          pa_readback = (pa_readback pa \<or> rb \<or> pk_rcount pk > 0)\<rparr>)"

lemma record_length:
  assumes "record_plan m width maxops ps cnt pk" "rb \<Longrightarrow> plan_rs m ps pk = []"
  shows "length (encode_record width (plan_record m width rba ps pk rb cyc)) =
    record_alignment_of width + ((if pk_wcount pk > 0 then 1 else 0) + pk_wcount pk +
      (if (if rb then 1 else pk_rcount pk) > 0 then 1 else 0) + (if rb then 1 else pk_rcount pk)) * alignment_of width"
proof -
  have "pk_wcount pk + pk_rcount pk \<le> length ps" using assms(1) unfolding record_plan_def Let_def by blast
  then have "length (wr_writes (plan_record m width rba ps pk rb cyc)) = pk_wcount pk"
      "length (wr_reads (plan_record m width rba ps pk rb cyc)) = (if rb then 1 else pk_rcount pk)"
    by (auto simp: plan_record_def op_record_def Let_def)
  then show ?thesis by (simp add: length_encode_record field_count_def)
qed

lemma pass_body:
  fixes job :: "'w cycle_job"
  assumes st: "job_state job m ps cnt pa"
    and plan: "plan_of m (job_width job) (job_maxops job) (head_ptr ps) cnt = Some pk"
    and pl: "record_plan m (job_width job) (job_maxops job) ps cnt pk"
    and rb: "rb = plan_readback (job_width job AND EB_DATAX) (job_needs_check job) (job_maxops job) pk"
    and R: "R = plan_record m (job_width job) (job_rba job) ps pk rb (plan_ends (job_needs_check job) pk rb)"
    and room: "master_room (job_port job) (length (encode_record (job_width job) R)) (pa_master pa) = Some (fits, ma)"
    and ma: "st_mem (ma_st ma) = m" "fits \<Longrightarrow> ma_wptr ma + length (encode_record (job_width job) R) \<le> length (ma_buf ma)"
  shows "job_body job pa =
    (if fits then Some (if plan_ends (job_needs_check job) pk rb then Inr (True, wrote job m ps pk rb True pa ma)
       else Inl (wrote job m ps pk rb False pa ma))
     else do {
       st \<leftarrow> finish_cycle (job_env job) (job_cycle job) (head_ptr ps) EB_OVERFLOW (ma_st ma);
       st \<leftarrow> on_mem (eb_free_response (job_response job)) st;
       Some (Inr (False, pa\<lparr>pa_master := ma\<lparr>ma_wptr := master_start (job_port job), ma_st := st\<rparr>\<rparr>))
     })"
proof -
  let ?w = "job_width job"
  have s: "st_mem (ma_st (pa_master pa)) = m" "pa_operationp pa = head_ptr ps" "pa_ops pa = cnt"
      "packing_ok m ?w (job_needs_check job) (job_maxops job) ps cnt"
    using st by (auto simp: job_state_def)
  note f = pass_facts [OF s(4) pl rb]
  obtain pk0 where pk0: "plan_writes m (?w AND EB_DATAX) (job_maxops job) (head_ptr ps) cnt = Some pk0"
      "plan_reads m (?w AND EB_DATAX) (job_maxops job) pk0 = Some pk"
    using plan by (auto simp: plan_of_def bind_eq_Some_conv)
  have len: "record_alignment_of ?w + ((if pk_wcount pk > 0 then 1 else 0) + pk_wcount pk +
      (if (if rb then 1 else pk_rcount pk) > 0 then 1 else 0) + (if rb then 1 else pk_rcount pk)) * alignment_of ?w =
      length (encode_record ?w R)"
    unfolding R by (rule record_length [OF pl, symmetric]) (use f(1) in blast)
  have c: "port_widths ?w" "op_chain m (head_ptr ps) ps" using s(4) by (auto simp: packing_ok_def)
  have emit: "emit_record m ?w (job_rba job) pk rb (plan_ends (job_needs_check job) pk rb) (head_ptr ps) (ma_buf ma) (ma_wptr ma) =
      Some (head_ptr (plan_left ps pk), put_bytes (ma_wptr ma) (encode_record ?w R) (ma_buf ma), ma_wptr ma + length (encode_record ?w R))" if fits
    unfolding R plan_record_def
    by (rule emit_record_spec [OF c pl]) (use f(1,2) ma(2) [OF that] in \<open>auto simp: R plan_record_def\<close>)
  show ?thesis
    unfolding master_pack_body_def Let_def s pk0 bind.bind_lunit rb [symmetric] plan_ends_def [symmetric]
      len room prod.case ma(1)
    using emit f(1) by (auto simp: wrote_def R Let_def)
qed

section \<open>Packets\<close>

text \<open>What happens to the cycles that were formatted before this one: they are still in the buffer, or they
  were sent, as one packet of their own.\<close>

definition earlier :: "'w master_port \<Rightarrow> 'w master \<Rightarrow> 'w master \<Rightarrow> bool" where
  "earlier port ma ma' \<longleftrightarrow>
     ma_cptr ma' = ma_cptr ma \<and> take (ma_cptr ma) (ma_buf ma') = take (ma_cptr ma) (ma_buf ma) \<and> ma_st ma' = ma_st ma \<or>
     ma_cptr ma' = master_start port \<and> ma_cptr ma \<noteq> master_start port \<and>
     (\<exists>b. ma_st ma' = sent port b (ma_st ma) \<and>
        b \<in> {take (ma_cptr ma) (ma_buf ma), (take (ma_cptr ma) (ma_buf ma))[2 := ma_buf ma ! 2 OR EB_HEADER_NR]})"

lemma earlier_refl: "earlier port ma ma"
  by (simp add: earlier_def)

lemma earlier_trans:
  assumes "earlier port ma ma1" "earlier port ma1 ma2" "master_start port \<le> ma_cptr ma" "2 < master_start port" "ma_cptr ma \<le> length (ma_buf ma)"
  shows "earlier port ma ma2"
proof (cases "ma_cptr ma1 = ma_cptr ma \<and> take (ma_cptr ma) (ma_buf ma1) = take (ma_cptr ma) (ma_buf ma) \<and> ma_st ma1 = ma_st ma")
  case True
  have two: "2 < ma_cptr ma" using assms(3,4) by simp
  have "ma_buf ma1 ! 2 = ma_buf ma ! 2"
    using True nth_take [OF two, of "ma_buf ma1"] nth_take [OF two, of "ma_buf ma"] by simp
  then show ?thesis using True assms(2) unfolding earlier_def by auto
next
  case False
  then have 1: "ma_cptr ma1 = master_start port" "ma_cptr ma \<noteq> master_start port"
      "\<exists>b. ma_st ma1 = sent port b (ma_st ma) \<and>
        b \<in> {take (ma_cptr ma) (ma_buf ma), (take (ma_cptr ma) (ma_buf ma))[2 := ma_buf ma ! 2 OR EB_HEADER_NR]}"
    using assms(1) unfolding earlier_def by blast+
  then have "ma_cptr ma2 = master_start port \<and> ma_st ma2 = ma_st ma1" using assms(2) unfolding earlier_def by auto
  then show ?thesis using 1 unfolding earlier_def by auto
qed

lemma earlier_flushed:
  assumes "buffer_ok port ma" "packet_port port" "ma_cptr ma \<noteq> master_start port"
  shows "earlier port ma (flushed port ma)"
  using assms packet_start [OF assms(2)]
  by (auto simp: earlier_def flushed_def marked_def buffer_ok_def take_update_swap)

lemma room_step:
  assumes ok: "buffer_ok port ma" and pp: "packet_port port"
  obtains fits ma1 where "master_room port len ma = Some (fits, ma1)" "buffer_ok port ma1" "current ma1 = current ma"
    "st_mem (ma_st ma1) = st_mem (ma_st ma)" "earlier port ma ma1" "fits \<longrightarrow> ma_wptr ma1 + len \<le> master_eob port"
    "\<not> fits \<longrightarrow> ma_cptr ma1 = master_start port" "fits \<or> master_start port + length (current ma) + len > master_eob port"
proof -
  have "ma_wptr ma \<le> length (ma_buf ma)" "ma_cptr ma \<le> ma_wptr ma"
    using ok packet_eob [OF pp] by (auto simp: buffer_ok_def)
  then have len: "length (current ma) = ma_wptr ma - ma_cptr ma" by (simp add: current_def)
  consider "ma_wptr ma + len \<le> master_eob port" | "\<not> ma_wptr ma + len \<le> master_eob port" "ma_cptr ma = master_start port"
    | "\<not> ma_wptr ma + len \<le> master_eob port" "ma_cptr ma \<noteq> master_start port" by blast
  then show ?thesis
  proof cases
    case 1
    then show ?thesis using that [of True ma] room_packet [OF ok pp, of len] ok earlier_refl by auto
  next
    case 2
    then show ?thesis using that [of False ma] room_packet [OF ok pp, of len] ok earlier_refl len \<open>ma_cptr ma \<le> ma_wptr ma\<close> by auto
  next
    case 3
    then show ?thesis
      using that [of "master_start port + (ma_wptr ma - ma_cptr ma) + len \<le> master_eob port" "flushed port ma"]
        room_packet [OF ok pp, of len] flushed_ok [OF ok pp] earlier_flushed [OF ok pp 3(2)] len
        le_less_linear [of "master_start port + (ma_wptr ma - ma_cptr ma) + len" "master_eob port"]
      by (auto simp: flushed_def)
  qed
qed

lemma wrote_step:
  fixes job :: "'w cycle_job"
  assumes ok: "buffer_ok (job_port job) ma" and room: "ma_wptr ma + length (encode_record (job_width job) R) \<le> master_eob (job_port job)"
    and eob: "master_eob (job_port job) \<le> slave_buffer_size"
    and R: "R = plan_record m (job_width job) (job_rba job) ps pk rb cyc"
  shows "buffer_ok (job_port job) (pa_master (wrote job m ps pk rb cyc pa ma))"
    "current (pa_master (wrote job m ps pk rb cyc pa ma)) = current ma @ encode_record (job_width job) R"
    "earlier (job_port job) ma (pa_master (wrote job m ps pk rb cyc pa ma))"
    "ma_st (pa_master (wrote job m ps pk rb cyc pa ma)) = ma_st ma"
proof -
  have b: "length (ma_buf ma) = slave_buffer_size" "ma_cptr ma \<le> ma_wptr ma" "ma_wptr ma \<le> slave_buffer_size"
      "ma_wptr ma + length (encode_record (job_width job) R) \<le> length (ma_buf ma)"
    using ok room eob by (auto simp: buffer_ok_def)
  let ?ma = "pa_master (wrote job m ps pk rb cyc pa ma)"
  have w: "ma_buf ?ma = put_bytes (ma_wptr ma) (encode_record (job_width job) R) (ma_buf ma)" "ma_cptr ?ma = ma_cptr ma"
      "ma_wptr ?ma = ma_wptr ma + length (encode_record (job_width job) R)" "ma_st ?ma = ma_st ma"
    by (simp_all add: wrote_def R Let_def)
  show "buffer_ok (job_port job) ?ma" using ok room b by (auto simp: buffer_ok_def w)
  show "current ?ma = current ma @ encode_record (job_width job) R"
    using b by (simp add: current_def w take_put_bytes_all)
  have "take (ma_cptr ma) (put_bytes (ma_wptr ma) (encode_record (job_width job) R) (ma_buf ma)) = take (ma_cptr ma) (ma_buf ma)"
    using b by (simp add: put_bytes_def)
  then show "earlier (job_port job) ma ?ma" by (simp add: earlier_def w)
  show "ma_st ?ma = ma_st ma" by (rule w(4))
qed

text \<open>The outcomes: the records of the cycle are complete in the buffer, or the cycle is refused and reported
  with its first unsent operation.\<close>

definition formatted :: "'w cycle_job \<Rightarrow> eb_memory \<Rightarrow> wire_record list \<Rightarrow> 'w packing \<Rightarrow> 'w packing \<Rightarrow> bool" where
  "formatted job m recs pa pa' \<longleftrightarrow>
     current (pa_master pa') = current (pa_master pa) @ concat (map (encode_record (job_width job)) recs) \<and>
     buffer_ok (job_port job) (pa_master pa') \<and> earlier (job_port job) (pa_master pa) (pa_master pa') \<and>
     st_mem (ma_st (pa_master pa')) = m \<and> (pa_readback pa' \<longleftrightarrow> pa_readback pa \<or> (\<exists>r \<in> set recs. wr_reads r \<noteq> []))"

definition refuse :: "'w cycle_job \<Rightarrow> eb_ptr \<Rightarrow> 'w packing \<Rightarrow> 'w master \<Rightarrow> (bool \<times> 'w packing) option" where
  "refuse job opp pa ma = do {
     st \<leftarrow> finish_cycle (job_env job) (job_cycle job) opp EB_OVERFLOW (ma_st ma);
     st \<leftarrow> on_mem (eb_free_response (job_response job)) st;
     Some (False, pa\<lparr>pa_master := ma\<lparr>ma_wptr := master_start (job_port job), ma_st := st\<rparr>\<rparr>)
   }"

definition fits_packet :: "'w cycle_job \<Rightarrow> wire_record list \<Rightarrow> 'w packing \<Rightarrow> bool" where
  "fits_packet job recs pa \<longleftrightarrow>
     master_start (job_port job) + length (current (pa_master pa)) + total_length (job_width job) recs \<le> master_eob (job_port job)"

definition packet_outcome :: "'w cycle_job \<Rightarrow> eb_memory \<Rightarrow> eb_ptr list \<Rightarrow> wire_record list \<Rightarrow> 'w packing \<Rightarrow> bool" where
  "packet_outcome job m ps recs pa \<longleftrightarrow>
     (if fits_packet job recs pa then \<exists>pa'. loop (job_body job) pa = Some (True, pa') \<and> formatted job m recs pa pa'
      else \<exists>opp pa' ma. opp \<in> insert EB_NULL (set ps) \<and> loop (job_body job) pa = refuse job opp pa' ma \<and>
        earlier (job_port job) (pa_master pa) ma \<and> ma_cptr ma = master_start (job_port job) \<and> st_mem (ma_st ma) = m)"

lemma wrote_readback:
  assumes "record_plan m (job_width job) maxops ps cnt pk" "R = plan_record m (job_width job) (job_rba job) ps pk rb cyc"
  shows "pa_readback (wrote job m ps pk rb cyc pa ma) \<longleftrightarrow> pa_readback pa \<or> wr_reads R \<noteq> []"
proof -
  have "pk_wcount pk + pk_rcount pk \<le> length ps" using assms(1) unfolding record_plan_def Let_def by blast
  then have "wr_reads R \<noteq> [] \<longleftrightarrow> rb \<or> pk_rcount pk > 0" unfolding assms(2) plan_record_def op_record_def Let_def by auto
  then show ?thesis by (simp add: wrote_def Let_def)
qed

lemma loop_unfold:
  "body s = Some (Inl s') \<Longrightarrow> loop body s = loop body s'"
  "body s = Some (Inr r) \<Longrightarrow> loop body s = Some r"
  by (subst loop.simps, simp)+

lemma head_ptr_in: "head_ptr ps \<in> insert EB_NULL (set ps)"
  by (cases ps) auto

text \<open>A pass that finds no room refuses the cycle.\<close>

lemma pass_refused:
  fixes job :: "'w cycle_job"
  assumes "job_body job pa = do {
       st \<leftarrow> finish_cycle (job_env job) (job_cycle job) (head_ptr ps) EB_OVERFLOW (ma_st ma);
       st \<leftarrow> on_mem (eb_free_response (job_response job)) st;
       Some (Inr (False, pa\<lparr>pa_master := ma\<lparr>ma_wptr := master_start (job_port job), ma_st := st\<rparr>\<rparr>))
     }"
  shows "loop (job_body job) pa = refuse job (head_ptr ps) pa ma"
  by (subst loop.simps) (simp add: assms refuse_def cong: bind_option_cong)

lemma packet_pass:
  fixes job :: "'w cycle_job"
  assumes st: "job_state job m ps cnt pa" and ok: "buffer_ok (job_port job) (pa_master pa)" and pp: "packet_port (job_port job)"
    and plan: "plan_of m (job_width job) (job_maxops job) (head_ptr ps) cnt = Some pk"
    and pl: "record_plan m (job_width job) (job_maxops job) ps cnt pk"
    and rb: "rb = plan_readback (job_width job AND EB_DATAX) (job_needs_check job) (job_maxops job) pk"
    and R: "R = plan_record m (job_width job) (job_rba job) ps pk rb (plan_ends (job_needs_check job) pk rb)"
  obtains pa1 where "job_body job pa = Some (if plan_ends (job_needs_check job) pk rb then Inr (True, pa1) else Inl pa1)"
      "formatted job m [R] pa pa1" "pa_operationp pa1 = head_ptr (plan_left ps pk)" "pa_ops pa1 = (if rb then 0 else pk_ops pk)"
    | ma where "loop (job_body job) pa = refuse job (head_ptr ps) pa ma" "earlier (job_port job) (pa_master pa) ma"
      "ma_cptr ma = master_start (job_port job)" "st_mem (ma_st ma) = m" "\<not> fits_packet job [R] pa"
proof -
  let ?w = "job_width job" and ?len = "length (encode_record (job_width job) R)"
  have m: "st_mem (ma_st (pa_master pa)) = m" using st by (simp add: job_state_def)
  obtain fits ma1 where room: "master_room (job_port job) ?len (pa_master pa) = Some (fits, ma1)" "buffer_ok (job_port job) ma1"
      "current ma1 = current (pa_master pa)" "st_mem (ma_st ma1) = st_mem (ma_st (pa_master pa))" "earlier (job_port job) (pa_master pa) ma1"
      "fits \<longrightarrow> ma_wptr ma1 + ?len \<le> master_eob (job_port job)" "\<not> fits \<longrightarrow> ma_cptr ma1 = master_start (job_port job)"
      "fits \<or> master_start (job_port job) + length (current (pa_master pa)) + ?len > master_eob (job_port job)"
    using room_step [OF ok pp, of ?len] .
  have eob: "master_eob (job_port job) \<le> slave_buffer_size" by (rule packet_eob [OF pp])
  have lb: "fits \<Longrightarrow> ma_wptr ma1 + ?len \<le> length (ma_buf ma1)" using room(2,6) eob by (auto simp: buffer_ok_def)
  have m1: "st_mem (ma_st ma1) = m" using room(4) m by simp
  note body = pass_body [OF st plan pl rb R room(1) m1 lb]
  show ?thesis
  proof (cases fits)
    case False
    then have "job_body job pa = do {
       st \<leftarrow> finish_cycle (job_env job) (job_cycle job) (head_ptr ps) EB_OVERFLOW (ma_st ma1);
       st \<leftarrow> on_mem (eb_free_response (job_response job)) st;
       Some (Inr (False, pa\<lparr>pa_master := ma1\<lparr>ma_wptr := master_start (job_port job), ma_st := st\<rparr>\<rparr>))
     }" using body by simp
    from pass_refused [OF this] show ?thesis
      using that(2) [of ma1] False room m1 by (auto simp: fits_packet_def)
  next
    case True
    let ?cyc = "plan_ends (job_needs_check job) pk rb"
    let ?pa = "wrote job m ps pk rb ?cyc pa ma1"
    note w = wrote_step [OF room(2) room(6) [rule_format, OF True] eob R, of pa]
    have st2: "2 < master_start (job_port job)" using packet_start [OF pp] by auto
    have "earlier (job_port job) (pa_master pa) (pa_master ?pa)"
      using ok eob st2 by (intro earlier_trans [OF room(5) w(3)]) (auto simp: buffer_ok_def)
    then have "formatted job m [R] pa ?pa"
      using w room(3) m1 wrote_readback [OF pl R, of pa ma1] by (simp add: formatted_def)
    moreover have "job_body job pa = Some (if ?cyc then Inr (True, ?pa) else Inl ?pa)" using body True by simp
    ultimately show ?thesis using that(1) [of ?pa] by (simp add: wrote_def Let_def)
  qed
qed

lemma buffer_okD:
  assumes "buffer_ok port ma"
  shows "length (ma_buf ma) = slave_buffer_size" "master_start port \<le> ma_cptr ma" "ma_cptr ma \<le> ma_wptr ma"
    "ma_wptr ma \<le> master_eob port" "sendable (st_mem (ma_st ma)) (mp_device port)"
  using assms by (simp_all add: buffer_ok_def)

lemma length_current: "buffer_ok port ma \<Longrightarrow> packet_port port \<Longrightarrow> length (current ma) = ma_wptr ma - ma_cptr ma"
  using buffer_okD [of port ma] packet_eob [of port] by (simp add: current_def)

lemma formattedD:
  assumes "formatted job m recs pa pa'"
  shows "current (pa_master pa') = current (pa_master pa) @ concat (map (encode_record (job_width job)) recs)"
    "buffer_ok (job_port job) (pa_master pa')" "earlier (job_port job) (pa_master pa) (pa_master pa')"
    "st_mem (ma_st (pa_master pa')) = m" "pa_readback pa' \<longleftrightarrow> pa_readback pa \<or> (\<exists>r \<in> set recs. wr_reads r \<noteq> [])"
  using assms unfolding formatted_def by blast+

lemma earlier_packet_trans:
  assumes "packet_port port" "buffer_ok port ma" "earlier port ma ma1" "earlier port ma1 ma2"
  shows "earlier port ma ma2"
  using packet_start [OF assms(1)] packet_eob [OF assms(1)] buffer_okD [OF assms(2)]
  by (intro earlier_trans [OF assms(3,4)]) auto

lemma formatted_trans:
  assumes pp: "packet_port (job_port job)" and ok: "buffer_ok (job_port job) (pa_master pa)"
    and 1: "formatted job m [R] pa pa1" and 2: "formatted job m recs pa1 pa'"
  shows "formatted job m (R # recs) pa pa'"
proof -
  note f1 = formattedD [OF 1] and f2 = formattedD [OF 2]
  have "earlier (job_port job) (pa_master pa) (pa_master pa')" by (rule earlier_packet_trans [OF pp ok f1(3) f2(3)])
  moreover have "current (pa_master pa') = current (pa_master pa) @ concat (map (encode_record (job_width job)) (R # recs))"
    by (simp add: f1(1) f2(1))
  ultimately show ?thesis using f1(5) f2(2,4,5) unfolding formatted_def by simp
qed

lemma formatted_fits:
  assumes "packet_port (job_port job)" "formatted job m recs pa pa'"
  shows "fits_packet job recs pa"
proof -
  note f = formattedD [OF assms(2)]
  have "length (current (pa_master pa')) \<le> master_eob (job_port job) - master_start (job_port job)"
      "master_start (job_port job) \<le> master_eob (job_port job)"
    using length_current [OF f(2) assms(1)] buffer_okD [OF f(2)] by linarith+
  then show ?thesis using f(1) unfolding fits_packet_def total_length_def by simp
qed

lemma packet_loop:
  fixes job :: "'w cycle_job"
  assumes packs: "packs m (job_width job) (job_rba job) (job_needs_check job) (job_maxops job) ps cnt recs"
    and inv: "packing_ok m (job_width job) (job_needs_check job) (job_maxops job) ps cnt"
    and pp: "packet_port (job_port job)"
  shows "job_state job m ps cnt pa \<Longrightarrow> buffer_ok (job_port job) (pa_master pa) \<Longrightarrow> packet_outcome job m ps recs pa"
  using packs inv
proof (induction arbitrary: pa rule: packs_induct)
  case (last ps cnt pk rb)
  define R where "R = plan_record m (job_width job) (job_rba job) ps pk rb True"
  have R: "R = plan_record m (job_width job) (job_rba job) ps pk rb (plan_ends (job_needs_check job) pk rb)"
    using last(5) by (simp add: R_def)
  have "packet_outcome job m ps [R] pa"
  proof (rule packet_pass [OF last.prems pp last(2-4) R])
    fix pa1
    assume b: "job_body job pa = Some (if plan_ends (job_needs_check job) pk rb then Inr (True, pa1) else Inl pa1)"
      and f: "formatted job m [R] pa pa1"
    have "loop (job_body job) pa = Some (True, pa1)" using b last(5) loop_unfold(2) [of "job_body job"] by simp
    then show ?thesis using f formatted_fits [OF pp f] unfolding packet_outcome_def by auto
  next
    fix ma
    assume "loop (job_body job) pa = refuse job (head_ptr ps) pa ma" "earlier (job_port job) (pa_master pa) ma"
      "ma_cptr ma = master_start (job_port job)" "st_mem (ma_st ma) = m" "\<not> fits_packet job [R] pa"
    then show ?thesis using head_ptr_in [of ps] unfolding packet_outcome_def by auto
  qed
  then show ?case by (simp add: R_def)
next
  case (more ps cnt pk rb recs)
  define R where "R = plan_record m (job_width job) (job_rba job) ps pk rb False"
  have R: "R = plan_record m (job_width job) (job_rba job) ps pk rb (plan_ends (job_needs_check job) pk rb)"
    using more(5) by (simp add: R_def)
  have "packet_outcome job m ps (R # recs) pa"
  proof (rule packet_pass [OF more.prems pp more(2-4) R])
    fix pa1
    assume b: "job_body job pa = Some (if plan_ends (job_needs_check job) pk rb then Inr (True, pa1) else Inl pa1)"
      and f: "formatted job m [R] pa pa1" "pa_operationp pa1 = head_ptr (plan_left ps pk)" "pa_ops pa1 = (if rb then 0 else pk_ops pk)"
    have l: "loop (job_body job) pa = loop (job_body job) pa1" using b more(5) loop_unfold(1) [of "job_body job"] by simp
    have "job_state job m (plan_left ps pk) (if rb then 0 else pk_ops pk) pa1"
      using f more(6) by (simp add: job_state_def formatted_def)
    moreover have ok1: "buffer_ok (job_port job) (pa_master pa1)" using f by (simp add: formatted_def)
    ultimately have IH: "packet_outcome job m (plan_left ps pk) recs pa1" by (rule more.IH)
    have fit: "fits_packet job (R # recs) pa \<longleftrightarrow> fits_packet job recs pa1"
      using f(1) by (simp add: fits_packet_def formatted_def add.assoc)
    show ?thesis
    proof (cases "fits_packet job recs pa1")
      case True
      then obtain pa' where "loop (job_body job) pa1 = Some (True, pa')" "formatted job m recs pa1 pa'"
        using IH by (auto simp: packet_outcome_def)
      then show ?thesis using True fit l formatted_trans [OF pp more.prems(2) f(1)] by (auto simp: packet_outcome_def)
    next
      case False
      then obtain opp pa' ma where r: "opp \<in> insert EB_NULL (set (plan_left ps pk))" "loop (job_body job) pa1 = refuse job opp pa' ma"
          "earlier (job_port job) (pa_master pa1) ma" "ma_cptr ma = master_start (job_port job)" "st_mem (ma_st ma) = m"
        using IH by (auto simp: packet_outcome_def)
      have "opp \<in> insert EB_NULL (set ps)" using r(1) by (blast dest: in_set_dropD)
      moreover have "earlier (job_port job) (pa_master pa) ma"
        by (rule earlier_packet_trans [OF pp more.prems(2) formattedD(3) [OF f(1)] r(3)])
      ultimately show ?thesis using False fit l r unfolding packet_outcome_def by auto
    qed
  next
    fix ma
    assume "loop (job_body job) pa = refuse job (head_ptr ps) pa ma" "earlier (job_port job) (pa_master pa) ma"
      "ma_cptr ma = master_start (job_port job)" "st_mem (ma_st ma) = m" "\<not> fits_packet job [R] pa"
    moreover from this have "\<not> fits_packet job (R # recs) pa" by (simp add: fits_packet_def)
    ultimately show ?thesis using head_ptr_in [of ps] unfolding packet_outcome_def by auto
  qed
  then show ?case by (simp add: R_def)
qed

section \<open>Streams\<close>

definition stream_port :: "'w master_port \<Rightarrow> bool" where
  "stream_port port \<longleftrightarrow> tops_mtu (mp_tops port) = 0"

definition stream_ok :: "'w master_port \<Rightarrow> 'w master \<Rightarrow> bool" where
  "stream_ok port ma \<longleftrightarrow> length (ma_buf ma) = slave_buffer_size \<and> ma_wptr ma \<le> slave_buffer_size \<and>
     sendable (st_mem (ma_st ma)) (mp_device port)"

text \<open>Everything written so far was sent, in some chunks, or is at the front of the buffer.\<close>

definition streamed :: "'w cycle_job \<Rightarrow> eb_memory \<Rightarrow> wire_record list \<Rightarrow> 'w packing \<Rightarrow> 'w packing \<Rightarrow> bool" where
  "streamed job m recs pa pa' \<longleftrightarrow>
     (\<exists>chunks. concat chunks @ take (ma_wptr (pa_master pa')) (ma_buf (pa_master pa')) =
          take (ma_wptr (pa_master pa)) (ma_buf (pa_master pa)) @ concat (map (encode_record (job_width job)) recs) \<and>
        ma_st (pa_master pa') = fold (sent (job_port job)) chunks (ma_st (pa_master pa))) \<and>
     stream_ok (job_port job) (pa_master pa') \<and> st_mem (ma_st (pa_master pa')) = m \<and>
     (pa_readback pa' \<longleftrightarrow> pa_readback pa \<or> (\<exists>r \<in> set recs. wr_reads r \<noteq> []))"

lemma record_fits_buffer:
  assumes "packable width fifo ws rs" "rb \<Longrightarrow> rs = []"
  shows "length (encode_record width (op_record width rba fifo ws rs rb cyc)) \<le> slave_buffer_size"
proof -
  let ?R = "op_record width rba fifo ws rs rb cyc"
  have n: "length ws \<le> 255" "length rs \<le> 255" using assms(1) by (simp_all add: packable_def)
  have "length (wr_writes ?R) = length ws" "length (wr_reads ?R) = (if rb then 1 else length rs)"
    by (auto simp: op_record_def Let_def)
  then have "field_count (length (wr_writes ?R)) + field_count (length (wr_reads ?R)) \<le> 512"
    using n by (auto simp: field_count_def)
  moreover have "alignment_of width \<le> 8" "record_alignment_of width \<le> 8" using alignment_cases [of width] by auto
  ultimately have "record_alignment_of width +
      (field_count (length (wr_writes ?R)) + field_count (length (wr_reads ?R))) * alignment_of width \<le> 8 + 512 * 8"
    by (intro add_mono mult_mono) auto
  then show ?thesis unfolding length_encode_record slave_buffer_size_def by simp
qed

lemma fold_sent_mem [simp]: "st_mem (fold (sent port) chunks st) = st_mem st"
  by (induction chunks arbitrary: st) auto

lemma streamedI:
  assumes "concat chunks @ take (ma_wptr (pa_master pa')) (ma_buf (pa_master pa')) =
      take (ma_wptr (pa_master pa)) (ma_buf (pa_master pa)) @ concat (map (encode_record (job_width job)) recs)"
    and "ma_st (pa_master pa') = fold (sent (job_port job)) chunks (ma_st (pa_master pa))"
    and "stream_ok (job_port job) (pa_master pa')" "st_mem (ma_st (pa_master pa')) = m"
    and "pa_readback pa' \<longleftrightarrow> pa_readback pa \<or> (\<exists>r \<in> set recs. wr_reads r \<noteq> [])"
  shows "streamed job m recs pa pa'"
  using assms unfolding streamed_def by blast

lemma stream_pass:
  fixes job :: "'w cycle_job"
  assumes st: "job_state job m ps cnt pa" and ok: "stream_ok (job_port job) (pa_master pa)" and sp: "stream_port (job_port job)"
    and plan: "plan_of m (job_width job) (job_maxops job) (head_ptr ps) cnt = Some pk"
    and pl: "record_plan m (job_width job) (job_maxops job) ps cnt pk"
    and rb: "rb = plan_readback (job_width job AND EB_DATAX) (job_needs_check job) (job_maxops job) pk"
    and R: "R = plan_record m (job_width job) (job_rba job) ps pk rb (plan_ends (job_needs_check job) pk rb)"
  obtains pa1 where "job_body job pa = Some (if plan_ends (job_needs_check job) pk rb then Inr (True, pa1) else Inl pa1)"
      "streamed job m [R] pa pa1" "pa_operationp pa1 = head_ptr (plan_left ps pk)" "pa_ops pa1 = (if rb then 0 else pk_ops pk)"
proof -
  let ?w = "job_width job" and ?bytes = "encode_record (job_width job) R" and ?ma = "pa_master pa"
  have s: "st_mem (ma_st ?ma) = m" "packing_ok m ?w (job_needs_check job) (job_maxops job) ps cnt"
    using st by (auto simp: job_state_def)
  have o: "length (ma_buf ?ma) = slave_buffer_size" "ma_wptr ?ma \<le> slave_buffer_size" "sendable m (mp_device (job_port job))"
    using ok s by (auto simp: stream_ok_def)
  have "packable ?w (pk_fifo pk) (plan_ws m ps pk) (plan_rs m ps pk)" using pl unfolding record_plan_def Let_def by blast
  then have len: "length ?bytes \<le> slave_buffer_size"
    using pass_facts(1) [OF s(2) pl rb] unfolding R plan_record_def by (intro record_fits_buffer) auto
  have mtu: "tops_mtu (mp_tops (job_port job)) = 0" using sp by (simp add: stream_port_def)
  have eob: "master_eob (job_port job) = slave_buffer_size" by (simp add: master_eob_def mtu)
  define full where "full \<longleftrightarrow> \<not> ma_wptr ?ma + length ?bytes \<le> slave_buffer_size"
  define chunks where "chunks = (if full then [take (ma_wptr ?ma) (ma_buf ?ma)] else [])"
  define ma1 where "ma1 = (if full then ?ma\<lparr>ma_wptr := 0, ma_st := fold (sent (job_port job)) chunks (ma_st ?ma)\<rparr> else ?ma)"
  have room: "master_room (job_port job) (length ?bytes) ?ma = Some (True, ma1)"
    using o s by (simp add: master_room_def eob mtu master_send_sent ma1_def full_def chunks_def)
  have m1: "st_mem (ma_st ma1) = m" "ma_buf ma1 = ma_buf ?ma" "ma_wptr ma1 + length ?bytes \<le> slave_buffer_size"
      "ma_st ma1 = fold (sent (job_port job)) chunks (ma_st ?ma)"
    using s len by (auto simp: ma1_def full_def chunks_def)
  let ?cyc = "plan_ends (job_needs_check job) pk rb"
  let ?pa = "wrote job m ps pk rb ?cyc pa ma1"
  have w: "ma_buf (pa_master ?pa) = put_bytes (ma_wptr ma1) ?bytes (ma_buf ?ma)" "ma_wptr (pa_master ?pa) = ma_wptr ma1 + length ?bytes"
      "ma_st (pa_master ?pa) = ma_st ma1" "pa_operationp ?pa = head_ptr (plan_left ps pk)" "pa_ops ?pa = (if rb then 0 else pk_ops pk)"
    by (simp_all add: wrote_def R Let_def m1)
  have "concat chunks @ take (ma_wptr (pa_master ?pa)) (ma_buf (pa_master ?pa)) = take (ma_wptr ?ma) (ma_buf ?ma) @ ?bytes"
  proof -
    have "take (ma_wptr ma1 + length ?bytes) (put_bytes (ma_wptr ma1) ?bytes (ma_buf ?ma)) = take (ma_wptr ma1) (ma_buf ?ma) @ ?bytes"
      using m1(3) o by (intro take_put_bytes_all) simp
    moreover have "concat chunks @ take (ma_wptr ma1) (ma_buf ?ma) = take (ma_wptr ?ma) (ma_buf ?ma)"
      by (simp add: chunks_def ma1_def)
    ultimately show ?thesis unfolding w by simp
  qed
  then have "streamed job m [R] pa ?pa"
    using m1 o wrote_readback [OF pl R, of pa ma1]
    by (intro streamedI [of chunks]) (simp_all add: w stream_ok_def)
  moreover have "job_body job pa = Some (if ?cyc then Inr (True, ?pa) else Inl ?pa)"
    using pass_body [OF st plan pl rb R room m1(1)] m1 o by simp
  ultimately show ?thesis using that w(4,5) by blast
qed

lemma streamed_trans:
  assumes "streamed job m [R] pa pa1" "streamed job m recs pa1 pa'"
  shows "streamed job m (R # recs) pa pa'"
proof -
  obtain c1 where c1: "concat c1 @ take (ma_wptr (pa_master pa1)) (ma_buf (pa_master pa1)) =
      take (ma_wptr (pa_master pa)) (ma_buf (pa_master pa)) @ encode_record (job_width job) R"
      "ma_st (pa_master pa1) = fold (sent (job_port job)) c1 (ma_st (pa_master pa))"
    using assms(1) by (auto simp: streamed_def)
  obtain c2 where c2: "concat c2 @ take (ma_wptr (pa_master pa')) (ma_buf (pa_master pa')) =
      take (ma_wptr (pa_master pa1)) (ma_buf (pa_master pa1)) @ concat (map (encode_record (job_width job)) recs)"
      "ma_st (pa_master pa') = fold (sent (job_port job)) c2 (ma_st (pa_master pa1))"
    using assms(2) by (auto simp: streamed_def)
  have "concat (c1 @ c2) @ take (ma_wptr (pa_master pa')) (ma_buf (pa_master pa')) =
      (concat c1 @ take (ma_wptr (pa_master pa1)) (ma_buf (pa_master pa1))) @ concat (map (encode_record (job_width job)) recs)"
    using c2(1) by simp
  then have "concat (c1 @ c2) @ take (ma_wptr (pa_master pa')) (ma_buf (pa_master pa')) =
      take (ma_wptr (pa_master pa)) (ma_buf (pa_master pa)) @ concat (map (encode_record (job_width job)) (R # recs))"
    by (simp only: c1(1)) simp
  moreover have "pa_readback pa' \<longleftrightarrow> pa_readback pa \<or> (\<exists>r \<in> set (R # recs). wr_reads r \<noteq> [])"
    using assms unfolding streamed_def by simp
  ultimately show ?thesis
    using c1(2) c2(2) assms(2) by (intro streamedI [of "c1 @ c2"]) (simp_all add: streamed_def)
qed

lemma stream_loop:
  fixes job :: "'w cycle_job"
  assumes packs: "packs m (job_width job) (job_rba job) (job_needs_check job) (job_maxops job) ps cnt recs"
    and inv: "packing_ok m (job_width job) (job_needs_check job) (job_maxops job) ps cnt"
    and sp: "stream_port (job_port job)"
  shows "job_state job m ps cnt pa \<Longrightarrow> stream_ok (job_port job) (pa_master pa) \<Longrightarrow>
    \<exists>pa'. loop (job_body job) pa = Some (True, pa') \<and> streamed job m recs pa pa'"
  using packs inv
proof (induction arbitrary: pa rule: packs_induct)
  case (last ps cnt pk rb)
  have R: "plan_record m (job_width job) (job_rba job) ps pk rb True =
      plan_record m (job_width job) (job_rba job) ps pk rb (plan_ends (job_needs_check job) pk rb)"
    using last(5) by simp
  show ?case
    by (rule stream_pass [OF last.prems sp last(2-4) R]) (use last(5) loop_unfold(2) [of "job_body job"] in auto)
next
  case (more ps cnt pk rb recs)
  have R: "plan_record m (job_width job) (job_rba job) ps pk rb False =
      plan_record m (job_width job) (job_rba job) ps pk rb (plan_ends (job_needs_check job) pk rb)"
    using more(5) by simp
  obtain pa1 where b: "job_body job pa = Some (if plan_ends (job_needs_check job) pk rb then Inr (True, pa1) else Inl pa1)"
      and f: "streamed job m [plan_record m (job_width job) (job_rba job) ps pk rb False] pa pa1"
        "pa_operationp pa1 = head_ptr (plan_left ps pk)" "pa_ops pa1 = (if rb then 0 else pk_ops pk)"
    by (rule stream_pass [OF more.prems sp more(2-4) R])
  have l: "loop (job_body job) pa = loop (job_body job) pa1" using b more(5) loop_unfold(1) [of "job_body job"] by simp
  have "job_state job m (plan_left ps pk) (if rb then 0 else pk_ops pk) pa1" "stream_ok (job_port job) (pa_master pa1)"
    using f more(6) by (simp_all add: job_state_def streamed_def)
  then obtain pa' where "loop (job_body job) pa1 = Some (True, pa')" "streamed job m recs pa1 pa'" using more.IH by blast
  then show ?case using l streamed_trans [OF f(1)] by auto
qed

end
