(* ===== verification/Eb_Flush.thy ===== *)
theory Eb_Flush
  imports Eb_Transmit Eb_Pure_Slave
begin

text \<open>
  The cycles of a device as the master formats them: what leaves the machine for one cycle, on a packet
  transport and on a stream.
\<close>

section \<open>Whole cycles\<close>

text \<open>A cycle whose operations passed the check, as the code starts to format it.\<close>

definition job_ready :: "'w cycle_job \<Rightarrow> eb_memory \<Rightarrow> eb_ptr list \<Rightarrow> bool" where
  "job_ready job m ps \<longleftrightarrow> port_widths (job_width job) \<and> ps \<noteq> [] \<and> op_chain m (head_ptr ps) ps \<and>
     (\<forall>p \<in> set ps. op_ok (job_width job) (op_at m p) \<and> config_readable (job_width job) (op_at m p)) \<and> even_rba (job_rba job) \<and>
     job_maxops job = (if job_needs_check job then ucast (job_width job AND EB_DATAX) * 8 else -1)"

definition job_start :: "eb_ptr list \<Rightarrow> 'w master \<Rightarrow> 'w packing" where
  "job_start ps ma = \<lparr>pa_master = ma, pa_operationp = head_ptr ps, pa_ops = 0, pa_readback = False\<rparr>"

lemma chain_short: "chain nx p ps \<Longrightarrow> length ps \<le> 65536"
proof -
  assume "chain nx p ps"
  then have "length ps = card (set ps)" using chain_distinct distinct_card by metis
  also have "\<dots> \<le> card (UNIV :: eb_ptr set)" by (intro card_mono) auto
  finally show ?thesis by (simp add: card_word)
qed

lemma job_maxops_unat:
  assumes "job_ready job m ps"
  shows "unat (job_maxops job) = (if job_needs_check job then 8 * unat (job_width job AND EB_DATAX) else 2 ^ 32 - 1)"
proof -
  have "unat (ucast d * 8 :: u32) = 8 * unat d" if "d \<in> {1, 2, 4, 8 :: u8}" for d
    using that by auto
  moreover have "unat (-1 :: u32) = 2 ^ 32 - 1" by (simp add: unsigned_minus_1_eq_mask mask_eq_exp_minus_1)
  ultimately show ?thesis using assms by (simp add: job_ready_def port_widths_def)
qed

lemma job_packing:
  assumes "job_ready job m ps"
  shows "packing_ok m (job_width job) (job_needs_check job) (job_maxops job) ps 0"
proof -
  have r: "port_widths (job_width job)" "ps \<noteq> []" "op_chain m (head_ptr ps) ps" "\<forall>p \<in> set ps. op_ok (job_width job) (op_at m p)"
    using assms by (auto simp: job_ready_def)
  have d: "0 < unat (job_width job AND EB_DATAX)" using r(1) by (auto simp: port_widths_def)
  have "0 < job_maxops job" "job_needs_check job \<or> length ps < unat (job_maxops job)"
    using job_maxops_unat [OF assms] d chain_short [OF r(3)] by (auto simp: word_less_nat_alt)
  with r show ?thesis by (simp add: packing_ok_def)
qed

lemma job_records:
  assumes "job_ready job m ps"
  obtains recs where "packs m (job_width job) (job_rba job) (job_needs_check job) (job_maxops job) ps 0 recs"
    "list_all2 (performs (job_width job) (job_rba job)) (map (op_at m) ps)
       (filter (\<lambda>a. a \<noteq> status_access (job_width job) (job_rba job)) (cycle_accesses (job_width job) recs))"
    "job_needs_check job \<longrightarrow> status_covered (status_access (job_width job) (job_rba job))
       (8 * unat (job_width job AND EB_DATAX)) 0 (cycle_accesses (job_width job) recs)"
proof -
  note ok = job_packing [OF assms]
  obtain recs where r: "packs m (job_width job) (job_rba job) (job_needs_check job) (job_maxops job) ps 0 recs"
    using packs_total [OF ok] by blast
  have e: "even_rba (job_rba job)" "\<forall>p \<in> set ps. config_readable (job_width job) (op_at m p)"
    using assms by (auto simp: job_ready_def)
  show ?thesis
    using that [OF r packs_perform [OF r ok e]] packs_covered [OF r ok e(1) _ e(2)] job_maxops_unat [OF assms] by auto
qed

lemma job_start_state: "job_ready job m ps \<Longrightarrow> st_mem (ma_st ma) = m \<Longrightarrow> job_state job m ps 0 (job_start ps ma)"
  using job_packing by (simp add: job_state_def job_start_def)

text \<open>C2: on a packet transport a cycle is sent whole or not at all. Formatting the operations of a checked
  cycle always ends. If its records fit one packet, they are complete in the buffer, and the accesses a slave
  makes for them (the read-backs of the error register left out) perform exactly the operations of the cycle, in
  order, each with its address, width, lane and value; in a checked cycle every bus access is followed by a
  read-back before the register runs out of bits. Otherwise the cycle is reported with \<^verbatim>\<open>EB_OVERFLOW\<close>, and nothing of it
  is sent. Cycles formatted earlier stay in the buffer or go out as a packet of their own.\<close>

theorem cycle_in_one_packet:
  fixes job :: "'w cycle_job"
  assumes "job_ready job m ps" and "packet_port (job_port job)"
    and "buffer_ok (job_port job) ma" and "ma_cptr ma = ma_wptr ma" and "st_mem (ma_st ma) = m"
  defines "w \<equiv> job_width job" and "rba \<equiv> job_rba job" and "status \<equiv> status_access (job_width job) (job_rba job)"
  shows "\<exists>recs. list_all2 (performs w rba) (map (op_at m) ps) (filter (\<lambda>a. a \<noteq> status) (cycle_accesses w recs)) \<and>
    (job_needs_check job \<longrightarrow> status_covered status (8 * unat (w AND EB_DATAX)) 0 (cycle_accesses w recs)) \<and>
    (if master_start (job_port job) + total_length w recs \<le> master_eob (job_port job)
     then \<exists>pa. master_pack (job_env job) (job_port job) (job_needs_check job) (job_maxops job) rba (job_cycle job) (job_response job)
            (job_start ps ma) = Some (True, pa) \<and>
          current (pa_master pa) = concat (map (encode_record w) recs) \<and> earlier (job_port job) ma (pa_master pa)
     else \<exists>opp pa ma'. opp \<in> insert EB_NULL (set ps) \<and>
          master_pack (job_env job) (job_port job) (job_needs_check job) (job_maxops job) rba (job_cycle job) (job_response job)
            (job_start ps ma) = refuse job opp pa ma' \<and> earlier (job_port job) ma ma')"
proof -
  obtain recs where r: "packs m w rba (job_needs_check job) (job_maxops job) ps 0 recs"
      "list_all2 (performs w rba) (map (op_at m) ps) (filter (\<lambda>a. a \<noteq> status) (cycle_accesses w recs))"
      "job_needs_check job \<longrightarrow> status_covered status (8 * unat (w AND EB_DATAX)) 0 (cycle_accesses w recs)"
    using job_records [OF assms(1)] unfolding w_def rba_def status_def .
  have cur: "current ma = []" using assms(4) by (simp add: current_def)
  have out: "packet_outcome job m ps recs (job_start ps ma)"
    by (rule packet_loop [OF r(1) [unfolded w_def rba_def] job_packing [OF assms(1)] assms(2) job_start_state [OF assms(1,5)]])
      (simp add: job_start_def assms(3))
  have fit: "fits_packet job recs (job_start ps ma) \<longleftrightarrow> master_start (job_port job) + total_length w recs \<le> master_eob (job_port job)"
    by (simp add: fits_packet_def job_start_def cur w_def)
  have pm: "pa_master (job_start ps ma) = ma" by (simp add: job_start_def)
  show ?thesis
  proof (intro exI [of _ recs] conjI r(2,3), cases "fits_packet job recs (job_start ps ma)", goal_cases)
    case 1
    then obtain pa where "loop (job_body job) (job_start ps ma) = Some (True, pa)" "formatted job m recs (job_start ps ma) pa"
      using out unfolding packet_outcome_def by auto
    with 1 show ?case
      unfolding fit master_pack_def rba_def using formattedD(1,3) [of job m recs "job_start ps ma" pa] by (simp add: pm cur w_def)
  next
    case 2
    then show ?case
      using out unfolding packet_outcome_def fit master_pack_def rba_def pm by auto
  qed
qed

text \<open>An example: a device with one write and one read to send.\<close>

definition demo_sending :: eb_memory where
  "demo_sending = heap_of [Device_item (zero_device\<lparr>dev_widths := 0x44, dev_link := 130, dev_transport := 129\<rparr>),
     Transport_item zero_transport, Link_item zero_link,
     Operation_item \<lparr>op_address = 0x1000, op_un_value = 5, op_flags = EB_OP_WRITE OR EB_OP_CHECKED, op_format = 4, op_next = 132\<rparr>,
     Operation_item \<lparr>op_address = 0x2000, op_un_value = 0, op_flags = EB_OP_READ_VAL OR EB_OP_CHECKED, op_format = 4, op_next = EB_NULL\<rparr>]"

definition demo_job :: "int \<Rightarrow> u8 list cycle_job" where
  "demo_job mtu = \<lparr>job_env = demo_wire, job_port = \<lparr>mp_device = 128, mp_width = 0x44, mp_tops = demo_udp\<lparr>tops_mtu := mtu\<rparr>\<rparr>,
     job_needs_check = True, job_maxops = 32, job_rba = 0x8000, job_cycle = EB_NULL, job_response = EB_NULL\<rparr>"

definition demo_master :: "nat \<Rightarrow> u8 list master" where
  "demo_master p = \<lparr>ma_buf = replicate slave_buffer_size 0, ma_wptr = p, ma_cptr = p, ma_has_reads = False,
     ma_st = (demo_waiting [])\<lparr>st_mem := demo_sending\<rparr>\<rparr>"

lemma demo_sending_items:
  "EB_DEVICE demo_sending 128 = Some (zero_device\<lparr>dev_widths := 0x44, dev_link := 130, dev_transport := 129\<rparr>)"
  "EB_TRANSPORT demo_sending 129 = Some zero_transport" "EB_LINK demo_sending 130 = Some zero_link"
  "EB_OPERATION demo_sending 131 =
     Some \<lparr>op_address = 0x1000, op_un_value = 5, op_flags = EB_OP_WRITE OR EB_OP_CHECKED, op_format = 4, op_next = 132\<rparr>"
  "EB_OPERATION demo_sending 132 =
     Some \<lparr>op_address = 0x2000, op_un_value = 0, op_flags = EB_OP_READ_VAL OR EB_OP_CHECKED, op_format = 4, op_next = EB_NULL\<rparr>"
  by (simp_all add: demo_sending_def heap_of_def EB_DEVICE_def EB_TRANSPORT_def EB_LINK_def EB_OPERATION_def eb_item_def in_array_def)

lemma demo_job_ready: "job_ready (demo_job mtu) demo_sending [131, 132]"
proof -
  have "op_ok 0x44 (op_at demo_sending 131)" "op_ok 0x44 (op_at demo_sending 132)"
    by (simp_all add: op_ok_def op_at_def demo_sending_items master_check_op_def address_mask_of_def data_mask_def eb_width_refine_def Let_def mask_eq_exp_minus_1)
  moreover have "config_readable 0x44 (op_at demo_sending 131)" "config_readable 0x44 (op_at demo_sending 132)"
    by (simp_all add: config_readable_def op_at_def demo_sending_items op_is_cfg_def)
  moreover have "port_widths 0x44" by (simp add: port_widths_def)
  moreover have "op_chain demo_sending 131 [131, 132]"
    by (simp add: eb_operation_next_def demo_sending_items EB_NULL_def)
  ultimately show ?thesis by (simp add: job_ready_def demo_job_def even_rba_def bit_simps)
qed

lemma demo_sendable: "sendable demo_sending 128"
  by (simp add: sendable_def demo_sending_items)

theorem cycle_in_one_packet_witness:
  "job_ready (demo_job 1472) demo_sending [131, 132] \<and>
   (\<exists>recs. list_all2 (performs 0x44 0x8000) (map (op_at demo_sending) [131, 132])
       (filter (\<lambda>a. a \<noteq> status_access 0x44 0x8000) (cycle_accesses 0x44 recs)))"
proof -
  have "packet_port (job_port (demo_job 1472))"
    by (simp add: packet_port_def demo_job_def slave_buffer_size_def)
  moreover have "buffer_ok (job_port (demo_job 1472)) (demo_master 4)"
    by (simp add: buffer_ok_def demo_job_def demo_master_def master_start_def master_eob_def demo_sendable record_alignment_of_def Let_def)
  ultimately show ?thesis
    using cycle_in_one_packet [OF demo_job_ready, of 1472 "demo_master 4"] demo_job_ready [of 1472]
    by (auto simp: demo_master_def demo_job_def)
qed

text \<open>C3: on a stream formatting always succeeds. The buffer never overflows: when it is full what it holds
  is sent, and the bytes that were sent and the bytes still in the buffer together are what was there before,
  followed by the records of the cycle; these perform exactly the operations of the cycle, in order. The
  cycle waits for a response exactly if one of the records reads.\<close>

theorem cycle_on_a_stream:
  fixes job :: "'w cycle_job"
  assumes "job_ready job m ps" and "stream_port (job_port job)" and "stream_ok (job_port job) ma" and "st_mem (ma_st ma) = m"
  defines "w \<equiv> job_width job" and "rba \<equiv> job_rba job" and "status \<equiv> status_access (job_width job) (job_rba job)"
  shows "\<exists>recs chunks pa.
    list_all2 (performs w rba) (map (op_at m) ps) (filter (\<lambda>a. a \<noteq> status) (cycle_accesses w recs)) \<and>
    (job_needs_check job \<longrightarrow> status_covered status (8 * unat (w AND EB_DATAX)) 0 (cycle_accesses w recs)) \<and>
    master_pack (job_env job) (job_port job) (job_needs_check job) (job_maxops job) rba (job_cycle job) (job_response job)
      (job_start ps ma) = Some (True, pa) \<and>
    concat chunks @ take (ma_wptr (pa_master pa)) (ma_buf (pa_master pa)) =
      take (ma_wptr ma) (ma_buf ma) @ concat (map (encode_record w) recs) \<and>
    ma_st (pa_master pa) = fold (sent (job_port job)) chunks (ma_st ma) \<and>
    (pa_readback pa \<longleftrightarrow> (\<exists>r \<in> set recs. wr_reads r \<noteq> []))"
proof -
  obtain recs where r: "packs m w rba (job_needs_check job) (job_maxops job) ps 0 recs"
      "list_all2 (performs w rba) (map (op_at m) ps) (filter (\<lambda>a. a \<noteq> status) (cycle_accesses w recs))"
      "job_needs_check job \<longrightarrow> status_covered status (8 * unat (w AND EB_DATAX)) 0 (cycle_accesses w recs)"
    using job_records [OF assms(1)] unfolding w_def rba_def status_def .
  have s: "pa_master (job_start ps ma) = ma" "\<not> pa_readback (job_start ps ma)" by (simp_all add: job_start_def)
  obtain pa where pa: "loop (job_body job) (job_start ps ma) = Some (True, pa)" "streamed job m recs (job_start ps ma) pa"
    using stream_loop [OF r(1) [unfolded w_def rba_def] job_packing [OF assms(1)] assms(2) job_start_state [OF assms(1,4)]] assms(3) s
    by auto
  then obtain chunks where "concat chunks @ take (ma_wptr (pa_master pa)) (ma_buf (pa_master pa)) =
      take (ma_wptr ma) (ma_buf ma) @ concat (map (encode_record w) recs)"
      "ma_st (pa_master pa) = fold (sent (job_port job)) chunks (ma_st ma)"
    unfolding streamed_def s w_def by blast
  moreover have "pa_readback pa \<longleftrightarrow> (\<exists>r \<in> set recs. wr_reads r \<noteq> [])"
    using pa(2) s(2) unfolding streamed_def by blast
  ultimately show ?thesis
    using r(2,3) pa(1) unfolding master_pack_def rba_def by blast
qed

theorem cycle_on_a_stream_witness:
  "\<exists>recs pa. list_all2 (performs 0x44 0x8000) (map (op_at demo_sending) [131, 132])
       (filter (\<lambda>a. a \<noteq> status_access 0x44 0x8000) (cycle_accesses 0x44 recs)) \<and>
     master_pack demo_wire \<lparr>mp_device = 128, mp_width = 0x44, mp_tops = demo_udp\<lparr>tops_mtu := 0\<rparr>\<rparr> True 32 0x8000 EB_NULL EB_NULL
       (job_start [131, 132] (demo_master 0)) = Some (True, pa)"
proof -
  have "stream_port (job_port (demo_job 0))" by (simp add: stream_port_def demo_job_def)
  moreover have "stream_ok (job_port (demo_job 0)) (demo_master 0)"
    by (simp add: stream_ok_def demo_job_def demo_master_def demo_sendable)
  ultimately show ?thesis
    using cycle_on_a_stream [OF demo_job_ready, of 0 "demo_master 0"] by (auto simp: demo_master_def demo_job_def)
qed

section \<open>Checking a cycle\<close>

text \<open>What the check has to decide, in terms of numbers. \<open>access_size\<close> is the largest of the widths (in bytes) the format of
  an operation allows that is no larger than the port, 0 if there is none.\<close>

definition access_size :: "nat \<Rightarrow> eb_format_t \<Rightarrow> nat" where
  "access_size port f = (case filter (\<lambda>(k, n). bit f k \<and> n \<le> port) [(3, 8), (2, 4), (1, 2), (0, 1)] of
     [] \<Rightarrow> 0 | (k, n) # _ \<Rightarrow> n)"

text \<open>The reason to refuse an operation on a port of \<open>d\<close> bytes of data and \<open>a\<close> bytes of address: no width
  that fits the port; narrower than the port without exactly one byte order; an address that is misaligned or
  needs more bytes than the port (for the configuration space: than two) has; a value to write that does not fit the width.\<close>

definition refused_for :: "nat \<Rightarrow> nat \<Rightarrow> eb_operation \<Rightarrow> eb_status_t" where
  "refused_for d a op =
     (let n = access_size d (op_format op)
      in if n = 0 then EB_WIDTH
         else if n < d \<and> bit (op_format op) 4 = bit (op_format op) 5 then EB_ENDIAN
         else if \<not> n dvd unat (op_address op) \<or> 2 ^ (if op_is_cfg op then 16 else 8 * a) \<le> unat (op_address op) then EB_ADDRESS
         else if \<not> op_is_read op \<and> 2 ^ (8 * n) \<le> unat (op_un_value op) then EB_WIDTH
         else EB_OK)"

text \<open>The format of an operation that is not refused: its one width, and its byte order if it is narrower than the port.\<close>

definition settled_format :: "nat \<Rightarrow> eb_format_t \<Rightarrow> eb_format_t" where
  "settled_format d f =
     (let n = access_size d f
      in if n = d then of_nat n else of_nat n OR (if bit f 4 then EB_BIG_ENDIAN else EB_LITTLE_ENDIAN))"

lemma access_size_nibble: "access_size d (f AND 0x0f) = access_size d f"
  by (simp add: access_size_def bit_simps)

lemma refine_access_size:
  assumes "d \<in> {1, 2, 4, 8}"
  shows "unat (eb_width_refine (f AND (d - 1 + d))) = access_size (unat d) f"
proof -
  let ?x = "f AND 0x0f"
  have "?x \<in> {0, 1, 2, 3, 4, 5, 6, 7, 8, 9, 10, 11, 12, 13, 14, 15}" using nibble_check [of f] by (simp add: nibble_check_def)
  then have "unat (eb_width_refine (?x AND (d - 1 + d))) = access_size (unat d) ?x"
    using assms by (elim insertE emptyE) (simp_all add: access_size_def eb_width_refine_def Let_def)
  moreover have "f AND (d - 1 + d) = ?x AND (d - 1 + d)" using assms by (intro and_low) auto
  ultimately show ?thesis by (simp only: access_size_nibble)
qed

lemma aligned_iff:
  fixes a :: u64
  assumes "w \<in> {1, 2, 4, 8 :: u8}" and "8 \<le> n" and "n \<le> 64"
  shows "a AND (mask n - (ucast w - 1)) = a \<longleftrightarrow> unat w dvd unat a \<and> unat a < 2 ^ n"
proof -
  obtain j where j: "j \<le> 3" "unat w = 2 ^ j" "ucast w - 1 = (mask j :: u64)" using log_width [OF assms(1)] .
  have jn: "j \<le> n" using j(1) assms(2) by simp
  show ?thesis
  proof
    assume "a AND (mask n - (ucast w - 1)) = a"
    from aligned_dvd [OF this [unfolded j(3)] jn] show "unat w dvd unat a \<and> unat a < 2 ^ n"
      unfolding j(2) using unat_take_bit [of n a] by (metis mod_less_divisor zero_less_numeral zero_less_power)
  next
    assume r: "unat w dvd unat a \<and> unat a < 2 ^ n"
    then have "take_bit j a = 0" "take_bit n a = a"
      using j(2) by (simp_all add: word_unat_eq_iff unat_take_bit mod_eq_0_iff_dvd [symmetric])
    then have b: "bit a i \<Longrightarrow> j \<le> i \<and> i < n" for i
      by (metis bit_0_eq bit_take_bit_iff bot_apply bot_bool_def linorder_not_le)
    show "a AND (mask n - (ucast w - 1)) = a"
      unfolding j(3) by (rule bit_word_eqI) (auto simp: bit_simps bit_mask_minus [OF jn] dest: b)
  qed
qed

lemma fits_iff:
  assumes "w \<in> {1, 2, 4, 8}"
  shows "v AND data_mask w = v \<longleftrightarrow> unat v < 2 ^ (8 * unat w)"
proof -
  have "unat w \<le> 8" using assms by auto
  then have "v AND data_mask w = take_bit (8 * unat w) v" by (simp add: data_mask_eq take_bit_eq_mask)
  then show ?thesis by (simp add: word_unat_eq_iff unat_take_bit) (metis mod_less mod_less_divisor zero_less_numeral zero_less_power)
qed

lemma endian_bits:
  "f AND EB_ENDIAN_MASK = EB_BIG_ENDIAN OR EB_LITTLE_ENDIAN \<longleftrightarrow> bit f 4 \<and> bit f 5"
  "f AND EB_ENDIAN_MASK = 0 \<longleftrightarrow> \<not> bit f 4 \<and> \<not> bit f 5"
  "\<not> bit f 5 \<Longrightarrow> bit f 4 \<Longrightarrow> f AND EB_ENDIAN_MASK = EB_BIG_ENDIAN"
  "bit f 5 \<Longrightarrow> \<not> bit f 4 \<Longrightarrow> f AND EB_ENDIAN_MASK = EB_LITTLE_ENDIAN"
proof -
  have "bit (f AND EB_ENDIAN_MASK) 4 = bit f 4" "bit (f AND EB_ENDIAN_MASK) 5 = bit f 5" by (simp_all add: bit_simps)
  moreover note endian_cases [of f]
  ultimately show
    "f AND EB_ENDIAN_MASK = EB_BIG_ENDIAN OR EB_LITTLE_ENDIAN \<longleftrightarrow> bit f 4 \<and> bit f 5"
    "f AND EB_ENDIAN_MASK = 0 \<longleftrightarrow> \<not> bit f 4 \<and> \<not> bit f 5"
    "\<not> bit f 5 \<Longrightarrow> bit f 4 \<Longrightarrow> f AND EB_ENDIAN_MASK = EB_BIG_ENDIAN"
    "bit f 5 \<Longrightarrow> \<not> bit f 4 \<Longrightarrow> f AND EB_ENDIAN_MASK = EB_LITTLE_ENDIAN"
    by (elim insertE emptyE; simp)+
qed

lemma check_spec:
  assumes "port_widths width"
  defines "d \<equiv> unat (width AND EB_DATAX)" and "a \<equiv> unat (drop_bit 4 width)"
  shows "fst (master_check_op (width AND EB_DATAX) (address_mask_of width) op) = refused_for d a op"
    and "refused_for d a op = EB_OK \<Longrightarrow>
      snd (master_check_op (width AND EB_DATAX) (address_mask_of width) op) = settled_format d (op_format op)"
proof -
  let ?d = "width AND EB_DATAX" and ?f = "op_format op"
  define sz where "sz = eb_width_refine (?f AND (?d - 1 + ?d))"
  have d: "?d \<in> {1, 2, 4, 8}" and a: "a \<in> {1, 2, 4, 8}" using assms(1) by (auto simp: port_widths_def a_def)
  have n: "access_size d ?f = unat sz" using refine_access_size [OF d, of ?f] by (simp add: sz_def d_def)
  have s: "sz \<in> {0, 1, 2, 4, 8}" "sz \<le> ?d" using refine_size [OF d, of ?f] by (simp_all add: sz_def)
  have z: "unat sz = 0 \<longleftrightarrow> sz = 0" by (simp add: unat_eq_0)
  have lt: "unat sz < d \<longleftrightarrow> sz \<noteq> ?d" "unat sz = d \<longleftrightarrow> sz = ?d"
    using s(2) by (auto simp: d_def word_le_nat_alt word_unat_eq_iff)
  have am: "address_mask_of width = mask (8 * a)" using a by (auto simp: address_mask_eq a_def)
  have bus: "op_address op AND (address_mask_of width - (ucast sz - 1)) = op_address op \<longleftrightarrow>
      unat sz dvd unat (op_address op) \<and> unat (op_address op) < 2 ^ (8 * a)" if "sz \<noteq> 0"
    unfolding am by (rule aligned_iff) (use that s a in auto)
  have "(0xFFFF :: u64) = mask 16" by (simp add: mask_eq_exp_minus_1)
  then have cfg: "op_address op AND (0xFFFF - (ucast sz - 1)) = op_address op \<longleftrightarrow>
      unat sz dvd unat (op_address op) \<and> unat (op_address op) < 2 ^ 16" if "sz \<noteq> 0"
    using aligned_iff [of sz 16 "op_address op"] that s by simp
  have val: "op_un_value op AND data_mask sz = op_un_value op \<longleftrightarrow> unat (op_un_value op) < 2 ^ (8 * unat sz)" if "sz \<noteq> 0"
    by (rule fits_iff) (use that s in auto)
  define endian where "endian = (if sz = ?d then 0 else ?f AND EB_ENDIAN_MASK)"
  define c1 where "c1 \<longleftrightarrow> op_flags op AND EB_OP_CFG_SPACE = 0 \<and> op_address op AND (address_mask_of width - (ucast sz - 1)) \<noteq> op_address op"
  define c2 where "c2 \<longleftrightarrow> op_flags op AND EB_OP_CFG_SPACE \<noteq> 0 \<and> op_address op AND (0xFFFF - (ucast sz - 1)) \<noteq> op_address op"
  define c3 where "c3 \<longleftrightarrow> op_flags op AND EB_OP_MASK = EB_OP_WRITE \<and> op_un_value op AND data_mask sz \<noteq> op_un_value op"
  define bad where "bad \<longleftrightarrow> endian = EB_BIG_ENDIAN OR EB_LITTLE_ENDIAN \<or> (sz \<noteq> ?d \<and> endian = 0)"
  have code: "master_check_op ?d (address_mask_of width) op =
      (if sz = 0 then (EB_WIDTH, ?f) else if bad then (EB_ENDIAN, ?f) else if c1 then (EB_ADDRESS, endian OR sz)
       else if c2 then (EB_ADDRESS, endian OR sz) else if c3 then (EB_WIDTH, endian OR sz) else (EB_OK, endian OR sz))"
    unfolding master_check_op_def Let_def sz_def [symmetric] endian_def [symmetric] c1_def c2_def c3_def bad_def ..
  have e: "bad \<longleftrightarrow> unat sz < d \<and> bit ?f 4 = bit ?f 5"
    unfolding bad_def lt endian_def using endian_bits(1,2) [of ?f] by auto
  have ad: "\<not> unat sz dvd unat (op_address op) \<or> 2 ^ (if op_is_cfg op then 16 else 8 * a) \<le> unat (op_address op) \<longleftrightarrow> c1 \<or> c2"
    if "sz \<noteq> 0"
    unfolding c1_def c2_def bus [OF that] cfg [OF that] by (cases "op_is_cfg op") (auto simp: op_is_cfg_def)
  have v: "\<not> op_is_read op \<and> 2 ^ (8 * unat sz) \<le> unat (op_un_value op) \<longleftrightarrow> c3" if "sz \<noteq> 0"
    unfolding c3_def val [OF that] by (auto simp: op_is_read_def)
  have spec: "refused_for d a op =
      (if sz = 0 then EB_WIDTH else if bad then EB_ENDIAN else if c1 \<or> c2 then EB_ADDRESS else if c3 then EB_WIDTH else EB_OK)"
    unfolding refused_for_def Let_def n z e [symmetric] using ad v by simp
  show "fst (master_check_op ?d (address_mask_of width) op) = refused_for d a op"
    unfolding code spec by simp
  have f: "endian OR sz = settled_format d ?f" if "\<not> bad"
  proof (cases "sz = ?d")
    case True
    have "d = unat sz" using lt(2) True by simp
    with n True show ?thesis by (simp add: settled_format_def endian_def Let_def)
  next
    case False
    with that have "bit ?f 4 \<noteq> bit ?f 5" by (simp add: e lt)
    then have "endian = (if bit ?f 4 then EB_BIG_ENDIAN else EB_LITTLE_ENDIAN)"
      using False endian_bits(3,4) [of ?f] by (auto simp: endian_def)
    then show ?thesis using False by (simp add: settled_format_def n lt Let_def or.commute)
  qed
  show "snd (master_check_op ?d (address_mask_of width) op) = settled_format d ?f" if "refused_for d a op = EB_OK"
    using that f unfolding code spec by (auto split: if_splits)
qed

text \<open>What the check writes back is in the form the packing relies on.\<close>

lemma op_ok_checked:
  assumes "port_widths width" and "master_check_op (width AND EB_DATAX) (address_mask_of width) op = (EB_OK, f)"
  shows "op_ok width (op\<lparr>op_format := f\<rparr>)"
proof -
  let ?d = "width AND EB_DATAX"
  define sz where "sz = eb_width_refine (op_format op AND (?d - 1 + ?d))"
  define endian where "endian = (if sz = ?d then 0 else op_format op AND EB_ENDIAN_MASK)"
  have d: "?d \<in> {1, 2, 4, 8}" using assms(1) by (simp add: port_widths_def)
  note ok = assms(2) [unfolded master_check_op_def Let_def, folded sz_def, folded endian_def]
  have c: "sz \<noteq> 0" "endian \<noteq> EB_BIG_ENDIAN OR EB_LITTLE_ENDIAN" "\<not> (sz \<noteq> ?d \<and> endian = 0)" and f: "f = endian OR sz"
    using ok by (auto split: if_splits)
  have fc: "eb_width_refine (f AND (?d - 1 + ?d)) = sz" "f AND EB_ENDIAN_MASK = endian"
    using format_checked [OF d sz_def c(1) endian_def c(2,3)] by (auto simp: f)
  have e: "(if sz = ?d then 0 else f AND EB_ENDIAN_MASK) = endian"
    unfolding fc(2) by (simp add: endian_def)
  define c1 where "c1 \<longleftrightarrow> op_flags op AND EB_OP_CFG_SPACE = 0 \<and> op_address op AND (address_mask_of width - (ucast sz - 1)) \<noteq> op_address op"
  define c2 where "c2 \<longleftrightarrow> op_flags op AND EB_OP_CFG_SPACE \<noteq> 0 \<and> op_address op AND (0xFFFF - (ucast sz - 1)) \<noteq> op_address op"
  define c3 where "c3 \<longleftrightarrow> op_flags op AND EB_OP_MASK = EB_OP_WRITE \<and> op_un_value op AND data_mask sz \<noteq> op_un_value op"
  have no: "\<not> c1" "\<not> c2" "\<not> c3" using ok c unfolding c1_def [symmetric] c2_def [symmetric] c3_def [symmetric] by (auto split: if_splits)
  have u: "op_format (op\<lparr>op_format := f\<rparr>) = f" "op_flags (op\<lparr>op_format := f\<rparr>) = op_flags op"
      "op_address (op\<lparr>op_format := f\<rparr>) = op_address op" "op_un_value (op\<lparr>op_format := f\<rparr>) = op_un_value op"
    by simp_all
  have "master_check_op ?d (address_mask_of width) (op\<lparr>op_format := f\<rparr>) = (EB_OK, endian OR sz)"
    unfolding master_check_op_def Let_def u fc(1) e c1_def [symmetric] c2_def [symmetric] c3_def [symmetric]
    using no c by simp
  then show ?thesis by (simp add: op_ok_def f)
qed

text \<open>An operation as the check leaves it.\<close>

definition checked_op :: "eb_width_t \<Rightarrow> eb_operation \<Rightarrow> eb_operation" where
  "checked_op width op = op\<lparr>op_format := snd (master_check_op (width AND EB_DATAX) (address_mask_of width) op)\<rparr>"

lemma master_validate_chain:
  assumes pw: "port_widths width" and ch: "op_chain m p ps"
  defines "d \<equiv> unat (width AND EB_DATAX)" and "a \<equiv> unat (drop_bit 4 width)"
  shows "\<exists>m'. same_heap (set ps) m m' \<and> op_chain m' p ps \<and>
     (\<forall>x \<in> set ps. op_at m' x = op_at m x \<or> op_at m' x = checked_op width (op_at m x)) \<and>
     master_validate (width AND EB_DATAX) (address_mask_of width) p m =
       (case dropWhile (\<lambda>x. refused_for d a (op_at m x) = EB_OK) ps of
          [] \<Rightarrow> Some (EB_NULL, EB_OK, m') | x # _ \<Rightarrow> Some (x, refused_for d a (op_at m x), m')) \<and>
     ((\<forall>x \<in> set ps. refused_for d a (op_at m x) = EB_OK) \<longrightarrow> (\<forall>x \<in> set ps. op_at m' x = checked_op width (op_at m x)))"
  using ch
proof (induction ps arbitrary: p m)
  case Nil
  then show ?case by (auto simp: master_validate.simps intro!: exI [of _ m])
next
  case (Cons x ps)
  let ?op = "op_at m x"
  have x: "p = x" "x \<noteq> EB_NULL" "EB_OPERATION m x = Some ?op" and c: "op_chain m (op_next ?op) ps"
    using Cons.prems unfolding op_chain_Cons by auto
  have item: "eb_item m x = Some (Operation_item ?op)" using x(3) by (simp add: EB_OPERATION_iff)
  define m1 where "m1 = eb_put m x (Operation_item (checked_op width ?op))"
  have nx: "x \<notin> set ps" using chain_distinct [OF Cons.prems] by simp
  have sh: "same_heap {x} m m1" unfolding m1_def by (rule same_heap_put [OF item]) simp_all
  have other: "eb_item m1 y = eb_item m y" if "y \<noteq> x" for y using same_heap_item [OF sh] that by simp
  have at1: "op_at m1 y = op_at m y" if "y \<in> set ps" for y by (rule op_at_cong, rule other) (use nx that in blast)
  have atx: "EB_OPERATION m1 x = Some (checked_op width ?op)"
    by (simp add: m1_def EB_OPERATION_iff eb_item_put_same [OF item])
  have same: "eb_item m1 y = eb_item m y" if "y \<in> set ps" for y by (rule other) (use nx that in blast)
  have c1: "op_chain m1 (op_next ?op) ps" using c op_chain_cong [of ps m1 m, OF same] by simp
  have set1: "set_operation m x (\<lambda>op. op\<lparr>op_format := snd (master_check_op (width AND EB_DATAX) (address_mask_of width) ?op)\<rparr>) = Some m1"
    using set_operation_Some [OF item] by (simp add: m1_def checked_op_def)
  have nxt: "op_next (checked_op width ?op) = op_next ?op" by (simp add: checked_op_def)
  have step: "master_validate (width AND EB_DATAX) (address_mask_of width) p m =
      (if refused_for d a ?op \<noteq> EB_OK then Some (x, refused_for d a ?op, m1)
       else master_validate (width AND EB_DATAX) (address_mask_of width) (op_next ?op) m1)"
    by (subst master_validate.simps) (simp add: x set1 split_def check_spec(1) [OF pw, folded d_def a_def])
  show ?case
  proof (cases "refused_for d a ?op = EB_OK")
    case False
    have "op_chain m1 p (x # ps)" unfolding op_chain_Cons using x atx c1 nxt by (simp add: op_at_def)
    moreover have "\<forall>y \<in> set (x # ps). op_at m1 y = op_at m y \<or> op_at m1 y = checked_op width (op_at m y)"
      using at1 atx by (auto simp: op_at_def)
    moreover have "same_heap (set (x # ps)) m m1" using sh by (rule same_heap_mono) simp
    ultimately show ?thesis using False step by (intro exI [of _ m1]) simp
  next
    case True
    obtain m' where m': "same_heap (set ps) m1 m'" "op_chain m' (op_next ?op) ps"
        "\<forall>y \<in> set ps. op_at m' y = op_at m1 y \<or> op_at m' y = checked_op width (op_at m1 y)"
        "master_validate (width AND EB_DATAX) (address_mask_of width) (op_next ?op) m1 =
          (case dropWhile (\<lambda>x. refused_for d a (op_at m1 x) = EB_OK) ps of
             [] \<Rightarrow> Some (EB_NULL, EB_OK, m') | x # _ \<Rightarrow> Some (x, refused_for d a (op_at m1 x), m'))"
        "(\<forall>y \<in> set ps. refused_for d a (op_at m1 y) = EB_OK) \<longrightarrow> (\<forall>y \<in> set ps. op_at m' y = checked_op width (op_at m1 y))"
      using Cons.IH [OF c1] by blast
    have x': "EB_OPERATION m' x = Some (checked_op width ?op)"
      using atx same_heap_item [OF m'(1) nx] by (simp add: EB_OPERATION_def)
    have ax: "op_at m' x = checked_op width ?op" using x' by (simp add: op_at_def)
    have "op_chain m' p (x # ps)" unfolding op_chain_Cons using x x' ax m'(2) nxt by simp
    moreover have "same_heap (set (x # ps)) m m'" using same_heap_trans [OF sh m'(1)] by simp
    moreover have "\<forall>y \<in> set (x # ps). op_at m' y = op_at m y \<or> op_at m' y = checked_op width (op_at m y)"
      using m'(3) at1 ax by auto
    moreover have "master_validate (width AND EB_DATAX) (address_mask_of width) p m =
       (case dropWhile (\<lambda>x. refused_for d a (op_at m x) = EB_OK) (x # ps) of
          [] \<Rightarrow> Some (EB_NULL, EB_OK, m') | x # _ \<Rightarrow> Some (x, refused_for d a (op_at m x), m'))"
    proof -
      have dw: "dropWhile (\<lambda>x. refused_for d a (op_at m1 x) = EB_OK) ps = dropWhile (\<lambda>x. refused_for d a (op_at m x) = EB_OK) ps"
        using at1 by (intro dropWhile_cong) auto
      have "op_at m1 y = op_at m y" if "dropWhile (\<lambda>x. refused_for d a (op_at m x) = EB_OK) ps = y # ys" for y ys
        using at1 set_dropWhileD [of y "\<lambda>x. refused_for d a (op_at m x) = EB_OK" ps] that by simp
      then show ?thesis using True step m'(4) unfolding dw
        by (cases "dropWhile (\<lambda>x. refused_for d a (op_at m x) = EB_OK) ps") (simp_all del: dropWhile_eq_Nil_conv)
    qed
    moreover have "(\<forall>y \<in> set (x # ps). refused_for d a (op_at m y) = EB_OK) \<longrightarrow>
        (\<forall>y \<in> set (x # ps). op_at m' y = checked_op width (op_at m y))"
      using m'(5) at1 ax by simp
    ultimately show ?thesis by blast
  qed
qed

text \<open>C8: the check of a cycle is sound and complete. On a port of \<open>d\<close> bytes of data and \<open>a\<close> bytes of address it
  always ends. If for every operation a width fits the port, an operation narrower than the port has exactly one byte order,
  every address is aligned and fits the port (the 16-bit configuration space) and every value to write fits its width, then each
  operation is left with its largest width and, if that is narrower than the port, its byte order, and nothing else changed, so
  that the cycle can be packed; otherwise the first operation that fails is reported together with the reason.\<close>

theorem cycle_check:
  assumes "port_widths width" and "op_chain m p ps"
  defines "d \<equiv> unat (width AND EB_DATAX)" and "a \<equiv> unat (drop_bit 4 width)"
  shows "\<exists>m'. same_heap (set ps) m m' \<and> op_chain m' p ps \<and>
    (\<forall>x \<in> set ps. \<exists>f. op_at m' x = (op_at m x)\<lparr>op_format := f\<rparr>) \<and>
    master_validate (width AND EB_DATAX) (address_mask_of width) p m =
      (case dropWhile (\<lambda>x. refused_for d a (op_at m x) = EB_OK) ps of
         [] \<Rightarrow> Some (EB_NULL, EB_OK, m') | x # _ \<Rightarrow> Some (x, refused_for d a (op_at m x), m')) \<and>
    ((\<forall>x \<in> set ps. refused_for d a (op_at m x) = EB_OK) \<longrightarrow>
      (\<forall>x \<in> set ps. op_at m' x = (op_at m x)\<lparr>op_format := settled_format d (op_format (op_at m x))\<rparr> \<and> op_ok width (op_at m' x)))"
proof -
  obtain m' where m': "same_heap (set ps) m m'" "op_chain m' p ps"
      "\<forall>x \<in> set ps. op_at m' x = op_at m x \<or> op_at m' x = checked_op width (op_at m x)"
      "master_validate (width AND EB_DATAX) (address_mask_of width) p m =
       (case dropWhile (\<lambda>x. refused_for d a (op_at m x) = EB_OK) ps of
          [] \<Rightarrow> Some (EB_NULL, EB_OK, m') | x # _ \<Rightarrow> Some (x, refused_for d a (op_at m x), m'))"
      "(\<forall>x \<in> set ps. refused_for d a (op_at m x) = EB_OK) \<longrightarrow> (\<forall>x \<in> set ps. op_at m' x = checked_op width (op_at m x))"
    using master_validate_chain [OF assms(1,2)] unfolding d_def a_def by blast
  have "\<exists>f. op_at m' x = (op_at m x)\<lparr>op_format := f\<rparr>" if "x \<in> set ps" for x
    using m'(3) that by (metis checked_op_def eb_operation.surjective eb_operation.update_convs(4))
  moreover have "checked_op width op = op\<lparr>op_format := settled_format d (op_format op)\<rparr>" if "refused_for d a op = EB_OK" for op
    using check_spec(2) [OF assms(1), of op] that by (simp add: checked_op_def d_def a_def)
  moreover have "op_ok width (checked_op width op)" if "refused_for d a op = EB_OK" for op
    unfolding checked_op_def
    by (rule op_ok_checked [OF assms(1)])
      (use check_spec(1) [OF assms(1), of op] that in \<open>simp add: prod_eq_iff d_def a_def\<close>)
  ultimately show ?thesis using m' by (intro exI [of _ m'] conjI) auto
qed

text \<open>The check accepts the operations of the example.\<close>

theorem cycle_check_witness:
  "\<exists>m'. master_validate 4 (address_mask_of 0x44) 131 demo_sending = Some (EB_NULL, EB_OK, m') \<and>
      op_at m' 131 = (op_at demo_sending 131)\<lparr>op_format := 4\<rparr>"
proof -
  have c: "op_chain demo_sending 131 [131, 132]" by (simp add: eb_operation_next_def demo_sending_items EB_NULL_def)
  have pw: "port_widths 0x44" by (simp add: port_widths_def)
  have "refused_for 4 4 (op_at demo_sending x) = EB_OK \<and> settled_format 4 (op_format (op_at demo_sending x)) = 4"
    if "x \<in> {131, 132}" for x
    using that by (auto simp: op_at_def demo_sending_items refused_for_def settled_format_def access_size_def op_is_cfg_def op_is_read_def)
  then show ?thesis using cycle_check [OF pw c] by simp blast
qed

end
