(* ===== verification/Eb_Deliver.thy ===== *)
theory Eb_Deliver
  imports Eb_Flush
begin

text \<open>
  From the master to the slave: a record that was written is read back as it was, and a slave that
  receives the records of a cycle performs the operations of the cycle.
\<close>

section \<open>Reading back what was written\<close>

text \<open>A record the wire can carry: the counts fit a byte, the fields the alignment of the port.\<close>

definition record_fits :: "eb_width_t \<Rightarrow> wire_record \<Rightarrow> bool" where
  "record_fits width r \<longleftrightarrow> length (wr_writes r) \<le> 255 \<and> length (wr_reads r) \<le> 255 \<and>
     (\<forall>v \<in> set (wr_bwa r # wr_writes r @ wr_bra r # wr_reads r). take_bit (8 * alignment_of width) v = v) \<and>
     (wr_writes r = [] \<longrightarrow> wr_bwa r = 0) \<and> (wr_reads r = [] \<longrightarrow> wr_bra r = 0)"

lemma loads_concat:
  assumes "al \<le> 8" "\<forall>v \<in> set vs. take_bit (8 * al) v = v"
  shows "loads al (length vs) (concat (map (be_bytes al) vs) @ rest) = vs"
  using assms(2) by (induction vs) (simp_all add: be_word_be_bytes [OF assms(1)])

lemma drop_fields:
  "drop (field_count (length vs) * al) (encode_fields al b vs @ rest) = rest"
  by (simp add: encode_fields_def field_count_def)

lemma load_fields:
  assumes "al \<le> 8" "\<forall>v \<in> set (b # vs). take_bit (8 * al) v = v" "vs = [] \<longrightarrow> b = 0"
  shows "(if length vs > 0 then be_word (take al (encode_fields al b vs @ rest)) else 0) = b"
    and "loads al (length vs) (drop al (encode_fields al b vs @ rest)) = vs"
  using assms loads_concat [OF assms(1), of vs rest] be_word_be_bytes [OF assms(1), of b]
  by (auto simp: encode_fields_def)

lemma unat_count: "n \<le> 255 \<Longrightarrow> unat (of_nat n :: u8) = n"
  by (simp add: unat_of_nat take_bit_nat_eq_self)

lemma decode_encode:
  assumes "record_fits width r"
  shows "record_size width (encode_record width r @ rest) = length (encode_record width r)"
    and "decode_record width (encode_record width r @ rest) = r"
    and "(encode_record width r @ rest) ! 0 = wr_flags r"
proof -
  let ?al = "alignment_of width" and ?ra = "record_alignment_of width" and ?bs = "encode_record width r @ rest"
  let ?W = "encode_fields ?al (wr_bwa r) (wr_writes r)" and ?R = "encode_fields ?al (wr_bra r) (wr_reads r)"
  have al: "?al \<le> 8" using alignment_cases(1) [of width] by auto
  have ra: "4 \<le> ?ra" by (rule record_alignment_ge)
  have f: "length (wr_writes r) \<le> 255" "length (wr_reads r) \<le> 255" using assms by (simp_all add: record_fits_def)
  have b: "?bs ! 0 = wr_flags r" "?bs ! 1 = wr_select r" "unat (?bs ! 2) = length (wr_writes r)" "unat (?bs ! 3) = length (wr_reads r)"
    using f by (simp_all add: encode_record_def unat_count)
  show "?bs ! 0 = wr_flags r" by (rule b)
  define H where "H = [wr_flags r, wr_select r, of_nat (length (wr_writes r)), of_nat (length (wr_reads r))] @ replicate (?ra - 4) (0 :: u8)"
  have "length H = ?ra" using ra by (simp add: H_def)
  moreover have "?bs = H @ ?W @ ?R @ rest" by (simp add: encode_record_def H_def)
  ultimately have d: "drop ?ra ?bs = ?W @ ?R @ rest" by simp
  show "record_size width ?bs = length (encode_record width r)"
    by (simp add: record_size_def b length_encode_record)
  have dw: "drop (field_count (length (wr_writes r)) * ?al) (?W @ ?R @ rest) = ?R @ rest" by (rule drop_fields)
  have fit: "\<forall>v \<in> set (wr_bwa r # wr_writes r). take_bit (8 * ?al) v = v" "\<forall>v \<in> set (wr_bra r # wr_reads r). take_bit (8 * ?al) v = v"
      "wr_writes r = [] \<longrightarrow> wr_bwa r = 0" "wr_reads r = [] \<longrightarrow> wr_bra r = 0"
    using assms by (simp_all add: record_fits_def)
  show "decode_record width ?bs = r"
    unfolding decode_record_def Let_def b d dw
    by (simp only: load_fields [OF al fit(1,3)] load_fields [OF al fit(2,4)]) simp
qed

lemma take_bit_mono: "take_bit a (v :: u64) = v \<Longrightarrow> a \<le> b \<Longrightarrow> take_bit b v = v"
  by (metis take_bit_take_bit min.absorb1 min.commute)

lemma op_address_fits:
  assumes "port_widths width" "op_ok width op"
  shows "take_bit (8 * alignment_of width) (op_address op) = op_address op"
proof (cases "op_is_cfg op")
  case True
  then show ?thesis using op_ok_aligned(3) [OF assms] alignment_ge [of width] by (auto intro: take_bit_mono)
next
  case False
  then show ?thesis using op_ok_aligned(2) [OF assms] alignment_fits(2) [OF assms(1)] by (auto intro: take_bit_mono)
qed

lemma small_fits:
  assumes "v < 65536"
  shows "take_bit (8 * alignment_of width) (v :: u64) = v"
proof -
  have "unat v < 2 ^ 16" using assms by (simp add: word_less_nat_alt)
  then have "take_bit 16 v = v" by (simp add: word_unat_eq_iff unat_take_bit)
  then show ?thesis using alignment_ge [of width] by (auto intro: take_bit_mono)
qed

lemma ucast_small: "(ucast (x :: u16) :: u64) < 65536"
proof -
  have lt: "unat x < 65536" using unsigned_less [of x, where ?'a = nat] by simp
  then have "unat x < 2 ^ 64" by simp
  then have "unat (ucast x :: u64) = unat x" by (simp add: unsigned_ucast_eq take_bit_nat_eq_self)
  then show ?thesis using lt by (simp add: word_less_nat_alt)
qed

lemma status_small: "port_widths width \<Longrightarrow> 8 - ucast (width AND EB_DATAX) < (65536 :: u64)"
  by (auto simp: port_widths_def)

text \<open>A record the slave understands.\<close>

definition record_ok :: "eb_width_t \<Rightarrow> wire_record \<Rightarrow> bool" where
  "record_ok width r \<longleftrightarrow> record_fits width r \<and> sel_ok (decode_select (width AND EB_DATAX) (wr_select r))"

lemma op_record_ok:
  assumes pw: "port_widths width" and pk: "packable width fifo ws rs" and rb: "rb \<Longrightarrow> rs = []" and ne: "rb \<or> ws @ rs \<noteq> []"
  shows "record_ok width (op_record width rba fifo ws rs rb cyc)"
proof -
  let ?R = "op_record width rba fifo ws rs rb cyc" and ?n = "8 * alignment_of width"
  have ok: "\<forall>op \<in> set (ws @ rs). op_ok width op" and len: "length ws \<le> 255" "length rs \<le> 255"
    using pk unfolding packable_def by blast+
  have addr: "take_bit ?n (op_address op) = op_address op" if "op \<in> set (ws @ rs)" for op
    using op_address_fits [OF pw] ok that by blast
  have w: "take_bit ?n (wr_bwa ?R) = wr_bwa ?R" using addr by (cases ws) (auto simp: op_record_def Let_def)
  have v: "\<forall>v \<in> set (wr_writes ?R). take_bit ?n v = v" by (auto simp: op_record_def Let_def)
  have b: "take_bit ?n (wr_bra ?R) = wr_bra ?R" by (auto simp: op_record_def Let_def intro: small_fits ucast_small)
  have r: "\<forall>v \<in> set (wr_reads ?R). take_bit ?n v = v"
    using addr small_fits [OF status_small [OF pw]] by (auto simp: op_record_def Let_def split: if_splits)
  have lens: "length (wr_writes ?R) = length ws" "length (wr_reads ?R) = (if rb then 1 else length rs)"
      "ws = [] \<longrightarrow> wr_bwa ?R = 0" "\<not> rb \<and> rs = [] \<longrightarrow> wr_bra ?R = 0"
    by (auto simp: op_record_def Let_def)
  then have z: "wr_writes ?R = [] \<longrightarrow> wr_bwa ?R = 0" "wr_reads ?R = [] \<longrightarrow> wr_bra ?R = 0"
    by (metis length_0_conv, metis length_0_conv zero_neq_one)
  have "record_fits width ?R"
    unfolding record_fits_def using w v b r z len lens(1,2) by (intro conjI) (simp_all add: ball_Un split: if_splits)
  moreover have "sel_ok (decode_select (width AND EB_DATAX) (wr_select ?R))"
  proof (cases "ws @ rs = []")
    case True
    then show ?thesis using decode_full_select [OF pw] by (simp add: op_record_def Let_def)
  next
    case False
    then have "op_ok width (hd (ws @ rs))" using ok hd_in_set by blast
    then show ?thesis
      using decode_op_select [OF pw] False unfolding op_record_def Let_def if_not_P [OF False] by (simp add: op_select_def)
  qed
  ultimately show ?thesis by (simp add: record_ok_def)
qed

lemma pass_record:
  assumes "packing_ok m width needs_check maxops ps cnt" and "record_plan m width maxops ps cnt pk"
    and "rb = plan_readback (width AND EB_DATAX) needs_check maxops pk"
  shows "record_ok width (plan_record m width rba ps pk rb cyc)"
    and "wr_flags (plan_record m width rba ps pk rb cyc) AND EB_RECORD_CYC = (if cyc then EB_RECORD_CYC else 0)"
proof -
  note f = pass_facts(1,2) [OF assms]
  have "packable width (pk_fifo pk) (plan_ws m ps pk) (plan_rs m ps pk)" using assms(2) unfolding record_plan_def Let_def by blast
  then show "record_ok width (plan_record m width rba ps pk rb cyc)"
    unfolding plan_record_def using assms(1) f by (intro op_record_ok) (auto simp: packing_ok_def)
  show "wr_flags (plan_record m width rba ps pk rb cyc) AND EB_RECORD_CYC = (if cyc then EB_RECORD_CYC else 0)"
    unfolding plan_record_def op_record_def Let_def split_def wire_record.simps by (rule record_flags_bits(4))
qed

lemma packs_ok:
  assumes "packs m width rba needs_check maxops ps cnt recs" "packing_ok m width needs_check maxops ps cnt"
  shows "(\<forall>r \<in> set recs. record_ok width r) \<and> recs \<noteq> [] \<and>
    map (\<lambda>r. wr_flags r AND EB_RECORD_CYC) recs = replicate (length recs - 1) 0 @ [EB_RECORD_CYC]"
  using assms
proof (induction rule: packs_induct)
  case (last ps cnt pk rb)
  then show ?case using pass_record [OF last(1,3,4), of rba True] by simp
next
  case (more ps cnt pk rb recs)
  then obtain r rs where "recs = r # rs" by (cases recs) auto
  then show ?case using more.IH pass_record [OF more(1,3,4), of rba False] by simp
qed

section \<open>Serving the records of a cycle\<close>

lemma write_accesses_address:
  "write_accesses widths sel config stride vs (if config then a else a') (if config then b' else b) (if config then l' else l) =
   write_accesses widths sel config stride vs a b l"
  by (rule nth_equalityI) (auto simp: nth_write_accesses)

lemma serve_writes_run:
  assumes "sel_ok (decode_select (port_data port) (wr_select r))"
  defines "sel \<equiv> decode_select (port_data port) (wr_select r)" and "base \<equiv> wr_bwa r AND address_filter_bits (sp_widths port)"
  shows "serve_writes env port r v =
    map_option (\<lambda>(_, error, st). v\<lparr>sv_error := error, sv_st := st\<rparr>)
      (run_accesses env (sp_socket port)
         (write_accesses (sp_widths port) sel (wr_flags r AND EB_RECORD_WCA \<noteq> 0)
           (if wr_flags r AND EB_RECORD_WFF \<noteq> 0 then 0 else ucast (port_data port)) (wr_writes r) (wr_bwa r)
           (base OR ucast (addr_low_big_endian (port_data port) sel)) (base OR ucast (addr_low_little_endian sel)))
         (sv_error v) (sv_st v))"
  unfolding serve_writes_def Let_def sel_def [symmetric] base_def [symmetric]
    serve_write_accesses_run [OF assms(1), folded sel_def] write_accesses_address
  by (simp add: map_conv_bind_option comp_def split_def)

lemma serve_reads_run:
  assumes "sel_ok (decode_select (port_data port) (wr_select r))"
  defines "sel \<equiv> decode_select (port_data port) (wr_select r)"
  shows "serve_reads env port r v =
    (if wr_reads r = [] then Some v
     else map_option (\<lambda>(vs, error, st). v\<lparr>sv_out := sv_out v @ encode_record (sp_widths port)
             \<lparr>wr_flags = reply_flags (wr_flags r), wr_select = wr_select r, wr_bwa = wr_bra r,
              wr_writes = map (\<lambda>v. push_bit (unat (sel_shift sel) * 8) (v AND data_mask (sel_width sel))) vs, wr_bra = 0, wr_reads = []\<rparr>,
           sv_error := error, sv_st := st, sv_reply := True, sv_cycle_open := (sv_cycle_end v = 0)\<rparr>)
       (run_accesses env (sp_socket port) (map (read_access (sp_widths port) sel (wr_flags r AND EB_RECORD_RCA \<noteq> 0) (wr_bra r)) (wr_reads r))
         (sv_error v) (sv_st v)))"
  unfolding serve_reads_def Let_def sel_def [symmetric] serve_read_accesses_run [OF assms(1), folded sel_def, where ret = "wr_bra r"]
  by (simp add: map_conv_bind_option comp_def split_def)

text \<open>What is left of serving a record besides its accesses.\<close>

definition served_as :: "slave_port \<Rightarrow> wire_record \<Rightarrow> u8 list \<Rightarrow> u64 \<Rightarrow> 'w eb_state \<Rightarrow> 'w serve \<Rightarrow> 'w serve \<Rightarrow> bool" where
  "served_as port r rest error st v v' \<longleftrightarrow> sv_in v' = rest \<and> sv_error v' = error \<and> sv_st v' = st \<and>
     sv_taken v' = sv_taken v \<and> sv_cycle_end v' = wr_flags r AND EB_RECORD_CYC \<and> (sv_reply v' \<longleftrightarrow> sv_reply v \<or> wr_reads r \<noteq> [])"

lemma serve_terminate_simps:
  "sv_in (serve_terminate port v) = sv_in v" "sv_error (serve_terminate port v) = sv_error v"
  "sv_st (serve_terminate port v) = sv_st v" "sv_cycle_end (serve_terminate port v) = sv_cycle_end v"
  "sv_reply (serve_terminate port v) = sv_reply v" "sv_taken (serve_terminate port v) = sv_taken v"
  by (simp_all add: serve_terminate_def)

lemma no_values:
  "run_accesses env socketp (write_accesses widths sel config stride vs a b l) error st = Some (us, r) \<Longrightarrow> us = []"
  by (induction vs arbitrary: a b l error st us r) (auto simp: bind_eq_Some_conv split: if_splits)

lemma serve_record_runs:
  assumes ok: "record_ok (sp_widths port) r" and inp: "sv_in v = encode_record (sp_widths port) r @ rest"
  shows "(case run_accesses env (sp_socket port) (record_accesses (sp_widths port) r) (sv_error v) (sv_st v) of
      None \<Rightarrow> serve_record env port v = None
    | Some (vs, error, st) \<Rightarrow> \<exists>v'. serve_record env port v = Some (Go v') \<and> served_as port r rest error st v v')"
proof -
  let ?w = "sp_widths port" and ?s = "sp_socket port"
  have fits: "record_fits ?w r" and sel: "sel_ok (decode_select (port_data port) (wr_select r))" using ok by (simp_all add: record_ok_def)
  note d = decode_encode [OF fits, of rest]
  define v1 where "v1 = v\<lparr>sv_cycle_end := wr_flags r AND EB_RECORD_CYC\<rparr>"
  have "loop (serve_refill_body env port (length (encode_record ?w r))) v1 = Some (Go v1)"
    by (subst loop.simps) (simp add: serve_refill_body_def v1_def inp)
  then have start: "serve_record env port v = do {
       v \<leftarrow> serve_writes env port r (v1\<lparr>sv_in := rest\<rparr>);
       v \<leftarrow> serve_reads env port r v;
       Some (Go (serve_terminate port v))
     }"
    by (simp add: serve_record_def inp d v1_def)
  define W where "W = write_accesses ?w (decode_select (port_data port) (wr_select r)) (wr_flags r AND EB_RECORD_WCA \<noteq> 0)
           (if wr_flags r AND EB_RECORD_WFF \<noteq> 0 then 0 else ucast (port_data port)) (wr_writes r) (wr_bwa r)
           ((wr_bwa r AND address_filter_bits ?w) OR ucast (addr_low_big_endian (port_data port) (decode_select (port_data port) (wr_select r))))
           ((wr_bwa r AND address_filter_bits ?w) OR ucast (addr_low_little_endian (decode_select (port_data port) (wr_select r))))"
  define Q where "Q = map (read_access ?w (decode_select (port_data port) (wr_select r)) (wr_flags r AND EB_RECORD_RCA \<noteq> 0) (wr_bra r)) (wr_reads r)"
  have acc: "record_accesses ?w r = W @ Q" by (simp add: record_accesses_def W_def Q_def Let_def)
  note w = serve_writes_run [OF sel, of env "v1\<lparr>sv_in := rest\<rparr>", folded W_def]
  note q = serve_reads_run [OF sel, of env, folded Q_def]
  have err: "sv_error (v1\<lparr>sv_in := rest\<rparr>) = sv_error v" "sv_st (v1\<lparr>sv_in := rest\<rparr>) = sv_st v" by (simp_all add: v1_def)
  show ?thesis
  proof (cases "run_accesses env ?s W (sv_error v) (sv_st v)")
    case None
    then show ?thesis by (simp add: acc run_accesses_append start w err)
  next
    case (Some x)
    then obtain e st where W: "run_accesses env ?s W (sv_error v) (sv_st v) = Some ([], e, st)"
      using no_values unfolding W_def by (cases x) fastforce
    define v2 where "v2 = v1\<lparr>sv_in := rest, sv_error := e, sv_st := st\<rparr>"
    have "serve_writes env port r (v1\<lparr>sv_in := rest\<rparr>) = Some v2" by (simp only: w err W) (simp add: v2_def)
    then have start2: "serve_record env port v = do { v \<leftarrow> serve_reads env port r v2; Some (Go (serve_terminate port v)) }"
      by (simp add: start)
    have v2: "sv_in v2 = rest" "sv_error v2 = e" "sv_st v2 = st" "sv_cycle_end v2 = wr_flags r AND EB_RECORD_CYC" "sv_reply v2 = sv_reply v" "sv_taken v2 = sv_taken v"
      by (simp_all add: v2_def v1_def)
    have Qe: "wr_reads r = [] \<Longrightarrow> Q = []" by (simp add: Q_def)
    show ?thesis
      by (cases "wr_reads r = []"; cases "run_accesses env ?s Q e st")
        (auto simp: acc run_accesses_append W start2 q v2 Qe served_as_def serve_terminate_simps)
  qed
qed

lemma length_encode_ge: "record_alignment_of width \<le> length (encode_record width r)"
  by (simp add: length_encode_record)

lemma serve_cycle_runs:
  assumes "\<forall>r \<in> set recs. record_ok (sp_widths port) r" and "sv_in v = concat (map (encode_record (sp_widths port)) recs)"
  shows "(case run_accesses env (sp_socket port) (cycle_accesses (sp_widths port) recs) (sv_error v) (sv_st v) of
      None \<Rightarrow> loop (serve_loop_body env port) v = None
    | Some (vs, error, st) \<Rightarrow> \<exists>v'. loop (serve_loop_body env port) v = Some (Go v') \<and> sv_in v' = [] \<and> sv_error v' = error \<and>
        sv_st v' = st \<and> sv_taken v' = sv_taken v \<and> (sv_reply v' \<longleftrightarrow> sv_reply v \<or> (\<exists>r \<in> set recs. wr_reads r \<noteq> [])) \<and>
        sv_cycle_end v' = last (sv_cycle_end v # map (\<lambda>r. wr_flags r AND EB_RECORD_CYC) recs))"
  using assms
proof (induction recs arbitrary: v)
  case Nil
  have "\<not> record_alignment_of (sp_widths port) \<le> 0" using record_alignment_ge [of "sp_widths port"] by simp
  then have "loop (serve_loop_body env port) v = Some (Go v)"
    using Nil by (subst loop.simps) (simp add: serve_loop_body_def)
  then show ?case using Nil by (simp add: cycle_accesses_def)
next
  case (Cons r recs)
  let ?w = "sp_widths port" and ?s = "sp_socket port"
  have ok: "record_ok ?w r" and inp: "sv_in v = encode_record ?w r @ concat (map (encode_record ?w) recs)" using Cons.prems by auto
  have enter: "serve_loop_body env port v = do { flow \<leftarrow> serve_record env port v; Some (case flow of Kill st \<Rightarrow> Inr (Kill st) | Go v \<Rightarrow> Inl v) }"
    using inp length_encode_ge [of ?w r] by (simp add: serve_loop_body_def)
  note one = serve_record_runs [OF ok inp, of env]
  show ?case
  proof (cases "run_accesses env ?s (record_accesses ?w r) (sv_error v) (sv_st v)")
    case None
    then have "loop (serve_loop_body env port) v = None" using one by (subst loop.simps) (simp add: enter)
    then show ?thesis using None by (simp add: cycle_accesses_def run_accesses_append)
  next
    case (Some x)
    then obtain vs e st where x: "run_accesses env ?s (record_accesses ?w r) (sv_error v) (sv_st v) = Some (vs, e, st)" by (cases x) auto
    with one obtain v1 where v1: "serve_record env port v = Some (Go v1)" "served_as port r (concat (map (encode_record ?w) recs)) e st v v1"
      by auto
    have l: "loop (serve_loop_body env port) v = loop (serve_loop_body env port) v1"
      by (rule loop_unfold(1)) (simp add: enter v1)
    have s: "sv_in v1 = concat (map (encode_record ?w) recs)" "sv_error v1 = e" "sv_st v1 = st"
        "sv_taken v1 = sv_taken v" "sv_cycle_end v1 = wr_flags r AND EB_RECORD_CYC" "sv_reply v1 \<longleftrightarrow> sv_reply v \<or> wr_reads r \<noteq> []"
      using v1(2) by (simp_all add: served_as_def)
    have IH: "(case run_accesses env ?s (cycle_accesses ?w recs) e st of
        None \<Rightarrow> loop (serve_loop_body env port) v1 = None
      | Some (vs, error, st) \<Rightarrow> \<exists>v'. loop (serve_loop_body env port) v1 = Some (Go v') \<and> sv_in v' = [] \<and> sv_error v' = error \<and>
          sv_st v' = st \<and> sv_taken v' = sv_taken v1 \<and> (sv_reply v' \<longleftrightarrow> sv_reply v1 \<or> (\<exists>r \<in> set recs. wr_reads r \<noteq> [])) \<and>
          sv_cycle_end v' = last (sv_cycle_end v1 # map (\<lambda>r. wr_flags r AND EB_RECORD_CYC) recs))"
      using Cons.IH [of v1] Cons.prems(1) s by simp
    have acc: "cycle_accesses ?w (r # recs) = record_accesses ?w r @ cycle_accesses ?w recs" by (simp add: cycle_accesses_def)
    show ?thesis
    proof (cases "run_accesses env ?s (cycle_accesses ?w recs) e st")
      case None
      then show ?thesis using IH by (simp add: acc run_accesses_append x l)
    next
      case (Some y)
      then obtain us e' st' where "run_accesses env ?s (cycle_accesses ?w recs) e st = Some (us, e', st')" by (cases y) auto
      then show ?thesis using IH s by (auto simp: acc run_accesses_append x l)
    qed
  qed
qed

text \<open>The reply goes out through pointers that were taken when the object array had the size \<open>n\<close>: an array that has grown since has moved,
  and the pointers dangle.\<close>

abbreviation array_size :: "'w eb_state \<Rightarrow> u32" where "array_size st \<equiv> eb_memory_array_size (st_mem st)"

definition reply_through :: "'w eb_env \<Rightarrow> eb_ptr \<Rightarrow> eb_ptr \<Rightarrow> u8 list \<Rightarrow> u32 \<Rightarrow> 'w eb_state \<Rightarrow> 'w eb_state option" where
  "reply_through env transportp linkp out n st = (if array_size st = n then do_send env transportp linkp out st else None)"

text \<open>The message of one cycle: the accesses, then the reply if there is one.\<close>

lemma serve_message_cycle:
  assumes ok: "\<forall>r \<in> set recs. record_ok (sp_widths port) r"
    and cyc: "recs \<noteq> []" "map (\<lambda>r. wr_flags r AND EB_RECORD_CYC) recs = replicate (length recs - 1) 0 @ [EB_RECORD_CYC]"
  shows "(case run_accesses env (sp_socket port) (cycle_accesses (sp_widths port) recs) 0 st of
      None \<Rightarrow> serve_message env port hdr (concat (map (encode_record (sp_widths port)) recs)) st = None
    | Some (vs, error, st') \<Rightarrow> \<exists>out. map_option (map_flow sv_st) (serve_message env port hdr (concat (map (encode_record (sp_widths port)) recs)) st) =
        map_option Go (if \<exists>r \<in> set recs. wr_reads r \<noteq> [] then reply_through env (sp_transport port) (sp_link port) out (array_size st) st' else Some st'))"
proof -
  let ?w = "sp_widths port"
  define v where "v = \<lparr>sv_in = concat (map (encode_record ?w) recs), sv_out = hdr, sv_error = 0, sv_cycle_end = 1,
       sv_cycle_open = False, sv_reply = False, sv_taken = eb_memory_array_size (st_mem st), sv_st = st\<rparr>"
  have msg: "serve_message env port hdr (concat (map (encode_record ?w) recs)) st = loop (serve_resume_body env port) v"
    by (simp add: serve_message_def v_def)
  have "last (map (\<lambda>r. wr_flags r AND EB_RECORD_CYC) recs) = EB_RECORD_CYC" unfolding cyc(2) by simp
  moreover have "map (\<lambda>r. wr_flags r AND EB_RECORD_CYC) recs \<noteq> []" using cyc(1) by simp
  ultimately have last: "last (sv_cycle_end v # map (\<lambda>r. wr_flags r AND EB_RECORD_CYC) recs) = EB_RECORD_CYC" by (simp only: last.simps if_False)
  note runs = serve_cycle_runs [OF ok, of v env, unfolded last]
  have f: "sv_error v = 0" "sv_st v = st" "\<not> sv_reply v" "sv_taken v = array_size st" by (simp_all add: v_def)
  show ?thesis
  proof (cases "run_accesses env (sp_socket port) (cycle_accesses ?w recs) 0 st")
    case None
    then have "loop (serve_loop_body env port) v = None" using runs f by (simp add: v_def)
    then show ?thesis unfolding None msg by (subst loop.simps) (simp add: serve_resume_body_def)
  next
    case (Some x)
    then obtain vs e st' where x: "run_accesses env (sp_socket port) (cycle_accesses ?w recs) 0 st = Some (vs, e, st')" by (cases x) auto
    with runs f obtain v' where v': "loop (serve_loop_body env port) v = Some (Go v')" "sv_in v' = []" "sv_st v' = st'" "sv_taken v' = array_size st"
        "sv_reply v' \<longleftrightarrow> (\<exists>r \<in> set recs. wr_reads r \<noteq> [])" "sv_cycle_end v' = EB_RECORD_CYC"
      by (auto simp: v_def)
    have "loop (serve_resume_body env port) v = map_option (\<lambda>st. Go (v'\<lparr>sv_st := st\<rparr>)) (serve_send env port v')"
      by (subst loop.simps) (simp add: serve_resume_body_def v' map_conv_bind_option comp_def)
    then have "map_option (map_flow sv_st) (loop (serve_resume_body env port) v) =
        map_option Go (if \<exists>r \<in> set recs. wr_reads r \<noteq> [] then reply_through env (sp_transport port) (sp_link port) (sv_out v') (array_size st) st' else Some st')"
      using v'(3-5) by (auto simp: serve_send_def reply_through_def option.map_comp comp_def)
    then show ?thesis unfolding x msg by auto
  qed
qed

section \<open>The length of a cycle\<close>

lemma pass_length:
  assumes inv: "packing_ok m width needs_check maxops ps cnt" and pl: "record_plan m width maxops ps cnt pk"
    and rb: "rb = plan_readback (width AND EB_DATAX) needs_check maxops pk"
  shows "length (encode_record width (plan_record m width rba ps pk rb cyc)) \<le> 32 + 8 * (pk_wcount pk + pk_rcount pk)"
    and "pk_wcount pk + pk_rcount pk \<le> length ps" and "1 \<le> 2 * length ps + (if cnt = 0 then 0 else 1 :: nat)"
proof -
  have al: "alignment_of width \<le> 8" "record_alignment_of width \<le> 8" using alignment_cases [of width] by auto
  have rs: "rb \<Longrightarrow> plan_rs m ps pk = []" using pass_facts(1) [OF inv pl rb] by blast
  show le: "pk_wcount pk + pk_rcount pk \<le> length ps" using pl unfolding record_plan_def Let_def by blast
  have "((if pk_wcount pk > 0 then 1 else 0) + pk_wcount pk +
      (if (if rb then 1 else pk_rcount pk) > 0 then 1 else 0) + (if rb then 1 else pk_rcount pk)) \<le> pk_wcount pk + pk_rcount pk + 3"
    by auto
  then have "record_alignment_of width + ((if pk_wcount pk > 0 then 1 else 0) + pk_wcount pk +
      (if (if rb then 1 else pk_rcount pk) > 0 then 1 else 0) + (if rb then 1 else pk_rcount pk)) * alignment_of width \<le>
      8 + (pk_wcount pk + pk_rcount pk + 3) * 8"
    using al by (intro add_mono [OF al(2)] mult_le_mono)
  then have "length (encode_record width (plan_record m width rba ps pk rb cyc)) \<le> 8 + (pk_wcount pk + pk_rcount pk + 3) * 8"
    by (simp only: record_length [OF pl rs])
  then show "length (encode_record width (plan_record m width rba ps pk rb cyc)) \<le> 32 + 8 * (pk_wcount pk + pk_rcount pk)" by simp
  have "ps \<noteq> [] \<or> cnt \<noteq> 0" using inv by (auto simp: packing_ok_def)
  then show "1 \<le> 2 * length ps + (if cnt = 0 then 0 else 1 :: nat)" by (cases ps) auto
qed

lemma length_step:
  fixes n :: nat
  assumes "2 * n + x < 2 * n' + y" "n + k = n'" "e \<le> 32 + 8 * k" "t \<le> 32 * (2 * n + x) + 8 * n"
  shows "e + t \<le> 32 * (2 * n' + y) + 8 * n'"
proof -
  have "2 * n + x + 1 \<le> 2 * n' + y" using assms(1) by simp
  then have "32 * (2 * n + x + 1) \<le> 32 * (2 * n' + y)" by (rule mult_le_mono2)
  then show ?thesis using assms(2-4) by (simp add: distrib_left)
qed

lemma packs_length:
  assumes "packs m width rba needs_check maxops ps cnt recs" "packing_ok m width needs_check maxops ps cnt"
  shows "total_length width recs \<le> 32 * (2 * length ps + (if cnt = 0 then 0 else 1)) + 8 * length ps"
  using assms
proof (induction rule: packs_induct)
  case (last ps cnt pk rb)
  then show ?case using pass_length(1) [OF last(1,3,4), of rba True] pass_length(2,3) [OF last(1,3,4)] by simp
next
  case (more ps cnt pk rb recs)
  have left: "length (plan_left ps pk) + (pk_wcount pk + pk_rcount pk) = length ps" using pass_length(2) [OF more(1,3,4)] by simp
  show ?case
    unfolding total_length_simps
    by (rule length_step [OF pass_facts(5) [OF more(1,3,4,5)] left pass_length(1) [OF more(1,3,4)] more.IH])
qed

lemma flow_result:
  assumes "map_option (map_flow f) msg = map_option Go x"
  shows "msg \<bind> (\<lambda>flow. case flow of Kill st \<Rightarrow> k st | Go v \<Rightarrow> Some (n, f v)) = x \<bind> (\<lambda>st. Some (n, st))"
  using assms by (cases x; cases msg) (auto split: flow.splits)

lemma payload_runs_cycle:
  assumes wire: "wire_ok env" and len: "length buf = slave_buffer_size" "len \<le> slave_buffer_size" "record_alignment_of w \<le> len"
    and region: "drop (record_alignment_of w) (take len buf) = concat (map (encode_record w) recs)"
    and ok: "\<forall>r \<in> set recs. record_ok w r" "recs \<noteq> []"
      "map (\<lambda>r. wr_flags r AND EB_RECORD_CYC) recs = replicate (length recs - 1) 0 @ [EB_RECORD_CYC]"
  shows "\<exists>out. slave_payload env socketp transportp devicep linkp psv w True buf len st = do {
          (vs, error, st') \<leftarrow> run_accesses env socketp (cycle_accesses w recs) 0 st;
          st'' \<leftarrow> (if \<exists>r \<in> set recs. wr_reads r \<noteq> [] then reply_through env transportp linkp out (array_size st) st' else Some st');
          Some (1, st'')
        }"
proof -
  let ?port = "\<lparr>sp_socket = socketp, sp_transport = transportp, sp_link = linkp, sp_widths = w\<rparr>"
  let ?msg = "serve_message env ?port (take (record_alignment_of w) buf) (concat (map (encode_record w) recs)) st"
  have pay: "slave_payload env socketp transportp devicep linkp psv w True buf len st =
      ?msg \<bind> (\<lambda>flow. case flow of Kill st \<Rightarrow> slave_kill env transportp devicep linkp psv st | Go v \<Rightarrow> Some (1, sv_st v))"
    using slave_payload_serves [OF wire len(1,2), of True w] len(3) region by (simp add: Let_def)
  have runs: "(case run_accesses env socketp (cycle_accesses w recs) 0 st of None \<Rightarrow> ?msg = None
      | Some (vs, error, st') \<Rightarrow> \<exists>out. map_option (map_flow sv_st) ?msg =
          map_option Go (if \<exists>r \<in> set recs. wr_reads r \<noteq> [] then reply_through env transportp linkp out (array_size st) st' else Some st'))"
    using serve_message_cycle [where port = ?port and recs = recs and env = env and st = st and hdr = "take (record_alignment_of w) buf", unfolded slave_port.simps, OF ok] .
  show ?thesis
  proof (cases "run_accesses env socketp (cycle_accesses w recs) 0 st")
    case None
    then show ?thesis using runs by (simp add: pay)
  next
    case (Some x)
    then obtain vs error st' where x: "run_accesses env socketp (cycle_accesses w recs) 0 st = Some (vs, error, st')" by (cases x) auto
    with runs obtain out where "map_option (map_flow sv_st) ?msg =
        map_option Go (if \<exists>r \<in> set recs. wr_reads r \<noteq> [] then reply_through env transportp linkp out (array_size st) st' else Some st')" by auto
    from flow_result [OF this] show ?thesis unfolding pay x bind.bind_lunit prod.case by (intro exI [of _ out])
  qed
qed

fun is_read_access :: "access \<Rightarrow> bool" where
  "is_read_access (Bus_read ret w b l) = True"
| "is_read_access (Config_read ret w a) = True"
| "is_read_access acc = False"

lemma no_read_in_writes: "\<not> (\<exists>a \<in> set (write_accesses widths sel config stride vs a b l). is_read_access a)"
  by (induction vs arbitrary: a b l) simp_all

lemma read_in_record: "(\<exists>a \<in> set (record_accesses widths r). is_read_access a) \<longleftrightarrow> wr_reads r \<noteq> []"
proof -
  have "is_read_access (read_access widths sel config ret a)" for sel config ret a by (simp add: read_access_def Let_def)
  then show ?thesis
    using no_read_in_writes unfolding record_accesses_def Let_def set_append bex_Un by (cases "wr_reads r") auto
qed

lemma read_in_cycle: "(\<exists>r \<in> set recs. wr_reads r \<noteq> []) \<longleftrightarrow> (\<exists>a \<in> set (cycle_accesses w recs). is_read_access a)"
  by (simp add: cycle_accesses_def flip: read_in_record [of w])

text \<open>The records of a cycle that was formatted into an empty packet.\<close>

lemma packed_records:
  assumes "job_ready job m ps" and "packet_port (job_port job)" and "buffer_ok (job_port job) ma"
    and "ma_cptr ma = master_start (job_port job)" and "ma_wptr ma = master_start (job_port job)" and "st_mem (ma_st ma) = m"
    and "master_pack (job_env job) (job_port job) (job_needs_check job) (job_maxops job) (job_rba job) (job_cycle job)
      (job_response job) (job_start ps ma) = Some (True, pa)"
  defines "w \<equiv> job_width job" and "len \<equiv> ma_wptr (pa_master pa)"
  obtains recs where "packs m w (job_rba job) (job_needs_check job) (job_maxops job) ps 0 recs"
    "list_all2 (performs w (job_rba job)) (map (op_at m) ps) (filter (\<lambda>a. a \<noteq> status_access w (job_rba job)) (cycle_accesses w recs))"
    "drop (record_alignment_of w) (take len (ma_buf (pa_master pa))) = concat (map (encode_record w) recs)"
    "len \<le> slave_buffer_size" "record_alignment_of w \<le> len" "length (ma_buf (pa_master pa)) = slave_buffer_size"
proof -
  obtain recs where r: "packs m w (job_rba job) (job_needs_check job) (job_maxops job) ps 0 recs"
      "list_all2 (performs w (job_rba job)) (map (op_at m) ps) (filter (\<lambda>a. a \<noteq> status_access w (job_rba job)) (cycle_accesses w recs))"
    using job_records [OF assms(1)] unfolding w_def .
  have s: "pa_master (job_start ps ma) = ma" "current ma = []" using assms(4,5) by (simp_all add: job_start_def current_def)
  have out: "packet_outcome job m ps recs (job_start ps ma)"
    by (rule packet_loop [OF r(1) [unfolded w_def] job_packing [OF assms(1)] assms(2) job_start_state [OF assms(1,6)]]) (simp add: s assms(3))
  have no: "refuse job opp pa' ma' \<noteq> Some (True, pa)" for opp pa' ma' by (auto simp: refuse_def bind_eq_Some_conv)
  have result: "loop (job_body job) (job_start ps ma) = Some (True, pa)" using assms(7) by (simp only: master_pack_def)
  have "fits_packet job recs (job_start ps ma)"
  proof (rule ccontr)
    assume "\<not> fits_packet job recs (job_start ps ma)"
    then obtain opp pa' ma' where "loop (job_body job) (job_start ps ma) = refuse job opp pa' ma'"
      using out unfolding packet_outcome_def by auto
    with result no show False by metis
  qed
  then have form: "formatted job m recs (job_start ps ma) pa"
    using out result unfolding packet_outcome_def by auto
  note f = formattedD [OF form, unfolded s]
  have start: "master_start (job_port job) = record_alignment_of w" using assms(2) by (simp add: master_start_def packet_port_def w_def)
  have cptr: "ma_cptr (pa_master pa) = record_alignment_of w"
    using f(3) assms(4) unfolding earlier_def start by auto
  have "drop (record_alignment_of w) (take len (ma_buf (pa_master pa))) = concat (map (encode_record w) recs)"
    using f(1) cptr by (simp add: current_def w_def len_def)
  moreover have "len \<le> slave_buffer_size" "record_alignment_of w \<le> len" "length (ma_buf (pa_master pa)) = slave_buffer_size"
    using buffer_okD [OF f(2)] packet_eob [OF assms(2)] cptr by (auto simp: len_def)
  ultimately show thesis using that r by blast
qed

text \<open>A cycle with enough room left in the packet is formatted.\<close>

lemma room_packed:
  assumes "job_ready job m ps" and "packet_port (job_port job)" and "buffer_ok (job_port job) ma"
    and "ma_cptr ma = ma_wptr ma" and "st_mem (ma_st ma) = m"
    and "master_start (job_port job) + 72 * length ps \<le> master_eob (job_port job)"
  obtains recs pa where "master_pack (job_env job) (job_port job) (job_needs_check job) (job_maxops job) (job_rba job) (job_cycle job)
      (job_response job) (job_start ps ma) = Some (True, pa)" "formatted job m recs (job_start ps ma) pa"
    "total_length (job_width job) recs \<le> 72 * length ps"
proof -
  obtain recs where r: "packs m (job_width job) (job_rba job) (job_needs_check job) (job_maxops job) ps 0 recs"
    using job_records [OF assms(1)] .
  have len: "total_length (job_width job) recs \<le> 72 * length ps" using packs_length [OF r job_packing [OF assms(1)]] by simp
  have s: "pa_master (job_start ps ma) = ma" "current ma = []" using assms(4) by (simp_all add: job_start_def current_def)
  have "fits_packet job recs (job_start ps ma)" using len assms(6) by (simp add: fits_packet_def s)
  moreover have "packet_outcome job m ps recs (job_start ps ma)"
    by (rule packet_loop [OF r job_packing [OF assms(1)] assms(2) job_start_state [OF assms(1,5)]]) (simp add: s assms(3))
  ultimately obtain pa where "loop (job_body job) (job_start ps ma) = Some (True, pa)" "formatted job m recs (job_start ps ma) pa"
    by (auto simp: packet_outcome_def)
  then show thesis using that len unfolding master_pack_def by blast
qed

section \<open>Properties\<close>

text \<open>The slave's side of one record, in its buffer.\<close>

lemma slave_record_runs:
  assumes wire: "wire_ok env" and safe: "sl_safe s" and ok: "record_ok (sp_widths port) r"
    and inp: "drop (sl_rptr s) (take (sl_eos s) (sl_buf s)) = encode_record (sp_widths port) r @ rest"
  shows "(case run_accesses env (sp_socket port) (record_accesses (sp_widths port) r) (sl_error s) (sl_st s) of
      None \<Rightarrow> slave_record env port s = None
    | Some (vs, error, st) \<Rightarrow> \<exists>s'. slave_record env port s = Some (Go s') \<and> sl_safe s' \<and>
        drop (sl_rptr s') (take (sl_eos s') (sl_buf s')) = rest \<and> sl_error s' = error \<and> sl_st s' = st \<and>
        sl_cycle_end s' = wr_flags r AND EB_RECORD_CYC \<and> (sl_reply s' \<longleftrightarrow> sl_reply s \<or> wr_reads r \<noteq> []))"
proof -
  let ?w = "sp_widths port"
  have f: "sv_in (serve_of s) = encode_record ?w r @ rest" "sv_error (serve_of s) = sl_error s" "sv_st (serve_of s) = sl_st s"
      "sv_reply (serve_of s) = sl_reply s"
    using inp by (simp_all add: serve_of_def)
  have "length (encode_record ?w r) \<le> sl_eos s - sl_rptr s"
    using arg_cong [OF inp, of length] safe by (simp add: sl_safe_def)
  then have room: "sl_rptr s + record_alignment_of ?w \<le> sl_eos s"
    using length_encode_ge [of ?w r] record_alignment_ge [of ?w] by linarith
  note ref = slave_record_refines [OF wire safe room]
  note runs = serve_record_runs [OF ok f(1), of env, unfolded f]
  show ?thesis
  proof (cases "run_accesses env (sp_socket port) (record_accesses ?w r) (sl_error s) (sl_st s)")
    case None
    then show ?thesis using runs ref by simp
  next
    case (Some x)
    then obtain vs error st where x: "run_accesses env (sp_socket port) (record_accesses ?w r) (sl_error s) (sl_st s) = Some (vs, error, st)"
      by (cases x) auto
    with runs obtain v' where v': "serve_record env port (serve_of s) = Some (Go v')" "served_as port r rest error st (serve_of s) v'"
      by auto
    with ref have "map_option (map_flow serve_of) (slave_record env port s) = Some (Go v')" by simp
    then obtain fl where fl: "slave_record env port s = Some fl" "map_flow serve_of fl = Go v'" by (auto simp: map_option_eq_Some)
    then obtain s' where s': "slave_record env port s = Some (Go s')" "v' = serve_of s'" by (cases fl) auto
    then have "sl_safe s'" using ref by simp
    with v'(2) s' x show ?thesis by (auto simp: served_as_def f(4)) (auto simp: serve_of_def)
  qed
qed

text \<open>C9: what the master writes into a record is what the slave takes out of it. One pass of the master's packing loop
  plans a record and emits its bytes wherever they fit the buffer, consuming as many operations as it planned. Wherever a slave finds these
  bytes in its buffer, with whatever behind them, it makes for them exactly the accesses that perform these operations, in order, and the
  read-back of the error register if one was planned; it faults only if an access does, ends just behind the
  record, and takes over the record's end-of-cycle flag.\<close>

theorem record_roundtrip:
  assumes "packing_ok m width needs_check maxops ps cnt" and "\<forall>p \<in> set ps. config_readable width (op_at m p)"
    and plan: "plan_of m width maxops (head_ptr ps) cnt = Some pk"
  defines "rb \<equiv> plan_readback (width AND EB_DATAX) needs_check maxops pk" and "n \<equiv> pk_wcount pk + pk_rcount pk"
  shows "\<exists>bytes accs. list_all2 (performs width rba) (map (op_at m) (take n ps)) accs \<and>
    (\<forall>buf wptr. wptr + length bytes \<le> length buf \<longrightarrow>
       emit_record m width rba pk rb cyc (head_ptr ps) buf wptr =
         Some (head_ptr (drop n ps), put_bytes wptr bytes buf, wptr + length bytes)) \<and>
    (\<forall>(env :: 'w eb_env) port s rest. wire_ok env \<longrightarrow> sp_widths port = width \<longrightarrow> sl_safe s \<longrightarrow>
       drop (sl_rptr s) (take (sl_eos s) (sl_buf s)) = bytes @ rest \<longrightarrow>
       (case run_accesses env (sp_socket port) (accs @ (if rb then [status_access width rba] else [])) (sl_error s) (sl_st s) of
          None \<Rightarrow> slave_record env port s = None
        | Some (vs, error, st) \<Rightarrow> \<exists>s'. slave_record env port s = Some (Go s') \<and>
            drop (sl_rptr s') (take (sl_eos s') (sl_buf s')) = rest \<and> sl_error s' = error \<and> sl_st s' = st \<and>
            sl_cycle_end s' = (if cyc then EB_RECORD_CYC else 0)))"
proof -
  have pl: "record_plan m width maxops ps cnt pk" using pass_plan [OF assms(1)] plan by force
  have inv: "port_widths width" "op_chain m (head_ptr ps) ps" using assms(1) by (simp_all add: packing_ok_def)
  have rb: "rb = plan_readback (width AND EB_DATAX) needs_check maxops pk" by (simp add: rb_def)
  let ?R = "plan_record m width rba ps pk rb cyc"
  obtain accs where accs: "record_accesses width ?R = accs @ (if rb then [status_access width rba] else [])"
      "list_all2 (performs width rba) (plan_ws m ps pk @ plan_rs m ps pk) accs"
    using pass_performs [OF assms(1) pl rb assms(2)] .
  have ops: "plan_ws m ps pk @ plan_rs m ps pk = map (op_at m) (take n ps)"
    by (simp add: n_def take_add take_map drop_map)
  note f = pass_facts(1,2) [OF assms(1) pl rb] and r = pass_record [OF assms(1) pl rb, of rba cyc]
  have emit: "emit_record m width rba pk rb cyc (head_ptr ps) buf wptr =
      Some (head_ptr (drop n ps), put_bytes wptr (encode_record width ?R) buf, wptr + length (encode_record width ?R))"
    if "wptr + length (encode_record width ?R) \<le> length buf" for buf wptr
    unfolding plan_record_def n_def
    by (rule emit_record_spec [OF inv pl f]) (use that in \<open>simp_all add: plan_record_def\<close>)
  have slave: "case run_accesses env (sp_socket port) (accs @ (if rb then [status_access width rba] else [])) (sl_error s) (sl_st s) of
          None \<Rightarrow> slave_record env port s = None
        | Some (vs, error, st) \<Rightarrow> \<exists>s'. slave_record env port s = Some (Go s') \<and>
            drop (sl_rptr s') (take (sl_eos s') (sl_buf s')) = rest \<and> sl_error s' = error \<and> sl_st s' = st \<and>
            sl_cycle_end s' = (if cyc then EB_RECORD_CYC else 0)"
    if "wire_ok env" "sp_widths port = width" "sl_safe s" "drop (sl_rptr s) (take (sl_eos s) (sl_buf s)) = encode_record width ?R @ rest"
    for env :: "'w eb_env" and port s rest
  proof (cases "run_accesses env (sp_socket port) (accs @ (if rb then [status_access width rba] else [])) (sl_error s) (sl_st s)")
    case None
    then show ?thesis using slave_record_runs [OF that(1,3), of port ?R rest, unfolded that(2) accs(1), OF r(1) that(4)] by simp
  next
    case (Some x)
    then show ?thesis
      using slave_record_runs [OF that(1,3), of port ?R rest, unfolded that(2) accs(1) r(2), OF r(1) that(4)] unfolding Some by (cases x) auto
  qed
  show ?thesis
    using accs(2) emit slave unfolding ops by (intro exI [of _ "encode_record width ?R"] exI [of _ accs] conjI) auto
qed

text \<open>The first record of the example: the write; the read back of the error register fills the record.\<close>

lemma demo_packing: "packing_ok demo_sending 0x44 True 32 [131, 132] 0"
  using job_packing [OF demo_job_ready [of 0]] by (simp add: demo_job_def)

theorem record_roundtrip_witness:
  "\<exists>pk bytes accs. plan_of demo_sending 0x44 32 131 0 = Some pk \<and>
     list_all2 (performs 0x44 0x8000) (map (op_at demo_sending) (take (pk_wcount pk + pk_rcount pk) [131, 132])) accs \<and>
     (\<forall>buf. length bytes \<le> length buf \<longrightarrow>
        (\<exists>p. emit_record demo_sending 0x44 0x8000 pk (plan_readback 4 True 32 pk) False 131 buf 0 = Some (p, put_bytes 0 bytes buf, length bytes)))"
proof -
  obtain pk where pk: "plan_of demo_sending 0x44 32 (head_ptr [131, 132]) 0 = Some pk" using pass_plan [OF demo_packing] by blast
  have "\<forall>p \<in> set [131, 132]. config_readable 0x44 (op_at demo_sending p)"
    using demo_job_ready [of 0] by (simp add: job_ready_def demo_job_def)
  from record_roundtrip [where ?'w = unit and rba = "0x8000" and cyc = False, OF demo_packing this pk] show ?thesis
  proof (elim exE conjE, goal_cases)
    case (1 bytes accs)
    from 1(2) [rule_format, of 0] have "\<forall>buf. length bytes \<le> length buf \<longrightarrow>
        (\<exists>p. emit_record demo_sending 0x44 0x8000 pk (plan_readback 4 True 32 pk) False 131 buf 0 = Some (p, put_bytes 0 bytes buf, length bytes))"
      by simp
    with 1(1) pk show ?case by (intro exI [of _ pk] exI [of _ bytes] exI [of _ accs]) simp
  qed
qed

text \<open>C10: short cycles always go out. The records of a cycle of \<open>n\<close> operations, read-backs included, take at most
  \<open>72 * n\<close> bytes, so a cycle with that much room in a packet is formatted and never refused.\<close>

theorem short_cycle_fits:
  fixes job :: "'w cycle_job"
  assumes "job_ready job m ps" and "packet_port (job_port job)" and "buffer_ok (job_port job) ma"
    and "ma_cptr ma = ma_wptr ma" and "st_mem (ma_st ma) = m"
    and "master_start (job_port job) + 72 * length ps \<le> master_eob (job_port job)"
  shows "\<exists>pa. master_pack (job_env job) (job_port job) (job_needs_check job) (job_maxops job) (job_rba job) (job_cycle job)
      (job_response job) (job_start ps ma) = Some (True, pa) \<and> length (current (pa_master pa)) \<le> 72 * length ps"
proof -
  obtain recs pa where pa: "master_pack (job_env job) (job_port job) (job_needs_check job) (job_maxops job) (job_rba job) (job_cycle job)
      (job_response job) (job_start ps ma) = Some (True, pa)" "formatted job m recs (job_start ps ma) pa"
      "total_length (job_width job) recs \<le> 72 * length ps"
    using room_packed [OF assms] .
  have "pa_master (job_start ps ma) = ma" "current ma = []" using assms(4) by (simp_all add: job_start_def current_def)
  then show ?thesis using formattedD(1) [OF pa(2)] pa(1,3) by (auto simp: total_length_def)
qed

lemma demo_packet_port: "packet_port (job_port (demo_job 1472))"
  by (simp add: packet_port_def demo_job_def slave_buffer_size_def)

lemma demo_packet_start: "master_start (job_port (demo_job 1472)) = 4"
  by (simp add: master_start_def demo_job_def record_alignment_of_def Let_def)

lemma demo_packet_buffer: "buffer_ok (job_port (demo_job 1472)) (demo_master 4)"
  using demo_packet_start by (simp add: buffer_ok_def demo_master_def master_eob_def demo_sendable) (simp add: demo_job_def demo_sendable)

lemma demo_room: "master_start (job_port (demo_job 1472)) + 72 * length [131, 132 :: eb_ptr] \<le> master_eob (job_port (demo_job 1472))"
  by (simp add: demo_packet_start) (simp add: master_eob_def demo_job_def)

theorem short_cycle_fits_witness:
  "\<exists>pa. master_pack demo_wire \<lparr>mp_device = 128, mp_width = 0x44, mp_tops = demo_udp\<lparr>tops_mtu := 1472\<rparr>\<rparr> True 32 0x8000 EB_NULL EB_NULL
       (job_start [131, 132] (demo_master 4)) = Some (True, pa) \<and> length (current (pa_master pa)) \<le> 144"
  using short_cycle_fits [OF demo_job_ready demo_packet_port demo_packet_buffer _ _ demo_room] by (simp add: demo_master_def demo_job_def)

text \<open>C1: a cycle is executed remotely as it was written. Suppose the master formats a checked cycle into an
  empty packet and the slave's buffer holds that packet, however its header was treated. Then processing it, in place,
  makes accesses that perform exactly the operations of the cycle, in order (and read the error register back), and
  sends one reply if the cycle had reads, and none otherwise. It faults only if one of the accesses does, or if the
  reply goes out after an access made the library's object array grow: the pointers it is sent through dangle then.\<close>

theorem remote_execution:
  fixes job :: "'w cycle_job"
  assumes "job_ready job m ps" and "packet_port (job_port job)" and "buffer_ok (job_port job) ma"
    and "ma_cptr ma = master_start (job_port job)" and "ma_wptr ma = master_start (job_port job)" and "st_mem (ma_st ma) = m"
    and "master_pack (job_env job) (job_port job) (job_needs_check job) (job_maxops job) (job_rba job) (job_cycle job)
      (job_response job) (job_start ps ma) = Some (True, pa)"
  defines "w \<equiv> job_width job" and "start \<equiv> master_start (job_port job)"
  shows "\<exists>accs. list_all2 (performs w (job_rba job)) (map (op_at m) ps)
      (filter (\<lambda>a. a \<noteq> status_access w (job_rba job)) accs) \<and>
    (\<forall>(env :: 'v eb_env) socketp transportp devicep linkp psv buf (st :: 'v eb_state). wire_ok env \<longrightarrow> length buf = slave_buffer_size \<longrightarrow>
       drop start (take (ma_wptr (pa_master pa)) buf) = drop start (take (ma_wptr (pa_master pa)) (ma_buf (pa_master pa))) \<longrightarrow>
       (\<exists>out. slave_payload env socketp transportp devicep linkp psv w True buf (ma_wptr (pa_master pa)) st = do {
          (vs, error, st') \<leftarrow> run_accesses env socketp accs 0 st;
          st'' \<leftarrow> (if \<exists>a \<in> set accs. is_read_access a then
                   if eb_memory_array_size (st_mem st') = eb_memory_array_size (st_mem st) then do_send env transportp linkp out st' else None
                 else Some st');
          Some (1, st'')
        }))"
proof -
  obtain recs where r: "packs m w (job_rba job) (job_needs_check job) (job_maxops job) ps 0 recs"
      "list_all2 (performs w (job_rba job)) (map (op_at m) ps) (filter (\<lambda>a. a \<noteq> status_access w (job_rba job)) (cycle_accesses w recs))"
      "drop (record_alignment_of w) (take (ma_wptr (pa_master pa)) (ma_buf (pa_master pa))) = concat (map (encode_record w) recs)"
      "ma_wptr (pa_master pa) \<le> slave_buffer_size" "record_alignment_of w \<le> ma_wptr (pa_master pa)"
    using packed_records [OF assms(1-7)] unfolding w_def by metis
  have start: "start = record_alignment_of w" using assms(2) by (simp add: start_def master_start_def packet_port_def w_def)
  have ok: "\<forall>r \<in> set recs. record_ok w r" "recs \<noteq> []"
      "map (\<lambda>r. wr_flags r AND EB_RECORD_CYC) recs = replicate (length recs - 1) 0 @ [EB_RECORD_CYC]"
    using packs_ok [OF r(1)] job_packing [OF assms(1)] unfolding w_def by blast+
  show ?thesis
    unfolding start r(3)
    by (rule exI [of _ "cycle_accesses w recs"])
      (intro conjI allI impI r(2) payload_runs_cycle [OF _ _ r(4,5) _ ok, unfolded read_in_cycle [of recs w] reply_through_def])
qed

theorem remote_execution_witness:
  "\<exists>pa accs out. master_pack demo_wire (job_port (demo_job 1472)) True 32 0x8000 EB_NULL EB_NULL (job_start [131, 132] (demo_master 4)) = Some (True, pa) \<and>
    list_all2 (performs 0x44 0x8000) (map (op_at demo_sending) [131, 132])
      (filter (\<lambda>a. a \<noteq> status_access 0x44 0x8000) accs) \<and>
    slave_payload demo_wire 128 131 132 133 False 0x44 True (ma_buf (pa_master pa)) (ma_wptr (pa_master pa)) (demo_waiting []) = do {
          (vs, error, st') \<leftarrow> run_accesses demo_wire 128 accs 0 (demo_waiting []);
          st'' \<leftarrow> (if \<exists>a \<in> set accs. is_read_access a then
                   if eb_memory_array_size (st_mem st') = eb_memory_array_size (st_mem (demo_waiting [])) then do_send demo_wire 131 133 out st' else None
                 else Some st');
          Some (1, st'')
        }"
proof -
  have d: "ma_cptr (demo_master 4) = 4" "ma_wptr (demo_master 4) = 4" "st_mem (ma_st (demo_master 4)) = demo_sending"
    by (simp_all add: demo_master_def)
  let ?job = "demo_job 1472"
  obtain pa where pa: "master_pack (job_env ?job) (job_port ?job) (job_needs_check ?job) (job_maxops ?job) (job_rba ?job) (job_cycle ?job)
      (job_response ?job) (job_start [131, 132] (demo_master 4)) = Some (True, pa)"
    using room_packed [OF demo_job_ready demo_packet_port demo_packet_buffer _ d(3) demo_room] d by metis
  then have pa': "master_pack demo_wire (job_port ?job) True 32 0x8000 EB_NULL EB_NULL (job_start [131, 132] (demo_master 4)) = Some (True, pa)"
    by (simp add: demo_job_def)
  have ma: "ma_cptr (demo_master 4) = master_start (job_port ?job)" "ma_wptr (demo_master 4) = master_start (job_port ?job)"
    by (simp_all only: d demo_packet_start)
  have len: "length (ma_buf (pa_master pa)) = slave_buffer_size"
    using packed_records [OF demo_job_ready demo_packet_port demo_packet_buffer ma d(3) pa] by metis
  have wire: "wire_ok demo_wire" by (auto simp: wire_ok_def demo_wire_def demo_udp_def)
  have w: "job_width ?job = 0x44" "job_rba ?job = 0x8000" by (simp_all add: demo_job_def)
  from remote_execution [where ?'v = "u8 list", OF demo_job_ready demo_packet_port demo_packet_buffer ma d(3) pa] show ?thesis
  proof (unfold w, elim exE conjE, goal_cases)
    case (1 accs)
    from 1(2) [rule_format, OF wire len refl, of 128 131 132 133 False "demo_waiting []"] show ?case
      by (elim exE) (rule exI [of _ pa], rule exI [of _ accs], rule exI, rule conjI [OF pa'], rule conjI [OF 1(1)])
  qed
qed

end
