(* ===== verification/Eb_Posix.thy ===== *)
theory Eb_Posix
  imports Eb_Pure_Slave
begin

text \<open>
  The transports of a POSIX build: \<^verbatim>\<open>api/transport/posix-ip.c\<close>, \<^verbatim>\<open>posix-udp.c\<close> and \<^verbatim>\<open>posix-tcp.c\<close>, with
  \<^verbatim>\<open>api/glue/strncasecmp.c\<close>, as method tables of the interface the protocol engines call. The system calls
  are parameters.
\<close>

section \<open>The operating system\<close>

record sockaddr =
  ss_family :: int
  ss_data :: "u8 list"

record addrinfo =
  ai_family :: int
  ai_socktype :: int
  ai_protocol :: int
  ai_addr :: sockaddr
  ai_addrlen :: int

text \<open>The system calls act on the system's state. \<open>px_getaddrinfo host port family type protocol flags\<close> gives the
  list of matches, empty for a non-zero result; \<open>px_recv\<close> and \<open>px_recvfrom\<close> give the result code and the
  bytes that arrived; calls whose result the code ignores only change the state. \<open>px_ready\<close> and \<open>px_fdes\<close>
  are the descriptor callbacks handed to \<^verbatim>\<open>eb_socket_check\<close> and \<^verbatim>\<open>eb_socket_descriptors\<close>.\<close>

record 'w posix =
  px_getaddrinfo :: "string option \<Rightarrow> string \<Rightarrow> int \<Rightarrow> int \<Rightarrow> int \<Rightarrow> int \<Rightarrow> 'w \<Rightarrow> addrinfo list \<times> 'w"
  px_socket :: "int \<Rightarrow> int \<Rightarrow> int \<Rightarrow> 'w \<Rightarrow> int \<times> 'w"
  px_setsockopt :: "int \<Rightarrow> int \<Rightarrow> int \<Rightarrow> int \<Rightarrow> 'w \<Rightarrow> 'w"
  px_bind :: "int \<Rightarrow> sockaddr \<Rightarrow> int \<Rightarrow> 'w \<Rightarrow> int \<times> 'w"
  px_listen :: "int \<Rightarrow> int \<Rightarrow> 'w \<Rightarrow> int \<times> 'w"
  px_accept :: "int \<Rightarrow> 'w \<Rightarrow> int \<times> 'w"
  px_connect :: "int \<Rightarrow> sockaddr \<Rightarrow> int \<Rightarrow> 'w \<Rightarrow> int \<times> 'w"
  px_close :: "int \<Rightarrow> 'w \<Rightarrow> 'w"
  px_ioctl_nbio :: "int \<Rightarrow> bool \<Rightarrow> 'w \<Rightarrow> 'w"
  px_recv :: "int \<Rightarrow> nat \<Rightarrow> int \<Rightarrow> 'w \<Rightarrow> int \<times> u8 list \<times> 'w"
  px_send :: "int \<Rightarrow> u8 list \<Rightarrow> 'w \<Rightarrow> 'w"
  px_recvfrom :: "int \<Rightarrow> nat \<Rightarrow> int \<Rightarrow> 'w \<Rightarrow> int \<times> u8 list \<times> sockaddr \<times> int \<times> 'w"
  px_sendto :: "int \<Rightarrow> u8 list \<Rightarrow> sockaddr \<Rightarrow> int \<Rightarrow> 'w \<Rightarrow> 'w"
  px_errno :: "'w \<Rightarrow> int"
  px_malloc :: "'w \<Rightarrow> u64 \<times> 'w"
  px_free :: "u64 \<Rightarrow> 'w \<Rightarrow> 'w"
  px_ready :: "int \<Rightarrow> u8 \<Rightarrow> 'w \<Rightarrow> bool \<times> 'w"
  px_fdes :: "int \<Rightarrow> u8 \<Rightarrow> 'w \<Rightarrow> 'w"

text \<open>The world of a process that uses these transports: the static variables \<^verbatim>\<open>eb_posix_udp_sa\<close> and
  \<^verbatim>\<open>eb_posix_udp_sa_len\<close>, the addresses stored in \<^verbatim>\<open>malloc\<close>ed memory (which is assumed to be granted, as the
  code does), and the system.\<close>

record 'w net =
  eb_posix_udp_sa :: sockaddr
  eb_posix_udp_sa_len :: int
  net_sa :: "u64 \<Rightarrow> sockaddr"
  net_os :: 'w

definition sys :: "('w \<Rightarrow> 'a \<times> 'w) \<Rightarrow> 'w net \<Rightarrow> 'a \<times> 'w net" where
  "sys f n = (let (a, w) = f (net_os n) in (a, n\<lparr>net_os := w\<rparr>))"

definition sys_do :: "('w \<Rightarrow> 'w) \<Rightarrow> 'w net \<Rightarrow> 'w net" where
  "sys_do f n = n\<lparr>net_os := f (net_os n)\<rparr>"

abbreviation (input) PF_INET :: int where "PF_INET \<equiv> 2"
abbreviation (input) PF_INET6 :: int where "PF_INET6 \<equiv> 10"
abbreviation (input) SOCK_STREAM :: int where "SOCK_STREAM \<equiv> 1"
abbreviation (input) SOCK_DGRAM :: int where "SOCK_DGRAM \<equiv> 2"
abbreviation (input) IPPROTO_TCP :: int where "IPPROTO_TCP \<equiv> 6"
abbreviation (input) IPPROTO_UDP :: int where "IPPROTO_UDP \<equiv> 17"
abbreviation (input) IPPROTO_IPV6 :: int where "IPPROTO_IPV6 \<equiv> 41"
abbreviation (input) IPV6_V6ONLY :: int where "IPV6_V6ONLY \<equiv> 26"
abbreviation (input) SOL_SOCKET :: int where "SOL_SOCKET \<equiv> 1"
abbreviation (input) SO_BROADCAST :: int where "SO_BROADCAST \<equiv> 6"
abbreviation (input) TCP_NODELAY :: int where "TCP_NODELAY \<equiv> 1"
abbreviation (input) AI_PASSIVE :: int where "AI_PASSIVE \<equiv> 1"
abbreviation (input) MSG_DONTWAIT :: int where "MSG_DONTWAIT \<equiv> 0x40"
abbreviation (input) EAGAIN :: int where "EAGAIN \<equiv> 11"
abbreviation (input) DESCRIPTOR_IN :: u8 where "DESCRIPTOR_IN \<equiv> 0x01"

section \<open>Strings\<close>

text \<open>A C string is the list of its characters before the terminating zero.\<close>

definition c_int :: "char \<Rightarrow> int" where
  "c_int c = sint (of_char c :: u8)"

definition c_toupper :: "int \<Rightarrow> int" where
  "c_toupper c = (if 97 \<le> c \<and> c \<le> 122 then c - 32 else c)"

fun char_at :: "string \<Rightarrow> int" where
  "char_at [] = 0"
| "char_at (c # s) = c_int c"

fun eb_strncasecmp :: "string \<Rightarrow> string \<Rightarrow> nat \<Rightarrow> int" where
  "eb_strncasecmp s1 s2 0 = 0"
| "eb_strncasecmp (a # s1) (b # s2) (Suc len) =
     (if c_toupper (c_int a) \<noteq> c_toupper (c_int b) then c_toupper (c_int a) - c_toupper (c_int b)
      else eb_strncasecmp s1 s2 len)"
| "eb_strncasecmp s1 s2 (Suc len) = c_toupper (char_at s1) - c_toupper (char_at s2)"

text \<open>\<^verbatim>\<open>strchr(s, '/')\<close>: what stands before the slash and what behind it.\<close>

definition at_slash :: "string \<Rightarrow> (string \<times> string) option" where
  "at_slash s = (if CHR ''/'' \<in> set s
     then Some (takeWhile (\<lambda>c. c \<noteq> CHR ''/'') s, tl (dropWhile (\<lambda>c. c \<noteq> CHR ''/'') s)) else None)"

section \<open>IP sockets\<close>

definition eb_posix_ip_close :: "'w posix \<Rightarrow> int \<Rightarrow> 'w net \<Rightarrow> 'w net" where
  "eb_posix_ip_close os sock n = (if sock = -1 then n else sys_do (px_close os sock) n)"

fun ip_open_loop :: "'w posix \<Rightarrow> addrinfo list \<Rightarrow> 'w net \<Rightarrow> int \<times> 'w net" where
  "ip_open_loop os [] n = (-1, n)"
| "ip_open_loop os (i # is) n =
     (let (sock, n) = sys (px_socket os (ai_family i) (ai_socktype i) (ai_protocol i)) n
      in if sock = -1 then ip_open_loop os is n
         else let n = (if ai_family i = PF_INET6 then sys_do (px_setsockopt os sock IPPROTO_IPV6 IPV6_V6ONLY 1) n else n);
                  (bound, n) = sys (px_bind os sock (ai_addr i) (ai_addrlen i)) n
              in if bound = 0 then (sock, n)
                 else ip_open_loop os is (eb_posix_ip_close os sock n))"

definition ip_protocol :: "int \<Rightarrow> int option" where
  "ip_protocol ty = (if ty = SOCK_DGRAM then Some IPPROTO_UDP else if ty = SOCK_STREAM then Some IPPROTO_TCP else None)"

definition eb_posix_ip_open :: "'w posix \<Rightarrow> int \<Rightarrow> int \<Rightarrow> string option \<Rightarrow> 'w net \<Rightarrow> int \<times> 'w net" where
  "eb_posix_ip_open os family ty port n =
     (case ip_protocol ty of
        None \<Rightarrow> (-1, n)
      | Some protocol \<Rightarrow>
          let (match, n) = sys (px_getaddrinfo os None (case port of Some p \<Rightarrow> p | None \<Rightarrow> ''0'') family ty protocol AI_PASSIVE) n;
              (sock, n) = ip_open_loop os match n
          in if sock \<noteq> -1 \<and> protocol = IPPROTO_UDP then (sock, sys_do (px_setsockopt os sock SOL_SOCKET SO_BROADCAST 1) n)
             else (sock, n))"

text \<open>The host and the port of an address behind its prefix.\<close>

definition host_port :: "string \<Rightarrow> string \<times> string" where
  "host_port address =
     (case at_slash address of
        None \<Rightarrow> (address, ''60368'')
      | Some (host, rest) \<Rightarrow> (host, if rest = [] then ''60368'' else rest))"

text \<open>The result is the length of the address, \<open>-1\<close> for none.\<close>

definition eb_posix_ip_resolve ::
    "'w posix \<Rightarrow> string \<Rightarrow> string \<Rightarrow> int \<Rightarrow> int \<Rightarrow> sockaddr \<Rightarrow> 'w net \<Rightarrow> int \<times> sockaddr \<times> 'w net" where
  "eb_posix_ip_resolve os prefix address family ty out n =
     (if eb_strncasecmp address prefix (length prefix) \<noteq> 0 then (-1, out, n)
      else let address = drop (length prefix) address
           in if length address \<ge> 250 - 1 then (-1, out, n)
              else case ip_protocol ty of
                None \<Rightarrow> (-1, out, n)
              | Some protocol \<Rightarrow>
                  let (host, port) = host_port address;
                      (match, n) = sys (px_getaddrinfo os (Some host) port family ty protocol 0) n
                  in case match of
                       [] \<Rightarrow> (-1, out, n)
                     | i # _ \<Rightarrow> (ai_addrlen i, ai_addr i, n))"

definition eb_posix_ip_force_non_blocking :: "'w posix \<Rightarrow> int \<Rightarrow> bool \<Rightarrow> 'w net \<Rightarrow> 'w net" where
  "eb_posix_ip_force_non_blocking os sock on n = (if sock = -1 then n else sys_do (px_ioctl_nbio os sock on) n)"

text \<open>The system has \<^verbatim>\<open>MSG_DONTWAIT\<close>, so this one does nothing.\<close>

definition eb_posix_ip_non_blocking :: "'w posix \<Rightarrow> int \<Rightarrow> bool \<Rightarrow> 'w net \<Rightarrow> 'w net" where
  "eb_posix_ip_non_blocking os sock on n = n"

definition eb_posix_ip_set_buffer :: "'w posix \<Rightarrow> int \<Rightarrow> bool \<Rightarrow> 'w net \<Rightarrow> 'w net" where
  "eb_posix_ip_set_buffer os sock on n = sys_do (px_setsockopt os sock IPPROTO_TCP TCP_NODELAY (if on then 0 else 1)) n"

definition eb_posix_ip_ewouldblock :: "'w posix \<Rightarrow> 'w net \<Rightarrow> bool" where
  "eb_posix_ip_ewouldblock os n \<longleftrightarrow> px_errno os (net_os n) = EAGAIN"

section \<open>Structures in the raw bytes\<close>

text \<open>A descriptor at an offset of the raw bytes of a transport or a link, which the transports cast to
  their own structures; the machine is little-endian.\<close>

definition int_bytes :: "int \<Rightarrow> u8 list" where
  "int_bytes v = rev (be_bytes 4 (word_of_int v))"

definition int_at :: "nat \<Rightarrow> u8 list \<Rightarrow> int" where
  "int_at off raw = sint (ucast (be_word (rev (take 4 (drop off raw)))) :: u32)"

definition pointer_at :: "nat \<Rightarrow> u8 list \<Rightarrow> u64" where
  "pointer_at off raw = be_word (rev (take 8 (drop off raw)))"

text \<open>\<^verbatim>\<open>struct eb_posix_udp_transport\<close> and \<^verbatim>\<open>struct eb_posix_tcp_transport\<close>: the IPv4 and the IPv6 socket.\<close>

definition socket4 :: "eb_transport \<Rightarrow> int" where "socket4 t = int_at 0 (tr_raw t)"
definition socket6 :: "eb_transport \<Rightarrow> int" where "socket6 t = int_at 4 (tr_raw t)"
definition set_sockets :: "int \<Rightarrow> int \<Rightarrow> eb_transport \<Rightarrow> eb_transport" where
  "set_sockets s4 s6 t = t\<lparr>tr_raw := int_bytes s4 @ int_bytes s6 @ drop 8 (tr_raw t)\<rparr>"

text \<open>\<^verbatim>\<open>struct eb_posix_udp_link\<close>: where the address is, and its length.\<close>

definition link_sa :: "eb_link \<Rightarrow> u64" where "link_sa l = pointer_at 0 (link_raw l)"
definition link_sa_len :: "eb_link \<Rightarrow> int" where "link_sa_len l = int_at 8 (link_raw l)"
definition set_link_sa :: "u64 \<Rightarrow> int \<Rightarrow> eb_link \<Rightarrow> eb_link" where
  "set_link_sa p len l = l\<lparr>link_raw := rev (be_bytes 8 p) @ int_bytes len @ drop 12 (link_raw l)\<rparr>"

text \<open>\<^verbatim>\<open>struct eb_posix_tcp_link\<close>\<close>

definition link_socket :: "eb_link \<Rightarrow> int" where "link_socket l = int_at 0 (link_raw l)"
definition set_link_socket :: "int \<Rightarrow> eb_link \<Rightarrow> eb_link" where
  "set_link_socket s l = l\<lparr>link_raw := int_bytes s @ drop 4 (link_raw l)\<rparr>"

section \<open>UDP\<close>

definition eb_posix_udp_open :: "'w posix \<Rightarrow> eb_transport \<Rightarrow> string option \<Rightarrow> 'w net \<Rightarrow> eb_status_t \<times> eb_transport \<times> 'w net" where
  "eb_posix_udp_open os transport port n =
     (let (sock4, n) = eb_posix_ip_open os PF_INET SOCK_DGRAM port n;
          (sock6, n) = eb_posix_ip_open os PF_INET6 SOCK_DGRAM port n
      in if sock4 = -1 \<and> sock6 = -1 then (EB_BUSY, transport, n) else (EB_OK, set_sockets sock4 sock6 transport, n))"

definition eb_posix_udp_close :: "'w posix \<Rightarrow> eb_transport \<Rightarrow> 'w net \<Rightarrow> 'w net" where
  "eb_posix_udp_close os transport n = eb_posix_ip_close os (socket6 transport) (eb_posix_ip_close os (socket4 transport) n)"

text \<open>Resolving with a list of prefixes and families, in turn until one gives an address.\<close>

fun resolve_first ::
    "'w posix \<Rightarrow> (string \<times> int) list \<Rightarrow> string \<Rightarrow> int \<Rightarrow> sockaddr \<Rightarrow> 'w net \<Rightarrow> int \<times> sockaddr \<times> 'w net" where
  "resolve_first os [] address ty sa n = (-1, sa, n)"
| "resolve_first os ((prefix, family) # ps) address ty sa n =
     (let (len, sa, n) = eb_posix_ip_resolve os prefix address family ty sa n
      in if len = -1 then resolve_first os ps address ty sa n else (len, sa, n))"

definition no_address :: sockaddr where "no_address = \<lparr>ss_family = 0, ss_data = []\<rparr>"

definition eb_posix_udp_connect ::
    "'w posix \<Rightarrow> eb_transport \<Rightarrow> eb_link \<Rightarrow> string \<Rightarrow> bool \<Rightarrow> 'w net \<Rightarrow> eb_status_t \<times> eb_link \<times> 'w net" where
  "eb_posix_udp_connect os transport link address passive n =
     (let (len, sa, n) = resolve_first os [(''udp4/'', PF_INET), (''udp6/'', PF_INET6), (''udp/'', PF_INET6), (''udp/'', PF_INET)]
            address SOCK_DGRAM no_address n
      in if len = -1 then (EB_ADDRESS, link, n)
         else if ss_family sa = PF_INET \<and> socket4 transport = -1 then (EB_FAIL, link, n)
         else if ss_family sa = PF_INET6 \<and> socket6 transport = -1 then (EB_FAIL, link, n)
         else let (p, n) = sys (px_malloc os) n
              in (EB_OK, set_link_sa p len link, n\<lparr>net_sa := (net_sa n)(p := sa)\<rparr>))"

definition eb_posix_udp_disconnect :: "'w posix \<Rightarrow> eb_transport \<Rightarrow> eb_link \<Rightarrow> 'w net \<Rightarrow> 'w net" where
  "eb_posix_udp_disconnect os transport link n = sys_do (px_free os (link_sa link)) n"

definition eb_posix_udp_fdes :: "'w posix \<Rightarrow> eb_transport \<Rightarrow> eb_link option \<Rightarrow> 'w net \<Rightarrow> 'w net" where
  "eb_posix_udp_fdes os transport link n =
     (case link of
        Some _ \<Rightarrow> n
      | None \<Rightarrow>
          let n = (if socket4 transport \<noteq> -1 then sys_do (px_fdes os (socket4 transport) DESCRIPTOR_IN) n else n)
          in if socket6 transport \<noteq> -1 then sys_do (px_fdes os (socket6 transport) DESCRIPTOR_IN) n else n)"

definition eb_posix_udp_accept :: "eb_transport \<Rightarrow> eb_link \<Rightarrow> 'w net \<Rightarrow> int \<times> eb_link \<times> 'w net" where
  "eb_posix_udp_accept transport link n = (0, link, n)"

text \<open>One of the two sockets: \<open>Some\<close> result ends the poll, \<open>None\<close> goes on to the next socket. A failing
  \<^verbatim>\<open>recvfrom\<close> leaves the address alone; its length is then the size of the structure.\<close>

definition udp_poll_socket :: "'w posix \<Rightarrow> int \<Rightarrow> nat \<Rightarrow> 'w net \<Rightarrow> (int \<times> u8 list) option \<times> 'w net" where
  "udp_poll_socket os sock len n =
     (if sock = -1 then (None, n)
      else let (ready, n) = sys (px_ready os sock DESCRIPTOR_IN) n
           in if \<not> ready then (None, n)
              else let (result, bytes, sa, sa_len, w) = px_recvfrom os sock len MSG_DONTWAIT (net_os n);
                       n = n\<lparr>net_os := w, eb_posix_udp_sa_len := 128\<rparr>
                   in if result = -1 then
                        if \<not> eb_posix_ip_ewouldblock os n then (Some (-1, []), n) else (None, n)
                      else (Some (result, bytes), n\<lparr>eb_posix_udp_sa := sa, eb_posix_udp_sa_len := sa_len\<rparr>))"

definition eb_posix_udp_poll :: "'w posix \<Rightarrow> eb_transport \<Rightarrow> eb_link option \<Rightarrow> nat \<Rightarrow> 'w net \<Rightarrow> int \<times> u8 list \<times> 'w net" where
  "eb_posix_udp_poll os transport link len n =
     (if link \<noteq> None then (0, [], n)
      else let n = eb_posix_ip_non_blocking os (socket4 transport) True n;
               n = eb_posix_ip_non_blocking os (socket6 transport) True n
           in case udp_poll_socket os (socket4 transport) len n of
                (Some (result, bytes), n) \<Rightarrow> (result, bytes, n)
              | (None, n) \<Rightarrow>
                  (case udp_poll_socket os (socket6 transport) len n of
                     (Some (result, bytes), n) \<Rightarrow> (result, bytes, n)
                   | (None, n) \<Rightarrow> (0, [], n)))"

definition eb_posix_udp_recv :: "eb_transport \<Rightarrow> eb_link option \<Rightarrow> nat \<Rightarrow> 'w net \<Rightarrow> int \<times> u8 list \<times> 'w net" where
  "eb_posix_udp_recv transport link len n = (-1, [], n)"

definition eb_posix_udp_send :: "'w posix \<Rightarrow> eb_transport \<Rightarrow> eb_link option \<Rightarrow> u8 list \<Rightarrow> 'w net \<Rightarrow> 'w net" where
  "eb_posix_udp_send os transport link buf n =
     (let (sa, sa_len) =
        (case link of
           None \<Rightarrow> (eb_posix_udp_sa n, eb_posix_udp_sa_len n)
         | Some l \<Rightarrow> (net_sa n (link_sa l), link_sa_len l));
          sock = (if ss_family sa = PF_INET6 then socket6 transport else socket4 transport)
      in sys_do (px_sendto os sock buf sa sa_len) (eb_posix_ip_non_blocking os sock False n))"

definition eb_posix_udp_send_buffer :: "eb_transport \<Rightarrow> eb_link option \<Rightarrow> bool \<Rightarrow> 'w net \<Rightarrow> 'w net" where
  "eb_posix_udp_send_buffer transport link on n = n"

section \<open>TCP\<close>

definition eb_posix_tcp_open :: "'w posix \<Rightarrow> eb_transport \<Rightarrow> string option \<Rightarrow> 'w net \<Rightarrow> eb_status_t \<times> eb_transport \<times> 'w net" where
  "eb_posix_tcp_open os transport port n =
     (case port of
        None \<Rightarrow> (EB_OK, set_sockets (-1) (-1) transport, n)
      | Some _ \<Rightarrow>
          let (sock4, n) = eb_posix_ip_open os PF_INET SOCK_STREAM port n;
              (sock6, n) = eb_posix_ip_open os PF_INET6 SOCK_STREAM port n
          in if sock4 = -1 \<and> sock6 = -1 then (EB_BUSY, transport, n)
             else let (bad4, n) = (if sock4 \<noteq> -1 then let (r, n) = sys (px_listen os sock4 5) n in (r \<noteq> 0, n) else (False, n));
                      (bad, n) = (if bad4 then (True, n)
                                  else if sock6 \<noteq> -1 then let (r, n) = sys (px_listen os sock6 5) n in (r \<noteq> 0, n) else (False, n))
                  in if bad then (EB_ADDRESS, transport, eb_posix_ip_close os sock6 (eb_posix_ip_close os sock4 n))
                     else (EB_OK, set_sockets sock4 sock6 transport,
                           eb_posix_ip_force_non_blocking os sock6 True (eb_posix_ip_force_non_blocking os sock4 True n)))"

definition eb_posix_tcp_close :: "'w posix \<Rightarrow> eb_transport \<Rightarrow> 'w net \<Rightarrow> 'w net" where
  "eb_posix_tcp_close os transport n = eb_posix_ip_close os (socket6 transport) (eb_posix_ip_close os (socket4 transport) n)"

definition eb_posix_tcp_connect ::
    "'w posix \<Rightarrow> eb_link \<Rightarrow> string \<Rightarrow> bool \<Rightarrow> 'w net \<Rightarrow> eb_status_t \<times> eb_link \<times> 'w net" where
  "eb_posix_tcp_connect os link address passive n =
     (let (len, sa, n) = resolve_first os [(''tcp6/'', PF_INET6), (''tcp4/'', PF_INET), (''tcp/'', PF_INET6), (''tcp/'', PF_INET)]
            address SOCK_STREAM no_address n
      in if len = -1 then (EB_ADDRESS, link, n)
         else let (sock, n) = sys (px_socket os (ss_family sa) SOCK_STREAM IPPROTO_TCP) n
              in if sock = -1 then (EB_FAIL, link, n)
                 else let (r, n) = sys (px_connect os sock sa len) n
                      in if r \<noteq> 0 then (EB_FAIL, link, eb_posix_ip_close os sock n)
                         else (EB_OK, set_link_socket sock link, eb_posix_ip_set_buffer os sock False n))"

definition eb_posix_tcp_disconnect :: "'w posix \<Rightarrow> eb_link \<Rightarrow> 'w net \<Rightarrow> 'w net" where
  "eb_posix_tcp_disconnect os link n = eb_posix_ip_close os (link_socket link) n"

definition eb_posix_tcp_fdes :: "'w posix \<Rightarrow> eb_transport \<Rightarrow> eb_link option \<Rightarrow> 'w net \<Rightarrow> 'w net" where
  "eb_posix_tcp_fdes os transport link n =
     (case link of
        Some l \<Rightarrow> sys_do (px_fdes os (link_socket l) DESCRIPTOR_IN) n
      | None \<Rightarrow>
          let n = (if socket4 transport \<noteq> -1 then sys_do (px_fdes os (socket4 transport) DESCRIPTOR_IN) n else n)
          in if socket6 transport \<noteq> -1 then sys_do (px_fdes os (socket6 transport) DESCRIPTOR_IN) n else n)"

text \<open>Accepting on one of the two ports: \<open>(failed, sock, _)\<close>.\<close>

definition tcp_accept_port :: "'w posix \<Rightarrow> int \<Rightarrow> int \<Rightarrow> 'w net \<Rightarrow> bool \<times> int \<times> 'w net" where
  "tcp_accept_port os port sock n =
     (if sock = -1 \<and> port \<noteq> -1 then
        let (ready, n) = sys (px_ready os port DESCRIPTOR_IN) n
        in if ready then
             let (sock, n) = sys (px_accept os port) n
             in (sock = -1 \<and> \<not> eb_posix_ip_ewouldblock os n, sock, n)
           else (False, sock, n)
      else (False, sock, n))"

text \<open>The link is always given: \<^verbatim>\<open>eb_socket_check\<close> passes the one it allocated.\<close>

definition eb_posix_tcp_accept :: "'w posix \<Rightarrow> eb_transport \<Rightarrow> eb_link option \<Rightarrow> 'w net \<Rightarrow> int \<times> eb_link option \<times> 'w net" where
  "eb_posix_tcp_accept os transport link n =
     (let (failed, sock, n) = tcp_accept_port os (socket4 transport) (-1) n
      in if failed then (-1, link, n)
         else let (failed, sock, n) = tcp_accept_port os (socket6 transport) sock n
              in if failed then (-1, link, n)
                 else if sock = -1 then (0, link, n)
                 else case link of
                   Some l \<Rightarrow> (1, Some (set_link_socket sock l), eb_posix_ip_set_buffer os sock False n)
                 | None \<Rightarrow> (0, None, eb_posix_ip_close os sock n))"

definition eb_posix_tcp_poll :: "'w posix \<Rightarrow> eb_link option \<Rightarrow> nat \<Rightarrow> 'w net \<Rightarrow> int \<times> u8 list \<times> 'w net" where
  "eb_posix_tcp_poll os link len n =
     (case link of
        None \<Rightarrow> (0, [], n)
      | Some l \<Rightarrow>
          let (ready, n) = sys (px_ready os (link_socket l) DESCRIPTOR_IN) n
          in if \<not> ready then (0, [], n)
             else let n = eb_posix_ip_non_blocking os (link_socket l) True n;
                      ((result, bytes), n) = sys (\<lambda>w. let (r, b, w) = px_recv os (link_socket l) len MSG_DONTWAIT w in ((r, b), w)) n
                  in if result = -1 \<and> eb_posix_ip_ewouldblock os n then (0, [], n)
                     else if result = 0 then (-1, [], n)
                     else (result, bytes, n))"

definition eb_posix_tcp_recv :: "'w posix \<Rightarrow> eb_link option \<Rightarrow> nat \<Rightarrow> 'w net \<Rightarrow> int \<times> u8 list \<times> 'w net" where
  "eb_posix_tcp_recv os link len n =
     (case link of
        None \<Rightarrow> (0, [], n)
      | Some l \<Rightarrow>
          let n = eb_posix_ip_non_blocking os (link_socket l) False n;
              ((result, bytes), n) = sys (\<lambda>w. let (r, b, w) = px_recv os (link_socket l) len 0 w in ((r, b), w)) n
          in if result = 0 then (-1, [], n) else (result, bytes, n))"

definition eb_posix_tcp_send :: "'w posix \<Rightarrow> eb_link \<Rightarrow> u8 list \<Rightarrow> 'w net \<Rightarrow> 'w net" where
  "eb_posix_tcp_send os link buf n = sys_do (px_send os (link_socket link) buf) (eb_posix_ip_non_blocking os (link_socket link) False n)"

definition eb_posix_tcp_send_buffer :: "'w posix \<Rightarrow> eb_link \<Rightarrow> bool \<Rightarrow> 'w net \<Rightarrow> 'w net" where
  "eb_posix_tcp_send_buffer os link on n = eb_posix_ip_set_buffer os (link_socket link) on n"

end
