(* ===== verification/Eb_Tunnel.thy ===== *)
theory Eb_Tunnel
  imports Eb_Posix
begin

text \<open>
  The tunnel transport (\<^verbatim>\<open>api/transport/tunnel.c\<close>), which carries packets over a TCP stream, the table of
  method tables (\<^verbatim>\<open>api/transport/transports.c\<close>), and what the transports promise to the protocol engines.
\<close>

section \<open>The tunnel\<close>

text \<open>The host behind the prefix of a tunnel address, and the prefix from its seventh character on.\<close>

definition tunnel_host :: "string \<Rightarrow> (string \<times> string) option" where
  "tunnel_host address =
     (if eb_strncasecmp address ''tunnel/'' 7 = 0 then Some (take 1 (drop 6 address), drop 7 address)
      else if eb_strncasecmp address ''tunnel6/'' 8 = 0 \<or> eb_strncasecmp address ''tunnel4/'' 8 = 0
      then Some (take 2 (drop 6 address), drop 8 address)
      else None)"

text \<open>The name of the TCP peer and of the service behind it.\<close>

definition tunnel_names :: "string \<Rightarrow> (string \<times> string) option" where
  "tunnel_names address = do {
     (family, host) \<leftarrow> tunnel_host address;
     (name, rest) \<leftarrow> at_slash host;
     (port, service) \<leftarrow> at_slash rest;
     let len = length name + 1 + length port;
     if len + 7 \<ge> 250 then None else Some (''tcp'' @ family @ take len host, service)
   }"

definition string_bytes :: "string \<Rightarrow> u8 list" where
  "string_bytes s = map of_char s @ [0]"

definition eb_tunnel_connect ::
    "'w posix \<Rightarrow> eb_link \<Rightarrow> string \<Rightarrow> bool \<Rightarrow> 'w net \<Rightarrow> eb_status_t \<times> eb_link \<times> 'w net" where
  "eb_tunnel_connect os link address passive n =
     (case tunnel_names address of
        None \<Rightarrow> (EB_ADDRESS, link, n)
      | Some (tcpname, service) \<Rightarrow>
          let (err, link, n) = eb_posix_tcp_connect os link tcpname passive n
          in if err \<noteq> EB_OK then (err, link, n)
             else (EB_OK, link, eb_posix_tcp_send os link (string_bytes service) n))"

definition eb_tunnel_disconnect :: "'w posix \<Rightarrow> eb_link \<Rightarrow> 'w net \<Rightarrow> 'w net" where
  "eb_tunnel_disconnect os link n = eb_posix_tcp_disconnect os link n"

definition eb_tunnel_fdes :: "'w posix \<Rightarrow> eb_transport \<Rightarrow> eb_link option \<Rightarrow> 'w net \<Rightarrow> 'w net" where
  "eb_tunnel_fdes os transport link n = (if link = None then n else eb_posix_tcp_fdes os transport link n)"

text \<open>The packet behind its length; on a short read what arrived of it is left in the caller's buffer.\<close>

definition tunnel_packet :: "'w posix \<Rightarrow> eb_link option \<Rightarrow> nat \<Rightarrow> u8 list \<Rightarrow> 'w net \<Rightarrow> int \<times> u8 list \<times> 'w net" where
  "tunnel_packet os link maxlen len_buf n =
     (let len = unat (len_buf ! 0) * 256 + unat (len_buf ! 1)
      in if len > maxlen then (-1, [], n)
         else let (r, b, n) = eb_posix_tcp_recv os link len n
              in if r \<noteq> int len then (-1, b, n) else (int len, b, n))"

definition eb_tunnel_poll :: "'w posix \<Rightarrow> eb_link option \<Rightarrow> nat \<Rightarrow> 'w net \<Rightarrow> int \<times> u8 list \<times> 'w net" where
  "eb_tunnel_poll os link maxlen n =
     (if link = None then (0, [], n)
      else let (len, len_buf, n) = eb_posix_tcp_poll os link 2 n
           in if len \<le> 0 then (len, [], n)
              else if len = 1 then
                let (r, b, n) = eb_posix_tcp_recv os link 1 n
                in if r \<noteq> 1 then (-1, [], n) else tunnel_packet os link maxlen (len_buf @ b) n
              else tunnel_packet os link maxlen len_buf n)"

definition eb_tunnel_recv :: "eb_transport \<Rightarrow> eb_link option \<Rightarrow> nat \<Rightarrow> 'w net \<Rightarrow> int \<times> u8 list \<times> 'w net" where
  "eb_tunnel_recv transport link len n = (-1, [], n)"

definition eb_tunnel_send :: "'w posix \<Rightarrow> eb_link \<Rightarrow> u8 list \<Rightarrow> 'w net \<Rightarrow> 'w net" where
  "eb_tunnel_send os link buf n =
     (let len = (of_nat (length buf) :: u32);
          len_buf = [ucast (drop_bit 8 len), ucast len];
          n = eb_posix_tcp_send_buffer os link True n;
          n = eb_posix_tcp_send os link len_buf n;
          n = eb_posix_tcp_send os link buf n
      in eb_posix_tcp_send_buffer os link False n)"

section \<open>The method tables\<close>

text \<open>A null link where the code dereferences it without a check (sending on a stream) does not occur: the
  library only sends on the link of a device there.\<close>

definition on_link :: "(eb_link \<Rightarrow> 'w \<Rightarrow> 'w) \<Rightarrow> eb_link option \<Rightarrow> 'w \<Rightarrow> 'w" where
  "on_link f link w = (case link of Some l \<Rightarrow> f l w | None \<Rightarrow> w)"

definition eb_posix_udp :: "'w posix \<Rightarrow> 'w net eb_transport_ops" where
  "eb_posix_udp os = \<lparr>tops_mtu = 1472, tops_open = eb_posix_udp_open os, tops_close = eb_posix_udp_close os,
     tops_connect = eb_posix_udp_connect os, tops_disconnect = eb_posix_udp_disconnect os,
     tops_fdes = eb_posix_udp_fdes os, tops_accept = eb_posix_udp_accept, tops_poll = eb_posix_udp_poll os,
     tops_recv = eb_posix_udp_recv, tops_send = eb_posix_udp_send os, tops_send_buffer = eb_posix_udp_send_buffer\<rparr>"

definition eb_posix_tcp :: "'w posix \<Rightarrow> 'w net eb_transport_ops" where
  "eb_posix_tcp os = \<lparr>tops_mtu = 0, tops_open = eb_posix_tcp_open os, tops_close = eb_posix_tcp_close os,
     tops_connect = (\<lambda>t. eb_posix_tcp_connect os), tops_disconnect = (\<lambda>t. eb_posix_tcp_disconnect os),
     tops_fdes = eb_posix_tcp_fdes os,
     tops_accept = (\<lambda>t l n. case eb_posix_tcp_accept os t (Some l) n of (r, l', n) \<Rightarrow> (r, case l' of Some l \<Rightarrow> l | None \<Rightarrow> l, n)),
     tops_poll = (\<lambda>t. eb_posix_tcp_poll os), tops_recv = (\<lambda>t. eb_posix_tcp_recv os),
     tops_send = (\<lambda>t l buf. on_link (\<lambda>l. eb_posix_tcp_send os l buf) l),
     tops_send_buffer = (\<lambda>t l on. on_link (\<lambda>l. eb_posix_tcp_send_buffer os l on) l)\<rparr>"

definition eb_tunnel :: "'w posix \<Rightarrow> 'w net eb_transport_ops" where
  "eb_tunnel os = \<lparr>tops_mtu = 1472, tops_open = (\<lambda>t port n. (EB_OK, t, n)), tops_close = (\<lambda>t n. n),
     tops_connect = (\<lambda>t. eb_tunnel_connect os), tops_disconnect = (\<lambda>t. eb_tunnel_disconnect os),
     tops_fdes = eb_tunnel_fdes os, tops_accept = (\<lambda>t l n. (0, l, n)), tops_poll = (\<lambda>t. eb_tunnel_poll os),
     tops_recv = eb_tunnel_recv, tops_send = (\<lambda>t l buf. on_link (\<lambda>l. eb_tunnel_send os l buf) l),
     tops_send_buffer = (\<lambda>t l on n. n)\<rparr>"

section \<open>The contract with the protocol engines\<close>

text \<open>A length code with its bytes: as many as a positive code says, and no more than were asked for.\<close>

definition code_ok :: "nat \<Rightarrow> int \<times> u8 list \<times> 'n \<Rightarrow> bool" where
  "code_ok k x \<longleftrightarrow> length (fst (snd x)) \<le> k \<and> (0 < fst x \<longrightarrow> int (length (fst (snd x))) = fst x)"

text \<open>What the system promises of a receive.\<close>

definition receives_ok :: "'w posix \<Rightarrow> bool" where
  "receives_ok os \<longleftrightarrow> (\<forall>s k flags w. code_ok k (px_recv os s k flags w)) \<and> (\<forall>s k flags w. code_ok k (px_recvfrom os s k flags w))"

lemma recv_ok:
  assumes "receives_ok os" "px_recv os s k flags w = (r, bytes, w')"
  shows "length bytes \<le> k" "0 < r \<Longrightarrow> int (length bytes) = r"
  using assms unfolding receives_ok_def by (metis code_ok_def fst_conv snd_conv)+

lemma recvfrom_ok:
  assumes "receives_ok os" "px_recvfrom os s k flags w = (r, bytes, w')"
  shows "length bytes \<le> k" "0 < r \<Longrightarrow> int (length bytes) = r"
  using assms unfolding receives_ok_def by (metis code_ok_def fst_conv snd_conv)+

lemma udp_socket_ok:
  assumes "receives_ok os" "udp_poll_socket os sock k n = (Some (r, bytes), n')"
  shows "length bytes \<le> k \<and> (0 < r \<longrightarrow> int (length bytes) = r)"
  using assms(2) recvfrom_ok [OF assms(1), of sock k MSG_DONTWAIT]
  by (fastforce simp: udp_poll_socket_def Let_def split: if_splits prod.splits)

lemma udp_poll_ok: "receives_ok os \<Longrightarrow> code_ok k (eb_posix_udp_poll os t l k n)"
  using udp_socket_ok [of os _ k]
  by (auto simp: eb_posix_udp_poll_def eb_posix_ip_non_blocking_def code_ok_def split: prod.splits option.splits)

lemma tcp_recv_ok: "receives_ok os \<Longrightarrow> code_ok k (eb_posix_tcp_recv os l k n)"
  using recv_ok [of os _ k]
  by (fastforce simp: eb_posix_tcp_recv_def eb_posix_ip_non_blocking_def sys_def code_ok_def split: prod.splits option.splits)

lemma tcp_poll_ok: "receives_ok os \<Longrightarrow> code_ok k (eb_posix_tcp_poll os l k n)"
  using recv_ok [of os _ k]
  by (fastforce simp: eb_posix_tcp_poll_def eb_posix_ip_non_blocking_def sys_def code_ok_def split: prod.splits option.splits)

lemma tunnel_packet_ok:
  assumes "receives_ok os"
  shows "code_ok k (tunnel_packet os l k b n)"
  using tcp_recv_ok [OF assms, of "unat (b ! 0) * 256 + unat (b ! 1)" l n]
  by (auto simp: tunnel_packet_def code_ok_def Let_def split: prod.splits)

lemma code_ok_empty: "r \<le> 0 \<Longrightarrow> code_ok k (r, [], n)"
  by (simp add: code_ok_def)

lemma tunnel_poll_ok: "receives_ok os \<Longrightarrow> code_ok k (eb_tunnel_poll os l k n)"
  by (auto simp: eb_tunnel_poll_def code_ok_empty tunnel_packet_ok split: prod.split)

text \<open>C12: the IP transports keep their contract. Whatever socket call fails, blocks or is cut short, \<^verbatim>\<open>poll\<close> and \<^verbatim>\<open>recv\<close> of the
  UDP, the TCP and the tunnel transport never report more bytes than they stored nor store more than the
  caller's buffer holds, which is what the protocol engines assume of every transport.\<close>

theorem transports_keep_contract:
  assumes "receives_ok os" and "set (env_transports env) \<subseteq> {eb_posix_udp os, eb_posix_tcp os, eb_tunnel os}"
  shows "wire_ok env \<and> poll_ok env"
proof -
  have recv: "code_ok k (tops_recv ops t l k n)" if "ops \<in> {eb_posix_udp os, eb_posix_tcp os, eb_tunnel os}" for ops t l k n
    using that tcp_recv_ok [OF assms(1)]
    by (auto simp: eb_posix_udp_def eb_posix_tcp_def eb_tunnel_def eb_posix_udp_recv_def eb_tunnel_recv_def)
      (simp_all add: code_ok_def)
  have poll: "code_ok k (tops_poll ops t l k n)" if "ops \<in> {eb_posix_udp os, eb_posix_tcp os, eb_tunnel os}" for ops t l k n
    using that udp_poll_ok [OF assms(1)] tcp_poll_ok [OF assms(1)] tunnel_poll_ok [OF assms(1)]
    by (auto simp: eb_posix_udp_def eb_posix_tcp_def eb_tunnel_def)
  have "wire_ok env" unfolding wire_ok_def
  proof (intro ballI allI)
    fix ops t l k and n :: "'a net"
    assume "ops \<in> set (env_transports env)"
    then show "case tops_recv ops t l k n of (len, bytes, _) \<Rightarrow> 0 < len \<longrightarrow> int (length bytes) = len \<and> length bytes \<le> k"
      using recv [of ops k t l n] assms(2) by (auto simp: code_ok_def)
  qed
  moreover have "poll_ok env" unfolding poll_ok_def
  proof (intro ballI allI)
    fix ops t l k and n :: "'a net"
    assume "ops \<in> set (env_transports env)"
    then show "case tops_poll ops t l k n of (len, bytes, _) \<Rightarrow> length bytes \<le> k \<and> (0 < len \<longrightarrow> int (length bytes) = len)"
      using poll [of ops k t l n] assms(2) by (auto simp: code_ok_def)
  qed
  ultimately show ?thesis ..
qed

section \<open>Packets through the tunnel\<close>

text \<open>What TCP promises while the connection is up: \<open>pend\<close> are the bytes that \<open>s\<close> sent and \<open>r\<close> has not read yet, in flight or in
  a buffer. A blocking send hands over all its bytes. A read gives some of the pending bytes, in order and never
  more than it asks for, but possibly fewer, however they were segmented, or none with the code 0, or it fails with
  the code -1 and takes nothing.\<close>

definition tcp_stream :: "'w posix \<Rightarrow> ('w \<Rightarrow> u8 list) \<Rightarrow> int \<Rightarrow> int \<Rightarrow> bool" where
  "tcp_stream os pend s r \<longleftrightarrow>
     (\<forall>bs w. pend (px_send os s bs w) = pend w @ bs) \<and>
     (\<forall>level opt v w. pend (px_setsockopt os s level opt v w) = pend w) \<and>
     (\<forall>w. pend (snd (px_ready os r DESCRIPTOR_IN w)) = pend w) \<and>
     (\<forall>k flags w c bytes w'. px_recv os r k flags w = (c, bytes, w') \<and> 0 < k \<longrightarrow>
        c = int (length bytes) \<and> length bytes \<le> k \<and> pend w = bytes @ pend w' \<or> c = -1 \<and> pend w' = pend w)"

text \<open>The special case that every read finds all it asks for, if as much is pending.\<close>

definition whole_reads :: "'w posix \<Rightarrow> ('w \<Rightarrow> u8 list) \<Rightarrow> int \<Rightarrow> bool" where
  "whole_reads os pend r \<longleftrightarrow>
     (\<forall>w. pend w \<noteq> [] \<longrightarrow> fst (px_ready os r DESCRIPTOR_IN w)) \<and>
     (\<forall>k flags w. pend w \<noteq> [] \<and> 0 < k \<longrightarrow> fst (px_recv os r k flags w) = int (min k (length (pend w))))"

definition frame :: "u8 list \<Rightarrow> u8 list" where
  "frame buf = [of_nat (length buf div 256), of_nat (length buf)] @ buf"

lemma frame_length:
  assumes "length buf < 65536"
  shows "unat (frame buf ! 0) * 256 + unat (frame buf ! 1) = length buf"
proof -
  have "unat (of_nat (length buf div 256) :: u8) = length buf div 256" "unat (of_nat (length buf) :: u8) = length buf mod 256"
    using assms by (simp_all add: unat_of_nat take_bit_eq_mod)
  then show ?thesis by (simp add: frame_def)
qed

lemma send_appends:
  assumes "tcp_stream os pend (link_socket l) r" "length buf < 65536"
  shows "pend (net_os (eb_tunnel_send os l buf n)) = pend (net_os n) @ frame buf"
proof -
  have u: "unat (of_nat (length buf) :: u32) = length buf" using assms(2) by (simp add: unat_of_nat take_bit_nat_eq_self)
  have "unat (drop_bit 8 (of_nat (length buf) :: u32)) = length buf div 256"
    unfolding unsigned_drop_bit_eq u using assms(2) by (simp add: drop_bit_eq_div take_bit_nat_eq_self)
  then have "ucast (drop_bit 8 (of_nat (length buf) :: u32)) = (of_nat (length buf div 256) :: u8)"
      "ucast (of_nat (length buf) :: u32) = (of_nat (length buf) :: u8)"
    by (metis of_nat_unat, metis u of_nat_unat)
  then show ?thesis
    using assms(1)
    by (simp add: eb_tunnel_send_def Let_def eb_posix_tcp_send_def eb_posix_tcp_send_buffer_def eb_posix_ip_set_buffer_def
        eb_posix_ip_non_blocking_def sys_do_def tcp_stream_def frame_def)
qed

text \<open>A read of the tunnel: some of the pending bytes, as many as its code says, or a failure.\<close>

lemma stream_recv:
  assumes st: "tcp_stream os pend s (link_socket l)" and k: "0 < k" and r: "eb_posix_tcp_recv os (Some l) k n = (c, bytes, n')"
  shows "0 < c \<and> c = int (length bytes) \<and> length bytes \<le> k \<and> pend (net_os n) = bytes @ pend (net_os n') \<or> c = -1"
    and "whole_reads os pend (link_socket l) \<Longrightarrow> k \<le> length (pend (net_os n)) \<Longrightarrow> c = int k"
proof -
  obtain c' bytes' w' where r': "px_recv os (link_socket l) k 0 (net_os n) = (c', bytes', w')" by (metis prod_cases3)
  with r have e: "c = (if c' = 0 then -1 else c')" "c' \<noteq> 0 \<Longrightarrow> bytes = bytes'" "n' = n\<lparr>net_os := w'\<rparr>"
    by (auto simp: eb_posix_tcp_recv_def eb_posix_ip_non_blocking_def sys_def split: if_splits)
  have "c' = int (length bytes') \<and> length bytes' \<le> k \<and> pend (net_os n) = bytes' @ pend w' \<or> c' = -1"
    using st r' k unfolding tcp_stream_def by blast
  with e show "0 < c \<and> c = int (length bytes) \<and> length bytes \<le> k \<and> pend (net_os n) = bytes @ pend (net_os n') \<or> c = -1"
    by auto
  assume "whole_reads os pend (link_socket l)" "k \<le> length (pend (net_os n))"
  moreover have "pend (net_os n) \<noteq> []" using k \<open>k \<le> length (pend (net_os n))\<close> by auto
  ultimately have "fst (px_recv os (link_socket l) k 0 (net_os n)) = int k" using k unfolding whole_reads_def by simp
  then show "c = int k" using e(1) r' k by simp
qed

lemma stream_poll:
  assumes st: "tcp_stream os pend s (link_socket l)" and k: "0 < k" and r: "eb_posix_tcp_poll os (Some l) k n = (c, bytes, n')"
  shows "0 < c \<and> c = int (length bytes) \<and> length bytes \<le> k \<and> pend (net_os n) = bytes @ pend (net_os n') \<or>
      c = 0 \<and> pend (net_os n') = pend (net_os n) \<or> c = -1"
    and "whole_reads os pend (link_socket l) \<Longrightarrow> k \<le> length (pend (net_os n)) \<Longrightarrow> c = int k"
proof -
  obtain b w where rd: "px_ready os (link_socket l) DESCRIPTOR_IN (net_os n) = (b, w)" by (cases "px_ready os (link_socket l) DESCRIPTOR_IN (net_os n)")
  have pw: "pend w = pend (net_os n)" using st rd unfolding tcp_stream_def by (metis snd_conv)
  obtain c' bytes' w' where r': "px_recv os (link_socket l) k MSG_DONTWAIT w = (c', bytes', w')" by (metis prod_cases3)
  have s: "c' = int (length bytes') \<and> length bytes' \<le> k \<and> pend w = bytes' @ pend w' \<or> c' = -1 \<and> pend w' = pend w"
    using st r' k unfolding tcp_stream_def by blast
  show "0 < c \<and> c = int (length bytes) \<and> length bytes \<le> k \<and> pend (net_os n) = bytes @ pend (net_os n') \<or>
      c = 0 \<and> pend (net_os n') = pend (net_os n) \<or> c = -1"
    using r rd r' s pw by (auto simp: eb_posix_tcp_poll_def eb_posix_ip_non_blocking_def sys_def split: if_splits)
  assume wh: "whole_reads os pend (link_socket l)" "k \<le> length (pend (net_os n))"
  then have "pend w \<noteq> []" "pend (net_os n) \<noteq> []" using k pw by auto
  then have "b" "c' = int (min k (length (pend w)))"
    using wh(1) k rd r' unfolding whole_reads_def by (metis fst_conv)+
  then show "c = int k" using r rd r' wh(2) pw k
    by (auto simp: eb_posix_tcp_poll_def eb_posix_ip_non_blocking_def sys_def split: if_splits)
qed

text \<open>One poll takes the next packet, or nothing, or fails.\<close>

lemma packet_next:
  assumes st: "tcp_stream os pend s (link_socket l)" and p: "pend (net_os n) = b @ rest"
    and b: "b \<noteq> []" "length b \<le> maxlen" "length b < 65536"
  shows "case tunnel_packet os (Some l) maxlen (take 2 (frame b)) n of (c, buf, n') \<Rightarrow>
      (c = int (length b) \<and> buf = b \<and> pend (net_os n') = rest \<or> c = -1) \<and>
      (whole_reads os pend (link_socket l) \<longrightarrow> c \<noteq> -1)"
proof -
  obtain c bytes n' where r: "eb_posix_tcp_recv os (Some l) (length b) n = (c, bytes, n')" by (metis prod_cases3)
  have len: "unat (take 2 (frame b) ! 0) * 256 + unat (take 2 (frame b) ! 1) = length b" using frame_length [OF b(3)] by simp
  have e: "tunnel_packet os (Some l) maxlen (take 2 (frame b)) n = (if c \<noteq> int (length b) then (-1, bytes, n') else (int (length b), bytes, n'))"
    unfolding tunnel_packet_def Let_def len r using b(2) by simp
  have "0 < length b" using b(1) by simp
  from stream_recv [OF st this r] show ?thesis
    unfolding e using p by auto
qed

lemma poll_next:
  assumes st: "tcp_stream os pend s (link_socket l)" and p: "pend (net_os n) = concat (map frame bufs)"
    and ok: "\<forall>b \<in> set bufs. b \<noteq> [] \<and> length b \<le> maxlen \<and> length b < 65536"
    and r: "eb_tunnel_poll os (Some l) maxlen n = (c, buf, n')"
  shows "c = -1 \<or> c = 0 \<and> pend (net_os n') = pend (net_os n) \<or>
      (\<exists>bs. bufs = buf # bs \<and> c = int (length buf) \<and> pend (net_os n') = concat (map frame bs))"
    and "whole_reads os pend (link_socket l) \<Longrightarrow> bufs \<noteq> [] \<Longrightarrow> 0 < c"
proof -
  obtain c1 h n1 where h: "eb_posix_tcp_poll os (Some l) 2 n = (c1, h, n1)" by (metis prod_cases3)
  note f = stream_poll [OF st _ h]
  have goal: "(c = -1 \<or> c = 0 \<and> pend (net_os n') = pend (net_os n) \<or>
      (\<exists>bs. bufs = buf # bs \<and> c = int (length buf) \<and> pend (net_os n') = concat (map frame bs))) \<and>
      (whole_reads os pend (link_socket l) \<longrightarrow> bufs \<noteq> [] \<longrightarrow> 0 < c)"
  proof (cases bufs)
    case Nil
    then have "c1 \<le> 0" using f(1) p by auto
    then show ?thesis using r h f(1) Nil by (auto simp: eb_tunnel_poll_def)
  next
    case (Cons b bs)
    let ?rest = "concat (map frame bs)"
    have b: "b \<noteq> []" "length b \<le> maxlen" "length b < 65536" using ok Cons by auto
    obtain hi lo where fb: "frame b = [hi, lo] @ b" by (simp add: frame_def)
    have pn: "pend (net_os n) = [hi, lo] @ b @ ?rest" using p Cons fb by simp
    have t2: "take 2 (frame b) = [hi, lo]" by (simp add: fb)
    note pk = packet_next [OF st _ b, unfolded t2]
    have wh: "c1 = 2" if "whole_reads os pend (link_socket l)" using f(2) that pn by simp
    consider "c1 \<le> 0" | "c1 = 1" "h = [hi]" "pend (net_os n1) = lo # b @ ?rest" | "c1 = 2" "h = [hi, lo]" "pend (net_os n1) = b @ ?rest"
      using f(1) pn by (cases h; cases "tl h") (auto simp: Cons_eq_append_conv)
    then show ?thesis
    proof cases
      case 1
      then show ?thesis using r h f(1) wh by (auto simp: eb_tunnel_poll_def)
    next
      case 2
      obtain c2 h2 n2 where h2: "eb_posix_tcp_recv os (Some l) 1 n1 = (c2, h2, n2)" by (metis prod_cases3)
      have c2: "c2 = -1 \<or> c2 = 1 \<and> h2 = [lo] \<and> pend (net_os n2) = b @ ?rest"
        using stream_recv(1) [OF st _ h2] 2(3) by (cases h2) auto
      show ?thesis
      proof (cases "c2 = -1")
        case True
        then show ?thesis using r h h2 2 wh by (auto simp: eb_tunnel_poll_def)
      next
        case False
        with c2 r h h2 2(1,2) have "tunnel_packet os (Some l) maxlen [hi, lo] n2 = (c, buf, n')" by (simp add: eb_tunnel_poll_def)
        with pk [of n2 ?rest] c2 False Cons b(1) wh 2(1) show ?thesis by auto
      qed
    next
      case 3
      with r h have "tunnel_packet os (Some l) maxlen [hi, lo] n1 = (c, buf, n')" by (simp add: eb_tunnel_poll_def)
      with pk [OF 3(3)] Cons b(1) show ?thesis by auto
    qed
  qed
  then show "c = -1 \<or> c = 0 \<and> pend (net_os n') = pend (net_os n) \<or>
      (\<exists>bs. bufs = buf # bs \<and> c = int (length buf) \<and> pend (net_os n') = concat (map frame bs))" by blast
  show "whole_reads os pend (link_socket l) \<Longrightarrow> bufs \<noteq> [] \<Longrightarrow> 0 < c" using goal by blast
qed

text \<open>Sending several packets, and polling several times; a failed poll is the last one, since the protocol engine then drops
  the link.\<close>

fun tunnel_sends :: "'w posix \<Rightarrow> eb_link \<Rightarrow> u8 list list \<Rightarrow> 'w net \<Rightarrow> 'w net" where
  "tunnel_sends os l [] n = n"
| "tunnel_sends os l (buf # bufs) n = tunnel_sends os l bufs (eb_tunnel_send os l buf n)"

fun tunnel_polls :: "'w posix \<Rightarrow> eb_link \<Rightarrow> nat \<Rightarrow> nat \<Rightarrow> 'w net \<Rightarrow> (int \<times> u8 list) list \<times> 'w net" where
  "tunnel_polls os l maxlen 0 n = ([], n)"
| "tunnel_polls os l maxlen (Suc k) n =
     (let (len, buf, n) = eb_tunnel_poll os (Some l) maxlen n
      in if len < 0 then ([(len, buf)], n)
         else let (rs, n) = tunnel_polls os l maxlen k n in ((len, buf) # rs, n))"

definition received :: "(int \<times> u8 list) list \<Rightarrow> u8 list list" where
  "received rs = map snd (filter (\<lambda>(len, buf). 0 < len) rs)"

lemma sends_append:
  assumes "tcp_stream os pend (link_socket l) r" "\<forall>buf \<in> set bufs. length buf < 65536"
  shows "pend (net_os (tunnel_sends os l bufs n)) = pend (net_os n) @ concat (map frame bufs)"
  using assms(2) by (induction bufs arbitrary: n) (simp_all add: send_appends [OF assms(1)])

lemma polls_take:
  assumes st: "tcp_stream os pend s (link_socket l)" and ok: "\<forall>b \<in> set bufs. b \<noteq> [] \<and> length b \<le> maxlen \<and> length b < 65536"
    and p: "pend (net_os n) = concat (map frame bufs)" and r: "tunnel_polls os l maxlen k n = (rs, n')"
  shows "\<exists>rest. bufs = received rs @ rest \<and> (\<forall>(len, b) \<in> set rs. 0 < len \<longrightarrow> len = int (length b)) \<and>
      ((\<forall>(len, b) \<in> set rs. 0 \<le> len) \<longrightarrow> pend (net_os n') = concat (map frame rest)) \<and>
      (whole_reads os pend (link_socket l) \<longrightarrow> k \<le> length bufs \<longrightarrow> rs = map (\<lambda>b. (int (length b), b)) (take k bufs))"
  using ok p r
proof (induction k arbitrary: bufs n rs)
  case 0
  then show ?case by (auto simp: received_def)
next
  case (Suc k)
  obtain c buf n1 where c: "eb_tunnel_poll os (Some l) maxlen n = (c, buf, n1)" by (metis prod_cases3)
  note nx = poll_next [OF st Suc.prems(2,1) c]
  show ?case
  proof (cases "c < 0")
    case True
    then have "rs = [(c, buf)]" "n' = n1" using Suc.prems(3) c by simp_all
    then show ?thesis using True nx(2) by (cases bufs) (auto simp: received_def)
  next
    case False
    obtain rs1 where rs1: "tunnel_polls os l maxlen k n1 = (rs1, n')" "rs = (c, buf) # rs1"
      using Suc.prems(3) c False by (cases "tunnel_polls os l maxlen k n1") simp
    consider "c = 0" "pend (net_os n1) = concat (map frame bufs)"
      | bs where "bufs = buf # bs" "c = int (length buf)" "pend (net_os n1) = concat (map frame bs)"
      using nx(1) False Suc.prems(2) by auto
    then show ?thesis
    proof cases
      case 1
      have z: "\<not> (whole_reads os pend (link_socket l) \<and> bufs \<noteq> [])" using nx(2) 1(1) by auto
      from Suc.IH [OF Suc.prems(1) 1(2) rs1(1)] show ?thesis using rs1(2) 1(1) z by (auto simp: received_def)
    next
      case (2 bs)
      have "buf \<noteq> []" using Suc.prems(1) 2(1) by simp
      with Suc.IH [of bs n1 rs1] Suc.prems(1) 2 rs1 show ?thesis by (auto simp: received_def)
    qed
  qed
qed

text \<open>C15: the tunnel keeps packet boundaries on a stream that has none. Packets are sent on one end, none of them empty and
  none longer than 65535 bytes or the receiver's buffer, and the other end polls any number of times, however TCP cuts
  the bytes into segments. Every poll gives the next packet whole, or nothing, or fails, and after a failure the link
  is dropped: the packets received are the first of those sent, each as it was sent, and as long as no poll
  failed exactly the others are still to come. A poll fails only if a read of the length or of the body gives fewer bytes than asked
  for: if every read is whole, as many polls as packets give all of them.\<close>

theorem tunnel_keeps_packets:
  assumes "tcp_stream os pend (link_socket l) (link_socket l')" and "pend (net_os n) = []"
    and "\<forall>buf \<in> set bufs. buf \<noteq> [] \<and> length buf \<le> maxlen \<and> length buf < 65536"
    and "tunnel_polls os l' maxlen k (tunnel_sends os l bufs n) = (rs, n')"
  shows "\<exists>rest. bufs = received rs @ rest \<and> (\<forall>(len, b) \<in> set rs. 0 < len \<longrightarrow> len = int (length b)) \<and>
      ((\<forall>(len, b) \<in> set rs. 0 \<le> len) \<longrightarrow> pend (net_os n') = concat (map frame rest)) \<and>
      (whole_reads os pend (link_socket l') \<longrightarrow> k \<le> length bufs \<longrightarrow> rs = map (\<lambda>b. (int (length b), b)) (take k bufs))"
proof (rule polls_take [OF assms(1,3) _ assms(4)])
  show "pend (net_os (tunnel_sends os l bufs n)) = concat (map frame bufs)"
    using sends_append [OF assms(1), of bufs n] assms(2,3) by simp
qed

section \<open>A reply to a datagram\<close>

text \<open>What the system promises of \<^verbatim>\<open>recvfrom\<close>: the sender's address is of the family of the socket.\<close>

definition families_ok :: "'w posix \<Rightarrow> int \<Rightarrow> int \<Rightarrow> bool" where
  "families_ok os s4 s6 \<longleftrightarrow>
     (\<forall>k flags w r bytes sa sa_len w'. px_recvfrom os s4 k flags w = (r, bytes, sa, sa_len, w') \<and> r \<noteq> -1 \<longrightarrow> ss_family sa = PF_INET) \<and>
     (\<forall>k flags w r bytes sa sa_len w'. px_recvfrom os s6 k flags w = (r, bytes, sa, sa_len, w') \<and> r \<noteq> -1 \<longrightarrow> ss_family sa = PF_INET6)"

lemma udp_socket_received:
  assumes "udp_poll_socket os sock k n = (Some (r, bytes), n')" "0 < r"
  obtains w w' where "px_recvfrom os sock k MSG_DONTWAIT w = (r, bytes, eb_posix_udp_sa n', eb_posix_udp_sa_len n', w')"
  using assms by (auto simp: udp_poll_socket_def Let_def split: if_splits prod.splits)

lemma udp_poll_received:
  assumes "eb_posix_udp_poll os t None k n = (r, bytes, n')" "0 < r"
  obtains sock w w' where "sock \<in> {socket4 t, socket6 t}"
    "px_recvfrom os sock k MSG_DONTWAIT w = (r, bytes, eb_posix_udp_sa n', eb_posix_udp_sa_len n', w')"
  using assms
  by (auto simp: eb_posix_udp_poll_def eb_posix_ip_non_blocking_def elim!: udp_socket_received split: option.splits prod.splits)

text \<open>C20: a datagram is answered to its sender. After a datagram was polled, whatever is sent without a link goes out of the
  socket it came in on, to the address it came from, until the next datagram is polled.\<close>

theorem udp_reply_to_sender:
  assumes "families_ok os (socket4 t) (socket6 t)" and "eb_posix_udp_poll os t None k n = (r, bytes, n')" and "0 < r"
    and "eb_posix_udp_sa n'' = eb_posix_udp_sa n'" and "eb_posix_udp_sa_len n'' = eb_posix_udp_sa_len n'"
  shows "\<exists>sock \<in> {socket4 t, socket6 t}. \<exists>sa sa_len w w'. px_recvfrom os sock k MSG_DONTWAIT w = (r, bytes, sa, sa_len, w') \<and>
    eb_posix_udp_send os t None reply n'' = n''\<lparr>net_os := px_sendto os sock reply sa sa_len (net_os n'')\<rparr>"
proof -
  obtain sock w w' where s: "sock \<in> {socket4 t, socket6 t}"
      "px_recvfrom os sock k MSG_DONTWAIT w = (r, bytes, eb_posix_udp_sa n', eb_posix_udp_sa_len n', w')"
    using udp_poll_received [OF assms(2,3)] .
  have neq: "r \<noteq> -1" using assms(3) by simp
  have "sock = (if ss_family (eb_posix_udp_sa n') = PF_INET6 then socket6 t else socket4 t)"
  proof (cases "sock = socket4 t")
    case True
    then have "ss_family (eb_posix_udp_sa n') = PF_INET"
      using s(2) assms(1,3) neq unfolding families_ok_def by blast
    then show ?thesis using True by simp
  next
    case False
    then have six: "sock = socket6 t" using s(1) by simp
    then have "ss_family (eb_posix_udp_sa n') = PF_INET6"
      using s(2) assms(1,3) neq unfolding families_ok_def by blast
    then show ?thesis using six by simp
  qed
  then have "eb_posix_udp_send os t None reply n'' =
      n''\<lparr>net_os := px_sendto os sock reply (eb_posix_udp_sa n') (eb_posix_udp_sa_len n') (net_os n'')\<rparr>"
    by (simp add: eb_posix_udp_send_def assms(4,5) eb_posix_ip_non_blocking_def sys_do_def)
  then show ?thesis using s by blast
qed

section \<open>Tunnel addresses\<close>

lemma at_slash_Some:
  assumes "CHR ''/'' \<notin> set a"
  shows "at_slash (a @ CHR ''/'' # b) = Some (a, b)"
  using assms by (induction a) (auto simp: at_slash_def)

lemma eb_strncasecmp_prefix: "eb_strncasecmp (p @ s) p (length p) = 0"
  by (induction p) simp_all

lemma tunnel_host_short: "tunnel_host address = Some (family, host) \<Longrightarrow> length family \<le> 2"
  unfolding tunnel_host_def by (simp split: if_splits) auto

text \<open>The address of a peer as the TCP transport resolves it.\<close>

lemma host_port_slash:
  assumes "CHR ''/'' \<notin> set host" "port \<noteq> []"
  shows "host_port (host @ CHR ''/'' # port) = (host, port)"
  by (simp add: host_port_def at_slash_Some [OF assms(1)] assms(2))

text \<open>C21: a tunnel address is taken apart correctly. For \<^verbatim>\<open>tunnel/host/port/service\<close> the peer is resolved as exactly that host
  and port, the local buffer of 250 characters for its name is never overrun, and the rest is the service; an
  address whose host and port are too long for the buffer is refused.\<close>

theorem tunnel_address:
  assumes "CHR ''/'' \<notin> set host" and "CHR ''/'' \<notin> set port" and "port \<noteq> []"
  shows "tunnel_names (''tunnel/'' @ host @ ''/'' @ port @ ''/'' @ service) =
    (if length host + length port < 242 then Some (''tcp/'' @ host @ ''/'' @ port, service) else None) \<and>
    host_port (drop (length ''tcp/'') (''tcp/'' @ host @ ''/'' @ port)) = (host, port) \<and>
    (\<forall>address tcpname serv. tunnel_names address = Some (tcpname, serv) \<longrightarrow> length tcpname + 1 \<le> 250)"
proof (intro conjI allI impI)
  let ?host = "host @ ''/'' @ port @ ''/'' @ service"
  have "length ''tunnel/'' = 7" by simp
  then have same: "eb_strncasecmp (''tunnel/'' @ ?host) ''tunnel/'' 7 = 0" using eb_strncasecmp_prefix [of "''tunnel/''" ?host] by metis
  have "tunnel_host (''tunnel/'' @ ?host) = Some (''/'', ?host)"
    unfolding tunnel_host_def if_P [OF same] by simp
  then show "tunnel_names (''tunnel/'' @ ?host) = (if length host + length port < 242 then Some (''tcp/'' @ host @ ''/'' @ port, service) else None)"
    by (simp add: tunnel_names_def at_slash_Some [OF assms(1)] at_slash_Some [OF assms(2)])
  show "host_port (drop (length ''tcp/'') (''tcp/'' @ host @ ''/'' @ port)) = (host, port)"
    using host_port_slash [OF assms(1,3)] by simp
next
  fix address tcpname serv
  assume "tunnel_names address = Some (tcpname, serv)"
  then show "length tcpname + 1 \<le> 250"
    using tunnel_host_short by (fastforce simp: tunnel_names_def bind_eq_Some_conv Let_def split: if_splits)
qed

section \<open>A concrete system\<close>

text \<open>A system whose state is the list of bytes on a wire from socket 3 to socket 4.\<close>

definition demo_address :: sockaddr where
  "demo_address = \<lparr>ss_family = PF_INET, ss_data = [127, 0, 0, 1]\<rparr>"

definition demo_posix :: "u8 list posix" where
  "demo_posix = \<lparr>px_getaddrinfo = (\<lambda>_ _ _ _ _ _ w. ([], w)), px_socket = (\<lambda>_ _ _ w. (-1, w)), px_setsockopt = (\<lambda>_ _ _ _ w. w),
     px_bind = (\<lambda>_ _ _ w. (0, w)), px_listen = (\<lambda>_ _ w. (0, w)), px_accept = (\<lambda>_ w. (-1, w)), px_connect = (\<lambda>_ _ _ w. (0, w)),
     px_close = (\<lambda>_ w. w), px_ioctl_nbio = (\<lambda>_ _ w. w),
     px_recv = (\<lambda>_ k _ w. (int (min k (length w)), take k w, drop k w)), px_send = (\<lambda>_ bs w. w @ bs),
     px_recvfrom = (\<lambda>s k _ w. if s = 4 then (int (min k (length w)), take k w, demo_address, 16, []) else (-1, [], demo_address, 16, w)),
     px_sendto = (\<lambda>_ bs _ _ w. w @ bs), px_errno = (\<lambda>_. 11), px_malloc = (\<lambda>w. (8, w)), px_free = (\<lambda>_ w. w),
     px_ready = (\<lambda>_ _ w. (True, w)), px_fdes = (\<lambda>_ _ w. w)\<rparr>"

definition demo_net :: "u8 list \<Rightarrow> u8 list net" where
  "demo_net w = \<lparr>eb_posix_udp_sa = no_address, eb_posix_udp_sa_len = 0, net_sa = (\<lambda>_. no_address), net_os = w\<rparr>"

definition demo_net_env :: "u8 list net eb_env" where
  "demo_net_env = \<lparr>env_transports = [eb_posix_udp demo_posix, eb_posix_tcp demo_posix, eb_tunnel demo_posix],
     env_junk = (\<lambda>_. 0), env_version = 1, env_date = 1, env_device = (\<lambda>_. demo_sdb_device), env_callback = (\<lambda>_ _ _ _ _ st. Some st),
     env_sdb_callback = (\<lambda>_ _ _ _ _ st. Some st), env_read = (\<lambda>_ _ _ _ st. Some (0, 0, st)),
     env_write = (\<lambda>_ _ _ _ _ st. Some (0, st))\<rparr>"

lemma demo_receives: "receives_ok demo_posix"
  by (auto simp: receives_ok_def code_ok_def demo_posix_def)

theorem transports_keep_contract_witness: "wire_ok demo_net_env \<and> poll_ok demo_net_env"
  by (rule transports_keep_contract [OF demo_receives]) (simp add: demo_net_env_def)

lemma demo_sockets:
  "link_socket (set_link_socket 3 zero_link) = 3" "link_socket (set_link_socket 4 zero_link) = 4"
  "socket4 (set_sockets 4 (-1) zero_transport) = 4" "socket6 (set_sockets 4 (-1) zero_transport) = -1"
  by code_simp+

theorem tunnel_keeps_packets_witness:
  "fst (tunnel_polls demo_posix (set_link_socket 4 zero_link) 1472 2
     (tunnel_sends demo_posix (set_link_socket 3 zero_link) [[1, 2, 3], [4]] (demo_net []))) = [(3, [1, 2, 3]), (1, [4])]"
proof -
  have w: "tcp_stream demo_posix (\<lambda>w. w) (link_socket (set_link_socket 3 zero_link)) (link_socket (set_link_socket 4 zero_link))"
      "whole_reads demo_posix (\<lambda>w. w) (link_socket (set_link_socket 4 zero_link))"
    by (auto simp: tcp_stream_def whole_reads_def demo_posix_def)
  obtain rs n' where r: "tunnel_polls demo_posix (set_link_socket 4 zero_link) 1472 2
      (tunnel_sends demo_posix (set_link_socket 3 zero_link) [[1, 2, 3], [4]] (demo_net [])) = (rs, n')" by fastforce
  from tunnel_keeps_packets [OF w(1) _ _ r] w(2) have "rs = map (\<lambda>b. (int (length b), b)) (take 2 [[1, 2, 3], [4]])"
    by (auto simp: demo_net_def)
  then show ?thesis using r by simp
qed

theorem udp_reply_to_sender_witness:
  "\<exists>n'. eb_posix_udp_poll demo_posix (set_sockets 4 (-1) zero_transport) None 1472 (demo_net [1, 2, 3]) = (3, [1, 2, 3], n') \<and>
     eb_posix_udp_send demo_posix (set_sockets 4 (-1) zero_transport) None [9] n' =
       n'\<lparr>net_os := px_sendto demo_posix 4 [9] demo_address 16 (net_os n')\<rparr>"
proof -
  let ?t = "set_sockets 4 (-1) zero_transport"
  have f: "families_ok demo_posix (socket4 ?t) (socket6 ?t)"
    by (simp add: families_ok_def demo_sockets demo_posix_def demo_address_def)
  obtain n' where n': "eb_posix_udp_poll demo_posix ?t None 1472 (demo_net [1, 2, 3]) = (3, [1, 2, 3], n')"
    by (simp add: eb_posix_udp_poll_def demo_sockets udp_poll_socket_def sys_def demo_posix_def demo_net_def eb_posix_ip_non_blocking_def)
  have "\<exists>sock \<in> {4, -1}. \<exists>sa sa_len w w'. px_recvfrom demo_posix sock 1472 MSG_DONTWAIT w = (3, [1, 2, 3], sa, sa_len, w') \<and>
      eb_posix_udp_send demo_posix ?t None [9] n' = n'\<lparr>net_os := px_sendto demo_posix sock [9] sa sa_len (net_os n')\<rparr>"
    using udp_reply_to_sender [OF f n' _ refl refl] by (simp only: demo_sockets)
  moreover have "sock = 4 \<and> sa = demo_address \<and> sa_len = 16"
    if "px_recvfrom demo_posix sock 1472 MSG_DONTWAIT w = (3, [1, 2, 3], sa, sa_len, w')" for sock sa sa_len w w'
    using that by (simp add: demo_posix_def split: if_splits)
  ultimately show ?thesis using n' by metis
qed

theorem tunnel_address_witness:
  "tunnel_names ''tunnel/scu3/60368/etherbone'' = Some (''tcp/scu3/60368'', ''etherbone'')"
  using tunnel_address [of "''scu3''" "''60368''" "''etherbone''"] by simp

end
