(* ===== verification/Eb_Dev.thy ===== *)
theory Eb_Dev
  imports Eb_Tunnel
begin

text \<open>
  The serial-device transport (\<^verbatim>\<open>api/transport/dev.c\<close>): a stream over a character device. The link caches the
  status flags of its descriptor, so the methods that switch between blocking and not blocking return the link
  they changed.
\<close>

section \<open>The operating system\<close>

text \<open>\<open>dv_tcraw\<close> stands for \<^verbatim>\<open>tcgetattr\<close>, \<^verbatim>\<open>cfmakeraw\<close>, setting both speeds to 115200 baud, and \<^verbatim>\<open>tcsetattr\<close>.\<close>

record 'w dev_os =
  dv_open :: "string \<Rightarrow> 'w \<Rightarrow> int \<times> 'w"
  dv_close :: "int \<Rightarrow> 'w \<Rightarrow> 'w"
  dv_getfl :: "int \<Rightarrow> 'w \<Rightarrow> u32"
  dv_setfl :: "int \<Rightarrow> u32 \<Rightarrow> 'w \<Rightarrow> 'w"
  dv_tcraw :: "int \<Rightarrow> 'w \<Rightarrow> 'w"
  dv_usleep :: "int \<Rightarrow> 'w \<Rightarrow> 'w"
  dv_read :: "int \<Rightarrow> nat \<Rightarrow> 'w \<Rightarrow> int \<times> u8 list \<times> 'w"
  dv_write :: "int \<Rightarrow> u8 list \<Rightarrow> 'w \<Rightarrow> 'w"
  dv_errno :: "'w \<Rightarrow> int"
  dv_ready :: "int \<Rightarrow> u8 \<Rightarrow> 'w \<Rightarrow> bool \<times> 'w"
  dv_fdes :: "int \<Rightarrow> u8 \<Rightarrow> 'w \<Rightarrow> 'w"

abbreviation (input) O_NONBLOCK :: u32 where "O_NONBLOCK \<equiv> 0x800"
abbreviation (input) EWOULDBLOCK :: int where "EWOULDBLOCK \<equiv> 11"

text \<open>\<^verbatim>\<open>struct eb_dev_link\<close>\<close>

definition dev_fdes :: "eb_link \<Rightarrow> int" where "dev_fdes l = int_at 0 (link_raw l)"
definition dev_flags :: "eb_link \<Rightarrow> u32" where "dev_flags l = ucast (be_word (rev (take 4 (drop 4 (link_raw l)))))"
definition set_dev_flags :: "u32 \<Rightarrow> eb_link \<Rightarrow> eb_link" where
  "set_dev_flags fl l = l\<lparr>link_raw := take 4 (link_raw l) @ rev (be_bytes 4 (ucast fl)) @ drop 8 (link_raw l)\<rparr>"
definition set_dev_link :: "int \<Rightarrow> u32 \<Rightarrow> eb_link \<Rightarrow> eb_link" where
  "set_dev_link fd fl l = l\<lparr>link_raw := int_bytes fd @ rev (be_bytes 4 (ucast fl)) @ drop 8 (link_raw l)\<rparr>"

section \<open>The methods\<close>

definition eb_dev_set_blocking :: "'w dev_os \<Rightarrow> bool \<Rightarrow> eb_link \<Rightarrow> 'w \<Rightarrow> eb_link \<times> 'w" where
  "eb_dev_set_blocking os block link w =
     (let flags = (dev_flags link AND NOT O_NONBLOCK) OR (if block then 0 else O_NONBLOCK)
      in if flags \<noteq> dev_flags link then (set_dev_flags flags link, dv_setfl os (dev_fdes link) flags w) else (link, w))"

definition eb_dev_ewouldblock :: "'w dev_os \<Rightarrow> 'w \<Rightarrow> bool" where
  "eb_dev_ewouldblock os w \<longleftrightarrow> dv_errno os w = EAGAIN \<or> dv_errno os w = EWOULDBLOCK"

text \<open>Reading until nothing is left; a device that never runs dry keeps the caller here (\<open>None\<close>).\<close>

partial_function (option) dev_drain :: "'w dev_os \<Rightarrow> int \<Rightarrow> 'w \<Rightarrow> 'w option" where
  "dev_drain os fdes w = (let (r, _, w) = dv_read os fdes 256 w in if r > 0 then dev_drain os fdes w else Some w)"

definition dev_path :: "string \<Rightarrow> string option" where
  "dev_path address =
     (if eb_strncasecmp address ''dev/'' 4 \<noteq> 0 then None
      else let devname = drop 4 address
           in if length devname > 200 then None else Some (''/dev/'' @ take (256 - 8) devname))"

definition eb_dev_connect :: "'w dev_os \<Rightarrow> eb_link \<Rightarrow> string \<Rightarrow> bool \<Rightarrow> 'w \<Rightarrow> (eb_status_t \<times> eb_link \<times> 'w) option" where
  "eb_dev_connect os link address passive w =
     (case dev_path address of
        None \<Rightarrow> Some (EB_ADDRESS, link, w)
      | Some devpath \<Rightarrow> do {
          let (fdes, w) = dv_open os devpath w;
          if fdes = -1 then Some (EB_FAIL, link, w)
          else do {
            let link = set_dev_link fdes (dv_getfl os fdes w) link;
            let w = dv_tcraw os fdes w;
            let (link, w) = eb_dev_set_blocking os False link w;
            w \<leftarrow> (if passive then Some w else dev_drain os fdes (dv_usleep os 10000 w));
            Some (EB_OK, link, w)
          }
        })"

definition eb_dev_disconnect :: "'w dev_os \<Rightarrow> eb_link \<Rightarrow> 'w \<Rightarrow> 'w" where
  "eb_dev_disconnect os link w = dv_close os (dev_fdes link) w"

definition eb_dev_fdes :: "'w dev_os \<Rightarrow> eb_link option \<Rightarrow> 'w \<Rightarrow> 'w" where
  "eb_dev_fdes os link w = (case link of Some l \<Rightarrow> dv_fdes os (dev_fdes l) DESCRIPTOR_IN w | None \<Rightarrow> w)"

definition eb_dev_poll :: "'w dev_os \<Rightarrow> eb_link option \<Rightarrow> nat \<Rightarrow> 'w \<Rightarrow> int \<times> u8 list \<times> eb_link option \<times> 'w" where
  "eb_dev_poll os link len w =
     (case link of
        None \<Rightarrow> (0, [], None, w)
      | Some l \<Rightarrow>
          let (ready, w) = dv_ready os (dev_fdes l) DESCRIPTOR_IN w
          in if \<not> ready then (0, [], Some l, w)
             else let (l, w) = eb_dev_set_blocking os False l w;
                      (result, bytes, w) = dv_read os (dev_fdes l) len w
                  in if result = -1 \<and> eb_dev_ewouldblock os w then (0, [], Some l, w)
                     else if result = 0 then (-1, [], Some l, w)
                     else (result, bytes, Some l, w))"

definition eb_dev_recv :: "'w dev_os \<Rightarrow> eb_link option \<Rightarrow> nat \<Rightarrow> 'w \<Rightarrow> int \<times> u8 list \<times> eb_link option \<times> 'w" where
  "eb_dev_recv os link len w =
     (case link of
        None \<Rightarrow> (0, [], None, w)
      | Some l \<Rightarrow>
          let (l, w) = eb_dev_set_blocking os True l w;
              (result, bytes, w) = dv_read os (dev_fdes l) len w
          in if result = 0 then (-1, [], Some l, w) else (result, bytes, Some l, w))"

definition eb_dev_send :: "'w dev_os \<Rightarrow> eb_link \<Rightarrow> u8 list \<Rightarrow> 'w \<Rightarrow> eb_link \<times> 'w" where
  "eb_dev_send os link buf w =
     (let (l, w) = eb_dev_set_blocking os True link w in (l, dv_write os (dev_fdes l) buf w))"

section \<open>The cached flags\<close>

lemma int_at_bytes:
  assumes "- (2 ^ 31) \<le> v" "v < 2 ^ 31"
  shows "int_at 0 (int_bytes v @ raw) = v"
proof -
  have "int_at 0 (int_bytes v @ raw) = sint (ucast (take_bit 32 (word_of_int v :: u64)) :: u32)"
    by (simp add: int_at_def int_bytes_def be_word_be_bytes)
  also have "(ucast (take_bit 32 (word_of_int v :: u64)) :: u32) = word_of_int v"
    by (rule bit_word_eqI) (simp add: bit_simps)
  also have "sint (word_of_int v :: u32) = v"
    using assms by (simp add: signed_of_int signed_take_bit_int_eq_self)
  finally show ?thesis .
qed

lemma flags_bytes: "(ucast (be_word (be_bytes 4 (ucast (fl :: u32)))) :: u32) = fl"
  by (simp add: be_word_be_bytes) (rule bit_word_eqI, simp add: bit_simps)

lemma dev_link_fields:
  "- (2 ^ 31) \<le> fd \<Longrightarrow> fd < 2 ^ 31 \<Longrightarrow> dev_fdes (set_dev_link fd fl l) = fd" "dev_flags (set_dev_link fd fl l) = fl"
  "8 \<le> length (link_raw (set_dev_link fd fl l))"
  by (simp_all add: dev_fdes_def dev_flags_def set_dev_link_def int_at_bytes) (simp_all add: int_bytes_def flags_bytes)

lemma dev_flags_fields:
  assumes "8 \<le> length (link_raw l)"
  shows "dev_fdes (set_dev_flags fl l) = dev_fdes l" "dev_flags (set_dev_flags fl l) = fl" "8 \<le> length (link_raw (set_dev_flags fl l))"
  using assms by (simp_all add: dev_fdes_def dev_flags_def set_dev_flags_def int_at_def flags_bytes)

definition nonblocking :: "'w dev_os \<Rightarrow> int \<Rightarrow> 'w \<Rightarrow> bool" where
  "nonblocking os fd w \<longleftrightarrow> dv_getfl os fd w AND O_NONBLOCK \<noteq> 0"

text \<open>The descriptor is still open, in the same mode.\<close>

definition undisturbed :: "'w dev_os \<Rightarrow> (int \<Rightarrow> 'w \<Rightarrow> bool) \<Rightarrow> int \<Rightarrow> 'w \<Rightarrow> 'w \<Rightarrow> bool" where
  "undisturbed os is_open fd w w' \<longleftrightarrow> (is_open fd w \<longrightarrow> is_open fd w' \<and> nonblocking os fd w' = nonblocking os fd w)"

text \<open>What POSIX promises of the file status flags. \<open>is_open\<close> says which descriptors are open. On an open descriptor \<^verbatim>\<open>F_SETFL\<close>
  sets \<^verbatim>\<open>O_NONBLOCK\<close> as asked for; nothing is said of the bits it ignores, such as the access mode, nor of a
  descriptor that is not open. The other calls leave the mode alone. A successful \<^verbatim>\<open>open\<close> gives an open descriptor,
  which is an \<^verbatim>\<open>int\<close>.\<close>

definition flags_law :: "'w dev_os \<Rightarrow> (int \<Rightarrow> 'w \<Rightarrow> bool) \<Rightarrow> bool" where
  "flags_law os is_open \<longleftrightarrow>
     (\<forall>fd v w. is_open fd w \<longrightarrow> is_open fd (dv_setfl os fd v w) \<and>
        (nonblocking os fd (dv_setfl os fd v w) \<longleftrightarrow> v AND O_NONBLOCK \<noteq> 0)) \<and>
     (\<forall>fd w. undisturbed os is_open fd w (dv_tcraw os fd w)) \<and>
     (\<forall>fd t w. undisturbed os is_open fd w (dv_usleep os t w)) \<and>
     (\<forall>fd k w. undisturbed os is_open fd w (snd (snd (dv_read os fd k w)))) \<and>
     (\<forall>fd bs w. undisturbed os is_open fd w (dv_write os fd bs w)) \<and>
     (\<forall>fd m w. undisturbed os is_open fd w (snd (dv_ready os fd m w))) \<and>
     (\<forall>p w fd w'. dv_open os p w = (fd, w') \<and> fd \<noteq> -1 \<longrightarrow> is_open fd w' \<and> 0 \<le> fd \<and> fd < 2 ^ 31)"

lemma flags_lawD:
  assumes "flags_law os is_open"
  shows "undisturbed os is_open fd w (dv_tcraw os fd w)" "undisturbed os is_open fd w (dv_usleep os t w)"
    "undisturbed os is_open fd w (snd (snd (dv_read os fd k w)))" "undisturbed os is_open fd w (dv_write os fd bs w)"
    "undisturbed os is_open fd w (snd (dv_ready os fd m w))"
  using assms by (simp_all only: flags_law_def)

text \<open>The states of a link from its connection on. In between, the rest of the program may do whatever leaves the
  link's descriptor open and in its mode.\<close>

inductive dev_reach :: "'w dev_os \<Rightarrow> (int \<Rightarrow> 'w \<Rightarrow> bool) \<Rightarrow> eb_link \<Rightarrow> 'w \<Rightarrow> bool" for os is_open where
  dev_connected: "eb_dev_connect os l address passive w = Some (EB_OK, l', w') \<Longrightarrow> dev_reach os is_open l' w'"
| dev_polled: "dev_reach os is_open l w \<Longrightarrow> eb_dev_poll os (Some l) k w = (r, bytes, Some l', w') \<Longrightarrow> dev_reach os is_open l' w'"
| dev_received: "dev_reach os is_open l w \<Longrightarrow> eb_dev_recv os (Some l) k w = (r, bytes, Some l', w') \<Longrightarrow> dev_reach os is_open l' w'"
| dev_sent: "dev_reach os is_open l w \<Longrightarrow> eb_dev_send os l bytes w = (l', w') \<Longrightarrow> dev_reach os is_open l' w'"
| dev_elsewhere: "dev_reach os is_open l w \<Longrightarrow> undisturbed os is_open (dev_fdes l) w w' \<Longrightarrow> dev_reach os is_open l w'"

text \<open>The cache of a link knows the mode of its descriptor, which is open.\<close>

definition dev_cached :: "'w dev_os \<Rightarrow> (int \<Rightarrow> 'w \<Rightarrow> bool) \<Rightarrow> eb_link \<Rightarrow> 'w \<Rightarrow> bool" where
  "dev_cached os is_open l w \<longleftrightarrow> 8 \<le> length (link_raw l) \<and> is_open (dev_fdes l) w \<and>
     (dev_flags l AND O_NONBLOCK \<noteq> 0 \<longleftrightarrow> nonblocking os (dev_fdes l) w)"

lemma nonblock_bits:
  "((x :: u32) AND NOT O_NONBLOCK OR O_NONBLOCK) AND O_NONBLOCK = O_NONBLOCK" "(x AND NOT O_NONBLOCK OR 0) AND O_NONBLOCK = 0"
  by (rule bit_word_eqI, auto simp: bit_simps)+

lemma cached_undisturbed:
  "dev_cached os is_open l w \<Longrightarrow> undisturbed os is_open (dev_fdes l) w w' \<Longrightarrow> dev_cached os is_open l w'"
  by (simp add: dev_cached_def undisturbed_def)

text \<open>After the switch the descriptor is in the mode asked for, and the cache knows it.\<close>

lemma set_blocking_cached:
  assumes "flags_law os is_open" "dev_cached os is_open l w" "eb_dev_set_blocking os block l w = (l', w')"
  shows "dev_cached os is_open l' w'" "dev_fdes l' = dev_fdes l" "nonblocking os (dev_fdes l) w' \<longleftrightarrow> \<not> block"
    "w' = w \<or> (\<exists>v. w' = dv_setfl os (dev_fdes l) v w)"
proof -
  define fl where "fl = (dev_flags l AND NOT O_NONBLOCK) OR (if block then 0 else O_NONBLOCK)"
  have m: "fl AND O_NONBLOCK \<noteq> 0 \<longleftrightarrow> \<not> block" by (cases block) (simp_all only: fl_def if_True if_False nonblock_bits, simp_all)
  have l: "8 \<le> length (link_raw l)" "is_open (dev_fdes l) w" "dev_flags l AND O_NONBLOCK \<noteq> 0 \<longleftrightarrow> nonblocking os (dev_fdes l) w"
    using assms(2) by (simp_all add: dev_cached_def)
  have c: "(l', w') = (if fl \<noteq> dev_flags l then (set_dev_flags fl l, dv_setfl os (dev_fdes l) fl w) else (l, w))"
    using assms(3) unfolding eb_dev_set_blocking_def Let_def fl_def [symmetric] by (rule sym)
  have set: "is_open (dev_fdes l) (dv_setfl os (dev_fdes l) fl w)" "nonblocking os (dev_fdes l) (dv_setfl os (dev_fdes l) fl w) \<longleftrightarrow> \<not> block"
    using assms(1) l(2) m unfolding flags_law_def by auto
  show "dev_fdes l' = dev_fdes l" "w' = w \<or> (\<exists>v. w' = dv_setfl os (dev_fdes l) v w)"
    using c dev_flags_fields [OF l(1)] by (auto split: if_splits)
  show "dev_cached os is_open l' w'" "nonblocking os (dev_fdes l) w' \<longleftrightarrow> \<not> block"
    using c l m set dev_flags_fields [OF l(1)] by (auto simp: dev_cached_def split: if_splits)
qed

lemma cached_read:
  "flags_law os is_open \<Longrightarrow> dev_cached os is_open l w \<Longrightarrow> dv_read os (dev_fdes l) k w = (r, bytes, w') \<Longrightarrow> dev_cached os is_open l w'"
  by (metis cached_undisturbed flags_lawD snd_conv)

lemma cached_ready:
  "flags_law os is_open \<Longrightarrow> dev_cached os is_open l w \<Longrightarrow> dv_ready os (dev_fdes l) m w = (r, w') \<Longrightarrow> dev_cached os is_open l w'"
  by (metis cached_undisturbed flags_lawD snd_conv)

lemma cached_write:
  "flags_law os is_open \<Longrightarrow> dev_cached os is_open l w \<Longrightarrow> dev_cached os is_open l (dv_write os (dev_fdes l) bs w)"
  by (rule cached_undisturbed [OF _ flags_lawD(4)])

lemma undisturbed_trans:
  "undisturbed os is_open fd w w1 \<Longrightarrow> undisturbed os is_open fd w1 w2 \<Longrightarrow> undisturbed os is_open fd w w2"
  by (auto simp: undisturbed_def)

lemma drain_undisturbed:
  assumes "flags_law os is_open" "dev_drain os fd w = Some w'"
  shows "undisturbed os is_open fd w w'"
proof -
  have "flags_law os is_open \<longrightarrow> undisturbed os is_open fd w w'"
    using assms(2)
  proof (rule dev_drain.raw_induct [rotated])
    fix drain :: "'a dev_os \<Rightarrow> int \<Rightarrow> 'a \<Rightarrow> 'a option" and os :: "'a dev_os" and fd w y
    assume IH: "\<And>os fd w y. drain os fd w = Some y \<Longrightarrow> flags_law os is_open \<longrightarrow> undisturbed os is_open fd w y"
      and step: "(let (r, _, w) = dv_read os fd 256 w in if r > 0 then drain os fd w else Some w) = Some y"
    obtain r b w1 where r: "dv_read os fd 256 w = (r, b, w1)" by (metis prod_cases3)
    have "flags_law os is_open \<longrightarrow> undisturbed os is_open fd w w1" using r flags_lawD(3) by (metis snd_conv)
    then show "flags_law os is_open \<longrightarrow> undisturbed os is_open fd w y"
      using step IH [of os fd w1 y] undisturbed_trans by (fastforce simp: r split: if_splits)
  qed
  with assms(1) show ?thesis by blast
qed

text \<open>How the three methods use the descriptor, in a state where the cache is right.\<close>

lemma poll_uses:
  assumes law: "flags_law os is_open" and l: "dev_cached os is_open l w"
  obtains (idle) w0 where "dv_ready os (dev_fdes l) DESCRIPTOR_IN w = (False, w0)" "eb_dev_poll os (Some l) k w = (0, [], Some l, w0)"
      "dev_cached os is_open l w0"
  | (read) w0 l1 w1 r bytes w2 where "dv_ready os (dev_fdes l) DESCRIPTOR_IN w = (True, w0)"
      "w1 = w0 \<or> (\<exists>v. w1 = dv_setfl os (dev_fdes l) v w0)" "nonblocking os (dev_fdes l) w1"
      "dv_read os (dev_fdes l) k w1 = (r, bytes, w2)" "dev_cached os is_open l1 w2"
      "eb_dev_poll os (Some l) k w = (if r = -1 \<and> eb_dev_ewouldblock os w2 then (0, [], Some l1, w2)
         else if r = 0 then (-1, [], Some l1, w2) else (r, bytes, Some l1, w2))"
proof -
  obtain ready w0 where rdy: "dv_ready os (dev_fdes l) DESCRIPTOR_IN w = (ready, w0)" by (cases "dv_ready os (dev_fdes l) DESCRIPTOR_IN w")
  note l0 = cached_ready [OF law l rdy]
  obtain l1 w1 where b: "eb_dev_set_blocking os False l w0 = (l1, w1)" by (cases "eb_dev_set_blocking os False l w0")
  note l1 = set_blocking_cached [OF law l0 b]
  obtain r bytes w2 where rd: "dv_read os (dev_fdes l) k w1 = (r, bytes, w2)" by (metis prod_cases3)
  have c2: "dev_cached os is_open l1 w2" using cached_read [OF law l1(1), of k] rd l1(2) by simp
  show thesis
  proof (cases ready)
    case False
    with rdy l0 show thesis by (intro idle) (simp_all add: eb_dev_poll_def)
  next
    case True
    have nb: "nonblocking os (dev_fdes l) w1" using l1(3) by simp
    have e: "eb_dev_poll os (Some l) k w = (if r = -1 \<and> eb_dev_ewouldblock os w2 then (0, [], Some l1, w2)
         else if r = 0 then (-1, [], Some l1, w2) else (r, bytes, Some l1, w2))"
      using True by (simp add: eb_dev_poll_def rdy b l1(2) rd)
    show thesis by (rule read [OF _ l1(4) nb rd c2 e]) (use rdy True in simp)
  qed
qed

lemma recv_uses:
  assumes law: "flags_law os is_open" and l: "dev_cached os is_open l w"
  obtains l1 w1 r bytes w2 where "w1 = w \<or> (\<exists>v. w1 = dv_setfl os (dev_fdes l) v w)" "\<not> nonblocking os (dev_fdes l) w1"
    "dv_read os (dev_fdes l) k w1 = (r, bytes, w2)" "dev_cached os is_open l1 w2"
    "eb_dev_recv os (Some l) k w = (if r = 0 then (-1, [], Some l1, w2) else (r, bytes, Some l1, w2))"
proof -
  obtain l1 w1 where b: "eb_dev_set_blocking os True l w = (l1, w1)" by (cases "eb_dev_set_blocking os True l w")
  note l1 = set_blocking_cached [OF law l b]
  obtain r bytes w2 where rd: "dv_read os (dev_fdes l) k w1 = (r, bytes, w2)" by (metis prod_cases3)
  have c2: "dev_cached os is_open l1 w2" using cached_read [OF law l1(1), of k] rd l1(2) by simp
  show thesis using l1(3) by (intro that [OF l1(4) _ rd c2]) (simp_all add: eb_dev_recv_def b l1(2) rd)
qed

lemma send_uses:
  assumes law: "flags_law os is_open" and l: "dev_cached os is_open l w"
  obtains l1 w1 where "w1 = w \<or> (\<exists>v. w1 = dv_setfl os (dev_fdes l) v w)" "\<not> nonblocking os (dev_fdes l) w1"
    "eb_dev_send os l bytes w = (l1, dv_write os (dev_fdes l) bytes w1)" "dev_cached os is_open l1 (dv_write os (dev_fdes l) bytes w1)"
proof -
  obtain l1 w1 where b: "eb_dev_set_blocking os True l w = (l1, w1)" by (cases "eb_dev_set_blocking os True l w")
  note l1 = set_blocking_cached [OF law l b]
  show thesis
    using l1 cached_write [OF law l1(1)] by (intro that [of w1 l1]) (simp_all add: eb_dev_send_def b)
qed

lemma connect_cached:
  assumes law: "flags_law os is_open" and c: "eb_dev_connect os l address passive w = Some (EB_OK, l', w')"
  shows "dev_cached os is_open l' w'"
proof -
  obtain path where p: "dev_path address = Some path" using c by (cases "dev_path address") (auto simp: eb_dev_connect_def)
  obtain fd w1 where fd: "dv_open os path w = (fd, w1)" by (cases "dv_open os path w")
  have ok: "fd \<noteq> -1" using c by (auto simp: eb_dev_connect_def p fd)
  have "\<forall>p w fd w'. dv_open os p w = (fd, w') \<and> fd \<noteq> -1 \<longrightarrow> is_open fd w' \<and> 0 \<le> fd \<and> fd < 2 ^ 31"
    using law unfolding flags_law_def by (elim conjE)
  then have "is_open fd w1 \<and> 0 \<le> fd \<and> fd < 2 ^ 31" using fd ok by metis
  then have op: "is_open fd w1" "- (2 ^ 31) \<le> fd" "fd < 2 ^ 31" by auto
  define l1 where "l1 = set_dev_link fd (dv_getfl os fd w1) l"
  have f1: "dev_fdes l1 = fd" "dev_cached os is_open l1 w1"
    using dev_link_fields [of fd "dv_getfl os fd w1" l] op by (simp_all add: l1_def dev_cached_def nonblocking_def)
  have raw: "undisturbed os is_open fd w1 (dv_tcraw os fd w1)" by (rule flags_lawD(1) [OF law])
  then have c1: "dev_cached os is_open l1 (dv_tcraw os fd w1)" using cached_undisturbed [OF f1(2)] by (simp add: f1(1))
  obtain l2 w2 where b: "eb_dev_set_blocking os False l1 (dv_tcraw os fd w1) = (l2, w2)" by (cases "eb_dev_set_blocking os False l1 (dv_tcraw os fd w1)")
  note l2 = set_blocking_cached [OF law c1 b]
  have r: "l' = l2" "if passive then w' = w2 else dev_drain os fd (dv_usleep os 10000 w2) = Some w'"
    using c ok by (auto simp: eb_dev_connect_def p fd b l1_def [symmetric] bind_eq_Some_conv split: if_splits)
  have "undisturbed os is_open fd w2 w'"
  proof (cases "passive")
    case True
    then show ?thesis using r(2) by (simp add: undisturbed_def)
  next
    case False
    then have "undisturbed os is_open fd (dv_usleep os 10000 w2) w'" using drain_undisturbed [OF law] r(2) by simp
    then show ?thesis by (rule undisturbed_trans [OF flags_lawD(2) [OF law]])
  qed
  then show ?thesis using cached_undisturbed [OF l2(1)] by (simp add: l2(2) f1(1) r(1))
qed

lemma dev_reach_cached:
  assumes "flags_law os is_open" and "dev_reach os is_open l w"
  shows "dev_cached os is_open l w"
  using assms(2)
proof (induction rule: dev_reach.induct)
  case (dev_connected l address psv w l' w')
  then show ?case using connect_cached [OF assms(1)] by blast
next
  case (dev_polled l w k r bytes l' w')
  from assms(1) dev_polled.IH show ?case
    by (cases rule: poll_uses [where k = k]) (use dev_polled.hyps in \<open>auto split: if_splits\<close>)
next
  case (dev_received l w k r bytes l' w')
  from assms(1) dev_received.IH show ?case
    by (cases rule: recv_uses [where k = k]) (use dev_received.hyps in \<open>auto split: if_splits\<close>)
next
  case (dev_sent l w bytes l' w')
  from assms(1) dev_sent.IH show ?case
    by (cases rule: send_uses [where bytes = bytes]) (use dev_sent.hyps in auto)
next
  case (dev_elsewhere l w w')
  show ?case by (rule cached_undisturbed [OF dev_elsewhere.IH dev_elsewhere.hyps(2)])
qed

text \<open>C19: the cached flags of a serial link are right where it matters. In every state a link can get into after it was
  connected, by polling, receiving and sending in any order, the cache knows the mode of the descriptor, although the
  mode is only set when the cache says that it differs. So a poll of a ready descriptor reads from it while it is
  non-blocking, and never otherwise, and a receive and a send use it while it is blocking; apart from that
  change of mode nothing happens before the access.\<close>

theorem dev_flags_in_step:
  assumes "flags_law os is_open" and "dev_reach os is_open l w"
  shows "(dev_flags l AND O_NONBLOCK \<noteq> 0 \<longleftrightarrow> nonblocking os (dev_fdes l) w) \<and>
    (\<exists>w0 l1 w1 r bytes w2.
       dv_ready os (dev_fdes l) DESCRIPTOR_IN w = (False, w0) \<and> eb_dev_poll os (Some l) k w = (0, [], Some l, w0) \<or>
       dv_ready os (dev_fdes l) DESCRIPTOR_IN w = (True, w0) \<and> (w1 = w0 \<or> (\<exists>v. w1 = dv_setfl os (dev_fdes l) v w0)) \<and>
       nonblocking os (dev_fdes l) w1 \<and> dv_read os (dev_fdes l) k w1 = (r, bytes, w2) \<and>
       eb_dev_poll os (Some l) k w = (if r = -1 \<and> eb_dev_ewouldblock os w2 then (0, [], Some l1, w2)
         else if r = 0 then (-1, [], Some l1, w2) else (r, bytes, Some l1, w2))) \<and>
    (\<exists>l1 w1 r bytes w2. (w1 = w \<or> (\<exists>v. w1 = dv_setfl os (dev_fdes l) v w)) \<and> \<not> nonblocking os (dev_fdes l) w1 \<and>
       dv_read os (dev_fdes l) k w1 = (r, bytes, w2) \<and>
       eb_dev_recv os (Some l) k w = (if r = 0 then (-1, [], Some l1, w2) else (r, bytes, Some l1, w2))) \<and>
    (\<exists>l1 w1. (w1 = w \<or> (\<exists>v. w1 = dv_setfl os (dev_fdes l) v w)) \<and> \<not> nonblocking os (dev_fdes l) w1 \<and>
       eb_dev_send os l buf w = (l1, dv_write os (dev_fdes l) buf w1))"
proof (intro conjI, goal_cases)
  note c = dev_reach_cached [OF assms]
  case 1
  show ?case using c by (simp add: dev_cached_def)
  case 2
  from assms(1) c show ?case by (cases rule: poll_uses [where k = k]) blast+
  case 3
  from assms(1) c show ?case by (cases rule: recv_uses [where k = k]) blast
  case 4
  from assms(1) c show ?case by (cases rule: send_uses [where bytes = buf]) blast
qed

text \<open>A device whose state is the flags and the bytes to read; its one descriptor is 5, and \<^verbatim>\<open>F_SETFL\<close> keeps the access mode.\<close>

definition demo_dev :: "(u32 \<times> u8 list) dev_os" where
  "demo_dev = \<lparr>dv_open = (\<lambda>_ w. (5, w)), dv_close = (\<lambda>_ w. w), dv_getfl = (\<lambda>fd w. if fd = 5 then fst w else -1),
     dv_setfl = (\<lambda>fd v w. if fd = 5 then ((fst w AND 3) OR (v AND NOT 3), snd w) else w),
     dv_tcraw = (\<lambda>_ w. w), dv_usleep = (\<lambda>_ w. w),
     dv_read = (\<lambda>_ k w. (if snd w = [] then -1 else int (min k (length (snd w))), take k (snd w), (fst w, drop k (snd w)))),
     dv_write = (\<lambda>_ _ w. w), dv_errno = (\<lambda>_. 11), dv_ready = (\<lambda>_ _ w. (True, w)), dv_fdes = (\<lambda>_ _ w. w)\<rparr>"

lemma demo_dev_calls:
  "dv_open demo_dev p w = (5, w)" "dv_getfl demo_dev 5 w = fst w" "dv_setfl demo_dev 5 v w = ((fst w AND 3) OR (v AND NOT 3), snd w)"
  "dv_tcraw demo_dev fd w = w" "dv_usleep demo_dev t w = w"
  "dv_read demo_dev fd k w = (if snd w = [] then -1 else int (min k (length (snd w))), take k (snd w), (fst w, drop k (snd w)))"
  by (simp_all add: demo_dev_def)

lemma demo_dev_law: "flags_law demo_dev (\<lambda>fd w. fd = 5)"
proof -
  have "((a AND 3) OR (v AND NOT 3)) AND O_NONBLOCK = (v :: u32) AND O_NONBLOCK" for a v
    by (simp add: bit.conj_disj_distrib2 and.assoc)
  then show ?thesis by (auto simp: flags_law_def undisturbed_def nonblocking_def demo_dev_def)
qed

theorem dev_flags_in_step_witness:
  "\<exists>l w. eb_dev_connect demo_dev zero_link ''dev/ttyUSB0'' False (2, [7]) = Some (EB_OK, l, w) \<and>
     (dev_flags l AND O_NONBLOCK \<noteq> 0 \<longleftrightarrow> nonblocking demo_dev (dev_fdes l) w)"
proof -
  have path: "dev_path ''dev/ttyUSB0'' = Some ''/dev/ttyUSB0''" by code_simp
  have drain: "dev_drain demo_dev 5 (fl, [7]) = Some (fl, [])" for fl
    by (subst dev_drain.simps, simp add: demo_dev_calls) (subst dev_drain.simps, simp add: demo_dev_calls)
  have fd: "dev_fdes (set_dev_link 5 2 zero_link) = 5" by (rule dev_link_fields(1)) simp_all
  obtain l2 fl where b: "eb_dev_set_blocking demo_dev False (set_dev_link 5 2 zero_link) (2, [7]) = (l2, fl, [7])"
    by (cases "eb_dev_set_blocking demo_dev False (set_dev_link 5 2 zero_link) (2, [7])")
      (auto simp: eb_dev_set_blocking_def Let_def demo_dev_calls fd split: if_splits)
  obtain l w where c: "eb_dev_connect demo_dev zero_link ''dev/ttyUSB0'' False (2, [7]) = Some (EB_OK, l, w)"
    using drain b by (simp add: eb_dev_connect_def path demo_dev_calls)
  from dev_flags_in_step [OF demo_dev_law dev_reach.dev_connected [OF c]] c show ?thesis by blast
qed

end
