(* ===== verification/Lm32_Printf.thy ===== *)
theory Lm32_Printf
  imports Eb_Prelude
begin

text \<open>
  Formatted output of the LM32 firmware (\<^verbatim>\<open>modules/lm32-include/mprintf.c\<close>) and the hexadecimal printer of
  \<^verbatim>\<open>modules/lm32-include/aux.c\<close>. Strings are lists of bytes that end with a zero; reading behind the end of one is
  a fault, as is running over the scratch buffer. What is written to the UART is the result.
\<close>

section \<open>Arguments\<close>

datatype va_arg = Va_int u32 | Va_str "u8 list"

text \<open>The bytes of a string before its zero; a list without a zero is read over its end.\<close>

fun c_string :: "u8 list \<Rightarrow> u8 list option" where
  "c_string [] = None"
| "c_string (c # s) = (if c = 0 then Some [] else map_option ((#) c) (c_string s))"

section \<open>Numbers\<close>

text \<open>\<^verbatim>\<open>*--ptr = ch\<close>: what was written so far is the tail of \<^verbatim>\<open>scratch[16]\<close> from \<^verbatim>\<open>ptr\<close> on.\<close>

definition scratch_push :: "u8 \<Rightarrow> u8 list \<Rightarrow> u8 list option" where
  "scratch_push ch tail = (if length tail < 16 then Some (ch # tail) else None)"

definition digit_char :: "u32 \<Rightarrow> u8" where
  "digit_char d = (let ch = ucast d + 48 in if sint ch > 57 then ch + (97 - 57 - 1) else ch)"

partial_function (option) conversion_loop :: "u32 \<Rightarrow> u32 \<Rightarrow> u8 \<Rightarrow> u8 list \<Rightarrow> (u8 \<times> u8 list) option" where
  "conversion_loop base u_val width tail = do {
     tail \<leftarrow> scratch_push (digit_char (u_val mod base)) tail;
     let u_val = u_val div base;
     let width = (if width \<noteq> 0 then width - 1 else width);
     if u_val > 0 then conversion_loop base u_val width tail else Some (width, tail)
   }"

fun fill_loop :: "u8 \<Rightarrow> nat \<Rightarrow> u8 list \<Rightarrow> u8 list option" where
  "fill_loop fill 0 tail = Some tail"
| "fill_loop fill (Suc width) tail = do { tail \<leftarrow> scratch_push fill tail; fill_loop fill width tail }"

text \<open>From the label \<^verbatim>\<open>CONVERSION_LOOP\<close> on; only \<^verbatim>\<open>vprintf\<close> knows negative numbers (\<open>sg\<close>).\<close>

definition print_number :: "bool \<Rightarrow> u8 \<Rightarrow> u8 \<Rightarrow> u8 \<Rightarrow> u32 \<Rightarrow> u32 \<Rightarrow> u8 list option" where
  "print_number sg conv fill width base u_val = do {
     let negative = sg \<and> conv = 100 \<and> u_val AND 0x80000000 \<noteq> 0;
     let u_val = (if negative then - u_val else u_val);
     tail \<leftarrow> scratch_push 0 [];
     (width, tail) \<leftarrow> conversion_loop base u_val width tail;
     tail \<leftarrow> fill_loop fill (unat width) tail;
     out \<leftarrow> c_string tail;
     Some ((if negative then [45] else []) @ out)
   }"

section \<open>Formats\<close>

text \<open>The part of a directive behind the percent sign: fill character, width, conversion, and the rest.\<close>

definition take_fill :: "u8 list \<Rightarrow> (u8 \<times> u8 list) option" where
  "take_fill format = (case format of [] \<Rightarrow> None | c # f \<Rightarrow> Some (if c - 48 = 0 then (48, f) else (32, format)))"

definition take_width :: "u8 list \<Rightarrow> (u8 \<times> u8 list) option" where
  "take_width format = (case format of [] \<Rightarrow> None | c # f \<Rightarrow> Some (if c - 48 > 0 \<and> c - 48 \<le> 9 then (c - 48, f) else (0, format)))"

definition directive :: "u8 list \<Rightarrow> (u8 \<times> u8 \<times> u8 \<times> u8 list) option" where
  "directive format = do {
     (fill, format) \<leftarrow> take_fill format;
     (width, format) \<leftarrow> take_width format;
     case format of [] \<Rightarrow> None | conv # f \<Rightarrow> Some (fill, width, conv, f)
   }"

text \<open>One conversion: its output and the arguments left.\<close>

definition convert :: "bool \<Rightarrow> u8 \<Rightarrow> u8 \<Rightarrow> u8 \<Rightarrow> va_arg list \<Rightarrow> (u8 list \<times> va_arg list) option" where
  "convert sg fill width conv ap =
     (if conv = 99 then case ap of Va_int v # ap \<Rightarrow> Some ([ucast v], ap) | _ \<Rightarrow> None
      else if conv = 83 \<or> conv = 115 then case ap of Va_str s # ap \<Rightarrow> map_option (\<lambda>out. (out, ap)) (c_string s) | _ \<Rightarrow> None
      else if conv = 100 \<or> conv = 117 \<or> conv = 120 then
        case ap of Va_int v # ap \<Rightarrow> map_option (\<lambda>out. (out, ap)) (print_number sg conv fill width (if conv = 120 then 16 else 10) v)
        | _ \<Rightarrow> None
      else Some ([conv], ap))"

lemma directive_shorter:
  assumes "directive format = Some (fill, width, conv, rest)"
  shows "length rest < length format" "width \<le> 9"
proof -
  have f: "length r \<le> length f" if "take_fill f = Some (x, r)" for f x r
    using that by (auto simp: take_fill_def split: list.splits if_splits)
  have w: "length r \<le> length f" "x \<le> 9" if "take_width f = Some (x, r)" for f x r
    using that by (auto simp: take_width_def split: list.splits if_splits)
  obtain f1 where "take_fill format = Some (fill, f1)" "take_width f1 = Some (width, conv # rest)"
    using assms by (auto simp: directive_def bind_eq_Some_conv split: list.splits) (metis list.exhaust)
  with f w show "length rest < length format" "width \<le> 9" by fastforce+
qed

function print_loop :: "bool \<Rightarrow> u8 list \<Rightarrow> va_arg list \<Rightarrow> u8 list option" where
  "print_loop sg [] ap = None"
| "print_loop sg (c # format) ap =
     (if c \<noteq> 37 then if c = 0 then Some [] else map_option ((#) c) (print_loop sg format ap)
      else case directive format of
        None \<Rightarrow> None
      | Some (fill, width, conv, rest) \<Rightarrow>
          (case convert sg fill width conv ap of
             None \<Rightarrow> None
           | Some (out, ap) \<Rightarrow> map_option ((@) out) (print_loop sg rest ap)))"
  by pat_completeness auto
termination
  by (relation "measure (\<lambda>(_, format, _). length format)") (auto dest: directive_shorter(1))

definition vprintf :: "u8 list \<Rightarrow> va_arg list \<Rightarrow> u8 list option" where
  "vprintf format ap = print_loop True format ap"

definition p_vsprintf :: "u8 list \<Rightarrow> va_arg list \<Rightarrow> u8 list option" where
  "p_vsprintf format ap = map_option (\<lambda>out. out @ [0]) (print_loop False format ap)"

definition mprintf :: "u8 list \<Rightarrow> va_arg list \<Rightarrow> u8 list option" where
  "mprintf format ap = vprintf format ap"

definition sprintf :: "u8 list \<Rightarrow> va_arg list \<Rightarrow> u8 list option" where
  "sprintf format ap = p_vsprintf format ap"

text \<open>A C string literal.\<close>

definition lit :: "string \<Rightarrow> u8 list" where
  "lit s = map of_char s @ [0]"

definition C_DIM :: u32 where "C_DIM = 0x80"

definition m_cprintf :: "u32 \<Rightarrow> u8 list \<Rightarrow> va_arg list \<Rightarrow> u8 list option" where
  "m_cprintf color fmt ap = do {
     a \<leftarrow> mprintf ([27] @ lit ''[0%d;3%dm'') [Va_int (if color AND C_DIM \<noteq> 0 then 2 else 1), Va_int (color AND 0x7f)];
     b \<leftarrow> vprintf fmt ap;
     Some (a @ b)
   }"

definition m_pcprintf :: "u32 \<Rightarrow> u32 \<Rightarrow> u32 \<Rightarrow> u8 list \<Rightarrow> va_arg list \<Rightarrow> u8 list option" where
  "m_pcprintf row col color fmt ap = do {
     a \<leftarrow> mprintf ([27] @ lit ''[%d;%df'') [Va_int row, Va_int col];
     b \<leftarrow> mprintf ([27] @ lit ''[0%d;3%dm'') [Va_int (if color AND C_DIM \<noteq> 0 then 2 else 1), Va_int (color AND 0x7f)];
     c \<leftarrow> vprintf fmt ap;
     Some (a @ b @ c)
   }"

definition m_term_clear :: "u8 list option" where
  "m_term_clear = mprintf ([27] @ map of_char ''[2J'' @ [27] @ lit ''[1;1H'') []"

section \<open>Hexadecimal numbers\<close>

definition hex_char :: "u32 \<Rightarrow> u8" where
  "hex_char d = (if ucast d > (9 :: u8) then ucast d - 10 + 65 else ucast d + 48)"

text \<open>A shift by 32 bits or more is undefined in C, as is a store behind the buffer.\<close>

fun sprinthex_loop :: "u32 \<Rightarrow> nat \<Rightarrow> nat \<Rightarrow> u8 list \<Rightarrow> u8 list option" where
  "sprinthex_loop val 0 digits buffer = Some buffer"
| "sprinthex_loop val (Suc n) digits buffer = do {
     let i = digits - Suc n;
     if 4 * i < 32 \<and> digits - 1 - i < length buffer
     then sprinthex_loop val n digits (buffer[digits - 1 - i := hex_char (drop_bit (4 * i) val AND 0xF)])
     else None
   }"

definition sprinthex :: "u8 list \<Rightarrow> u32 \<Rightarrow> u8 \<Rightarrow> u8 list option" where
  "sprinthex buffer val digits = do {
     buffer \<leftarrow> sprinthex_loop val (unat digits) (unat digits) buffer;
     if unat digits < length buffer then Some (buffer[unat digits := 0]) else None
   }"

definition mat_sprinthex :: "u8 list \<Rightarrow> u32 \<Rightarrow> u8 list option" where
  "mat_sprinthex buffer val = sprinthex buffer val 8"

section \<open>Printing numbers\<close>

text \<open>The digits of a number, and the number a string of digits denotes.\<close>

function radix :: "nat \<Rightarrow> nat \<Rightarrow> nat list" where
  "radix b n = (if n < b \<or> b < 2 then [n] else radix b (n div b) @ [n mod b])"
  by pat_completeness auto
termination
  by (relation "measure snd") auto

declare radix.simps [simp del]

definition digit_val :: "u8 \<Rightarrow> nat" where
  "digit_val c = (if c \<ge> 97 then unat c - 87 else if c \<ge> 65 then unat c - 55 else unat c - 48)"

definition value_of :: "nat \<Rightarrow> u8 list \<Rightarrow> nat" where
  "value_of b s = foldl (\<lambda>n c. n * b + digit_val c) 0 s"

definition digits :: "nat \<Rightarrow> nat \<Rightarrow> u8 list" where
  "digits b n = map (\<lambda>d. digit_char (of_nat d)) (radix b n)"

lemma radix_less: "0 < b \<Longrightarrow> d \<in> set (radix b n) \<Longrightarrow> 2 \<le> b \<Longrightarrow> d < b"
  by (induction b n rule: radix.induct) (subst (asm) (2) radix.simps, auto split: if_splits)

lemma radix_length: "n < b ^ Suc k \<Longrightarrow> 2 \<le> b \<Longrightarrow> length (radix b n) \<le> Suc k"
proof (induction k arbitrary: n)
  case (Suc k)
  then show ?case by (subst radix.simps) (auto simp: div_less_iff_less_mult mult.commute)
qed (subst radix.simps, simp)

lemma small_digit: "d < 16 \<Longrightarrow> P 0 \<Longrightarrow> P 1 \<Longrightarrow> P 2 \<Longrightarrow> P 3 \<Longrightarrow> P 4 \<Longrightarrow> P 5 \<Longrightarrow> P 6 \<Longrightarrow> P 7 \<Longrightarrow> P 8 \<Longrightarrow> P 9 \<Longrightarrow> P 10 \<Longrightarrow>
  P 11 \<Longrightarrow> P 12 \<Longrightarrow> P 13 \<Longrightarrow> P 14 \<Longrightarrow> P 15 \<Longrightarrow> P (d :: nat)"
proof -
  assume "d < 16"
  then have "d \<in> {0, 1, 2, 3, 4, 5, 6, 7, 8, 9, 10, 11, 12, 13, 14, 15}" unfolding insert_iff empty_iff by presburger
  then show "P 0 \<Longrightarrow> P 1 \<Longrightarrow> P 2 \<Longrightarrow> P 3 \<Longrightarrow> P 4 \<Longrightarrow> P 5 \<Longrightarrow> P 6 \<Longrightarrow> P 7 \<Longrightarrow> P 8 \<Longrightarrow> P 9 \<Longrightarrow> P 10 \<Longrightarrow>
    P 11 \<Longrightarrow> P 12 \<Longrightarrow> P 13 \<Longrightarrow> P 14 \<Longrightarrow> P 15 \<Longrightarrow> P d" by (elim insertE emptyE) simp_all
qed

lemma digit_val_char: "d < 16 \<Longrightarrow> digit_val (digit_char (of_nat d)) = d"
  by (erule small_digit) (simp_all add: digit_val_def digit_char_def)

lemma digit_val_hex: "d < 16 \<Longrightarrow> digit_val (hex_char (of_nat d)) = d"
  by (erule small_digit) (simp_all add: digit_val_def hex_char_def)

lemma digit_char_not_0: "d < 16 \<Longrightarrow> digit_char (of_nat d) \<noteq> 0"
  by (erule small_digit) (simp_all add: digit_char_def)

lemma value_snoc: "value_of b (s @ [c]) = value_of b s * b + digit_val c"
  by (simp add: value_of_def)

lemma value_digits:
  assumes "2 \<le> b" "b \<le> 16"
  shows "value_of b (digits b n) = n"
  using assms
proof (induction b n rule: radix.induct)
  case (1 b n)
  show ?case
  proof (cases "n < b")
    case True
    then show ?thesis using 1 by (simp add: digits_def radix.simps [of b n] value_of_def digit_val_char)
  next
    case False
    then have "digits b n = digits b (n div b) @ [digit_char (of_nat (n mod b))]" using 1 by (simp add: digits_def radix.simps [of b n])
    moreover have "n mod b < 16" using 1(2,3) mod_less_divisor [of b n] by linarith
    ultimately show ?thesis using 1 False by (simp add: value_snoc digit_val_char)
  qed
qed

lemma conversion_loop_digits:
  assumes "2 \<le> unat base" "unat base \<le> 16" "length (digits (unat base) (unat u)) + length tail \<le> 16"
  shows "\<exists>width'. conversion_loop base u width tail = Some (width', digits (unat base) (unat u) @ tail) \<and>
    unat width' = unat width - length (digits (unat base) (unat u))"
  using assms(3)
proof (induction "unat u" arbitrary: u width tail rule: less_induct)
  case less
  let ?b = "unat base"
  define w1 where "w1 = (if width \<noteq> 0 then width - 1 else width)"
  have w1: "unat w1 = unat width - 1" by (simp add: w1_def unat_minus_one)
  have "digits ?b (unat u) \<noteq> []" by (simp add: digits_def) (subst radix.simps, simp)
  then have len: "length tail < 16" using less.prems by (cases "digits ?b (unat u)") simp_all
  have mod: "u mod base = of_nat (unat u mod ?b)" by (metis unat_mod_distrib of_nat_unat ucast_id)
  have step: "conversion_loop base u width tail =
      (if u div base > 0 then conversion_loop base (u div base) w1 (digit_char (of_nat (unat u mod ?b)) # tail)
       else Some (w1, digit_char (of_nat (unat u mod ?b)) # tail))"
    by (subst conversion_loop.simps) (simp add: scratch_push_def len mod w1_def)
  show ?case
  proof (cases "unat u < ?b")
    case True
    then have "u div base = 0" by (simp add: word_unat_eq_iff unat_div_distrib)
    then show ?thesis using True w1 by (simp add: step digits_def radix.simps [of ?b "unat u"])
  next
    case False
    then have q: "unat (u div base) = unat u div ?b" "0 < unat u div ?b" "unat u div ?b < unat u"
      using assms(1) by (simp_all add: unat_div_distrib div_greater_zero_iff)
    have d: "digits ?b (unat u) = digits ?b (unat (u div base)) @ [digit_char (of_nat (unat u mod ?b))]"
      using False assms(1) by (simp add: digits_def radix.simps [of ?b "unat u"] q)
    have "\<exists>width'. conversion_loop base (u div base) w1 (digit_char (of_nat (unat u mod ?b)) # tail) =
        Some (width', digits ?b (unat (u div base)) @ digit_char (of_nat (unat u mod ?b)) # tail) \<and>
        unat width' = unat w1 - length (digits ?b (unat (u div base)))"
      by (rule less.hyps) (use q less.prems d in simp_all)
    moreover have "u div base > 0" using q by (simp add: word_less_nat_alt)
    ultimately show ?thesis by (auto simp: step d w1)
  qed
qed

lemma fill_loop_replicate:
  "n + length tail \<le> 16 \<Longrightarrow> fill_loop fill n tail = Some (replicate n fill @ tail)"
proof (induction n arbitrary: tail)
  case (Suc n)
  then show ?case by (simp add: scratch_push_def replicate_app_Cons_same)
qed simp

lemma c_string_prefix: "0 \<notin> set s \<Longrightarrow> c_string (s @ 0 # rest) = Some s"
  by (induction s) auto

text \<open>What a conversion of a number prints: the sign, the padding, the digits.\<close>

definition number_out :: "bool \<Rightarrow> u8 \<Rightarrow> u8 \<Rightarrow> u8 \<Rightarrow> u32 \<Rightarrow> u8 list" where
  "number_out sg conv fill width v =
     (let b = (if conv = 120 then 16 else 10);
          negative = (sg \<and> conv = 100 \<and> sint v < 0);
          ds = digits b (if negative then nat (- sint v) else unat v)
      in (if negative then [45] else []) @ replicate (unat width - length ds) fill @ ds)"

lemma sign_bit: "(v :: u32) AND 0x80000000 \<noteq> 0 \<longleftrightarrow> sint v < 0"
proof -
  have "v AND 0x80000000 \<noteq> 0 \<longleftrightarrow> bit v 31"
    using and_exp_eq_0_iff_not_bit [of v 31] by simp
  moreover have "bit v (LENGTH(32) - Suc 0) \<longleftrightarrow> sint v < 0" by (rule bit_last_iff)
  ultimately show ?thesis by simp
qed

lemma unat_negated: "sint (v :: u32) < 0 \<Longrightarrow> unat (- v) = nat (- sint v)"
proof -
  assume neg: "sint v < 0"
  have range: "- (2 ^ 31) \<le> sint v" using sint_greater_eq [of v] by simp
  have "- v = word_of_int (- sint v)" by simp
  then have "uint (- v) = take_bit 32 (- sint v)" by (simp only: uint_word_of_int) (simp add: take_bit_eq_mod)
  also have "\<dots> = - sint v" using neg range by (simp add: take_bit_int_eq_self)
  finally show ?thesis by (metis nat_uint_eq)
qed

lemma digits_short:
  assumes "n < 2 ^ 32"
  shows "length (digits 10 n) \<le> 10" "length (digits 16 n) \<le> 8" "0 \<notin> set (digits 10 n)" "0 \<notin> set (digits 16 n)"
proof -
  show "length (digits 10 n) \<le> 10" using radix_length [of n 10 9] assms by (simp add: digits_def)
  show "length (digits 16 n) \<le> 8" using radix_length [of n 16 7] assms by (simp add: digits_def)
  have "d < 16" if "d \<in> set (radix b n)" "b \<in> {10, 16}" for d b using radix_less [of b d n] that by auto
  then show "0 \<notin> set (digits 10 n)" "0 \<notin> set (digits 16 n)" using digit_char_not_0 by (fastforce simp: digits_def)+
qed

lemma print_number_out:
  assumes "width \<le> 9" "fill \<noteq> 0"
  shows "print_number sg conv fill width (if conv = 120 then 16 else 10) v = Some (number_out sg conv fill width v)"
proof -
  define neg where "neg = (sg \<and> conv = 100 \<and> sint v < 0)"
  define u where "u = (if neg then - v else v)"
  define base :: u32 where "base = (if conv = 120 then 16 else 10)"
  define ds where "ds = digits (unat base) (unat u)"
  have uu: "unat u = (if neg then nat (- sint v) else unat v)" by (simp add: u_def neg_def unat_negated)
  have bb: "unat base = (if conv = 120 then 16 else 10)" by (simp add: base_def)
  then have b2: "2 \<le> unat base" "unat base \<le> 16" by simp_all
  have short: "length ds \<le> 10" "0 \<notin> set ds"
    using digits_short [of "unat u"] unsigned_less [of u, where ?'a = nat] by (auto simp: ds_def bb)
  have w9: "unat width \<le> 9" using assms(1) by (simp add: word_le_nat_alt)
  obtain width' where c: "conversion_loop base u width [0] = Some (width', ds @ [0])" "unat width' = unat width - length ds"
    using conversion_loop_digits [OF b2, of u "[0]" width] short(1) unfolding ds_def by auto
  have f: "fill_loop fill (unat width') (ds @ [0]) = Some (replicate (unat width - length ds) fill @ ds @ [0])"
    using fill_loop_replicate [of "unat width'" "ds @ [0]" fill] c(2) short(1) w9 by simp
  have s: "c_string (replicate (unat width - length ds) fill @ ds @ [0]) = Some (replicate (unat width - length ds) fill @ ds)"
    using c_string_prefix [of "replicate (unat width - length ds) fill @ ds" "[]"] short(2) assms(2) by simp
  have "print_number sg conv fill width base v = Some ((if neg then [45] else []) @ replicate (unat width - length ds) fill @ ds)"
    using c f s by (simp add: print_number_def Let_def scratch_push_def sign_bit neg_def [symmetric] u_def [symmetric])
  moreover have "number_out sg conv fill width v = (if neg then [45] else []) @ replicate (unat width - length ds) fill @ ds"
    by (simp add: number_out_def Let_def neg_def [symmetric] ds_def uu bb)
  ultimately show ?thesis unfolding base_def by simp
qed

text \<open>A directive of the format language.\<close>

definition number_directive :: "bool \<Rightarrow> u8 \<Rightarrow> u8 \<Rightarrow> u8 list" where
  "number_directive zpad width conv = (if zpad then [48] else []) @ (if width = 0 then [] else [48 + width]) @ [conv]"

lemma directive_number:
  assumes "width \<le> 9" "conv \<in> {100, 117, 120}"
  shows "directive (number_directive zpad width conv @ rest) = Some (if zpad then 48 else 32, width, conv, rest)"
proof -
  have "take_width (conv # rest) = Some (0, conv # rest)" "conv - 48 \<noteq> 0"
    using assms(2) by (auto simp: take_width_def)
  moreover have "take_width ((48 + width) # conv # rest) = Some (width, conv # rest)" if "width \<noteq> 0"
    using that assms(1) by (simp add: take_width_def word_gt_0)
  ultimately show ?thesis
    by (cases zpad; cases "width = 0") (simp_all add: directive_def number_directive_def take_fill_def)
qed

text \<open>C18: numbers are printed correctly. Whatever the value, the padding and the width of the directive, printing a decimal, unsigned
  or hexadecimal number stays inside the scratch buffer of 16 bytes and writes exactly the sign of a negative
  decimal, the padding, and the digits of the number, without leading zeros of its own; read back, the digits
  give the number.\<close>

theorem mprintf_number:
  assumes "width \<le> 9" and "conv \<in> {100, 117, 120}"
  shows "mprintf ([37] @ number_directive zpad width conv @ [0]) [Va_int v] = Some (number_out True conv (if zpad then 48 else 32) width v) \<and>
    value_of 16 (digits 16 (unat v)) = unat v \<and> value_of 10 (digits 10 (unat v)) = unat v \<and>
    value_of 10 (digits 10 (nat (- sint v))) = nat (- sint v)"
proof -
  have "print_number True conv (if zpad then 48 else 32) width (if conv = 120 then 16 else 10) v =
      Some (number_out True conv (if zpad then 48 else 32) width v)"
    by (rule print_number_out [OF assms(1)]) simp
  then have "convert True (if zpad then 48 else 32) width conv [Va_int v] = Some (number_out True conv (if zpad then 48 else 32) width v, [])"
    using assms(2) by (auto simp: convert_def)
  then show ?thesis
    using directive_number [OF assms, of zpad "[0]"] by (simp add: mprintf_def vprintf_def value_digits)
qed

theorem mprintf_number_witness:
  "mprintf (lit ''%08x'') [Va_int 0x2A] = Some (map of_char ''0000002a'')"
proof -
  have r: "radix 16 42 = [2, 10]" by (subst radix.simps, simp, subst radix.simps, simp)
  have "number_out True 120 48 8 0x2A = map of_char ''0000002a''"
    by (simp add: number_out_def digits_def r digit_char_def Let_def) (simp add: eval_nat_numeral)
  then show ?thesis using mprintf_number [of 8 120 True 42] by (simp add: number_directive_def lit_def)
qed

section \<open>Printing in hexadecimal\<close>

definition nibbles :: "u32 \<Rightarrow> nat \<Rightarrow> u8 list" where
  "nibbles val n = map (\<lambda>i. hex_char (drop_bit (4 * i) val AND 0xF)) (rev [0..<n])"

lemma nibbles_Suc: "nibbles val (Suc n) = hex_char (drop_bit (4 * n) val AND 0xF) # nibbles val n"
  by (simp add: nibbles_def)

lemma sprinthex_loop_nibbles:
  assumes "n \<le> ds" "ds \<le> 8" "ds \<le> length buffer" "drop n (take ds buffer) = nibbles val (ds - n)"
  shows "sprinthex_loop val n ds buffer = Some (nibbles val ds @ drop ds buffer)"
  using assms
proof (induction n arbitrary: buffer)
  case 0
  then show ?case by (simp add: append_eq_conv_conj [symmetric]) (metis append_take_drop_id)
next
  case (Suc n)
  let ?i = "ds - Suc n"
  let ?b = "buffer[n := hex_char (drop_bit (4 * ?i) val AND 0xF)]"
  have i: "ds - 1 - ?i = n" "4 * ?i < 32" "n < length buffer" using Suc.prems by auto
  have "drop n (take ds ?b) = hex_char (drop_bit (4 * ?i) val AND 0xF) # drop (Suc n) (take ds buffer)"
    using Suc.prems by (simp add: Cons_nth_drop_Suc [symmetric] take_update_swap)
  also have "\<dots> = nibbles val (ds - n)"
    using Suc.prems nibbles_Suc [of val ?i] by (simp add: Suc_diff_Suc)
  finally have "sprinthex_loop val n ds ?b = Some (nibbles val ds @ drop ds ?b)"
    using Suc.IH [of ?b] Suc.prems by simp
  then show ?case using i Suc.prems by (simp add: Let_def drop_update_cancel)
qed

lemma unat_nibble: "unat (drop_bit (4 * n) (val :: u32) AND 0xF) = unat val div 16 ^ n mod 16"
proof -
  have "(0xF :: u32) = mask 4" by (simp add: mask_eq_exp_minus_1)
  then have "drop_bit (4 * n) val AND 0xF = take_bit 4 (drop_bit (4 * n) val)" by (simp only: take_bit_eq_mask)
  moreover have "unat (take_bit 4 (drop_bit (4 * n) val)) = take_bit 4 (drop_bit (4 * n) (unat val))"
    using unsigned_less [of val, where ?'a = nat] by (simp add: unsigned_take_bit_eq unsigned_drop_bit_eq take_bit_nat_eq_self)
  ultimately show ?thesis by (simp add: take_bit_eq_mod drop_bit_eq_div power_mult)
qed

lemma value_nibbles: "n \<le> 8 \<Longrightarrow> value_of 16 (nibbles val n) = unat val mod 16 ^ n"
proof -
  have fold: "foldl (\<lambda>k c. k * 16 + digit_val c) a (nibbles val n) = a * 16 ^ n + unat val mod 16 ^ n" for a
  proof (induction n arbitrary: a)
    case (Suc n)
    have "hex_char (drop_bit (4 * n) val AND 0xF) = hex_char (of_nat (unat val div 16 ^ n mod 16))"
      by (metis unat_nibble of_nat_unat ucast_id)
    then have "digit_val (hex_char (drop_bit (4 * n) val AND 0xF)) = unat val div 16 ^ n mod 16" by (simp add: digit_val_hex)
    then have "foldl (\<lambda>k c. k * 16 + digit_val c) a (nibbles val (Suc n)) =
        (a * 16 + unat val div 16 ^ n mod 16) * 16 ^ n + unat val mod 16 ^ n"
      by (simp add: nibbles_Suc Suc.IH)
    moreover have "unat val mod 16 ^ Suc n = unat val div 16 ^ n mod 16 * 16 ^ n + unat val mod 16 ^ n"
      using mod_mult2_eq [of "unat val" "16 ^ n" 16] by (simp add: mult.commute)
    ultimately show ?case by (simp add: distrib_right)
  qed (simp add: nibbles_def)
  show ?thesis using fold [of 0] by (simp add: value_of_def)
qed

text \<open>C22: hexadecimal output round-trips. For up to 8 digits and a buffer with room for them and the terminating zero, the digits
  are written, zero-terminated, at the start of the buffer and nothing behind them is touched; read back as a
  hexadecimal number they give the value modulo the number of digits, and with 8 digits the value itself.\<close>

theorem sprinthex_roundtrip:
  assumes "n \<le> 8" and "unat n < length buffer"
  shows "\<exists>s. sprinthex buffer val n = Some (s @ 0 # drop (unat n + 1) buffer) \<and> length s = unat n \<and>
    value_of 16 s = unat val mod 16 ^ unat n \<and> (n = 8 \<longrightarrow> value_of 16 s = unat val)"
proof -
  have n8: "unat n \<le> 8" using assms(1) by (simp add: word_le_nat_alt)
  have l: "sprinthex_loop val (unat n) (unat n) buffer = Some (nibbles val (unat n) @ drop (unat n) buffer)"
    using sprinthex_loop_nibbles [of "unat n" "unat n" buffer val] n8 assms(2) by (simp add: nibbles_def)
  have len: "length (nibbles val (unat n)) = unat n" by (simp add: nibbles_def)
  have "drop (unat n) buffer = buffer ! unat n # drop (unat n + 1) buffer" using assms(2) by (simp add: Cons_nth_drop_Suc)
  then have s: "sprinthex buffer val n = Some (nibbles val (unat n) @ 0 # drop (unat n + 1) buffer)"
    using l len assms(2) by (simp add: sprinthex_def list_update_append)
  have "unat val mod 16 ^ 8 = unat val" using unsigned_less [of val, where ?'a = nat] by simp
  then show ?thesis using s len value_nibbles [OF n8, of val] by auto
qed

theorem sprinthex_roundtrip_witness:
  "\<exists>s. sprinthex (replicate 12 0xFF) 0xDEADBEEF 8 = Some (s @ 0 # replicate 3 0xFF) \<and> value_of 16 s = 0xDEADBEEF"
  using sprinthex_roundtrip [of 8 "replicate 12 0xFF" "0xDEADBEEF"] by auto

section \<open>Findings\<close>

text \<open>The string formatter prints negative decimals as unsigned numbers, the console formatter does not.\<close>

lemma sprintf_number:
  assumes "width \<le> 9" and "conv \<in> {100, 117, 120}"
  shows "sprintf ([37] @ number_directive zpad width conv @ [0]) [Va_int v] = Some (number_out False conv (if zpad then 48 else 32) width v @ [0])"
proof -
  have "print_number False conv (if zpad then 48 else 32) width (if conv = 120 then 16 else 10) v =
      Some (number_out False conv (if zpad then 48 else 32) width v)"
    by (rule print_number_out [OF assms(1)]) simp
  then have "convert False (if zpad then 48 else 32) width conv [Va_int v] = Some (number_out False conv (if zpad then 48 else 32) width v, [])"
    using assms(2) by (auto simp: convert_def)
  then show ?thesis
    using directive_number [OF assms, of zpad "[0]"] by (simp add: sprintf_def p_vsprintf_def)
qed

lemma sprintf_loses_sign:
  "sprintf (lit ''%d'') [Va_int v] = map_option (\<lambda>out. out @ [0]) (sprintf (lit ''%u'') [Va_int v] \<bind> c_string)"
proof -
  have z: "0 \<notin> set (number_out False 117 32 0 v)"
    using digits_short [of "unat v"] unsigned_less [of v, where ?'a = nat] by (simp add: number_out_def)
  have same: "number_out False 100 32 0 v = number_out False 117 32 0 v" by (simp add: number_out_def)
  have "sprintf (lit ''%d'') [Va_int v] = Some (number_out False 100 32 0 v @ [0])"
    using sprintf_number [of 0 100 False v] by (simp add: number_directive_def lit_def)
  moreover have "sprintf (lit ''%u'') [Va_int v] = Some (number_out False 117 32 0 v @ [0])"
    using sprintf_number [of 0 117 False v] by (simp add: number_directive_def lit_def)
  ultimately show ?thesis using c_string_prefix [OF z, of "[]"] by (simp add: same)
qed

text \<open>A format that ends with a percent sign is read behind its end.\<close>

lemma trailing_percent: "mprintf (lit ''100%'') [] = None"
  by (simp add: mprintf_def vprintf_def lit_def directive_def take_fill_def take_width_def convert_def)

end
