(* ===== verification/Lm32_Irq.thy ===== *)
theory Lm32_Irq
  imports Lm32_Printf
begin

text \<open>
  The processor of the embedded controllers as its firmware sees it: the register helpers of
  \<^verbatim>\<open>modules/lm32-include/aux.c\<close> and the interrupt dispatcher of \<^verbatim>\<open>modules/lm32-include/irq.c\<close>. The peripherals are
  hardware: reading and writing their registers are parameters of the model. The control registers are those of
  the LM32, where writing ones to \<^verbatim>\<open>IP\<close> clears pending interrupts.
\<close>

section \<open>The board\<close>

text \<open>The peripherals are told apart by the pointer the firmware reaches them through; a register is a word behind it.
  The SCU bus has 16-bit registers.\<close>

datatype periph = pCpuId | pCpuAtomic | pCluInfo | pCpuSysTime | pCpuIrqSlave | pCpuTimer | pOledDisplay | pEbm | scub_irq_base

record 'w board =
  io_read :: "periph \<Rightarrow> nat \<Rightarrow> 'w \<Rightarrow> u32 \<times> 'w"
  io_write :: "periph \<Rightarrow> nat \<Rightarrow> u32 \<Rightarrow> 'w \<Rightarrow> 'w"
  scub_read :: "nat \<Rightarrow> 'w \<Rightarrow> u16 \<times> 'w"
  scub_write :: "nat \<Rightarrow> u16 \<Rightarrow> 'w \<Rightarrow> 'w"
  uart_write_byte :: "u8 \<Rightarrow> 'w \<Rightarrow> 'w"

record msi =
  msg :: u32
  adr :: u32
  sel :: u32

text \<open>The state the helpers work on; a program extends the record by its own variables. A function pointer in
  \<^verbatim>\<open>isr_ptr_table\<close> is the number of the function, 0 is the null pointer.\<close>

record 'w cpu =
  csr_ip :: u32
  csr_im :: u32
  csr_ie :: u32
  ier :: u32
  global_msi :: msi
  isr_ptr_table :: "nat list"
  cpu_io :: 'w

definition nth_opt :: "'a list \<Rightarrow> nat \<Rightarrow> 'a option" where
  "nth_opt xs i = (if i < length xs then Some (xs ! i) else None)"

definition set_nth :: "'a list \<Rightarrow> nat \<Rightarrow> ('a \<Rightarrow> 'a) \<Rightarrow> 'a list option" where
  "set_nth xs i f = (if i < length xs then Some (xs[i := f (xs ! i)]) else None)"

lemma set_nth_append: "set_nth (xs @ y # ys) (length xs) f = Some (xs @ f y # ys)"
  by (simp add: set_nth_def)

definition peek :: "'w board \<Rightarrow> periph \<Rightarrow> nat \<Rightarrow> ('w, 'z) cpu_scheme \<Rightarrow> u32 \<times> ('w, 'z) cpu_scheme" where
  "peek b p i s = (let (v, w) = io_read b p i (cpu_io s) in (v, s\<lparr>cpu_io := w\<rparr>))"

definition poke :: "'w board \<Rightarrow> periph \<Rightarrow> nat \<Rightarrow> u32 \<Rightarrow> ('w, 'z) cpu_scheme \<Rightarrow> ('w, 'z) cpu_scheme" where
  "poke b p i v s = s\<lparr>cpu_io := io_write b p i v (cpu_io s)\<rparr>"

section \<open>Interrupt control\<close>

abbreviation (input) IRQ_REG_POP :: u32 where "IRQ_REG_POP \<equiv> 0x8"
abbreviation (input) IRQ_OFFS_MSG :: u32 where "IRQ_OFFS_MSG \<equiv> 0x0"
abbreviation (input) IRQ_OFFS_ADR :: u32 where "IRQ_OFFS_ADR \<equiv> 0x4"
abbreviation (input) IRQ_OFFS_SEL :: u32 where "IRQ_OFFS_SEL \<equiv> 0x8"

definition irq_pop_msi :: "'w board \<Rightarrow> u32 \<Rightarrow> ('w, 'z) cpu_scheme \<Rightarrow> ('w, 'z) cpu_scheme" where
  "irq_pop_msi b irq_no s =
     (let msg_queue = unat (push_bit 2 (irq_no + 1));
          (m, s) = peek b pCpuIrqSlave (msg_queue + unat (drop_bit 2 IRQ_OFFS_MSG)) s;
          s = s\<lparr>global_msi := (global_msi s)\<lparr>msg := m\<rparr>\<rparr>;
          (a, s) = peek b pCpuIrqSlave (msg_queue + unat (drop_bit 2 IRQ_OFFS_ADR)) s;
          s = s\<lparr>global_msi := (global_msi s)\<lparr>adr := a\<rparr>\<rparr>;
          (l, s) = peek b pCpuIrqSlave (msg_queue + unat (drop_bit 2 IRQ_OFFS_SEL)) s;
          s = s\<lparr>global_msi := (global_msi s)\<lparr>sel := l\<rparr>\<rparr>
      in poke b pCpuIrqSlave (unat (drop_bit 2 IRQ_REG_POP)) (push_bit (unat irq_no) 1) s)"

definition isr_table_clr :: "('w, 'z) cpu_scheme \<Rightarrow> ('w, 'z) cpu_scheme" where
  "isr_table_clr s = s\<lparr>isr_ptr_table := replicate 32 0\<rparr>"

definition irq_get_mask :: "('w, 'z) cpu_scheme \<Rightarrow> u32" where
  "irq_get_mask s = csr_im s"

definition irq_set_mask :: "u32 \<Rightarrow> ('w, 'z) cpu_scheme \<Rightarrow> ('w, 'z) cpu_scheme" where
  "irq_set_mask im s = s\<lparr>csr_im := im\<rparr>"

definition irq_get_enable :: "('w, 'z) cpu_scheme \<Rightarrow> u32" where
  "irq_get_enable s = csr_ie s AND 1"

definition irq_disable :: "('w, 'z) cpu_scheme \<Rightarrow> ('w, 'z) cpu_scheme" where
  "irq_disable s = s\<lparr>csr_ie := csr_ie s AND 0xFFFE\<rparr>"

definition irq_enable :: "('w, 'z) cpu_scheme \<Rightarrow> ('w, 'z) cpu_scheme" where
  "irq_enable s = s\<lparr>csr_ie := csr_ie s OR 1\<rparr>"

definition irq_clear :: "u32 \<Rightarrow> ('w, 'z) cpu_scheme \<Rightarrow> ('w, 'z) cpu_scheme" where
  "irq_clear msk s = s\<lparr>csr_ip := csr_ip s AND NOT msk\<rparr>"

text \<open>The body of the loop for a pending interrupt; a call through a null pointer is a fault.\<close>

definition irq_service :: "'w board \<Rightarrow> (nat \<Rightarrow> ('w, 'z) cpu_scheme \<Rightarrow> ('w, 'z) cpu_scheme option) \<Rightarrow> u8 \<Rightarrow> ('w, 'z) cpu_scheme \<Rightarrow> ('w, 'z) cpu_scheme option" where
  "irq_service b isr irq_no s = do {
     let s = irq_pop_msi b (ucast irq_no) s;
     let s = irq_clear (push_bit (unat irq_no) 1) s;
     k \<leftarrow> nth_opt (isr_ptr_table s) (unat irq_no);
     if k = 0 then None else isr k s
   }"

function irq_loop :: "'w board \<Rightarrow> (nat \<Rightarrow> ('w, 'z) cpu_scheme \<Rightarrow> ('w, 'z) cpu_scheme option) \<Rightarrow> u32 \<Rightarrow> u8 \<Rightarrow> ('w, 'z) cpu_scheme \<Rightarrow> ('w, 'z) cpu_scheme option" where
  "irq_loop b isr ip irq_no s =
     (if ip = 0 then Some s
      else case (if ip AND 1 \<noteq> 0 then irq_service b isr irq_no s else Some s) of
        None \<Rightarrow> None
      | Some s \<Rightarrow> irq_loop b isr (drop_bit 1 ip) (irq_no + 1) s)"
  by pat_completeness auto
termination
proof (relation "measure (\<lambda>(_, _, ip, _). unat ip)", goal_cases)
  case (2 b isr ip irq_no s s')
  then have "0 < unat ip" by (simp add: unat_gt_0)
  then show ?case by (simp add: drop_bit_eq_div unat_div_distrib)
qed simp

declare irq_loop.simps [simp del]

definition irq_entry :: "'w board \<Rightarrow> (nat \<Rightarrow> ('w, 'z) cpu_scheme \<Rightarrow> ('w, 'z) cpu_scheme option) \<Rightarrow> ('w, 'z) cpu_scheme \<Rightarrow> ('w, 'z) cpu_scheme option" where
  "irq_entry b isr s = irq_loop b isr (csr_ip s) 0 s"

section \<open>Atomic sections, system time\<close>

definition atomic_on :: "'w board \<Rightarrow> ('w, 'z) cpu_scheme \<Rightarrow> ('w, 'z) cpu_scheme" where
  "atomic_on b s = (let s = s\<lparr>ier := irq_get_enable s\<rparr>; s = irq_disable s in poke b pCpuAtomic 0 1 s)"

definition atomic_off :: "'w board \<Rightarrow> ('w, 'z) cpu_scheme \<Rightarrow> ('w, 'z) cpu_scheme" where
  "atomic_off b s = (let s = poke b pCpuAtomic 0 0 s in s\<lparr>csr_ie := csr_ie s OR ier s\<rparr>)"

definition atomic_get :: "'w board \<Rightarrow> ('w, 'z) cpu_scheme \<Rightarrow> u32 \<times> ('w, 'z) cpu_scheme" where
  "atomic_get b s = peek b pCpuAtomic 0 s"

definition getSysTime :: "'w board \<Rightarrow> ('w, 'z) cpu_scheme \<Rightarrow> u64 \<times> ('w, 'z) cpu_scheme" where
  "getSysTime b s =
     (let (hi, s) = peek b pCpuSysTime 0 s;
          systime = push_bit 32 (ucast hi);
          (lo, s) = peek b pCpuSysTime 1 s
      in (systime OR (ucast lo AND 0x00000000ffffffff), s))"

definition getCpuID :: "'w board \<Rightarrow> ('w, 'z) cpu_scheme \<Rightarrow> u32 \<times> ('w, 'z) cpu_scheme" where
  "getCpuID b s = peek b pCpuId 0 s"

definition getCpuIdx :: "'w board \<Rightarrow> ('w, 'z) cpu_scheme \<Rightarrow> u32 \<times> ('w, 'z) cpu_scheme" where
  "getCpuIdx b s = (let (v, s) = peek b pCpuId 0 s in (v AND 0xff, s))"

definition getCores :: "'w board \<Rightarrow> ('w, 'z) cpu_scheme \<Rightarrow> u32 \<times> ('w, 'z) cpu_scheme" where
  "getCores b s = (let (v, s) = peek b pCluInfo 0 s in (v AND 0xff, s))"

text \<open>The number of idle turns \<^verbatim>\<open>uSleep\<close> makes. The macro \<^verbatim>\<open>T_SYS\<close> is the text \<^verbatim>\<open>1000000000ULL / F_SYS\<close>, without
  parentheses.\<close>

definition uSleep_cycles :: "u64 \<Rightarrow> u32" where
  "uSleep_cycles uSecs = ucast (uSecs * 1000 div 1000000000 div 62500000)"

definition progressWheel :: "u8 \<Rightarrow> u8 \<times> u8" where
  "progressWheel index = (map of_char [CHR ''|'', CHR ''/'', CHR ''-'', CHR 0x5C] ! unat (index AND 0x03), index + 1)"


section \<open>Dispatch\<close>

text \<open>The pending interrupts one by one.\<close>

fun serve_all :: "'w board \<Rightarrow> (nat \<Rightarrow> ('w, 'z) cpu_scheme \<Rightarrow> ('w, 'z) cpu_scheme option) \<Rightarrow> nat list \<Rightarrow> ('w, 'z) cpu_scheme \<Rightarrow> ('w, 'z) cpu_scheme option" where
  "serve_all b isr [] s = Some s"
| "serve_all b isr (n # ns) s = do { s \<leftarrow> irq_service b isr (of_nat n) s; serve_all b isr ns s }"

lemma no_bits_left: "drop_bit k ip = 0 \<Longrightarrow> filter (bit ip) [k..<32] = []" for ip :: u32
proof -
  assume z: "drop_bit k ip = 0"
  have "\<not> bit ip n" if "k \<le> n" for n
  proof -
    have "bit ip n \<longleftrightarrow> bit (drop_bit k ip) (n - k)" using that by (simp add: bit_drop_bit_eq)
    then show ?thesis using z by simp
  qed
  then show ?thesis by (simp add: filter_empty_conv)
qed

lemma irq_loop_serves:
  assumes "k \<le> 32"
  shows "irq_loop b isr (drop_bit k ip) (of_nat k) s = serve_all b isr (filter (bit ip) [k..<32]) s"
  using assms
proof (induction "32 - k" arbitrary: k s)
  case 0
  then have "k = 32" by simp
  moreover have "drop_bit 32 ip = 0" by (rule bit_word_eqI) (auto simp: bit_drop_bit_eq dest: bit_imp_le_length)
  ultimately show ?case by (simp add: irq_loop.simps)
next
  case (Suc m)
  then have k: "k < 32" and m: "m = 32 - Suc k" by simp_all
  have u: "[k..<32] = k # [Suc k..<32]" using k by (rule upt_conv_Cons)
  have step: "drop_bit 1 (drop_bit k ip) = drop_bit (Suc k) ip" by (simp add: drop_bit_drop_bit)
  have no: "(of_nat k + 1 :: u8) = of_nat (Suc k)" by simp
  have low: "drop_bit k ip AND 1 \<noteq> 0 \<longleftrightarrow> bit ip k" by (simp add: and_one_eq odd_iff_mod_2_eq_one bit_iff_odd_drop_bit)
  show ?case
  proof (cases "drop_bit k ip = 0")
    case True
    then show ?thesis using no_bits_left [OF True] by (simp add: irq_loop.simps)
  next
    case False
    show ?thesis
      by (subst irq_loop.simps) (simp only: False low step no u filter.simps Suc.hyps(1) [OF m] k Suc_leI if_False split: option.splits if_splits,
        auto simp: Suc.hyps(1) [OF m] k Suc_leI simp del: of_nat_Suc split: option.splits)
  qed
qed

text \<open>What the interrupt controller promises: the registers of queue \<open>n\<close> show its first message, and writing bit \<open>n\<close> to the
  pop register removes it.\<close>

definition msi_law :: "'w board \<Rightarrow> ('w \<Rightarrow> nat \<Rightarrow> msi list) \<Rightarrow> bool" where
  "msi_law b queue \<longleftrightarrow>
     (\<forall>w n. n < 32 \<and> queue w n \<noteq> [] \<longrightarrow>
        io_read b pCpuIrqSlave (4 * (n + 1)) w = (msg (hd (queue w n)), w) \<and>
        io_read b pCpuIrqSlave (4 * (n + 1) + 1) w = (adr (hd (queue w n)), w) \<and>
        io_read b pCpuIrqSlave (4 * (n + 1) + 2) w = (sel (hd (queue w n)), w)) \<and>
     (\<forall>w n. n < 32 \<longrightarrow> queue (io_write b pCpuIrqSlave 2 (2 ^ n) w) = (queue w)(n := tl (queue w n)))"

text \<open>What the handlers of a program do: each returns, leaves the table and the queues alone, and handles the message in
  \<^verbatim>\<open>global_msi\<close>; \<open>handled\<close> reads, from the program's own variables, what was handled: the handler, the message and the
  pending flags it found.\<close>

definition handler_law :: "(nat \<Rightarrow> ('w, 'z) cpu_scheme \<Rightarrow> ('w, 'z) cpu_scheme option) \<Rightarrow> ('w \<Rightarrow> nat \<Rightarrow> msi list) \<Rightarrow> ('z \<Rightarrow> (nat \<times> msi \<times> u32) list) \<Rightarrow> nat set \<Rightarrow> bool" where
  "handler_law isr queue handled ks \<longleftrightarrow>
     (\<forall>k s. k \<in> ks \<longrightarrow> (\<exists>s'. isr k s = Some s' \<and> isr_ptr_table s' = isr_ptr_table s \<and> queue (cpu_io s') = queue (cpu_io s) \<and>
        handled (cpu.more s') = handled (cpu.more s) @ [(k, global_msi s, csr_ip s)]))"

lemma pop_msi:
  assumes "msi_law b queue" "n < 32" "queue (cpu_io s) n \<noteq> []"
  shows "irq_pop_msi b (of_nat n) s =
    s\<lparr>global_msi := hd (queue (cpu_io s) n), cpu_io := io_write b pCpuIrqSlave 2 (2 ^ n) (cpu_io s)\<rparr>"
proof -
  have n: "unat (of_nat n :: u32) = n" using assms(2) by (simp add: unat_of_nat)
  have "unat (push_bit 2 (of_nat n + 1) :: u32) = 4 * (n + 1)"
    using assms(2) by (simp add: push_bit_eq_mult unat_word_ariths unat_of_nat)
  then show ?thesis
    using assms by (simp add: irq_pop_msi_def peek_def poke_def msi_law_def n push_bit_eq_mult Let_def drop_bit_eq_div)
qed

lemma service_handles:
  assumes "msi_law b queue" "handler_law isr queue handled ks" "n < 32" "queue (cpu_io s) n \<noteq> []"
    and "length (isr_ptr_table s) = 32" "isr_ptr_table s ! n \<in> ks" "0 \<notin> ks"
  obtains s' ip where "irq_service b isr (of_nat n) s = Some s'" "isr_ptr_table s' = isr_ptr_table s"
    "queue (cpu_io s') = (queue (cpu_io s))(n := tl (queue (cpu_io s) n))"
    "handled (cpu.more s') = handled (cpu.more s) @ [(isr_ptr_table s ! n, hd (queue (cpu_io s) n), ip)]" "\<not> bit ip n"
proof -
  let ?k = "isr_ptr_table s ! n"
  let ?s = "irq_clear (push_bit n 1) (irq_pop_msi b (of_nat n) s)"
  have n: "unat (of_nat n :: u8) = n" "ucast (of_nat n :: u8) = (of_nat n :: u32)"
    using assms(3) by (simp_all add: unat_of_nat unsigned_of_nat take_bit_nat_eq_self)
  obtain s' where s': "isr ?k ?s = Some s'" "isr_ptr_table s' = isr_ptr_table ?s" "queue (cpu_io s') = queue (cpu_io ?s)"
      "handled (cpu.more s') = handled (cpu.more ?s) @ [(?k, global_msi ?s, csr_ip ?s)]"
    using assms(2,6) unfolding handler_law_def by blast
  note p = pop_msi [OF assms(1,3), of s, OF assms(4)]
  have "?k \<noteq> 0" using assms(6,7) by metis
  then have "irq_service b isr (of_nat n) s = Some s'"
    using s'(1) assms(3,5) by (simp add: irq_service_def n nth_opt_def p irq_clear_def)
  moreover have "queue (cpu_io s') = (queue (cpu_io s))(n := tl (queue (cpu_io s) n))"
    using s'(3) assms(1,3) by (simp add: p irq_clear_def msi_law_def)
  moreover have "\<not> bit (csr_ip ?s) n" by (simp add: irq_clear_def bit_simps)
  ultimately show ?thesis using that [of s' "csr_ip ?s"] s'(2,4) by (simp add: p irq_clear_def)
qed

lemma serve_all_handles:
  assumes "msi_law b queue" "handler_law isr queue handled ks" "0 \<notin> ks" "distinct ns" "\<forall>n \<in> set ns. n < 32 \<and> queue (cpu_io s) n \<noteq> [] \<and> isr_ptr_table s ! n \<in> ks"
    and "length (isr_ptr_table s) = 32"
  shows "\<exists>s' ips. serve_all b isr ns s = Some s' \<and> length ips = length ns \<and> (\<forall>i < length ns. \<not> bit (ips ! i) (ns ! i)) \<and>
    handled (cpu.more s') = handled (cpu.more s) @ map2 (\<lambda>n ip. (isr_ptr_table s ! n, hd (queue (cpu_io s) n), ip)) ns ips \<and>
    (\<forall>n. queue (cpu_io s') n = (if n \<in> set ns then tl (queue (cpu_io s) n) else queue (cpu_io s) n))"
  using assms(4-6)
proof (induction ns arbitrary: s)
  case (Cons n ns)
  obtain s1 ip where s1: "irq_service b isr (of_nat n) s = Some s1" "isr_ptr_table s1 = isr_ptr_table s"
    "queue (cpu_io s1) = (queue (cpu_io s))(n := tl (queue (cpu_io s) n))"
    "handled (cpu.more s1) = handled (cpu.more s) @ [(isr_ptr_table s ! n, hd (queue (cpu_io s) n), ip)]" "\<not> bit ip n"
    using service_handles [OF assms(1,2), of n s] Cons.prems assms(3) by auto
  have same: "queue (cpu_io s1) m = queue (cpu_io s) m" if "m \<in> set ns" for m using that s1(3) Cons.prems(1) by auto
  obtain s' ips where s': "serve_all b isr ns s1 = Some s'" "length ips = length ns" "\<forall>i < length ns. \<not> bit (ips ! i) (ns ! i)"
    "handled (cpu.more s') = handled (cpu.more s1) @ map2 (\<lambda>n ip. (isr_ptr_table s1 ! n, hd (queue (cpu_io s1) n), ip)) ns ips"
    "\<forall>n. queue (cpu_io s') n = (if n \<in> set ns then tl (queue (cpu_io s1) n) else queue (cpu_io s1) n)"
    using Cons.IH [of s1] Cons.prems same s1(2) by auto
  have "map2 (\<lambda>n ip. (isr_ptr_table s1 ! n, hd (queue (cpu_io s1) n), ip)) ns ips = map2 (\<lambda>n ip. (isr_ptr_table s ! n, hd (queue (cpu_io s) n), ip)) ns ips"
    using s1(2) same by (auto dest!: set_zip_leftD)
  then show ?case
    using s1 s' Cons.prems(1) by (intro exI [of _ s'] exI [of _ "ip # ips"]) (auto simp: nth_Cons' less_Suc_eq_0_disj)
qed simp

text \<open>C23: no pending interrupt is lost. Whatever interrupts are pending when the exception is taken, the dispatcher ends, and every
  one of them has been handled exactly once, lowest number first: its handler was called with the first message
  of its own queue in \<^verbatim>\<open>global_msi\<close>, which was removed from that queue only, and found its own pending flag already
  cleared, so that an interrupt that arrives while it runs is seen later.\<close>

theorem irq_all_served:
  assumes "msi_law b queue" and "handler_law isr queue handled ks" and "0 \<notin> ks" and "length (isr_ptr_table s) = 32"
    and "\<forall>n < 32. bit (csr_ip s) n \<longrightarrow> queue (cpu_io s) n \<noteq> [] \<and> isr_ptr_table s ! n \<in> ks"
  defines "ns \<equiv> filter (bit (csr_ip s)) [0..<32]"
  shows "\<exists>s' ips. irq_entry b isr s = Some s' \<and> length ips = length ns \<and> (\<forall>i < length ns. \<not> bit (ips ! i) (ns ! i)) \<and>
    handled (cpu.more s') = handled (cpu.more s) @ map2 (\<lambda>n ip. (isr_ptr_table s ! n, hd (queue (cpu_io s) n), ip)) ns ips \<and>
    (\<forall>n. queue (cpu_io s') n = (if bit (csr_ip s) n then tl (queue (cpu_io s) n) else queue (cpu_io s) n))"
proof -
  have e: "irq_entry b isr s = serve_all b isr ns s"
    using irq_loop_serves [of 0 b isr "csr_ip s" s] unfolding irq_entry_def ns_def by simp
  have m: "n \<in> set ns \<longleftrightarrow> bit (csr_ip s) n" for n
    using bit_imp_le_length [of "csr_ip s" n] unfolding ns_def by fastforce
  have d: "distinct ns" unfolding ns_def by (intro distinct_filter distinct_upt)
  have "\<forall>n \<in> set ns. n < 32 \<and> queue (cpu_io s) n \<noteq> [] \<and> isr_ptr_table s ! n \<in> ks"
    using assms(5) bit_imp_le_length [of "csr_ip s"] by (auto simp: m)
  from serve_all_handles [OF assms(1-3) d this assms(4)] show ?thesis unfolding e m .
qed

text \<open>An interrupt controller whose queues are the state of the world, and a program whose handlers only note what they
  were called for.\<close>

definition demo_msi_board :: "(nat \<Rightarrow> msi list) board" where
  "demo_msi_board = \<lparr>
     io_read = (\<lambda>p i w. (let m = hd (w (i div 4 - 1)) in if i mod 4 = 0 then msg m else if i mod 4 = 1 then adr m else sel m, w)),
     io_write = (\<lambda>p i v w n. if v = 2 ^ n \<and> n < 32 then tl (w n) else w n),
     scub_read = (\<lambda>i w. (0, w)), scub_write = (\<lambda>i v w. w), uart_write_byte = (\<lambda>c w. w)\<rparr>"

definition demo_isr :: "nat \<Rightarrow> (nat \<Rightarrow> msi list, (nat \<times> msi \<times> u32) list) cpu_scheme \<Rightarrow> (nat \<Rightarrow> msi list, (nat \<times> msi \<times> u32) list) cpu_scheme option" where
  "demo_isr k s = Some (cpu.more_update (\<lambda>l. l @ [(k, global_msi s, csr_ip s)]) s)"

definition demo_msi :: "u32 \<Rightarrow> msi" where "demo_msi v = \<lparr>msg = v, adr = 4, sel = 15\<rparr>"

definition demo_irq_cpu :: "(nat \<Rightarrow> msi list, (nat \<times> msi \<times> u32) list) cpu_scheme" where
  "demo_irq_cpu = \<lparr>csr_ip = 0xA, csr_im = 0xA, csr_ie = 0, ier = 0, global_msi = demo_msi 0, isr_ptr_table = [0, 5, 0, 7] @ replicate 28 0,
     cpu_io = (\<lambda>n. if n = 1 then [demo_msi 11, demo_msi 12] else if n = 3 then [demo_msi 31] else []), \<dots> = []\<rparr>"

lemma demo_msi_law: "msi_law demo_msi_board (\<lambda>w. w)"
proof -
  have p: "(2 :: u32) ^ n = 2 ^ m \<longleftrightarrow> n = m" if "n < 32" "m < 32" for n m
  proof
    assume "(2 :: u32) ^ n = 2 ^ m"
    moreover have "bit ((2 :: u32) ^ n) n" using that(1) by (simp add: bit_exp_iff)
    ultimately show "n = m" by (simp add: bit_exp_iff)
  qed simp
  have "(4 * (n + 1) + k) div 4 = n + 1" "(4 * (n + 1) + k) mod 4 = k" if "k < 4" for n k :: nat using that mod_mult_self4 [of 4 "n + 1" k] by simp_all
  from this [of 0] this [of 1] this [of 2] show ?thesis
    by (auto simp: msi_law_def demo_msi_board_def p Let_def fun_eq_iff)
qed

theorem irq_all_served_witness:
  "\<exists>s' ip1 ip3. irq_entry demo_msi_board demo_isr demo_irq_cpu = Some s' \<and> \<not> bit ip1 1 \<and> \<not> bit ip3 3 \<and>
     cpu.more s' = [(5, demo_msi 11, ip1), (7, demo_msi 31, ip3)] \<and> cpu_io s' 1 = [demo_msi 12] \<and> cpu_io s' 3 = []"
proof -
  let ?q = "\<lambda>w :: nat \<Rightarrow> msi list. w" and ?h = "\<lambda>l :: (nat \<times> msi \<times> u32) list. l"
  have h: "handler_law demo_isr ?q ?h {5, 7}" by (simp add: handler_law_def demo_isr_def)
  have bits: "bit (csr_ip demo_irq_cpu) n \<longleftrightarrow> n = 1 \<or> n = 3" for n
  proof -
    have "(0xA :: u32) = push_bit 1 1 OR push_bit 3 1" by simp
    then show ?thesis unfolding demo_irq_cpu_def cpu.simps by (simp only: bit_simps) auto
  qed
  note cpu = demo_irq_cpu_def [THEN arg_cong, of isr_ptr_table] demo_irq_cpu_def [THEN arg_cong, of cpu_io] demo_irq_cpu_def [THEN arg_cong, of cpu.more]
  have ns: "filter (bit (csr_ip demo_irq_cpu)) [0..<32] = [1, 3]" by (simp add: bits upt_rec)
  have "\<forall>n < 32. bit (csr_ip demo_irq_cpu) n \<longrightarrow> cpu_io demo_irq_cpu n \<noteq> [] \<and> isr_ptr_table demo_irq_cpu ! n \<in> {5, 7}"
    by (auto simp: bits cpu)
  moreover have "length (isr_ptr_table demo_irq_cpu) = 32" by (simp add: cpu)
  ultimately obtain s' ips where s': "irq_entry demo_msi_board demo_isr demo_irq_cpu = Some s'" "length ips = 2" "\<forall>i < 2. \<not> bit (ips ! i) ([1, 3] ! i)"
    "cpu.more s' = cpu.more demo_irq_cpu @ map2 (\<lambda>n ip. (isr_ptr_table demo_irq_cpu ! n, hd (cpu_io demo_irq_cpu n), ip)) [1, 3] ips"
    "\<forall>n. cpu_io s' n = (if bit (csr_ip demo_irq_cpu) n then tl (cpu_io demo_irq_cpu n) else cpu_io demo_irq_cpu n)"
    using irq_all_served [OF demo_msi_law h, of demo_irq_cpu, unfolded ns] by (auto simp: numeral_2_eq_2)
  then obtain a c where "ips = [a, c]" by (cases ips; cases "tl ips") auto
  then show ?thesis using s' by (auto simp: cpu bits All_less_Suc numeral_2_eq_2)
qed

text \<open>A closed atomic section gives the interrupt enable bit back; a section inside another leaves it off.\<close>

lemma atomic_section:
  assumes "csr_ie s = 1" "csr_ie s' = csr_ie (atomic_on b s)" "ier s' = ier (atomic_on b s)"
  shows "irq_get_enable (atomic_on b s) = 0" "irq_get_enable (atomic_off b s') = 1"
    "irq_get_enable (atomic_off b (atomic_off b (atomic_on b (atomic_on b s)))) = 0"
  using assms by (simp_all add: atomic_on_def atomic_off_def irq_get_enable_def irq_disable_def poke_def Let_def)

text \<open>\<^verbatim>\<open>uSleep\<close> makes at most 295 idle turns, and none for any time below two years.\<close>

lemma uSleep_returns: "unat (uSleep_cycles uSecs) \<le> 295" "uSecs < 62500000000000 \<Longrightarrow> uSleep_cycles uSecs = 0"
proof -
  let ?c = "uSecs * 1000 div 1000000000 div 62500000"
  have c: "unat ?c = unat (uSecs * 1000) div 62500000000000000" by (simp add: unat_div_distrib div_mult2_eq [symmetric])
  have "unat (uSecs * 1000) < 2 ^ 64" using unsigned_less [of "uSecs * 1000", where ?'a = nat] by simp
  then have c295: "unat ?c \<le> 295" unfolding c by simp
  have u: "unat (uSleep_cycles uSecs) = unat ?c"
    unfolding uSleep_cycles_def unsigned_ucast_eq using c295 by (simp add: take_bit_nat_eq_self)
  then show "unat (uSleep_cycles uSecs) \<le> 295" using c295 by simp
  assume "uSecs < 62500000000000"
  then have "unat (uSecs * 1000) < 62500000000000000" by (simp add: unat_word_ariths word_less_nat_alt)
  then have "unat ?c = 0" unfolding c by simp
  then show "uSleep_cycles uSecs = 0" using u by (simp add: unat_eq_0)
qed

end
