(* ===== verification/Eb_Lm32.thy ===== *)
theory Eb_Lm32
  imports Lm32_Irq Eb_Widths
begin

text \<open>
  The UDP transport of the embedded controllers (\<^verbatim>\<open>api/transport/lm32.c\<close>), which builds the IP and UDP headers itself,
  and the driver of the Etherbone master core, which takes the same addresses
  (\<^verbatim>\<open>modules/lm32-include/ebm.c\<close>). The raw Ethernet interface and the IP address of the controller come from
  another repository and are parameters.
\<close>

section \<open>Strings\<close>

text \<open>A pointer into a string is the list of characters from there on, the terminating zero included; reading
  behind it is a fault. A \<^verbatim>\<open>long\<close> has 32 bits.\<close>

definition NUL :: char where "NUL = CHR 0x00"

fun strsplit :: "string \<Rightarrow> char \<Rightarrow> string option" where
  "strsplit [] d = None"
| "strsplit (c # s) d = (if c = NUL then Some (c # s) else if c = d then Some s else strsplit s d)"

definition strncmp_eq :: "string \<Rightarrow> string \<Rightarrow> bool option" where
  "strncmp_eq prefix pch = (if pch = [] then None else Some (take (length prefix) pch = prefix))"

definition c_sign :: "string \<Rightarrow> int \<times> string" where
  "c_sign s = (case s of [] \<Rightarrow> (1, s) | c # t \<Rightarrow> if c = CHR ''-'' then (-1, t) else if c = CHR ''+'' then (1, t) else (1, s))"

definition c_hex_prefix :: "nat \<Rightarrow> string \<Rightarrow> string" where
  "c_hex_prefix base s =
     (if base = 16 \<and> 3 \<le> length s \<and> s ! 0 = CHR ''0'' \<and> (s ! 1 = CHR ''x'' \<or> s ! 1 = CHR ''X'') \<and> c_is_digit 16 (s ! 2) then drop 2 s else s)"

definition c_strtol :: "nat \<Rightarrow> string \<Rightarrow> (int \<times> string) option" where
  "c_strtol base str =
     (if str = [] then None
      else let (sg, s) = c_sign (dropWhile c_isspace str);
               s = c_hex_prefix base s;
               ds = takeWhile (c_is_digit base) s
           in Some (if ds = [] then (0, str)
                    else (max (- (2 ^ 31)) (min (2 ^ 31 - 1) (sg * c_digits_value base ds)), drop (length ds) s)))"

section \<open>Addresses\<close>

text \<open>\<^verbatim>\<open>struct eb_lm32_udp_link\<close> is 12 bytes: the MAC address, the IP address and the port. \<open>at\<close> is where the bytes of the
  part being parsed begin.\<close>

definition put_byte :: "nat \<Rightarrow> u8 \<Rightarrow> u8 list \<Rightarrow> u8 list option" where
  "put_byte i v raw = set_nth raw i (\<lambda>_. v)"

text \<open>The loop writes two bytes for a number above 255 (a fault when that leaves the link).\<close>

function num_loop :: "string \<Rightarrow> u8 list \<Rightarrow> nat \<Rightarrow> nat \<Rightarrow> nat \<Rightarrow> nat \<Rightarrow> char \<Rightarrow> u8 list option" where
  "num_loop pch raw at byteCount len base d =
     (if len \<le> byteCount then Some raw
      else case strsplit pch d of
        None \<Rightarrow> None
      | Some _ \<Rightarrow>
        (case c_strtol base pch of
           None \<Rightarrow> None
         | Some (tmpconv, pend) \<Rightarrow>
           (case (if tmpconv > 255 then put_byte (at + byteCount) (word_of_int (tmpconv div 256)) raw else Some raw) of
              None \<Rightarrow> None
            | Some raw \<Rightarrow>
              let byteCount = (if tmpconv > 255 then byteCount + 1 else byteCount) in
              (case put_byte (at + byteCount) (word_of_int tmpconv) raw of
                 None \<Rightarrow> None
               | Some raw \<Rightarrow> num_loop (tl pend) raw at (byteCount + 1) len base d))))"
  by pat_completeness auto
termination
  by (relation "measure (\<lambda>(_, _, _, byteCount, len, _). len - byteCount)") (auto split: if_splits)

declare num_loop.simps [simp del]

definition numStrToBytes :: "string \<Rightarrow> u8 list \<Rightarrow> nat \<Rightarrow> nat \<Rightarrow> nat \<Rightarrow> char \<Rightarrow> u8 list option" where
  "numStrToBytes numstr raw at len base d = num_loop numstr raw at 0 len base d"

datatype adress_type = MAC | IP

definition addressStrToBytes :: "string \<Rightarrow> u8 list \<Rightarrow> adress_type \<Rightarrow> u8 list option" where
  "addressStrToBytes addressStr raw addtype =
     (case addtype of
        MAC \<Rightarrow> numStrToBytes addressStr raw 0 6 16 CHR '':''
      | IP \<Rightarrow> numStrToBytes addressStr raw 6 4 10 CHR ''.'')"

text \<open>Setting \<^verbatim>\<open>link->port\<close>, in big-endian order.\<close>

definition set_port :: "int \<Rightarrow> u8 list \<Rightarrow> u8 list" where
  "set_port v raw = (let p = (word_of_int v :: u16) in raw[10 := ucast (drop_bit 8 p), 11 := ucast p])"

definition eb_lm32_udp_connect :: "u8 list \<Rightarrow> string \<Rightarrow> (eb_status_t \<times> u8 list) option" where
  "eb_lm32_udp_connect raw address = do {
     hw \<leftarrow> strncmp_eq ''hw'' address;
     if \<not> hw then Some (EB_FAIL, raw)
     else do {
       pch \<leftarrow> strsplit address CHR ''/'';
       raw \<leftarrow> addressStrToBytes pch raw MAC;
       pch \<leftarrow> strsplit pch CHR ''/'';
       udp \<leftarrow> strncmp_eq ''udp'' pch;
       if \<not> udp then Some (EB_FAIL, raw)
       else do {
         pch \<leftarrow> strsplit pch CHR ''/'';
         raw \<leftarrow> addressStrToBytes pch raw IP;
         pch \<leftarrow> strsplit pch CHR ''/'';
         is_port \<leftarrow> strncmp_eq ''port'' pch;
         if \<not> is_port then Some (EB_FAIL, raw)
         else do {
           pch \<leftarrow> strsplit pch CHR ''/'';
           (v, _) \<leftarrow> c_strtol 10 pch;
           Some (EB_OK, set_port v raw)
         }
       }
     }
   }"

section \<open>Headers\<close>

text \<open>\<open>shorts\<close> big-endian pairs of bytes are added.\<close>

fun add_shorts :: "nat \<Rightarrow> u8 list \<Rightarrow> u32 \<Rightarrow> u32 option" where
  "add_shorts 0 buf s = Some s"
| "add_shorts (Suc n) (hi # lo # buf) s = add_shorts n buf (s + (push_bit 8 (ucast hi) OR ucast lo))"
| "add_shorts (Suc n) _ s = None"

text \<open>Folding the carries in twice, and the complement.\<close>

definition fold_carries :: "u32 \<Rightarrow> u16" where
  "fold_carries s =
     (let s = drop_bit 16 s + (s AND 0xffff);
          s = s + drop_bit 16 s
      in ucast (NOT s AND 0xffff))"

definition myIP_checksum :: "u8 list \<Rightarrow> nat \<Rightarrow> u16 option" where
  "myIP_checksum buf shorts = do { s \<leftarrow> add_shorts shorts buf 0; Some (fold_carries s) }"

definition be16 :: "u8 list \<Rightarrow> nat \<Rightarrow> u32" where
  "be16 buf i = push_bit 8 (ucast (buf ! i)) OR ucast (buf ! (i + 1))"

text \<open>An odd byte at the end is added together with the byte behind it, and the byte two further on once more.\<close>

definition udp_checksum :: "u8 list \<Rightarrow> u8 list \<Rightarrow> u16 \<Rightarrow> u16 option" where
  "udp_checksum hdrbuf databuf len = do {
     s \<leftarrow> add_shorts ((unat len + 1) div 2) databuf 0;
     s \<leftarrow> (if odd (unat len) then do { b \<leftarrow> nth_opt databuf (unat len + 2); Some (s + push_bit 8 (ucast b)) } else Some s);
     if length hdrbuf < 28 then None
     else
       let pseudosum = be16 hdrbuf 12 + be16 hdrbuf 14 + be16 hdrbuf 16 + be16 hdrbuf 18 + (ucast (hdrbuf ! 9) AND 0x00FF) +
             be16 hdrbuf 20 + be16 hdrbuf 22 + be16 hdrbuf 24 + be16 hdrbuf 26;
           s = s + (pseudosum + ucast len + 8)
       in Some (fold_carries s)
   }"

definition put_bytes :: "nat \<Rightarrow> u8 list \<Rightarrow> u8 list \<Rightarrow> u8 list" where
  "put_bytes i vs buf = take i buf @ vs @ drop (i + length vs) buf"

definition word_bytes :: "u16 \<Rightarrow> u8 list" where
  "word_bytes v = [ucast (drop_bit 8 v), ucast v]"

text \<open>\<open>my_ip\<close> is what \<^verbatim>\<open>getIP\<close> stores; the own port is \<^verbatim>\<open>0xEBD0\<close>.\<close>

definition createUdpIpHdr :: "u8 list \<Rightarrow> u8 list \<Rightarrow> u8 list \<Rightarrow> u8 list \<Rightarrow> u16 \<Rightarrow> u8 list option" where
  "createUdpIpHdr raw my_ip hdrbuf databuf len =
     (if length hdrbuf < 28 then None
      else do {
        let iptol = len + 28;
        let udplen = len + 8;
        let h = put_bytes 0 [0x45, 0x00] hdrbuf;
        let h = put_bytes 2 (word_bytes iptol) h;
        let h = put_bytes 4 [0, 0, 0, 0] h;
        let h = put_bytes 9 [0x11] h;
        let h = put_bytes 8 [0x10] h;
        let h = put_bytes 10 [0, 0] h;
        let h = put_bytes 12 my_ip h;
        let h = put_bytes 16 (take 4 (drop 6 raw)) h;
        ipchksum \<leftarrow> myIP_checksum h 10;
        let h = put_bytes 10 (word_bytes ipchksum) h;
        let h = put_bytes 20 [0xEB, 0xD0] h;
        let h = put_bytes 22 (drop 10 raw) h;
        let h = put_bytes 24 (word_bytes udplen) h;
        let h = put_bytes 26 [0, 0] h;
        s \<leftarrow> udp_checksum h databuf len;
        Some (put_bytes 26 (word_bytes s) h)
      })"

section \<open>The methods of the transport\<close>

text \<open>\<^verbatim>\<open>wr_sockaddr_t\<close>, as far as the code uses it, and the raw Ethernet interface.\<close>

record wr_sockaddr =
  if_name :: string
  ethertype :: u16
  family_raw :: bool
  peer_mac :: "u8 list"

record 'w ptpd =
  pt_create :: "wr_sockaddr \<Rightarrow> 'w \<Rightarrow> nat option \<times> 'w"
  pt_recvfrom :: "nat \<Rightarrow> nat \<Rightarrow> 'w \<Rightarrow> int \<times> wr_sockaddr \<times> 'w"
  pt_sendto :: "nat \<Rightarrow> wr_sockaddr \<Rightarrow> u8 list \<Rightarrow> 'w \<Rightarrow> 'w"
  pt_getIP :: "'w \<Rightarrow> u8 list"

abbreviation (input) EB_LM32_UDP_MTU :: nat where "EB_LM32_UDP_MTU \<equiv> 1472"

definition eb_lm32_udp_open :: "'w ptpd \<Rightarrow> string \<Rightarrow> 'w \<Rightarrow> eb_status_t \<times> wr_sockaddr \<times> nat option \<times> 'w" where
  "eb_lm32_udp_open pt port w =
     (let saddr = \<lparr>if_name = port, ethertype = 0x0800, family_raw = True, peer_mac = replicate 6 1\<rparr>;
          (sock4, w) = pt_create pt saddr w
      in (if sock4 = None then EB_BUSY else EB_OK, saddr, sock4, w))"

text \<open>The result of \<^verbatim>\<open>poll\<close> and the addresses seen. The received bytes are copied over the parameter \<^verbatim>\<open>buf\<close> itself, a pointer
  of 4 bytes, which is a fault for more than 4.\<close>

definition eb_lm32_udp_poll :: "'w ptpd \<Rightarrow> nat \<Rightarrow> wr_sockaddr \<Rightarrow> int \<Rightarrow> 'w \<Rightarrow> (int \<times> wr_sockaddr \<times> 'w) option" where
  "eb_lm32_udp_poll pt sock saddr len w =
     (let (r, saddr, w) = pt_recvfrom pt sock 1500 w;
          rx_len = uint (word_of_int r :: u16)
      in if rx_len \<le> 0 then Some (-1, saddr, w)
         else if rx_len < len then Some (-1, saddr, w)
         else if 0 \<le> rx_len - 28 \<and> rx_len - 28 \<le> 4 then Some (rx_len - 28, saddr, w)
         else None)"

definition eb_lm32_udp_send :: "'w ptpd \<Rightarrow> nat \<Rightarrow> wr_sockaddr \<Rightarrow> u8 list \<Rightarrow> u8 list \<Rightarrow> u8 list \<Rightarrow> nat \<Rightarrow> 'w \<Rightarrow> (wr_sockaddr \<times> 'w) option" where
  "eb_lm32_udp_send pt sock saddr raw tx_buf buf len w = do {
     let saddr = saddr\<lparr>peer_mac := take 6 raw\<rparr>;
     tx_buf \<leftarrow> createUdpIpHdr raw (pt_getIP pt w) tx_buf buf (of_nat len);
     if len \<le> length buf \<and> 28 + len \<le> length tx_buf
     then Some (saddr, pt_sendto pt sock saddr (take (28 + len) (put_bytes 28 (take len buf) tx_buf)) w)
     else None
   }"

section \<open>The Etherbone master core\<close>

definition ebm_parse_adr :: "u8 list \<Rightarrow> string \<Rightarrow> (u32 \<times> u8 list) option" where
  "ebm_parse_adr raw address = do {
     hw \<leftarrow> strncmp_eq ''hw'' address;
     if \<not> hw then Some (1, raw)
     else do {
       pch \<leftarrow> strsplit address CHR ''/'';
       raw \<leftarrow> addressStrToBytes pch raw MAC;
       pch \<leftarrow> strsplit pch CHR ''/'';
       udp \<leftarrow> strncmp_eq ''udp'' pch;
       if \<not> udp then Some (1, raw)
       else do {
         pch \<leftarrow> strsplit pch CHR ''/'';
         raw \<leftarrow> addressStrToBytes pch raw IP;
         pch \<leftarrow> strsplit pch CHR ''/'';
         is_port \<leftarrow> strncmp_eq ''port'' pch;
         if \<not> is_port then Some (1, raw)
         else do {
           pch \<leftarrow> strsplit pch CHR ''/'';
           (v, _) \<leftarrow> c_strtol 10 pch;
           Some (0, set_port v raw)
         }
       }
     }
   }"

abbreviation (input) EBM_REG_FLUSH :: u32 where "EBM_REG_FLUSH \<equiv> 4"
abbreviation (input) EBM_REG_PAC_LEN :: u32 where "EBM_REG_PAC_LEN \<equiv> 44"
abbreviation (input) EBM_REG_OPA_HI :: u32 where "EBM_REG_OPA_HI \<equiv> 48"
abbreviation (input) EBM_REG_OPS_MAX :: u32 where "EBM_REG_OPS_MAX \<equiv> 52"
abbreviation (input) EBM_REG_EB_OPT :: u32 where "EBM_REG_EB_OPT \<equiv> 64"
abbreviation (input) EBM_OFFS_DAT :: u32 where "EBM_OFFS_DAT \<equiv> 0x00800000"
abbreviation (input) EBM_ADR_MASK :: u32 where "EBM_ADR_MASK \<equiv> 0x003FFFFF"

definition ebm_config_meta :: "'w board \<Rightarrow> u32 \<Rightarrow> u32 \<Rightarrow> u32 \<Rightarrow> u32 \<Rightarrow> ('w, 'z) cpu_scheme \<Rightarrow> ('w, 'z) cpu_scheme" where
  "ebm_config_meta b pac_len hi_bits max_ops eb_ops s =
     (let s = poke b pEbm (unat (drop_bit 2 EBM_REG_PAC_LEN)) pac_len s;
          s = poke b pEbm (unat (drop_bit 2 EBM_REG_OPA_HI)) hi_bits s;
          s = poke b pEbm (unat (drop_bit 2 EBM_REG_OPS_MAX)) max_ops s
      in poke b pEbm (unat (drop_bit 2 EBM_REG_EB_OPT)) eb_ops s)"

definition ebm_op :: "'w board \<Rightarrow> u32 \<Rightarrow> u32 \<Rightarrow> u32 \<Rightarrow> ('w, 'z) cpu_scheme \<Rightarrow> ('w, 'z) cpu_scheme" where
  "ebm_op b address v optype s =
     (let offset = EBM_OFFS_DAT;
          offset = offset + optype;
          offset = offset + (address AND EBM_ADR_MASK)
      in poke b pEbm (unat (drop_bit 2 offset)) v s)"

definition ebm_flush :: "'w board \<Rightarrow> ('w, 'z) cpu_scheme \<Rightarrow> ('w, 'z) cpu_scheme" where
  "ebm_flush b s = poke b pEbm (unat (drop_bit 2 EBM_REG_FLUSH)) 0x01 s"


section \<open>The checksums\<close>

text \<open>The 16-bit words of a byte sequence, and their ones' complement sum (RFC 1071).\<close>

fun short_vals :: "u8 list \<Rightarrow> nat list" where
  "short_vals (hi # lo # bs) = (256 * unat hi + unat lo) # short_vals bs"
| "short_vals [b] = [256 * unat b]"
| "short_vals [] = []"

definition oc_add :: "nat \<Rightarrow> nat \<Rightarrow> nat" where
  "oc_add a b = (if a + b < 65536 then a + b else a + b - 65535)"

definition oc_sum :: "nat list \<Rightarrow> nat" where
  "oc_sum ws = foldr oc_add ws 0"

lemma byte_less: "unat (b :: u8) < 256"
  using unsigned_less [of b, where ?'a = nat] by simp

lemma short_val_less: "256 * unat (hi :: u8) + unat (lo :: u8) < 65536"
  using byte_less [of hi] byte_less [of lo] by linarith

lemma short_vals_less: "v \<in> set (short_vals bs) \<Longrightarrow> v < 65536"
proof (induction bs rule: short_vals.induct)
  case (1 hi lo bs)
  then show ?case using short_val_less [of hi lo] by auto
next
  case (2 b)
  then show ?case using short_val_less [of b 0] by simp
qed simp

lemma oc_sum_mod:
  assumes "\<forall>v \<in> set ws. v < 65536"
  shows "oc_sum ws < 65536 \<and> oc_sum ws mod 65535 = sum_list ws mod 65535 \<and> (oc_sum ws = 0 \<longleftrightarrow> sum_list ws = 0)"
  using assms
proof (induction ws)
  case (Cons v ws)
  let ?s = "oc_sum ws"
  have IH: "?s < 65536" "?s mod 65535 = sum_list ws mod 65535" "?s = 0 \<longleftrightarrow> sum_list ws = 0" using Cons by auto
  have c: "oc_sum (v # ws) = oc_add v ?s" by (simp add: oc_sum_def)
  have "(v + ?s) mod 65535 = (v + sum_list ws) mod 65535" using IH(2) by (metis mod_add_right_eq)
  moreover have "(v + ?s - 65535) mod 65535 = (v + ?s) mod 65535" if "65536 \<le> v + ?s" using that by (simp add: le_mod_geq)
  ultimately show ?case using IH(1,3) Cons.prems unfolding c by (auto simp: oc_add_def)
qed (simp add: oc_sum_def)

lemma oc_sum_verifies:
  assumes "sum_list ws mod 65535 = 0" "0 < sum_list ws" "\<forall>v \<in> set ws. v < 65536"
  shows "oc_sum ws = 65535"
proof -
  have o: "oc_sum ws < 65536" "oc_sum ws mod 65535 = 0" "oc_sum ws \<noteq> 0"
    using oc_sum_mod [OF assms(3)] assms(1,2) by (metis less_numeral_extra(3))+
  show ?thesis
  proof (cases "oc_sum ws < 65535")
    case True
    then show ?thesis using o by simp
  qed (use o in simp)
qed

lemma short_word: "unat (push_bit 8 (ucast (hi :: u8)) OR ucast (lo :: u8) :: u32) = 256 * unat hi + unat lo"
proof -
  have "push_bit 8 (ucast hi) OR ucast lo = (push_bit 8 (ucast hi) + ucast lo :: u32)"
    by (rule disjunctive_add [symmetric]) (auto simp: bit_simps dest: bit_imp_le_length)
  moreover have "unat (push_bit 8 (ucast hi) + ucast lo :: u32) = 256 * unat hi + unat lo"
    using byte_less [of hi] byte_less [of lo] by (simp add: push_bit_eq_mult unat_word_ariths unsigned_ucast_eq take_bit_nat_eq_self)
  ultimately show ?thesis by simp
qed

lemma add_shorts_sum:
  assumes "2 * n \<le> length buf"
  shows "add_shorts n buf s = Some (s + of_nat (sum_list (short_vals (take (2 * n) buf))))"
  using assms
proof (induction n arbitrary: buf s)
  case (Suc n)
  then obtain hi lo b where b: "buf = hi # lo # b" "2 * n \<le> length b"
    by (cases buf; cases "tl buf") auto
  have "(push_bit 8 (ucast hi) OR ucast lo :: u32) = of_nat (256 * unat hi + unat lo)"
    by (metis short_word of_nat_unat ucast_id)
  then show ?case using Suc.IH [OF b(2)] by (simp add: b(1) ac_simps)
qed simp

lemma unat_NOT16: "unat (NOT x :: u16) = 65535 - unat x"
proof -
  have "NOT x = -1 - x" by (simp add: not_eq_complement)
  moreover have "unat (-1 - x) = unat (-1 :: u16) - unat x" by (rule unat_sub) (rule word_n1_ge)
  moreover have "unat (-1 :: u16) = 65535" by (simp add: unsigned_minus_1_eq_mask mask_eq_exp_minus_1)
  ultimately show ?thesis by simp
qed

lemma fold_carries_complement: "(unat s + unat (fold_carries s)) mod 65535 = 0"
proof -
  define a b where "a = unat s div 65536" and "b = unat s mod 65536"
  have S: "unat s = 65536 * a + b" unfolding a_def b_def by simp
  have ab: "a < 65536" "b < 65536"
    using unsigned_less [of s, where ?'a = nat] by (simp_all add: a_def b_def less_mult_imp_div_less)
  define s1 where "s1 = drop_bit 16 s + (s AND 0xffff)"
  have "s AND 0xffff = take_bit 16 s" by (simp add: take_bit_eq_mask mask_numeral)
  then have u1: "unat s1 = a + b"
    using ab by (simp add: s1_def unat_word_ariths unat_drop_bit_eq unsigned_take_bit_eq drop_bit_eq_div take_bit_eq_mod a_def b_def)
  define s2 where "s2 = s1 + drop_bit 16 s1"
  have u2: "unat s2 = (a + b) + (a + b) div 65536"
    using ab by (simp add: s2_def unat_word_ariths unat_drop_bit_eq drop_bit_eq_div u1)
  have fc: "fold_carries s = ucast (NOT s2 AND 0xffff)" by (simp only: fold_carries_def Let_def s1_def s2_def)
  have ffff: "(0xffff :: u32) = mask 16" by (simp add: mask_eq_exp_minus_1)
  have n: "fold_carries s = NOT (ucast s2)"
    unfolding fc ffff by (rule bit_word_eqI) (auto simp: bit_simps)
  have "unat (ucast s2 :: u16) = unat s2 mod 65536" by (simp add: unsigned_ucast_eq take_bit_eq_mod)
  then have f: "unat (fold_carries s) = 65535 - unat s2 mod 65536"
    unfolding n unat_NOT16 by simp
  show ?thesis
  proof (cases "a + b < 65536")
    case True
    then have "unat s + unat (fold_carries s) = 65535 * a + 65535" unfolding S f u2 by simp
    then show ?thesis by simp
  next
    case False
    then have "(a + b) div 65536 = 1" using ab by (simp add: div_nat_eqI)
    then have "unat s2 mod 65536 = a + b - 65535" unfolding u2 using False ab by (simp add: mod_if)
    then have "unat s + unat (fold_carries s) = 65535 * a + 2 * 65535" unfolding S f using False ab by simp
    then show ?thesis by (metis mod_add_self2 mod_mult_self1_is_0 mod_mult_self3 mult.commute mult_2 add.commute mod_self)
  qed
qed


lemma be16_val: "i + 1 < length h \<Longrightarrow> be16 h i = of_nat (256 * unat (h ! i) + unat (h ! (i + 1)))"
  unfolding be16_def by (metis short_word of_nat_unat ucast_id)

lemma word_bytes_val: "256 * unat (ucast (drop_bit 8 v) :: u8) + unat (ucast v :: u8) = unat (v :: u16)"
proof -
  have l: "unat v < 65536" using unsigned_less [of v, where ?'a = nat] by simp
  have "unat (ucast (drop_bit 8 v) :: u8) = unat v div 256"
    using l by (simp add: unsigned_ucast_eq drop_bit_eq_div unat_div_distrib take_bit_eq_mod div_less_iff_less_mult)
  moreover have "unat (ucast v :: u8) = unat v mod 256" by (simp add: unsigned_ucast_eq take_bit_eq_mod)
  ultimately show ?thesis by simp
qed

lemma short_vals_append: "even (length xs) \<Longrightarrow> short_vals (xs @ ys) = short_vals xs @ short_vals ys"
  by (induction xs rule: short_vals.induct) auto

lemma sum_shorts_bound: "sum_list (short_vals xs) \<le> 65535 * ((length xs + 1) div 2)"
proof -
  have len: "length (short_vals xs) = (length xs + 1) div 2" by (induction xs rule: short_vals.induct) auto
  have "sum_list (short_vals xs) \<le> (\<Sum>v \<leftarrow> short_vals xs. 65535)"
    using short_vals_less by (intro sum_list_mono [where f = "\<lambda>v. v", simplified]) fastforce
  then show ?thesis by (simp add: sum_list_triv len)
qed

lemma complement_of_nat:
  assumes "X < 2 ^ 32"
  shows "(X + unat (fold_carries (of_nat X))) mod 65535 = 0"
  using fold_carries_complement [of "of_nat X"] assms by (simp add: unat_of_nat)

lemma myIP_checksum_complement:
  assumes "2 * n \<le> length buf" "n < 65536"
  obtains ck where "myIP_checksum buf n = Some ck" "(sum_list (short_vals (take (2 * n) buf)) + unat ck) mod 65535 = 0"
proof -
  let ?S = "sum_list (short_vals (take (2 * n) buf))"
  have "?S < 2 ^ 32" using sum_shorts_bound [of "take (2 * n) buf"] assms by simp
  then show ?thesis using that complement_of_nat [of ?S] add_shorts_sum [OF assms(1), of 0] by (simp add: myIP_checksum_def)
qed

definition short_at :: "u8 list \<Rightarrow> nat \<Rightarrow> nat" where
  "short_at h i = 256 * unat (h ! i) + unat (h ! (i + 1))"

lemma udp_checksum_complement:
  assumes "even (unat len)" "unat len \<le> length databuf" "28 \<le> length h"
  obtains ck where "udp_checksum h databuf len = Some ck"
    "(sum_list (short_vals (take (unat len) databuf)) + (short_at h 12 + short_at h 14 + short_at h 16 + short_at h 18 + unat (h ! 9) +
      short_at h 20 + short_at h 22 + short_at h 24 + short_at h 26 + unat len + 8) + unat ck) mod 65535 = 0"
proof -
  define n where "n = unat len div 2"
  have n: "unat len = 2 * n" "(unat len + 1) div 2 = n" using assms(1) by (auto simp: n_def elim: evenE)
  define P where "P = short_at h 12 + short_at h 14 + short_at h 16 + short_at h 18 + unat (h ! 9) +
      short_at h 20 + short_at h 22 + short_at h 24 + short_at h 26 + unat len + 8"
  let ?X = "sum_list (short_vals (take (unat len) databuf)) + P"
  have l: "unat len < 65536" using unsigned_less [of len, where ?'a = nat] by simp
  have "short_at h i < 65536" for i unfolding short_at_def by (rule short_val_less)
  from this [of 12] this [of 14] this [of 16] this [of 18] this [of 20] this [of 22] this [of 24] this [of 26]
  have "P < 9 * 65536 + 65536" using byte_less [of "h ! 9"] l unfolding P_def by linarith
  moreover have "sum_list (short_vals (take (unat len) databuf)) \<le> 65535 * 32768"
    using sum_shorts_bound [of "take (unat len) databuf"] assms(2) n l by simp
  ultimately have X: "?X < 2 ^ 32" by simp
  have be: "be16 h i = of_nat (short_at h i)" if "i < 27" for i using be16_val [of i h] that assms(3) by (simp add: short_at_def)
  have lo: "(ucast (h ! 9) AND 0x00FF :: u32) = of_nat (unat (h ! 9))"
  proof -
    have m: "(0x00FF :: u32) = mask 8" by (simp add: mask_eq_exp_minus_1)
    have "bit (h ! 9) k \<Longrightarrow> k < 8" for k using bit_imp_le_length [of "h ! 9" k] by simp
    then have "(ucast (h ! 9) AND 0x00FF :: u32) = ucast (h ! 9)" unfolding m by (auto intro!: bit_word_eqI simp: bit_simps)
    then show ?thesis by (metis of_nat_unat)
  qed
  have ln: "(ucast len :: u32) = of_nat (unat len)" by (metis of_nat_unat)
  have "of_nat (sum_list (short_vals (take (2 * n) databuf))) + (be16 h 12 + be16 h 14 + be16 h 16 + be16 h 18 + (ucast (h ! 9) AND 0x00FF) +
             be16 h 20 + be16 h 22 + be16 h 24 + be16 h 26 + ucast len + 8) = (of_nat ?X :: u32)"
    by (simp add: be lo ln P_def n(1))
  then have "udp_checksum h databuf len = Some (fold_carries (of_nat ?X))"
    using add_shorts_sum [of n databuf 0] assms(2,3) n assms(1) by (simp add: udp_checksum_def Let_def)
  then show ?thesis using that complement_of_nat [OF X] unfolding P_def by simp
qed


text \<open>The header field by field.\<close>

definition header :: "u16 \<Rightarrow> u16 \<Rightarrow> u16 \<Rightarrow> u8 list \<Rightarrow> u8 list \<Rightarrow> u8 list \<Rightarrow> u16 \<Rightarrow> u8 list" where
  "header iptol ipck udpck my_ip peer_ip peer_port udplen =
     [0x45, 0x00] @ word_bytes iptol @ [0, 0, 0, 0, 0x10, 0x11] @ word_bytes ipck @ my_ip @ peer_ip @
     [0xEB, 0xD0] @ peer_port @ word_bytes udplen @ word_bytes udpck"

lemma put_bytes_at: "length as = i \<Longrightarrow> length old = length vs \<Longrightarrow> put_bytes i vs (as @ old @ bs) = as @ vs @ bs"
  by (simp add: put_bytes_def)

lemma put_bytes_eval:
  "put_bytes 0 [] bs = bs" "put_bytes 0 (v # vs) (x # bs) = v # put_bytes 0 vs bs"
  "put_bytes (Suc i) vs (x # bs) = x # put_bytes i vs bs" "put_bytes (numeral k) vs (x # bs) = x # put_bytes (pred_numeral k) vs bs"
  by (simp_all add: put_bytes_def numeral_eq_Suc)

lemma list_28:
  assumes "28 \<le> length (h :: u8 list)"
  obtains b0 b1 b2 b3 b4 b5 b6 b7 b8 b9 b10 b11 b12 b13 b14 b15 b16 b17 b18 b19 b20 b21 b22 b23 b24 b25 b26 b27 r where
    "h = [b0, b1, b2, b3, b4, b5, b6, b7, b8, b9, b10, b11, b12, b13, b14, b15, b16, b17, b18, b19, b20, b21, b22, b23, b24, b25, b26, b27] @ r"
proof -
  obtain t where t: "t = take 28 h" "length t = 28" using assms by simp
  from t(2) obtain b0 b1 b2 b3 b4 b5 b6 b7 b8 b9 b10 b11 b12 b13 b14 b15 b16 b17 b18 b19 b20 b21 b22 b23 b24 b25 b26 b27 where
    "t = [b0, b1, b2, b3, b4, b5, b6, b7, b8, b9, b10, b11, b12, b13, b14, b15, b16, b17, b18, b19, b20, b21, b22, b23, b24, b25, b26, b27]"
    by (auto simp: numeral_eq_Suc length_Suc_conv)
  then show ?thesis using that append_take_drop_id [of 28 h] t(1) by metis
qed

lemma create_header:
  assumes "length raw = 12" "length my_ip = 4" "28 \<le> length hdrbuf" "even (unat len)" "unat len \<le> length databuf"
    "unat len \<le> 1472"
  obtains ipck udpck where
    "createUdpIpHdr raw my_ip hdrbuf databuf len =
       Some (header (len + 28) ipck udpck my_ip (take 4 (drop 6 raw)) (drop 10 raw) (len + 8) @ drop 28 hdrbuf)"
    "sum_list (short_vals (take 20 (header (len + 28) ipck udpck my_ip (take 4 (drop 6 raw)) (drop 10 raw) (len + 8)))) mod 65535 = 0"
    "(sum_list (short_vals (take (unat len) databuf)) + sum_list (short_vals (my_ip @ take 4 (drop 6 raw) @ [0, 0x11] @ word_bytes (len + 8))) +
      sum_list (short_vals (drop 20 (header (len + 28) ipck udpck my_ip (take 4 (drop 6 raw)) (drop 10 raw) (len + 8))))) mod 65535 = 0"
proof -
  obtain b0 b1 b2 b3 b4 b5 b6 b7 b8 b9 b10 b11 b12 b13 b14 b15 b16 b17 b18 b19 b20 b21 b22 b23 b24 b25 b26 b27 r where
    h: "hdrbuf = [b0, b1, b2, b3, b4, b5, b6, b7, b8, b9, b10, b11, b12, b13, b14, b15, b16, b17, b18, b19, b20, b21, b22, b23, b24, b25, b26, b27] @ r"
    using list_28 [OF assms(3)] .
  obtain s0 s1 s2 s3 where ip: "my_ip = [s0, s1, s2, s3]" using assms(2) by (auto simp: numeral_eq_Suc length_Suc_conv)
  obtain m0 m1 m2 m3 m4 m5 d0 d1 d2 d3 p0 p1 where raw: "raw = [m0, m1, m2, m3, m4, m5, d0, d1, d2, d3, p0, p1]"
    using assms(1) by (auto simp: numeral_eq_Suc length_Suc_conv)
  let ?t = "ucast (drop_bit 8 (len + 28)) :: u8" and ?u = "ucast (len + 28) :: u8"
  let ?v = "ucast (drop_bit 8 (len + 8)) :: u8" and ?w = "ucast (len + 8) :: u8"
  define h1 where "h1 = [0x45, 0, ?t, ?u, 0, 0, 0, 0, 0x10, 0x11, 0, 0, s0, s1, s2, s3, d0, d1, d2, d3, b20, b21, b22, b23, b24, b25, b26, b27] @ r"
  obtain ipck where ipck: "myIP_checksum h1 10 = Some ipck" "(sum_list (short_vals (take 20 h1)) + unat ipck) mod 65535 = 0"
    using myIP_checksum_complement [of 10 h1] by (auto simp: h1_def)
  let ?i = "ucast (drop_bit 8 ipck) :: u8" and ?j = "ucast ipck :: u8"
  define h2 where "h2 = [0x45, 0, ?t, ?u, 0, 0, 0, 0, 0x10, 0x11, ?i, ?j, s0, s1, s2, s3, d0, d1, d2, d3, 0xEB, 0xD0, p0, p1, ?v, ?w, 0, 0] @ r"
  have l2: "28 \<le> length h2" by (simp add: h2_def)
  obtain ck where ck: "udp_checksum h2 databuf len = Some ck"
    "(sum_list (short_vals (take (unat len) databuf)) + (short_at h2 12 + short_at h2 14 + short_at h2 16 + short_at h2 18 + unat (h2 ! 9) +
      short_at h2 20 + short_at h2 22 + short_at h2 24 + short_at h2 26 + unat len + 8) + unat ck) mod 65535 = 0"
    using udp_checksum_complement [OF assms(4,5) l2] .
  have "createUdpIpHdr raw my_ip hdrbuf databuf len = Some (put_bytes 26 (word_bytes ck) h2)"
  proof -
    have n: "\<not> length hdrbuf < 28" "take 4 (drop 6 raw) = [d0, d1, d2, d3]" "drop 10 raw = [p0, p1]" using assms(3) by (simp_all add: raw)
    show ?thesis
      unfolding createUdpIpHdr_def if_not_P [OF n(1)] n(2,3)
      by (simp only: h ip Let_def put_bytes_eval word_bytes_def append_Cons append_Nil pred_numeral_simps BitM.simps One_nat_def
          numeral_One bind.simps ipck(1) [unfolded h1_def append_Cons append_Nil] ck(1) [unfolded h2_def append_Cons append_Nil] h2_def)
  qed
  moreover have "put_bytes 26 (word_bytes ck) h2 =
      header (len + 28) ipck ck my_ip (take 4 (drop 6 raw)) (drop 10 raw) (len + 8) @ drop 28 hdrbuf"
    by (simp add: h2_def put_bytes_eval word_bytes_def header_def h ip raw)
  moreover have "sum_list (short_vals (take 20 h1)) + unat ipck =
      sum_list (short_vals (take 20 (header (len + 28) ipck ck my_ip (take 4 (drop 6 raw)) (drop 10 raw) (len + 8))))"
    by (simp add: h1_def header_def word_bytes_def ip raw word_bytes_val del: add.assoc)
  moreover have "short_at h2 12 + short_at h2 14 + short_at h2 16 + short_at h2 18 + unat (h2 ! 9) + short_at h2 20 + short_at h2 22 + short_at h2 24 +
        short_at h2 26 + unat len + 8 + unat ck =
      sum_list (short_vals (my_ip @ take 4 (drop 6 raw) @ [0, 0x11] @ word_bytes (len + 8))) +
      sum_list (short_vals (drop 20 (header (len + 28) ipck ck my_ip (take 4 (drop 6 raw)) (drop 10 raw) (len + 8))))"
  proof -
    have "unat (len + 8) = unat len + 8" using assms(6) by (simp add: unat_word_ariths)
    then show ?thesis
      by (simp add: h2_def short_at_def header_def word_bytes_def ip raw word_bytes_val)
  qed
  ultimately show ?thesis using that [of ipck ck] ipck(2) ck(2) by (simp only: add.assoc)
qed


text \<open>C25: the frames the controller sends are valid. Sending a message of an even number of bytes up to the packet size never leaves the
  transmit buffer and hands the network a frame whose IP and UDP headers name the own and the peer's address and
  ports and the right lengths, and in which, as a receiver checks (RFC 791, RFC 768), the ones' complement sums of the
  IP header and of the UDP message with its pseudo header are all ones.\<close>

theorem lm32_frame_verifies:
  assumes "length raw = 12" and "length (pt_getIP pt w) = 4" and "length tx_buf = 1500" and "even len" and "len \<le> 1472" and "len \<le> length buf"
  shows "\<exists>h. eb_lm32_udp_send pt sock saddr raw tx_buf buf len w =
      Some (saddr\<lparr>peer_mac := take 6 raw\<rparr>, pt_sendto pt sock (saddr\<lparr>peer_mac := take 6 raw\<rparr>) (h @ take len buf) w) \<and>
    length h = 28 \<and> take 4 (drop 12 h) = pt_getIP pt w \<and> take 4 (drop 16 h) = take 4 (drop 6 raw) \<and>
    take 2 (drop 20 h) = [0xEB, 0xD0] \<and> take 2 (drop 22 h) = drop 10 raw \<and> short_at h 2 = 28 + len \<and> short_at h 24 = 8 + len \<and>
    oc_sum (short_vals (take 20 h)) = 65535 \<and>
    oc_sum (short_vals (take 8 (drop 12 h) @ [0, h ! 9] @ take 2 (drop 24 h) @ drop 20 h @ take len buf)) = 65535"
proof -
  have len: "unat (of_nat len :: u16) = len" using assms(5) by (simp add: unat_of_nat)
  let ?ip = "pt_getIP pt w" and ?p = "take 4 (drop 6 raw)" and ?q = "drop 10 raw"
  obtain ipck ck where c: "createUdpIpHdr raw ?ip tx_buf buf (of_nat len) = Some (header (of_nat len + 28) ipck ck ?ip ?p ?q (of_nat len + 8) @ drop 28 tx_buf)"
    "sum_list (short_vals (take 20 (header (of_nat len + 28) ipck ck ?ip ?p ?q (of_nat len + 8)))) mod 65535 = 0"
    "(sum_list (short_vals (take len buf)) + sum_list (short_vals (?ip @ ?p @ [0, 0x11] @ word_bytes (of_nat len + 8))) +
      sum_list (short_vals (drop 20 (header (of_nat len + 28) ipck ck ?ip ?p ?q (of_nat len + 8))))) mod 65535 = 0"
    using create_header [of raw ?ip tx_buf "of_nat len" buf] assms len by auto
  let ?h = "header (of_nat len + 28) ipck ck ?ip ?p ?q (of_nat len + 8)"
  obtain s0 s1 s2 s3 where ip: "?ip = [s0, s1, s2, s3]" using assms(2) by (auto simp: numeral_eq_Suc length_Suc_conv)
  obtain m0 m1 m2 m3 m4 m5 d0 d1 d2 d3 p0 p1 where raw: "raw = [m0, m1, m2, m3, m4, m5, d0, d1, d2, d3, p0, p1]"
    using assms(1) by (auto simp: numeral_eq_Suc length_Suc_conv)
  have fields: "length ?h = 28" "take 4 (drop 12 ?h) = ?ip" "take 4 (drop 16 ?h) = ?p" "take 2 (drop 20 ?h) = [0xEB, 0xD0]" "take 2 (drop 22 ?h) = ?q"
    "take 8 (drop 12 ?h) = ?ip @ ?p" "?h ! 9 = 0x11" "take 2 (drop 24 ?h) = word_bytes (of_nat len + 8)"
    by (simp_all add: header_def word_bytes_def ip raw)
  have lens: "short_at ?h 2 = 28 + len" "short_at ?h 24 = 8 + len"
  proof -
    have "unat (of_nat len + 28 :: u16) = 28 + len" "unat (of_nat len + 8 :: u16) = 8 + len" using assms(5) len by (simp_all add: unat_word_ariths)
    then show "short_at ?h 2 = 28 + len" "short_at ?h 24 = 8 + len"
      by (simp_all add: short_at_def header_def word_bytes_def ip raw word_bytes_val)
  qed
  have "eb_lm32_udp_send pt sock saddr raw tx_buf buf len w =
      Some (saddr\<lparr>peer_mac := take 6 raw\<rparr>, pt_sendto pt sock (saddr\<lparr>peer_mac := take 6 raw\<rparr>) (?h @ take len buf) w)"
    using assms(3,5,6) c(1) fields(1) by (simp add: eb_lm32_udp_send_def put_bytes_def Let_def)
  moreover have "0 < sum_list (short_vals (take 20 ?h))" by (simp add: header_def)
  then have "oc_sum (short_vals (take 20 ?h)) = 65535" using oc_sum_verifies [OF c(2)] short_vals_less by blast
  moreover have "oc_sum (short_vals (take 8 (drop 12 ?h) @ [0, ?h ! 9] @ take 2 (drop 24 ?h) @ drop 20 ?h @ take len buf)) = 65535"
  proof (rule oc_sum_verifies)
    let ?xs = "?ip @ ?p @ [0, 0x11] @ word_bytes (of_nat len + 8)"
    have e: "even (length ?xs)" "even (length (drop 20 ?h))" using fields(1) by (simp_all add: ip raw word_bytes_def)
    have eq: "short_vals (take 8 (drop 12 ?h) @ [0, ?h ! 9] @ take 2 (drop 24 ?h) @ drop 20 ?h @ take len buf) =
        short_vals ?xs @ short_vals (drop 20 ?h) @ short_vals (take len buf)"
      unfolding fields(6-8) using short_vals_append [OF e(1)] short_vals_append [OF e(2)] by (simp only: append_assoc)
    show "sum_list (short_vals (take 8 (drop 12 ?h) @ [0, ?h ! 9] @ take 2 (drop 24 ?h) @ drop 20 ?h @ take len buf)) mod 65535 = 0"
      unfolding eq using c(3) by (simp add: ac_simps)
    show "0 < sum_list (short_vals (take 8 (drop 12 ?h) @ [0, ?h ! 9] @ take 2 (drop 24 ?h) @ drop 20 ?h @ take len buf))"
      unfolding eq by (simp add: ip raw)
    show "\<forall>v \<in> set (short_vals (take 8 (drop 12 ?h) @ [0, ?h ! 9] @ take 2 (drop 24 ?h) @ drop 20 ?h @ take len buf)). v < 65536"
      using short_vals_less by blast
  qed
  ultimately show ?thesis using fields(1-5) lens by blast
qed

definition demo_ptpd :: "u8 list list ptpd" where
  "demo_ptpd = \<lparr>pt_create = (\<lambda>a w. (Some 0, w)), pt_recvfrom = (\<lambda>h n w. (100, \<lparr>if_name = [], ethertype = 0, family_raw = True, peer_mac = []\<rparr>, w)),
     pt_sendto = (\<lambda>h a f w. w @ [f]), pt_getIP = (\<lambda>w. [192, 168, 0, 1])\<rparr>"

definition demo_saddr :: wr_sockaddr where
  "demo_saddr = \<lparr>if_name = ''wru1'', ethertype = 0x0800, family_raw = True, peer_mac = replicate 6 1\<rparr>"

theorem lm32_frame_verifies_witness:
  "\<exists>h saddr. eb_lm32_udp_send demo_ptpd 0 demo_saddr [1, 2, 3, 4, 5, 6, 192, 168, 0, 2, 0xEB, 0xD0] (replicate 1500 0) [0x4e, 0x6f, 0x10, 0x44] 4 [] =
     Some (saddr, [h @ [0x4e, 0x6f, 0x10, 0x44]]) \<and> short_at h 2 = 32 \<and> oc_sum (short_vals (take 20 h)) = 65535"
proof -
  let ?raw = "[1, 2, 3, 4, 5, 6, 192, 168, 0, 2, 0xEB, 0xD0] :: u8 list" and ?buf = "[0x4e, 0x6f, 0x10, 0x44] :: u8 list"
  have "length ?raw = 12" "length (pt_getIP demo_ptpd []) = 4" "length (replicate 1500 0 :: u8 list) = 1500" "even (4 :: nat)" "(4 :: nat) \<le> 1472" "4 \<le> length ?buf"
    by (simp_all add: demo_ptpd_def)
  from lm32_frame_verifies [OF this, of 0 demo_saddr] show ?thesis by (auto simp: demo_ptpd_def)
qed


section \<open>Parsing addresses\<close>

fun joined :: "char \<Rightarrow> string list \<Rightarrow> string" where
  "joined d [] = []"
| "joined d [s] = s"
| "joined d (s # ss) = s @ d # joined d ss"

definition is_number :: "nat \<Rightarrow> string \<Rightarrow> int \<Rightarrow> bool" where
  "is_number base s m \<longleftrightarrow> s \<noteq> [] \<and> (\<forall>c \<in> set s. c_is_digit base c) \<and> c_digits_value base s < m"

lemma digit_chars:
  assumes "c_is_digit base c" "base \<le> 16"
  shows "c \<noteq> CHR ''x''" "c \<noteq> CHR ''X''" "c \<noteq> CHR '':''" "c \<noteq> CHR ''.''" "c \<noteq> CHR ''/''" "c \<noteq> CHR ''-''" "c \<noteq> CHR ''+''" "c \<noteq> NUL" "\<not> c_isspace c"
proof -
  let ?n = "of_char c :: nat"
  have n: "(48 \<le> ?n \<and> ?n \<le> 57) \<or> (97 \<le> ?n \<and> ?n \<le> 102) \<or> (65 \<le> ?n \<and> ?n \<le> 70)"
    using assms by (auto simp: c_is_digit_def c_digit_def Let_def split: if_splits)
  then show "\<not> c_isspace c" by (auto simp: c_isspace_def Let_def)
  show "c \<noteq> CHR ''x''" "c \<noteq> CHR ''X''" "c \<noteq> CHR '':''" "c \<noteq> CHR ''.''" "c \<noteq> CHR ''/''" "c \<noteq> CHR ''-''" "c \<noteq> CHR ''+''" "c \<noteq> NUL"
    using n by (auto simp: NUL_def)
qed

lemma strsplit_total: "NUL \<in> set s \<Longrightarrow> \<exists>r. strsplit s d = Some r"
  by (induction s) auto

lemma strsplit_at: "d \<notin> set s \<Longrightarrow> NUL \<notin> set s \<Longrightarrow> d \<noteq> NUL \<Longrightarrow> strsplit (s @ d # r) d = Some r"
  by (induction s) auto

lemma c_digits_nonneg: "0 \<le> c_digits_value base s"
proof -
  have "0 \<le> foldl (\<lambda>v c. v * int base + int (the (c_digit c))) v s" if "0 \<le> v" for v
    using that by (induction s arbitrary: v) auto
  then show ?thesis by (simp add: c_digits_value_def)
qed

lemma c_strtol_number:
  assumes "is_number base s m" "base \<le> 16" "m \<le> 2 ^ 31" "\<not> c_is_digit base t" "t \<noteq> CHR ''x''" "t \<noteq> CHR ''X''"
  shows "c_strtol base (s @ t # rest) = Some (c_digits_value base s, t # rest)"
proof -
  obtain c cs where s: "s = c # cs" and dig: "\<forall>c \<in> set s. c_is_digit base c" using assms(1) by (cases s) (auto simp: is_number_def)
  have c: "c_is_digit base c" using dig s by simp
  have "dropWhile c_isspace (s @ t # rest) = s @ t # rest" using digit_chars(9) [OF c assms(2)] by (simp add: s)
  moreover have "c_sign (s @ t # rest) = (1, s @ t # rest)" using digit_chars(6,7) [OF c assms(2)] by (simp add: c_sign_def s)
  moreover have "c_hex_prefix base (s @ t # rest) = s @ t # rest"
  proof -
    have "(s @ t # rest) ! 1 \<noteq> CHR ''x'' \<and> (s @ t # rest) ! 1 \<noteq> CHR ''X''"
      using dig assms(2,5,6) digit_chars(1,2) by (cases cs) (auto simp: s)
    then show ?thesis by (simp add: c_hex_prefix_def)
  qed
  moreover have "takeWhile (c_is_digit base) (s @ t # rest) = s" using dig assms(4) by (simp add: takeWhile_append2)
  moreover have "max (- (2 ^ 31)) (min (2 ^ 31 - 1) (1 * c_digits_value base s)) = c_digits_value base s"
    using assms(1,3) c_digits_nonneg [of base s] by (simp add: is_number_def)
  ultimately show ?thesis by (simp add: c_strtol_def s)
qed

lemma put_bytes_nil: "put_bytes i [] b = b"
  by (simp add: put_bytes_def)

text \<open>The numbers of a list are written behind each other.\<close>

lemma num_loop_numbers:
  assumes "\<forall>s \<in> set ss. is_number base s 256" "base \<le> 16" "\<not> c_is_digit base d" "d \<noteq> CHR ''x''" "d \<noteq> CHR ''X''"
    and "\<not> c_is_digit base t" "t \<noteq> CHR ''x''" "t \<noteq> CHR ''X''" "NUL \<in> set rest"
    and "byteCount + length ss = len" "at + len \<le> length raw"
  shows "num_loop (joined d ss @ t # rest) raw at byteCount len base d =
    Some (put_bytes (at + byteCount) (map (\<lambda>s. word_of_int (c_digits_value base s)) ss) raw)"
  using assms(1,10,11)
proof (induction ss arbitrary: byteCount raw)
  case Nil
  then show ?case by (simp add: num_loop.simps put_bytes_def)
next
  case (Cons s ss)
  let ?v = "c_digits_value base s"
  define t' rest' where "t' = (if ss = [] then t else d)" and "rest' = (if ss = [] then rest else joined d ss @ t # rest)"
  have pch: "joined d (s # ss) @ t # rest = s @ t' # rest'" by (cases ss) (simp_all add: t'_def rest'_def)
  have t': "\<not> c_is_digit base t'" "t' \<noteq> CHR ''x''" "t' \<noteq> CHR ''X''" using assms(3-8) by (simp_all add: t'_def)
  have "NUL \<in> set (s @ t' # rest')" using assms(9) by (simp add: rest'_def)
  then obtain r where r: "strsplit (s @ t' # rest') d = Some r" using strsplit_total by blast
  have num: "is_number base s 256" using Cons.prems(1) by simp
  have st: "c_strtol base (s @ t' # rest') = Some (?v, t' # rest')" using c_strtol_number [OF num assms(2) _ t'] by simp
  have v: "\<not> 255 < ?v" using num by (simp add: is_number_def)
  let ?raw = "raw[at + byteCount := word_of_int ?v]"
  have "num_loop (s @ t' # rest') raw at byteCount len base d = num_loop rest' ?raw at (byteCount + 1) len base d"
    using Cons.prems(2,3) v by (subst num_loop.simps) (simp add: r st put_byte_def set_nth_def)
  also have "\<dots> = Some (put_bytes (at + (byteCount + 1)) (map (\<lambda>s. word_of_int (c_digits_value base s)) ss) ?raw)"
  proof (cases ss)
    case Nil
    then show ?thesis using Cons.prems(2) by (simp add: num_loop.simps put_bytes_nil)
  next
    case (Cons s' ss')
    then show ?thesis using Cons.IH [of "byteCount + 1" ?raw] Cons.prems by (simp add: rest'_def)
  qed
  also have "put_bytes (at + (byteCount + 1)) (map (\<lambda>s. word_of_int (c_digits_value base s)) ss) ?raw =
      put_bytes (at + byteCount) (map (\<lambda>s. word_of_int (c_digits_value base s)) (s # ss)) raw"
  proof -
    have k: "at + byteCount < length raw" using Cons.prems(2,3) by simp
    then have "take (Suc (at + byteCount)) ?raw = take (at + byteCount) raw @ [word_of_int ?v]" by (simp add: take_Suc_conv_app_nth)
    then show ?thesis by (simp add: put_bytes_def)
  qed
  finally show ?case unfolding pch .
qed


lemma joined_free:
  assumes "\<forall>s \<in> set ss. \<forall>c \<in> set s. c_is_digit base c" "base \<le> 16" "d \<noteq> CHR ''/''" "d \<noteq> NUL"
  shows "CHR ''/'' \<notin> set (joined d ss)" "NUL \<notin> set (joined d ss)"
  using assms(1) digit_chars(5,8) [OF _ assms(2)] assms(3,4) by (induction d ss rule: joined.induct) auto

text \<open>C26: well-formed addresses are parsed as they read. For \<^verbatim>\<open>hw/MAC/udp/IP/port/N\<close> with six hexadecimal and four decimal numbers below
  256, connecting succeeds and the 12 bytes of the link are the numbers in order and the port in network order,
  whatever the link held before; no byte outside the link is written and no character behind the address is read.
  The driver of the master core parses the same addresses in the same way.\<close>

theorem lm32_address_parsed:
  assumes "length macs = 6" and "\<forall>s \<in> set macs. is_number 16 s 256" and "length ips = 4" and "\<forall>s \<in> set ips. is_number 10 s 256"
    and "is_number 10 port 65536" and "length raw = 12"
  defines "address \<equiv> ''hw/'' @ joined CHR '':'' macs @ ''/udp/'' @ joined CHR ''.'' ips @ ''/port/'' @ port @ [NUL]"
    and "link \<equiv> map (\<lambda>s. word_of_int (c_digits_value 16 s)) macs @ map (\<lambda>s. word_of_int (c_digits_value 10 s)) ips @
      word_bytes (word_of_int (c_digits_value 10 port))"
  shows "eb_lm32_udp_connect raw address = Some (EB_OK, link) \<and> ebm_parse_adr raw address = Some (0, link)"
proof -
  let ?m = "map (\<lambda>s. word_of_int (c_digits_value 16 s)) macs :: u8 list" and ?i = "map (\<lambda>s. word_of_int (c_digits_value 10 s)) ips :: u8 list"
  let ?e = "port @ [NUL]"
  define r3 where "r3 = ''port/'' @ ?e"
  define r2 where "r2 = joined CHR ''.'' ips @ CHR ''/'' # r3"
  define r1 where "r1 = ''udp/'' @ r2"
  define r0 where "r0 = joined CHR '':'' macs @ CHR ''/'' # r1"
  have adr: "address = ''hw/'' @ r0" by (simp add: address_def r0_def r1_def r2_def r3_def)
  have nul: "NUL \<in> set r1" "NUL \<in> set r3" by (simp_all add: r1_def r2_def r3_def)
  have sep: "\<not> c_is_digit 16 CHR '':''" "\<not> c_is_digit 16 CHR ''/''" "\<not> c_is_digit 10 CHR ''.''" "\<not> c_is_digit 10 CHR ''/''" "\<not> c_is_digit 10 NUL"
    by (simp_all add: c_is_digit_def c_digit_def NUL_def)
  have s0: "strsplit address CHR ''/'' = Some r0" unfolding adr by (simp add: NUL_def)
  have a0: "addressStrToBytes r0 raw MAC = Some (put_bytes 0 ?m raw)"
    unfolding addressStrToBytes_def adress_type.case numStrToBytes_def r0_def
    using num_loop_numbers [of macs 16 "CHR '':''" "CHR ''/''" r1 0 6 0 raw] assms(1,2,6) sep nul(1) by simp
  have s1: "strsplit r0 CHR ''/'' = Some r1"
    unfolding r0_def by (rule strsplit_at) (use joined_free [of macs 16 "CHR '':''"] assms(2) in \<open>auto simp: is_number_def NUL_def\<close>)
  have s2: "strsplit r1 CHR ''/'' = Some r2" by (simp add: r1_def NUL_def)
  have a2: "addressStrToBytes r2 (put_bytes 0 ?m raw) IP = Some (put_bytes 6 ?i (put_bytes 0 ?m raw))"
    unfolding addressStrToBytes_def adress_type.case numStrToBytes_def r2_def
    using num_loop_numbers [of ips 10 "CHR ''.''" "CHR ''/''" r3 0 4 6 "put_bytes 0 ?m raw"] assms(1,3,4,6) sep nul(2)
    by (simp add: put_bytes_def)
  have s3: "strsplit r2 CHR ''/'' = Some r3"
    unfolding r2_def by (rule strsplit_at) (use joined_free [of ips 10 "CHR ''.''"] assms(4) in \<open>auto simp: is_number_def NUL_def\<close>)
  have s4: "strsplit r3 CHR ''/'' = Some ?e" by (simp add: r3_def NUL_def)
  have p: "c_strtol 10 ?e = Some (c_digits_value 10 port, [NUL])"
    using c_strtol_number [OF assms(5), of NUL "[]"] sep(5) by (simp add: NUL_def)
  have l: "set_port (c_digits_value 10 port) (put_bytes 6 ?i (put_bytes 0 ?m raw)) = link"
  proof -
    obtain t where t: "t = drop 10 raw" "length t = 2" using assms(6) by simp
    from t(2) obtain r11 r12 where "t = [r11, r12]" by (auto simp: numeral_2_eq_2 length_Suc_conv)
    with t(1) have "drop 10 raw = [r11, r12]" by simp
    then have "put_bytes 6 ?i (put_bytes 0 ?m raw) = ?m @ ?i @ [r11, r12]"
      using assms(1,3) by (simp add: put_bytes_def)
    then show ?thesis using assms(1,3) by (simp add: set_port_def link_def word_bytes_def list_update_append Let_def)
  qed
  have hw: "strncmp_eq ''hw'' address = Some True" by (simp add: strncmp_eq_def adr)
  have udp: "strncmp_eq ''udp'' r1 = Some True" by (simp add: strncmp_eq_def r1_def)
  have prt: "strncmp_eq ''port'' r3 = Some True" by (simp add: strncmp_eq_def r3_def)
  show ?thesis
    by (simp add: eb_lm32_udp_connect_def ebm_parse_adr_def hw s0 a0 s1 udp s2 a2 s3 prt s4 p l)
qed


theorem lm32_address_parsed_witness:
  "eb_lm32_udp_connect (replicate 12 0) (''hw/'' @ ''11:22:33:44:5A:66'' @ ''/udp/'' @ ''192.168.0.1'' @ ''/port/'' @ ''60368'' @ [NUL]) =
     Some (EB_OK, [0x11, 0x22, 0x33, 0x44, 0x5A, 0x66, 192, 168, 0, 1, 0xEB, 0xD0])"
proof -
  let ?macs = "[''11'', ''22'', ''33'', ''44'', ''5A'', ''66'']" and ?ips = "[''192'', ''168'', ''0'', ''1'']"
  note num = is_number_def c_is_digit_def c_digit_def c_digits_value_def
  have "\<forall>s \<in> set ?macs. is_number 16 s 256" "\<forall>s \<in> set ?ips. is_number 10 s 256" "is_number 10 ''60368'' 65536" by (simp_all add: num)
  from lm32_address_parsed [OF _ this(1) _ this(2) this(3), of "replicate 12 0"] show ?thesis
    by (simp add: c_digits_value_def c_digit_def word_bytes_def)
qed

text \<open>With a buffer of more than 32 bytes, as every caller has, nothing is ever received: a message that would fit is reported
  as a broken link, and a longer one overwrites the stack.\<close>

lemma lm32_poll_never_delivers:
  "32 < len \<Longrightarrow> eb_lm32_udp_poll pt sock saddr len w =
     (let (r, from, w') = pt_recvfrom pt sock 1500 w in if len \<le> uint (word_of_int r :: u16) then None else Some (-1, from, w'))"
  by (auto simp: eb_lm32_udp_poll_def Let_def split: prod.split)

end
