(* ===== verification/Scu_Buffer.thy ===== *)
theory Scu_Buffer
  imports Lm32_Irq Eb_Refine "HOL-Library.Signed_Division"
begin

text \<open>
  The parameter buffers of the SCU's function generators (\<^verbatim>\<open>top/gsi_scu/cb.c\<close>, the structures of \<^verbatim>\<open>fg.h\<close> and
  \<^verbatim>\<open>init_buffers\<close> of \<^verbatim>\<open>fg.c\<close>): circular buffers in shared memory that the host fills and the firmware empties.
  An access outside an array and a division by zero are faults.
\<close>

section \<open>Data\<close>

definition MAX_FG_DEVICES :: nat where "MAX_FG_DEVICES = 2 * 12"
definition BUFFER_SIZE :: nat where "BUFFER_SIZE = 10"

record param_set =
  coeff_a :: u16
  coeff_b :: u16
  coeff_c :: u32
  control :: u32

record circ_buffer =
  wr_ptr :: u32
  rd_ptr :: u32
  cb_size :: u32
  pset :: "param_set list"

definition index_of :: "int \<Rightarrow> 'a list \<Rightarrow> nat option" where
  "index_of i xs = (if 0 \<le> i \<and> i < int (length xs) then Some (nat i) else None)"

definition umod :: "u32 \<Rightarrow> u32 \<Rightarrow> u32 option" where
  "umod a b = (if b = 0 then None else Some (a mod b))"

section \<open>Operations\<close>

definition cbisEmpty :: "circ_buffer list \<Rightarrow> nat \<Rightarrow> bool option" where
  "cbisEmpty cb num = do { b \<leftarrow> nth_opt cb num; Some (wr_ptr b = rd_ptr b) }"

definition cbisFull :: "circ_buffer list \<Rightarrow> nat \<Rightarrow> bool option" where
  "cbisFull cb num = do { b \<leftarrow> nth_opt cb num; r \<leftarrow> umod (wr_ptr b + 1) (cb_size b); Some (r = rd_ptr b) }"

definition cbgetCount :: "circ_buffer list \<Rightarrow> nat \<Rightarrow> int option" where
  "cbgetCount cb num = do { b \<leftarrow> nth_opt cb num; Some \<bar>sint (wr_ptr b - rd_ptr b)\<bar> }"

definition cbWrite :: "circ_buffer list \<Rightarrow> nat \<Rightarrow> param_set \<Rightarrow> circ_buffer list option" where
  "cbWrite cb num ps = do {
     b \<leftarrow> nth_opt cb num;
     let wptr = sint (wr_ptr b);
     let size = sint (cb_size b);
     i \<leftarrow> index_of wptr (pset b);
     let b = b\<lparr>pset := (pset b)[i := ps]\<rparr>;
     if size = 0 then None
     else do {
       let b = b\<lparr>wr_ptr := word_of_int ((wptr + 1) smod size)\<rparr>;
       b \<leftarrow> (if wr_ptr b = rd_ptr b then do { r \<leftarrow> umod (rd_ptr b + 1) (cb_size b); Some (b\<lparr>rd_ptr := r\<rparr>) } else Some b);
       Some (cb[num := b])
     }
   }"

text \<open>\<^verbatim>\<open>*pset\<close> before and after the call, and what is printed.\<close>

definition cbRead :: "circ_buffer list \<Rightarrow> nat \<Rightarrow> param_set \<Rightarrow> (circ_buffer list \<times> param_set \<times> u8 list) option" where
  "cbRead cb num ps = do {
     b \<leftarrow> nth_opt cb num;
     let rptr = sint (rd_ptr b);
     let wptr = sint (wr_ptr b);
     let size = sint (cb_size b);
     if wptr = rptr then Some (cb, ps, [])
     else do {
       i \<leftarrow> index_of rptr (pset b);
       let ps = pset b ! i;
       out \<leftarrow> mprintf (lit ''%x(%d) '') [Va_int (coeff_c ps), Va_int (word_of_int rptr)];
       nl \<leftarrow> (if coeff_c ps mod 10 = 0 then mprintf [10, 0] [] else Some []);
       if size = 0 then None
       else Some (cb[num := b\<lparr>rd_ptr := word_of_int ((rptr + 1) smod size)\<rparr>], ps, out @ nl)
     }
   }"

fun init_buffers_loop :: "nat \<Rightarrow> circ_buffer list \<Rightarrow> circ_buffer list option" where
  "init_buffers_loop 0 buf = Some buf"
| "init_buffers_loop (Suc n) buf = do {
     let i = MAX_FG_DEVICES - Suc n;
     b \<leftarrow> nth_opt buf i;
     init_buffers_loop n (buf[i := b\<lparr>wr_ptr := 0, rd_ptr := 0, cb_size := of_nat (BUFFER_SIZE + 1)\<rparr>])
   }"

definition init_buffers :: "circ_buffer list \<Rightarrow> circ_buffer list option" where
  "init_buffers buf = init_buffers_loop MAX_FG_DEVICES buf"

section \<open>A buffer is a bounded queue\<close>

definition slot :: "nat \<Rightarrow> nat \<Rightarrow> nat" where "slot r i = (r + i) mod 11"

definition queued :: "circ_buffer \<Rightarrow> param_set list" where
  "queued b = map (\<lambda>i. pset b ! slot (unat (rd_ptr b)) i) [0..<(unat (wr_ptr b) + 11 - unat (rd_ptr b)) mod 11]"

definition cbuf_ok :: "circ_buffer \<Rightarrow> bool" where
  "cbuf_ok b \<longleftrightarrow> cb_size b = 11 \<and> length (pset b) = 11 \<and> unat (wr_ptr b) < 11 \<and> unat (rd_ptr b) < 11"

lemma slot_less: "slot r i < 11"
  by (simp add: slot_def)

lemma mod11: "x < 22 \<Longrightarrow> x mod 11 = (if x < 11 then x else x - 11 :: nat)"
  by (simp add: mod_if)

lemma slot_inj: "slot r i = slot r j \<Longrightarrow> r < 11 \<Longrightarrow> i < 11 \<Longrightarrow> j < 11 \<Longrightarrow> i = j"
  by (auto simp: slot_def mod11 split: if_splits)

lemma slot_fill: "r < 11 \<Longrightarrow> w < 11 \<Longrightarrow> slot r ((w + 11 - r) mod 11) = w"
  by (cases "r \<le> w") (auto simp: slot_def mod11)

lemma slot_Suc: "slot (Suc r mod 11) i = slot r (Suc i)"
  using mod_add_left_eq [of "Suc r" 11 i] by (simp add: slot_def)

lemma fill_next:
  assumes "r < 11" "w < 11"
  shows "Suc w mod 11 \<noteq> r \<Longrightarrow> (Suc w mod 11 + 11 - r) mod 11 = Suc ((w + 11 - r) mod 11)"
    "Suc w mod 11 = r \<Longrightarrow> (w + 11 - r) mod 11 = 10"
    "Suc w mod 11 = r \<Longrightarrow> (Suc w mod 11 + 11 - Suc r mod 11) mod 11 = 10"
    "w \<noteq> r \<Longrightarrow> Suc ((w + 11 - Suc r mod 11) mod 11) = (w + 11 - r) mod 11"
    "(w + 11 - r) mod 11 = 0 \<longleftrightarrow> w = r" "(w + 11 - r) mod 11 = 10 \<longleftrightarrow> Suc w mod 11 = r"
proof -
  have s: "Suc w mod 11 = (if w = 10 then 0 else Suc w)" "Suc r mod 11 = (if r = 10 then 0 else Suc r)" using assms by (simp_all add: mod11)
  show "Suc w mod 11 \<noteq> r \<Longrightarrow> (Suc w mod 11 + 11 - r) mod 11 = Suc ((w + 11 - r) mod 11)"
    using assms unfolding s by (auto simp: mod11 split: if_splits)
  show "Suc w mod 11 = r \<Longrightarrow> (w + 11 - r) mod 11 = 10" using assms unfolding s by (auto simp: mod11 split: if_splits)
  show "Suc w mod 11 = r \<Longrightarrow> (Suc w mod 11 + 11 - Suc r mod 11) mod 11 = 10" using assms unfolding s by (auto simp: mod11 split: if_splits)
  show "w \<noteq> r \<Longrightarrow> Suc ((w + 11 - Suc r mod 11) mod 11) = (w + 11 - r) mod 11" using assms unfolding s by (auto simp: mod11 split: if_splits)
  show "(w + 11 - r) mod 11 = 0 \<longleftrightarrow> w = r" using assms by (auto simp: mod11 split: if_splits)
  show "(w + 11 - r) mod 11 = 10 \<longleftrightarrow> Suc w mod 11 = r" using assms unfolding s by (auto simp: mod11 split: if_splits)
qed

lemma length_queued: "length (queued b) = (unat (wr_ptr b) + 11 - unat (rd_ptr b)) mod 11"
  by (simp add: queued_def)

text \<open>The pointer arithmetic of the code on a well-formed buffer.\<close>

lemma small_sint:
  assumes "unat (p :: u32) < 11"
  shows "sint p = int (unat p)"
proof -
  have "sint (of_nat n :: u32) = int n" if "n < 11" for n
    unfolding signed_of_nat using that by (simp add: signed_take_bit_int_eq_self)
  from this [OF assms] show ?thesis by (simp only: of_nat_unat ucast_id)
qed

lemma next_pointer:
  assumes "unat (p :: u32) < 11"
  shows "unat (word_of_int ((sint p + 1) smod 11) :: u32) = Suc (unat p) mod 11" "unat ((p + 1) mod 11) = Suc (unat p) mod 11"
proof -
  have "(sint p + 1) smod 11 = (int (unat p) + 1) mod 11" unfolding small_sint [OF assms] by (rule smod_mod_positive) simp_all
  then have "(sint p + 1) smod 11 = int (Suc (unat p) mod 11)" by (simp only: zmod_int of_nat_Suc of_nat_numeral add.commute)
  moreover have "Suc (unat p) mod 11 < 2 ^ 32" by (rule less_trans [of _ 11]) simp_all
  ultimately show "unat (word_of_int ((sint p + 1) smod 11) :: u32) = Suc (unat p) mod 11"
    by (simp add: unat_of_nat take_bit_nat_eq_self)
  have "unat (p + 1) = Suc (unat p)" using assms by (simp add: unat_word_ariths)
  then show "unat ((p + 1) mod 11) = Suc (unat p) mod 11" by (simp add: unat_mod_distrib)
qed

definition push :: "param_set \<Rightarrow> param_set list \<Rightarrow> param_set list" where
  "push ps q = drop (length q + 1 - BUFFER_SIZE) (q @ [ps])"

lemma queued_write:
  assumes ok: "cbuf_ok b" and b': "b' = b\<lparr>pset := (pset b)[unat (wr_ptr b) := ps], wr_ptr := w', rd_ptr := r'\<rparr>"
    and w': "unat w' = Suc (unat (wr_ptr b)) mod 11"
    and r': "unat r' = (if unat w' = unat (rd_ptr b) then Suc (unat (rd_ptr b)) mod 11 else unat (rd_ptr b))"
  shows "cbuf_ok b' \<and> queued b' = push ps (queued b)"
proof
  let ?r = "unat (rd_ptr b)" and ?w = "unat (wr_ptr b)"
  let ?k = "(?w + 11 - ?r) mod 11" and ?ps = "(pset b)[?w := ps]"
  have rw: "?r < 11" "?w < 11" "length (pset b) = 11" using ok by (simp_all add: cbuf_ok_def)
  show "cbuf_ok b'" using ok w' r' by (simp add: b' cbuf_ok_def)
  have old: "map (\<lambda>i. ?ps ! slot ?r i) [0..<?k] = queued b"
  proof -
    have "slot ?r i \<noteq> ?w" if "i < ?k" for i
      using slot_inj [of ?r i ?k] slot_fill [OF rw(1,2)] that rw(1) mod_less_divisor [of 11 "?w + 11 - ?r"] by fastforce
    then show ?thesis unfolding queued_def by (intro map_cong refl nth_list_update_neq) (metis atLeastLessThan_iff atLeast_upt set_upt)
  qed
  have new: "map (\<lambda>i. ?ps ! slot ?r i) [0..<Suc ?k] = queued b @ [ps]"
    using old slot_fill [OF rw(1,2)] rw by simp
  show "queued b' = push ps (queued b)"
  proof (cases "unat w' = ?r")
    case True
    then have k: "?k = 10" "(unat w' + 11 - unat r') mod 11 = 10" using fill_next(2,3) [OF rw(1,2)] w' r' by simp_all
    have "queued b' = map (\<lambda>i. ?ps ! slot ?r (Suc i)) [0..<10]" using True r' k(2) by (simp add: queued_def b' slot_Suc)
    also have "\<dots> = tl (map (\<lambda>i. ?ps ! slot ?r i) [0..<Suc ?k])"
      unfolding k(1) by (simp add: map_Suc_upt [symmetric] upt_conv_Cons del: upt_Suc)
    finally show ?thesis unfolding new using k(1) length_queued [of b] by (cases "queued b") (simp_all add: push_def BUFFER_SIZE_def)
  next
    case False
    then have k: "(unat w' + 11 - unat r') mod 11 = Suc ?k" "?k < 10"
      using fill_next(1) [OF rw(1,2)] w' r' mod_less_divisor [of 11 "unat w' + 11 - ?r"] by simp_all
    have "queued b' = queued b @ [ps]" using False r' k(1) new by (simp add: queued_def b')
    then show ?thesis using k(2) length_queued [of b] by (simp add: push_def BUFFER_SIZE_def)
  qed
qed

lemma queued_read:
  assumes ok: "cbuf_ok b" and ne: "wr_ptr b \<noteq> rd_ptr b" and r': "unat r' = Suc (unat (rd_ptr b)) mod 11"
  shows "cbuf_ok (b\<lparr>rd_ptr := r'\<rparr>) \<and> queued b = pset b ! unat (rd_ptr b) # queued (b\<lparr>rd_ptr := r'\<rparr>)"
proof -
  let ?r = "unat (rd_ptr b)" and ?w = "unat (wr_ptr b)"
  have rw: "?r < 11" "?w < 11" using ok by (simp_all add: cbuf_ok_def)
  have "?w \<noteq> ?r" using ne by (simp add: word_unat_eq_iff)
  note k = fill_next(4) [OF rw this]
  have "queued b = map (\<lambda>i. pset b ! slot ?r i) (0 # map Suc [0..<(?w + 11 - Suc ?r mod 11) mod 11])"
    unfolding queued_def k [symmetric] by (simp add: map_Suc_upt upt_conv_Cons del: upt_Suc)
  also have "\<dots> = pset b ! ?r # queued (b\<lparr>rd_ptr := r'\<rparr>)"
    using rw by (simp add: queued_def r' slot_Suc) (simp add: slot_def)
  finally show ?thesis using ok r' by (simp add: cbuf_ok_def)
qed

section \<open>Sequences of calls\<close>

datatype cb_call = Write param_set | Read param_set | Is_empty | Is_full
datatype cb_result = Done | Value param_set | Flag bool

text \<open>A call on buffer \<open>num\<close>; the argument of \<open>Read\<close> is what \<^verbatim>\<open>*pset\<close> holds before. What is printed is left out.\<close>

definition cb_step :: "nat \<Rightarrow> cb_call \<Rightarrow> circ_buffer list \<Rightarrow> (cb_result \<times> circ_buffer list) option" where
  "cb_step num c cb =
     (case c of
        Write ps \<Rightarrow> map_option (\<lambda>cb. (Done, cb)) (cbWrite cb num ps)
      | Read ps \<Rightarrow> map_option (\<lambda>(cb, ps, _). (Value ps, cb)) (cbRead cb num ps)
      | Is_empty \<Rightarrow> map_option (\<lambda>f. (Flag f, cb)) (cbisEmpty cb num)
      | Is_full \<Rightarrow> map_option (\<lambda>f. (Flag f, cb)) (cbisFull cb num))"

text \<open>The contract: a queue of at most 10 parameter sets, in which a write to a full queue drops the oldest.\<close>

fun cb_spec :: "cb_call \<Rightarrow> param_set list \<Rightarrow> (cb_result \<times> param_set list) set" where
  "cb_spec (Write ps) q = {(Done, push ps q)}"
| "cb_spec (Read ps) q = {(Value (case q of [] \<Rightarrow> ps | x # _ \<Rightarrow> x), tl q)}"
| "cb_spec Is_empty q = {(Flag (q = []), q)}"
| "cb_spec Is_full q = {(Flag (length q = BUFFER_SIZE), q)}"

text \<open>Buffer \<open>num\<close> holds the queue, and the other buffers are those of \<open>cb0\<close>.\<close>

definition cb_rep :: "circ_buffer list \<Rightarrow> nat \<Rightarrow> circ_buffer list \<Rightarrow> param_set list \<Rightarrow> bool" where
  "cb_rep cb0 num cb q \<longleftrightarrow> num < length cb \<and> length cb = length cb0 \<and> (\<forall>j. j \<noteq> num \<longrightarrow> cb ! j = cb0 ! j) \<and>
     cbuf_ok (cb ! num) \<and> queued (cb ! num) = q"

lemma cb_rep_update:
  "cb_rep cb0 num cb q \<Longrightarrow> cbuf_ok b \<Longrightarrow> cb_rep cb0 num (cb[num := b]) (queued b)"
  by (simp add: cb_rep_def)

lemma index_small: "unat (p :: u32) < 11 \<Longrightarrow> length xs = 11 \<Longrightarrow> index_of (sint p) xs = Some (unat p)"
proof -
  have "index_of (int n) xs = Some n" if "n < length xs" for n using that by (simp add: index_of_def)
  then show "unat p < 11 \<Longrightarrow> length xs = 11 \<Longrightarrow> index_of (sint p) xs = Some (unat p)" by (metis small_sint)
qed

lemma cbWrite_push:
  assumes "cb_rep cb0 num cb q"
  obtains cb' where "cbWrite cb num ps = Some cb'" "cb_rep cb0 num cb' (push ps q)"
proof -
  let ?b = "cb ! num"
  have b: "num < length cb" "cbuf_ok ?b" "queued ?b = q" using assms by (simp_all add: cb_rep_def)
  then have f: "unat (wr_ptr ?b) < 11" "unat (rd_ptr ?b) < 11" "length (pset ?b) = 11" "cb_size ?b = 11" by (simp_all add: cbuf_ok_def)
  define w' :: u32 where "w' = word_of_int ((sint (wr_ptr ?b) + 1) smod 11)"
  define r' where "r' = (if w' = rd_ptr ?b then (rd_ptr ?b + 1) mod 11 else rd_ptr ?b)"
  define b' where "b' = ?b\<lparr>pset := (pset ?b)[unat (wr_ptr ?b) := ps], wr_ptr := w', rd_ptr := r'\<rparr>"
  have w: "unat w' = Suc (unat (wr_ptr ?b)) mod 11" unfolding w'_def by (rule next_pointer(1) [OF f(1)])
  have r: "unat r' = (if unat w' = unat (rd_ptr ?b) then Suc (unat (rd_ptr ?b)) mod 11 else unat (rd_ptr ?b))"
    using next_pointer(2) [OF f(2)] by (simp add: r'_def word_unat_eq_iff)
  have "cbWrite cb num ps = Some (cb[num := b'])"
    by (simp add: cbWrite_def nth_opt_def b(1) index_small [OF f(1,3)] f(4) umod_def Let_def w'_def [symmetric] b'_def r'_def)
  then show thesis using that cb_rep_update [OF assms] queued_write [OF b(2) b'_def w r] b(3) by metis
qed

lemma print_read: "\<exists>out. mprintf (lit ''%x(%d) '') [Va_int v, Va_int i] = Some out" "mprintf [10, 0] [] = Some [10]"
  using print_number_out [of 0 32 True 120 v] print_number_out [of 0 32 True 100 i]
  by (simp_all add: mprintf_def vprintf_def lit_def directive_def take_fill_def take_width_def convert_def)

lemma cbRead_pop:
  assumes "cb_rep cb0 num cb q"
  obtains cb' out where "cbRead cb num ps = Some (cb', case q of [] \<Rightarrow> ps | x # _ \<Rightarrow> x, out)" "cb_rep cb0 num cb' (tl q)"
proof -
  let ?b = "cb ! num"
  have b: "num < length cb" "cbuf_ok ?b" "queued ?b = q" using assms by (simp_all add: cb_rep_def)
  then have f: "unat (wr_ptr ?b) < 11" "unat (rd_ptr ?b) < 11" "length (pset ?b) = 11" "cb_size ?b = 11" by (simp_all add: cbuf_ok_def)
  show thesis
  proof (cases "wr_ptr ?b = rd_ptr ?b")
    case True
    then have "q = []" using b(3) fill_next(5) [OF f(2,1)] by (simp add: queued_def)
    then show thesis using that True b(1) assms by (simp add: cbRead_def nth_opt_def Let_def)
  next
    case False
    define b' where "b' = ?b\<lparr>rd_ptr := word_of_int ((sint (rd_ptr ?b) + 1) smod 11)\<rparr>"
    have q: "cbuf_ok b'" "q = pset ?b ! unat (rd_ptr ?b) # queued b'"
      using queued_read [OF b(2) False next_pointer(1) [OF f(2)]] b(3) by (simp_all add: b'_def)
    obtain out where "mprintf (lit ''%x(%d) '') [Va_int (coeff_c (pset ?b ! unat (rd_ptr ?b))), Va_int (word_of_int (sint (rd_ptr ?b)))] = Some out"
      using print_read(1) by blast
    moreover have "sint (wr_ptr ?b) \<noteq> sint (rd_ptr ?b)" 
      using False unfolding small_sint [OF f(1)] small_sint [OF f(2)] of_nat_eq_iff by (simp add: word_unat_eq_iff)
    ultimately have "\<exists>out'. cbRead cb num ps = Some (cb[num := b'], pset ?b ! unat (rd_ptr ?b), out')"
      by (simp add: cbRead_def nth_opt_def b(1) index_small [OF f(2,3)] f(4) print_read(2) b'_def Let_def)
    then show thesis using that cb_rep_update [OF assms q(1)] q(2) by (metis list.simps(5) list.sel(3))
  qed
qed

interpretation fg: refinement "cb_rep cb0 num" "cb_step num" cb_spec for cb0 num
proof
  fix cb q c assume rep: "cb_rep cb0 num cb q"
  let ?b = "cb ! num"
  have b: "num < length cb" "queued ?b = q" and f: "unat (wr_ptr ?b) < 11" "unat (rd_ptr ?b) < 11" "cb_size ?b = 11"
    using rep by (simp_all add: cb_rep_def cbuf_ok_def)
  have len: "length q = (unat (wr_ptr ?b) + 11 - unat (rd_ptr ?b)) mod 11" using b(2) length_queued by blast
  show "\<exists>r cb' q'. cb_step num c cb = Some (r, cb') \<and> (r, q') \<in> cb_spec c q \<and> cb_rep cb0 num cb' q'"
  proof (cases c)
    case (Write ps)
    then show ?thesis using cbWrite_push [OF rep, of ps] by (auto simp: cb_step_def)
  next
    case (Read ps)
    obtain cb' out where "cbRead cb num ps = Some (cb', case q of [] \<Rightarrow> ps | x # _ \<Rightarrow> x, out)" "cb_rep cb0 num cb' (tl q)"
      using cbRead_pop [OF rep] .
    then show ?thesis using Read by (simp add: cb_step_def)
  next
    case Is_empty
    have "wr_ptr ?b = rd_ptr ?b \<longleftrightarrow> q = []"
      using fill_next(5) [OF f(2,1)] len by (simp add: word_unat_eq_iff flip: length_0_conv)
    then show ?thesis using Is_empty b(1) rep by (simp add: cb_step_def cbisEmpty_def nth_opt_def)
  next
    case Is_full
    have "(wr_ptr ?b + 1) mod 11 = rd_ptr ?b \<longleftrightarrow> length q = BUFFER_SIZE"
      using fill_next(6) [OF f(2,1)] len next_pointer(2) [OF f(1)] by (simp add: word_unat_eq_iff BUFFER_SIZE_def)
    then show ?thesis using Is_full b(1) f(3) rep by (simp add: cb_step_def cbisFull_def nth_opt_def umod_def)
  qed
qed

lemma init_loop_buffers:
  assumes "length buf = 24" "n \<le> 24" "\<forall>i < 24 - n. wr_ptr (buf ! i) = 0 \<and> rd_ptr (buf ! i) = 0 \<and> cb_size (buf ! i) = 11"
    "\<forall>b \<in> set buf. length (pset b) = 11"
  shows "\<exists>cb. init_buffers_loop n buf = Some cb \<and> length cb = 24 \<and> (\<forall>i < 24. cbuf_ok (cb ! i) \<and> queued (cb ! i) = [])"
  using assms
proof (induction n arbitrary: buf)
  case 0
  then show ?case by (auto simp: cbuf_ok_def queued_def)
next
  case (Suc n)
  let ?i = "24 - Suc n" and ?b = "\<lambda>b. b\<lparr>wr_ptr := 0, rd_ptr := 0, cb_size := 11\<rparr>"
  let ?buf = "buf[?i := ?b (buf ! ?i)]"
  have "\<forall>i < 24 - n. wr_ptr (?buf ! i) = 0 \<and> rd_ptr (?buf ! i) = 0 \<and> cb_size (?buf ! i) = 11"
    using Suc.prems by (auto simp: nth_list_update less_Suc_eq)
  moreover have "\<forall>b \<in> set ?buf. length (pset b) = 11"
    using Suc.prems set_update_subset_insert [of buf ?i "?b (buf ! ?i)"] by (auto simp: nth_mem)
  ultimately show ?case using Suc.IH [of ?buf] Suc.prems by (simp add: nth_opt_def MAX_FG_DEVICES_def BUFFER_SIZE_def Let_def)
qed

text \<open>C16: the function-generator buffers are bounded queues. From the state \<^verbatim>\<open>init_buffers\<close> leaves on, whatever was in shared
  memory before, no sequence of writes, reads and queries of a buffer faults, in any order of the calls, and
  it gives the results of a queue of at most 10 parameter sets in which a write to a full queue
  drops the oldest one; the other buffers are not touched.\<close>

theorem buffers_are_queues:
  assumes "length buf = MAX_FG_DEVICES" and "\<forall>b \<in> set buf. length (pset b) = BUFFER_SIZE + 1" and "num < MAX_FG_DEVICES"
  shows "\<exists>cb. init_buffers buf = Some cb \<and>
    (\<exists>rs cb' q. run_seq (cb_step num) cs cb = Some (rs, cb') \<and> spec_seq cb_spec cs [] rs q \<and> length q \<le> BUFFER_SIZE \<and>
       queued (cb' ! num) = q \<and> (\<forall>j. j \<noteq> num \<longrightarrow> cb' ! j = cb ! j))"
proof -
  obtain cb where cb: "init_buffers buf = Some cb" "length cb = 24" "\<forall>i < 24. cbuf_ok (cb ! i) \<and> queued (cb ! i) = []"
    using init_loop_buffers [of buf 24] assms(1,2) by (auto simp: init_buffers_def MAX_FG_DEVICES_def BUFFER_SIZE_def)
  have "cb_rep cb num cb []" using cb assms(3) by (simp add: cb_rep_def MAX_FG_DEVICES_def)
  moreover have "length q' \<le> 10" if "length q \<le> 10" "(r, q') \<in> cb_spec c q" for c q r q'
    using that by (cases c) (auto simp: push_def BUFFER_SIZE_def)
  ultimately obtain rs cb' q where "run_seq (cb_step num) cs cb = Some (rs, cb')" "spec_seq cb_spec cs [] rs q" "cb_rep cb num cb' q" "length q \<le> 10"
    using fg.run_invariant [of "\<lambda>q. length q \<le> 10" cb num cb "[]" cs] by auto
  then show ?thesis using cb(1) by (auto simp: cb_rep_def BUFFER_SIZE_def)
qed

definition demo_pset :: "u32 \<Rightarrow> param_set" where
  "demo_pset c = \<lparr>coeff_a = 1, coeff_b = 2, coeff_c = c, control = 0\<rparr>"

theorem buffers_are_queues_witness:
  "\<exists>cb rs cb'. init_buffers (replicate 24 \<lparr>wr_ptr = 7, rd_ptr = 9, cb_size = 0, pset = replicate 11 (demo_pset 0)\<rparr>) = Some cb \<and>
     run_seq (cb_step 3) (map (\<lambda>c. Write (demo_pset c)) [1, 2] @ [Read (demo_pset 0)]) cb = Some (rs, cb') \<and>
     queued (cb' ! 3) = [demo_pset 2]"
proof -
  let ?buf = "replicate 24 \<lparr>wr_ptr = 7, rd_ptr = 9, cb_size = 0, pset = replicate 11 (demo_pset 0)\<rparr>"
  let ?cs = "map (\<lambda>c. Write (demo_pset c)) [1, 2] @ [Read (demo_pset 0)]"
  obtain cb rs cb' q where r: "init_buffers ?buf = Some cb" "run_seq (cb_step 3) ?cs cb = Some (rs, cb')" "spec_seq cb_spec ?cs [] rs q" "queued (cb' ! 3) = q"
    using buffers_are_queues [of ?buf 3 ?cs] by (auto simp: MAX_FG_DEVICES_def BUFFER_SIZE_def)
  have "q = [demo_pset 2]" using r(3) by (auto simp: push_def BUFFER_SIZE_def elim!: spec_seq_ConsE spec_seq_NilE)
  with r show ?thesis by blast
qed

text \<open>C37: the fill level is wrong once a buffer has wrapped. \<^verbatim>\<open>cbgetCount\<close> gives the number of queued parameter sets only while the
  write pointer is not below the read pointer; behind the wrap-around it gives what is missing to the size.\<close>

theorem cbgetCount_wraps:
  assumes "num < length cb" and "cbuf_ok (cb ! num)"
  shows "cbgetCount cb num =
    Some (if rd_ptr (cb ! num) \<le> wr_ptr (cb ! num) then int (length (queued (cb ! num))) else 11 - int (length (queued (cb ! num))))"
proof -
  let ?b = "cb ! num"
  define w r where "w = unat (wr_ptr ?b)" and "r = unat (rd_ptr ?b)"
  have f: "w < 11" "r < 11" using assms(2) by (simp_all add: cbuf_ok_def w_def r_def)
  have "sint (of_int k :: u32) = k" if "\<bar>k\<bar> < 11" for k unfolding signed_of_int using that by (simp add: signed_take_bit_int_eq_self)
  from this [of "int w - int r"] have "sint (of_nat w - of_nat r :: u32) = int w - int r" using f by simp
  then have "sint (wr_ptr ?b - rd_ptr ?b) = int w - int r" by (simp only: w_def r_def of_nat_unat ucast_id)
  moreover have "rd_ptr ?b \<le> wr_ptr ?b \<longleftrightarrow> r \<le> w" unfolding w_def r_def by (rule word_le_nat_alt)
  ultimately show ?thesis
    using assms(1) f by (auto simp: cbgetCount_def nth_opt_def length_queued mod11 simp flip: w_def r_def)
qed

theorem cbgetCount_wraps_witness:
  "cbgetCount [\<lparr>wr_ptr = 1, rd_ptr = 9, cb_size = 11, pset = replicate 11 (demo_pset 0)\<rparr>] 0 = Some 8 \<and>
   length (queued \<lparr>wr_ptr = 1, rd_ptr = 9, cb_size = 11, pset = replicate 11 (demo_pset 0)\<rparr>) = 3"
  using cbgetCount_wraps [of 0 "[\<lparr>wr_ptr = 1, rd_ptr = 9, cb_size = 11, pset = replicate 11 (demo_pset 0)\<rparr>]"]
  by (simp add: cbuf_ok_def length_queued word_le_nat_alt)

end
