(* ===== verification/Scu_Bus.thy ===== *)
theory Scu_Bus
  imports Scu_Buffer
begin

text \<open>
  The inventory of the SCU bus (\<^verbatim>\<open>scan_scu_bus\<close> and \<^verbatim>\<open>scan_for_fgs\<close> of \<^verbatim>\<open>top/gsi_scu/fg.c\<close>, \<^verbatim>\<open>probe_scu_bus\<close> of
  \<^verbatim>\<open>scu_bus.c\<close>): which slave cards sit in which slots, and the function generators on them. The bus is a function
  from the index of a 16-bit register to its content; an access outside an array is a fault.
\<close>

section \<open>Data\<close>

definition MAX_SCU_SLAVES :: nat where "MAX_SCU_SLAVES = 12"
definition MAX_FG_PER_SLAVE :: nat where "MAX_FG_PER_SLAVE = 2"

abbreviation (input) CID_SYS :: nat where "CID_SYS \<equiv> 0x4"
abbreviation (input) CID_GROUP :: nat where "CID_GROUP \<equiv> 0x5"
abbreviation (input) SLAVE_VERSION :: nat where "SLAVE_VERSION \<equiv> 0x6"

text \<open>A pointer to a slave is its index in \<^verbatim>\<open>bus->slaves\<close>, a pointer to a function generator the index of its slave and
  its own index there; \<open>None\<close> is the null pointer.\<close>

record fg_dev =
  dev_number :: u32
  fg_version :: u32
  fg_offset :: u32
  fg_running :: u8
  fg_timeout :: u8
  rampcnt :: u32
  endvalue :: u32
  fg_slave :: "nat option"

record scu_slave =
  sl_unique_id :: u64
  sl_version :: u32
  cid_group :: u32
  cid_sys :: u32
  sl_slot :: u32
  sl_devs :: "fg_dev list"

record scu_bus =
  bus_unique_id :: u64
  bus_slaves :: "scu_slave list"

type_synonym fg_list = "(nat \<times> nat) option list"

text \<open>What \<^verbatim>\<open>memset\<close> leaves.\<close>

definition zero_fg :: fg_dev where
  "zero_fg = \<lparr>dev_number = 0, fg_version = 0, fg_offset = 0, fg_running = 0, fg_timeout = 0, rampcnt = 0, endvalue = 0, fg_slave = None\<rparr>"

definition zero_slave :: scu_slave where
  "zero_slave = \<lparr>sl_unique_id = 0, sl_version = 0, cid_group = 0, cid_sys = 0, sl_slot = 0, sl_devs = replicate (MAX_FG_PER_SLAVE + 1) zero_fg\<rparr>"

section \<open>Scanning the slots\<close>

definition slave_id :: "(nat \<Rightarrow> u16) \<Rightarrow> nat \<Rightarrow> u64" where
  "slave_id base_adr i =
     push_bit 48 (ucast (base_adr (i * 2 ^ 16 + 0x40))) OR push_bit 32 (ucast (base_adr (i * 2 ^ 16 + 0x41))) OR
     push_bit 16 (ucast (base_adr (i * 2 ^ 16 + 0x42))) OR ucast (base_adr (i * 2 ^ 16 + 0x43))"

text \<open>\<open>n\<close> slots are left, the next one is \<open>MAX_SCU_SLAVES + 1 - n\<close>.\<close>

fun scan_slots :: "(nat \<Rightarrow> u16) \<Rightarrow> nat \<Rightarrow> nat \<Rightarrow> scu_slave list \<Rightarrow> (nat \<times> scu_slave list) option" where
  "scan_slots base_adr 0 j slaves = Some (j, slaves)"
| "scan_slots base_adr (Suc n) j slaves = do {
     let i = MAX_SCU_SLAVES - n;
     if base_adr (i * 2 ^ 16 + 0x10) \<noteq> 0xdead then do {
       slaves \<leftarrow> set_nth slaves j (\<lambda>s. s\<lparr>sl_unique_id := slave_id base_adr i, sl_slot := of_nat i,
          cid_group := ucast (base_adr (i * 2 ^ 16 + CID_GROUP)), cid_sys := ucast (base_adr (i * 2 ^ 16 + CID_SYS)),
          sl_version := ucast (base_adr (i * 2 ^ 16 + SLAVE_VERSION))\<rparr>);
       scan_slots base_adr n (j + 1) slaves
     } else scan_slots base_adr n j slaves
   }"

definition scan_scu_bus :: "scu_bus \<Rightarrow> u64 \<Rightarrow> (nat \<Rightarrow> u16) \<Rightarrow> (nat \<times> scu_bus) option" where
  "scan_scu_bus bus uid base_adr = do {
     let slaves = map (\<lambda>_. zero_slave) (bus_slaves bus);
     (j, slaves) \<leftarrow> scan_slots base_adr MAX_SCU_SLAVES 0 slaves;
     slaves \<leftarrow> set_nth slaves j (\<lambda>s. s\<lparr>sl_unique_id := 0\<rparr>);
     Some (j, bus\<lparr>bus_unique_id := uid, bus_slaves := slaves\<rparr>)
   }"

section \<open>Finding the function generators\<close>

text \<open>Function generator \<open>k\<close> of slave \<open>i\<close>: its description, and its entry in the list, if there is room.\<close>

definition add_fg :: "nat \<Rightarrow> nat \<Rightarrow> u32 \<Rightarrow> scu_slave list \<Rightarrow> fg_list \<Rightarrow> nat \<Rightarrow> (scu_slave list \<times> fg_list \<times> nat) option" where
  "add_fg i k off slaves list j = do {
     slave \<leftarrow> nth_opt slaves i;
     devs \<leftarrow> set_nth (sl_devs slave) k (\<lambda>d. d\<lparr>dev_number := of_nat k, fg_version := 1, fg_offset := off, fg_slave := Some i\<rparr>);
     slaves \<leftarrow> set_nth slaves i (\<lambda>s. s\<lparr>sl_devs := devs\<rparr>);
     list \<leftarrow> (if j < MAX_FG_DEVICES then set_nth list j (\<lambda>_. Some (i, k)) else Some list);
     Some (slaves, list, j + 1)
   }"

partial_function (option) fg_loop :: "nat \<Rightarrow> scu_slave list \<Rightarrow> fg_list \<Rightarrow> nat \<Rightarrow> (scu_slave list \<times> fg_list \<times> nat) option" where
  "fg_loop i slaves list j = do {
     slave \<leftarrow> nth_opt slaves i;
     if sl_unique_id slave = 0 then Some (slaves, list, j)
     else do {
       (slaves, list, j) \<leftarrow>
         (if cid_sys slave = 55 then
            if cid_group slave = 3 \<or> cid_group slave = 38 then do {
              (slaves, list, j) \<leftarrow> add_fg i 0 0x300 slaves list j;
              add_fg i 1 0x320 slaves list j
            } else if cid_group slave = 26 then add_fg i 0 0x300 slaves list j
            else Some (slaves, list, j)
          else Some (slaves, list, j));
       fg_loop (i + 1) slaves list j
     }
   }"

definition scan_for_fgs :: "scu_bus \<Rightarrow> fg_list \<Rightarrow> (scu_bus \<times> fg_list) option" where
  "scan_for_fgs bus list = do {
     (slaves, list, j) \<leftarrow> fg_loop 0 (bus_slaves bus) list 0;
     list \<leftarrow> set_nth list j (\<lambda>_. None);
     Some (bus\<lparr>bus_slaves := slaves\<rparr>, list)
   }"

section \<open>Probing for cards\<close>

text \<open>The slots whose card answers with the given addresses, and the terminating zero; \<open>slaves\<close> is the list written
  so far.\<close>

fun probe_slots :: "(nat \<Rightarrow> u16) \<Rightarrow> u16 \<Rightarrow> u16 \<Rightarrow> nat \<Rightarrow> int list \<Rightarrow> nat \<Rightarrow> (int list \<times> nat) option" where
  "probe_slots bus_addr system_addr group_addr 0 slaves p = Some (slaves, p)"
| "probe_slots bus_addr system_addr group_addr (Suc n) slaves p = do {
     let slot = MAX_SCU_SLAVES - n;
     if bus_addr (slot * 2 ^ 16 + CID_SYS) = system_addr \<and> bus_addr (slot * 2 ^ 16 + CID_GROUP) = group_addr then do {
       slaves \<leftarrow> set_nth slaves p (\<lambda>_. int slot);
       probe_slots bus_addr system_addr group_addr n slaves (p + 1)
     } else probe_slots bus_addr system_addr group_addr n slaves p
   }"

definition probe_scu_bus :: "(nat \<Rightarrow> u16) \<Rightarrow> u16 \<Rightarrow> u16 \<Rightarrow> int list \<Rightarrow> int list option" where
  "probe_scu_bus bus_addr system_addr group_addr slaves = do {
     (slaves, p) \<leftarrow> probe_slots bus_addr system_addr group_addr MAX_SCU_SLAVES slaves 0;
     set_nth slaves p (\<lambda>_. 0)
   }"

section \<open>The inventory\<close>

text \<open>The slots that answer, and what is recorded of the card in one.\<close>

definition occupied :: "(nat \<Rightarrow> u16) \<Rightarrow> nat \<Rightarrow> bool" where
  "occupied base_adr i \<longleftrightarrow> base_adr (i * 2 ^ 16 + 0x10) \<noteq> 0xdead"

definition slot_card :: "(nat \<Rightarrow> u16) \<Rightarrow> nat \<Rightarrow> scu_slave" where
  "slot_card base_adr i = zero_slave\<lparr>sl_unique_id := slave_id base_adr i, sl_slot := of_nat i,
     cid_group := ucast (base_adr (i * 2 ^ 16 + CID_GROUP)), cid_sys := ucast (base_adr (i * 2 ^ 16 + CID_SYS)),
     sl_version := ucast (base_adr (i * 2 ^ 16 + SLAVE_VERSION))\<rparr>"

definition cards :: "(nat \<Rightarrow> u16) \<Rightarrow> scu_slave list" where
  "cards base_adr = map (slot_card base_adr) (filter (occupied base_adr) [1..<13])"

lemma scan_slots_cards:
  assumes "length ps + n \<le> 12" "n \<le> 12"
  shows "scan_slots base_adr n (length ps) (map (slot_card base_adr) ps @ replicate (13 - length ps) zero_slave) =
    (let qs = ps @ filter (occupied base_adr) [13 - n..<13] in Some (length qs, map (slot_card base_adr) qs @ replicate (13 - length qs) zero_slave))"
  using assms
proof (induction n arbitrary: ps)
  case (Suc n)
  let ?i = "13 - Suc n"
  have "Suc ?i = 13 - n" using Suc.prems by simp
  then have u: "[?i..<13] = ?i # [13 - n..<13]" using upt_conv_Cons [of ?i 13] by (metis diff_less zero_less_Suc zero_less_numeral)
  have i: "MAX_SCU_SLAVES - n = ?i" by (simp add: MAX_SCU_SLAVES_def)
  have r: "replicate (13 - length ps) zero_slave = zero_slave # replicate (13 - length (ps @ [?i])) zero_slave"
    using Suc.prems by (simp flip: replicate_Suc add: Suc_diff_Suc)
  show ?case
  proof (cases "occupied base_adr ?i")
    case True
    have "set_nth (map (slot_card base_adr) ps @ replicate (13 - length ps) zero_slave) (length ps) (\<lambda>s. s\<lparr>sl_unique_id := slave_id base_adr ?i, sl_slot := of_nat ?i,
          cid_group := ucast (base_adr (?i * 2 ^ 16 + CID_GROUP)), cid_sys := ucast (base_adr (?i * 2 ^ 16 + CID_SYS)),
          sl_version := ucast (base_adr (?i * 2 ^ 16 + SLAVE_VERSION))\<rparr>) =
        Some (map (slot_card base_adr) (ps @ [?i]) @ replicate (13 - length (ps @ [?i])) zero_slave)"
      unfolding r using set_nth_append [of "map (slot_card base_adr) ps"] by (simp add: slot_card_def)
    then have "scan_slots base_adr (Suc n) (length ps) (map (slot_card base_adr) ps @ replicate (13 - length ps) zero_slave) =
        scan_slots base_adr n (length (ps @ [?i])) (map (slot_card base_adr) (ps @ [?i]) @ replicate (13 - length (ps @ [?i])) zero_slave)"
      using True by (simp add: Let_def i occupied_def)
    then show ?thesis using Suc.IH [of "ps @ [?i]"] Suc.prems True u by (simp add: Let_def)
  next
    case False
    then show ?thesis using Suc.IH [of ps] Suc.prems u by (simp add: Let_def i occupied_def)
  qed
qed (simp add: Let_def)

lemma length_cards: "length (cards base_adr) \<le> 12"
  using length_filter_le [of "occupied base_adr" "[1..<13]"] by (simp add: cards_def)

lemma scan_finds_cards:
  assumes "length (bus_slaves bus) = MAX_SCU_SLAVES + 1"
  shows "scan_scu_bus bus uid base_adr = Some (length (cards base_adr), bus\<lparr>bus_unique_id := uid,
    bus_slaves := cards base_adr @ replicate (13 - length (cards base_adr)) zero_slave\<rparr>)"
proof -
  have "map (\<lambda>_. zero_slave) (bus_slaves bus) = replicate 13 zero_slave" using assms by (simp add: map_replicate_const MAX_SCU_SLAVES_def)
  moreover have "scan_slots base_adr 12 0 (replicate 13 zero_slave) =
      Some (length (cards base_adr), cards base_adr @ replicate (13 - length (cards base_adr)) zero_slave)"
    using scan_slots_cards [of "[]" 12 base_adr] by (simp add: Let_def cards_def)
  moreover have "replicate (13 - length (cards base_adr)) zero_slave = zero_slave # replicate (12 - length (cards base_adr)) zero_slave"
    using length_cards [of base_adr] by (simp flip: replicate_Suc add: Suc_diff_le)
  ultimately show ?thesis
    using set_nth_append [of "cards base_adr" zero_slave] by (simp add: scan_scu_bus_def MAX_SCU_SLAVES_def Let_def zero_slave_def)
qed

section \<open>The list of function generators\<close>

definition fgs_of :: "nat \<Rightarrow> scu_slave \<Rightarrow> (nat \<times> nat) list" where
  "fgs_of i s = (if cid_sys s = 55 then if cid_group s = 3 \<or> cid_group s = 38 then [(i, 0), (i, 1)]
     else if cid_group s = 26 then [(i, 0)] else [] else [])"

definition described :: "nat \<Rightarrow> nat \<Rightarrow> fg_dev \<Rightarrow> fg_dev" where
  "described i k d = d\<lparr>dev_number := of_nat k, fg_version := 1, fg_offset := 0x300 + 0x20 * of_nat k, fg_slave := Some i\<rparr>"

definition fitted :: "nat \<Rightarrow> scu_slave \<Rightarrow> scu_slave" where
  "fitted i s = s\<lparr>sl_devs := fold (\<lambda>(_, k) devs. devs[k := described i k (devs ! k)]) (fgs_of i s) (sl_devs s)\<rparr>"

text \<open>All of them, up to the slave whose identifier is zero.\<close>

fun fgs_from :: "nat \<Rightarrow> scu_slave list \<Rightarrow> (nat \<times> nat) list" where
  "fgs_from i [] = []"
| "fgs_from i (s # ss) = (if sl_unique_id s = 0 then [] else fgs_of i s @ fgs_from (Suc i) ss)"

fun fit_from :: "nat \<Rightarrow> scu_slave list \<Rightarrow> scu_slave list" where
  "fit_from i [] = []"
| "fit_from i (s # ss) = (if sl_unique_id s = 0 then s # ss else fitted i s # fit_from (Suc i) ss)"

lemma add_fg_append:
  assumes "length (sl_devs s) = 3" "k < 3" "j < 24" "length list = 25"
  shows "add_fg (length pre) k (0x300 + 0x20 * of_nat k) (pre @ s # ss) list j =
    Some (pre @ s\<lparr>sl_devs := (sl_devs s)[k := described (length pre) k (sl_devs s ! k)]\<rparr> # ss, list[j := Some (length pre, k)], j + 1)"
  using assms by (simp add: add_fg_def nth_opt_def set_nth_def MAX_FG_DEVICES_def described_def)

text \<open>What one pass does to slave \<open>i\<close>.\<close>

definition fg_pass :: "nat \<Rightarrow> scu_slave \<Rightarrow> scu_slave list \<Rightarrow> fg_list \<Rightarrow> nat \<Rightarrow> (scu_slave list \<times> fg_list \<times> nat) option" where
  "fg_pass i slave slaves list j =
     (if cid_sys slave = 55 then
        if cid_group slave = 3 \<or> cid_group slave = 38 then do {
          (slaves, list, j) \<leftarrow> add_fg i 0 0x300 slaves list j;
          add_fg i 1 0x320 slaves list j
        } else if cid_group slave = 26 then add_fg i 0 0x300 slaves list j
        else Some (slaves, list, j)
      else Some (slaves, list, j))"

lemma list_fill:
  "length list = 25 \<Longrightarrow> j < 24 \<Longrightarrow> list[j := x] = take j list @ x # drop (Suc j) list"
  "length list = 25 \<Longrightarrow> j < 23 \<Longrightarrow> list[j := x, Suc j := y] = take j list @ [x, y] @ drop (Suc (Suc j)) list"
proof -
  have one: "xs[i := v] = take i xs @ v # drop (Suc i) xs" if "i < length xs" for i v and xs :: "'a list"
    using that by (rule upd_conv_take_nth_drop)
  show "length list = 25 \<Longrightarrow> j < 24 \<Longrightarrow> list[j := x] = take j list @ x # drop (Suc j) list" by (rule one) simp
  show "list[j := x, Suc j := y] = take j list @ [x, y] @ drop (Suc (Suc j)) list" if "length list = 25" "j < 23"
  proof -
    have "drop (Suc j) list = list ! Suc j # drop (Suc (Suc j)) list" using that by (simp add: Cons_nth_drop_Suc)
    then show ?thesis using that by (simp add: one list_update_append)
  qed
qed

lemma fg_pass_appends:
  assumes "length (sl_devs s) = 3" "j < 23" "length list = 25"
  shows "fg_pass (length pre) s (pre @ s # ss) list j =
    Some (pre @ fitted (length pre) s # ss, take j list @ map Some (fgs_of (length pre) s) @ drop (j + length (fgs_of (length pre) s)) list,
      j + length (fgs_of (length pre) s))"
proof -
  have a0: "add_fg (length pre) 0 0x300 (pre @ s # ss) list j =
      Some (pre @ s\<lparr>sl_devs := (sl_devs s)[0 := described (length pre) 0 (sl_devs s ! 0)]\<rparr> # ss, list[j := Some (length pre, 0)], j + 1)"
    using add_fg_append [of s 0 j list pre ss] assms by simp
  have a1: "add_fg (length pre) 1 0x320 (pre @ s' # ss) list' (j + 1) =
      Some (pre @ s'\<lparr>sl_devs := (sl_devs s')[1 := described (length pre) 1 (sl_devs s' ! 1)]\<rparr> # ss, list'[j + 1 := Some (length pre, 1)], j + 1 + 1)"
    if "length (sl_devs s') = 3" "length list' = 25" for s' list'
    using add_fg_append [of s' 1 "j + 1" list' pre ss] that assms(2) by simp
  show ?thesis
    using a0 a1 [of "s\<lparr>sl_devs := (sl_devs s)[0 := described (length pre) 0 (sl_devs s ! 0)]\<rparr>" "list[j := Some (length pre, 0)]"] assms
    by (auto simp: fg_pass_def fgs_of_def fitted_def list_fill)
qed

lemma fgs_of_length: "length (fgs_of i s) \<le> 2"
  by (simp add: fgs_of_def)

lemma fg_loop_list:
  assumes "\<forall>s \<in> set ss. length (sl_devs s) = 3" "\<exists>s \<in> set ss. sl_unique_id s = 0" "length pre + length ss \<le> 13" "j \<le> 2 * length pre" "length list = 25"
  shows "\<exists>j' \<le> 24. fg_loop (length pre) (pre @ ss) list j = Some (pre @ fit_from (length pre) ss,
      take j list @ map Some (fgs_from (length pre) ss) @ drop j' list, j') \<and> j' = j + length (fgs_from (length pre) ss)"
  using assms
proof (induction ss arbitrary: pre list j)
  case (Cons s ss)
  have n: "nth_opt (pre @ s # ss) (length pre) = Some s" by (simp add: nth_opt_def)
  show ?case
  proof (cases "sl_unique_id s = 0")
    case True
    then have "fg_loop (length pre) (pre @ s # ss) list j = Some (pre @ s # ss, list, j)"
      by (subst fg_loop.simps) (simp add: n)
    then show ?thesis using True Cons.prems by simp
  next
    case False
    let ?l = "length (fgs_of (length pre) s)"
    let ?list = "take j list @ map Some (fgs_of (length pre) s) @ drop (j + ?l) list"
    let ?pre = "pre @ [fitted (length pre) s]"
    have ne: "ss \<noteq> []" using Cons.prems(2) False by auto
    then have "length pre + 1 + 1 \<le> 13" using Cons.prems(3) by (cases ss) auto
    then have j: "j < 23" "j + ?l \<le> 24" using Cons.prems(4) fgs_of_length [of "length pre" s] by auto
    have l: "fg_loop (length pre) (pre @ s # ss) list j = fg_loop (length ?pre) (?pre @ ss) ?list (j + ?l)"
      using fg_pass_appends [of s j list pre ss] Cons.prems j False
      by (subst fg_loop.simps) (simp add: n fg_pass_def [symmetric])
    have len: "length ?list = 25" "take (j + ?l) ?list = take j list @ map Some (fgs_of (length pre) s)" using Cons.prems(5) j by simp_all
    obtain j' where j': "j' \<le> 24" "fg_loop (length ?pre) (?pre @ ss) ?list (j + ?l) =
        Some (?pre @ fit_from (length ?pre) ss, take (j + ?l) ?list @ map Some (fgs_from (length ?pre) ss) @ drop j' ?list, j')"
        "j' = j + ?l + length (fgs_from (length ?pre) ss)"
      using Cons.IH [of ?pre "j + ?l" ?list] Cons.prems False len(1) fgs_of_length [of "length pre" s] by auto
    have "drop j' ?list = drop j' list" using j'(3) Cons.prems(5) j by (simp add: drop_append add.commute)
    then show ?thesis using j' False Cons.prems(5) j(1) by (intro exI [of _ j']) (simp add: l len(2))
  qed
qed simp

lemma fgs_from_zero: "fgs_from i (ss @ replicate (Suc n) zero_slave) = fgs_from i ss"
  by (induction ss arbitrary: i) (simp_all add: zero_slave_def)

lemma fgs_from_index: "x \<in> set (fgs_from i ss) \<Longrightarrow> i \<le> fst x"
proof (induction ss arbitrary: i)
  case (Cons s ss)
  then have "x \<in> set (fgs_of i s) \<or> Suc i \<le> fst x" by (auto split: if_splits)
  then show ?case by (auto simp: fgs_of_def split: if_splits)
qed simp

lemma fit_from_nth:
  "(i + m, k) \<in> set (fgs_from i ss) \<Longrightarrow> \<forall>s \<in> set ss. length (sl_devs s) = 3 \<Longrightarrow>
    m < length ss \<and> fit_from i ss ! m = fitted (i + m) (ss ! m) \<and> (i + m, k) \<in> set (fgs_of (i + m) (ss ! m))"
proof (induction ss arbitrary: i m)
  case (Cons s ss)
  show ?case
  proof (cases m)
    case 0
    then have "(i + m, k) \<notin> set (fgs_from (Suc i) ss)" using fgs_from_index [of "(i, k)" "Suc i" ss] by auto
    with Cons.prems 0 show ?thesis by (auto split: if_splits)
  next
    case (Suc m')
    have "(i + m, k) \<notin> set (fgs_of i s)" using Suc by (auto simp: fgs_of_def)
    with Cons.prems Suc Cons.IH [of "Suc i" m'] show ?thesis by (auto split: if_splits)
  qed
qed simp

lemma cards_devs: "s \<in> set (cards base_adr) \<Longrightarrow> length (sl_devs s) = 3" "length (sl_devs zero_slave) = 3"
  by (auto simp: cards_def slot_card_def zero_slave_def MAX_FG_PER_SLAVE_def)

lemma fitted_dev:
  "(i, k) \<in> set (fgs_of i s) \<Longrightarrow> length (sl_devs s) = 3 \<Longrightarrow> sl_devs (fitted i s) ! k = described i k (sl_devs s ! k)"
  by (auto simp: fgs_of_def fitted_def split: if_splits)

text \<open>C17: the inventory of the function generators is complete and stays in bounds. Whatever cards answer on the bus and whatever
  the structures held before, scanning the bus and then the cards never leaves an array: at most 12 cards are
  recorded, in the order of their slots, and at most 24 function generators are listed, followed by the null
  pointer: exactly those of the cards before the first one with identifier zero, each described with the card it
  is on, its number and its register offset.\<close>

theorem fg_inventory:
  fixes base_adr :: "nat \<Rightarrow> u16"
  assumes "length (bus_slaves bus) = MAX_SCU_SLAVES + 1" and "length list = MAX_FG_DEVICES + 1"
  defines "fgs \<equiv> fgs_from 0 (cards base_adr)"
  shows "\<exists>bus' bus'' list'. scan_scu_bus bus uid base_adr = Some (length (cards base_adr), bus') \<and>
    scan_for_fgs bus' list = Some (bus'', list') \<and> length (cards base_adr) \<le> 12 \<and> length fgs \<le> 24 \<and>
    list' = map Some fgs @ None # drop (length fgs + 1) list \<and>
    (\<forall>(i, k) \<in> set fgs. i < length (cards base_adr) \<and>
       sl_devs (bus_slaves bus'' ! i) ! k =
         zero_fg\<lparr>dev_number := of_nat k, fg_version := 1, fg_offset := 0x300 + 0x20 * of_nat k, fg_slave := Some i\<rparr>)"
proof -
  let ?cs = "cards base_adr"
  let ?ss = "?cs @ replicate (13 - length ?cs) zero_slave"
  obtain n where n: "13 - length ?cs = Suc n" using length_cards [of base_adr] by (cases "13 - length ?cs") auto
  have fgs: "fgs_from 0 ?ss = fgs" unfolding n fgs_def by (rule fgs_from_zero)
  have devs: "\<forall>s \<in> set ?ss. length (sl_devs s) = 3" using cards_devs by auto
  have "\<exists>s \<in> set ?ss. sl_unique_id s = 0" unfolding n by (simp add: zero_slave_def)
  then obtain j' where j': "j' \<le> 24" "fg_loop 0 ?ss list 0 = Some (fit_from 0 ?ss, map Some fgs @ drop j' list, j')" "j' = length fgs"
    using fg_loop_list [of ?ss "[]" 0 list] devs assms(2) length_cards [of base_adr] by (auto simp: fgs MAX_FG_DEVICES_def)
  have list: "length list = 25" using assms(2) by (simp add: MAX_FG_DEVICES_def)
  then have "set_nth (map Some fgs @ drop j' list) j' (\<lambda>_. None) = Some (map Some fgs @ None # drop (length fgs + 1) list)"
    using j'(1,3) Cons_nth_drop_Suc [of j' list, symmetric] set_nth_append [of "map Some fgs" "list ! j'" "drop (Suc j') list"] by simp
  moreover have "i < length ?cs \<and> sl_devs (fit_from 0 ?ss ! i) ! k =
      zero_fg\<lparr>dev_number := of_nat k, fg_version := 1, fg_offset := 0x300 + 0x20 * of_nat k, fg_slave := Some i\<rparr>" if "(i, k) \<in> set fgs" for i k
  proof -
    have c: "i < length ?cs" "(i, k) \<in> set (fgs_of i (?cs ! i))"
      using fit_from_nth [of 0 i k ?cs] that cards_devs by (auto simp: fgs_def)
    have "fit_from 0 ?ss ! i = fitted i (?cs ! i)"
      using fit_from_nth [of 0 i k ?ss] that devs c(1) by (simp add: fgs nth_append)
    moreover have "sl_devs (?cs ! i) = replicate 3 zero_fg" "k < 3"
      using c by (auto simp: cards_def slot_card_def zero_slave_def MAX_FG_PER_SLAVE_def fgs_of_def split: if_splits)
    ultimately show ?thesis using fitted_dev [OF c(2)] c(1) by (simp add: described_def)
  qed
  ultimately show ?thesis
    using scan_finds_cards [OF assms(1)] j' length_cards [of base_adr]
    by (auto simp: scan_for_fgs_def)
qed

text \<open>One card with two function generators in slot 1.\<close>

definition demo_slots :: "nat \<Rightarrow> u16" where
  "demo_slots a = (if a = 0x10004 then 55 else if a = 0x10005 then 38 else if a div 0x10000 = 1 then 1 else 0xdead)"

theorem fg_inventory_witness:
  "\<exists>n bus' bus'' list'. scan_scu_bus \<lparr>bus_unique_id = 0, bus_slaves = replicate 13 zero_slave\<rparr> 5 demo_slots = Some (n, bus') \<and>
     scan_for_fgs bus' (replicate 25 (Some (9, 9))) = Some (bus'', list') \<and> n = 1 \<and>
     list' = Some (0, 0) # Some (0, 1) # None # replicate 22 (Some (9, 9))"
proof -
  have "filter (occupied demo_slots) [1..<13] = [1]"
    by (simp add: upt_rec occupied_def demo_slots_def)
  then have c: "cards demo_slots = [slot_card demo_slots 1]" by (simp add: cards_def)
  have "cid_sys (slot_card demo_slots 1) = 55" "cid_group (slot_card demo_slots 1) = 38" "sl_unique_id (slot_card demo_slots 1) \<noteq> 0"
    by (simp_all add: slot_card_def demo_slots_def slave_id_def)
  then have f: "fgs_from 0 (cards demo_slots) = [(0, 0), (0, 1)]" by (simp add: c fgs_of_def)
  show ?thesis
    using fg_inventory [of "\<lparr>bus_unique_id = 0, bus_slaves = replicate 13 zero_slave\<rparr>" "replicate 25 (Some (9, 9))" 5 demo_slots]
    by (auto simp: MAX_SCU_SLAVES_def MAX_FG_DEVICES_def f) (simp add: c)
qed

end
