(* ===== verification/Scu_Main.thy ===== *)
theory Scu_Main
  imports Scu_Bus
begin

text \<open>
  The firmware of the SCU (\<^verbatim>\<open>top/gsi_scu/main.c\<close>) and the display it prints on (\<^verbatim>\<open>modules/lm32-include/display.c\<close>).
  The one-wire readout and the initialisation of the UART belong to other repositories and are parameters.
\<close>

section \<open>Display\<close>

abbreviation (input) oled_rst :: nat where "oled_rst \<equiv> 1"
abbreviation (input) oled_mode :: nat where "oled_mode \<equiv> 0"
abbreviation (input) oled_uart :: nat where "oled_uart \<equiv> 0x4000"
abbreviation (input) oled_character :: nat where "oled_character \<equiv> 0x8000"
abbreviation (input) oled_raw :: nat where "oled_raw \<equiv> 0x8000"
abbreviation (input) ROW_LEN :: nat where "ROW_LEN \<equiv> 11"

definition disp_reset :: "'w board \<Rightarrow> ('w, 'z) cpu_scheme \<Rightarrow> ('w, 'z) cpu_scheme" where
  "disp_reset b s = poke b pOledDisplay oled_rst 1 s"

definition disp_put_c :: "'w board \<Rightarrow> u8 \<Rightarrow> ('w, 'z) cpu_scheme \<Rightarrow> ('w, 'z) cpu_scheme" where
  "disp_put_c b ascii s = poke b pOledDisplay oled_uart (ucast ascii) (poke b pOledDisplay oled_mode 1 s)"

definition disp_put_str :: "'w board \<Rightarrow> u8 list \<Rightarrow> ('w, 'z) cpu_scheme \<Rightarrow> ('w, 'z) cpu_scheme option" where
  "disp_put_str b sPtr s = do {
     let s = poke b pOledDisplay oled_mode 1 s;
     str \<leftarrow> c_string sPtr;
     Some (fold (\<lambda>c. poke b pOledDisplay oled_uart (ucast c)) str s)
   }"

definition disp_loc_c :: "'w board \<Rightarrow> u8 \<Rightarrow> u8 \<Rightarrow> u8 \<Rightarrow> ('w, 'z) cpu_scheme \<Rightarrow> ('w, 'z) cpu_scheme" where
  "disp_loc_c b ascii row col s =
     (let s = poke b pOledDisplay oled_mode 2 s;
          rowcol = push_bit 6 (0x07 AND ucast row) + push_bit 2 (0x0f AND ucast col) :: u32
      in poke b pOledDisplay (unat (drop_bit 2 (of_nat oled_character + rowcol))) (ucast ascii) s)"

text \<open>\<open>n\<close> columns are left. The characters behind the end of the text are read, although blanks are shown for them.\<close>

fun put_line_loop :: "'w board \<Rightarrow> u8 list \<Rightarrow> u8 \<Rightarrow> nat \<Rightarrow> bool \<Rightarrow> ('w, 'z) cpu_scheme \<Rightarrow> ('w, 'z) cpu_scheme option" where
  "put_line_loop b sPtr row 0 pad s = Some s"
| "put_line_loop b sPtr row (Suc n) pad s = do {
     let col = ROW_LEN - Suc n;
     c \<leftarrow> nth_opt sPtr col;
     let pad = pad \<or> c = 0;
     put_line_loop b sPtr row n pad (disp_loc_c b (if pad then 32 else c) row (of_nat col) s)
   }"

definition disp_put_line :: "'w board \<Rightarrow> u8 list \<Rightarrow> u8 \<Rightarrow> ('w, 'z) cpu_scheme \<Rightarrow> ('w, 'z) cpu_scheme option" where
  "disp_put_line b sPtr row s = put_line_loop b sPtr row ROW_LEN False s"

definition disp_put_raw :: "'w board \<Rightarrow> u8 \<Rightarrow> u32 \<Rightarrow> u8 \<Rightarrow> ('w, 'z) cpu_scheme \<Rightarrow> ('w, 'z) cpu_scheme" where
  "disp_put_raw b pixcol address color s =
     (let s = poke b pOledDisplay oled_mode 3 s;
          i = oled_raw + unat (address AND 0x3FFF);
          (old, s) = peek b pOledDisplay i s;
          oldpixcol = ucast old :: u8;
          s = poke b pOledDisplay i (if color \<noteq> 0 then ucast (pixcol OR oldpixcol) else ucast (NOT pixcol AND oldpixcol)) s
      in poke b pOledDisplay oled_mode 0 s)"

definition get_pixcol_addr :: "u8 \<Rightarrow> u8 \<Rightarrow> u32" where
  "get_pixcol_addr x_in y_in =
     (let x = ucast (x_in AND 0x3F);
          y = (if y_in < 48 then push_bit 8 (drop_bit 3 (ucast y_in)) else push_bit 8 5)
      in 0x230 + y + x)"

definition get_pixcol_val :: "u8 \<Rightarrow> u32" where
  "get_pixcol_val y_in = push_bit (unat (y_in AND 0x07)) 1"

section \<open>Printing on the UART\<close>

definition uart_print :: "'w board \<Rightarrow> u8 list \<Rightarrow> va_arg list \<Rightarrow> ('w, 'z) cpu_scheme \<Rightarrow> ('w, 'z) cpu_scheme option" where
  "uart_print b format ap s = do {
     out \<leftarrow> mprintf format ap;
     Some (s\<lparr>cpu_io := fold (uart_write_byte b) out (cpu_io s)\<rparr>)
   }"

section \<open>The variables of the program\<close>

record 'w scu = "'w cpu" +
  icounter :: "u16 list"
  slaves :: "int list"
  fg_buffer :: "circ_buffer list"
  scub :: scu_bus
  fgs :: fg_list
  backplane_id :: u64

abbreviation (input) ISR1 :: nat where "ISR1 \<equiv> 1"

abbreviation (input) GLOBAL_IRQ_ENA :: nat where "GLOBAL_IRQ_ENA \<equiv> 0x2"
abbreviation (input) SRQ_ENA :: nat where "SRQ_ENA \<equiv> 0x6"
abbreviation (input) MULTI_SLAVE_SEL :: nat where "MULTI_SLAVE_SEL \<equiv> 0xc"
abbreviation (input) SLAVE_INT_ENA :: nat where "SLAVE_INT_ENA \<equiv> 0x21"
abbreviation (input) SLAVE_INT_ACT :: nat where "SLAVE_INT_ACT \<equiv> 0x24"
abbreviation (input) TMR_BASE :: nat where "TMR_BASE \<equiv> 0x330"
abbreviation (input) TMR_CNTRL :: nat where "TMR_CNTRL \<equiv> 0x0"
abbreviation (input) TMR_IRQ_CNT :: nat where "TMR_IRQ_CNT \<equiv> 0x1"
abbreviation (input) TMR_VALUEL :: nat where "TMR_VALUEL \<equiv> 0x2"
abbreviation (input) TMR_VALUEH :: nat where "TMR_VALUEH \<equiv> 0x3"

definition scub_peek :: "'w board \<Rightarrow> nat \<Rightarrow> ('w, 'z) cpu_scheme \<Rightarrow> u16 \<times> ('w, 'z) cpu_scheme" where
  "scub_peek b i s = (let (v, w) = scub_read b i (cpu_io s) in (v, s\<lparr>cpu_io := w\<rparr>))"

definition scub_poke :: "'w board \<Rightarrow> nat \<Rightarrow> u16 \<Rightarrow> ('w, 'z) cpu_scheme \<Rightarrow> ('w, 'z) cpu_scheme" where
  "scub_poke b i v s = s\<lparr>cpu_io := scub_write b i v (cpu_io s)\<rparr>"

text \<open>\<^verbatim>\<open>scub_base[i] |= v\<close>\<close>

definition scub_or :: "'w board \<Rightarrow> nat \<Rightarrow> u16 \<Rightarrow> ('w, 'z) cpu_scheme \<Rightarrow> ('w, 'z) cpu_scheme" where
  "scub_or b i v s = (let (old, s) = scub_peek b i s in scub_poke b i (old OR v) s)"

section \<open>Interrupts\<close>

text \<open>\<^verbatim>\<open>buffer\<close> is a local array of 12 characters of any content.\<close>

definition show_msi :: "'w board \<Rightarrow> u8 list \<Rightarrow> 'w scu \<Rightarrow> 'w scu option" where
  "show_msi b buffer s = do {
     buffer \<leftarrow> mat_sprinthex buffer (msg (global_msi s));
     s \<leftarrow> disp_put_str b (lit ''D '') s;
     s \<leftarrow> disp_put_str b buffer s;
     let s = disp_put_c b 10 s;
     buffer \<leftarrow> mat_sprinthex buffer (adr (global_msi s));
     s \<leftarrow> disp_put_str b (lit ''A '') s;
     s \<leftarrow> disp_put_str b buffer s;
     let s = disp_put_c b 10 s;
     buffer \<leftarrow> mat_sprinthex buffer (sel (global_msi s));
     s \<leftarrow> disp_put_str b (lit ''S '') s;
     s \<leftarrow> disp_put_str b buffer s;
     Some (disp_put_c b 10 s)
   }"

definition isr1 :: "'w board \<Rightarrow> u8 list \<Rightarrow> 'w scu \<Rightarrow> 'w scu option" where
  "isr1 b buffer s = do {
     let slave_nr = (ucast (drop_bit 2 (adr (global_msi s)) AND 0xf) :: u8);
     let base = unat slave_nr * 2 ^ 16;
     let (tmr_irq_cnts, s) = scub_peek b (base + TMR_BASE + TMR_IRQ_CNT) s;
     let s = disp_put_c b (slave_nr + 48) s;
     let s = disp_put_c b 32 s;
     i \<leftarrow> index_of (uint slave_nr - 1) (icounter s);
     buffer \<leftarrow> sprinthex buffer (ucast (icounter s ! i)) 4;
     s \<leftarrow> disp_put_str b buffer s;
     let s = disp_put_c b 10 s;
     let s = disp_put_c b 32 s;
     let s = disp_put_c b 32 s;
     buffer \<leftarrow> sprinthex buffer (ucast tmr_irq_cnts) 4;
     s \<leftarrow> disp_put_str b buffer s;
     let s = disp_put_c b 10 s;
     let s = (if tmr_irq_cnts = icounter s ! i then scub_or b (base + SLAVE_INT_ACT) 5 s else s);
     let s = s\<lparr>icounter := (icounter s)[i := icounter s ! i + 1]\<rparr>;
     uart_print b (lit (''irq1'' @ [CHR 0x0A])) [] s
   }"


text \<open>\<open>n\<close> channels of the interrupt master are left.\<close>

fun irq_channels :: "'w board \<Rightarrow> nat \<Rightarrow> 'w scu \<Rightarrow> 'w scu" where
  "irq_channels b 0 s = s"
| "irq_channels b (Suc n) s =
     (let i = 11 - n;
          s = poke b scub_irq_base 8 (of_nat i) s;
          s = poke b scub_irq_base 9 0x08154711 s;
          s = poke b scub_irq_base 10 (0x200300 + push_bit 2 (of_nat (i + 1))) s
      in irq_channels b n s)"

definition init_irq :: "'w board \<Rightarrow> 'w scu \<Rightarrow> 'w scu option" where
  "init_irq b s = do {
     let s = scub_poke b GLOBAL_IRQ_ENA 0x20 s;
     let s = poke b scub_irq_base 0 0x1 s;
     let s = poke b scub_irq_base 2 0xfff s;
     let s = irq_channels b 12 s;
     let s = isr_table_clr s;
     let s = s\<lparr>isr_ptr_table := (isr_ptr_table s)[1 := ISR1]\<rparr>;
     let s = irq_set_mask 0x02 s;
     let s = irq_enable s;
     uart_print b (lit (''MSI IRQs configured.'' @ [CHR 0x0A])) [] s
   }"

definition dis_irq :: "'w scu \<Rightarrow> 'w scu option" where
  "dis_irq s = do {
     let s = irq_set_mask 0x02 s;
     let s = irq_disable s;
     let s = isr_table_clr s;
     if MAX_SCU_SLAVES \<le> length (icounter s)
     then Some (s\<lparr>icounter := replicate MAX_SCU_SLAVES 0 @ drop MAX_SCU_SLAVES (icounter s)\<rparr>)
     else None
   }"

section \<open>Slaves\<close>

text \<open>The slave of a slot sits behind the registers \<open>slot << 16\<close>; the loops run over the rest of \<^verbatim>\<open>slaves\<close>. A shift by a
  negative amount, or into the sign bit, is undefined.\<close>

fun configure_loop :: "'w board \<Rightarrow> int list \<Rightarrow> 'w scu \<Rightarrow> 'w scu option" where
  "configure_loop b [] s = None"
| "configure_loop b (sn # rest) s =
     (if sn = 0 then Some s
      else if sn < 0 \<or> 31 < sn then None
      else
        (let n = nat sn;
             s = disp_put_c b 120 s;
             s = scub_or b SRQ_ENA (push_bit (n - 1) 1) s;
             s = scub_or b MULTI_SLAVE_SEL (push_bit (n - 1) 1) s;
             s = scub_poke b (n * 2 ^ 16 + SLAVE_INT_ENA) 0x4 s;
             s = scub_poke b (n * 2 ^ 16 + TMR_BASE + TMR_CNTRL) 0x1 s;
             s = scub_poke b (n * 2 ^ 16 + TMR_BASE + TMR_VALUEL) 0xffff s;
             s = scub_poke b (n * 2 ^ 16 + TMR_BASE + TMR_VALUEH) 0x005f s;
             s = scub_or b (n * 2 ^ 16 + TMR_BASE + TMR_CNTRL) 0x2 s
         in configure_loop b rest s))"

definition configure_slaves :: "'w board \<Rightarrow> 'w scu \<Rightarrow> 'w scu option" where
  "configure_slaves b s =
     (let s = scub_poke b SRQ_ENA 0 s; s = scub_poke b MULTI_SLAVE_SEL 0 s in configure_loop b (slaves s) s)"

fun reset_loop :: "'w board \<Rightarrow> int list \<Rightarrow> 'w scu \<Rightarrow> 'w scu option" where
  "reset_loop b [] s = None"
| "reset_loop b (sn # rest) s =
     (if sn = 0 then Some s
      else if sn < 0 then None
      else reset_loop b rest (scub_poke b (nat sn * 2 ^ 16 + TMR_BASE + TMR_CNTRL) 0x1 (disp_put_c b 120 s)))"

definition reset_slaves :: "'w board \<Rightarrow> 'w scu \<Rightarrow> 'w scu option" where
  "reset_slaves b s =
     (let s = scub_poke b SRQ_ENA 0 s; s = scub_poke b MULTI_SLAVE_SEL 0 s in reset_loop b (slaves s) s)"

section \<open>Initialisation\<close>

text \<open>The start of the program up to its final idle loop; \<open>uart_init_hw\<close> and \<open>updateTemps\<close> are parameters. The bus is read
  without side effects while it is scanned.\<close>

definition init :: "'w board \<Rightarrow> ('w scu \<Rightarrow> 'w scu) \<Rightarrow> ('w scu \<Rightarrow> 'w scu) \<Rightarrow> 'w scu \<Rightarrow> 'w scu option" where
  "init b uart_init_hw updateTemps s = do {
     let s = uart_init_hw s;
     s \<leftarrow> init_irq b s;
     let s = updateTemps s;
     buf \<leftarrow> init_buffers (fg_buffer s);
     let s = s\<lparr>fg_buffer := buf\<rparr>;
     (_, bus) \<leftarrow> scan_scu_bus (scub s) (backplane_id s) (\<lambda>i. fst (scub_read b i (cpu_io s)));
     let s = s\<lparr>scub := bus\<rparr>;
     (bus, list) \<leftarrow> scan_for_fgs (scub s) (fgs s);
     let s = s\<lparr>scub := bus, fgs := list\<rparr>;
     configure_slaves b s
   }"

definition usleep_cycles :: "int \<Rightarrow> u32" where
  "usleep_cycles us = (let delay = (of_int us :: u64) * 62500000; delay = delay div 1000000; delay = delay div 4 in ucast delay)"

section \<open>Routing of the slave interrupts\<close>

text \<open>What the interrupt master and the SCU bus promise: register 8 of the master selects a channel, register 10 holds the
  destination address of the selected channel (\<open>dest\<close>), register 9 and the other devices leave them alone; \<open>writes\<close> is what was
  written to the registers of the SCU bus so far.\<close>

definition scu_law :: "'w board \<Rightarrow> ('w \<Rightarrow> nat \<Rightarrow> u32) \<Rightarrow> ('w \<Rightarrow> nat) \<Rightarrow> ('w \<Rightarrow> (nat \<times> u16) list) \<Rightarrow> bool" where
  "scu_law b dest chan writes \<longleftrightarrow>
     (\<forall>v w. chan (io_write b scub_irq_base 8 v w) = unat v \<and> dest (io_write b scub_irq_base 8 v w) = dest w) \<and>
     (\<forall>v w. chan (io_write b scub_irq_base 9 v w) = chan w \<and> dest (io_write b scub_irq_base 9 v w) = dest w) \<and>
     (\<forall>v w. dest (io_write b scub_irq_base 10 v w) = (dest w)(chan w := v)) \<and>
     (\<forall>c w. dest (uart_write_byte b c w) = dest w) \<and>
     (\<forall>p i v w. writes (io_write b p i v w) = writes w) \<and>
     (\<forall>c w. writes (uart_write_byte b c w) = writes w) \<and>
     (\<forall>i v w. writes (scub_write b i v w) = writes w @ [(i, v)]) \<and>
     (\<forall>i w. writes (snd (scub_read b i w)) = writes w)"

lemma c_string_ends: "0 \<in> set xs \<Longrightarrow> \<exists>str. c_string xs = Some str"
  by (induction xs) auto

lemma fold_keeps: "(\<And>x s. f (g x s) = f s) \<Longrightarrow> f (fold g xs s) = f s"
  by (induction xs arbitrary: s) auto

lemma sprinthex_4:
  assumes "4 < length buffer"
  obtains buffer' str where "sprinthex buffer val 4 = Some buffer'" "length buffer' = length buffer" "c_string buffer' = Some str"
proof -
  have "sprinthex_loop val 4 4 buffer = Some (nibbles val 4 @ drop 4 buffer)"
    by (rule sprinthex_loop_nibbles) (use assms in \<open>simp_all add: nibbles_def\<close>)
  then have s: "sprinthex buffer val 4 = Some ((nibbles val 4 @ drop 4 buffer)[4 := 0])" and l: "length (nibbles val 4 @ drop 4 buffer) = length buffer"
    using assms by (simp_all add: sprinthex_def nibbles_def)
  have "0 \<in> set ((nibbles val 4 @ drop 4 buffer)[4 := 0])"
    using set_update_memI [of 4 "nibbles val 4 @ drop 4 buffer" 0] l assms by simp
  then obtain str where "c_string ((nibbles val 4 @ drop 4 buffer)[4 := 0]) = Some str" using c_string_ends by blast
  then show ?thesis using that [OF s] l by simp
qed

lemma fold_poke: "fold (\<lambda>c. poke b p i (f c)) xs s = s\<lparr>cpu_io := fold (\<lambda>c. io_write b p i (f c)) xs (cpu_io s)\<rparr>"
  by (induction xs arbitrary: s) (simp_all add: poke_def)

text \<open>The effect of the output routines on the world.\<close>

definition put_w :: "'w board \<Rightarrow> u8 \<Rightarrow> 'w \<Rightarrow> 'w" where
  "put_w b c w = io_write b pOledDisplay oled_uart (ucast c) (io_write b pOledDisplay oled_mode 1 w)"

definition shown_w :: "'w board \<Rightarrow> u8 list \<Rightarrow> 'w \<Rightarrow> 'w" where
  "shown_w b cs w = fold (\<lambda>c. io_write b pOledDisplay oled_uart (ucast c)) cs (io_write b pOledDisplay oled_mode 1 w)"

lemma output_io:
  "disp_put_c b c s = s\<lparr>cpu_io := put_w b c (cpu_io s)\<rparr>"
  "c_string str = Some cs \<Longrightarrow> disp_put_str b str s = Some (s\<lparr>cpu_io := shown_w b cs (cpu_io s)\<rparr>)"
  "mprintf format ap = Some out \<Longrightarrow> uart_print b format ap s = Some (s\<lparr>cpu_io := fold (uart_write_byte b) out (cpu_io s)\<rparr>)"
  by (simp_all add: disp_put_c_def put_w_def disp_put_str_def shown_w_def uart_print_def fold_poke poke_def [of b _ oled_mode] poke_def [of b _ oled_uart])

lemma output_keeps:
  assumes "scu_law b dest chan writes"
  shows "writes (put_w b c w) = writes w" "writes (shown_w b cs w) = writes w"
    "writes (fold (uart_write_byte b) out w) = writes w" "dest (fold (uart_write_byte b) out w) = dest w"
proof -
  show "writes (put_w b c w) = writes w" using assms by (simp add: put_w_def scu_law_def)
  have "writes (shown_w b cs w) = writes (io_write b pOledDisplay oled_mode 1 w)"
    unfolding shown_w_def by (rule fold_keeps) (use assms in \<open>simp add: scu_law_def\<close>)
  then show "writes (shown_w b cs w) = writes w" using assms by (simp add: scu_law_def)
  show "writes (fold (uart_write_byte b) out w) = writes w" "dest (fold (uart_write_byte b) out w) = dest w"
    by (rule fold_keeps; use assms in \<open>simp add: scu_law_def\<close>)+
qed

lemma mprintf_irq1: "mprintf (lit (''irq1'' @ [CHR 0x0A])) [] = Some (map of_char (''irq1'' @ [CHR 0x0A]))"
  by code_simp

lemma mprintf_configured: "mprintf (lit (''MSI IRQs configured.'' @ [CHR 0x0A])) [] = Some (map of_char (''MSI IRQs configured.'' @ [CHR 0x0A]))"
  by code_simp

text \<open>The handler, for a message with the address of slot \<open>n\<close>.\<close>

lemma slot_of_address:
  assumes "n < 16"
  shows "drop_bit 2 (0x200300 + push_bit 2 (of_nat n)) AND 0xf = (of_nat n :: u32)"
proof -
  have "n = 0 \<or> n = 1 \<or> n = 2 \<or> n = 3 \<or> n = 4 \<or> n = 5 \<or> n = 6 \<or> n = 7 \<or> n = 8 \<or> n = 9 \<or> n = 10 \<or> n = 11 \<or> n = 12 \<or> n = 13 \<or> n = 14 \<or> n = 15"
    using assms by presburger
  then show ?thesis by (elim disjE) simp_all
qed

lemma isr1_slot:
  fixes s :: "'w scu"
  assumes law: "scu_law b dest chan writes" and buf: "length buffer = 12" and len: "length (icounter s) = 13"
    and n: "1 \<le> n" "n \<le> 12" and adr: "adr (global_msi s) = 0x200300 + push_bit 2 (of_nat n)"
  shows "\<exists>s' act. isr1 b buffer s = Some s' \<and> icounter s' = (icounter s)[n - 1 := icounter s ! (n - 1) + 1] \<and>
    writes (cpu_io s') = writes (cpu_io s) @
      (if fst (scub_read b (n * 2 ^ 16 + 0x331) (cpu_io s)) = icounter s ! (n - 1) then [(n * 2 ^ 16 + 0x24, act OR 5)] else [])"
proof -
  let ?nr = "ucast (drop_bit 2 (adr (global_msi s)) AND 0xf) :: u8"
  have nr: "?nr = of_nat n" using n slot_of_address [of n] by (simp add: adr unsigned_of_nat take_bit_nat_eq_self)
  have un: "unat (of_nat n :: u8) = n" using n by (simp add: unat_of_nat)
  then have ui: "uint (of_nat n :: u8) = int n" by (metis uint_nat)
  define i where "i = n - 1"
  have idx: "index_of (int n - 1) (icounter s) = Some i"
    using n len by (auto simp: index_of_def nat_diff_distrib i_def)
  obtain c w1 where rd: "scub_read b (n * 2 ^ 16 + TMR_BASE + TMR_IRQ_CNT) (cpu_io s) = (c, w1)" by fastforce
  have "n * 2 ^ 16 + TMR_BASE + TMR_IRQ_CNT = n * 2 ^ 16 + 0x331" by simp
  then have rd': "fst (scub_read b (n * 2 ^ 16 + 0x331) (cpu_io s)) = c" using rd by (metis fst_conv)
  obtain b1 c1 where b1: "sprinthex buffer (ucast (icounter s ! i)) 4 = Some b1" "length b1 = 12" "c_string b1 = Some c1"
    using sprinthex_4 [of buffer "ucast (icounter s ! i)"] buf by auto
  obtain b2 c2 where b2: "sprinthex b1 (ucast c) 4 = Some b2" "length b2 = 12" "c_string b2 = Some c2"
    using sprinthex_4 [of b1 "ucast c"] b1(2) by auto
  have w1: "writes w1 = writes (cpu_io s)" using law rd unfolding scu_law_def by (metis snd_conv)
  have acc: "writes (snd (scub_read b i w)) = writes w" "writes (scub_write b i v w) = writes w @ [(i, v)]" for i v w
    using law by (simp_all add: scu_law_def)
  obtain out where out: "mprintf (lit (''irq1'' @ [CHR 0x0A])) [] = Some out" using mprintf_irq1 by blast
  show ?thesis
    unfolding i_def [symmetric] rd'
    by (simp only: isr1_def Let_def split_def scub_peek_def nr un ui rd fst_conv snd_conv)
      (auto simp: idx b1 b2 output_io out [simplified] output_keeps [OF law] acc w1 scub_or_def scub_peek_def scub_poke_def split_def Let_def)
qed

lemma channels_dest:
  assumes "scu_law b dest chan writes" "n \<le> 12"
  shows "\<exists>w. irq_channels b n s = s\<lparr>cpu_io := w\<rparr> \<and>
    (\<forall>i < 12. dest w i = (if 12 - n \<le> i then 0x200300 + push_bit 2 (of_nat (i + 1)) else dest (cpu_io s) i))"
  using assms(2)
proof (induction n arbitrary: s)
  case 0
  show ?case by (intro exI [of _ "cpu_io s"]) simp
next
  case (Suc n)
  define w where "w = io_write b scub_irq_base 10 (0x200300 + push_bit 2 (of_nat (11 - n + 1))) (io_write b scub_irq_base 9 0x08154711 (io_write b scub_irq_base 8 (of_nat (11 - n)) (cpu_io s)))"
  have "unat (of_nat (11 - n) :: u32) = 11 - n" by (simp add: unat_of_nat)
  then have d: "dest w = (dest (cpu_io s))(11 - n := 0x200300 + push_bit 2 (of_nat (11 - n + 1)))"
    using assms(1) by (simp add: w_def scu_law_def)
  obtain w' where w': "irq_channels b n (s\<lparr>cpu_io := w\<rparr>) = s\<lparr>cpu_io := w'\<rparr>"
      "\<forall>i < 12. dest w' i = (if 12 - n \<le> i then 0x200300 + push_bit 2 (of_nat (i + 1)) else dest w i)"
    using Suc.IH [of "s\<lparr>cpu_io := w\<rparr>"] Suc.prems by auto
  have "irq_channels b (Suc n) s = irq_channels b n (s\<lparr>cpu_io := w\<rparr>)" by (simp add: Let_def poke_def w_def)
  moreover have "dest w' i = (if 12 - Suc n \<le> i then 0x200300 + push_bit 2 (of_nat (i + 1)) else dest (cpu_io s) i)" if "i < 12" for i
    using w'(2) that Suc.prems by (cases "i = 11 - n") (auto simp: d)
  ultimately show ?case using w'(1) by auto
qed

lemma init_irq_dest:
  assumes "scu_law b dest chan writes"
  obtains s' where "init_irq b s = Some s'" "\<forall>i < 12. dest (cpu_io s') i = 0x200300 + push_bit 2 (of_nat (i + 1))"
    "isr_ptr_table s' = [0, ISR1] @ replicate 30 0" "csr_im s' = 2" "irq_get_enable s' = 1"
proof -
  let ?s = "poke b scub_irq_base 2 0xfff (poke b scub_irq_base 0 0x1 (scub_poke b GLOBAL_IRQ_ENA 0x20 s))"
  obtain w where w: "irq_channels b 12 ?s = ?s\<lparr>cpu_io := w\<rparr>" "\<forall>i < 12. dest w i = 0x200300 + push_bit 2 (of_nat (i + 1))"
    using channels_dest [OF assms, of 12 ?s] by auto
  obtain out where out: "mprintf (lit (''MSI IRQs configured.'' @ [CHR 0x0A])) [] = Some out" using mprintf_configured by blast
  have tab: "(replicate 32 0)[Suc 0 := ISR1] = 0 # ISR1 # replicate 30 0" by (simp add: numeral_eq_Suc)
  have ie: "(x OR 1) AND 1 = (1 :: u32)" for x by (rule bit_word_eqI) (auto simp: bit_simps)
  show ?thesis
    by (rule that) (simp_all only: init_irq_def Let_def w(1) output_io(3) [OF out] isr_table_clr_def irq_set_mask_def irq_enable_def irq_get_enable_def,
      simp_all add: output_keeps [OF assms] w(2) [simplified] poke_def scub_poke_def ie tab [simplified])
qed


text \<open>C28: slave interrupts are routed to their slot. After \<^verbatim>\<open>init_irq\<close> interrupts are enabled for message queue 1 only, whose handler is
  \<^verbatim>\<open>isr1\<close>. When a message then arrives at the address the interrupt master was given for any of the 12 slots, the
  handler stays inside its arrays, counts the interrupt for that slot, and acknowledges the timer and power-up
  interrupts of that slot's card and of no other, exactly if the card's interrupt counter equals the one kept for
  it.\<close>

theorem slave_interrupt_routed:
  fixes s s2 :: "'w scu"
  assumes "scu_law b dest chan writes" and "1 \<le> n" and "n \<le> 12" and "length buffer = 12" and "length (icounter s2) = 13"
  shows "\<exists>s1. init_irq b s = Some s1 \<and> isr_ptr_table s1 = [0, ISR1] @ replicate 30 0 \<and> csr_im s1 = 2 \<and> irq_get_enable s1 = 1 \<and>
    (adr (global_msi s2) = dest (cpu_io s1) (n - 1) \<longrightarrow>
       (\<exists>s3 act. isr1 b buffer s2 = Some s3 \<and> icounter s3 = (icounter s2)[n - 1 := icounter s2 ! (n - 1) + 1] \<and>
          writes (cpu_io s3) = writes (cpu_io s2) @
            (if fst (scub_read b (n * 2 ^ 16 + 0x331) (cpu_io s2)) = icounter s2 ! (n - 1) then [(n * 2 ^ 16 + 0x24, act OR 5)] else [])))"
proof -
  obtain s1 where s1: "init_irq b s = Some s1" "\<forall>i < 12. dest (cpu_io s1) i = 0x200300 + push_bit 2 (of_nat (i + 1))"
    "isr_ptr_table s1 = [0, ISR1] @ replicate 30 0" "csr_im s1 = 2" "irq_get_enable s1 = 1"
    using init_irq_dest [OF assms(1)] .
  have n: "n - 1 < 12" "n - 1 + 1 = n" using assms(2,3) by simp_all
  have "dest (cpu_io s1) (n - 1) = 0x200300 + push_bit 2 (of_nat n)" using s1(2) [rule_format, OF n(1)] unfolding n(2) .
  then show ?thesis using s1(1,3-5) isr1_slot [OF assms(1,4,5,2,3)] by auto
qed

text \<open>A board that records what is written to the SCU bus.\<close>

record demo_world =
  dw_dest :: "nat \<Rightarrow> u32"
  dw_chan :: nat
  dw_writes :: "(nat \<times> u16) list"

definition demo_scu_board :: "demo_world board" where
  "demo_scu_board = \<lparr>
     io_read = (\<lambda>p i w. (0, w)),
     io_write = (\<lambda>p i v w. if p = scub_irq_base \<and> i = 8 then w\<lparr>dw_chan := unat v\<rparr>
        else if p = scub_irq_base \<and> i = 10 then w\<lparr>dw_dest := (dw_dest w)(dw_chan w := v)\<rparr> else w),
     scub_read = (\<lambda>i w. (if i = 3 * 2 ^ 16 + 0x331 then 7 else 0, w)),
     scub_write = (\<lambda>i v w. w\<lparr>dw_writes := dw_writes w @ [(i, v)]\<rparr>),
     uart_write_byte = (\<lambda>c w. w)\<rparr>"

definition demo_scu :: "u32 \<Rightarrow> demo_world scu" where
  "demo_scu a = \<lparr>csr_ip = 2, csr_im = 0, csr_ie = 0, ier = 0, global_msi = \<lparr>msg = 0x08154711, adr = a, sel = 15\<rparr>, isr_ptr_table = replicate 32 0,
     cpu_io = \<lparr>dw_dest = \<lambda>_. 0, dw_chan = 0, dw_writes = []\<rparr>,
     icounter = (replicate 13 0)[2 := 7], slaves = [3, 0], fg_buffer = [], scub = \<lparr>bus_unique_id = 0, bus_slaves = []\<rparr>, fgs = [], backplane_id = 0\<rparr>"

theorem slave_interrupt_routed_witness:
  "\<exists>s3 act. isr1 demo_scu_board (replicate 12 0) (demo_scu 0x20030C) = Some s3 \<and> icounter s3 ! 2 = 8 \<and>
     dw_writes (cpu_io s3) = [(3 * 2 ^ 16 + 0x24, act OR 5)]"
proof -
  have law: "scu_law demo_scu_board dw_dest dw_chan dw_writes" by (simp add: scu_law_def demo_scu_board_def)
  obtain s1 where s1: "init_irq demo_scu_board (demo_scu 0) = Some s1" "\<forall>i < 12. dw_dest (cpu_io s1) i = 0x200300 + push_bit 2 (of_nat (i + 1))"
    using init_irq_dest [OF law] by metis
  have "adr (global_msi (demo_scu 0x20030C)) = dw_dest (cpu_io s1) (3 - 1)" using s1(2) by (simp add: demo_scu_def)
  moreover have "length (icounter (demo_scu 0x20030C)) = 13" by (simp add: demo_scu_def)
  ultimately obtain s3 act where s3: "isr1 demo_scu_board (replicate 12 0) (demo_scu 0x20030C) = Some s3"
      "icounter s3 = (icounter (demo_scu 0x20030C))[3 - 1 := icounter (demo_scu 0x20030C) ! (3 - 1) + 1]"
      "dw_writes (cpu_io s3) = dw_writes (cpu_io (demo_scu 0x20030C)) @
        (if fst (scub_read demo_scu_board (3 * 2 ^ 16 + 0x331) (cpu_io (demo_scu 0x20030C))) = icounter (demo_scu 0x20030C) ! (3 - 1)
         then [(3 * 2 ^ 16 + 0x24, act OR 5)] else [])"
    using slave_interrupt_routed [OF law, of 3 "replicate 12 0" "demo_scu 0x20030C" "demo_scu 0"] s1(1) by auto
  have "icounter s3 ! 2 = 8" unfolding s3(2) by (simp add: demo_scu_def)
  moreover have "dw_writes (cpu_io s3) = [(3 * 2 ^ 16 + 0x24, act OR 5)]" unfolding s3(3) by (simp add: demo_scu_def demo_scu_board_def)
  ultimately show ?thesis using s3(1) by blast
qed

section \<open>Configuring the slaves\<close>

text \<open>The SCU bus as plain registers, which the display does not touch.\<close>

definition regs_law :: "'w board \<Rightarrow> ('w \<Rightarrow> nat \<Rightarrow> u16) \<Rightarrow> bool" where
  "regs_law b regs \<longleftrightarrow>
     (\<forall>i w. scub_read b i w = (regs w i, w)) \<and> (\<forall>i v w. regs (scub_write b i v w) = (regs w)(i := v)) \<and>
     (\<forall>p i v w. regs (io_write b p i v w) = regs w)"

text \<open>The registers of a card that are set, and what the registers hold after the cards of the slots \<open>ns\<close> were configured.\<close>

definition card_reg :: "nat \<Rightarrow> u16 option" where
  "card_reg = map_of [(0x21, 0x4), (0x330, 0x3), (0x332, 0xffff), (0x333, 0x005f)]"

definition configured :: "(nat \<Rightarrow> u16) \<Rightarrow> nat list \<Rightarrow> nat \<Rightarrow> u16" where
  "configured r ns i =
     (case (if i div 2 ^ 16 \<in> set ns then card_reg (i mod 2 ^ 16) else None) of
        Some v \<Rightarrow> v
      | None \<Rightarrow> if i \<in> {SRQ_ENA, MULTI_SLAVE_SEL} then fold (\<lambda>n v. v OR push_bit (n - 1) 1) ns (r i) else r i)"

definition matching :: "(nat \<Rightarrow> u16) \<Rightarrow> u16 \<Rightarrow> u16 \<Rightarrow> nat \<Rightarrow> bool" where
  "matching bus sysa grp n \<longleftrightarrow> bus (n * 2 ^ 16 + CID_SYS) = sysa \<and> bus (n * 2 ^ 16 + CID_GROUP) = grp"

lemma probe_slots_matching:
  assumes "length ps + n \<le> 12" "n \<le> 12" "length tail = 13 - length ps"
  shows "\<exists>tail'. probe_slots bus sysa grp n (map int ps @ tail) (length ps) =
    Some (map int (ps @ filter (matching bus sysa grp) [13 - n..<13]) @ tail', length (ps @ filter (matching bus sysa grp) [13 - n..<13])) \<and>
    length tail' = 13 - length (ps @ filter (matching bus sysa grp) [13 - n..<13])"
  using assms
proof (induction n arbitrary: ps tail)
  case (Suc n)
  let ?i = "13 - Suc n"
  have i: "MAX_SCU_SLAVES - n = ?i" by (simp add: MAX_SCU_SLAVES_def)
  have "Suc ?i = 13 - n" using Suc.prems by simp
  then have u: "[?i..<13] = ?i # [13 - n..<13]" using upt_conv_Cons [of ?i 13] by (metis diff_less zero_less_Suc zero_less_numeral)
  obtain t ts where t: "tail = t # ts" "length ts = 13 - length (ps @ [?i])"
    using Suc.prems by (cases tail) auto
  show ?case
  proof (cases "matching bus sysa grp ?i")
    case True
    have "set_nth (map int ps @ tail) (length ps) (\<lambda>_. int ?i) = Some (map int (ps @ [?i]) @ ts)"
      unfolding t using set_nth_append [of "map int ps" t ts] by simp
    then have "probe_slots bus sysa grp (Suc n) (map int ps @ tail) (length ps) =
        probe_slots bus sysa grp n (map int (ps @ [?i]) @ ts) (length (ps @ [?i]))"
      using True by (simp add: Let_def i matching_def)
    then show ?thesis using Suc.IH [of "ps @ [?i]" ts] Suc.prems t(2) True u by auto
  next
    case False
    then show ?thesis using Suc.IH [of ps tail] Suc.prems u by (auto simp: Let_def i matching_def)
  qed
qed simp

lemma probe_matching:
  assumes "length sl = 13"
  obtains rest where "probe_scu_bus bus sysa grp sl = Some (map int (filter (matching bus sysa grp) [1..<13]) @ 0 # rest)"
proof -
  let ?ns = "filter (matching bus sysa grp) [1..<13]"
  have l: "length ?ns \<le> 12" using length_filter_le [of "matching bus sysa grp" "[1..<13]"] by simp
  obtain tail where tail: "probe_slots bus sysa grp 12 sl 0 = Some (map int ?ns @ tail, length ?ns)" "length tail = 13 - length ?ns"
    using probe_slots_matching [of "[]" 12 sl bus sysa grp] assms by auto
  then obtain t ts where "tail = t # ts" using l by (cases tail) auto
  then show ?thesis
    using that [of ts] tail(1) set_nth_append [of "map int ?ns" t ts "\<lambda>_. 0"] unfolding probe_scu_bus_def MAX_SCU_SLAVES_def by simp
qed

lemma card_reg_at:
  assumes "k < 65536"
  shows "i = n * 65536 + k \<longleftrightarrow> i div 65536 = n \<and> i mod 65536 = (k :: nat)"
proof
  assume "i = n * 65536 + k"
  then show "i div 65536 = n \<and> i mod 65536 = k" using assms by simp
next
  assume "i div 65536 = n \<and> i mod 65536 = k"
  then show "i = n * 65536 + k" using div_mult_mod_eq [of i 65536] by simp
qed

lemma configure_turn:
  assumes "regs_law b regs" "1 \<le> n" "n \<le> 12"
  obtains w where "configure_loop b (int n # rest) s = configure_loop b rest (s\<lparr>cpu_io := w\<rparr>)" "regs w = configured (regs (cpu_io s)) [n]"
proof -
  have far: "n * 2 ^ 16 + k \<noteq> 6" "n * 2 ^ 16 + k \<noteq> 12" for k using assms(2) by simp_all
  define f where "f = scub_or b (n * 2 ^ 16 + TMR_BASE + TMR_CNTRL) 0x2 \<circ> scub_poke b (n * 2 ^ 16 + TMR_BASE + TMR_VALUEH) 0x005f \<circ>
    scub_poke b (n * 2 ^ 16 + TMR_BASE + TMR_VALUEL) 0xffff \<circ> scub_poke b (n * 2 ^ 16 + TMR_BASE + TMR_CNTRL) 0x1 \<circ>
    scub_poke b (n * 2 ^ 16 + SLAVE_INT_ENA) 0x4 \<circ> scub_or b MULTI_SLAVE_SEL (push_bit (n - 1) 1) \<circ>
    scub_or b SRQ_ENA (push_bit (n - 1) 1) \<circ> (disp_put_c b 120 :: 'a scu \<Rightarrow> 'a scu)"
  have "configure_loop b (int n # rest) s = configure_loop b rest (f s)"
    using assms(2,3) by (simp add: f_def Let_def)
  moreover have "f s = s\<lparr>cpu_io := cpu_io (f s)\<rparr>"
    by (simp add: f_def output_io scub_or_def scub_poke_def scub_peek_def split_def Let_def)
  moreover have "regs (cpu_io (f s)) = (regs (cpu_io s))(SRQ_ENA := regs (cpu_io s) SRQ_ENA OR push_bit (n - 1) 1,
      MULTI_SLAVE_SEL := regs (cpu_io s) MULTI_SLAVE_SEL OR push_bit (n - 1) 1, n * 65536 + 0x21 := 0x4, n * 65536 + 0x330 := 0x3,
      n * 65536 + 0x332 := 0xffff, n * 65536 + 0x333 := 0x005f)"
    using assms(1) far
    by (auto simp: f_def output_io put_w_def scub_or_def scub_poke_def scub_peek_def split_def Let_def regs_law_def fun_eq_iff)
  moreover have "\<dots> = configured (regs (cpu_io s)) [n]"
  proof
    fix i
    have "i \<in> {6, 12} \<Longrightarrow> i div 65536 \<noteq> n" using assms(2) by auto
    then show "((regs (cpu_io s))(SRQ_ENA := regs (cpu_io s) SRQ_ENA OR push_bit (n - 1) 1,
      MULTI_SLAVE_SEL := regs (cpu_io s) MULTI_SLAVE_SEL OR push_bit (n - 1) 1, n * 65536 + 0x21 := 0x4, n * 65536 + 0x330 := 0x3,
      n * 65536 + 0x332 := 0xffff, n * 65536 + 0x333 := 0x005f)) i = configured (regs (cpu_io s)) [n] i"
      by (auto simp: configured_def card_reg_def card_reg_at)
  qed
  ultimately show ?thesis using that by metis
qed

lemma configured_Cons:
  assumes "0 \<notin> set (n # ns)"
  shows "configured (configured r [n]) ns = configured r (n # ns)"
proof
  fix i
  have "i \<in> {6, 12} \<Longrightarrow> i div 65536 \<notin> set (n # ns)" using assms by auto
  then show "configured (configured r [n]) ns i = configured r (n # ns) i"
    by (auto simp: configured_def split: option.splits)
qed

lemma configure_loop_all:
  assumes "regs_law b regs" "\<forall>n \<in> set ns. 1 \<le> n \<and> n \<le> 12"
  shows "\<exists>w. configure_loop b (map int ns @ 0 # rest) s = Some (s\<lparr>cpu_io := w\<rparr>) \<and> regs w = configured (regs (cpu_io s)) ns"
  using assms(2)
proof (induction ns arbitrary: s)
  case Nil
  have "configured r [] = r" for r by (simp add: configured_def fun_eq_iff)
  then show ?case by (intro exI [of _ "cpu_io s"]) simp
next
  case (Cons n ns)
  obtain w where w: "configure_loop b (int n # map int ns @ 0 # rest) s = configure_loop b (map int ns @ 0 # rest) (s\<lparr>cpu_io := w\<rparr>)"
      "regs w = configured (regs (cpu_io s)) [n]"
    using configure_turn [OF assms(1), of n] Cons.prems by auto
  have z: "0 \<notin> set (n # ns)" using Cons.prems by auto
  show ?case using Cons.IH [of "s\<lparr>cpu_io := w\<rparr>"] Cons.prems w configured_Cons [OF z] by auto
qed

lemma bit_fold_or:
  fixes x :: u16
  assumes "k < 16"
  shows "bit (fold (\<lambda>n v. v OR push_bit (n - 1) 1) ns x) k \<longleftrightarrow> bit x k \<or> (\<exists>n \<in> set ns. n - 1 = k)"
  using assms by (induction ns arbitrary: x) (auto simp: bit_simps)

text \<open>C29: the configuration reaches exactly the probed cards. The list of slots \<^verbatim>\<open>probe_scu_bus\<close> writes for a kind of card never overruns its 13
  entries, and configuring the slaves with it enables the interrupt request and the broadcast selection of exactly
  the slots that hold such a card, starts the timer of exactly these cards, and leaves every other register of the
  bus as it was.\<close>

theorem configured_slots:
  fixes s :: "'w scu" and sysa grp :: u16
  assumes "regs_law b regs" and "length sl = 13"
  defines "M \<equiv> {n. 1 \<le> n \<and> n \<le> 12 \<and> regs (cpu_io s) (n * 2 ^ 16 + CID_SYS) = sysa \<and> regs (cpu_io s) (n * 2 ^ 16 + CID_GROUP) = grp}"
  shows "\<exists>sl' s'. probe_scu_bus (regs (cpu_io s)) sysa grp sl = Some sl' \<and> configure_slaves b (s\<lparr>slaves := sl'\<rparr>) = Some s' \<and>
    (\<forall>k < 16. bit (regs (cpu_io s') SRQ_ENA) k = (k + 1 \<in> M) \<and> bit (regs (cpu_io s') MULTI_SLAVE_SEL) k = (k + 1 \<in> M)) \<and>
    (\<forall>i. i \<notin> {SRQ_ENA, MULTI_SLAVE_SEL} \<longrightarrow> regs (cpu_io s') i =
       (case (if i div 2 ^ 16 \<in> M then card_reg (i mod 2 ^ 16) else None) of Some v \<Rightarrow> v | None \<Rightarrow> regs (cpu_io s) i))"
proof -
  define ns where "ns = filter (matching (regs (cpu_io s)) sysa grp) [1..<13]"
  have M: "set ns = M" unfolding ns_def M_def matching_def set_filter by auto
  obtain rest where pr: "probe_scu_bus (regs (cpu_io s)) sysa grp sl = Some (map int ns @ 0 # rest)"
    using probe_matching [OF assms(2)] unfolding ns_def by blast
  let ?sl = "map int ns @ 0 # rest"
  let ?s = "scub_poke b MULTI_SLAVE_SEL 0 (scub_poke b SRQ_ENA 0 (s\<lparr>slaves := ?sl\<rparr>))"
  have ns12: "\<forall>n \<in> set ns. 1 \<le> n \<and> n \<le> 12" unfolding M by (auto simp: M_def)
  obtain w where w: "configure_loop b ?sl ?s = Some (?s\<lparr>cpu_io := w\<rparr>)" "regs w = configured (regs (cpu_io ?s)) ns"
    using configure_loop_all [OF assms(1) ns12] by blast
  have r0: "regs (cpu_io ?s) = (regs (cpu_io s))(SRQ_ENA := 0, MULTI_SLAVE_SEL := 0)"
    using assms(1) by (simp add: scub_poke_def regs_law_def)
  have cfg: "configure_slaves b (s\<lparr>slaves := ?sl\<rparr>) = Some (?s\<lparr>cpu_io := w\<rparr>)"
    using w(1) by (simp add: configure_slaves_def Let_def scub_poke_def)
  have "0 \<notin> set ns" using ns12 by auto
  then have en: "regs w i = fold (\<lambda>n v. v OR push_bit (n - 1) 1) ns 0" if "i \<in> {6, 12}" for i
    using that by (auto simp: w(2) r0 configured_def)
  have "n = n - 1 + 1" if "n \<in> M" for n using that by (simp add: M_def)
  then have "(\<exists>n \<in> set ns. n - 1 = k) \<longleftrightarrow> k + 1 \<in> M" for k unfolding M by (metis diff_add_inverse2)
  then have "bit (regs w i) k \<longleftrightarrow> k + 1 \<in> M" if "i \<in> {6, 12}" "k < 16" for i k
    using bit_fold_or [OF that(2), of ns 0] unfolding en [OF that(1)] by simp
  moreover have "regs w i = (case (if i div 2 ^ 16 \<in> M then card_reg (i mod 2 ^ 16) else None) of Some v \<Rightarrow> v | None \<Rightarrow> regs (cpu_io s) i)"
    if "i \<notin> {6, 12}" for i
    using that by (simp add: w(2) r0 configured_def M split: option.splits)
  ultimately show ?thesis using pr cfg by (intro exI [of _ ?sl] exI [of _ "?s\<lparr>cpu_io := w\<rparr>"]) simp
qed

text \<open>A bus of plain registers with cards of the kind 55, 3 in the slots 2 and 5.\<close>

definition demo_regs_board :: "(nat \<Rightarrow> u16) board" where
  "demo_regs_board = \<lparr>io_read = (\<lambda>p i w. (0, w)), io_write = (\<lambda>p i v w. w), scub_read = (\<lambda>i w. (w i, w)),
     scub_write = (\<lambda>i v w. w(i := v)), uart_write_byte = (\<lambda>c w. w)\<rparr>"

definition demo_regs :: "nat \<Rightarrow> u16" where
  "demo_regs i = (if i \<in> {2 * 2 ^ 16 + 4, 5 * 2 ^ 16 + 4} then 55 else if i \<in> {2 * 2 ^ 16 + 5, 5 * 2 ^ 16 + 5} then 3 else 0)"

definition demo_regs_scu :: "(nat \<Rightarrow> u16) scu" where
  "demo_regs_scu = \<lparr>csr_ip = 0, csr_im = 0, csr_ie = 0, ier = 0, global_msi = \<lparr>msg = 0, adr = 0, sel = 0\<rparr>, isr_ptr_table = replicate 32 0,
     cpu_io = demo_regs, icounter = replicate 13 0, slaves = replicate 13 0, fg_buffer = [], scub = \<lparr>bus_unique_id = 0, bus_slaves = []\<rparr>,
     fgs = [], backplane_id = 0\<rparr>"

theorem configured_slots_witness:
  "\<exists>sl' s'. probe_scu_bus demo_regs 55 3 (replicate 13 0) = Some sl' \<and> configure_slaves demo_regs_board (demo_regs_scu\<lparr>slaves := sl'\<rparr>) = Some s' \<and>
     bit (cpu_io s' SRQ_ENA) 1 \<and> \<not> bit (cpu_io s' SRQ_ENA) 2 \<and> bit (cpu_io s' SRQ_ENA) 4 \<and> cpu_io s' (5 * 2 ^ 16 + 0x332) = 0xffff"
proof -
  have law: "regs_law demo_regs_board (\<lambda>w. w)" by (simp add: regs_law_def demo_regs_board_def)
  have io: "cpu_io demo_regs_scu = demo_regs" by (simp add: demo_regs_scu_def)
  obtain sl' s' where r: "probe_scu_bus demo_regs 55 3 (replicate 13 0) = Some sl'" "configure_slaves demo_regs_board (demo_regs_scu\<lparr>slaves := sl'\<rparr>) = Some s'"
      "\<And>k. k < 16 \<Longrightarrow> bit (cpu_io s' SRQ_ENA) k = (k + 1 \<in> {n. 1 \<le> n \<and> n \<le> 12 \<and> demo_regs (n * 2 ^ 16 + CID_SYS) = 55 \<and> demo_regs (n * 2 ^ 16 + CID_GROUP) = 3})"
      "\<And>i. i \<notin> {SRQ_ENA, MULTI_SLAVE_SEL} \<Longrightarrow> cpu_io s' i =
         (case (if i div 2 ^ 16 \<in> {n. 1 \<le> n \<and> n \<le> 12 \<and> demo_regs (n * 2 ^ 16 + CID_SYS) = 55 \<and> demo_regs (n * 2 ^ 16 + CID_GROUP) = 3}
           then card_reg (i mod 2 ^ 16) else None) of Some v \<Rightarrow> v | None \<Rightarrow> demo_regs i)"
    using configured_slots [OF law, of "replicate 13 0" demo_regs_scu 55 3] unfolding io by auto
  have "bit (cpu_io s' SRQ_ENA) 1" "\<not> bit (cpu_io s' SRQ_ENA) 2" "bit (cpu_io s' SRQ_ENA) 4" by (simp_all add: r(3) demo_regs_def)
  moreover have "cpu_io s' (5 * 2 ^ 16 + 0x332) = 0xffff" by (subst r(4)) (simp_all add: demo_regs_def card_reg_def)
  ultimately show ?thesis using r(1,2) by blast
qed

end
