(* ===== verification/Lm32_Sdb.thy ===== *)
theory Lm32_Sdb
  imports Lm32_Irq
begin

text \<open>
  How the firmware finds its peripherals (\<^verbatim>\<open>modules/lm32-include/mini_sdb.c\<close>): a recursive search of the tables of the
  self-describing bus, which refines a search of the tree the tables describe. The memory is a function from the
  address of a word to its content; a pointer is an address. A location that was never written is \<open>None\<close>, and
  reading it is a fault, as is a write outside an array.
\<close>

section \<open>Records\<close>

abbreviation (input) SBD_BASE :: u32 where "SBD_BASE \<equiv> 0x3FFFE000"
abbreviation (input) SDB_DEVICE :: u32 where "SDB_DEVICE \<equiv> 0x01"
abbreviation (input) SDB_BRIDGE :: u32 where "SDB_BRIDGE \<equiv> 0x02"

text \<open>The fields of a record of 64 bytes, in big-endian memory. Devices and bridges have their \<^verbatim>\<open>sdb_component\<close> at the same
  offset.\<close>

definition record_type :: "(u32 \<Rightarrow> u32) \<Rightarrow> u32 \<Rightarrow> u32" where
  "record_type mem p = mem (p + 60) AND 0xFF"

definition sdb_records :: "(u32 \<Rightarrow> u32) \<Rightarrow> u32 \<Rightarrow> nat" where
  "sdb_records mem p = unat (drop_bit 16 (mem (p + 4)))"

definition sdb_child :: "(u32 \<Rightarrow> u32) \<Rightarrow> u32 \<Rightarrow> u32" where
  "sdb_child mem p = mem (p + 4)"

definition addr_first :: "(u32 \<Rightarrow> u32) \<Rightarrow> u32 \<Rightarrow> u32" where
  "addr_first mem p = mem (p + 12)"

definition vendor_id :: "(u32 \<Rightarrow> u32) \<Rightarrow> u32 \<Rightarrow> u32" where
  "vendor_id mem p = mem (p + 28)"

definition device_id :: "(u32 \<Rightarrow> u32) \<Rightarrow> u32 \<Rightarrow> u32" where
  "device_id mem p = mem (p + 32)"

record sdb_location =
  loc_sdb :: u32
  loc_adr :: u32

type_synonym found_sdb = "sdb_location option list"

section \<open>Search\<close>

definition add_match :: "(u32 \<Rightarrow> u32) \<Rightarrow> u32 \<Rightarrow> u32 \<Rightarrow> u32 \<Rightarrow> u32 \<Rightarrow> found_sdb \<Rightarrow> nat \<Rightarrow> (found_sdb \<times> nat) option" where
  "add_match mem venId devId p base found idx =
     (if vendor_id mem p = venId \<and> device_id mem p = devId
      then map_option (\<lambda>found. (found, idx + 1)) (set_nth found idx (\<lambda>_. Some \<lparr>loc_sdb = p, loc_adr = base\<rparr>))
      else Some (found, idx))"

text \<open>The loop over the \<open>n\<close> records left, and the recursion into the table behind a bridge.\<close>

partial_function (option) sdb_loop :: "(u32 \<Rightarrow> u32) \<Rightarrow> nat \<Rightarrow> u32 \<Rightarrow> found_sdb \<Rightarrow> u32 \<Rightarrow> nat \<Rightarrow> nat \<Rightarrow> u32 \<Rightarrow> u32 \<Rightarrow> (found_sdb \<times> nat) option" where
  "sdb_loop mem n p found base idx qty venId devId =
     (if n = 0 then Some (found, idx)
      else do {
        (found, idx) \<leftarrow>
          (if record_type mem p = SDB_BRIDGE then do {
             (found, idx) \<leftarrow> add_match mem venId devId p base found idx;
             let c = base + sdb_child mem p;
             sdb_loop mem (sdb_records mem c) c found (base + addr_first mem p) idx qty venId devId
           } else Some (found, idx));
        (found, idx) \<leftarrow> (if record_type mem p = SDB_DEVICE then add_match mem venId devId p base found idx else Some (found, idx));
        if qty \<le> idx then Some (found, idx)
        else sdb_loop mem (n - 1) (p + 64) found base idx qty venId devId
      })"

definition find_sdb_deep :: "(u32 \<Rightarrow> u32) \<Rightarrow> u32 \<Rightarrow> found_sdb \<Rightarrow> u32 \<Rightarrow> nat \<Rightarrow> nat \<Rightarrow> u32 \<Rightarrow> u32 \<Rightarrow> (found_sdb \<times> nat) option" where
  "find_sdb_deep mem parent found base idx qty venId devId =
     sdb_loop mem (sdb_records mem parent) parent found base idx qty venId devId"

definition getSdbAdr :: "(u32 \<Rightarrow> u32) \<Rightarrow> sdb_location \<Rightarrow> u32" where
  "getSdbAdr mem loc =
     (if record_type mem (loc_sdb loc) = SDB_DEVICE then loc_adr loc + addr_first mem (loc_sdb loc)
      else loc_adr loc + addr_first mem (loc_sdb loc))"

definition getChild :: "(u32 \<Rightarrow> u32) \<Rightarrow> sdb_location \<Rightarrow> u32" where
  "getChild mem loc = loc_adr loc + sdb_child mem (loc_sdb loc)"

definition find_device_multi :: "(u32 \<Rightarrow> u32) \<Rightarrow> found_sdb \<Rightarrow> nat \<Rightarrow> nat \<Rightarrow> u32 \<Rightarrow> u32 \<Rightarrow> (found_sdb \<times> nat) option" where
  "find_device_multi mem found idx qty venId devId = find_sdb_deep mem SBD_BASE found 0 idx qty venId devId"

definition find_device_multi_in_subtree :: "(u32 \<Rightarrow> u32) \<Rightarrow> sdb_location \<Rightarrow> found_sdb \<Rightarrow> nat \<Rightarrow> nat \<Rightarrow> u32 \<Rightarrow> u32 \<Rightarrow> (found_sdb \<times> nat) option" where
  "find_device_multi_in_subtree mem loc found idx qty venId devId =
     find_sdb_deep mem (getChild mem loc) found (getSdbAdr mem loc) idx qty venId devId"

text \<open>The address of the first entry found; the null pointer is 0.\<close>

definition first_adr :: "(u32 \<Rightarrow> u32) \<Rightarrow> found_sdb \<times> nat \<Rightarrow> u32 option" where
  "first_adr mem r = (case r of (found, idx) \<Rightarrow>
     if 0 < idx then do { l \<leftarrow> nth_opt found 0; loc \<leftarrow> l; Some (getSdbAdr mem loc) } else Some 0)"

definition find_device_adr :: "(u32 \<Rightarrow> u32) \<Rightarrow> u32 \<Rightarrow> u32 \<Rightarrow> u32 option" where
  "find_device_adr mem venId devId = do { r \<leftarrow> find_device_multi mem [None] 0 1 venId devId; first_adr mem r }"

definition find_device_adr_in_subtree :: "(u32 \<Rightarrow> u32) \<Rightarrow> sdb_location \<Rightarrow> u32 \<Rightarrow> u32 \<Rightarrow> u32 option" where
  "find_device_adr_in_subtree mem loc venId devId = do {
     r \<leftarrow> find_sdb_deep mem (getChild mem loc) [None] (getSdbAdr mem loc) 0 1 venId devId;
     first_adr mem r
   }"

section \<open>The peripherals\<close>

abbreviation (input) GSI :: u32 where "GSI \<equiv> 0x651"
abbreviation (input) CERN :: u32 where "CERN \<equiv> 0xce42"
abbreviation (input) CB_CLUSTER :: u32 where "CB_CLUSTER \<equiv> 0x10041000"
abbreviation (input) DPRAM_GENERIC :: u32 where "DPRAM_GENERIC \<equiv> 0x66cfeb52"
abbreviation (input) CPU_INFO_ROM :: u32 where "CPU_INFO_ROM \<equiv> 0x10040085"
abbreviation (input) CPU_ATOM_ACC :: u32 where "CPU_ATOM_ACC \<equiv> 0x10040100"
abbreviation (input) CPU_SYSTEM_TIME :: u32 where "CPU_SYSTEM_TIME \<equiv> 0x10040084"
abbreviation (input) CPU_CLU_INFO_ROM :: u32 where "CPU_CLU_INFO_ROM \<equiv> 0x10040086"
abbreviation (input) IRQ_TIMER_CTRL_IF :: u32 where "IRQ_TIMER_CTRL_IF \<equiv> 0x10040088"
abbreviation (input) IRQ_MSI_CTRL_IF :: u32 where "IRQ_MSI_CTRL_IF \<equiv> 0x10040083"
abbreviation (input) OLED_DISPLAY :: u32 where "OLED_DISPLAY \<equiv> 0x93a6f3c4"
abbreviation (input) ETHERBONE_MASTER :: u32 where "ETHERBONE_MASTER \<equiv> 0x00000815"
abbreviation (input) FTM_PRIOQ_CTRL :: u32 where "FTM_PRIOQ_CTRL \<equiv> 0x10040200"
abbreviation (input) FTM_PRIOQ_DATA :: u32 where "FTM_PRIOQ_DATA \<equiv> 0x10040201"
abbreviation (input) ECA_EVENT :: u32 where "ECA_EVENT \<equiv> 0x8752bf45"
abbreviation (input) WR_UART :: u32 where "WR_UART \<equiv> 0xe2d13d04"

definition find_device_by_id :: "(u32 \<Rightarrow> u32) \<Rightarrow> u32 \<Rightarrow> u32 option" where
  "find_device_by_id mem devid = find_device_adr mem GSI devid"

record pointers =
  ptr_CpuId :: u32
  ptr_CpuAtomic :: u32
  ptr_CpuSysTime :: u32
  ptr_CpuIrqSlave :: u32
  ptr_CpuTimer :: u32
  ptr_CluCB :: u32
  ptr_SharedRam :: u32
  ptr_CluInfo :: u32
  ptr_FpqCtrl :: u32
  ptr_FpqData :: u32
  ptr_OledDisplay :: u32
  ptr_Ebm :: u32
  ptr_Eca :: u32
  ptr_Uart :: u32
  ptr_BASE_UART :: u32

definition discoverPeriphery :: "(u32 \<Rightarrow> u32) \<Rightarrow> pointers option" where
  "discoverPeriphery mem = do {
     cpuId \<leftarrow> find_device_adr mem GSI CPU_INFO_ROM;
     cpuAtomic \<leftarrow> find_device_adr mem GSI CPU_ATOM_ACC;
     cpuSysTime \<leftarrow> find_device_adr mem GSI CPU_SYSTEM_TIME;
     cpuIrqSlave \<leftarrow> find_device_adr mem GSI IRQ_MSI_CTRL_IF;
     cpuTimer \<leftarrow> find_device_adr mem GSI IRQ_TIMER_CTRL_IF;
     (found, idx) \<leftarrow> find_device_multi mem (replicate 20 None) 0 20 GSI CB_CLUSTER;
     l \<leftarrow> nth_opt found 0;
     loc \<leftarrow> l;
     let cluCB = getSdbAdr mem loc;
     sharedRam \<leftarrow> find_device_adr_in_subtree mem loc CERN DPRAM_GENERIC;
     cluInfo \<leftarrow> find_device_adr_in_subtree mem loc GSI CPU_CLU_INFO_ROM;
     fpqCtrl \<leftarrow> find_device_adr_in_subtree mem loc GSI FTM_PRIOQ_CTRL;
     fpqData \<leftarrow> find_device_adr_in_subtree mem loc GSI FTM_PRIOQ_DATA;
     oled \<leftarrow> find_device_adr mem GSI OLED_DISPLAY;
     ebm \<leftarrow> find_device_adr mem GSI ETHERBONE_MASTER;
     eca \<leftarrow> find_device_adr mem GSI ECA_EVENT;
     uart \<leftarrow> find_device_adr mem CERN WR_UART;
     Some \<lparr>ptr_CpuId = cpuId, ptr_CpuAtomic = cpuAtomic, ptr_CpuSysTime = cpuSysTime, ptr_CpuIrqSlave = cpuIrqSlave,
       ptr_CpuTimer = cpuTimer, ptr_CluCB = cluCB, ptr_SharedRam = sharedRam, ptr_CluInfo = cluInfo, ptr_FpqCtrl = fpqCtrl,
       ptr_FpqData = fpqData, ptr_OledDisplay = oled, ptr_Ebm = ebm, ptr_Eca = eca, ptr_Uart = uart, ptr_BASE_UART = uart\<rparr>
   }"

section \<open>The tree the tables describe\<close>

datatype sdb_tree = Leaf u32 | Bridge u32 "sdb_tree list"

text \<open>The entries of the table behind a bridge start with its interconnect record.\<close>

fun describes :: "(u32 \<Rightarrow> u32) \<Rightarrow> u32 \<Rightarrow> u32 \<Rightarrow> sdb_tree \<Rightarrow> bool"
  and describes_all :: "(u32 \<Rightarrow> u32) \<Rightarrow> u32 \<Rightarrow> u32 \<Rightarrow> sdb_tree list \<Rightarrow> bool" where
  "describes mem base p (Leaf r) \<longleftrightarrow> r = p \<and> record_type mem p \<noteq> SDB_BRIDGE"
| "describes mem base p (Bridge r ts) \<longleftrightarrow> r = p \<and> record_type mem p = SDB_BRIDGE \<and>
     (let c = base + sdb_child mem p in
        sdb_records mem c = length ts \<and> record_type mem c = 0 \<and> describes_all mem (base + addr_first mem p) c ts)"
| "describes_all mem base p [] \<longleftrightarrow> True"
| "describes_all mem base p (t # ts) \<longleftrightarrow> describes mem base p t \<and> describes_all mem base (p + 64) ts"

text \<open>The matching devices and bridges, a bridge before what is behind it, with the base their addresses are relative to.\<close>

definition is_match :: "(u32 \<Rightarrow> u32) \<Rightarrow> u32 \<Rightarrow> u32 \<Rightarrow> u32 \<Rightarrow> bool" where
  "is_match mem venId devId p \<longleftrightarrow> vendor_id mem p = venId \<and> device_id mem p = devId"

fun hits :: "(u32 \<Rightarrow> u32) \<Rightarrow> u32 \<Rightarrow> u32 \<Rightarrow> u32 \<Rightarrow> sdb_tree \<Rightarrow> sdb_location list"
  and hits_all :: "(u32 \<Rightarrow> u32) \<Rightarrow> u32 \<Rightarrow> u32 \<Rightarrow> u32 \<Rightarrow> sdb_tree list \<Rightarrow> sdb_location list" where
  "hits mem venId devId base (Leaf r) =
     (if record_type mem r = SDB_DEVICE \<and> is_match mem venId devId r then [\<lparr>loc_sdb = r, loc_adr = base\<rparr>] else [])"
| "hits mem venId devId base (Bridge r ts) =
     (if is_match mem venId devId r then [\<lparr>loc_sdb = r, loc_adr = base\<rparr>] else []) @ hits_all mem venId devId (base + addr_first mem r) ts"
| "hits_all mem venId devId base [] = []"
| "hits_all mem venId devId base (t # ts) = hits mem venId devId base t @ hits_all mem venId devId base ts"

text \<open>What a search adds to the array: the first hits that fit.\<close>

definition stored :: "nat \<Rightarrow> sdb_location list \<Rightarrow> found_sdb \<times> nat \<Rightarrow> found_sdb \<times> nat" where
  "stored qty hs r = (case r of (found, idx) \<Rightarrow>
     let new = take (qty - idx) hs in (take idx found @ map Some new @ drop (idx + length new) found, idx + length new))"

lemma stored_nil [simp]: "stored qty [] r = r"
  by (simp add: stored_def split_def)

lemma stored_full: "qty \<le> idx \<Longrightarrow> stored qty hs (found, idx) = (found, idx)"
  by (simp add: stored_def)

lemma stored_append:
  assumes "idx \<le> length found"
  shows "stored qty (xs @ ys) (found, idx) = stored qty ys (stored qty xs (found, idx))"
  using assms by (auto simp: stored_def Let_def min_def ac_simps)

lemma stored_length: "idx \<le> qty \<Longrightarrow> qty \<le> length found \<Longrightarrow> length (fst (stored qty hs (found, idx))) = length found"
  "idx \<le> qty \<Longrightarrow> qty \<le> length found \<Longrightarrow> snd (stored qty hs (found, idx)) \<le> qty"
  by (auto simp: stored_def Let_def)

lemma add_match_stored:
  assumes "idx < qty" "qty \<le> length found"
  shows "add_match mem venId devId p base found idx =
    Some (stored qty (if is_match mem venId devId p then [\<lparr>loc_sdb = p, loc_adr = base\<rparr>] else []) (found, idx))"
  using assms by (auto simp: add_match_def is_match_def stored_def set_nth_def Let_def take_Cons' upd_conv_take_nth_drop)


lemma loop_full:
  assumes "qty \<le> idx" "record_type mem p = 0"
  shows "sdb_loop mem n p found base idx qty venId devId = Some (found, idx)"
  by (subst sdb_loop.simps) (simp add: assms)

lemma loop_follows_tree:
  shows "describes mem base p t \<Longrightarrow> idx < qty \<Longrightarrow> qty \<le> length found \<Longrightarrow>
      sdb_loop mem (Suc n) p found base idx qty venId devId =
        (let (found, idx) = stored qty (hits mem venId devId base t) (found, idx) in
         if qty \<le> idx then Some (found, idx) else sdb_loop mem n (p + 64) found base idx qty venId devId)"
    and "describes_all mem base p ts \<Longrightarrow> idx < qty \<Longrightarrow> qty \<le> length found \<Longrightarrow>
      sdb_loop mem (length ts) p found base idx qty venId devId = Some (stored qty (hits_all mem venId devId base ts) (found, idx))"
proof (induction mem base p t and mem base p ts arbitrary: idx found n and idx found rule: describes_describes_all.induct)
  case (1 mem base p r)
  then show ?case
    by (subst sdb_loop.simps) (auto simp: add_match_stored is_match_def split_def Let_def)
next
  case (2 mem base p r ts)
  let ?c = "base + sdb_child mem p" and ?m = "if is_match mem venId devId p then [\<lparr>loc_sdb = p, loc_adr = base\<rparr>] else []"
  obtain f1 i1 where f1: "stored qty ?m (found, idx) = (f1, i1)" by fastforce
  have b1: "length f1 = length found" "i1 \<le> qty" using stored_length [of idx qty found ?m] 2(3,4) by (simp_all add: f1)
  have d: "r = p" "record_type mem p = SDB_BRIDGE" "sdb_records mem ?c = length ts" "record_type mem ?c = 0"
    "describes_all mem (base + addr_first mem p) ?c ts"
    using 2(2) by (simp_all add: Let_def)
  have child: "sdb_loop mem (sdb_records mem ?c) ?c f1 (base + addr_first mem p) i1 qty venId devId =
      Some (stored qty (hits_all mem venId devId (base + addr_first mem p) ts) (f1, i1))"
  proof (cases "i1 < qty")
    case True
    then show ?thesis using 2(1) [OF refl d(5)] b1(1) 2(4) d(3) by simp
  next
    case False
    then show ?thesis using loop_full [of qty i1 mem ?c] d(4) by (simp add: stored_full)
  qed
  have h: "stored qty (?m @ hits_all mem venId devId (base + addr_first mem p) ts) (found, idx) = stored qty (hits_all mem venId devId (base + addr_first mem p) ts) (f1, i1)"
    using stored_append [of idx found qty ?m] 2(3,4) by (simp add: f1)
  have am: "add_match mem venId devId p base found idx = Some (f1, i1)" using add_match_stored [OF 2(3,4)] f1 by simp
  show ?case
    by (subst sdb_loop.simps) (simp add: d(1,2) h [simplified] am child Let_def split_def)
next
  case (3 mem base p)
  then show ?case by (subst sdb_loop.simps) simp
next
  case (4 mem base p t ts)
  obtain f1 i1 where f1: "stored qty (hits mem venId devId base t) (found, idx) = (f1, i1)" by fastforce
  have b1: "length f1 = length found" "i1 \<le> qty" using stored_length [of idx qty found "hits mem venId devId base t"] 4(4,5) by (simp_all add: f1)
  have d: "describes mem base p t" "describes_all mem base (p + 64) ts" using 4(3) by simp_all
  have "stored qty (hits_all mem venId devId base (t # ts)) (found, idx) = stored qty (hits_all mem venId devId base ts) (f1, i1)"
    using stored_append [of idx found qty "hits mem venId devId base t"] 4(4,5) by (simp add: f1)
  moreover have "sdb_loop mem (length (t # ts)) p found base idx qty venId devId =
      (if qty \<le> i1 then Some (f1, i1) else sdb_loop mem (length ts) (p + 64) f1 base i1 qty venId devId)"
    using 4(1) [OF d(1) 4(4,5), of "length ts"] by (simp add: f1)
  ultimately show ?case using 4(2) [OF d(2), of i1 f1] b1(1) 4(5) by (simp add: stored_full)
qed

text \<open>C24: the search for peripherals is complete and never overruns its array. Whenever the tables in memory describe a finite tree,
  the recursive search ends; it stores the locations of the first matching devices and bridges of the tree, in
  the order of the tables and a bridge before what is behind it, never more than \<^verbatim>\<open>qty\<close>, and leaves the rest of the
  array alone. \<^verbatim>\<open>find_device_adr\<close> therefore gives the absolute address of the first one, or the null pointer exactly if
  there is none.\<close>

theorem sdb_search_refines_tree:
  fixes venId devId :: u32
  assumes "describes_all mem base parent ts" and "sdb_records mem parent = length ts"
    and "idx < qty" and "qty \<le> length found"
  defines "hs \<equiv> hits_all mem venId devId base ts"
  shows "find_sdb_deep mem parent found base idx qty venId devId =
      Some (take idx found @ map Some (take (qty - idx) hs) @ drop (idx + length (take (qty - idx) hs)) found, idx + length (take (qty - idx) hs)) \<and>
    (parent = SBD_BASE \<and> base = 0 \<longrightarrow> find_device_adr mem venId devId =
       Some (case hs of [] \<Rightarrow> 0 | loc # _ \<Rightarrow> loc_adr loc + addr_first mem (loc_sdb loc)))"
proof -
  have f: "find_sdb_deep mem parent found base idx qty venId devId = Some (stored qty hs (found, idx))"
    if "idx < qty" "qty \<le> length found" for idx qty found
    using loop_follows_tree(2) [OF assms(1) that] assms(2) by (simp add: find_sdb_deep_def hs_def)
  have "find_device_adr mem venId devId = Some (case hs of [] \<Rightarrow> 0 | loc # _ \<Rightarrow> loc_adr loc + addr_first mem (loc_sdb loc))"
    if "parent = SBD_BASE" "base = 0"
    using f [of 0 1 "[None]"] that
    by (auto simp: find_device_adr_def find_device_multi_def first_adr_def stored_def nth_opt_def getSdbAdr_def split: list.split)
  then show ?thesis using f [OF assms(3,4)] by (simp add: stored_def Let_def)
qed


text \<open>A bus with a device, and a processor behind a bridge.\<close>

definition demo_bus :: "u32 \<Rightarrow> u32" where
  "demo_bus a = (case map_of
     [(0x3FFFE004, 0x00030000),
      (0x3FFFE04C, 0x100), (0x3FFFE05C, 0xce42), (0x3FFFE060, 0xe2d13d04), (0x3FFFE07C, 0x01),
      (0x3FFFE084, 0x2000), (0x3FFFE08C, 0x1000), (0x3FFFE0BC, 0x02),
      (0x2004, 0x00020000),
      (0x204C, 0x40), (0x205C, 0x651), (0x2060, 0x10040085), (0x207C, 0x01)] a of Some v \<Rightarrow> v | None \<Rightarrow> 0)"

definition demo_tree :: "sdb_tree list" where
  "demo_tree = [Leaf 0x3FFFE000, Leaf 0x3FFFE040, Bridge 0x3FFFE080 [Leaf 0x2000, Leaf 0x2040]]"

theorem sdb_search_refines_tree_witness:
  "find_sdb_deep demo_bus SBD_BASE [None, None] 0 0 2 GSI CPU_INFO_ROM = Some ([Some \<lparr>loc_sdb = 0x2040, loc_adr = 0x1000\<rparr>, None], 1) \<and>
   find_device_adr demo_bus GSI CPU_INFO_ROM = Some 0x1040"
proof -
  note fields = demo_bus_def record_type_def sdb_records_def sdb_child_def addr_first_def vendor_id_def device_id_def
  have d: "describes_all demo_bus 0 SBD_BASE demo_tree" by (simp add: demo_tree_def fields Let_def)
  have l: "sdb_records demo_bus SBD_BASE = length demo_tree" by (simp add: demo_tree_def fields)
  have h: "hits_all demo_bus GSI CPU_INFO_ROM 0 demo_tree = [\<lparr>loc_sdb = 0x2040, loc_adr = 0x1000\<rparr>]"
    by (simp add: demo_tree_def fields is_match_def)
  show ?thesis
    using sdb_search_refines_tree [OF d l, of 0 2 "[None, None]" GSI CPU_INFO_ROM] unfolding h
    by (simp add: fields)
qed

end
