(* ===== verification/Lm32_Timer.thy ===== *)
theory Lm32_Timer
  imports Lm32_Irq
begin

text \<open>
  The timer driver of the firmware (\<^verbatim>\<open>modules/lm32-include/timer.c\<close>). The timer itself is hardware; what its
  registers do is the hypothesis \<open>timer_law\<close>, taken from the comments of \<^verbatim>\<open>timer.h\<close>.
\<close>

section \<open>The driver\<close>

text \<open>The register indices of \<^verbatim>\<open>r_timer\<close>. On this processor \<^verbatim>\<open>char\<close> is unsigned.\<close>

abbreviation (input) r_rst :: nat where "r_rst \<equiv> 0x00"
abbreviation (input) r_armGet :: nat where "r_armGet \<equiv> 0x01"
abbreviation (input) r_armSet :: nat where "r_armSet \<equiv> 0x02"
abbreviation (input) r_armClr :: nat where "r_armClr \<equiv> 0x03"
abbreviation (input) r_srcGet :: nat where "r_srcGet \<equiv> 0x04"
abbreviation (input) r_srcSet :: nat where "r_srcSet \<equiv> 0x05"
abbreviation (input) r_srcClr :: nat where "r_srcClr \<equiv> 0x06"
abbreviation (input) r_cntModeGet :: nat where "r_cntModeGet \<equiv> 0x07"
abbreviation (input) r_cntModeSet :: nat where "r_cntModeSet \<equiv> 0x08"
abbreviation (input) r_cntModeClr :: nat where "r_cntModeClr \<equiv> 0x09"
abbreviation (input) r_cscGet :: nat where "r_cscGet \<equiv> 0x0A"
abbreviation (input) r_cscSet :: nat where "r_cscSet \<equiv> 0x0B"
abbreviation (input) r_cscClr :: nat where "r_cscClr \<equiv> 0x0C"
abbreviation (input) r_cntRst :: nat where "r_cntRst \<equiv> 0x0D"
abbreviation (input) r_timerSel :: nat where "r_timerSel \<equiv> 0x10"
abbreviation (input) r_timeHi :: nat where "r_timeHi \<equiv> 0x11"
abbreviation (input) r_timeLo :: nat where "r_timeLo \<equiv> 0x12"
abbreviation (input) r_msg :: nat where "r_msg \<equiv> 0x13"
abbreviation (input) r_dstAdr :: nat where "r_dstAdr \<equiv> 0x14"
abbreviation (input) r_cscSel :: nat where "r_cscSel \<equiv> 0x15"
abbreviation (input) cfg_ABS_TIME :: u32 where "cfg_ABS_TIME \<equiv> 0"
abbreviation (input) cfg_PERIODIC :: u32 where "cfg_PERIODIC \<equiv> 1"
abbreviation (input) cfg_NO_CASCADE :: u32 where "cfg_NO_CASCADE \<equiv> -1"

record s_timer =
  tm_mode :: u8
  tm_src :: u8
  tm_cascade :: u8
  tm_deadline :: u64
  tm_msi_dst :: u32
  tm_msi_msg :: u32

definition irq_tm_rst :: "'w board \<Rightarrow> ('w, 'z) cpu_scheme \<Rightarrow> ('w, 'z) cpu_scheme" where
  "irq_tm_rst b s = poke b pCpuTimer r_rst 1 s"

definition irq_tm_get_arm :: "'w board \<Rightarrow> ('w, 'z) cpu_scheme \<Rightarrow> u32 \<times> ('w, 'z) cpu_scheme" where
  "irq_tm_get_arm b s = peek b pCpuTimer r_armGet s"

definition irq_tm_set_arm :: "'w board \<Rightarrow> u32 \<Rightarrow> ('w, 'z) cpu_scheme \<Rightarrow> ('w, 'z) cpu_scheme" where
  "irq_tm_set_arm b v s = poke b pCpuTimer r_armSet v s"

definition irq_tm_clr_arm :: "'w board \<Rightarrow> u32 \<Rightarrow> ('w, 'z) cpu_scheme \<Rightarrow> ('w, 'z) cpu_scheme" where
  "irq_tm_clr_arm b v s = poke b pCpuTimer r_armClr v s"

definition irq_tm_get_src :: "'w board \<Rightarrow> ('w, 'z) cpu_scheme \<Rightarrow> u32 \<times> ('w, 'z) cpu_scheme" where
  "irq_tm_get_src b s = peek b pCpuTimer r_srcGet s"

definition irq_tm_set_src :: "'w board \<Rightarrow> u32 \<Rightarrow> ('w, 'z) cpu_scheme \<Rightarrow> ('w, 'z) cpu_scheme" where
  "irq_tm_set_src b v s = poke b pCpuTimer r_srcSet v s"

definition irq_tm_clr_src :: "'w board \<Rightarrow> u32 \<Rightarrow> ('w, 'z) cpu_scheme \<Rightarrow> ('w, 'z) cpu_scheme" where
  "irq_tm_clr_src b v s = poke b pCpuTimer r_srcClr v s"

definition irq_tm_get_cnt_mode :: "'w board \<Rightarrow> ('w, 'z) cpu_scheme \<Rightarrow> u32 \<times> ('w, 'z) cpu_scheme" where
  "irq_tm_get_cnt_mode b s = peek b pCpuTimer r_cntModeGet s"

definition irq_tm_set_cnt_mode :: "'w board \<Rightarrow> u32 \<Rightarrow> ('w, 'z) cpu_scheme \<Rightarrow> ('w, 'z) cpu_scheme" where
  "irq_tm_set_cnt_mode b v s = poke b pCpuTimer r_cntModeSet v s"

definition irq_tm_clr_cnt_mode :: "'w board \<Rightarrow> u32 \<Rightarrow> ('w, 'z) cpu_scheme \<Rightarrow> ('w, 'z) cpu_scheme" where
  "irq_tm_clr_cnt_mode b v s = poke b pCpuTimer r_cntModeClr v s"

definition irq_tm_get_csc :: "'w board \<Rightarrow> ('w, 'z) cpu_scheme \<Rightarrow> u32 \<times> ('w, 'z) cpu_scheme" where
  "irq_tm_get_csc b s = peek b pCpuTimer r_cscGet s"

definition irq_tm_set_csc :: "'w board \<Rightarrow> u32 \<Rightarrow> ('w, 'z) cpu_scheme \<Rightarrow> ('w, 'z) cpu_scheme" where
  "irq_tm_set_csc b v s = poke b pCpuTimer r_cscSet v s"

definition irq_tm_clr_csc :: "'w board \<Rightarrow> u32 \<Rightarrow> ('w, 'z) cpu_scheme \<Rightarrow> ('w, 'z) cpu_scheme" where
  "irq_tm_clr_csc b v s = poke b pCpuTimer r_cscClr v s"

definition irq_tm_cnt_rst :: "'w board \<Rightarrow> u32 \<Rightarrow> ('w, 'z) cpu_scheme \<Rightarrow> ('w, 'z) cpu_scheme" where
  "irq_tm_cnt_rst b v s = poke b pCpuTimer r_cntRst v s"

definition irq_tm_pCpuTimer_sel :: "'w board \<Rightarrow> u32 \<Rightarrow> ('w, 'z) cpu_scheme \<Rightarrow> ('w, 'z) cpu_scheme" where
  "irq_tm_pCpuTimer_sel b v s = poke b pCpuTimer r_timerSel v s"

definition irq_tm_deadl_set :: "'w board \<Rightarrow> u64 \<Rightarrow> ('w, 'z) cpu_scheme \<Rightarrow> ('w, 'z) cpu_scheme" where
  "irq_tm_deadl_set b deadline s =
     poke b pCpuTimer r_timeLo (ucast (deadline AND 0xffffffff)) (poke b pCpuTimer r_timeHi (ucast (drop_bit 32 deadline)) s)"

definition irq_tm_deadl_get :: "'w board \<Rightarrow> u8 \<Rightarrow> ('w, 'z) cpu_scheme \<Rightarrow> u64 \<times> ('w, 'z) cpu_scheme" where
  "irq_tm_deadl_get b idx s =
     (let s = irq_tm_pCpuTimer_sel b (ucast idx) s;
          (hi, s) = peek b pCpuTimer r_timeHi s;
          deadline = push_bit 32 (ucast hi);
          (lo, s) = peek b pCpuTimer r_timeLo s
      in (deadline OR ucast lo, s))"

definition irq_tm_msi_set :: "'w board \<Rightarrow> u32 \<Rightarrow> u32 \<Rightarrow> ('w, 'z) cpu_scheme \<Rightarrow> ('w, 'z) cpu_scheme" where
  "irq_tm_msi_set b dst m s = poke b pCpuTimer r_msg m (poke b pCpuTimer r_dstAdr dst s)"

text \<open>The comparison is between unsigned integers.\<close>

definition irq_tm_cascade :: "'w board \<Rightarrow> u8 \<Rightarrow> u8 \<Rightarrow> ('w, 'z) cpu_scheme \<Rightarrow> ('w, 'z) cpu_scheme" where
  "irq_tm_cascade b receiver sender s =
     (if cfg_NO_CASCADE < ucast sender then irq_tm_clr_csc b (push_bit (unat receiver) 1) s
      else poke b pCpuTimer r_cscSel (ucast sender) (irq_tm_set_csc b (push_bit (unat receiver) 1) s))"

definition irq_tm_start :: "'w board \<Rightarrow> u32 \<Rightarrow> ('w, 'z) cpu_scheme \<Rightarrow> ('w, 'z) cpu_scheme" where
  "irq_tm_start b v s = irq_tm_set_arm b v s"

definition irq_tm_stop :: "'w board \<Rightarrow> u32 \<Rightarrow> ('w, 'z) cpu_scheme \<Rightarrow> ('w, 'z) cpu_scheme" where
  "irq_tm_stop b v s = irq_tm_clr_arm b v s"

definition irq_tm_trigger_at_time :: "'w board \<Rightarrow> u8 \<Rightarrow> u64 \<Rightarrow> ('w, 'z) cpu_scheme \<Rightarrow> ('w, 'z) cpu_scheme" where
  "irq_tm_trigger_at_time b idx deadline s =
     (let m = push_bit (unat idx) 1;
          s = irq_tm_stop b m s;
          s = irq_tm_clr_src b m s;
          s = irq_tm_pCpuTimer_sel b (ucast idx) s;
          s = irq_tm_deadl_set b deadline s
      in irq_tm_start b m s)"

definition irq_tm_write_config :: "'w board \<Rightarrow> u8 \<Rightarrow> s_timer \<Rightarrow> ('w, 'z) cpu_scheme \<Rightarrow> ('w, 'z) cpu_scheme" where
  "irq_tm_write_config b idx tm s =
     (let m = push_bit (unat idx) 1;
          s = irq_tm_stop b m s;
          s = irq_tm_cnt_rst b m s;
          s = irq_tm_pCpuTimer_sel b (ucast idx) s;
          s = (if ucast (tm_src tm) = cfg_ABS_TIME then irq_tm_clr_src b m s else irq_tm_set_src b m s);
          s = (if ucast (tm_mode tm) = cfg_PERIODIC then irq_tm_set_cnt_mode b m s else irq_tm_clr_cnt_mode b m s);
          s = irq_tm_cascade b idx (tm_cascade tm) s;
          s = irq_tm_deadl_set b (tm_deadline tm) s
      in irq_tm_msi_set b (tm_msi_dst tm) (tm_msi_msg tm) s)"

section \<open>The timer\<close>

record timer_chan =
  tc_hi :: u32
  tc_lo :: u32
  tc_msg :: u32
  tc_dst :: u32
  tc_cascade :: u32

record timer_regs =
  tr_arm :: u32
  tr_src :: u32
  tr_mode :: u32
  tr_csc :: u32
  tr_sel :: u32
  tr_chan :: "u32 \<Rightarrow> timer_chan"

definition on_chan :: "(timer_chan \<Rightarrow> timer_chan) \<Rightarrow> timer_regs \<Rightarrow> timer_regs" where
  "on_chan f t = t\<lparr>tr_chan := (tr_chan t)(tr_sel t := f (tr_chan t (tr_sel t)))\<rparr>"

text \<open>What a write to a register does: the set and clear registers change the bits written as ones, and the registers behind
  the selection belong to the selected timer.\<close>

definition timer_write :: "nat \<Rightarrow> u32 \<Rightarrow> timer_regs \<Rightarrow> timer_regs" where
  "timer_write i v t =
     (if i = r_armSet then t\<lparr>tr_arm := tr_arm t OR v\<rparr> else if i = r_armClr then t\<lparr>tr_arm := tr_arm t AND NOT v\<rparr>
      else if i = r_srcSet then t\<lparr>tr_src := tr_src t OR v\<rparr> else if i = r_srcClr then t\<lparr>tr_src := tr_src t AND NOT v\<rparr>
      else if i = r_cntModeSet then t\<lparr>tr_mode := tr_mode t OR v\<rparr> else if i = r_cntModeClr then t\<lparr>tr_mode := tr_mode t AND NOT v\<rparr>
      else if i = r_cscSet then t\<lparr>tr_csc := tr_csc t OR v\<rparr> else if i = r_cscClr then t\<lparr>tr_csc := tr_csc t AND NOT v\<rparr>
      else if i = r_timerSel then t\<lparr>tr_sel := v\<rparr>
      else if i = r_timeHi then on_chan (tc_hi_update (\<lambda>_. v)) t else if i = r_timeLo then on_chan (tc_lo_update (\<lambda>_. v)) t
      else if i = r_msg then on_chan (tc_msg_update (\<lambda>_. v)) t else if i = r_dstAdr then on_chan (tc_dst_update (\<lambda>_. v)) t
      else if i = r_cscSel then on_chan (tc_cascade_update (\<lambda>_. v)) t else t)"

definition timer_law :: "'w board \<Rightarrow> ('w \<Rightarrow> timer_regs) \<Rightarrow> bool" where
  "timer_law b regs \<longleftrightarrow>
     (\<forall>i v w. i \<noteq> r_rst \<longrightarrow> regs (io_write b pCpuTimer i v w) = timer_write i v (regs w)) \<and>
     (\<forall>w. io_read b pCpuTimer r_timeHi w = (tc_hi (tr_chan (regs w) (tr_sel (regs w))), w)) \<and>
     (\<forall>w. io_read b pCpuTimer r_timeLo w = (tc_lo (tr_chan (regs w) (tr_sel (regs w))), w))"

lemma poke_timer:
  "timer_law b regs \<Longrightarrow> i \<noteq> r_rst \<Longrightarrow> regs (cpu_io (poke b pCpuTimer i v s)) = timer_write i v (regs (cpu_io s))"
  by (simp add: timer_law_def poke_def)

lemma deadline_halves: "push_bit 32 (ucast (ucast (drop_bit 32 d) :: u32)) OR ucast (ucast (d AND 0xffffffff) :: u32) = (d :: u64)"
proof -
  have m: "(0xffffffff :: u64) = mask 32" by (simp add: mask_eq_exp_minus_1)
  show ?thesis unfolding m by (rule bit_word_eqI) (auto simp: bit_simps)
qed

text \<open>C27: a timer gets the configuration it is given, except that it is always cascaded. For each of the 32 timers, writing a
  configuration disarms the timer, selects source and mode, and stores deadline, message and destination, so that the
  deadline reads back as it was written; the other timers keep all their settings. But the driver never switches
  the cascaded start off: also the sender that means no cascade (255) sets the bit and is stored as a sender.\<close>

theorem timer_configured:
  fixes b :: "'w board" and s :: "('w, 'z) cpu_scheme" and tm :: s_timer and regs :: "'w \<Rightarrow> timer_regs" and idx :: nat
  assumes "timer_law b regs" and "idx < 32"
  defines "t \<equiv> regs (cpu_io s)" and "t' \<equiv> regs (cpu_io (irq_tm_write_config b (of_nat idx) tm s))"
  shows "\<not> bit (tr_arm t') idx \<and> bit (tr_src t') idx = (tm_src tm \<noteq> 0) \<and> bit (tr_mode t') idx = (tm_mode tm = 1) \<and>
    tc_msg (tr_chan t' (of_nat idx)) = tm_msi_msg tm \<and> tc_dst (tr_chan t' (of_nat idx)) = tm_msi_dst tm \<and>
    fst (irq_tm_deadl_get b (of_nat idx) (irq_tm_write_config b (of_nat idx) tm s)) = tm_deadline tm \<and>
    bit (tr_csc t') idx \<and> tc_cascade (tr_chan t' (of_nat idx)) = ucast (tm_cascade tm) \<and>
    (\<forall>k. k \<noteq> idx \<longrightarrow> bit (tr_arm t') k = bit (tr_arm t) k \<and> bit (tr_src t') k = bit (tr_src t) k \<and> bit (tr_mode t') k = bit (tr_mode t) k \<and>
       bit (tr_csc t') k = bit (tr_csc t) k) \<and>
    (\<forall>c. c \<noteq> of_nat idx \<longrightarrow> tr_chan t' c = tr_chan t c)"
proof -
  have i: "unat (of_nat idx :: u8) = idx" "ucast (of_nat idx :: u8) = (of_nat idx :: u32)"
    using assms(2) by (simp_all add: unat_of_nat unsigned_of_nat take_bit_nat_eq_self)
  have never: "\<not> (-1 :: u32) < x" for x using word_order.extremum [of x] by (simp add: not_less)
  have z: "(ucast (tm_src tm) = (0 :: u32)) = (tm_src tm = 0)" "(ucast (tm_mode tm) = (1 :: u32)) = (tm_mode tm = 1)"
  proof -
    have "unat (ucast x :: u32) = unat x" for x :: u8
      using unsigned_less [of x, where ?'a = nat] by (simp add: unsigned_ucast_eq take_bit_nat_eq_self)
    then show "(ucast (tm_src tm) = (0 :: u32)) = (tm_src tm = 0)" "(ucast (tm_mode tm) = (1 :: u32)) = (tm_mode tm = 1)"
      by (simp_all add: word_unat_eq_iff)
  qed
  note defs = irq_tm_write_config_def irq_tm_stop_def irq_tm_clr_arm_def irq_tm_cnt_rst_def irq_tm_pCpuTimer_sel_def irq_tm_clr_src_def irq_tm_set_src_def
    irq_tm_set_cnt_mode_def irq_tm_clr_cnt_mode_def irq_tm_cascade_def irq_tm_set_csc_def irq_tm_deadl_set_def irq_tm_msi_set_def
  have t': "t' = (let m = push_bit idx 1; c = of_nat idx in
      \<lparr>tr_arm = tr_arm t AND NOT m, tr_src = (if tm_src tm = 0 then tr_src t AND NOT m else tr_src t OR m),
       tr_mode = (if tm_mode tm = 1 then tr_mode t OR m else tr_mode t AND NOT m), tr_csc = tr_csc t OR m, tr_sel = c,
       tr_chan = (tr_chan t)(c := \<lparr>tc_hi = ucast (drop_bit 32 (tm_deadline tm)), tc_lo = ucast (tm_deadline tm AND 0xffffffff),
         tc_msg = tm_msi_msg tm, tc_dst = tm_msi_dst tm, tc_cascade = ucast (tm_cascade tm)\<rparr>)\<rparr>)"
  proof -
    obtain a sr m cs sl ch where R: "regs (cpu_io s) = \<lparr>tr_arm = a, tr_src = sr, tr_mode = m, tr_csc = cs, tr_sel = sl, tr_chan = ch\<rparr>"
      by (cases "regs (cpu_io s)")
    obtain h l g d cc where C: "ch (of_nat idx) = \<lparr>tc_hi = h, tc_lo = l, tc_msg = g, tc_dst = d, tc_cascade = cc\<rparr>"
      by (cases "ch (of_nat idx)")
    show ?thesis using assms(1) by (simp add: t'_def t_def defs i z never poke_timer timer_write_def on_chan_def Let_def R C)
  qed
  have deadl: "fst (irq_tm_deadl_get b (of_nat idx) u) =
      push_bit 32 (ucast (tc_hi (tr_chan (regs (cpu_io u)) (of_nat idx)))) OR ucast (tc_lo (tr_chan (regs (cpu_io u)) (of_nat idx)))"
    for u :: "('w, 'z) cpu_scheme"
    using assms(1) by (simp add: irq_tm_deadl_get_def irq_tm_pCpuTimer_sel_def peek_def poke_def timer_law_def timer_write_def i
        Let_def split: prod.splits)
  have bits: "\<not> bit (tr_arm t') idx" "bit (tr_src t') idx = (tm_src tm \<noteq> 0)" "bit (tr_mode t') idx = (tm_mode tm = 1)" "bit (tr_csc t') idx"
    unfolding t' Let_def using assms(2) by (simp_all add: bit_simps)
  have chan: "tr_chan t' = (tr_chan t)(of_nat idx := \<lparr>tc_hi = ucast (drop_bit 32 (tm_deadline tm)), tc_lo = ucast (tm_deadline tm AND 0xffffffff),
         tc_msg = tm_msi_msg tm, tc_dst = tm_msi_dst tm, tc_cascade = ucast (tm_cascade tm)\<rparr>)"
    unfolding t' Let_def by simp
  have others: "bit (tr_arm t') k = bit (tr_arm t) k \<and> bit (tr_src t') k = bit (tr_src t) k \<and> bit (tr_mode t') k = bit (tr_mode t) k \<and>
       bit (tr_csc t') k = bit (tr_csc t) k" if "k \<noteq> idx" for k
  proof (cases "k < 32")
    case True
    then show ?thesis unfolding t' Let_def using that assms(2) by (auto simp: bit_simps)
  next
    case False
    then have "\<not> bit (x :: u32) k" for x using bit_imp_le_length [of x k] by auto
    then show ?thesis by blast
  qed
  have "fst (irq_tm_deadl_get b (of_nat idx) (irq_tm_write_config b (of_nat idx) tm s)) = tm_deadline tm"
    unfolding deadl t'_def [symmetric] chan by (simp only: fun_upd_same timer_chan.simps deadline_halves)
  with bits others show ?thesis unfolding chan by simp
qed

text \<open>A board whose world is the registers of the timer.\<close>

definition timer_board :: "timer_regs board" where
  "timer_board = \<lparr>io_read = (\<lambda>p i w. (if i = r_timeHi then tc_hi (tr_chan w (tr_sel w)) else if i = r_timeLo then tc_lo (tr_chan w (tr_sel w)) else 0, w)),
     io_write = (\<lambda>p i v w. timer_write i v w), scub_read = (\<lambda>i w. (0, w)), scub_write = (\<lambda>i v w. w), uart_write_byte = (\<lambda>c w. w)\<rparr>"

definition timer_cpu :: "timer_regs cpu" where
  "timer_cpu = \<lparr>csr_ip = 0, csr_im = 0, csr_ie = 0, ier = 0, global_msi = \<lparr>msg = 0, adr = 0, sel = 0\<rparr>, isr_ptr_table = [],
     cpu_io = \<lparr>tr_arm = 15, tr_src = 0, tr_mode = 0, tr_csc = 0, tr_sel = 0, tr_chan = (\<lambda>_. \<lparr>tc_hi = 0, tc_lo = 0, tc_msg = 0, tc_dst = 0, tc_cascade = 0\<rparr>)\<rparr>\<rparr>"

theorem timer_configured_witness:
  "timer_law timer_board (\<lambda>w. w) \<and>
   (let tm = \<lparr>tm_mode = 1, tm_src = 0, tm_cascade = 255, tm_deadline = 0x123456789abc, tm_msi_dst = 0x80, tm_msi_msg = 7\<rparr>;
        u = irq_tm_write_config timer_board (of_nat 3) tm timer_cpu
    in fst (irq_tm_deadl_get timer_board (of_nat 3) u) = 0x123456789abc \<and> bit (tr_csc (cpu_io u)) 3)"
proof -
  have law: "timer_law timer_board (\<lambda>w. w)"
    by (simp add: timer_law_def timer_board_def)
  then show ?thesis unfolding Let_def
    using timer_configured [where b = timer_board and regs = "\<lambda>w. w" and idx = 3 and s = timer_cpu and
      tm = "\<lparr>tm_mode = 1, tm_src = 0, tm_cascade = 255, tm_deadline = 0x123456789abc, tm_msi_dst = 0x80, tm_msi_msg = 7\<rparr>"]
    by simp
qed

end
