(* ===== verification/Flash_Tool.thy ===== *)
theory Flash_Tool
  imports Eb_Prelude Eb_Refine
begin

text \<open>
  The program that writes firmware into the flash memory of a board (\<^verbatim>\<open>tools/eb-flash.c\<close>): it detects the sector size, scans
  the memory for sectors that are not blank, erases those, programs the firmware page by page and reads it back.
  The messages it prints and its option parser are left out. The library calls reach a device over the network; how that behaves is the
  parameter \<open>flash_dev\<close>.
\<close>

section \<open>Exits and loops\<close>

text \<open>\<open>None\<close> is a fault or a loop that does not end, \<open>Inl\<close> an exit of the program with its code.\<close>

type_synonym 'a exits = "(int + 'a) option"

definition and_then :: "'a exits \<Rightarrow> ('a \<Rightarrow> 'b exits) \<Rightarrow> 'b exits" where
  "and_then m f = do { r \<leftarrow> m; case r of Inl e \<Rightarrow> Some (Inl e) | Inr a \<Rightarrow> f a }"

partial_function (option) repeat_while :: "('s \<Rightarrow> bool) \<Rightarrow> ('s \<Rightarrow> 's exits) \<Rightarrow> 's \<Rightarrow> 's exits" where
  "repeat_while c body s =
     (if c s then do { r \<leftarrow> body s; case r of Inl e \<Rightarrow> Some (Inl e) | Inr s' \<Rightarrow> repeat_while c body s' }
      else Some (Inr s))"

section \<open>The program's variables\<close>

record flash_opts =
  fo_address :: eb_address_t
  fo_erase_address :: eb_address_t
  fo_sector_size :: eb_address_t
  fo_page_size :: eb_address_t
  fo_wait_us :: int
  fo_cycles_per_poll :: int
  fo_full :: bool
  fo_verify :: bool
  fo_invert :: bool
  fo_old_erase :: bool
  fo_firmware :: "u8 list"
  fo_firmware_length :: eb_address_t
  fo_format :: eb_format_t
  fo_ffs :: eb_data_t
  fo_mask_0f :: eb_data_t

record fop =
  fop_write :: bool
  fop_address :: eb_address_t
  fop_format :: eb_format_t
  fop_data :: eb_data_t
  fop_error :: bool

text \<open>A device reached through the library: the status of opening a cycle; a run of the event loop with so many cycles in flight and a timeout,
  which gives the time used and the status of each cycle that is now complete; the status of a blocking cycle;
  and the accesses of a cycle.\<close>

record 'w flash_dev =
  fd_open :: "'w \<Rightarrow> eb_status_t \<times> 'w"
  fd_run :: "nat \<Rightarrow> int \<Rightarrow> 'w \<Rightarrow> (int \<times> eb_status_t list) \<times> 'w"
  fd_block :: "'w \<Rightarrow> eb_status_t \<times> 'w"
  fd_read :: "eb_address_t \<Rightarrow> eb_format_t \<Rightarrow> 'w \<Rightarrow> (eb_data_t \<times> bool) \<times> 'w"
  fd_write :: "eb_address_t \<Rightarrow> eb_format_t \<Rightarrow> eb_data_t \<Rightarrow> 'w \<Rightarrow> bool \<times> 'w"

text \<open>The open cycle, the cycles that are closed but not yet complete, and the variables the callbacks work on.\<close>

record 'w flash_st =
  fs_w :: 'w
  fs_cycle :: "fop list"
  fs_queue :: "fop list list"
  fs_inflight :: int
  fs_bitmap :: "u8 list"
  fs_pos :: nat
  fs_last_offset :: eb_address_t
  fs_user :: eb_address_t

abbreviation (input) MAX_SECTOR_SIZE :: u64 where "MAX_SECTOR_SIZE \<equiv> 4194304"

section \<open>Calls of the library\<close>

definition fread_op :: "eb_address_t \<Rightarrow> eb_format_t \<Rightarrow> fop" where
  "fread_op a f = \<lparr>fop_write = False, fop_address = a, fop_format = f, fop_data = 0, fop_error = False\<rparr>"

definition fwrite_op :: "eb_address_t \<Rightarrow> eb_format_t \<Rightarrow> eb_data_t \<Rightarrow> fop" where
  "fwrite_op a f v = \<lparr>fop_write = True, fop_address = a, fop_format = f, fop_data = v, fop_error = False\<rparr>"

definition perform_op :: "'w flash_dev \<Rightarrow> fop \<Rightarrow> 'w \<Rightarrow> fop \<times> 'w" where
  "perform_op d op w =
     (if fop_write op then let (e, w) = fd_write d (fop_address op) (fop_format op) (fop_data op) w in (op\<lparr>fop_error := e\<rparr>, w)
      else let ((v, e), w) = fd_read d (fop_address op) (fop_format op) w in (op\<lparr>fop_data := v, fop_error := e\<rparr>, w))"

fun perform :: "'w flash_dev \<Rightarrow> fop list \<Rightarrow> 'w \<Rightarrow> fop list \<times> 'w" where
  "perform d [] w = ([], w)"
| "perform d (op # ops) w = (let (op, w) = perform_op d op w; (ops, w) = perform d ops w in (op # ops, w))"

text \<open>A cycle is reported as faulty when one of its operations failed.\<close>

definition run_cycle :: "'w flash_dev \<Rightarrow> eb_status_t \<Rightarrow> fop list \<Rightarrow> 'w \<Rightarrow> eb_status_t \<times> fop list \<times> 'w" where
  "run_cycle d st ops w =
     (if st \<noteq> EB_OK then (st, ops, w)
      else let (ops, w) = perform d ops w in (if \<exists>op \<in> set ops. fop_error op then EB_SEGFAULT else EB_OK, ops, w))"

definition blocking :: "'w flash_dev \<Rightarrow> fop list \<Rightarrow> 'w flash_st \<Rightarrow> eb_status_t \<times> fop list \<times> 'w flash_st" where
  "blocking d ops s =
     (let (st, w) = fd_block d (fs_w s); (st, ops, w) = run_cycle d st ops w in (st, ops, s\<lparr>fs_w := w\<rparr>))"

type_synonym 'w fcallback = "fop list \<Rightarrow> eb_status_t \<Rightarrow> 'w flash_st \<Rightarrow> 'w flash_st exits"

fun complete :: "'w flash_dev \<Rightarrow> 'w fcallback \<Rightarrow> eb_status_t list \<Rightarrow> 'w flash_st \<Rightarrow> 'w flash_st exits" where
  "complete d cb [] s = Some (Inr s)"
| "complete d cb (st # sts) s =
     (case fs_queue s of
        [] \<Rightarrow> Some (Inr s)
      | c # q \<Rightarrow> let (st, c, w) = run_cycle d st c (fs_w s)
                 in and_then (cb c st (s\<lparr>fs_w := w, fs_queue := q\<rparr>)) (complete d cb sts))"

definition fl_socket_run :: "'w flash_dev \<Rightarrow> 'w fcallback \<Rightarrow> int \<Rightarrow> 'w flash_st \<Rightarrow> (int \<times> 'w flash_st) exits" where
  "fl_socket_run d cb timeout s =
     (let ((used, sts), w) = fd_run d (length (fs_queue s)) timeout (fs_w s)
      in and_then (complete d cb sts (s\<lparr>fs_w := w\<rparr>)) (\<lambda>s. Some (Inr (used, s))))"

definition open_status :: "'w flash_dev \<Rightarrow> 'w flash_st \<Rightarrow> eb_status_t \<times> 'w flash_st" where
  "open_status d s = (let (st, w) = fd_open d (fs_w s) in (st, s\<lparr>fs_w := w, fs_cycle := []\<rparr>))"

text \<open>The loops that open a cycle only print a message when that fails, and go on with the null handle.\<close>

definition open_cycle :: "'w flash_dev \<Rightarrow> 'w flash_st \<Rightarrow> 'w flash_st exits" where
  "open_cycle d s = (let (st, s) = open_status d s in if st \<noteq> EB_OK then None else Some (Inr s))"

definition add_op :: "fop \<Rightarrow> 'w flash_st \<Rightarrow> 'w flash_st" where
  "add_op op s = s\<lparr>fs_cycle := fs_cycle s @ [op]\<rparr>"

definition close_cycle :: "'w flash_st \<Rightarrow> 'w flash_st" where
  "close_cycle s = s\<lparr>fs_inflight := fs_inflight s + 1, fs_queue := fs_queue s @ [fs_cycle s], fs_cycle := []\<rparr>"

definition wait_inflight :: "'w flash_dev \<Rightarrow> 'w fcallback \<Rightarrow> int \<Rightarrow> 'w flash_st \<Rightarrow> 'w flash_st exits" where
  "wait_inflight d cb n =
     repeat_while (\<lambda>s. n \<le> fs_inflight s) (\<lambda>s. and_then (fl_socket_run d cb (-1) s) (\<lambda>(_, s). Some (Inr s)))"

text \<open>Closing a full cycle, opening the next, and waiting for room.\<close>

definition next_cycle :: "'w flash_dev \<Rightarrow> 'w fcallback \<Rightarrow> flash_opts \<Rightarrow> 'w flash_st \<Rightarrow> 'w flash_st exits" where
  "next_cycle d cb cfg s = and_then (open_cycle d (close_cycle s)) (wait_inflight d cb (fo_cycles_per_poll cfg))"

definition last_cycle :: "'w flash_dev \<Rightarrow> 'w fcallback \<Rightarrow> nat \<Rightarrow> 'w flash_st \<Rightarrow> 'w flash_st exits" where
  "last_cycle d cb ops s = wait_inflight d cb 1 (if 0 < ops then close_cycle s else s\<lparr>fs_cycle := []\<rparr>)"

section \<open>The bitmap of sectors to erase\<close>

definition c_div8 :: "int \<Rightarrow> int" where
  "c_div8 x = (if x < 0 then - (- x div 8) else x div 8)"

definition bitmask_get :: "u8 list \<Rightarrow> int \<Rightarrow> bool option" where
  "bitmask_get bm offset =
     (if 0 \<le> c_div8 offset \<and> c_div8 offset < int (length bm)
      then Some (drop_bit (nat (offset mod 8)) (bm ! nat (c_div8 offset)) AND 1 \<noteq> 0) else None)"

definition bitmask_set :: "u8 list \<Rightarrow> int \<Rightarrow> bool \<Rightarrow> u8 list option" where
  "bitmask_set bm offset value =
     (if 0 \<le> c_div8 offset \<and> c_div8 offset < int (length bm)
      then let i = nat (c_div8 offset); b = push_bit (nat (offset mod 8)) 1
           in Some (bm[i := (bm ! i AND NOT b) OR (if value then b else 0)])
      else None)"

section \<open>Bits and words of the firmware\<close>

definition flip_bits :: "flash_opts \<Rightarrow> eb_data_t \<Rightarrow> eb_data_t" where
  "flip_bits cfg x =
     (if \<not> fo_invert cfg then x
      else let m = fo_mask_0f cfg;
               x = (drop_bit 4 x AND m) OR push_bit 4 (x AND m);
               m = m XOR push_bit 2 m;
               x = (drop_bit 2 x AND m) OR push_bit 2 (x AND m);
               m = m XOR push_bit 1 m
           in (drop_bit 1 x AND m) OR push_bit 1 (x AND m))"

definition fl_size :: "flash_opts \<Rightarrow> nat" where
  "fl_size cfg = unat (fo_format cfg AND EB_DATAX)"

definition fl_data :: "flash_opts \<Rightarrow> u8 list \<Rightarrow> eb_data_t" where
  "fl_data cfg buf =
     foldl (\<lambda>data b. push_bit 8 data OR ucast b) 0 (if fo_format cfg AND EB_ENDIAN_MASK = EB_BIG_ENDIAN then buf else rev buf)"

text \<open>\<^verbatim>\<open>fread\<close> of one word; \<open>None\<close> is a short read.\<close>

definition fread :: "flash_opts \<Rightarrow> nat \<Rightarrow> 'w flash_st \<Rightarrow> (u8 list \<times> 'w flash_st) option" where
  "fread cfg n s =
     (let buf = take n (drop (fs_pos s) (fo_firmware cfg))
      in if length buf \<noteq> n then None else Some (buf, s\<lparr>fs_pos := fs_pos s + n\<rparr>))"

section \<open>Erasing\<close>

definition fl_control :: "flash_opts \<Rightarrow> eb_format_t" where
  "fl_control cfg = (fo_format cfg AND EB_ENDIAN_MASK) OR EB_DATA32"

text \<open>The words written to the erase register: write enable, then the erase command with the address of the sector.\<close>

definition erase_command :: "flash_opts \<Rightarrow> eb_address_t \<Rightarrow> eb_data_t list" where
  "erase_command cfg sector =
     [0x6, 0x80000000, 0xD8] @
     (if drop_bit 24 (fo_erase_address cfg - fo_address cfg) \<noteq> 0 then [drop_bit 24 sector AND 0xFF] else []) @
     [drop_bit 16 sector AND 0xFF, drop_bit 8 sector AND 0xFF, drop_bit 0 sector AND 0xFF, 0x80000000]"

definition erase_sector :: "'w flash_dev \<Rightarrow> flash_opts \<Rightarrow> eb_address_t \<Rightarrow> 'w flash_st \<Rightarrow> eb_status_t \<times> 'w flash_st" where
  "erase_sector d cfg sector s =
     (let wr = fwrite_op (fo_erase_address cfg) (fl_control cfg)
      in if fo_old_erase cfg then let (st, _, s) = blocking d [wr sector] s in (st, s)
         else let (st, s) = open_status d s
              in if st \<noteq> EB_OK then (st, s)
                 else let (st, _, s) = blocking d (map wr (erase_command cfg sector)) s in (st, s))"

text \<open>Sleeping: the loop runs the event loop until the time is used up. No cycle is in flight here, so no callback is called.\<close>

definition no_callback :: "'w fcallback" where
  "no_callback ops st s = Some (Inr s)"

definition sleep_us :: "'w flash_dev \<Rightarrow> int \<Rightarrow> 'w flash_st \<Rightarrow> 'w flash_st exits" where
  "sleep_us d interval s =
     and_then (repeat_while (\<lambda>(delay, s). delay > 0)
         (\<lambda>(delay, s). and_then (fl_socket_run d no_callback delay s) (\<lambda>(used, s). Some (Inr (delay - used, s))))
         (interval, s))
       (\<lambda>(_, s). Some (Inr s))"

definition wait_for_busy :: "'w flash_dev \<Rightarrow> flash_opts \<Rightarrow> int \<Rightarrow> 'w flash_st \<Rightarrow> 'w flash_st exits" where
  "wait_for_busy d cfg interval s =
     and_then (repeat_while (\<lambda>(st, s). st = EB_SEGFAULT)
         (\<lambda>(_, s). and_then (sleep_us d interval s) (\<lambda>s.
            let (st, _, s) = blocking d [fread_op (fo_erase_address cfg) (fl_control cfg)] s
            in if st \<noteq> EB_OK \<and> st \<noteq> EB_SEGFAULT then Some (Inl 1) else Some (Inr (st, s))))
         (EB_SEGFAULT, s))
       (\<lambda>(_, s). Some (Inr s))"

definition erase_and_wait :: "'w flash_dev \<Rightarrow> flash_opts \<Rightarrow> eb_address_t \<Rightarrow> 'w flash_st \<Rightarrow> 'w flash_st exits" where
  "erase_and_wait d cfg sector s =
     (let (st, s) = erase_sector d cfg sector s
      in if st \<noteq> EB_OK then Some (Inl 1) else wait_for_busy d cfg (fo_wait_us cfg) s)"

section \<open>Detecting the sector size\<close>

fun find_sector_ops :: "eb_address_t \<Rightarrow> fop list \<Rightarrow> (int + eb_address_t)" where
  "find_sector_ops result [] = Inr result"
| "find_sector_ops result (op # ops) =
     (if fop_error op then Inl 1 else if fop_data op \<noteq> 0 then find_sector_ops (push_bit 1 result) ops else Inr result)"

definition find_sector_size :: "flash_opts \<Rightarrow> 'w fcallback" where
  "find_sector_size cfg ops st s =
     (if st \<noteq> EB_OK then Some (Inl 1)
      else case find_sector_ops (fo_page_size cfg) ops of Inl e \<Rightarrow> Some (Inl e) | Inr r \<Rightarrow> Some (Inr (s\<lparr>fs_user := r\<rparr>)))"

text \<open>The largest sector around the middle of the firmware.\<close>

definition fl_align :: "eb_address_t \<Rightarrow> eb_address_t \<Rightarrow> eb_address_t" where
  "fl_align target sz = target AND NOT (sz - 1)"

definition fit_sector :: "flash_opts \<Rightarrow> (eb_address_t \<times> eb_address_t) \<Rightarrow> (eb_address_t \<times> eb_address_t) option" where
  "fit_sector cfg = loop (\<lambda>(sz, target).
     let end = fo_address cfg + fo_firmware_length cfg - 1
     in Some (if fo_address cfg \<le> target \<and> target + sz - 1 \<le> end
              then let sz = push_bit 1 sz; target = fl_align target sz
                   in if MAX_SECTOR_SIZE \<le> sz then Inr (sz, target) else Inl (sz, target)
              else Inr (sz, target)))"

definition detect_sector_size :: "'w flash_dev \<Rightarrow> flash_opts \<Rightarrow> 'w flash_st \<Rightarrow> (eb_address_t \<times> 'w flash_st) exits" where
  "detect_sector_size d cfg s = do {
     let middle = fo_address cfg + fo_firmware_length cfg div 2;
     (sz, _) \<leftarrow> fit_sector cfg (fo_page_size cfg, fl_align middle (fo_page_size cfg));
     let max_size = drop_bit 1 sz;
     let target = fl_align middle max_size;
     and_then (repeat_while (\<lambda>(sz, s). sz < max_size)
         (\<lambda>(sz, s). let (st, _, s) = blocking d [fwrite_op (target + sz) (fo_format cfg) 0] s
            in if st \<noteq> EB_OK then Some (Inl 1) else and_then (wait_for_busy d cfg 0 s) (\<lambda>s. Some (Inr (push_bit 1 sz, s))))
         (fo_page_size cfg, s)) (\<lambda>(_, s).
     and_then (erase_and_wait d cfg target s) (\<lambda>s.
     let (st, s) = open_status d s
     in if st \<noteq> EB_OK then Some (Inl 1)
        else and_then (repeat_while (\<lambda>(sz, s). sz < max_size)
               (\<lambda>(sz, s). Some (Inr (push_bit 1 sz, add_op (fread_op (target + sz) (fo_format cfg)) s))) (fo_page_size cfg, s)) (\<lambda>(_, s).
             and_then (repeat_while (\<lambda>s. fs_user s = 0)
               (\<lambda>s. and_then (fl_socket_run d (find_sector_size cfg) (-1) s) (\<lambda>(_, s). Some (Inr s)))
               (s\<lparr>fs_user := 0, fs_queue := fs_queue s @ [fs_cycle s], fs_cycle := []\<rparr>))
             (\<lambda>s. Some (Inr (fs_user s, s))))))
   }"

section \<open>Scanning\<close>

definition index_int :: "u64 \<Rightarrow> int" where
  "index_int x = sint (ucast x :: u32)"

fun detect_ops :: "flash_opts \<Rightarrow> fop list \<Rightarrow> u8 list \<Rightarrow> u8 list exits" where
  "detect_ops cfg [] bm = Some (Inr bm)"
| "detect_ops cfg (op # ops) bm =
     (if fop_error op then Some (Inl 1)
      else if fop_data op \<noteq> fo_ffs cfg
      then do { bm \<leftarrow> bitmask_set bm (index_int ((fop_address op - fo_address cfg) div fo_sector_size cfg)) True; detect_ops cfg ops bm }
      else detect_ops cfg ops bm)"

definition detect_decrement :: "flash_opts \<Rightarrow> 'w fcallback" where
  "detect_decrement cfg ops st s =
     (let s = s\<lparr>fs_inflight := fs_inflight s - 1\<rparr>
      in if st \<noteq> EB_OK then Some (Inl 1)
         else and_then (detect_ops cfg ops (fs_bitmap s)) (\<lambda>bm. Some (Inr (s\<lparr>fs_bitmap := bm\<rparr>))))"

definition first_sector :: "flash_opts \<Rightarrow> eb_address_t" where
  "first_sector cfg = (fo_address cfg div fo_sector_size cfg) * fo_sector_size cfg"

definition last_sector :: "flash_opts \<Rightarrow> eb_address_t" where
  "last_sector cfg = ((fo_address cfg + fo_firmware_length cfg + fo_sector_size cfg - 1) div fo_sector_size cfg) * fo_sector_size cfg"

definition scan_words :: "'w flash_dev \<Rightarrow> flash_opts \<Rightarrow> eb_address_t \<Rightarrow> eb_address_t \<Rightarrow> nat \<times> 'w flash_st \<Rightarrow> (nat \<times> 'w flash_st) exits" where
  "scan_words d cfg position last_position st =
     and_then (repeat_while (\<lambda>(position, st). position \<noteq> last_position)
         (\<lambda>(position, ops, s).
            let s = add_op (fread_op position (fo_format cfg)) s
            in if ops + 1 = unat (fo_page_size cfg) div fl_size cfg
               then and_then (next_cycle d (detect_decrement cfg) cfg s) (\<lambda>s. Some (Inr (position + of_nat (fl_size cfg), 0, s)))
               else Some (Inr (position + of_nat (fl_size cfg), ops + 1, s)))
         (position, st))
       (\<lambda>(_, st). Some (Inr st))"

definition quick_scan_gap :: "'w flash_dev \<Rightarrow> flash_opts \<Rightarrow> eb_address_t \<Rightarrow> eb_address_t \<Rightarrow> 'w flash_st \<Rightarrow> 'w flash_st exits" where
  "quick_scan_gap d cfg offset len s =
     and_then (open_cycle d (s\<lparr>fs_inflight := 0\<rparr>)) (\<lambda>s.
     and_then (repeat_while (\<lambda>(sector, st). sector \<noteq> last_sector cfg)
         (\<lambda>(sector, i, ops, s). do {
            b \<leftarrow> bitmask_get (fs_bitmap s) i;
            if b then Some (Inr (sector + fo_sector_size cfg, i + 1, ops, s))
            else and_then (scan_words d cfg (sector + offset) (sector + offset + len) (ops, s))
                   (\<lambda>(ops, s). Some (Inr (sector + fo_sector_size cfg, i + 1, ops, s))) })
         (first_sector cfg, 0, 0, s))
       (\<lambda>(_, _, ops, s). last_cycle d (detect_decrement cfg) ops s))"

definition quick_scan :: "'w flash_dev \<Rightarrow> flash_opts \<Rightarrow> 'w flash_st \<Rightarrow> 'w flash_st exits" where
  "quick_scan d cfg s =
     and_then (quick_scan_gap d cfg 0 8 s) (\<lambda>s.
     and_then (repeat_while (\<lambda>(offset, gap, s). offset \<noteq> fo_sector_size cfg)
         (\<lambda>(offset, gap, s). and_then (quick_scan_gap d cfg offset gap s) (\<lambda>s. Some (Inr (offset + gap, gap + gap, s))))
         (8, 8, s))
       (\<lambda>(_, _, s). Some (Inr s)))"

definition erase_flash :: "'w flash_dev \<Rightarrow> flash_opts \<Rightarrow> 'w flash_st \<Rightarrow> 'w flash_st exits" where
  "erase_flash d cfg s =
     and_then (repeat_while (\<lambda>(sector, st). sector \<noteq> last_sector cfg)
         (\<lambda>(sector, i, s). do {
            b \<leftarrow> bitmask_get (fs_bitmap s) i;
            if \<not> b then Some (Inr (sector + fo_sector_size cfg, i + 1, s))
            else and_then (erase_and_wait d cfg sector s) (\<lambda>s. Some (Inr (sector + fo_sector_size cfg, i + 1, s))) })
         (first_sector cfg, 0, s))
       (\<lambda>(_, _, s). Some (Inr s))"

section \<open>Programming and verifying\<close>

definition program_decrement :: "'w fcallback" where
  "program_decrement ops st s =
     (let s = s\<lparr>fs_inflight := fs_inflight s - 1\<rparr>
      in if st \<noteq> EB_OK then Some (Inl 1) else if \<exists>op \<in> set ops. fop_error op then Some (Inl 1) else Some (Inr s))"

definition program_flash :: "'w flash_dev \<Rightarrow> flash_opts \<Rightarrow> 'w flash_st \<Rightarrow> 'w flash_st exits" where
  "program_flash d cfg s =
     and_then (open_cycle d (s\<lparr>fs_inflight := 0\<rparr>)) (\<lambda>s.
     and_then (repeat_while (\<lambda>(offset, st). offset \<noteq> fo_address cfg + fo_firmware_length cfg)
         (\<lambda>(offset, ops, may_skip_ffs, s).
            case fread cfg (fl_size cfg) s of
              None \<Rightarrow> Some (Inl 1)
            | Some (buf, s) \<Rightarrow>
                let next_offset = offset + of_nat (fl_size cfg);
                    data = fl_data cfg buf
                in if may_skip_ffs \<and> data = fo_ffs cfg then Some (Inr (next_offset, ops, may_skip_ffs, s))
                   else if offset = fo_erase_address cfg then Some (Inr (next_offset, ops, may_skip_ffs, s))
                   else let s = add_op (fwrite_op offset (fo_format cfg) (flip_bits cfg data)) s
                        in if next_offset mod fo_page_size cfg = 0
                           then and_then (next_cycle d program_decrement cfg s) (\<lambda>s. Some (Inr (next_offset, 0, True, s)))
                           else Some (Inr (next_offset, ops + 1, False, s)))
         (fo_address cfg, 0, True, s))
       (\<lambda>(_, ops, _, s). last_cycle d program_decrement ops s))"

fun verify_ops :: "flash_opts \<Rightarrow> fop list \<Rightarrow> 'w flash_st \<Rightarrow> 'w flash_st exits" where
  "verify_ops cfg [] s = Some (Inr s)"
| "verify_ops cfg (op # ops) s =
     (if fop_error op then Some (Inl 1)
      else let s = (if fs_last_offset s \<noteq> fop_address op
                    then s\<lparr>fs_last_offset := fop_address op, fs_pos := unat (fop_address op - fo_address cfg)\<rparr> else s);
               size = unat (fop_format op AND EB_DATAX)
           in case fread cfg size s of
                None \<Rightarrow> Some (Inl 1)
              | Some (buf, s) \<Rightarrow>
                  let s = s\<lparr>fs_last_offset := fs_last_offset s + of_nat size\<rparr>
                  in if fop_data op \<noteq> flip_bits cfg (fl_data cfg buf) then Some (Inl 1) else verify_ops cfg ops s)"

definition verify_decrement :: "flash_opts \<Rightarrow> 'w fcallback" where
  "verify_decrement cfg ops st s =
     (let s = s\<lparr>fs_inflight := fs_inflight s - 1\<rparr>
      in if st \<noteq> EB_OK then Some (Inl 1) else verify_ops cfg ops s)"

definition verify_flash :: "'w flash_dev \<Rightarrow> flash_opts \<Rightarrow> 'w flash_st \<Rightarrow> 'w flash_st exits" where
  "verify_flash d cfg s =
     and_then (open_cycle d (s\<lparr>fs_inflight := 0\<rparr>)) (\<lambda>s.
     and_then (repeat_while (\<lambda>(offset, st). offset \<noteq> fo_address cfg + fo_firmware_length cfg)
         (\<lambda>(offset, ops, s).
            let next_offset = offset + of_nat (fl_size cfg);
                s = add_op (fread_op offset (fo_format cfg)) s
            in if next_offset mod fo_page_size cfg = 0
               then and_then (next_cycle d (verify_decrement cfg) cfg s) (\<lambda>s. Some (Inr (next_offset, 0, s)))
               else Some (Inr (next_offset, ops + 1, s)))
         (fo_address cfg, 0, s))
       (\<lambda>(_, ops, s). last_cycle d (verify_decrement cfg) ops s))"

section \<open>The main program\<close>

text \<open>The largest data width that the device and the connection have in common.\<close>

definition pick_format :: "eb_width_t \<Rightarrow> eb_width_t \<Rightarrow> eb_format_t" where
  "pick_format line_width device_support =
     (let line_width = line_width AND EB_DATAX;
          line_width = line_width OR (line_width - 1);
          format = device_support AND line_width;
          format = format OR drop_bit 1 format;
          format = format OR drop_bit 2 format
      in ucast (drop_bit 1 (ucast format + 1 :: u32)))"

fun fill_0f :: "nat \<Rightarrow> eb_data_t \<Rightarrow> eb_data_t" where
  "fill_0f 0 m = m"
| "fill_0f (Suc n) m = fill_0f n (m OR push_bit 8 m)"

text \<open>What follows the option parser and the search for the device: the checks, the bitmap (an allocation of negative size is refused), and the work. The widths of the connection and
  of the device and the byte order asked for are arguments.\<close>

definition flash_work :: "'w flash_dev \<Rightarrow> flash_opts \<Rightarrow> 'w flash_st \<Rightarrow> 'w flash_st exits" where
  "flash_work d cfg s =
     (let cfg = cfg\<lparr>fo_ffs := drop_bit ((8 - fl_size cfg) * 8) (NOT 0), fo_mask_0f := fill_0f 8 0x0f\<rparr>
      in and_then (if fo_full cfg then Some (Inr (s\<lparr>fs_bitmap := replicate (length (fs_bitmap s)) 0xFF\<rparr>)) else quick_scan d cfg s) (\<lambda>s.
         and_then (erase_flash d cfg s) (\<lambda>s.
         and_then (program_flash d cfg s) (\<lambda>s.
         if fo_verify cfg then verify_flash d cfg s else Some (Inr s)))))"

definition flash_main :: "'w flash_dev \<Rightarrow> eb_width_t \<Rightarrow> eb_width_t \<Rightarrow> eb_format_t \<Rightarrow> flash_opts \<Rightarrow> 'w \<Rightarrow> 'w flash_st exits" where
  "flash_main d line_width device_support endian cfg w =
     (let firmware_length = of_nat (length (fo_firmware cfg));
          cfg = cfg\<lparr>fo_firmware_length := firmware_length\<rparr>;
          page = fo_page_size cfg
      in if page = 0 then None
         else if firmware_length mod page \<noteq> 0 then Some (Inl 1)
         else let bitmap_size = index_int (firmware_length div page div 8)
              in if bitmap_size < 0 then Some (Inl 1)
                 else if fo_address cfg mod page \<noteq> 0 then Some (Inl 1)
                 else let endian = (if endian = 0 then device_support AND EB_ENDIAN_MASK else endian);
                          format = pick_format line_width device_support
                      in if endian = 0 then Some (Inl 1)
                         else if format = 0 then Some (Inl 1)
                         else if page < ucast format then Some (Inl 1)
                         else let cfg = cfg\<lparr>fo_format := format OR endian\<rparr>;
                                  s = \<lparr>fs_w = w, fs_cycle = [], fs_queue = [], fs_inflight = 0, fs_bitmap = replicate (nat bitmap_size) 0,
                                       fs_pos = 0, fs_last_offset = -1, fs_user = 0\<rparr>
                              in if fo_sector_size cfg = 0
                                 then and_then (detect_sector_size d cfg s) (\<lambda>(sz, s). flash_work d (cfg\<lparr>fo_sector_size := sz\<rparr>) s)
                                 else flash_work d cfg s)"

end
