(* ===== verification/Flash_Calls.thy ===== *)
theory Flash_Calls
  imports Flash_Tool
begin

text \<open>
  What the flash programmer relies on: the laws of the link and of the memory chip, and a small logic for its loops.
  The locale \<open>cycle_user\<close> is the contract of a routine that keeps several cycles in flight and lets a
  callback digest them; scanning, programming and verifying are its interpretations.
\<close>

section \<open>Routines that return\<close>

definition ensures :: "'a exits \<Rightarrow> ('a \<Rightarrow> bool) \<Rightarrow> bool" where
  "ensures m P \<longleftrightarrow> (\<exists>a. m = Some (Inr a) \<and> P a)"

lemma ensures_Some [simp]: "ensures (Some (Inr a)) P \<longleftrightarrow> P a"
  by (simp add: ensures_def)

lemma ensures_mono: "ensures m P \<Longrightarrow> (\<And>a. P a \<Longrightarrow> Q a) \<Longrightarrow> ensures m Q"
  by (auto simp: ensures_def)

lemma ensures_conj: "ensures m P \<Longrightarrow> ensures m Q \<Longrightarrow> ensures m (\<lambda>a. P a \<and> Q a)"
  by (auto simp: ensures_def)

lemma and_then_simps [simp]:
  "and_then (Some (Inr a)) f = f a" "and_then (Some (Inl e)) f = Some (Inl e)" "and_then None f = None"
  by (simp_all add: and_then_def)

lemma ensures_and_then: "ensures m P \<Longrightarrow> (\<And>a. P a \<Longrightarrow> ensures (f a) Q) \<Longrightarrow> ensures (and_then m f) Q"
  by (auto simp: ensures_def)

lemma repeat_while_unfold: "c s \<Longrightarrow> repeat_while c body s = and_then (body s) (repeat_while c body)"
  by (subst repeat_while.simps) (simp add: and_then_def cong: sum.case_cong)

lemma repeat_while_stop: "\<not> c s \<Longrightarrow> repeat_while c body s = Some (Inr s)"
  by (subst repeat_while.simps) simp

lemma repeat_while_ensures:
  assumes "wf R" and "iv s"
    and step: "\<And>s. iv s \<Longrightarrow> c s \<Longrightarrow> ensures (body s) (\<lambda>s'. iv s' \<and> (s', s) \<in> R)"
    and stop: "\<And>s. iv s \<Longrightarrow> \<not> c s \<Longrightarrow> post s"
  shows "ensures (repeat_while c body s) post"
  using assms(1,2)
proof (induction s rule: wf_induct_rule)
  case (less s)
  show ?case
  proof (cases "c s")
    case True
    show ?thesis
      unfolding repeat_while_unfold [of c, OF True]
      by (rule ensures_and_then [OF step [OF less.prems True]]) (use less.IH in blast)
  qed (simp add: repeat_while_stop stop [OF less.prems])
qed

text \<open>A loop over equidistant 64-bit positions.\<close>

lemma unat_steps: "n * unat step < 2 ^ 64 \<Longrightarrow> i \<le> n \<Longrightarrow> unat (of_nat i * step :: u64) = i * unat step"
proof -
  assume "n * unat step < 2 ^ 64" "i \<le> n"
  then have "i * unat step < 2 ^ 64" by (meson le_less_trans mult_le_mono1)
  then show ?thesis by (simp add: unat_word_ariths unat_of_nat mod_mult_left_eq)
qed

lemma position_end:
  assumes "0 < unat step" "n * unat step < 2 ^ 64" "j \<le> n"
  shows "(first + of_nat j * step = (first + of_nat n * step :: u64)) = (j = n)"
proof -
  have u: "unat (of_nat i * step) = i * unat step" if "i \<le> n" for i
    by (rule unat_steps [OF assms(2) that])
  show ?thesis
  proof
    assume "first + of_nat j * step = first + of_nat n * step"
    then have "j * unat step = n * unat step" using u [OF assms(3)] u [of n] by (metis add_left_cancel order_refl)
    then show "j = n" using assms(1) by simp
  qed simp
qed

lemma positions_ensures:
  assumes "0 < unat step" "n * unat step < 2 ^ 64" "fin = first + of_nat n * step"
    and "iv 0 s"
    and step: "\<And>j s. j < n \<Longrightarrow> iv j s \<Longrightarrow> ensures (body (first + of_nat j * step, s)) (\<lambda>(x, s'). x = first + of_nat (Suc j) * step \<and> iv (Suc j) s')"
  shows "ensures (repeat_while (\<lambda>(x, s). x \<noteq> fin) body (first :: u64, s)) (\<lambda>(x, s). iv n s)"
proof (rule repeat_while_ensures [where R = "measure (\<lambda>(x, s). n - unat (x - first) div unat step)" and
      iv = "\<lambda>(x, s). \<exists>j \<le> n. x = first + of_nat j * step \<and> iv j s"])
  show "case (first, s) of (x, s) \<Rightarrow> \<exists>j \<le> n. x = first + of_nat j * step \<and> iv j s" using assms(4) by (auto intro: exI [of _ 0])
next
  fix t assume t: "case t of (x, s) \<Rightarrow> \<exists>j \<le> n. x = first + of_nat j * step \<and> iv j s" "case t of (x, s) \<Rightarrow> x \<noteq> fin"
  then obtain j s where j: "j < n" "t = (first + of_nat j * step, s)" "iv j s"
    unfolding assms(3) by (auto simp: le_less)
  have rank: "unat (of_nat i * step) div unat step = i" if "i \<le> n" for i
    using unat_steps [OF assms(2) that] assms(1) by simp
  show "ensures (body t) (\<lambda>s'. (case s' of (x, s) \<Rightarrow> \<exists>j \<le> n. x = first + of_nat j * step \<and> iv j s) \<and>
      (s', t) \<in> measure (\<lambda>(x, s). n - unat (x - first) div unat step))"
    unfolding j(2)
  proof (rule ensures_mono [OF step [OF j(1,3)]])
    fix a assume a: "case a of (x, s') \<Rightarrow> x = first + of_nat (Suc j) * step \<and> iv (Suc j) s'"
    obtain x s' where as: "a = (x, s')" by (cases a)
    show "(case a of (x, s) \<Rightarrow> \<exists>j \<le> n. x = first + of_nat j * step \<and> iv j s) \<and>
        (a, first + of_nat j * step, s) \<in> measure (\<lambda>(x, s). n - unat (x - first) div unat step)"
      using a j(1) rank [of j] rank [of "Suc j"] unfolding as
      by (auto simp del: of_nat_Suc intro!: exI [of _ "Suc j"])
  qed
next
  fix t assume "case t of (x, s) \<Rightarrow> \<exists>j \<le> n. x = first + of_nat j * step \<and> iv j s" "\<not> (case t of (x, s) \<Rightarrow> x \<noteq> fin)"
  then show "case t of (x, s) \<Rightarrow> iv n s"
    using position_end [OF assms(1,2)] unfolding assms(3) by auto
qed simp

section \<open>The link and the chip\<close>

text \<open>\<open>ch_mem\<close> gives the word at an address. The chip erases sectors of \<open>2 ^ ch_k\<close> bytes and decodes \<open>ch_bytes\<close> bytes of a
  sector's address; \<open>ch_busy\<close> bounds the number of polls that still find it busy.\<close>

record 'w flash_chip =
  ch_mem :: "'w \<Rightarrow> u64 \<Rightarrow> u64"
  ch_words :: "u64 set"
  ch_k :: nat
  ch_bytes :: nat
  ch_ones :: u64
  ch_busy :: "'w \<Rightarrow> nat"

text \<open>The library: without a failure of the network cycles open and finish without an error, the event loop makes progress while cycles
  are in flight, and a run with a timeout uses up time.\<close>

definition link_law :: "'w flash_dev \<Rightarrow> ('w \<Rightarrow> u64 \<Rightarrow> u64) \<Rightarrow> bool" where
  "link_law d mem \<longleftrightarrow>
     (\<forall>w. fst (fd_open d w) = EB_OK \<and> mem (snd (fd_open d w)) = mem w) \<and>
     (\<forall>w. fst (fd_block d w) = EB_OK \<and> mem (snd (fd_block d w)) = mem w) \<and>
     (\<forall>n t w. mem (snd (fd_run d n t w)) = mem w) \<and>
     (\<forall>n t w. length (snd (fst (fd_run d n t w))) \<le> n \<and> (\<forall>st \<in> set (snd (fst (fd_run d n t w))). st = EB_OK)) \<and>
     (\<forall>n > 0. wf {(snd (fd_run d n (-1) w), w) | w. snd (fst (fd_run d n (-1) w)) = []}) \<and>
     (\<forall>t > 0. \<forall>w. 0 \<le> fst (fst (fd_run d 0 t w))) \<and>
     wf {(snd (fd_run d 0 t w), w) | t w. 0 < t \<and> fst (fst (fd_run d 0 t w)) = 0}"

definition blank :: "'w flash_chip \<Rightarrow> (u64 \<Rightarrow> bool) \<Rightarrow> (u64 \<Rightarrow> u64) \<Rightarrow> u64 \<Rightarrow> u64" where
  "blank ch S m = (\<lambda>x. if x \<in> ch_words ch \<and> S x then ch_ones ch else m x)"

text \<open>Flash memory: a word written is combined with the old content, as programming only clears bits; the erase register tells by an error
  that the chip is busy, and does not stay busy for ever.\<close>

definition memory_law :: "'w flash_dev \<Rightarrow> 'w flash_chip \<Rightarrow> u8 \<Rightarrow> bool" where
  "memory_law d ch fmt \<longleftrightarrow>
     (\<forall>a \<in> ch_words ch. \<forall>w. fst (fd_read d a fmt w) = (ch_mem ch w a, False) \<and> ch_mem ch (snd (fd_read d a fmt w)) = ch_mem ch w) \<and>
     (\<forall>a \<in> ch_words ch. \<forall>v w. \<not> fst (fd_write d a fmt v w) \<and>
        ch_mem ch (snd (fd_write d a fmt v w)) = (ch_mem ch w)(a := ch_mem ch w a AND v))"

definition busy_law :: "'w flash_dev \<Rightarrow> 'w flash_chip \<Rightarrow> u64 \<Rightarrow> u8 \<Rightarrow> bool" where
  "busy_law d ch ea ctrl \<longleftrightarrow>
     (\<forall>w. ch_mem ch (snd (fd_read d ea ctrl w)) = ch_mem ch w \<and>
        (snd (fst (fd_read d ea ctrl w)) \<longrightarrow> ch_busy ch (snd (fd_read d ea ctrl w)) < ch_busy ch w)) \<and>
     (\<forall>n t w. ch_busy ch (snd (fd_run d n t w)) \<le> ch_busy ch w) \<and> (\<forall>w. ch_busy ch (snd (fd_block d w)) \<le> ch_busy ch w)"

text \<open>The erase command: the older controllers take the address of a sector, the newer ones pass commands to the chip, which
  wants its write enable command (6), and then the erase command (0xD8) with the bytes of the address.\<close>

fun put_all :: "'w flash_dev \<Rightarrow> u64 \<Rightarrow> u8 \<Rightarrow> u64 list \<Rightarrow> 'w \<Rightarrow> bool \<times> 'w" where
  "put_all d a f [] w = (False, w)"
| "put_all d a f (v # vs) w = (let (e, w) = fd_write d a f v w; (e', w) = put_all d a f vs w in (e \<or> e', w))"

definition address_of :: "u64 list \<Rightarrow> u64" where
  "address_of bs = foldl (\<lambda>x b. push_bit 8 x OR b) 0 bs"

definition erase_law :: "'w flash_dev \<Rightarrow> 'w flash_chip \<Rightarrow> u64 \<Rightarrow> u8 \<Rightarrow> bool \<Rightarrow> bool" where
  "erase_law d ch ea ctrl old \<longleftrightarrow>
     (if old then \<forall>a w. \<not> fst (fd_write d ea ctrl a w) \<and>
        ch_mem ch (snd (fd_write d ea ctrl a w)) = blank ch (\<lambda>x. drop_bit (ch_k ch) x = drop_bit (ch_k ch) a) (ch_mem ch w)
      else \<forall>bs w. length bs = ch_bytes ch \<longrightarrow> (\<forall>b \<in> set bs. b < 256) \<longrightarrow>
        (let (e, w') = put_all d ea ctrl ([0x6, 0x80000000, 0xD8] @ bs @ [0x80000000]) w
         in \<not> e \<and> ch_mem ch w' = blank ch (\<lambda>x. drop_bit (ch_k ch) (take_bit (8 * ch_bytes ch) x) = drop_bit (ch_k ch) (address_of bs)) (ch_mem ch w)))"

section \<open>Cycles\<close>

lemma memory_read:
  assumes "memory_law d ch fmt" "a \<in> ch_words ch" "fd_read d a fmt w = ((v, e), w1)"
  shows "v = ch_mem ch w a" "\<not> e" "ch_mem ch w1 = ch_mem ch w"
proof -
  have "fst (fd_read d a fmt w) = (ch_mem ch w a, False)" "ch_mem ch (snd (fd_read d a fmt w)) = ch_mem ch w"
    using assms(1,2) by (simp_all add: memory_law_def)
  then show "v = ch_mem ch w a" "\<not> e" "ch_mem ch w1 = ch_mem ch w" using assms(3) by simp_all
qed

lemma memory_write:
  assumes "memory_law d ch fmt" "a \<in> ch_words ch" "fd_write d a fmt v w = (e, w1)"
  shows "\<not> e" "ch_mem ch w1 = (ch_mem ch w)(a := ch_mem ch w a AND v)"
proof -
  have "\<not> fst (fd_write d a fmt v w)" "ch_mem ch (snd (fd_write d a fmt v w)) = (ch_mem ch w)(a := ch_mem ch w a AND v)"
    using assms(1,2) by (simp_all add: memory_law_def)
  then show "\<not> e" "ch_mem ch w1 = (ch_mem ch w)(a := ch_mem ch w a AND v)" using assms(3) by simp_all
qed

lemma perform_reads:
  assumes "memory_law d ch fmt"
  shows "\<forall>op \<in> set ops. \<not> fop_write op \<and> fop_format op = fmt \<and> fop_address op \<in> ch_words ch \<Longrightarrow>
    fst (perform d ops w) = map (\<lambda>op. op\<lparr>fop_data := ch_mem ch w (fop_address op), fop_error := False\<rparr>) ops \<and>
    ch_mem ch (snd (perform d ops w)) = ch_mem ch w"
proof (induction ops arbitrary: w)
  case (Cons op ops)
  obtain v e w1 where r: "fd_read d (fop_address op) (fop_format op) w = ((v, e), w1)" by (metis prod.exhaust)
  have "fop_address op \<in> ch_words ch" "fop_format op = fmt" using Cons.prems by simp_all
  then have "v = ch_mem ch w (fop_address op)" "\<not> e" "ch_mem ch w1 = ch_mem ch w"
    using memory_read [OF assms] r by metis+
  then show ?case using Cons.IH [of w1] Cons.prems r by (auto simp add: perform_op_def fun_upd_def split: prod.splits)
qed simp

definition after :: "fop list \<Rightarrow> (u64 \<Rightarrow> u64) \<Rightarrow> u64 \<Rightarrow> u64" where
  "after ops m = foldl (\<lambda>m op. m(fop_address op := m (fop_address op) AND fop_data op)) m ops"

lemma after_simps [simp]:
  "after [] m = m" "after (op # ops) m = after ops (m(fop_address op := m (fop_address op) AND fop_data op))"
  "after (ops @ ops') m = after ops' (after ops m)"
  by (simp_all add: after_def)

lemma perform_writes:
  assumes "memory_law d ch fmt"
  shows "\<forall>op \<in> set ops. fop_write op \<and> fop_format op = fmt \<and> fop_address op \<in> ch_words ch \<Longrightarrow>
    (\<forall>op \<in> set (fst (perform d ops w)). \<not> fop_error op) \<and> ch_mem ch (snd (perform d ops w)) = after ops (ch_mem ch w)"
proof (induction ops arbitrary: w)
  case (Cons op ops)
  obtain e w1 where r: "fd_write d (fop_address op) (fop_format op) (fop_data op) w = (e, w1)" by (metis prod.exhaust)
  have "fop_address op \<in> ch_words ch" "fop_format op = fmt" using Cons.prems by simp_all
  then have "\<not> e" "ch_mem ch w1 = (ch_mem ch w)(fop_address op := ch_mem ch w (fop_address op) AND fop_data op)"
    using memory_write [OF assms] r by metis+
  then show ?case using Cons.IH [of w1] Cons.prems r by (auto simp add: perform_op_def fun_upd_def split: prod.splits)
qed simp

lemma perform_put_all:
  "(\<exists>op \<in> set (fst (perform d (map (fwrite_op a f) vs) w)). fop_error op) = fst (put_all d a f vs w) \<and>
   snd (perform d (map (fwrite_op a f) vs) w) = snd (put_all d a f vs w)"
proof (induction vs arbitrary: w)
  case (Cons v vs)
  obtain e w1 where r: "fd_write d a f v w = (e, w1)" by (metis prod.exhaust)
  show ?case using Cons.IH [of w1] r by (auto simp: perform_op_def fwrite_op_def split: prod.splits)
qed simp

section \<open>Cycles in flight\<close>

locale cycle_user =
  fixes d :: "'w flash_dev" and cb :: "'w fcallback" and mem :: "'w \<Rightarrow> u64 \<Rightarrow> u64" and iv :: "'w flash_st \<Rightarrow> bool"
  assumes link: "iv s \<Longrightarrow> link_law d mem"
    and world: "iv s \<Longrightarrow> mem w = mem (fs_w s) \<Longrightarrow> iv (s\<lparr>fs_w := w\<rparr>)"
    and closed: "iv s \<Longrightarrow> iv (close_cycle s)"
    and counted: "iv s \<Longrightarrow> fs_inflight s = int (length (fs_queue s))"
    and digest: "iv s \<Longrightarrow> fs_queue s = c # q \<Longrightarrow> run_cycle d EB_OK c (fs_w s) = (st, c', w) \<Longrightarrow>
      ensures (cb c' st (s\<lparr>fs_w := w, fs_queue := q\<rparr>)) (\<lambda>s'. iv s' \<and> fs_queue s' = q \<and> fs_cycle s' = fs_cycle s)"
begin

lemma complete_ensures:
  "iv s \<Longrightarrow> length sts \<le> length (fs_queue s) \<Longrightarrow> \<forall>st \<in> set sts. st = EB_OK \<Longrightarrow>
   ensures (complete d cb sts s) (\<lambda>s'. iv s' \<and> fs_cycle s' = fs_cycle s \<and> length (fs_queue s') + length sts = length (fs_queue s))"
proof (induction sts arbitrary: s)
  case (Cons st sts)
  then obtain c q where q: "fs_queue s = c # q" by (cases "fs_queue s") auto
  obtain st' c' w where r: "run_cycle d EB_OK c (fs_w s) = (st', c', w)" by (metis prod.exhaust)
  have st: "st = EB_OK" using Cons.prems(3) by simp
  show ?case unfolding complete.simps q list.case st r Let_def prod.case
  proof (rule ensures_and_then [OF digest [OF Cons.prems(1) q r]])
    fix s' assume s': "iv s' \<and> fs_queue s' = q \<and> fs_cycle s' = fs_cycle s"
    show "ensures (complete d cb sts s')
       (\<lambda>s''. iv s'' \<and> fs_cycle s'' = fs_cycle s \<and> length (fs_queue s'') + length (EB_OK # sts) = length (c # q))"
      using s' Cons.prems(2,3) q by (intro ensures_mono [OF Cons.IH [of s']]) auto
  qed
qed simp

lemma run_ensures:
  assumes "iv s"
  shows "ensures (fl_socket_run d cb t s) (\<lambda>(used, s'). iv s' \<and> fs_cycle s' = fs_cycle s \<and>
    length (fs_queue s') + length (snd (fst (fd_run d (length (fs_queue s)) t (fs_w s)))) = length (fs_queue s) \<and>
    (snd (fst (fd_run d (length (fs_queue s)) t (fs_w s))) = [] \<longrightarrow> s' = s\<lparr>fs_w := snd (fd_run d (length (fs_queue s)) t (fs_w s))\<rparr>))"
proof -
  obtain u sts w where r: "fd_run d (length (fs_queue s)) t (fs_w s) = ((u, sts), w)" by (metis prod.exhaust)
  have "mem w = mem (fs_w s)" "length sts \<le> length (fs_queue s)" "\<forall>st \<in> set sts. st = EB_OK"
    using link [OF assms] r unfolding link_law_def by (metis snd_conv fst_conv)+
  then have "ensures (complete d cb sts (s\<lparr>fs_w := w\<rparr>)) (\<lambda>s'. (iv s' \<and> fs_cycle s' = fs_cycle s \<and>
      length (fs_queue s') + length sts = length (fs_queue s)) \<and> (sts = [] \<longrightarrow> s' = s\<lparr>fs_w := w\<rparr>))"
    using complete_ensures [OF world [OF assms], of w sts] by (cases sts) (auto elim!: ensures_mono)
  then show ?thesis unfolding fl_socket_run_def r Let_def prod.case by (rule ensures_and_then) auto
qed

lemma wait_ensures:
  assumes "iv s" "1 \<le> n"
  shows "ensures (wait_inflight d cb n s) (\<lambda>s'. iv s' \<and> fs_cycle s' = fs_cycle s \<and> length (fs_queue s') < nat n)"
proof -
  let ?R = "\<lambda>m. {(snd (fd_run d m (-1) w), w) | w. snd (fst (fd_run d m (-1) w)) = []}"
  let ?less = "{(s' :: 'w flash_st, s :: 'w flash_st). length (fs_queue s') < length (fs_queue s) \<or>
      length (fs_queue s') = length (fs_queue s) \<and> fs_queue s \<noteq> [] \<and> (fs_w s', fs_w s) \<in> ?R (length (fs_queue s))}"
  have "wf ?less"
    unfolding wf_iff_no_infinite_down_chain
  proof (rule notI, elim exE)
    fix f :: "nat \<Rightarrow> 'w flash_st" assume f': "\<forall>i. (f (Suc i), f i) \<in> ?less"
    then have f: "(f (Suc i), f i) \<in> ?less" for i by blast
    let ?q = "\<lambda>i. length (fs_queue (f i))"
    have mono: "?q (Suc i) \<le> ?q i" for i using f [of i] by auto
    obtain i0 where i0: "\<forall>i. ?q i0 \<le> ?q i"
      using ex_has_least_nat [of "\<lambda>_. True" 0 ?q] by auto
    have same: "?q (i0 + i) = ?q i0" for i
    proof (induction i)
      case (Suc i)
      then show ?case using mono [of "i0 + i"] i0 by (metis add_Suc_right le_antisym)
    qed simp
    have ne: "0 < ?q i0" using f [of i0] by auto
    have "wf (?R (?q i0))" using link [OF assms(1)] ne unfolding link_law_def by blast
    moreover have chain: "(fs_w (f (i0 + Suc i)), fs_w (f (i0 + i))) \<in> ?R (?q i0)" for i
      using f [of "i0 + i"] same [of i] same [of "Suc i"] by auto
    have "\<exists>g. \<forall>i. (g (Suc i), g i) \<in> ?R (?q i0)"
      by (rule exI [of _ "\<lambda>i. fs_w (f (i0 + i))"]) (use chain in blast)
    ultimately show False
      unfolding wf_iff_no_infinite_down_chain by blast
  qed
  then show ?thesis unfolding wait_inflight_def
  proof (rule repeat_while_ensures [where iv = "\<lambda>s'. iv s' \<and> fs_cycle s' = fs_cycle s"])
    fix t assume t: "iv t \<and> fs_cycle t = fs_cycle s" "n \<le> fs_inflight t"
    then have ne: "fs_queue t \<noteq> []" using counted [of t] assms(2) by auto
    show "ensures (and_then (fl_socket_run d cb (- 1) t) (\<lambda>(_, s). Some (Inr s)))
        (\<lambda>s'. (iv s' \<and> fs_cycle s' = fs_cycle s) \<and> (s', t) \<in> ?less)"
    proof (rule ensures_and_then [OF run_ensures])
      show "iv t" using t by simp
    next
      fix a assume a: "case a of (used, s') \<Rightarrow> iv s' \<and> fs_cycle s' = fs_cycle t \<and>
          length (fs_queue s') + length (snd (fst (fd_run d (length (fs_queue t)) (- 1) (fs_w t)))) = length (fs_queue t) \<and>
          (snd (fst (fd_run d (length (fs_queue t)) (- 1) (fs_w t))) = [] \<longrightarrow> s' = t\<lparr>fs_w := snd (fd_run d (length (fs_queue t)) (- 1) (fs_w t))\<rparr>)"
      obtain u s' where as: "a = (u, s')" by (cases a)
      have "(s', t) \<in> ?less"
      proof (cases "snd (fst (fd_run d (length (fs_queue t)) (- 1) (fs_w t))) = []")
        case True
        then have "s' = t\<lparr>fs_w := snd (fd_run d (length (fs_queue t)) (- 1) (fs_w t))\<rparr>" using a as by simp
        then show ?thesis using True ne by auto
      next
        case False
        then have "length (fs_queue s') < length (fs_queue t)" using a as by (auto simp: neq_Nil_conv)
        then show ?thesis by simp
      qed
      then show "ensures (case a of (uu_, s) \<Rightarrow> Some (Inr s)) (\<lambda>s'. (iv s' \<and> fs_cycle s' = fs_cycle s) \<and> (s', t) \<in> ?less)"
        using a as t(1) by simp
    qed
  next
    fix t assume "iv t \<and> fs_cycle t = fs_cycle s" "\<not> n \<le> fs_inflight t"
    then show "iv t \<and> fs_cycle t = fs_cycle s \<and> length (fs_queue t) < nat n" using counted [of t] assms(2) by auto
  qed (use assms in simp)
qed

end

lemma open_ensures:
  assumes "link_law d mem"
  shows "ensures (open_cycle d s) (\<lambda>s'. \<exists>w. mem w = mem (fs_w s) \<and> s' = s\<lparr>fs_w := w, fs_cycle := []\<rparr>)"
proof -
  obtain st w where r: "fd_open d (fs_w s) = (st, w)" by (metis prod.exhaust)
  have "st = EB_OK" "mem w = mem (fs_w s)" using assms r unfolding link_law_def by (metis fst_conv snd_conv)+
  then show ?thesis by (auto simp: open_cycle_def open_status_def r)
qed

context cycle_user
begin

lemma next_ensures:
  assumes "iv s" "1 \<le> fo_cycles_per_poll cfg"
  shows "ensures (next_cycle d cb cfg s) (\<lambda>s'. iv s' \<and> fs_cycle s' = [])"
proof -
  have c: "iv (close_cycle s)" "fs_cycle (close_cycle s) = []" using closed [OF assms(1)] by (simp_all add: close_cycle_def)
  show ?thesis unfolding next_cycle_def
  proof (rule ensures_and_then [OF open_ensures [OF link [OF assms(1)]]], elim exE conjE)
    fix s' w assume w: "mem w = mem (fs_w (close_cycle s))" "s' = close_cycle s\<lparr>fs_w := w, fs_cycle := []\<rparr>"
    then have s': "s' = close_cycle s\<lparr>fs_w := w\<rparr>" using c(2) by simp
    have "iv s'" unfolding s' by (rule world [OF c(1) w(1)])
    then show "ensures (wait_inflight d cb (fo_cycles_per_poll cfg) s') (\<lambda>s'. iv s' \<and> fs_cycle s' = [])"
      using c(2) s' by (intro ensures_mono [OF wait_ensures [OF _ assms(2)]]) auto
  qed
qed

lemma last_ensures:
  assumes "iv s" "ops = length (fs_cycle s)"
  shows "ensures (last_cycle d cb ops s) (\<lambda>s'. iv s' \<and> fs_cycle s' = [] \<and> fs_queue s' = [])"
proof -
  have "(if 0 < ops then close_cycle s else s\<lparr>fs_cycle := []\<rparr>) = (if 0 < ops then close_cycle s else s)"
    using assms(2) by auto
  moreover have "iv (if 0 < ops then close_cycle s else s)" "fs_cycle (if 0 < ops then close_cycle s else s) = []"
    using closed [OF assms(1)] assms by (auto simp: close_cycle_def)
  ultimately show ?thesis unfolding last_cycle_def
    by (intro ensures_mono [OF wait_ensures]) auto
qed

end

section \<open>Waiting and erasing\<close>

lemma blocking_OK:
  assumes "link_law d (ch_mem ch)"
  obtains w where "blocking d ops s = (let (st, ops, w) = run_cycle d EB_OK ops w in (st, ops, s\<lparr>fs_w := w\<rparr>))"
    and "ch_mem ch w = ch_mem ch (fs_w s)" and "w = snd (fd_block d (fs_w s))"
proof -
  obtain st w where r: "fd_block d (fs_w s) = (st, w)" by (metis prod.exhaust)
  have "st = EB_OK" "ch_mem ch w = ch_mem ch (fs_w s)" using assms r unfolding link_law_def by (metis fst_conv snd_conv)+
  then show ?thesis using that r by (simp add: blocking_def)
qed

lemma sleep_ensures:
  assumes L: "link_law d (ch_mem ch)" and B: "busy_law d ch ea ctrl" and q: "fs_queue s = []"
  shows "ensures (sleep_us d t s) (\<lambda>s'. \<exists>w. s' = s\<lparr>fs_w := w\<rparr> \<and> ch_mem ch w = ch_mem ch (fs_w s) \<and> ch_busy ch w \<le> ch_busy ch (fs_w s))"
proof -
  let ?R = "{(snd (fd_run d 0 t w), w) | t w. 0 < t \<and> fst (fst (fd_run d 0 t w)) = 0}"
  let ?S = "inv_image (less_than <*lex*> ?R) (\<lambda>(delay, s :: 'a flash_st). (nat delay, fs_w s))"
  let ?I = "\<lambda>(delay :: int, s'). \<exists>w. s' = s\<lparr>fs_w := w\<rparr> \<and> ch_mem ch w = ch_mem ch (fs_w s) \<and> ch_busy ch w \<le> ch_busy ch (fs_w s)"
  have "wf ?R" using L unfolding link_law_def by blast
  then have "wf ?S" by (intro wf_inv_image wf_lex_prod wf_less_than)
  then have "ensures (repeat_while (\<lambda>(delay, s). delay > 0)
      (\<lambda>(delay, s). and_then (fl_socket_run d no_callback delay s) (\<lambda>(used, s). Some (Inr (delay - used, s)))) (t, s)) ?I"
  proof (rule repeat_while_ensures [where iv = ?I])
    fix x assume "?I x" "case x of (delay, s) \<Rightarrow> delay > 0"
    then obtain delay w where x: "x = (delay, s\<lparr>fs_w := w\<rparr>)" "0 < delay" "ch_mem ch w = ch_mem ch (fs_w s)" "ch_busy ch w \<le> ch_busy ch (fs_w s)"
      by auto
    obtain used sts w' where r: "fd_run d 0 delay w = ((used, sts), w')" by (metis prod.exhaust)
    have "length (snd (fst (fd_run d 0 delay w))) \<le> 0" using L unfolding link_law_def by blast
    then have sts: "sts = []" using r by simp
    have "0 \<le> fst (fst (fd_run d 0 delay w))" "ch_mem ch (snd (fd_run d 0 delay w)) = ch_mem ch w"
      using L x(2) unfolding link_law_def by blast+
    then have u: "0 \<le> used" "ch_mem ch w' = ch_mem ch w" using r by simp_all
    have "ch_busy ch (snd (fd_run d 0 delay w)) \<le> ch_busy ch w" using B unfolding busy_law_def by blast
    then have b: "ch_busy ch w' \<le> ch_busy ch w" using r by simp
    have rel: "used = 0 \<Longrightarrow> (w', w) \<in> ?R" using r x(2) by (metis (mono_tags, lifting) fst_conv mem_Collect_eq snd_conv)
    have run: "fl_socket_run d no_callback delay (s\<lparr>fs_w := w\<rparr>) = Some (Inr (used, s\<lparr>fs_w := w'\<rparr>))"
      by (simp add: fl_socket_run_def q r sts)
    show "ensures (case x of (delay, s) \<Rightarrow> and_then (fl_socket_run d no_callback delay s) (\<lambda>(used, s). Some (Inr (delay - used, s))))
        (\<lambda>x'. ?I x' \<and> (x', x) \<in> ?S)"
      unfolding x(1) prod.case run and_then_simps ensures_Some
      using x(2-4) u b rel by (cases "used = 0") (auto intro: exI [of _ w'])
  qed (auto intro: exI [of _ "fs_w s"])
  then show ?thesis unfolding sleep_us_def by (rule ensures_and_then) auto
qed

lemma busy_ensures:
  assumes L: "link_law d (ch_mem ch)" and B: "busy_law d ch (fo_erase_address cfg) (fl_control cfg)" and q: "fs_queue s = []"
  shows "ensures (wait_for_busy d cfg t s) (\<lambda>s'. \<exists>w. s' = s\<lparr>fs_w := w\<rparr> \<and> ch_mem ch w = ch_mem ch (fs_w s))"
proof -
  let ?I = "\<lambda>(st :: eb_status_t, s'). \<exists>w. s' = s\<lparr>fs_w := w\<rparr> \<and> ch_mem ch w = ch_mem ch (fs_w s)"
  let ?m = "\<lambda>(st :: eb_status_t, s' :: 'a flash_st). if st = EB_SEGFAULT then Suc (ch_busy ch (fs_w s')) else 0"
  let ?body = "\<lambda>(_ :: eb_status_t, s). and_then (sleep_us d t s) (\<lambda>s.
      let (st, _, s) = blocking d [fread_op (fo_erase_address cfg) (fl_control cfg)] s
      in if st \<noteq> EB_OK \<and> st \<noteq> EB_SEGFAULT then Some (Inl 1) else Some (Inr (st, s)))"
  have "ensures (repeat_while (\<lambda>(st, s). st = EB_SEGFAULT) ?body (EB_SEGFAULT, s)) ?I"
  proof (rule repeat_while_ensures [where iv = ?I and R = "measure ?m"])
    fix x assume "?I x" "case x of (st, s) \<Rightarrow> st = EB_SEGFAULT"
    then obtain w where x: "x = (EB_SEGFAULT, s\<lparr>fs_w := w\<rparr>)" "ch_mem ch w = ch_mem ch (fs_w s)" by auto
    have q': "fs_queue (s\<lparr>fs_w := w\<rparr>) = []" using q by simp
    show "ensures (?body x) (\<lambda>x'. ?I x' \<and> (x', x) \<in> measure ?m)"
      unfolding x(1) prod.case
    proof (rule ensures_and_then [OF sleep_ensures [OF L B q']], elim exE conjE)
      fix s1 w1 assume s1: "s1 = s\<lparr>fs_w := w, fs_w := w1\<rparr>" "ch_mem ch w1 = ch_mem ch (fs_w (s\<lparr>fs_w := w\<rparr>))"
        "ch_busy ch w1 \<le> ch_busy ch (fs_w (s\<lparr>fs_w := w\<rparr>))"
      obtain w2 where w2: "blocking d [fread_op (fo_erase_address cfg) (fl_control cfg)] s1 =
          (let (st, ops, w) = run_cycle d EB_OK [fread_op (fo_erase_address cfg) (fl_control cfg)] w2 in (st, ops, s1\<lparr>fs_w := w\<rparr>))"
        "ch_mem ch w2 = ch_mem ch (fs_w s1)" "w2 = snd (fd_block d (fs_w s1))"
        by (rule blocking_OK [OF L])
      obtain v e w3 where r: "fd_read d (fo_erase_address cfg) (fl_control cfg) w2 = ((v, e), w3)" by (metis prod.exhaust)
      have "ch_busy ch w2 \<le> ch_busy ch w1" using B s1(1) w2(3) unfolding busy_law_def by simp
      moreover have "ch_mem ch (snd (fd_read d (fo_erase_address cfg) (fl_control cfg) w2)) = ch_mem ch w2"
        "snd (fst (fd_read d (fo_erase_address cfg) (fl_control cfg) w2)) \<longrightarrow>
           ch_busy ch (snd (fd_read d (fo_erase_address cfg) (fl_control cfg) w2)) < ch_busy ch w2"
        using B unfolding busy_law_def by blast+
      then have m3: "ch_mem ch w3 = ch_mem ch w2" "e \<Longrightarrow> ch_busy ch w3 < ch_busy ch w2" using r by simp_all
      moreover have run: "run_cycle d EB_OK [fread_op (fo_erase_address cfg) (fl_control cfg)] w2 =
          (if e then EB_SEGFAULT else EB_OK, [(fread_op (fo_erase_address cfg) (fl_control cfg))\<lparr>fop_data := v, fop_error := e\<rparr>], w3)"
        using r by (simp add: run_cycle_def perform_op_def fread_op_def)
      ultimately show "ensures (let (st, _, s) = blocking d [fread_op (fo_erase_address cfg) (fl_control cfg)] s1
            in if st \<noteq> EB_OK \<and> st \<noteq> EB_SEGFAULT then Some (Inl 1) else Some (Inr (st, s)))
          (\<lambda>x'. ?I x' \<and> (x', EB_SEGFAULT, s\<lparr>fs_w := w\<rparr>) \<in> measure ?m)"
        using s1 w2(2) x(2) unfolding w2(1) run by (cases e) (auto intro!: exI [of _ w3])
    qed
  qed (auto intro: exI [of _ "fs_w s"])
  then show ?thesis unfolding wait_for_busy_def by (rule ensures_and_then) auto
qed

text \<open>The bytes of the erase command are those of the sector's address.\<close>

lemma address_of_bytes:
  "address_of [drop_bit 16 x AND 0xFF, drop_bit 8 x AND 0xFF, drop_bit 0 x AND 0xFF] = take_bit 24 x"
  "address_of [drop_bit 24 x AND 0xFF, drop_bit 16 x AND 0xFF, drop_bit 8 x AND 0xFF, drop_bit 0 x AND 0xFF] = take_bit 32 x"
proof -
  have m: "(0xFF :: u64) = mask 8" by (simp add: mask_eq_exp_minus_1)
  show "address_of [drop_bit 16 x AND 0xFF, drop_bit 8 x AND 0xFF, drop_bit 0 x AND 0xFF] = take_bit 24 x"
    unfolding m address_of_def foldl.simps
    by (rule bit_word_eqI, rename_tac n) (case_tac "n < 8"; case_tac "n < 16"; case_tac "n < 24"; auto simp: bit_simps not_less)
  show "address_of [drop_bit 24 x AND 0xFF, drop_bit 16 x AND 0xFF, drop_bit 8 x AND 0xFF, drop_bit 0 x AND 0xFF] = take_bit 32 x"
    unfolding m address_of_def foldl.simps
    by (rule bit_word_eqI, rename_tac n) (case_tac "n < 8"; case_tac "n < 16"; case_tac "n < 24"; auto simp: bit_simps not_less)
qed

lemma and_FF_less: "x AND 0xFF < (256 :: u64)"
proof -
  have "x AND 0xFF = take_bit 8 x" by (simp add: take_bit_eq_mask mask_numeral)
  then show ?thesis by (simp add: word_less_nat_alt unsigned_take_bit_eq take_bit_nat_less_exp [of 8, simplified])
qed

lemma same_high_bits:
  fixes x y :: u64
  assumes "drop_bit n x = drop_bit n y" "k \<le> n"
  shows "drop_bit k (take_bit n x) = drop_bit k (take_bit n y) \<longleftrightarrow> drop_bit k x = drop_bit k y"
proof
  assume low: "drop_bit k (take_bit n x) = drop_bit k (take_bit n y)"
  show "drop_bit k x = drop_bit k y"
  proof (rule bit_word_eqI)
    fix i
    show "bit (drop_bit k x) i = bit (drop_bit k y) i"
    proof (cases "k + i < n")
      case True
      then show ?thesis using arg_cong [OF low, of "\<lambda>z. bit z i"] by (simp add: bit_simps)
    next
      case False
      then show ?thesis using arg_cong [OF assms(1), of "\<lambda>z. bit z (k + i - n)"] assms(2) by (simp add: bit_simps)
    qed
  qed
next
  assume "drop_bit k x = drop_bit k y"
  then show "drop_bit k (take_bit n x) = drop_bit k (take_bit n y)" by (simp add: drop_bit_take_bit)
qed

lemma erase_ensures:
  assumes L: "link_law d (ch_mem ch)" and B: "busy_law d ch (fo_erase_address cfg) (fl_control cfg)"
    and E: "erase_law d ch (fo_erase_address cfg) (fl_control cfg) (fo_old_erase cfg)"
    and bytes: "ch_bytes ch = (if drop_bit 24 (fo_erase_address cfg - fo_address cfg) \<noteq> 0 then 4 else 3)" "ch_k ch \<le> 8 * ch_bytes ch"
    and high: "\<forall>x \<in> ch_words ch. drop_bit (8 * ch_bytes ch) x = drop_bit (8 * ch_bytes ch) sector"
    and q: "fs_queue s = []" "fs_cycle s = []"
  shows "ensures (erase_and_wait d cfg sector s) (\<lambda>s'. \<exists>w. s' = s\<lparr>fs_w := w\<rparr> \<and>
    ch_mem ch w = blank ch (\<lambda>x. drop_bit (ch_k ch) x = drop_bit (ch_k ch) sector) (ch_mem ch (fs_w s)))"
proof -
  let ?wr = "fwrite_op (fo_erase_address cfg) (fl_control cfg)"
  let ?vs = "if fo_old_erase cfg then [sector] else erase_command cfg sector"
  let ?m = "blank ch (\<lambda>x. drop_bit (ch_k ch) x = drop_bit (ch_k ch) sector)"
  have put: "\<not> fst (put_all d (fo_erase_address cfg) (fl_control cfg) ?vs w) \<and>
      ch_mem ch (snd (put_all d (fo_erase_address cfg) (fl_control cfg) ?vs w)) = ?m (ch_mem ch w)" for w
  proof (cases "fo_old_erase cfg")
    case True
    then have "\<not> fst (fd_write d (fo_erase_address cfg) (fl_control cfg) sector w) \<and>
        ch_mem ch (snd (fd_write d (fo_erase_address cfg) (fl_control cfg) sector w)) = ?m (ch_mem ch w)"
      using E unfolding erase_law_def by simp
    with True show ?thesis by (simp split: prod.splits)
  next
    case False
    define bs where "bs = (if drop_bit 24 (fo_erase_address cfg - fo_address cfg) \<noteq> 0 then [drop_bit 24 sector AND 0xFF] else []) @
      [drop_bit 16 sector AND 0xFF, drop_bit 8 sector AND 0xFF, drop_bit 0 sector AND 0xFF]"
    have vs: "?vs = [0x6, 0x80000000, 0xD8] @ bs @ [0x80000000]" using False by (simp add: erase_command_def bs_def)
    have bs: "length bs = ch_bytes ch" "\<forall>b \<in> set bs. b < 256" "address_of bs = take_bit (8 * ch_bytes ch) sector"
      using bytes(1) address_of_bytes [of sector] and_FF_less by (auto simp: bs_def simp del: drop_bit_0 drop_bit_of_0)
    have "\<not> fst (put_all d (fo_erase_address cfg) (fl_control cfg) ?vs w) \<and>
        ch_mem ch (snd (put_all d (fo_erase_address cfg) (fl_control cfg) ?vs w)) =
          blank ch (\<lambda>x. drop_bit (ch_k ch) (take_bit (8 * ch_bytes ch) x) = drop_bit (ch_k ch) (address_of bs)) (ch_mem ch w)"
      using E False bs(1,2) unfolding erase_law_def vs by (fastforce simp: Let_def split_beta)
    moreover have "drop_bit (ch_k ch) (take_bit (8 * ch_bytes ch) x) = drop_bit (ch_k ch) (address_of bs) \<longleftrightarrow> drop_bit (ch_k ch) x = drop_bit (ch_k ch) sector"
      if "x \<in> ch_words ch" for x
      unfolding bs(3) by (rule same_high_bits) (use high that bytes(2) in auto)
    ultimately show ?thesis by (auto simp: blank_def fun_eq_iff)
  qed
  have run: "run_cycle d EB_OK (map ?wr ?vs) w =
      (EB_OK, fst (perform d (map ?wr ?vs) w), snd (put_all d (fo_erase_address cfg) (fl_control cfg) ?vs w))" for w
    using perform_put_all [of d "fo_erase_address cfg" "fl_control cfg" ?vs w] put [of w] by (auto simp: run_cycle_def split_beta)
  have erase: "\<exists>w. erase_sector d cfg sector s = (EB_OK, s\<lparr>fs_w := w\<rparr>) \<and> ch_mem ch w = ?m (ch_mem ch (fs_w s))"
  proof -
    obtain s1 where s1: "erase_sector d cfg sector s = (let (st, _, s) = blocking d (map ?wr ?vs) s1 in (st, s))"
      "\<exists>w. s1 = s\<lparr>fs_w := w\<rparr> \<and> ch_mem ch w = ch_mem ch (fs_w s)"
    proof (cases "fo_old_erase cfg")
      case True
      then show ?thesis by (intro that [of s]) (auto simp: erase_sector_def intro: exI [of _ "fs_w s"])
    next
      case False
      obtain st w where r: "fd_open d (fs_w s) = (st, w)" by (metis prod.exhaust)
      have "st = EB_OK" "ch_mem ch w = ch_mem ch (fs_w s)" using L r unfolding link_law_def by (metis fst_conv snd_conv)+
      moreover have "s\<lparr>fs_w := w, fs_cycle := []\<rparr> = s\<lparr>fs_w := w\<rparr>" using q(2) by (cases s) simp
      ultimately show ?thesis using False by (intro that [of "s\<lparr>fs_w := w\<rparr>"]) (auto simp: erase_sector_def open_status_def r)
    qed
    then obtain w1 where w1: "s1 = s\<lparr>fs_w := w1\<rparr>" "ch_mem ch w1 = ch_mem ch (fs_w s)" by blast
    obtain w2 where w2: "blocking d (map ?wr ?vs) s1 = (let (st, ops, w) = run_cycle d EB_OK (map ?wr ?vs) w2 in (st, ops, s1\<lparr>fs_w := w\<rparr>))"
      "ch_mem ch w2 = ch_mem ch (fs_w s1)"
      by (rule blocking_OK [OF L])
    show ?thesis using put [of w2] w1 w2(2) unfolding s1(1) w2(1) run by auto
  qed
  then obtain w where w: "erase_sector d cfg sector s = (EB_OK, s\<lparr>fs_w := w\<rparr>)" "ch_mem ch w = ?m (ch_mem ch (fs_w s))" by blast
  show ?thesis
    using busy_ensures [OF L B, of "s\<lparr>fs_w := w\<rparr>"] q w(2)
    by (auto simp: erase_and_wait_def w(1) elim!: ensures_mono)
qed

end
