(* ===== verification/Flash_Scan.thy ===== *)
theory Flash_Scan
  imports Flash_Calls
begin

text \<open>
  The setting of the flash programmer, its bitmap, and the quick scan: afterwards every sector is either marked or blank.
\<close>

section \<open>The setting\<close>

definition word_addr :: "flash_opts \<Rightarrow> nat \<Rightarrow> u64" where
  "word_addr cfg off = fo_address cfg + of_nat off"

text \<open>The firmware occupies the \<open>n\<close> sectors from its address on, which is the start of a sector; these sectors belong to the chip, and the
  erase register does not lie in the firmware.\<close>

definition flash_setting :: "'w flash_dev \<Rightarrow> 'w flash_chip \<Rightarrow> flash_opts \<Rightarrow> nat \<Rightarrow> bool" where
  "flash_setting d ch cfg n \<longleftrightarrow>
     link_law d (ch_mem ch) \<and> memory_law d ch (fo_format cfg) \<and> busy_law d ch (fo_erase_address cfg) (fl_control cfg) \<and>
     erase_law d ch (fo_erase_address cfg) (fl_control cfg) (fo_old_erase cfg) \<and>
     ch_bytes ch = (if drop_bit 24 (fo_erase_address cfg - fo_address cfg) \<noteq> 0 then 4 else 3) \<and>
     fl_size cfg \<in> {1, 2, 4, 8} \<and> ch_ones ch = mask (8 * fl_size cfg) \<and> fo_ffs cfg = ch_ones ch \<and>
     3 \<le> ch_k ch \<and> ch_k ch \<le> 24 \<and> fo_sector_size cfg = 2 ^ ch_k ch \<and> 2 ^ ch_k ch dvd unat (fo_address cfg) \<and>
     n = (unat (fo_firmware_length cfg) + 2 ^ ch_k ch - 1) div 2 ^ ch_k ch \<and> unat (fo_address cfg) + n * 2 ^ ch_k ch < 2 ^ 64 \<and> n < 2 ^ 31 \<and>
     fo_firmware_length cfg = of_nat (length (fo_firmware cfg)) \<and> length (fo_firmware cfg) < 2 ^ 64 \<and> fl_size cfg dvd length (fo_firmware cfg) \<and>
     (\<forall>off < n * 2 ^ ch_k ch. fl_size cfg dvd off \<longrightarrow> word_addr cfg off \<in> ch_words ch) \<and>
     (\<forall>off < length (fo_firmware cfg). word_addr cfg off \<noteq> fo_erase_address cfg) \<and>
     (\<forall>x \<in> ch_words ch. \<forall>y \<in> ch_words ch. drop_bit (8 * ch_bytes ch) x = drop_bit (8 * ch_bytes ch) y) \<and>
     1 \<le> fo_cycles_per_poll cfg"

lemma setting_facts:
  assumes "flash_setting d ch cfg n"
  shows "link_law d (ch_mem ch)" "memory_law d ch (fo_format cfg)" "busy_law d ch (fo_erase_address cfg) (fl_control cfg)"
    "erase_law d ch (fo_erase_address cfg) (fl_control cfg) (fo_old_erase cfg)"
    "ch_bytes ch = (if drop_bit 24 (fo_erase_address cfg - fo_address cfg) \<noteq> 0 then 4 else 3)"
    "fl_size cfg \<in> {1, 2, 4, 8}" "ch_ones ch = mask (8 * fl_size cfg)" "fo_ffs cfg = ch_ones ch" "3 \<le> ch_k ch" "ch_k ch \<le> 24"
    "fo_sector_size cfg = 2 ^ ch_k ch" "2 ^ ch_k ch dvd unat (fo_address cfg)"
    "n = (unat (fo_firmware_length cfg) + 2 ^ ch_k ch - 1) div 2 ^ ch_k ch" "unat (fo_address cfg) + n * 2 ^ ch_k ch < 2 ^ 64" "n < 2 ^ 31"
    "fo_firmware_length cfg = of_nat (length (fo_firmware cfg))" "length (fo_firmware cfg) < 2 ^ 64" "fl_size cfg dvd length (fo_firmware cfg)"
    "\<And>off. off < n * 2 ^ ch_k ch \<Longrightarrow> fl_size cfg dvd off \<Longrightarrow> word_addr cfg off \<in> ch_words ch"
    "\<And>off. off < length (fo_firmware cfg) \<Longrightarrow> word_addr cfg off \<noteq> fo_erase_address cfg"
    "\<And>x y. x \<in> ch_words ch \<Longrightarrow> y \<in> ch_words ch \<Longrightarrow> drop_bit (8 * ch_bytes ch) x = drop_bit (8 * ch_bytes ch) y"
    "1 \<le> fo_cycles_per_poll cfg"
  using assms unfolding flash_setting_def by blast+

lemma of_unat: "unat (x :: u64) = a \<Longrightarrow> of_nat a = x"
  by auto

lemma unat_word_addr:
  assumes "flash_setting d ch cfg n" "off \<le> n * 2 ^ ch_k ch"
  shows "unat (word_addr cfg off) = unat (fo_address cfg) + off"
proof -
  have "unat (fo_address cfg) + off < 2 ^ 64" using setting_facts(14) [OF assms(1)] assms(2) by linarith
  then show ?thesis by (simp add: word_addr_def unat_word_ariths unat_of_nat)
qed

lemma word_addr_inj:
  assumes "flash_setting d ch cfg n" "o1 \<le> n * 2 ^ ch_k ch" "o2 \<le> n * 2 ^ ch_k ch"
  shows "word_addr cfg o1 = word_addr cfg o2 \<longleftrightarrow> o1 = o2"
  using unat_word_addr [OF assms(1,2)] unat_word_addr [OF assms(1,3)] by (metis add_left_cancel)

lemma word_addr_add: "word_addr cfg o1 + of_nat o2 = word_addr cfg (o1 + o2)"
  by (simp add: word_addr_def)

lemma size_dvd_sector:
  assumes "flash_setting d ch cfg n"
  shows "fl_size cfg dvd 2 ^ ch_k ch" "fl_size cfg dvd 8" "0 < fl_size cfg" "fl_size cfg \<le> 8"
proof -
  show "fl_size cfg dvd 8" using setting_facts(6) [OF assms] by auto
  have "(2 :: nat) ^ 3 dvd 2 ^ ch_k ch" using setting_facts(9) [OF assms] by (rule le_imp_power_dvd)
  then have "8 dvd (2 :: nat) ^ ch_k ch" by simp
  then show "fl_size cfg dvd 2 ^ ch_k ch" using \<open>fl_size cfg dvd 8\<close> by (rule dvd_trans [rotated])
qed (use setting_facts(6) [OF assms] in auto)

lemma unat_pow2: "k < 64 \<Longrightarrow> unat (2 ^ k :: u64) = 2 ^ k"
proof -
  assume "k < 64"
  then have "(2 :: nat) ^ k < 2 ^ 64" by (intro power_strict_increasing) auto
  moreover have "unat (of_nat (2 ^ k) :: u64) = 2 ^ k mod 2 ^ 64" by (simp add: unat_of_nat del: of_nat_power)
  ultimately show ?thesis by simp
qed

lemma unat_sector_size: "flash_setting d ch cfg n \<Longrightarrow> unat (fo_sector_size cfg) = 2 ^ ch_k ch"
  by (frule setting_facts(10), drule setting_facts(11)) (simp add: unat_pow2)

lemma length_le_sectors:
  assumes "flash_setting d ch cfg n"
  shows "length (fo_firmware cfg) \<le> n * 2 ^ ch_k ch" "unat (fo_firmware_length cfg) = length (fo_firmware cfg)"
proof -
  show u: "unat (fo_firmware_length cfg) = length (fo_firmware cfg)"
    using setting_facts(16,17) [OF assms] by (simp add: unat_of_nat)
  let ?L = "length (fo_firmware cfg)" and ?S = "2 ^ ch_k ch :: nat"
  have "n = (?L + ?S - 1) div ?S" using setting_facts(13) [OF assms] u by simp
  moreover have "?L + ?S - 1 < ((?L + ?S - 1) div ?S) * ?S + ?S"
    using dividend_less_div_times [of ?S "?L + ?S - 1"] by simp
  ultimately have "?L + ?S - 1 < n * ?S + ?S" by simp
  then show "?L \<le> n * ?S" by simp
qed

lemma sectors:
  assumes S: "flash_setting d ch cfg n"
  shows "first_sector cfg = fo_address cfg" "last_sector cfg = fo_address cfg + of_nat n * fo_sector_size cfg"
proof -
  let ?A = "unat (fo_address cfg)" and ?S = "2 ^ ch_k ch :: nat" and ?L = "length (fo_firmware cfg)"
  have s: "unat (fo_sector_size cfg) = ?S" by (rule unat_sector_size [OF S])
  have A: "?S dvd ?A" "?A + n * ?S < 2 ^ 64" using setting_facts(12,14) [OF S] by auto
  obtain a where a: "?A = ?S * a" using A(1) by (auto elim!: dvdE)
  have addr: "of_nat a * fo_sector_size cfg = fo_address cfg"
    using of_unat [OF a] of_unat [OF s] by (simp only: of_nat_mult mult.commute)
  have "unat (fo_address cfg div fo_sector_size cfg) = a" by (simp add: unat_div_distrib s a)
  from of_unat [OF this] addr show "first_sector cfg = fo_address cfg" unfolding first_sector_def by simp
  have n: "n = (?L + ?S - 1) div ?S" using setting_facts(13) [OF S] length_le_sectors(2) [OF S] by simp
  have P: "0 < ?S" by simp
  have "?S dvd 2 ^ 64" using setting_facts(10) [OF S] by (intro le_imp_power_dvd) simp
  then obtain b where "2 ^ 64 = ?S * b" by (elim dvdE)
  note ab = a this
  then have "?S * (a + n) < ?S * b" using A(2) by (simp add: algebra_simps)
  then have "a + n + 1 \<le> b" by simp
  then have "?S * (a + n + 1) \<le> ?S * b" by (rule mult_le_mono2)
  then have "?A + n * ?S + ?S \<le> 2 ^ 64" unfolding ab by (simp add: algebra_simps)
  then have lt: "?A + ?L + (?S - 1) < 2 ^ 64" using length_le_sectors(1) [OF S] P by linarith
  have "of_nat (?A + ?L + (?S - 1)) = fo_address cfg + fo_firmware_length cfg + (fo_sector_size cfg - 1)"
  proof -
    have "of_nat (?S - 1) = fo_sector_size cfg - 1" by (simp add: of_nat_diff setting_facts(11) [OF S])
    then show ?thesis by (simp only: of_nat_add of_nat_unat ucast_id setting_facts(16) [OF S])
  qed
  moreover have "unat (of_nat (?A + ?L + (?S - 1)) :: u64) = ?A + ?L + (?S - 1)"
    using lt by (simp add: unat_of_nat del: of_nat_add)
  ultimately have "unat (fo_address cfg + fo_firmware_length cfg + (fo_sector_size cfg - 1)) = ?A + ?L + (?S - 1)" by simp
  then have u: "unat (fo_address cfg + fo_firmware_length cfg + fo_sector_size cfg - 1) = ?A + ?L + (?S - 1)"
    by (simp add: add_diff_eq)
  have "(?A + ?L + (?S - 1)) div ?S = a + n" unfolding ab(1) n using P by (simp add: add.assoc)
  then have "unat ((fo_address cfg + fo_firmware_length cfg + fo_sector_size cfg - 1) div fo_sector_size cfg) = a + n"
    by (simp only: unat_div_distrib u s)
  from of_unat [OF this] have "last_sector cfg = of_nat (a + n) * fo_sector_size cfg" unfolding last_sector_def by (simp only:)
  with addr show "last_sector cfg = fo_address cfg + of_nat n * fo_sector_size cfg" by (simp add: algebra_simps)
qed

section \<open>The bitmap\<close>

definition sector_marked :: "u8 list \<Rightarrow> nat \<Rightarrow> bool" where
  "sector_marked bm i = bit (bm ! (i div 8)) (i mod 8)"

lemma bitmask_get_marked: "i < 8 * length bm \<Longrightarrow> bitmask_get bm (int i) = Some (sector_marked bm i)"
proof -
  assume i: "i < 8 * length bm"
  have d: "c_div8 (int i) = int (i div 8)" "nat (int i mod 8) = i mod 8" by (simp_all add: c_div8_def zdiv_int nat_mod_distrib)
  have "(drop_bit n b AND 1 \<noteq> 0) = bit b n" for b :: u8 and n by (simp add: and_one_eq bit_iff_odd_drop_bit odd_iff_mod_2_eq_one)
  then show ?thesis using i by (simp add: bitmask_get_def d sector_marked_def less_mult_imp_div_less mult.commute)
qed

lemma bitmask_set_marked:
  assumes "i < 8 * length bm"
  obtains bm' where "bitmask_set bm (int i) True = Some bm'" "length bm' = length bm" "\<And>j. sector_marked bm' j \<longleftrightarrow> j = i \<or> sector_marked bm j"
proof -
  have d: "c_div8 (int i) = int (i div 8)" "nat (int i mod 8) = i mod 8" by (simp_all add: c_div8_def zdiv_int nat_mod_distrib)
  have k: "i div 8 < length bm" using assms by (simp add: less_mult_imp_div_less mult.commute)
  define bm' where "bm' = bm[i div 8 := (bm ! (i div 8) AND NOT (push_bit (i mod 8) 1)) OR push_bit (i mod 8) 1]"
  have "sector_marked bm' j \<longleftrightarrow> j = i \<or> sector_marked bm j" for j
  proof (cases "j div 8 = i div 8")
    case True
    have "j mod 8 < 8" "i mod 8 < 8" by simp_all
    moreover have "j = i \<longleftrightarrow> j mod 8 = i mod 8" using True by (metis div_mult_mod_eq)
    ultimately show ?thesis using True k by (auto simp: sector_marked_def bm'_def bit_simps)
  next
    case False
    then show ?thesis using k by (auto simp: sector_marked_def bm'_def)
  qed
  then show ?thesis using k by (intro that [of bm']) (auto simp: bitmask_set_def d bm'_def Let_def)
qed

section \<open>The quick scan\<close>

definition pend :: "'w flash_st \<Rightarrow> fop list" where
  "pend s = concat (fs_queue s) @ fs_cycle s"

lemma pend_close [simp]: "pend (close_cycle s) = pend s"
  by (simp add: pend_def close_cycle_def)

lemma pend_add [simp]: "pend (add_op op s) = pend s @ [op]"
  by (simp add: pend_def add_op_def)

text \<open>The scan of the memory \<open>m\<close>: the words at the offsets \<open>C\<close> are dealt with: their sector is marked, or they are blank, or
  their reading is under way.\<close>

definition scan_inv :: "'w flash_dev \<Rightarrow> 'w flash_chip \<Rightarrow> flash_opts \<Rightarrow> nat \<Rightarrow> (u64 \<Rightarrow> u64) \<Rightarrow> nat set \<Rightarrow> 'w flash_st \<Rightarrow> bool" where
  "scan_inv d ch cfg n m C s \<longleftrightarrow>
     flash_setting d ch cfg n \<and> ch_mem ch (fs_w s) = m \<and> fs_inflight s = int (length (fs_queue s)) \<and> n \<le> 8 * length (fs_bitmap s) \<and>
     fs_pos s = 0 \<and> fs_last_offset s = -1 \<and>
     (\<forall>op \<in> set (pend s). \<exists>off < n * 2 ^ ch_k ch. fl_size cfg dvd off \<and> op = fread_op (word_addr cfg off) (fo_format cfg)) \<and>
     (\<forall>off \<in> C. off < n * 2 ^ ch_k ch \<and> (sector_marked (fs_bitmap s) (off div 2 ^ ch_k ch) \<or> m (word_addr cfg off) = fo_ffs cfg \<or>
        fread_op (word_addr cfg off) (fo_format cfg) \<in> set (pend s)))"

lemma sector_index:
  assumes S: "flash_setting d ch cfg n" and off: "off < n * 2 ^ ch_k ch"
  shows "index_int ((word_addr cfg off - fo_address cfg) div fo_sector_size cfg) = int (off div 2 ^ ch_k ch)" "off div 2 ^ ch_k ch < n"
proof -
  show i: "off div 2 ^ ch_k ch < n" using off by (simp add: less_mult_imp_div_less)
  have "off < 2 ^ 64" using off setting_facts(14) [OF S] by linarith
  then have "unat ((word_addr cfg off - fo_address cfg) div fo_sector_size cfg) = off div 2 ^ ch_k ch"
    by (simp add: word_addr_def unat_div_distrib unat_sector_size [OF S] unat_of_nat)
  from of_unat [OF this] have w: "(word_addr cfg off - fo_address cfg) div fo_sector_size cfg = of_nat (off div 2 ^ ch_k ch)" by simp
  have "off div 2 ^ ch_k ch < 2 ^ 31" using i setting_facts(15) [OF S] by simp
  then show "index_int ((word_addr cfg off - fo_address cfg) div fo_sector_size cfg) = int (off div 2 ^ ch_k ch)"
    unfolding w index_int_def by (simp add: unsigned_of_nat signed_of_nat signed_take_bit_int_eq_self take_bit_nat_eq_self)
qed

lemma detect_ops_ensures:
  assumes S: "flash_setting d ch cfg n"
  shows "\<forall>op \<in> set ops. \<exists>off < n * 2 ^ ch_k ch. op = (fread_op (word_addr cfg off) (fo_format cfg))\<lparr>fop_data := m (word_addr cfg off), fop_error := False\<rparr> \<Longrightarrow>
    n \<le> 8 * length bm \<Longrightarrow>
    ensures (detect_ops cfg ops bm) (\<lambda>bm'. length bm' = length bm \<and> (\<forall>i. sector_marked bm i \<longrightarrow> sector_marked bm' i) \<and>
      (\<forall>op \<in> set ops. \<forall>off < n * 2 ^ ch_k ch. fop_address op = word_addr cfg off \<longrightarrow> m (word_addr cfg off) \<noteq> fo_ffs cfg \<longrightarrow> sector_marked bm' (off div 2 ^ ch_k ch)))"
proof (induction ops arbitrary: bm)
  case (Cons op ops)
  then obtain off where off: "off < n * 2 ^ ch_k ch"
    "op = (fread_op (word_addr cfg off) (fo_format cfg))\<lparr>fop_data := m (word_addr cfg off), fop_error := False\<rparr>" by auto
  have addr: "fop_address op = word_addr cfg off" "\<not> fop_error op" "fop_data op = m (word_addr cfg off)"
    by (simp_all add: off(2) fread_op_def)
  have head: "(\<forall>o2 < n * 2 ^ ch_k ch. fop_address op = word_addr cfg o2 \<longrightarrow> m (word_addr cfg o2) \<noteq> fo_ffs cfg \<longrightarrow> sector_marked bm' (o2 div 2 ^ ch_k ch)) \<longleftrightarrow>
      (m (word_addr cfg off) \<noteq> fo_ffs cfg \<longrightarrow> sector_marked bm' (off div 2 ^ ch_k ch))" for bm'
  proof -
    have "fop_address op = word_addr cfg o2 \<longleftrightarrow> o2 = off" if "o2 < n * 2 ^ ch_k ch" for o2
      using word_addr_inj [OF S, of off o2] off(1) addr(1) that by auto
    then show ?thesis using off(1) by (metis (no_types, lifting))
  qed
  note idx = sector_index [OF S off(1)]
  have IH: "ensures (detect_ops cfg ops bm1) (\<lambda>bm'. length bm' = length bm1 \<and> (\<forall>i. sector_marked bm1 i \<longrightarrow> sector_marked bm' i) \<and>
      (\<forall>op \<in> set ops. \<forall>off < n * 2 ^ ch_k ch. fop_address op = word_addr cfg off \<longrightarrow> m (word_addr cfg off) \<noteq> fo_ffs cfg \<longrightarrow> sector_marked bm' (off div 2 ^ ch_k ch)))"
    if "length bm1 = length bm" for bm1
    using Cons.prems that by (intro Cons.IH) auto
  show ?case
  proof (cases "m (word_addr cfg off) = fo_ffs cfg")
    case True
    then have eq: "detect_ops cfg (op # ops) bm = detect_ops cfg ops bm" by (simp add: addr)
    show ?thesis unfolding eq by (rule ensures_mono [OF IH [OF refl]]) (simp add: head True)
  next
    case False
    have "off div 2 ^ ch_k ch < 8 * length bm" using idx(2) Cons.prems(2) by simp
    then obtain bm1 where bm1: "bitmask_set bm (int (off div 2 ^ ch_k ch)) True = Some bm1" "length bm1 = length bm"
      "\<And>j. sector_marked bm1 j \<longleftrightarrow> j = off div 2 ^ ch_k ch \<or> sector_marked bm j"
      by (rule bitmask_set_marked) blast
    have eq: "detect_ops cfg (op # ops) bm = detect_ops cfg ops bm1"
      using False by (simp add: addr idx(1) bm1(1))
    show ?thesis unfolding eq by (rule ensures_mono [OF IH [OF bm1(2)]]) (simp add: head bm1(2,3))
  qed
qed simp

lemma run_reads:
  assumes "memory_law d ch fmt" "\<forall>op \<in> set c. \<exists>a \<in> ch_words ch. op = fread_op a fmt" "run_cycle d EB_OK c w = (st, c', w')"
  shows "st = EB_OK" "c' = map (\<lambda>op. op\<lparr>fop_data := ch_mem ch w (fop_address op), fop_error := False\<rparr>) c" "ch_mem ch w' = ch_mem ch w"
proof -
  have "\<forall>op \<in> set c. \<not> fop_write op \<and> fop_format op = fmt \<and> fop_address op \<in> ch_words ch"
    using assms(2) by (auto simp: fread_op_def)
  from perform_reads [OF assms(1) this, of w]
  show "st = EB_OK" "c' = map (\<lambda>op. op\<lparr>fop_data := ch_mem ch w (fop_address op), fop_error := False\<rparr>) c" "ch_mem ch w' = ch_mem ch w"
    using assms(3) by (auto simp: run_cycle_def split: prod.splits if_splits)
qed

lemma scan_digest:
  assumes I: "scan_inv d ch cfg n m C s" and q: "fs_queue s = c # q" and r: "run_cycle d EB_OK c (fs_w s) = (st, c', w)"
  shows "ensures (detect_decrement cfg c' st (s\<lparr>fs_w := w, fs_queue := q\<rparr>))
    (\<lambda>s'. scan_inv d ch cfg n m C s' \<and> fs_queue s' = q \<and> fs_cycle s' = fs_cycle s)"
proof -
  have S: "flash_setting d ch cfg n" and m: "ch_mem ch (fs_w s) = m" and len: "n \<le> 8 * length (fs_bitmap s)"
    using I unfolding scan_inv_def by auto
  have pend: "pend s = c @ concat q @ fs_cycle s" by (simp add: pend_def q)
  have ops: "\<exists>off < n * 2 ^ ch_k ch. fl_size cfg dvd off \<and> op = fread_op (word_addr cfg off) (fo_format cfg)" if "op \<in> set (pend s)" for op
    using I that unfolding scan_inv_def by blast
  have "\<forall>op \<in> set c. \<exists>a \<in> ch_words ch. op = fread_op a (fo_format cfg)"
    using ops setting_facts(19) [OF S] unfolding pend by fastforce
  note run = run_reads [OF setting_facts(2) [OF S] this r]
  have "\<forall>op \<in> set c'. \<exists>off < n * 2 ^ ch_k ch. op = (fread_op (word_addr cfg off) (fo_format cfg))\<lparr>fop_data := m (word_addr cfg off), fop_error := False\<rparr>"
    using ops unfolding run(2) pend m by (fastforce simp: fread_op_def)
  from detect_ops_ensures [OF S this len]
  have D: "ensures (detect_ops cfg c' (fs_bitmap s)) (\<lambda>bm'. length bm' = length (fs_bitmap s) \<and> (\<forall>i. sector_marked (fs_bitmap s) i \<longrightarrow> sector_marked bm' i) \<and>
      (\<forall>op \<in> set c'. \<forall>off < n * 2 ^ ch_k ch. fop_address op = word_addr cfg off \<longrightarrow> m (word_addr cfg off) \<noteq> fo_ffs cfg \<longrightarrow> sector_marked bm' (off div 2 ^ ch_k ch)))" .
  have addrs: "fop_address ` set c' = fop_address ` set c" unfolding run(2) by (simp add: image_image)
  show ?thesis unfolding detect_decrement_def Let_def run(1)
    apply simp
  proof (rule ensures_and_then [OF D], elim conjE)
    fix bm' assume bm': "length bm' = length (fs_bitmap s)" "\<forall>i. sector_marked (fs_bitmap s) i \<longrightarrow> sector_marked bm' i"
      "\<forall>op \<in> set c'. \<forall>off < n * 2 ^ ch_k ch. fop_address op = word_addr cfg off \<longrightarrow> m (word_addr cfg off) \<noteq> fo_ffs cfg \<longrightarrow> sector_marked bm' (off div 2 ^ ch_k ch)"
    let ?s = "s\<lparr>fs_w := w, fs_queue := q, fs_inflight := fs_inflight s - 1, fs_bitmap := bm'\<rparr>"
    have p: "pend ?s = concat q @ fs_cycle s" by (simp add: pend_def)
    have "sector_marked bm' (off div 2 ^ ch_k ch) \<or> m (word_addr cfg off) = fo_ffs cfg \<or> fread_op (word_addr cfg off) (fo_format cfg) \<in> set (pend ?s)"
      if C: "off \<in> C" for off
    proof -
      have o: "off < n * 2 ^ ch_k ch" "sector_marked (fs_bitmap s) (off div 2 ^ ch_k ch) \<or> m (word_addr cfg off) = fo_ffs cfg \<or>
          fread_op (word_addr cfg off) (fo_format cfg) \<in> set (pend s)"
        using I C unfolding scan_inv_def by auto
      have "sector_marked bm' (off div 2 ^ ch_k ch)" if "fread_op (word_addr cfg off) (fo_format cfg) \<in> set c" "m (word_addr cfg off) \<noteq> fo_ffs cfg"
      proof -
        have "word_addr cfg off \<in> fop_address ` set c'" unfolding addrs using that(1) by (force simp: fread_op_def)
        then show ?thesis using bm'(3) o(1) that(2) by force
      qed
      then show ?thesis using o(2) bm'(2) unfolding p pend by auto
    qed
    then have "scan_inv d ch cfg n m C ?s"
      using I bm'(1) run(3) ops unfolding scan_inv_def p pend by (auto simp: q)
    then show "ensures (Some (Inr ?s)) (\<lambda>s'. scan_inv d ch cfg n m C s' \<and> fs_queue s' = q \<and> fs_cycle s' = fs_cycle s)" by simp
  qed
qed

interpretation scan: cycle_user d "detect_decrement cfg" "ch_mem ch" "scan_inv d ch cfg n m C" for d ch cfg n m C
proof
  fix s assume I: "scan_inv d ch cfg n m C s"
  then show "link_law d (ch_mem ch)" unfolding scan_inv_def by (blast dest: setting_facts(1))
  show "scan_inv d ch cfg n m C (s\<lparr>fs_w := w\<rparr>)" if "ch_mem ch w = ch_mem ch (fs_w s)" for w
    using I that by (simp add: scan_inv_def pend_def)
  show "scan_inv d ch cfg n m C (close_cycle s)" using I by (simp add: scan_inv_def) (simp add: close_cycle_def)
  show "fs_inflight s = int (length (fs_queue s))" using I unfolding scan_inv_def by blast
qed (rule scan_digest)

lemma scan_add:
  assumes "scan_inv d ch cfg n m C s" "off < n * 2 ^ ch_k ch" "fl_size cfg dvd off"
  shows "scan_inv d ch cfg n m (insert off C) (add_op (fread_op (word_addr cfg off) (fo_format cfg)) s)"
  using assms unfolding scan_inv_def by (auto simp: add_op_def pend_def)

lemma scan_words_ensures:
  assumes I: "scan_inv d ch cfg n m C s" and ops: "ops = length (fs_cycle s)"
    and range: "off + len \<le> n * 2 ^ ch_k ch" "fl_size cfg dvd off" "fl_size cfg dvd len"
  shows "ensures (scan_words d cfg (word_addr cfg off) (word_addr cfg (off + len)) (ops, s))
    (\<lambda>(ops', s'). scan_inv d ch cfg n m (C \<union> {x. fl_size cfg dvd x \<and> off \<le> x \<and> x < off + len}) s' \<and> ops' = length (fs_cycle s'))"
proof -
  let ?z = "fl_size cfg"
  have S: "flash_setting d ch cfg n" using I unfolding scan_inv_def by blast
  have z: "0 < ?z" "?z \<le> 8" using size_dvd_sector [OF S] by auto
  obtain a b where ab: "off = ?z * a" "len = ?z * b" using range(2,3) by (auto elim!: dvdE)
  define J where "J j = C \<union> {x. ?z dvd x \<and> off \<le> x \<and> x < off + j * ?z}" for j
  have J0: "J 0 = C" unfolding J_def by auto
  have JSuc: "J (Suc j) = insert (off + j * ?z) (J j)" for j
  proof -
    have "?z dvd x \<and> off \<le> x \<and> x < off + Suc j * ?z \<longleftrightarrow> x = off + j * ?z \<or> ?z dvd x \<and> off \<le> x \<and> x < off + j * ?z" for x
    proof
      assume x: "?z dvd x \<and> off \<le> x \<and> x < off + Suc j * ?z"
      then obtain e where e: "x = ?z * e" by (auto elim: dvdE)
      have "?z * e < ?z * (a + Suc j)" using x unfolding e ab(1) by (simp add: algebra_simps)
      then have "e < a + Suc j" unfolding nat_mult_less_cancel1 [OF z(1)] .
      then consider "e = a + j" | "e < a + j" by linarith
      then show "x = off + j * ?z \<or> ?z dvd x \<and> off \<le> x \<and> x < off + j * ?z"
      proof cases
        case 2
        then have "?z * e < ?z * (a + j)" using z(1) by simp
        then show ?thesis using x unfolding e ab(1) by (simp add: algebra_simps)
      qed (simp add: e ab(1) algebra_simps)
    qed (use z(1) ab(1) in auto)
    then show ?thesis unfolding J_def by blast
  qed
  have fin: "word_addr cfg (off + len) = word_addr cfg off + of_nat b * of_nat ?z" by (simp add: word_addr_def ab algebra_simps)
  have step: "unat (of_nat ?z :: u64) = ?z" using z(2) by (simp add: unat_of_nat)
  have len: "b * ?z < 2 ^ 64" using range(1) setting_facts(14) [OF S] ab(2) by (simp add: mult.commute)
  show ?thesis unfolding scan_words_def
  proof (rule ensures_and_then [OF positions_ensures [where step = "of_nat ?z" and n = b and fin = "word_addr cfg (off + len)" and
          iv = "\<lambda>j (ops, s). scan_inv d ch cfg n m (J j) s \<and> ops = length (fs_cycle s)"]])
    show "case (ops, s) of (ops, s) \<Rightarrow> scan_inv d ch cfg n m (J 0) s \<and> ops = length (fs_cycle s)"
      using I ops J0 by simp
  next
    fix j t assume j: "j < b" and t: "case t of (ops, s) \<Rightarrow> scan_inv d ch cfg n m (J j) s \<and> ops = length (fs_cycle s)"
    obtain s1 where s1: "t = (length (fs_cycle s1), s1)" "scan_inv d ch cfg n m (J j) s1" using t by (cases t) auto
    have at: "word_addr cfg off + of_nat j * of_nat ?z = word_addr cfg (off + j * ?z)" by (simp add: word_addr_def)
    have "off + j * ?z < off + len" using j z(1) ab(2) by simp
    then have "off + j * ?z < n * 2 ^ ch_k ch" using range(1) by linarith
    then have I2: "scan_inv d ch cfg n m (J (Suc j)) (add_op (fread_op (word_addr cfg (off + j * ?z)) (fo_format cfg)) s1)"
      unfolding JSuc by (rule scan_add [OF s1(2)]) (use range(2) in simp)
    show "ensures (case (word_addr cfg off + of_nat j * of_nat ?z, t) of
          (position, ops, s) \<Rightarrow> let s = add_op (fread_op position (fo_format cfg)) s
            in if ops + 1 = unat (fo_page_size cfg) div ?z
               then and_then (next_cycle d (detect_decrement cfg) cfg s) (\<lambda>s. Some (Inr (position + of_nat ?z, 0, s)))
               else Some (Inr (position + of_nat ?z, ops + 1, s)))
        (\<lambda>(x, s'). x = word_addr cfg off + of_nat (Suc j) * of_nat ?z \<and>
           (case s' of (ops, s) \<Rightarrow> scan_inv d ch cfg n m (J (Suc j)) s \<and> ops = length (fs_cycle s)))"
    proof (cases "Suc (length (fs_cycle s1)) = unat (fo_page_size cfg) div ?z")
      case True
      have "ensures (and_then (next_cycle d (detect_decrement cfg) cfg (add_op (fread_op (word_addr cfg (off + j * ?z)) (fo_format cfg)) s1))
          (\<lambda>s. Some (Inr (word_addr cfg (off + j * ?z) + of_nat ?z, 0, s))))
          (\<lambda>(x, s'). x = word_addr cfg off + of_nat (Suc j) * of_nat ?z \<and>
             (case s' of (ops, s) \<Rightarrow> scan_inv d ch cfg n m (J (Suc j)) s \<and> ops = length (fs_cycle s)))"
        by (rule ensures_and_then [OF scan.next_ensures [OF I2 setting_facts(22) [OF S]]]) (auto simp: at [symmetric] algebra_simps)
      then show ?thesis unfolding s1(1) at prod.case Let_def using True by simp
    next
      case False
      then show ?thesis unfolding s1(1) at prod.case Let_def using I2 by (simp add: at [symmetric] algebra_simps add_op_def)
    qed
  next
    fix t assume "case t of (x, s) \<Rightarrow> case s of (ops, s) \<Rightarrow> scan_inv d ch cfg n m (J b) s \<and> ops = length (fs_cycle s)"
    then show "ensures (case t of (_, st) \<Rightarrow> Some (Inr st))
        (\<lambda>(ops', s'). scan_inv d ch cfg n m (C \<union> {x. ?z dvd x \<and> off \<le> x \<and> x < off + len}) s' \<and> ops' = length (fs_cycle s'))"
      by (auto simp: J_def ab(2) mult.commute split: prod.splits)
  qed (use z step len fin in simp_all)
qed

definition gap_words :: "flash_opts \<Rightarrow> nat \<Rightarrow> nat \<Rightarrow> nat \<Rightarrow> nat \<Rightarrow> nat set" where
  "gap_words cfg k j off len = {x. fl_size cfg dvd x \<and> x < j * 2 ^ k \<and> off \<le> x mod 2 ^ k \<and> x mod 2 ^ k < off + len}"

lemma gap_words_Suc:
  assumes "off + len \<le> 2 ^ k"
  shows "gap_words cfg k (Suc j) off len =
    gap_words cfg k j off len \<union> {x. fl_size cfg dvd x \<and> j * 2 ^ k + off \<le> x \<and> x < j * 2 ^ k + off + len}"
proof -
  have last: "j * 2 ^ k \<le> x \<and> x < Suc j * 2 ^ k \<and> off \<le> x mod 2 ^ k \<and> x mod 2 ^ k < off + len \<longleftrightarrow>
      j * 2 ^ k + off \<le> x \<and> x < j * 2 ^ k + off + len" for x :: nat
  proof (cases "j * 2 ^ k \<le> x \<and> x < Suc j * 2 ^ k")
    case True
    then obtain y where y: "x = j * 2 ^ k + y" "y < 2 ^ k" by (metis add.commute add_less_cancel_left le_Suc_ex mult_Suc)
    then show ?thesis by simp
  next
    case False
    then show ?thesis using assms by auto
  qed
  have "x < Suc j * 2 ^ k \<longleftrightarrow> x < j * 2 ^ k \<or> j * 2 ^ k \<le> x \<and> x < Suc j * 2 ^ k" for x :: nat by auto
  then show ?thesis unfolding gap_words_def set_eq_iff Un_iff mem_Collect_eq using last by blast
qed

lemma gap_ensures:
  assumes I: "scan_inv d ch cfg n m C s" and idle: "fs_queue s = []" "fs_cycle s = []"
    and range: "off + len \<le> 2 ^ ch_k ch" "fl_size cfg dvd off" "fl_size cfg dvd len"
  shows "ensures (quick_scan_gap d cfg (of_nat off) (of_nat len) s)
    (\<lambda>s'. scan_inv d ch cfg n m (C \<union> gap_words cfg (ch_k ch) n off len) s' \<and> fs_queue s' = [] \<and> fs_cycle s' = [])"
proof -
  let ?S = "2 ^ ch_k ch :: nat"
  let ?J = "\<lambda>j. C \<union> gap_words cfg (ch_k ch) j off len"
  have S: "flash_setting d ch cfg n" using I unfolding scan_inv_def by blast
  have sec: "unat (fo_sector_size cfg) = ?S" "of_nat ?S = fo_sector_size cfg"
    using unat_sector_size [OF S] by (simp_all add: setting_facts(11) [OF S])
  have at: "fo_address cfg + of_nat j * fo_sector_size cfg = word_addr cfg (j * ?S)" for j
    using sec(2) by (simp add: word_addr_def)
  have I0: "scan_inv d ch cfg n m C (s\<lparr>fs_inflight := 0\<rparr>)" using I idle by (simp add: scan_inv_def pend_def)
  show ?thesis unfolding quick_scan_gap_def sectors [OF S]
  proof (rule ensures_and_then [OF open_ensures [OF setting_facts(1) [OF S]]], elim exE conjE)
    fix s1 w assume w: "ch_mem ch w = ch_mem ch (fs_w (s\<lparr>fs_inflight := 0\<rparr>))" "s1 = s\<lparr>fs_inflight := 0, fs_w := w, fs_cycle := []\<rparr>"
    then have s1: "s1 = s\<lparr>fs_inflight := 0, fs_w := w\<rparr>" using idle by simp
    have I1: "scan_inv d ch cfg n m C s1" "fs_cycle s1 = []"
      unfolding s1 by (rule scan.world [OF I0 w(1)]) (simp add: idle)
    show "ensures (and_then (repeat_while (\<lambda>(sector, st). sector \<noteq> fo_address cfg + of_nat n * fo_sector_size cfg)
          (\<lambda>(sector, i, ops, s). do {
             b \<leftarrow> bitmask_get (fs_bitmap s) i;
             if b then Some (Inr (sector + fo_sector_size cfg, i + 1, ops, s))
             else and_then (scan_words d cfg (sector + of_nat off) (sector + of_nat off + of_nat len) (ops, s))
                    (\<lambda>(ops, s). Some (Inr (sector + fo_sector_size cfg, i + 1, ops, s))) })
          (fo_address cfg, 0, 0, s1)) (\<lambda>(_, _, ops, s). last_cycle d (detect_decrement cfg) ops s))
        (\<lambda>s'. scan_inv d ch cfg n m (?J n) s' \<and> fs_queue s' = [] \<and> fs_cycle s' = [])"
    proof (rule ensures_and_then [OF positions_ensures [where step = "fo_sector_size cfg" and n = n and
            iv = "\<lambda>j (i, ops, s). i = int j \<and> scan_inv d ch cfg n m (?J j) s \<and> ops = length (fs_cycle s)"]])
      show "case (0, 0, s1) of (i, ops, s) \<Rightarrow> i = int 0 \<and> scan_inv d ch cfg n m (?J 0) s \<and> ops = length (fs_cycle s)"
        using I1 by (simp add: gap_words_def)
    next
      fix j t assume j: "j < n" and t: "case t of (i, ops, s) \<Rightarrow> i = int j \<and> scan_inv d ch cfg n m (?J j) s \<and> ops = length (fs_cycle s)"
      obtain s2 where s2: "t = (int j, length (fs_cycle s2), s2)" "scan_inv d ch cfg n m (?J j) s2" using t by (cases t) auto
      have fit: "j * ?S + off + len \<le> n * ?S"
      proof -
        have "j * ?S + ?S \<le> n * ?S" using j by (metis Suc_leI add.commute mult_Suc mult_le_mono1)
        then show ?thesis using range(1) by linarith
      qed
      have "n \<le> 8 * length (fs_bitmap s2)" using s2(2) unfolding scan_inv_def by blast
      then have get: "bitmask_get (fs_bitmap s2) (int j) = Some (sector_marked (fs_bitmap s2) j)" using j by (intro bitmask_get_marked) simp
      have next': "fo_address cfg + of_nat j * fo_sector_size cfg + fo_sector_size cfg = fo_address cfg + of_nat (Suc j) * fo_sector_size cfg"
        by (simp add: algebra_simps)
      have nx: "word_addr cfg (j * ?S) + fo_sector_size cfg = word_addr cfg (?S + j * ?S)" using sec(2) by (simp add: word_addr_def)
      have J: "?J (Suc j) = ?J j \<union> {x. fl_size cfg dvd x \<and> j * ?S + off \<le> x \<and> x < j * ?S + off + len}"
        using gap_words_Suc [OF range(1)] by (simp add: Un_assoc)
      show "ensures (case (fo_address cfg + of_nat j * fo_sector_size cfg, t) of (sector, i, ops, s) \<Rightarrow> do {
             b \<leftarrow> bitmask_get (fs_bitmap s) i;
             if b then Some (Inr (sector + fo_sector_size cfg, i + 1, ops, s))
             else and_then (scan_words d cfg (sector + of_nat off) (sector + of_nat off + of_nat len) (ops, s))
                    (\<lambda>(ops, s). Some (Inr (sector + fo_sector_size cfg, i + 1, ops, s))) })
          (\<lambda>(x, s'). x = fo_address cfg + of_nat (Suc j) * fo_sector_size cfg \<and>
            (case s' of (i, ops, s) \<Rightarrow> i = int (Suc j) \<and> scan_inv d ch cfg n m (?J (Suc j)) s \<and> ops = length (fs_cycle s)))"
        unfolding s2(1) prod.case get Option.bind.simps
      proof (cases "sector_marked (fs_bitmap s2) j")
        case True
        have "x div ?S = j" "x < n * ?S" if "j * ?S + off \<le> x" "x < j * ?S + off + len" for x
        proof -
          show "x < n * ?S" using that fit by linarith
          have "j * ?S \<le> x" "x < Suc j * ?S" using that range(1) by simp_all
          then show "x div ?S = j" by (metis div_nat_eqI mult.commute)
        qed
        then have "scan_inv d ch cfg n m (?J (Suc j)) s2" using s2(2) True unfolding J scan_inv_def by auto
        then show "ensures (if sector_marked (fs_bitmap s2) j then Some (Inr (fo_address cfg + of_nat j * fo_sector_size cfg + fo_sector_size cfg, int j + 1, length (fs_cycle s2), s2))
             else and_then (scan_words d cfg (fo_address cfg + of_nat j * fo_sector_size cfg + of_nat off) (fo_address cfg + of_nat j * fo_sector_size cfg + of_nat off + of_nat len) (length (fs_cycle s2), s2))
                    (\<lambda>(ops, s). Some (Inr (fo_address cfg + of_nat j * fo_sector_size cfg + fo_sector_size cfg, int j + 1, ops, s))))
          (\<lambda>(x, s'). x = fo_address cfg + of_nat (Suc j) * fo_sector_size cfg \<and>
            (case s' of (i, ops, s) \<Rightarrow> i = int (Suc j) \<and> scan_inv d ch cfg n m (?J (Suc j)) s \<and> ops = length (fs_cycle s)))"
          using True unfolding next' by simp
      next
        case False
        have "fl_size cfg dvd j * ?S + off" using size_dvd_sector(1) [OF S] range(2) by simp
        from scan_words_ensures [OF s2(2) refl fit this range(3)] False
        show "ensures (if sector_marked (fs_bitmap s2) j then Some (Inr (fo_address cfg + of_nat j * fo_sector_size cfg + fo_sector_size cfg, int j + 1, length (fs_cycle s2), s2))
             else and_then (scan_words d cfg (fo_address cfg + of_nat j * fo_sector_size cfg + of_nat off) (fo_address cfg + of_nat j * fo_sector_size cfg + of_nat off + of_nat len) (length (fs_cycle s2), s2))
                    (\<lambda>(ops, s). Some (Inr (fo_address cfg + of_nat j * fo_sector_size cfg + fo_sector_size cfg, int j + 1, ops, s))))
          (\<lambda>(x, s'). x = fo_address cfg + of_nat (Suc j) * fo_sector_size cfg \<and>
            (case s' of (i, ops, s) \<Rightarrow> i = int (Suc j) \<and> scan_inv d ch cfg n m (?J (Suc j)) s \<and> ops = length (fs_cycle s)))"
          unfolding next' at word_addr_add J by (auto simp: nx elim!: ensures_and_then)
      qed
    next
      fix t assume t: "case t of (x, s) \<Rightarrow> case s of (i, ops, s) \<Rightarrow> i = int n \<and> scan_inv d ch cfg n m (?J n) s \<and> ops = length (fs_cycle s)"
      obtain x i ops s2 where t': "t = (x, i, ops, s2)" by (metis prod.exhaust)
      show "ensures (case t of (_, _, ops, s) \<Rightarrow> last_cycle d (detect_decrement cfg) ops s)
          (\<lambda>s'. scan_inv d ch cfg n m (?J n) s' \<and> fs_queue s' = [] \<and> fs_cycle s' = [])"
        using t unfolding t' prod.case by (intro ensures_mono [OF scan.last_ensures]) auto
    qed (use sec(1) setting_facts(14) [OF S] in simp_all)
  qed
qed

lemma quick_scan_ensures:
  assumes I: "scan_inv d ch cfg n m {} s" and idle: "fs_queue s = []" "fs_cycle s = []"
  shows "ensures (quick_scan d cfg s)
    (\<lambda>s'. scan_inv d ch cfg n m {x. fl_size cfg dvd x \<and> x < n * 2 ^ ch_k ch} s' \<and> fs_queue s' = [] \<and> fs_cycle s' = [])"
proof -
  let ?G = "\<lambda>e. {x. fl_size cfg dvd x \<and> x < n * 2 ^ ch_k ch \<and> x mod 2 ^ ch_k ch < 2 ^ e}"
  let ?P = "\<lambda>C s'. scan_inv d ch cfg n m C s' \<and> fs_queue s' = [] \<and> fs_cycle s' = []"
  have S: "flash_setting d ch cfg n" using I unfolding scan_inv_def by blast
  have k: "3 \<le> ch_k ch" "ch_k ch \<le> 24" "fo_sector_size cfg = 2 ^ ch_k ch" using setting_facts(9-11) [OF S] .
  have z8: "fl_size cfg dvd 2 ^ e" if "3 \<le> e" for e
  proof -
    have "(2 :: nat) ^ 3 dvd 2 ^ e" using that by (rule le_imp_power_dvd)
    then have "8 dvd (2 :: nat) ^ e" by simp
    then show ?thesis using size_dvd_sector(2) [OF S] by (rule dvd_trans [rotated])
  qed
  have eight: "(8 :: nat) \<le> 2 ^ ch_k ch" using power_increasing [OF k(1), of "2 :: nat"] by simp
  have first: "ensures (quick_scan_gap d cfg 0 8 s) (?P (?G 3))"
    using gap_ensures [OF I idle, of 0 8] eight size_dvd_sector(2) [OF S]
    by (auto simp: gap_words_def elim!: ensures_mono)
  let ?I = "\<lambda>(offset :: u64, gap :: u64, s'). \<exists>e. 3 \<le> e \<and> e \<le> ch_k ch \<and> offset = of_nat (2 ^ e) \<and> gap = of_nat (2 ^ e) \<and> ?P (?G e) s'"
  show ?thesis unfolding quick_scan_def
  proof (rule ensures_and_then [OF first])
    fix s1 assume s1: "?P (?G 3) s1"
    show "ensures (and_then (repeat_while (\<lambda>(offset, gap, s). offset \<noteq> fo_sector_size cfg)
        (\<lambda>(offset, gap, s). and_then (quick_scan_gap d cfg offset gap s) (\<lambda>s. Some (Inr (offset + gap, gap + gap, s)))) (8, 8, s1))
        (\<lambda>(_, _, s). Some (Inr s))) (?P {x. fl_size cfg dvd x \<and> x < n * 2 ^ ch_k ch})"
    proof (rule ensures_and_then [OF repeat_while_ensures [where iv = ?I and R = "measure (\<lambda>(offset, _). 2 ^ ch_k ch - unat offset)" and
            post = "\<lambda>(offset, gap, s'). ?P {x. fl_size cfg dvd x \<and> x < n * 2 ^ ch_k ch} s'"]])
      show "?I (8, 8, s1)" using s1 k(1) by (auto intro!: exI [of _ 3])
    next
      fix t assume "?I t" "case t of (offset, gap, s) \<Rightarrow> offset \<noteq> fo_sector_size cfg"
      then obtain e s2 where e: "t = (of_nat (2 ^ e), of_nat (2 ^ e), s2)" "3 \<le> e" "e \<le> ch_k ch" "?P (?G e) s2" "e \<noteq> ch_k ch"
        unfolding k(3) by (auto simp del: of_nat_power) auto
      have up: "(2 :: nat) ^ e + 2 ^ e = 2 ^ Suc e" by simp
      have dbl: "of_nat (2 ^ e) + of_nat (2 ^ e) = (of_nat (2 ^ Suc e) :: u64)" by simp
      have le: "(2 :: nat) ^ Suc e \<le> 2 ^ ch_k ch" using e(3,5) by (intro power_increasing) auto
      have G: "?G e \<union> gap_words cfg (ch_k ch) n (2 ^ e) (2 ^ e) = ?G (Suc e)"
        unfolding gap_words_def up by auto
      have "ensures (quick_scan_gap d cfg (of_nat (2 ^ e)) (of_nat (2 ^ e)) s2) (?P (?G (Suc e)))"
        using gap_ensures [of d ch cfg n m "?G e" s2 "2 ^ e" "2 ^ e"] e(4) le z8 [OF e(2)] unfolding G up by simp
      moreover have "?I (of_nat (2 ^ e) + of_nat (2 ^ e), of_nat (2 ^ e) + of_nat (2 ^ e), s3)" if "?P (?G (Suc e)) s3" for s3
        unfolding dbl prod.case by (rule exI [of _ "Suc e"]) (use that e(2,3,5) in \<open>simp del: of_nat_power power_Suc\<close>)
      moreover have "(2 :: nat) ^ ch_k ch - unat (of_nat (2 ^ e) + of_nat (2 ^ e) :: u64) < 2 ^ ch_k ch - unat (of_nat (2 ^ e) :: u64)"
      proof -
        have u: "unat (of_nat (2 ^ i) :: u64) = 2 ^ i" if "i \<le> ch_k ch" for i
          using unat_pow2 [of i] that k(2) by simp
        have "unat (of_nat (2 ^ e) :: u64) = 2 ^ e" "unat (of_nat (2 ^ Suc e) :: u64) = 2 ^ Suc e"
          by (rule u; use e(3,5) in simp)+
        moreover have "(2 :: nat) ^ e < 2 ^ Suc e" by simp
        ultimately show ?thesis using le unfolding dbl by linarith
      qed
      ultimately show "ensures (case t of (offset, gap, s) \<Rightarrow> and_then (quick_scan_gap d cfg offset gap s) (\<lambda>s. Some (Inr (offset + gap, gap + gap, s))))
          (\<lambda>t'. ?I t' \<and> (t', t) \<in> measure (\<lambda>(offset, _). 2 ^ ch_k ch - unat offset))"
        unfolding e(1) prod.case by (elim ensures_and_then) simp
    next
      fix t assume "?I t" "\<not> (case t of (offset, gap, s) \<Rightarrow> offset \<noteq> fo_sector_size cfg)"
      then obtain e s2 where e: "t = (of_nat (2 ^ e), of_nat (2 ^ e), s2)" "e \<le> ch_k ch" "?P (?G e) s2" "of_nat (2 ^ e) = fo_sector_size cfg"
        by auto
      have "unat (fo_sector_size cfg) = 2 ^ e" using e(2,4) k(2) unat_pow2 [of e] by simp
      then have "(2 :: nat) ^ e = 2 ^ ch_k ch" using unat_sector_size [OF S] by simp
      then have "?G e = {x. fl_size cfg dvd x \<and> x < n * 2 ^ ch_k ch}" by auto
      then show "case t of (offset, gap, s') \<Rightarrow> ?P {x. fl_size cfg dvd x \<and> x < n * 2 ^ ch_k ch} s'" using e(1,3) by simp
    qed (auto split: prod.splits)
  qed
qed

end
