(* ===== verification/Flash_Bits.thy ===== *)
theory Flash_Bits
  imports Flash_Tool
begin

text \<open>
  The words of the firmware: how its bytes are laid out in a word, the reversal of the bits of each byte, and the choice of the
  access width.
\<close>

section \<open>Reversing the bits of each byte\<close>

lemma exchange_bits:
  fixes x m :: u64
  assumes m: "\<And>i. i < 64 \<Longrightarrow> bit m i \<longleftrightarrow> i mod (2 * a) < a" and a: "0 < a" and i: "i < 64" and d: "(2 * a) dvd 64"
  shows "bit ((drop_bit a x AND m) OR push_bit a (x AND m)) i \<longleftrightarrow> bit x (if i mod (2 * a) < a then i + a else i - a)"
proof (cases "i mod (2 * a) < a")
  case True
  have "\<not> (a \<le> i \<and> (i - a) mod (2 * a) < a)"
  proof
    assume h: "a \<le> i \<and> (i - a) mod (2 * a) < a"
    define q r where "q = (i - a) div (2 * a)" and "r = (i - a) mod (2 * a)"
    have "i - a = q * (2 * a) + r" unfolding q_def r_def by (rule div_mult_mod_eq [symmetric])
    then have "i = (r + a) + q * (2 * a)" using h by linarith
    then have "i mod (2 * a) = (r + a) mod (2 * a)" by (metis mod_mult_self1)
    also have "\<dots> = r + a" using h unfolding r_def by (intro mod_less) simp
    finally show False using True by simp
  qed
  then show ?thesis using True m [OF i] m [of "i - a"] i by (auto simp: bit_simps add.commute [of a i])
next
  case False
  have ia: "a \<le> i" using False by (metis le_trans linorder_not_less mod_less_eq_dividend)
  have "(i - a) mod (2 * a) < a"
  proof -
    define q r where "q = i div (2 * a)" and "r = i mod (2 * a)"
    have "i = q * (2 * a) + r" unfolding q_def r_def by (rule div_mult_mod_eq [symmetric])
    moreover have "r < 2 * a" "a \<le> r" unfolding r_def using a False by simp_all
    ultimately have r: "i = q * (2 * a) + r" "r < 2 * a" "a \<le> r" .
    then have "i - a = (r - a) + q * (2 * a)" by linarith
    then have "(i - a) mod (2 * a) = (r - a) mod (2 * a)" by (metis mod_mult_self1)
    also have "\<dots> = r - a" using r by (intro mod_less) simp
    finally show ?thesis using r by simp
  qed
  then show ?thesis using False ia m [OF i] m [of "i - a"] i by (auto simp: bit_simps)
qed

lemma fill_0f_value: "fill_0f 8 0x0f = 0x0f0f0f0f0f0f0f0f"
  by code_simp

lemma flip_masks:
  assumes "i < 64"
  shows "bit (0x0f0f0f0f0f0f0f0f :: u64) i \<longleftrightarrow> i mod (2 * 4) < 4"
    "bit (0x3333333333333333 :: u64) i \<longleftrightarrow> i mod (2 * 2) < 2"
    "bit (0x5555555555555555 :: u64) i \<longleftrightarrow> i mod (2 * 1) < 1"
proof -
  have "\<forall>i \<in> set [0..<64]. bit (0x0f0f0f0f0f0f0f0f :: u64) i \<longleftrightarrow> i mod (2 * 4) < 4" by code_simp
  then show "bit (0x0f0f0f0f0f0f0f0f :: u64) i \<longleftrightarrow> i mod (2 * 4) < 4" using assms by simp
  have "\<forall>i \<in> set [0..<64]. bit (0x3333333333333333 :: u64) i \<longleftrightarrow> i mod (2 * 2) < 2" by code_simp
  then show "bit (0x3333333333333333 :: u64) i \<longleftrightarrow> i mod (2 * 2) < 2" using assms by simp
  have "\<forall>i \<in> set [0..<64]. bit (0x5555555555555555 :: u64) i \<longleftrightarrow> i mod (2 * 1) < 1" by code_simp
  then show "bit (0x5555555555555555 :: u64) i \<longleftrightarrow> i mod (2 * 1) < 1" using assms by simp
qed

lemma bit_flip_bits:
  assumes "fo_mask_0f cfg = fill_0f 8 0x0f" "i < 8" "b < 8"
  shows "bit (flip_bits cfg x) (8 * b + i) \<longleftrightarrow> bit x (8 * b + (if fo_invert cfg then 7 - i else i))"
proof (cases "fo_invert cfg")
  case True
  define x1 where "x1 = (drop_bit 4 x AND 0x0f0f0f0f0f0f0f0f) OR push_bit 4 (x AND 0x0f0f0f0f0f0f0f0f)"
  define x2 where "x2 = (drop_bit 2 x1 AND 0x3333333333333333) OR push_bit 2 (x1 AND 0x3333333333333333)"
  have m: "(0x0f0f0f0f0f0f0f0f :: u64) XOR push_bit 2 0x0f0f0f0f0f0f0f0f = 0x3333333333333333"
    "(0x3333333333333333 :: u64) XOR push_bit 1 0x3333333333333333 = 0x5555555555555555"
    by (simp_all add: push_bit_eq_mult)
  have f: "flip_bits cfg x = (drop_bit 1 x2 AND 0x5555555555555555) OR push_bit 1 (x2 AND 0x5555555555555555)"
    using True by (simp only: flip_bits_def Let_def assms(1) fill_0f_value m x1_def x2_def not_True_eq_False if_False)
  define swap where "swap a r = (if r mod (2 * a) < a then r + a else r - a)" for a r :: nat
  have step3: "bit (flip_bits cfg x) j \<longleftrightarrow> bit x2 (swap 1 j)" if "j < 64" for j
    unfolding f using exchange_bits [of "0x5555555555555555" 1 j x2] flip_masks(3) that by (simp add: swap_def)
  have step2: "bit x2 j \<longleftrightarrow> bit x1 (swap 2 j)" if "j < 64" for j
    unfolding x2_def using exchange_bits [of "0x3333333333333333" 2 j x1] flip_masks(2) that by (simp add: swap_def)
  have step1: "bit x1 j \<longleftrightarrow> bit x (swap 4 j)" if "j < 64" for j
    unfolding x1_def using exchange_bits [of "0x0f0f0f0f0f0f0f0f" 4 j x] flip_masks(1) that by (simp add: swap_def)
  have swap: "swap a (8 * b + r) = 8 * b + swap a r" if "a \<in> {1, 2, 4}" "r < 8" for a r
  proof -
    have "(8 * b + r) mod (2 * a) = r mod (2 * a)" using that(1) by (elim insertE) (simp_all, presburger+)
    moreover have "\<not> r mod (2 * a) < a \<Longrightarrow> a \<le> r" by (metis le_trans linorder_not_less mod_less_eq_dividend)
    ultimately show ?thesis by (auto simp: swap_def)
  qed
  have inside: "swap a r < 8" if "a \<in> {1, 2, 4}" "r < 8" for a r
  proof -
    have "\<forall>a \<in> {1, 2, 4}. \<forall>r \<in> set [0..<8]. (if r mod (2 * a) < a then r + a else r - a) < (8 :: nat)" by code_simp
    moreover have "r \<in> set [0..<8]" using that(2) by simp
    ultimately show ?thesis using that(1) unfolding swap_def by blast
  qed
  have "swap 4 (swap 2 (swap 1 i)) = 7 - i"
  proof -
    have "\<forall>i \<in> set [0..<8]. (\<lambda>r. if r mod (2 * 4) < 4 then r + 4 else r - 4) ((\<lambda>r. if r mod (2 * 2) < 2 then r + 2 else r - 2)
        ((\<lambda>r. if r mod (2 * 1) < 1 then r + 1 else r - 1) i)) = 7 - (i :: nat)" by code_simp
    then show ?thesis using assms(2) unfolding swap_def by simp
  qed
  moreover have "bit (flip_bits cfg x) (8 * b + i) \<longleftrightarrow> bit x (8 * b + swap 4 (swap 2 (swap 1 i)))"
    using step3 [of "8 * b + i"] step2 [of "8 * b + swap 1 i"] step1 [of "8 * b + swap 2 (swap 1 i)"] assms(2,3)
      inside [of 1 i] inside [of 2 "swap 1 i"]
      swap [of 1 i] swap [of 2 "swap 1 i"] swap [of 4 "swap 2 (swap 1 i)"]
    by simp
  ultimately show ?thesis using True by simp
qed (simp add: flip_bits_def)

section \<open>Bytes of a word\<close>

lemma bit_fold_bytes:
  fixes bs :: "u8 list"
  shows "length bs \<le> 8 \<Longrightarrow> bit (foldl (\<lambda>data b. push_bit 8 data OR ucast b) 0 bs :: u64) i \<longleftrightarrow>
    i < 8 * length bs \<and> bit (rev bs ! (i div 8)) (i mod 8)"
proof (induction bs arbitrary: i rule: rev_induct)
  case (snoc b bs)
  show ?case
  proof (cases "i < 8")
    case True
    then show ?thesis by (simp add: bit_simps)
  next
    case False
    then have "i div 8 = Suc ((i - 8) div 8)" "i mod 8 = (i - 8) mod 8" by (simp_all add: le_div_geq le_mod_geq)
    then have nth: "rev (bs @ [b]) ! (i div 8) = rev bs ! ((i - 8) div 8)" "i mod 8 = (i - 8) mod 8" by simp_all
    let ?F = "foldl (\<lambda>data b. push_bit 8 data OR ucast b) 0 bs :: u64"
    have "\<not> bit (ucast b :: u64) i" using False bit_imp_le_length [of b i] by (auto simp: bit_simps)
    then have "bit (push_bit 8 ?F OR ucast b) i \<longleftrightarrow> i < 64 \<and> bit ?F (i - 8)" using False by (auto simp: bit_simps)
    also have "\<dots> \<longleftrightarrow> i < 64 \<and> i - 8 < 8 * length bs \<and> bit (rev bs ! ((i - 8) div 8)) ((i - 8) mod 8)"
      using snoc.IH [of "i - 8"] snoc.prems by simp
    also have "\<dots> \<longleftrightarrow> i < 8 * length (bs @ [b]) \<and> bit (rev (bs @ [b]) ! (i div 8)) (i mod 8)"
      unfolding nth using snoc.prems False by auto
    finally show ?thesis by simp
  qed
qed simp

definition lane :: "flash_opts \<Rightarrow> nat \<Rightarrow> nat" where
  "lane cfg b = (if fo_format cfg AND EB_ENDIAN_MASK = EB_BIG_ENDIAN then fl_size cfg - 1 - b else b)"

lemma bit_fl_data:
  assumes "length buf = fl_size cfg" "fl_size cfg \<le> 8"
  shows "b < fl_size cfg \<Longrightarrow> t < 8 \<Longrightarrow> bit (fl_data cfg buf) (8 * lane cfg b + t) \<longleftrightarrow> bit (buf ! b) t"
    and "8 * fl_size cfg \<le> i \<Longrightarrow> \<not> bit (fl_data cfg buf) i"
proof -
  let ?bs = "if fo_format cfg AND EB_ENDIAN_MASK = EB_BIG_ENDIAN then buf else rev buf"
  have len: "length ?bs = fl_size cfg" using assms(1) by simp
  have B: "bit (fl_data cfg buf) i \<longleftrightarrow> i < 8 * fl_size cfg \<and> bit (rev ?bs ! (i div 8)) (i mod 8)" for i
    using bit_fold_bytes [of ?bs i] assms unfolding fl_data_def len by simp
  show "\<not> bit (fl_data cfg buf) i" if "8 * fl_size cfg \<le> i" using B [of i] that by simp
  show "bit (fl_data cfg buf) (8 * lane cfg b + t) \<longleftrightarrow> bit (buf ! b) t" if bt: "b < fl_size cfg" "t < 8"
  proof -
    have l: "lane cfg b < fl_size cfg" using bt(1) by (auto simp: lane_def)
    have "rev ?bs ! lane cfg b = buf ! b" using bt(1) assms(1) by (auto simp: lane_def rev_nth)
    moreover have "(8 * lane cfg b + t) div 8 = lane cfg b" "(8 * lane cfg b + t) mod 8 = t" using bt(2) by simp_all
    moreover have "8 * lane cfg b + t < 8 * fl_size cfg" using l bt(2) by linarith
    ultimately show ?thesis unfolding B by simp
  qed
qed

lemma lane_less: "b < fl_size cfg \<Longrightarrow> lane cfg b < fl_size cfg"
  by (auto simp: lane_def)

text \<open>A flipped word stays within its width, and blank words stay blank.\<close>

lemma flip_within:
  assumes M: "fo_mask_0f cfg = fill_0f 8 0x0f" and x: "\<And>i. 8 * z \<le> i \<Longrightarrow> \<not> bit x i" and i: "8 * z \<le> i"
  shows "\<not> bit (flip_bits cfg x) i"
proof (cases "i < 64")
  case True
  have "i = 8 * (i div 8) + i mod 8" "i mod 8 < 8" "i div 8 < 8" "z \<le> i div 8" using True i by simp_all
  moreover have "8 * z \<le> 8 * (i div 8) + (if fo_invert cfg then 7 - i mod 8 else i mod 8)" using \<open>z \<le> i div 8\<close> by simp
  ultimately show ?thesis using bit_flip_bits [OF M, of "i mod 8" "i div 8" x] x by metis
next
  case False
  then show ?thesis using bit_imp_le_length [of "flip_bits cfg x" i] by auto
qed

lemma flip_blank:
  assumes M: "fo_mask_0f cfg = fill_0f 8 0x0f"
  shows "flip_bits cfg (mask (8 * z)) = mask (8 * z)"
proof (rule bit_word_eqI)
  fix i assume "i < LENGTH(64)"
  then have i: "i = 8 * (i div 8) + i mod 8" "i mod 8 < 8" "i div 8 < 8" by simp_all
  have B: "bit (mask (8 * z) :: u64) (8 * (i div 8) + t) \<longleftrightarrow> i div 8 < z" if "t < 8" for t
    using that i(3) by (auto simp: bit_mask_iff)
  have "bit (mask (8 * z) :: u64) (8 * (i div 8) + (if fo_invert cfg then 7 - i mod 8 else i mod 8)) \<longleftrightarrow> i div 8 < z"
    "bit (mask (8 * z) :: u64) (8 * (i div 8) + i mod 8) \<longleftrightarrow> i div 8 < z"
    by (rule B, simp add: less_imp_diff_less) (rule B, simp)
  then show "bit (flip_bits cfg (mask (8 * z))) i = bit (mask (8 * z) :: u64) i"
    using bit_flip_bits [OF M i(2,3), of "mask (8 * z)"] unfolding i(1) [symmetric] by simp
qed

section \<open>The access width\<close>

text \<open>The width chosen is the largest the device supports that is not larger than what the connection supports.\<close>

lemma pick_format_largest:
  assumes "j < 4" "line_width AND EB_DATAX = 2 ^ j"
  shows "pick_format line_width device_support =
    (if 3 \<le> j \<and> bit device_support 3 then EB_DATA64 else if 2 \<le> j \<and> bit device_support 2 then EB_DATA32
     else if 1 \<le> j \<and> bit device_support 1 then EB_DATA16 else if bit device_support 0 then EB_DATA8 else 0)"
proof -
  define x where "x = device_support AND (2 ^ j OR (2 ^ j - 1))"
  have bits: "bit x i \<longleftrightarrow> i \<le> j \<and> bit device_support i" for i
  proof -
    have "(2 ^ j OR (2 ^ j - 1) :: u8) = mask (Suc j)"
      by (rule bit_word_eqI) (auto simp: bit_simps mask_eq_exp_minus_1 [symmetric])
    then show ?thesis unfolding x_def by (auto simp: bit_simps dest: bit_imp_le_length)
  qed
  define h where "h x = (let format = x; format = format OR drop_bit 1 format; format = format OR drop_bit 2 format
    in ucast (drop_bit 1 (ucast format + 1 :: u32)) :: u8)" for x :: u8
  have p: "pick_format line_width device_support = h x"
    by (simp only: pick_format_def Let_def h_def x_def assms(2))
  have "x < 16"
  proof -
    have "x = take_bit 4 x" by (rule bit_word_eqI) (use bits assms(1) in \<open>auto simp: bit_simps\<close>)
    then have "unat x = unat (take_bit 4 x)" by simp
    then show ?thesis by (simp add: word_less_nat_alt unsigned_take_bit_eq) (metis take_bit_nat_less_exp [of 4, simplified])
  qed
  then have "unat x \<in> set [0..<16]" by (simp add: word_less_nat_alt)
  moreover have "\<forall>i \<in> set [0..<16]. (\<lambda>x :: u8. (let format = x; format = format OR drop_bit 1 format; format = format OR drop_bit 2 format
      in ucast (drop_bit 1 (ucast format + 1 :: u32)) :: u8) =
    (if bit x 3 then EB_DATA64 else if bit x 2 then EB_DATA32 else if bit x 1 then EB_DATA16 else if bit x 0 then EB_DATA8 else 0)) (of_nat i)"
    by code_simp
  ultimately have "(\<lambda>x :: u8. h x = (if bit x 3 then EB_DATA64 else if bit x 2 then EB_DATA32 else if bit x 1 then EB_DATA16
      else if bit x 0 then EB_DATA8 else 0)) (of_nat (unat x))"
    unfolding h_def by blast
  then have "h x = (if bit x 3 then EB_DATA64 else if bit x 2 then EB_DATA32 else if bit x 1 then EB_DATA16 else if bit x 0 then EB_DATA8 else 0)"
    by simp
  then show ?thesis unfolding p using bits by simp
qed

end
