(* ===== verification/Flash_Program.thy ===== *)
theory Flash_Program
  imports Flash_Scan Flash_Bits
begin

text \<open>
  Erasing, programming and verifying: the contents of the chip after each of the phases.
\<close>

section \<open>Erasing\<close>

definition outside :: "flash_opts \<Rightarrow> nat \<Rightarrow> nat \<Rightarrow> u64 \<Rightarrow> bool" where
  "outside cfg n k x \<longleftrightarrow> unat x < unat (fo_address cfg) \<or> unat (fo_address cfg) + n * 2 ^ k \<le> unat x"

lemma same_sector:
  assumes S: "flash_setting d ch cfg n" and j: "j < n"
  shows "off < n * 2 ^ ch_k ch \<Longrightarrow> drop_bit (ch_k ch) (word_addr cfg off) = drop_bit (ch_k ch) (word_addr cfg (j * 2 ^ ch_k ch)) \<longleftrightarrow> off div 2 ^ ch_k ch = j"
    and "outside cfg n (ch_k ch) x \<Longrightarrow> drop_bit (ch_k ch) x \<noteq> drop_bit (ch_k ch) (word_addr cfg (j * 2 ^ ch_k ch))"
proof -
  let ?S = "2 ^ ch_k ch :: nat"
  obtain a where a: "unat (fo_address cfg) = ?S * a" using setting_facts(12) [OF S] by (elim dvdE)
  have drop: "unat (drop_bit (ch_k ch) y) = unat y div ?S" for y :: u64 unfolding unat_drop_bit_eq by (simp add: drop_bit_eq_div)
  have jS: "j * ?S \<le> n * ?S" "j * ?S + ?S \<le> n * ?S" using j by (auto simp: mult_le_mono1) (metis Suc_leI add.commute mult_Suc mult_le_mono1)
  have uj: "unat (word_addr cfg (j * ?S)) div ?S = a + j" by (simp add: unat_word_addr [OF S jS(1)] a)
  show "drop_bit (ch_k ch) (word_addr cfg off) = drop_bit (ch_k ch) (word_addr cfg (j * ?S)) \<longleftrightarrow> off div ?S = j" if "off < n * ?S"
  proof -
    have "unat (word_addr cfg off) div ?S = a + off div ?S" using that by (simp add: unat_word_addr [OF S] a)
    then show ?thesis unfolding word_unat_eq_iff drop uj by simp
  qed
  show "drop_bit (ch_k ch) x \<noteq> drop_bit (ch_k ch) (word_addr cfg (j * ?S))" if "outside cfg n (ch_k ch) x"
  proof
    assume "drop_bit (ch_k ch) x = drop_bit (ch_k ch) (word_addr cfg (j * ?S))"
    then have d: "unat x div ?S = a + j" unfolding word_unat_eq_iff drop uj .
    have "(a + j) * ?S \<le> unat x" using d by (metis div_times_less_eq_dividend)
    moreover have "unat x < (a + j) * ?S + ?S" using dividend_less_div_times [of ?S "unat x"] d by simp
    ultimately show False using that jS(2) unfolding outside_def a by (simp add: algebra_simps)
  qed
qed

lemma erase_flash_ensures:
  assumes S: "flash_setting d ch cfg n" and idle: "fs_queue s = []" "fs_cycle s = []" and len: "n \<le> 8 * length (fs_bitmap s)"
    and dirty: "\<And>off. off < n * 2 ^ ch_k ch \<Longrightarrow> fl_size cfg dvd off \<Longrightarrow>
      sector_marked (fs_bitmap s) (off div 2 ^ ch_k ch) \<or> ch_mem ch (fs_w s) (word_addr cfg off) = fo_ffs cfg"
  shows "ensures (erase_flash d cfg s) (\<lambda>s'. \<exists>w. s' = s\<lparr>fs_w := w\<rparr> \<and>
    (\<forall>off < n * 2 ^ ch_k ch. fl_size cfg dvd off \<longrightarrow> ch_mem ch w (word_addr cfg off) = fo_ffs cfg) \<and>
    (\<forall>x. outside cfg n (ch_k ch) x \<longrightarrow> ch_mem ch w x = ch_mem ch (fs_w s) x))"
proof -
  let ?S = "2 ^ ch_k ch :: nat"
  let ?J = "\<lambda>j w. (\<forall>off < n * ?S. fl_size cfg dvd off \<longrightarrow>
      ch_mem ch w (word_addr cfg off) = (if off < j * ?S then fo_ffs cfg else ch_mem ch (fs_w s) (word_addr cfg off))) \<and>
    (\<forall>x. outside cfg n (ch_k ch) x \<longrightarrow> ch_mem ch w x = ch_mem ch (fs_w s) x)"
  have at: "fo_address cfg + of_nat j * fo_sector_size cfg = word_addr cfg (j * ?S)" for j
    by (simp add: word_addr_def setting_facts(11) [OF S])
  show ?thesis unfolding erase_flash_def sectors [OF S]
  proof (rule ensures_and_then [OF positions_ensures [where step = "fo_sector_size cfg" and n = n and
          iv = "\<lambda>j (i, s'). i = int j \<and> (\<exists>w. s' = s\<lparr>fs_w := w\<rparr> \<and> ?J j w)"]])
    show "case (0, s) of (i, s') \<Rightarrow> i = int 0 \<and> (\<exists>w. s' = s\<lparr>fs_w := w\<rparr> \<and> ?J 0 w)"
      by (auto intro!: exI [of _ "fs_w s"])
  next
    fix j t assume j: "j < n" and t: "case t of (i, s') \<Rightarrow> i = int j \<and> (\<exists>w. s' = s\<lparr>fs_w := w\<rparr> \<and> ?J j w)"
    obtain w where w: "t = (int j, s\<lparr>fs_w := w\<rparr>)" "?J j w" using t by (cases t) auto
    have get: "bitmask_get (fs_bitmap (s\<lparr>fs_w := w\<rparr>)) (int j) = Some (sector_marked (fs_bitmap s) j)"
      using j len by (simp add: bitmask_get_marked)
    have nx: "fo_address cfg + of_nat j * fo_sector_size cfg + fo_sector_size cfg = fo_address cfg + of_nat (Suc j) * fo_sector_size cfg"
      by (simp add: algebra_simps)
    have nx': "word_addr cfg (j * ?S) + fo_sector_size cfg = word_addr cfg (Suc j * ?S)" unfolding at [symmetric] by (rule nx)
    have Suc_iff: "off < Suc j * ?S \<longleftrightarrow> off < j * ?S \<or> off div ?S = j" for off
      by (metis div_less_iff_less_mult less_Suc_eq zero_less_numeral zero_less_power)
    have jS: "j * ?S < n * ?S" using j by simp
    show "ensures (case (fo_address cfg + of_nat j * fo_sector_size cfg, t) of (sector, i, s) \<Rightarrow> do {
           b \<leftarrow> bitmask_get (fs_bitmap s) i;
           if \<not> b then Some (Inr (sector + fo_sector_size cfg, i + 1, s))
           else and_then (erase_and_wait d cfg sector s) (\<lambda>s. Some (Inr (sector + fo_sector_size cfg, i + 1, s))) })
        (\<lambda>(x, s'). x = fo_address cfg + of_nat (Suc j) * fo_sector_size cfg \<and>
          (case s' of (i, s') \<Rightarrow> i = int (Suc j) \<and> (\<exists>w. s' = s\<lparr>fs_w := w\<rparr> \<and> ?J (Suc j) w)))"
    proof (cases "sector_marked (fs_bitmap s) j")
      case False
      then have "?J (Suc j) w" using w(2) dirty unfolding Suc_iff by (metis (no_types, lifting))
      then show ?thesis unfolding w(1) prod.case get Option.bind.simps nx using False by auto
    next
      case True
      let ?B = "blank ch (\<lambda>x. drop_bit (ch_k ch) x = drop_bit (ch_k ch) (word_addr cfg (j * ?S))) (ch_mem ch w)"
      have mem: "word_addr cfg (j * ?S) \<in> ch_words ch" using setting_facts(19) [OF S jS] size_dvd_sector(1) [OF S] by simp
      have E: "ensures (erase_and_wait d cfg (word_addr cfg (j * ?S)) (s\<lparr>fs_w := w\<rparr>))
          (\<lambda>s'. \<exists>w'. s' = s\<lparr>fs_w := w, fs_w := w'\<rparr> \<and> ch_mem ch w' =
            blank ch (\<lambda>x. drop_bit (ch_k ch) x = drop_bit (ch_k ch) (word_addr cfg (j * ?S))) (ch_mem ch (fs_w (s\<lparr>fs_w := w\<rparr>))))"
      proof (rule erase_ensures [OF setting_facts(1,3,4,5) [OF S]])
        show "ch_k ch \<le> 8 * ch_bytes ch" using setting_facts(5,10) [OF S] by auto
        show "\<forall>x \<in> ch_words ch. drop_bit (8 * ch_bytes ch) x = drop_bit (8 * ch_bytes ch) (word_addr cfg (j * ?S))"
          using setting_facts(21) [OF S _ mem] by blast
      qed (use idle in simp_all)
      have J: "?J (Suc j) w'" if w': "ch_mem ch w' = ?B" for w'
      proof (intro conjI allI impI)
        fix off assume off: "off < n * ?S" "fl_size cfg dvd off"
        have "word_addr cfg off \<in> ch_words ch" by (rule setting_facts(19) [OF S off])
        moreover have "ch_mem ch w (word_addr cfg off) = (if off < j * ?S then fo_ffs cfg else ch_mem ch (fs_w s) (word_addr cfg off))"
          using w(2) off by blast
        ultimately show "ch_mem ch w' (word_addr cfg off) = (if off < Suc j * ?S then fo_ffs cfg else ch_mem ch (fs_w s) (word_addr cfg off))"
          unfolding w' blank_def same_sector(1) [OF S j off(1)] Suc_iff setting_facts(8) [OF S, symmetric] by simp
      next
        fix x assume "outside cfg n (ch_k ch) x"
        then show "ch_mem ch w' x = ch_mem ch (fs_w s) x"
          using same_sector(2) [OF S j] w(2) unfolding w' blank_def by simp
      qed
      have "ensures (and_then (erase_and_wait d cfg (word_addr cfg (j * ?S)) (s\<lparr>fs_w := w\<rparr>)) (\<lambda>s. Some (Inr (word_addr cfg (Suc j * ?S), int j + 1, s))))
          (\<lambda>(x, s'). x = word_addr cfg (Suc j * ?S) \<and> (case s' of (i, s') \<Rightarrow> i = int (Suc j) \<and> (\<exists>w. s' = s\<lparr>fs_w := w\<rparr> \<and> ?J (Suc j) w)))"
      proof (rule ensures_and_then [OF E], elim exE conjE)
        fix s' w' assume s': "s' = s\<lparr>fs_w := w, fs_w := w'\<rparr>" "ch_mem ch w' =
            blank ch (\<lambda>x. drop_bit (ch_k ch) x = drop_bit (ch_k ch) (word_addr cfg (j * ?S))) (ch_mem ch (fs_w (s\<lparr>fs_w := w\<rparr>)))"
        then have "s' = s\<lparr>fs_w := w'\<rparr>" "?J (Suc j) w'" using J [of w'] by simp_all
        then show "ensures (Some (Inr (word_addr cfg (Suc j * ?S), int j + 1, s')))
            (\<lambda>(x, s'). x = word_addr cfg (Suc j * ?S) \<and> (case s' of (i, s') \<Rightarrow> i = int (Suc j) \<and> (\<exists>w. s' = s\<lparr>fs_w := w\<rparr> \<and> ?J (Suc j) w)))"
          unfolding ensures_Some prod.case by (intro conjI refl exI [of _ w']) simp_all
      qed
      then show ?thesis unfolding w(1) prod.case get Option.bind.simps at nx' using True by (simp only: not_True_eq_False if_False simp_thms)
    qed
  next
    fix t assume "case t of (x, s') \<Rightarrow> case s' of (i, s') \<Rightarrow> i = int n \<and> (\<exists>w. s' = s\<lparr>fs_w := w\<rparr> \<and> ?J n w)"
    then show "ensures (case t of (_, _, s) \<Rightarrow> Some (Inr s)) (\<lambda>s'. \<exists>w. s' = s\<lparr>fs_w := w\<rparr> \<and>
        (\<forall>off < n * ?S. fl_size cfg dvd off \<longrightarrow> ch_mem ch w (word_addr cfg off) = fo_ffs cfg) \<and>
        (\<forall>x. outside cfg n (ch_k ch) x \<longrightarrow> ch_mem ch w x = ch_mem ch (fs_w s) x))"
      by (auto split: prod.splits)
  qed (use unat_sector_size [OF S] setting_facts(14) [OF S] in simp_all)
qed

section \<open>Programming\<close>

definition firmware_word :: "flash_opts \<Rightarrow> nat \<Rightarrow> u64" where
  "firmware_word cfg l = flip_bits cfg (fl_data cfg (take (fl_size cfg) (drop (l * fl_size cfg) (fo_firmware cfg))))"

text \<open>The memory \<open>m\<close> with the first \<open>i\<close> words of the firmware in it.\<close>

primrec programmed :: "flash_opts \<Rightarrow> (u64 \<Rightarrow> u64) \<Rightarrow> nat \<Rightarrow> u64 \<Rightarrow> u64" where
  "programmed cfg m 0 = m"
| "programmed cfg m (Suc i) = (programmed cfg m i)(word_addr cfg (i * fl_size cfg) := firmware_word cfg i)"

text \<open>The memory will be \<open>T\<close> when everything under way is done.\<close>

definition prog_inv :: "'w flash_dev \<Rightarrow> 'w flash_chip \<Rightarrow> flash_opts \<Rightarrow> nat \<Rightarrow> nat \<Rightarrow> (u64 \<Rightarrow> u64) \<Rightarrow> 'w flash_st \<Rightarrow> bool" where
  "prog_inv d ch cfg n p T s \<longleftrightarrow>
     flash_setting d ch cfg n \<and> fs_inflight s = int (length (fs_queue s)) \<and> fs_pos s = p \<and> fs_last_offset s = -1 \<and>
     (\<forall>op \<in> set (pend s). \<exists>a \<in> ch_words ch. \<exists>v. op = fwrite_op a (fo_format cfg) v) \<and> after (pend s) (ch_mem ch (fs_w s)) = T"

lemma run_writes:
  assumes "memory_law d ch fmt" "\<forall>op \<in> set c. \<exists>a \<in> ch_words ch. \<exists>v. op = fwrite_op a fmt v" "run_cycle d EB_OK c w = (st, c', w')"
  shows "st = EB_OK" "\<forall>op \<in> set c'. \<not> fop_error op" "ch_mem ch w' = after c (ch_mem ch w)"
proof -
  have "\<forall>op \<in> set c. fop_write op \<and> fop_format op = fmt \<and> fop_address op \<in> ch_words ch"
    using assms(2) by (auto simp: fwrite_op_def)
  from perform_writes [OF assms(1) this, of w]
  show "st = EB_OK" "\<forall>op \<in> set c'. \<not> fop_error op" "ch_mem ch w' = after c (ch_mem ch w)"
    using assms(3) by (auto simp: run_cycle_def split: prod.splits if_splits)
qed

interpretation prog: cycle_user d "program_decrement" "ch_mem ch" "prog_inv d ch cfg n p T" for d ch cfg n p T
proof
  fix s assume I: "prog_inv d ch cfg n p T s"
  then show "link_law d (ch_mem ch)" unfolding prog_inv_def by (blast dest: setting_facts(1))
  show "prog_inv d ch cfg n p T (s\<lparr>fs_w := w\<rparr>)" if "ch_mem ch w = ch_mem ch (fs_w s)" for w
    using I that by (simp add: prog_inv_def pend_def)
  show "prog_inv d ch cfg n p T (close_cycle s)" using I by (simp add: prog_inv_def) (simp add: close_cycle_def)
  show "fs_inflight s = int (length (fs_queue s))" using I unfolding prog_inv_def by blast
next
  fix s c q st c' w
  assume I: "prog_inv d ch cfg n p T s" and q: "fs_queue s = c # q" and r: "run_cycle d EB_OK c (fs_w s) = (st, c', w)"
  have S: "flash_setting d ch cfg n" using I unfolding prog_inv_def by blast
  have pend: "pend s = c @ concat q @ fs_cycle s" by (simp add: pend_def q)
  have "\<forall>op \<in> set c. \<exists>a \<in> ch_words ch. \<exists>v. op = fwrite_op a (fo_format cfg) v" using I unfolding prog_inv_def pend by auto
  note run = run_writes [OF setting_facts(2) [OF S] this r]
  have "prog_inv d ch cfg n p T (s\<lparr>fs_w := w, fs_queue := q, fs_inflight := fs_inflight s - 1\<rparr>)"
    using I run(3) unfolding prog_inv_def pend by (simp add: q pend_def)
  then show "ensures (program_decrement c' st (s\<lparr>fs_w := w, fs_queue := q\<rparr>))
      (\<lambda>s'. prog_inv d ch cfg n p T s' \<and> fs_queue s' = q \<and> fs_cycle s' = fs_cycle s)"
    using run(1,2) by (simp add: program_decrement_def)
qed

lemma programmed_other: "(\<And>l. l < i \<Longrightarrow> x \<noteq> word_addr cfg (l * fl_size cfg)) \<Longrightarrow> programmed cfg m i x = m x"
  by (induction i) auto

lemma word_position_inj:
  assumes "flash_setting d ch cfg n" "l * fl_size cfg \<le> n * 2 ^ ch_k ch" "l' * fl_size cfg \<le> n * 2 ^ ch_k ch"
  shows "word_addr cfg (l * fl_size cfg) = word_addr cfg (l' * fl_size cfg) \<longleftrightarrow> l = l'"
  using word_addr_inj [OF assms] size_dvd_sector(3) [OF assms(1)] by simp

lemma programmed_next:
  assumes "flash_setting d ch cfg n" "i * fl_size cfg \<le> n * 2 ^ ch_k ch"
  shows "programmed cfg m i (word_addr cfg (i * fl_size cfg)) = m (word_addr cfg (i * fl_size cfg))"
proof (rule programmed_other)
  fix l assume l: "l < i"
  then have "l * fl_size cfg \<le> n * 2 ^ ch_k ch" using assms(2) by (meson le_trans less_imp_le_nat mult_le_mono1)
  from word_position_inj [OF assms this] show "word_addr cfg (i * fl_size cfg) \<noteq> word_addr cfg (l * fl_size cfg)" using l by simp
qed

lemma programmed_at:
  assumes "flash_setting d ch cfg n"
  shows "i * fl_size cfg \<le> n * 2 ^ ch_k ch \<Longrightarrow> l < i \<Longrightarrow> programmed cfg m i (word_addr cfg (l * fl_size cfg)) = firmware_word cfg l"
proof (induction i)
  case (Suc i)
  have "l * fl_size cfg \<le> n * 2 ^ ch_k ch" "i * fl_size cfg \<le> n * 2 ^ ch_k ch"
    using Suc.prems by (meson le_SucI le_trans less_imp_le_nat mult_le_mono1 order_refl)+
  then show ?case using Suc word_position_inj [OF assms] by (cases "l = i") auto
qed simp

lemma prog_add:
  assumes "prog_inv d ch cfg n p T s" "a \<in> ch_words ch"
  shows "prog_inv d ch cfg n p (T(a := T a AND v)) (add_op (fwrite_op a (fo_format cfg) v) s)"
  using assms unfolding prog_inv_def by (auto simp: add_op_def pend_def fwrite_op_def)

lemma word_index_fits:
  assumes "flash_setting d ch cfg n" "l < length (fo_firmware cfg) div fl_size cfg"
  shows "Suc l * fl_size cfg \<le> length (fo_firmware cfg)" "Suc l * fl_size cfg \<le> n * 2 ^ ch_k ch" "l * fl_size cfg < n * 2 ^ ch_k ch"
    "word_addr cfg (l * fl_size cfg) \<in> ch_words ch"
proof -
  have "Suc l \<le> length (fo_firmware cfg) div fl_size cfg" using assms(2) by simp
  then have "Suc l * fl_size cfg \<le> length (fo_firmware cfg) div fl_size cfg * fl_size cfg" by (rule mult_le_mono1)
  also have "\<dots> = length (fo_firmware cfg)" using setting_facts(18) [OF assms(1)] by simp
  finally show a: "Suc l * fl_size cfg \<le> length (fo_firmware cfg)" .
  then show b: "Suc l * fl_size cfg \<le> n * 2 ^ ch_k ch" using length_le_sectors(1) [OF assms(1)] by (rule le_trans)
  have "l * fl_size cfg < Suc l * fl_size cfg" using size_dvd_sector(3) [OF assms(1)] by simp
  then show c: "l * fl_size cfg < n * 2 ^ ch_k ch" using b by (rule less_le_trans)
  show "word_addr cfg (l * fl_size cfg) \<in> ch_words ch" by (rule setting_facts(19) [OF assms(1) c]) simp
qed

text \<open>One turn of the loop: the word is already there, or its write is added to the cycle.\<close>

lemma program_step_ensures:
  assumes S: "flash_setting d ch cfg n" and M: "fo_mask_0f cfg = fill_0f 8 0x0f" and i: "i < length (fo_firmware cfg) div fl_size cfg"
    and blank: "\<forall>off < n * 2 ^ ch_k ch. fl_size cfg dvd off \<longrightarrow> m (word_addr cfg off) = fo_ffs cfg"
    and I: "prog_inv d ch cfg n (i * fl_size cfg) (programmed cfg m i) s" and ops: "ops = length (fs_cycle s)"
  defines "off \<equiv> word_addr cfg (i * fl_size cfg)" and "nx \<equiv> word_addr cfg (Suc i * fl_size cfg)"
  shows "ensures (case fread cfg (fl_size cfg) s of
      None \<Rightarrow> Some (Inl 1)
    | Some (buf, s) \<Rightarrow>
        if skip \<and> fl_data cfg buf = fo_ffs cfg then Some (Inr (nx, ops, skip, s))
        else if off = fo_erase_address cfg then Some (Inr (nx, ops, skip, s))
        else if nx mod fo_page_size cfg = 0
        then and_then (next_cycle d program_decrement cfg (add_op (fwrite_op off (fo_format cfg) (flip_bits cfg (fl_data cfg buf))) s)) (\<lambda>s. Some (Inr (nx, 0, True, s)))
        else Some (Inr (nx, ops + 1, False, add_op (fwrite_op off (fo_format cfg) (flip_bits cfg (fl_data cfg buf))) s)))
    (\<lambda>(x, ops, skip, s'). x = nx \<and> prog_inv d ch cfg n (Suc i * fl_size cfg) (programmed cfg m (Suc i)) s' \<and> ops = length (fs_cycle s'))"
    (is "ensures _ ?post")
proof -
  let ?z = "fl_size cfg" and ?buf = "take (fl_size cfg) (drop (i * fl_size cfg) (fo_firmware cfg))"
  note fits = word_index_fits [OF S i]
  let ?s3 = "s\<lparr>fs_pos := i * ?z + ?z\<rparr>" and ?w = "flip_bits cfg (fl_data cfg ?buf)"
  have z: "0 < ?z" "?z \<le> 8" and ffs: "fo_ffs cfg = mask (8 * ?z)" using size_dvd_sector(3,4) [OF S] setting_facts(7,8) [OF S] by simp_all
  have len: "length ?buf = ?z" using fits(1) by simp
  have rd: "fread cfg ?z s = Some (?buf, ?s3)" using len I by (simp add: fread_def prog_inv_def)
  have "i * ?z < length (fo_firmware cfg)" using fits(1) z(1) by simp
  then have notea: "off \<noteq> fo_erase_address cfg" unfolding off_def by (rule setting_facts(20) [OF S])
  have was: "programmed cfg m i off = mask (8 * ?z)"
    using programmed_next [OF S less_imp_le [OF fits(3)]] fits(3) blank ffs by (simp add: off_def)
  have fw: "programmed cfg m (Suc i) = (programmed cfg m i)(off := ?w)" by (simp add: firmware_word_def off_def)
  have hi: "bit ?w j \<Longrightarrow> j < 8 * ?z" for j
    using flip_within [OF M, of ?z "fl_data cfg ?buf" j] bit_fl_data(2) [OF len z(2)] by (meson not_less)
  have within: "mask (8 * ?z) AND ?w = ?w" by (rule bit_word_eqI) (use hi in \<open>auto simp: bit_simps\<close>)
  have I3: "prog_inv d ch cfg n (Suc i * ?z) (programmed cfg m i) ?s3" using I by (simp add: prog_inv_def pend_def)
  have I4: "prog_inv d ch cfg n (Suc i * ?z) (programmed cfg m (Suc i)) (add_op (fwrite_op off (fo_format cfg) ?w) ?s3)"
    using prog_add [OF I3 fits(4), of ?w] was within unfolding fw by (simp add: off_def)
  show ?thesis unfolding rd option.case prod.case
  proof (cases "skip \<and> fl_data cfg ?buf = fo_ffs cfg")
    case True
    then have "?w = mask (8 * ?z)" using flip_blank [OF M] unfolding ffs by simp
    then have skipped: "programmed cfg m (Suc i) = programmed cfg m i" unfolding fw using was by (simp add: fun_upd_idem)
    show "ensures (if skip \<and> fl_data cfg ?buf = fo_ffs cfg then Some (Inr (nx, ops, skip, ?s3))
        else if off = fo_erase_address cfg then Some (Inr (nx, ops, skip, ?s3))
        else if nx mod fo_page_size cfg = 0
        then and_then (next_cycle d program_decrement cfg (add_op (fwrite_op off (fo_format cfg) ?w) ?s3)) (\<lambda>s. Some (Inr (nx, 0, True, s)))
        else Some (Inr (nx, ops + 1, False, add_op (fwrite_op off (fo_format cfg) ?w) ?s3))) ?post"
      unfolding if_P [OF True] skipped using I3 ops by simp
  next
    case False
    have N: "ensures (and_then (next_cycle d program_decrement cfg (add_op (fwrite_op off (fo_format cfg) ?w) ?s3)) (\<lambda>s. Some (Inr (nx, 0, True, s)))) ?post"
      by (rule ensures_and_then [OF prog.next_ensures [OF I4 setting_facts(22) [OF S]]]) simp
    show "ensures (if skip \<and> fl_data cfg ?buf = fo_ffs cfg then Some (Inr (nx, ops, skip, ?s3))
        else if off = fo_erase_address cfg then Some (Inr (nx, ops, skip, ?s3))
        else if nx mod fo_page_size cfg = 0
        then and_then (next_cycle d program_decrement cfg (add_op (fwrite_op off (fo_format cfg) ?w) ?s3)) (\<lambda>s. Some (Inr (nx, 0, True, s)))
        else Some (Inr (nx, ops + 1, False, add_op (fwrite_op off (fo_format cfg) ?w) ?s3))) ?post"
      unfolding if_not_P [OF False] if_not_P [OF notea] using N I4 ops
      by (cases "nx mod fo_page_size cfg = 0") (simp_all del: programmed.simps mult_Suc add: add_op_def)
  qed
qed

lemma program_flash_ensures:
  assumes S: "flash_setting d ch cfg n" and M: "fo_mask_0f cfg = fill_0f 8 0x0f"
    and idle: "fs_queue s = []" "fs_cycle s = []" "fs_pos s = 0" "fs_last_offset s = -1"
    and blank: "\<forall>off < n * 2 ^ ch_k ch. fl_size cfg dvd off \<longrightarrow> ch_mem ch (fs_w s) (word_addr cfg off) = fo_ffs cfg"
  shows "ensures (program_flash d cfg s) (\<lambda>s'. fs_queue s' = [] \<and> fs_cycle s' = [] \<and> fs_last_offset s' = -1 \<and>
    ch_mem ch (fs_w s') = programmed cfg (ch_mem ch (fs_w s)) (length (fo_firmware cfg) div fl_size cfg))"
    (is "ensures _ ?post")
proof -
  let ?z = "fl_size cfg" and ?m = "ch_mem ch (fs_w s)"
  define N where "N = length (fo_firmware cfg) div ?z"
  have z: "0 < ?z" "?z \<le> 8" using size_dvd_sector [OF S] by auto
  have L: "length (fo_firmware cfg) = N * ?z" using setting_facts(18) [OF S] by (simp add: N_def)
  have fits: "N * ?z \<le> n * 2 ^ ch_k ch" using length_le_sectors(1) [OF S] L by simp
  have at: "fo_address cfg + of_nat i * of_nat ?z = word_addr cfg (i * ?z)" for i by (simp add: word_addr_def)
  have fin: "fo_address cfg + fo_firmware_length cfg = fo_address cfg + of_nat N * of_nat ?z"
    using setting_facts(16) [OF S] L by simp
  have step: "unat (of_nat ?z :: u64) = ?z" using z(2) by (simp add: unat_of_nat)
  have nx: "word_addr cfg (i * ?z) + of_nat ?z = word_addr cfg (Suc i * ?z)" for i by (simp add: word_addr_def)
  let ?J = "\<lambda>i (ops, skip :: bool, s'). prog_inv d ch cfg n (i * ?z) (programmed cfg ?m i) s' \<and> ops = length (fs_cycle s')"
  show ?thesis unfolding program_flash_def Let_def
  proof (rule ensures_and_then [OF open_ensures [OF setting_facts(1) [OF S]]], elim exE conjE)
    fix s1 w assume w: "ch_mem ch w = ch_mem ch (fs_w (s\<lparr>fs_inflight := 0\<rparr>))" "s1 = s\<lparr>fs_inflight := 0, fs_w := w, fs_cycle := []\<rparr>"
    show "ensures (and_then (repeat_while (\<lambda>(offset, st). offset \<noteq> fo_address cfg + fo_firmware_length cfg)
           (\<lambda>(offset, ops, may_skip_ffs, s).
            case fread cfg (fl_size cfg) s of
              None \<Rightarrow> Some (Inl 1)
            | Some (buf, s) \<Rightarrow>
                if may_skip_ffs \<and> fl_data cfg buf = fo_ffs cfg then Some (Inr (offset + of_nat (fl_size cfg), ops, may_skip_ffs, s))
                else if offset = fo_erase_address cfg then Some (Inr (offset + of_nat (fl_size cfg), ops, may_skip_ffs, s))
                else if (offset + of_nat (fl_size cfg)) mod fo_page_size cfg = 0
                then and_then (next_cycle d program_decrement cfg (add_op (fwrite_op offset (fo_format cfg) (flip_bits cfg (fl_data cfg buf))) s))
                  (\<lambda>s. Some (Inr (offset + of_nat (fl_size cfg), 0, True, s)))
                else Some (Inr (offset + of_nat (fl_size cfg), ops + 1, False, add_op (fwrite_op offset (fo_format cfg) (flip_bits cfg (fl_data cfg buf))) s)))
         (fo_address cfg, 0, True, s1)) (\<lambda>(_, ops, _, s). last_cycle d program_decrement ops s)) ?post"
      unfolding N_def [symmetric]
    proof (rule ensures_and_then [OF positions_ensures [where step = "of_nat ?z" and n = N and iv = ?J]])
      show "?J 0 (0, True, s1)" using S idle w by (simp add: prog_inv_def pend_def)
      show "0 < unat (of_nat ?z :: u64)" "N * unat (of_nat ?z :: u64) < 2 ^ 64"
        unfolding step using z(1) fits setting_facts(14) [OF S] by auto
      show "fo_address cfg + fo_firmware_length cfg = fo_address cfg + of_nat N * of_nat ?z" by (rule fin)
    next
      fix i t assume i: "i < N" and t: "?J i t"
      obtain skip s2 where s2: "t = (length (fs_cycle s2), skip, s2)" "prog_inv d ch cfg n (i * ?z) (programmed cfg ?m i) s2"
        using t by (cases t) auto
      show "ensures (case (fo_address cfg + of_nat i * of_nat ?z, t) of (offset, ops, may_skip_ffs, s) \<Rightarrow>
            case fread cfg (fl_size cfg) s of
              None \<Rightarrow> Some (Inl 1)
            | Some (buf, s) \<Rightarrow>
                if may_skip_ffs \<and> fl_data cfg buf = fo_ffs cfg then Some (Inr (offset + of_nat (fl_size cfg), ops, may_skip_ffs, s))
                else if offset = fo_erase_address cfg then Some (Inr (offset + of_nat (fl_size cfg), ops, may_skip_ffs, s))
                else if (offset + of_nat (fl_size cfg)) mod fo_page_size cfg = 0
                then and_then (next_cycle d program_decrement cfg (add_op (fwrite_op offset (fo_format cfg) (flip_bits cfg (fl_data cfg buf))) s))
                  (\<lambda>s. Some (Inr (offset + of_nat (fl_size cfg), 0, True, s)))
                else Some (Inr (offset + of_nat (fl_size cfg), ops + 1, False, add_op (fwrite_op offset (fo_format cfg) (flip_bits cfg (fl_data cfg buf))) s)))
        (\<lambda>(x, s'). x = fo_address cfg + of_nat (Suc i) * of_nat ?z \<and> ?J (Suc i) s')"
        unfolding s2(1) at prod.case nx
        by (rule ensures_mono [OF program_step_ensures [OF S M i [unfolded N_def] blank s2(2) refl]]) auto
    next
      fix t assume t: "case t of (x, s') \<Rightarrow> ?J N s'"
      obtain x ops skip s2 where t': "t = (x, ops, skip, s2)" by (metis prod.exhaust)
      show "ensures (case t of (_, ops, _, s) \<Rightarrow> last_cycle d program_decrement ops s)
          (\<lambda>s'. fs_queue s' = [] \<and> fs_cycle s' = [] \<and> fs_last_offset s' = -1 \<and> ch_mem ch (fs_w s') = programmed cfg ?m N)"
        using t unfolding t' prod.case
        by (intro ensures_mono [OF prog.last_ensures]) (auto simp: prog_inv_def pend_def)
    qed
  qed
qed

section \<open>Verifying\<close>

definition file_in_step :: "flash_opts \<Rightarrow> 'w flash_st \<Rightarrow> bool" where
  "file_in_step cfg s \<longleftrightarrow> (\<forall>l < length (fo_firmware cfg) div fl_size cfg.
     fs_last_offset s = word_addr cfg (l * fl_size cfg) \<longrightarrow> fs_pos s = l * fl_size cfg)"

definition verify_inv :: "'w flash_dev \<Rightarrow> 'w flash_chip \<Rightarrow> flash_opts \<Rightarrow> nat \<Rightarrow> (u64 \<Rightarrow> u64) \<Rightarrow> 'w flash_st \<Rightarrow> bool" where
  "verify_inv d ch cfg n m s \<longleftrightarrow>
     flash_setting d ch cfg n \<and> ch_mem ch (fs_w s) = m \<and> fs_inflight s = int (length (fs_queue s)) \<and> file_in_step cfg s \<and>
     (\<forall>l < length (fo_firmware cfg) div fl_size cfg. m (word_addr cfg (l * fl_size cfg)) = firmware_word cfg l) \<and>
     (\<forall>op \<in> set (pend s). \<exists>l < length (fo_firmware cfg) div fl_size cfg. op = fread_op (word_addr cfg (l * fl_size cfg)) (fo_format cfg))"

lemma verify_ops_ensures:
  assumes S: "flash_setting d ch cfg n"
  shows "file_in_step cfg s \<Longrightarrow> \<forall>op \<in> set ops. \<exists>l < length (fo_firmware cfg) div fl_size cfg.
      op = (fread_op (word_addr cfg (l * fl_size cfg)) (fo_format cfg))\<lparr>fop_data := firmware_word cfg l, fop_error := False\<rparr> \<Longrightarrow>
    ensures (verify_ops cfg ops s) (\<lambda>s'. file_in_step cfg s' \<and> (\<exists>p l. s' = s\<lparr>fs_pos := p, fs_last_offset := l\<rparr>))"
proof (induction ops arbitrary: s)
  case Nil
  then show ?case by (auto intro!: exI [of _ "fs_pos s"] exI [of _ "fs_last_offset s"])
next
  case (Cons op ops)
  let ?z = "fl_size cfg"
  obtain l where l: "l < length (fo_firmware cfg) div ?z"
    "op = (fread_op (word_addr cfg (l * ?z)) (fo_format cfg))\<lparr>fop_data := firmware_word cfg l, fop_error := False\<rparr>"
    using Cons.prems(2) by auto
  have op: "\<not> fop_error op" "fop_address op = word_addr cfg (l * ?z)" "fop_data op = firmware_word cfg l" "unat (fop_format op AND EB_DATAX) = ?z"
    by (simp_all add: l(2) fread_op_def fl_size_def)
  note fits = word_index_fits [OF S l(1)]
  let ?s1 = "if fs_last_offset s \<noteq> fop_address op
      then s\<lparr>fs_last_offset := fop_address op, fs_pos := unat (fop_address op - fo_address cfg)\<rparr> else s"
  let ?s2 = "s\<lparr>fs_pos := Suc l * ?z, fs_last_offset := word_addr cfg (Suc l * ?z)\<rparr>"
  have "length (fo_firmware cfg) < 2 ^ 64" by (rule setting_facts(17) [OF S])
  then have "unat (word_addr cfg (l * ?z) - fo_address cfg) = l * ?z"
    using fits(1) by (simp add: word_addr_def unat_of_nat del: of_nat_mult)
  then have pos: "fs_pos ?s1 = l * ?z" "fs_last_offset ?s1 = word_addr cfg (l * ?z)"
    using Cons.prems(1) l(1) op(2) unfolding file_in_step_def by auto
  have len: "length (take ?z (drop (l * ?z) (fo_firmware cfg))) = ?z" using fits(1) by simp
  have rd: "fread cfg ?z ?s1 = Some (take ?z (drop (l * ?z) (fo_firmware cfg)), ?s1\<lparr>fs_pos := l * ?z + ?z\<rparr>)"
    using len by (simp only: fread_def pos Let_def if_False simp_thms)
  have nx: "word_addr cfg (l * ?z) + of_nat ?z = word_addr cfg (Suc l * ?z)" by (simp add: word_addr_def)
  have s2: "?s1\<lparr>fs_pos := l * ?z + ?z, fs_last_offset := fs_last_offset (?s1\<lparr>fs_pos := l * ?z + ?z\<rparr>) + of_nat ?z\<rparr> = ?s2"
    using pos(2) nx by (cases s) (auto simp: add.commute)
  have F: "file_in_step cfg ?s2"
    unfolding file_in_step_def
  proof (intro allI impI)
    fix l' assume l': "l' < length (fo_firmware cfg) div ?z" "fs_last_offset ?s2 = word_addr cfg (l' * ?z)"
    have "word_addr cfg (Suc l * ?z) = word_addr cfg (l' * ?z)" using l'(2) by simp
    then have "Suc l = l'"
      using word_position_inj [OF S fits(2) less_imp_le [OF word_index_fits(3) [OF S l'(1)]]] by blast
    then show "fs_pos ?s2 = l' * ?z" by simp
  qed
  have "verify_ops cfg (op # ops) s = verify_ops cfg ops ?s2"
    using s2 unfolding verify_ops.simps op(4) Let_def rd
    by (simp add: op(1,3) firmware_word_def [symmetric])
  moreover have "ensures (verify_ops cfg ops ?s2) (\<lambda>s'. file_in_step cfg s' \<and> (\<exists>p l. s' = ?s2\<lparr>fs_pos := p, fs_last_offset := l\<rparr>))"
    by (rule Cons.IH [OF F]) (use Cons.prems(2) in auto)
  ultimately show ?case by (auto elim!: ensures_mono)
qed

interpretation verify: cycle_user d "verify_decrement cfg" "ch_mem ch" "verify_inv d ch cfg n m" for d ch cfg n m
proof
  fix s assume I: "verify_inv d ch cfg n m s"
  then show "link_law d (ch_mem ch)" unfolding verify_inv_def by (blast dest: setting_facts(1))
  show "verify_inv d ch cfg n m (s\<lparr>fs_w := w\<rparr>)" if "ch_mem ch w = ch_mem ch (fs_w s)" for w
    using I that by (simp add: verify_inv_def pend_def file_in_step_def)
  show "verify_inv d ch cfg n m (close_cycle s)"
    using I by (simp add: verify_inv_def) (simp add: close_cycle_def file_in_step_def)
  show "fs_inflight s = int (length (fs_queue s))" using I unfolding verify_inv_def by blast
next
  fix s c q st c' w
  assume I: "verify_inv d ch cfg n m s" and q: "fs_queue s = c # q" and r: "run_cycle d EB_OK c (fs_w s) = (st, c', w)"
  have S: "flash_setting d ch cfg n" and m: "ch_mem ch (fs_w s) = m" using I unfolding verify_inv_def by auto
  have pend: "pend s = c @ concat q @ fs_cycle s" by (simp add: pend_def q)
  have ops: "\<exists>l < length (fo_firmware cfg) div fl_size cfg. op = fread_op (word_addr cfg (l * fl_size cfg)) (fo_format cfg)" if "op \<in> set (pend s)" for op
    using I that unfolding verify_inv_def by blast
  have good: "m (word_addr cfg (l * fl_size cfg)) = firmware_word cfg l" if "l < length (fo_firmware cfg) div fl_size cfg" for l
    using I that unfolding verify_inv_def by blast
  have "\<forall>op \<in> set c. \<exists>a \<in> ch_words ch. op = fread_op a (fo_format cfg)"
    using ops word_index_fits(4) [OF S] unfolding pend by fastforce
  note run = run_reads [OF setting_facts(2) [OF S] this r]
  have c': "\<forall>op \<in> set c'. \<exists>l < length (fo_firmware cfg) div fl_size cfg.
      op = (fread_op (word_addr cfg (l * fl_size cfg)) (fo_format cfg))\<lparr>fop_data := firmware_word cfg l, fop_error := False\<rparr>"
  proof
    fix op assume "op \<in> set c'"
    then obtain op0 where op0: "op0 \<in> set c" "op = op0\<lparr>fop_data := m (fop_address op0), fop_error := False\<rparr>" unfolding run(2) m by auto
    then obtain l where l: "l < length (fo_firmware cfg) div fl_size cfg" "op0 = fread_op (word_addr cfg (l * fl_size cfg)) (fo_format cfg)"
      using ops [of op0] unfolding pend by auto
    then have "m (fop_address op0) = firmware_word cfg l" using good by (simp add: fread_op_def)
    then show "\<exists>l < length (fo_firmware cfg) div fl_size cfg.
        op = (fread_op (word_addr cfg (l * fl_size cfg)) (fo_format cfg))\<lparr>fop_data := firmware_word cfg l, fop_error := False\<rparr>"
      using l op0(2) by auto
  qed
  let ?s = "s\<lparr>fs_w := w, fs_queue := q, fs_inflight := fs_inflight s - 1\<rparr>"
  have F: "file_in_step cfg ?s" using I by (simp add: verify_inv_def file_in_step_def)
  have "ensures (verify_ops cfg c' ?s) (\<lambda>s'. verify_inv d ch cfg n m s' \<and> fs_queue s' = q \<and> fs_cycle s' = fs_cycle s)"
  proof (rule ensures_mono [OF verify_ops_ensures [OF S F c']], elim conjE exE)
    fix s' p l assume s': "file_in_step cfg s'" "s' = ?s\<lparr>fs_pos := p, fs_last_offset := l\<rparr>"
    then have "pend s' = concat q @ fs_cycle s" by (simp add: pend_def)
    then have "verify_inv d ch cfg n m s'"
      using I s' run(3) ops unfolding verify_inv_def pend by (simp add: q)
    then show "verify_inv d ch cfg n m s' \<and> fs_queue s' = q \<and> fs_cycle s' = fs_cycle s" using s'(2) by simp
  qed
  then show "ensures (verify_decrement cfg c' st (s\<lparr>fs_w := w, fs_queue := q\<rparr>))
      (\<lambda>s'. verify_inv d ch cfg n m s' \<and> fs_queue s' = q \<and> fs_cycle s' = fs_cycle s)"
    using run(1) by (simp add: verify_decrement_def)
qed

lemma verify_flash_ensures:
  assumes S: "flash_setting d ch cfg n" and idle: "fs_queue s = []" "fs_cycle s = []" "fs_last_offset s = -1"
    and good: "\<forall>l < length (fo_firmware cfg) div fl_size cfg. ch_mem ch (fs_w s) (word_addr cfg (l * fl_size cfg)) = firmware_word cfg l"
  shows "ensures (verify_flash d cfg s) (\<lambda>s'. ch_mem ch (fs_w s') = ch_mem ch (fs_w s))"
proof -
  let ?z = "fl_size cfg" and ?m = "ch_mem ch (fs_w s)"
  define N where "N = length (fo_firmware cfg) div ?z"
  have z: "0 < ?z" "?z \<le> 8" using size_dvd_sector [OF S] by auto
  have L: "length (fo_firmware cfg) = N * ?z" using setting_facts(18) [OF S] by (simp add: N_def)
  have fits: "N * ?z \<le> n * 2 ^ ch_k ch" using length_le_sectors(1) [OF S] L by simp
  have at: "fo_address cfg + of_nat i * of_nat ?z = word_addr cfg (i * ?z)" for i by (simp add: word_addr_def)
  have fin: "fo_address cfg + fo_firmware_length cfg = fo_address cfg + of_nat N * of_nat ?z"
    using setting_facts(16) [OF S] L by simp
  have step: "unat (of_nat ?z :: u64) = ?z" using z(2) by (simp add: unat_of_nat)
  have F: "file_in_step cfg s"
    unfolding file_in_step_def
  proof (intro allI impI)
    fix l assume l: "l < length (fo_firmware cfg) div ?z" "fs_last_offset s = word_addr cfg (l * ?z)"
    have "unat (word_addr cfg (l * ?z)) = unat (fo_address cfg) + l * ?z"
      using word_index_fits(3) [OF S l(1)] by (intro unat_word_addr [OF S]) simp
    also have "\<dots> < 2 ^ 64 - 1" using word_index_fits(3) [OF S l(1)] setting_facts(14) [OF S] by linarith
    also have "(2 :: nat) ^ 64 - 1 = unat (-1 :: u64)" by (simp add: unsigned_minus_1_eq_mask mask_eq_exp_minus_1)
    finally show "fs_pos s = l * ?z" using l(2) idle(3) by simp
  qed
  let ?J = "\<lambda>i (ops, s'). verify_inv d ch cfg n ?m s' \<and> ops = length (fs_cycle s')"
  show ?thesis unfolding verify_flash_def
  proof (rule ensures_and_then [OF open_ensures [OF setting_facts(1) [OF S]]], elim exE conjE)
    fix s1 w assume w: "ch_mem ch w = ch_mem ch (fs_w (s\<lparr>fs_inflight := 0\<rparr>))" "s1 = s\<lparr>fs_inflight := 0, fs_w := w, fs_cycle := []\<rparr>"
    then have I1: "?J 0 (0, s1)" using S idle good F by (simp add: verify_inv_def pend_def file_in_step_def)
    show "ensures (and_then (repeat_while (\<lambda>(offset, st). offset \<noteq> fo_address cfg + fo_firmware_length cfg)
         (\<lambda>(offset, ops, s).
            let next_offset = offset + of_nat (fl_size cfg);
                s = add_op (fread_op offset (fo_format cfg)) s
            in if next_offset mod fo_page_size cfg = 0
               then and_then (next_cycle d (verify_decrement cfg) cfg s) (\<lambda>s. Some (Inr (next_offset, 0, s)))
               else Some (Inr (next_offset, ops + 1, s)))
         (fo_address cfg, 0, s1)) (\<lambda>(_, ops, s). last_cycle d (verify_decrement cfg) ops s))
       (\<lambda>s'. ch_mem ch (fs_w s') = ch_mem ch (fs_w s))"
    proof (rule ensures_and_then [OF positions_ensures [where step = "of_nat ?z" and n = N and iv = ?J]])
      show "?J 0 (0, s1)" by (rule I1)
      show "0 < unat (of_nat ?z :: u64)" "N * unat (of_nat ?z :: u64) < 2 ^ 64"
        unfolding step using z(1) fits setting_facts(14) [OF S] by auto
      show "fo_address cfg + fo_firmware_length cfg = fo_address cfg + of_nat N * of_nat ?z" by (rule fin)
    next
      fix i t assume i: "i < N" and t: "?J i t"
      obtain s2 where s2: "t = (length (fs_cycle s2), s2)" "verify_inv d ch cfg n ?m s2" using t by (cases t) auto
      let ?s3 = "add_op (fread_op (word_addr cfg (i * ?z)) (fo_format cfg)) s2"
      have I3: "verify_inv d ch cfg n ?m ?s3"
        using s2(2) i unfolding N_def verify_inv_def by (auto simp: file_in_step_def add_op_def pend_def)
      have nx: "word_addr cfg (i * ?z) + of_nat ?z = word_addr cfg (Suc i * ?z)" by (simp add: word_addr_def)
      have N: "ensures (and_then (next_cycle d (verify_decrement cfg) cfg ?s3) (\<lambda>s. Some (Inr (word_addr cfg (Suc i * ?z), 0, s))))
          (\<lambda>(x, s'). x = word_addr cfg (Suc i * ?z) \<and> ?J (Suc i) s')"
        by (rule ensures_and_then [OF verify.next_ensures [OF I3 setting_facts(22) [OF S]]]) simp
      show "ensures (case (fo_address cfg + of_nat i * of_nat ?z, t) of (offset, ops, s) \<Rightarrow>
            let next_offset = offset + of_nat (fl_size cfg);
                s = add_op (fread_op offset (fo_format cfg)) s
            in if next_offset mod fo_page_size cfg = 0
               then and_then (next_cycle d (verify_decrement cfg) cfg s) (\<lambda>s. Some (Inr (next_offset, 0, s)))
               else Some (Inr (next_offset, ops + 1, s)))
        (\<lambda>(x, s'). x = fo_address cfg + of_nat (Suc i) * of_nat ?z \<and> ?J (Suc i) s')"
        unfolding s2(1) at prod.case Let_def nx using N I3
        by (cases "word_addr cfg (Suc i * ?z) mod fo_page_size cfg = 0") (simp_all del: mult_Suc add: add_op_def)
    next
      fix t assume t: "case t of (x, s') \<Rightarrow> ?J N s'"
      obtain x ops s2 where t': "t = (x, ops, s2)" by (metis prod.exhaust)
      show "ensures (case t of (_, ops, s) \<Rightarrow> last_cycle d (verify_decrement cfg) ops s) (\<lambda>s'. ch_mem ch (fs_w s') = ch_mem ch (fs_w s))"
        using t unfolding t' prod.case
        by (intro ensures_mono [OF verify.last_ensures]) (auto simp: verify_inv_def)
    qed
  qed
qed

section \<open>All phases\<close>

definition work_opts :: "flash_opts \<Rightarrow> flash_opts" where
  "work_opts cfg = cfg\<lparr>fo_ffs := drop_bit ((8 - fl_size cfg) * 8) (NOT 0), fo_mask_0f := fill_0f 8 0x0f\<rparr>"

text \<open>What programming leaves alone: the rest of the last sector, and everything outside of the sectors.\<close>

lemma programmed_rest:
  assumes S: "flash_setting d ch cfg n"
  shows "off < n * 2 ^ ch_k ch \<Longrightarrow> length (fo_firmware cfg) \<le> off \<Longrightarrow>
      programmed cfg m (length (fo_firmware cfg) div fl_size cfg) (word_addr cfg off) = m (word_addr cfg off)"
    and "outside cfg n (ch_k ch) x \<Longrightarrow> programmed cfg m (length (fo_firmware cfg) div fl_size cfg) x = m x"
proof -
  let ?z = "fl_size cfg" and ?N = "length (fo_firmware cfg) div fl_size cfg"
  have lt: "l * ?z < Suc l * ?z" for l using size_dvd_sector(3) [OF S] by simp
  show "programmed cfg m ?N (word_addr cfg off) = m (word_addr cfg off)" if off: "off < n * 2 ^ ch_k ch" "length (fo_firmware cfg) \<le> off"
  proof (rule programmed_other)
    fix l assume "l < ?N"
    note l = word_index_fits [OF S this]
    then show "word_addr cfg off \<noteq> word_addr cfg (l * ?z)" using word_addr_inj [OF S, of off "l * ?z"] off lt [of l] by auto
  qed
  show "programmed cfg m ?N x = m x" if x: "outside cfg n (ch_k ch) x"
  proof (rule programmed_other)
    fix l assume "l < ?N"
    note l = word_index_fits [OF S this]
    then have "unat (word_addr cfg (l * ?z)) = unat (fo_address cfg) + l * ?z" using unat_word_addr [OF S, of "l * ?z"] by simp
    then show "x \<noteq> word_addr cfg (l * ?z)" using x l(3) unfolding outside_def by auto
  qed
qed

text \<open>After the scan, or without it, every sector that is not marked is blank.\<close>

lemma scan_phase_ensures:
  assumes S: "flash_setting d ch cfg n" and idle: "fs_queue s = []" "fs_cycle s = []" "fs_inflight s = 0" "fs_pos s = 0" "fs_last_offset s = -1"
    and len: "n \<le> 8 * length (fs_bitmap s)"
  shows "ensures (if fo_full cfg then Some (Inr (s\<lparr>fs_bitmap := replicate (length (fs_bitmap s)) 0xFF\<rparr>)) else quick_scan d cfg s)
    (\<lambda>s1. ch_mem ch (fs_w s1) = ch_mem ch (fs_w s) \<and> fs_queue s1 = [] \<and> fs_cycle s1 = [] \<and> fs_pos s1 = 0 \<and> fs_last_offset s1 = -1 \<and>
      n \<le> 8 * length (fs_bitmap s1) \<and>
      (\<forall>off < n * 2 ^ ch_k ch. fl_size cfg dvd off \<longrightarrow>
        sector_marked (fs_bitmap s1) (off div 2 ^ ch_k ch) \<or> ch_mem ch (fs_w s) (word_addr cfg off) = fo_ffs cfg))"
    (is "ensures _ ?P")
proof (cases "fo_full cfg")
  case True
  have "sector_marked (replicate k 0xFF) i" if "i < 8 * k" for i k
  proof -
    have "\<forall>t \<in> set [0..<8]. bit (0xFF :: u8) t" by code_simp
    moreover have "i mod 8 \<in> set [0..<8]" by simp
    ultimately show ?thesis using that unfolding sector_marked_def by (simp only: nth_replicate less_mult_imp_div_less mult.commute)
  qed
  moreover have "off div 2 ^ ch_k ch < 8 * length (fs_bitmap s)" if "off < n * 2 ^ ch_k ch" for off
    using less_mult_imp_div_less [OF that] len by simp
  ultimately show ?thesis using True idle len by simp
next
  case False
  let ?m = "ch_mem ch (fs_w s)"
  have I: "scan_inv d ch cfg n ?m {} s" using S idle len by (simp add: scan_inv_def pend_def)
  have "ensures (quick_scan d cfg s) ?P"
  proof (rule ensures_mono [OF quick_scan_ensures [OF I idle(1,2)]])
    fix a assume a: "scan_inv d ch cfg n ?m {x. fl_size cfg dvd x \<and> x < n * 2 ^ ch_k ch} a \<and> fs_queue a = [] \<and> fs_cycle a = []"
    then have "pend a = []" by (simp add: pend_def)
    then show "?P a" using a unfolding scan_inv_def by auto
  qed
  then show ?thesis using False by simp
qed

lemma flash_work_ensures:
  assumes S: "flash_setting d ch (work_opts cfg) n"
    and idle: "fs_queue s = []" "fs_cycle s = []" "fs_inflight s = 0" "fs_pos s = 0" "fs_last_offset s = -1"
    and len: "n \<le> 8 * length (fs_bitmap s)"
  shows "ensures (flash_work d cfg s) (\<lambda>s'.
    (\<forall>l < length (fo_firmware cfg) div fl_size cfg. ch_mem ch (fs_w s') (word_addr cfg (l * fl_size cfg)) = firmware_word (work_opts cfg) l) \<and>
    (\<forall>off < n * 2 ^ ch_k ch. fl_size cfg dvd off \<longrightarrow> length (fo_firmware cfg) \<le> off \<longrightarrow> ch_mem ch (fs_w s') (word_addr cfg off) = ch_ones ch) \<and>
    (\<forall>x. outside cfg n (ch_k ch) x \<longrightarrow> ch_mem ch (fs_w s') x = ch_mem ch (fs_w s) x))"
proof -
  let ?cfg = "work_opts cfg" and ?m = "ch_mem ch (fs_w s)" and ?z = "fl_size cfg" and ?N = "length (fo_firmware cfg) div fl_size cfg"
  have same: "fl_size ?cfg = ?z" "fo_firmware ?cfg = fo_firmware cfg" "word_addr ?cfg = word_addr cfg" "fo_full ?cfg = fo_full cfg"
    "fo_verify ?cfg = fo_verify cfg" "fo_mask_0f ?cfg = fill_0f 8 0x0f" "outside ?cfg = outside cfg"
    by (simp_all add: work_opts_def fl_size_def fun_eq_iff word_addr_def outside_def)
  let ?Q = "\<lambda>s' :: 'a flash_st. (\<forall>l < ?N. ch_mem ch (fs_w s') (word_addr cfg (l * ?z)) = firmware_word ?cfg l) \<and>
    (\<forall>off < n * 2 ^ ch_k ch. ?z dvd off \<longrightarrow> length (fo_firmware cfg) \<le> off \<longrightarrow> ch_mem ch (fs_w s') (word_addr cfg off) = ch_ones ch) \<and>
    (\<forall>x. outside cfg n (ch_k ch) x \<longrightarrow> ch_mem ch (fs_w s') x = ?m x)"
  have fits: "?N * fl_size ?cfg \<le> n * 2 ^ ch_k ch"
    using length_le_sectors(1) [OF S] setting_facts(18) [OF S] by (simp add: same)
  have eq: "flash_work d cfg s = and_then (if fo_full ?cfg then Some (Inr (s\<lparr>fs_bitmap := replicate (length (fs_bitmap s)) 0xFF\<rparr>)) else quick_scan d ?cfg s)
      (\<lambda>s. and_then (erase_flash d ?cfg s) (\<lambda>s. and_then (program_flash d ?cfg s) (\<lambda>s.
        if fo_verify ?cfg then verify_flash d ?cfg s else Some (Inr s))))"
    unfolding flash_work_def Let_def work_opts_def [symmetric] same ..
  have verify: "ensures (if fo_verify ?cfg then verify_flash d ?cfg s3 else Some (Inr s3)) ?Q"
    if s3: "fs_queue s3 = []" "fs_cycle s3 = []" "fs_last_offset s3 = -1" and Q: "?Q s3" for s3
  proof (cases "fo_verify cfg")
    case True
    have "ensures (verify_flash d ?cfg s3) (\<lambda>s'. ch_mem ch (fs_w s') = ch_mem ch (fs_w s3))"
      by (rule verify_flash_ensures [OF S s3]) (use Q in \<open>simp add: same\<close>)
    then show ?thesis using True Q by (auto simp: same elim!: ensures_mono)
  qed (use Q in \<open>simp add: same\<close>)
  show ?thesis unfolding eq
  proof (rule ensures_and_then [OF scan_phase_ensures [OF S idle len]], elim conjE)
    fix s1 :: "'a flash_st"
    assume s1: "ch_mem ch (fs_w s1) = ?m" "fs_queue s1 = []" "fs_cycle s1 = []" "fs_pos s1 = 0" "fs_last_offset s1 = -1" "n \<le> 8 * length (fs_bitmap s1)"
      "\<forall>off < n * 2 ^ ch_k ch. fl_size ?cfg dvd off \<longrightarrow> sector_marked (fs_bitmap s1) (off div 2 ^ ch_k ch) \<or> ?m (word_addr ?cfg off) = fo_ffs ?cfg"
    have E: "ensures (erase_flash d ?cfg s1) (\<lambda>s'. \<exists>w. s' = s1\<lparr>fs_w := w\<rparr> \<and>
        (\<forall>off < n * 2 ^ ch_k ch. fl_size ?cfg dvd off \<longrightarrow> ch_mem ch w (word_addr ?cfg off) = fo_ffs ?cfg) \<and>
        (\<forall>x. outside ?cfg n (ch_k ch) x \<longrightarrow> ch_mem ch w x = ch_mem ch (fs_w s1) x))"
      by (rule erase_flash_ensures [OF S]) (use s1 in \<open>auto simp: same\<close>)
    show "ensures (and_then (erase_flash d ?cfg s1) (\<lambda>s. and_then (program_flash d ?cfg s) (\<lambda>s. if fo_verify ?cfg then verify_flash d ?cfg s else Some (Inr s)))) ?Q"
    proof (rule ensures_and_then [OF E], elim exE conjE)
      fix s2 w assume s2: "s2 = s1\<lparr>fs_w := w\<rparr>" and
        ff: "\<forall>off < n * 2 ^ ch_k ch. fl_size ?cfg dvd off \<longrightarrow> ch_mem ch w (word_addr ?cfg off) = fo_ffs ?cfg" and
        out: "\<forall>x. outside ?cfg n (ch_k ch) x \<longrightarrow> ch_mem ch w x = ch_mem ch (fs_w s1) x"
      have Pr: "ensures (program_flash d ?cfg s2) (\<lambda>s'. fs_queue s' = [] \<and> fs_cycle s' = [] \<and> fs_last_offset s' = -1 \<and>
          ch_mem ch (fs_w s') = programmed ?cfg (ch_mem ch (fs_w s2)) (length (fo_firmware ?cfg) div fl_size ?cfg))"
        by (rule program_flash_ensures [OF S same(6)]) (use s1 s2 ff in simp_all)
      show "ensures (and_then (program_flash d ?cfg s2) (\<lambda>s. if fo_verify ?cfg then verify_flash d ?cfg s else Some (Inr s))) ?Q"
      proof (rule ensures_and_then [OF Pr], elim conjE)
        fix s3 :: "'a flash_st" assume s3: "fs_queue s3 = []" "fs_cycle s3 = []" "fs_last_offset s3 = -1"
          "ch_mem ch (fs_w s3) = programmed ?cfg (ch_mem ch (fs_w s2)) (length (fo_firmware ?cfg) div fl_size ?cfg)"
        then have m3: "ch_mem ch (fs_w s3) = programmed ?cfg (ch_mem ch w) ?N" by (simp add: s2 same)
        note rest = programmed_rest [OF S, unfolded same]
        have "?Q s3" unfolding m3 using programmed_at [OF S fits] rest ff out s1(1) setting_facts(8) [OF S] by (simp add: same)
        then show "ensures (if fo_verify ?cfg then verify_flash d ?cfg s3 else Some (Inr s3)) ?Q" by (rule verify [OF s3(1-3)])
      qed
    qed
  qed
qed

end
