(* ===== verification/Flash_Detect.thy ===== *)
theory Flash_Detect
  imports Flash_Program
begin

text \<open>
  Detecting the sector size: zeros are written at distances that are powers of two, one sector is erased, and the first zero that is left
  gives its size.
\<close>

section \<open>Powers of two\<close>

lemma align_word: "fl_align x (2 ^ i) = x AND NOT (mask i)"
  by (simp add: fl_align_def mask_eq_exp_minus_1)

lemma unat_align: "unat (fl_align x (2 ^ i)) = unat x div 2 ^ i * 2 ^ i"
proof -
  have "fl_align x (2 ^ i) = push_bit i (drop_bit i x)"
    unfolding align_word by (rule bit_word_eqI) (auto simp: bit_simps)
  moreover have "unat x div 2 ^ i * 2 ^ i \<le> unat x" by simp
  then have "unat x div 2 ^ i * 2 ^ i < 2 ^ 64" by (rule le_less_trans) (use unsigned_less [of x, where ?'a = nat] in simp)
  moreover have "unat (push_bit i (drop_bit i x)) = unat x div 2 ^ i * 2 ^ i mod 2 ^ 64"
  proof (cases "i < 64")
    case True
    then show ?thesis
      by (simp add: push_bit_eq_mult unat_word_ariths unat_pow2 unat_drop_bit_eq drop_bit_eq_div mod_mult_left_eq)
  next
    case False
    then have "unat x < 2 ^ i" using unsigned_less [of x, where ?'a = nat] power_increasing [of 64 i "2 :: nat"] by simp
    moreover have "push_bit i (drop_bit i x) = 0" by (rule bit_word_eqI) (use False in \<open>auto simp: bit_simps\<close>)
    ultimately show ?thesis by simp
  qed
  ultimately show ?thesis by simp
qed

lemma align_align: "i \<le> j \<Longrightarrow> fl_align (fl_align x (2 ^ i)) (2 ^ j) = fl_align x (2 ^ j)"
  unfolding align_word by (rule bit_word_eqI) (auto simp: bit_simps)

lemma double_pow2: "push_bit 1 (2 ^ i) = (2 ^ Suc i :: u64)"
  by (simp add: push_bit_eq_mult)

lemma doubling_ensures:
  fixes body :: "u64 \<times> 's \<Rightarrow> (u64 \<times> 's) exits"
  assumes "p \<le> q" "q < 64" and "iv p s"
    and step: "\<And>i s. p \<le> i \<Longrightarrow> i < q \<Longrightarrow> iv i s \<Longrightarrow> ensures (body (2 ^ i, s)) (\<lambda>(x, s'). x = 2 ^ Suc i \<and> iv (Suc i) s')"
  shows "ensures (repeat_while (\<lambda>(x, s). x < (2 ^ q :: u64)) body (2 ^ p, s)) (\<lambda>(x, s). iv q s)"
proof (rule repeat_while_ensures [where R = "measure (\<lambda>(x :: u64, s). 2 ^ q - unat x)" and
      iv = "\<lambda>(x :: u64, s). \<exists>i. p \<le> i \<and> i \<le> q \<and> x = 2 ^ i \<and> iv i s"])
  have less: "(2 ^ i :: u64) < 2 ^ q \<longleftrightarrow> i < q" if "i \<le> q" for i
    using that assms(2) by (simp add: word_less_nat_alt unat_pow2)
  show "case (2 ^ p, s) of (x, s) \<Rightarrow> \<exists>i. p \<le> i \<and> i \<le> q \<and> x = 2 ^ i \<and> iv i s" using assms(1,3) by auto
  show "case t of (x, s) \<Rightarrow> iv q s" if "case t of (x :: u64, s) \<Rightarrow> \<exists>i. p \<le> i \<and> i \<le> q \<and> x = 2 ^ i \<and> iv i s" "\<not> (case t of (x, s) \<Rightarrow> x < 2 ^ q)" for t
    using that less by (auto simp: le_less)
  fix t assume t: "case t of (x :: u64, s) \<Rightarrow> \<exists>i. p \<le> i \<and> i \<le> q \<and> x = 2 ^ i \<and> iv i s" "case t of (x, s) \<Rightarrow> x < 2 ^ q"
  then obtain i s where i: "t = (2 ^ i, s)" "p \<le> i" "i < q" "iv i s" using less by auto
  show "ensures (body t) (\<lambda>t'. (case t' of (x :: u64, s) \<Rightarrow> \<exists>i. p \<le> i \<and> i \<le> q \<and> x = 2 ^ i \<and> iv i s) \<and> (t', t) \<in> measure (\<lambda>(x :: u64, s). 2 ^ q - unat x))"
    unfolding i(1)
  proof (rule ensures_mono [OF step [OF i(2-4)]])
    fix a :: "u64 \<times> 's" assume a: "case a of (x, s') \<Rightarrow> x = 2 ^ Suc i \<and> iv (Suc i) s'"
    obtain x s' where as: "a = (x, s')" by (cases a)
    have "unat (2 ^ Suc i :: u64) = 2 ^ Suc i" "unat (2 ^ i :: u64) = 2 ^ i" using i(3) assms(2) by (intro unat_pow2; simp)+
    moreover have "(2 :: nat) ^ Suc i \<le> 2 ^ q" using i(3) by (intro power_increasing) auto
    moreover have "(2 :: nat) ^ i < 2 ^ Suc i" by simp
    ultimately have "(2 :: nat) ^ q - unat (2 ^ Suc i :: u64) < 2 ^ q - unat (2 ^ i :: u64)" by linarith
    then show "(case a of (x :: u64, s) \<Rightarrow> \<exists>i. p \<le> i \<and> i \<le> q \<and> x = 2 ^ i \<and> iv i s) \<and> (a, 2 ^ i, s) \<in> measure (\<lambda>(x :: u64, s). 2 ^ q - unat x)"
      using a i(2,3) unfolding as by (auto simp del: power_Suc intro!: exI [of _ "Suc i"])
  qed
qed simp

section \<open>The largest sector around the middle\<close>

definition fits :: "flash_opts \<Rightarrow> nat \<Rightarrow> bool" where
  "fits cfg i \<longleftrightarrow> unat (fo_address cfg) \<le> unat (fl_align (fo_address cfg + fo_firmware_length cfg div 2) (2 ^ i)) \<and>
     unat (fl_align (fo_address cfg + fo_firmware_length cfg div 2) (2 ^ i)) + 2 ^ i \<le> unat (fo_address cfg) + unat (fo_firmware_length cfg)"

lemma fit_test:
  assumes "i < 64" "0 < unat (fo_firmware_length cfg)" "unat (fo_address cfg) + unat (fo_firmware_length cfg) < 2 ^ 64"
  defines "t \<equiv> fl_align (fo_address cfg + fo_firmware_length cfg div 2) (2 ^ i)"
  shows "fo_address cfg \<le> t \<and> t + 2 ^ i - 1 \<le> fo_address cfg + fo_firmware_length cfg - 1 \<longleftrightarrow> fits cfg i"
proof -
  let ?M = "fo_address cfg + fo_firmware_length cfg div 2"
  have "(2 :: nat) ^ 64 = 2 ^ i * 2 ^ (64 - i)" using assms(1) by (simp add: power_add [symmetric])
  moreover have "unat ?M div 2 ^ i < 2 ^ (64 - i)"
    using unsigned_less [of ?M, where ?'a = nat] calculation by (simp add: less_mult_imp_div_less mult.commute)
  ultimately have "(unat ?M div 2 ^ i + 1) * 2 ^ i \<le> 2 ^ 64" by (metis Suc_eq_plus1 Suc_leI mult.commute mult_le_mono2)
  then have t: "unat t + 2 ^ i \<le> 2 ^ 64" by (simp add: t_def unat_align)
  have P: "(1 :: nat) \<le> 2 ^ i" by simp
  have "of_nat (2 ^ i - 1) = (2 ^ i - 1 :: u64)" by (simp add: of_nat_diff)
  then have a: "t + 2 ^ i - 1 = of_nat (unat t + (2 ^ i - 1))" by (simp only: of_nat_add of_nat_unat ucast_id add_diff_eq)
  have "unat t + (2 ^ i - 1) < 2 ^ 64" using t P by linarith
  then have u1: "unat (t + 2 ^ i - 1) = unat t + (2 ^ i - 1)" unfolding a by (simp add: unat_of_nat del: of_nat_add)
  have b: "fo_address cfg + fo_firmware_length cfg - 1 = of_nat (unat (fo_address cfg) + (unat (fo_firmware_length cfg) - 1))"
    using assms(2) by (simp add: of_nat_diff Suc_leI)
  have u2: "unat (fo_address cfg + fo_firmware_length cfg - 1) = unat (fo_address cfg) + (unat (fo_firmware_length cfg) - 1)"
    unfolding b using assms(3) by (simp add: unat_of_nat del: of_nat_add)
  have "(1 :: nat) \<le> 2 ^ i" by simp
  then show ?thesis unfolding fits_def t_def [symmetric] word_le_nat_alt u1 u2 using assms(2) by linarith
qed

lemma fit_sector_finds:
  assumes "p \<le> k" "k \<le> 21" "0 < unat (fo_firmware_length cfg)" "unat (fo_address cfg) + unat (fo_firmware_length cfg) < 2 ^ 64"
    and small: "\<And>i. p \<le> i \<Longrightarrow> i \<le> k \<Longrightarrow> fits cfg i"
  defines "middle \<equiv> fo_address cfg + fo_firmware_length cfg div 2"
  shows "\<exists>i target. fit_sector cfg (2 ^ p, fl_align middle (2 ^ p)) = Some (2 ^ Suc i, target) \<and> k \<le> i \<and> i \<le> 21 \<and> fits cfg i"
proof -
  let ?I = "\<lambda>(sz :: u64, target). \<exists>i. p \<le> i \<and> i \<le> 21 \<and> sz = 2 ^ i \<and> target = fl_align middle (2 ^ i) \<and> (i = p \<or> fits cfg (i - 1))"
  let ?P = "\<lambda>(sz :: u64, target :: u64). \<exists>i. sz = 2 ^ Suc i \<and> k \<le> i \<and> i \<le> 21 \<and> fits cfg i"
  let ?body = "\<lambda>(sz, target). let fin = fo_address cfg + fo_firmware_length cfg - 1
     in Some (if fo_address cfg \<le> target \<and> target + sz - 1 \<le> fin
              then let sz = push_bit 1 sz; target = fl_align target sz
                   in if MAX_SECTOR_SIZE \<le> sz then Inr (sz, target) else Inl (sz, target)
              else Inr (sz, target)) :: (u64 \<times> u64 + u64 \<times> u64) option"
  have "\<exists>r. loop ?body (2 ^ p, fl_align middle (2 ^ p)) = Some r \<and> ?P r"
  proof (rule loop_total [where inv = ?I and rank = "\<lambda>(sz, _). 2 ^ 22 - unat sz"])
    show "?I (2 ^ p, fl_align middle (2 ^ p))" using assms(1,2) by auto
  next
    fix t assume "?I t"
    then obtain i where i: "t = (2 ^ i, fl_align middle (2 ^ i))" "p \<le> i" "i \<le> 21" "i = p \<or> fits cfg (i - 1)" by auto
    have test: "fo_address cfg \<le> fl_align middle (2 ^ i) \<and> fl_align middle (2 ^ i) + 2 ^ i - 1 \<le> fo_address cfg + fo_firmware_length cfg - 1 \<longleftrightarrow> fits cfg i"
      unfolding middle_def by (rule fit_test) (use i(3) assms(3,4) in simp_all)
    have M: "MAX_SECTOR_SIZE \<le> (2 ^ Suc i :: u64) \<longleftrightarrow> i = 21"
    proof -
      have "unat (2 ^ Suc i :: u64) = 2 ^ Suc i" using i(3) by (intro unat_pow2) simp
      moreover have "(2 :: nat) ^ 22 \<le> 2 ^ Suc i \<longleftrightarrow> 22 \<le> Suc i" by (rule power_increasing_iff) simp
      ultimately show ?thesis using i(3) by (auto simp: word_le_nat_alt)
    qed
    have body: "?body t = Some (if fits cfg i then if i = 21 then Inr (2 ^ Suc i, fl_align middle (2 ^ Suc i)) else Inl (2 ^ Suc i, fl_align middle (2 ^ Suc i))
        else Inr (2 ^ i, fl_align middle (2 ^ i)))"
      unfolding i(1) prod.case Let_def test double_pow2 align_align [OF le_SucI [OF order_refl]] M ..
    have rank: "2 ^ 22 - unat (2 ^ Suc i :: u64) < 2 ^ 22 - unat (2 ^ i :: u64)" if "i < 21"
    proof -
      have "unat (2 ^ Suc i :: u64) = 2 ^ Suc i" "unat (2 ^ i :: u64) = 2 ^ i" using that by (intro unat_pow2; simp)+
      moreover have "(2 :: nat) ^ i < 2 ^ Suc i" "(2 :: nat) ^ Suc i \<le> 2 ^ 22" using that by (simp, intro power_increasing) auto
      ultimately show ?thesis by linarith
    qed
    show "\<exists>x. ?body t = Some x \<and> (case x of Inl t' \<Rightarrow> ?I t' \<and> (case t' of (sz, _) \<Rightarrow> 2 ^ 22 - unat sz) < (case t of (sz, _) \<Rightarrow> 2 ^ 22 - unat sz) | Inr r \<Rightarrow> ?P r)"
    proof (cases "fits cfg i")
      case True
      show ?thesis
      proof (cases "i = 21")
        case True
        then show ?thesis using \<open>fits cfg i\<close> assms(2) unfolding body by (auto intro!: exI [of _ i])
      next
        case False
        then have "?I (2 ^ Suc i, fl_align middle (2 ^ Suc i))" using i(2,3) \<open>fits cfg i\<close> by (auto intro!: exI [of _ "Suc i"])
        moreover have b: "?body t = Some (Inl (2 ^ Suc i, fl_align middle (2 ^ Suc i)))"
          using body False \<open>fits cfg i\<close> by (simp only: if_True if_False)
        ultimately show ?thesis unfolding b using rank False i(3) by (simp add: i(1) del: power_Suc)
      qed
    next
      case False
      then have "k < i" using small [of i] i(2) by (meson not_le)
      then obtain e where e: "i = Suc e" by (cases i) auto
      have "fits cfg e" using i(4) small [of p] assms(1) False e by auto
      then show ?thesis using False \<open>k < i\<close> i(3) unfolding body e by (auto intro!: exI [of _ e])
    qed
  qed
  then show ?thesis unfolding fit_sector_def by auto
qed

text \<open>A sector that is not larger than the firmware fits around the middle.\<close>

lemma sector_fits:
  assumes S: "flash_setting d ch cfg n" and "i \<le> ch_k ch" "2 ^ ch_k ch \<le> length (fo_firmware cfg)"
  shows "fits cfg i"
proof -
  let ?A = "unat (fo_address cfg)" and ?L = "length (fo_firmware cfg)"
  have L: "unat (fo_firmware_length cfg) = ?L" "?A + ?L < 2 ^ 64"
    using length_le_sectors [OF S] setting_facts(14) [OF S] by linarith+
  have M: "unat (fo_address cfg + fo_firmware_length cfg div 2) = ?A + ?L div 2"
  proof -
    have "?A + ?L div 2 < 2 ^ 64" using L(2) by linarith
    then show ?thesis by (simp add: unat_word_ariths unat_div_distrib L(1))
  qed
  have "2 ^ i dvd (2 :: nat) ^ ch_k ch" using assms(2) by (rule le_imp_power_dvd)
  then have "2 ^ i dvd ?A" using setting_facts(12) [OF S] by (rule dvd_trans)
  then obtain a where a: "?A = 2 ^ i * a" by (elim dvdE)
  have le: "2 ^ i \<le> ?L" by (rule order_trans [OF power_increasing [OF assms(2)] assms(3)]) simp
  have "(?A + ?L div 2) div 2 ^ i * 2 ^ i = ?A + ?L div 2 div 2 ^ i * 2 ^ i" by (simp add: a algebra_simps)
  moreover have "?L div 2 div 2 ^ i * 2 ^ i + 2 ^ i \<le> ?L"
  proof (cases "?L div 2 div 2 ^ i")
    case (Suc q)
    have "Suc q * 2 ^ i \<le> ?L div 2" using Suc by (metis div_times_less_eq_dividend)
    moreover have "(2 :: nat) ^ i \<le> Suc q * 2 ^ i" by simp
    ultimately show ?thesis unfolding Suc by linarith
  qed (use le in simp)
  ultimately show ?thesis unfolding fits_def unat_align M L(1) by simp
qed

section \<open>Detection\<close>

lemma find_sector_ops_count:
  assumes "i \<le> k" "k \<le> q" "\<And>l. i \<le> l \<Longrightarrow> l < q \<Longrightarrow> f l \<noteq> 0 \<longleftrightarrow> l < k"
  shows "find_sector_ops (2 ^ i) (map (\<lambda>l. (fread_op (a l) fmt)\<lparr>fop_data := f l, fop_error := False\<rparr>) [i..<q]) = Inr (2 ^ k)"
  using assms
proof (induction "q - i" arbitrary: i)
  case (Suc x)
  then have iq: "i < q" by simp
  then have upt: "[i..<q] = i # [Suc i..<q]" by (rule upt_conv_Cons)
  show ?case
  proof (cases "i = k")
    case True
    then show ?thesis using Suc.prems(3) [of i] iq unfolding upt by simp
  next
    case False
    have "find_sector_ops (2 ^ Suc i) (map (\<lambda>l. (fread_op (a l) fmt)\<lparr>fop_data := f l, fop_error := False\<rparr>) [Suc i..<q]) = Inr (2 ^ k)"
      using Suc False by (intro Suc.hyps(1)) auto
    moreover have "f i \<noteq> 0" using Suc.prems(1,3) iq False by simp
    ultimately show ?thesis unfolding upt by (simp add: power_Suc2 push_bit_eq_mult del: power_Suc)
  qed
next
  case 0
  then have "i = k" "[i..<q] = []" by simp_all
  then show ?case by (simp only: list.map find_sector_ops.simps)
qed

text \<open>The loop that waits for the answer of the last read.\<close>

lemma wait_user_ensures:
  assumes L: "link_law d (ch_mem ch)" and R: "memory_law d ch (fo_format cfg)"
    and ops: "\<forall>op \<in> set c. \<exists>a \<in> ch_words ch. op = fread_op a (fo_format cfg)"
    and r: "find_sector_ops (fo_page_size cfg) (map (\<lambda>op. op\<lparr>fop_data := ch_mem ch (fs_w s) (fop_address op), fop_error := False\<rparr>) c) = Inr r" "r \<noteq> 0"
    and s: "fs_queue s = [c]" "fs_user s = 0"
  shows "ensures (repeat_while (\<lambda>s. fs_user s = 0) (\<lambda>s. and_then (fl_socket_run d (find_sector_size cfg) (-1) s) (\<lambda>(_, s). Some (Inr s))) s)
    (\<lambda>s'. \<exists>w. s' = s\<lparr>fs_w := w, fs_queue := [], fs_user := r\<rparr> \<and> ch_mem ch w = ch_mem ch (fs_w s))"
proof -
  let ?R = "{(snd (fd_run d 1 (-1) w), w) | w. snd (fst (fd_run d 1 (-1) w)) = []}"
  let ?wait = "\<lambda>s'. \<exists>w. s' = s\<lparr>fs_w := w\<rparr> \<and> ch_mem ch w = ch_mem ch (fs_w s)"
  let ?done = "\<lambda>s'. \<exists>w. s' = s\<lparr>fs_w := w, fs_queue := [], fs_user := r\<rparr> \<and> ch_mem ch w = ch_mem ch (fs_w s)"
  let ?less = "inv_image (less_than <*lex*> ?R) (\<lambda>s' :: 'a flash_st. (length (fs_queue s'), fs_w s'))"
  have "wf ?R" using L unfolding link_law_def by (meson zero_less_one)
  then have "wf ?less" by (intro wf_inv_image wf_lex_prod wf_less_than)
  then show ?thesis
  proof (rule repeat_while_ensures [where iv = "\<lambda>s'. ?wait s' \<or> ?done s'"])
    show "?wait s \<or> ?done s" by (auto intro!: exI [of _ "fs_w s"])
  next
    fix t assume t: "?wait t \<or> ?done t" "fs_user t = 0"
    then obtain w where w: "t = s\<lparr>fs_w := w\<rparr>" "ch_mem ch w = ch_mem ch (fs_w s)" using r(2) by auto
    obtain u sts w' where run: "fd_run d 1 (-1) w = ((u, sts), w')" by (metis prod.exhaust)
    have "ch_mem ch (snd (fd_run d 1 (-1) w)) = ch_mem ch w" "length (snd (fst (fd_run d 1 (-1) w))) \<le> 1"
      "\<forall>st \<in> set (snd (fst (fd_run d 1 (-1) w))). st = EB_OK"
      using L unfolding link_law_def by blast+
    then have w': "ch_mem ch w' = ch_mem ch (fs_w s)" "length sts \<le> 1" "\<forall>st \<in> set sts. st = EB_OK" using run w(2) by simp_all
    show "ensures (and_then (fl_socket_run d (find_sector_size cfg) (-1) t) (\<lambda>(_, s). Some (Inr s)))
        (\<lambda>s'. (?wait s' \<or> ?done s') \<and> (s', t) \<in> ?less)"
    proof (cases sts)
      case Nil
      then have "fl_socket_run d (find_sector_size cfg) (-1) t = Some (Inr (u, s\<lparr>fs_w := w'\<rparr>))"
        using run by (simp add: fl_socket_run_def w(1) s)
      moreover have "(w', w) \<in> ?R" using run Nil by (metis (mono_tags, lifting) fst_conv mem_Collect_eq snd_conv)
      ultimately show ?thesis using w' w(1) by (auto intro!: exI [of _ w'])
    next
      case (Cons st sts')
      then have sts: "sts = [EB_OK]" using w'(2,3) by simp
      obtain st' c' w2 where rc: "run_cycle d EB_OK c w' = (st', c', w2)" by (metis prod.exhaust)
      note rd = run_reads [OF R ops rc]
      have c': "c' = map (\<lambda>op. op\<lparr>fop_data := ch_mem ch (fs_w s) (fop_address op), fop_error := False\<rparr>) c" unfolding rd(2) w'(1) ..
      have "find_sector_size cfg c' st' (s\<lparr>fs_w := w2, fs_queue := []\<rparr>) = Some (Inr (s\<lparr>fs_w := w2, fs_queue := [], fs_user := r\<rparr>))"
        unfolding find_sector_size_def rd(1) c' r(1) by simp
      then have "fl_socket_run d (find_sector_size cfg) (-1) t = Some (Inr (u, s\<lparr>fs_w := w2, fs_queue := [], fs_user := r\<rparr>))"
        using run by (simp add: fl_socket_run_def w(1) s sts rc)
      then show ?thesis using rd(3) w' w(1) s(1) by (auto intro!: exI [of _ w2])
    qed
  next
    fix t assume "?wait t \<or> ?done t" "\<not> fs_user t = 0"
    then show "?done t" using s(2) by auto
  qed
qed

lemma write_blocking:
  assumes "link_law d (ch_mem ch)" "memory_law d ch fmt" "a \<in> ch_words ch"
  obtains ops w where "blocking d [fwrite_op a fmt v] s = (EB_OK, ops, s\<lparr>fs_w := w\<rparr>)"
    "ch_mem ch w = (ch_mem ch (fs_w s))(a := ch_mem ch (fs_w s) a AND v)"
proof -
  obtain w1 where w1: "blocking d [fwrite_op a fmt v] s = (let (st, ops, w) = run_cycle d EB_OK [fwrite_op a fmt v] w1 in (st, ops, s\<lparr>fs_w := w\<rparr>))"
    "ch_mem ch w1 = ch_mem ch (fs_w s)"
    by (rule blocking_OK [OF assms(1)])
  obtain st c w where r: "run_cycle d EB_OK [fwrite_op a fmt v] w1 = (st, c, w)" by (metis prod.exhaust)
  have "\<forall>op \<in> set [fwrite_op a fmt v]. \<exists>a \<in> ch_words ch. \<exists>v. op = fwrite_op a fmt v" using assms(3) by auto
  note run = run_writes [OF assms(2) this r]
  have "blocking d [fwrite_op a fmt v] s = (EB_OK, c, s\<lparr>fs_w := w\<rparr>)" unfolding w1(1) r run(1) by simp
  then show ?thesis by (rule that) (use run(3) w1(2) in \<open>simp add: fwrite_op_def\<close>)
qed

section \<open>The probes\<close>

text \<open>The probes lie at the distances \<open>2 ^ l\<close> from the start of sector \<open>j\<close>, which is where the test area of size \<open>2 ^ q\<close> begins.\<close>

definition probe_at :: "flash_opts \<Rightarrow> nat \<Rightarrow> nat \<Rightarrow> nat \<Rightarrow> u64" where
  "probe_at cfg k j l = word_addr cfg (j * 2 ^ k + 2 ^ l)"

definition probing :: "flash_opts \<Rightarrow> nat \<Rightarrow> nat \<Rightarrow> nat \<Rightarrow> nat \<Rightarrow> nat \<Rightarrow> bool" where
  "probing cfg n k p q j \<longleftrightarrow> fo_page_size cfg = 2 ^ p \<and> fl_size cfg dvd 2 ^ p \<and> p \<le> k \<and> k \<le> q \<and> q \<le> 21 \<and> j * 2 ^ k + 2 ^ q \<le> n * 2 ^ k"

lemma probe_sum: "word_addr cfg (j * 2 ^ k) + 2 ^ l = probe_at cfg k j l"
  by (simp add: probe_at_def word_addr_def)

lemma test_area:
  assumes S: "flash_setting d ch cfg n"
    and page: "fo_page_size cfg = 2 ^ p" "p \<le> ch_k ch" "fl_size cfg dvd 2 ^ p" and k: "ch_k ch \<le> 21" "2 ^ ch_k ch \<le> length (fo_firmware cfg)"
  defines "middle \<equiv> fo_address cfg + fo_firmware_length cfg div 2"
  obtains q j target where "fit_sector cfg (2 ^ p, fl_align middle (2 ^ p)) = Some (2 ^ Suc q, target)" "probing cfg n (ch_k ch) p q j"
    "fl_align middle (2 ^ q) = word_addr cfg (j * 2 ^ ch_k ch)"
proof -
  let ?k = "ch_k ch" and ?A = "unat (fo_address cfg)" and ?L = "length (fo_firmware cfg)"
  note L = length_le_sectors [OF S]
  have "0 < ?L" using k(2) by (meson less_le_trans zero_less_numeral zero_less_power)
  moreover have "?A + ?L < 2 ^ 64" using setting_facts(14) [OF S] L(1) by linarith
  ultimately have "\<exists>q target. fit_sector cfg (2 ^ p, fl_align middle (2 ^ p)) = Some (2 ^ Suc q, target) \<and> ?k \<le> q \<and> q \<le> 21 \<and> fits cfg q"
    unfolding middle_def by (intro fit_sector_finds [OF page(2) k(1)]) (use sector_fits [OF S _ k(2)] in \<open>simp_all add: L(2)\<close>)
  then obtain q target where q: "fit_sector cfg (2 ^ p, fl_align middle (2 ^ p)) = Some (2 ^ Suc q, target)" "?k \<le> q" "q \<le> 21" "fits cfg q"
    by blast
  let ?t = "fl_align middle (2 ^ q)"
  have t: "?A \<le> unat ?t" "unat ?t + 2 ^ q \<le> ?A + ?L" "2 ^ q dvd unat ?t"
    using q(4) unfolding fits_def L(2) middle_def by (auto simp: unat_align)
  have "2 ^ ?k dvd (2 :: nat) ^ q" using q(2) by (rule le_imp_power_dvd)
  then have "2 ^ ?k dvd unat ?t - ?A" using setting_facts(12) [OF S] t(3) by (meson dvd_diff_nat dvd_trans)
  then obtain j where jd: "unat ?t - ?A = 2 ^ ?k * j" by (elim dvdE)
  have "unat ?t = ?A + (unat ?t - ?A)" using t(1) by simp
  then have j: "unat ?t = ?A + j * 2 ^ ?k" unfolding jd by (simp only: mult.commute)
  have "?t = of_nat (unat ?t)" by simp
  also have "\<dots> = word_addr cfg (j * 2 ^ ?k)" unfolding j by (simp add: word_addr_def)
  finally have "?t = word_addr cfg (j * 2 ^ ?k)" .
  moreover have "probing cfg n ?k p q j" using page q(2,3) t(2) j L(1) by (simp add: probing_def)
  ultimately show ?thesis using that [OF q(1)] by blast
qed

lemma probe_facts:
  assumes S: "flash_setting d ch cfg n" and P: "probing cfg n (ch_k ch) p q j"
  shows "j < n" "word_addr cfg (j * 2 ^ ch_k ch) \<in> ch_words ch"
    and "p \<le> l \<Longrightarrow> l < q \<Longrightarrow> probe_at cfg (ch_k ch) j l \<in> ch_words ch"
    and "p \<le> l \<Longrightarrow> l < q \<Longrightarrow> \<not> outside cfg n (ch_k ch) (probe_at cfg (ch_k ch) j l)"
    and "p \<le> l \<Longrightarrow> l < q \<Longrightarrow>
      drop_bit (ch_k ch) (probe_at cfg (ch_k ch) j l) = drop_bit (ch_k ch) (word_addr cfg (j * 2 ^ ch_k ch)) \<longleftrightarrow> l < ch_k ch"
proof -
  let ?k = "ch_k ch" and ?off = "j * 2 ^ ch_k ch + 2 ^ l"
  have in': "j * 2 ^ ?k + 2 ^ q \<le> n * 2 ^ ?k" and z: "fl_size cfg dvd 2 ^ ?k" "fl_size cfg dvd 2 ^ p"
    using P size_dvd_sector(1) [OF S] unfolding probing_def by blast+
  have "(0 :: nat) < 2 ^ q" by simp
  then have "j * 2 ^ ?k < n * 2 ^ ?k" using in' by linarith
  then show j: "j < n" by simp
  show "word_addr cfg (j * 2 ^ ?k) \<in> ch_words ch" by (rule setting_facts(19) [OF S]) (use j z in simp_all)
  assume l: "p \<le> l" "l < q"
  have "(2 :: nat) ^ l < 2 ^ q" using l(2) by simp
  then have a: "?off < n * 2 ^ ?k" using in' by linarith
  have "2 ^ p dvd (2 :: nat) ^ l" using l(1) by (rule le_imp_power_dvd)
  then have "fl_size cfg dvd ?off" using z by (meson dvd_add dvd_mult dvd_trans)
  with setting_facts(19) [OF S a] show "probe_at cfg ?k j l \<in> ch_words ch" by (simp add: probe_at_def)
  show "\<not> outside cfg n ?k (probe_at cfg ?k j l)"
    using a unat_word_addr [OF S, of ?off] by (simp add: outside_def probe_at_def)
  have "?off div 2 ^ ?k = j \<longleftrightarrow> l < ?k" by (simp add: div_eq_0_iff)
  then show "drop_bit ?k (probe_at cfg ?k j l) = drop_bit ?k (word_addr cfg (j * 2 ^ ?k)) \<longleftrightarrow> l < ?k"
    using same_sector(1) [OF S j a] by (simp add: probe_at_def)
qed

section \<open>The phases of the detection\<close>

text \<open>Zeros are written to the probes.\<close>

lemma write_zeros_ensures:
  assumes S: "flash_setting d ch cfg n" and P: "probing cfg n (ch_k ch) p q j" and idle: "fs_queue s = []"
  defines "Z \<equiv> \<lambda>i w. (\<forall>l. p \<le> l \<longrightarrow> l < i \<longrightarrow> ch_mem ch w (probe_at cfg (ch_k ch) j l) = 0) \<and>
      (\<forall>x. outside cfg n (ch_k ch) x \<longrightarrow> ch_mem ch w x = ch_mem ch (fs_w s) x)"
  shows "ensures (repeat_while (\<lambda>(sz, s). sz < (2 ^ q :: u64))
       (\<lambda>(sz, s). let (st, _, s) = blocking d [fwrite_op (word_addr cfg (j * 2 ^ ch_k ch) + sz) (fo_format cfg) 0] s
          in if st \<noteq> EB_OK then Some (Inl 1) else and_then (wait_for_busy d cfg 0 s) (\<lambda>s. Some (Inr (push_bit 1 sz, s))))
       (2 ^ p, s)) (\<lambda>(x, s'). \<exists>w. s' = s\<lparr>fs_w := w\<rparr> \<and> Z q w)"
proof (rule doubling_ensures)
  show "p \<le> q" "q < 64" using P by (simp_all add: probing_def)
  show "\<exists>w. s = s\<lparr>fs_w := w\<rparr> \<and> Z p w" by (auto simp: Z_def intro!: exI [of _ "fs_w s"])
next
  fix i s' assume i: "p \<le> i" "i < q" and "\<exists>w. s' = s\<lparr>fs_w := w\<rparr> \<and> Z i w"
  then obtain w where w: "s' = s\<lparr>fs_w := w\<rparr>" "Z i w" by blast
  let ?a = "probe_at cfg (ch_k ch) j i"
  obtain ops w1 where w1: "blocking d [fwrite_op ?a (fo_format cfg) 0] s' = (EB_OK, ops, s'\<lparr>fs_w := w1\<rparr>)"
    "ch_mem ch w1 = (ch_mem ch (fs_w s'))(?a := ch_mem ch (fs_w s') ?a AND 0)"
    by (rule write_blocking [OF setting_facts(1,2) [OF S] probe_facts(3) [OF S P i]])
  have Z: "Z (Suc i) w1" using w probe_facts(4) [OF S P i] unfolding Z_def w1(2) by (auto simp: less_Suc_eq)
  have B: "ensures (wait_for_busy d cfg 0 (s'\<lparr>fs_w := w1\<rparr>)) (\<lambda>s2. \<exists>w. s2 = s'\<lparr>fs_w := w1, fs_w := w\<rparr> \<and> ch_mem ch w = ch_mem ch (fs_w (s'\<lparr>fs_w := w1\<rparr>)))"
    by (rule busy_ensures [OF setting_facts(1,3) [OF S]]) (use idle w(1) in simp)
  have "ensures (and_then (wait_for_busy d cfg 0 (s'\<lparr>fs_w := w1\<rparr>)) (\<lambda>s. Some (Inr (push_bit 1 (2 ^ i :: u64), s))))
      (\<lambda>(x, s'). x = 2 ^ Suc i \<and> (\<exists>w. s' = s\<lparr>fs_w := w\<rparr> \<and> Z (Suc i) w))"
  proof (rule ensures_and_then [OF B], elim exE conjE)
    fix s2 w2 assume "s2 = s'\<lparr>fs_w := w1, fs_w := w2\<rparr>" "ch_mem ch w2 = ch_mem ch (fs_w (s'\<lparr>fs_w := w1\<rparr>))"
    then have "s2 = s\<lparr>fs_w := w2\<rparr>" "Z (Suc i) w2" using Z w(1) by (simp_all add: Z_def)
    then show "ensures (Some (Inr (push_bit 1 (2 ^ i :: u64), s2))) (\<lambda>(x, s'). x = 2 ^ Suc i \<and> (\<exists>w. s' = s\<lparr>fs_w := w\<rparr> \<and> Z (Suc i) w))"
      unfolding double_pow2 by auto
  qed
  then show "ensures (case (2 ^ i, s') of (sz, s) \<Rightarrow> let (st, _, s) = blocking d [fwrite_op (word_addr cfg (j * 2 ^ ch_k ch) + sz) (fo_format cfg) 0] s
        in if st \<noteq> EB_OK then Some (Inl 1) else and_then (wait_for_busy d cfg 0 s) (\<lambda>s. Some (Inr (push_bit 1 sz, s))))
      (\<lambda>(x, s'). x = 2 ^ Suc i \<and> (\<exists>w. s' = s\<lparr>fs_w := w\<rparr> \<and> Z (Suc i) w))"
    by (simp add: probe_sum w1(1) del: power_Suc)
qed

text \<open>After one sector was erased, the zeros that are left give the size.\<close>

definition probe_reads :: "flash_opts \<Rightarrow> nat \<Rightarrow> nat \<Rightarrow> nat \<Rightarrow> nat \<Rightarrow> fop list" where
  "probe_reads cfg k j p i = map (\<lambda>l. fread_op (probe_at cfg k j l) (fo_format cfg)) [p..<i]"

lemma left_zeros:
  assumes S: "flash_setting d ch cfg n" and P: "probing cfg n (ch_k ch) p q j"
    and m: "m2 = blank ch (\<lambda>x. drop_bit (ch_k ch) x = drop_bit (ch_k ch) (word_addr cfg (j * 2 ^ ch_k ch))) m1"
      "\<And>l. p \<le> l \<Longrightarrow> l < q \<Longrightarrow> m1 (probe_at cfg (ch_k ch) j l) = 0"
  shows "find_sector_ops (fo_page_size cfg) (map (\<lambda>op. op\<lparr>fop_data := m2 (fop_address op), fop_error := False\<rparr>) (probe_reads cfg (ch_k ch) j p q)) =
    Inr (2 ^ ch_k ch)"
proof -
  have page: "fo_page_size cfg = 2 ^ p" "p \<le> ch_k ch" "ch_k ch \<le> q" using P unfolding probing_def by blast+
  have "m2 (probe_at cfg (ch_k ch) j l) \<noteq> 0 \<longleftrightarrow> l < ch_k ch" if l: "p \<le> l" "l < q" for l
  proof -
    have "m2 (probe_at cfg (ch_k ch) j l) = (if l < ch_k ch then ch_ones ch else 0)"
      using probe_facts(3,5) [OF S P l] m l unfolding m(1) blank_def by simp
    moreover have "ch_ones ch \<noteq> 0" using setting_facts(6,7) [OF S] by (auto simp: mask_eq_exp_minus_1)
    ultimately show ?thesis by simp
  qed
  from find_sector_ops_count [OF page(2,3), of "\<lambda>l. m2 (probe_at cfg (ch_k ch) j l)", OF this]
  show ?thesis by (simp add: page(1) probe_reads_def comp_def fread_op_def)
qed

lemma read_probes_ensures:
  assumes P: "probing cfg n k p q j" and idle: "fs_cycle s = []"
  shows "ensures (repeat_while (\<lambda>(sz, s). sz < (2 ^ q :: u64))
       (\<lambda>(sz, s). Some (Inr (push_bit 1 sz, add_op (fread_op (word_addr cfg (j * 2 ^ k) + sz) (fo_format cfg)) s))) (2 ^ p, s))
     (\<lambda>(x, s'). s' = s\<lparr>fs_cycle := probe_reads cfg k j p q\<rparr>)"
proof (rule doubling_ensures)
  show "p \<le> q" "q < 64" using P by (simp_all add: probing_def)
  show "s = s\<lparr>fs_cycle := probe_reads cfg k j p p\<rparr>" using idle by (simp add: probe_reads_def)
qed (auto simp: probe_sum probe_reads_def add_op_def push_bit_eq_mult power_Suc2 simp del: power_Suc)

text \<open>The last phase: the probes are read in one cycle, and its callback stores the size.\<close>

lemma scan_probes_ensures:
  assumes S: "flash_setting d ch cfg n" and P: "probing cfg n (ch_k ch) p q j" and idle: "fs_queue s = []" "fs_cycle s = []"
    and r: "find_sector_ops (fo_page_size cfg)
        (map (\<lambda>op. op\<lparr>fop_data := ch_mem ch (fs_w s) (fop_address op), fop_error := False\<rparr>) (probe_reads cfg (ch_k ch) j p q)) = Inr (2 ^ ch_k ch)"
  shows "ensures (let (st, s) = open_status d s
     in if st \<noteq> EB_OK then Some (Inl 1)
        else and_then (repeat_while (\<lambda>(sz, s). sz < (2 ^ q :: u64))
               (\<lambda>(sz, s). Some (Inr (push_bit 1 sz, add_op (fread_op (word_addr cfg (j * 2 ^ ch_k ch) + sz) (fo_format cfg)) s))) (2 ^ p, s)) (\<lambda>(_, s).
             and_then (repeat_while (\<lambda>s. fs_user s = 0)
               (\<lambda>s. and_then (fl_socket_run d (find_sector_size cfg) (-1) s) (\<lambda>(_, s). Some (Inr s)))
               (s\<lparr>fs_user := 0, fs_queue := fs_queue s @ [fs_cycle s], fs_cycle := []\<rparr>))
             (\<lambda>s. Some (Inr (fs_user s, s)))))
    (\<lambda>(sz, s'). sz = 2 ^ ch_k ch \<and> (\<exists>w. s' = s\<lparr>fs_w := w, fs_user := sz\<rparr> \<and> ch_mem ch w = ch_mem ch (fs_w s)))"
    (is "ensures _ ?post")
proof -
  let ?ops = "probe_reads cfg (ch_k ch) j p q"
  obtain st w3 where o: "fd_open d (fs_w s) = (st, w3)" by (metis prod.exhaust)
  have st: "st = EB_OK" "ch_mem ch w3 = ch_mem ch (fs_w s)"
    using setting_facts(1) [OF S] o unfolding link_law_def by (metis fst_conv snd_conv)+
  let ?s3 = "s\<lparr>fs_w := w3\<rparr>" and ?s4 = "s\<lparr>fs_w := w3, fs_queue := [?ops], fs_user := 0\<rparr>"
  have os: "open_status d s = (EB_OK, ?s3)" using idle(2) st(1) o by (cases s) (simp add: open_status_def)
  have r': "find_sector_ops (fo_page_size cfg) (map (\<lambda>op. op\<lparr>fop_data := ch_mem ch (fs_w ?s4) (fop_address op), fop_error := False\<rparr>) ?ops) = Inr (2 ^ ch_k ch)"
    using r st(2) by simp
  have "unat (2 ^ ch_k ch :: u64) = 2 ^ ch_k ch" by (rule unat_pow2) (use setting_facts(10) [OF S] in simp)
  then have nz: "(2 ^ ch_k ch :: u64) \<noteq> 0" by (metis power_not_zero unat_0 zero_neq_numeral)
  have ok: "\<forall>op \<in> set ?ops. \<exists>a \<in> ch_words ch. op = fread_op a (fo_format cfg)"
    using probe_facts(3) [OF S P] by (auto simp: probe_reads_def)
  have W: "ensures (repeat_while (\<lambda>s. fs_user s = 0) (\<lambda>s. and_then (fl_socket_run d (find_sector_size cfg) (-1) s) (\<lambda>(_, s). Some (Inr s))) ?s4)
      (\<lambda>s'. \<exists>w. s' = ?s4\<lparr>fs_w := w, fs_queue := [], fs_user := 2 ^ ch_k ch\<rparr> \<and> ch_mem ch w = ch_mem ch (fs_w ?s4))"
    by (rule wait_user_ensures [OF setting_facts(1,2) [OF S] ok r' nz]) simp_all
  have "ensures (and_then (repeat_while (\<lambda>(sz, s). sz < (2 ^ q :: u64))
         (\<lambda>(sz, s). Some (Inr (push_bit 1 sz, add_op (fread_op (word_addr cfg (j * 2 ^ ch_k ch) + sz) (fo_format cfg)) s))) (2 ^ p, ?s3)) (\<lambda>(_, s).
       and_then (repeat_while (\<lambda>s. fs_user s = 0)
         (\<lambda>s. and_then (fl_socket_run d (find_sector_size cfg) (-1) s) (\<lambda>(_, s). Some (Inr s)))
         (s\<lparr>fs_user := 0, fs_queue := fs_queue s @ [fs_cycle s], fs_cycle := []\<rparr>))
       (\<lambda>s. Some (Inr (fs_user s, s))))) ?post"
  proof (rule ensures_and_then [OF read_probes_ensures [OF P]])
    show "fs_cycle ?s3 = []" using idle by simp
    fix t assume t: "case t of (x :: u64, s') \<Rightarrow> s' = ?s3\<lparr>fs_cycle := ?ops\<rparr>"
    obtain x where x: "t = (x, ?s3\<lparr>fs_cycle := ?ops\<rparr>)" using t by (cases t) auto
    have s4: "?s3\<lparr>fs_cycle := ?ops, fs_user := 0, fs_queue := fs_queue (?s3\<lparr>fs_cycle := ?ops\<rparr>) @ [fs_cycle (?s3\<lparr>fs_cycle := ?ops\<rparr>)], fs_cycle := []\<rparr> = ?s4"
      using idle by (cases s) simp
    have same: "?s4\<lparr>fs_w := w, fs_queue := [], fs_user := 2 ^ ch_k ch\<rparr> = s\<lparr>fs_w := w, fs_user := 2 ^ ch_k ch\<rparr>" for w
      using idle by (cases s) simp
    show "ensures (case t of (_, s) \<Rightarrow> and_then (repeat_while (\<lambda>s. fs_user s = 0)
         (\<lambda>s. and_then (fl_socket_run d (find_sector_size cfg) (-1) s) (\<lambda>(_, s). Some (Inr s)))
         (s\<lparr>fs_user := 0, fs_queue := fs_queue s @ [fs_cycle s], fs_cycle := []\<rparr>))
       (\<lambda>s. Some (Inr (fs_user s, s)))) ?post"
      unfolding x prod.case s4 by (rule ensures_and_then [OF W]) (use st(2) same in auto)
  qed
  then show ?thesis by (simp add: os)
qed

section \<open>Detection\<close>

lemma detect_setting_ensures:
  assumes S: "flash_setting d ch cfg n"
    and page: "fo_page_size cfg = 2 ^ p" "p \<le> ch_k ch" "fl_size cfg dvd 2 ^ p" and k: "ch_k ch \<le> 21" "2 ^ ch_k ch \<le> length (fo_firmware cfg)"
    and idle: "fs_queue s = []" "fs_cycle s = []"
  shows "ensures (detect_sector_size d cfg s) (\<lambda>(sz, s'). sz = 2 ^ ch_k ch \<and> (\<exists>w. s' = s\<lparr>fs_w := w, fs_user := sz\<rparr> \<and>
    (\<forall>x. outside cfg n (ch_k ch) x \<longrightarrow> ch_mem ch w x = ch_mem ch (fs_w s) x)))"
    (is "ensures _ ?post")
proof -
  let ?k = "ch_k ch"
  obtain q j target0 where q: "fit_sector cfg (2 ^ p, fl_align (fo_address cfg + fo_firmware_length cfg div 2) (2 ^ p)) = Some (2 ^ Suc q, target0)"
    and P: "probing cfg n ?k p q j" and tgt: "fl_align (fo_address cfg + fo_firmware_length cfg div 2) (2 ^ q) = word_addr cfg (j * 2 ^ ?k)"
    by (rule test_area [OF S page k])
  let ?target = "word_addr cfg (j * 2 ^ ?k)"
  have max: "drop_bit 1 (2 ^ Suc q :: u64) = 2 ^ q"
    by (rule bit_word_eqI) (use P in \<open>auto simp: probing_def bit_simps simp del: power_Suc\<close>)
  have erase: "ensures (erase_and_wait d cfg ?target (s\<lparr>fs_w := w\<rparr>)) (\<lambda>s'. \<exists>w'. s' = s\<lparr>fs_w := w, fs_w := w'\<rparr> \<and>
      ch_mem ch w' = blank ch (\<lambda>x. drop_bit ?k x = drop_bit ?k ?target) (ch_mem ch (fs_w (s\<lparr>fs_w := w\<rparr>))))" for w
  proof (rule erase_ensures [OF setting_facts(1,3,4,5) [OF S]])
    show "?k \<le> 8 * ch_bytes ch" using setting_facts(5,10) [OF S] by auto
    show "\<forall>x \<in> ch_words ch. drop_bit (8 * ch_bytes ch) x = drop_bit (8 * ch_bytes ch) ?target"
      using setting_facts(21) [OF S] probe_facts(2) [OF S P] by blast
  qed (use idle in simp_all)
  show ?thesis
    unfolding detect_sector_size_def page(1) Let_def q Option.bind.simps prod.case max tgt
  proof (rule ensures_and_then [OF write_zeros_ensures [OF S P idle(1), unfolded Let_def]])
    fix t assume "case t of (x :: u64, s') \<Rightarrow> \<exists>w. s' = s\<lparr>fs_w := w\<rparr> \<and>
      (\<forall>l. p \<le> l \<longrightarrow> l < q \<longrightarrow> ch_mem ch w (probe_at cfg ?k j l) = 0) \<and> (\<forall>x. outside cfg n ?k x \<longrightarrow> ch_mem ch w x = ch_mem ch (fs_w s) x)"
    then obtain x w where t: "t = (x, s\<lparr>fs_w := w\<rparr>)" and zero: "\<And>l. p \<le> l \<Longrightarrow> l < q \<Longrightarrow> ch_mem ch w (probe_at cfg ?k j l) = 0"
      and out: "\<forall>x. outside cfg n ?k x \<longrightarrow> ch_mem ch w x = ch_mem ch (fs_w s) x" by (cases t) auto
    show "ensures (case t of (_, s) \<Rightarrow> and_then (erase_and_wait d cfg ?target s) (\<lambda>s. case open_status d s of (st, s) \<Rightarrow>
        if st \<noteq> EB_OK then Some (Inl 1)
        else and_then (repeat_while (\<lambda>(sz, s). sz < (2 ^ q :: u64))
               (\<lambda>(sz, s). Some (Inr (push_bit 1 sz, add_op (fread_op (?target + sz) (fo_format cfg)) s))) (2 ^ p, s)) (\<lambda>(_, s).
             and_then (repeat_while (\<lambda>s. fs_user s = 0)
               (\<lambda>s. and_then (fl_socket_run d (find_sector_size cfg) (-1) s) (\<lambda>(_, s). Some (Inr s)))
               (s\<lparr>fs_user := 0, fs_queue := fs_queue s @ [fs_cycle s], fs_cycle := []\<rparr>))
             (\<lambda>s. Some (Inr (fs_user s, s)))))) ?post"
      unfolding t prod.case
    proof (rule ensures_and_then [OF erase], elim exE conjE)
      fix s2 w2 assume s2: "s2 = s\<lparr>fs_w := w, fs_w := w2\<rparr>" "ch_mem ch w2 = blank ch (\<lambda>x. drop_bit ?k x = drop_bit ?k ?target) (ch_mem ch (fs_w (s\<lparr>fs_w := w\<rparr>)))"
      then have m2: "ch_mem ch (fs_w s2) = blank ch (\<lambda>x. drop_bit ?k x = drop_bit ?k ?target) (ch_mem ch w)" by simp
      have keep: "ch_mem ch (fs_w s2) x = ch_mem ch (fs_w s) x" if x: "outside cfg n ?k x" for x
        using same_sector(2) [OF S probe_facts(1) [OF S P] x] out x unfolding m2 by (simp add: blank_def)
      note scan = scan_probes_ensures [OF S P _ _ left_zeros [OF S P m2 zero], unfolded Let_def]
      show "ensures (case open_status d s2 of (st, s) \<Rightarrow>
        if st \<noteq> EB_OK then Some (Inl 1)
        else and_then (repeat_while (\<lambda>(sz, s). sz < (2 ^ q :: u64))
               (\<lambda>(sz, s). Some (Inr (push_bit 1 sz, add_op (fread_op (?target + sz) (fo_format cfg)) s))) (2 ^ p, s)) (\<lambda>(_, s).
             and_then (repeat_while (\<lambda>s. fs_user s = 0)
               (\<lambda>s. and_then (fl_socket_run d (find_sector_size cfg) (-1) s) (\<lambda>(_, s). Some (Inr s)))
               (s\<lparr>fs_user := 0, fs_queue := fs_queue s @ [fs_cycle s], fs_cycle := []\<rparr>))
             (\<lambda>s. Some (Inr (fs_user s, s))))) ?post"
        by (rule ensures_mono [OF scan]) (use idle s2(1) keep in auto)
    qed
  qed
qed

text \<open>The detection does not look at the options that are not known yet.\<close>

definition detect_opts :: "flash_opts \<Rightarrow> nat \<Rightarrow> flash_opts" where
  "detect_opts cfg k = work_opts (cfg\<lparr>fo_sector_size := 2 ^ k\<rparr>)"

lemma detect_opts_facts:
  shows "detect_sector_size d (detect_opts cfg k) s = detect_sector_size d cfg s" "outside (detect_opts cfg k) = outside cfg"
    "fo_page_size (detect_opts cfg k) = fo_page_size cfg" "fl_size (detect_opts cfg k) = fl_size cfg" "fo_firmware (detect_opts cfg k) = fo_firmware cfg"
proof -
  let ?c = "detect_opts cfg k"
  have field: "fo_address ?c = fo_address cfg" "fo_firmware_length ?c = fo_firmware_length cfg" "fo_erase_address ?c = fo_erase_address cfg"
    "fo_page_size ?c = fo_page_size cfg" "fo_format ?c = fo_format cfg" "fo_old_erase ?c = fo_old_erase cfg" "fo_wait_us ?c = fo_wait_us cfg"
    by (simp_all add: detect_opts_def work_opts_def)
  have "fl_control ?c = fl_control cfg" by (simp only: fl_control_def field)
  moreover have "erase_command ?c sector = erase_command cfg sector" for sector by (simp only: erase_command_def field)
  ultimately have "wait_for_busy d ?c = wait_for_busy d cfg" "erase_sector d ?c = erase_sector d cfg"
    by (simp_all only: fun_eq_iff wait_for_busy_def erase_sector_def field simp_thms)
  moreover from this have "erase_and_wait d ?c = erase_and_wait d cfg" by (simp only: fun_eq_iff erase_and_wait_def field simp_thms)
  moreover have "find_sector_size ?c = (find_sector_size cfg :: 'a fcallback)" by (simp only: fun_eq_iff find_sector_size_def field simp_thms)
  moreover have "fit_sector ?c = fit_sector cfg" by (simp only: fun_eq_iff fit_sector_def field simp_thms)
  ultimately show "detect_sector_size d ?c s = detect_sector_size d cfg s" by (simp only: detect_sector_size_def field)
qed (simp_all add: detect_opts_def work_opts_def fl_size_def fun_eq_iff outside_def)

lemmas detect_ensures = detect_setting_ensures [where cfg = "detect_opts cfg (ch_k ch)" for cfg ch, unfolded detect_opts_facts]

end
