(* ===== verification/Flash_Main.thy ===== *)
theory Flash_Main
  imports Flash_Detect
begin

text \<open>
  The theorems on the flash programmer as a whole, and a board on which their hypotheses hold.
\<close>

section \<open>A board\<close>

text \<open>32 bytes of memory in one sector; every run of the event loop completes all cycles.\<close>

definition demo_chip :: "(u64 \<Rightarrow> u64) flash_chip" where
  "demo_chip = \<lparr>ch_mem = (\<lambda>w. w), ch_words = {x. unat x < 32 \<and> 4 dvd unat x}, ch_k = 5, ch_bytes = 3, ch_ones = mask 32, ch_busy = (\<lambda>w. 0)\<rparr>"

definition demo_flash :: "(u64 \<Rightarrow> u64) flash_dev" where
  "demo_flash = \<lparr>fd_open = (\<lambda>w. (EB_OK, w)), fd_run = (\<lambda>n t w. ((max t 1, replicate n EB_OK), w)), fd_block = (\<lambda>w. (EB_OK, w)),
     fd_read = (\<lambda>a f w. ((w a, False), w)),
     fd_write = (\<lambda>a f v w. (False, if a = 4096 then blank demo_chip (\<lambda>x. drop_bit 5 x = drop_bit 5 v) w else w(a := w a AND v)))\<rparr>"

definition demo_opts :: flash_opts where
  "demo_opts = \<lparr>fo_address = 0, fo_erase_address = 4096, fo_sector_size = 0, fo_page_size = 4, fo_wait_us = 100000, fo_cycles_per_poll = 4,
     fo_full = False, fo_verify = True, fo_invert = True, fo_old_erase = True, fo_firmware = map of_nat [0..<32], fo_firmware_length = 0,
     fo_format = 0, fo_ffs = 0, fo_mask_0f = 0\<rparr>"

section \<open>The options the program works with\<close>

definition session_opts :: "eb_width_t \<Rightarrow> eb_width_t \<Rightarrow> eb_format_t \<Rightarrow> flash_opts \<Rightarrow> flash_opts" where
  "session_opts line_width device_support endian cfg =
     cfg\<lparr>fo_firmware_length := of_nat (length (fo_firmware cfg)),
       fo_format := pick_format line_width device_support OR (if endian = 0 then device_support AND EB_ENDIAN_MASK else endian)\<rparr>"

lemma demo_setting: "flash_setting demo_flash demo_chip (detect_opts (session_opts 4 0x14 0 demo_opts) 5) 1"
proof -
  let ?cfg = "detect_opts (session_opts 4 0x14 0 demo_opts) 5"
  have fmt: "fo_format ?cfg = 0x14"
    by (simp add: detect_opts_def work_opts_def session_opts_def) (simp add: pick_format_def Let_def)
  have z: "fl_size ?cfg = 4" by (simp add: fl_size_def fmt)
  have f: "fo_address ?cfg = 0" "fo_erase_address ?cfg = 4096" "fo_old_erase ?cfg" "fo_firmware ?cfg = map of_nat [0..<32]" "fo_sector_size ?cfg = 2 ^ 5"
    "fo_firmware_length ?cfg = 32" "fo_cycles_per_poll ?cfg = 4"
    by (simp_all add: detect_opts_def work_opts_def session_opts_def demo_opts_def)
  have "fl_size (session_opts 4 0x14 0 demo_opts) = fl_size ?cfg" by (simp add: fl_size_def detect_opts_def work_opts_def)
  then have ffs: "fo_ffs ?cfg = mask 32" using z by (simp add: detect_opts_def work_opts_def fl_size_def)
  have link: "link_law demo_flash (\<lambda>w. w)"
    by (auto simp: link_law_def demo_flash_def max_def)
  have mem: "memory_law demo_flash demo_chip f" for f
    by (auto simp: memory_law_def demo_flash_def demo_chip_def)
  have busy: "busy_law demo_flash demo_chip a f" for a f
    by (simp add: busy_law_def demo_flash_def demo_chip_def)
  have erase: "erase_law demo_flash demo_chip 4096 f True" for f
    by (simp add: erase_law_def demo_flash_def demo_chip_def)
  have inside: "word_addr ?cfg off \<in> ch_words demo_chip" if "off < 32" "4 dvd off" for off
    using that by (simp add: word_addr_def f demo_chip_def unat_of_nat)
  have notea: "word_addr ?cfg off \<noteq> 4096" if "off < 32" for off
  proof -
    have "unat (word_addr ?cfg off) = off" using that by (simp add: word_addr_def f unat_of_nat)
    then show ?thesis using that by auto
  qed
  have high: "drop_bit 24 x = drop_bit 24 y" if "x \<in> ch_words demo_chip" "y \<in> ch_words demo_chip" for x y :: u64
  proof -
    have "unat (drop_bit 24 x) = 0" if "unat x < 32" for x :: u64 unfolding unat_drop_bit_eq using that by (simp add: drop_bit_eq_div)
    then show ?thesis using that by (simp add: demo_chip_def word_unat_eq_iff)
  qed
  have chip: "ch_mem demo_chip = (\<lambda>w. w)" "ch_k demo_chip = 5" "ch_bytes demo_chip = 3" "ch_ones demo_chip = mask 32"
    by (simp_all add: demo_chip_def)
  have len: "length (fo_firmware ?cfg) = 32" by (simp add: f)
  have b: "drop_bit 24 (fo_erase_address ?cfg - fo_address ?cfg) = 0" by (simp add: f)
  show ?thesis
    unfolding flash_setting_def chip z ffs b len
  proof (intro conjI)
    show "link_law demo_flash (\<lambda>w. w)" by (rule link)
    show "memory_law demo_flash demo_chip (fo_format ?cfg)" by (rule mem)
    show "busy_law demo_flash demo_chip (fo_erase_address ?cfg) (fl_control ?cfg)" by (rule busy)
    show "erase_law demo_flash demo_chip (fo_erase_address ?cfg) (fl_control ?cfg) (fo_old_erase ?cfg)"
      using f(2,3) erase by simp
    show "\<forall>off < 1 * 2 ^ 5. 4 dvd off \<longrightarrow> word_addr ?cfg off \<in> ch_words demo_chip" using inside by simp
    show "\<forall>off < 32. word_addr ?cfg off \<noteq> fo_erase_address ?cfg" using notea f(2) by simp
    show "\<forall>x \<in> ch_words demo_chip. \<forall>y \<in> ch_words demo_chip. drop_bit (8 * 3) x = drop_bit (8 * 3) y"
    proof -
      have "8 * 3 = (24 :: nat)" by simp
      then show ?thesis using high by metis
    qed
    show "fo_sector_size ?cfg = 2 ^ 5" by (rule f(5))
    show "fo_firmware_length ?cfg = of_nat 32" using f(6) by simp
    show "1 \<le> fo_cycles_per_poll ?cfg" using f(7) by simp
    show "2 ^ 5 dvd unat (fo_address ?cfg)" "unat (fo_address ?cfg) + 1 * 2 ^ 5 < 2 ^ 64" using f(1) by simp_all
    show "1 = (unat (fo_firmware_length ?cfg) + 2 ^ 5 - 1) div 2 ^ 5" using f(6) by simp
  qed simp_all
qed

section \<open>The whole program\<close>

lemma session_fields:
  "fo_address (session_opts l ds e cfg) = fo_address cfg" "fo_firmware (session_opts l ds e cfg) = fo_firmware cfg"
  "fo_page_size (session_opts l ds e cfg) = fo_page_size cfg" "fo_sector_size (session_opts l ds e cfg) = fo_sector_size cfg"
  "fo_firmware_length (session_opts l ds e cfg) = of_nat (length (fo_firmware cfg))" "fo_invert (session_opts l ds e cfg) = fo_invert cfg"
  by (simp_all add: session_opts_def)

lemma firmware_bits:
  assumes S: "flash_setting d ch (work_opts cfg) n" and f: "f < length (fo_firmware cfg)" "t < 8"
    and w: "w = firmware_word (work_opts cfg) (f div fl_size cfg)"
  shows "bit w (8 * lane cfg (f mod fl_size cfg) + t) \<longleftrightarrow> bit (fo_firmware cfg ! f) (if fo_invert cfg then 7 - t else t)"
proof -
  let ?W = "work_opts cfg" and ?z = "fl_size cfg"
  have same: "fl_size ?W = ?z" "fo_firmware ?W = fo_firmware cfg" "fo_mask_0f ?W = fill_0f 8 0x0f" "fo_invert ?W = fo_invert cfg" "lane ?W = lane cfg"
    by (simp_all add: work_opts_def fl_size_def lane_def fun_eq_iff)
  have z: "0 < ?z" "?z \<le> 8" using size_dvd_sector(3,4) [OF S] by (simp_all add: same)
  let ?buf = "take ?z (drop (f div ?z * ?z) (fo_firmware cfg))"
  have "f div ?z < length (fo_firmware cfg) div ?z"
  proof -
    have "length (fo_firmware cfg) = length (fo_firmware cfg) div ?z * ?z" using setting_facts(18) [OF S] by (simp add: same)
    then have "f < length (fo_firmware cfg) div ?z * ?z" using f(1) by simp
    then show ?thesis by (rule less_mult_imp_div_less)
  qed
  then have "Suc (f div ?z) * ?z \<le> length (fo_firmware cfg)" using word_index_fits(1) [OF S, of "f div ?z"] by (simp add: same)
  then have len: "length ?buf = fl_size ?W" by (simp add: same)
  have nth: "?buf ! (f mod ?z) = fo_firmware cfg ! f"
  proof -
    have "f div ?z * ?z \<le> length (fo_firmware cfg)" using f(1) by (meson div_times_less_eq_dividend le_trans less_imp_le_nat)
    then have "drop (f div ?z * ?z) (fo_firmware cfg) ! (f mod ?z) = fo_firmware cfg ! (f div ?z * ?z + f mod ?z)" by (rule nth_drop)
    then show ?thesis using z(1) by simp
  qed
  have m: "f mod ?z < fl_size ?W" using z(1) by (simp add: same)
  have "lane cfg (f mod ?z) < 8" using lane_less [OF m] z(2) by (simp add: same)
  from bit_flip_bits [OF same(3) f(2) this, of "fl_data ?W ?buf"]
  have "bit w (8 * lane cfg (f mod ?z) + t) \<longleftrightarrow> bit (fl_data ?W ?buf) (8 * lane cfg (f mod ?z) + (if fo_invert cfg then 7 - t else t))"
    unfolding w firmware_word_def same .
  also have "\<dots> \<longleftrightarrow> bit (?buf ! (f mod ?z)) (if fo_invert cfg then 7 - t else t)"
    using bit_fl_data(1) [OF len, of "f mod ?z" "if fo_invert cfg then 7 - t else t"] m z(2) f(2) by (simp add: same less_imp_diff_less)
  finally show ?thesis unfolding nth .
qed

lemma flash_work_bits:
  assumes S: "flash_setting d ch (work_opts cfg) n"
    and idle: "fs_queue s = []" "fs_cycle s = []" "fs_inflight s = 0" "fs_pos s = 0" "fs_last_offset s = -1" and len: "n \<le> 8 * length (fs_bitmap s)"
  shows "ensures (flash_work d cfg s) (\<lambda>s'.
    (\<forall>f < length (fo_firmware cfg). \<forall>t < 8. bit (ch_mem ch (fs_w s') (word_addr cfg (f - f mod fl_size cfg))) (8 * lane cfg (f mod fl_size cfg) + t) =
       bit (fo_firmware cfg ! f) (if fo_invert cfg then 7 - t else t)) \<and>
    (\<forall>off < n * 2 ^ ch_k ch. fl_size cfg dvd off \<longrightarrow> length (fo_firmware cfg) \<le> off \<longrightarrow> ch_mem ch (fs_w s') (word_addr cfg off) = ch_ones ch) \<and>
    (\<forall>x. outside cfg n (ch_k ch) x \<longrightarrow> ch_mem ch (fs_w s') x = ch_mem ch (fs_w s) x))"
proof (rule ensures_mono [OF flash_work_ensures [OF assms]], elim conjE, intro conjI allI impI)
  fix s' f and t :: nat
  let ?z = "fl_size cfg" and ?L = "length (fo_firmware cfg)"
  assume a: "\<forall>l < ?L div ?z. ch_mem ch (fs_w s') (word_addr cfg (l * ?z)) = firmware_word (work_opts cfg) l" and f: "f < ?L" "t < 8"
  have "?z dvd ?L" using setting_facts(18) [OF S] by (simp add: work_opts_def fl_size_def)
  then have "f < ?L div ?z * ?z" using f(1) by simp
  then have l: "f div ?z < ?L div ?z" by (rule less_mult_imp_div_less)
  have "f div ?z * ?z = f - f mod ?z" by (rule minus_mod_eq_div_mult [symmetric])
  then have "ch_mem ch (fs_w s') (word_addr cfg (f - f mod ?z)) = firmware_word (work_opts cfg) (f div ?z)" using a l by metis
  from firmware_bits [OF S f this]
  show "bit (ch_mem ch (fs_w s') (word_addr cfg (f - f mod ?z))) (8 * lane cfg (f mod ?z) + t) = bit (fo_firmware cfg ! f) (if fo_invert cfg then 7 - t else t)" .
qed blast+

text \<open>The checks before the work.\<close>

lemma flash_main_start:
  fixes d :: "'w flash_dev" and cfg :: flash_opts and line_width device_support :: eb_width_t and endian :: eb_format_t and w :: 'w
  defines "ses \<equiv> session_opts line_width device_support endian cfg" and "L \<equiv> length (fo_firmware cfg)"
  assumes width: "pick_format line_width device_support \<in> {EB_DATA8, EB_DATA16, EB_DATA32, EB_DATA64}"
    and order: "(if endian = 0 then device_support AND EB_ENDIAN_MASK else endian) \<in> {EB_BIG_ENDIAN, EB_LITTLE_ENDIAN}"
    and page: "fo_page_size cfg = 2 ^ p" "p < 64" "fl_size ses dvd 2 ^ p" "2 ^ p dvd L" "2 ^ p dvd unat (fo_address cfg)"
    and L: "L < 2 ^ 64" and bitmap: "L div 2 ^ p div 8 < 2 ^ 31"
  defines "s \<equiv> \<lparr>fs_w = w, fs_cycle = [], fs_queue = [], fs_inflight = 0, fs_bitmap = replicate (L div 2 ^ p div 8) 0,
      fs_pos = 0, fs_last_offset = -1, fs_user = 0\<rparr>"
  shows "flash_main d line_width device_support endian cfg w =
    (if fo_sector_size cfg = 0 then and_then (detect_sector_size d ses s) (\<lambda>(sz, s). flash_work d (ses\<lparr>fo_sector_size := sz\<rparr>) s) else flash_work d ses s)"
proof -
  let ?e = "if endian = 0 then device_support AND EB_ENDIAN_MASK else endian" and ?f = "pick_format line_width device_support"
  have "unat (2 ^ p :: u64) = 2 ^ p" using page(2) by (rule unat_pow2)
  then have c0: "(2 ^ p :: u64) \<noteq> 0" by (metis power_not_zero unat_0 zero_neq_numeral)
  have c1: "(of_nat L :: u64) mod 2 ^ p = 0"
    using page(4) L page(2) by (simp add: word_unat_eq_iff unat_mod_distrib unat_pow2 unat_of_nat)
  have c2: "fo_address cfg mod 2 ^ p = 0" using page(5,2) by (simp add: word_unat_eq_iff unat_mod_distrib unat_pow2)
  have c3: "?e \<noteq> 0" "?f \<noteq> 0" using order width by auto
  have zf: "fl_size ses = unat ?f" using order width by (auto simp: fl_size_def ses_def session_opts_def)
  have zp: "fl_size ses \<le> 2 ^ p" using page(3) by (rule dvd_imp_le) simp
  have "unat (ucast ?f :: u64) = unat ?f" using width by auto
  then have c4: "\<not> (2 ^ p :: u64) < ucast ?f" using zp zf page(2) by (simp add: word_less_nat_alt unat_pow2 not_less)
  have u: "unat ((of_nat L :: u64) div 2 ^ p div 8) = L div 2 ^ p div 8" using L page(2) by (simp add: unat_div_distrib unat_pow2 unat_of_nat)
  have c5: "index_int (of_nat L div 2 ^ p div 8) = int (L div 2 ^ p div 8)"
    unfolding of_unat [OF u, symmetric] index_int_def using bitmap by (simp add: unsigned_of_nat signed_of_nat signed_take_bit_int_eq_self take_bit_nat_eq_self)
  have "cfg\<lparr>fo_firmware_length := of_nat L, fo_format := ?f OR ?e\<rparr> = ses" by (simp add: ses_def session_opts_def L_def)
  moreover have "fo_sector_size ses = fo_sector_size cfg" by (simp add: ses_def session_opts_def)
  ultimately show ?thesis using c0 c1 c2 c3 c4 c5 by (simp add: flash_main_def Let_def page(1) s_def L_def)
qed

text \<open>C13: the flash programmer leaves the firmware in the memory. Whatever the memory held, whether the size of its sectors is given or
  detected, and whether everything is erased or only what the quick scan finds dirty, the program ends without an error: every byte of the
  file is at its place (with its bits reversed if asked for), the rest of the last sector is blank, and the memory before
  and behind the sectors of the firmware is untouched; the firmware starts at a sector, and the verification at the end agrees.\<close>

theorem flash_programmed:
  fixes d :: "'w flash_dev" and cfg :: flash_opts and line_width device_support :: eb_width_t and endian :: eb_format_t and w :: 'w
  defines "ses \<equiv> session_opts line_width device_support endian cfg"
  assumes S: "flash_setting d ch (detect_opts ses (ch_k ch)) n"
    and width: "pick_format line_width device_support \<in> {EB_DATA8, EB_DATA16, EB_DATA32, EB_DATA64}"
    and order: "(if endian = 0 then device_support AND EB_ENDIAN_MASK else endian) \<in> {EB_BIG_ENDIAN, EB_LITTLE_ENDIAN}"
    and page: "fo_page_size cfg = 2 ^ p" "p \<le> ch_k ch" "fl_size ses dvd 2 ^ p" "2 ^ p dvd length (fo_firmware cfg)" "2 ^ p dvd unat (fo_address cfg)"
    and bitmap: "n \<le> 8 * (length (fo_firmware cfg) div 2 ^ p div 8)" "length (fo_firmware cfg) div 2 ^ p div 8 < 2 ^ 31"
    and sector: "fo_sector_size cfg = 2 ^ ch_k ch \<or> fo_sector_size cfg = 0 \<and> ch_k ch \<le> 21 \<and> 2 ^ ch_k ch \<le> length (fo_firmware cfg)"
  shows "\<exists>s'. flash_main d line_width device_support endian cfg w = Some (Inr s') \<and>
    (\<forall>f < length (fo_firmware cfg). \<forall>t < 8.
       bit (ch_mem ch (fs_w s') (word_addr cfg (f - f mod fl_size ses))) (8 * lane ses (f mod fl_size ses) + t) =
       bit (fo_firmware cfg ! f) (if fo_invert cfg then 7 - t else t)) \<and>
    (\<forall>off < n * 2 ^ ch_k ch. fl_size ses dvd off \<longrightarrow> length (fo_firmware cfg) \<le> off \<longrightarrow> ch_mem ch (fs_w s') (word_addr cfg off) = ch_ones ch) \<and>
    (\<forall>x. outside cfg n (ch_k ch) x \<longrightarrow> ch_mem ch (fs_w s') x = ch_mem ch w x)"
proof -
  let ?L = "length (fo_firmware cfg)" and ?k = "ch_k ch" and ?z = "fl_size ses" and ?T = "ses\<lparr>fo_sector_size := 2 ^ ch_k ch\<rparr>"
  let ?s = "\<lparr>fs_w = w, fs_cycle = [], fs_queue = [], fs_inflight = 0, fs_bitmap = replicate (?L div 2 ^ p div 8) 0,
      fs_pos = 0, fs_last_offset = -1, fs_user = 0\<rparr>"
  let ?Q = "\<lambda>s' :: 'w flash_st. (\<forall>f < ?L. \<forall>t < 8. bit (ch_mem ch (fs_w s') (word_addr cfg (f - f mod ?z))) (8 * lane ses (f mod ?z) + t) =
       bit (fo_firmware cfg ! f) (if fo_invert cfg then 7 - t else t)) \<and>
    (\<forall>off < n * 2 ^ ?k. ?z dvd off \<longrightarrow> ?L \<le> off \<longrightarrow> ch_mem ch (fs_w s') (word_addr cfg off) = ch_ones ch) \<and>
    (\<forall>x. outside cfg n ?k x \<longrightarrow> ch_mem ch (fs_w s') x = ch_mem ch w x)"
  have same: "fl_size ?T = ?z" "fo_firmware ?T = fo_firmware cfg" "word_addr ?T = word_addr cfg" "outside ?T = outside cfg" "lane ?T = lane ses"
    "fo_invert ?T = fo_invert cfg" "outside ses = outside cfg" "fo_page_size ses = fo_page_size cfg" "fo_firmware ses = fo_firmware cfg"
    by (simp_all add: ses_def session_opts_def fl_size_def fun_eq_iff word_addr_def outside_def lane_def)
  note S' = S [unfolded detect_opts_def]
  have work: "ensures (flash_work d ?T s1) ?Q"
    if s1: "fs_queue s1 = []" "fs_cycle s1 = []" "fs_inflight s1 = 0" "fs_pos s1 = 0" "fs_last_offset s1 = -1" "n \<le> 8 * length (fs_bitmap s1)"
      and out: "\<forall>x. outside cfg n ?k x \<longrightarrow> ch_mem ch (fs_w s1) x = ch_mem ch w x" for s1
    by (rule ensures_mono [OF flash_work_bits [OF S' s1, unfolded same]]) (use out in simp)
  have L: "?L < 2 ^ 64" and p: "p < 64"
    using setting_facts(10,17) [OF S] page(2) by (simp_all add: detect_opts_facts(5) same(9))
  note main = flash_main_start [OF width order page(1) p page(3-5) [unfolded ses_def] L bitmap(2), where d = d and w = w, folded ses_def]
  have "ensures (flash_main d line_width device_support endian cfg w) ?Q"
  proof (cases "fo_sector_size cfg = 0")
    case False
    then have "ses = ?T" using sector by (simp add: ses_def session_opts_def)
    then show ?thesis using False main work [of ?s] bitmap(1) by simp
  next
    case True
    have "unat (2 ^ ?k :: u64) = 2 ^ ?k" by (rule unat_pow2) (use setting_facts(10) [OF S] in simp)
    then have "(2 ^ ?k :: u64) \<noteq> 0" by (metis power_not_zero unat_0 zero_neq_numeral)
    then have k: "?k \<le> 21" "2 ^ ?k \<le> ?L" using sector True by auto
    have D: "ensures (detect_sector_size d ses ?s) (\<lambda>(sz, s'). sz = 2 ^ ?k \<and> (\<exists>w'. s' = ?s\<lparr>fs_w := w', fs_user := sz\<rparr> \<and>
        (\<forall>x. outside ses n ?k x \<longrightarrow> ch_mem ch w' x = ch_mem ch (fs_w ?s) x)))"
      by (rule detect_ensures [OF S]) (use page k in \<open>simp_all add: same\<close>)
    show ?thesis unfolding main if_P [OF True]
    proof (rule ensures_and_then [OF D])
      fix a :: "u64 \<times> 'w flash_st" assume "case a of (sz, s') \<Rightarrow> sz = 2 ^ ?k \<and> (\<exists>w'. s' = ?s\<lparr>fs_w := w', fs_user := sz\<rparr> \<and>
        (\<forall>x. outside ses n ?k x \<longrightarrow> ch_mem ch w' x = ch_mem ch (fs_w ?s) x))"
      then obtain w' where w': "a = (2 ^ ?k, ?s\<lparr>fs_w := w', fs_user := 2 ^ ?k\<rparr>)" "\<forall>x. outside cfg n ?k x \<longrightarrow> ch_mem ch w' x = ch_mem ch w x"
        by (cases a) (auto simp: same(7))
      show "ensures (case a of (sz, s) \<Rightarrow> flash_work d (ses\<lparr>fo_sector_size := sz\<rparr>) s) ?Q"
        unfolding w'(1) prod.case by (rule work) (use w'(2) bitmap(1) in simp_all)
    qed
  qed
  then show ?thesis unfolding ensures_def .
qed

theorem flash_programmed_witness:
  "\<exists>s'. flash_main demo_flash 4 0x14 0 demo_opts (\<lambda>x. 0) = Some (Inr s') \<and>
    (\<forall>f < 32. \<forall>t < 8. bit (fs_w s' (word_addr demo_opts (f - f mod 4))) (8 * (3 - f mod 4) + t) = bit (of_nat f :: u8) (7 - t))"
proof -
  let ?ses = "session_opts 4 0x14 0 demo_opts"
  have pf: "pick_format 4 0x14 = 4" by (simp add: pick_format_def Let_def)
  have fmt: "fo_format ?ses = 0x14" by (simp add: session_opts_def pf)
  have z: "fl_size ?ses = 4" by (simp add: fl_size_def fmt)
  have lane: "lane ?ses b = 3 - b" for b by (simp add: lane_def fmt z)
  have len: "length (fo_firmware demo_opts) = 32" "fo_page_size demo_opts = 2 ^ 2" "fo_address demo_opts = 0" "fo_sector_size demo_opts = 0" "fo_invert demo_opts"
    and nth: "\<And>f. f < 32 \<Longrightarrow> fo_firmware demo_opts ! f = of_nat f"
    by (simp_all add: demo_opts_def)
  have chip: "ch_k demo_chip = 5" "ch_mem demo_chip = (\<lambda>w. w)" by (simp_all add: demo_chip_def)
  have "\<exists>s'. flash_main demo_flash 4 0x14 0 demo_opts (\<lambda>x. 0) = Some (Inr s') \<and>
      (\<forall>f < length (fo_firmware demo_opts). \<forall>t < 8.
         bit (ch_mem demo_chip (fs_w s') (word_addr demo_opts (f - f mod fl_size ?ses))) (8 * lane ?ses (f mod fl_size ?ses) + t) =
         bit (fo_firmware demo_opts ! f) (if fo_invert demo_opts then 7 - t else t)) \<and>
      (\<forall>off < 1 * 2 ^ ch_k demo_chip. fl_size ?ses dvd off \<longrightarrow> length (fo_firmware demo_opts) \<le> off \<longrightarrow>
         ch_mem demo_chip (fs_w s') (word_addr demo_opts off) = ch_ones demo_chip) \<and>
      (\<forall>x. outside demo_opts 1 (ch_k demo_chip) x \<longrightarrow> ch_mem demo_chip (fs_w s') x = ch_mem demo_chip (\<lambda>x. 0) x)"
    by (rule flash_programmed [where p = 2]) (use demo_setting in \<open>simp_all add: chip pf z len\<close>)
  then obtain s' where s': "flash_main demo_flash 4 0x14 0 demo_opts (\<lambda>x. 0) = Some (Inr s')"
    "\<forall>f < length (fo_firmware demo_opts). \<forall>t < 8.
       bit (ch_mem demo_chip (fs_w s') (word_addr demo_opts (f - f mod fl_size ?ses))) (8 * lane ?ses (f mod fl_size ?ses) + t) =
       bit (fo_firmware demo_opts ! f) (if fo_invert demo_opts then 7 - t else t)" by blast
  then show ?thesis using nth by (simp add: len z lane chip)
qed

text \<open>C14: the detection finds the size of the sectors. For every sector size up to 2 MiB that is at least a page and not larger than the firmware, the
  test pattern of zeros, the erasure of one sector and the scan for the first zero left give exactly that size, without touching
  memory outside of the firmware's sectors and without a pending cycle left.\<close>

theorem sector_size_detected:
  assumes "flash_setting d ch (detect_opts cfg (ch_k ch)) n"
    and "fo_page_size cfg = 2 ^ p" "p \<le> ch_k ch" "fl_size cfg dvd 2 ^ p" and "ch_k ch \<le> 21" "2 ^ ch_k ch \<le> length (fo_firmware cfg)"
    and "fs_queue s = []" "fs_cycle s = []"
  shows "\<exists>s'. detect_sector_size d cfg s = Some (Inr (2 ^ ch_k ch, s')) \<and> fs_queue s' = [] \<and> fs_cycle s' = [] \<and> fs_bitmap s' = fs_bitmap s \<and>
    fs_pos s' = fs_pos s \<and> (\<forall>x. outside cfg n (ch_k ch) x \<longrightarrow> ch_mem ch (fs_w s') x = ch_mem ch (fs_w s) x)"
  using detect_ensures [OF assms] assms(7,8) unfolding ensures_def by auto

definition demo_flash_st :: "(u64 \<Rightarrow> u64) flash_st" where
  "demo_flash_st = \<lparr>fs_w = (\<lambda>x. 7), fs_cycle = [], fs_queue = [], fs_inflight = 0, fs_bitmap = [0], fs_pos = 0, fs_last_offset = -1, fs_user = 0\<rparr>"

theorem sector_size_detected_witness:
  "\<exists>s'. detect_sector_size demo_flash (session_opts 4 0x14 0 demo_opts) demo_flash_st = Some (Inr (2 ^ 5, s')) \<and> fs_queue s' = [] \<and> fs_cycle s' = []"
proof -
  let ?ses = "session_opts 4 0x14 0 demo_opts"
  have "fl_size ?ses = 4" by (simp add: fl_size_def session_opts_def pick_format_def Let_def)
  moreover have "fo_page_size ?ses = 2 ^ 2" "length (fo_firmware ?ses) = 32" by (simp_all add: session_opts_def demo_opts_def)
  moreover have "ch_k demo_chip = 5" by (simp add: demo_chip_def)
  ultimately show ?thesis
    using sector_size_detected [where d = demo_flash and ch = demo_chip and cfg = ?ses and n = 1 and p = 2 and s = demo_flash_st] demo_setting
    by (auto simp: demo_flash_st_def)
qed

end
