(* ===== verification/Spec2Isabelle.thy ===== *)
theory Spec2Isabelle
  imports Eb_Widths Eb_Pure_Slave Eb_Check Eb_Deliver Eb_Dev Eb_Lm32 Scu_Main Lm32_Sdb Lm32_Timer Flash_Main
begin

text \<open>
  Verification of the C code of the GSI timing system: the Etherbone library, which reaches Wishbone buses
  over a network, and the firmware and host tools built around it. Source paths are relative to \<^verbatim>\<open>src/\<close>.

  \<^bold>\<open>The program.\<close> A \<^emph>\<open>socket\<close> of the library (\<^verbatim>\<open>api/glue/socket.c\<close>) owns transports, the links of its \<^emph>\<open>devices\<close>
  (\<^verbatim>\<open>device.c\<close>) and a local bus of user-supplied \<^emph>\<open>handlers\<close> (\<^verbatim>\<open>handler.c\<close>). A user opens a \<^emph>\<open>cycle\<close> on a device,
  adds \<^emph>\<open>operations\<close> and closes it (\<^verbatim>\<open>cycle.c\<close>). When the event loop (\<^verbatim>\<open>transport/run.c\<close>) polls the socket, the master
  engine (\<^verbatim>\<open>format/master.c\<close>) checks the queued cycles, packs them into records and sends them; the slave engine
  (\<^verbatim>\<open>format/slave.c\<close>) of the other end decodes the records, performs the accesses through \<^verbatim>\<open>readwrite.c\<close> on its handlers and
  its configuration space, and answers into the same buffer. The answers come back as accesses to the configuration
  space of the first side and complete its cycles there. All objects live in one array (\<^verbatim>\<open>api/memory\<close>), so that a pointer is
  an index and an allocation may move everything. The embedded controllers run bare-metal firmware
  (\<^verbatim>\<open>modules/lm32-include\<close>, \<^verbatim>\<open>top/gsi_scu\<close>).

  \<^bold>\<open>Conventions.\<close> A C structure is a record, a union a datatype, an integer a word of its width. A function that can fault
  in C (an index outside an array, a dangling or wrong object pointer, a call through a null pointer, an undefined
  shift) has an option type, \<open>None\<close> being the fault; a theorem that gives \<open>Some\<close> shows that the fault cannot
  happen. Loops are structural recursions, functions with a measure, or, where the code itself might not
  end, \<open>partial_function (option)\<close> (\<open>loop\<close> in \<^verbatim>\<open>Eb_Refine\<close> is the general one), so that not returning is \<open>None\<close> as well;
  there is no fuel anywhere, and the theorems state that the value is \<open>Some\<close>. Heap accesses go through the
  typed getters and setters of \<^verbatim>\<open>Eb_Heap\<close>, which stand for the macros \<^verbatim>\<open>EB_CYCLE(x)\<close> and so on. Where the code keeps a
  C pointer into the object array across a call of user code, as the slave engine does with its transport and link, the model
  remembers the size of the array when the pointer was taken, and using it after the array has grown is a fault.
  \<open>room_for n\<close> says that \<open>n\<close> more objects can be allocated. The transports, the
  operating system, the peripherals of the boards and the user's callbacks are not part of the repository or
  not C code: they are parameters (\<open>env\<close>, \<open>os\<close>, \<open>board\<close>), and what a theorem needs of them is a named
  hypothesis (\<open>wire_ok\<close>, \<open>poll_ok\<close>, \<open>receives_ok\<close>, \<open>tcp_stream\<close>, \<open>families_ok\<close>, \<open>flags_law\<close>, \<open>msi_law\<close>, \<open>scu_law\<close>, \<open>regs_law\<close>, \<open>timer_law\<close>, \<open>link_law\<close>, \<open>memory_law\<close>, \<open>busy_law\<close>, \<open>erase_law\<close>) that a witness instantiates.

  \<^bold>\<open>Shared theories.\<close>
  \<^item> \<^verbatim>\<open>Eb_Prelude\<close>: integer types, constants, byte sequences, \<open>loop\<close>, the collections of simplification rules.
  \<^item> \<^verbatim>\<open>Eb_Refine\<close>: the locales \<open>refinement\<close> and \<open>loop_refinement\<close>, by which a sequence of calls, or a loop, is related to an
    abstract specification; interpreted for the virtual bus, the slave's loops and the parameter buffers.

  \<^bold>\<open>Objects and user interface of the library.\<close>
  \<^item> \<^verbatim>\<open>Eb_Widths\<close>: \<^verbatim>\<open>glue/widths.c\<close>, \<^verbatim>\<open>format.c\<close>; refining a set of widths keeps the largest, and parsing inverts printing.
  \<^item> \<^verbatim>\<open>Eb_Memory\<close>, \<^verbatim>\<open>Eb_Allocator\<close>: the object array and \<^verbatim>\<open>memory/{array,dynamic,static}.c\<close>; the locale \<open>eb_allocator\<close> is the
    contract of an allocator, interpreted for both back ends: no allocation aliases an object in use, and the
    exact number of objects that fit.
  \<^item> \<^verbatim>\<open>Eb_Heap\<close>: getters, setters and the frame rules between them; the locale \<open>heap_reverse\<close> is in-place list reversal, interpreted
    for operations, cycles and responses.
  \<^item> \<^verbatim>\<open>Eb_Operation\<close>, \<^verbatim>\<open>Eb_Cycle\<close>: \<^verbatim>\<open>operation.c\<close>, \<^verbatim>\<open>cycle.c\<close>; a closed cycle holds its operations in call order, an aborted one leaks nothing.
  \<^item> \<^verbatim>\<open>Eb_State\<close>: the state of a socket and the record of parameters \<open>env\<close>.
  \<^item> \<^verbatim>\<open>Eb_Sdb\<close>: \<^verbatim>\<open>sdb.c\<close>; a scan of the table a socket serves reports the attached devices to its callback.
  \<^item> \<^verbatim>\<open>Eb_Handler\<close>: \<^verbatim>\<open>handler.c\<close>; attach and detach refine a list of disjoint address ranges.
  \<^item> \<^verbatim>\<open>Eb_Socket\<close>, \<^verbatim>\<open>Eb_Device\<close>: \<^verbatim>\<open>socket.c\<close>, \<^verbatim>\<open>device.c\<close>: responses, timeouts, opening with the width negotiation, closing.
  \<^item> \<^verbatim>\<open>Eb_Readwrite\<close>: \<^verbatim>\<open>readwrite.c\<close>; a bus access reaches the one handler that owns the address, an error status the operation it belongs to.
  \<^item> \<^verbatim>\<open>Eb_Check\<close>: \<^verbatim>\<open>socket.c\<close> (\<^verbatim>\<open>eb_socket_check\<close>, \<^verbatim>\<open>eb_socket_open\<close>), \<^verbatim>\<open>transport/run.c\<close> and the blocking calls that wait for them.

  \<^bold>\<open>Protocol engines.\<close>
  \<^item> \<^verbatim>\<open>Eb_Slave\<close>: \<^verbatim>\<open>format/slave.c\<close>. \<^verbatim>\<open>Eb_Select\<close>: its decoding of the select lines accepts exactly the aligned lanes. \<^verbatim>\<open>Eb_Serve\<close>: the
    in-place engine refines one that reads a list and appends to another, so it never touches a byte outside its buffer
    or one it still needs. \<^verbatim>\<open>Eb_Pure_Slave\<close>: whatever datagram arrives at a socket that only serves, the engine ends without a
    fault and leaves the heap alone (locale \<open>serving\<close>).
  \<^item> \<^verbatim>\<open>Eb_Master\<close>: \<^verbatim>\<open>format/master.c\<close>. \<^verbatim>\<open>Eb_Records\<close>, \<^verbatim>\<open>Eb_Pack\<close>, \<^verbatim>\<open>Eb_Transmit\<close>, \<^verbatim>\<open>Eb_Flush\<close>: each record asks for the operations that were
    packed into it, records stay inside the buffer, packing ends, and on packets and streams alike the records of a
    cycle ask for its operations in order.
  \<^item> \<^verbatim>\<open>Eb_Deliver\<close>: both ends together: a cycle formatted by one side and processed by the other performs exactly its operations.

  \<^bold>\<open>Transports.\<close>
  \<^item> \<^verbatim>\<open>Eb_Posix\<close>: \<^verbatim>\<open>transport/posix-ip.c\<close>, \<^verbatim>\<open>posix-udp.c\<close>, \<^verbatim>\<open>posix-tcp.c\<close>. \<^verbatim>\<open>Eb_Tunnel\<close>: \<^verbatim>\<open>tunnel.c\<close> and the tables of \<^verbatim>\<open>transports.c\<close>; they keep
    the contract the engines assume, packets keep their boundaries however the stream is segmented, a datagram is answered to its sender, addresses are
    taken apart within their buffer. \<^verbatim>\<open>Eb_Dev\<close>: \<^verbatim>\<open>dev.c\<close>; the cache knows the blocking mode of the descriptor in every reachable state.
    \<^verbatim>\<open>Eb_Lm32\<close>: \<^verbatim>\<open>transport/lm32.c\<close> and the master core driver \<^verbatim>\<open>modules/lm32-include/ebm.c\<close>; the checksums of a frame verify,
    and an address is parsed into what it spells.

  \<^bold>\<open>Firmware.\<close>
  \<^item> \<^verbatim>\<open>Lm32_Printf\<close>: \<^verbatim>\<open>mprintf.c\<close> and \<^verbatim>\<open>sprinthex\<close>. \<^verbatim>\<open>Lm32_Irq\<close>: \<^verbatim>\<open>irq.c\<close>, \<^verbatim>\<open>aux.c\<close>; every pending interrupt is served once, in order.
    \<^verbatim>\<open>Lm32_Sdb\<close>: \<^verbatim>\<open>mini_sdb.c\<close>; the recursive search of the tables refines the search of a tree.
  \<^item> \<^verbatim>\<open>Scu_Buffer\<close>: \<^verbatim>\<open>cb.c\<close>; the circular buffers refine bounded queues. \<^verbatim>\<open>Scu_Bus\<close>: \<^verbatim>\<open>fg.c\<close>, \<^verbatim>\<open>scu_bus.c\<close>; the inventory of cards and
    function generators. \<^verbatim>\<open>Scu_Main\<close>: \<^verbatim>\<open>main.c\<close>, \<^verbatim>\<open>display.c\<close>; slave interrupts are routed to their slot, and the configuration reaches
    exactly the probed cards.
  \<^item> \<^verbatim>\<open>Lm32_Timer\<close>: \<^verbatim>\<open>timer.c\<close>; a timer gets its configuration and the others keep theirs.

  \<^bold>\<open>Tools.\<close> The flash programmer \<^verbatim>\<open>tools/eb-flash.c\<close>.
  \<^item> \<^verbatim>\<open>Flash_Tool\<close>: the definitions; the library is seen through the record \<open>flash_dev\<close> (opening, running the event loop, and the
    accesses of a cycle), an exit of the program is a value. \<^verbatim>\<open>Flash_Calls\<close>: the laws of the link and of the chip, rules for the loops, and
    the locale \<open>cycle_user\<close>, the contract of a routine that keeps several cycles in flight; interpreted for scanning, programming and verifying.
  \<^item> \<^verbatim>\<open>Flash_Bits\<close>: bytes in words, the reversal of bits, the widest common format. \<^verbatim>\<open>Flash_Scan\<close>: after the quick scan a sector is marked or
    blank. \<^verbatim>\<open>Flash_Program\<close>: the memory after erasing, programming and verifying. \<^verbatim>\<open>Flash_Detect\<close>: the sector size that is found.
    \<^verbatim>\<open>Flash_Main\<close>: the program as a whole leaves the firmware in the memory and nothing else changed.

  \<^bold>\<open>Not modelled.\<close> The C library and the operating system beyond the parameters named above; the \<^verbatim>\<open>malloc.c\<close> memory model, which
  only forwards to the C library; \<^verbatim>\<open>ReadTempDevices\<close> of \<^verbatim>\<open>scu_bus.c\<close>, which drives a one-wire controller whose code is in a
  submodule; \<^verbatim>\<open>cbDump\<close> of \<^verbatim>\<open>cb.c\<close>, which writes through an uninitialised pointer; the statements of \<^verbatim>\<open>main.c\<close> behind its idle
  loop, which are never reached; the fine-timing master (\<^verbatim>\<open>modules/ftm/swtest/ftm.c\<close>, \<^verbatim>\<open>ftm2.c\<close>, \<^verbatim>\<open>main.c\<close>), which uses constants
  that are defined nowhere in the repository; the command line tools other than \<^verbatim>\<open>eb-flash.c\<close>, and of that one the option parser, opening the connection, the search for the
  device and the messages; the C++, LabVIEW and Pascal bindings; the 8051 firmware of the USB bridge and the demo programs;
  hardware descriptions and the vendored toolchain.
\<close>

end
